(* ===== verification/Prelude.thy ===== *)
theory Prelude
  imports Main "HOL-Library.Word"
begin

text \<open>
  Shared material of the development: the machine types of the firmware, byte sequences and
  their encodings, the program type that every stateful C function is translated to, and the
  generic lemmas on lists, words and programs that the component theories use.

  A C function that may end in the application error handler (which disables interrupts and
  spins, \<^verbatim>\<open>app_error_save_and_stop\<close> in
  \<^verbatim>\<open>src/Firmware/nRFSDK/components/libraries/util/app_error.c\<close>) is a function from the
  state to an outcome and the state reached: \<open>Ret v\<close> when control returns with the value
  \<open>v\<close>, \<open>Fault e\<close> when the device has stopped with the error code \<open>e\<close>, \<open>Hang\<close> when a
  loop of the code does not end.
\<close>

named_theorems prog_simps \<open>unfolding rules of the program combinators\<close>
named_theorems nrf_codes \<open>numeric values of the return codes and constants\<close>
named_theorems sha_simps \<open>unfolding rules of the hash function\<close>

subsection \<open>Machine types\<close>

type_synonym u8 = "8 word"
type_synonym u16 = "16 word"
type_synonym u32 = "32 word"
type_synonym u64 = "64 word"
type_synonym bytes = "8 word list"

text \<open>A function pointer is the address of the code; \<open>NULL\<close> is the address 0.\<close>

type_synonym fnptr = "32 word"

abbreviation (input) NULL :: fnptr where
  "NULL \<equiv> 0"

subsection \<open>Programs: state passing with a fatal error\<close>

datatype 'a outcome = Ret 'a | Fault u32 | Hang

type_synonym ('s, 'a) prog = "'s \<Rightarrow> 'a outcome \<times> 's"

definition ret :: "'a \<Rightarrow> ('s, 'a) prog" where
  "ret x = (\<lambda>s. (Ret x, s))"

definition halt :: "u32 \<Rightarrow> ('s, 'a) prog" where
  "halt e = (\<lambda>s. (Fault e, s))"

definition hang :: "('s, 'a) prog" where
  "hang = (\<lambda>s. (Hang, s))"

definition bnd :: "('s, 'a) prog \<Rightarrow> ('a \<Rightarrow> ('s, 'b) prog) \<Rightarrow> ('s, 'b) prog" where
  "bnd f g = (\<lambda>s. case f s of (Ret x, s') \<Rightarrow> g x s' | (Fault e, s') \<Rightarrow> (Fault e, s') | (Hang, s') \<Rightarrow> (Hang, s'))"

definition andthen :: "('s, 'a) prog \<Rightarrow> ('s, 'b) prog \<Rightarrow> ('s, 'b) prog" where
  "andthen f g = bnd f (\<lambda>_. g)"

definition gets :: "('s \<Rightarrow> 'a) \<Rightarrow> ('s, 'a) prog" where
  "gets f = (\<lambda>s. (Ret (f s), s))"

definition modify :: "('s \<Rightarrow> 's) \<Rightarrow> ('s, unit) prog" where
  "modify f = (\<lambda>s. (Ret (), f s))"

definition guarded :: "bool \<Rightarrow> ('s, unit) prog \<Rightarrow> ('s, unit) prog" where
  "guarded b f = (if b then f else ret ())"

lemma ret_run [prog_simps, simp]: "ret x s = (Ret x, s)"
  by (simp add: ret_def)

lemma halt_run [prog_simps, simp]: "halt e s = (Fault e, s)"
  by (simp add: halt_def)

lemma hang_run [prog_simps, simp]: "hang s = (Hang, s)"
  by (simp add: hang_def)

lemma gets_run [prog_simps, simp]: "gets f s = (Ret (f s), s)"
  by (simp add: gets_def)

lemma modify_run [prog_simps, simp]: "modify f s = (Ret (), f s)"
  by (simp add: modify_def)

lemma bnd_run [prog_simps]:
  "bnd f g s = (case f s of (Ret x, s') \<Rightarrow> g x s' | (Fault e, s') \<Rightarrow> (Fault e, s') | (Hang, s') \<Rightarrow> (Hang, s'))"
  by (simp add: bnd_def)

lemma andthen_run [prog_simps]:
  "andthen f g s = (case f s of (Ret x, s') \<Rightarrow> g s' | (Fault e, s') \<Rightarrow> (Fault e, s') | (Hang, s') \<Rightarrow> (Hang, s'))"
  by (simp add: andthen_def bnd_def)

lemma guarded_run [prog_simps]: "guarded b f s = (if b then f s else (Ret (), s))"
  by (simp add: guarded_def)

lemma bnd_Ret [simp]: "f s = (Ret x, s') \<Longrightarrow> bnd f g s = g x s'"
  by (simp add: bnd_def)

lemma bnd_Fault [simp]: "f s = (Fault e, s') \<Longrightarrow> bnd f g s = (Fault e, s')"
  by (simp add: bnd_def)

lemma andthen_Ret [simp]: "f s = (Ret x, s') \<Longrightarrow> andthen f g s = g s'"
  by (simp add: andthen_def)

lemma andthen_Fault [simp]: "f s = (Fault e, s') \<Longrightarrow> andthen f g s = (Fault e, s')"
  by (simp add: andthen_def)

text \<open>The combinators form a monad, so sequences can be regrouped freely.\<close>

lemma bnd_ret_left [simp]: "bnd (ret x) g = g x"
  by (simp add: bnd_def fun_eq_iff)

lemma bnd_ret_right [simp]: "bnd f ret = f"
  by (auto simp: bnd_def fun_eq_iff split: prod.splits outcome.splits)

lemma bnd_assoc: "bnd (bnd f g) h = bnd f (\<lambda>x. bnd (g x) h)"
  by (auto simp: bnd_def fun_eq_iff split: prod.splits outcome.splits)

lemma bnd_halt [simp]: "bnd (halt e) g = halt e"
  by (simp add: bnd_def fun_eq_iff)

subsection \<open>Preservation of a state property\<close>

text \<open>
  \<open>keeps P f\<close>: whatever \<open>f\<close> does, returning or stopping, a state with \<open>P\<close> leads to a
  state with \<open>P\<close>.
\<close>

definition keeps :: "('s \<Rightarrow> bool) \<Rightarrow> ('s, 'a) prog \<Rightarrow> bool" where
  "keeps P f \<longleftrightarrow> (\<forall>s. P s \<longrightarrow> P (snd (f s)))"

named_theorems keeps_intros \<open>introduction rules for state preservation\<close>

lemma keepsI: "(\<And>s. P s \<Longrightarrow> P (snd (f s))) \<Longrightarrow> keeps P f"
  by (simp add: keeps_def)

lemma keepsD: "keeps P f \<Longrightarrow> P s \<Longrightarrow> P (snd (f s))"
  by (simp add: keeps_def)

lemma keeps_ret [keeps_intros]: "keeps P (ret x)"
  by (simp add: keeps_def)

lemma keeps_halt [keeps_intros]: "keeps P (halt e)"
  by (simp add: keeps_def)

lemma keeps_hang [keeps_intros]: "keeps P hang"
  by (simp add: keeps_def)

lemma keeps_gets [keeps_intros]: "keeps P (gets f)"
  by (simp add: keeps_def)

lemma keeps_modify: "(\<And>s. P s \<Longrightarrow> P (f s)) \<Longrightarrow> keeps P (modify f)"
  by (simp add: keeps_def)

lemma keeps_bnd [keeps_intros]:
  assumes "keeps P f" and "\<And>x. keeps P (g x)"
  shows "keeps P (bnd f g)"
  using assms by (auto simp: keeps_def bnd_def split: prod.splits outcome.splits)

lemma keeps_andthen [keeps_intros]:
  "keeps P f \<Longrightarrow> keeps P g \<Longrightarrow> keeps P (andthen f g)"
  by (simp add: andthen_def keeps_bnd)

lemma keeps_guarded [keeps_intros]: "keeps P f \<Longrightarrow> keeps P (guarded b f)"
  by (simp add: guarded_def keeps_ret)

lemma keeps_if [keeps_intros]: "keeps P f \<Longrightarrow> keeps P g \<Longrightarrow> keeps P (if b then f else g)"
  by simp

subsection \<open>Lists of bytes\<close>

text \<open>
  \<open>chunks n xs\<close> cuts a list into pieces of \<open>n\<close> elements; only used on lists whose length is
  a multiple of \<open>n\<close>.
\<close>

function chunks :: "nat \<Rightarrow> 'a list \<Rightarrow> 'a list list" where
  "chunks n xs = (if xs = [] \<or> n = 0 then [] else take n xs # chunks n (drop n xs))"
  by pat_completeness auto
termination
  by (relation "measure (\<lambda>(n, xs). length xs)") auto

declare chunks.simps [simp del]

lemma chunks_Nil [simp]: "chunks n [] = []"
  by (subst chunks.simps) simp

lemma chunks_append1:
  "length xs = n \<Longrightarrow> 0 < n \<Longrightarrow> chunks n (xs @ ys) = xs # chunks n ys"
  by (subst chunks.simps) (auto simp: take_all)

lemma chunks_append:
  assumes "length xs = k * n" and "0 < n"
  shows "chunks n (xs @ ys) = chunks n xs @ chunks n ys"
  using assms(1)
proof (induction k arbitrary: xs)
  case 0
  then show ?case by simp
next
  case (Suc k)
  define a b where "a = take n xs" and "b = drop n xs"
  have xs: "xs = a @ b" and a: "length a = n" and b: "length b = k * n"
    using Suc.prems by (auto simp: a_def b_def)
  have "chunks n (xs @ ys) = a # chunks n (b @ ys)"
    using a assms(2) by (simp add: xs chunks_append1)
  also have "\<dots> = a # chunks n b @ chunks n ys"
    using Suc.IH b by simp
  also have "\<dots> = chunks n xs @ chunks n ys"
    using a assms(2) by (simp add: xs chunks_append1)
  finally show ?case .
qed

lemma chunks_single: "length xs = n \<Longrightarrow> 0 < n \<Longrightarrow> chunks n xs = [xs]"
  using chunks_append1 [of xs n "[]"] by simp

text \<open>Writing a whole block over the start of an array.\<close>

definition memcpy_at :: "'a list \<Rightarrow> nat \<Rightarrow> 'a list \<Rightarrow> 'a list" where
  "memcpy_at dst off src = take off dst @ src @ drop (off + length src) dst"

lemma length_memcpy_at [simp]:
  "off + length src \<le> length dst \<Longrightarrow> length (memcpy_at dst off src) = length dst"
  by (simp add: memcpy_at_def)

lemma take_list_update_Suc:
  "i < length xs \<Longrightarrow> take (Suc i) (xs[i := x]) = take i xs @ [x]"
  by (simp add: take_Suc_conv_app_nth)

lemma foldl_list_update_run:
  "foldl (\<lambda>xs j. xs[j := c]) xs [i..<n] = take i xs @ replicate (min n (length xs) - i) c @ drop (max i n) xs"
  if "i \<le> length xs"
proof (cases "i \<le> n")
  case True
  then show ?thesis
  proof (induction n rule: dec_induct)
    case base
    then show ?case using that by simp
  next
    case (step n)
    let ?ys = "take i xs @ replicate (min n (length xs) - i) c @ drop n xs"
    have "foldl (\<lambda>xs j. xs[j := c]) xs [i..<Suc n] = ?ys[n := c]"
      using step that by (simp add: max_absorb2)
    also have "\<dots> = take i xs @ replicate (min (Suc n) (length xs) - i) c @ drop (Suc n) xs"
    proof (cases "n < length xs")
      case True
      then have "drop n xs = xs ! n # drop (Suc n) xs"
        by (simp add: Cons_nth_drop_Suc)
      moreover have "replicate (Suc n - i) c = replicate (n - i) c @ [c]"
        using step(1) by (simp add: Suc_diff_le replicate_append_same)
      ultimately show ?thesis
        using True step(1) that by (simp add: list_update_append min_def)
    next
      case False
      then show ?thesis using step(1) that by (simp add: min_def list_update_beyond)
    qed
    finally show ?case using step(1) by (simp add: max_absorb2)
  qed
next
  case False
  then show ?thesis using that by simp
qed

subsection \<open>Bytes and words\<close>

text \<open>Little-endian encoding of a 32-bit word, as it lies in the Cortex-M memory.\<close>

definition le_bytes32 :: "u32 \<Rightarrow> bytes" where
  "le_bytes32 w = [ucast w, ucast (drop_bit 8 w), ucast (drop_bit 16 w), ucast (drop_bit 24 w)]"

definition be_bytes32 :: "u32 \<Rightarrow> bytes" where
  "be_bytes32 w = [ucast (drop_bit 24 w), ucast (drop_bit 16 w), ucast (drop_bit 8 w), ucast w]"

definition be_bytes64 :: "u64 \<Rightarrow> bytes" where
  "be_bytes64 w =
     [ucast (drop_bit 56 w), ucast (drop_bit 48 w), ucast (drop_bit 40 w), ucast (drop_bit 32 w),
      ucast (drop_bit 24 w), ucast (drop_bit 16 w), ucast (drop_bit 8 w), ucast w]"

lemma length_le_bytes32 [simp]: "length (le_bytes32 w) = 4"
  by (simp add: le_bytes32_def)

lemma length_be_bytes32 [simp]: "length (be_bytes32 w) = 4"
  by (simp add: be_bytes32_def)

lemma length_be_bytes64 [simp]: "length (be_bytes64 w) = 8"
  by (simp add: be_bytes64_def)

lemma le_bytes32_inj: "le_bytes32 v = le_bytes32 w \<longleftrightarrow> v = w"
proof
  assume *: "le_bytes32 v = le_bytes32 w"
  show "v = w"
  proof (rule bit_word_eqI)
    fix n :: nat
    assume n: "n < LENGTH(32)"
    define q where "q = n div 8"
    define r where "r = n mod 8"
    have r: "r < 8" and nq: "n = q * 8 + r" and q: "q < 4"
      using n by (auto simp: q_def r_def)
    have "bit (ucast (drop_bit (q * 8) v) :: u8) r = bit (ucast (drop_bit (q * 8) w) :: u8) r"
    proof -
      consider "q = 0" | "q = 1" | "q = 2" | "q = 3"
        using q by linarith
      then show ?thesis
        using * by cases (simp_all add: le_bytes32_def)
    qed
    then show "bit v n = bit w n"
      using r nq n by (simp add: bit_unsigned_iff bit_drop_bit_eq add.commute)
  qed
qed simp

subsection \<open>Counting loops\<close>

text \<open>A \<open>for\<close> loop over an index range is a left fold; it can be split at any point.\<close>

lemma foldl_upt_Suc: "i \<le> n \<Longrightarrow> foldl f a [i..<Suc n] = f (foldl f a [i..<n]) n"
  by simp

lemma foldl_invariant:
  assumes "P a" and "\<And>x i. i \<in> set is \<Longrightarrow> P x \<Longrightarrow> P (f x i)"
  shows "P (foldl f a is)"
  using assms by (induction "is" arbitrary: a) auto

end
