(* ===== verification/Sha256.thy ===== *)
theory Sha256
  imports Prelude
begin

text \<open>
  The hash function of \<^verbatim>\<open>components/libraries/sha256/sha256.c\<close>, translated statement by
  statement, and the mathematical definition of SHA-256 (FIPS 180-4) it is meant to compute.

  \<open>sha256_context\<close> is \<^verbatim>\<open>sha256_context_t\<close>; a pointer argument that the code compares with
  \<^verbatim>\<open>NULL\<close> is an option. Arrays are lists; a byte array passed with a length is the list of
  the bytes in memory from that address on, of which the code reads the first \<open>len\<close>.
  The main results: a context fed by any number of updates represents the concatenation of
  the data, and the extracted digest is the FIPS digest of that message.
\<close>

unbundle bit_operations_syntax

definition NRF_SUCCESS :: u32 where [nrf_codes]: "NRF_SUCCESS = 0"
definition NRF_ERROR_NULL :: u32 where [nrf_codes]: "NRF_ERROR_NULL = 14"

subsection \<open>The program\<close>

record sha256_context =
  ctx_data :: bytes
  ctx_datalen :: u32
  ctx_bitlen :: u64
  ctx_state :: "u32 list"

definition ROTRIGHT :: "u32 \<Rightarrow> nat \<Rightarrow> u32" where
  "ROTRIGHT a b = drop_bit b a OR push_bit (32 - b) a"

definition CH :: "u32 \<Rightarrow> u32 \<Rightarrow> u32 \<Rightarrow> u32" where
  "CH x y z = (x AND y) XOR (NOT x AND z)"

definition MAJ :: "u32 \<Rightarrow> u32 \<Rightarrow> u32 \<Rightarrow> u32" where
  "MAJ x y z = (x AND y) XOR (x AND z) XOR (y AND z)"

definition EP0 :: "u32 \<Rightarrow> u32" where
  "EP0 x = ROTRIGHT x 2 XOR ROTRIGHT x 13 XOR ROTRIGHT x 22"

definition EP1 :: "u32 \<Rightarrow> u32" where
  "EP1 x = ROTRIGHT x 6 XOR ROTRIGHT x 11 XOR ROTRIGHT x 25"

definition SIG0 :: "u32 \<Rightarrow> u32" where
  "SIG0 x = ROTRIGHT x 7 XOR ROTRIGHT x 18 XOR drop_bit 3 x"

definition SIG1 :: "u32 \<Rightarrow> u32" where
  "SIG1 x = ROTRIGHT x 17 XOR ROTRIGHT x 19 XOR drop_bit 10 x"

definition sha_k :: "u32 list" where
  "sha_k =
    [0x428a2f98,0x71374491,0xb5c0fbcf,0xe9b5dba5,0x3956c25b,0x59f111f1,0x923f82a4,0xab1c5ed5] @
    [0xd807aa98,0x12835b01,0x243185be,0x550c7dc3,0x72be5d74,0x80deb1fe,0x9bdc06a7,0xc19bf174] @
    [0xe49b69c1,0xefbe4786,0x0fc19dc6,0x240ca1cc,0x2de92c6f,0x4a7484aa,0x5cb0a9dc,0x76f988da] @
    [0x983e5152,0xa831c66d,0xb00327c8,0xbf597fc7,0xc6e00bf3,0xd5a79147,0x06ca6351,0x14292967] @
    [0x27b70a85,0x2e1b2138,0x4d2c6dfc,0x53380d13,0x650a7354,0x766a0abb,0x81c2c92e,0x92722c85] @
    [0xa2bfe8a1,0xa81a664b,0xc24b8b70,0xc76c51a3,0xd192e819,0xd6990624,0xf40e3585,0x106aa070] @
    [0x19a4c116,0x1e376c08,0x2748774c,0x34b0bcb5,0x391c0cb3,0x4ed8aa4a,0x5b9cca4f,0x682e6ff3] @
    [0x748f82ee,0x78a5636f,0x84c87814,0x8cc70208,0x90befffa,0xa4506ceb,0xbef9a3f7,0xc67178f2]"

text \<open>The two loops that fill \<^verbatim>\<open>m[64]\<close> in \<^verbatim>\<open>sha256_transform\<close>.\<close>

definition load_word :: "bytes \<Rightarrow> nat \<Rightarrow> u32" where
  "load_word data j =
     push_bit 24 (ucast (data ! j)) OR push_bit 16 (ucast (data ! (j + 1)))
     OR push_bit 8 (ucast (data ! (j + 2))) OR ucast (data ! (j + 3))"

definition sha256_schedule :: "bytes \<Rightarrow> u32 list" where
  "sha256_schedule data =
     foldl (\<lambda>m i. m @ [SIG1 (m ! (i - 2)) + m ! (i - 7) + SIG0 (m ! (i - 15)) + m ! (i - 16)])
       (map (\<lambda>i. load_word data (4 * i)) [0..<16]) [16..<64]"

type_synonym sha_vars = "u32 \<times> u32 \<times> u32 \<times> u32 \<times> u32 \<times> u32 \<times> u32 \<times> u32"

definition sha256_round :: "u32 list \<Rightarrow> sha_vars \<Rightarrow> nat \<Rightarrow> sha_vars" where
  "sha256_round m v i =
     (case v of (a, b, c, d, e, f, g, h) \<Rightarrow>
        let t1 = h + EP1 e + CH e f g + sha_k ! i + m ! i;
            t2 = EP0 a + MAJ a b c
        in (t1 + t2, a, b, c, d + t1, e, f, g))"

definition sha256_transform :: "sha256_context \<Rightarrow> bytes \<Rightarrow> sha256_context" where
  "sha256_transform ctx data =
     (let m = sha256_schedule data;
          st = ctx_state ctx
      in case foldl (sha256_round m)
                (st ! 0, st ! 1, st ! 2, st ! 3, st ! 4, st ! 5, st ! 6, st ! 7) [0..<64] of
           (a, b, c, d, e, f, g, h) \<Rightarrow>
             ctx\<lparr>ctx_state := st[0 := st ! 0 + a, 1 := st ! 1 + b, 2 := st ! 2 + c, 3 := st ! 3 + d,
                                4 := st ! 4 + e, 5 := st ! 5 + f, 6 := st ! 6 + g, 7 := st ! 7 + h]\<rparr>)"

definition sha256_init :: "sha256_context option \<Rightarrow> u32 \<times> sha256_context option" where
  "sha256_init p_ctx =
     (case p_ctx of
        None \<Rightarrow> (NRF_ERROR_NULL, None)
      | Some ctx \<Rightarrow>
          (NRF_SUCCESS,
           Some (ctx\<lparr>ctx_datalen := 0, ctx_bitlen := 0,
                     ctx_state := (ctx_state ctx)[0 := 0x6a09e667, 1 := 0xbb67ae85, 2 := 0x3c6ef372,
                       3 := 0xa54ff53a, 4 := 0x510e527f, 5 := 0x9b05688c, 6 := 0x1f83d9ab,
                       7 := 0x5be0cd19]\<rparr>)))"

text \<open>One iteration of the loop of \<^verbatim>\<open>sha256_update\<close>.\<close>

definition sha256_absorb :: "sha256_context \<Rightarrow> u8 \<Rightarrow> sha256_context" where
  "sha256_absorb ctx x =
     (let ctx = ctx\<lparr>ctx_data := (ctx_data ctx)[unat (ctx_datalen ctx) := x],
                    ctx_datalen := ctx_datalen ctx + 1\<rparr>
      in if ctx_datalen ctx = 64
         then (let ctx = sha256_transform ctx (ctx_data ctx)
               in ctx\<lparr>ctx_bitlen := ctx_bitlen ctx + 512, ctx_datalen := 0\<rparr>)
         else ctx)"

definition sha256_update ::
  "sha256_context option \<Rightarrow> bytes option \<Rightarrow> nat \<Rightarrow> u32 \<times> sha256_context option" where
  "sha256_update p_ctx p_data len =
     (case p_ctx of
        None \<Rightarrow> (NRF_ERROR_NULL, None)
      | Some ctx \<Rightarrow>
          (case p_data of
             None \<Rightarrow> if 0 < len then (NRF_ERROR_NULL, Some ctx) else (NRF_SUCCESS, Some ctx)
           | Some data \<Rightarrow>
               (NRF_SUCCESS, Some (foldl sha256_absorb ctx (take len data)))))"

text \<open>The padding branch of \<^verbatim>\<open>sha256_final\<close>: both \<^verbatim>\<open>while\<close> loops store zero bytes.\<close>

definition sha256_pad :: "sha256_context \<Rightarrow> sha256_context" where
  "sha256_pad ctx =
     (let i = unat (ctx_datalen ctx)
      in if ctx_datalen ctx < 56
         then ctx\<lparr>ctx_data := foldl (\<lambda>d j. d[j := 0]) ((ctx_data ctx)[i := 0x80]) [i + 1..<56]\<rparr>
         else (let ctx = ctx\<lparr>ctx_data :=
                           foldl (\<lambda>d j. d[j := 0]) ((ctx_data ctx)[i := 0x80]) [i + 1..<64]\<rparr>;
                   ctx = sha256_transform ctx (ctx_data ctx)
               in ctx\<lparr>ctx_data := memcpy_at (ctx_data ctx) 0 (replicate 56 0)\<rparr>))"

definition sha256_append_length :: "sha256_context \<Rightarrow> sha256_context" where
  "sha256_append_length ctx =
     (let n = ctx_bitlen ctx + ucast (ctx_datalen ctx) * 8
      in ctx\<lparr>ctx_bitlen := n,
             ctx_data := (ctx_data ctx)
               [63 := ucast n, 62 := ucast (drop_bit 8 n), 61 := ucast (drop_bit 16 n),
                60 := ucast (drop_bit 24 n), 59 := ucast (drop_bit 32 n),
                58 := ucast (drop_bit 40 n), 57 := ucast (drop_bit 48 n),
                56 := ucast (drop_bit 56 n)]\<rparr>)"

text \<open>The two output loops of \<^verbatim>\<open>sha256_final\<close>, selected by \<^verbatim>\<open>le\<close>.\<close>

definition sha_byte :: "u32 \<Rightarrow> nat \<Rightarrow> u8" where
  "sha_byte w n = ucast (drop_bit n w AND 0xff)"

definition sha256_store :: "u32 list \<Rightarrow> u8 \<Rightarrow> bytes \<Rightarrow> bytes" where
  "sha256_store st le hash =
     (if le \<noteq> 0
      then foldl (\<lambda>h i. h[i := sha_byte (st ! 7) (i * 8), i + 4 := sha_byte (st ! 6) (i * 8),
                          i + 8 := sha_byte (st ! 5) (i * 8), i + 12 := sha_byte (st ! 4) (i * 8),
                          i + 16 := sha_byte (st ! 3) (i * 8), i + 20 := sha_byte (st ! 2) (i * 8),
                          i + 24 := sha_byte (st ! 1) (i * 8), i + 28 := sha_byte (st ! 0) (i * 8)])
             hash [0..<4]
      else foldl (\<lambda>h i. h[i := sha_byte (st ! 0) (24 - i * 8), i + 4 := sha_byte (st ! 1) (24 - i * 8),
                          i + 8 := sha_byte (st ! 2) (24 - i * 8), i + 12 := sha_byte (st ! 3) (24 - i * 8),
                          i + 16 := sha_byte (st ! 4) (24 - i * 8), i + 20 := sha_byte (st ! 5) (24 - i * 8),
                          i + 24 := sha_byte (st ! 6) (24 - i * 8), i + 28 := sha_byte (st ! 7) (24 - i * 8)])
             hash [0..<4])"

definition sha256_final ::
  "sha256_context option \<Rightarrow> bytes option \<Rightarrow> u8 \<Rightarrow> u32 \<times> sha256_context option \<times> bytes option" where
  "sha256_final p_ctx p_hash le =
     (case p_ctx of
        None \<Rightarrow> (NRF_ERROR_NULL, None, p_hash)
      | Some ctx \<Rightarrow>
          (case p_hash of
             None \<Rightarrow> (NRF_ERROR_NULL, Some ctx, None)
           | Some hash \<Rightarrow>
               (let ctx = sha256_append_length (sha256_pad ctx);
                    ctx = sha256_transform ctx (ctx_data ctx)
                in (NRF_SUCCESS, Some ctx, Some (sha256_store (ctx_state ctx) le hash)))))"

subsection \<open>FIPS 180-4\<close>

definition fips_Sigma0 :: "u32 \<Rightarrow> u32" where
  "fips_Sigma0 x = word_rotr 2 x XOR word_rotr 13 x XOR word_rotr 22 x"
definition fips_Sigma1 :: "u32 \<Rightarrow> u32" where
  "fips_Sigma1 x = word_rotr 6 x XOR word_rotr 11 x XOR word_rotr 25 x"
definition fips_sigma0 :: "u32 \<Rightarrow> u32" where
  "fips_sigma0 x = word_rotr 7 x XOR word_rotr 18 x XOR drop_bit 3 x"
definition fips_sigma1 :: "u32 \<Rightarrow> u32" where
  "fips_sigma1 x = word_rotr 17 x XOR word_rotr 19 x XOR drop_bit 10 x"

text \<open>The message schedule by its recurrence, and the working variables after \<open>n\<close> rounds.\<close>

fun fips_W :: "bytes \<Rightarrow> nat \<Rightarrow> u32" where
  "fips_W blk t =
     (if t < 16 then word_rcat (take 4 (drop (4 * t) blk))
      else fips_sigma1 (fips_W blk (t - 2)) + fips_W blk (t - 7)
           + fips_sigma0 (fips_W blk (t - 15)) + fips_W blk (t - 16))"

declare fips_W.simps [simp del]

primrec fips_vars :: "bytes \<Rightarrow> u32 list \<Rightarrow> nat \<Rightarrow> u32 list" where
  "fips_vars blk hs 0 = hs"
| "fips_vars blk hs (Suc t) =
     (let v = fips_vars blk hs t;
          T1 = v ! 7 + fips_Sigma1 (v ! 4) + CH (v ! 4) (v ! 5) (v ! 6) + sha_k ! t + fips_W blk t;
          T2 = fips_Sigma0 (v ! 0) + MAJ (v ! 0) (v ! 1) (v ! 2)
      in [T1 + T2, v ! 0, v ! 1, v ! 2, v ! 3 + T1, v ! 4, v ! 5, v ! 6])"

definition fips_compress :: "u32 list \<Rightarrow> bytes \<Rightarrow> u32 list" where
  "fips_compress hs blk = map2 (+) hs (fips_vars blk hs 64)"

definition fips_H0 :: "u32 list" where
  "fips_H0 = [0x6a09e667, 0xbb67ae85, 0x3c6ef372, 0xa54ff53a,
              0x510e527f, 0x9b05688c, 0x1f83d9ab, 0x5be0cd19]"

definition fips_pad :: "bytes \<Rightarrow> bytes" where
  "fips_pad msg = msg @ [0x80] @ replicate ((119 - length msg mod 64) mod 64) 0
                    @ be_bytes64 (of_nat (8 * length msg))"

definition fips_sha256 :: "bytes \<Rightarrow> bytes" where
  "fips_sha256 msg =
     concat (map be_bytes32 (foldl fips_compress fips_H0 (chunks 64 (fips_pad msg))))"

subsection \<open>What a context represents\<close>

text \<open>
  \<open>sha_repr ctx msg\<close>: the context is in the state the code keeps after \<open>msg\<close> was fed to it:
  the whole blocks are compressed, the rest lies at the start of the buffer, and
  \<^verbatim>\<open>bitlen\<close> counts the compressed bits.
\<close>

definition sha_repr :: "sha256_context \<Rightarrow> bytes \<Rightarrow> bool" where
  "sha_repr ctx msg \<longleftrightarrow>
     (\<exists>q full rest. msg = full @ rest \<and> length full = q * 64 \<and> length rest < 64
        \<and> length (ctx_data ctx) = 64 \<and> length (ctx_state ctx) = 8
        \<and> unat (ctx_datalen ctx) = length rest \<and> take (length rest) (ctx_data ctx) = rest
        \<and> ctx_bitlen ctx = of_nat (512 * q)
        \<and> ctx_state ctx = foldl fips_compress fips_H0 (chunks 64 full))"

definition vars_tuple :: "u32 list \<Rightarrow> sha_vars" where
  "vars_tuple v = (v ! 0, v ! 1, v ! 2, v ! 3, v ! 4, v ! 5, v ! 6, v ! 7)"

definition sha_final_state :: "sha256_context \<Rightarrow> u32 list" where
  "sha_final_state ctx =
     (let ctx = sha256_append_length (sha256_pad ctx)
      in ctx_state (sha256_transform ctx (ctx_data ctx)))"

definition sha256_updates :: "sha256_context option \<Rightarrow> bytes list \<Rightarrow> sha256_context option" where
  "sha256_updates p_ctx segs =
     foldl (\<lambda>c d. snd (sha256_update c (Some d) (length d))) p_ctx segs"

text \<open>Well-sized memory of the context type, whatever it contains.\<close>

definition sha_mem :: "sha256_context \<Rightarrow> bool" where
  "sha_mem ctx \<longleftrightarrow> length (ctx_data ctx) = 64 \<and> length (ctx_state ctx) = 8"

definition sha_mem_opt :: "sha256_context option \<Rightarrow> bool" where
  "sha_mem_opt c = (case c of None \<Rightarrow> False | Some ctx \<Rightarrow> sha_mem ctx)"

definition sha_repr_opt :: "sha256_context option \<Rightarrow> bytes \<Rightarrow> bool" where
  "sha_repr_opt c msg = (case c of None \<Rightarrow> False | Some ctx \<Rightarrow> sha_repr ctx msg)"

text \<open>
  The constants of FIPS 180-4, 4.2.2 and 5.3.3: the first 32 bits of the fractional parts of
  the cube roots of the first sixty-four primes, and of the square roots of the first eight.
  \<open>root_frac n k p\<close> says that \<open>k\<close> is that for the \<open>n\<close>-th root of \<open>p\<close>.
\<close>

definition small_primes :: "int list" where
  "small_primes = filter (\<lambda>p. list_all (\<lambda>d. p < d * d \<or> p mod d \<noteq> 0) [2..17]) [2..311]"

definition root_frac :: "nat \<Rightarrow> u32 \<Rightarrow> int \<Rightarrow> bool" where
  "root_frac n k p =
     list_ex (\<lambda>a. (a * 2 ^ 32 + uint k) ^ n \<le> p * 2 ^ (32 * n)
                \<and> p * 2 ^ (32 * n) < (a * 2 ^ 32 + uint k + 1) ^ n) [1..7]"

subsection \<open>The bitwise operations\<close>

lemma ROTRIGHT_rotr:
  assumes "0 < n" and "n < 32"
  shows "ROTRIGHT a n = word_rotr n a"
proof (rule bit_word_eqI)
  fix k :: nat
  assume k: "k < LENGTH(32)"
  show "bit (ROTRIGHT a n) k = bit (word_rotr n a) k"
  proof (cases "k + n < 32")
    case True
    then have "\<not> 32 - n \<le> k" by simp
    with True assms k show ?thesis
      by (simp add: ROTRIGHT_def bit_word_rotr_iff bit_or_iff bit_drop_bit_eq bit_push_bit_iff add.commute)
  next
    case False
    then have "(k + n) mod 32 = k + n - 32" and "k - (32 - n) = k + n - 32"
      using assms k by (auto simp: mod_if)
    with False assms k show ?thesis
      by (auto simp: ROTRIGHT_def bit_word_rotr_iff bit_or_iff bit_drop_bit_eq bit_push_bit_iff
          dest: bit_imp_le_length)
  qed
qed

lemma EP0_fips: "EP0 = fips_Sigma0"
  by (simp add: fun_eq_iff EP0_def fips_Sigma0_def ROTRIGHT_rotr)
lemma EP1_fips: "EP1 = fips_Sigma1"
  by (simp add: fun_eq_iff EP1_def fips_Sigma1_def ROTRIGHT_rotr)
lemma SIG0_fips: "SIG0 = fips_sigma0"
  by (simp add: fun_eq_iff SIG0_def fips_sigma0_def ROTRIGHT_rotr)
lemma SIG1_fips: "SIG1 = fips_sigma1"
  by (simp add: fun_eq_iff SIG1_def fips_sigma1_def ROTRIGHT_rotr)

lemma word_rcat_4:
  "(word_rcat [a, b, c, d :: u8] :: u32) =
     push_bit 24 (ucast a) OR push_bit 16 (ucast b) OR push_bit 8 (ucast c) OR ucast d"
proof (rule bit_word_eqI)
  fix n :: nat
  assume n: "n < LENGTH(32)"
  have "bit (word_rcat [a, b, c, d] :: u32) n = bit (horner_sum uint (2 ^ LENGTH(8)) [d, c, b, a]) n"
    unfolding word_rcat_def comp_apply bit_word_of_int_iff
    using n by (simp only: rev.simps append.simps simp_thms)
  also have "\<dots> = (n div LENGTH(8) < length [d, c, b, a] \<and> bit ([d, c, b, a] ! (n div LENGTH(8))) (n mod LENGTH(8)))"
    by (rule bit_horner_sum_uint_exp_iff)
  also have "\<dots> = bit (push_bit 24 (ucast a) OR push_bit 16 (ucast b) OR push_bit 8 (ucast c) OR ucast d :: u32) n"
  proof -
    consider "n < 8" | "8 \<le> n \<and> n < 16" | "16 \<le> n \<and> n < 24" | "24 \<le> n \<and> n < 32"
      using n by force
    then show ?thesis
    proof cases
      case 1
      then show ?thesis by (simp add: bit_or_iff bit_push_bit_iff bit_unsigned_iff)
    next
      case 2
      then have "n div 8 = 1" "n mod 8 = n - 8" by presburger+
      with 2 show ?thesis
        by (auto simp: bit_or_iff bit_push_bit_iff bit_unsigned_iff dest: bit_imp_le_length)
    next
      case 3
      then have "n div 8 = 2" "n mod 8 = n - 16" by presburger+
      with 3 show ?thesis
        by (auto simp: bit_or_iff bit_push_bit_iff bit_unsigned_iff dest: bit_imp_le_length)
    next
      case 4
      then have "n div 8 = 3" "n mod 8 = n - 24" by presburger+
      with 4 show ?thesis
        by (auto simp: bit_or_iff bit_push_bit_iff bit_unsigned_iff dest: bit_imp_le_length)
    qed
  qed
  finally show "bit (word_rcat [a, b, c, d] :: u32) n =
    bit (push_bit 24 (ucast a) OR push_bit 16 (ucast b) OR push_bit 8 (ucast c) OR ucast d :: u32) n" .
qed

lemma load_word_fips:
  assumes "4 * i + 4 \<le> length blk"
  shows "load_word blk (4 * i) = word_rcat (take 4 (drop (4 * i) blk))"
proof -
  have "take 4 (drop (4 * i) blk) = [blk ! (4 * i), blk ! (4 * i + 1), blk ! (4 * i + 2), blk ! (4 * i + 3)]"
    using assms by (auto simp: list_eq_iff_nth_eq numeral_eq_Suc less_Suc_eq nth_Cons split: nat.splits)
  then show ?thesis
    by (simp add: load_word_def word_rcat_4)
qed
subsection \<open>One block\<close>

lemma sha256_schedule_fips:
  assumes "length blk = 64"
  shows "sha256_schedule blk = map (fips_W blk) [0..<64]"
proof -
  let ?f = "\<lambda>m i. m @ [SIG1 (m ! (i - 2)) + m ! (i - 7) + SIG0 (m ! (i - 15)) + m ! (i - 16)]"
  have key: "foldl ?f (map (\<lambda>i. load_word blk (4 * i)) [0..<16]) [16..<n] = map (fips_W blk) [0..<n]"
    if "16 \<le> n" for n
    using that
  proof (induction n rule: dec_induct)
    case base
    show ?case
      using assms by (auto simp: load_word_fips fips_W.simps)
  next
    case (step n)
    have "fips_W blk n = fips_sigma1 (fips_W blk (n - 2)) + fips_W blk (n - 7)
           + fips_sigma0 (fips_W blk (n - 15)) + fips_W blk (n - 16)"
      using step(1) by (subst fips_W.simps) simp
    then show ?case
      using step by (simp add: SIG0_fips SIG1_fips)
  qed
  show ?thesis
    unfolding sha256_schedule_def by (rule key) simp
qed

lemma length_fips_vars [simp]: "length hs = 8 \<Longrightarrow> length (fips_vars blk hs n) = 8"
  by (cases n) (simp_all add: Let_def)

lemma sha256_rounds_fips:
  assumes "\<And>i. i < n \<Longrightarrow> m ! i = fips_W blk i"
  shows "foldl (sha256_round m) (vars_tuple hs) [0..<n] = vars_tuple (fips_vars blk hs n)"
  using assms
proof (induction n)
  case 0
  then show ?case by simp
next
  case (Suc n)
  have "foldl (sha256_round m) (vars_tuple hs) [0..<Suc n]
      = sha256_round m (vars_tuple (fips_vars blk hs n)) n"
    using Suc.IH Suc.prems by simp
  also have "\<dots> = vars_tuple (fips_vars blk hs (Suc n))"
    unfolding sha256_round_def vars_tuple_def fips_vars.simps Let_def EP0_fips EP1_fips
      Suc.prems [OF lessI] prod.case
    by simp
  finally show ?case .
qed

lemma list8_eq: "length hs = 8 \<Longrightarrow> hs = [hs ! 0, hs ! 1, hs ! 2, hs ! 3, hs ! 4, hs ! 5, hs ! 6, hs ! 7]"
  by (auto simp: list_eq_iff_nth_eq numeral_eq_Suc less_Suc_eq nth_Cons split: nat.splits)

lemma list8_update:
  assumes "length st = 8"
  shows "st[0 := a, 1 := b, 2 := c, 3 := d, 4 := e, 5 := f, 6 := g, 7 := h] = [a, b, c, d, e, f, g, h]"
  by (subst list8_eq [OF assms]) simp

lemma sha256_transform_fips:
  assumes "length (ctx_state ctx) = 8" and "length blk = 64"
  shows "sha256_transform ctx blk = ctx\<lparr>ctx_state := fips_compress (ctx_state ctx) blk\<rparr>"
proof -
  let ?st = "ctx_state ctx" and ?v = "fips_vars blk (ctx_state ctx) 64"
  have "foldl (sha256_round (sha256_schedule blk)) (vars_tuple ?st) [0..<64] = vars_tuple ?v"
    using assms(2) by (intro sha256_rounds_fips) (simp add: sha256_schedule_fips)
  then have *: "foldl (sha256_round (sha256_schedule blk))
      (?st ! 0, ?st ! 1, ?st ! 2, ?st ! 3, ?st ! 4, ?st ! 5, ?st ! 6, ?st ! 7) [0..<64] = vars_tuple ?v"
    by (simp add: vars_tuple_def)
  have "fips_compress ?st blk =
    [?st ! 0 + ?v ! 0, ?st ! 1 + ?v ! 1, ?st ! 2 + ?v ! 2, ?st ! 3 + ?v ! 3,
     ?st ! 4 + ?v ! 4, ?st ! 5 + ?v ! 5, ?st ! 6 + ?v ! 6, ?st ! 7 + ?v ! 7]"
    unfolding fips_compress_def
    by (subst list8_eq [of ?st], simp add: assms, subst list8_eq [of ?v], simp add: assms, simp)
  then show ?thesis
    unfolding sha256_transform_def Let_def *
    using assms(1) by (simp add: vars_tuple_def list8_update [unfolded One_nat_def])
qed

lemma length_fips_compress [simp]: "length hs = 8 \<Longrightarrow> length (fips_compress hs blk) = 8"
  by (simp add: fips_compress_def)
subsection \<open>Feeding and closing a context\<close>

lemma sha256_absorb_repr:
  assumes "sha_repr ctx msg"
  shows "sha_repr (sha256_absorb ctx x) (msg @ [x])"
proof -
  obtain q full rest where r: "msg = full @ rest" "length full = q * 64" "length rest < 64"
      "length (ctx_data ctx) = 64" "length (ctx_state ctx) = 8"
      "unat (ctx_datalen ctx) = length rest" "take (length rest) (ctx_data ctx) = rest"
      "ctx_bitlen ctx = of_nat (512 * q)"
      "ctx_state ctx = foldl fips_compress fips_H0 (chunks 64 full)"
    using assms unfolding sha_repr_def by blast
  let ?n = "length rest" and ?d = "(ctx_data ctx)[length rest := x]"
  have n1: "unat (ctx_datalen ctx + 1) = Suc ?n"
    using r(3,6) by (simp add: unat_word_ariths)
  then have full: "ctx_datalen ctx + 1 = 64 \<longleftrightarrow> Suc ?n = 64"
    by (simp add: word_unat_eq_iff)
  have td: "take (Suc ?n) ?d = rest @ [x]"
    using r(3,4,7) by (simp add: take_list_update_Suc)
  show ?thesis
  proof (cases "Suc ?n = 64")
    case True
    then have n63: "length rest = 63" by simp
    have d: "?d = rest @ [x]"
      using td r(4) True by (metis length_list_update take_all_iff order_refl)
    have "sha256_absorb ctx x =
        ctx\<lparr>ctx_data := rest @ [x], ctx_datalen := 0,
            ctx_state := fips_compress (ctx_state ctx) (rest @ [x]),
            ctx_bitlen := ctx_bitlen ctx + 512\<rparr>"
      using True full r(5,6) d [unfolded n63] by (simp add: sha256_absorb_def Let_def sha256_transform_fips)
    moreover have "chunks 64 (full @ rest @ [x]) = chunks 64 full @ [rest @ [x]]"
      using chunks_append [OF r(2), of "rest @ [x]"] True by (simp add: chunks_single)
    ultimately show ?thesis
      unfolding sha_repr_def using r True
      by (intro exI [of _ "Suc q"] exI [of _ "full @ rest @ [x]"] exI [of _ "[]"]) (simp add: algebra_simps)
  next
    case False
    then have "sha256_absorb ctx x = ctx\<lparr>ctx_data := ?d, ctx_datalen := ctx_datalen ctx + 1\<rparr>"
      using full r(6) by (simp add: sha256_absorb_def Let_def)
    then show ?thesis
      unfolding sha_repr_def using r False td n1
      by (intro exI [of _ q] exI [of _ full] exI [of _ "rest @ [x]"]) simp
  qed
qed

lemma sha256_absorbs_repr:
  "sha_repr ctx msg \<Longrightarrow> sha_repr (foldl sha256_absorb ctx xs) (msg @ xs)"
proof (induction xs arbitrary: ctx msg)
  case Nil
  then show ?case by simp
next
  case (Cons x xs)
  have "sha_repr (foldl sha256_absorb (sha256_absorb ctx x) xs) ((msg @ [x]) @ xs)"
    by (rule Cons.IH [OF sha256_absorb_repr [OF Cons.prems]])
  then show ?case by simp
qed

lemma sha256_init_repr:
  assumes "length (ctx_data ctx) = 64" and "length (ctx_state ctx) = 8"
  shows "\<exists>ctx'. sha256_init (Some ctx) = (NRF_SUCCESS, Some ctx') \<and> sha_repr ctx' []"
  unfolding sha256_init_def sha_repr_def
  using assms by (simp add: list8_update [unfolded One_nat_def] fips_H0_def)

lemma update_tail8:
  assumes "length a = 56" and "length b = 8"
  shows "(a @ b)[63 := x7, 62 := x6, 61 := x5, 60 := x4, 59 := x3, 58 := x2, 57 := x1, 56 := x0]
         = a @ [x0, x1, x2, x3, x4, x5, x6, x7]"
  using assms by (subst list8_eq [OF assms(2)]) (simp add: list_update_append)

lemma sha256_append_length_data:
  assumes "ctx_data ctx = a @ b" and "length a = 56" and "length b = 8"
    and "n = ctx_bitlen ctx + ucast (ctx_datalen ctx) * 8"
  shows "sha256_append_length ctx = ctx\<lparr>ctx_bitlen := n, ctx_data := a @ be_bytes64 n\<rparr>"
  unfolding sha256_append_length_def Let_def assms(1) assms(4) [symmetric] update_tail8 [OF assms(2,3)]
  by (simp add: be_bytes64_def)

lemma pad_zeros:
  assumes "length d = 64" and "take n d = xs" and "n < e" and "e \<le> 64" and "length xs = n"
  shows "foldl (\<lambda>d j. d[j := 0]) (d[n := 0x80]) [n + 1..<e]
         = xs @ [0x80] @ replicate (e - Suc n) 0 @ drop e d"
proof -
  have "foldl (\<lambda>d j. d[j := 0]) (d[n := 0x80]) [n + 1..<e]
      = take (Suc n) (d[n := 0x80]) @ replicate (e - Suc n) 0 @ drop e (d[n := 0x80])"
    using assms by (subst foldl_list_update_run) (simp_all add: max_absorb2)
  also have "take (Suc n) (d[n := 0x80]) = xs @ [0x80]"
    using assms by (simp add: take_list_update_Suc)
  also have "drop e (d[n := 0x80]) = drop e d"
    using assms by simp
  finally show ?thesis by simp
qed

lemma fips_pad_blocks:
  assumes "msg = full @ rest" and "length full = q * 64" and "length rest < 64"
  shows "chunks 64 (fips_pad msg) = chunks 64 full @
    (if length rest < 56
     then [rest @ [0x80] @ replicate (55 - length rest) 0 @ be_bytes64 (of_nat (8 * length msg))]
     else [rest @ [0x80] @ replicate (63 - length rest) 0,
           replicate 56 0 @ be_bytes64 (of_nat (8 * length msg))])"
proof -
  let ?l = "be_bytes64 (of_nat (8 * length msg))"
  have m: "length msg mod 64 = length rest"
    using assms by simp
  have pad: "fips_pad msg = full @ (rest @ [0x80] @ replicate ((119 - length rest) mod 64) 0 @ ?l)"
    unfolding fips_pad_def m using assms(1) by simp
  show ?thesis
  proof (cases "length rest < 56")
    case True
    then have "(119 - length rest) mod 64 = 55 - length rest"
      by (simp add: mod_if)
    then show ?thesis
      unfolding pad using True by (simp add: chunks_append [OF assms(2)] chunks_single)
  next
    case False
    with assms(3) have k: "(119 - length rest) mod 64 = (63 - length rest) + 56"
      by simp
    have "chunks 64 ((rest @ [0x80] @ replicate (63 - length rest) 0) @ (replicate 56 0 @ ?l))
        = [rest @ [0x80] @ replicate (63 - length rest) 0, replicate 56 0 @ ?l]"
      using False assms(3) by (subst chunks_append1) (simp_all add: chunks_single)
    then show ?thesis
      unfolding pad k replicate_add using False by (simp add: chunks_append [OF assms(2)])
  qed
qed

lemma sha256_final_repr:
  assumes "sha_repr ctx msg"
  shows "sha_final_state ctx = foldl fips_compress fips_H0 (chunks 64 (fips_pad msg))"
proof -
  obtain q full rest where r: "msg = full @ rest" "length full = q * 64" "length rest < 64"
      "length (ctx_data ctx) = 64" "length (ctx_state ctx) = 8"
      "unat (ctx_datalen ctx) = length rest" "take (length rest) (ctx_data ctx) = rest"
      "ctx_bitlen ctx = of_nat (512 * q)"
      "ctx_state ctx = foldl fips_compress fips_H0 (chunks 64 full)"
    using assms unfolding sha_repr_def by blast
  let ?l = "of_nat (8 * length msg) :: u64"
  have "(ucast (ctx_datalen ctx) :: u64) = of_nat (length rest)"
    unfolding r(6) [symmetric] by (simp add: of_nat_unat)
  then have l: "?l = ctx_bitlen ctx + ucast (ctx_datalen ctx) * 8"
    using r(1,2,8) by (simp add: algebra_simps)
  have lt: "ctx_datalen ctx < 56 \<longleftrightarrow> length rest < 56"
    using r(6) by (simp add: word_less_nat_alt)
  show ?thesis
  proof (cases "length rest < 56")
    case True
    let ?a = "rest @ [0x80] @ replicate (55 - length rest) 0"
    have "sha256_pad ctx = ctx\<lparr>ctx_data := ?a @ drop 56 (ctx_data ctx)\<rparr>"
      using True lt r(3,4,6,7) pad_zeros [of "ctx_data ctx" "length rest" rest 56]
      by (simp add: sha256_pad_def)
    then have "sha256_append_length (sha256_pad ctx) = ctx\<lparr>ctx_bitlen := ?l, ctx_data := ?a @ be_bytes64 ?l\<rparr>"
      using True r(4) l by (subst sha256_append_length_data [where a = ?a and b = "drop 56 (ctx_data ctx)"]) simp_all
    then show ?thesis
      unfolding sha_final_state_def using True r(5,9)
      by (simp add: sha256_transform_fips fips_pad_blocks [OF r(1-3)])
  next
    case False
    let ?b = "rest @ [0x80] @ replicate (63 - length rest) 0"
    have d: "foldl (\<lambda>d j. d[j := 0]) ((ctx_data ctx)[length rest := 0x80]) [length rest + 1..<64] = ?b"
      using False r(3,4,7) pad_zeros [of "ctx_data ctx" "length rest" rest 64] by simp
    have lb: "length ?b = 64"
      using r(3) by simp
    have "sha256_pad ctx = ctx\<lparr>ctx_state := fips_compress (ctx_state ctx) ?b,
        ctx_data := replicate 56 0 @ drop 56 ?b\<rparr>"
      unfolding sha256_pad_def Let_def r(6) d using False lt r(5) lb
      by (simp add: sha256_transform_fips memcpy_at_def)
    then have "sha256_append_length (sha256_pad ctx) = ctx\<lparr>ctx_state := fips_compress (ctx_state ctx) ?b,
        ctx_bitlen := ?l, ctx_data := replicate 56 0 @ be_bytes64 ?l\<rparr>"
      using lb l by (subst sha256_append_length_data [where a = "replicate 56 0" and b = "drop 56 ?b"]) simp_all
    then show ?thesis
      unfolding sha_final_state_def using False r(5,9)
      by (simp add: sha256_transform_fips fips_pad_blocks [OF r(1-3)])
  qed
qed

lemma sha_byte_ucast: "sha_byte w n = ucast (drop_bit n w)"
  by (rule bit_word_eqI) (auto simp: sha_byte_def bit_unsigned_iff bit_and_iff bit_drop_bit_eq
     numeral_eq_Suc bit_Suc less_Suc_eq dest: bit_imp_le_length)

lemma sha256_store_be:
  assumes "length st = 8" and "length hash = 32"
  shows "sha256_store st 0 hash = concat (map be_bytes32 st)"
proof -
  have h: "hash = map (nth hash) [0..<32]"
    using assms(2) by (metis map_nth)
  have "sha256_store st 0 (map (nth hash) [0..<32]) = concat (map be_bytes32 st)"
    by (subst (2) list8_eq [OF assms(1)])
      (simp add: sha256_store_def be_bytes32_def sha_byte_ucast upt_rec)
  then show ?thesis using h by simp
qed

lemma sha256_store_le:
  assumes "length st = 8" and "length hash = 32"
  shows "sha256_store st 1 hash = concat (map le_bytes32 (rev st))"
proof -
  have h: "hash = map (nth hash) [0..<32]"
    using assms(2) by (metis map_nth)
  have "sha256_store st 1 (map (nth hash) [0..<32]) = concat (map le_bytes32 (rev st))"
    by (subst (2) list8_eq [OF assms(1)])
      (simp add: sha256_store_def le_bytes32_def sha_byte_ucast upt_rec)
  then show ?thesis using h by simp
qed

lemma length_fips_state [simp]: "length hs = 8 \<Longrightarrow> length (foldl fips_compress hs bs) = 8"
  by (rule foldl_invariant [where P = "\<lambda>h. length h = 8"]) simp_all

lemma sha256_updates_repr:
  assumes "sha_repr ctx msg"
  shows "\<exists>ctx'. sha256_updates (Some ctx) segs = Some ctx' \<and> sha_repr ctx' (msg @ concat segs)"
  using assms
proof (induction segs arbitrary: ctx msg)
  case Nil
  then show ?case by (simp add: sha256_updates_def)
next
  case (Cons d segs)
  from Cons.IH [OF sha256_absorbs_repr [OF Cons.prems, of d]] show ?case
    by (simp add: sha256_updates_def sha256_update_def)
qed

lemma sha256_final_digest:
  assumes "sha_repr ctx msg" and "length hash = 32"
  shows "\<exists>ctx'. sha256_final (Some ctx) (Some hash) 0 = (NRF_SUCCESS, Some ctx', Some (fips_sha256 msg))"
proof -
  let ?ctx = "sha256_append_length (sha256_pad ctx)"
  have "ctx_state (sha256_transform ?ctx (ctx_data ?ctx)) =
      foldl fips_compress fips_H0 (chunks 64 (fips_pad msg))"
    using sha256_final_repr [OF assms(1)] by (simp add: sha_final_state_def Let_def)
  then show ?thesis
    using assms(2) by (simp add: sha256_final_def Let_def sha256_store_be fips_sha256_def fips_H0_def)
qed

subsection \<open>The hash as an interface\<close>

text \<open>
  What a client of the hash relies on: a context of the right size can be initialised, an
  update appends to the message, and closing a context gives the digest and leaves memory
  that can be initialised again.
\<close>

locale hash_stream =
  fixes init :: "'c \<Rightarrow> 'c"
    and upd :: "'c \<Rightarrow> bytes \<Rightarrow> nat \<Rightarrow> 'c"
    and fin :: "'c \<Rightarrow> bytes \<Rightarrow> 'c \<times> bytes"
    and mem :: "'c \<Rightarrow> bool"
    and repr :: "'c \<Rightarrow> bytes \<Rightarrow> bool"
    and H :: "bytes \<Rightarrow> bytes"
    and dlen :: nat
  assumes init_repr: "mem c \<Longrightarrow> repr (init c) []"
    and upd_repr: "repr c m \<Longrightarrow> repr (upd c d n) (m @ take n d)"
    and fin_digest: "repr c m \<Longrightarrow> length h = dlen \<Longrightarrow> snd (fin c h) = H m"
    and fin_mem: "repr c m \<Longrightarrow> mem (fst (fin c h))"
    and length_H: "length (H m) = dlen"
begin

lemma upds_repr:
  "repr c m \<Longrightarrow> repr (foldl (\<lambda>c d. upd c d (length d)) c segs) (m @ concat segs)"
proof (induction segs arbitrary: c m)
  case Nil
  then show ?case by simp
next
  case (Cons d segs)
  from Cons.IH [OF upd_repr [OF Cons.prems, of d "length d"]] show ?case by simp
qed

lemma streaming_digest:
  assumes "mem c" and "length h = dlen"
  shows "snd (fin (foldl (\<lambda>c d. upd c d (length d)) (init c) segs) h) = H (concat segs)"
  using fin_digest [OF upds_repr [OF init_repr [OF assms(1)]] assms(2)] by simp

text \<open>A digest hashed again behind a prefix, in the memory of the closed context.\<close>

lemma nested_digest:
  assumes "repr c m" and "length h = dlen" and "length h' = dlen"
  shows "snd (fin (upd (init (fst (fin c h))) (k @ snd (fin c h)) (length k + dlen)) h') = H (k @ H m)"
proof -
  have "repr (upd (init (fst (fin c h))) (k @ H m) (length k + dlen)) ([] @ take (length k + dlen) (k @ H m))"
    by (intro upd_repr init_repr fin_mem [OF assms(1)])
  then show ?thesis
    using fin_digest assms by (simp add: length_H fin_digest)
qed

end

lemma sha256_transform_data [simp]: "ctx_data (sha256_transform ctx blk) = ctx_data ctx"
  by (simp add: sha256_transform_def Let_def split: prod.splits)

lemma length_sha256_pad [simp]:
  "length (ctx_data ctx) = 64 \<Longrightarrow> length (ctx_data (sha256_pad ctx)) = 64"
proof -
  assume *: "length (ctx_data ctx) = 64"
  have "length (foldl (\<lambda>d j. d[j := 0]) ((ctx_data ctx)[i := x]) js) = 64" for i x js
    by (rule foldl_invariant [where P = "\<lambda>d. length d = 64"]) (simp_all add: *)
  then show ?thesis
    unfolding sha256_pad_def Let_def by simp
qed

lemma sha256_final_mem:
  assumes "sha_repr ctx msg"
  shows "sha_mem_opt (fst (snd (sha256_final (Some ctx) (Some hash) le)))"
proof -
  let ?ctx = "sha256_append_length (sha256_pad ctx)"
  have d: "length (ctx_data ctx) = 64"
    using assms unfolding sha_repr_def by blast
  have "length (ctx_state (sha256_transform ?ctx (ctx_data ?ctx))) = 8"
    using sha256_final_repr [OF assms] by (simp add: sha_final_state_def Let_def fips_H0_def)
  then show ?thesis
    using d by (simp add: sha256_final_def Let_def sha_mem_opt_def sha_mem_def sha256_append_length_def)
qed

lemma length_fips_sha256 [simp]: "length (fips_sha256 m) = 32"
proof -
  have "length (foldl fips_compress fips_H0 (chunks 64 (fips_pad m))) = 8"
    by (rule length_fips_state) (simp add: fips_H0_def)
  then show ?thesis
    unfolding fips_sha256_def by (subst list8_eq) simp_all
qed

interpretation sha: hash_stream "\<lambda>c. snd (sha256_init c)" "\<lambda>c d n. snd (sha256_update c (Some d) n)"
  "\<lambda>c h. (fst (snd (sha256_final c (Some h) 0)), the (snd (snd (sha256_final c (Some h) 0))))"
  sha_mem_opt sha_repr_opt fips_sha256 32
proof
  fix c :: "sha256_context option" and m d h :: bytes and n
  show "sha_mem_opt c \<Longrightarrow> sha_repr_opt (snd (sha256_init c)) []"
    using sha256_init_repr by (fastforce simp: sha_mem_opt_def sha_mem_def sha_repr_opt_def split: option.splits)
  show "sha_repr_opt c m \<Longrightarrow> sha_repr_opt (snd (sha256_update c (Some d) n)) (m @ take n d)"
    by (auto simp: sha_repr_opt_def sha256_update_def sha256_absorbs_repr split: option.splits)
  show "sha_repr_opt c m \<Longrightarrow> length h = 32 \<Longrightarrow>
      snd (fst (snd (sha256_final c (Some h) 0)), the (snd (snd (sha256_final c (Some h) 0)))) = fips_sha256 m"
    using sha256_final_digest by (fastforce simp: sha_repr_opt_def split: option.splits)
  show "sha_repr_opt c m \<Longrightarrow>
      sha_mem_opt (fst (fst (snd (sha256_final c (Some h) 0)), the (snd (snd (sha256_final c (Some h) 0)))))"
    using sha256_final_mem by (fastforce simp: sha_repr_opt_def split: option.splits)
  show "length (fips_sha256 m) = 32"
    by simp
qed

subsection \<open>Properties of the hash\<close>

text \<open>
  C6: whatever memory the context starts from and however the message is cut into calls of
  \<^verbatim>\<open>sha256_update\<close>, \<^verbatim>\<open>sha256_final\<close> succeeds and writes the FIPS 180-4 digest of the
  concatenated message.
\<close>

theorem sha256_streaming_digest:
  assumes "length (ctx_data ctx) = 64" and "length (ctx_state ctx) = 8" and "length hash = 32"
  shows "fst (sha256_init (Some ctx)) = NRF_SUCCESS
    \<and> fst (sha256_final (sha256_updates (snd (sha256_init (Some ctx))) segs) (Some hash) 0) = NRF_SUCCESS
    \<and> snd (snd (sha256_final (sha256_updates (snd (sha256_init (Some ctx))) segs) (Some hash) 0))
       = Some (fips_sha256 (concat segs))"
proof -
  obtain c where c: "sha256_init (Some ctx) = (NRF_SUCCESS, Some c)" "sha_repr c []"
    using sha256_init_repr assms(1,2) by blast
  obtain c' where c': "sha256_updates (Some c) segs = Some c'" "sha_repr c' ([] @ concat segs)"
    using sha256_updates_repr [OF c(2)] by blast
  show ?thesis
    using c(1) c'(1) sha256_final_digest [OF c'(2) assms(3)] by auto
qed

theorem sha256_streaming_digest_witness:
  "snd (snd (sha256_final (sha256_updates (snd (sha256_init
       (Some \<lparr>ctx_data = replicate 64 7, ctx_datalen = 5, ctx_bitlen = 9, ctx_state = replicate 8 1\<rparr>)))
     [[0x61], [0x62, 0x63]]) (Some (replicate 32 0)) 0)) = Some (fips_sha256 [0x61, 0x62, 0x63])"
  using sha256_streaming_digest
    [of "\<lparr>ctx_data = replicate 64 7, ctx_datalen = 5, ctx_bitlen = 9, ctx_state = replicate 8 1\<rparr>"
        "replicate 32 0" "[[0x61], [0x62, 0x63]]"]
  by simp

text \<open>
  The table \<^verbatim>\<open>k[64]\<close> and the initial state in the code are the constants of the standard:
  the first 32 bits of the fractional parts of the cube roots of the first 64 primes and of
  the square roots of the first 8.
\<close>

lemma sha256_constants:
  "list_all2 (root_frac 3) sha_k small_primes
   \<and> list_all2 (root_frac 2)
       (ctx_state (the (snd (sha256_init (Some \<lparr>ctx_data = [], ctx_datalen = 0, ctx_bitlen = 0,
          ctx_state = replicate 8 0\<rparr>))))) (take 8 small_primes)"
  by code_simp

end
