(* ===== verification/SoftDevice.thy ===== *)
theory SoftDevice
  imports Sha256
begin

text \<open>
  The boundary of the modelled firmware: the SoftDevice (the closed radio stack, reached by
  supervisor calls declared in \<^verbatim>\<open>components/softdevice/s130/headers\<close>) and the SDK modules that
  are not part of this development.

  A call across the boundary is a value of \<open>call\<close>, one constructor per C function with the
  arguments the firmware passes. What the other side answers is not made up: it is the field
  \<open>sd_env\<close> of the state, an arbitrary function of the history of calls and of the call, and
  theorems hold for every such function. A \<open>reply\<close> carries the return code and the contents of
  the out parameters after the call. \<open>sd_trace\<close> records the calls in the order they are made,
  so that a theorem can say what the firmware asks of the radio and when.
\<close>

subsection \<open>Return codes and constants\<close>

definition NRF_ERROR_NO_MEM :: u32 where [nrf_codes]: "NRF_ERROR_NO_MEM = 4"
definition NRF_ERROR_BUSY :: u32 where [nrf_codes]: "NRF_ERROR_BUSY = 17"
definition NRF_EVT_FLASH_OPERATION_SUCCESS :: u32 where "NRF_EVT_FLASH_OPERATION_SUCCESS = 2"
definition NRF_EVT_FLASH_OPERATION_ERROR :: u32 where "NRF_EVT_FLASH_OPERATION_ERROR = 3"
definition NRF_ERROR_NOT_FOUND :: u32 where [nrf_codes]: "NRF_ERROR_NOT_FOUND = 5"
definition NRF_ERROR_INVALID_PARAM :: u32 where [nrf_codes]: "NRF_ERROR_INVALID_PARAM = 7"
definition NRF_ERROR_INVALID_STATE :: u32 where [nrf_codes]: "NRF_ERROR_INVALID_STATE = 8"
definition NRF_ERROR_INVALID_LENGTH :: u32 where [nrf_codes]: "NRF_ERROR_INVALID_LENGTH = 9"
definition BLE_ERROR_NO_TX_PACKETS :: u32 where [nrf_codes]: "BLE_ERROR_NO_TX_PACKETS = 0x3004"
definition BLE_ERROR_GATTS_SYS_ATTR_MISSING :: u32 where
  [nrf_codes]: "BLE_ERROR_GATTS_SYS_ATTR_MISSING = 0x3401"

definition BLE_CONN_HANDLE_INVALID :: u16 where [nrf_codes]: "BLE_CONN_HANDLE_INVALID = 0xFFFF"
definition BLE_GATT_HANDLE_INVALID :: u16 where [nrf_codes]: "BLE_GATT_HANDLE_INVALID = 0"
definition BLE_GATT_STATUS_SUCCESS :: u16 where [nrf_codes]: "BLE_GATT_STATUS_SUCCESS = 0"
definition BLE_GATT_STATUS_ATTERR_ATTRIBUTE_NOT_FOUND :: u16 where
  [nrf_codes]: "BLE_GATT_STATUS_ATTERR_ATTRIBUTE_NOT_FOUND = 0x010A"
definition BLE_UUID_DESCRIPTOR_CHAR_EXT_PROP :: u16 where "BLE_UUID_DESCRIPTOR_CHAR_EXT_PROP = 0x2900"
definition BLE_UUID_DESCRIPTOR_CHAR_USER_DESC :: u16 where "BLE_UUID_DESCRIPTOR_CHAR_USER_DESC = 0x2901"
definition BLE_UUID_DESCRIPTOR_CLIENT_CHAR_CONFIG :: u16 where "BLE_UUID_DESCRIPTOR_CLIENT_CHAR_CONFIG = 0x2902"
definition BLE_UUID_REPORT_REF_DESCR :: u16 where [nrf_codes]: "BLE_UUID_REPORT_REF_DESCR = 0x2908"
definition BLE_UUID_TYPE_BLE :: u8 where [nrf_codes]: "BLE_UUID_TYPE_BLE = 1"
definition BLE_GATTS_SRVC_TYPE_PRIMARY :: u8 where [nrf_codes]: "BLE_GATTS_SRVC_TYPE_PRIMARY = 1"
definition BLE_GATTS_VLOC_USER :: u8 where [nrf_codes]: "BLE_GATTS_VLOC_USER = 2"
definition BLE_GATTS_VLOC_STACK :: u8 where [nrf_codes]: "BLE_GATTS_VLOC_STACK = 1"
definition BLE_GATT_HVX_NOTIFICATION :: u8 where [nrf_codes]: "BLE_GATT_HVX_NOTIFICATION = 1"
definition BLE_GATT_HVX_INDICATION :: u8 where [nrf_codes]: "BLE_GATT_HVX_INDICATION = 2"
definition BLE_GATT_OP_WRITE_CMD :: u8 where [nrf_codes]: "BLE_GATT_OP_WRITE_CMD = 2"
definition BLE_HCI_CONNECTION_TIMEOUT :: u8 where [nrf_codes]: "BLE_HCI_CONNECTION_TIMEOUT = 0x08"
definition BLE_HCI_REMOTE_USER_TERMINATED_CONNECTION :: u8 where
  [nrf_codes]: "BLE_HCI_REMOTE_USER_TERMINATED_CONNECTION = 0x13"
definition BLE_HCI_CONN_INTERVAL_UNACCEPTABLE :: u8 where
  [nrf_codes]: "BLE_HCI_CONN_INTERVAL_UNACCEPTABLE = 0x3B"
definition BLE_GAP_ROLE_INVALID :: u8 where [nrf_codes]: "BLE_GAP_ROLE_INVALID = 0"
definition BLE_GAP_ROLE_PERIPH :: u8 where [nrf_codes]: "BLE_GAP_ROLE_PERIPH = 1"
definition BLE_GAP_ROLE_CENTRAL :: u8 where [nrf_codes]: "BLE_GAP_ROLE_CENTRAL = 2"
definition BLE_GAP_TIMEOUT_SRC_ADVERTISING :: u8 where
  [nrf_codes]: "BLE_GAP_TIMEOUT_SRC_ADVERTISING = 0"
definition BLE_GAP_SEC_STATUS_SUCCESS :: u8 where [nrf_codes]: "BLE_GAP_SEC_STATUS_SUCCESS = 0"
definition BLE_CHAR_ALERT_LEVEL_NO_ALERT :: u8 where [nrf_codes]: "BLE_CHAR_ALERT_LEVEL_NO_ALERT = 0"
definition BLE_CHAR_ALERT_LEVEL_MILD_ALERT :: u8 where [nrf_codes]: "BLE_CHAR_ALERT_LEVEL_MILD_ALERT = 1"
definition BLE_CHAR_ALERT_LEVEL_HIGH_ALERT :: u8 where [nrf_codes]: "BLE_CHAR_ALERT_LEVEL_HIGH_ALERT = 2"

subsection \<open>GATT and GAP structures\<close>

record ble_uuid =
  uuid :: u16
  uuid_type :: u8

definition BLE_UUID_BLE_ASSIGN :: "u16 \<Rightarrow> ble_uuid" where
  "BLE_UUID_BLE_ASSIGN v = \<lparr>uuid = v, uuid_type = BLE_UUID_TYPE_BLE\<rparr>"

definition BLE_UUID_EQ :: "ble_uuid \<Rightarrow> ble_uuid \<Rightarrow> bool" where
  "BLE_UUID_EQ a b \<longleftrightarrow> uuid_type a = uuid_type b \<and> uuid a = uuid b"

text \<open>Security mode and level of an attribute permission, with the setter macros of \<^verbatim>\<open>ble_gap.h\<close>.\<close>

record ble_gap_conn_sec_mode =
  sm :: nat
  lv :: nat

definition SEC_MODE_NO_ACCESS :: ble_gap_conn_sec_mode where "SEC_MODE_NO_ACCESS = \<lparr>sm = 0, lv = 0\<rparr>"
definition SEC_MODE_OPEN :: ble_gap_conn_sec_mode where "SEC_MODE_OPEN = \<lparr>sm = 1, lv = 1\<rparr>"
definition SEC_MODE_ENC_NO_MITM :: ble_gap_conn_sec_mode where "SEC_MODE_ENC_NO_MITM = \<lparr>sm = 1, lv = 2\<rparr>"
definition SEC_MODE_ENC_WITH_MITM :: ble_gap_conn_sec_mode where "SEC_MODE_ENC_WITH_MITM = \<lparr>sm = 1, lv = 3\<rparr>"
definition SEC_MODE_SIGNED_NO_MITM :: ble_gap_conn_sec_mode where "SEC_MODE_SIGNED_NO_MITM = \<lparr>sm = 2, lv = 1\<rparr>"
definition SEC_MODE_SIGNED_WITH_MITM :: ble_gap_conn_sec_mode where "SEC_MODE_SIGNED_WITH_MITM = \<lparr>sm = 2, lv = 2\<rparr>"

record ble_gatts_attr_md =
  read_perm :: ble_gap_conn_sec_mode
  write_perm :: ble_gap_conn_sec_mode
  vlen :: bool
  vloc :: u8
  rd_auth :: bool
  wr_auth :: bool

record ble_gatt_char_props =
  cp_broadcast :: bool
  cp_read :: bool
  cp_write_wo_resp :: bool
  cp_write :: bool
  cp_notify :: bool
  cp_indicate :: bool
  cp_auth_signed_wr :: bool

definition no_char_props :: ble_gatt_char_props where
  "no_char_props = \<lparr>cp_broadcast = False, cp_read = False, cp_write_wo_resp = False, cp_write = False,
     cp_notify = False, cp_indicate = False, cp_auth_signed_wr = False\<rparr>"

text \<open>
  Characteristic metadata; a pointer is an option, and \<open>ext_props\<close> are the two bits of
  \<^verbatim>\<open>ble_gatt_char_ext_props_t\<close>. The presentation format is passed through as its bytes.
\<close>

record ble_gatts_char_md =
  char_props :: ble_gatt_char_props
  char_ext_props :: "bool \<times> bool"
  p_char_user_desc :: "bytes option"
  char_user_desc_max_size :: u16
  char_user_desc_size :: u16
  p_char_pf :: "bytes option"
  p_user_desc_md :: "ble_gatts_attr_md option"
  p_cccd_md :: "ble_gatts_attr_md option"
  p_sccd_md :: "ble_gatts_attr_md option"

text \<open>The structure after \<^verbatim>\<open>memset(&char_md, 0, sizeof(char_md))\<close>.\<close>

definition zero_char_md :: ble_gatts_char_md where
  "zero_char_md = \<lparr>char_props = no_char_props, char_ext_props = (False, False), p_char_user_desc = None,
     char_user_desc_max_size = 0, char_user_desc_size = 0, p_char_pf = None, p_user_desc_md = None,
     p_cccd_md = None, p_sccd_md = None\<rparr>"

definition zero_attr_md :: ble_gatts_attr_md where
  "zero_attr_md = \<lparr>read_perm = SEC_MODE_NO_ACCESS, write_perm = SEC_MODE_NO_ACCESS, vlen = False,
     vloc = 0, rd_auth = False, wr_auth = False\<rparr>"

record ble_gatts_attr =
  attr_uuid :: ble_uuid
  attr_md :: ble_gatts_attr_md
  init_len :: u16
  init_offs :: u16
  max_len :: u16
  p_value :: "bytes option"

record ble_gatts_char_handles =
  value_handle :: u16
  user_desc_handle :: u16
  cccd_handle :: u16
  sccd_handle :: u16

record ble_gap_conn_params =
  min_conn_interval :: u16
  max_conn_interval :: u16
  slave_latency :: u16
  conn_sup_timeout :: u16

record ble_gap_sec_kdist =
  kd_enc :: bool
  kd_id :: bool
  kd_sign :: bool
  kd_link :: bool

record ble_gap_sec_params =
  sp_bond :: bool
  sp_mitm :: bool
  sp_lesc :: bool
  sp_keypress :: bool
  sp_io_caps :: u8
  sp_oob :: bool
  sp_min_key_size :: u8
  sp_max_key_size :: u8
  sp_kdist_own :: ble_gap_sec_kdist
  sp_kdist_peer :: ble_gap_sec_kdist

definition BLE_GAP_IO_CAPS_NONE :: u8 where "BLE_GAP_IO_CAPS_NONE = 3"

record ble_gap_addr =
  addr_type :: u8
  addr :: bytes

record ble_gap_whitelist =
  wl_addrs :: "ble_gap_addr list"
  wl_addr_count :: u8
  wl_irks :: "bytes list"
  wl_irk_count :: u8

record ble_gap_adv_params =
  adv_type :: u8
  adv_peer_addr :: "ble_gap_addr option"
  adv_fp :: u8
  adv_whitelist :: "ble_gap_whitelist option"
  adv_interval :: u16
  adv_timeout :: u16

text \<open>What discovery finds at a peer (\<^verbatim>\<open>ble_gattc.h\<close>).\<close>

record ble_gattc_handle_range =
  start_handle :: u16
  end_handle :: u16

record ble_gattc_service =
  gs_uuid :: ble_uuid
  gs_handle_range :: ble_gattc_handle_range

record ble_gattc_char =
  gc_uuid :: ble_uuid
  gc_char_props :: ble_gatt_char_props
  gc_char_ext_props :: bool
  gc_handle_decl :: u16
  gc_handle_value :: u16

record ble_gattc_desc =
  gd_handle :: u16
  gd_uuid :: ble_uuid

definition zero_gattc_char :: ble_gattc_char where
  "zero_gattc_char = \<lparr>gc_uuid = \<lparr>uuid = 0, uuid_type = 0\<rparr>, gc_char_props = no_char_props,
     gc_char_ext_props = False, gc_handle_decl = 0, gc_handle_value = 0\<rparr>"

subsection \<open>Events of the BLE stack\<close>

record ble_gatts_evt_write =
  w_handle :: u16
  w_len :: u16
  w_data :: bytes

record authorize_request =
  ar_type :: u8
  ar_write_op :: u8

text \<open>
  \<^verbatim>\<open>ble_evt_t\<close>: the event id with the parameters the firmware reads. \<open>w_data\<close> is the memory
  from \<^verbatim>\<open>data\<close> on: the received bytes and whatever follows them in the event buffer. A discovery
  response has the connection, the GATT status and the array with its length, which is valid if
  the status is success.
\<close>

datatype ble_evt =
    BLE_GAP_EVT_CONNECTED u16 u8 ble_gap_conn_params
  | BLE_GAP_EVT_DISCONNECTED u16 u8
  | BLE_GAP_EVT_CONN_PARAM_UPDATE u16 ble_gap_conn_params
  | BLE_GAP_EVT_CONN_SEC_UPDATE u16 nat
  | BLE_GAP_EVT_AUTH_STATUS u16 u8
  | BLE_GAP_EVT_TIMEOUT u16 u8
  | BLE_GATTS_EVT_WRITE u16 ble_gatts_evt_write
  | BLE_GATTC_EVT_PRIM_SRVC_DISC_RSP u16 u16 "ble_gattc_service list"
  | BLE_GATTC_EVT_CHAR_DISC_RSP u16 u16 "ble_gattc_char list"
  | BLE_GATTC_EVT_DESC_DISC_RSP u16 u16 "ble_gattc_desc list"
  | BLE_GATTC_EVT_TIMEOUT u16
  | BLE_GATTS_EVT_TIMEOUT u16
  | BLE_EVT_USER_MEM_REQUEST u16
  | BLE_GATTS_EVT_RW_AUTHORIZE_REQUEST u16 authorize_request
  | BLE_EVT_OTHER u16

subsection \<open>Calls out of the model\<close>

text \<open>The GATT server and client functions of the stack.\<close>

datatype gatt_call =
    Sd_ble_uuid_vs_add bytes
  | Sd_ble_gatts_service_add u8 ble_uuid
  | Sd_ble_gatts_characteristic_add u16 ble_gatts_char_md ble_gatts_attr
  | Sd_ble_gatts_descriptor_add u16 ble_gatts_attr
  | Sd_ble_gatts_value_set u16 u16 u16 u16 bytes
  | Sd_ble_gatts_value_get u16 u16 u16 u16
  | Sd_ble_gatts_hvx u16 u16 u8 u16 u16 bytes
  | Sd_ble_gattc_primary_services_discover u16 u16 ble_uuid
  | Sd_ble_gattc_characteristics_discover u16 ble_gattc_handle_range
  | Sd_ble_gattc_descriptors_discover u16 ble_gattc_handle_range
  | Sd_ble_gattc_write u16 u16 u8 u16 u16 bytes
  | Sd_ble_gatts_rw_authorize_reply u16 u8 u16
  | Sd_ble_user_mem_reply u16 nat

text \<open>
  The GAP functions. The flag of \<open>Sd_ble_uuid_encode\<close> tells whether a buffer is passed; with
  \<^verbatim>\<open>NULL\<close> only the size is asked for.
\<close>

datatype gap_call =
    Sd_ble_gap_conn_param_update u16 ble_gap_conn_params
  | Sd_ble_gap_disconnect u16 u8
  | Sd_ble_gap_ppcp_set ble_gap_conn_params
  | Sd_ble_gap_ppcp_get
  | Sd_ble_gap_adv_start ble_gap_adv_params
  | Sd_ble_gap_adv_stop
  | Sd_ble_gap_device_name_set ble_gap_conn_sec_mode string
  | Sd_ble_gap_appearance_set u16
  | Sd_ble_gap_tx_power_set int
  | Sd_ble_gap_address_get
  | Sd_ble_gap_device_name_get u16
  | Sd_ble_gap_appearance_get
  | Sd_ble_uuid_encode ble_uuid bool
  | Sd_ble_gap_adv_data_set "bytes option" u16 "bytes option" u16

text \<open>The chip: AES unit, random numbers, sleep, flash, ADC driver, SoftDevice start-up, logger.\<close>

datatype soc_call =
    Sd_ecb_block_encrypt bytes bytes
  | Sd_rand_application_vector_get nat
  | Sd_app_evt_wait
  | Sd_flash_write u32 u32 u32
  | Sd_flash_page_erase u32
  | Nrf_drv_adc_init
  | Nrf_drv_adc_channel_enable
  | Nrf_drv_adc_buffer_convert nat
  | Nrf_drv_adc_sample
  | Softdevice_handler_init
  | Softdevice_enable_get_default_config nat nat
  | Softdevice_enable
  | Softdevice_ble_evt_handler_set
  | Softdevice_sys_evt_handler_set
  | Nrf_log_init
  | Nrf_log_process

text \<open>Timers, buttons and LEDs, service discovery.\<close>

datatype lib_call =
    Ble_db_discovery_init
  | Ble_db_discovery_evt_register ble_uuid
  | Ble_db_discovery_start u16
  | Ble_db_discovery_on_ble_evt ble_evt
  | App_timer_init nat nat
  | App_timer_create nat nat
  | App_timer_start nat nat
  | App_timer_stop nat
  | Bsp_init nat nat
  | Bsp_event_to_button_action_assign nat nat nat
  | Bsp_indication_set nat
  | Bsp_board_leds_on
  | Bsp_btn_ble_on_ble_evt ble_evt

text \<open>
  Flash access, flash storage and the peer manager. A destination in flash is a byte address; the
  words to store are those of an object of the module (given by their values), an object of the
  user in RAM, or words in flash.
\<close>

text \<open>
  The one chunk of a record handed to \<^verbatim>\<open>fds_record_write\<close>: the pointer \<^verbatim>\<open>p_data\<close>, the length in
  words, and the bytes that the pointer points to at the time of the call. The flash is programmed
  later, from whatever the pointer points to then.
\<close>

record record_chunk =
  chunk_at :: u32
  chunk_wlen :: nat
  chunk_now :: bytes

datatype fs_src = From_words "u32 list" | From_ram u32 | From_flash nat

datatype store_call =
    Fs_init
  | Fs_store nat fs_src u16
  | Fs_erase nat u16
  | Fds_register
  | Fds_init
  | Fds_record_write u16 u16 record_chunk
  | Fds_record_find u16 u16
  | Fds_record_open
  | Fds_record_close
  | Fds_gc
  | Fs_queued_op_count_get
  | Fs_sys_event_handler u32
  | Pm_init
  | Pm_register
  | Pm_peers_delete
  | Pm_on_ble_evt ble_evt
  | Pm_sec_params_set "ble_gap_sec_params option"
  | Pm_conn_sec_config_reply u16 bool
  | Pm_local_database_has_changed

datatype call = Gatt gatt_call | Gap gap_call | Soc soc_call | Lib lib_call | Store store_call

record reply =
  rc :: u32
  out_bytes :: bytes
  out_u8 :: u8
  out_u16 :: u16
  out_u32 :: u32
  out_handles :: ble_gatts_char_handles
  out_conn_params :: ble_gap_conn_params

record world =
  sd_env :: "call list \<Rightarrow> call \<Rightarrow> reply"
  sd_trace :: "call list"

definition svc :: "call \<Rightarrow> ('w world_scheme, reply) prog" where
  "svc c = (\<lambda>s. (Ret (sd_env s (sd_trace s) c), s\<lparr>sd_trace := sd_trace s @ [c]\<rparr>))"

definition svc_rc :: "call \<Rightarrow> ('w world_scheme, u32) prog" where
  "svc_rc c = bnd (svc c) (\<lambda>r. ret (rc r))"

text \<open>
  \<^verbatim>\<open>APP_ERROR_HANDLER\<close> and \<^verbatim>\<open>APP_ERROR_CHECK\<close> (\<^verbatim>\<open>app_error.h\<close>) with the fault handler of
  \<^verbatim>\<open>main.c\<close>: the LEDs go on and the processor stops in \<^verbatim>\<open>app_error_save_and_stop\<close>.
\<close>

definition app_error_handler :: "u32 \<Rightarrow> ('w world_scheme, 'a) prog" where
  "app_error_handler e = bnd (svc (Lib Bsp_board_leds_on)) (\<lambda>_. halt e)"

definition APP_ERROR_CHECK :: "u32 \<Rightarrow> ('w world_scheme, unit) prog" where
  "APP_ERROR_CHECK e = (if e \<noteq> NRF_SUCCESS then app_error_handler e else ret ())"

text \<open>
  A concrete outside for examples: every call succeeds, the AES unit is replaced by the given
  block function and the random number generator returns constant bytes.
\<close>

definition null_reply :: reply where
  "null_reply = \<lparr>rc = NRF_SUCCESS, out_bytes = [], out_u8 = 0, out_u16 = 0, out_u32 = 0,
     out_handles = \<lparr>value_handle = 0, user_desc_handle = 0, cccd_handle = 0, sccd_handle = 0\<rparr>,
     out_conn_params = \<lparr>min_conn_interval = 0, max_conn_interval = 0, slave_latency = 0,
                        conn_sup_timeout = 0\<rparr>\<rparr>"

definition demo_env :: "(bytes \<Rightarrow> bytes \<Rightarrow> bytes) \<Rightarrow> call list \<Rightarrow> call \<Rightarrow> reply" where
  "demo_env E h c = (case c of
       Soc (Sd_ecb_block_encrypt k b) \<Rightarrow> null_reply\<lparr>out_bytes := E k b\<rparr>
     | Soc (Sd_rand_application_vector_get n) \<Rightarrow> null_reply\<lparr>out_bytes := replicate n 0xa5\<rparr>
     | _ \<Rightarrow> null_reply)"

definition demo_world :: world where
  "demo_world = \<lparr>sd_env = demo_env (map2 (+)), sd_trace = []\<rparr>"

subsection \<open>Facts about calls\<close>

lemma svc_run [prog_simps, simp]:
  "svc c s = (Ret (sd_env s (sd_trace s) c), s\<lparr>sd_trace := sd_trace s @ [c]\<rparr>)"
  by (simp add: svc_def)

lemma svc_rc_run [prog_simps, simp]:
  "svc_rc c s = (Ret (rc (sd_env s (sd_trace s) c)), s\<lparr>sd_trace := sd_trace s @ [c]\<rparr>)"
  by (simp add: svc_rc_def bnd_run)

lemma app_error_handler_run [prog_simps, simp]:
  "app_error_handler e s = (Fault e, s\<lparr>sd_trace := sd_trace s @ [Lib Bsp_board_leds_on]\<rparr>)"
  by (simp add: app_error_handler_def bnd_run)

lemma APP_ERROR_CHECK_run [prog_simps]:
  "APP_ERROR_CHECK e s =
     (if e = NRF_SUCCESS then (Ret (), s)
      else (Fault e, s\<lparr>sd_trace := sd_trace s @ [Lib Bsp_board_leds_on]\<rparr>))"
  by (simp add: APP_ERROR_CHECK_def)

lemma APP_ERROR_CHECK_success [simp]: "APP_ERROR_CHECK NRF_SUCCESS = ret ()"
  by (simp add: APP_ERROR_CHECK_def)

text \<open>
  A property of the state that neither depends on the trace nor on what the environment
  answers is kept by every call.
\<close>

definition trace_free :: "('w world_scheme \<Rightarrow> bool) \<Rightarrow> bool" where
  "trace_free P \<longleftrightarrow> (\<forall>s t. P (s\<lparr>sd_trace := t\<rparr>) = P s)"

lemma keeps_svc [keeps_intros]: "trace_free P \<Longrightarrow> keeps P (svc c)"
  by (simp add: keeps_def trace_free_def)

lemma keeps_svc_rc [keeps_intros]: "trace_free P \<Longrightarrow> keeps P (svc_rc c)"
  by (simp add: keeps_def trace_free_def)

lemma keeps_app_error_handler [keeps_intros]: "trace_free P \<Longrightarrow> keeps P (app_error_handler e)"
  by (simp add: keeps_def trace_free_def)

lemma keeps_APP_ERROR_CHECK [keeps_intros]: "trace_free P \<Longrightarrow> keeps P (APP_ERROR_CHECK e)"
  by (simp add: APP_ERROR_CHECK_def keeps_intros)

text \<open>
  Calls are only ever appended: what a program has asked of the outside is never revoked.
  \<open>emits P f\<close> says more: \<open>f\<close> changes nothing of the world but the trace, and every call that it
  makes satisfies \<open>P\<close>.
\<close>

definition emits :: "(call \<Rightarrow> bool) \<Rightarrow> ('w world_scheme, 'a) prog \<Rightarrow> bool" where
  "emits P f \<longleftrightarrow> (\<forall>s. \<exists>t. snd (f s) = s\<lparr>sd_trace := sd_trace s @ t\<rparr> \<and> (\<forall>c \<in> set t. P c))"

named_theorems emits_intros \<open>what programs ask of the outside\<close>

lemma emitsI: "(\<And>s. snd (f s) = s\<lparr>sd_trace := sd_trace s @ t s\<rparr>) \<Longrightarrow> (\<And>s c. c \<in> set (t s) \<Longrightarrow> P c) \<Longrightarrow> emits P f"
  unfolding emits_def by blast

lemma emits_state:
  assumes "emits P f"
  obtains t where "snd (f s) = s\<lparr>sd_trace := sd_trace s @ t\<rparr>" and "\<forall>c \<in> set t. P c"
  using assms unfolding emits_def by blast

lemma emitsD:
  "emits P f \<Longrightarrow> \<exists>t. sd_trace (snd (f s)) = sd_trace s @ t \<and> sd_env (snd (f s)) = sd_env s \<and> (\<forall>c \<in> set t. P c)"
  by (erule emits_state [where s = s]) auto

lemma emits_frame: "emits P f \<Longrightarrow> world.more (snd (f s)) = world.more s"
  by (erule emits_state [where s = s]) auto

lemma emits_mono: "emits P f \<Longrightarrow> (\<And>c. P c \<Longrightarrow> Q c) \<Longrightarrow> emits Q f"
  unfolding emits_def by meson

lemma emits_ret [emits_intros]: "emits P (ret x)"
  by (rule emitsI [where t = "\<lambda>_. []"]) simp_all

lemma emits_hang [emits_intros]: "emits P hang"
  by (rule emitsI [where t = "\<lambda>_. []"]) simp_all

lemma emits_svc [emits_intros]: "P c \<Longrightarrow> emits P (svc c)"
  by (rule emitsI [where t = "\<lambda>_. [c]"]) simp_all

lemma emits_svc_rc [emits_intros]: "P c \<Longrightarrow> emits P (svc_rc c)"
  by (rule emitsI [where t = "\<lambda>_. [c]"]) simp_all

lemma emits_app_error_handler [emits_intros]: "P (Lib Bsp_board_leds_on) \<Longrightarrow> emits P (app_error_handler e)"
  by (rule emitsI [where t = "\<lambda>_. [Lib Bsp_board_leds_on]"]) simp_all

lemma emits_APP_ERROR_CHECK [emits_intros]: "P (Lib Bsp_board_leds_on) \<Longrightarrow> emits P (APP_ERROR_CHECK e)"
  by (simp add: APP_ERROR_CHECK_def emits_intros)

lemma emits_bnd [emits_intros]:
  assumes f: "emits P f" and g: "\<And>x. emits P (g x)"
  shows "emits P (bnd f g)"
  unfolding emits_def
proof
  fix s
  obtain t where t: "snd (f s) = s\<lparr>sd_trace := sd_trace s @ t\<rparr>" "\<forall>c \<in> set t. P c"
    using emits_state [OF f] by blast
  show "\<exists>t. snd (bnd f g s) = s\<lparr>sd_trace := sd_trace s @ t\<rparr> \<and> (\<forall>c \<in> set t. P c)"
  proof (cases "f s")
    case (Pair r s')
    show ?thesis
    proof (cases r)
      case (Ret x)
      obtain u where u: "snd (g x s') = s'\<lparr>sd_trace := sd_trace s' @ u\<rparr>" "\<forall>c \<in> set u. P c"
        using emits_state [OF g] by blast
      have "snd (bnd f g s) = s\<lparr>sd_trace := sd_trace s @ (t @ u)\<rparr>"
        using t(1) u(1) Pair Ret by (simp add: bnd_run)
      with t(2) u(2) show ?thesis by (intro exI [of _ "t @ u"]) auto
    qed (use t Pair in \<open>auto simp: bnd_run\<close>)
  qed
qed

lemma emits_andthen [emits_intros]: "emits P f \<Longrightarrow> emits P g \<Longrightarrow> emits P (andthen f g)"
  by (simp add: andthen_def emits_bnd)

lemma emits_guarded [emits_intros]: "(b \<Longrightarrow> emits P f) \<Longrightarrow> emits P (guarded b f)"
  by (simp add: guarded_def emits_ret)

lemma emits_if [emits_intros]: "(b \<Longrightarrow> emits P f) \<Longrightarrow> (\<not> b \<Longrightarrow> emits P g) \<Longrightarrow> emits P (if b then f else g)"
  by simp

subsection \<open>Initialisation sequences\<close>

text \<open>
  \<^verbatim>\<open>VERIFY_SUCCESS\<close> returns early with the error; \<open>verify r c k\<close> is a call result \<open>r\<close>
  followed by the rest \<open>k\<close> of the function, with the structure as it is at that point.
\<close>

definition verify :: "u32 \<Rightarrow> 'c \<Rightarrow> ('s, u32 \<times> 'c) prog \<Rightarrow> ('s, u32 \<times> 'c) prog" where
  "verify e c k = (if e = NRF_SUCCESS then k else ret (e, c))"

definition is_gatt :: "call \<Rightarrow> bool" where
  "is_gatt c = (case c of Gatt _ \<Rightarrow> True | _ \<Rightarrow> False)"

text \<open>
  A strict sequence of calls always returns; an error it returns is the error of the last
  call it made, so it stops at the first refusal; and when it returns success, every GATT
  call it made was granted.
\<close>

definition strict_seq :: "('w world_scheme, u32 \<times> 'c) prog \<Rightarrow> bool" where
  "strict_seq f \<longleftrightarrow> (\<forall>s. \<exists>e c t. fst (f s) = Ret (e, c) \<and> sd_env (snd (f s)) = sd_env s
     \<and> sd_trace (snd (f s)) = sd_trace s @ t
     \<and> (e \<noteq> NRF_SUCCESS \<longrightarrow> t \<noteq> [] \<and> e = rc (sd_env s (sd_trace s @ butlast t) (last t)))
     \<and> (e = NRF_SUCCESS \<longrightarrow>
          (\<forall>i < length t. is_gatt (t ! i) \<longrightarrow> rc (sd_env s (sd_trace s @ take i t) (t ! i)) = NRF_SUCCESS)))"

lemma strict_seqD:
  "strict_seq f \<Longrightarrow> \<exists>e c t. fst (f s) = Ret (e, c) \<and> sd_env (snd (f s)) = sd_env s
     \<and> sd_trace (snd (f s)) = sd_trace s @ t
     \<and> (e \<noteq> NRF_SUCCESS \<longrightarrow> t \<noteq> [] \<and> e = rc (sd_env s (sd_trace s @ butlast t) (last t)))
     \<and> (e = NRF_SUCCESS \<longrightarrow>
          (\<forall>i < length t. is_gatt (t ! i) \<longrightarrow> rc (sd_env s (sd_trace s @ take i t) (t ! i)) = NRF_SUCCESS))"
  by (simp add: strict_seq_def)

lemma strict_seq_done: "strict_seq (ret (NRF_SUCCESS, x))"
  by (auto simp: strict_seq_def)

text \<open>A checked call in front of a strict sequence.\<close>

lemma strict_seq_step:
  fixes k :: "reply \<Rightarrow> ('w world_scheme, u32 \<times> 'c) prog"
  assumes k: "\<And>r. strict_seq (k r)"
  shows "strict_seq (bnd (svc c) (\<lambda>r. verify (rc r) (x r) (k r)))"
  unfolding strict_seq_def
proof
  fix s :: "'w world_scheme"
  let ?r = "sd_env s (sd_trace s) c" and ?s = "s\<lparr>sd_trace := sd_trace s @ [c]\<rparr>"
  let ?f = "bnd (svc c) (\<lambda>r. verify (rc r) (x r) (k r))"
  show "\<exists>e ca t. fst (?f s) = Ret (e, ca) \<and> sd_env (snd (?f s)) = sd_env s
     \<and> sd_trace (snd (?f s)) = sd_trace s @ t
     \<and> (e \<noteq> NRF_SUCCESS \<longrightarrow> t \<noteq> [] \<and> e = rc (sd_env s (sd_trace s @ butlast t) (last t)))
     \<and> (e = NRF_SUCCESS \<longrightarrow>
          (\<forall>i < length t. is_gatt (t ! i) \<longrightarrow> rc (sd_env s (sd_trace s @ take i t) (t ! i)) = NRF_SUCCESS))"
  proof (cases "rc ?r = NRF_SUCCESS")
    case False
    then show ?thesis
      by (intro exI [of _ "rc ?r"] exI [of _ "x ?r"] exI [of _ "[c]"]) (simp add: bnd_run verify_def)
  next
    case True
    obtain e y t where t: "fst (k ?r ?s) = Ret (e, y)" "sd_env (snd (k ?r ?s)) = sd_env ?s"
        "sd_trace (snd (k ?r ?s)) = sd_trace ?s @ t"
        "e \<noteq> NRF_SUCCESS \<longrightarrow> t \<noteq> [] \<and> e = rc (sd_env ?s (sd_trace ?s @ butlast t) (last t))"
        "e = NRF_SUCCESS \<longrightarrow>
          (\<forall>i < length t. is_gatt (t ! i) \<longrightarrow> rc (sd_env ?s (sd_trace ?s @ take i t) (t ! i)) = NRF_SUCCESS)"
      using strict_seqD [OF k, of ?r ?s] by blast
    have run: "?f s = k ?r ?s"
      using True by (simp add: bnd_run verify_def)
    have all: "rc (sd_env s (sd_trace s @ take i (c # t)) ((c # t) ! i)) = NRF_SUCCESS"
      if "e = NRF_SUCCESS" "i < length (c # t)" "is_gatt ((c # t) ! i)" for i
      using that t(5) True by (cases i) auto
    show ?thesis
      unfolding run using t all by (intro exI [of _ e] exI [of _ y] exI [of _ "c # t"]) auto
  qed
qed

text \<open>Calls that are not GATT calls and are not checked.\<close>

lemma strict_seq_prefix:
  assumes p: "emits (\<lambda>c. \<not> is_gatt c) p" and ret: "\<And>s. \<exists>x. fst (p s) = Ret x" and k: "\<And>x. strict_seq (k x)"
  shows "strict_seq (bnd p k)"
  unfolding strict_seq_def
proof
  fix s
  obtain x where x: "fst (p s) = Ret x" using ret by blast
  obtain u where u: "sd_trace (snd (p s)) = sd_trace s @ u" "sd_env (snd (p s)) = sd_env s" "\<forall>c \<in> set u. \<not> is_gatt c"
    using emitsD [OF p] by blast
  let ?s = "snd (p s)"
  obtain e y t where t: "fst (k x ?s) = Ret (e, y)" "sd_env (snd (k x ?s)) = sd_env ?s"
      "sd_trace (snd (k x ?s)) = sd_trace ?s @ t"
      "e \<noteq> NRF_SUCCESS \<longrightarrow> t \<noteq> [] \<and> e = rc (sd_env ?s (sd_trace ?s @ butlast t) (last t))"
      "e = NRF_SUCCESS \<longrightarrow>
        (\<forall>i < length t. is_gatt (t ! i) \<longrightarrow> rc (sd_env ?s (sd_trace ?s @ take i t) (t ! i)) = NRF_SUCCESS)"
    using strict_seqD [OF k, of x ?s] by blast
  have run: "bnd p k s = k x ?s"
    using x by (cases "p s") (simp add: bnd_run)
  have all: "rc (sd_env s (sd_trace s @ take i (u @ t)) ((u @ t) ! i)) = NRF_SUCCESS"
    if "e = NRF_SUCCESS" "i < length (u @ t)" "is_gatt ((u @ t) ! i)" for i
  proof (cases "i < length u")
    case True
    with that u(3) show ?thesis by (simp add: nth_append)
  next
    case False
    with that t(5) u show ?thesis by (simp add: nth_append)
  qed
  have err: "e \<noteq> NRF_SUCCESS \<longrightarrow> u @ t \<noteq> [] \<and> e = rc (sd_env s (sd_trace s @ butlast (u @ t)) (last (u @ t)))"
    using t(4) u by (auto simp: butlast_append)
  show "\<exists>e c t. fst (bnd p k s) = Ret (e, c) \<and> sd_env (snd (bnd p k s)) = sd_env s
     \<and> sd_trace (snd (bnd p k s)) = sd_trace s @ t
     \<and> (e \<noteq> NRF_SUCCESS \<longrightarrow> t \<noteq> [] \<and> e = rc (sd_env s (sd_trace s @ butlast t) (last t)))
     \<and> (e = NRF_SUCCESS \<longrightarrow>
          (\<forall>i < length t. is_gatt (t ! i) \<longrightarrow> rc (sd_env s (sd_trace s @ take i t) (t ! i)) = NRF_SUCCESS))"
    unfolding run using t u all err by (intro exI [of _ e] exI [of _ y] exI [of _ "u @ t"]) simp
qed

end
