(* ===== verification/AppUtil.thy ===== *)
theory AppUtil
  imports Prelude
begin

text \<open>
  The inline functions of \<^verbatim>\<open>components/libraries/util/app_util.h\<close>: encoding and decoding of
  integers in byte arrays, and the conversion of the battery voltage to a percentage.
  An encoder takes the memory behind its pointer and returns the number of bytes written and
  the memory after the call.
\<close>

unbundle bit_operations_syntax

subsection \<open>The program\<close>

definition uint16_encode :: "u16 \<Rightarrow> bytes \<Rightarrow> u8 \<times> bytes" where
  "uint16_encode value p =
     (2, p[0 := ucast (drop_bit 0 (value AND 0x00FF)), 1 := ucast (drop_bit 8 (value AND 0xFF00))])"

definition uint24_encode :: "u32 \<Rightarrow> bytes \<Rightarrow> u8 \<times> bytes" where
  "uint24_encode value p =
     (3, p[0 := ucast (drop_bit 0 (value AND 0x000000FF)), 1 := ucast (drop_bit 8 (value AND 0x0000FF00)),
           2 := ucast (drop_bit 16 (value AND 0x00FF0000))])"

definition uint32_encode :: "u32 \<Rightarrow> bytes \<Rightarrow> u8 \<times> bytes" where
  "uint32_encode value p =
     (4, p[0 := ucast (drop_bit 0 (value AND 0x000000FF)), 1 := ucast (drop_bit 8 (value AND 0x0000FF00)),
           2 := ucast (drop_bit 16 (value AND 0x00FF0000)), 3 := ucast (drop_bit 24 (value AND 0xFF000000))])"

definition uint48_encode :: "u64 \<Rightarrow> bytes \<Rightarrow> u8 \<times> bytes" where
  "uint48_encode value p =
     (6, p[0 := ucast (drop_bit 0 (value AND 0x0000000000FF)), 1 := ucast (drop_bit 8 (value AND 0x00000000FF00)),
           2 := ucast (drop_bit 16 (value AND 0x000000FF0000)), 3 := ucast (drop_bit 24 (value AND 0x0000FF000000)),
           4 := ucast (drop_bit 32 (value AND 0x00FF00000000)), 5 := ucast (drop_bit 40 (value AND 0xFF0000000000))])"

definition uint16_decode :: "bytes \<Rightarrow> u16" where
  "uint16_decode p = ucast (p ! 0) OR push_bit 8 (ucast (p ! 1))"

definition uint16_big_decode :: "bytes \<Rightarrow> u16" where
  "uint16_big_decode p = push_bit 8 (ucast (p ! 0)) OR ucast (p ! 1)"

definition uint24_decode :: "bytes \<Rightarrow> u32" where
  "uint24_decode p = push_bit 0 (ucast (p ! 0)) OR push_bit 8 (ucast (p ! 1)) OR push_bit 16 (ucast (p ! 2))"

definition uint32_decode :: "bytes \<Rightarrow> u32" where
  "uint32_decode p =
     push_bit 0 (ucast (p ! 0)) OR push_bit 8 (ucast (p ! 1)) OR push_bit 16 (ucast (p ! 2))
     OR push_bit 24 (ucast (p ! 3))"

definition uint32_big_decode :: "bytes \<Rightarrow> u32" where
  "uint32_big_decode p =
     push_bit 24 (ucast (p ! 0)) OR push_bit 16 (ucast (p ! 1)) OR push_bit 8 (ucast (p ! 2))
     OR push_bit 0 (ucast (p ! 3))"

definition uint16_big_encode :: "u16 \<Rightarrow> bytes \<Rightarrow> u8 \<times> bytes" where
  "uint16_big_encode value p = (2, p[0 := ucast (drop_bit 8 value), 1 := ucast (value AND 0xFF)])"

text \<open>The word store of \<^verbatim>\<open>__REV(value)\<close>: on the little-endian core the reversed bytes.\<close>

definition uint32_big_encode :: "u32 \<Rightarrow> bytes \<Rightarrow> u8 \<times> bytes" where
  "uint32_big_encode value p = (4, memcpy_at p 0 (be_bytes32 value))"

definition uint48_decode :: "bytes \<Rightarrow> u64" where
  "uint48_decode p =
     push_bit 0 (ucast (p ! 0)) OR push_bit 8 (ucast (p ! 1)) OR push_bit 16 (ucast (p ! 2))
     OR push_bit 24 (ucast (p ! 3)) OR push_bit 32 (ucast (p ! 4)) OR push_bit 40 (ucast (p ! 5))"

text \<open>The arithmetic is in \<^verbatim>\<open>int\<close>; every difference is non-negative in its branch.\<close>

definition battery_percent :: "int \<Rightarrow> int" where
  "battery_percent mv =
     (if mv \<ge> 3000 then 100
      else if mv > 2900 then 100 - ((3000 - mv) * 58) div 100
      else if mv > 2740 then 42 - ((2900 - mv) * 24) div 160
      else if mv > 2440 then 18 - ((2740 - mv) * 12) div 300
      else if mv > 2100 then 6 - ((2440 - mv) * 6) div 340
      else 0)"

definition battery_level_in_percent :: "u16 \<Rightarrow> u8" where
  "battery_level_in_percent mvolts = of_int (battery_percent (uint mvolts))"

definition is_word_aligned :: "u32 \<Rightarrow> bool" where
  "is_word_aligned p \<longleftrightarrow> (p AND 0x03) = 0"

definition is_address_from_stack :: "u32 \<Rightarrow> u32 \<Rightarrow> u32 \<Rightarrow> bool" where
  "is_address_from_stack stack_base stack_top ptr =
     (if ptr \<ge> stack_base \<and> ptr < stack_top then True else False)"

subsection \<open>Round trips\<close>

lemma byte_mask: "(ucast (drop_bit k (v AND push_bit k (mask 8))) :: u8) = ucast (drop_bit k v)"
  by (rule bit_word_eqI)
    (auto simp: bit_unsigned_iff bit_drop_bit_eq bit_and_iff bit_push_bit_iff bit_mask_iff dest: bit_imp_le_length)

lemma byte_masks16:
  "(ucast (v AND 0xFF) :: u8) = ucast (v :: u16)"
  "(ucast (drop_bit 8 (v AND 0xFF00)) :: u8) = ucast (drop_bit 8 v)"
  using byte_mask [of 0 v] byte_mask [of 8 v] by (simp_all add: mask_eq_exp_minus_1)

lemma byte_masks32:
  "(ucast (v AND 0xFF) :: u8) = ucast (v :: u32)"
  "(ucast (drop_bit 8 (v AND 0xFF00)) :: u8) = ucast (drop_bit 8 v)"
  "(ucast (drop_bit 16 (v AND 0xFF0000)) :: u8) = ucast (drop_bit 16 v)"
  "(ucast (drop_bit 24 (v AND 0xFF000000)) :: u8) = ucast (drop_bit 24 v)"
  using byte_mask [of 0 v] byte_mask [of 8 v] byte_mask [of 16 v] byte_mask [of 24 v]
  by (simp_all add: mask_eq_exp_minus_1)

lemma byte_masks64:
  "(ucast (v AND 0xFF) :: u8) = ucast (v :: u64)"
  "(ucast (drop_bit 8 (v AND 0xFF00)) :: u8) = ucast (drop_bit 8 v)"
  "(ucast (drop_bit 16 (v AND 0xFF0000)) :: u8) = ucast (drop_bit 16 v)"
  "(ucast (drop_bit 24 (v AND 0xFF000000)) :: u8) = ucast (drop_bit 24 v)"
  "(ucast (drop_bit 32 (v AND 0xFF00000000)) :: u8) = ucast (drop_bit 32 v)"
  "(ucast (drop_bit 40 (v AND 0xFF0000000000)) :: u8) = ucast (drop_bit 40 v)"
  using byte_mask [of 0 v] byte_mask [of 8 v] byte_mask [of 16 v] byte_mask [of 24 v]
    byte_mask [of 32 v] byte_mask [of 40 v]
  by (simp_all add: mask_eq_exp_minus_1)

text \<open>Joining the bytes of a word gives back its bits.\<close>

lemma bit_byte:
  "bit (push_bit k (ucast (ucast (drop_bit k v) :: u8)) :: 'b::len word) n \<longleftrightarrow>
     k \<le> n \<and> n < k + 8 \<and> n < LENGTH('b) \<and> bit (v :: 'a::len word) n"
  by (auto simp: bit_push_bit_iff bit_unsigned_iff bit_drop_bit_eq)

lemma bit_byte0:
  "bit (ucast (ucast v :: u8) :: 'b::len word) n \<longleftrightarrow> n < 8 \<and> n < LENGTH('b) \<and> bit (v :: 'a::len word) n"
  by (auto simp: bit_unsigned_iff)

lemmas byte_bits = bit_or_iff bit_byte bit_byte0

lemma join16: "ucast (ucast v :: u8) OR push_bit 8 (ucast (ucast (drop_bit 8 v) :: u8)) = (v :: u16)"
  by (rule bit_word_eqI) (auto simp: byte_bits)

lemma join32:
  "ucast (ucast v :: u8) OR push_bit 8 (ucast (ucast (drop_bit 8 v) :: u8))
   OR push_bit 16 (ucast (ucast (drop_bit 16 v) :: u8)) OR push_bit 24 (ucast (ucast (drop_bit 24 v) :: u8))
   = (v :: u32)"
  by (rule bit_word_eqI) (auto simp: byte_bits)

lemma join24:
  "ucast (ucast v :: u8) OR push_bit 8 (ucast (ucast (drop_bit 8 v) :: u8))
   OR push_bit 16 (ucast (ucast (drop_bit 16 v) :: u8)) = take_bit 24 (v :: u32)"
  by (rule bit_word_eqI) (auto simp: byte_bits bit_take_bit_iff)

lemma join48:
  "ucast (ucast v :: u8) OR push_bit 8 (ucast (ucast (drop_bit 8 v) :: u8))
   OR push_bit 16 (ucast (ucast (drop_bit 16 v) :: u8)) OR push_bit 24 (ucast (ucast (drop_bit 24 v) :: u8))
   OR push_bit 32 (ucast (ucast (drop_bit 32 v) :: u8)) OR push_bit 40 (ucast (ucast (drop_bit 40 v) :: u8))
   = take_bit 48 (v :: u64)"
  by (rule bit_word_eqI) (auto simp: byte_bits bit_take_bit_iff)

subsection \<open>The battery curve\<close>

lemma div_range:
  fixes x b n :: int
  assumes "0 \<le> x" and "x \<le> b" and "0 < n"
  shows "0 \<le> x div n \<and> x div n \<le> b div n"
  using assms by (simp add: pos_imp_zdiv_nonneg_iff zdiv_mono1)

lemma battery_segments:
  "3000 \<le> mv \<Longrightarrow> battery_percent mv = 100"
  "2900 < mv \<Longrightarrow> mv < 3000 \<Longrightarrow> 42 < battery_percent mv \<and> battery_percent mv \<le> 100"
  "2740 < mv \<Longrightarrow> mv \<le> 2900 \<Longrightarrow> 18 < battery_percent mv \<and> battery_percent mv \<le> 42"
  "2440 < mv \<Longrightarrow> mv \<le> 2740 \<Longrightarrow> 6 < battery_percent mv \<and> battery_percent mv \<le> 18"
  "2100 < mv \<Longrightarrow> mv \<le> 2440 \<Longrightarrow> 0 < battery_percent mv \<and> battery_percent mv \<le> 6"
  "mv \<le> 2100 \<Longrightarrow> battery_percent mv = 0"
  using div_range [of "(3000 - mv) * 58" 5742 100] div_range [of "(2900 - mv) * 24" 3816 160]
    div_range [of "(2740 - mv) * 12" 3588 300] div_range [of "(2440 - mv) * 6" 2034 340]
  by (simp_all add: battery_percent_def)

lemma battery_percent_range: "0 \<le> battery_percent mv \<and> battery_percent mv \<le> 100"
proof -
  consider "3000 \<le> mv" | "2900 < mv \<and> mv < 3000" | "2740 < mv \<and> mv \<le> 2900" | "2440 < mv \<and> mv \<le> 2740"
    | "2100 < mv \<and> mv \<le> 2440" | "mv \<le> 2100"
    by linarith
  then show ?thesis
    using battery_segments [of mv] by cases auto
qed

lemma battery_below:
  "v \<le> 2900 \<Longrightarrow> battery_percent v \<le> 42" "v \<le> 2740 \<Longrightarrow> battery_percent v \<le> 18"
  "v \<le> 2440 \<Longrightarrow> battery_percent v \<le> 6" "v \<le> 2100 \<Longrightarrow> battery_percent v = 0"
proof -
  consider "2900 < v" | "2740 < v \<and> v \<le> 2900" | "2440 < v \<and> v \<le> 2740" | "2100 < v \<and> v \<le> 2440" | "v \<le> 2100"
    by linarith
  then show "v \<le> 2900 \<Longrightarrow> battery_percent v \<le> 42" "v \<le> 2740 \<Longrightarrow> battery_percent v \<le> 18"
    "v \<le> 2440 \<Longrightarrow> battery_percent v \<le> 6" "v \<le> 2100 \<Longrightarrow> battery_percent v = 0"
    using battery_segments [of v] by (cases; auto)+
qed

text \<open>Within a segment the level grows with the voltage; between segments it jumps upwards.\<close>

lemma battery_percent_mono:
  assumes "v \<le> w"
  shows "battery_percent v \<le> battery_percent w"
proof -
  have seg: "((c - w) * k) div n \<le> ((c - v) * k) div n" if "0 \<le> k" "0 < n" for c k n :: int
    using assms that by (intro zdiv_mono1 mult_right_mono) auto
  consider (top) "3000 \<le> w" | (a) "2900 < v" "w < 3000" | (b) "2740 < v" "w \<le> 2900"
    | (c) "2440 < v" "w \<le> 2740" | (d) "2100 < v" "w \<le> 2440" | (bottom) "v \<le> 2100"
    | (ab) "v \<le> 2900" "2900 < w" "w < 3000" | (bc) "v \<le> 2740" "2740 < w" "w \<le> 2900"
    | (cd) "v \<le> 2440" "2440 < w" "w \<le> 2740"
    by linarith
  then show ?thesis
  proof cases
    case top
    then show ?thesis
      using battery_segments(1) [of w] battery_percent_range [of v] by simp
  next
    case a
    then show ?thesis using assms seg [of 58 100 3000] by (simp add: battery_percent_def)
  next
    case b
    then show ?thesis using assms seg [of 24 160 2900] by (simp add: battery_percent_def)
  next
    case c
    then show ?thesis using assms seg [of 12 300 2740] by (simp add: battery_percent_def)
  next
    case d
    then show ?thesis using assms seg [of 6 340 2440] by (simp add: battery_percent_def)
  next
    case bottom
    then show ?thesis using battery_below(4) [of v] battery_percent_range [of w] by simp
  next
    case ab
    then show ?thesis using battery_below(1) [of v] battery_segments(2) [of w] by simp
  next
    case bc
    then show ?thesis using battery_below(2) [of v] battery_segments(3) [of w] by simp
  next
    case cd
    then show ?thesis using battery_below(3) [of v] battery_segments(4) [of w] by simp
  qed
qed

lemma uint_battery: "uint (of_int (battery_percent mv) :: u8) = battery_percent mv"
  using battery_percent_range [of mv] by (simp add: unsigned_of_int take_bit_int_eq_self)

subsection \<open>Properties\<close>

text \<open>
  Decoding what was encoded gives the value back: exactly for 16 and 32 bits in both
  byte orders, modulo the width for the 24- and 48-bit encodings.
\<close>

lemma uint_codec_roundtrip:
  assumes "8 \<le> length p"
  shows "uint16_decode (snd (uint16_encode v16 p)) = v16
    \<and> uint16_big_decode (snd (uint16_big_encode v16 p)) = v16
    \<and> uint32_decode (snd (uint32_encode v32 p)) = v32
    \<and> uint32_big_decode (snd (uint32_big_encode v32 p)) = v32
    \<and> uint24_decode (snd (uint24_encode v32 p)) = take_bit 24 v32
    \<and> uint48_decode (snd (uint48_encode v64 p)) = take_bit 48 v64"
proof -
  have [simp]: "p \<noteq> []"
    using assms by auto
  have "uint16_decode (snd (uint16_encode v16 p)) = v16"
    using assms join16 [of v16] by (simp add: uint16_decode_def uint16_encode_def byte_masks16)
  moreover have "uint16_big_decode (snd (uint16_big_encode v16 p)) = v16"
    using assms join16 [of v16]
    by (simp add: uint16_big_decode_def uint16_big_encode_def byte_masks16 or.commute)
  moreover have "uint32_decode (snd (uint32_encode v32 p)) = v32"
    using assms join32 [of v32] by (simp add: uint32_decode_def uint32_encode_def byte_masks32)
  moreover have "uint32_big_decode (snd (uint32_big_encode v32 p)) = v32"
    using assms join32 [of v32]
    by (simp add: uint32_big_decode_def uint32_big_encode_def memcpy_at_def be_bytes32_def ac_simps)
  moreover have "uint24_decode (snd (uint24_encode v32 p)) = take_bit 24 v32"
    using assms join24 [of v32] by (simp add: uint24_decode_def uint24_encode_def byte_masks32)
  moreover have "uint48_decode (snd (uint48_encode v64 p)) = take_bit 48 v64"
    using assms join48 [of v64] by (simp add: uint48_decode_def uint48_encode_def byte_masks64)
  ultimately show ?thesis by blast
qed

lemma uint_codec_roundtrip_example:
  "uint32_decode (snd (uint32_encode 0xDEADBEEF (replicate 8 0))) = 0xDEADBEEF"
  using uint_codec_roundtrip [of "replicate 8 0" 0 "0xDEADBEEF" 0] by simp

text \<open>
  The reported battery level is a percentage, and a higher voltage never reports a lower
  level, across all the segments of the discharge curve.
\<close>

lemma battery_level_monotone:
  "battery_level_in_percent v \<le> 100
   \<and> battery_level_in_percent (min v w) \<le> battery_level_in_percent (max v w)"
proof -
  have "battery_level_in_percent v \<le> battery_level_in_percent w" if "v \<le> w" for v w
    using battery_percent_mono [of "uint v" "uint w"] that battery_percent_range
    by (simp add: battery_level_in_percent_def word_le_def uint_battery)
  moreover have "battery_level_in_percent v \<le> 100"
    using battery_percent_range [of "uint v"] by (simp add: battery_level_in_percent_def word_le_def uint_battery)
  ultimately show ?thesis
    by (simp add: min_def max_def)
qed

end
