(* ===== verification/AdvData.thy ===== *)
theory AdvData
  imports SoftDevice AppUtil
begin

text \<open>
  \<^verbatim>\<open>components/ble/common/ble_advdata.c\<close>: encoding of advertising and scan response data as a
  sequence of AD structures (length, type, payload), and its hand-over to the stack.

  The output array, the running offset \<^verbatim>\<open>*p_offset\<close> and whether a store has missed the array are
  the record \<open>adbuf\<close>: C leaves a store outside the array undefined, here it sets \<open>ad_overrun\<close>. The
  array is not initialised by the code, so its first contents are a parameter.
\<close>

definition NRF_ERROR_DATA_SIZE :: u32 where [nrf_codes]: "NRF_ERROR_DATA_SIZE = 12"

subsection \<open>Advertising data\<close>

datatype ble_advdata_name_type = BLE_ADVDATA_NO_NAME | BLE_ADVDATA_SHORT_NAME | BLE_ADVDATA_FULL_NAME

text \<open>\<^verbatim>\<open>uint8_array_t\<close>: a size and a pointer, whose memory holds at least that many bytes.\<close>

record uint8_array =
  arr_size :: u16
  arr_data :: "bytes option"

record ble_advdata_manuf_data =
  company_identifier :: u16
  manuf_data :: uint8_array

record ble_advdata_service_data =
  service_uuid :: u16
  service_data :: uint8_array

record ble_advdata_conn_int =
  ci_min :: u16
  ci_max :: u16

record ble_advdata =
  name_type :: ble_advdata_name_type
  short_name_len :: u8
  include_appearance :: bool
  adv_flags :: u8
  p_tx_power_level :: "u8 option"
  uuids_more_available :: "ble_uuid list"
  uuids_complete :: "ble_uuid list"
  uuids_solicited :: "ble_uuid list"
  p_slave_conn_int :: "ble_advdata_conn_int option"
  p_manuf_specific_data :: "ble_advdata_manuf_data option"
  p_service_data_array :: "ble_advdata_service_data list option"
  service_data_count :: u8
  include_ble_device_addr :: bool

definition zero_advdata :: ble_advdata where
  "zero_advdata = \<lparr>name_type = BLE_ADVDATA_NO_NAME, short_name_len = 0, include_appearance = False,
     adv_flags = 0, p_tx_power_level = None, uuids_more_available = [], uuids_complete = [],
     uuids_solicited = [], p_slave_conn_int = None, p_manuf_specific_data = None,
     p_service_data_array = None, service_data_count = 0, include_ble_device_addr = False\<rparr>"

definition BLE_GAP_ADV_MAX_SIZE :: nat where "BLE_GAP_ADV_MAX_SIZE = 31"
definition BLE_GAP_ADV_FLAG_BR_EDR_NOT_SUPPORTED :: u8 where "BLE_GAP_ADV_FLAG_BR_EDR_NOT_SUPPORTED = 4"
definition BLE_GAP_ADV_FLAGS_LE_ONLY_GENERAL_DISC_MODE :: u8 where
  "BLE_GAP_ADV_FLAGS_LE_ONLY_GENERAL_DISC_MODE = 6"

subsection \<open>The output array\<close>

record adbuf =
  ad_buf :: bytes
  ad_off :: u16
  ad_overrun :: bool

text \<open>A store at an index, a store at the offset that moves it on, and a move without a store.\<close>

definition ad_poke1 :: "nat \<Rightarrow> u8 \<Rightarrow> adbuf \<Rightarrow> adbuf" where
  "ad_poke1 i v a = (if i < length (ad_buf a) then a\<lparr>ad_buf := (ad_buf a)[i := v]\<rparr> else a\<lparr>ad_overrun := True\<rparr>)"

primrec ad_poke :: "nat \<Rightarrow> bytes \<Rightarrow> adbuf \<Rightarrow> adbuf" where
  "ad_poke i [] a = a"
| "ad_poke i (v # vs) a = ad_poke (Suc i) vs (ad_poke1 i v a)"

definition ad_skip :: "nat \<Rightarrow> adbuf \<Rightarrow> adbuf" where
  "ad_skip n a = a\<lparr>ad_off := ad_off a + of_nat n\<rparr>"

definition ad_puts :: "bytes \<Rightarrow> adbuf \<Rightarrow> adbuf" where
  "ad_puts vs a = ad_skip (length vs) (ad_poke (unat (ad_off a)) vs a)"

abbreviation ad_pos :: "adbuf \<Rightarrow> nat" where
  "ad_pos a \<equiv> unat (ad_off a)"

type_synonym ('w) ad_prog = "adbuf \<Rightarrow> ('w world_scheme, u32 \<times> adbuf) prog"

subsection \<open>The encoders\<close>

definition uint16_bytes :: "u16 \<Rightarrow> bytes" where
  "uint16_bytes v = snd (uint16_encode v [0, 0])"

definition ble_device_addr_encode :: "nat \<Rightarrow> 'w ad_prog" where
  "ble_device_addr_encode max_size a =
     (if ad_pos a + 9 > max_size then ret (NRF_ERROR_DATA_SIZE, a)
      else bnd (svc (Gap Sd_ble_gap_address_get)) (\<lambda>r.
           verify (rc r) a
             (ret (NRF_SUCCESS,
                ad_puts [if out_u8 r = 0 then 0 else 1]
                  (ad_puts (take 6 (out_bytes r)) (ad_puts [0x1B] (ad_puts [8] a)))))))"

definition name_encode :: "ble_advdata \<Rightarrow> nat \<Rightarrow> 'w ad_prog" where
  "name_encode p_advdata max_size a =
     (if name_type p_advdata = BLE_ADVDATA_SHORT_NAME \<and> short_name_len p_advdata = 0
      then ret (NRF_ERROR_INVALID_PARAM, a)
      else if ad_pos a + 2 > max_size
            \<or> (name_type p_advdata = BLE_ADVDATA_SHORT_NAME
               \<and> ad_pos a + 2 + unat (short_name_len p_advdata) > max_size)
      then ret (NRF_ERROR_DATA_SIZE, a)
      else (let rem_adv_data_len = (of_nat (max_size - ad_pos a - 2) :: u16)
            in bnd (svc (Gap (Sd_ble_gap_device_name_get rem_adv_data_len))) (\<lambda>r.
               let a = ad_poke (ad_pos a + 2) (out_bytes r) a; actual_length = out_u16 r
               in verify (rc r) a
                    (let (adv_data_format, actual_length) =
                       (if name_type p_advdata = BLE_ADVDATA_FULL_NAME \<and> actual_length \<le> rem_adv_data_len
                        then (0x09, actual_length)
                        else (0x08, if name_type p_advdata = BLE_ADVDATA_SHORT_NAME
                                       \<and> ucast (short_name_len p_advdata) \<le> rem_adv_data_len
                                    then ucast (short_name_len p_advdata) else rem_adv_data_len))
                     in if unat actual_length > 0xFF - 1 then ret (NRF_ERROR_DATA_SIZE, a)
                        else ret (NRF_SUCCESS,
                               ad_skip (unat actual_length)
                                 (ad_puts [adv_data_format] (ad_puts [1 + ucast actual_length] a)))))))"

definition appearance_encode :: "nat \<Rightarrow> 'w ad_prog" where
  "appearance_encode max_size a =
     (if ad_pos a + 4 > max_size then ret (NRF_ERROR_DATA_SIZE, a)
      else bnd (svc (Gap Sd_ble_gap_appearance_get)) (\<lambda>r.
           verify (rc r) a
             (ret (NRF_SUCCESS,
                ad_puts (uint16_bytes (out_u16 r)) (ad_puts [0x19] (ad_puts [3] a))))))"

definition flags_encode :: "u8 \<Rightarrow> nat \<Rightarrow> 'w ad_prog" where
  "flags_encode fl max_size a =
     (if ad_pos a + 3 > max_size then ret (NRF_ERROR_DATA_SIZE, a)
      else ret (NRF_SUCCESS, ad_puts [fl] (ad_puts [0x01] (ad_puts [2] a))))"

definition tx_power_level_encode :: "u8 \<Rightarrow> nat \<Rightarrow> 'w ad_prog" where
  "tx_power_level_encode tx_power_level max_size a =
     (if ad_pos a + 3 > max_size then ret (NRF_ERROR_DATA_SIZE, a)
      else ret (NRF_SUCCESS, ad_puts [tx_power_level] (ad_puts [0x0A] (ad_puts [2] a))))"

text \<open>
  The loop of \<^verbatim>\<open>uuid_list_sized_encode\<close>, with the flag \<^verbatim>\<open>is_heading_written\<close> as an argument and
  part of the result; the caller writes the length afterwards.
\<close>

fun uuid_list_loop ::
  "ble_uuid list \<Rightarrow> u8 \<Rightarrow> u8 \<Rightarrow> nat \<Rightarrow> bool \<Rightarrow> adbuf \<Rightarrow> ('w world_scheme, u32 \<times> bool \<times> adbuf) prog" where
  "uuid_list_loop [] ad_type uuid_size max_size hd_written a = ret (NRF_SUCCESS, hd_written, a)"
| "uuid_list_loop (u # us) ad_type uuid_size max_size hd_written a =
     bnd (svc (Gap (Sd_ble_uuid_encode u False))) (\<lambda>r.
     verify (rc r) (hd_written, a)
       (if out_u8 r = uuid_size
        then if ad_pos a + unat (out_u8 r) + (if hd_written then 0 else 2) > max_size
             then ret (NRF_ERROR_DATA_SIZE, hd_written, a)
             else (let a = (if hd_written then a else ad_puts [ad_type] (ad_skip 1 a))
                   in bnd (svc (Gap (Sd_ble_uuid_encode u True))) (\<lambda>r.
                      let a = ad_poke (ad_pos a) (out_bytes r) a
                      in verify (rc r) (True, a)
                           (uuid_list_loop us ad_type uuid_size max_size True (ad_skip (unat (out_u8 r)) a))))
        else uuid_list_loop us ad_type uuid_size max_size hd_written a))"

definition uuid_list_sized_encode :: "ble_uuid list \<Rightarrow> u8 \<Rightarrow> u8 \<Rightarrow> nat \<Rightarrow> 'w ad_prog" where
  "uuid_list_sized_encode uuids ad_type uuid_size max_size a =
     (let start_pos = ad_off a
      in bnd (uuid_list_loop uuids ad_type uuid_size max_size False a) (\<lambda>(e, hd_written, a).
         verify e a
           (if hd_written
            then (let len = ad_off a - (start_pos + 1)
                  in if len > 0xFF then ret (NRF_ERROR_DATA_SIZE, a)
                     else ret (NRF_SUCCESS, ad_poke (unat start_pos) [ucast len] a))
            else ret (NRF_SUCCESS, a))))"

text \<open>\<open>ad_seq f g\<close>: \<^verbatim>\<open>f\<close>, \<^verbatim>\<open>VERIFY_SUCCESS\<close>, then \<^verbatim>\<open>g\<close>; \<open>ad_when\<close>: an optional field.\<close>

definition ad_seq :: "'w ad_prog \<Rightarrow> 'w ad_prog \<Rightarrow> 'w ad_prog" where
  "ad_seq f g a = bnd (f a) (\<lambda>(e, a). verify e a (g a))"

definition ad_when :: "bool \<Rightarrow> 'w ad_prog \<Rightarrow> 'w ad_prog" where
  "ad_when b f a = (if b then f a else ret (NRF_SUCCESS, a))"

definition uuid_list_encode :: "ble_uuid list \<Rightarrow> u8 \<Rightarrow> u8 \<Rightarrow> nat \<Rightarrow> 'w ad_prog" where
  "uuid_list_encode uuids adv_type_16 adv_type_128 max_size =
     ad_seq (uuid_list_sized_encode uuids adv_type_16 2 max_size)
            (uuid_list_sized_encode uuids adv_type_128 16 max_size)"

definition conn_int_check :: "ble_advdata_conn_int \<Rightarrow> u32" where
  "conn_int_check ci =
     (if ci_min ci < 0x0006 \<or> (ci_min ci > 0x0c80 \<and> ci_min ci \<noteq> 0xffff) then NRF_ERROR_INVALID_PARAM
      else if ci_max ci < 0x0006 \<or> (ci_max ci > 0x0c80 \<and> ci_max ci \<noteq> 0xffff) then NRF_ERROR_INVALID_PARAM
      else if ci_min ci \<noteq> 0xffff \<and> ci_max ci \<noteq> 0xffff \<and> ci_min ci > ci_max ci then NRF_ERROR_INVALID_PARAM
      else NRF_SUCCESS)"

definition conn_int_encode :: "ble_advdata_conn_int \<Rightarrow> nat \<Rightarrow> 'w ad_prog" where
  "conn_int_encode ci max_size a =
     (if ad_pos a + 6 > max_size then ret (NRF_ERROR_DATA_SIZE, a)
      else verify (conn_int_check ci) a
             (ret (NRF_SUCCESS,
                ad_puts (uint16_bytes (ci_max ci)) (ad_puts (uint16_bytes (ci_min ci))
                  (ad_puts [0x12] (ad_puts [5] a))))))"

definition manuf_specific_data_encode :: "ble_advdata_manuf_data \<Rightarrow> nat \<Rightarrow> 'w ad_prog" where
  "manuf_specific_data_encode md max_size a =
     (let data_size = 2 + unat (arr_size (manuf_data md))
      in if ad_pos a + 2 + data_size > max_size then ret (NRF_ERROR_DATA_SIZE, a)
         else if data_size > 0xFF - 1 then ret (NRF_ERROR_DATA_SIZE, a)
         else (let a = ad_puts (uint16_bytes (company_identifier md))
                         (ad_puts [0xFF] (ad_puts [of_nat (1 + data_size)] a))
               in if arr_size (manuf_data md) > 0
                  then case arr_data (manuf_data md) of
                         None \<Rightarrow> ret (NRF_ERROR_INVALID_PARAM, a)
                       | Some d \<Rightarrow> ret (NRF_SUCCESS, ad_puts (take (unat (arr_size (manuf_data md))) d) a)
                  else ret (NRF_SUCCESS, a)))"

text \<open>
  The loop of \<^verbatim>\<open>service_data_encode\<close> over the first \<^verbatim>\<open>service_data_count\<close> elements of the array.
  Unlike the other encoders it does not compare the offset with \<^verbatim>\<open>max_size\<close>.
\<close>

fun service_data_loop :: "ble_advdata_service_data list \<Rightarrow> adbuf \<Rightarrow> u32 \<times> adbuf" where
  "service_data_loop [] a = (NRF_SUCCESS, a)"
| "service_data_loop (sd # sds) a =
     (let data_size = 2 + unat (arr_size (service_data sd))
      in if data_size > 0xFF - 1 then (NRF_ERROR_DATA_SIZE, a)
         else (let a = ad_puts (uint16_bytes (service_uuid sd))
                         (ad_puts [0x16] (ad_puts [of_nat (1 + data_size)] a))
               in if arr_size (service_data sd) > 0
                  then case arr_data (service_data sd) of
                         None \<Rightarrow> (NRF_ERROR_INVALID_PARAM, a)
                       | Some d \<Rightarrow> service_data_loop sds (ad_puts (take (unat (arr_size (service_data sd))) d) a)
                  else service_data_loop sds a))"

definition service_data_encode :: "ble_advdata \<Rightarrow> 'w ad_prog" where
  "service_data_encode p_advdata a =
     (case p_service_data_array p_advdata of
        None \<Rightarrow> ret (NRF_ERROR_INVALID_PARAM, a)
      | Some arr \<Rightarrow> ret (service_data_loop (take (unat (service_data_count p_advdata)) arr) a))"

text \<open>\<open>ad_opt\<close>: a field that is encoded when its pointer is not \<^verbatim>\<open>NULL\<close>.\<close>

definition ad_opt :: "'b option \<Rightarrow> ('b \<Rightarrow> 'w ad_prog) \<Rightarrow> 'w ad_prog" where
  "ad_opt p f a = (case p of None \<Rightarrow> ret (NRF_SUCCESS, a) | Some x \<Rightarrow> f x a)"

definition adv_data_encode :: "ble_advdata \<Rightarrow> bytes \<Rightarrow> nat \<Rightarrow> ('w world_scheme, u32 \<times> adbuf) prog" where
  "adv_data_encode p buf max_size =
     ad_seq (ad_when (include_ble_device_addr p) (ble_device_addr_encode max_size))
    (ad_seq (ad_when (include_appearance p) (appearance_encode max_size))
    (ad_seq (ad_when (adv_flags p \<noteq> 0) (flags_encode (adv_flags p) max_size))
    (ad_seq (ad_opt (p_tx_power_level p) (\<lambda>v. tx_power_level_encode v max_size))
    (ad_seq (ad_when (uuids_more_available p \<noteq> []) (uuid_list_encode (uuids_more_available p) 0x02 0x06 max_size))
    (ad_seq (ad_when (uuids_complete p \<noteq> []) (uuid_list_encode (uuids_complete p) 0x03 0x07 max_size))
    (ad_seq (ad_when (uuids_solicited p \<noteq> []) (uuid_list_encode (uuids_solicited p) 0x14 0x15 max_size))
    (ad_seq (ad_opt (p_slave_conn_int p) (\<lambda>ci. conn_int_encode ci max_size))
    (ad_seq (ad_opt (p_manuf_specific_data p) (\<lambda>md. manuf_specific_data_encode md max_size))
    (ad_seq (ad_when (service_data_count p > 0) (service_data_encode p))
            (ad_when (name_type p \<noteq> BLE_ADVDATA_NO_NAME) (name_encode p max_size)))))))))))
       \<lparr>ad_buf = buf, ad_off = 0, ad_overrun = False\<rparr>"

definition advdata_check :: "ble_advdata \<Rightarrow> u32" where
  "advdata_check p =
     (if (adv_flags p AND BLE_GAP_ADV_FLAG_BR_EDR_NOT_SUPPORTED) = 0 then NRF_ERROR_INVALID_PARAM else NRF_SUCCESS)"

definition srdata_check :: "ble_advdata \<Rightarrow> u32" where
  "srdata_check p = (if adv_flags p \<noteq> 0 then NRF_ERROR_INVALID_PARAM else NRF_SUCCESS)"

text \<open>
  One of the two halves of \<^verbatim>\<open>ble_advdata_set\<close>: the array and length to pass to the stack. \<open>stk\<close>
  is the uninitialised local array of 31 bytes.
\<close>

definition advdata_half ::
  "(ble_advdata \<Rightarrow> u32) \<Rightarrow> ble_advdata option \<Rightarrow> bytes \<Rightarrow> ('w world_scheme, u32 \<times> bytes option \<times> u16) prog" where
  "advdata_half chk p stk =
     (case p of
        None \<Rightarrow> ret (NRF_SUCCESS, None, 0)
      | Some d \<Rightarrow>
          verify (chk d) (None, 0)
            (bnd (adv_data_encode d stk BLE_GAP_ADV_MAX_SIZE) (\<lambda>(e, a). ret (e, Some (ad_buf a), ad_off a))))"

definition ble_advdata_set ::
  "bytes \<Rightarrow> bytes \<Rightarrow> ble_advdata option \<Rightarrow> ble_advdata option \<Rightarrow> ('w world_scheme, u32) prog" where
  "ble_advdata_set stk_adv stk_sr p_advdata p_srdata =
     bnd (advdata_half advdata_check p_advdata stk_adv) (\<lambda>(e, p_encoded_advdata, len_advdata).
     if e \<noteq> NRF_SUCCESS then ret e
     else bnd (advdata_half srdata_check p_srdata stk_sr) (\<lambda>(e, p_encoded_srdata, len_srdata).
          if e \<noteq> NRF_SUCCESS then ret e
          else svc_rc (Gap (Sd_ble_gap_adv_data_set p_encoded_advdata len_advdata p_encoded_srdata len_srdata))))"

subsection \<open>Specification\<close>

text \<open>
  An AD structure of the Core Specification and its encoding; a receiver splits the data with
  \<open>ad_parse\<close>.
\<close>

datatype ad = AD (ad_type_of: u8) (ad_payload: bytes)

fun ad_enc :: "ad \<Rightarrow> bytes" where
  "ad_enc (AD t p) = of_nat (Suc (length p)) # t # p"

definition ad_stream :: "ad list \<Rightarrow> bytes" where
  "ad_stream ads = concat (map ad_enc ads)"

function ad_parse :: "bytes \<Rightarrow> ad list option" where
  "ad_parse [] = Some []"
| "ad_parse (l # rest) =
     (if l = 0 \<or> unat l > length rest then None
      else map_option (Cons (AD (hd rest) (take (unat l - 1) (tl rest)))) (ad_parse (drop (unat l) rest)))"
  by pat_completeness auto
termination by (relation "measure length") auto

text \<open>
  What the stack knows and answers: \<open>stack_ok\<close> states the documented results of the five queries
  (\<^verbatim>\<open>ble_gap.h\<close>, \<^verbatim>\<open>ble.h\<close>): the device name query fills the buffer as far as it reaches and
  returns the full length, the UUID encoder returns the number of bytes it writes.
\<close>

record stack_info =
  dev_name :: bytes
  dev_appearance :: u16
  dev_addr :: bytes
  dev_addr_type :: u8
  uuid_enc :: "ble_uuid \<Rightarrow> bytes"

definition stack_ok :: "stack_info \<Rightarrow> 'w world_scheme \<Rightarrow> bool" where
  "stack_ok I s \<longleftrightarrow> length (dev_addr I) = 6 \<and> length (dev_name I) \<le> 31
     \<and> (\<forall>u. length (uuid_enc I u) \<le> 16)
     \<and> (\<forall>h. sd_env s h (Gap Sd_ble_gap_address_get)
              = null_reply\<lparr>out_bytes := dev_addr I, out_u8 := dev_addr_type I\<rparr>)
     \<and> (\<forall>h. sd_env s h (Gap Sd_ble_gap_appearance_get) = null_reply\<lparr>out_u16 := dev_appearance I\<rparr>)
     \<and> (\<forall>h n. sd_env s h (Gap (Sd_ble_gap_device_name_get n))
              = null_reply\<lparr>out_bytes := take (unat n) (dev_name I), out_u16 := of_nat (length (dev_name I))\<rparr>)
     \<and> (\<forall>h u b. sd_env s h (Gap (Sd_ble_uuid_encode u b))
              = null_reply\<lparr>out_bytes := (if b then uuid_enc I u else []),
                           out_u8 := of_nat (length (uuid_enc I u))\<rparr>)"

text \<open>The reference: AD structures are added one by one while they fit.\<close>

type_synonym ad_spec = "ad list \<Rightarrow> u32 + ad list"

definition ad_add :: "nat \<Rightarrow> ad \<Rightarrow> ad_spec" where
  "ad_add n x ads =
     (if length (ad_stream ads) + length (ad_enc x) > n then Inl NRF_ERROR_DATA_SIZE else Inr (ads @ [x]))"

definition spec_seq :: "ad_spec \<Rightarrow> ad_spec \<Rightarrow> ad_spec" where
  "spec_seq F G ads = (case F ads of Inl e \<Rightarrow> Inl e | Inr ads' \<Rightarrow> G ads')"

definition spec_when :: "bool \<Rightarrow> ad_spec \<Rightarrow> ad_spec" where
  "spec_when b F ads = (if b then F ads else Inr ads)"

definition spec_opt :: "'b option \<Rightarrow> ('b \<Rightarrow> ad_spec) \<Rightarrow> ad_spec" where
  "spec_opt p F ads = (case p of None \<Rightarrow> Inr ads | Some x \<Rightarrow> F x ads)"

definition uuids_of_size :: "stack_info \<Rightarrow> nat \<Rightarrow> ble_uuid list \<Rightarrow> ble_uuid list" where
  "uuids_of_size I k us = filter (\<lambda>u. length (uuid_enc I u) = k) us"

definition uuids_spec :: "stack_info \<Rightarrow> nat \<Rightarrow> ble_uuid list \<Rightarrow> u8 \<Rightarrow> nat \<Rightarrow> ad_spec" where
  "uuids_spec I n us t k =
     spec_when (uuids_of_size I k us \<noteq> []) (ad_add n (AD t (concat (map (uuid_enc I) (uuids_of_size I k us)))))"

definition conn_int_spec :: "nat \<Rightarrow> ble_advdata_conn_int \<Rightarrow> ad_spec" where
  "conn_int_spec n ci ads =
     (case ad_add n (AD 0x12 (uint16_bytes (ci_min ci) @ uint16_bytes (ci_max ci))) ads of
        Inl e \<Rightarrow> Inl e
      | Inr ads' \<Rightarrow> if conn_int_check ci = NRF_SUCCESS then Inr ads' else Inl NRF_ERROR_INVALID_PARAM)"

definition manuf_spec :: "nat \<Rightarrow> ble_advdata_manuf_data \<Rightarrow> ad_spec" where
  "manuf_spec n md ads =
     (let size = unat (arr_size (manuf_data md))
      in if length (ad_stream ads) + 4 + size > n then Inl NRF_ERROR_DATA_SIZE
         else case arr_data (manuf_data md) of
                None \<Rightarrow> if size = 0 then Inr (ads @ [AD 0xFF (uint16_bytes (company_identifier md))])
                        else Inl NRF_ERROR_INVALID_PARAM
              | Some d \<Rightarrow> Inr (ads @ [AD 0xFF (uint16_bytes (company_identifier md) @ take size d)]))"

text \<open>
  The name: complete if it fits, otherwise shortened to what fits or to the wished length.
\<close>

definition name_spec :: "stack_info \<Rightarrow> nat \<Rightarrow> ble_advdata \<Rightarrow> ad_spec" where
  "name_spec I n p ads =
     (let rest = n - length (ad_stream ads) - 2; short = unat (short_name_len p)
      in if name_type p = BLE_ADVDATA_SHORT_NAME \<and> short = 0 then Inl NRF_ERROR_INVALID_PARAM
         else if length (ad_stream ads) + 2 > n then Inl NRF_ERROR_DATA_SIZE
         else if name_type p = BLE_ADVDATA_SHORT_NAME
         then if short > rest then Inl NRF_ERROR_DATA_SIZE else Inr (ads @ [AD 0x08 (take short (dev_name I))])
         else if length (dev_name I) \<le> rest then Inr (ads @ [AD 0x09 (dev_name I)])
         else Inr (ads @ [AD 0x08 (take rest (dev_name I))]))"

definition advdata_spec :: "stack_info \<Rightarrow> nat \<Rightarrow> ble_advdata \<Rightarrow> ad_spec" where
  "advdata_spec I n p =
     spec_seq (spec_when (include_ble_device_addr p)
                 (ad_add n (AD 0x1B (dev_addr I @ [if dev_addr_type I = 0 then 0 else 1]))))
    (spec_seq (spec_when (include_appearance p) (ad_add n (AD 0x19 (uint16_bytes (dev_appearance I)))))
    (spec_seq (spec_when (adv_flags p \<noteq> 0) (ad_add n (AD 0x01 [adv_flags p])))
    (spec_seq (spec_opt (p_tx_power_level p) (\<lambda>v. ad_add n (AD 0x0A [v])))
    (spec_seq (spec_seq (uuids_spec I n (uuids_more_available p) 0x02 2) (uuids_spec I n (uuids_more_available p) 0x06 16))
    (spec_seq (spec_seq (uuids_spec I n (uuids_complete p) 0x03 2) (uuids_spec I n (uuids_complete p) 0x07 16))
    (spec_seq (spec_seq (uuids_spec I n (uuids_solicited p) 0x14 2) (uuids_spec I n (uuids_solicited p) 0x15 16))
    (spec_seq (spec_opt (p_slave_conn_int p) (conn_int_spec n))
    (spec_seq (spec_opt (p_manuf_specific_data p) (manuf_spec n))
              (spec_when (name_type p \<noteq> BLE_ADVDATA_NO_NAME) (name_spec I n p))))))))))"

text \<open>
  Inputs the exact statement is about: no service data, arrays as long as their size says, and
  a wished short name that the device name can fill.
\<close>

definition advdata_ok :: "stack_info \<Rightarrow> ble_advdata \<Rightarrow> bool" where
  "advdata_ok I p \<longleftrightarrow> service_data_count p = 0
     \<and> (\<forall>md d. p_manuf_specific_data p = Some md \<and> arr_data (manuf_data md) = Some d
          \<longrightarrow> unat (arr_size (manuf_data md)) \<le> length d)
     \<and> (name_type p = BLE_ADVDATA_SHORT_NAME \<longrightarrow> unat (short_name_len p) \<le> length (dev_name I))"

text \<open>A stack for examples.\<close>

definition demo_info :: stack_info where
  "demo_info = \<lparr>dev_name = [0x50, 0x46], dev_appearance = 0x0200, dev_addr = replicate 6 0xC0, dev_addr_type = 1,
     uuid_enc = (\<lambda>u. uint16_bytes (uuid u))\<rparr>"

definition demo_stack :: world where
  "demo_stack = \<lparr>sd_env = (\<lambda>h c. case c of
       Gap Sd_ble_gap_address_get \<Rightarrow> null_reply\<lparr>out_bytes := dev_addr demo_info, out_u8 := dev_addr_type demo_info\<rparr>
     | Gap Sd_ble_gap_appearance_get \<Rightarrow> null_reply\<lparr>out_u16 := dev_appearance demo_info\<rparr>
     | Gap (Sd_ble_gap_device_name_get n) \<Rightarrow>
         null_reply\<lparr>out_bytes := take (unat n) (dev_name demo_info), out_u16 := of_nat (length (dev_name demo_info))\<rparr>
     | Gap (Sd_ble_uuid_encode u b) \<Rightarrow>
         null_reply\<lparr>out_bytes := (if b then uuid_enc demo_info u else []), out_u8 := of_nat (length (uuid_enc demo_info u))\<rparr>
     | _ \<Rightarrow> null_reply), sd_trace = []\<rparr>"

definition demo_advdata :: ble_advdata where
  "demo_advdata = zero_advdata\<lparr>name_type := BLE_ADVDATA_FULL_NAME, include_appearance := True, adv_flags := 6,
     uuids_more_available := [BLE_UUID_BLE_ASSIGN 0x1802, BLE_UUID_BLE_ASSIGN 0x1803]\<rparr>"

definition demo_service_data :: ble_advdata_service_data where
  "demo_service_data = \<lparr>service_uuid = 0x180F, service_data = \<lparr>arr_size = 30, arr_data = Some (replicate 30 0)\<rparr>\<rparr>"

subsection \<open>Stores in the array\<close>

text \<open>\<open>ad_at xs ys a\<close>: no store has missed, \<open>xs\<close> is written and \<open>ys\<close> is the rest of the array.\<close>

definition ad_at :: "bytes \<Rightarrow> bytes \<Rightarrow> adbuf \<Rightarrow> bool" where
  "ad_at xs ys a \<longleftrightarrow> ad_buf a = xs @ ys \<and> ad_pos a = length xs \<and> \<not> ad_overrun a \<and> length (xs @ ys) < 65536"

lemma ad_poke_in:
  "i + length vs \<le> length (ad_buf a) \<Longrightarrow> ad_poke i vs a = a\<lparr>ad_buf := memcpy_at (ad_buf a) i vs\<rparr>"
proof (induction vs arbitrary: i a)
  case Nil
  then show ?case by (simp add: memcpy_at_def)
next
  case (Cons v vs)
  then have i: "i < length (ad_buf a)" by simp
  have "memcpy_at ((ad_buf a)[i := v]) (Suc i) vs = memcpy_at (ad_buf a) i (v # vs)"
    using i by (simp add: memcpy_at_def take_list_update_Suc)
  then show ?case
    using Cons.IH [of "Suc i" "a\<lparr>ad_buf := (ad_buf a)[i := v]\<rparr>"] Cons.prems i by (simp add: ad_poke1_def)
qed

lemma ad_at_poke:
  assumes "ad_at xs ys a" and "k + length vs \<le> length ys"
  shows "ad_at xs (memcpy_at ys k vs) (ad_poke (length xs + k) vs a)"
  using assms by (simp add: ad_at_def ad_poke_in memcpy_at_def)

lemma ad_at_skip:
  assumes "ad_at xs ys a" and "n \<le> length ys"
  shows "ad_at (xs @ take n ys) (drop n ys) (ad_skip n a)"
proof -
  have "unat (ad_off a + of_nat n) = length xs + n"
    using assms by (simp add: ad_at_def unat_word_ariths unat_of_nat take_bit_nat_eq_self)
  then show ?thesis using assms by (simp add: ad_at_def ad_skip_def)
qed

lemma ad_at_puts:
  assumes "ad_at xs ys a" and "length vs \<le> length ys"
  shows "ad_at (xs @ vs) (drop (length vs) ys) (ad_puts vs a)"
proof -
  have "ad_at xs (vs @ drop (length vs) ys) (ad_poke (ad_pos a) vs a)"
    using ad_at_poke [OF assms(1), of 0 vs] assms by (simp add: ad_at_def memcpy_at_def)
  then show ?thesis
    using ad_at_skip [of xs "vs @ drop (length vs) ys" _ "length vs"] by (simp add: ad_puts_def)
qed

subsection \<open>Encoders against the reference\<close>

definition ad_inv :: "nat \<Rightarrow> ad list \<Rightarrow> adbuf \<Rightarrow> bool" where
  "ad_inv n ads a \<longleftrightarrow> n \<le> 255 \<and> length (ad_stream ads) \<le> n
     \<and> (\<exists>ys. ad_at (ad_stream ads) ys a \<and> n \<le> length (ad_stream ads) + length ys)"

text \<open>
  \<open>encodes I n f F\<close>: the program \<open>f\<close> returns, asks only questions that \<open>stack_ok\<close> covers, never
  stores outside the array, and its return code and the data it has written are those of \<open>F\<close>.
\<close>

definition encodes :: "stack_info \<Rightarrow> nat \<Rightarrow> 'w ad_prog \<Rightarrow> ad_spec \<Rightarrow> bool" where
  "encodes I n f F \<longleftrightarrow> (\<forall>s a ads. stack_ok I s \<longrightarrow> ad_inv n ads a \<longrightarrow>
     (\<exists>e a' s'. f a s = (Ret (e, a'), s') \<and> stack_ok I s' \<and> \<not> ad_overrun a' \<and>
        (case F ads of Inl err \<Rightarrow> e = err \<and> err \<noteq> NRF_SUCCESS
                     | Inr ads' \<Rightarrow> e = NRF_SUCCESS \<and> ad_inv n ads' a')))"

lemma encodesI:
  assumes "\<And>s a ads. stack_ok I s \<Longrightarrow> ad_inv n ads a \<Longrightarrow>
     (\<exists>e a' s'. f a s = (Ret (e, a'), s') \<and> stack_ok I s' \<and> \<not> ad_overrun a' \<and>
        (case F ads of Inl err \<Rightarrow> e = err \<and> err \<noteq> NRF_SUCCESS
                     | Inr ads' \<Rightarrow> e = NRF_SUCCESS \<and> ad_inv n ads' a'))"
  shows "encodes I n f F"
  using assms by (simp add: encodes_def)

lemma encodesD:
  assumes "encodes I n f F" and "stack_ok I s" and "ad_inv n ads a"
  obtains e a' s' where "f a s = (Ret (e, a'), s')" and "stack_ok I s'" and "\<not> ad_overrun a'"
    and "case F ads of Inl err \<Rightarrow> e = err \<and> err \<noteq> NRF_SUCCESS | Inr ads' \<Rightarrow> e = NRF_SUCCESS \<and> ad_inv n ads' a'"
  using assms unfolding encodes_def by meson

lemma stack_ok_trace [simp]: "stack_ok I (s\<lparr>sd_trace := t\<rparr>) = stack_ok I s"
  by (simp add: stack_ok_def)

lemma ad_inv_overrun: "ad_inv n ads a \<Longrightarrow> \<not> ad_overrun a"
  by (auto simp: ad_inv_def ad_at_def)

lemma ad_inv_pos: "ad_inv n ads a \<Longrightarrow> ad_pos a = length (ad_stream ads)"
  by (auto simp: ad_inv_def ad_at_def)

lemma ad_stream_snoc [simp]: "ad_stream (ads @ [x]) = ad_stream ads @ ad_enc x"
  by (simp add: ad_stream_def)

lemma length_ad_enc: "length (ad_enc (AD t p)) = length p + 2"
  by simp

lemma length_uint16_bytes [simp]: "length (uint16_bytes v) = 2"
  by (simp add: uint16_bytes_def uint16_encode_def)

text \<open>Storing the bytes of one AD structure at the offset adds it.\<close>

lemma ad_inv_add:
  assumes "ad_inv n ads a" and "length (ad_stream ads) + length (ad_enc x) \<le> n"
    and "ad_at (ad_stream ads @ ad_enc x) ys a'" and "length (ad_buf a') = length (ad_buf a)"
  shows "ad_inv n (ads @ [x]) a'"
  using assms by (auto simp: ad_inv_def ad_at_def)

lemma ad_at_length: "ad_at xs ys a \<Longrightarrow> length (ad_buf a) = length xs + length ys"
  by (simp add: ad_at_def)

lemma fold_ad_puts_at:
  assumes "ad_at xs ys a" and "length (concat vss) \<le> length ys"
  shows "ad_at (xs @ concat vss) (drop (length (concat vss)) ys) (fold ad_puts vss a)"
  using assms
proof (induction vss arbitrary: xs ys a)
  case (Cons vs vss)
  have "ad_at (xs @ vs) (drop (length vs) ys) (ad_puts vs a)"
    using Cons.prems by (intro ad_at_puts) auto
  then have "ad_at ((xs @ vs) @ concat vss) (drop (length (concat vss)) (drop (length vs) ys)) (fold ad_puts vss (ad_puts vs a))"
    using Cons.prems by (intro Cons.IH) (auto simp: le_diff_conv2)
  then show ?case by (simp add: add.commute)
qed auto

lemma ad_puts_add:
  assumes "ad_inv n ads a" and "length (ad_stream ads) + length (ad_enc x) \<le> n"
    and "concat vss = ad_enc x"
  shows "ad_inv n (ads @ [x]) (fold ad_puts vss a)"
proof -
  obtain ys where ys: "ad_at (ad_stream ads) ys a" "n \<le> length (ad_stream ads) + length ys"
    using assms(1) by (auto simp: ad_inv_def)
  have *: "ad_at (ad_stream ads @ ad_enc x) (drop (length (ad_enc x)) ys) (fold ad_puts vss a)"
    using fold_ad_puts_at [OF ys(1), of vss] ys(2) assms(2,3) by simp
  have "length (ad_buf (fold ad_puts vss a)) = length (ad_buf a)"
    using ad_at_length [OF *] ad_at_length [OF ys(1)] assms(2) ys(2) by simp
  with * show ?thesis
    by (intro ad_inv_add [OF assms(1,2)])
qed

lemma encodes_add:
  fixes f :: "'w ad_prog"
  assumes "\<And>s a. stack_ok I s \<Longrightarrow> \<exists>s'. stack_ok I s' \<and>
     f a s = (Ret (if ad_pos a + length (ad_enc x) > n then (NRF_ERROR_DATA_SIZE, a)
                   else (NRF_SUCCESS, fold ad_puts vss a)), s')"
    and "concat vss = ad_enc x"
  shows "encodes I n f (ad_add n x)"
proof (rule encodesI)
  fix s :: "'w world_scheme" and a ads
  assume ok: "stack_ok I s" and inv: "ad_inv n ads a"
  obtain s' where s': "stack_ok I s'"
     "f a s = (Ret (if ad_pos a + length (ad_enc x) > n then (NRF_ERROR_DATA_SIZE, a)
                   else (NRF_SUCCESS, fold ad_puts vss a)), s')"
    using assms(1) [OF ok] by blast
  show "\<exists>e a' s'. f a s = (Ret (e, a'), s') \<and> stack_ok I s' \<and> \<not> ad_overrun a' \<and>
     (case ad_add n x ads of Inl err \<Rightarrow> e = err \<and> err \<noteq> NRF_SUCCESS
                           | Inr ads' \<Rightarrow> e = NRF_SUCCESS \<and> ad_inv n ads' a')"
  proof (cases "length (ad_stream ads) + length (ad_enc x) > n")
    case True
    then show ?thesis
      using s' inv ad_inv_overrun [OF inv] by (simp add: ad_inv_pos ad_add_def nrf_codes del: length_ad_enc)
  next
    case False
    then have "ad_inv n (ads @ [x]) (fold ad_puts vss a)"
      by (intro ad_puts_add inv assms) simp
    then show ?thesis
      using s' inv False ad_inv_overrun by (simp add: ad_inv_pos ad_add_def)
  qed
qed

lemma encodes_seq:
  fixes f :: "'w ad_prog"
  assumes f: "encodes I n f F" and g: "encodes I n g G"
  shows "encodes I n (ad_seq f g) (spec_seq F G)"
proof (rule encodesI)
  fix s :: "'w world_scheme" and a ads
  assume "stack_ok I s" "ad_inv n ads a"
  then obtain e a' s' where r: "f a s = (Ret (e, a'), s')" "stack_ok I s'" "\<not> ad_overrun a'"
     "case F ads of Inl err \<Rightarrow> e = err \<and> err \<noteq> NRF_SUCCESS | Inr ads' \<Rightarrow> e = NRF_SUCCESS \<and> ad_inv n ads' a'"
    using encodesD [OF f] by blast
  show "\<exists>e a' s'. ad_seq f g a s = (Ret (e, a'), s') \<and> stack_ok I s' \<and> \<not> ad_overrun a' \<and>
     (case spec_seq F G ads of Inl err \<Rightarrow> e = err \<and> err \<noteq> NRF_SUCCESS
                             | Inr ads' \<Rightarrow> e = NRF_SUCCESS \<and> ad_inv n ads' a')"
  proof (cases "F ads")
    case (Inl err)
    then show ?thesis using r by (simp add: ad_seq_def spec_seq_def verify_def)
  next
    case (Inr ads')
    then have e: "e = NRF_SUCCESS" and inv: "ad_inv n ads' a'" using r(4) by simp_all
    have "ad_seq f g a s = g a' s'" using r(1) e by (simp add: ad_seq_def verify_def)
    moreover have "spec_seq F G ads = G ads'" using Inr by (simp add: spec_seq_def)
    ultimately show ?thesis
      using g r(2) inv by (simp add: encodes_def)
  qed
qed

lemma encodes_when: "(b \<Longrightarrow> encodes I n f F) \<Longrightarrow> encodes I n (ad_when b f) (spec_when b F)"
  by (cases b) (simp_all add: encodes_def ad_when_def spec_when_def ad_inv_overrun)

lemma encodes_opt:
  "(\<And>x. p = Some x \<Longrightarrow> encodes I n (f x) (F x)) \<Longrightarrow> encodes I n (ad_opt p f) (spec_opt p F)"
  by (cases p) (simp_all add: encodes_def ad_opt_def spec_opt_def ad_inv_overrun)

lemma encodes_device_addr:
  "encodes I n (ble_device_addr_encode n) (ad_add n (AD 0x1B (dev_addr I @ [if dev_addr_type I = 0 then 0 else 1])))"
  if "length (dev_addr I) = 6" for I
  using that
  by (intro encodes_add [where vss = "[[8], [0x1B], dev_addr I, [if dev_addr_type I = 0 then 0 else 1]]"])
     (auto simp: ble_device_addr_encode_def stack_ok_def bnd_run verify_def null_reply_def)

lemma encodes_appearance:
  "encodes I n (appearance_encode n) (ad_add n (AD 0x19 (uint16_bytes (dev_appearance I))))"
  by (intro encodes_add [where vss = "[[3], [0x19], uint16_bytes (dev_appearance I)]"])
     (auto simp: appearance_encode_def stack_ok_def bnd_run verify_def null_reply_def)

lemma encodes_flags: "encodes I n (flags_encode fl n) (ad_add n (AD 0x01 [fl]))"
  by (intro encodes_add [where vss = "[[2], [0x01], [fl]]"]) (auto simp: flags_encode_def)

lemma encodes_tx_power: "encodes I n (tx_power_level_encode v n) (ad_add n (AD 0x0A [v]))"
  by (intro encodes_add [where vss = "[[2], [0x0A], [v]]"]) (auto simp: tx_power_level_encode_def)

lemma encodes_conn_int: "encodes I n (conn_int_encode ci n) (conn_int_spec n ci)"
proof (rule encodesI)
  fix s :: "'w world_scheme" and a ads
  assume ok: "stack_ok I s" and inv: "ad_inv n ads a"
  let ?x = "AD 0x12 (uint16_bytes (ci_min ci) @ uint16_bytes (ci_max ci))"
  let ?a = "fold ad_puts [[5], [0x12], uint16_bytes (ci_min ci), uint16_bytes (ci_max ci)] a"
  have add: "ad_inv n (ads @ [?x]) ?a" if "length (ad_stream ads) + 6 \<le> n"
    using that by (intro ad_puts_add inv) simp_all
  have chk: "conn_int_check ci = NRF_SUCCESS \<or> conn_int_check ci = NRF_ERROR_INVALID_PARAM"
    by (simp add: conn_int_check_def)
  show "\<exists>e a' s'. conn_int_encode ci n a s = (Ret (e, a'), s') \<and> stack_ok I s' \<and> \<not> ad_overrun a' \<and>
     (case conn_int_spec n ci ads of Inl err \<Rightarrow> e = err \<and> err \<noteq> NRF_SUCCESS
                                   | Inr ads' \<Rightarrow> e = NRF_SUCCESS \<and> ad_inv n ads' a')"
    using ok chk inv add ad_inv_overrun [OF add] ad_inv_overrun [OF inv]
    by (auto simp: conn_int_encode_def conn_int_spec_def ad_add_def verify_def nrf_codes ad_inv_pos)
qed

lemma encodes_manuf:
  assumes "\<And>d. arr_data (manuf_data md) = Some d \<Longrightarrow> unat (arr_size (manuf_data md)) \<le> length d"
  shows "encodes I n (manuf_specific_data_encode md n) (manuf_spec n md)"
proof (rule encodesI)
  fix s :: "'w world_scheme" and a ads
  assume ok: "stack_ok I s" and inv: "ad_inv n ads a"
  let ?size = "unat (arr_size (manuf_data md))"
  let ?head = "[[of_nat (1 + (2 + ?size))], [0xFF], uint16_bytes (company_identifier md)]"
  let ?y = "\<lambda>d. AD 0xFF (uint16_bytes (company_identifier md) @ d)"
  have n: "n \<le> 255" using inv by (simp add: ad_inv_def)
  have pos: "arr_size (manuf_data md) > 0 \<longleftrightarrow> ?size \<noteq> 0"
    by (simp add: word_greater_zero_iff unat_eq_0)
  have add: "ad_inv n (ads @ [?y d]) (fold ad_puts (?head @ [d]) a)"
    if "length (ad_stream ads) + 4 + ?size \<le> n" "length d = ?size" for d
    using that by (intro ad_puts_add inv) simp_all
  obtain ys where ys: "ad_at (ad_stream ads) ys a" "n \<le> length (ad_stream ads) + length ys"
    using inv by (auto simp: ad_inv_def)
  have head: "\<not> ad_overrun (fold ad_puts ?head a)" if "length (ad_stream ads) + 4 + ?size \<le> n"
    using fold_ad_puts_at [OF ys(1), of ?head] ys that by (simp add: ad_at_def)
  have nil: "fold ad_puts (?head @ [[]]) a = fold ad_puts ?head a"
    by (simp add: ad_puts_def ad_skip_def)
  consider (big) "length (ad_stream ads) + 4 + ?size > n"
    | (none) "length (ad_stream ads) + 4 + ?size \<le> n" "arr_data (manuf_data md) = None"
    | (some) d where "length (ad_stream ads) + 4 + ?size \<le> n" "arr_data (manuf_data md) = Some d"
    by (cases "arr_data (manuf_data md)") force+
  then show "\<exists>e a' s'. manuf_specific_data_encode md n a s = (Ret (e, a'), s') \<and> stack_ok I s' \<and> \<not> ad_overrun a' \<and>
     (case manuf_spec n md ads of Inl err \<Rightarrow> e = err \<and> err \<noteq> NRF_SUCCESS
                                | Inr ads' \<Rightarrow> e = NRF_SUCCESS \<and> ad_inv n ads' a')"
  proof cases
    case big
    then show ?thesis
      using ok inv ad_inv_overrun [OF inv]
      by (simp add: manuf_specific_data_encode_def manuf_spec_def Let_def ad_inv_pos nrf_codes)
  next
    case none
    show ?thesis
      using ok none n add [of "[]"] head [OF none(1)] unfolding nil
      by (cases "arr_size (manuf_data md) = 0")
         (auto simp: manuf_specific_data_encode_def manuf_spec_def Let_def ad_inv_pos [OF inv] nrf_codes
            unat_eq_0 word_greater_zero_iff)
  next
    case (some d)
    then have len: "length (take ?size d) = ?size" using assms by simp
    show ?thesis
      using ok some n add [OF some(1) len] ad_inv_overrun [OF add [OF some(1) len]]
      by (auto simp: manuf_specific_data_encode_def manuf_spec_def Let_def ad_inv_pos [OF inv] nrf_codes pos
          ad_puts_def ad_skip_def)
  qed
qed

text \<open>The UUID loop once the heading is there: it appends the UUIDs of the wanted size.\<close>

definition uuids_payload :: "stack_info \<Rightarrow> nat \<Rightarrow> ble_uuid list \<Rightarrow> bytes" where
  "uuids_payload I k us = concat (map (uuid_enc I) (uuids_of_size I k us))"

lemma uuids_payload_simps [simp]:
  "uuids_payload I k [] = []"
  "uuids_payload I k (u # us) =
     (if length (uuid_enc I u) = k then uuid_enc I u @ uuids_payload I k us else uuids_payload I k us)"
  by (simp_all add: uuids_payload_def uuids_of_size_def)

lemma stack_ok_uuid:
  assumes "stack_ok I s"
  shows "rc (sd_env s h (Gap (Sd_ble_uuid_encode u b))) = NRF_SUCCESS"
    and "unat (out_u8 (sd_env s h (Gap (Sd_ble_uuid_encode u b)))) = length (uuid_enc I u)"
    and "out_bytes (sd_env s h (Gap (Sd_ble_uuid_encode u True))) = uuid_enc I u"
proof -
  have "length (uuid_enc I u) \<le> 16" using assms by (simp add: stack_ok_def)
  moreover have "out_u8 (sd_env s h (Gap (Sd_ble_uuid_encode u b))) = of_nat (length (uuid_enc I u))"
    using assms by (simp add: stack_ok_def)
  ultimately show "unat (out_u8 (sd_env s h (Gap (Sd_ble_uuid_encode u b)))) = length (uuid_enc I u)"
    by (simp add: unat_of_nat take_bit_nat_eq_self)
qed (use assms in \<open>simp_all add: stack_ok_def null_reply_def\<close>)

lemma uuid_loop_written:
  fixes s :: "'w world_scheme"
  assumes "stack_ok I s" and "ad_at xs ys a" and "length xs \<le> n" and "n \<le> length xs + length ys"
  shows "\<exists>e a' s'. uuid_list_loop us t k n True a s = (Ret (e, True, a'), s') \<and> stack_ok I s' \<and> \<not> ad_overrun a' \<and>
    (if length xs + length (uuids_payload I (unat k) us) \<le> n
     then e = NRF_SUCCESS \<and>
          ad_at (xs @ uuids_payload I (unat k) us) (drop (length (uuids_payload I (unat k) us)) ys) a'
     else e = NRF_ERROR_DATA_SIZE)"
  using assms
proof (induction us arbitrary: xs ys a s)
  case Nil
  then show ?case by (simp add: ad_at_def)
next
  case (Cons u us)
  let ?s1 = "s\<lparr>sd_trace := sd_trace s @ [Gap (Sd_ble_uuid_encode u False)]\<rparr>"
  let ?s2 = "?s1\<lparr>sd_trace := sd_trace ?s1 @ [Gap (Sd_ble_uuid_encode u True)]\<rparr>"
  note uu = stack_ok_uuid [OF Cons.prems(1)]
  have pos: "ad_pos a = length xs" and ovr: "\<not> ad_overrun a" using Cons.prems(2) by (simp_all add: ad_at_def)
  have size: "out_u8 (sd_env s h (Gap (Sd_ble_uuid_encode u b))) = k \<longleftrightarrow> length (uuid_enc I u) = unat k" for h b
    using uu(2) [of h u b] by (metis word_unat_eq_iff)
  show ?case
  proof (cases "length (uuid_enc I u) = unat k")
    case False
    have "uuid_list_loop (u # us) t k n True a s = uuid_list_loop us t k n True a ?s1"
      using False by (simp add: bnd_run verify_def uu size)
    moreover have "uuids_payload I (unat k) (u # us) = uuids_payload I (unat k) us"
      using False by simp
    ultimately show ?thesis
      using Cons.IH [of ?s1 xs ys a] Cons.prems by (simp only: stack_ok_trace)
  next
    case True
    show ?thesis
    proof (cases "length xs + unat k > n")
      case big: True
      have "uuid_list_loop (u # us) t k n True a s = (Ret (NRF_ERROR_DATA_SIZE, True, a), ?s1)"
        using True big by (simp add: bnd_run verify_def uu size pos)
      then show ?thesis using True big ovr Cons.prems(1) by simp
    next
      case False
      let ?e = "uuid_enc I u"
      let ?a = "ad_puts ?e a"
      have a: "ad_at (xs @ ?e) (drop (length ?e) ys) ?a"
        using Cons.prems False True by (intro ad_at_puts) simp_all
      have "uuid_list_loop (u # us) t k n True a s = uuid_list_loop us t k n True ?a ?s2"
        using True False by (simp add: bnd_run verify_def uu size pos Let_def ad_puts_def)
      moreover have "uuids_payload I (unat k) (u # us) = ?e @ uuids_payload I (unat k) us"
        using True by simp
      moreover have "length (xs @ ?e) \<le> n" "n \<le> length (xs @ ?e) + length (drop (length ?e) ys)"
        using True False Cons.prems by simp_all
      ultimately show ?thesis
        using Cons.IH [OF _ a, of ?s2] Cons.prems(1)
        by (simp only: stack_ok_trace length_append drop_drop append_assoc add.assoc add.commute [of "length ?e"])
    qed
  qed
qed

text \<open>The loop from its start: nothing for a list without UUIDs of the size, heading and payload otherwise.\<close>

lemma uuid_loop_start:
  fixes s :: "'w world_scheme"
  assumes "stack_ok I s" and "ad_at xs ys a" and "length xs \<le> n" and "n \<le> length xs + length ys" and "0 < unat k"
  shows "\<exists>e h a' s'. uuid_list_loop us t k n False a s = (Ret (e, h, a'), s') \<and> stack_ok I s' \<and> \<not> ad_overrun a' \<and>
    (let p = uuids_payload I (unat k) us
     in if p = [] then e = NRF_SUCCESS \<and> \<not> h \<and> a' = a
        else if length xs + 2 + length p \<le> n
        then e = NRF_SUCCESS \<and> h \<and> (\<exists>b. ad_at (xs @ b # t # p) (drop (2 + length p) ys) a')
        else e = NRF_ERROR_DATA_SIZE)"
  using assms(1)
proof (induction us arbitrary: s)
  case Nil
  then show ?case using assms(2) by (auto simp: ad_at_def)
next
  case (Cons u us)
  let ?s1 = "s\<lparr>sd_trace := sd_trace s @ [Gap (Sd_ble_uuid_encode u False)]\<rparr>"
  let ?s2 = "?s1\<lparr>sd_trace := sd_trace ?s1 @ [Gap (Sd_ble_uuid_encode u True)]\<rparr>"
  note uu = stack_ok_uuid [OF Cons.prems(1)]
  have pos: "ad_pos a = length xs" and ovr: "\<not> ad_overrun a" using assms(2) by (simp_all add: ad_at_def)
  have size: "out_u8 (sd_env s h (Gap (Sd_ble_uuid_encode u b))) = k \<longleftrightarrow> length (uuid_enc I u) = unat k" for h b
    using uu(2) [of h u b] by (metis word_unat_eq_iff)
  show ?case
  proof (cases "length (uuid_enc I u) = unat k")
    case False
    have "uuid_list_loop (u # us) t k n False a s = uuid_list_loop us t k n False a ?s1"
      using False by (simp add: bnd_run verify_def uu size)
    moreover have "uuids_payload I (unat k) (u # us) = uuids_payload I (unat k) us"
      using False by simp
    ultimately show ?thesis
      using Cons.IH [of ?s1] Cons.prems by (simp only: stack_ok_trace)
  next
    case True
    let ?e = "uuid_enc I u"
    have ne: "?e \<noteq> []" using True assms(5) by auto
    show ?thesis
    proof (cases "length xs + unat k + 2 > n")
      case big: True
      have "uuid_list_loop (u # us) t k n False a s = (Ret (NRF_ERROR_DATA_SIZE, False, a), ?s1)"
        using True big by (simp add: bnd_run verify_def uu size pos)
      with True big ovr ne Cons.prems(1) show ?thesis
        by (intro exI [of _ NRF_ERROR_DATA_SIZE] exI [of _ False] exI [of _ a] exI [of _ ?s1]) simp
    next
      case False
      then obtain b ys' where ys: "ys = b # ys'" using assms(4) by (cases ys) auto
      let ?a = "ad_puts ?e (ad_puts [t] (ad_skip 1 a))"
      have "ad_at (xs @ [b]) ys' (ad_skip 1 a)"
        using ad_at_skip [OF assms(2), of 1] ys by simp
      from ad_at_puts [OF this, of "[t]"] have "ad_at (xs @ [b, t]) (drop 1 ys') (ad_puts [t] (ad_skip 1 a))"
        using False assms(4) ys by simp
      from ad_at_puts [OF this, of ?e] have a: "ad_at (xs @ b # t # ?e) (drop (2 + length ?e) ys) ?a"
        using False assms(4) ys True by simp
      have "uuid_list_loop (u # us) t k n False a s = uuid_list_loop us t k n True ?a ?s2"
        using True False by (simp add: bnd_run verify_def uu size pos Let_def ad_puts_def)
      moreover have "uuids_payload I (unat k) (u # us) = ?e @ uuids_payload I (unat k) us"
        using True by simp
      moreover have "\<exists>e a' s'. uuid_list_loop us t k n True ?a ?s2 = (Ret (e, True, a'), s') \<and> stack_ok I s' \<and> \<not> ad_overrun a' \<and>
          (if length (xs @ b # t # ?e) + length (uuids_payload I (unat k) us) \<le> n
           then e = NRF_SUCCESS \<and> ad_at ((xs @ b # t # ?e) @ uuids_payload I (unat k) us)
                  (drop (length (uuids_payload I (unat k) us)) (drop (2 + length ?e) ys)) a'
           else e = NRF_ERROR_DATA_SIZE)"
        using False True assms(4) Cons.prems by (intro uuid_loop_written a) simp_all
      ultimately show ?thesis
        using ne by (fastforce simp: Let_def add.commute add.left_commute)
    qed
  qed
qed

lemma uuids_payload_Nil:
  "0 < k \<Longrightarrow> uuids_payload I k us = [] \<longleftrightarrow> uuids_of_size I k us = []"
  by (auto simp: uuids_payload_def uuids_of_size_def filter_empty_conv)

text \<open>Writing the length byte of a heading afterwards completes the structure.\<close>

lemma ad_poke_length:
  assumes "ad_at (xs @ b # rest) ys a"
  shows "ad_at (xs @ v # rest) ys (ad_poke (length xs) [v] a)"
  using assms by (simp add: ad_at_def ad_poke1_def)

lemma encodes_uuids_sized:
  assumes k: "0 < unat k"
  shows "encodes I n (uuid_list_sized_encode us t k n) (uuids_spec I n us t (unat k))"
proof (rule encodesI)
  fix s :: "'w world_scheme" and a ads
  assume ok: "stack_ok I s" and inv: "ad_inv n ads a"
  let ?xs = "ad_stream ads" and ?p = "uuids_payload I (unat k) us"
  obtain ys where ys: "ad_at ?xs ys a" "n \<le> length ?xs + length ys" and n: "length ?xs \<le> n" "n \<le> 255"
    using inv by (auto simp: ad_inv_def)
  obtain e h a' s' where r: "uuid_list_loop us t k n False a s = (Ret (e, h, a'), s')" "stack_ok I s'" "\<not> ad_overrun a'"
     "if ?p = [] then e = NRF_SUCCESS \<and> \<not> h \<and> a' = a
      else if length ?xs + 2 + length ?p \<le> n
      then e = NRF_SUCCESS \<and> h \<and> (\<exists>b. ad_at (?xs @ b # t # ?p) (drop (2 + length ?p) ys) a')
      else e = NRF_ERROR_DATA_SIZE"
    using uuid_loop_start [OF ok ys(1) n(1) ys(2) k, of us t] unfolding Let_def by blast
  have pos: "ad_pos a = length ?xs" by (rule ad_inv_pos [OF inv])
  have spec: "uuids_spec I n us t (unat k) ads = (if ?p = [] then Inr ads else ad_add n (AD t ?p) ads)"
    by (simp add: uuids_spec_def spec_when_def uuids_payload_Nil [OF k]) (simp add: uuids_payload_def)
  show "\<exists>e a' s'. uuid_list_sized_encode us t k n a s = (Ret (e, a'), s') \<and> stack_ok I s' \<and> \<not> ad_overrun a' \<and>
     (case uuids_spec I n us t (unat k) ads of Inl err \<Rightarrow> e = err \<and> err \<noteq> NRF_SUCCESS
                                             | Inr ads' \<Rightarrow> e = NRF_SUCCESS \<and> ad_inv n ads' a')"
  proof (cases "?p = [] \<or> length ?xs + 2 + length ?p > n")
    case True
    then show ?thesis
      using r inv by (auto simp: spec uuid_list_sized_encode_def verify_def ad_add_def nrf_codes Let_def)
  next
    case False
    then obtain b where e: "e = NRF_SUCCESS" and h: h and at: "ad_at (?xs @ b # t # ?p) (drop (2 + length ?p) ys) a'"
      using r(4) by auto
    let ?len = "ad_off a' - (ad_off a + 1)"
    have "unat (ad_off a + 1) = length ?xs + 1"
      using pos n by (simp add: unat_word_ariths)
    moreover have "ad_pos a' = length ?xs + 2 + length ?p"
      using at by (simp add: ad_at_def)
    ultimately have len: "unat ?len = Suc (length ?p)"
      by (simp add: unat_sub word_le_nat_alt)
    then have lt: "\<not> ?len > 0xFF"
      using False n by (simp add: word_less_nat_alt)
    have byte: "(ucast ?len :: u8) = of_nat (Suc (length ?p))"
      using len by (metis of_nat_unat)
    have at': "ad_at (?xs @ ad_enc (AD t ?p)) (drop (2 + length ?p) ys) (ad_poke (length ?xs) [ucast ?len] a')"
      using ad_poke_length [OF at, of "ucast ?len"] by (simp add: byte)
    have "length (ad_buf (ad_poke (length ?xs) [ucast ?len] a')) = length (ad_buf a)"
      using ad_at_length [OF at'] ad_at_length [OF ys(1)] ys(2) False by (auto simp del: ad_poke.simps)
    with at' have "ad_inv n (ads @ [AD t ?p]) (ad_poke (length ?xs) [ucast ?len] a')"
      using False by (intro ad_inv_add [OF inv]) simp_all
    moreover have "uuid_list_sized_encode us t k n a s = (Ret (NRF_SUCCESS, ad_poke (length ?xs) [ucast ?len] a'), s')"
      using r(1) e h lt by (simp add: uuid_list_sized_encode_def Let_def verify_def pos)
    ultimately show ?thesis
      using False r(2) by (simp add: spec ad_add_def ad_inv_overrun)
  qed
qed

lemma encodes_uuid_list:
  "encodes I n (ad_when (us \<noteq> []) (uuid_list_encode us t16 t128 n))
     (spec_seq (uuids_spec I n us t16 2) (uuids_spec I n us t128 16))"
proof (cases "us = []")
  case True
  then show ?thesis
    by (simp add: encodes_def ad_when_def spec_seq_def uuids_spec_def uuids_of_size_def spec_when_def ad_inv_overrun)
next
  case False
  have "encodes I n (uuid_list_encode us t16 t128 n) (spec_seq (uuids_spec I n us t16 2) (uuids_spec I n us t128 16))"
    unfolding uuid_list_encode_def
    using encodes_uuids_sized [of 2 I n us t16] encodes_uuids_sized [of 16 I n us t128]
    by (intro encodes_seq) simp_all
  with False show ?thesis by (simp add: encodes_def ad_when_def)
qed

text \<open>The stack writes the name behind the heading; the encoder then puts the heading before it.\<close>

lemma ad_name_at:
  assumes at: "ad_at xs ys a" and len: "2 + length nm \<le> length ys" and m: "2 + m \<le> length ys"
  shows "ad_at (xs @ of_nat (Suc m) # t # take m (nm @ drop (2 + length nm) ys)) (drop m (nm @ drop (2 + length nm) ys))
     (ad_skip m (ad_puts [t] (ad_puts [of_nat (Suc m)] (ad_poke (length xs + 2) nm a))))"
proof -
  have "ad_at xs (memcpy_at ys 2 nm) (ad_poke (length xs + 2) nm a)"
    by (rule ad_at_poke [OF at len])
  from fold_ad_puts_at [OF this, of "[[of_nat (Suc m)], [t]]"]
  have "ad_at (xs @ [of_nat (Suc m), t]) (nm @ drop (2 + length nm) ys)
      (ad_puts [t] (ad_puts [of_nat (Suc m)] (ad_poke (length xs + 2) nm a)))"
    using len by (simp add: memcpy_at_def)
  from ad_at_skip [OF this, of m] show ?thesis using m len by simp
qed

lemma ad_name_add:
  assumes inv: "ad_inv n ads a" and fit: "length (ad_stream ads) + 2 + length nm \<le> n" and m: "m \<le> length nm"
  shows "ad_inv n (ads @ [AD t (take m nm)])
     (ad_skip m (ad_puts [t] (ad_puts [of_nat (Suc m)] (ad_poke (ad_pos a + 2) nm a))))"
    (is "ad_inv _ _ ?a")
proof -
  obtain ys where ys: "ad_at (ad_stream ads) ys a" "n \<le> length (ad_stream ads) + length ys"
    using inv by (auto simp: ad_inv_def)
  have len: "2 + length nm \<le> length ys" using ys(2) fit by simp
  have at: "ad_at (ad_stream ads @ ad_enc (AD t (take m nm))) (drop m nm @ drop (2 + length nm) ys) ?a"
    using ad_name_at [OF ys(1) len, of m t] m len by (simp add: ad_inv_pos [OF inv])
  have "length (ad_buf ?a) = length (ad_buf a)"
    using ad_at_length [OF at] ad_at_length [OF ys(1)] len m by simp
  with at show ?thesis
    using fit m by (intro ad_inv_add [OF inv]) simp_all
qed

lemma stack_ok_name:
  assumes "stack_ok I s"
  shows "sd_env s h (Gap (Sd_ble_gap_device_name_get k)) =
     null_reply\<lparr>out_bytes := take (unat k) (dev_name I), out_u16 := of_nat (length (dev_name I))\<rparr>"
    and "unat (of_nat (length (dev_name I)) :: u16) = length (dev_name I)"
proof -
  have "length (dev_name I) \<le> 31" using assms by (simp add: stack_ok_def)
  then show "unat (of_nat (length (dev_name I)) :: u16) = length (dev_name I)"
    by (simp add: unat_of_nat take_bit_nat_eq_self)
qed (use assms in \<open>simp add: stack_ok_def\<close>)

text \<open>The program with the answer of the stack filled in.\<close>

lemma name_encode_run:
  assumes ok: "stack_ok I s" and inv: "ad_inv n ads a" and fit: "length (ad_stream ads) + 2 \<le> n"
    and short: "name_type p = BLE_ADVDATA_SHORT_NAME \<Longrightarrow> 0 < unat (short_name_len p)
                  \<and> length (ad_stream ads) + 2 + unat (short_name_len p) \<le> n"
  defines "room \<equiv> n - length (ad_stream ads) - 2"
  defines "m \<equiv> (if name_type p = BLE_ADVDATA_SHORT_NAME then unat (short_name_len p)
                else if name_type p = BLE_ADVDATA_FULL_NAME then min (length (dev_name I)) room else room)"
  defines "t \<equiv> (if name_type p = BLE_ADVDATA_FULL_NAME \<and> length (dev_name I) \<le> room then 9 else 8)"
  shows "\<exists>s'. stack_ok I s' \<and> name_encode p n a s =
     (Ret (NRF_SUCCESS, ad_skip m (ad_puts [t] (ad_puts [of_nat (Suc m)]
        (ad_poke (ad_pos a + 2) (take room (dev_name I)) a)))), s')"
proof -
  have n: "n \<le> 255" using inv by (simp add: ad_inv_def)
  have room: "unat (of_nat room :: u16) = room"
    using n by (simp add: room_def unat_of_nat take_bit_nat_eq_self)
  have pos: "ad_pos a = length (ad_stream ads)" by (rule ad_inv_pos [OF inv])
  have shortw: "unat (ucast (short_name_len p) :: u16) = unat (short_name_len p)"
    by (simp add: unsigned_ucast_eq take_bit_nat_eq_self unsigned_less [THEN less_le_trans])
  have le: "(of_nat (length (dev_name I)) :: u16) \<le> of_nat room \<longleftrightarrow> length (dev_name I) \<le> room"
    by (simp add: word_le_nat_alt room stack_ok_name(2) [OF ok])
  have les: "(ucast (short_name_len p) :: u16) \<le> of_nat room \<longleftrightarrow> unat (short_name_len p) \<le> room"
    by (simp add: word_le_nat_alt room shortw)
  have un0: "short_name_len p = 0 \<longleftrightarrow> unat (short_name_len p) = 0"
    by (simp add: unat_eq_0)
  have roomle: "room \<le> 253" using n by (simp add: room_def)
  let ?s = "s\<lparr>sd_trace := sd_trace s @ [Gap (Sd_ble_gap_device_name_get (of_nat room))]\<rparr>"
  let ?rw = "of_nat room :: u16"
  define aw :: u16 where "aw = (if name_type p = BLE_ADVDATA_FULL_NAME \<and> length (dev_name I) \<le> room
      then of_nat (length (dev_name I))
      else if name_type p = BLE_ADVDATA_SHORT_NAME then ucast (short_name_len p) else ?rw)"
  have shortle: "unat (short_name_len p) \<le> room" if "name_type p = BLE_ADVDATA_SHORT_NAME"
    using short [OF that] unfolding room_def by linarith
  have aw: "unat aw = m"
    by (cases "name_type p") (simp_all add: aw_def m_def shortw room stack_ok_name(2) [OF ok] min_def)
  have m: "m \<le> room"
    using shortle by (cases "name_type p") (simp_all add: m_def)
  have byte: "1 + (ucast aw :: u8) = of_nat (Suc m)"
    by (simp flip: aw)
  have guard: "\<not> (name_type p = BLE_ADVDATA_SHORT_NAME \<and> short_name_len p = 0)"
     "\<not> (ad_pos a + 2 > n \<or> (name_type p = BLE_ADVDATA_SHORT_NAME \<and> ad_pos a + 2 + unat (short_name_len p) > n))"
    using short fit by (auto simp: pos un0)
  have rm: "n - ad_pos a - 2 = room" by (simp add: pos room_def)
  have "name_encode p n a s =
     (Ret (NRF_SUCCESS, ad_skip (unat aw) (ad_puts [t] (ad_puts [1 + ucast aw]
        (ad_poke (ad_pos a + 2) (take room (dev_name I)) a)))), ?s)"
    unfolding name_encode_def if_not_P [OF guard(1)] if_not_P [OF guard(2)] rm Let_def
    using roomle shortle
    by (cases "name_type p"; cases "length (dev_name I) \<le> room")
       (simp_all add: bnd_run verify_def stack_ok_name [OF ok] room aw_def t_def le les null_reply_def shortw
         del: of_nat_Suc)
  then show ?thesis unfolding byte aw using ok by auto
qed

lemma encodes_name:
  assumes "name_type p = BLE_ADVDATA_SHORT_NAME \<Longrightarrow> unat (short_name_len p) \<le> length (dev_name I)"
    and "name_type p \<noteq> BLE_ADVDATA_NO_NAME"
  shows "encodes I n (name_encode p n) (name_spec I n p)"
proof (rule encodesI)
  fix s :: "'w world_scheme" and a ads
  assume ok: "stack_ok I s" and inv: "ad_inv n ads a"
  let ?xs = "ad_stream ads" and ?short = "unat (short_name_len p)"
  let ?goal = "\<exists>e a' s'. name_encode p n a s = (Ret (e, a'), s') \<and> stack_ok I s' \<and> \<not> ad_overrun a' \<and>
     (case name_spec I n p ads of Inl err \<Rightarrow> e = err \<and> err \<noteq> NRF_SUCCESS
                                | Inr ads' \<Rightarrow> e = NRF_SUCCESS \<and> ad_inv n ads' a')"
  have pos: "ad_pos a = length ?xs" by (rule ad_inv_pos [OF inv])
  consider (bad) "name_type p = BLE_ADVDATA_SHORT_NAME" "?short = 0"
    | (big) "\<not> (name_type p = BLE_ADVDATA_SHORT_NAME \<and> ?short = 0)"
        "length ?xs + 2 > n \<or> name_type p = BLE_ADVDATA_SHORT_NAME \<and> length ?xs + 2 + ?short > n"
    | (fits) "length ?xs + 2 \<le> n"
        "name_type p = BLE_ADVDATA_SHORT_NAME \<Longrightarrow> 0 < ?short \<and> length ?xs + 2 + ?short \<le> n"
    by (metis gr_zeroI not_less)
  then show ?goal
  proof cases
    case bad
    then show ?thesis
      using ok ad_inv_overrun [OF inv] by (simp add: name_encode_def name_spec_def nrf_codes unat_eq_0)
  next
    case big
    have "name_encode p n a s = (Ret (NRF_ERROR_DATA_SIZE, a), s)"
      using big by (auto simp: name_encode_def pos unat_eq_0)
    moreover have "name_spec I n p ads = Inl NRF_ERROR_DATA_SIZE"
      using big by (auto simp: name_spec_def Let_def)
    ultimately show ?thesis
      using ok ad_inv_overrun [OF inv] by (simp add: nrf_codes)
  next
    case fits
    let ?room = "n - length ?xs - 2"
    let ?m = "if name_type p = BLE_ADVDATA_SHORT_NAME then ?short
              else if name_type p = BLE_ADVDATA_FULL_NAME then min (length (dev_name I)) ?room else ?room"
    let ?t = "if name_type p = BLE_ADVDATA_FULL_NAME \<and> length (dev_name I) \<le> ?room then 9 else (8 :: u8)"
    obtain s' a' where s': "stack_ok I s'" "name_encode p n a s = (Ret (NRF_SUCCESS, a'), s')"
      and a': "a' = ad_skip ?m (ad_puts [?t] (ad_puts [of_nat (Suc ?m)] (ad_poke (ad_pos a + 2) (take ?room (dev_name I)) a)))"
      using name_encode_run [OF ok inv fits] by blast
    have m: "?m \<le> length (take ?room (dev_name I))"
      using assms fits by (cases "name_type p") auto
    have "ad_inv n (ads @ [AD ?t (take ?m (take ?room (dev_name I)))]) a'"
      unfolding a' using fits(1) m by (intro ad_name_add inv) simp_all
    moreover have "name_spec I n p ads = Inr (ads @ [AD ?t (take ?m (take ?room (dev_name I)))])"
      using assms fits m by (cases "name_type p") (auto simp: name_spec_def Let_def min_def)
    ultimately show ?thesis
      using s' ad_inv_overrun by simp
  qed
qed

text \<open>All fields in a row.\<close>

definition adv_fields :: "ble_advdata \<Rightarrow> nat \<Rightarrow> 'w ad_prog" where
  "adv_fields p n =
     ad_seq (ad_when (include_ble_device_addr p) (ble_device_addr_encode n))
    (ad_seq (ad_when (include_appearance p) (appearance_encode n))
    (ad_seq (ad_when (adv_flags p \<noteq> 0) (flags_encode (adv_flags p) n))
    (ad_seq (ad_opt (p_tx_power_level p) (\<lambda>v. tx_power_level_encode v n))
    (ad_seq (ad_when (uuids_more_available p \<noteq> []) (uuid_list_encode (uuids_more_available p) 0x02 0x06 n))
    (ad_seq (ad_when (uuids_complete p \<noteq> []) (uuid_list_encode (uuids_complete p) 0x03 0x07 n))
    (ad_seq (ad_when (uuids_solicited p \<noteq> []) (uuid_list_encode (uuids_solicited p) 0x14 0x15 n))
    (ad_seq (ad_opt (p_slave_conn_int p) (\<lambda>ci. conn_int_encode ci n))
    (ad_seq (ad_opt (p_manuf_specific_data p) (\<lambda>md. manuf_specific_data_encode md n))
            (ad_when (name_type p \<noteq> BLE_ADVDATA_NO_NAME) (name_encode p n))))))))))"

lemma encodes_adv_fields:
  assumes "advdata_ok I p" and "length (dev_addr I) = 6"
  shows "encodes I n (adv_fields p n) (advdata_spec I n p)"
  unfolding adv_fields_def advdata_spec_def
  using assms
  by (intro encodes_seq encodes_when encodes_opt encodes_device_addr encodes_appearance encodes_flags
      encodes_tx_power encodes_uuid_list encodes_conn_int encodes_manuf encodes_name)
     (auto simp: advdata_ok_def)

lemma ad_seq_when_False: "ad_seq (ad_when False f) g = g"
  by (simp add: ad_seq_def ad_when_def verify_def fun_eq_iff)

lemma adv_data_encode_fields:
  "service_data_count p = 0 \<Longrightarrow>
     adv_data_encode p buf n = adv_fields p n \<lparr>ad_buf = buf, ad_off = 0, ad_overrun = False\<rparr>"
  by (simp add: adv_data_encode_def adv_fields_def ad_seq_when_False)

lemma ad_parse_enc:
  "length p \<le> 254 \<Longrightarrow> ad_parse (ad_enc (AD t p) @ xs) = map_option (Cons (AD t p)) (ad_parse xs)"
  by (auto simp: unat_of_nat take_bit_nat_eq_self word_of_nat_eq_0_iff simp del: of_nat_Suc dest: dvd_imp_le)

lemma ad_parse_stream:
  "(\<And>x. x \<in> set ads \<Longrightarrow> length (ad_payload x) \<le> 254) \<Longrightarrow> ad_parse (ad_stream ads) = Some ads"
proof (induction ads)
  case (Cons x ads)
  then show ?case
    using ad_parse_enc [of "ad_payload x" "ad_type_of x" "ad_stream ads"] by (simp add: ad_stream_def)
qed (simp add: ad_stream_def)

lemma ad_stream_payload:
  "x \<in> set ads \<Longrightarrow> length (ad_payload x) + 2 \<le> length (ad_stream ads)"
proof (induction ads)
  case (Cons y ads)
  then show ?case by (cases y) (auto simp: ad_stream_def)
qed simp

lemma demo_stack_ok: "stack_ok demo_info demo_stack"
  by (simp add: stack_ok_def demo_info_def demo_stack_def null_reply_def)

lemma demo_advdata_ok: "advdata_ok demo_info demo_advdata"
  by (simp add: advdata_ok_def demo_advdata_def zero_advdata_def)

lemma demo_advdata_spec:
  "advdata_spec demo_info 31 demo_advdata [] =
     Inr [AD 0x19 (uint16_bytes 0x0200), AD 0x01 [6], AD 0x02 (uint16_bytes 0x1802 @ uint16_bytes 0x1803),
          AD 0x09 [0x50, 0x46]]"
  by (simp add: advdata_spec_def demo_advdata_def zero_advdata_def demo_info_def spec_seq_def spec_when_def
      spec_opt_def ad_add_def ad_stream_def uuids_spec_def uuids_of_size_def name_spec_def BLE_UUID_BLE_ASSIGN_def)

lemma demo_advdata_stream:
  "ad_stream [AD 0x19 (uint16_bytes 0x0200), AD 0x01 [6], AD 0x02 (uint16_bytes 0x1802 @ uint16_bytes 0x1803),
     AD 0x09 [0x50, 0x46]] =
   [3, 0x19, 0x00, 0x02, 2, 0x01, 0x06, 5, 0x02, 0x02, 0x18, 0x03, 0x18, 3, 0x09, 0x50, 0x46]"
  by (simp add: ad_stream_def uint16_bytes_def uint16_encode_def)

text \<open>Stores beyond the array.\<close>

lemma ad_poke_overrun_mono: "ad_overrun a \<Longrightarrow> ad_overrun (ad_poke i vs a)"
  by (induction vs arbitrary: i a) (auto simp: ad_poke1_def)

lemma ad_poke_off [simp]: "ad_off (ad_poke i vs a) = ad_off a"
  by (induction vs arbitrary: i a) (auto simp: ad_poke1_def)

lemma ad_poke_length_buf [simp]: "length (ad_buf (ad_poke i vs a)) = length (ad_buf a)"
  by (induction vs arbitrary: i a) (auto simp: ad_poke1_def)

lemma ad_poke_overrun:
  "length (ad_buf a) < i + length vs \<Longrightarrow> vs \<noteq> [] \<Longrightarrow> ad_overrun (ad_poke i vs a)"
proof (induction vs arbitrary: i a)
  case (Cons v vs)
  show ?case
  proof (cases "vs = []")
    case True
    then show ?thesis using Cons.prems by (simp add: ad_poke1_def)
  next
    case False
    then show ?thesis using Cons.prems Cons.IH [of "ad_poke1 i v a" "Suc i"] by (simp add: ad_poke1_def)
  qed
qed simp

lemma fold_ad_puts_overrun:
  assumes "length (ad_buf a) < ad_pos a + length (concat vss)" and "ad_pos a + length (concat vss) < 65536"
    and "ad_pos a \<le> length (ad_buf a) \<or> ad_overrun a"
  shows "ad_overrun (fold ad_puts vss a)"
  using assms
proof (induction vss arbitrary: a)
  case (Cons vs vss)
  have off: "ad_pos (ad_puts vs a) = ad_pos a + length vs"
    using Cons.prems(2) by (simp add: ad_puts_def ad_skip_def unat_word_ariths unat_of_nat take_bit_nat_eq_self)
  have "ad_overrun (ad_puts vs a)" if "length (ad_buf a) < ad_pos a + length vs \<or> ad_overrun a"
    using that Cons.prems(3) ad_poke_overrun [of a "ad_pos a" vs] ad_poke_overrun_mono [of a]
    by (cases "vs = []") (auto simp: ad_puts_def ad_skip_def)
  moreover have len: "length (ad_buf (ad_puts vs a)) = length (ad_buf a)"
    by (simp add: ad_puts_def ad_skip_def)
  ultimately have "ad_pos (ad_puts vs a) \<le> length (ad_buf (ad_puts vs a)) \<or> ad_overrun (ad_puts vs a)"
    unfolding off len by (meson not_less)
  moreover note len
  ultimately show ?case
    using Cons.IH [of "ad_puts vs a"] Cons.prems off by (simp add: add.assoc)
qed auto

lemma encode_result:
  assumes "stack_ok I s" and "advdata_ok I p" and "n \<le> length buf" and "n \<le> 255" and "length buf < 65536"
  shows "\<exists>e a s'. adv_data_encode p buf n s = (Ret (e, a), s') \<and> \<not> ad_overrun a \<and>
     (case advdata_spec I n p [] of
        Inl err \<Rightarrow> e = err \<and> err \<noteq> NRF_SUCCESS
      | Inr ads \<Rightarrow> e = NRF_SUCCESS \<and> ad_pos a \<le> n \<and> ad_pos a = length (ad_stream ads)
                   \<and> take (ad_pos a) (ad_buf a) = ad_stream ads
                   \<and> ad_parse (take (ad_pos a) (ad_buf a)) = Some ads)"
proof -
  let ?ini = "\<lparr>ad_buf = buf, ad_off = 0, ad_overrun = False\<rparr>"
  have addr: "length (dev_addr I) = 6" using assms(1) by (simp add: stack_ok_def)
  have inv: "ad_inv n [] ?ini"
    using assms by (simp add: ad_inv_def ad_at_def ad_stream_def)
  obtain e a s' where r: "adv_fields p n ?ini s = (Ret (e, a), s')" "\<not> ad_overrun a"
     "case advdata_spec I n p [] of Inl err \<Rightarrow> e = err \<and> err \<noteq> NRF_SUCCESS
        | Inr ads \<Rightarrow> e = NRF_SUCCESS \<and> ad_inv n ads a"
    using encodesD [OF encodes_adv_fields [OF assms(2) addr] assms(1) inv] by blast
  have run: "adv_data_encode p buf n s = (Ret (e, a), s')"
    using r(1) assms(2) by (simp add: adv_data_encode_fields advdata_ok_def)
  have fin: "ad_pos a \<le> n \<and> ad_pos a = length (ad_stream ads) \<and> take (ad_pos a) (ad_buf a) = ad_stream ads
      \<and> ad_parse (take (ad_pos a) (ad_buf a)) = Some ads" if "ad_inv n ads a" for ads
  proof -
    have "ad_parse (ad_stream ads) = Some ads"
      using that ad_stream_payload [of _ ads] by (intro ad_parse_stream) (fastforce simp: ad_inv_def)
    then show ?thesis using that by (auto simp: ad_inv_def ad_at_def)
  qed
  show ?thesis
    using run r(2,3) fin by (auto split: sum.splits)
qed

lemma adv_data_encode_env:
  fixes s :: "'w world_scheme"
  shows "sd_env (snd (adv_data_encode p buf n s)) = sd_env s"
proof -
  have seq: "emits (\<lambda>_. True) (ad_seq f g a)" if "\<And>a. emits (\<lambda>_. True) (f a)" "\<And>a. emits (\<lambda>_. True) (g a)"
    for f g :: "'w ad_prog" and a
    using that by (auto simp: ad_seq_def verify_def intro!: emits_intros)
  have loop: "emits (\<lambda>_. True) (uuid_list_loop us t k n h a)" for us t k n h a
    by (induction us arbitrary: h a) (auto simp: verify_def Let_def intro!: emits_intros)
  have "emits (\<lambda>_. True) (adv_data_encode p buf n :: ('w world_scheme, u32 \<times> adbuf) prog)"
    unfolding adv_data_encode_def ad_when_def
    by (intro seq)
       (auto simp: ad_opt_def ble_device_addr_encode_def name_encode_def appearance_encode_def flags_encode_def
          tx_power_level_encode_def uuid_list_encode_def uuid_list_sized_encode_def conn_int_encode_def
          manuf_specific_data_encode_def service_data_encode_def verify_def Let_def
          intro!: emits_intros seq loop split: option.splits prod.splits)
  then show ?thesis by (metis emitsD)
qed

lemma advdata_set_run:
  assumes "stack_ok I s" and "advdata_ok I p" and "length stk = 31"
  shows "if (adv_flags p AND BLE_GAP_ADV_FLAG_BR_EDR_NOT_SUPPORTED) = 0
     then ble_advdata_set stk stk' (Some p) None s = (Ret NRF_ERROR_INVALID_PARAM, s)
     else case advdata_spec I 31 p [] of
        Inl err \<Rightarrow> fst (ble_advdata_set stk stk' (Some p) None s) = Ret err
      | Inr ads \<Rightarrow> \<exists>buf len h. take (unat len) buf = ad_stream ads \<and> unat len \<le> 31 \<and> length (ad_stream ads) = unat len
           \<and> fst (ble_advdata_set stk stk' (Some p) None s)
               = Ret (rc (sd_env s h (Gap (Sd_ble_gap_adv_data_set (Some buf) len None 0))))
           \<and> sd_trace (snd (ble_advdata_set stk stk' (Some p) None s))
               = h @ [Gap (Sd_ble_gap_adv_data_set (Some buf) len None 0)]"
proof (cases "(adv_flags p AND BLE_GAP_ADV_FLAG_BR_EDR_NOT_SUPPORTED) = 0")
  case True
  then show ?thesis
    by (simp add: ble_advdata_set_def advdata_half_def advdata_check_def verify_def bnd_run nrf_codes)
next
  case False
  have "31 \<le> length stk" "(31 :: nat) \<le> 255" "length stk < 65536"
    using assms(3) by simp_all
  from encode_result [OF assms(1,2) this]
  obtain e a s' where r: "adv_data_encode p stk 31 s = (Ret (e, a), s')"
     "case advdata_spec I 31 p [] of
        Inl err \<Rightarrow> e = err \<and> err \<noteq> NRF_SUCCESS
      | Inr ads \<Rightarrow> e = NRF_SUCCESS \<and> ad_pos a \<le> 31 \<and> ad_pos a = length (ad_stream ads)
                   \<and> take (ad_pos a) (ad_buf a) = ad_stream ads
                   \<and> ad_parse (take (ad_pos a) (ad_buf a)) = Some ads"
    by blast
  have env: "sd_env s' = sd_env s" using adv_data_encode_env [of p stk 31 s] r(1) by simp
  have half: "advdata_half advdata_check (Some p) stk s = (Ret (e, Some (ad_buf a), ad_off a), s')"
    using False r(1) by (simp add: advdata_half_def advdata_check_def verify_def bnd_run BLE_GAP_ADV_MAX_SIZE_def)
  have none: "advdata_half srdata_check None stk' t = (Ret (NRF_SUCCESS, None, 0), t)" for t :: "'a world_scheme"
    by (simp add: advdata_half_def)
  show ?thesis
    using False r(2) by (auto simp: ble_advdata_set_def bnd_run half none env split: sum.splits)
qed

subsection \<open>Properties\<close>

text \<open>
  C10: encoding advertising data that has no service data, whose manufacturer data are as long as they
  are said to be, and whose short name is no longer than the device name (\<open>advdata_ok\<close>), with a limit of at
  most 255 bytes that is no larger than the array and a stack that answers its queries as
  documented and has a device name of at most 31 bytes (\<open>stack_ok\<close>): it
  never stores outside the array and returns exactly what the reference says, its error code, or success
  with the encoding of the reference's AD structures at the start of the array, no longer than the limit,
  which a receiver splits into the same structures. With service data the first part is false (C40).
\<close>

theorem adv_data_encode_correct:
  assumes "stack_ok I s" and "advdata_ok I p" and "n \<le> length buf" and "n \<le> 255" and "length buf < 65536"
  shows "\<exists>e a s'. adv_data_encode p buf n s = (Ret (e, a), s') \<and> \<not> ad_overrun a \<and>
     (case advdata_spec I n p [] of
        Inl err \<Rightarrow> e = err \<and> err \<noteq> NRF_SUCCESS
      | Inr ads \<Rightarrow> e = NRF_SUCCESS \<and> ad_pos a \<le> n \<and> ad_pos a = length (ad_stream ads)
                   \<and> take (ad_pos a) (ad_buf a) = ad_stream ads
                   \<and> ad_parse (take (ad_pos a) (ad_buf a)) = Some ads)"
  using encode_result [OF assms] .

theorem adv_data_encode_correct_witness:
  "\<exists>e a s'. adv_data_encode demo_advdata (replicate 31 0) 31 demo_stack = (Ret (e, a), s')
     \<and> \<not> ad_overrun a \<and> e = NRF_SUCCESS
     \<and> take (ad_pos a) (ad_buf a) =
         [3, 0x19, 0x00, 0x02, 2, 0x01, 0x06, 5, 0x02, 0x02, 0x18, 0x03, 0x18, 3, 0x09, 0x50, 0x46]"
  using adv_data_encode_correct [OF demo_stack_ok demo_advdata_ok, of 31 "replicate 31 0"]
  by (simp add: demo_advdata_spec demo_advdata_stream) blast

text \<open>
  C40: a service data element that does not fit is stored beyond the end of the array and the
  encoder reports success: the comparison with \<^verbatim>\<open>max_size\<close> that the other encoders make is missing.
\<close>

theorem service_data_overrun:
  assumes "p_service_data_array p = Some (sd # sds)" and "service_data_count p = 1"
    and "arr_data (service_data sd) = Some d" and "unat (arr_size (service_data sd)) \<le> length d"
    and "unat (arr_size (service_data sd)) \<le> 252"
    and "ad_pos a \<le> length (ad_buf a)" and "length (ad_buf a) < ad_pos a + 4 + unat (arr_size (service_data sd))"
    and "length (ad_buf a) \<le> 65000"
  shows "\<exists>a'. service_data_encode p a s = (Ret (NRF_SUCCESS, a'), s) \<and> ad_overrun a'"
proof -
  let ?size = "unat (arr_size (service_data sd))"
  let ?vss = "[[of_nat (1 + (2 + ?size))], [0x16], uint16_bytes (service_uuid sd), take ?size d]"
  have "ad_puts [] b = b" for b by (simp add: ad_puts_def ad_skip_def)
  moreover have "arr_size (service_data sd) > 0 \<longleftrightarrow> ?size \<noteq> 0"
    by (simp add: word_greater_zero_iff unat_eq_0)
  ultimately have run: "service_data_encode p a s = (Ret (NRF_SUCCESS, fold ad_puts ?vss a), s)"
    using assms by (auto simp: service_data_encode_def Let_def)
  have "ad_overrun (fold ad_puts ?vss a)"
    using assms by (intro fold_ad_puts_overrun) (simp_all add: min_absorb2)
  with run show ?thesis by blast
qed

theorem service_data_overrun_witness:
  "\<exists>a'. service_data_encode (zero_advdata\<lparr>p_service_data_array := Some [demo_service_data], service_data_count := 1\<rparr>)
     \<lparr>ad_buf = replicate 31 0, ad_off = 0, ad_overrun = False\<rparr> demo_stack = (Ret (NRF_SUCCESS, a'), demo_stack)
     \<and> ad_overrun a'"
  by (rule service_data_overrun [where sd = demo_service_data and sds = "[]" and d = "replicate 30 0"])
     (simp_all add: demo_service_data_def)

text \<open>
  Asked for a short name longer than the device name, the encoder succeeds and fills the
  difference with what happened to be in the uninitialised array, which is then broadcast.
\<close>

lemma short_name_leaks_stack:
  assumes "stack_ok I s" and "name_type p = BLE_ADVDATA_SHORT_NAME" and "unat (short_name_len p) = short"
    and "length (dev_name I) < short" and "2 + short \<le> n" and "n \<le> length buf" and "n \<le> 255"
    and "length buf < 65536"
  shows "\<exists>a s'. name_encode p n \<lparr>ad_buf = buf, ad_off = 0, ad_overrun = False\<rparr> s = (Ret (NRF_SUCCESS, a), s')
     \<and> take (ad_pos a) (ad_buf a) =
         ad_enc (AD 0x08 (dev_name I @ take (short - length (dev_name I)) (drop (2 + length (dev_name I)) buf)))"
proof -
  let ?ini = "\<lparr>ad_buf = buf, ad_off = 0, ad_overrun = False\<rparr>"
  have at: "ad_at [] buf ?ini" and inv: "ad_inv n [] ?ini"
    using assms by (simp_all add: ad_inv_def ad_at_def ad_stream_def)
  have nm: "take (n - 2) (dev_name I) = dev_name I" using assms(4,5) by simp
  let ?a = "ad_skip short (ad_puts [8] (ad_puts [of_nat (Suc short)] (ad_poke 2 (dev_name I) ?ini)))"
  obtain s' where "name_encode p n ?ini s = (Ret (NRF_SUCCESS, ?a), s')"
    using name_encode_run [OF assms(1) inv, of p] assms nm
    by (auto simp: ad_stream_def numeral_2_eq_2 simp del: of_nat_Suc ad_poke.simps)
  moreover have "ad_at (of_nat (Suc short) # 8 # dev_name I @ take (short - length (dev_name I)) (drop (2 + length (dev_name I)) buf))
      (drop short (dev_name I @ drop (2 + length (dev_name I)) buf)) ?a"
    using ad_name_at [OF at, of "dev_name I" short 8] assms by (simp add: numeral_2_eq_2)
  ultimately show ?thesis
    using assms(4,5,6) by (auto simp: ad_at_def)
qed

lemma short_name_leaks_stack_example:
  "\<exists>a s'. name_encode (zero_advdata\<lparr>name_type := BLE_ADVDATA_SHORT_NAME, short_name_len := 4\<rparr>) 31
       \<lparr>ad_buf = replicate 31 0xEE, ad_off = 0, ad_overrun = False\<rparr> demo_stack = (Ret (NRF_SUCCESS, a), s')
     \<and> take (ad_pos a) (ad_buf a) = [5, 0x08, 0x50, 0x46, 0xEE, 0xEE]"
  using short_name_leaks_stack [OF demo_stack_ok,
      of "zero_advdata\<lparr>name_type := BLE_ADVDATA_SHORT_NAME, short_name_len := 4\<rparr>" 4 31 "replicate 31 0xEE"]
  by (simp add: demo_info_def) (simp add: numeral_2_eq_2)

text \<open>
  \<^verbatim>\<open>ble_advdata_set\<close> refuses data whose flags lack the BR/EDR bit without asking anything of
  the stack; data it accepts is handed over as the encoding of the reference's structures, at
  most 31 bytes, with no scan response; when the data does not fit, nothing is handed over.
\<close>

lemma advdata_set_hands_over:
  assumes "stack_ok I s" and "advdata_ok I p" and "length stk = 31"
  shows "if (adv_flags p AND BLE_GAP_ADV_FLAG_BR_EDR_NOT_SUPPORTED) = 0
     then ble_advdata_set stk stk' (Some p) None s = (Ret NRF_ERROR_INVALID_PARAM, s)
     else case advdata_spec I 31 p [] of
        Inl err \<Rightarrow> fst (ble_advdata_set stk stk' (Some p) None s) = Ret err
      | Inr ads \<Rightarrow> \<exists>buf len h. take (unat len) buf = ad_stream ads \<and> unat len \<le> 31 \<and> length (ad_stream ads) = unat len
           \<and> fst (ble_advdata_set stk stk' (Some p) None s)
               = Ret (rc (sd_env s h (Gap (Sd_ble_gap_adv_data_set (Some buf) len None 0))))
           \<and> sd_trace (snd (ble_advdata_set stk stk' (Some p) None s))
               = h @ [Gap (Sd_ble_gap_adv_data_set (Some buf) len None 0)]"
  using assms by (rule advdata_set_run)

theorem advdata_set_hands_over_witness:
  "\<exists>buf len h. take (unat len) buf =
       [3, 0x19, 0x00, 0x02, 2, 0x01, 0x06, 5, 0x02, 0x02, 0x18, 0x03, 0x18, 3, 0x09, 0x50, 0x46]
     \<and> fst (ble_advdata_set (replicate 31 0) [] (Some demo_advdata) None demo_stack)
         = Ret (rc (sd_env demo_stack h (Gap (Sd_ble_gap_adv_data_set (Some buf) len None 0))))"
proof -
  have flags: "(adv_flags demo_advdata AND BLE_GAP_ADV_FLAG_BR_EDR_NOT_SUPPORTED) \<noteq> 0"
    by (simp add: demo_advdata_def BLE_GAP_ADV_FLAG_BR_EDR_NOT_SUPPORTED_def)
  show ?thesis
    using advdata_set_hands_over [OF demo_stack_ok demo_advdata_ok, of "replicate 31 0" "[]"]
    by (simp add: flags demo_advdata_spec demo_advdata_stream) blast
qed

end
