(* ===== verification/Advertising.thy ===== *)
theory Advertising
  imports AdvData
begin

text \<open>
  \<^verbatim>\<open>components/ble/ble_advertising/ble_advertising.c\<close>: the advertising state machine, in the variant
  for version 2 of the SoftDevice interface. The static variables are the record \<open>adv\<close>. The event
  handler of the application may call back into the module (\<^verbatim>\<open>ble_advertising_peer_addr_reply\<close>,
  \<^verbatim>\<open>ble_advertising_whitelist_reply\<close>), so it is a parameter that takes and returns the module's state.

  The arrays on the stack of \<^verbatim>\<open>ble_advdata_set\<close> are not initialised; \<open>junk\<close> gives their contents
  as an arbitrary function of what has happened so far.
\<close>

subsection \<open>Modes, events and configuration\<close>

datatype ble_adv_mode =
    BLE_ADV_MODE_IDLE
  | BLE_ADV_MODE_DIRECTED
  | BLE_ADV_MODE_DIRECTED_SLOW
  | BLE_ADV_MODE_FAST
  | BLE_ADV_MODE_SLOW

datatype ble_adv_evt =
    BLE_ADV_EVT_IDLE
  | BLE_ADV_EVT_DIRECTED
  | BLE_ADV_EVT_DIRECTED_SLOW
  | BLE_ADV_EVT_FAST
  | BLE_ADV_EVT_SLOW
  | BLE_ADV_EVT_FAST_WHITELIST
  | BLE_ADV_EVT_SLOW_WHITELIST
  | BLE_ADV_EVT_WHITELIST_REQUEST
  | BLE_ADV_EVT_PEER_ADDR_REQUEST

record ble_adv_modes_config =
  ble_adv_whitelist_enabled :: bool
  ble_adv_directed_enabled :: bool
  ble_adv_directed_slow_enabled :: bool
  ble_adv_fast_enabled :: bool
  ble_adv_slow_enabled :: bool
  ble_adv_directed_slow_interval :: u32
  ble_adv_directed_slow_timeout :: u32
  ble_adv_fast_interval :: u32
  ble_adv_fast_timeout :: u32
  ble_adv_slow_interval :: u32
  ble_adv_slow_timeout :: u32

record adv =
  m_initialized :: bool
  m_advertising_start_pending :: bool
  m_adv_evt :: ble_adv_evt
  m_adv_mode_current :: ble_adv_mode
  m_adv_modes_config :: ble_adv_modes_config
  m_peer_address :: ble_gap_addr
  m_peer_addr_reply_expected :: bool
  m_advdata :: ble_advdata
  m_current_slave_link_conn_handle :: u16
  m_adv_evt_handler :: fnptr
  m_adv_error_handler :: fnptr
  m_whitelist_temporarily_disabled :: bool
  m_whitelist_reply_expected :: bool
  m_whitelist :: ble_gap_whitelist

text \<open>The two function pointers, and the contents of uninitialised stack memory.\<close>

record 'w adv_env =
  adv_evt_fn :: "ble_adv_evt \<Rightarrow> adv \<Rightarrow> ('w world_scheme, adv) prog"
  adv_error_fn :: "u32 \<Rightarrow> ('w world_scheme, unit) prog"
  junk :: "call list \<Rightarrow> bytes \<times> bytes"

definition BLE_GAP_ADV_TYPE_ADV_IND :: u8 where "BLE_GAP_ADV_TYPE_ADV_IND = 0"
definition BLE_GAP_ADV_TYPE_ADV_DIRECT_IND :: u8 where "BLE_GAP_ADV_TYPE_ADV_DIRECT_IND = 1"
definition BLE_GAP_ADV_FP_ANY :: u8 where "BLE_GAP_ADV_FP_ANY = 0"
definition BLE_GAP_ADV_FP_FILTER_CONNREQ :: u8 where "BLE_GAP_ADV_FP_FILTER_CONNREQ = 2"

definition zero_addr :: ble_gap_addr where
  "zero_addr = \<lparr>addr_type = 0, addr = replicate 6 0\<rparr>"

definition advdata_set :: "'w adv_env \<Rightarrow> ble_advdata option \<Rightarrow> ble_advdata option \<Rightarrow> ('w world_scheme, u32) prog" where
  "advdata_set env p_adv p_sr =
     bnd (gets (\<lambda>s. junk env (sd_trace s))) (\<lambda>(a, b). ble_advdata_set a b p_adv p_sr)"

subsection \<open>Small functions\<close>

definition whitelist_has_entries :: "adv \<Rightarrow> bool" where
  "whitelist_has_entries m = (wl_addr_count (m_whitelist m) \<noteq> 0 \<or> wl_irk_count (m_whitelist m) \<noteq> 0)"

definition addr_is_valid :: "bytes \<Rightarrow> bool" where
  "addr_is_valid a = list_ex (\<lambda>i. a ! i \<noteq> 0) [0..<6]"

text \<open>The enumeration in the order of the C header, and \<^verbatim>\<open>(adv_mode + 1) % BLE_ADV_MODES\<close>.\<close>

definition adv_modes :: "ble_adv_mode list" where
  "adv_modes = [BLE_ADV_MODE_IDLE, BLE_ADV_MODE_DIRECTED, BLE_ADV_MODE_DIRECTED_SLOW, BLE_ADV_MODE_FAST, BLE_ADV_MODE_SLOW]"

fun adv_mode_code :: "ble_adv_mode \<Rightarrow> nat" where
  "adv_mode_code BLE_ADV_MODE_IDLE = 0"
| "adv_mode_code BLE_ADV_MODE_DIRECTED = 1"
| "adv_mode_code BLE_ADV_MODE_DIRECTED_SLOW = 2"
| "adv_mode_code BLE_ADV_MODE_FAST = 3"
| "adv_mode_code BLE_ADV_MODE_SLOW = 4"

definition adv_mode_next_get :: "ble_adv_mode \<Rightarrow> ble_adv_mode" where
  "adv_mode_next_get md = adv_modes ! ((adv_mode_code md + 1) mod 5)"

definition flash_access_in_progress :: "('w world_scheme, bool) prog" where
  "flash_access_in_progress = bnd (svc (Store Fs_queued_op_count_get)) (\<lambda>r. ret (out_u32 r \<noteq> 0))"

text \<open>The fall-through cases of \<^verbatim>\<open>adv_mode_next_avail_get\<close>.\<close>

definition adv_mode_next_avail_get :: "adv \<Rightarrow> ble_adv_mode \<Rightarrow> ble_adv_mode" where
  "adv_mode_next_avail_get m adv_mode =
     (let peer_addr_is_valid = addr_is_valid (addr (m_peer_address m));
          cfg = m_adv_modes_config m;
          from_slow = (if ble_adv_slow_enabled cfg then BLE_ADV_MODE_SLOW else BLE_ADV_MODE_IDLE);
          from_fast = (if ble_adv_fast_enabled cfg then BLE_ADV_MODE_FAST else from_slow);
          from_directed_slow = (if ble_adv_directed_slow_enabled cfg \<and> peer_addr_is_valid
                                then BLE_ADV_MODE_DIRECTED_SLOW else from_fast);
          from_directed = (if ble_adv_directed_enabled cfg \<and> peer_addr_is_valid
                           then BLE_ADV_MODE_DIRECTED else from_directed_slow)
      in case adv_mode of
           BLE_ADV_MODE_DIRECTED \<Rightarrow> from_directed
         | BLE_ADV_MODE_DIRECTED_SLOW \<Rightarrow> from_directed_slow
         | BLE_ADV_MODE_FAST \<Rightarrow> from_fast
         | BLE_ADV_MODE_SLOW \<Rightarrow> from_slow
         | BLE_ADV_MODE_IDLE \<Rightarrow> BLE_ADV_MODE_IDLE)"

subsection \<open>Setting up a mode\<close>

type_synonym adv_setup = "u32 \<times> ble_gap_adv_params \<times> adv"

definition set_adv_mode_directed :: "ble_gap_adv_params \<Rightarrow> adv \<Rightarrow> adv_setup" where
  "set_adv_mode_directed p m =
     (NRF_SUCCESS,
      p\<lparr>adv_peer_addr := Some (m_peer_address m), adv_type := BLE_GAP_ADV_TYPE_ADV_DIRECT_IND,
        adv_timeout := 0, adv_interval := 0\<rparr>,
      m\<lparr>m_adv_evt := BLE_ADV_EVT_DIRECTED\<rparr>)"

definition set_adv_mode_directed_slow :: "ble_gap_adv_params \<Rightarrow> adv \<Rightarrow> adv_setup" where
  "set_adv_mode_directed_slow p m =
     (NRF_SUCCESS,
      p\<lparr>adv_peer_addr := Some (m_peer_address m), adv_type := BLE_GAP_ADV_TYPE_ADV_DIRECT_IND,
        adv_timeout := ucast (ble_adv_directed_slow_timeout (m_adv_modes_config m)),
        adv_interval := ucast (ble_adv_directed_slow_interval (m_adv_modes_config m))\<rparr>,
      m\<lparr>m_adv_evt := BLE_ADV_EVT_DIRECTED_SLOW\<rparr>)"

text \<open>
  The whitelist part that \<^verbatim>\<open>set_adv_mode_fast\<close> and \<^verbatim>\<open>set_adv_mode_slow\<close> share; \<open>plain\<close> and \<open>listed\<close> are
  the events without and with the whitelist.
\<close>

definition set_adv_whitelist ::
  "'w adv_env \<Rightarrow> ble_adv_evt \<Rightarrow> ble_adv_evt \<Rightarrow> ble_gap_adv_params \<Rightarrow> adv \<Rightarrow> ('w world_scheme, adv_setup) prog" where
  "set_adv_whitelist env plain listed p m =
     (if ble_adv_whitelist_enabled (m_adv_modes_config m) \<and> \<not> m_whitelist_temporarily_disabled m
         \<and> whitelist_has_entries m
      then (let p = p\<lparr>adv_whitelist := Some (m_whitelist m), adv_fp := BLE_GAP_ADV_FP_FILTER_CONNREQ\<rparr>;
                m = m\<lparr>m_advdata := (m_advdata m)\<lparr>adv_flags := BLE_GAP_ADV_FLAG_BR_EDR_NOT_SUPPORTED\<rparr>\<rparr>
            in bnd (advdata_set env (Some (m_advdata m)) None) (\<lambda>e.
               if e \<noteq> NRF_SUCCESS then ret (e, p, m) else ret (NRF_SUCCESS, p, m\<lparr>m_adv_evt := listed\<rparr>)))
      else ret (NRF_SUCCESS, p, m\<lparr>m_adv_evt := plain\<rparr>))"

definition set_adv_mode_fast :: "'w adv_env \<Rightarrow> ble_gap_adv_params \<Rightarrow> adv \<Rightarrow> ('w world_scheme, adv_setup) prog" where
  "set_adv_mode_fast env p m =
     set_adv_whitelist env BLE_ADV_EVT_FAST BLE_ADV_EVT_FAST_WHITELIST
       (p\<lparr>adv_interval := ucast (ble_adv_fast_interval (m_adv_modes_config m)),
          adv_timeout := ucast (ble_adv_fast_timeout (m_adv_modes_config m))\<rparr>) m"

definition set_adv_mode_slow :: "'w adv_env \<Rightarrow> ble_gap_adv_params \<Rightarrow> adv \<Rightarrow> ('w world_scheme, adv_setup) prog" where
  "set_adv_mode_slow env p m =
     set_adv_whitelist env BLE_ADV_EVT_SLOW BLE_ADV_EVT_SLOW_WHITELIST
       (p\<lparr>adv_interval := ucast (ble_adv_slow_interval (m_adv_modes_config m)),
          adv_timeout := ucast (ble_adv_slow_timeout (m_adv_modes_config m))\<rparr>) m"

subsection \<open>Initialisation and start\<close>

text \<open>
  The copy of a \<^verbatim>\<open>uint8_array_t\<close> into the module's own array; with a positive size a null pointer
  is read too, which gives the memory at address 0. Of an array of service data only the first
  element is copied; a pointer that is not null points to at least one.
\<close>

definition copy_array :: "bytes \<Rightarrow> uint8_array \<Rightarrow> uint8_array" where
  "copy_array mem0 d =
     d\<lparr>arr_data := Some (take (unat (arr_size d)) (case arr_data d of Some x \<Rightarrow> x | None \<Rightarrow> mem0))\<rparr>"

definition copy_advdata :: "bytes \<Rightarrow> ble_advdata \<Rightarrow> ble_advdata" where
  "copy_advdata mem0 p =
     zero_advdata
       \<lparr>name_type := name_type p, include_appearance := include_appearance p, adv_flags := adv_flags p,
        short_name_len := short_name_len p, uuids_complete := uuids_complete p,
        uuids_more_available := uuids_more_available p, uuids_solicited := uuids_solicited p,
        p_manuf_specific_data := map_option (\<lambda>d. d\<lparr>manuf_data := copy_array mem0 (manuf_data d)\<rparr>) (p_manuf_specific_data p),
        p_service_data_array := map_option (\<lambda>arr. [(hd arr)\<lparr>service_data := copy_array mem0 (service_data (hd arr))\<rparr>])
                                  (p_service_data_array p),
        service_data_count := (if p_service_data_array p = None then 0 else service_data_count p),
        p_slave_conn_int := p_slave_conn_int p,
        p_tx_power_level := p_tx_power_level p\<rparr>"

definition ble_advertising_init ::
  "'w adv_env \<Rightarrow> bytes \<Rightarrow> ble_advdata option \<Rightarrow> ble_advdata option \<Rightarrow> ble_adv_modes_config option \<Rightarrow> fnptr \<Rightarrow> fnptr
     \<Rightarrow> adv \<Rightarrow> ('w world_scheme, u32 \<times> adv) prog" where
  "ble_advertising_init env mem0 p_advdata p_srdata p_config evt_handler error_handler m =
     (case (p_advdata, p_config) of
        (Some advdata, Some config) \<Rightarrow>
          (let m = m\<lparr>m_initialized := True, m_adv_mode_current := BLE_ADV_MODE_IDLE, m_adv_modes_config := config,
                     m_adv_evt_handler := evt_handler, m_adv_error_handler := error_handler,
                     m_current_slave_link_conn_handle := BLE_CONN_HANDLE_INVALID,
                     m_peer_address := zero_addr, m_advdata := copy_advdata mem0 advdata\<rparr>
           in bnd (advdata_set env (Some (m_advdata m)) p_srdata) (\<lambda>e. ret (e, m)))
      | _ \<Rightarrow> ret (NRF_ERROR_NULL, m))"

text \<open>A call of the event handler, if there is one.\<close>

definition adv_notify :: "'w adv_env \<Rightarrow> ble_adv_evt \<Rightarrow> adv \<Rightarrow> ('w world_scheme, adv) prog" where
  "adv_notify env evt m = (if m_adv_evt_handler m \<noteq> NULL then adv_evt_fn env evt m else ret m)"

definition default_adv_params :: ble_gap_adv_params where
  "default_adv_params = \<lparr>adv_type = BLE_GAP_ADV_TYPE_ADV_IND, adv_peer_addr = None, adv_fp = BLE_GAP_ADV_FP_ANY,
     adv_whitelist = None, adv_interval = 0, adv_timeout = 0\<rparr>"

text \<open>
  The three stages of \<^verbatim>\<open>ble_advertising_start\<close> after the flash check: ask for the peer address,
  choose the mode and ask for the whitelist, set the mode up. The return codes of the
  \<^verbatim>\<open>set_adv_mode\<close> functions are overwritten by the code that follows.
\<close>

definition adv_ask_peer :: "'w adv_env \<Rightarrow> adv \<Rightarrow> ('w world_scheme, adv) prog" where
  "adv_ask_peer env m =
     (let cfg = m_adv_modes_config m; md = m_adv_mode_current m
      in if (ble_adv_directed_enabled cfg \<and> md = BLE_ADV_MODE_DIRECTED)
            \<or> (ble_adv_directed_slow_enabled cfg \<and> md = BLE_ADV_MODE_DIRECTED)
            \<or> (ble_adv_directed_slow_enabled cfg \<and> md = BLE_ADV_MODE_DIRECTED_SLOW)
         then if m_adv_evt_handler m \<noteq> NULL
              then adv_evt_fn env BLE_ADV_EVT_PEER_ADDR_REQUEST (m\<lparr>m_peer_addr_reply_expected := True\<rparr>)
              else ret (m\<lparr>m_peer_addr_reply_expected := False\<rparr>)
         else ret m)"

definition adv_ask_whitelist :: "'w adv_env \<Rightarrow> adv \<Rightarrow> ('w world_scheme, adv) prog" where
  "adv_ask_whitelist env m =
     (if m_adv_evt_handler m \<noteq> NULL
         \<and> (m_adv_mode_current m = BLE_ADV_MODE_FAST \<or> m_adv_mode_current m = BLE_ADV_MODE_SLOW)
         \<and> ble_adv_whitelist_enabled (m_adv_modes_config m) \<and> \<not> m_whitelist_temporarily_disabled m
      then adv_evt_fn env BLE_ADV_EVT_WHITELIST_REQUEST (m\<lparr>m_whitelist_reply_expected := True\<rparr>)
      else ret (m\<lparr>m_whitelist_reply_expected := False\<rparr>))"

definition adv_setup_mode :: "'w adv_env \<Rightarrow> adv \<Rightarrow> ('w world_scheme, adv_setup) prog" where
  "adv_setup_mode env m =
     (case m_adv_mode_current m of
        BLE_ADV_MODE_DIRECTED \<Rightarrow> ret (set_adv_mode_directed default_adv_params m)
      | BLE_ADV_MODE_DIRECTED_SLOW \<Rightarrow> ret (set_adv_mode_directed_slow default_adv_params m)
      | BLE_ADV_MODE_FAST \<Rightarrow> set_adv_mode_fast env default_adv_params m
      | BLE_ADV_MODE_SLOW \<Rightarrow> set_adv_mode_slow env default_adv_params m
      | BLE_ADV_MODE_IDLE \<Rightarrow> ret (NRF_SUCCESS, default_adv_params, m\<lparr>m_adv_evt := BLE_ADV_EVT_IDLE\<rparr>))"

definition ble_advertising_start ::
  "'w adv_env \<Rightarrow> ble_adv_mode \<Rightarrow> adv \<Rightarrow> ('w world_scheme, u32 \<times> adv) prog" where
  "ble_advertising_start env advertising_mode m =
     (if \<not> m_initialized m then ret (NRF_ERROR_INVALID_STATE, m)
      else (let m = m\<lparr>m_adv_mode_current := advertising_mode\<rparr>
            in bnd flash_access_in_progress (\<lambda>busy.
               if busy then ret (NRF_SUCCESS, m\<lparr>m_advertising_start_pending := True\<rparr>)
               else bnd (adv_ask_peer env (m\<lparr>m_peer_address := zero_addr\<rparr>)) (\<lambda>m.
                    bnd (adv_ask_whitelist env (m\<lparr>m_adv_mode_current := adv_mode_next_avail_get m advertising_mode\<rparr>)) (\<lambda>m.
                    bnd (adv_setup_mode env m) (\<lambda>(_, adv_params, m).
                    bnd (if m_adv_mode_current m \<noteq> BLE_ADV_MODE_IDLE
                         then svc_rc (Gap (Sd_ble_gap_adv_start adv_params)) else ret NRF_SUCCESS) (\<lambda>e.
                    if e \<noteq> NRF_SUCCESS then ret (e, m)
                    else bnd (adv_notify env (m_adv_evt m) m) (\<lambda>m. ret (NRF_SUCCESS, m)))))))))"

subsection \<open>Events\<close>

text \<open>\<^verbatim>\<open>ret = ble_advertising_start(mode)\<close> with the error callback on failure.\<close>

definition adv_start_or_report ::
  "'w adv_env \<Rightarrow> ble_adv_mode \<Rightarrow> adv \<Rightarrow> ('w world_scheme, adv) prog" where
  "adv_start_or_report env md m =
     bnd (ble_advertising_start env md m) (\<lambda>(e, m).
     andthen (guarded (e \<noteq> NRF_SUCCESS \<and> m_adv_error_handler m \<noteq> NULL) (adv_error_fn env e)) (ret m))"

definition adv_on_connected :: "u16 \<Rightarrow> u8 \<Rightarrow> adv \<Rightarrow> adv" where
  "adv_on_connected conn_handle role m =
     (if role = BLE_GAP_ROLE_PERIPH then m\<lparr>m_current_slave_link_conn_handle := conn_handle\<rparr> else m)"

definition adv_on_disconnected :: "'w adv_env \<Rightarrow> u16 \<Rightarrow> adv \<Rightarrow> ('w world_scheme, adv) prog" where
  "adv_on_disconnected env conn_handle m =
     (let m = m\<lparr>m_whitelist_temporarily_disabled := False\<rparr>
      in if conn_handle = m_current_slave_link_conn_handle m
         then adv_start_or_report env BLE_ADV_MODE_DIRECTED m else ret m)"

definition adv_on_timeout :: "'w adv_env \<Rightarrow> u8 \<Rightarrow> adv \<Rightarrow> ('w world_scheme, adv) prog" where
  "adv_on_timeout env src m =
     (if src \<noteq> BLE_GAP_TIMEOUT_SRC_ADVERTISING then ret m
      else adv_start_or_report env (adv_mode_next_get (m_adv_mode_current m)) m)"

definition ble_advertising_on_ble_evt :: "'w adv_env \<Rightarrow> ble_evt \<Rightarrow> adv \<Rightarrow> ('w world_scheme, adv) prog" where
  "ble_advertising_on_ble_evt env evt m =
     (case evt of
        BLE_GAP_EVT_CONNECTED conn_handle role _ \<Rightarrow> ret (adv_on_connected conn_handle role m)
      | BLE_GAP_EVT_DISCONNECTED conn_handle _ \<Rightarrow> adv_on_disconnected env conn_handle m
      | BLE_GAP_EVT_TIMEOUT _ src \<Rightarrow> adv_on_timeout env src m
      | _ \<Rightarrow> ret m)"

definition ble_advertising_on_sys_evt :: "'w adv_env \<Rightarrow> u32 \<Rightarrow> adv \<Rightarrow> ('w world_scheme, adv) prog" where
  "ble_advertising_on_sys_evt env sys_evt m =
     (if sys_evt = NRF_EVT_FLASH_OPERATION_SUCCESS \<or> sys_evt = NRF_EVT_FLASH_OPERATION_ERROR
      then if m_advertising_start_pending m
           then adv_start_or_report env (m_adv_mode_current m) (m\<lparr>m_advertising_start_pending := False\<rparr>)
           else ret m
      else ret m)"

subsection \<open>Replies and restart\<close>

definition ble_advertising_peer_addr_reply :: "ble_gap_addr \<Rightarrow> adv \<Rightarrow> u32 \<times> adv" where
  "ble_advertising_peer_addr_reply p_peer_address m =
     (if \<not> m_peer_addr_reply_expected m then (NRF_ERROR_INVALID_STATE, m)
      else (NRF_SUCCESS, m\<lparr>m_peer_addr_reply_expected := False, m_peer_address := p_peer_address\<rparr>))"

text \<open>
  The whitelist arrays have eight entries; \<open>overrun\<close> is the state after longer lists, which the
  code does not refuse and C leaves undefined. \<open>put_prefix\<close> is the element-wise copy.
\<close>

definition put_prefix :: "'b list \<Rightarrow> 'b list \<Rightarrow> 'b list" where
  "put_prefix xs ys = xs @ drop (length xs) ys"

definition ble_advertising_whitelist_reply ::
  "adv \<Rightarrow> ble_gap_addr list \<Rightarrow> bytes list \<Rightarrow> adv \<Rightarrow> u32 \<times> adv" where
  "ble_advertising_whitelist_reply overrun gap_addrs gap_irks m =
     (if \<not> m_whitelist_reply_expected m then (NRF_ERROR_INVALID_STATE, m)
      else if length gap_addrs > 8 \<or> length gap_irks > 8 then (NRF_SUCCESS, overrun)
      else (NRF_SUCCESS,
            m\<lparr>m_whitelist_reply_expected := False,
              m_whitelist := (m_whitelist m)
                \<lparr>wl_addr_count := of_nat (length gap_addrs), wl_irk_count := of_nat (length gap_irks),
                 wl_addrs := put_prefix gap_addrs (wl_addrs (m_whitelist m)),
                 wl_irks := put_prefix gap_irks (wl_irks (m_whitelist m))\<rparr>\<rparr>))"

definition ble_advertising_restart_without_whitelist ::
  "'w adv_env \<Rightarrow> adv \<Rightarrow> ('w world_scheme, u32 \<times> adv) prog" where
  "ble_advertising_restart_without_whitelist env m =
     bnd (svc (Gap Sd_ble_gap_adv_stop)) (\<lambda>_.
     let m = m\<lparr>m_whitelist_temporarily_disabled := True,
               m_advdata := (m_advdata m)\<lparr>adv_flags := BLE_GAP_ADV_FLAGS_LE_ONLY_GENERAL_DISC_MODE\<rparr>\<rparr>
     in bnd (advdata_set env (Some (m_advdata m)) None) (\<lambda>e.
        if e \<noteq> NRF_SUCCESS then ret (e, m)
        else bnd (adv_start_or_report env (m_adv_mode_current m) m) (\<lambda>m. ret (NRF_SUCCESS, m))))"

subsection \<open>Specification\<close>

text \<open>Which modes can be used, and the first usable one at or after a requested mode.\<close>

definition adv_available :: "adv \<Rightarrow> ble_adv_mode \<Rightarrow> bool" where
  "adv_available m md =
     (case md of
        BLE_ADV_MODE_DIRECTED \<Rightarrow> ble_adv_directed_enabled (m_adv_modes_config m) \<and> (\<exists>i < 6. addr (m_peer_address m) ! i \<noteq> 0)
      | BLE_ADV_MODE_DIRECTED_SLOW \<Rightarrow>
          ble_adv_directed_slow_enabled (m_adv_modes_config m) \<and> (\<exists>i < 6. addr (m_peer_address m) ! i \<noteq> 0)
      | BLE_ADV_MODE_FAST \<Rightarrow> ble_adv_fast_enabled (m_adv_modes_config m)
      | BLE_ADV_MODE_SLOW \<Rightarrow> ble_adv_slow_enabled (m_adv_modes_config m)
      | BLE_ADV_MODE_IDLE \<Rightarrow> False)"

definition first_available :: "adv \<Rightarrow> ble_adv_mode \<Rightarrow> ble_adv_mode" where
  "first_available m md =
     (if md = BLE_ADV_MODE_IDLE then BLE_ADV_MODE_IDLE
      else case filter (adv_available m) (drop (adv_mode_code md) adv_modes) of
             [] \<Rightarrow> BLE_ADV_MODE_IDLE | x # _ \<Rightarrow> x)"

text \<open>A configuration without directed advertising and whitelist, as the application uses it.\<close>

definition undirected :: "adv \<Rightarrow> bool" where
  "undirected m \<longleftrightarrow> m_initialized m \<and> \<not> ble_adv_directed_enabled (m_adv_modes_config m)
     \<and> \<not> ble_adv_directed_slow_enabled (m_adv_modes_config m) \<and> \<not> ble_adv_whitelist_enabled (m_adv_modes_config m)"

text \<open>Whether the flash module would now answer that no operation is queued.\<close>

definition flash_idle :: "'w world_scheme \<Rightarrow> bool" where
  "flash_idle s \<longleftrightarrow> out_u32 (sd_env s (sd_trace s) (Store Fs_queued_op_count_get)) = 0"

definition adv_grants :: "'w world_scheme \<Rightarrow> bool" where
  "adv_grants s \<longleftrightarrow> (\<forall>h p. rc (sd_env s h (Gap (Sd_ble_gap_adv_start p))) = NRF_SUCCESS)"

definition mode_params :: "adv \<Rightarrow> ble_adv_mode \<Rightarrow> ble_gap_adv_params" where
  "mode_params m md = default_adv_params
     \<lparr>adv_interval := ucast (if md = BLE_ADV_MODE_FAST then ble_adv_fast_interval (m_adv_modes_config m)
                             else ble_adv_slow_interval (m_adv_modes_config m)),
      adv_timeout := ucast (if md = BLE_ADV_MODE_FAST then ble_adv_fast_timeout (m_adv_modes_config m)
                            else ble_adv_slow_timeout (m_adv_modes_config m))\<rparr>"

definition mode_evt :: "ble_adv_mode \<Rightarrow> ble_adv_evt" where
  "mode_evt md = (if md = BLE_ADV_MODE_FAST then BLE_ADV_EVT_FAST
                  else if md = BLE_ADV_MODE_SLOW then BLE_ADV_EVT_SLOW else BLE_ADV_EVT_IDLE)"

text \<open>The module after it has entered a mode, and the calls that entering takes.\<close>

definition in_mode :: "ble_adv_mode \<Rightarrow> adv \<Rightarrow> adv" where
  "in_mode md m = m\<lparr>m_peer_address := zero_addr, m_adv_mode_current := md, m_whitelist_reply_expected := False,
     m_adv_evt := mode_evt md\<rparr>"

definition enter_calls :: "adv \<Rightarrow> ble_adv_mode \<Rightarrow> call list" where
  "enter_calls m md = Store Fs_queued_op_count_get
     # (if md = BLE_ADV_MODE_IDLE then [] else [Gap (Sd_ble_gap_adv_start (mode_params m md))])"

definition demo_adv :: adv where
  "demo_adv = \<lparr>m_initialized = True, m_advertising_start_pending = False, m_adv_evt = BLE_ADV_EVT_IDLE,
     m_adv_mode_current = BLE_ADV_MODE_FAST,
     m_adv_modes_config = \<lparr>ble_adv_whitelist_enabled = False, ble_adv_directed_enabled = False,
       ble_adv_directed_slow_enabled = False, ble_adv_fast_enabled = True, ble_adv_slow_enabled = True,
       ble_adv_directed_slow_interval = 0, ble_adv_directed_slow_timeout = 0, ble_adv_fast_interval = 80,
       ble_adv_fast_timeout = 15, ble_adv_slow_interval = 2056, ble_adv_slow_timeout = 0\<rparr>,
     m_peer_address = zero_addr, m_peer_addr_reply_expected = False, m_advdata = demo_advdata,
     m_current_slave_link_conn_handle = 5, m_adv_evt_handler = 1, m_adv_error_handler = 0,
     m_whitelist_temporarily_disabled = False, m_whitelist_reply_expected = False,
     m_whitelist = \<lparr>wl_addrs = replicate 8 zero_addr, wl_addr_count = 0, wl_irks = replicate 8 (replicate 16 0), wl_irk_count = 0\<rparr>\<rparr>"

definition demo_adv_env :: "'w adv_env" where
  "demo_adv_env = \<lparr>adv_evt_fn = (\<lambda>_. ret), adv_error_fn = (\<lambda>_. ret ()), junk = (\<lambda>_. (replicate 31 0, replicate 31 0))\<rparr>"

definition demo_adv_listed :: adv where
  "demo_adv_listed = demo_adv\<lparr>m_adv_evt_handler := 0, m_advdata := zero_advdata\<lparr>name_type := BLE_ADVDATA_SHORT_NAME\<rparr>,
     m_whitelist := (m_whitelist demo_adv)\<lparr>wl_addr_count := 1\<rparr>,
     m_adv_modes_config := (m_adv_modes_config demo_adv)\<lparr>ble_adv_whitelist_enabled := True\<rparr>\<rparr>"

subsection \<open>Choosing and entering a mode\<close>

lemma addr_is_valid_iff: "addr_is_valid a \<longleftrightarrow> (\<exists>i < 6. a ! i \<noteq> 0)"
  by (auto simp: addr_is_valid_def list_ex_iff)

lemma next_avail_first: "adv_mode_next_avail_get m md = first_available m md"
  by (cases md) (simp_all add: adv_mode_next_avail_get_def first_available_def adv_modes_def adv_available_def
      addr_is_valid_iff Let_def)

lemma undirected_start:
  fixes md :: ble_adv_mode
  assumes und: "undirected m" and idle: "flash_idle s" and grants: "adv_grants s"
  defines "md' \<equiv> first_available (m\<lparr>m_peer_address := zero_addr\<rparr>) md"
  shows "ble_advertising_start env md m s =
     bnd (adv_notify env (mode_evt md') (in_mode md' m)) (\<lambda>m. ret (NRF_SUCCESS, m))
       (s\<lparr>sd_trace := sd_trace s @ enter_calls m md'\<rparr>)"
proof -
  have ask: "adv_ask_peer env m' t = (Ret m', t)" if "m_adv_modes_config m' = m_adv_modes_config m" for m' t
    using und that by (simp add: adv_ask_peer_def undirected_def)
  have sel: "adv_mode_next_avail_get (m\<lparr>m_adv_mode_current := x, m_peer_address := zero_addr\<rparr>) md = md'" for x
  proof -
    have "adv_available (m\<lparr>m_adv_mode_current := x, m_peer_address := zero_addr\<rparr>) = adv_available (m\<lparr>m_peer_address := zero_addr\<rparr>)"
      by (simp add: fun_eq_iff adv_available_def split: ble_adv_mode.split)
    then show ?thesis by (simp add: md'_def next_avail_first first_available_def)
  qed
  have "\<not> addr_is_valid (addr zero_addr)"
    by (auto simp: addr_is_valid_iff zero_addr_def)
  then have md': "md' = BLE_ADV_MODE_IDLE \<or> md' = BLE_ADV_MODE_FAST \<or> md' = BLE_ADV_MODE_SLOW"
    by (cases md) (simp_all add: sel [symmetric, of undefined] adv_mode_next_avail_get_def Let_def)
  have init: "m_initialized m" and wl: "\<not> ble_adv_whitelist_enabled (m_adv_modes_config m)"
    using und by (simp_all add: undirected_def)
  have "ble_advertising_start env md m s =
     bnd (adv_notify env (mode_evt md') (in_mode md' m)) (\<lambda>m. ret (NRF_SUCCESS, m))
       (s\<lparr>sd_trace := sd_trace s @ enter_calls m md'\<rparr>)"
    using md' idle grants init wl
    by (elim disjE)
       (simp_all add: ble_advertising_start_def flash_access_in_progress_def bnd_run Let_def ask adv_ask_whitelist_def sel
         adv_setup_mode_def set_adv_mode_fast_def set_adv_mode_slow_def set_adv_whitelist_def flash_idle_def
         adv_grants_def enter_calls_def mode_params_def mode_evt_def in_mode_def)
  then show ?thesis .
qed

text \<open>
  A start of directed or fast advertising where only fast advertising is possible: it begins, or is
  remembered while the flash is busy.
\<close>

lemma undirected_fast_start:
  assumes "undirected m" and "ble_adv_fast_enabled (m_adv_modes_config m)" and "adv_grants s"
    and "md = BLE_ADV_MODE_DIRECTED \<or> md = BLE_ADV_MODE_FAST"
  shows "ble_advertising_start env md m s =
    (if flash_idle s
     then bnd (adv_notify env BLE_ADV_EVT_FAST (in_mode BLE_ADV_MODE_FAST m)) (\<lambda>m. ret (NRF_SUCCESS, m))
       (s\<lparr>sd_trace := sd_trace s @ [Store Fs_queued_op_count_get, Gap (Sd_ble_gap_adv_start (mode_params m BLE_ADV_MODE_FAST))]\<rparr>)
     else (Ret (NRF_SUCCESS, m\<lparr>m_adv_mode_current := md, m_advertising_start_pending := True\<rparr>),
           s\<lparr>sd_trace := sd_trace s @ [Store Fs_queued_op_count_get]\<rparr>))"
proof (cases "flash_idle s")
  case True
  have "first_available (m\<lparr>m_peer_address := zero_addr\<rparr>) md = BLE_ADV_MODE_FAST"
    using assms(1,2,4) by (auto simp: first_available_def adv_modes_def adv_available_def undirected_def)
  then show ?thesis
    using undirected_start [OF assms(1) True assms(3), of env md] True by (simp add: mode_evt_def enter_calls_def)
next
  case False
  then show ?thesis
    using assms(1) by (simp add: ble_advertising_start_def flash_access_in_progress_def bnd_run Let_def flash_idle_def undirected_def)
qed

lemma disconnect_advertises:
  assumes "undirected m" and "ble_adv_fast_enabled (m_adv_modes_config m)" and "flash_idle s" and "adv_grants s"
    and "conn_handle = m_current_slave_link_conn_handle m"
  shows "ble_advertising_on_ble_evt env (BLE_GAP_EVT_DISCONNECTED conn_handle reason) m s =
     adv_notify env BLE_ADV_EVT_FAST
       (in_mode BLE_ADV_MODE_FAST (m\<lparr>m_whitelist_temporarily_disabled := False\<rparr>))
       (s\<lparr>sd_trace := sd_trace s @
          [Store Fs_queued_op_count_get, Gap (Sd_ble_gap_adv_start (mode_params m BLE_ADV_MODE_FAST))]\<rparr>)"
proof -
  let ?m = "m\<lparr>m_whitelist_temporarily_disabled := False\<rparr>"
  have "first_available (?m\<lparr>m_peer_address := zero_addr\<rparr>) BLE_ADV_MODE_DIRECTED = BLE_ADV_MODE_FAST"
    using assms(1,2) by (simp add: first_available_def adv_modes_def adv_available_def undirected_def)
  moreover have "undirected ?m" using assms(1) by (simp add: undirected_def)
  ultimately have "ble_advertising_start env BLE_ADV_MODE_DIRECTED ?m s =
     bnd (adv_notify env BLE_ADV_EVT_FAST (in_mode BLE_ADV_MODE_FAST ?m)) (\<lambda>m. ret (NRF_SUCCESS, m))
       (s\<lparr>sd_trace := sd_trace s @ enter_calls ?m BLE_ADV_MODE_FAST\<rparr>)"
    using undirected_start [of ?m s env BLE_ADV_MODE_DIRECTED] assms(3,4) by (simp add: mode_evt_def)
  then show ?thesis
    using assms(5)
    by (simp add: ble_advertising_on_ble_evt_def adv_on_disconnected_def adv_start_or_report_def bnd_run
        andthen_run guarded_run enter_calls_def mode_params_def split: prod.splits outcome.splits)
qed

lemma demo_adv_facts:
  "undirected demo_adv" "ble_adv_fast_enabled (m_adv_modes_config demo_adv)"
  "m_current_slave_link_conn_handle demo_adv = 5" "m_initialized demo_adv"
  "demo_adv\<lparr>m_whitelist_temporarily_disabled := False\<rparr> = demo_adv"
  "demo_adv\<lparr>m_adv_mode_current := BLE_ADV_MODE_FAST, m_advertising_start_pending := False\<rparr> = demo_adv"
  "mode_params demo_adv BLE_ADV_MODE_FAST = default_adv_params\<lparr>adv_interval := 80, adv_timeout := 15\<rparr>"
  "mode_params demo_adv BLE_ADV_MODE_SLOW = default_adv_params\<lparr>adv_interval := 2056, adv_timeout := 0\<rparr>"
  "first_available (demo_adv\<lparr>m_peer_address := zero_addr\<rparr>) (adv_mode_next_get (m_adv_mode_current demo_adv)) = BLE_ADV_MODE_SLOW"
  by (simp_all add: demo_adv_def undirected_def mode_params_def first_available_def adv_mode_next_get_def adv_modes_def
      adv_available_def)

lemma demo_world_facts: "flash_idle demo_world" "adv_grants demo_world"
  by (simp_all add: flash_idle_def adv_grants_def demo_world_def demo_env_def null_reply_def)

lemma demo_notify: "adv_notify demo_adv_env evt m s = (Ret m, s)"
  by (simp add: adv_notify_def demo_adv_env_def)

lemma demo_world_trace [simp]: "sd_trace demo_world = []"
  by (simp add: demo_world_def)

subsection \<open>Properties\<close>

text \<open>
  C29: \<^verbatim>\<open>adv_mode_next_avail_get\<close> returns the first mode in the order directed, slow directed, fast,
  slow, from the requested one on, that is enabled and, for directed modes, has a peer address;
  idle when there is none.
\<close>

lemma adv_mode_selection:
  "adv_mode_next_avail_get m md = first_available m md
   \<and> (first_available m md \<noteq> BLE_ADV_MODE_IDLE \<longleftrightarrow> (\<exists>x. adv_mode_code md \<le> adv_mode_code x \<and> md \<noteq> BLE_ADV_MODE_IDLE \<and> adv_available m x))"
proof -
  have "(\<exists>x. adv_mode_code md \<le> adv_mode_code x \<and> md \<noteq> BLE_ADV_MODE_IDLE \<and> adv_available m x)
      \<longleftrightarrow> first_available m md \<noteq> BLE_ADV_MODE_IDLE"
  proof
    assume "\<exists>x. adv_mode_code md \<le> adv_mode_code x \<and> md \<noteq> BLE_ADV_MODE_IDLE \<and> adv_available m x"
    then obtain x where x: "adv_mode_code md \<le> adv_mode_code x" "md \<noteq> BLE_ADV_MODE_IDLE" "adv_available m x"
      by blast
    then show "first_available m md \<noteq> BLE_ADV_MODE_IDLE"
      by (cases md; cases x) (auto simp: first_available_def adv_modes_def adv_available_def)
  next
    assume "first_available m md \<noteq> BLE_ADV_MODE_IDLE"
    then show "\<exists>x. adv_mode_code md \<le> adv_mode_code x \<and> md \<noteq> BLE_ADV_MODE_IDLE \<and> adv_available m x"
      by (intro exI [of _ "first_available m md"], cases md)
         (auto simp: first_available_def adv_modes_def adv_available_def split: if_splits)
  qed
  then show ?thesis by (simp add: next_avail_first)
qed

text \<open>
  When the link ends on which the device was connected as peripheral, the module without
  directed modes and whitelist starts fast advertising with the configured interval and time-out
  and then tells the application so: exactly one flash query and one start reach the outside.
\<close>

lemma disconnect_restarts_advertising:
  assumes "undirected m" and "ble_adv_fast_enabled (m_adv_modes_config m)" and "flash_idle s" and "adv_grants s"
    and "conn_handle = m_current_slave_link_conn_handle m"
  shows "ble_advertising_on_ble_evt env (BLE_GAP_EVT_DISCONNECTED conn_handle reason) m s =
     adv_notify env BLE_ADV_EVT_FAST
       (in_mode BLE_ADV_MODE_FAST (m\<lparr>m_whitelist_temporarily_disabled := False\<rparr>))
       (s\<lparr>sd_trace := sd_trace s @
          [Store Fs_queued_op_count_get, Gap (Sd_ble_gap_adv_start (mode_params m BLE_ADV_MODE_FAST))]\<rparr>)"
  using assms by (rule disconnect_advertises)

theorem disconnect_restarts_advertising_witness:
  "ble_advertising_on_ble_evt demo_adv_env (BLE_GAP_EVT_DISCONNECTED 5 0x13) demo_adv demo_world =
     (Ret (in_mode BLE_ADV_MODE_FAST demo_adv),
      demo_world\<lparr>sd_trace := [Store Fs_queued_op_count_get,
         Gap (Sd_ble_gap_adv_start (default_adv_params\<lparr>adv_interval := 80, adv_timeout := 15\<rparr>))]\<rparr>)"
  using disconnect_restarts_advertising [where m = demo_adv and s = demo_world and conn_handle = 5 and env = demo_adv_env and reason = "0x13"]
  by (simp add: demo_adv_facts demo_world_facts demo_notify)

text \<open>
  Every advertising time-out moves the module strictly forward: the mode it enters is idle or
  a later one than the one that timed out, so five time-outs in a row always include idle; and
  entering idle starts nothing.
\<close>

lemma timeout_makes_progress:
  assumes "undirected m" and "flash_idle s" and "adv_grants s"
  defines "md' \<equiv> first_available (m\<lparr>m_peer_address := zero_addr\<rparr>) (adv_mode_next_get (m_adv_mode_current m))"
  shows "ble_advertising_on_ble_evt env (BLE_GAP_EVT_TIMEOUT h BLE_GAP_TIMEOUT_SRC_ADVERTISING) m s =
       adv_notify env (mode_evt md') (in_mode md' m) (s\<lparr>sd_trace := sd_trace s @ enter_calls m md'\<rparr>)
     \<and> (m_adv_mode_current m \<noteq> BLE_ADV_MODE_IDLE \<longrightarrow>
          md' = BLE_ADV_MODE_IDLE \<or> adv_mode_code (m_adv_mode_current m) < adv_mode_code md')
     \<and> (m_adv_mode_current m = BLE_ADV_MODE_SLOW \<longrightarrow> md' = BLE_ADV_MODE_IDLE)"
proof -
  have "ble_advertising_on_ble_evt env (BLE_GAP_EVT_TIMEOUT h BLE_GAP_TIMEOUT_SRC_ADVERTISING) m s =
       adv_notify env (mode_evt md') (in_mode md' m) (s\<lparr>sd_trace := sd_trace s @ enter_calls m md'\<rparr>)"
    using undirected_start [OF assms(1-3), of env "adv_mode_next_get (m_adv_mode_current m)"]
    by (simp add: ble_advertising_on_ble_evt_def adv_on_timeout_def adv_start_or_report_def bnd_run
        andthen_run guarded_run flip: md'_def split: prod.splits outcome.splits)
  moreover have "m_adv_mode_current m \<noteq> BLE_ADV_MODE_IDLE \<longrightarrow>
          md' = BLE_ADV_MODE_IDLE \<or> adv_mode_code (m_adv_mode_current m) < adv_mode_code md'"
    by (cases "m_adv_mode_current m")
       (auto simp: md'_def first_available_def adv_mode_next_get_def adv_modes_def)
  moreover have "m_adv_mode_current m = BLE_ADV_MODE_SLOW \<longrightarrow> md' = BLE_ADV_MODE_IDLE"
    by (simp add: md'_def first_available_def adv_mode_next_get_def adv_modes_def)
  ultimately show ?thesis by blast
qed

lemma timeout_makes_progress_example:
  "ble_advertising_on_ble_evt demo_adv_env (BLE_GAP_EVT_TIMEOUT 0 0) demo_adv demo_world =
     (Ret (in_mode BLE_ADV_MODE_SLOW demo_adv),
      demo_world\<lparr>sd_trace := [Store Fs_queued_op_count_get,
         Gap (Sd_ble_gap_adv_start (default_adv_params\<lparr>adv_interval := 2056, adv_timeout := 0\<rparr>))]\<rparr>)"
  using timeout_makes_progress [of demo_adv demo_world demo_adv_env 0]
  by (simp add: demo_adv_facts demo_world_facts demo_notify enter_calls_def nrf_codes)

text \<open>
  A start requested while the flash is busy reports success, asks nothing of the radio and
  remembers the request; the end of a flash operation then does what the start would have done, and
  if the flash is busy again the request stays remembered.
\<close>

lemma deferred_start_resumes:
  assumes "m_initialized m" and "out_u32 (sd_env s (sd_trace s) (Store Fs_queued_op_count_get)) \<noteq> 0"
    and "evt = NRF_EVT_FLASH_OPERATION_SUCCESS \<or> evt = NRF_EVT_FLASH_OPERATION_ERROR"
  shows "\<exists>m'. ble_advertising_start env md m s =
         (Ret (NRF_SUCCESS, m'), s\<lparr>sd_trace := sd_trace s @ [Store Fs_queued_op_count_get]\<rparr>)
     \<and> ble_advertising_on_sys_evt env evt m' = adv_start_or_report env md (m\<lparr>m_adv_mode_current := md, m_advertising_start_pending := False\<rparr>)
     \<and> (\<forall>t. out_u32 (sd_env t (sd_trace t) (Store Fs_queued_op_count_get)) \<noteq> 0 \<longrightarrow>
          ble_advertising_on_sys_evt env evt m' t =
            (Ret m', t\<lparr>sd_trace := sd_trace t @ [Store Fs_queued_op_count_get]\<rparr>))"
proof (intro exI conjI allI impI)
  let ?m = "m\<lparr>m_adv_mode_current := md, m_advertising_start_pending := True\<rparr>"
  show "ble_advertising_start env md m s =
      (Ret (NRF_SUCCESS, ?m), s\<lparr>sd_trace := sd_trace s @ [Store Fs_queued_op_count_get]\<rparr>)"
    using assms by (simp add: ble_advertising_start_def flash_access_in_progress_def bnd_run Let_def)
  show "ble_advertising_on_sys_evt env evt ?m =
      adv_start_or_report env md (m\<lparr>m_adv_mode_current := md, m_advertising_start_pending := False\<rparr>)"
    using assms(3) by (auto simp: ble_advertising_on_sys_evt_def)
  show "ble_advertising_on_sys_evt env evt ?m t = (Ret ?m, t\<lparr>sd_trace := sd_trace t @ [Store Fs_queued_op_count_get]\<rparr>)"
    if "out_u32 (sd_env t (sd_trace t) (Store Fs_queued_op_count_get)) \<noteq> 0" for t
    using assms(1,3) that
    by (auto simp: ble_advertising_on_sys_evt_def adv_start_or_report_def ble_advertising_start_def
        flash_access_in_progress_def bnd_run andthen_run guarded_run Let_def)
qed

lemma deferred_start_resumes_example:
  "\<exists>m'. ble_advertising_start demo_adv_env BLE_ADV_MODE_FAST demo_adv
       \<lparr>sd_env = (\<lambda>h c. null_reply\<lparr>out_u32 := 1\<rparr>), sd_trace = []\<rparr> =
     (Ret (NRF_SUCCESS, m'), \<lparr>sd_env = (\<lambda>h c. null_reply\<lparr>out_u32 := 1\<rparr>), sd_trace = [Store Fs_queued_op_count_get]\<rparr>)
     \<and> ble_advertising_on_sys_evt (demo_adv_env :: unit adv_env) 2 m' = adv_start_or_report demo_adv_env BLE_ADV_MODE_FAST demo_adv"
  using deferred_start_resumes [of demo_adv "\<lparr>sd_env = (\<lambda>h c. null_reply\<lparr>out_u32 := 1\<rparr>), sd_trace = []\<rparr>" 2
      demo_adv_env BLE_ADV_MODE_FAST]
  by (auto simp: demo_adv_facts NRF_EVT_FLASH_OPERATION_SUCCESS_def)

text \<open>
  In the whitelist modes an error of \<^verbatim>\<open>ble_advdata_set\<close> is lost: advertising is started all the
  same with the filter on, success is returned and the application is told the event of the mode
  before, although the advertising data still announces the old flags.
\<close>

lemma advdata_error_lost:
  assumes "m_initialized m" and "ble_adv_fast_enabled (m_adv_modes_config m)"
    and "ble_adv_whitelist_enabled (m_adv_modes_config m)" and "\<not> m_whitelist_temporarily_disabled m"
    and "whitelist_has_entries m" and "m_adv_evt_handler m = NULL" and "flash_idle s" and "adv_grants s"
    and "advdata_set env (Some ((m_advdata m)\<lparr>adv_flags := BLE_GAP_ADV_FLAG_BR_EDR_NOT_SUPPORTED\<rparr>)) None
           (s\<lparr>sd_trace := sd_trace s @ [Store Fs_queued_op_count_get]\<rparr>) = (Ret err, t)"
    and "err \<noteq> NRF_SUCCESS" and "adv_grants t"
  shows "\<exists>m' p. ble_advertising_start env BLE_ADV_MODE_FAST m s =
        (Ret (NRF_SUCCESS, m'), t\<lparr>sd_trace := sd_trace t @ [Gap (Sd_ble_gap_adv_start p)]\<rparr>)
     \<and> m_adv_evt m' = m_adv_evt m \<and> adv_fp p = BLE_GAP_ADV_FP_FILTER_CONNREQ"
proof -
  have sel: "adv_mode_next_avail_get m' BLE_ADV_MODE_FAST = BLE_ADV_MODE_FAST"
    if "m_adv_modes_config m' = m_adv_modes_config m" for m'
    using assms(2) that by (simp add: adv_mode_next_avail_get_def)
  have wl: "whitelist_has_entries m'" if "m_whitelist m' = m_whitelist m" for m'
    using assms(5) that by (simp add: whitelist_has_entries_def)
  show ?thesis
    using assms
    by (simp add: ble_advertising_start_def flash_access_in_progress_def bnd_run Let_def adv_ask_peer_def
        adv_ask_whitelist_def sel wl adv_setup_mode_def set_adv_mode_fast_def set_adv_whitelist_def flash_idle_def
        adv_grants_def adv_notify_def) (rule exI, rule conjI, rule refl, simp)
qed

lemma advdata_error_lost_example:
  "\<exists>m' p. ble_advertising_start demo_adv_env BLE_ADV_MODE_FAST demo_adv_listed demo_world =
        (Ret (NRF_SUCCESS, m'), demo_world\<lparr>sd_trace := [Store Fs_queued_op_count_get, Gap (Sd_ble_gap_adv_start p)]\<rparr>)
     \<and> m_adv_evt m' = BLE_ADV_EVT_IDLE"
proof -
  let ?s = "demo_world\<lparr>sd_trace := sd_trace demo_world @ [Store Fs_queued_op_count_get]\<rparr>"
  have "advdata_set demo_adv_env
     (Some ((m_advdata demo_adv_listed)\<lparr>adv_flags := BLE_GAP_ADV_FLAG_BR_EDR_NOT_SUPPORTED\<rparr>)) None ?s =
     (Ret NRF_ERROR_INVALID_PARAM, ?s)"
    by (simp add: advdata_set_def ble_advdata_set_def advdata_half_def advdata_check_def verify_def bnd_run
        adv_data_encode_def ad_seq_def ad_when_def ad_opt_def flags_encode_def name_encode_def demo_adv_listed_def
        zero_advdata_def BLE_GAP_ADV_FLAG_BR_EDR_NOT_SUPPORTED_def BLE_GAP_ADV_MAX_SIZE_def nrf_codes demo_adv_env_def)
  from advdata_error_lost [OF _ _ _ _ _ _ demo_world_facts this] show ?thesis
    by (fastforce simp: demo_adv_listed_def demo_adv_def whitelist_has_entries_def nrf_codes adv_grants_def demo_world_def
        demo_env_def null_reply_def)
qed

end
