(* ===== verification/SrvCommon.thy ===== *)
theory SrvCommon
  imports SoftDevice AppUtil
begin

text \<open>
  \<^verbatim>\<open>components/ble/common/ble_srv_common.c\<close>: helpers shared by the GATT services, in particular the
  table-driven creation of characteristics and descriptors.
\<close>

unbundle bit_operations_syntax

subsection \<open>The program\<close>

definition ble_srv_is_notification_enabled :: "bytes \<Rightarrow> bool" where
  "ble_srv_is_notification_enabled p_encoded_data \<longleftrightarrow>
     (uint16_decode p_encoded_data AND ucast BLE_GATT_HVX_NOTIFICATION) \<noteq> 0"

definition ble_srv_is_indication_enabled :: "bytes \<Rightarrow> bool" where
  "ble_srv_is_indication_enabled p_encoded_data \<longleftrightarrow>
     (uint16_decode p_encoded_data AND ucast BLE_GATT_HVX_INDICATION) \<noteq> 0"

record ble_srv_report_ref =
  report_id :: u8
  report_type :: u8

definition ble_srv_report_ref_encode ::
  "bytes \<Rightarrow> ble_srv_report_ref \<Rightarrow> ('w world_scheme, u8 \<times> bytes) prog" where
  "ble_srv_report_ref_encode p_encoded_buffer p_report_ref =
     (let len = 0;
          p_encoded_buffer = p_encoded_buffer[len := report_id p_report_ref]; len = len + 1;
          p_encoded_buffer = p_encoded_buffer[len := report_type p_report_ref]; len = len + 1
      in andthen (if len = 2 then ret () else app_error_handler 0) (ret (of_nat len, p_encoded_buffer)))"

record ble_srv_utf8_str =
  utf8_length :: u16
  utf8_str :: bytes

definition ble_srv_ascii_to_utf8 :: "bytes \<Rightarrow> ble_srv_utf8_str" where
  "ble_srv_ascii_to_utf8 p_ascii =
     \<lparr>utf8_length = of_nat (length (takeWhile (\<lambda>c. c \<noteq> 0) p_ascii)), utf8_str = p_ascii\<rparr>"

datatype security_req = SEC_NO_ACCESS | SEC_OPEN | SEC_JUST_WORKS | SEC_MITM | SEC_SIGNED | SEC_SIGNED_MITM

fun set_security_req :: "security_req \<Rightarrow> ble_gap_conn_sec_mode" where
  "set_security_req SEC_NO_ACCESS = SEC_MODE_NO_ACCESS"
| "set_security_req SEC_OPEN = SEC_MODE_OPEN"
| "set_security_req SEC_JUST_WORKS = SEC_MODE_ENC_NO_MITM"
| "set_security_req SEC_MITM = SEC_MODE_ENC_WITH_MITM"
| "set_security_req SEC_SIGNED = SEC_MODE_SIGNED_NO_MITM"
| "set_security_req SEC_SIGNED_MITM = SEC_MODE_SIGNED_WITH_MITM"

record ble_add_char_user_desc =
  ud_max_size :: u16
  ud_size :: u16
  ud_char_user_desc :: "bytes option"
  ud_is_var_len :: bool
  ud_is_defered_read :: bool
  ud_is_defered_write :: bool
  ud_read_access :: security_req
  ud_write_access :: security_req
  ud_is_value_user :: bool

record ble_add_char_params =
  ac_uuid :: u16
  ac_uuid_type :: u8
  ac_max_len :: u16
  ac_init_len :: u16
  ac_init_value :: "bytes option"
  ac_is_var_len :: bool
  ac_char_props :: ble_gatt_char_props
  ac_char_ext_props :: "bool \<times> bool"
  ac_is_defered_read :: bool
  ac_is_defered_write :: bool
  ac_read_access :: security_req
  ac_write_access :: security_req
  ac_cccd_write_access :: security_req
  ac_is_value_user :: bool
  ac_user_descr :: "ble_add_char_user_desc option"
  ac_presentation_format :: "bytes option"

record ble_add_descr_params =
  ad_uuid :: u16
  ad_uuid_type :: u8
  ad_is_defered_read :: bool
  ad_is_defered_write :: bool
  ad_is_var_len :: bool
  ad_read_access :: security_req
  ad_write_access :: security_req
  ad_is_value_user :: bool
  ad_init_len :: u16
  ad_init_offs :: u16
  ad_max_len :: u16
  ad_value :: "bytes option"

text \<open>The two choices both functions make: the UUID type and the place of the value.\<close>

definition srv_uuid :: "u8 \<Rightarrow> u16 \<Rightarrow> ble_uuid" where
  "srv_uuid ty u = \<lparr>uuid = u, uuid_type = (if ty = 0 then BLE_UUID_TYPE_BLE else ty)\<rparr>"

definition srv_vloc :: "bool \<Rightarrow> u8" where
  "srv_vloc user = (if user then BLE_GATTS_VLOC_USER else BLE_GATTS_VLOC_STACK)"

definition char_md_of :: "ble_add_char_params \<Rightarrow> ble_gatts_char_md" where
  "char_md_of p =
     (let char_md = zero_char_md;
          char_md = (if cp_notify (ac_char_props p) \<or> cp_indicate (ac_char_props p)
                     then char_md\<lparr>p_cccd_md := Some (zero_attr_md
                            \<lparr>write_perm := set_security_req (ac_cccd_write_access p),
                             read_perm := SEC_MODE_OPEN, vloc := BLE_GATTS_VLOC_STACK\<rparr>)\<rparr>
                     else char_md);
          char_md = char_md\<lparr>char_props := ac_char_props p, char_ext_props := ac_char_ext_props p\<rparr>;
          char_md = (case ac_user_descr p of
                       None \<Rightarrow> char_md
                     | Some ud \<Rightarrow>
                         char_md\<lparr>char_user_desc_max_size := ud_max_size ud, char_user_desc_size := ud_size ud,
                           p_char_user_desc := ud_char_user_desc ud,
                           p_user_desc_md := Some
                             \<lparr>read_perm = set_security_req (ud_read_access ud),
                              write_perm = set_security_req (ud_write_access ud), vlen = ud_is_var_len ud,
                              vloc = srv_vloc (ud_is_value_user ud), rd_auth = ud_is_defered_read ud,
                              wr_auth = ud_is_defered_write ud\<rparr>\<rparr>)
      in (case ac_presentation_format p of
            None \<Rightarrow> char_md
          | Some pf \<Rightarrow> char_md\<lparr>p_char_pf := Some pf\<rparr>))"

definition attr_of :: "ble_add_char_params \<Rightarrow> ble_gatts_attr" where
  "attr_of p =
     \<lparr>attr_uuid = srv_uuid (ac_uuid_type p) (ac_uuid p),
      attr_md = \<lparr>read_perm = set_security_req (ac_read_access p),
                 write_perm = set_security_req (ac_write_access p), vlen = ac_is_var_len p,
                 vloc = srv_vloc (ac_is_value_user p), rd_auth = ac_is_defered_read p,
                 wr_auth = ac_is_defered_write p\<rparr>,
      init_len = (if ac_init_value p = None then 0 else ac_init_len p),
      init_offs = 0,
      max_len = ac_max_len p,
      p_value = ac_init_value p\<rparr>"

definition characteristic_add ::
  "u16 \<Rightarrow> ble_add_char_params \<Rightarrow> ('w world_scheme, u32 \<times> ble_gatts_char_handles) prog" where
  "characteristic_add service_handle p_char_props =
     bnd (svc (Gatt (Sd_ble_gatts_characteristic_add service_handle (char_md_of p_char_props)
            (attr_of p_char_props)))) (\<lambda>r.
     ret (rc r, out_handles r))"

definition descriptor_add ::
  "u16 \<Rightarrow> ble_add_descr_params \<Rightarrow> ('w world_scheme, u32 \<times> u16) prog" where
  "descriptor_add char_handle p =
     bnd (svc (Gatt (Sd_ble_gatts_descriptor_add char_handle
            \<lparr>attr_uuid = srv_uuid (ad_uuid_type p) (ad_uuid p),
             attr_md = \<lparr>read_perm = set_security_req (ad_read_access p),
                        write_perm = set_security_req (ad_write_access p), vlen = ad_is_var_len p,
                        vloc = srv_vloc (ad_is_value_user p), rd_auth = ad_is_defered_read p,
                        wr_auth = ad_is_defered_write p\<rparr>,
             init_len = ad_init_len p, init_offs = ad_init_offs p, max_len = ad_max_len p,
             p_value = ad_value p\<rparr>))) (\<lambda>r.
     ret (rc r, out_u16 r))"

subsection \<open>Facts\<close>

lemma notification_enabled_bit:
  "2 \<le> length d \<Longrightarrow> ble_srv_is_notification_enabled d \<longleftrightarrow> bit (d ! 0) 0"
proof -
  have b: "bit (uint16_decode d) 0 = bit (d ! 0) 0"
    by (simp add: uint16_decode_def bit_or_iff bit_push_bit_iff bit_unsigned_iff)
  have "(w AND 1 \<noteq> 0) = bit w 0" for w :: u16
    by (simp add: and_one_eq bit_0 odd_iff_mod_2_eq_one)
  with b show ?thesis
    by (simp add: ble_srv_is_notification_enabled_def BLE_GATT_HVX_NOTIFICATION_def)
qed

lemma report_ref_encode_run [simp]:
  "length buf = 2 \<Longrightarrow> ble_srv_report_ref_encode buf r s = (Ret (2, [report_id r, report_type r]), s)"
  by (auto simp: ble_srv_report_ref_encode_def Let_def andthen_run numeral_2_eq_2 length_Suc_conv)

text \<open>A characteristic that can notify or indicate, and only such a one, gets a CCCD.\<close>

lemma cccd_iff: "p_cccd_md (char_md_of p) \<noteq> None \<longleftrightarrow> cp_notify (ac_char_props p) \<or> cp_indicate (ac_char_props p)"
  by (simp add: char_md_of_def Let_def zero_char_md_def split: option.splits)

subsection \<open>The contract of a service initialisation\<close>

text \<open>
  Every GATT service of the firmware starts the same way: its initialisation registers the
  primary service first; when the stack refuses, the error is returned and nothing else is
  asked of the stack. The initialisations always return. \<open>accepted\<close> says that the
  parameters pass the checks of the function.
\<close>

locale service_module =
  fixes init :: "('w world_scheme, u32 \<times> 'st) prog"
    and srv :: ble_uuid
    and accepted :: bool
  assumes refused: "accepted \<Longrightarrow> rc (sd_env s (sd_trace s) (Gatt (Sd_ble_gatts_service_add BLE_GATTS_SRVC_TYPE_PRIMARY srv))) \<noteq> NRF_SUCCESS \<Longrightarrow>
      \<exists>st. init s = (Ret (rc (sd_env s (sd_trace s) (Gatt (Sd_ble_gatts_service_add BLE_GATTS_SRVC_TYPE_PRIMARY srv))), st),
        s\<lparr>sd_trace := sd_trace s @ [Gatt (Sd_ble_gatts_service_add BLE_GATTS_SRVC_TYPE_PRIMARY srv)]\<rparr>)"
    and registers: "accepted \<Longrightarrow> \<exists>e st t. fst (init s) = Ret (e, st) \<and> sd_env (snd (init s)) = sd_env s
      \<and> sd_trace (snd (init s)) = sd_trace s @ Gatt (Sd_ble_gatts_service_add BLE_GATTS_SRVC_TYPE_PRIMARY srv) # t"
begin

lemma success_added:
  assumes "accepted" and "fst (init s) = Ret (NRF_SUCCESS, st)"
  shows "rc (sd_env s (sd_trace s) (Gatt (Sd_ble_gatts_service_add BLE_GATTS_SRVC_TYPE_PRIMARY srv))) = NRF_SUCCESS"
  using refused [OF assms(1), of s] assms(2) by (metis Pair_inject fst_conv outcome.inject(1))

text \<open>An initialisation followed by the error check: it goes on only if the service is there.\<close>

lemma checked_init:
  assumes acc: "accepted"
  shows "(\<exists>st s'. bnd init (\<lambda>(e, st). andthen (APP_ERROR_CHECK e) (ret st)) s = (Ret st, s')
      \<and> rc (sd_env s (sd_trace s) (Gatt (Sd_ble_gatts_service_add BLE_GATTS_SRVC_TYPE_PRIMARY srv))) = NRF_SUCCESS)
   \<or> (\<exists>e s'. bnd init (\<lambda>(e, st). andthen (APP_ERROR_CHECK e) (ret st)) s = (Fault e, s') \<and> e \<noteq> NRF_SUCCESS)"
proof -
  obtain e st where i: "fst (init s) = Ret (e, st)"
    using registers [OF acc] by blast
  then obtain s' where run: "init s = (Ret (e, st), s')"
    by (metis prod.collapse)
  show ?thesis
  proof (cases "e = NRF_SUCCESS")
    case True
    with i success_added [OF acc, of s st] run show ?thesis
      by (simp add: bnd_run andthen_run APP_ERROR_CHECK_run)
  next
    case False
    with run show ?thesis
      by (simp add: bnd_run andthen_run APP_ERROR_CHECK_run)
  qed
qed

end

end
