(* ===== verification/ConnParams.thy ===== *)
theory ConnParams
  imports SrvCommon
begin

text \<open>
  \<^verbatim>\<open>components/ble/common/ble_conn_params.c\<close>: negotiation of the connection parameters. The static
  variables of the module are the record \<open>conn_params\<close>; the two callbacks of the configuration
  are parameters and do not re-enter the module.
\<close>

definition CONN_PARAMS_TIMER :: nat where "CONN_PARAMS_TIMER = 1"
definition APP_TIMER_MODE_SINGLE_SHOT :: nat where "APP_TIMER_MODE_SINGLE_SHOT = 0"
definition APP_TIMER_MODE_REPEATED :: nat where "APP_TIMER_MODE_REPEATED = 1"

subsection \<open>The program\<close>

record ble_conn_params_init_t =
  p_conn_params :: "ble_gap_conn_params option"
  first_conn_params_update_delay :: u32
  next_conn_params_update_delay :: u32
  max_conn_params_update_count :: u8
  start_on_notify_cccd_handle :: u16
  disconnect_on_fail :: bool
  cp_evt_handler :: fnptr
  cp_error_handler :: fnptr

record conn_params =
  m_conn_params_config :: ble_conn_params_init_t
  m_preferred_conn_params :: ble_gap_conn_params
  m_update_count :: u8
  m_conn_handle :: u16
  m_current_conn_params :: ble_gap_conn_params
  m_change_param :: bool

datatype ble_conn_params_evt = BLE_CONN_PARAMS_EVT_FAILED | BLE_CONN_PARAMS_EVT_SUCCEEDED

text \<open>The callbacks: events to the application, errors.\<close>

record 'w cp_callbacks =
  on_cp_evt :: "ble_conn_params_evt \<Rightarrow> ('w world_scheme, unit) prog"
  on_cp_error :: "u32 \<Rightarrow> ('w world_scheme, unit) prog"

definition cp_notify :: "'w cp_callbacks \<Rightarrow> conn_params \<Rightarrow> ble_conn_params_evt \<Rightarrow> ('w world_scheme, unit) prog" where
  "cp_notify cb m evt = guarded (cp_evt_handler (m_conn_params_config m) \<noteq> NULL) (on_cp_evt cb evt)"

definition cp_report :: "'w cp_callbacks \<Rightarrow> conn_params \<Rightarrow> u32 \<Rightarrow> ('w world_scheme, unit) prog" where
  "cp_report cb m err_code =
     guarded (err_code \<noteq> NRF_SUCCESS \<and> cp_error_handler (m_conn_params_config m) \<noteq> NULL) (on_cp_error cb err_code)"

definition is_conn_params_ok :: "conn_params \<Rightarrow> ble_gap_conn_params \<Rightarrow> bool" where
  "is_conn_params_ok m p =
     (if max_conn_interval p \<ge> min_conn_interval (m_preferred_conn_params m)
         \<and> max_conn_interval p \<le> max_conn_interval (m_preferred_conn_params m)
      then True else False)"

definition update_timeout_handler :: "'w cp_callbacks \<Rightarrow> conn_params \<Rightarrow> ('w world_scheme, conn_params) prog" where
  "update_timeout_handler cb m =
     (if m_conn_handle m \<noteq> BLE_CONN_HANDLE_INVALID
      then (let m = m\<lparr>m_update_count := m_update_count m + 1\<rparr>
            in if m_update_count m \<le> max_conn_params_update_count (m_conn_params_config m)
               then bnd (svc_rc (Gap (Sd_ble_gap_conn_param_update (m_conn_handle m) (m_preferred_conn_params m)))) (\<lambda>e.
                    andthen (cp_report cb m e) (ret m))
               else (let m = m\<lparr>m_update_count := 0\<rparr>
                     in andthen (guarded (disconnect_on_fail (m_conn_params_config m))
                          (bnd (svc_rc (Gap (Sd_ble_gap_disconnect (m_conn_handle m)
                              BLE_HCI_CONN_INTERVAL_UNACCEPTABLE))) (\<lambda>e. cp_report cb m e)))
                        (andthen (cp_notify cb m BLE_CONN_PARAMS_EVT_FAILED) (ret m))))
      else ret m)"

definition ble_conn_params_init ::
  "ble_conn_params_init_t \<Rightarrow> conn_params \<Rightarrow> ('w world_scheme, u32 \<times> conn_params) prog" where
  "ble_conn_params_init p_init m =
     (let m = m\<lparr>m_conn_params_config := p_init, m_change_param := False\<rparr>
      in bnd (case p_conn_params p_init of
                Some p \<Rightarrow> (let m = m\<lparr>m_preferred_conn_params := p\<rparr>
                           in bnd (svc_rc (Gap (Sd_ble_gap_ppcp_set (m_preferred_conn_params m)))) (\<lambda>e. ret (e, m)))
              | None \<Rightarrow> bnd (svc (Gap Sd_ble_gap_ppcp_get)) (\<lambda>r.
                         ret (rc r, m\<lparr>m_preferred_conn_params := out_conn_params r\<rparr>))) (\<lambda>(e, m).
         verify e m
           (let m = m\<lparr>m_conn_handle := BLE_CONN_HANDLE_INVALID, m_update_count := 0\<rparr>
            in bnd (svc_rc (Lib (App_timer_create CONN_PARAMS_TIMER APP_TIMER_MODE_SINGLE_SHOT))) (\<lambda>e. ret (e, m)))))"

definition ble_conn_params_stop :: "('w world_scheme, u32) prog" where
  "ble_conn_params_stop = svc_rc (Lib (App_timer_stop CONN_PARAMS_TIMER))"

definition conn_params_negotiation :: "'w cp_callbacks \<Rightarrow> conn_params \<Rightarrow> ('w world_scheme, conn_params) prog" where
  "conn_params_negotiation cb m =
     andthen (if \<not> is_conn_params_ok m (m_current_conn_params m)
              then if m_change_param m
                   then cp_notify cb m BLE_CONN_PARAMS_EVT_FAILED
                   else (let timeout_ticks = (if m_update_count m = 0
                               then first_conn_params_update_delay (m_conn_params_config m)
                               else next_conn_params_update_delay (m_conn_params_config m))
                         in bnd (svc_rc (Lib (App_timer_start CONN_PARAMS_TIMER (unat timeout_ticks)))) (\<lambda>e.
                            cp_report cb m e))
              else cp_notify cb m BLE_CONN_PARAMS_EVT_SUCCEEDED)
       (ret (m\<lparr>m_change_param := False\<rparr>))"

definition cp_on_connect ::
  "'w cp_callbacks \<Rightarrow> conn_params \<Rightarrow> u16 \<Rightarrow> ble_gap_conn_params \<Rightarrow> ('w world_scheme, conn_params) prog" where
  "cp_on_connect cb m conn_handle params =
     (let m = m\<lparr>m_conn_handle := conn_handle, m_current_conn_params := params, m_update_count := 0\<rparr>
      in if start_on_notify_cccd_handle (m_conn_params_config m) = BLE_GATT_HANDLE_INVALID
         then conn_params_negotiation cb m else ret m)"

definition cp_on_disconnect :: "'w cp_callbacks \<Rightarrow> conn_params \<Rightarrow> ('w world_scheme, conn_params) prog" where
  "cp_on_disconnect cb m =
     (let m = m\<lparr>m_conn_handle := BLE_CONN_HANDLE_INVALID, m_update_count := 0\<rparr>
      in bnd (svc_rc (Lib (App_timer_stop CONN_PARAMS_TIMER))) (\<lambda>e.
         andthen (cp_report cb m e) (ret m)))"

definition cp_on_write ::
  "'w cp_callbacks \<Rightarrow> conn_params \<Rightarrow> ble_gatts_evt_write \<Rightarrow> ('w world_scheme, conn_params) prog" where
  "cp_on_write cb m w =
     (if w_handle w = start_on_notify_cccd_handle (m_conn_params_config m) \<and> w_len w = 2
      then if ble_srv_is_notification_enabled (w_data w)
           then conn_params_negotiation cb m
           else bnd (svc_rc (Lib (App_timer_stop CONN_PARAMS_TIMER))) (\<lambda>e.
                andthen (cp_report cb m e) (ret m))
      else ret m)"

definition on_conn_params_update ::
  "'w cp_callbacks \<Rightarrow> conn_params \<Rightarrow> ble_gap_conn_params \<Rightarrow> ('w world_scheme, conn_params) prog" where
  "on_conn_params_update cb m params = conn_params_negotiation cb (m\<lparr>m_current_conn_params := params\<rparr>)"

definition ble_conn_params_on_ble_evt ::
  "'w cp_callbacks \<Rightarrow> conn_params \<Rightarrow> ble_evt \<Rightarrow> ('w world_scheme, conn_params) prog" where
  "ble_conn_params_on_ble_evt cb m evt =
     (case evt of
        BLE_GAP_EVT_CONNECTED conn_handle _ params \<Rightarrow> cp_on_connect cb m conn_handle params
      | BLE_GAP_EVT_DISCONNECTED _ _ \<Rightarrow> cp_on_disconnect cb m
      | BLE_GATTS_EVT_WRITE _ w \<Rightarrow> cp_on_write cb m w
      | BLE_GAP_EVT_CONN_PARAM_UPDATE _ params \<Rightarrow> on_conn_params_update cb m params
      | _ \<Rightarrow> ret m)"

definition ble_conn_params_change_conn_params ::
  "'w cp_callbacks \<Rightarrow> ble_gap_conn_params \<Rightarrow> conn_params \<Rightarrow> ('w world_scheme, u32 \<times> conn_params) prog" where
  "ble_conn_params_change_conn_params cb new_params m =
     (let m = m\<lparr>m_preferred_conn_params := new_params\<rparr>
      in bnd (svc_rc (Gap (Sd_ble_gap_ppcp_set (m_preferred_conn_params m)))) (\<lambda>e.
         if e = NRF_SUCCESS
         then if \<not> is_conn_params_ok m (m_current_conn_params m)
              then (let m = m\<lparr>m_change_param := True\<rparr>
                    in bnd (svc_rc (Gap (Sd_ble_gap_conn_param_update (m_conn_handle m) (m_preferred_conn_params m)))) (\<lambda>e.
                       ret (e, m\<lparr>m_update_count := 1\<rparr>)))
              else andthen (cp_notify cb m BLE_CONN_PARAMS_EVT_SUCCEEDED) (ret (NRF_SUCCESS, m))
         else ret (e, m)))"

subsection \<open>Specification\<close>

text \<open>
  The module with its timer, which is single shot: it runs from a call that starts it to its expiry or
  to a call that stops it. It only expires when it runs. Whether it runs follows from the calls made.
\<close>

datatype cp_input = Cp_timeout | Cp_event ble_evt

definition cp_armed :: "bool \<Rightarrow> call list \<Rightarrow> bool" where
  "cp_armed = foldl (\<lambda>a c. case c of
       Lib (App_timer_start t _) \<Rightarrow> t = CONN_PARAMS_TIMER \<or> a
     | Lib (App_timer_stop t) \<Rightarrow> t \<noteq> CONN_PARAMS_TIMER \<and> a
     | _ \<Rightarrow> a)"

definition cp_timed :: "('w world_scheme, conn_params) prog \<Rightarrow> bool \<Rightarrow> ('w world_scheme, bool \<times> conn_params) prog" where
  "cp_timed f a = bnd (gets sd_trace) (\<lambda>t. bnd f (\<lambda>m. bnd (gets sd_trace) (\<lambda>t'. ret (cp_armed a (drop (length t) t'), m))))"

fun cp_step :: "'w cp_callbacks \<Rightarrow> cp_input \<Rightarrow> bool \<times> conn_params \<Rightarrow> ('w world_scheme, bool \<times> conn_params) prog" where
  "cp_step cb Cp_timeout (a, m) = (if a then cp_timed (update_timeout_handler cb m) False else ret (a, m))"
| "cp_step cb (Cp_event e) (a, m) = cp_timed (ble_conn_params_on_ble_evt cb m e) a"

primrec cp_run :: "'w cp_callbacks \<Rightarrow> cp_input list \<Rightarrow> bool \<times> conn_params \<Rightarrow> ('w world_scheme, bool \<times> conn_params) prog" where
  "cp_run cb [] st = ret st"
| "cp_run cb (i # is) st = bnd (cp_step cb i st) (cp_run cb is)"

text \<open>How often the timer expires, and the calls, while all that the peer agrees to is unacceptable.\<close>

fun cp_expiries :: "bool \<Rightarrow> cp_input list \<Rightarrow> nat" where
  "cp_expiries a [] = 0"
| "cp_expiries a (Cp_timeout # is) = (if a then Suc (cp_expiries False is) else cp_expiries False is)"
| "cp_expiries a (Cp_event e # is) = cp_expiries True is"

definition cp_request :: "conn_params \<Rightarrow> call" where
  "cp_request m = Gap (Sd_ble_gap_conn_param_update (m_conn_handle m) (m_preferred_conn_params m))"

definition cp_start_timer :: "conn_params \<Rightarrow> u8 \<Rightarrow> call" where
  "cp_start_timer m count = Lib (App_timer_start CONN_PARAMS_TIMER (unat (if count = 0
     then first_conn_params_update_delay (m_conn_params_config m) else next_conn_params_update_delay (m_conn_params_config m))))"

fun cp_calls :: "conn_params \<Rightarrow> u8 \<Rightarrow> bool \<Rightarrow> cp_input list \<Rightarrow> call list" where
  "cp_calls m count a [] = []"
| "cp_calls m count a (Cp_timeout # is) =
     (if a then cp_request m # cp_calls m (count + 1) False is else cp_calls m count False is)"
| "cp_calls m count a (Cp_event e # is) = cp_start_timer m count # cp_calls m count True is"

definition cp_unacceptable :: "conn_params \<Rightarrow> cp_input \<Rightarrow> bool" where
  "cp_unacceptable m i \<longleftrightarrow> (case i of Cp_timeout \<Rightarrow> True
     | Cp_event (BLE_GAP_EVT_CONN_PARAM_UPDATE _ p) \<Rightarrow> \<not> is_conn_params_ok m p | _ \<Rightarrow> False)"

text \<open>
  No error reaches the error callback: every call succeeds, or no callback is installed.
\<close>

definition cp_quiet :: "conn_params \<Rightarrow> 'w world_scheme \<Rightarrow> bool" where
  "cp_quiet m s \<longleftrightarrow> (\<forall>h c. rc (sd_env s h c) = NRF_SUCCESS) \<or> cp_error_handler (m_conn_params_config m) = NULL"

text \<open>What the module does when it gives up on the connection.\<close>

definition cp_give_up :: "conn_params \<Rightarrow> call list" where
  "cp_give_up m = (if disconnect_on_fail (m_conn_params_config m)
     then [Gap (Sd_ble_gap_disconnect (m_conn_handle m) BLE_HCI_CONN_INTERVAL_UNACCEPTABLE)] else [])"

definition demo_cp_init :: "u8 \<Rightarrow> ble_conn_params_init_t" where
  "demo_cp_init n = \<lparr>p_conn_params = None, first_conn_params_update_delay = 163840,
     next_conn_params_update_delay = 983040, max_conn_params_update_count = n,
     start_on_notify_cccd_handle = 0, disconnect_on_fail = True, cp_evt_handler = 0, cp_error_handler = 0\<rparr>"

definition demo_cp :: "u8 \<Rightarrow> conn_params" where
  "demo_cp n = \<lparr>m_conn_params_config = demo_cp_init n,
     m_preferred_conn_params = out_conn_params null_reply, m_update_count = 0, m_conn_handle = 7,
     m_current_conn_params = out_conn_params null_reply, m_change_param = False\<rparr>"

definition demo_bad_params :: ble_gap_conn_params where
  "demo_bad_params = \<lparr>min_conn_interval = 36, max_conn_interval = 172, slave_latency = 0, conn_sup_timeout = 600\<rparr>"

definition demo_cp_callbacks :: "'w cp_callbacks" where
  "demo_cp_callbacks = \<lparr>on_cp_evt = (\<lambda>_. ret ()), on_cp_error = (\<lambda>_. ret ())\<rparr>"

subsection \<open>Single expiries\<close>

lemma cp_quiet_report:
  "cp_quiet m s \<Longrightarrow> cp_report cb m (rc (sd_env s h c)) t = (Ret (), t)"
  by (auto simp: cp_quiet_def cp_report_def guarded_run)

lemma cp_quiet_state [simp]:
  "cp_quiet (m\<lparr>m_update_count := v\<rparr>) s = cp_quiet m s"
  "cp_quiet (m\<lparr>m_update_count := v, m_current_conn_params := q\<rparr>) s = cp_quiet m s"
  "cp_quiet (m\<lparr>m_current_conn_params := q\<rparr>) s = cp_quiet m s"
  "cp_quiet m (s\<lparr>sd_trace := t\<rparr>) = cp_quiet m s"
  by (simp_all add: cp_quiet_def)

lemma cp_request_count [simp]: "cp_request (m\<lparr>m_update_count := v\<rparr>) = cp_request m"
  by (simp add: cp_request_def)

lemma update_timeout_retry:
  assumes "m_conn_handle m \<noteq> BLE_CONN_HANDLE_INVALID" and "cp_quiet m s"
    and "m_update_count m + 1 \<le> max_conn_params_update_count (m_conn_params_config m)"
  shows "update_timeout_handler cb m s =
     (Ret (m\<lparr>m_update_count := m_update_count m + 1\<rparr>), s\<lparr>sd_trace := sd_trace s @ [cp_request m]\<rparr>)"
proof -
  have rep: "cp_report cb (m\<lparr>m_update_count := m_update_count m + 1\<rparr>) (rc (sd_env s h c)) t = (Ret (), t)" for h c t
    by (rule cp_quiet_report) (simp add: assms(2))
  show ?thesis
    using assms by (simp add: update_timeout_handler_def Let_def bnd_run andthen_run cp_request_def rep)
qed

lemma cp_notify_count [simp]: "cp_notify cb (m\<lparr>m_update_count := v\<rparr>) = cp_notify cb m"
  by (simp add: cp_notify_def fun_eq_iff)

lemma update_timeout_give_up:
  assumes "m_conn_handle m \<noteq> BLE_CONN_HANDLE_INVALID" and "cp_quiet m s"
    and "\<not> m_update_count m + 1 \<le> max_conn_params_update_count (m_conn_params_config m)"
  shows "update_timeout_handler cb m s =
     andthen (cp_notify cb m BLE_CONN_PARAMS_EVT_FAILED) (ret (m\<lparr>m_update_count := 0\<rparr>))
       (s\<lparr>sd_trace := sd_trace s @ cp_give_up m\<rparr>)"
proof -
  have rep: "cp_report cb (m\<lparr>m_update_count := 0\<rparr>) (rc (sd_env s h c)) t = (Ret (), t)" for h c t
    by (rule cp_quiet_report) (simp add: assms(2))
  show ?thesis
    using assms by (simp add: update_timeout_handler_def Let_def bnd_run andthen_run guarded_run cp_give_up_def rep)
qed

lemma unacceptable_event:
  assumes "cp_unacceptable m (Cp_event e)" and "cp_quiet m s" and "\<not> m_change_param m"
  obtains q where "ble_conn_params_on_ble_evt cb m e s =
     (Ret (m\<lparr>m_current_conn_params := q\<rparr>), s\<lparr>sd_trace := sd_trace s @ [cp_start_timer m (m_update_count m)]\<rparr>)"
proof -
  obtain h p where e: "e = BLE_GAP_EVT_CONN_PARAM_UPDATE h p" and bad: "\<not> is_conn_params_ok m p"
    using assms(1) by (auto simp: cp_unacceptable_def split: ble_evt.splits)
  let ?m = "m\<lparr>m_current_conn_params := p\<rparr>"
  have rep: "cp_report cb ?m (rc (sd_env s h c)) t = (Ret (), t)" for h c t
    by (rule cp_quiet_report) (simp add: assms(2))
  have "is_conn_params_ok ?m p = is_conn_params_ok m p" by (simp add: is_conn_params_ok_def)
  moreover have "?m\<lparr>m_change_param := False\<rparr> = ?m" using assms(3) by (cases m) simp
  ultimately have "ble_conn_params_on_ble_evt cb m e s = (Ret ?m, s\<lparr>sd_trace := sd_trace s @ [cp_start_timer m (m_update_count m)]\<rparr>)"
    using bad assms(3) by (simp add: ble_conn_params_on_ble_evt_def e on_conn_params_update_def conn_params_negotiation_def Let_def
        bnd_run andthen_run rep cp_start_timer_def)
  then show ?thesis using that by blast
qed

lemma cp_timed_run:
  "f s = (Ret m, s\<lparr>sd_trace := sd_trace s @ cs\<rparr>) \<Longrightarrow> cp_timed f a s = (Ret (cp_armed a cs, m), s\<lparr>sd_trace := sd_trace s @ cs\<rparr>)"
  by (simp add: cp_timed_def bnd_run)

lemma cp_armed_calls [simp]:
  "cp_armed a [] = a" "cp_armed a [cp_start_timer m c] = True" "cp_armed a (cp_request m # cs) = cp_armed a cs"
  by (simp_all add: cp_armed_def cp_start_timer_def cp_request_def)

lemma cp_start_timer_frame [simp]:
  "cp_start_timer (m\<lparr>m_update_count := v\<rparr>) = cp_start_timer m" "cp_start_timer (m\<lparr>m_current_conn_params := q\<rparr>) = cp_start_timer m"
  by (simp_all add: cp_start_timer_def fun_eq_iff)

lemma cp_request_frame [simp]: "cp_request (m\<lparr>m_current_conn_params := q\<rparr>) = cp_request m"
  by (simp add: cp_request_def)

lemma cp_calls_frame [simp]:
  "cp_calls (m\<lparr>m_update_count := v\<rparr>) c a is = cp_calls m c a is" "cp_calls (m\<lparr>m_current_conn_params := q\<rparr>) c a is = cp_calls m c a is"
  by (induction m c a "is" rule: cp_calls.induct) simp_all

lemma cp_unacceptable_frame [simp]:
  "cp_unacceptable (m\<lparr>m_update_count := v\<rparr>) = cp_unacceptable m" "cp_unacceptable (m\<lparr>m_current_conn_params := q\<rparr>) = cp_unacceptable m"
  by (simp_all add: cp_unacceptable_def is_conn_params_ok_def fun_eq_iff split: cp_input.split ble_evt.split)

text \<open>As long as the 8 bit counter does not pass the limit, every expiry repeats the request.\<close>

definition runs_now :: "bool \<Rightarrow> cp_input list \<Rightarrow> bool" where
  "runs_now a is = (if is = [] then a else last is \<noteq> Cp_timeout)"

lemma cp_run_retry:
  assumes "m_conn_handle m \<noteq> BLE_CONN_HANDLE_INVALID" and "cp_quiet m s" and "\<not> m_change_param m" and "list_all (cp_unacceptable m) is"
    and "\<And>i. i < cp_expiries a is \<Longrightarrow> m_update_count m + of_nat i + 1 \<le> max_conn_params_update_count (m_conn_params_config m)"
  shows "\<exists>q. cp_run cb is (a, m) s =
     (Ret (runs_now a is, m\<lparr>m_update_count := m_update_count m + of_nat (cp_expiries a is), m_current_conn_params := q\<rparr>),
      s\<lparr>sd_trace := sd_trace s @ cp_calls m (m_update_count m) a is\<rparr>)"
  using assms
proof (induction "is" arbitrary: a m s)
  case Nil
  show ?case by (rule exI [of _ "m_current_conn_params m"]) (simp add: runs_now_def)
next
  case (Cons i "is")
  show ?case
  proof (cases "i = Cp_timeout \<and> \<not> a")
    case True
    then show ?thesis using Cons.IH [of m s False] Cons.prems by (auto simp: runs_now_def bnd_run)
  next
    case False
    obtain c m1 a1 where step: "cp_step cb i (a, m) s = (Ret (a1, m1), s\<lparr>sd_trace := sd_trace s @ [c]\<rparr>)"
      and m1: "m_conn_handle m1 = m_conn_handle m" "m_change_param m1 = m_change_param m" "cp_quiet m1 s" "list_all (cp_unacceptable m1) is"
        "m_conn_params_config m1 = m_conn_params_config m"
      and cnt: "m_update_count m1 + of_nat (cp_expiries a1 is) = m_update_count m + of_nat (cp_expiries a (i # is))"
        "\<And>n. n < cp_expiries a1 is \<Longrightarrow> m_update_count m1 + of_nat n + 1 \<le> max_conn_params_update_count (m_conn_params_config m)"
      and calls: "cp_calls m (m_update_count m) a (i # is) = c # cp_calls m1 (m_update_count m1) a1 is"
      and same: "\<And>v q. m1\<lparr>m_update_count := v, m_current_conn_params := q\<rparr> = m\<lparr>m_update_count := v, m_current_conn_params := q\<rparr>"
      and a1: "a1 = (i \<noteq> Cp_timeout)"
    proof (cases i)
      case Cp_timeout
      then have a: a using False by simp
      let ?m = "m\<lparr>m_update_count := m_update_count m + 1\<rparr>"
      have "update_timeout_handler cb m s = (Ret ?m, s\<lparr>sd_trace := sd_trace s @ [cp_request m]\<rparr>)"
        using Cons.prems(5) [of 0] Cp_timeout a by (intro update_timeout_retry Cons.prems) simp
      with cp_timed_run [of "update_timeout_handler cb m" s ?m "[cp_request m]" False] have "cp_step cb i (a, m) s = (Ret (False, ?m), s\<lparr>sd_trace := sd_trace s @ [cp_request m]\<rparr>)"
        using Cp_timeout a by simp
      then show ?thesis
        by (rule that) (use Cp_timeout a Cons.prems(2-4) Cons.prems(5) [of "Suc _"] in \<open>simp_all add: ac_simps\<close>)
    next
      case (Cp_event e)
      then have "cp_unacceptable m (Cp_event e)" using Cons.prems(4) by simp
      then obtain q where "ble_conn_params_on_ble_evt cb m e s =
         (Ret (m\<lparr>m_current_conn_params := q\<rparr>), s\<lparr>sd_trace := sd_trace s @ [cp_start_timer m (m_update_count m)]\<rparr>)"
        using unacceptable_event Cons.prems(2,3) by metis
      with cp_timed_run [of "ble_conn_params_on_ble_evt cb m e" s "m\<lparr>m_current_conn_params := q\<rparr>" "[cp_start_timer m (m_update_count m)]" a] have "cp_step cb i (a, m) s =
         (Ret (True, m\<lparr>m_current_conn_params := q\<rparr>), s\<lparr>sd_trace := sd_trace s @ [cp_start_timer m (m_update_count m)]\<rparr>)"
        using Cp_event by simp
      then show ?thesis
        by (rule that) (use Cp_event Cons.prems(2-5) in \<open>simp_all add: ac_simps\<close>)
    qed
    obtain q where "cp_run cb is (a1, m1) (s\<lparr>sd_trace := sd_trace s @ [c]\<rparr>) =
        (Ret (runs_now a1 is, m1\<lparr>m_update_count := m_update_count m1 + of_nat (cp_expiries a1 is), m_current_conn_params := q\<rparr>),
         s\<lparr>sd_trace := (sd_trace s @ [c]) @ cp_calls m1 (m_update_count m1) a1 is\<rparr>)"
      using Cons.IH [of m1 "s\<lparr>sd_trace := sd_trace s @ [c]\<rparr>" a1] m1 cnt(2) Cons.prems(1,3) by auto
    then show ?thesis
      unfolding cnt(1) same calls
      using step a1 by (intro exI [of _ q]) (simp add: bnd_run runs_now_def)
  qed
qed

subsection \<open>Properties\<close>

text \<open>
  C29: on a connection whose parameters stay unacceptable, the module asks for an update exactly \<open>max\<close>
  times and then gives up. The negotiation begins with the connection, no other change of parameters is under
  way, the timer is single shot and starts when it is asked to, and no call fails, or no error handler is set
  (\<open>cp_quiet\<close>). Then every new connection and every unacceptable update of the peer starts the timer, with
  the first or the next delay; every expiry sends one request, up to \<open>max\<close> of them; and when the timer runs
  and has expired \<open>max\<close> times, its next expiry sends none, but resets the counter, disconnects if so configured
  and reports failure. The updates and expiries may come in any order, an expiry only while the timer runs;
  \<open>max\<close> is less than 255.
\<close>

theorem conn_params_attempts:
  assumes "conn \<noteq> BLE_CONN_HANDLE_INVALID" and "start_on_notify_cccd_handle (m_conn_params_config m) = BLE_GATT_HANDLE_INVALID"
    and "\<not> is_conn_params_ok m params" and "\<not> m_change_param m" and "cp_quiet m s"
    and "list_all (cp_unacceptable m) inputs" and "cp_expiries True inputs = unat (max_conn_params_update_count (m_conn_params_config m))"
    and "max_conn_params_update_count (m_conn_params_config m) < 255"
  defines "m0 \<equiv> m\<lparr>m_conn_handle := conn, m_update_count := 0\<rparr>"
  shows "\<exists>m' s'. cp_run cb (Cp_event (BLE_GAP_EVT_CONNECTED conn role params) # inputs) (a, m) s = (Ret (runs_now True inputs, m'), s')
     \<and> s' = s\<lparr>sd_trace := sd_trace s @ cp_start_timer m 0 # cp_calls m0 0 True inputs\<rparr>
     \<and> count_list (sd_trace s') (cp_request m0) = count_list (sd_trace s) (cp_request m0) + unat (max_conn_params_update_count (m_conn_params_config m))
     \<and> update_timeout_handler cb m' s' =
          andthen (cp_notify cb m BLE_CONN_PARAMS_EVT_FAILED) (ret (m'\<lparr>m_update_count := 0\<rparr>)) (s'\<lparr>sd_trace := sd_trace s' @ cp_give_up m0\<rparr>)"
proof -
  let ?limit = "max_conn_params_update_count (m_conn_params_config m)" and ?m = "m0\<lparr>m_current_conn_params := params\<rparr>"
  let ?s = "s\<lparr>sd_trace := sd_trace s @ [cp_start_timer m 0]\<rparr>"
  have lim: "unat ?limit < 255" using assms(8) by (simp add: word_less_nat_alt)
  have le: "(of_nat i :: u8) + 1 \<le> ?limit" if "i < unat ?limit" for i
  proof -
    have "unat (of_nat (Suc i) :: u8) = Suc i"
      using that lim by (simp add: unat_of_nat take_bit_nat_eq_self del: of_nat_Suc)
    then show ?thesis using that by (simp add: word_le_nat_alt ac_simps)
  qed
  have quiet: "cp_quiet ?m t = cp_quiet m t" for t :: "'a world_scheme" by (simp add: cp_quiet_def m0_def)
  have rep: "cp_report cb ?m (rc (sd_env s h c)) t = (Ret (), t)" for h c t
    by (rule cp_quiet_report) (simp only: quiet assms(5))
  have same: "?m\<lparr>m_change_param := False\<rparr> = ?m" using assms(4) by (cases m) (simp add: m0_def)
  have bad: "\<not> is_conn_params_ok ?m params" "cp_unacceptable ?m = cp_unacceptable m"
    using assms(3) by (simp_all add: is_conn_params_ok_def cp_unacceptable_def fun_eq_iff m0_def split: cp_input.split ble_evt.split)
  have frame: "m_conn_params_config ?m = m_conn_params_config m" "m_conn_handle ?m = conn" "m_change_param ?m = m_change_param m"
    "m_update_count ?m = 0" "m_current_conn_params ?m = params" "cp_start_timer ?m 0 = cp_start_timer m 0"
    by (simp_all add: m0_def cp_start_timer_def)
  have "ble_conn_params_on_ble_evt cb m (BLE_GAP_EVT_CONNECTED conn role params) s = conn_params_negotiation cb ?m s"
    using assms(2) by (cases m) (simp add: ble_conn_params_on_ble_evt_def cp_on_connect_def Let_def m0_def)
  also have "\<dots> = (Ret ?m, ?s)"
    unfolding conn_params_negotiation_def frame same using bad(1) assms(4)
    by (simp add: Let_def bnd_run andthen_run rep cp_start_timer_def)
  finally have "cp_step cb (Cp_event (BLE_GAP_EVT_CONNECTED conn role params)) (a, m) s = (Ret (True, ?m), ?s)"
    using cp_timed_run [of "ble_conn_params_on_ble_evt cb m (BLE_GAP_EVT_CONNECTED conn role params)" s ?m "[cp_start_timer m 0]" a] by simp
  moreover obtain q where "cp_run cb inputs (True, ?m) ?s =
      (Ret (runs_now True inputs, ?m\<lparr>m_update_count := 0 + of_nat (cp_expiries True inputs), m_current_conn_params := q\<rparr>),
       ?s\<lparr>sd_trace := sd_trace ?s @ cp_calls ?m 0 True inputs\<rparr>)"
    using cp_run_retry [of ?m ?s inputs True cb] le assms(1,4,6) frame bad(2) quiet assms(5,7) by auto
  moreover define m' where "m' = m0\<lparr>m_update_count := ?limit, m_current_conn_params := q\<rparr>"
  moreover define s' where "s' = s\<lparr>sd_trace := sd_trace s @ cp_start_timer m 0 # cp_calls m0 0 True inputs\<rparr>"
  ultimately have run: "cp_run cb (Cp_event (BLE_GAP_EVT_CONNECTED conn role params) # inputs) (a, m) s = (Ret (runs_now True inputs, m'), s')"
    using assms(7) by (simp add: bnd_run del: cp_step.simps)
  have "count_list (cp_calls m0 c b is) (cp_request m0) = cp_expiries b is" for c b "is"
    by (induction m0 c b "is" rule: cp_calls.induct) (simp_all add: cp_start_timer_def cp_request_def)
  then have "count_list (sd_trace s') (cp_request m0) = count_list (sd_trace s) (cp_request m0) + unat ?limit"
    using assms(7) by (simp add: s'_def cp_start_timer_def cp_request_def)
  moreover have "unat (?limit + 1) = Suc (unat ?limit)"
    using lim by (simp add: unat_word_ariths)
  then have "\<not> ?limit + 1 \<le> ?limit" by (simp add: word_le_nat_alt)
  then have "update_timeout_handler cb m' s' =
     andthen (cp_notify cb m' BLE_CONN_PARAMS_EVT_FAILED) (ret (m'\<lparr>m_update_count := 0\<rparr>)) (s'\<lparr>sd_trace := sd_trace s' @ cp_give_up m'\<rparr>)"
    using assms(1,5) by (intro update_timeout_give_up) (simp_all add: m'_def m0_def s'_def cp_quiet_def)
  moreover have "cp_notify cb m' = cp_notify cb m" "cp_give_up m' = cp_give_up m0"
    by (simp_all add: m'_def m0_def cp_notify_def cp_give_up_def fun_eq_iff)
  ultimately show ?thesis using run s'_def by (intro exI [of _ m'] exI [of _ s']) simp
qed

theorem conn_params_attempts_witness:
  "\<exists>m' s'. cp_run demo_cp_callbacks [Cp_event (BLE_GAP_EVT_CONNECTED 7 BLE_GAP_ROLE_PERIPH demo_bad_params), Cp_timeout,
        Cp_event (BLE_GAP_EVT_CONN_PARAM_UPDATE 7 demo_bad_params), Cp_timeout, Cp_event (BLE_GAP_EVT_CONN_PARAM_UPDATE 7 demo_bad_params)]
        (False, demo_cp 2) demo_world = (Ret (True, m'), s')
     \<and> sd_trace s' = [Lib (App_timer_start 1 163840), cp_request (demo_cp 2), Lib (App_timer_start 1 983040), cp_request (demo_cp 2),
         Lib (App_timer_start 1 983040)]
     \<and> update_timeout_handler demo_cp_callbacks m' s' = (Ret (m'\<lparr>m_update_count := 0\<rparr>), s'\<lparr>sd_trace := sd_trace s' @
         [Gap (Sd_ble_gap_disconnect 7 BLE_HCI_CONN_INTERVAL_UNACCEPTABLE)]\<rparr>)"
proof -
  let ?is = "[Cp_timeout, Cp_event (BLE_GAP_EVT_CONN_PARAM_UPDATE 7 demo_bad_params), Cp_timeout, Cp_event (BLE_GAP_EVT_CONN_PARAM_UPDATE 7 demo_bad_params)]"
  let ?m = "(demo_cp 2)\<lparr>m_conn_handle := 7, m_update_count := 0\<rparr>"
  have m: "?m = demo_cp 2" by (simp add: demo_cp_def)
  have bad: "\<not> is_conn_params_ok (demo_cp 2) demo_bad_params"
    by (simp add: is_conn_params_ok_def demo_cp_def demo_bad_params_def null_reply_def)
  have "(7 :: u16) \<noteq> BLE_CONN_HANDLE_INVALID" "start_on_notify_cccd_handle (m_conn_params_config (demo_cp 2)) = BLE_GATT_HANDLE_INVALID"
    "\<not> m_change_param (demo_cp 2)" "cp_quiet (demo_cp 2) demo_world" "list_all (cp_unacceptable (demo_cp 2)) ?is"
    "cp_expiries True ?is = unat (max_conn_params_update_count (m_conn_params_config (demo_cp 2)))"
    "max_conn_params_update_count (m_conn_params_config (demo_cp 2)) < 255"
    using bad by (simp_all add: demo_cp_def demo_cp_init_def cp_quiet_def cp_unacceptable_def nrf_codes)
  from conn_params_attempts [OF this(1,2) bad this(3-7), of demo_cp_callbacks BLE_GAP_ROLE_PERIPH False, unfolded m]
  obtain m' s' where run: "cp_run demo_cp_callbacks (Cp_event (BLE_GAP_EVT_CONNECTED 7 BLE_GAP_ROLE_PERIPH demo_bad_params) # ?is)
        (False, demo_cp 2) demo_world = (Ret (runs_now True ?is, m'), s')"
    and s': "s' = demo_world\<lparr>sd_trace := sd_trace demo_world @ cp_start_timer (demo_cp 2) 0 # cp_calls (demo_cp 2) 0 True ?is\<rparr>"
    and up: "update_timeout_handler demo_cp_callbacks m' s' =
        andthen (cp_notify demo_cp_callbacks (demo_cp 2) BLE_CONN_PARAMS_EVT_FAILED) (ret (m'\<lparr>m_update_count := 0\<rparr>))
          (s'\<lparr>sd_trace := sd_trace s' @ cp_give_up (demo_cp 2)\<rparr>)" by blast
  have start: "cp_start_timer (demo_cp 2) c = Lib (App_timer_start 1 (if c = 0 then 163840 else 983040))" for c
    by (simp add: cp_start_timer_def demo_cp_def demo_cp_init_def CONN_PARAMS_TIMER_def)
  have up': "cp_give_up (demo_cp 2) = [Gap (Sd_ble_gap_disconnect 7 BLE_HCI_CONN_INTERVAL_UNACCEPTABLE)]"
    "cp_notify demo_cp_callbacks (demo_cp 2) BLE_CONN_PARAMS_EVT_FAILED t = (Ret (), t)" for t :: "unit world_scheme"
    by (simp_all add: cp_give_up_def cp_notify_def demo_cp_def demo_cp_init_def guarded_run)
  have "sd_trace s' = [Lib (App_timer_start 1 163840), cp_request (demo_cp 2), Lib (App_timer_start 1 983040), cp_request (demo_cp 2),
         Lib (App_timer_start 1 983040)]"
    unfolding s' by (simp add: start demo_world_def)
  moreover have "runs_now True ?is" by (simp add: runs_now_def)
  ultimately show ?thesis
    using run up unfolding up' by (intro exI [of _ m'] exI [of _ s']) (simp only: andthen_run up' ret_run simp_thms prod.case outcome.case)
qed

text \<open>
  With the limit 255 the 8 bit counter wraps before it passes the limit: the update request
  is repeated at every expiry, for ever, and the module neither disconnects nor reports failure.
\<close>

lemma conn_params_never_gives_up:
  assumes "m_conn_handle m \<noteq> BLE_CONN_HANDLE_INVALID" and "cp_quiet m s" and "\<not> m_change_param m" and "list_all (cp_unacceptable m) inputs"
    and "max_conn_params_update_count (m_conn_params_config m) = 255"
  shows "\<exists>m'. cp_run cb inputs (a, m) s = (Ret (runs_now a inputs, m'), s\<lparr>sd_trace := sd_trace s @ cp_calls m (m_update_count m) a inputs\<rparr>)"
proof -
  have "(x :: u8) \<le> 255" for x
    using unsigned_less [of x, where ?'a = nat] by (simp add: word_le_nat_alt)
  then show ?thesis
    using cp_run_retry [OF assms(1-4), of a cb] assms(5) by auto
qed

end
