(* ===== verification/MappedFlags.thy ===== *)
theory MappedFlags
  imports Prelude
begin

text \<open>
  \<^verbatim>\<open>components/libraries/util/sdk_mapped_flags.c\<close>: bit maps whose positions are named by the
  keys of an array of eight 16-bit keys. A key stands for the first position that holds it.
  A pointer that the code compares with \<^verbatim>\<open>NULL\<close> is an option.
\<close>

unbundle bit_operations_syntax

subsection \<open>The program\<close>

abbreviation (input) SDK_MAPPED_FLAGS_N_KEYS :: nat where
  "SDK_MAPPED_FLAGS_N_KEYS \<equiv> 8"

definition SDK_MAPPED_FLAGS_INVALID_INDEX :: u16 where
  [nrf_codes]: "SDK_MAPPED_FLAGS_INVALID_INDEX = 0xFFFF"

definition sdk_mapped_flags_set_by_index :: "u8 \<Rightarrow> nat \<Rightarrow> u8" where
  "sdk_mapped_flags_set_by_index flags index = flags OR push_bit index 1"

definition sdk_mapped_flags_clear_by_index :: "u8 \<Rightarrow> nat \<Rightarrow> u8" where
  "sdk_mapped_flags_clear_by_index flags index = flags AND NOT (push_bit index 1)"

definition sdk_mapped_flags_get_by_index :: "u8 \<Rightarrow> nat \<Rightarrow> bool" where
  "sdk_mapped_flags_get_by_index flags index \<longleftrightarrow> (flags AND push_bit index 1) \<noteq> 0"

definition sdk_mapped_flags_first_key_index_get :: "u8 \<Rightarrow> u16" where
  "sdk_mapped_flags_first_key_index_get flags =
     (case find (sdk_mapped_flags_get_by_index flags) [0..<SDK_MAPPED_FLAGS_N_KEYS] of
        Some i \<Rightarrow> of_nat i
      | None \<Rightarrow> SDK_MAPPED_FLAGS_INVALID_INDEX)"

text \<open>The search loop over the key array, shared by the functions below.\<close>

definition key_index :: "u16 list \<Rightarrow> u16 \<Rightarrow> nat option" where
  "key_index keys key = find (\<lambda>i. keys ! i = key) [0..<SDK_MAPPED_FLAGS_N_KEYS]"

definition sdk_mapped_flags_bulk_update_by_key ::
  "u16 list option \<Rightarrow> u8 list option \<Rightarrow> nat \<Rightarrow> u16 \<Rightarrow> bool \<Rightarrow> u8 list option" where
  "sdk_mapped_flags_bulk_update_by_key p_keys p_flags n_flag_collections key value =
     (case (p_keys, p_flags) of
        (Some keys, Some flags) \<Rightarrow>
          if n_flag_collections > 0
          then (case key_index keys key of
                  None \<Rightarrow> Some flags
                | Some i \<Rightarrow>
                    Some (map (\<lambda>f. if value then sdk_mapped_flags_set_by_index f i
                                    else sdk_mapped_flags_clear_by_index f i)
                            (take n_flag_collections flags)
                          @ drop n_flag_collections flags))
          else Some flags
      | _ \<Rightarrow> p_flags)"

definition sdk_mapped_flags_update_by_key ::
  "u16 list option \<Rightarrow> u8 \<Rightarrow> u16 \<Rightarrow> bool \<Rightarrow> u8" where
  "sdk_mapped_flags_update_by_key p_keys flags key value =
     hd (the (sdk_mapped_flags_bulk_update_by_key p_keys (Some [flags]) 1 key value))"

definition sdk_mapped_flags_get_by_key :: "u16 list option \<Rightarrow> u8 \<Rightarrow> u16 \<Rightarrow> bool" where
  "sdk_mapped_flags_get_by_key p_keys flags key =
     (case p_keys of
        None \<Rightarrow> False
      | Some keys \<Rightarrow>
          (case key_index keys key of
             None \<Rightarrow> False
           | Some i \<Rightarrow> sdk_mapped_flags_get_by_index flags i))"

definition sdk_mapped_flags_key_list_get :: "u16 list option \<Rightarrow> u8 \<Rightarrow> u16 list" where
  "sdk_mapped_flags_key_list_get p_keys flags =
     (case p_keys of
        None \<Rightarrow> []
      | Some keys \<Rightarrow>
          foldl (\<lambda>key_list i. if sdk_mapped_flags_get_by_index flags i then key_list @ [keys ! i] else key_list)
            [] [0..<SDK_MAPPED_FLAGS_N_KEYS])"

definition sdk_mapped_flags_n_flags_set :: "u8 \<Rightarrow> u32" where
  "sdk_mapped_flags_n_flags_set flags =
     foldl (\<lambda>n i. if sdk_mapped_flags_get_by_index flags i then n + 1 else n) 0
       [0..<SDK_MAPPED_FLAGS_N_KEYS]"

subsection \<open>Flags by position\<close>

lemma get_by_index_bit [simp]: "sdk_mapped_flags_get_by_index flags i = bit flags i"
proof -
  have "(flags AND push_bit i 1) \<noteq> 0 \<longleftrightarrow> (\<exists>n. bit (flags AND push_bit i 1) n)"
    by (metis bit_0_eq bit_eqI bot_apply bot_bool_def)
  also have "\<dots> \<longleftrightarrow> bit flags i"
    by (auto simp: bit_and_iff bit_exp_iff possible_bit_word dest: bit_imp_le_length intro!: exI [of _ i])
  finally show ?thesis
    by (simp add: sdk_mapped_flags_get_by_index_def)
qed

lemma bit_set_by_index [simp]:
  "i < 8 \<Longrightarrow> bit (sdk_mapped_flags_set_by_index flags i) j \<longleftrightarrow> j = i \<or> bit flags j"
  by (auto simp: sdk_mapped_flags_set_by_index_def bit_or_iff bit_exp_iff possible_bit_word)

lemma bit_clear_by_index [simp]:
  "i < 8 \<Longrightarrow> bit (sdk_mapped_flags_clear_by_index flags i) j \<longleftrightarrow> j \<noteq> i \<and> bit flags j"
  by (auto simp: sdk_mapped_flags_clear_by_index_def bit_and_iff bit_not_iff bit_exp_iff possible_bit_word
      dest: bit_imp_le_length)

lemma find_upt_Some:
  "find P [0..<n] = Some i \<longleftrightarrow> i < n \<and> P i \<and> (\<forall>j < i. \<not> P j)"
  by (auto simp: find_Some_iff)

lemma find_upt_None: "find P [0..<n] = None \<longleftrightarrow> (\<forall>i < n. \<not> P i)"
  by (auto simp: find_None_iff)

lemma key_index_Some:
  "key_index keys key = Some i \<longleftrightarrow> i < 8 \<and> keys ! i = key \<and> (\<forall>j < i. keys ! j \<noteq> key)"
  unfolding key_index_def by (rule find_upt_Some)

lemma key_index_None: "key_index keys key = None \<longleftrightarrow> (\<forall>i < 8. keys ! i \<noteq> key)"
  unfolding key_index_def by (rule find_upt_None)

lemma key_index_less: "key_index keys key = Some i \<Longrightarrow> i < 8"
  by (simp add: key_index_Some)

lemma key_index_inj: "key_index keys key = Some i \<Longrightarrow> key_index keys key' = Some i \<Longrightarrow> key = key'"
  by (auto simp: key_index_Some)

lemma first_key_index:
  "sdk_mapped_flags_first_key_index_get flags =
     (case find (bit flags) [0..<8] of Some i \<Rightarrow> of_nat i | None \<Rightarrow> SDK_MAPPED_FLAGS_INVALID_INDEX)"
proof -
  have "sdk_mapped_flags_get_by_index flags = bit flags" by (rule ext) simp
  then show ?thesis
    by (simp only: sdk_mapped_flags_first_key_index_get_def)
qed

lemma update_by_key_unfold:
  "sdk_mapped_flags_update_by_key (Some keys) flags key value =
     (case key_index keys key of
        None \<Rightarrow> flags
      | Some i \<Rightarrow> if value then sdk_mapped_flags_set_by_index flags i
                 else sdk_mapped_flags_clear_by_index flags i)"
  by (simp add: sdk_mapped_flags_update_by_key_def sdk_mapped_flags_bulk_update_by_key_def split: option.splits)

lemma bit_update_by_key:
  "bit (sdk_mapped_flags_update_by_key (Some keys) flags key value) j \<longleftrightarrow>
     (if key_index keys key = Some j then value else bit flags j)"
  by (cases "key_index keys key") (auto simp: update_by_key_unfold dest: key_index_less)

lemma key_list_get_filter:
  "sdk_mapped_flags_key_list_get (Some keys) flags = map (nth keys) (filter (bit flags) [0..<8])"
proof -
  have "foldl (\<lambda>l i. if sdk_mapped_flags_get_by_index flags i then l @ [keys ! i] else l) a xs
      = a @ map (nth keys) (filter (bit flags) xs)" for a xs
    by (induction xs arbitrary: a) simp_all
  then show ?thesis
    by (simp add: sdk_mapped_flags_key_list_get_def)
qed

lemma n_flags_set_count:
  "sdk_mapped_flags_n_flags_set flags = of_nat (length (filter (bit flags) [0..<8]))"
proof -
  have "foldl (\<lambda>n i. if sdk_mapped_flags_get_by_index flags i then n + 1 else n) a xs
      = a + of_nat (length (filter (bit flags) xs))" for a :: u32 and xs
    by (induction xs arbitrary: a) simp_all
  then show ?thesis
    by (simp only: sdk_mapped_flags_n_flags_set_def add_0)
qed

subsection \<open>Flags by key: the interface of the module\<close>

text \<open>
  What the clients rely on: a flag written under a known key is read back under that key and
  no other key is affected; a write under an unknown key does nothing.
\<close>

locale keyed_flags =
  fixes known :: "'ks \<Rightarrow> 'k \<Rightarrow> bool"
    and upd :: "'ks \<Rightarrow> 'f \<Rightarrow> 'k \<Rightarrow> bool \<Rightarrow> 'f"
    and get :: "'ks \<Rightarrow> 'f \<Rightarrow> 'k \<Rightarrow> bool"
  assumes get_upd_same: "known ks k \<Longrightarrow> get ks (upd ks f k v) k = v"
    and get_upd_other: "k \<noteq> k' \<Longrightarrow> get ks (upd ks f k v) k' = get ks f k'"
    and upd_unknown: "\<not> known ks k \<Longrightarrow> upd ks f k v = f"
    and get_unknown: "\<not> known ks k \<Longrightarrow> \<not> get ks f k"
begin

lemma get_upd: "get ks (upd ks f k v) k' = (if k' = k \<and> known ks k then v else get ks f k')"
  by (metis get_upd_other get_upd_same upd_unknown)

text \<open>After a sequence of writes a flag has the value written last, if any.\<close>

lemma get_upds:
  "get ks (foldl (\<lambda>f (k, v). upd ks f k v) f ups) k' =
     (case map_of (rev ups) k' of
        Some v \<Rightarrow> if known ks k' then v else get ks f k'
      | None \<Rightarrow> get ks f k')"
proof (induction ups arbitrary: f)
  case Nil
  then show ?case by simp
next
  case (Cons u ups)
  then show ?case
    by (cases u) (auto simp: get_upd map_add_def split: option.splits)
qed

end

interpretation mf: keyed_flags "\<lambda>keys key. key_index keys key \<noteq> None"
  "\<lambda>keys. sdk_mapped_flags_update_by_key (Some keys)" "\<lambda>keys. sdk_mapped_flags_get_by_key (Some keys)"
proof
  fix keys :: "u16 list" and k k' f v
  show "key_index keys k \<noteq> None \<Longrightarrow>
      sdk_mapped_flags_get_by_key (Some keys) (sdk_mapped_flags_update_by_key (Some keys) f k v) k = v"
    by (auto simp: sdk_mapped_flags_get_by_key_def bit_update_by_key)
  show "k \<noteq> k' \<Longrightarrow>
      sdk_mapped_flags_get_by_key (Some keys) (sdk_mapped_flags_update_by_key (Some keys) f k v) k'
      = sdk_mapped_flags_get_by_key (Some keys) f k'"
    by (auto simp: sdk_mapped_flags_get_by_key_def bit_update_by_key dest: key_index_inj split: option.splits)
  show "\<not> key_index keys k \<noteq> None \<Longrightarrow> sdk_mapped_flags_update_by_key (Some keys) f k v = f"
    by (simp add: update_by_key_unfold)
  show "\<not> key_index keys k \<noteq> None \<Longrightarrow> \<not> sdk_mapped_flags_get_by_key (Some keys) f k"
    by (simp add: sdk_mapped_flags_get_by_key_def)
qed

end
