(* ===== verification/ConnState.thy ===== *)
theory ConnState
  imports SoftDevice MappedFlags
begin

text \<open>
  \<^verbatim>\<open>components/ble/common/ble_conn_state.c\<close>: the table of connections. The union of the named
  flag collections and \<^verbatim>\<open>flag_array\<close> is the array; the named collections are its first five
  elements (\<open>VALID\<close>, \<open>CONNECTED\<close>, \<open>CENTRAL\<close>, \<open>ENCRYPTED\<close>, \<open>MITM\<close>), the 24 user
  collections follow.

  The module is meant to be a finite map from connection handles to connection data
  (\<open>conn_abs\<close>). It is one as long as the events are those of a BLE stack: a new
  connection does not carry the handle of a live one, and the other events carry the handle
  of a live one (\<open>conn_evt_ok\<close>).
\<close>

unbundle bit_operations_syntax

subsection \<open>The program\<close>

abbreviation (input) VALID :: nat where "VALID \<equiv> 0"
abbreviation (input) CONNECTED :: nat where "CONNECTED \<equiv> 1"
abbreviation (input) CENTRAL :: nat where "CENTRAL \<equiv> 2"
abbreviation (input) ENCRYPTED :: nat where "ENCRYPTED \<equiv> 3"
abbreviation (input) MITM :: nat where "MITM \<equiv> 4"
abbreviation (input) USER :: nat where "USER \<equiv> 5"
abbreviation (input) BLE_CONN_STATE_N_USER_FLAGS :: nat where "BLE_CONN_STATE_N_USER_FLAGS \<equiv> 24"
abbreviation (input) BLE_CONN_STATE_N_FLAGS :: nat where "BLE_CONN_STATE_N_FLAGS \<equiv> 29"
abbreviation (input) BLE_CONN_STATE_USER_FLAG_INVALID :: nat where "BLE_CONN_STATE_USER_FLAG_INVALID \<equiv> 24"

record ble_conn_state =
  acquired_flags :: u32
  valid_conn_handles :: "u16 list"
  flag_array :: "u8 list"

datatype ble_conn_state_status_t =
    BLE_CONN_STATUS_INVALID
  | BLE_CONN_STATUS_DISCONNECTED
  | BLE_CONN_STATUS_CONNECTED

definition bcs_internal_state_reset :: ble_conn_state where
  "bcs_internal_state_reset =
     \<lparr>acquired_flags = 0, valid_conn_handles = replicate SDK_MAPPED_FLAGS_N_KEYS 0,
      flag_array = replicate BLE_CONN_STATE_N_FLAGS 0\<rparr>"

text \<open>\<^verbatim>\<open>sdk_mapped_flags_update_by_key(m_bcs.valid_conn_handles, &m_bcs.flag_array[c], h, v)\<close>.\<close>

definition bcs_update :: "ble_conn_state \<Rightarrow> nat \<Rightarrow> u16 \<Rightarrow> bool \<Rightarrow> ble_conn_state" where
  "bcs_update m c h v =
     m\<lparr>flag_array := (flag_array m)
         [c := sdk_mapped_flags_update_by_key (Some (valid_conn_handles m)) (flag_array m ! c) h v]\<rparr>"

definition bcs_get :: "ble_conn_state \<Rightarrow> nat \<Rightarrow> u16 \<Rightarrow> bool" where
  "bcs_get m c h = sdk_mapped_flags_get_by_key (Some (valid_conn_handles m)) (flag_array m ! c) h"

definition record_activate :: "u16 \<Rightarrow> ble_conn_state \<Rightarrow> bool \<times> ble_conn_state" where
  "record_activate conn_handle m =
     (let available_index = sdk_mapped_flags_first_key_index_get (NOT (flag_array m ! VALID))
      in if available_index \<noteq> SDK_MAPPED_FLAGS_INVALID_INDEX
         then (let m = m\<lparr>valid_conn_handles := (valid_conn_handles m)[unat available_index := conn_handle]\<rparr>;
                   m = bcs_update m CONNECTED conn_handle True;
                   m = bcs_update m VALID conn_handle True
               in (True, m))
         else (False, m))"

definition record_invalidate :: "u16 \<Rightarrow> ble_conn_state \<Rightarrow> ble_conn_state" where
  "record_invalidate conn_handle m =
     m\<lparr>flag_array := the (sdk_mapped_flags_bulk_update_by_key (Some (valid_conn_handles m))
         (Some (flag_array m)) BLE_CONN_STATE_N_FLAGS conn_handle False)\<rparr>"

definition record_set_disconnected :: "u16 \<Rightarrow> ble_conn_state \<Rightarrow> ble_conn_state" where
  "record_set_disconnected conn_handle m = bcs_update m CONNECTED conn_handle False"

definition record_purge_disconnected :: "ble_conn_state \<Rightarrow> ble_conn_state" where
  "record_purge_disconnected m =
     (let disconnected_list = sdk_mapped_flags_key_list_get (Some (valid_conn_handles m))
            (NOT (flag_array m ! CONNECTED) AND (flag_array m ! VALID))
      in foldl (\<lambda>m key. record_invalidate key m) m disconnected_list)"

definition user_flag_is_acquired :: "ble_conn_state \<Rightarrow> nat \<Rightarrow> bool" where
  "user_flag_is_acquired m flag_id \<longleftrightarrow> (acquired_flags m AND push_bit flag_id 1) \<noteq> 0"

definition user_flag_acquire :: "nat \<Rightarrow> ble_conn_state \<Rightarrow> ble_conn_state" where
  "user_flag_acquire flag_id m = m\<lparr>acquired_flags := acquired_flags m OR push_bit flag_id 1\<rparr>"

definition ble_conn_state_init :: "ble_conn_state \<Rightarrow> ble_conn_state" where
  "ble_conn_state_init m = bcs_internal_state_reset"

definition ble_conn_state_on_ble_evt ::
  "ble_evt \<Rightarrow> ble_conn_state \<Rightarrow> ('w world_scheme, ble_conn_state) prog" where
  "ble_conn_state_on_ble_evt evt m =
     (case evt of
        BLE_GAP_EVT_CONNECTED conn_handle role _ \<Rightarrow>
          (let (activated, m) = record_activate conn_handle (record_purge_disconnected m)
           in if \<not> activated then app_error_handler NRF_ERROR_NO_MEM
              else ret (bcs_update m CENTRAL conn_handle (role = BLE_GAP_ROLE_CENTRAL)))
      | BLE_GAP_EVT_DISCONNECTED conn_handle _ \<Rightarrow>
          ret (record_set_disconnected conn_handle m)
      | BLE_GAP_EVT_CONN_SEC_UPDATE conn_handle level \<Rightarrow>
          ret (bcs_update (bcs_update m ENCRYPTED conn_handle (level > 1)) MITM conn_handle (level > 2))
      | _ \<Rightarrow> ret m)"

definition ble_conn_state_valid :: "ble_conn_state \<Rightarrow> u16 \<Rightarrow> bool" where
  "ble_conn_state_valid m conn_handle = bcs_get m VALID conn_handle"

definition ble_conn_state_role :: "ble_conn_state \<Rightarrow> u16 \<Rightarrow> u8" where
  "ble_conn_state_role m conn_handle =
     (if bcs_get m VALID conn_handle
      then (if bcs_get m CENTRAL conn_handle then BLE_GAP_ROLE_CENTRAL else BLE_GAP_ROLE_PERIPH)
      else BLE_GAP_ROLE_INVALID)"

definition ble_conn_state_status :: "ble_conn_state \<Rightarrow> u16 \<Rightarrow> ble_conn_state_status_t" where
  "ble_conn_state_status m conn_handle =
     (if bcs_get m VALID conn_handle
      then (if bcs_get m CONNECTED conn_handle then BLE_CONN_STATUS_CONNECTED
            else BLE_CONN_STATUS_DISCONNECTED)
      else BLE_CONN_STATUS_INVALID)"

definition ble_conn_state_encrypted :: "ble_conn_state \<Rightarrow> u16 \<Rightarrow> bool" where
  "ble_conn_state_encrypted m conn_handle = bcs_get m ENCRYPTED conn_handle"

definition ble_conn_state_mitm_protected :: "ble_conn_state \<Rightarrow> u16 \<Rightarrow> bool" where
  "ble_conn_state_mitm_protected m conn_handle = bcs_get m MITM conn_handle"

definition ble_conn_state_n_connections :: "ble_conn_state \<Rightarrow> u32" where
  "ble_conn_state_n_connections m = sdk_mapped_flags_n_flags_set (flag_array m ! CONNECTED)"

definition ble_conn_state_n_centrals :: "ble_conn_state \<Rightarrow> u32" where
  "ble_conn_state_n_centrals m =
     sdk_mapped_flags_n_flags_set ((flag_array m ! CENTRAL) AND (flag_array m ! CONNECTED))"

definition ble_conn_state_n_peripherals :: "ble_conn_state \<Rightarrow> u32" where
  "ble_conn_state_n_peripherals m =
     sdk_mapped_flags_n_flags_set (NOT (flag_array m ! CENTRAL) AND (flag_array m ! CONNECTED))"

definition ble_conn_state_conn_handles :: "ble_conn_state \<Rightarrow> u16 list" where
  "ble_conn_state_conn_handles m =
     sdk_mapped_flags_key_list_get (Some (valid_conn_handles m)) (flag_array m ! VALID)"

definition ble_conn_state_central_handles :: "ble_conn_state \<Rightarrow> u16 list" where
  "ble_conn_state_central_handles m =
     sdk_mapped_flags_key_list_get (Some (valid_conn_handles m))
       ((flag_array m ! CENTRAL) AND (flag_array m ! CONNECTED))"

definition ble_conn_state_periph_handles :: "ble_conn_state \<Rightarrow> u16 list" where
  "ble_conn_state_periph_handles m =
     sdk_mapped_flags_key_list_get (Some (valid_conn_handles m))
       (NOT (flag_array m ! CENTRAL) AND (flag_array m ! CONNECTED))"

definition ble_conn_state_user_flag_acquire :: "ble_conn_state \<Rightarrow> nat \<times> ble_conn_state" where
  "ble_conn_state_user_flag_acquire m =
     (case find (\<lambda>i. \<not> user_flag_is_acquired m i) [0..<BLE_CONN_STATE_N_USER_FLAGS] of
        Some i \<Rightarrow> (i, user_flag_acquire i m)
      | None \<Rightarrow> (BLE_CONN_STATE_USER_FLAG_INVALID, m))"

definition ble_conn_state_user_flag_get :: "ble_conn_state \<Rightarrow> u16 \<Rightarrow> nat \<Rightarrow> bool" where
  "ble_conn_state_user_flag_get m conn_handle flag_id =
     (if user_flag_is_acquired m flag_id then bcs_get m (USER + flag_id) conn_handle else False)"

definition ble_conn_state_user_flag_set ::
  "u16 \<Rightarrow> nat \<Rightarrow> bool \<Rightarrow> ble_conn_state \<Rightarrow> ble_conn_state" where
  "ble_conn_state_user_flag_set conn_handle flag_id value m =
     (if user_flag_is_acquired m flag_id then bcs_update m (USER + flag_id) conn_handle value else m)"

definition ble_conn_state_user_flag_collection :: "ble_conn_state \<Rightarrow> nat \<Rightarrow> u8" where
  "ble_conn_state_user_flag_collection m flag_id =
     (if user_flag_is_acquired m flag_id then flag_array m ! (USER + flag_id) else 0)"

subsection \<open>Abstract specification\<close>

record conn_info =
  ci_connected :: bool
  ci_central :: bool
  ci_encrypted :: bool
  ci_mitm :: bool
  ci_user :: "nat \<Rightarrow> bool"

definition flag_at :: "ble_conn_state \<Rightarrow> nat \<Rightarrow> nat \<Rightarrow> bool" where
  "flag_at m c i = bit (flag_array m ! c) i"

definition info_at :: "ble_conn_state \<Rightarrow> nat \<Rightarrow> conn_info" where
  "info_at m i =
     \<lparr>ci_connected = flag_at m CONNECTED i, ci_central = flag_at m CENTRAL i,
      ci_encrypted = flag_at m ENCRYPTED i, ci_mitm = flag_at m MITM i,
      ci_user = (\<lambda>u. u < BLE_CONN_STATE_N_USER_FLAGS \<and> flag_at m (USER + u) i)\<rparr>"

definition conn_abs :: "ble_conn_state \<Rightarrow> u16 \<Rightarrow> conn_info option" where
  "conn_abs m h =
     (case key_index (valid_conn_handles m) h of
        None \<Rightarrow> None
      | Some i \<Rightarrow> if flag_at m VALID i then Some (info_at m i) else None)"

definition fresh_conn :: "bool \<Rightarrow> conn_info" where
  "fresh_conn central =
     \<lparr>ci_connected = True, ci_central = central, ci_encrypted = False, ci_mitm = False,
      ci_user = (\<lambda>_. False)\<rparr>"

definition conn_purge :: "(u16 \<Rightarrow> conn_info option) \<Rightarrow> u16 \<Rightarrow> conn_info option" where
  "conn_purge A h = (case A h of Some c \<Rightarrow> if ci_connected c then Some c else None | None \<Rightarrow> None)"

definition conn_spec :: "ble_evt \<Rightarrow> (u16 \<Rightarrow> conn_info option) \<Rightarrow> u16 \<Rightarrow> conn_info option" where
  "conn_spec evt A =
     (case evt of
        BLE_GAP_EVT_CONNECTED h role _ \<Rightarrow> (conn_purge A)(h \<mapsto> fresh_conn (role = BLE_GAP_ROLE_CENTRAL))
      | BLE_GAP_EVT_DISCONNECTED h _ \<Rightarrow> A(h := map_option (ci_connected_update (\<lambda>_. False)) (A h))
      | BLE_GAP_EVT_CONN_SEC_UPDATE h level \<Rightarrow>
          A(h := map_option (\<lambda>c. c\<lparr>ci_encrypted := level > 1, ci_mitm := level > 2\<rparr>) (A h))
      | _ \<Rightarrow> A)"

definition is_connected :: "(u16 \<Rightarrow> conn_info option) \<Rightarrow> u16 \<Rightarrow> bool" where
  "is_connected A h = (case A h of Some c \<Rightarrow> ci_connected c | None \<Rightarrow> False)"

definition conn_evt_ok :: "ble_evt \<Rightarrow> (u16 \<Rightarrow> conn_info option) \<Rightarrow> bool" where
  "conn_evt_ok evt A =
     (case evt of
        BLE_GAP_EVT_CONNECTED h _ _ \<Rightarrow> \<not> is_connected A h
      | BLE_GAP_EVT_DISCONNECTED h _ \<Rightarrow> is_connected A h
      | BLE_GAP_EVT_CONN_SEC_UPDATE h _ \<Rightarrow> is_connected A h
      | _ \<Rightarrow> True)"

text \<open>
  The invariant: a live record is the first one with its handle, and a record that is not
  live has no flag set.
\<close>

definition conn_inv :: "ble_conn_state \<Rightarrow> bool" where
  "conn_inv m \<longleftrightarrow> length (valid_conn_handles m) = 8 \<and> length (flag_array m) = 29
     \<and> (\<forall>i < 8. flag_at m VALID i \<longrightarrow> (\<forall>j < i. valid_conn_handles m ! j \<noteq> valid_conn_handles m ! i))
     \<and> (\<forall>c < 29. \<forall>i < 8. flag_at m c i \<longrightarrow> flag_at m VALID i)"

text \<open>A started table and the parameters of a connection, for examples.\<close>

definition reset_bcs :: ble_conn_state where
  "reset_bcs = ble_conn_state_init \<lparr>acquired_flags = 0, valid_conn_handles = [], flag_array = []\<rparr>"

definition demo_params :: ble_gap_conn_params where
  "demo_params = \<lparr>min_conn_interval = 36, max_conn_interval = 172, slave_latency = 0, conn_sup_timeout = 600\<rparr>"

text \<open>
  Runs of the module: the state after the start-up, any number of events that the stack may
  deliver, each handled without a fault, and any number of uses of the user flags, together with the
  abstract table.
\<close>

inductive bcs_run :: "ble_conn_state \<Rightarrow> (u16 \<Rightarrow> conn_info option) \<Rightarrow> bool" where
  start: "bcs_run (ble_conn_state_init m) (\<lambda>_. None)"
| event: "bcs_run m A \<Longrightarrow> conn_evt_ok evt A \<Longrightarrow>
    ble_conn_state_on_ble_evt evt m (s :: world) = (Ret m', s') \<Longrightarrow> bcs_run m' (conn_spec evt A)"
| acquire: "bcs_run m A \<Longrightarrow> bcs_run (snd (ble_conn_state_user_flag_acquire m)) A"
| set_flag: "bcs_run m A \<Longrightarrow> user_flag_is_acquired m u \<Longrightarrow> u < BLE_CONN_STATE_N_USER_FLAGS \<Longrightarrow> A h = Some x \<Longrightarrow>
    bcs_run (ble_conn_state_user_flag_set h u v m) (A(h \<mapsto> x\<lparr>ci_user := (ci_user x)(u := v)\<rparr>))"

subsection \<open>Positions and keys\<close>

lemma conn_invD:
  assumes "conn_inv m"
  shows "length (valid_conn_handles m) = 8" "length (flag_array m) = 29"
    "\<And>i j. i < 8 \<Longrightarrow> flag_at m VALID i \<Longrightarrow> j < i \<Longrightarrow> valid_conn_handles m ! j \<noteq> valid_conn_handles m ! i"
    "\<And>c i. c < 29 \<Longrightarrow> i < 8 \<Longrightarrow> flag_at m c i \<Longrightarrow> flag_at m VALID i"
  using assms by (auto simp: conn_inv_def)

lemma key_index_valid:
  assumes "conn_inv m" and "i < 8" and "flag_at m VALID i"
  shows "key_index (valid_conn_handles m) (valid_conn_handles m ! i) = Some i"
  using assms conn_invD(3) by (auto simp: key_index_Some)

lemma flag_at_less: "flag_at m c i \<Longrightarrow> i < 8"
  by (auto simp: flag_at_def dest: bit_imp_le_length)

lemma handles_bcs_update [simp]: "valid_conn_handles (bcs_update m c h v) = valid_conn_handles m"
  by (simp add: bcs_update_def)

lemma length_flags_bcs_update [simp]: "length (flag_array (bcs_update m c h v)) = length (flag_array m)"
  by (simp add: bcs_update_def)

lemma flag_at_bcs_update:
  "c < length (flag_array m) \<Longrightarrow> flag_at (bcs_update m c h v) c' i =
     (if c' = c \<and> key_index (valid_conn_handles m) h = Some i then v else flag_at m c' i)"
  by (auto simp: flag_at_def bcs_update_def bit_update_by_key nth_list_update)

lemma bcs_get_flag:
  "bcs_get m c h = (case key_index (valid_conn_handles m) h of None \<Rightarrow> False | Some i \<Rightarrow> flag_at m c i)"
  by (simp add: bcs_get_def sdk_mapped_flags_get_by_key_def flag_at_def split: option.splits)

lemma conn_abs_Some:
  "conn_abs m h = Some x \<longleftrightarrow>
     (\<exists>i. key_index (valid_conn_handles m) h = Some i \<and> flag_at m VALID i \<and> x = info_at m i)"
  by (auto simp: conn_abs_def split: option.splits if_splits)

text \<open>Reading a flag under a handle reads the abstract connection, dead records read as cleared.\<close>

lemma bcs_get_valid: "bcs_get m VALID h \<longleftrightarrow> conn_abs m h \<noteq> None"
  by (auto simp: bcs_get_flag conn_abs_def split: option.splits)

lemma bcs_get_abs:
  assumes "conn_inv m" and "c < 29"
  shows "bcs_get m c h \<longleftrightarrow>
    (\<exists>i. key_index (valid_conn_handles m) h = Some i \<and> conn_abs m h = Some (info_at m i) \<and> flag_at m c i)"
  using assms conn_invD(4) [OF assms(1,2)] by (auto simp: bcs_get_flag conn_abs_def dest: key_index_less split: option.splits)

text \<open>An update of one collection under the handle of a live record.\<close>

lemma bcs_update_inv:
  assumes inv: "conn_inv m" and live: "conn_abs m h \<noteq> None" and c: "0 < c" "c < 29"
  shows "conn_inv (bcs_update m c h v)"
  unfolding conn_inv_def
  using conn_invD [OF inv] live c
  by (auto simp: flag_at_bcs_update conn_abs_def split: option.splits if_splits)

lemma conn_abs_bcs_update:
  assumes inv: "conn_inv m" and live: "conn_abs m h \<noteq> None" and c: "0 < c" "c < 29"
    and i: "key_index (valid_conn_handles m) h = Some i"
  shows "conn_abs (bcs_update m c h v) = (conn_abs m)(h \<mapsto> info_at (bcs_update m c h v) i)"
proof
  fix h'
  have l: "c < length (flag_array m)"
    using c conn_invD(2) [OF inv] by simp
  have other: "info_at (bcs_update m c h v) j = info_at m j" if "j \<noteq> i" for j
    using that i by (simp add: info_at_def flag_at_bcs_update [OF l])
  show "conn_abs (bcs_update m c h v) h' = ((conn_abs m)(h \<mapsto> info_at (bcs_update m c h v) i)) h'"
  proof (cases "h' = h")
    case True
    have "flag_at m VALID i"
      using live i by (auto simp: conn_abs_def split: if_splits)
    with True i c show ?thesis
      by (simp add: conn_abs_def flag_at_bcs_update [OF l])
  next
    case False
    then have "key_index (valid_conn_handles m) h' \<noteq> Some i"
      using key_index_inj [OF i] by blast
    with False i c other show ?thesis
      by (auto simp: conn_abs_def flag_at_bcs_update [OF l] split: option.splits)
  qed
qed

subsection \<open>Invalidation\<close>

lemma flag_at_record_invalidate:
  assumes "length (flag_array m) = 29" and "c < 29"
  shows "flag_at (record_invalidate h m) c j \<longleftrightarrow>
    flag_at m c j \<and> key_index (valid_conn_handles m) h \<noteq> Some j"
  using assms
  by (auto simp: record_invalidate_def flag_at_def sdk_mapped_flags_bulk_update_by_key_def
      dest: key_index_less split: option.splits)

lemma record_invalidate_frame [simp]:
  "valid_conn_handles (record_invalidate h m) = valid_conn_handles m"
  "length (flag_array (record_invalidate h m)) = length (flag_array m)"
  by (auto simp: record_invalidate_def sdk_mapped_flags_bulk_update_by_key_def min_def split: option.splits)

lemma invalidate_list:
  assumes "length (flag_array m) = 29" and "c < 29"
    and "\<And>i. i \<in> set is \<Longrightarrow> key_index (valid_conn_handles m) (valid_conn_handles m ! i) = Some i"
  shows "valid_conn_handles (foldl (\<lambda>m key. record_invalidate key m) m (map (nth (valid_conn_handles m)) is))
      = valid_conn_handles m
    \<and> length (flag_array (foldl (\<lambda>m key. record_invalidate key m) m (map (nth (valid_conn_handles m)) is))) = 29
    \<and> (\<forall>j. flag_at (foldl (\<lambda>m key. record_invalidate key m) m (map (nth (valid_conn_handles m)) is)) c j
          \<longleftrightarrow> flag_at m c j \<and> j \<notin> set is)"
  using assms
proof (induction "is" arbitrary: m)
  case Nil
  then show ?case by simp
next
  case (Cons i js)
  let ?m = "record_invalidate (valid_conn_handles m ! i) m"
  from Cons.IH [of ?m] Cons.prems show ?case
    by (auto simp: flag_at_record_invalidate)
qed

lemma record_purge_disconnected_run:
  assumes inv: "conn_inv m"
  shows "valid_conn_handles (record_purge_disconnected m) = valid_conn_handles m"
    and "length (flag_array (record_purge_disconnected m)) = 29"
    and "c < 29 \<Longrightarrow> flag_at (record_purge_disconnected m) c j \<longleftrightarrow> flag_at m c j \<and> flag_at m CONNECTED j"
proof -
  let ?is = "filter (bit (NOT (flag_array m ! CONNECTED) AND (flag_array m ! VALID))) [0..<8]"
  have m: "record_purge_disconnected m =
      foldl (\<lambda>m key. record_invalidate key m) m (map (nth (valid_conn_handles m)) ?is)"
    by (simp add: record_purge_disconnected_def Let_def key_list_get_filter)
  have mem: "i \<in> set ?is \<longleftrightarrow> i < 8 \<and> flag_at m VALID i \<and> \<not> flag_at m CONNECTED i" for i
    by (auto simp: flag_at_def bit_and_iff bit_not_iff)
  have run: "valid_conn_handles (record_purge_disconnected m) = valid_conn_handles m
      \<and> length (flag_array (record_purge_disconnected m)) = 29
      \<and> (\<forall>j. flag_at (record_purge_disconnected m) c j \<longleftrightarrow> flag_at m c j \<and> j \<notin> set ?is)" if "c < 29" for c
    unfolding m using mem key_index_valid [OF inv] conn_invD(2) [OF inv] that by (intro invalidate_list) auto
  from run [of 0] show "valid_conn_handles (record_purge_disconnected m) = valid_conn_handles m"
      "length (flag_array (record_purge_disconnected m)) = 29" by auto
  show "c < 29 \<Longrightarrow> flag_at (record_purge_disconnected m) c j \<longleftrightarrow> flag_at m c j \<and> flag_at m CONNECTED j"
    using run [of c] mem [of j] conn_invD(4) [OF inv, of c j] flag_at_less [of m c j] by blast
qed

lemma record_purge_disconnected_inv:
  assumes "conn_inv m"
  shows "conn_inv (record_purge_disconnected m)"
  unfolding conn_inv_def using conn_invD [OF assms]
  by (auto simp: record_purge_disconnected_run [OF assms])

lemma conn_abs_purge:
  assumes inv: "conn_inv m"
  shows "conn_abs (record_purge_disconnected m) = conn_purge (conn_abs m)"
proof
  fix h
  show "conn_abs (record_purge_disconnected m) h = conn_purge (conn_abs m) h"
  proof (cases "key_index (valid_conn_handles m) h")
    case None
    then show ?thesis
      by (simp add: conn_abs_def conn_purge_def record_purge_disconnected_run [OF inv])
  next
    case (Some i)
    have "flag_at m CONNECTED i \<Longrightarrow> info_at (record_purge_disconnected m) i = info_at m i"
      by (auto simp: info_at_def record_purge_disconnected_run [OF inv] fun_eq_iff)
    moreover have "ci_connected (info_at m i) = flag_at m CONNECTED i"
      by (simp add: info_at_def)
    ultimately show ?thesis
      using Some by (simp add: conn_abs_def conn_purge_def record_purge_disconnected_run [OF inv])
  qed
qed

subsection \<open>Activation\<close>

lemma available_index:
  "sdk_mapped_flags_first_key_index_get (NOT (flag_array m ! VALID)) =
     (case find (\<lambda>i. \<not> flag_at m VALID i) [0..<8] of
        Some i \<Rightarrow> of_nat i | None \<Rightarrow> SDK_MAPPED_FLAGS_INVALID_INDEX)"
proof -
  have "find (bit (NOT (flag_array m ! VALID))) [0..<8] = find (\<lambda>i. \<not> flag_at m VALID i) [0..<8]"
    by (rule find_cong) (simp_all add: flag_at_def bit_not_iff)
  then show ?thesis
    by (simp only: first_key_index)
qed

lemma of_nat_index:
  assumes "i < 8"
  shows "(of_nat i :: u16) \<noteq> SDK_MAPPED_FLAGS_INVALID_INDEX" and "unat (of_nat i :: u16) = i"
proof -
  show u: "unat (of_nat i :: u16) = i"
    using assms by (simp add: unat_of_nat take_bit_nat_eq_self)
  show "(of_nat i :: u16) \<noteq> SDK_MAPPED_FLAGS_INVALID_INDEX"
    using u assms by (auto simp: SDK_MAPPED_FLAGS_INVALID_INDEX_def)
qed

lemma live_handle:
  assumes "conn_inv m" and "i < 8" and "flag_at m VALID i"
  shows "conn_abs m (valid_conn_handles m ! i) \<noteq> None"
  using assms by (simp add: conn_abs_def key_index_valid)

text \<open>Entering the handle at the first free position \<open>a\<close>.\<close>

lemma activate_at:
  assumes inv: "conn_inv m" and new: "conn_abs m h = None"
    and a: "a < 8" "\<not> flag_at m VALID a" "\<And>j. j < a \<Longrightarrow> flag_at m VALID j"
    and m': "m' = bcs_update (bcs_update (m\<lparr>valid_conn_handles := (valid_conn_handles m)[a := h]\<rparr>)
                     CONNECTED h True) VALID h True"
  shows "conn_inv m' \<and> conn_abs m' = (conn_abs m)(h \<mapsto> fresh_conn False)"
proof -
  let ?k = "valid_conn_handles m" and ?k' = "(valid_conn_handles m)[a := h]"
  have len: "length ?k = 8" "length (flag_array m) = 29"
    using conn_invD [OF inv] by auto
  have nh: "?k ! i \<noteq> h" if "i < 8" "flag_at m VALID i" for i
    using live_handle [OF inv that] new by auto
  have nth_upd: "?k' ! j = (if j = a then h else ?k ! j)" if "j < 8" for j
    using that len by (simp add: nth_list_update)
  have kh: "key_index ?k' h = Some a"
    using a len nh by (auto simp: key_index_Some nth_list_update)
  have k': "valid_conn_handles m' = ?k'"
    by (simp add: m')
  have fl: "flag_at m' c i = (if (c = CONNECTED \<or> c = VALID) \<and> i = a then True else flag_at m c i)" for c i
    using len kh by (simp add: m' flag_at_bcs_update) (auto simp: flag_at_def)
  have ina: "\<not> flag_at m c a" if "c < 29" for c
    using conn_invD(4) [OF inv that a(1)] a(2) by blast
  have inv': "conn_inv m'"
    unfolding conn_inv_def k'
  proof (intro conjI allI impI)
    show "length ?k' = 8" and "length (flag_array m') = 29"
      using len by (simp_all add: m')
    show "?k' ! j \<noteq> ?k' ! i" if "i < 8" "flag_at m' VALID i" "j < i" for i j
      using that a len nh conn_invD(3) [OF inv, of i j]
      by (auto simp: fl nth_list_update split: if_splits)
    show "flag_at m' VALID i" if "c < 29" "i < 8" "flag_at m' c i" for c i
      using that conn_invD(4) [OF inv, of c i] by (auto simp: fl split: if_splits)
  qed
  have "conn_abs m' h' = ((conn_abs m)(h \<mapsto> fresh_conn False)) h'" for h'
  proof (cases "h' = h")
    case True
    have "info_at m' a = fresh_conn False"
      using ina by (auto simp: info_at_def fresh_conn_def fl fun_eq_iff)
    with True kh show ?thesis
      by (simp add: conn_abs_def k' fl)
  next
    case False
    have same: "info_at m' i = info_at m i" if "i \<noteq> a" for i
      using that by (simp add: info_at_def fl)
    show ?thesis
    proof (cases "key_index ?k h'")
      case None
      then have "key_index ?k' h' = None"
        unfolding key_index_None
      proof (intro allI impI)
        fix i :: nat
        assume "i < 8"
        then show "?k' ! i \<noteq> h'"
          using None False nth_upd by (simp add: key_index_None)
      qed
      with None False show ?thesis by (simp add: conn_abs_def k')
    next
      case (Some i)
      show ?thesis
      proof (cases "i = a")
        case True
        have "\<not> flag_at m VALID j" if "key_index ?k' h' = Some j" for j
          using that Some True False len conn_invD(3) [OF inv, of j a]
          by (metis key_index_Some length_list_update linorder_neqE_nat nth_list_update_eq nth_list_update_neq)
        moreover have "key_index ?k' h' \<noteq> Some a"
          using kh key_index_inj False by blast
        ultimately show ?thesis
          using Some True False a(2) by (auto simp: conn_abs_def k' fl split: option.splits)
      next
        case neq: False
        have "key_index ?k' h' = Some i"
          using Some False neq len nth_upd by (auto simp: key_index_Some)
        with Some False neq same show ?thesis
          by (simp add: conn_abs_def k' fl)
      qed
    qed
  qed
  with inv' show ?thesis by blast
qed

lemma record_activate_run:
  assumes inv: "conn_inv m" and new: "conn_abs m h = None"
  shows "(\<forall>i < 8. flag_at m VALID i) \<and> record_activate h m = (False, m)
    \<or> (\<exists>m'. record_activate h m = (True, m') \<and> conn_inv m' \<and> conn_abs m' = (conn_abs m)(h \<mapsto> fresh_conn False))"
proof (cases "find (\<lambda>i. \<not> flag_at m VALID i) [0..<8]")
  case None
  then have "\<forall>i < 8. flag_at m VALID i"
    unfolding find_upt_None by blast
  with None show ?thesis
    unfolding record_activate_def Let_def available_index by simp
next
  case (Some a)
  then have a: "a < 8" "\<not> flag_at m VALID a" "\<And>j. j < a \<Longrightarrow> flag_at m VALID j"
    unfolding find_upt_Some by auto
  have "record_activate h m = (True, bcs_update (bcs_update
      (m\<lparr>valid_conn_handles := (valid_conn_handles m)[a := h]\<rparr>) CONNECTED h True) VALID h True)"
    unfolding record_activate_def Let_def available_index Some using of_nat_index [OF a(1)] by simp
  with activate_at [OF inv new a refl] show ?thesis by blast
qed

subsection \<open>Events\<close>

lemma is_connected_live: "is_connected (conn_abs m) h \<Longrightarrow> conn_abs m h \<noteq> None"
  by (auto simp: is_connected_def split: option.splits)

lemma info_at_update:
  assumes "length (flag_array m) = 29" and "key_index (valid_conn_handles m) h = Some i" and "0 < c" "c < 29"
  shows "info_at (bcs_update m c h v) i =
    (if c = CONNECTED then (info_at m i)\<lparr>ci_connected := v\<rparr>
     else if c = CENTRAL then (info_at m i)\<lparr>ci_central := v\<rparr>
     else if c = ENCRYPTED then (info_at m i)\<lparr>ci_encrypted := v\<rparr>
     else if c = MITM then (info_at m i)\<lparr>ci_mitm := v\<rparr>
     else (info_at m i)\<lparr>ci_user := (ci_user (info_at m i))(c - USER := v)\<rparr>)"
  using assms by (auto simp: info_at_def flag_at_bcs_update fun_eq_iff)

lemma bcs_update_spec:
  assumes inv: "conn_inv m" and live: "conn_abs m h = Some x" and c: "0 < c" "c < 29"
  shows "conn_inv (bcs_update m c h v) \<and> conn_abs (bcs_update m c h v) = (conn_abs m)(h \<mapsto>
    (if c = CONNECTED then x\<lparr>ci_connected := v\<rparr> else if c = CENTRAL then x\<lparr>ci_central := v\<rparr>
     else if c = ENCRYPTED then x\<lparr>ci_encrypted := v\<rparr> else if c = MITM then x\<lparr>ci_mitm := v\<rparr>
     else x\<lparr>ci_user := (ci_user x)(c - USER := v)\<rparr>))"
proof -
  obtain i where i: "key_index (valid_conn_handles m) h = Some i" "x = info_at m i"
    using live by (auto simp: conn_abs_Some)
  have ne: "conn_abs m h \<noteq> None"
    using live by simp
  show ?thesis
    using bcs_update_inv [OF inv ne c] conn_abs_bcs_update [OF inv ne c i(1)] i
      info_at_update [OF conn_invD(2) [OF inv] i(1) c] by simp
qed

lemma connected_evt:
  assumes inv: "conn_inv m" and ok: "\<not> is_connected (conn_abs m) h"
    and room: "\<exists>i < 8. \<not> flag_at m CONNECTED i"
  shows "\<exists>m'. ble_conn_state_on_ble_evt (BLE_GAP_EVT_CONNECTED h role p) m s = (Ret m', s)
    \<and> conn_inv m' \<and> conn_abs m' = conn_spec (BLE_GAP_EVT_CONNECTED h role p) (conn_abs m)"
proof -
  let ?m = "record_purge_disconnected m"
  have inv1: "conn_inv ?m" and abs1: "conn_abs ?m = conn_purge (conn_abs m)"
    using record_purge_disconnected_inv conn_abs_purge inv by auto
  have new: "conn_abs ?m h = None"
    using ok by (auto simp: abs1 conn_purge_def is_connected_def split: option.splits)
  have "\<not> (\<forall>i < 8. flag_at ?m VALID i)"
    using room by (auto simp: record_purge_disconnected_run [OF inv])
  then obtain m' where m': "record_activate h ?m = (True, m')" "conn_inv m'"
      "conn_abs m' = (conn_abs ?m)(h \<mapsto> fresh_conn False)"
    using record_activate_run [OF inv1 new] by auto
  have "conn_abs m' h = Some (fresh_conn False)"
    by (simp add: m'(3))
  from bcs_update_spec [OF m'(2) this, of CENTRAL "role = BLE_GAP_ROLE_CENTRAL"] m' abs1
  show ?thesis
    by (auto simp: ble_conn_state_on_ble_evt_def conn_spec_def fresh_conn_def)
qed

lemma on_ble_evt_refines:
  assumes inv: "conn_inv m" and ok: "conn_evt_ok evt (conn_abs m)"
    and room: "\<And>h role p. evt = BLE_GAP_EVT_CONNECTED h role p \<Longrightarrow> \<exists>i < 8. \<not> flag_at m CONNECTED i"
  shows "\<exists>m'. ble_conn_state_on_ble_evt evt m s = (Ret m', s)
    \<and> conn_inv m' \<and> conn_abs m' = conn_spec evt (conn_abs m)"
proof (cases evt)
  case (BLE_GAP_EVT_CONNECTED h role p)
  then show ?thesis
    using connected_evt [OF inv _ room [OF BLE_GAP_EVT_CONNECTED]] ok by (simp add: conn_evt_ok_def)
next
  case (BLE_GAP_EVT_DISCONNECTED h r)
  then obtain x where "conn_abs m h = Some x"
    using ok by (auto simp: conn_evt_ok_def is_connected_def split: option.splits)
  from bcs_update_spec [OF inv this, of CONNECTED False] this BLE_GAP_EVT_DISCONNECTED show ?thesis
    by (simp add: ble_conn_state_on_ble_evt_def record_set_disconnected_def conn_spec_def)
next
  case (BLE_GAP_EVT_CONN_SEC_UPDATE h level)
  then obtain x where x: "conn_abs m h = Some x"
    using ok by (auto simp: conn_evt_ok_def is_connected_def split: option.splits)
  let ?m = "bcs_update m ENCRYPTED h (level > 1)"
  have m1: "conn_inv ?m" "conn_abs ?m = (conn_abs m)(h \<mapsto> x\<lparr>ci_encrypted := level > 1\<rparr>)"
    using bcs_update_spec [OF inv x, of ENCRYPTED "level > 1"] by auto
  then have "conn_abs ?m h = Some (x\<lparr>ci_encrypted := level > 1\<rparr>)"
    by simp
  from bcs_update_spec [OF m1(1) this, of MITM "level > 2"] m1 x BLE_GAP_EVT_CONN_SEC_UPDATE show ?thesis
    by (simp add: ble_conn_state_on_ble_evt_def conn_spec_def)
qed (use inv in \<open>simp_all add: ble_conn_state_on_ble_evt_def conn_spec_def\<close>)

subsection \<open>Runs\<close>

lemma connected_handles:
  assumes inv: "conn_inv m"
  shows "{h. is_connected (conn_abs m) h} = nth (valid_conn_handles m) ` {i. i < 8 \<and> flag_at m CONNECTED i}"
proof (intro set_eqI iffI)
  fix h
  assume "h \<in> {h. is_connected (conn_abs m) h}"
  then obtain i where "key_index (valid_conn_handles m) h = Some i" "flag_at m CONNECTED i"
    by (auto simp: is_connected_def conn_abs_def info_at_def split: option.splits if_splits)
  then show "h \<in> nth (valid_conn_handles m) ` {i. i < 8 \<and> flag_at m CONNECTED i}"
    by (auto simp: key_index_Some)
next
  fix h
  assume "h \<in> nth (valid_conn_handles m) ` {i. i < 8 \<and> flag_at m CONNECTED i}"
  then obtain i where i: "i < 8" "flag_at m CONNECTED i" "h = valid_conn_handles m ! i" by auto
  then have "flag_at m VALID i"
    using conn_invD(4) [OF inv, of CONNECTED i] by simp
  with i key_index_valid [OF inv] show "h \<in> {h. is_connected (conn_abs m) h}"
    by (simp add: is_connected_def conn_abs_def info_at_def)
qed

lemma inj_on_handles:
  assumes inv: "conn_inv m"
  shows "inj_on (nth (valid_conn_handles m)) {i. i < 8 \<and> flag_at m VALID i}"
  using key_index_valid [OF inv] by (intro inj_onI) (metis mem_Collect_eq option.inject)

lemma card_connected:
  assumes inv: "conn_inv m"
  shows "card {h. is_connected (conn_abs m) h} = card {i. i < 8 \<and> flag_at m CONNECTED i}"
proof -
  have "{i. i < 8 \<and> flag_at m CONNECTED i} \<subseteq> {i. i < 8 \<and> flag_at m VALID i}"
    using conn_invD(4) [OF inv, of CONNECTED] by auto
  then show ?thesis
    unfolding connected_handles [OF inv]
    using inj_on_handles [OF inv] by (intro card_image) (rule inj_on_subset)
qed

lemma room_flags:
  assumes "conn_inv m" and "card {h. is_connected (conn_abs m) h} < 8"
  shows "\<exists>i < 8. \<not> flag_at m CONNECTED i"
proof (rule ccontr)
  assume "\<not> ?thesis"
  then have "{i. i < 8 \<and> flag_at m CONNECTED i} = {..<8}"
    by auto
  with assms show False
    by (simp add: card_connected)
qed

lemma full_faults:
  assumes inv: "conn_inv m" and full: "\<And>i. i < 8 \<Longrightarrow> flag_at m CONNECTED i"
  shows "fst (ble_conn_state_on_ble_evt (BLE_GAP_EVT_CONNECTED h role p) m s) = Fault NRF_ERROR_NO_MEM"
proof -
  have "find (\<lambda>i. \<not> flag_at (record_purge_disconnected m) VALID i) [0..<8] = None"
    unfolding find_upt_None using full conn_invD(4) [OF inv, of CONNECTED]
    by (simp add: record_purge_disconnected_run [OF inv])
  then have "record_activate h (record_purge_disconnected m) = (False, record_purge_disconnected m)"
    unfolding record_activate_def Let_def available_index by simp
  then show ?thesis
    by (simp add: ble_conn_state_on_ble_evt_def)
qed

lemma bcs_start: "conn_inv (ble_conn_state_init m) \<and> conn_abs (ble_conn_state_init m) = (\<lambda>_. None)"
  by (auto simp: ble_conn_state_init_def bcs_internal_state_reset_def conn_inv_def flag_at_def conn_abs_def
      split: option.splits)

lemma user_flag_acquire_frame:
  "conn_inv (snd (ble_conn_state_user_flag_acquire m)) = conn_inv m"
  "conn_abs (snd (ble_conn_state_user_flag_acquire m)) = conn_abs m"
  by (auto simp: ble_conn_state_user_flag_acquire_def user_flag_acquire_def conn_inv_def conn_abs_def
      flag_at_def info_at_def fun_eq_iff split: option.splits)

lemma bcs_run_refines: "bcs_run m A \<Longrightarrow> conn_inv m \<and> conn_abs m = A"
proof (induction rule: bcs_run.induct)
  case (start m)
  show ?case by (rule bcs_start)
next
  case (event m A evt s m' s')
  then have "conn_inv m" and abs: "conn_abs m = A" by auto
  have "\<exists>i < 8. \<not> flag_at m CONNECTED i" if "evt = BLE_GAP_EVT_CONNECTED h role p" for h role p
    using full_faults [OF \<open>conn_inv m\<close>, of h role p s] event.hyps(3) that by auto
  from on_ble_evt_refines [OF \<open>conn_inv m\<close>, of evt s] this event
  show ?case by (auto simp: abs)
next
  case (acquire m A)
  then show ?case by (simp add: user_flag_acquire_frame)
next
  case (set_flag m A u h x v)
  then have "conn_inv m" "conn_abs m h = Some x" by auto
  from bcs_update_spec [OF this, of "USER + u" v] set_flag show ?case
    by (simp add: ble_conn_state_user_flag_set_def)
qed

lemma conn_handles_dom:
  assumes inv: "conn_inv m"
  shows "distinct (ble_conn_state_conn_handles m) \<and> set (ble_conn_state_conn_handles m) = dom (conn_abs m)"
proof
  have set: "set (filter (bit (flag_array m ! VALID)) [0..<8]) = {i. i < 8 \<and> flag_at m VALID i}"
    by (auto simp: flag_at_def)
  show "distinct (ble_conn_state_conn_handles m)"
    using inj_on_handles [OF inv] set
    by (simp add: ble_conn_state_conn_handles_def key_list_get_filter distinct_map)
  show "set (ble_conn_state_conn_handles m) = dom (conn_abs m)"
  proof (intro set_eqI iffI)
    fix h
    assume "h \<in> set (ble_conn_state_conn_handles m)"
    then show "h \<in> dom (conn_abs m)"
      using live_handle [OF inv] set by (auto simp: ble_conn_state_conn_handles_def key_list_get_filter flag_at_def)
  next
    fix h
    assume "h \<in> dom (conn_abs m)"
    then show "h \<in> set (ble_conn_state_conn_handles m)"
      by (auto simp: conn_abs_Some key_index_Some ble_conn_state_conn_handles_def key_list_get_filter flag_at_def)
  qed
qed

lemma flag_queries:
  assumes "conn_inv m"
  shows "ble_conn_state_encrypted m h = (case conn_abs m h of None \<Rightarrow> False | Some x \<Rightarrow> ci_encrypted x)"
    and "ble_conn_state_mitm_protected m h = (case conn_abs m h of None \<Rightarrow> False | Some x \<Rightarrow> ci_mitm x)"
    and "bcs_get m CONNECTED h = (case conn_abs m h of None \<Rightarrow> False | Some x \<Rightarrow> ci_connected x)"
    and "bcs_get m CENTRAL h = (case conn_abs m h of None \<Rightarrow> False | Some x \<Rightarrow> ci_central x)"
  using conn_invD(4) [OF assms, of CONNECTED] conn_invD(4) [OF assms, of CENTRAL]
    conn_invD(4) [OF assms, of ENCRYPTED] conn_invD(4) [OF assms, of MITM]
  by (auto simp: ble_conn_state_encrypted_def ble_conn_state_mitm_protected_def bcs_get_flag conn_abs_def
      info_at_def flag_at_less split: option.splits)

lemma count_flags: "length (filter (bit (f :: u8)) [0..<8]) = card {i. i < 8 \<and> bit f i}"
proof -
  have "set (filter (bit f) [0..<8]) = {i. i < 8 \<and> bit f i}" by auto
  moreover have "distinct (filter (bit f) [0..<8])" by simp
  ultimately show ?thesis by (metis distinct_card)
qed

lemma demo_run:
  "\<exists>m. ble_conn_state_on_ble_evt (BLE_GAP_EVT_CONNECTED 5 BLE_GAP_ROLE_PERIPH demo_params) reset_bcs demo_world
         = (Ret m, demo_world)
     \<and> bcs_run m [5 \<mapsto> fresh_conn False]"
proof -
  have run: "bcs_run reset_bcs (\<lambda>_. None)"
    unfolding reset_bcs_def by (rule bcs_run.start)
  have inv: "conn_inv reset_bcs" and abs: "conn_abs reset_bcs = (\<lambda>_. None)"
    using bcs_run_refines [OF run] by auto
  let ?e = "BLE_GAP_EVT_CONNECTED 5 BLE_GAP_ROLE_PERIPH demo_params"
  have ok: "conn_evt_ok ?e (\<lambda>_. None)" and room: "card {h. is_connected (\<lambda>_. None) h} < 8"
    by (simp_all add: conn_evt_ok_def is_connected_def)
  obtain m where m: "ble_conn_state_on_ble_evt ?e reset_bcs demo_world = (Ret m, demo_world)"
    using on_ble_evt_refines [OF inv, of ?e demo_world] room_flags [OF inv] ok room abs by auto
  have "conn_spec ?e (\<lambda>_. None) = [5 \<mapsto> fresh_conn False]"
    by (simp add: conn_spec_def conn_purge_def fun_eq_iff BLE_GAP_ROLE_PERIPH_def BLE_GAP_ROLE_CENTRAL_def)
  with bcs_run.event [OF run ok m] m show ?thesis by auto
qed

subsection \<open>Properties\<close>

text \<open>
  C8: the connection table refines a finite map. In every run, that is after the start-up and any
  sequence of events that the stack may deliver (a new connection has a handle that is not in use, a
  disconnection and a change of security are those of a live connection) and of uses of the user
  flags, as long as no event stopped the device, the answers of the module are those of the map that
  gains an unencrypted connection when one is reported, marks it disconnected when it ends, and drops
  ended connections only when a new one arrives. The number of connections is that of the live ones:
  a connection that has ended stays valid and is listed, but is not counted.
\<close>

theorem conn_state_refines:
  assumes "bcs_run m A"
  shows "ble_conn_state_valid m h = (A h \<noteq> None)
    \<and> ble_conn_state_status m h = (case A h of None \<Rightarrow> BLE_CONN_STATUS_INVALID
         | Some x \<Rightarrow> if ci_connected x then BLE_CONN_STATUS_CONNECTED else BLE_CONN_STATUS_DISCONNECTED)
    \<and> ble_conn_state_role m h = (case A h of None \<Rightarrow> BLE_GAP_ROLE_INVALID
         | Some x \<Rightarrow> if ci_central x then BLE_GAP_ROLE_CENTRAL else BLE_GAP_ROLE_PERIPH)
    \<and> ble_conn_state_encrypted m h = (case A h of None \<Rightarrow> False | Some x \<Rightarrow> ci_encrypted x)
    \<and> ble_conn_state_mitm_protected m h = (case A h of None \<Rightarrow> False | Some x \<Rightarrow> ci_mitm x)
    \<and> set (ble_conn_state_conn_handles m) = dom A
    \<and> ble_conn_state_n_connections m = of_nat (card {h. is_connected A h})"
proof -
  have inv: "conn_inv m" and A: "A = conn_abs m"
    using bcs_run_refines [OF assms] by auto
  show ?thesis
    unfolding A
    using flag_queries [OF inv] conn_handles_dom [OF inv] card_connected [OF inv]
    by (auto simp: ble_conn_state_valid_def ble_conn_state_status_def ble_conn_state_role_def bcs_get_valid
        ble_conn_state_n_connections_def n_flags_set_count count_flags flag_at_def split: option.splits)
qed

theorem conn_state_refines_witness:
  "\<exists>m. ble_conn_state_on_ble_evt (BLE_GAP_EVT_CONNECTED 5 BLE_GAP_ROLE_PERIPH demo_params) reset_bcs demo_world
         = (Ret m, demo_world)
     \<and> ble_conn_state_status m 5 = BLE_CONN_STATUS_CONNECTED \<and> \<not> ble_conn_state_encrypted m 5
     \<and> ble_conn_state_role m 5 = BLE_GAP_ROLE_PERIPH \<and> ble_conn_state_status m 6 = BLE_CONN_STATUS_INVALID"
proof -
  obtain m where m: "ble_conn_state_on_ble_evt (BLE_GAP_EVT_CONNECTED 5 BLE_GAP_ROLE_PERIPH demo_params)
      reset_bcs demo_world = (Ret m, demo_world)" "bcs_run m [5 \<mapsto> fresh_conn False]"
    using demo_run by blast
  from conn_state_refines [OF m(2), of 5] conn_state_refines [OF m(2), of 6] m(1) show ?thesis
    by (auto simp: fresh_conn_def)
qed

text \<open>
  As long as fewer than eight connections are live, an event of the stack is handled
  without error; with eight live connections a ninth stops the device with NO_MEM.
\<close>

lemma conn_state_capacity:
  assumes "bcs_run m A" and "conn_evt_ok evt A"
  shows "(card {h. is_connected A h} < 8 \<longrightarrow>
      (\<exists>m'. ble_conn_state_on_ble_evt evt m s = (Ret m', s) \<and> conn_abs m' = conn_spec evt A))
    \<and> (card {h. is_connected A h} = 8 \<longrightarrow> evt = BLE_GAP_EVT_CONNECTED h role p \<longrightarrow>
      fst (ble_conn_state_on_ble_evt evt m s) = Fault NRF_ERROR_NO_MEM)"
proof -
  have inv: "conn_inv m" and A: "A = conn_abs m"
    using bcs_run_refines [OF assms(1)] by auto
  have full: "fst (ble_conn_state_on_ble_evt evt m s) = Fault NRF_ERROR_NO_MEM"
    if "card {h. is_connected A h} = 8" "evt = BLE_GAP_EVT_CONNECTED h role p"
  proof -
    have "{i. i < 8 \<and> flag_at m CONNECTED i} = {..<8}"
      using that(1) card_connected [OF inv] A by (intro card_subset_eq) auto
    then show ?thesis
      unfolding that(2) by (intro full_faults [OF inv]) auto
  qed
  moreover have "\<exists>m'. ble_conn_state_on_ble_evt evt m s = (Ret m', s) \<and> conn_abs m' = conn_spec evt A"
    if "card {h. is_connected A h} < 8"
    using on_ble_evt_refines [OF inv _ room_flags [OF inv]] assms(2) that A by blast
  ultimately show ?thesis by blast
qed

lemma conn_state_capacity_example:
  "\<exists>m. bcs_run m [5 \<mapsto> fresh_conn False]
     \<and> (\<exists>m'. ble_conn_state_on_ble_evt (BLE_GAP_EVT_DISCONNECTED 5 0x13) m demo_world = (Ret m', demo_world)
          \<and> conn_abs m' = [5 \<mapsto> (fresh_conn False)\<lparr>ci_connected := False\<rparr>])"
proof -
  obtain m where m: "bcs_run m [5 \<mapsto> fresh_conn False]"
    using demo_run by blast
  have "{h. is_connected [5 \<mapsto> fresh_conn False] h} = {5}"
    by (auto simp: is_connected_def fresh_conn_def split: if_splits)
  then have c: "card {h. is_connected [5 \<mapsto> fresh_conn False] h} < 8"
    by simp
  have "conn_evt_ok (BLE_GAP_EVT_DISCONNECTED 5 0x13) [5 \<mapsto> fresh_conn False]"
    by (simp add: conn_evt_ok_def is_connected_def fresh_conn_def)
  from conn_state_capacity [OF m this, of demo_world] c m show ?thesis
    by (auto simp: conn_spec_def)
qed

end
