(* ===== verification/Battery.thy ===== *)
theory Battery
  imports SrvCommon
begin

text \<open>
  The Battery Service, \<^verbatim>\<open>components/ble/ble_services/ble_bas/ble_bas.c\<close>. The level reported last is
  kept in \<open>battery_level_last\<close>, with 255 for none; an update writes the attribute and
  notifies the peer only when the level has changed.
\<close>

definition BLE_UUID_BATTERY_SERVICE :: u16 where [nrf_codes]: "BLE_UUID_BATTERY_SERVICE = 0x180F"
definition BLE_UUID_BATTERY_LEVEL_CHAR :: u16 where [nrf_codes]: "BLE_UUID_BATTERY_LEVEL_CHAR = 0x2A19"
definition INVALID_BATTERY_LEVEL :: u8 where [nrf_codes]: "INVALID_BATTERY_LEVEL = 255"

subsection \<open>The program\<close>

record ble_bas =
  bas_evt_handler :: fnptr
  bas_service_handle :: u16
  battery_level_handles :: ble_gatts_char_handles
  report_ref_handle :: u16
  battery_level_last :: u8
  bas_conn_handle :: u16
  is_notification_supported :: bool

record ble_bas_init_t =
  bas_init_evt_handler :: fnptr
  support_notification :: bool
  p_report_ref :: "ble_srv_report_ref option"
  initial_batt_level :: u8
  bas_cccd_write_perm :: ble_gap_conn_sec_mode
  bas_read_perm :: ble_gap_conn_sec_mode
  bas_write_perm :: ble_gap_conn_sec_mode
  battery_level_report_read_perm :: ble_gap_conn_sec_mode

datatype ble_bas_evt = BLE_BAS_EVT_NOTIFICATION_ENABLED | BLE_BAS_EVT_NOTIFICATION_DISABLED

type_synonym 'w bas_handler = "ble_bas \<Rightarrow> ble_bas_evt \<Rightarrow> ('w world_scheme, unit) prog"

definition bas_on_connect :: "ble_bas \<Rightarrow> u16 \<Rightarrow> ble_bas" where
  "bas_on_connect p_bas conn_handle = p_bas\<lparr>bas_conn_handle := conn_handle\<rparr>"

definition bas_on_disconnect :: "ble_bas \<Rightarrow> ble_bas" where
  "bas_on_disconnect p_bas = p_bas\<lparr>bas_conn_handle := BLE_CONN_HANDLE_INVALID\<rparr>"

definition bas_on_write ::
  "'w bas_handler \<Rightarrow> ble_bas \<Rightarrow> ble_gatts_evt_write \<Rightarrow> ('w world_scheme, unit) prog" where
  "bas_on_write evt_handler p_bas p_evt_write =
     (if is_notification_supported p_bas
      then if w_handle p_evt_write = cccd_handle (battery_level_handles p_bas) \<and> w_len p_evt_write = 2
           then if bas_evt_handler p_bas \<noteq> NULL
                then evt_handler p_bas
                       (if ble_srv_is_notification_enabled (w_data p_evt_write)
                        then BLE_BAS_EVT_NOTIFICATION_ENABLED else BLE_BAS_EVT_NOTIFICATION_DISABLED)
                else ret ()
           else ret ()
      else ret ())"

definition ble_bas_on_ble_evt ::
  "'w bas_handler \<Rightarrow> ble_bas option \<Rightarrow> ble_evt option \<Rightarrow> ('w world_scheme, ble_bas option) prog" where
  "ble_bas_on_ble_evt evt_handler p_bas p_ble_evt =
     (case (p_bas, p_ble_evt) of
        (Some bas, Some evt) \<Rightarrow>
          (case evt of
             BLE_GAP_EVT_CONNECTED conn_handle _ _ \<Rightarrow> ret (Some (bas_on_connect bas conn_handle))
           | BLE_GAP_EVT_DISCONNECTED _ _ \<Rightarrow> ret (Some (bas_on_disconnect bas))
           | BLE_GATTS_EVT_WRITE _ w \<Rightarrow> andthen (bas_on_write evt_handler bas w) (ret (Some bas))
           | _ \<Rightarrow> ret (Some bas))
      | _ \<Rightarrow> ret p_bas)"

text \<open>
  \<open>enc0\<close> is the uninitialised array \<^verbatim>\<open>encoded_report_ref\<close>.
\<close>

definition battery_level_char_add ::
  "bytes \<Rightarrow> ble_bas \<Rightarrow> ble_bas_init_t \<Rightarrow> ('w world_scheme, u32 \<times> ble_bas) prog" where
  "battery_level_char_add enc0 p_bas p_bas_init =
     (let cccd_md = zero_attr_md\<lparr>read_perm := SEC_MODE_OPEN, write_perm := bas_cccd_write_perm p_bas_init,
            vloc := BLE_GATTS_VLOC_STACK\<rparr>;
          char_md = zero_char_md\<lparr>
            char_props := no_char_props\<lparr>cp_read := True, cp_notify := is_notification_supported p_bas\<rparr>,
            p_char_user_desc := None, p_char_pf := None, p_user_desc_md := None,
            p_cccd_md := (if is_notification_supported p_bas then Some cccd_md else None), p_sccd_md := None\<rparr>;
          attr_md = zero_attr_md\<lparr>read_perm := bas_read_perm p_bas_init, write_perm := bas_write_perm p_bas_init,
            vloc := BLE_GATTS_VLOC_STACK, rd_auth := False, wr_auth := False, vlen := False\<rparr>;
          attr_char_value = \<lparr>attr_uuid = BLE_UUID_BLE_ASSIGN BLE_UUID_BATTERY_LEVEL_CHAR, attr_md = attr_md,
            init_len = 1, init_offs = 0, max_len = 1, p_value = Some [initial_batt_level p_bas_init]\<rparr>
      in bnd (svc (Gatt (Sd_ble_gatts_characteristic_add (bas_service_handle p_bas) char_md attr_char_value))) (\<lambda>r.
         let p_bas = p_bas\<lparr>battery_level_handles := out_handles r\<rparr>
         in if rc r \<noteq> NRF_SUCCESS then ret (rc r, p_bas)
            else (case p_report_ref p_bas_init of
                    Some ref \<Rightarrow>
                      bnd (ble_srv_report_ref_encode enc0 ref) (\<lambda>(len, encoded_report_ref).
                      let attr_md = zero_attr_md\<lparr>read_perm := battery_level_report_read_perm p_bas_init,
                            write_perm := SEC_MODE_NO_ACCESS, vloc := BLE_GATTS_VLOC_STACK,
                            rd_auth := False, wr_auth := False, vlen := False\<rparr>;
                          attr_char_value = \<lparr>attr_uuid = BLE_UUID_BLE_ASSIGN BLE_UUID_REPORT_REF_DESCR,
                            attr_md = attr_md, init_len = ucast len, init_offs = 0, max_len = ucast len,
                            p_value = Some encoded_report_ref\<rparr>
                      in bnd (svc (Gatt (Sd_ble_gatts_descriptor_add
                                (value_handle (battery_level_handles p_bas)) attr_char_value))) (\<lambda>r.
                         let p_bas = p_bas\<lparr>report_ref_handle := out_u16 r\<rparr>
                         in if rc r \<noteq> NRF_SUCCESS then ret (rc r, p_bas) else ret (NRF_SUCCESS, p_bas)))
                  | None \<Rightarrow>
                      ret (NRF_SUCCESS, p_bas\<lparr>report_ref_handle := BLE_GATT_HANDLE_INVALID\<rparr>))))"

definition ble_bas_init ::
  "bytes \<Rightarrow> ble_bas option \<Rightarrow> ble_bas_init_t option \<Rightarrow> ('w world_scheme, u32 \<times> ble_bas option) prog" where
  "ble_bas_init enc0 p_bas p_bas_init =
     (case (p_bas, p_bas_init) of
        (Some bas, Some ini) \<Rightarrow>
          (let bas = bas\<lparr>bas_evt_handler := bas_init_evt_handler ini, bas_conn_handle := BLE_CONN_HANDLE_INVALID,
                 is_notification_supported := support_notification ini,
                 battery_level_last := INVALID_BATTERY_LEVEL\<rparr>
           in bnd (svc (Gatt (Sd_ble_gatts_service_add BLE_GATTS_SRVC_TYPE_PRIMARY
                    (BLE_UUID_BLE_ASSIGN BLE_UUID_BATTERY_SERVICE)))) (\<lambda>r.
              let bas = bas\<lparr>bas_service_handle := out_u16 r\<rparr>
              in if rc r \<noteq> NRF_SUCCESS then ret (rc r, Some bas)
                 else bnd (battery_level_char_add enc0 bas ini) (\<lambda>(e, bas). ret (e, Some bas))))
      | _ \<Rightarrow> ret (NRF_ERROR_NULL, p_bas))"

definition ble_bas_battery_level_update ::
  "ble_bas option \<Rightarrow> u8 \<Rightarrow> ('w world_scheme, u32 \<times> ble_bas option) prog" where
  "ble_bas_battery_level_update p_bas battery_level =
     (case p_bas of
        None \<Rightarrow> ret (NRF_ERROR_NULL, None)
      | Some bas \<Rightarrow>
          if battery_level \<noteq> battery_level_last bas
          then bnd (svc_rc (Gatt (Sd_ble_gatts_value_set (bas_conn_handle bas)
                       (value_handle (battery_level_handles bas)) 1 0 [battery_level]))) (\<lambda>err_code.
               if err_code = NRF_SUCCESS
               then (let bas = bas\<lparr>battery_level_last := battery_level\<rparr>
                     in if bas_conn_handle bas \<noteq> BLE_CONN_HANDLE_INVALID \<and> is_notification_supported bas
                        then bnd (svc_rc (Gatt (Sd_ble_gatts_hvx (bas_conn_handle bas)
                                    (value_handle (battery_level_handles bas)) BLE_GATT_HVX_NOTIFICATION
                                    0 1 [battery_level]))) (\<lambda>err_code. ret (err_code, Some bas))
                        else ret (NRF_ERROR_INVALID_STATE, Some bas))
               else ret (err_code, Some bas))
          else ret (NRF_SUCCESS, Some bas))"

subsection \<open>Specification\<close>

text \<open>
  The level the peer can read: the value of the last successful write of the attribute in a
  history of calls, or the initial one.
\<close>

primrec attr_value :: "(call list \<Rightarrow> call \<Rightarrow> reply) \<Rightarrow> u16 \<Rightarrow> u8 \<Rightarrow> call list \<Rightarrow> call list \<Rightarrow> u8" where
  "attr_value env h v past [] = v"
| "attr_value env h v past (c # cs) =
     attr_value env h
       (case c of
          Gatt (Sd_ble_gatts_value_set conn h' len offs d) \<Rightarrow>
            if h' = h \<and> len = 1 \<and> offs = 0 \<and> rc (env past c) = NRF_SUCCESS then d ! 0 else v
        | _ \<Rightarrow> v)
       (past @ [c]) cs"

definition bas_consistent :: "u8 \<Rightarrow> ble_bas \<Rightarrow> 'w world_scheme \<Rightarrow> bool" where
  "bas_consistent v0 bas s \<longleftrightarrow>
     attr_value (sd_env s) (value_handle (battery_level_handles bas)) v0 [] (sd_trace s)
     = (if battery_level_last bas = INVALID_BATTERY_LEVEL then v0 else battery_level_last bas)"

definition demo_bas :: ble_bas where
  "demo_bas = \<lparr>bas_evt_handler = 0, bas_service_handle = 16,
     battery_level_handles = \<lparr>value_handle = 18, user_desc_handle = 0, cccd_handle = 19, sccd_handle = 0\<rparr>,
     report_ref_handle = 0, battery_level_last = 255, bas_conn_handle = 3, is_notification_supported = True\<rparr>"

subsection \<open>Facts\<close>

lemma attr_value_append:
  "attr_value env h v past (cs @ ds) = attr_value env h (attr_value env h v past cs) (past @ cs) ds"
  by (induction cs arbitrary: v past) simp_all

interpretation bas_srv: service_module "ble_bas_init enc0 (Some p_bas) (Some i)"
  "BLE_UUID_BLE_ASSIGN BLE_UUID_BATTERY_SERVICE" "length enc0 = 2"
  for p_bas :: ble_bas and i :: ble_bas_init_t and enc0
  by unfold_locales
    (auto simp: ble_bas_init_def battery_level_char_add_def Let_def bnd_run split: option.splits)

subsection \<open>Properties\<close>

text \<open>
  An update keeps the remembered level equal to the level in the attribute, notifies at
  most once and only a connected peer, and does nothing at all when the level is unchanged.
\<close>

lemma bas_update_consistent:
  assumes "bas_consistent v0 bas s" and "level \<noteq> INVALID_BATTERY_LEVEL"
    and "ble_bas_battery_level_update (Some bas) level s = (Ret (e, Some bas'), s')"
  shows "bas_consistent v0 bas' s'
    \<and> (e = NRF_SUCCESS \<longrightarrow> battery_level_last bas' = level)
    \<and> (level = battery_level_last bas \<longrightarrow> sd_trace s' = sd_trace s \<and> e = NRF_SUCCESS)
    \<and> (bas_conn_handle bas = BLE_CONN_HANDLE_INVALID \<longrightarrow>
        (\<forall>c t ty l offs d. Gatt (Sd_ble_gatts_hvx c t ty l offs d) \<notin> set (drop (length (sd_trace s)) (sd_trace s'))))"
  using assms
  by (auto simp: ble_bas_battery_level_update_def bas_consistent_def bnd_run Let_def attr_value_append
      split: if_splits)

lemma bas_update_consistent_example:
  "bas_consistent 0 (demo_bas\<lparr>battery_level_last := 42\<rparr>)
     (snd (ble_bas_battery_level_update (Some demo_bas) 42 demo_world))"
  using bas_update_consistent [of 0 demo_bas demo_world 42 NRF_SUCCESS "demo_bas\<lparr>battery_level_last := 42\<rparr>"
      "snd (ble_bas_battery_level_update (Some demo_bas) 42 demo_world)"]
  by (simp add: bas_consistent_def demo_bas_def demo_world_def demo_env_def null_reply_def
      ble_bas_battery_level_update_def bnd_run Let_def nrf_codes)

end
