(* ===== verification/AlertServices.thy ===== *)
theory AlertServices
  imports SrvCommon
begin

text \<open>
  The Immediate Alert, Link Loss and TX Power services:
  \<^verbatim>\<open>components/ble/ble_services/{ble_ias,ble_lls,ble_tps}\<close>. A service structure is a record;
  its event handler is a function pointer in the structure and the code it points to a
  parameter of the functions that call it.
\<close>

definition BLE_UUID_IMMEDIATE_ALERT_SERVICE :: u16 where [nrf_codes]: "BLE_UUID_IMMEDIATE_ALERT_SERVICE = 0x1802"
definition BLE_UUID_LINK_LOSS_SERVICE :: u16 where [nrf_codes]: "BLE_UUID_LINK_LOSS_SERVICE = 0x1803"
definition BLE_UUID_TX_POWER_SERVICE :: u16 where [nrf_codes]: "BLE_UUID_TX_POWER_SERVICE = 0x1804"
definition BLE_UUID_ALERT_LEVEL_CHAR :: u16 where [nrf_codes]: "BLE_UUID_ALERT_LEVEL_CHAR = 0x2A06"
definition BLE_UUID_TX_POWER_LEVEL_CHAR :: u16 where [nrf_codes]: "BLE_UUID_TX_POWER_LEVEL_CHAR = 0x2A07"

subsection \<open>Immediate Alert Service\<close>

record ble_ias =
  ias_evt_handler :: fnptr
  ias_service_handle :: u16
  ias_alert_level_handles :: ble_gatts_char_handles
  ias_conn_handle :: u16

text \<open>The only event of the service carries the new alert level.\<close>

datatype ble_ias_evt = BLE_IAS_EVT_ALERT_LEVEL_UPDATED u8

type_synonym 'w ias_handler = "ble_ias \<Rightarrow> ble_ias_evt \<Rightarrow> ('w world_scheme, unit) prog"

definition ias_on_connect :: "ble_ias \<Rightarrow> u16 \<Rightarrow> ble_ias" where
  "ias_on_connect p_ias conn_handle = p_ias\<lparr>ias_conn_handle := conn_handle\<rparr>"

definition ias_on_write ::
  "'w ias_handler \<Rightarrow> ble_ias \<Rightarrow> ble_gatts_evt_write \<Rightarrow> ('w world_scheme, unit) prog" where
  "ias_on_write evt_handler p_ias p_evt_write =
     (if w_handle p_evt_write = value_handle (ias_alert_level_handles p_ias) \<and> w_len p_evt_write = 1
      then evt_handler p_ias (BLE_IAS_EVT_ALERT_LEVEL_UPDATED (w_data p_evt_write ! 0))
      else ret ())"

definition ble_ias_on_ble_evt ::
  "'w ias_handler \<Rightarrow> ble_ias \<Rightarrow> ble_evt \<Rightarrow> ('w world_scheme, ble_ias) prog" where
  "ble_ias_on_ble_evt evt_handler p_ias evt =
     (case evt of
        BLE_GAP_EVT_CONNECTED conn_handle _ _ \<Rightarrow> ret (ias_on_connect p_ias conn_handle)
      | BLE_GATTS_EVT_WRITE _ w \<Rightarrow> andthen (ias_on_write evt_handler p_ias w) (ret p_ias)
      | _ \<Rightarrow> ret p_ias)"

definition ias_alert_level_char_add :: "ble_ias \<Rightarrow> ('w world_scheme, u32 \<times> ble_ias) prog" where
  "ias_alert_level_char_add p_ias =
     (let char_md = zero_char_md\<lparr>char_props := no_char_props\<lparr>cp_write_wo_resp := True\<rparr>,
            p_char_user_desc := None, p_char_pf := None, p_user_desc_md := None,
            p_cccd_md := None, p_sccd_md := None\<rparr>;
          attr_md = zero_attr_md\<lparr>read_perm := SEC_MODE_NO_ACCESS, write_perm := SEC_MODE_ENC_NO_MITM,
            vloc := BLE_GATTS_VLOC_STACK, rd_auth := False, wr_auth := False, vlen := False\<rparr>;
          initial_alert_level = BLE_CHAR_ALERT_LEVEL_NO_ALERT;
          attr_char_value = \<lparr>attr_uuid = BLE_UUID_BLE_ASSIGN BLE_UUID_ALERT_LEVEL_CHAR, attr_md = attr_md,
            init_len = 1, init_offs = 0, max_len = 1, p_value = Some [initial_alert_level]\<rparr>
      in bnd (svc (Gatt (Sd_ble_gatts_characteristic_add (ias_service_handle p_ias) char_md attr_char_value))) (\<lambda>r.
         ret (rc r, p_ias\<lparr>ias_alert_level_handles := out_handles r\<rparr>)))"

definition ble_ias_init :: "ble_ias \<Rightarrow> fnptr \<Rightarrow> ('w world_scheme, u32 \<times> ble_ias) prog" where
  "ble_ias_init p_ias init_evt_handler =
     (if init_evt_handler = NULL then ret (NRF_ERROR_INVALID_PARAM, p_ias)
      else (let p_ias = p_ias\<lparr>ias_evt_handler := init_evt_handler\<rparr>
            in bnd (svc (Gatt (Sd_ble_gatts_service_add BLE_GATTS_SRVC_TYPE_PRIMARY
                     (BLE_UUID_BLE_ASSIGN BLE_UUID_IMMEDIATE_ALERT_SERVICE)))) (\<lambda>r.
               let p_ias = p_ias\<lparr>ias_service_handle := out_u16 r\<rparr>
               in if rc r \<noteq> NRF_SUCCESS then ret (rc r, p_ias) else ias_alert_level_char_add p_ias)))"

definition ble_ias_alert_level_get :: "ble_ias \<Rightarrow> ('w world_scheme, u32 \<times> u8) prog" where
  "ble_ias_alert_level_get p_ias =
     bnd (svc (Gatt (Sd_ble_gatts_value_get (ias_conn_handle p_ias)
            (value_handle (ias_alert_level_handles p_ias)) 1 0))) (\<lambda>r. ret (rc r, out_u8 r))"

subsection \<open>Link Loss Service\<close>

record ble_lls =
  lls_evt_handler :: fnptr
  lls_error_handler :: fnptr
  lls_service_handle :: u16
  lls_alert_level_handles :: ble_gatts_char_handles
  lls_conn_handle :: u16

record ble_lls_init_t =
  lls_init_evt_handler :: fnptr
  lls_init_error_handler :: fnptr
  initial_alert_level :: u8
  lls_read_perm :: ble_gap_conn_sec_mode
  lls_write_perm :: ble_gap_conn_sec_mode

datatype ble_lls_evt = BLE_LLS_EVT_LINK_LOSS_ALERT u8

type_synonym 'w lls_handler = "ble_lls \<Rightarrow> ble_lls_evt \<Rightarrow> ('w world_scheme, unit) prog"
type_synonym 'w error_handler = "u32 \<Rightarrow> ('w world_scheme, unit) prog"

definition ble_lls_alert_level_get :: "ble_lls \<Rightarrow> ('w world_scheme, u32 \<times> u8) prog" where
  "ble_lls_alert_level_get p_lls =
     bnd (svc (Gatt (Sd_ble_gatts_value_get (lls_conn_handle p_lls)
            (value_handle (lls_alert_level_handles p_lls)) 1 0))) (\<lambda>r. ret (rc r, out_u8 r))"

definition lls_on_connect ::
  "'w lls_handler \<Rightarrow> ble_lls \<Rightarrow> u16 \<Rightarrow> ('w world_scheme, ble_lls) prog" where
  "lls_on_connect evt_handler p_lls conn_handle =
     (let p_lls = p_lls\<lparr>lls_conn_handle := conn_handle\<rparr>
      in andthen (evt_handler p_lls (BLE_LLS_EVT_LINK_LOSS_ALERT BLE_CHAR_ALERT_LEVEL_NO_ALERT)) (ret p_lls))"

definition lls_on_disconnect ::
  "'w lls_handler \<Rightarrow> 'w error_handler \<Rightarrow> ble_lls \<Rightarrow> u8 \<Rightarrow> ('w world_scheme, unit) prog" where
  "lls_on_disconnect evt_handler error_handler p_lls reason =
     (if reason = BLE_HCI_CONNECTION_TIMEOUT
      then bnd (ble_lls_alert_level_get p_lls) (\<lambda>(err_code, alert_level).
           if err_code = NRF_SUCCESS
           then evt_handler p_lls (BLE_LLS_EVT_LINK_LOSS_ALERT alert_level)
           else guarded (lls_error_handler p_lls \<noteq> NULL) (error_handler err_code))
      else ret ())"

definition lls_on_auth_status ::
  "'w lls_handler \<Rightarrow> ble_lls \<Rightarrow> u8 \<Rightarrow> ('w world_scheme, unit) prog" where
  "lls_on_auth_status evt_handler p_lls auth_status =
     guarded (auth_status = BLE_GAP_SEC_STATUS_SUCCESS)
       (evt_handler p_lls (BLE_LLS_EVT_LINK_LOSS_ALERT BLE_CHAR_ALERT_LEVEL_NO_ALERT))"

definition ble_lls_on_ble_evt ::
  "'w lls_handler \<Rightarrow> 'w error_handler \<Rightarrow> ble_lls \<Rightarrow> ble_evt \<Rightarrow> ('w world_scheme, ble_lls) prog" where
  "ble_lls_on_ble_evt evt_handler error_handler p_lls evt =
     (case evt of
        BLE_GAP_EVT_CONNECTED conn_handle _ _ \<Rightarrow> lls_on_connect evt_handler p_lls conn_handle
      | BLE_GAP_EVT_DISCONNECTED _ reason \<Rightarrow>
          andthen (lls_on_disconnect evt_handler error_handler p_lls reason) (ret p_lls)
      | BLE_GAP_EVT_AUTH_STATUS _ auth_status \<Rightarrow>
          andthen (lls_on_auth_status evt_handler p_lls auth_status) (ret p_lls)
      | _ \<Rightarrow> ret p_lls)"

definition lls_alert_level_char_add ::
  "ble_lls \<Rightarrow> ble_lls_init_t \<Rightarrow> ('w world_scheme, u32 \<times> ble_lls) prog" where
  "lls_alert_level_char_add p_lls p_lls_init =
     (let char_md = zero_char_md\<lparr>char_props := no_char_props\<lparr>cp_read := True, cp_write := True\<rparr>,
            p_char_user_desc := None, p_char_pf := None, p_user_desc_md := None,
            p_cccd_md := None, p_sccd_md := None\<rparr>;
          attr_md = zero_attr_md\<lparr>read_perm := lls_read_perm p_lls_init, write_perm := lls_write_perm p_lls_init,
            vloc := BLE_GATTS_VLOC_STACK, rd_auth := False, wr_auth := False, vlen := False\<rparr>;
          attr_char_value = \<lparr>attr_uuid = BLE_UUID_BLE_ASSIGN BLE_UUID_ALERT_LEVEL_CHAR, attr_md = attr_md,
            init_len = 1, init_offs = 0, max_len = 1, p_value = Some [initial_alert_level p_lls_init]\<rparr>
      in bnd (svc (Gatt (Sd_ble_gatts_characteristic_add (lls_service_handle p_lls) char_md attr_char_value))) (\<lambda>r.
         ret (rc r, p_lls\<lparr>lls_alert_level_handles := out_handles r\<rparr>)))"

definition ble_lls_init :: "ble_lls \<Rightarrow> ble_lls_init_t \<Rightarrow> ('w world_scheme, u32 \<times> ble_lls) prog" where
  "ble_lls_init p_lls p_lls_init =
     (if lls_init_evt_handler p_lls_init = NULL then ret (NRF_ERROR_INVALID_PARAM, p_lls)
      else (let p_lls = p_lls\<lparr>lls_evt_handler := lls_init_evt_handler p_lls_init,
                  lls_error_handler := lls_init_error_handler p_lls_init\<rparr>
            in bnd (svc (Gatt (Sd_ble_gatts_service_add BLE_GATTS_SRVC_TYPE_PRIMARY
                     (BLE_UUID_BLE_ASSIGN BLE_UUID_LINK_LOSS_SERVICE)))) (\<lambda>r.
               let p_lls = p_lls\<lparr>lls_service_handle := out_u16 r\<rparr>
               in if rc r \<noteq> NRF_SUCCESS then ret (rc r, p_lls) else lls_alert_level_char_add p_lls p_lls_init)))"

subsection \<open>TX Power Service\<close>

record ble_tps =
  tps_service_handle :: u16
  tx_power_level_handles :: ble_gatts_char_handles
  tps_conn_handle :: u16

record ble_tps_init_t =
  initial_tx_power_level :: u8
  tps_read_perm :: ble_gap_conn_sec_mode
  tps_write_perm :: ble_gap_conn_sec_mode

definition tps_on_connect :: "ble_tps \<Rightarrow> u16 \<Rightarrow> ble_tps" where
  "tps_on_connect p_tps conn_handle = p_tps\<lparr>tps_conn_handle := conn_handle\<rparr>"

definition ble_tps_on_ble_evt :: "ble_tps \<Rightarrow> ble_evt \<Rightarrow> ble_tps" where
  "ble_tps_on_ble_evt p_tps evt =
     (case evt of
        BLE_GAP_EVT_CONNECTED conn_handle _ _ \<Rightarrow> tps_on_connect p_tps conn_handle
      | _ \<Rightarrow> p_tps)"

definition tx_power_level_char_add ::
  "ble_tps \<Rightarrow> ble_tps_init_t \<Rightarrow> ('w world_scheme, u32 \<times> ble_tps) prog" where
  "tx_power_level_char_add p_tps p_tps_init =
     (let char_md = zero_char_md\<lparr>char_props := no_char_props\<lparr>cp_read := True\<rparr>,
            p_char_user_desc := None, p_char_pf := None, p_user_desc_md := None,
            p_cccd_md := None, p_sccd_md := None\<rparr>;
          attr_md = zero_attr_md\<lparr>read_perm := tps_read_perm p_tps_init, write_perm := tps_write_perm p_tps_init,
            vloc := BLE_GATTS_VLOC_STACK, rd_auth := False, wr_auth := False, vlen := False\<rparr>;
          attr_char_value = \<lparr>attr_uuid = BLE_UUID_BLE_ASSIGN BLE_UUID_TX_POWER_LEVEL_CHAR, attr_md = attr_md,
            init_len = 1, init_offs = 0, max_len = 1, p_value = Some [initial_tx_power_level p_tps_init]\<rparr>
      in bnd (svc (Gatt (Sd_ble_gatts_characteristic_add (tps_service_handle p_tps) char_md attr_char_value))) (\<lambda>r.
         ret (rc r, p_tps\<lparr>tx_power_level_handles := out_handles r\<rparr>)))"

definition ble_tps_init :: "ble_tps \<Rightarrow> ble_tps_init_t \<Rightarrow> ('w world_scheme, u32 \<times> ble_tps) prog" where
  "ble_tps_init p_tps p_tps_init =
     bnd (svc (Gatt (Sd_ble_gatts_service_add BLE_GATTS_SRVC_TYPE_PRIMARY
            (BLE_UUID_BLE_ASSIGN BLE_UUID_TX_POWER_SERVICE)))) (\<lambda>r.
     let p_tps = p_tps\<lparr>tps_service_handle := out_u16 r\<rparr>
     in if rc r \<noteq> NRF_SUCCESS then ret (rc r, p_tps) else tx_power_level_char_add p_tps p_tps_init)"

definition ble_tps_tx_power_level_set :: "ble_tps \<Rightarrow> u8 \<Rightarrow> ('w world_scheme, u32) prog" where
  "ble_tps_tx_power_level_set p_tps tx_power_level =
     svc_rc (Gatt (Sd_ble_gatts_value_set (tps_conn_handle p_tps)
       (value_handle (tx_power_level_handles p_tps)) 1 0 [tx_power_level]))"

subsection \<open>Initialisation\<close>

interpretation ias_srv: service_module "ble_ias_init p_ias h"
  "BLE_UUID_BLE_ASSIGN BLE_UUID_IMMEDIATE_ALERT_SERVICE" "h \<noteq> NULL"
  for p_ias :: ble_ias and h
  by unfold_locales (simp_all add: ble_ias_init_def ias_alert_level_char_add_def Let_def bnd_run)

interpretation lls_srv: service_module "ble_lls_init p_lls i"
  "BLE_UUID_BLE_ASSIGN BLE_UUID_LINK_LOSS_SERVICE" "lls_init_evt_handler i \<noteq> NULL"
  for p_lls :: ble_lls and i :: ble_lls_init_t
  by unfold_locales (simp_all add: ble_lls_init_def lls_alert_level_char_add_def Let_def bnd_run)

interpretation tps_srv: service_module "ble_tps_init p_tps i"
  "BLE_UUID_BLE_ASSIGN BLE_UUID_TX_POWER_SERVICE" True
  for p_tps :: ble_tps and i :: ble_tps_init_t
  by unfold_locales (simp_all add: ble_tps_init_def tx_power_level_char_add_def Let_def bnd_run)

subsection \<open>Properties\<close>

text \<open>
  The link-loss service reports to the application exactly what the proximity profile asks
  for: when the link is lost by a supervision timeout, the alert level stored in the attribute
  at that moment, or the read error to the error handler if there is one; nothing when the
  link ends for another reason; and no alert when the link comes back or authenticates.
\<close>

lemma lls_reports:
  "ble_lls_on_ble_evt h e p (BLE_GAP_EVT_DISCONNECTED c reason) s =
     (let r = sd_env s (sd_trace s) (Gatt (Sd_ble_gatts_value_get (lls_conn_handle p)
                (value_handle (lls_alert_level_handles p)) 1 0));
          s1 = s\<lparr>sd_trace := sd_trace s @ [Gatt (Sd_ble_gatts_value_get (lls_conn_handle p)
                (value_handle (lls_alert_level_handles p)) 1 0)]\<rparr>
      in if reason \<noteq> 0x08 then (Ret p, s)
         else if rc r = NRF_SUCCESS then andthen (h p (BLE_LLS_EVT_LINK_LOSS_ALERT (out_u8 r))) (ret p) s1
         else if lls_error_handler p \<noteq> NULL then andthen (e (rc r)) (ret p) s1
         else (Ret p, s1))
   \<and> ble_lls_on_ble_evt h e p (BLE_GAP_EVT_CONNECTED c role cp) s =
       andthen (h (p\<lparr>lls_conn_handle := c\<rparr>) (BLE_LLS_EVT_LINK_LOSS_ALERT 0)) (ret (p\<lparr>lls_conn_handle := c\<rparr>)) s
   \<and> ble_lls_on_ble_evt h e p (BLE_GAP_EVT_AUTH_STATUS c st) s =
       (if st = 0 then andthen (h p (BLE_LLS_EVT_LINK_LOSS_ALERT 0)) (ret p) s else (Ret p, s))"
  by (simp add: ble_lls_on_ble_evt_def lls_on_connect_def lls_on_disconnect_def lls_on_auth_status_def
      ble_lls_alert_level_get_def Let_def bnd_run andthen_run guarded_run nrf_codes)

text \<open>
  An immediate alert is raised exactly by a one-byte write to the alert level value, with
  the byte written; every other write and every other event leaves the application alone.
\<close>

lemma ias_alerts:
  "ble_ias_on_ble_evt h p evt s =
     (case evt of
        BLE_GATTS_EVT_WRITE c w \<Rightarrow>
          if w_handle w = value_handle (ias_alert_level_handles p) \<and> w_len w = 1
          then andthen (h p (BLE_IAS_EVT_ALERT_LEVEL_UPDATED (w_data w ! 0))) (ret p) s
          else (Ret p, s)
      | BLE_GAP_EVT_CONNECTED c _ _ \<Rightarrow> (Ret (p\<lparr>ias_conn_handle := c\<rparr>), s)
      | _ \<Rightarrow> (Ret p, s))"
  by (simp add: ble_ias_on_ble_evt_def ias_on_write_def ias_on_connect_def andthen_run split: ble_evt.splits)

end
