(* ===== verification/DbDiscovery.thy ===== *)
theory DbDiscovery
  imports SoftDevice
begin

text \<open>
  Service discovery, \<^verbatim>\<open>components/ble/ble_db_discovery/ble_db_discovery.c\<close>: for every registered service
  the module asks the peer for the service, then for its characteristics, as often as it takes, and
  then for the descriptors of each characteristic; when all services are through, the
  collected events are given to the application. Each handler is driven by the response to the
  request that the one before has made.
\<close>

subsection \<open>Data\<close>

definition BLE_GATT_DB_MAX_CHARS :: u8 where "BLE_GATT_DB_MAX_CHARS = 5"
definition DB_DISCOVERY_MAX_USERS :: u32 where "DB_DISCOVERY_MAX_USERS = 6"
definition SRV_DISC_START_HANDLE :: u16 where "SRV_DISC_START_HANDLE = 1"

record ble_gatt_db_char =
  characteristic :: ble_gattc_char
  db_cccd_handle :: u16
  db_ext_prop_handle :: u16
  db_user_desc_handle :: u16
  db_report_ref_handle :: u16

record ble_gatt_db_srv =
  srv_uuid :: ble_uuid
  char_count :: u8
  handle_range :: ble_gattc_handle_range
  charateristics :: "ble_gatt_db_char list"

record ble_db_discovery =
  services :: "ble_gatt_db_srv list"
  srv_count :: u8
  curr_char_ind :: u8
  curr_srv_ind :: u8
  discovery_in_progress :: bool
  discoveries_count :: u8
  disc_conn_handle :: u16

datatype ble_db_discovery_evt_type =
    BLE_DB_DISCOVERY_COMPLETE
  | BLE_DB_DISCOVERY_ERROR
  | BLE_DB_DISCOVERY_SRV_NOT_FOUND
  | BLE_DB_DISCOVERY_AVAILABLE

text \<open>The union \<^verbatim>\<open>params\<close>.\<close>

datatype dd_params = Discovered_db (discovered_db: ble_gatt_db_srv) | Err_code u32

record ble_db_discovery_evt =
  dd_evt_type :: ble_db_discovery_evt_type
  dd_conn_handle :: u16
  dd_params :: dd_params

text \<open>
  The variables of the module, the structure the application passes to it (\<open>db_p\<close>), and the state
  of the application that the event handler works on.
\<close>

record 'c db_disc =
  m_registered_handlers :: "ble_uuid list"
  m_pending_user_evts :: "(ble_db_discovery_evt \<times> fnptr) list"
  db_evt_handler :: fnptr
  m_pending_usr_evt_index :: u32
  m_num_of_handlers_reg :: u32
  db_initialized :: bool
  db_p :: ble_db_discovery
  db_client :: 'c

type_synonym ('w, 'c) db_prog = "'c db_disc \<Rightarrow> ('w world_scheme, 'c db_disc) prog"

text \<open>
  What the module's code depends on: the code behind the handler pointer, the memory in front of
  the array of characteristics, and what happens when an element behind that array is written.
\<close>

record ('w, 'c) db_ctx =
  dc_handler :: "fnptr \<Rightarrow> ble_db_discovery_evt \<Rightarrow> 'c \<Rightarrow> ('w world_scheme, 'c) prog"
  dc_before :: ble_gattc_char
  dc_wild :: "('w, 'c) db_prog"

definition curr_srv :: "'c db_disc \<Rightarrow> ble_gatt_db_srv" where
  "curr_srv st = services (db_p st) ! unat (curr_srv_ind (db_p st))"

definition put_srv :: "ble_gatt_db_srv \<Rightarrow> 'c db_disc \<Rightarrow> 'c db_disc" where
  "put_srv srv st = st\<lparr>db_p := (db_p st)\<lparr>services := (services (db_p st))[unat (curr_srv_ind (db_p st)) := srv]\<rparr>\<rparr>"

definition put_char_ind :: "u8 \<Rightarrow> 'c db_disc \<Rightarrow> 'c db_disc" where
  "put_char_ind i st = st\<lparr>db_p := (db_p st)\<lparr>curr_char_ind := i\<rparr>\<rparr>"

definition put_progress :: "bool \<Rightarrow> 'c db_disc \<Rightarrow> 'c db_disc" where
  "put_progress b st = st\<lparr>db_p := (db_p st)\<lparr>discovery_in_progress := b\<rparr>\<rparr>"

subsection \<open>Registration and events\<close>

definition registered_handler_get :: "'c db_disc \<Rightarrow> ble_uuid \<Rightarrow> fnptr" where
  "registered_handler_get st u =
     (if \<exists>i < unat (m_num_of_handlers_reg st). BLE_UUID_EQ (m_registered_handlers st ! i) u
      then db_evt_handler st else NULL)"

definition registered_handler_set :: "ble_uuid \<Rightarrow> 'c db_disc \<Rightarrow> u32 \<times> 'c db_disc" where
  "registered_handler_set u st =
     (if registered_handler_get st u \<noteq> NULL then (NRF_SUCCESS, st)
      else if m_num_of_handlers_reg st < DB_DISCOVERY_MAX_USERS
      then (NRF_SUCCESS, st\<lparr>m_registered_handlers := (m_registered_handlers st)[unat (m_num_of_handlers_reg st) := u],
                           m_num_of_handlers_reg := m_num_of_handlers_reg st + 1\<rparr>)
      else (NRF_ERROR_NO_MEM, st))"

primrec send_evts :: "('w, 'c) db_ctx \<Rightarrow> (ble_db_discovery_evt \<times> fnptr) list \<Rightarrow> 'c \<Rightarrow> ('w world_scheme, 'c) prog" where
  "send_evts cx [] c = ret c"
| "send_evts cx (p # ps) c = bnd (dc_handler cx (snd p) (fst p) c) (send_evts cx ps)"

definition pending_user_evts_send :: "('w, 'c) db_ctx \<Rightarrow> ('w, 'c) db_prog" where
  "pending_user_evts_send cx st =
     bnd (send_evts cx (take (unat (m_num_of_handlers_reg st)) (m_pending_user_evts st)) (db_client st)) (\<lambda>c.
     ret (st\<lparr>db_client := c, m_pending_usr_evt_index := 0\<rparr>))"

definition discovery_error_evt_trigger :: "('w, 'c) db_ctx \<Rightarrow> u32 \<Rightarrow> u16 \<Rightarrow> ('w, 'c) db_prog" where
  "discovery_error_evt_trigger cx e conn st =
     (let h = registered_handler_get st (srv_uuid (curr_srv st))
      in if h \<noteq> NULL
         then bnd (dc_handler cx h \<lparr>dd_evt_type = BLE_DB_DISCOVERY_ERROR, dd_conn_handle = conn, dd_params = Err_code e\<rparr>
                     (db_client st)) (\<lambda>c. ret (st\<lparr>db_client := c\<rparr>))
         else ret st)"

definition discovery_complete_evt_trigger :: "('w, 'c) db_ctx \<Rightarrow> bool \<Rightarrow> u16 \<Rightarrow> ('w, 'c) db_prog" where
  "discovery_complete_evt_trigger cx is_srv_found conn st =
     (let h = registered_handler_get st (srv_uuid (curr_srv st))
      in if h \<noteq> NULL \<and> m_pending_usr_evt_index st < DB_DISCOVERY_MAX_USERS
         then (let evt = \<lparr>dd_evt_type = if is_srv_found then BLE_DB_DISCOVERY_COMPLETE else BLE_DB_DISCOVERY_SRV_NOT_FOUND,
                          dd_conn_handle = conn, dd_params = Discovered_db (curr_srv st)\<rparr>;
                   st = st\<lparr>m_pending_user_evts := (m_pending_user_evts st)[unat (m_pending_usr_evt_index st) := (evt, h)],
                           m_pending_usr_evt_index := m_pending_usr_evt_index st + 1\<rparr>
               in if m_pending_usr_evt_index st = m_num_of_handlers_reg st then pending_user_evts_send cx st else ret st)
         else ret st)"

text \<open>
  \<^verbatim>\<open>BLE_DB_DISCOVERY_AVAILABLE\<close> is written into the first pending event, but the call that would
  send it is commented out. \<open>discovery_failed\<close> is what every handler does when the stack refuses
  a request.
\<close>

definition mark_available :: "u16 \<Rightarrow> 'c db_disc \<Rightarrow> 'c db_disc" where
  "mark_available conn st = st\<lparr>m_pending_user_evts := (m_pending_user_evts st)
     [0 := ((fst (m_pending_user_evts st ! 0))\<lparr>dd_evt_type := BLE_DB_DISCOVERY_AVAILABLE, dd_conn_handle := conn\<rparr>,
            snd (m_pending_user_evts st ! 0))]\<rparr>"

definition discovery_failed :: "('w, 'c) db_ctx \<Rightarrow> u32 \<Rightarrow> u16 \<Rightarrow> ('w, 'c) db_prog" where
  "discovery_failed cx e conn st =
     bnd (discovery_error_evt_trigger cx e conn (put_progress False st)) (\<lambda>st. ret (mark_available conn st))"

definition on_srv_disc_completion :: "('w, 'c) db_ctx \<Rightarrow> u16 \<Rightarrow> ('w, 'c) db_prog" where
  "on_srv_disc_completion cx conn st =
     (let st = st\<lparr>db_p := (db_p st)\<lparr>discoveries_count := discoveries_count (db_p st) + 1\<rparr>\<rparr>
      in if ucast (discoveries_count (db_p st)) < m_num_of_handlers_reg st
         then (let st = st\<lparr>db_p := (db_p st)\<lparr>curr_char_ind := 0, curr_srv_ind := curr_srv_ind (db_p st) + 1\<rparr>\<rparr>;
                   srv = (curr_srv st)\<lparr>srv_uuid := m_registered_handlers st ! unat (curr_srv_ind (db_p st)), char_count := 0\<rparr>;
                   st = put_srv srv st
               in bnd (svc_rc (Gatt (Sd_ble_gattc_primary_services_discover conn SRV_DISC_START_HANDLE (srv_uuid srv)))) (\<lambda>e.
                  if e \<noteq> NRF_SUCCESS then discovery_failed cx e conn st else ret st))
         else ret (mark_available conn (put_progress False st)))"

subsection \<open>Characteristics and descriptors\<close>

definition is_char_discovery_reqd :: "'c db_disc \<Rightarrow> ble_gattc_char \<Rightarrow> bool" where
  "is_char_discovery_reqd st p_after_char \<longleftrightarrow> gc_handle_value p_after_char < end_handle (handle_range (curr_srv st))"

text \<open>\<^verbatim>\<open>is_desc_discovery_reqd\<close>: the range if discovery is required; it is not used otherwise.\<close>

definition is_desc_discovery_reqd ::
  "ble_gatt_db_srv \<Rightarrow> ble_gatt_db_char \<Rightarrow> ble_gatt_db_char option \<Rightarrow> ble_gattc_handle_range option" where
  "is_desc_discovery_reqd srv cur next_char =
     (case next_char of
        None \<Rightarrow>
          if gc_handle_value (characteristic cur) = end_handle (handle_range srv) then None
          else Some \<lparr>start_handle = gc_handle_value (characteristic cur) + 1, end_handle = end_handle (handle_range srv)\<rparr>
      | Some n \<Rightarrow>
          if uint (gc_handle_value (characteristic cur)) + 1 = uint (gc_handle_decl (characteristic n)) then None
          else Some \<lparr>start_handle = gc_handle_value (characteristic cur) + 1,
                     end_handle = gc_handle_decl (characteristic n) - 1\<rparr>)"

definition characteristics_discover :: "u16 \<Rightarrow> 'c db_disc \<Rightarrow> ('w world_scheme, u32) prog" where
  "characteristics_discover conn st =
     (let srv = curr_srv st; ind = curr_char_ind (db_p st)
      in svc_rc (Gatt (Sd_ble_gattc_characteristics_discover conn
           \<lparr>start_handle = if ind \<noteq> 0 then gc_handle_value (characteristic (charateristics srv ! unat (ind - 1))) + 1
                           else start_handle (handle_range srv),
            end_handle = end_handle (handle_range srv)\<rparr>)))"

text \<open>
  The loop of \<^verbatim>\<open>descriptors_discover\<close> over the characteristics from the current one on. The pointer
  \<^verbatim>\<open>p_curr_char_being_discovered\<close> is at the element \<^verbatim>\<open>i\<close> in each round.
\<close>

primrec desc_scan :: "ble_gatt_db_srv \<Rightarrow> nat list \<Rightarrow> u8 \<Rightarrow> ble_gattc_handle_range option \<times> u8" where
  "desc_scan srv [] ind = (None, ind)"
| "desc_scan srv (i # is) ind =
     (case is_desc_discovery_reqd srv (charateristics srv ! i)
             (if int i = uint (char_count srv) - 1 then None else Some (charateristics srv ! (i + 1))) of
        Some r \<Rightarrow> (Some r, ind)
      | None \<Rightarrow> desc_scan srv is (ind + 1))"

definition descriptors_discover :: "u16 \<Rightarrow> 'c db_disc \<Rightarrow> ('w world_scheme, u32 \<times> bool \<times> 'c db_disc) prog" where
  "descriptors_discover conn st =
     (let srv = curr_srv st; ind = curr_char_ind (db_p st);
          (r, ind) = (if uint ind + 1 = uint (char_count srv)
                      then (is_desc_discovery_reqd srv (charateristics srv ! unat ind) None, ind)
                      else desc_scan srv [unat ind..<unat (char_count srv)] ind);
          st = put_char_ind ind st
      in case r of
           None \<Rightarrow> ret (NRF_SUCCESS, True, st)
         | Some rng \<Rightarrow> bnd (svc_rc (Gatt (Sd_ble_gattc_descriptors_discover conn rng))) (\<lambda>e. ret (e, False, st)))"

definition discovery_completed :: "('w, 'c) db_ctx \<Rightarrow> u16 \<Rightarrow> ('w, 'c) db_prog" where
  "discovery_completed cx conn st =
     bnd (discovery_complete_evt_trigger cx True conn st) (on_srv_disc_completion cx conn)"

text \<open>What both response handlers do with the result of \<^verbatim>\<open>descriptors_discover\<close>.\<close>

definition descriptors_step :: "('w, 'c) db_ctx \<Rightarrow> u16 \<Rightarrow> ('w, 'c) db_prog" where
  "descriptors_step cx conn st =
     bnd (descriptors_discover conn st) (\<lambda>(e, raise_discov_complete, st).
       if e \<noteq> NRF_SUCCESS then discovery_failed cx e conn st
       else if raise_discov_complete then discovery_completed cx conn st
       else ret st)"

subsection \<open>Responses of the peer\<close>

definition on_primary_srv_discovery_rsp ::
  "('w, 'c) db_ctx \<Rightarrow> u16 \<Rightarrow> u16 \<Rightarrow> ble_gattc_service list \<Rightarrow> ('w, 'c) db_prog" where
  "on_primary_srv_discovery_rsp cx conn status rsp st =
     (if conn \<noteq> disc_conn_handle (db_p st) then ret st
      else if status = BLE_GATT_STATUS_SUCCESS
      then (let st = put_srv ((curr_srv st)\<lparr>srv_uuid := gs_uuid (rsp ! 0), handle_range := gs_handle_range (rsp ! 0)\<rparr>) st
            in bnd (characteristics_discover conn st) (\<lambda>e.
               if e \<noteq> NRF_SUCCESS then discovery_failed cx e conn st else ret st))
      else bnd (discovery_complete_evt_trigger cx False conn st) (on_srv_disc_completion cx conn))"

definition fresh_db_char :: "ble_gattc_char \<Rightarrow> ble_gatt_db_char" where
  "fresh_db_char c = \<lparr>characteristic = c, db_cccd_handle = BLE_GATT_HANDLE_INVALID, db_ext_prop_handle = BLE_GATT_HANDLE_INVALID,
     db_user_desc_handle = BLE_GATT_HANDLE_INVALID, db_report_ref_handle = BLE_GATT_HANDLE_INVALID\<rparr>"

text \<open>
  The characteristics of a response are stored behind those found before, up to five. The count
  of the response is cut to 8 bits. Where there is none at all, the last known characteristic is
  read in front of the array.
\<close>

definition store_chars :: "ble_gattc_char list \<Rightarrow> ble_gatt_db_srv \<Rightarrow> ble_gatt_db_srv" where
  "store_chars chars srv =
     (let num_prev = char_count srv; num_curr = of_nat (length chars) :: u8;
          n = (if uint num_prev + uint num_curr \<le> uint BLE_GATT_DB_MAX_CHARS then num_prev + num_curr
               else BLE_GATT_DB_MAX_CHARS)
      in srv\<lparr>char_count := n,
             charateristics := foldl (\<lambda>cs i. cs[i := fresh_db_char (chars ! (i - unat num_prev))])
                                 (charateristics srv) [unat num_prev..<unat n]\<rparr>)"

definition on_characteristic_discovery_rsp ::
  "('w, 'c) db_ctx \<Rightarrow> u16 \<Rightarrow> u16 \<Rightarrow> ble_gattc_char list \<Rightarrow> ('w, 'c) db_prog" where
  "on_characteristic_discovery_rsp cx conn status chars st =
     (if conn \<noteq> disc_conn_handle (db_p st) then ret st
      else if status = BLE_GATT_STATUS_SUCCESS
      then (let srv = store_chars chars (curr_srv st);
                i = max (unat (char_count (curr_srv st))) (unat (char_count srv));
                st = put_srv srv st;
                p_last_known_char = (if i = 0 then dc_before cx else characteristic (charateristics srv ! (i - 1)))
            in if \<not> is_char_discovery_reqd st p_last_known_char \<or> char_count srv = BLE_GATT_DB_MAX_CHARS
               then descriptors_step cx conn (put_char_ind 0 st)
               else (let st = put_char_ind (char_count srv) st
                     in bnd (characteristics_discover conn st) (\<lambda>e.
                        if e \<noteq> NRF_SUCCESS then discovery_failed cx e conn st else ret st)))
      else descriptors_step cx conn (put_char_ind 0 st))"

definition store_desc :: "ble_gattc_desc \<Rightarrow> ble_gatt_db_char \<Rightarrow> ble_gatt_db_char" where
  "store_desc d c =
     (if uuid (gd_uuid d) = BLE_UUID_DESCRIPTOR_CLIENT_CHAR_CONFIG then c\<lparr>db_cccd_handle := gd_handle d\<rparr>
      else if uuid (gd_uuid d) = BLE_UUID_DESCRIPTOR_CHAR_EXT_PROP then c\<lparr>db_ext_prop_handle := gd_handle d\<rparr>
      else if uuid (gd_uuid d) = BLE_UUID_DESCRIPTOR_CHAR_USER_DESC then c\<lparr>db_user_desc_handle := gd_handle d\<rparr>
      else if uuid (gd_uuid d) = BLE_UUID_REPORT_REF_DESCR then c\<lparr>db_report_ref_handle := gd_handle d\<rparr>
      else c)"

primrec store_descs :: "ble_gattc_desc list \<Rightarrow> ble_gatt_db_char \<Rightarrow> ble_gatt_db_char" where
  "store_descs [] c = c"
| "store_descs (d # ds) c =
     (let c = store_desc d c
      in if db_cccd_handle c \<noteq> BLE_GATT_HANDLE_INVALID \<and> db_ext_prop_handle c \<noteq> BLE_GATT_HANDLE_INVALID
            \<and> db_user_desc_handle c \<noteq> BLE_GATT_HANDLE_INVALID \<and> db_report_ref_handle c \<noteq> BLE_GATT_HANDLE_INVALID
         then c else store_descs ds c)"

definition on_descriptor_discovery_rsp ::
  "('w, 'c) db_ctx \<Rightarrow> u16 \<Rightarrow> u16 \<Rightarrow> ble_gattc_desc list \<Rightarrow> ('w, 'c) db_prog" where
  "on_descriptor_discovery_rsp cx conn status descs st =
     (if conn \<noteq> disc_conn_handle (db_p st) then ret st
      else (let ind = unat (curr_char_ind (db_p st)); srv = curr_srv st
            in if status = BLE_GATT_STATUS_SUCCESS \<and> descs \<noteq> [] \<and> ind \<ge> length (charateristics srv) then dc_wild cx st
               else (let st = (if status = BLE_GATT_STATUS_SUCCESS
                               then put_srv (srv\<lparr>charateristics := (charateristics srv)
                                               [ind := store_descs descs (charateristics srv ! ind)]\<rparr>) st
                               else st)
                     in if ind + 1 = unat (char_count srv) then discovery_completed cx conn st
                        else descriptors_step cx conn (put_char_ind (curr_char_ind (db_p st) + 1) st))))"

subsection \<open>Interface\<close>

definition ble_db_discovery_init :: "fnptr \<Rightarrow> 'c db_disc \<Rightarrow> u32 \<times> 'c db_disc" where
  "ble_db_discovery_init evt_handler st =
     (if evt_handler = NULL then (NRF_ERROR_NULL, st)
      else (NRF_SUCCESS, st\<lparr>m_num_of_handlers_reg := 0, db_initialized := True, m_pending_usr_evt_index := 0,
                           db_evt_handler := evt_handler\<rparr>))"

definition ble_db_discovery_close :: "'c db_disc \<Rightarrow> u32 \<times> 'c db_disc" where
  "ble_db_discovery_close st =
     (NRF_SUCCESS, st\<lparr>m_num_of_handlers_reg := 0, db_initialized := False, m_pending_usr_evt_index := 0\<rparr>)"

definition ble_db_discovery_evt_register :: "ble_uuid option \<Rightarrow> 'c db_disc \<Rightarrow> u32 \<times> 'c db_disc" where
  "ble_db_discovery_evt_register p_uuid st =
     (case p_uuid of
        None \<Rightarrow> (NRF_ERROR_NULL, st)
      | Some u \<Rightarrow> if \<not> db_initialized st then (NRF_ERROR_INVALID_STATE, st) else registered_handler_set u st)"

text \<open>\<open>p_db_discovery\<close> is the address of the structure.\<close>

definition ble_db_discovery_start ::
  "u32 \<Rightarrow> u16 \<Rightarrow> 'c db_disc \<Rightarrow> ('w world_scheme, u32 \<times> 'c db_disc) prog" where
  "ble_db_discovery_start p_db_discovery conn st =
     (if p_db_discovery = 0 then ret (NRF_ERROR_NULL, st)
      else if \<not> db_initialized st then ret (NRF_ERROR_INVALID_STATE, st)
      else if m_num_of_handlers_reg st = 0 then ret (NRF_ERROR_INVALID_STATE, st)
      else if discovery_in_progress (db_p st) then ret (NRF_ERROR_BUSY, st)
      else (let st = st\<lparr>m_pending_usr_evt_index := 0,
                        db_p := (db_p st)\<lparr>disc_conn_handle := conn, discoveries_count := 0, curr_srv_ind := 0, curr_char_ind := 0\<rparr>\<rparr>;
                srv = (curr_srv st)\<lparr>srv_uuid := m_registered_handlers st ! 0\<rparr>;
                st = put_srv srv st
            in bnd (svc_rc (Gatt (Sd_ble_gattc_primary_services_discover conn SRV_DISC_START_HANDLE (srv_uuid srv)))) (\<lambda>e.
               if e \<noteq> NRF_SUCCESS then ret (e, st) else ret (NRF_SUCCESS, put_progress True st))))"

definition disc_on_disconnected :: "u16 \<Rightarrow> 'c db_disc \<Rightarrow> 'c db_disc" where
  "disc_on_disconnected conn st = (if conn = disc_conn_handle (db_p st) then put_progress False st else st)"

definition ble_db_discovery_on_ble_evt :: "('w, 'c) db_ctx \<Rightarrow> u32 \<Rightarrow> ble_evt option \<Rightarrow> ('w, 'c) db_prog" where
  "ble_db_discovery_on_ble_evt cx p_db_discovery p_ble_evt st =
     (case p_ble_evt of
        None \<Rightarrow> ret st
      | Some evt \<Rightarrow>
          if p_db_discovery = 0 \<or> \<not> db_initialized st then ret st
          else (case evt of
              BLE_GATTC_EVT_PRIM_SRVC_DISC_RSP conn status rsp \<Rightarrow> on_primary_srv_discovery_rsp cx conn status rsp st
            | BLE_GATTC_EVT_CHAR_DISC_RSP conn status rsp \<Rightarrow> on_characteristic_discovery_rsp cx conn status rsp st
            | BLE_GATTC_EVT_DESC_DISC_RSP conn status rsp \<Rightarrow> on_descriptor_discovery_rsp cx conn status rsp st
            | BLE_GAP_EVT_DISCONNECTED conn _ \<Rightarrow> ret (disc_on_disconnected conn st)
            | _ \<Rightarrow> ret st))"

subsection \<open>Specification\<close>

text \<open>
  A peer: its services with their characteristics and descriptors, in the order of their handles.
  Characteristic \<open>i\<close> owns the handles up to the declaration of the next one or the end of the service.
\<close>

record peer_char =
  pc_char :: ble_gattc_char
  pc_descs :: "ble_gattc_desc list"

record peer_srv =
  ps_service :: ble_gattc_service
  ps_chars :: "peer_char list"

abbreviation ps_start :: "peer_srv \<Rightarrow> u16" where "ps_start s \<equiv> start_handle (gs_handle_range (ps_service s))"
abbreviation ps_end :: "peer_srv \<Rightarrow> u16" where "ps_end s \<equiv> end_handle (gs_handle_range (ps_service s))"
abbreviation pc_decl :: "peer_char \<Rightarrow> nat" where "pc_decl c \<equiv> unat (gc_handle_decl (pc_char c))"
abbreviation pc_value :: "peer_char \<Rightarrow> nat" where "pc_value c \<equiv> unat (gc_handle_value (pc_char c))"

definition next_decl :: "peer_srv \<Rightarrow> nat \<Rightarrow> nat" where
  "next_decl s i = (if Suc i < length (ps_chars s) then pc_decl (ps_chars s ! Suc i) else unat (ps_end s) + 1)"

definition known_desc :: "ble_gattc_desc \<Rightarrow> bool" where
  "known_desc d \<longleftrightarrow> uuid (gd_uuid d) \<in> {BLE_UUID_DESCRIPTOR_CLIENT_CHAR_CONFIG, BLE_UUID_DESCRIPTOR_CHAR_EXT_PROP,
     BLE_UUID_DESCRIPTOR_CHAR_USER_DESC, BLE_UUID_REPORT_REF_DESCR}"

definition peer_srv_ok :: "peer_srv \<Rightarrow> bool" where
  "peer_srv_ok s \<longleftrightarrow> 0 < unat (ps_start s) \<and> length (ps_chars s) \<le> 5 \<and> (\<forall>i < length (ps_chars s). let c = ps_chars s ! i in
     unat (ps_start s) \<le> pc_decl c \<and> pc_decl c < pc_value c \<and> pc_value c < next_decl s i \<and> pc_value c \<le> unat (ps_end s)
     \<and> (\<forall>d \<in> set (pc_descs c). pc_value c < unat (gd_handle d) \<and> unat (gd_handle d) < next_decl s i)
     \<and> distinct (map (\<lambda>d. uuid (gd_uuid d)) (filter known_desc (pc_descs c))))"

definition peer_ok :: "peer_srv list \<Rightarrow> bool" where
  "peer_ok db \<longleftrightarrow> (\<forall>s \<in> set db. peer_srv_ok s)
     \<and> sorted_wrt (\<lambda>s t. unat (ps_end s) < unat (ps_start t)) db"

text \<open>
  What the peer answers to a request. A response carries some of the characteristics or descriptors
  asked for, from the first on; how many is up to the two stacks.
\<close>

definition in_handles :: "u16 \<Rightarrow> ble_gattc_handle_range \<Rightarrow> bool" where
  "in_handles h r \<longleftrightarrow> start_handle r \<le> h \<and> h \<le> end_handle r"

definition find_srv :: "peer_srv list \<Rightarrow> ble_uuid \<Rightarrow> peer_srv option" where
  "find_srv db u = find (\<lambda>s. gs_uuid (ps_service s) = u) db"

definition peer_chars :: "peer_srv list \<Rightarrow> ble_gattc_handle_range \<Rightarrow> ble_gattc_char list" where
  "peer_chars db r = filter (\<lambda>c. in_handles (gc_handle_decl c) r) (concat (map (\<lambda>s. map pc_char (ps_chars s)) db))"

definition peer_descs :: "peer_srv list \<Rightarrow> ble_gattc_handle_range \<Rightarrow> ble_gattc_desc list" where
  "peer_descs db r = filter (\<lambda>d. in_handles (gd_handle d) r) (concat (map (\<lambda>s. concat (map pc_descs (ps_chars s))) db))"

definition peer_rsp :: "peer_srv list \<Rightarrow> (ble_gattc_handle_range \<Rightarrow> nat) \<Rightarrow> (ble_gattc_handle_range \<Rightarrow> nat) \<Rightarrow> call \<Rightarrow> ble_evt option" where
  "peer_rsp db chunk dchunk c = (case c of
       Gatt (Sd_ble_gattc_primary_services_discover conn _ u) \<Rightarrow> Some (case find_srv db u of
         Some s \<Rightarrow> BLE_GATTC_EVT_PRIM_SRVC_DISC_RSP conn BLE_GATT_STATUS_SUCCESS [ps_service s]
       | None \<Rightarrow> BLE_GATTC_EVT_PRIM_SRVC_DISC_RSP conn BLE_GATT_STATUS_ATTERR_ATTRIBUTE_NOT_FOUND [])
     | Gatt (Sd_ble_gattc_characteristics_discover conn r) \<Rightarrow> Some (case peer_chars db r of
         [] \<Rightarrow> BLE_GATTC_EVT_CHAR_DISC_RSP conn BLE_GATT_STATUS_ATTERR_ATTRIBUTE_NOT_FOUND []
       | cs \<Rightarrow> BLE_GATTC_EVT_CHAR_DISC_RSP conn BLE_GATT_STATUS_SUCCESS (take (Suc (chunk r)) cs))
     | Gatt (Sd_ble_gattc_descriptors_discover conn r) \<Rightarrow> Some (case peer_descs db r of
         [] \<Rightarrow> BLE_GATTC_EVT_DESC_DISC_RSP conn BLE_GATT_STATUS_ATTERR_ATTRIBUTE_NOT_FOUND []
       | ds \<Rightarrow> BLE_GATTC_EVT_DESC_DISC_RSP conn BLE_GATT_STATUS_SUCCESS (take (Suc (dchunk r)) ds))
     | _ \<Rightarrow> None)"

text \<open>
  What the module gets to hear of the peer: the range of handles it asks for descriptors of a
  characteristic, and the characteristics with the descriptors of the first response to that.
\<close>

definition desc_range :: "peer_srv \<Rightarrow> nat \<Rightarrow> ble_gattc_handle_range" where
  "desc_range s i = \<lparr>start_handle = gc_handle_value (pc_char (ps_chars s ! i)) + 1, end_handle = of_nat (next_decl s i - 1)\<rparr>"

definition heard_srv :: "(ble_gattc_handle_range \<Rightarrow> nat) \<Rightarrow> peer_srv \<Rightarrow> peer_srv" where
  "heard_srv dchunk s = s\<lparr>ps_chars := map (\<lambda>i. (ps_chars s ! i)\<lparr>pc_descs :=
     take (Suc (dchunk (desc_range s i))) (pc_descs (ps_chars s ! i))\<rparr>) [0..<length (ps_chars s)]\<rparr>"

definition heard :: "(ble_gattc_handle_range \<Rightarrow> nat) \<Rightarrow> peer_srv list \<Rightarrow> peer_srv list" where
  "heard dchunk db = map (heard_srv dchunk) db"

text \<open>The module and the peer taking turns while discovery is in progress.\<close>

primrec db_rounds :: "('w, 'c) db_ctx \<Rightarrow> (call \<Rightarrow> ble_evt option) \<Rightarrow> nat \<Rightarrow> ('w, 'c) db_prog" where
  "db_rounds cx rsp 0 st = ret st"
| "db_rounds cx rsp (Suc n) st =
     (if discovery_in_progress (db_p st)
      then bnd (gets (\<lambda>s. rsp (last (sd_trace s)))) (\<lambda>e.
           bnd (ble_db_discovery_on_ble_evt cx 1 e st) (db_rounds cx rsp n))
      else ret st)"

text \<open>What the application should be told about a service.\<close>

definition desc_handle :: "u16 \<Rightarrow> ble_gattc_desc list \<Rightarrow> u16" where
  "desc_handle u ds = (case filter (\<lambda>d. uuid (gd_uuid d) = u) ds of [] \<Rightarrow> BLE_GATT_HANDLE_INVALID | d # _ \<Rightarrow> gd_handle d)"

definition peer_db_char :: "peer_char \<Rightarrow> ble_gatt_db_char" where
  "peer_db_char c = \<lparr>characteristic = pc_char c,
     db_cccd_handle = desc_handle BLE_UUID_DESCRIPTOR_CLIENT_CHAR_CONFIG (pc_descs c),
     db_ext_prop_handle = desc_handle BLE_UUID_DESCRIPTOR_CHAR_EXT_PROP (pc_descs c),
     db_user_desc_handle = desc_handle BLE_UUID_DESCRIPTOR_CHAR_USER_DESC (pc_descs c),
     db_report_ref_handle = desc_handle BLE_UUID_REPORT_REF_DESCR (pc_descs c)\<rparr>"

definition reports :: "peer_srv list \<Rightarrow> u16 \<Rightarrow> ble_uuid \<Rightarrow> ble_db_discovery_evt \<Rightarrow> bool" where
  "reports db conn u evt \<longleftrightarrow> dd_conn_handle evt = conn
     \<and> (case find_srv db u of
          None \<Rightarrow> dd_evt_type evt = BLE_DB_DISCOVERY_SRV_NOT_FOUND
        | Some s \<Rightarrow> dd_evt_type evt = BLE_DB_DISCOVERY_COMPLETE
            \<and> (\<exists>srv. dd_params evt = Discovered_db srv \<and> srv_uuid srv = u \<and> handle_range srv = gs_handle_range (ps_service s)
                 \<and> unat (char_count srv) = length (ps_chars s)
                 \<and> take (length (ps_chars s)) (charateristics srv) = map peer_db_char (ps_chars s)))"

definition disc_grants :: "'w world_scheme \<Rightarrow> bool" where
  "disc_grants s \<longleftrightarrow> (\<forall>h conn a u. rc (sd_env s h (Gatt (Sd_ble_gattc_primary_services_discover conn a u))) = NRF_SUCCESS)
     \<and> (\<forall>h conn r. rc (sd_env s h (Gatt (Sd_ble_gattc_characteristics_discover conn r))) = NRF_SUCCESS)
     \<and> (\<forall>h conn r. rc (sd_env s h (Gatt (Sd_ble_gattc_descriptors_discover conn r))) = NRF_SUCCESS)"

text \<open>The module with registered services, and discovery of the service number \<open>j\<close> on its way.\<close>

definition db_ready :: "ble_uuid list \<Rightarrow> fnptr \<Rightarrow> 'c db_disc \<Rightarrow> bool" where
  "db_ready us h st \<longleftrightarrow> db_initialized st \<and> db_evt_handler st = h \<and> h \<noteq> NULL
     \<and> unat (m_num_of_handlers_reg st) = length us \<and> length us \<le> 6 \<and> length (m_registered_handlers st) = 6
     \<and> take (length us) (m_registered_handlers st) = us \<and> length (m_pending_user_evts st) = 6
     \<and> length (services (db_p st)) = 6 \<and> (\<forall>srv \<in> set (services (db_p st)). length (charateristics srv) = 5)"

definition disc_at ::
  "peer_srv list \<Rightarrow> u16 \<Rightarrow> ble_uuid list \<Rightarrow> fnptr \<Rightarrow> 'c \<Rightarrow> nat \<Rightarrow> 'c db_disc \<Rightarrow> bool" where
  "disc_at db conn us h c j st \<longleftrightarrow> db_ready us h st \<and> discovery_in_progress (db_p st) \<and> disc_conn_handle (db_p st) = conn
     \<and> j < length us \<and> curr_srv_ind (db_p st) = of_nat j \<and> discoveries_count (db_p st) = of_nat j
     \<and> m_pending_usr_evt_index st = of_nat j \<and> db_client st = c
     \<and> (\<forall>i < j. reports db conn (us ! i) (fst (m_pending_user_evts st ! i)) \<and> snd (m_pending_user_evts st ! i) = h)"

text \<open>
  A program after which the conversation with the peer ends by giving the application the right
  events.
\<close>

definition completes ::
  "('w, 'c) db_ctx \<Rightarrow> (call \<Rightarrow> ble_evt option) \<Rightarrow> 'w world_scheme \<Rightarrow> peer_srv list \<Rightarrow> u16 \<Rightarrow> ble_uuid list \<Rightarrow> fnptr \<Rightarrow> 'c
     \<Rightarrow> ('w world_scheme, 'c db_disc) prog \<Rightarrow> call list \<Rightarrow> bool" where
  "completes cx rsp s db conn us h c f t \<longleftrightarrow> (\<exists>k evts st' t'.
     (\<forall>n \<ge> k. bnd f (db_rounds cx rsp n) (s\<lparr>sd_trace := t\<rparr>) =
        bnd (send_evts cx evts c) (\<lambda>c. ret (st'\<lparr>db_client := c\<rparr>)) (s\<lparr>sd_trace := t'\<rparr>))
     \<and> list_all2 (\<lambda>u p. reports db conn u (fst p) \<and> snd p = h) us evts
     \<and> db_ready us h st' \<and> \<not> discovery_in_progress (db_p st'))"

subsection \<open>Conversations\<close>

lemma db_rounds_idle: "\<not> discovery_in_progress (db_p st) \<Longrightarrow> db_rounds cx rsp n st = ret st"
  by (cases n) simp_all

lemma completes_turn:
  assumes "rsp (last t) = Some e" and "discovery_in_progress (db_p st)"
    and "completes cx rsp s db conn us h c (ble_db_discovery_on_ble_evt cx 1 (Some e) st) t"
  shows "completes cx rsp s db conn us h c (ret st) t"
proof -
  obtain k evts st' t' where r: "\<And>n. n \<ge> k \<Longrightarrow> bnd (ble_db_discovery_on_ble_evt cx 1 (Some e) st) (db_rounds cx rsp n) (s\<lparr>sd_trace := t\<rparr>) =
        bnd (send_evts cx evts c) (\<lambda>c. ret (st'\<lparr>db_client := c\<rparr>)) (s\<lparr>sd_trace := t'\<rparr>)"
     "list_all2 (\<lambda>u p. reports db conn u (fst p) \<and> snd p = h) us evts"
     "db_ready us h st'" "\<not> discovery_in_progress (db_p st')"
    using assms(3) unfolding completes_def by blast
  have "bnd (ret st) (db_rounds cx rsp n) (s\<lparr>sd_trace := t\<rparr>) =
        bnd (send_evts cx evts c) (\<lambda>c. ret (st'\<lparr>db_client := c\<rparr>)) (s\<lparr>sd_trace := t'\<rparr>)" if n: "n \<ge> Suc k" for n
  proof -
    obtain m where m: "n = Suc m" "m \<ge> k" using n by (cases n) auto
    have "bnd (ret st) (db_rounds cx rsp n) (s\<lparr>sd_trace := t\<rparr>) =
        bnd (ble_db_discovery_on_ble_evt cx 1 (Some e) st) (db_rounds cx rsp m) (s\<lparr>sd_trace := t\<rparr>)"
      using assms(1,2) m(1) by simp
    then show ?thesis using r(1) [OF m(2)] by simp
  qed
  with r(2-4) show ?thesis unfolding completes_def by blast
qed

lemma completes_request:
  assumes "rc (sd_env s t r) = NRF_SUCCESS" and "completes cx rsp s db conn us h c (f NRF_SUCCESS) (t @ [r])"
  shows "completes cx rsp s db conn us h c (bnd (svc_rc r) f) t"
proof -
  have "bnd (bnd (svc_rc r) f) g (s\<lparr>sd_trace := t\<rparr>) = bnd (f NRF_SUCCESS) g (s\<lparr>sd_trace := t @ [r]\<rparr>)" for g :: "'b db_disc \<Rightarrow> ('a world_scheme, 'b db_disc) prog"
    using assms(1) by (simp add: bnd_run)
  with assms(2) show ?thesis unfolding completes_def by (simp only:)
qed

text \<open>What the small updates keep.\<close>

lemma db_ready_put:
  "db_ready us h (put_char_ind i st) = db_ready us h st"
  "db_ready us h (put_progress b st) = db_ready us h st"
  "db_ready us h (st\<lparr>db_client := c\<rparr>) = db_ready us h st"
  "db_ready us h st \<Longrightarrow> length (charateristics srv) = 5 \<Longrightarrow> db_ready us h (put_srv srv st)"
  by (auto simp: db_ready_def put_char_ind_def put_progress_def put_srv_def dest: set_update_subset_insert [THEN subsetD])

lemma disc_at_put:
  "disc_at db conn us h c j (put_char_ind i st) = disc_at db conn us h c j st"
  "disc_at db conn us h c j st \<Longrightarrow> length (charateristics srv) = 5 \<Longrightarrow> disc_at db conn us h c j (put_srv srv st)"
proof -
  show "disc_at db conn us h c j (put_char_ind i st) = disc_at db conn us h c j st"
    unfolding disc_at_def db_ready_put by (simp add: put_char_ind_def)
  show "disc_at db conn us h c j (put_srv srv st)" if "disc_at db conn us h c j st" "length (charateristics srv) = 5"
    using that unfolding disc_at_def by (simp add: db_ready_put) (simp add: put_srv_def)
qed

lemma curr_srv_put [simp]:
  "curr_srv (put_char_ind i st) = curr_srv st"
  "unat (curr_srv_ind (db_p st)) < length (services (db_p st)) \<Longrightarrow> curr_srv (put_srv srv st) = srv"
  "curr_char_ind (db_p (put_char_ind i st)) = i" "curr_char_ind (db_p (put_srv srv st)) = curr_char_ind (db_p st)"
  "put_char_ind i (put_char_ind i' st) = put_char_ind i st"
  by (simp_all add: curr_srv_def put_char_ind_def put_srv_def)

lemma disc_atD:
  assumes "disc_at db conn us h c j st"
  shows "unat (curr_srv_ind (db_p st)) = j" "j < 6" "j < length us" "length (charateristics (curr_srv st)) = 5"
    "unat (curr_srv_ind (db_p st)) < length (services (db_p st))" "disc_conn_handle (db_p st) = conn"
    "db_initialized st" "discovery_in_progress (db_p st)" "registered_handler_get st (us ! j) = h" "h \<noteq> NULL"
proof -
  have r: "db_ready us h st" and j: "j < length us" "curr_srv_ind (db_p st) = of_nat j" using assms by (auto simp: disc_at_def)
  from r j show j6: "j < 6" by (simp add: db_ready_def)
  then show u: "unat (curr_srv_ind (db_p st)) = j" using j(2) by (simp add: unat_of_nat)
  show "unat (curr_srv_ind (db_p st)) < length (services (db_p st))" using u j6 r by (simp add: db_ready_def)
  then show "length (charateristics (curr_srv st)) = 5" using r by (simp add: db_ready_def curr_srv_def)
  show "registered_handler_get st (us ! j) = h"
    using r j(1) by (auto simp: registered_handler_get_def db_ready_def BLE_UUID_EQ_def) (metis nth_take)
  show "h \<noteq> NULL" using r by (simp add: db_ready_def)
qed (use assms in \<open>auto simp: disc_at_def db_ready_def\<close>)

subsection \<open>The end of a service\<close>

lemma small_index:
  assumes "j < 6"
  shows "unat (of_nat j :: u32) = j" "unat (of_nat j + 1 :: u32) = Suc j" "unat (of_nat j + 1 :: u8) = Suc j"
    "unat (ucast (of_nat j + 1 :: u8) :: u32) = Suc j"
proof -
  have "j \<in> {0, 1, 2, 3, 4, 5}" using assms by auto
  then show "unat (of_nat j :: u32) = j" "unat (of_nat j + 1 :: u32) = Suc j" "unat (of_nat j + 1 :: u8) = Suc j"
    "unat (ucast (of_nat j + 1 :: u8) :: u32) = Suc j" by auto
qed

lemma complete_trigger_run:
  fixes found :: bool
  assumes at: "disc_at db conn us h c j st" and u: "srv_uuid (curr_srv st) = us ! j"
  defines "evt \<equiv> \<lparr>dd_evt_type = if found then BLE_DB_DISCOVERY_COMPLETE else BLE_DB_DISCOVERY_SRV_NOT_FOUND,
     dd_conn_handle = conn, dd_params = Discovered_db (curr_srv st)\<rparr>"
  defines "st1 \<equiv> st\<lparr>m_pending_user_evts := (m_pending_user_evts st)[j := (evt, h)], m_pending_usr_evt_index := of_nat j + 1\<rparr>"
  shows "discovery_complete_evt_trigger cx found conn st = (if Suc j = length us then pending_user_evts_send cx st1 else ret st1)"
proof -
  note d = disc_atD [OF at]
  have ix: "m_pending_usr_evt_index st = of_nat j" and n: "unat (m_num_of_handlers_reg st) = length us"
    using at by (auto simp: disc_at_def db_ready_def)
  have "of_nat j < DB_DISCOVERY_MAX_USERS" using d(2) small_index(1) [OF d(2)] by (simp add: word_less_nat_alt DB_DISCOVERY_MAX_USERS_def)
  moreover have "of_nat j + 1 = m_num_of_handlers_reg st \<longleftrightarrow> Suc j = length us"
    using n small_index(2) [OF d(2)] by (simp add: word_unat_eq_iff)
  ultimately show ?thesis
    using d(9,10) small_index(1) [OF d(2)] by (simp add: discovery_complete_evt_trigger_def u ix evt_def st1_def Let_def)
qed

lemma after_service:
  fixes cx :: "('w, 'c) db_ctx"
  assumes at: "disc_at db conn us h c j st" and u: "srv_uuid (curr_srv st) = us ! j" and g: "disc_grants s"
    and rep: "reports db conn (us ! j) \<lparr>dd_evt_type = if found then BLE_DB_DISCOVERY_COMPLETE else BLE_DB_DISCOVERY_SRV_NOT_FOUND,
       dd_conn_handle = conn, dd_params = Discovered_db (curr_srv st)\<rparr>"
    and nxt: "\<And>st' t'. Suc j < length us \<Longrightarrow> disc_at db conn us h c (Suc j) st' \<Longrightarrow> srv_uuid (curr_srv st') = us ! Suc j \<Longrightarrow>
       char_count (curr_srv st') = 0 \<Longrightarrow> curr_char_ind (db_p st') = 0 \<Longrightarrow>
       last t' = Gatt (Sd_ble_gattc_primary_services_discover conn SRV_DISC_START_HANDLE (us ! Suc j)) \<Longrightarrow>
       completes cx rsp s db conn us h c (ret st') t'"
  shows "completes cx rsp s db conn us h c (bnd (discovery_complete_evt_trigger cx found conn st) (on_srv_disc_completion cx conn)) t"
proof -
  note d = disc_atD [OF at]
  define evt where "evt = \<lparr>dd_evt_type = if found then BLE_DB_DISCOVERY_COMPLETE else BLE_DB_DISCOVERY_SRV_NOT_FOUND,
     dd_conn_handle = conn, dd_params = Discovered_db (curr_srv st)\<rparr>"
  define st1 where "st1 = st\<lparr>m_pending_user_evts := (m_pending_user_evts st)[j := (evt, h)], m_pending_usr_evt_index := of_nat j + 1\<rparr>"
  have ready: "db_ready us h st" using at by (simp add: disc_at_def)
  then have ready1: "db_ready us h st1" by (simp add: db_ready_def st1_def)
  have pend: "reports db conn (us ! i) (fst (m_pending_user_evts st1 ! i)) \<and> snd (m_pending_user_evts st1 ! i) = h" if "i < Suc j" for i
    using that rep at d(2) by (auto simp: disc_at_def db_ready_def st1_def evt_def [symmetric] nth_list_update less_Suc_eq)
  have more: "ucast (discoveries_count (db_p st) + 1) < m_num_of_handlers_reg st \<longleftrightarrow> Suc j < length us"
    using at small_index(4) [OF d(2)] by (simp add: disc_at_def db_ready_def word_less_nat_alt)
  note trigger = complete_trigger_run [OF at u, of cx found, folded evt_def, folded st1_def]
  show ?thesis
  proof (cases "Suc j = length us")
    case False
    then have less: "Suc j < length us" using d(3) by simp
    define st2 where "st2 = st1\<lparr>db_p := (db_p st1)\<lparr>discoveries_count := discoveries_count (db_p st1) + 1,
        curr_char_ind := 0, curr_srv_ind := curr_srv_ind (db_p st1) + 1\<rparr>\<rparr>"
    define srv where "srv = (curr_srv st2)\<lparr>srv_uuid := m_registered_handlers st2 ! unat (curr_srv_ind (db_p st2)), char_count := 0\<rparr>"
    have ind: "unat (curr_srv_ind (db_p st2)) = Suc j"
      using at small_index(3) [OF d(2)] by (simp add: st2_def st1_def disc_at_def)
    have ready2: "db_ready us h st2" using ready1 by (simp add: db_ready_def st2_def)
    have in6: "Suc j < length (services (db_p st2))" using less ready2 by (simp add: db_ready_def)
    have uu: "srv_uuid srv = us ! Suc j"
      using ready2 less ind unfolding db_ready_def srv_def by (auto) (metis nth_take)
    have "length (charateristics srv) = 5" using ready2 in6 ind by (simp add: srv_def db_ready_def curr_srv_def)
    then have "disc_at db conn us h c (Suc j) (put_srv srv st2)"
      using at pend less ready2 by (simp add: disc_at_def db_ready_put) (simp add: put_srv_def st2_def st1_def add.commute)
    then have n: "completes cx rsp s db conn us h c (ret (put_srv srv st2)) (t @ [Gatt (Sd_ble_gattc_primary_services_discover conn
        SRV_DISC_START_HANDLE (us ! Suc j))])"
      using less uu ind in6 by (intro nxt) (simp_all add: srv_def st2_def)
    have c: "on_srv_disc_completion cx conn st1 = bnd (svc_rc (Gatt (Sd_ble_gattc_primary_services_discover conn
        SRV_DISC_START_HANDLE (srv_uuid srv)))) (\<lambda>e. if e \<noteq> NRF_SUCCESS then discovery_failed cx e conn (put_srv srv st2) else ret (put_srv srv st2))"
      using more less by (simp add: on_srv_disc_completion_def st1_def Let_def srv_def st2_def cong: if_cong)
    have "bnd (discovery_complete_evt_trigger cx found conn st) (on_srv_disc_completion cx conn) = on_srv_disc_completion cx conn st1"
      using False by (simp add: trigger)
    then show ?thesis
      using g n unfolding c uu by (simp only:, intro completes_request) (simp_all add: disc_grants_def)
  next
    case True
    let ?evts = "take (length us) (m_pending_user_evts st1)"
    define st3 where "st3 = mark_available conn (put_progress False (st1\<lparr>m_pending_usr_evt_index := 0,
        db_p := (db_p st1)\<lparr>discoveries_count := discoveries_count (db_p st1) + 1\<rparr>\<rparr>))"
    have ready3: "db_ready us h st3" using ready1 by (simp add: db_ready_def st3_def mark_available_def put_progress_def)
    have idle: "\<not> discovery_in_progress (db_p (st3\<lparr>db_client := c'\<rparr>))" for c' by (simp add: st3_def mark_available_def put_progress_def)
    have fin: "on_srv_disc_completion cx conn (st1\<lparr>db_client := c', m_pending_usr_evt_index := 0\<rparr>) = ret (st3\<lparr>db_client := c'\<rparr>)" for c'
      using more True
      by (simp add: on_srv_disc_completion_def st1_def Let_def st3_def mark_available_def put_progress_def)
        (intro arg_cong [where f = ret] db_disc.equality; simp)
    have st1: "unat (m_num_of_handlers_reg st1) = length us" "db_client st1 = c" using at by (auto simp: st1_def disc_at_def db_ready_def)
    have "bnd (bnd (discovery_complete_evt_trigger cx found conn st) (on_srv_disc_completion cx conn)) (db_rounds cx rsp n) w
        = bnd (send_evts cx ?evts c) (\<lambda>c. ret (st3\<lparr>db_client := c\<rparr>)) w" for n w
      by (simp only: trigger True refl if_True pending_user_evts_send_def bnd_assoc bnd_ret_left st1 fin db_rounds_idle [OF idle])
    moreover have "list_all2 (\<lambda>u p. reports db conn u (fst p) \<and> snd p = h) us ?evts"
      using pend True ready1 by (auto simp: list_all2_conv_all_nth db_ready_def)
    moreover have "\<not> discovery_in_progress (db_p st3)" using idle by simp
    ultimately show ?thesis
      unfolding completes_def using ready3 by blast
  qed
qed

subsection \<open>What the peer answers\<close>

lemma desc_handle_Cons:
  "desc_handle u (d # ds) = (if uuid (gd_uuid d) = u then gd_handle d else desc_handle u ds)"
  by (simp add: desc_handle_def)

lemmas desc_uuids = BLE_UUID_DESCRIPTOR_CLIENT_CHAR_CONFIG_def BLE_UUID_DESCRIPTOR_CHAR_EXT_PROP_def
  BLE_UUID_DESCRIPTOR_CHAR_USER_DESC_def BLE_UUID_REPORT_REF_DESCR_def

definition unseen :: "u16 \<Rightarrow> u16 \<Rightarrow> ble_gattc_desc list \<Rightarrow> bool" where
  "unseen f u ds \<longleftrightarrow> f \<noteq> BLE_GATT_HANDLE_INVALID \<longrightarrow> u \<notin> (\<lambda>d. uuid (gd_uuid d)) ` set ds"

lemma store_descs_run:
  assumes "distinct (map (\<lambda>d. uuid (gd_uuid d)) (filter known_desc ds))" and "\<forall>d \<in> set ds. gd_handle d \<noteq> BLE_GATT_HANDLE_INVALID"
    and "unseen (db_cccd_handle x) BLE_UUID_DESCRIPTOR_CLIENT_CHAR_CONFIG ds" and "unseen (db_ext_prop_handle x) BLE_UUID_DESCRIPTOR_CHAR_EXT_PROP ds"
    and "unseen (db_user_desc_handle x) BLE_UUID_DESCRIPTOR_CHAR_USER_DESC ds" and "unseen (db_report_ref_handle x) BLE_UUID_REPORT_REF_DESCR ds"
  defines "val f u \<equiv> if f \<noteq> BLE_GATT_HANDLE_INVALID then f else desc_handle u ds"
  shows "store_descs ds x = x\<lparr>db_cccd_handle := val (db_cccd_handle x) BLE_UUID_DESCRIPTOR_CLIENT_CHAR_CONFIG,
     db_ext_prop_handle := val (db_ext_prop_handle x) BLE_UUID_DESCRIPTOR_CHAR_EXT_PROP,
     db_user_desc_handle := val (db_user_desc_handle x) BLE_UUID_DESCRIPTOR_CHAR_USER_DESC,
     db_report_ref_handle := val (db_report_ref_handle x) BLE_UUID_REPORT_REF_DESCR\<rparr>"
  using assms(1-6) unfolding val_def
proof (induction ds arbitrary: x)
  case Nil
  then show ?case by (cases x) (auto simp: desc_handle_def)
next
  case (Cons d ds)
  have ds: "distinct (map (\<lambda>d. uuid (gd_uuid d)) (filter known_desc ds))" "\<forall>d \<in> set ds. gd_handle d \<noteq> BLE_GATT_HANDLE_INVALID"
    and d: "gd_handle d \<noteq> BLE_GATT_HANDLE_INVALID" "known_desc d \<Longrightarrow> uuid (gd_uuid d) \<notin> (\<lambda>d. uuid (gd_uuid d)) ` set (filter known_desc ds)"
    using Cons.prems(1,2) by (auto split: if_splits)
  have one: "known_desc d \<Longrightarrow> uuid (gd_uuid d) = u \<Longrightarrow> u \<notin> (\<lambda>d. uuid (gd_uuid d)) ` set ds" for u
    using d(2) by (force simp: known_desc_def)
  have un: "unseen (db_cccd_handle (store_desc d x)) BLE_UUID_DESCRIPTOR_CLIENT_CHAR_CONFIG ds"
    "unseen (db_ext_prop_handle (store_desc d x)) BLE_UUID_DESCRIPTOR_CHAR_EXT_PROP ds"
    "unseen (db_user_desc_handle (store_desc d x)) BLE_UUID_DESCRIPTOR_CHAR_USER_DESC ds"
    "unseen (db_report_ref_handle (store_desc d x)) BLE_UUID_REPORT_REF_DESCR ds"
    using Cons.prems(3-6) one by (auto simp: unseen_def store_desc_def known_desc_def)
  note IH = Cons.IH [OF ds un]
  have "store_descs (d # ds) x = store_descs ds (store_desc d x)"
    using IH by (cases "store_desc d x") (auto simp: Let_def)
  then show ?case
    unfolding IH using Cons.prems(3-6) d(1) by (cases x) (auto simp: store_desc_def desc_handle_Cons unseen_def desc_uuids)
qed

lemma filter_one_srv:
  assumes "sorted_wrt (\<lambda>s t. unat (ps_end s) < unat (ps_start t)) db" and "s \<in> set db"
    and "\<And>s' x. s' \<in> set db \<Longrightarrow> x \<in> set (f s') \<Longrightarrow> unat (ps_start s') \<le> unat (g x) \<and> unat (g x) \<le> unat (ps_end s')"
    and "ps_start s \<le> start_handle r" and "end_handle r \<le> ps_end s"
  shows "filter (\<lambda>x. in_handles (g x) r) (concat (map f db)) = filter (\<lambda>x. in_handles (g x) r) (f s)"
proof -
  obtain xs ys where db: "db = xs @ s # ys" using split_list [OF assms(2)] by blast
  have "\<not> in_handles (g x) r" if "x \<in> set (concat (map f xs)) \<union> set (concat (map f ys))" for x
  proof -
    obtain s' where s': "s' \<in> set xs \<union> set ys" "x \<in> set (f s')" using \<open>x \<in> _\<close> by auto
    then have "unat (ps_end s') < unat (ps_start s) \<or> unat (ps_end s) < unat (ps_start s')"
      using assms(1) by (auto simp: db sorted_wrt_append)
    moreover have "unat (ps_start s') \<le> unat (g x) \<and> unat (g x) \<le> unat (ps_end s')" using assms(3) s' by (auto simp: db)
    ultimately show ?thesis using assms(4,5) by (auto simp: in_handles_def word_le_nat_alt)
  qed
  then have "filter (\<lambda>x. in_handles (g x) r) (concat (map f xs)) = []" "filter (\<lambda>x. in_handles (g x) r) (concat (map f ys)) = []"
    unfolding filter_empty_conv by blast+
  then show ?thesis by (simp add: db)
qed

lemma srv_okD:
  assumes "peer_srv_ok s" and "i < length (ps_chars s)"
  shows "unat (ps_start s) \<le> pc_decl (ps_chars s ! i)" "pc_decl (ps_chars s ! i) < pc_value (ps_chars s ! i)"
    "pc_value (ps_chars s ! i) < next_decl s i" "pc_value (ps_chars s ! i) \<le> unat (ps_end s)"
    "\<And>d. d \<in> set (pc_descs (ps_chars s ! i)) \<Longrightarrow> pc_value (ps_chars s ! i) < unat (gd_handle d) \<and> unat (gd_handle d) < next_decl s i"
    "distinct (map (\<lambda>d. uuid (gd_uuid d)) (filter known_desc (pc_descs (ps_chars s ! i))))"
  using assms unfolding peer_srv_ok_def Let_def by blast+

lemma next_decl_end: "peer_srv_ok s \<Longrightarrow> i < length (ps_chars s) \<Longrightarrow> next_decl s i \<le> unat (ps_end s) + 1"
  using srv_okD(2,4) [of s "Suc i"] by (auto simp: next_decl_def)

lemma decl_chain:
  assumes "peer_srv_ok s" and "i < length (ps_chars s)" and "k < i"
  shows "next_decl s k \<le> pc_decl (ps_chars s ! i)"
  using assms(2,3)
proof (induction i)
  case (Suc i)
  show ?case
  proof (cases "k = i")
    case True
    then show ?thesis using Suc.prems(1) by (simp add: next_decl_def)
  next
    case False
    then have "next_decl s k \<le> pc_decl (ps_chars s ! i)" using Suc by simp
    also have "\<dots> < next_decl s i" using srv_okD(2,3) [OF assms(1), of i] Suc.prems(1) by simp
    finally show ?thesis using Suc.prems(1) by (simp add: next_decl_def)
  qed
qed simp

lemma filter_suffix:
  "m \<le> length xs \<Longrightarrow> (\<And>i. i < m \<Longrightarrow> \<not> P (xs ! i)) \<Longrightarrow> (\<And>i. m \<le> i \<Longrightarrow> i < length xs \<Longrightarrow> P (xs ! i)) \<Longrightarrow> filter P xs = drop m xs"
proof (induction xs arbitrary: m)
  case (Cons x xs)
  show ?case
  proof (cases m)
    case 0
    then have "\<forall>y \<in> set (x # xs). P y" using Cons.prems(3) by (metis in_set_conv_nth le0)
    with 0 show ?thesis by (simp add: filter_id_conv)
  next
    case (Suc k)
    then show ?thesis using Cons.IH [of k] Cons.prems by fastforce
  qed
qed simp

lemma unat_Suc_less: "unat (x :: u16) < unat (y :: u16) \<Longrightarrow> unat (x + 1) = unat x + 1"
  using unsigned_less [of y, where ?'a = nat] unat_add_lem [of x 1] by simp

lemma peer_chars_from:
  assumes ok: "peer_ok db" and s: "s \<in> set db" and m: "m \<le> length (ps_chars s)"
    and v: "m \<noteq> 0 \<Longrightarrow> pc_value (ps_chars s ! (m - 1)) < unat (ps_end s)"
  shows "peer_chars db \<lparr>start_handle = if m \<noteq> 0 then gc_handle_value (pc_char (ps_chars s ! (m - 1))) + 1 else ps_start s,
     end_handle = ps_end s\<rparr> = drop m (map pc_char (ps_chars s))" (is "peer_chars db ?r = _")
proof -
  have so: "peer_srv_ok s" and all: "\<And>s'. s' \<in> set db \<Longrightarrow> peer_srv_ok s'" using ok s by (auto simp: peer_ok_def)
  have start: "unat (start_handle ?r) = (if m \<noteq> 0 then pc_value (ps_chars s ! (m - 1)) + 1 else unat (ps_start s))"
    using unat_Suc_less [OF v] by simp
  have "unat (ps_start s) \<le> unat (start_handle ?r)"
    using srv_okD(1,2) [OF so, of "m - 1"] m unfolding start by (cases m) auto
  then have "peer_chars db ?r = filter (\<lambda>c. in_handles (gc_handle_decl c) ?r) (map pc_char (ps_chars s))"
    unfolding peer_chars_def
  proof (intro filter_one_srv)
    fix s' x assume "s' \<in> set db" "x \<in> set (map pc_char (ps_chars s'))"
    then obtain i where "i < length (ps_chars s')" "x = pc_char (ps_chars s' ! i)" by (auto simp: in_set_conv_nth)
    then show "unat (ps_start s') \<le> unat (gc_handle_decl x) \<and> unat (gc_handle_decl x) \<le> unat (ps_end s')"
      using srv_okD(1,2,4) [OF all] \<open>s' \<in> set db\<close> by fastforce
  qed (use ok s in \<open>simp_all add: peer_ok_def word_le_nat_alt\<close>)
  also have "\<dots> = drop m (map pc_char (ps_chars s))"
  proof (rule filter_suffix)
    show "\<not> in_handles (gc_handle_decl (map pc_char (ps_chars s) ! i)) ?r" if "i < m" for i
    proof -
      have "pc_decl (ps_chars s ! i) \<le> pc_value (ps_chars s ! (m - 1))"
      proof (cases "i = m - 1")
        case False
        then have "i < m - 1" "m - 1 < length (ps_chars s)" using that m by auto
        then show ?thesis
          using srv_okD(2,3) [OF so, of i] srv_okD(2) [OF so, of "m - 1"] decl_chain [OF so, of "m - 1" i] by simp
      qed (use that m srv_okD(2) [OF so, of i] in simp)
      then show ?thesis using that m start by (simp add: in_handles_def word_le_nat_alt)
    qed
    show "in_handles (gc_handle_decl (map pc_char (ps_chars s) ! i)) ?r" if "m \<le> i" "i < length (map pc_char (ps_chars s))" for i
    proof -
      have "unat (start_handle ?r) \<le> pc_decl (ps_chars s ! i)"
      proof (cases m)
        case (Suc k)
        then show ?thesis using that srv_okD(3) [OF so, of k] decl_chain [OF so, of i k] unfolding start by simp
      qed (use that srv_okD(1) [OF so, of i] start in simp)
      then show ?thesis
        using that srv_okD(2,4) [OF so, of i] by (simp add: in_handles_def word_le_nat_alt split del: if_split)
    qed
  qed (use m in simp)
  finally show ?thesis .
qed

definition desc_need :: "peer_srv \<Rightarrow> nat \<Rightarrow> bool" where
  "desc_need s i \<longleftrightarrow> pc_value (ps_chars s ! i) + 1 < next_decl s i"

lemma desc_range_unat:
  assumes "peer_srv_ok s" and "i < length (ps_chars s)" and "desc_need s i"
  shows "unat (start_handle (desc_range s i)) = pc_value (ps_chars s ! i) + 1" "unat (end_handle (desc_range s i)) = next_decl s i - 1"
proof -
  have e: "next_decl s i \<le> unat (ps_end s) + 1" using next_decl_end assms by simp
  then show "unat (start_handle (desc_range s i)) = pc_value (ps_chars s ! i) + 1"
    using assms(3) unat_Suc_less [of _ "ps_end s"] by (simp add: desc_range_def desc_need_def)
  have "next_decl s i - 1 < 2 ^ 16" using e unsigned_less [of "ps_end s", where ?'a = nat] by simp
  then show "unat (end_handle (desc_range s i)) = next_decl s i - 1" by (simp add: desc_range_def unat_of_nat)
qed

lemma no_descs: "peer_srv_ok s \<Longrightarrow> i < length (ps_chars s) \<Longrightarrow> \<not> desc_need s i \<Longrightarrow> pc_descs (ps_chars s ! i) = []"
  using srv_okD(5) [of s i] by (cases "pc_descs (ps_chars s ! i)") (fastforce simp: desc_need_def)+

lemma peer_descs_of:
  assumes ok: "peer_ok db" and s: "s \<in> set db" and i: "i < length (ps_chars s)" and need: "desc_need s i"
  shows "peer_descs db (desc_range s i) = pc_descs (ps_chars s ! i)"
proof -
  let ?cs = "ps_chars s"
  have so: "peer_srv_ok s" and all: "\<And>s'. s' \<in> set db \<Longrightarrow> peer_srv_ok s'" using ok s by (auto simp: peer_ok_def)
  note r = desc_range_unat [OF so i need]
  have inh: "in_handles h (desc_range s i) \<longleftrightarrow> pc_value (?cs ! i) < unat h \<and> unat h < next_decl s i" for h
    using r need by (auto simp: in_handles_def word_le_nat_alt desc_need_def)
  have "peer_descs db (desc_range s i) = filter (\<lambda>d. in_handles (gd_handle d) (desc_range s i)) (concat (map pc_descs ?cs))"
    unfolding peer_descs_def
  proof (intro filter_one_srv)
    fix s' x assume s': "s' \<in> set db" "x \<in> set (concat (map pc_descs (ps_chars s')))"
    then obtain l where "l < length (ps_chars s')" "x \<in> set (pc_descs (ps_chars s' ! l))"
      by (simp, metis in_set_conv_nth)
    then show "unat (ps_start s') \<le> unat (gd_handle x) \<and> unat (gd_handle x) \<le> unat (ps_end s')"
      using srv_okD(1,2,5) [OF all [OF s'(1)], of l] next_decl_end [OF all [OF s'(1)], of l] by fastforce
  qed (use ok s r need next_decl_end [OF so i] srv_okD(1,2) [OF so i] in \<open>auto simp: peer_ok_def word_le_nat_alt desc_need_def\<close>)
  also have "\<dots> = pc_descs (?cs ! i)"
  proof -
    have none: "\<not> in_handles (gd_handle d) (desc_range s i)" if d: "d \<in> set (pc_descs (?cs ! l))" and l: "l < length ?cs" "l \<noteq> i" for d l
    proof (cases "l < i")
      case True
      then show ?thesis using srv_okD(5) [OF so l(1) d] decl_chain [OF so i True] srv_okD(2) [OF so i] by (simp add: inh)
    next
      case False
      then show ?thesis using srv_okD(5) [OF so l(1) d] decl_chain [OF so l(1), of i] srv_okD(2) [OF so l(1)] l(2) by (simp add: inh)
    qed
    have "filter (\<lambda>d. in_handles (gd_handle d) (desc_range s i)) (concat (map pc_descs (take i ?cs))) = []"
      "filter (\<lambda>d. in_handles (gd_handle d) (desc_range s i)) (concat (map pc_descs (drop (Suc i) ?cs))) = []"
      unfolding filter_empty_conv using none i by (fastforce simp: in_set_conv_nth)+
    moreover have "filter (\<lambda>d. in_handles (gd_handle d) (desc_range s i)) (pc_descs (?cs ! i)) = pc_descs (?cs ! i)"
      using srv_okD(5) [OF so i] by (simp add: filter_id_conv inh)
    ultimately show ?thesis by (subst id_take_nth_drop [OF i]) simp
  qed
  finally show ?thesis .
qed

text \<open>The part of the peer that the module hears of is a peer like it.\<close>

lemma heard_srv_chars [simp]:
  "ps_service (heard_srv dchunk s) = ps_service s" "length (ps_chars (heard_srv dchunk s)) = length (ps_chars s)"
  "map pc_char (ps_chars (heard_srv dchunk s)) = map pc_char (ps_chars s)"
  "i < length (ps_chars s) \<Longrightarrow> pc_char (ps_chars (heard_srv dchunk s) ! i) = pc_char (ps_chars s ! i)"
  "i < length (ps_chars s) \<Longrightarrow> pc_descs (ps_chars (heard_srv dchunk s) ! i) = take (Suc (dchunk (desc_range s i))) (pc_descs (ps_chars s ! i))"
proof -
  show "map pc_char (ps_chars (heard_srv dchunk s)) = map pc_char (ps_chars s)"
    by (rule nth_equalityI) (simp_all add: heard_srv_def)
qed (simp_all add: heard_srv_def)

lemma heard_srv_ranges [simp]:
  "next_decl (heard_srv dchunk s) i = next_decl s i"
  "i < length (ps_chars s) \<Longrightarrow> desc_range (heard_srv dchunk s) i = desc_range s i"
  "i < length (ps_chars s) \<Longrightarrow> desc_need (heard_srv dchunk s) i = desc_need s i"
  by (simp_all add: next_decl_def desc_range_def desc_need_def)

lemma heard_srv_ok:
  assumes "peer_srv_ok s"
  shows "peer_srv_ok (heard_srv dchunk s)"
proof -
  have "distinct (map f (filter P (take n ds)))" if "distinct (map f (filter P ds))" for f :: "ble_gattc_desc \<Rightarrow> u16" and P n ds
    using that append_take_drop_id [of n ds, symmetric] by (metis distinct_append filter_append map_append)
  then show ?thesis
    using assms by (auto simp: peer_srv_ok_def Let_def dest!: in_set_takeD)
qed

lemma find_heard: "find_srv (heard dchunk db) u = map_option (heard_srv dchunk) (find_srv db u)"
  by (induction db) (simp_all add: heard_def find_srv_def)

subsection \<open>Descriptors\<close>

text \<open>The record of a service whose characteristics are known, those before \<open>i\<close> with their descriptors.\<close>

definition chars_at :: "peer_srv \<Rightarrow> nat \<Rightarrow> ble_gatt_db_srv \<Rightarrow> bool" where
  "chars_at s i srv \<longleftrightarrow> srv_uuid srv = gs_uuid (ps_service s) \<and> handle_range srv = gs_handle_range (ps_service s)
     \<and> unat (char_count srv) = length (ps_chars s) \<and> length (charateristics srv) = 5
     \<and> (\<forall>l < length (ps_chars s). charateristics srv ! l =
          (if l < i then peer_db_char (ps_chars s ! l) else fresh_db_char (pc_char (ps_chars s ! l))))"

lemma peer_db_char_fresh: "pc_descs c = [] \<Longrightarrow> peer_db_char c = fresh_db_char (pc_char c)"
  by (simp add: peer_db_char_def fresh_db_char_def desc_handle_def)

lemma characteristic_peer: "characteristic (peer_db_char c) = pc_char c" "characteristic (fresh_db_char x) = x"
  by (simp_all add: peer_db_char_def fresh_db_char_def)

lemma chars_at_skip:
  assumes "chars_at s i srv" and "peer_srv_ok s" and "\<And>l. i \<le> l \<Longrightarrow> l < k \<Longrightarrow> l < length (ps_chars s) \<Longrightarrow> \<not> desc_need s l" and "i \<le> k"
  shows "chars_at s k srv"
proof -
  have "peer_db_char (ps_chars s ! l) = fresh_db_char (pc_char (ps_chars s ! l))" if "i \<le> l" "l < k" "l < length (ps_chars s)" for l
    using that assms(2,3) by (intro peer_db_char_fresh no_descs) auto
  then show ?thesis using assms(1,4) by (auto simp: chars_at_def)
qed

lemma desc_reqd:
  assumes ca: "chars_at s i srv" and so: "peer_srv_ok s" and l: "l < length (ps_chars s)"
  shows "is_desc_discovery_reqd srv (charateristics srv ! l)
       (if int l = uint (char_count srv) - 1 then None else Some (charateristics srv ! (l + 1)))
     = (if desc_need s l then Some (desc_range s l) else None)"
proof -
  let ?c = "ps_chars s ! l"
  have ch: "characteristic (charateristics srv ! k) = pc_char (ps_chars s ! k)" if "k < length (ps_chars s)" for k
    using ca that by (simp add: chars_at_def characteristic_peer)
  have cc: "uint (char_count srv) = int (length (ps_chars s))" using ca by (metis chars_at_def uint_nat)
  have er: "handle_range srv = gs_handle_range (ps_service s)" using ca by (simp add: chars_at_def)
  have v: "pc_value ?c < next_decl s l" using srv_okD(3) [OF so l] .
  show ?thesis
  proof (cases "Suc l < length (ps_chars s)")
    case True
    then have nd: "next_decl s l = pc_decl (ps_chars s ! Suc l)" by (simp add: next_decl_def)
    then have "of_nat (next_decl s l - 1) = gc_handle_decl (pc_char (ps_chars s ! Suc l)) - 1" using v by simp
    moreover have "uint (gc_handle_value (pc_char ?c)) + 1 = uint (gc_handle_decl (pc_char (ps_chars s ! Suc l))) \<longleftrightarrow> \<not> desc_need s l"
      using v nd unfolding desc_need_def uint_nat by linarith
    ultimately show ?thesis using True l cc by (simp add: is_desc_discovery_reqd_def ch desc_range_def)
  next
    case False
    then have nd: "next_decl s l = unat (ps_end s) + 1" and last: "int l = uint (char_count srv) - 1"
      using l cc by (auto simp: next_decl_def)
    have "gc_handle_value (pc_char ?c) = ps_end s \<longleftrightarrow> \<not> desc_need s l"
      using v nd by (auto simp: desc_need_def word_unat_eq_iff)
    then show ?thesis using l last nd by (simp add: is_desc_discovery_reqd_def ch er desc_range_def)
  qed
qed

lemma desc_scan_run:
  assumes ca: "chars_at s i0 srv" and so: "peer_srv_ok s"
  shows "i \<le> length (ps_chars s) \<Longrightarrow> desc_scan srv [i..<length (ps_chars s)] (of_nat i) =
     (case find (desc_need s) [i..<length (ps_chars s)] of
        Some k \<Rightarrow> (Some (desc_range s k), of_nat k) | None \<Rightarrow> (None, of_nat (length (ps_chars s))))"
proof (induction "length (ps_chars s) - i" arbitrary: i)
  case (Suc n)
  then have i: "i < length (ps_chars s)" by simp
  have IH: "desc_scan srv [Suc i..<length (ps_chars s)] (of_nat i + 1) =
     (case find (desc_need s) [Suc i..<length (ps_chars s)] of
        Some k \<Rightarrow> (Some (desc_range s k), of_nat k) | None \<Rightarrow> (None, of_nat (length (ps_chars s))))"
    using Suc(1) [of "Suc i"] Suc(2) i by (simp add: add.commute)
  show ?case
    using i by (simp only: upt_conv_Cons [OF i] desc_scan.simps desc_reqd [OF ca so i] find.simps IH split: if_split) simp
qed simp

text \<open>The request that \<^verbatim>\<open>descriptors_discover\<close> makes: the next characteristic that may have descriptors.\<close>

lemma descriptors_discover_run:
  assumes ca: "chars_at s i (curr_srv st)" and so: "peer_srv_ok s" and ind: "curr_char_ind (db_p st) = of_nat i"
    and i: "i < length (ps_chars s) \<or> i = 0 \<and> ps_chars s = []"
  shows "\<exists>ind'. descriptors_discover conn st = (case find (desc_need s) [i..<length (ps_chars s)] of
        None \<Rightarrow> ret (NRF_SUCCESS, True, put_char_ind ind' st)
      | Some k \<Rightarrow> bnd (svc_rc (Gatt (Sd_ble_gattc_descriptors_discover conn (desc_range s k))))
                    (\<lambda>e. ret (e, False, put_char_ind (of_nat k) st)))"
proof -
  have n5: "length (ps_chars s) \<le> 5" using so by (simp add: peer_srv_ok_def)
  then have ui: "unat (curr_char_ind (db_p st)) = i" using i ind by (auto simp: unat_of_nat)
  then have uui: "uint (curr_char_ind (db_p st)) = int i" by (simp only: uint_nat)
  have cc: "unat (char_count (curr_srv st)) = length (ps_chars s)" using ca by (simp add: chars_at_def)
  then have ucc: "uint (char_count (curr_srv st)) = int (length (ps_chars s))" by (simp only: uint_nat)
  show ?thesis
  proof (cases "Suc i = length (ps_chars s)")
    case True
    then have il: "i < length (ps_chars s)" by simp
    then have "[i..<length (ps_chars s)] = [i]" using True by (simp add: upt_rec)
    moreover have "is_desc_discovery_reqd (curr_srv st) (charateristics (curr_srv st) ! i) None = (if desc_need s i then Some (desc_range s i) else None)"
      using desc_reqd [OF ca so il] True ucc by simp
    ultimately show ?thesis
      using True ui uui ucc ind by (intro exI [of _ "of_nat i"]) (simp add: descriptors_discover_def Let_def)
  next
    case False
    have "i \<le> length (ps_chars s)" using i by auto
    then show ?thesis
      using False ui uui ucc cc ind desc_scan_run [OF ca so, of i]
      by (intro exI [of _ "of_nat (length (ps_chars s))"]) (simp add: descriptors_discover_def Let_def split: option.split)
  qed
qed

text \<open>The conversation about the next service, once it has been asked for.\<close>

definition goes_on ::
  "('w, 'c) db_ctx \<Rightarrow> (call \<Rightarrow> ble_evt option) \<Rightarrow> 'w world_scheme \<Rightarrow> peer_srv list \<Rightarrow> u16 \<Rightarrow> ble_uuid list \<Rightarrow> fnptr \<Rightarrow> 'c \<Rightarrow> nat \<Rightarrow> bool" where
  "goes_on cx rsp s db conn us h c j \<longleftrightarrow> (\<forall>st t. disc_at db conn us h c j st \<longrightarrow> srv_uuid (curr_srv st) = us ! j \<longrightarrow>
     char_count (curr_srv st) = 0 \<longrightarrow> curr_char_ind (db_p st) = 0 \<longrightarrow>
     last t = Gatt (Sd_ble_gattc_primary_services_discover conn SRV_DISC_START_HANDLE (us ! j)) \<longrightarrow>
     completes cx rsp s db conn us h c (ret st) t)"

lemma find_srv_SomeD: "find_srv db u = Some s \<Longrightarrow> s \<in> set db \<and> gs_uuid (ps_service s) = u"
  by (auto simp: find_srv_def find_Some_iff)

lemma service_done:
  assumes at: "disc_at db conn us h c j st" and ca: "chars_at ps (length (ps_chars ps)) (curr_srv st)" and f: "find_srv db (us ! j) = Some ps"
    and so: "peer_srv_ok ps" and g: "disc_grants s" and go: "Suc j < length us \<Longrightarrow> goes_on cx rsp s db conn us h c (Suc j)"
  shows "completes cx rsp s db conn us h c (discovery_completed cx conn st) t"
  unfolding discovery_completed_def
proof (rule after_service [OF at _ g])
  show u: "srv_uuid (curr_srv st) = us ! j" using ca find_srv_SomeD [OF f] by (simp add: chars_at_def)
  have "take (length (ps_chars ps)) (charateristics (curr_srv st)) = map peer_db_char (ps_chars ps)"
    using ca so by (intro nth_equalityI) (auto simp: chars_at_def peer_srv_ok_def)
  then show "reports db conn (us ! j) \<lparr>dd_evt_type = if True then BLE_DB_DISCOVERY_COMPLETE else BLE_DB_DISCOVERY_SRV_NOT_FOUND,
       dd_conn_handle = conn, dd_params = Discovered_db (curr_srv st)\<rparr>"
    using f u ca by (simp add: reports_def chars_at_def)
qed (use go in \<open>auto simp: goes_on_def\<close>)

lemma chars_at_store:
  assumes ca: "chars_at ps k srv" and so: "peer_srv_ok ps" and k: "k < length (ps_chars ps)"
  shows "chars_at ps (Suc k) (srv\<lparr>charateristics := (charateristics srv)[k := store_descs (pc_descs (ps_chars ps ! k)) (charateristics srv ! k)]\<rparr>)"
proof -
  note ok = srv_okD(5,6) [OF so k]
  have "\<forall>d \<in> set (pc_descs (ps_chars ps ! k)). gd_handle d \<noteq> BLE_GATT_HANDLE_INVALID"
    using ok(1) by (fastforce simp: BLE_GATT_HANDLE_INVALID_def)
  then have "store_descs (pc_descs (ps_chars ps ! k)) (fresh_db_char (pc_char (ps_chars ps ! k))) = peer_db_char (ps_chars ps ! k)"
    using store_descs_run [OF ok(2), of "fresh_db_char (pc_char (ps_chars ps ! k))"]
    by (simp add: unseen_def) (simp add: fresh_db_char_def peer_db_char_def)
  moreover have "k < 5" using so k by (simp add: peer_srv_ok_def)
  ultimately show ?thesis using ca k by (auto simp: chars_at_def nth_list_update less_Suc_eq)
qed

lemma att_not_found: "BLE_GATT_STATUS_ATTERR_ATTRIBUTE_NOT_FOUND \<noteq> BLE_GATT_STATUS_SUCCESS"
  by (simp add: BLE_GATT_STATUS_ATTERR_ATTRIBUTE_NOT_FOUND_def BLE_GATT_STATUS_SUCCESS_def)

lemma find_upt_fromD:
  assumes "find P [i..<n] = Some k"
  shows "i \<le> k" "k < n" "P k" "i \<le> l \<Longrightarrow> l < k \<Longrightarrow> \<not> P l"
proof -
  obtain m where m: "m < n - i" "P (i + m)" "k = i + m" "\<And>j. j < m \<Longrightarrow> \<not> P (i + j)"
    using assms by (auto simp: find_Some_iff)
  then show "i \<le> k" "k < n" "P k" by auto
  show "\<not> P l" if "i \<le> l" "l < k" using m(3) m(4) [of "l - i"] that by simp
qed

lemma desc_phase:
  fixes cx :: "('w, 'c) db_ctx"
  assumes ok: "peer_ok db" and f0: "find_srv db (us ! j) = Some ps0" and ps_def: "ps = heard_srv dchunk ps0" and g: "disc_grants s"
    and go: "Suc j < length us \<Longrightarrow> goes_on cx (peer_rsp db chunk dchunk) s (heard dchunk db) conn us h c (Suc j)"
  shows "disc_at (heard dchunk db) conn us h c j st \<Longrightarrow> chars_at ps i (curr_srv st) \<Longrightarrow> curr_char_ind (db_p st) = of_nat i \<Longrightarrow>
     i < length (ps_chars ps) \<or> i = 0 \<and> ps_chars ps = [] \<Longrightarrow>
     completes cx (peer_rsp db chunk dchunk) s (heard dchunk db) conn us h c (descriptors_step cx conn st) t"
proof (induction "length (ps_chars ps) - i" arbitrary: i st t rule: less_induct)
  case (less i st t)
  note at = less.prems(1) and ca = less.prems(2)
  have ps: "ps0 \<in> set db" and so: "peer_srv_ok ps" using ok find_srv_SomeD [OF f0] heard_srv_ok by (auto simp: peer_ok_def ps_def)
  have f: "find_srv (heard dchunk db) (us ! j) = Some ps" using f0 by (simp add: find_heard ps_def)
  have n5: "length (ps_chars ps) \<le> 5" using so by (simp add: peer_srv_ok_def)
  let ?n = "length (ps_chars ps)"
  obtain ind' where run: "(descriptors_discover conn st :: ('w world_scheme, _) prog) = (case find (desc_need ps) [i..<?n] of
        None \<Rightarrow> ret (NRF_SUCCESS, True, put_char_ind ind' st)
      | Some k \<Rightarrow> bnd (svc_rc (Gatt (Sd_ble_gattc_descriptors_discover conn (desc_range ps k))))
                    (\<lambda>e. ret (e, False, put_char_ind (of_nat k) st)))"
    using descriptors_discover_run [OF ca so less.prems(3,4), of conn] by blast
  show ?case
  proof (cases "find (desc_need ps) [i..<?n]")
    case None
    then have "chars_at ps ?n (curr_srv st)"
      using less.prems(4) by (intro chars_at_skip [OF ca so]) (auto simp: find_None_iff)
    then have "completes cx (peer_rsp db chunk dchunk) s (heard dchunk db) conn us h c (discovery_completed cx conn (put_char_ind ind' st)) t"
      using at go by (intro service_done [OF _ _ f so g]) (simp_all add: disc_at_put)
    then show ?thesis
      unfolding descriptors_step_def run None by (simp only: option.case bnd_ret_left prod.case simp_thms if_True if_False)
  next
    case (Some k)
    then have k: "i \<le> k" "k < ?n" "desc_need ps k" and skip: "\<And>l. i \<le> l \<Longrightarrow> l < k \<Longrightarrow> \<not> desc_need ps l"
      using find_upt_fromD by blast+
    have cak: "chars_at ps k (curr_srv st)" using skip k(1) by (intro chars_at_skip [OF ca so]) auto
    let ?st = "put_char_ind (of_nat k) st"
    let ?r = "Gatt (Sd_ble_gattc_descriptors_discover conn (desc_range ps k))"
    let ?ds = "pc_descs (ps_chars ps ! k)"
    have uk: "unat (of_nat k :: u8) = k" using k(2) n5 by (simp add: unat_of_nat)
    note d = disc_atD [OF at]
    have cc: "unat (char_count (curr_srv st)) = ?n" "length (charateristics (curr_srv st)) = 5" using ca by (simp_all add: chars_at_def)
    define st' where "st' = (if ?ds = [] then ?st else put_srv ((curr_srv st)\<lparr>charateristics := (charateristics (curr_srv st))
        [k := store_descs ?ds (charateristics (curr_srv st) ! k)]\<rparr>) ?st)"
    have at': "disc_at (heard dchunk db) conn us h c j st'" using at cc(2) by (simp add: st'_def disc_at_put)
    have "chars_at ps (Suc k) ((curr_srv st)\<lparr>charateristics := (charateristics (curr_srv st))
        [k := store_descs ?ds (charateristics (curr_srv st) ! k)]\<rparr>)"
      using chars_at_store [OF cak so k(2)] .
    then have ca': "chars_at ps (Suc k) (curr_srv st')"
      using d(5) by (cases "curr_srv st") (auto simp: st'_def put_char_ind_def curr_srv_def put_srv_def)
    have ind': "curr_char_ind (db_p st') = of_nat k" by (simp add: st'_def)
    let ?e = "case ?ds of [] \<Rightarrow> BLE_GATTC_EVT_DESC_DISC_RSP conn BLE_GATT_STATUS_ATTERR_ATTRIBUTE_NOT_FOUND []
       | ds \<Rightarrow> BLE_GATTC_EVT_DESC_DISC_RSP conn BLE_GATT_STATUS_SUCCESS ?ds"
    have evt: "ble_db_discovery_on_ble_evt cx 1 (Some ?e) ?st = (if Suc k = ?n then discovery_completed cx conn st'
        else descriptors_step cx conn (put_char_ind (of_nat (Suc k)) st'))"
      using d(6,7) uk cc k(2) n5
      by (cases ?ds) (simp_all add: ble_db_discovery_on_ble_evt_def on_descriptor_discovery_rsp_def Let_def st'_def att_not_found add.commute,
          simp_all add: put_char_ind_def put_srv_def)
    have "completes cx (peer_rsp db chunk dchunk) s (heard dchunk db) conn us h c (ble_db_discovery_on_ble_evt cx 1 (Some ?e) ?st) (t @ [?r])"
    proof (cases "Suc k = ?n")
      case True
      then show ?thesis unfolding evt using go ca' at' by (simp) (rule service_done [OF at' _ f so g], simp_all)
    next
      case False
      then have "completes cx (peer_rsp db chunk dchunk) s (heard dchunk db) conn us h c (descriptors_step cx conn (put_char_ind (of_nat (Suc k)) st')) (t @ [?r])"
        using k ca' at' by (intro less.hyps [of "Suc k"]) (simp_all add: disc_at_put)
      with False show ?thesis unfolding evt by simp
    qed
    moreover have "peer_rsp db chunk dchunk (last (t @ [?r])) = Some ?e"
    proof -
      have "k < length (ps_chars ps0)" "desc_need ps0 k" using k(2,3) by (simp_all add: ps_def)
      note this peer_descs_of [OF ok ps this]
      then show ?thesis by (simp add: peer_rsp_def ps_def split: list.split)
    qed
    ultimately have "completes cx (peer_rsp db chunk dchunk) s (heard dchunk db) conn us h c (ret ?st) (t @ [?r])"
      using d(8) by (intro completes_turn [where e = ?e]) (simp_all add: put_char_ind_def)
    then have "completes cx (peer_rsp db chunk dchunk) s (heard dchunk db) conn us h c (bnd (svc_rc ?r) (\<lambda>e. if e \<noteq> NRF_SUCCESS
        then discovery_failed cx e conn ?st else ret ?st)) t"
      using g by (intro completes_request) (simp_all add: disc_grants_def)
    then show ?thesis unfolding descriptors_step_def run Some by (simp only: option.case bnd_assoc bnd_ret_left prod.case simp_thms if_False)
  qed
qed

subsection \<open>Characteristics\<close>

text \<open>The record of a service of which the first \<open>m\<close> characteristics are known.\<close>

definition chars_known :: "peer_srv \<Rightarrow> nat \<Rightarrow> ble_gatt_db_srv \<Rightarrow> bool" where
  "chars_known s m srv \<longleftrightarrow> srv_uuid srv = gs_uuid (ps_service s) \<and> handle_range srv = gs_handle_range (ps_service s)
     \<and> unat (char_count srv) = m \<and> length (charateristics srv) = 5 \<and> m \<le> length (ps_chars s)
     \<and> (\<forall>l < m. charateristics srv ! l = fresh_db_char (pc_char (ps_chars s ! l)))"

lemma chars_known_all: "chars_known s (length (ps_chars s)) srv \<Longrightarrow> chars_at s 0 srv"
  by (simp add: chars_known_def chars_at_def)

lemma foldl_store_run:
  assumes "a + length xs \<le> length cs"
  shows "length (foldl (\<lambda>cs i. cs[i := f (xs ! (i - a))]) cs [a..<a + length xs]) = length cs
     \<and> (\<forall>l < length cs. foldl (\<lambda>cs i. cs[i := f (xs ! (i - a))]) cs [a..<a + length xs] ! l =
          (if a \<le> l \<and> l < a + length xs then f (xs ! (l - a)) else cs ! l))"
proof -
  have "n \<le> length xs \<Longrightarrow> length (foldl (\<lambda>cs i. cs[i := f (xs ! (i - a))]) cs [a..<a + n]) = length cs
     \<and> (\<forall>l < length cs. foldl (\<lambda>cs i. cs[i := f (xs ! (i - a))]) cs [a..<a + n] ! l =
          (if a \<le> l \<and> l < a + n then f (xs ! (l - a)) else cs ! l))" for n
  proof (induction n)
    case (Suc n)
    then show ?case using assms by (auto simp: nth_list_update less_Suc_eq)
  qed auto
  then show ?thesis by simp
qed

lemma chars_known_store:
  assumes ck: "chars_known s m srv" and so: "peer_srv_ok s" and k: "m + k \<le> length (ps_chars s)"
  defines "srv' \<equiv> store_chars (take k (drop m (map pc_char (ps_chars s)))) srv"
  shows "chars_known s (m + k) srv'"
proof -
  let ?xs = "take k (drop m (map pc_char (ps_chars s)))"
  have n5: "length (ps_chars s) \<le> 5" using so by (simp add: peer_srv_ok_def)
  have len: "length ?xs = k" using k by simp
  have uk: "unat (of_nat k :: u8) = k" using k n5 by (simp add: unat_of_nat)
  have m: "unat (char_count srv) = m" and l5: "length (charateristics srv) = 5" using ck by (simp_all add: chars_known_def)
  have sum: "unat (char_count srv + of_nat k) = m + k"
    using m uk k n5 unat_add_lem [of "char_count srv" "of_nat k"] by simp
  have "uint (char_count srv) + uint (of_nat k :: u8) \<le> uint BLE_GATT_DB_MAX_CHARS"
    using m uk k n5 by (simp only: uint_nat) (simp add: BLE_GATT_DB_MAX_CHARS_def)
  then have srv': "srv' = srv\<lparr>char_count := char_count srv + of_nat k,
      charateristics := foldl (\<lambda>cs i. cs[i := fresh_db_char (?xs ! (i - m))]) (charateristics srv) [m..<m + k]\<rparr>"
    unfolding srv'_def store_chars_def Let_def len m by (simp add: sum)
  have "m + length ?xs \<le> length (charateristics srv)" using len k n5 l5 by simp
  note f = foldl_store_run [OF this, of fresh_db_char, unfolded len]
  show ?thesis
    unfolding chars_known_def srv' using ck f sum k l5 n5 by (auto simp: chars_known_def)
qed

lemma chars_through:
  assumes so: "peer_srv_ok s" and m: "0 < m" "m \<le> length (ps_chars s)"
    and e: "\<not> pc_value (ps_chars s ! (m - 1)) < unat (ps_end s) \<or> m = 5"
  shows "m = length (ps_chars s)"
proof (rule ccontr)
  assume "m \<noteq> length (ps_chars s)"
  then have less: "m < length (ps_chars s)" using m by simp
  then have "pc_value (ps_chars s ! (m - 1)) < pc_decl (ps_chars s ! m)"
    using m srv_okD(3) [OF so, of "m - 1"] by (simp add: next_decl_def)
  then have "pc_value (ps_chars s ! (m - 1)) < unat (ps_end s)" using srv_okD(2,4) [OF so less] by simp
  moreover have "m \<noteq> 5" using less so by (simp add: peer_srv_ok_def)
  ultimately show False using e by blast
qed

lemma char_phase:
  fixes cx :: "('w, 'c) db_ctx"
  assumes ok: "peer_ok db" and f0: "find_srv db (us ! j) = Some ps0" and ps_def: "ps = heard_srv dchunk ps0" and g: "disc_grants s"
    and go: "Suc j < length us \<Longrightarrow> goes_on cx (peer_rsp db chunk dchunk) s (heard dchunk db) conn us h c (Suc j)"
  shows "disc_at (heard dchunk db) conn us h c j st \<Longrightarrow> chars_known ps m (curr_srv st) \<Longrightarrow> curr_char_ind (db_p st) = of_nat m \<Longrightarrow>
     m \<noteq> 0 \<longrightarrow> pc_value (ps_chars ps ! (m - 1)) < unat (ps_end ps) \<Longrightarrow>
     completes cx (peer_rsp db chunk dchunk) s (heard dchunk db) conn us h c
       (bnd (characteristics_discover conn st) (\<lambda>e. if e \<noteq> NRF_SUCCESS then discovery_failed cx e conn st else ret st)) t"
proof (induction "length (ps_chars ps) - m" arbitrary: m st t rule: less_induct)
  case (less m st t)
  note at = less.prems(1) and ck = less.prems(2)
  have ps: "ps0 \<in> set db" and so: "peer_srv_ok ps" using ok find_srv_SomeD [OF f0] heard_srv_ok by (auto simp: peer_ok_def ps_def)
  have f: "find_srv (heard dchunk db) (us ! j) = Some ps" using f0 by (simp add: find_heard ps_def)
  have n5: "length (ps_chars ps) \<le> 5" using so by (simp add: peer_srv_ok_def)
  have m: "m \<le> length (ps_chars ps)" "unat (of_nat m :: u8) = m" using ck n5 by (auto simp: chars_known_def unat_of_nat)
  note d = disc_atD [OF at]
  let ?r = "\<lparr>start_handle = if m \<noteq> 0 then gc_handle_value (pc_char (ps_chars ps ! (m - 1))) + 1 else ps_start ps, end_handle = ps_end ps\<rparr>"
  let ?c = "Gatt (Sd_ble_gattc_characteristics_discover conn ?r)"
  let ?xs = "drop m (map pc_char (ps_chars ps))"
  have ind: "(of_nat m :: u8) \<noteq> 0 \<longleftrightarrow> m \<noteq> 0" "m \<noteq> 0 \<Longrightarrow> unat (of_nat m - 1 :: u8) = m - 1"
    using m(2) unat_eq_0 [of "of_nat m :: u8"] by (auto simp: unat_minus_one)
  have req: "characteristics_discover conn st = svc_rc ?c"
    using ck less.prems(3) ind by (simp add: characteristics_discover_def Let_def chars_known_def characteristic_peer)
  define e where "e = (case ?xs of [] \<Rightarrow> BLE_GATTC_EVT_CHAR_DISC_RSP conn BLE_GATT_STATUS_ATTERR_ATTRIBUTE_NOT_FOUND []
       | _ \<Rightarrow> BLE_GATTC_EVT_CHAR_DISC_RSP conn BLE_GATT_STATUS_SUCCESS (take (Suc (chunk ?r)) ?xs))"
  have rsp: "peer_rsp db chunk dchunk (last (t @ [?c])) = Some e"
  proof -
    have "m \<le> length (ps_chars ps0)" "m \<noteq> 0 \<Longrightarrow> pc_char (ps_chars ps ! (m - 1)) = pc_char (ps_chars ps0 ! (m - 1))"
      "ps_end ps = ps_end ps0" "ps_start ps = ps_start ps0" "map pc_char (ps_chars ps) = map pc_char (ps_chars ps0)"
      using m(1) by (simp_all add: ps_def)
    then have "peer_chars db ?r = ?xs"
      using peer_chars_from [OF ok ps, of m] less.prems(4) by (cases "m = 0") simp_all
    then show ?thesis by (simp add: peer_rsp_def e_def split del: if_split split: list.split)
  qed
  have desc: "completes cx (peer_rsp db chunk dchunk) s (heard dchunk db) conn us h c (descriptors_step cx conn (put_char_ind 0 st')) t'"
    if "disc_at (heard dchunk db) conn us h c j st'" "chars_known ps (length (ps_chars ps)) (curr_srv st')" for st' t'
    using that chars_known_all by (intro desc_phase [OF ok f0 ps_def g go, where i = 0]) (auto simp: disc_at_put)
  have "completes cx (peer_rsp db chunk dchunk) s (heard dchunk db) conn us h c (ble_db_discovery_on_ble_evt cx 1 (Some e) st) (t @ [?c])"
  proof (cases "m = length (ps_chars ps)")
    case True
    then have "ble_db_discovery_on_ble_evt cx 1 (Some e) st = descriptors_step cx conn (put_char_ind 0 st)"
      using d(6,7) by (simp add: e_def ble_db_discovery_on_ble_evt_def on_characteristic_discovery_rsp_def att_not_found)
    then show ?thesis using desc [OF at] ck True by simp
  next
    case False
    then have less_m: "m < length (ps_chars ps)" using m(1) by simp
    define k where "k = min (Suc (chunk ?r)) (length (ps_chars ps) - m)"
    have k: "0 < k" "m + k \<le> length (ps_chars ps)" "take (Suc (chunk ?r)) ?xs = take k ?xs"
      using less_m by (auto simp: k_def min_def)
    define srv where "srv = store_chars (take k ?xs) (curr_srv st)"
    have ck': "chars_known ps (m + k) srv" unfolding srv_def by (rule chars_known_store [OF ck so k(2)])
    let ?st = "put_srv srv st"
    have st': "disc_at (heard dchunk db) conn us h c j ?st" "curr_srv ?st = srv" using at ck' d(5) by (auto simp: disc_at_put chars_known_def)
    have cc: "char_count srv = of_nat (m + k)" using ck' unfolding chars_known_def by (metis of_nat_unat ucast_id)
    have last: "characteristic (charateristics srv ! (m + k - 1)) = pc_char (ps_chars ps ! (m + k - 1))"
      using ck' k(1) by (simp add: chars_known_def characteristic_peer)
    have max: "max (unat (char_count (curr_srv st))) (unat (char_count srv)) = m + k"
      using ck ck' by (simp add: chars_known_def)
    have nz: "(m + k = 0) = False" using k(1) by simp
    have stop: "is_char_discovery_reqd ?st (pc_char (ps_chars ps ! (m + k - 1))) \<longleftrightarrow>
        pc_value (ps_chars ps ! (m + k - 1)) < unat (ps_end ps)" "char_count srv = BLE_GATT_DB_MAX_CHARS \<longleftrightarrow> m + k = 5"
      using ck' st'(2) by (auto simp: is_char_discovery_reqd_def word_less_nat_alt chars_known_def word_unat_eq_iff BLE_GATT_DB_MAX_CHARS_def)
    have "?xs \<noteq> []" using less_m by simp
    then have e: "e = BLE_GATTC_EVT_CHAR_DISC_RSP conn BLE_GATT_STATUS_SUCCESS (take k ?xs)"
      unfolding e_def k(3) [symmetric] by (simp only: split: list.split) simp
    have run: "ble_db_discovery_on_ble_evt cx 1 (Some e) st =
        (if \<not> pc_value (ps_chars ps ! (m + k - 1)) < unat (ps_end ps) \<or> m + k = 5
         then descriptors_step cx conn (put_char_ind 0 ?st)
         else bnd (characteristics_discover conn (put_char_ind (of_nat (m + k)) ?st)) (\<lambda>e. if e \<noteq> NRF_SUCCESS
           then discovery_failed cx e conn (put_char_ind (of_nat (m + k)) ?st) else ret (put_char_ind (of_nat (m + k)) ?st)))"
      using d(6,7)
      by (simp only: e ble_db_discovery_on_ble_evt_def on_characteristic_discovery_rsp_def option.case ble_evt.case Let_def
          srv_def [symmetric] max nz if_False last stop cc [symmetric]) simp
    show ?thesis
    proof (cases "\<not> pc_value (ps_chars ps ! (m + k - 1)) < unat (ps_end ps) \<or> m + k = 5")
      case True
      then have "m + k = length (ps_chars ps)" using chars_through [OF so, of "m + k"] k by simp
      then show ?thesis using True desc [OF st'(1)] ck' st'(2) unfolding run by simp
    next
      case False
      then have "completes cx (peer_rsp db chunk dchunk) s (heard dchunk db) conn us h c (bnd (characteristics_discover conn (put_char_ind (of_nat (m + k)) ?st))
          (\<lambda>e. if e \<noteq> NRF_SUCCESS then discovery_failed cx e conn (put_char_ind (of_nat (m + k)) ?st)
               else ret (put_char_ind (of_nat (m + k)) ?st))) (t @ [?c])"
        using k less_m st' ck' by (intro less.hyps [of "m + k"]) (simp_all add: disc_at_put)
      then show ?thesis using False unfolding run by (simp only: if_False)
    qed
  qed
  then have "completes cx (peer_rsp db chunk dchunk) s (heard dchunk db) conn us h c (ret st) (t @ [?c])"
    by (intro completes_turn [where rsp = "peer_rsp db chunk dchunk" and t = "t @ [?c]", OF rsp d(8)])
  then show ?case unfolding req using g by (intro completes_request) (simp_all add: disc_grants_def)
qed

subsection \<open>The whole discovery\<close>

lemma service_phase:
  assumes ok: "peer_ok db" and g: "disc_grants s"
  shows "j < length us \<Longrightarrow> goes_on cx (peer_rsp db chunk dchunk) s (heard dchunk db) conn us h c j"
proof (induction "length us - j" arbitrary: j rule: less_induct)
  case less
  have go: "goes_on cx (peer_rsp db chunk dchunk) s (heard dchunk db) conn us h c (Suc j)" if "Suc j < length us"
    using less.hyps [of "Suc j"] that less.prems by simp
  show ?case
    unfolding goes_on_def
  proof (intro allI impI)
    fix st t
    assume at: "disc_at (heard dchunk db) conn us h c j st" and u: "srv_uuid (curr_srv st) = us ! j" and z: "char_count (curr_srv st) = 0"
      and ind: "curr_char_ind (db_p st) = 0"
      and last: "last t = Gatt (Sd_ble_gattc_primary_services_discover conn SRV_DISC_START_HANDLE (us ! j))"
    note d = disc_atD [OF at]
    show "completes cx (peer_rsp db chunk dchunk) s (heard dchunk db) conn us h c (ret st) t"
    proof (cases "find_srv db (us ! j)")
      case None
      let ?e = "BLE_GATTC_EVT_PRIM_SRVC_DISC_RSP conn BLE_GATT_STATUS_ATTERR_ATTRIBUTE_NOT_FOUND []"
      have "completes cx (peer_rsp db chunk dchunk) s (heard dchunk db) conn us h c
          (bnd (discovery_complete_evt_trigger cx False conn st) (on_srv_disc_completion cx conn)) t"
        using None go by (intro after_service [OF at u g]) (auto simp: reports_def goes_on_def find_heard)
      then have "completes cx (peer_rsp db chunk dchunk) s (heard dchunk db) conn us h c (ble_db_discovery_on_ble_evt cx 1 (Some ?e) st) t"
        using d(6,7) by (simp add: ble_db_discovery_on_ble_evt_def on_primary_srv_discovery_rsp_def att_not_found)
      moreover have rsp: "peer_rsp db chunk dchunk (last t) = Some ?e" using None by (simp add: peer_rsp_def last)
      ultimately show ?thesis by (intro completes_turn [where rsp = "peer_rsp db chunk dchunk" and t = t, OF rsp d(8)])
    next
      case (Some ps)
      let ?e = "BLE_GATTC_EVT_PRIM_SRVC_DISC_RSP conn BLE_GATT_STATUS_SUCCESS [ps_service ps]"
      let ?st = "put_srv ((curr_srv st)\<lparr>srv_uuid := gs_uuid (ps_service ps), handle_range := gs_handle_range (ps_service ps)\<rparr>) st"
      have "disc_at (heard dchunk db) conn us h c j ?st" "chars_known (heard_srv dchunk ps) 0 (curr_srv ?st)" using at d(4,5) z by (auto simp: disc_at_put chars_known_def)
      then have "completes cx (peer_rsp db chunk dchunk) s (heard dchunk db) conn us h c
          (bnd (characteristics_discover conn ?st) (\<lambda>e. if e \<noteq> NRF_SUCCESS then discovery_failed cx e conn ?st else ret ?st)) t"
        using ind go by (intro char_phase [OF ok Some refl g, where m = 0]) simp_all
      moreover have "ble_db_discovery_on_ble_evt cx 1 (Some ?e) st =
          bnd (characteristics_discover conn ?st) (\<lambda>e. if e \<noteq> NRF_SUCCESS then discovery_failed cx e conn ?st else ret ?st)"
        using d(6,7) by (simp add: ble_db_discovery_on_ble_evt_def on_primary_srv_discovery_rsp_def Let_def cong: if_cong)
      ultimately have "completes cx (peer_rsp db chunk dchunk) s (heard dchunk db) conn us h c (ble_db_discovery_on_ble_evt cx 1 (Some ?e) st) t"
        by (simp only:)
      moreover have rsp: "peer_rsp db chunk dchunk (last t) = Some ?e" using Some by (simp add: peer_rsp_def last)
      ultimately show ?thesis by (intro completes_turn [where rsp = "peer_rsp db chunk dchunk" and t = t, OF rsp d(8)])
    qed
  qed
qed

lemma start_run:
  fixes s :: "'w world_scheme"
  assumes r: "db_ready us h st" and i: "\<not> discovery_in_progress (db_p st)"
    and g: "disc_grants s" and p: "p \<noteq> 0" and us: "us \<noteq> []"
  obtains st' where "ble_db_discovery_start p conn st s = (Ret (NRF_SUCCESS, st'), s\<lparr>sd_trace := sd_trace s @
       [Gatt (Sd_ble_gattc_primary_services_discover conn SRV_DISC_START_HANDLE (us ! 0))]\<rparr>)"
    and "disc_at db conn us h (db_client st) 0 st'" and "curr_srv st' = (services (db_p st) ! 0)\<lparr>srv_uuid := us ! 0\<rparr>"
    and "curr_char_ind (db_p st') = 0"
proof -
  define st1 where "st1 = st\<lparr>m_pending_usr_evt_index := 0,
     db_p := (db_p st)\<lparr>disc_conn_handle := conn, discoveries_count := 0, curr_srv_ind := 0, curr_char_ind := 0\<rparr>\<rparr>"
  define srv where "srv = (curr_srv st1)\<lparr>srv_uuid := m_registered_handlers st1 ! 0\<rparr>"
  let ?st = "put_progress True (put_srv srv st1)"
  have r1: "db_ready us h st1" using r by (simp add: db_ready_def st1_def)
  have l: "0 < length (services (db_p st1))" "unat (curr_srv_ind (db_p st1)) = 0" using r1 by (auto simp: db_ready_def st1_def)
  have u: "srv_uuid srv = us ! 0" using r1 us unfolding db_ready_def srv_def by simp (metis length_greater_0_conv nth_take)
  have "length (charateristics srv) = 5" using r1 l by (simp add: srv_def db_ready_def curr_srv_def)
  then have "disc_at db conn us h (db_client st) 0 ?st"
    using r1 us unfolding disc_at_def db_ready_put(2) by (simp add: db_ready_put) (simp add: put_progress_def put_srv_def st1_def db_ready_def)
  moreover have srv': "curr_srv ?st = srv" using l by (simp add: curr_srv_def put_progress_def put_srv_def)
  moreover have "srv = (services (db_p st) ! 0)\<lparr>srv_uuid := us ! 0\<rparr>" using u by (simp add: srv_def curr_srv_def st1_def)
  moreover have "curr_char_ind (db_p ?st) = 0" by (simp add: put_progress_def put_srv_def st1_def)
  moreover have "m_num_of_handlers_reg st \<noteq> 0" "db_initialized st" using r us by (auto simp: db_ready_def)
  then have "(ble_db_discovery_start p conn st :: ('w world_scheme, _) prog) = bnd (svc_rc (Gatt (Sd_ble_gattc_primary_services_discover conn SRV_DISC_START_HANDLE
      (srv_uuid srv)))) (\<lambda>e. if e \<noteq> NRF_SUCCESS then ret (e, put_srv srv st1) else ret (NRF_SUCCESS, ?st))"
    using i p by (simp add: ble_db_discovery_start_def Let_def srv_def st1_def cong: if_cong)
  then have "ble_db_discovery_start p conn st s = (Ret (NRF_SUCCESS, ?st), s\<lparr>sd_trace := sd_trace s @
       [Gatt (Sd_ble_gattc_primary_services_discover conn SRV_DISC_START_HANDLE (us ! 0))]\<rparr>)"
    using g by (simp add: bnd_run u disc_grants_def)
  ultimately show ?thesis using that u by simp
qed

text \<open>What starting a discovery leads to, before any round.\<close>

lemma discovery_run:
  fixes cx :: "('w, 'c) db_ctx"
  assumes "peer_ok db" and "disc_grants s" and "db_ready us h st" and "\<not> discovery_in_progress (db_p st)"
    and "char_count (services (db_p st) ! 0) = 0" and "p \<noteq> 0" and "us \<noteq> []"
  obtains k evts st' t where
    "\<And>n. n \<ge> k \<Longrightarrow> bnd (ble_db_discovery_start p conn st) (\<lambda>(e, st). db_rounds cx (peer_rsp db chunk dchunk) n st) s =
       bnd (send_evts cx evts (db_client st)) (\<lambda>c. ret (st'\<lparr>db_client := c\<rparr>)) (s\<lparr>sd_trace := t\<rparr>)"
    and "list_all2 (\<lambda>u e. reports (heard dchunk db) conn u (fst e) \<and> snd e = h) us evts"
    and "db_ready us h st'" and "\<not> discovery_in_progress (db_p st')"
proof -
  let ?t = "sd_trace s @ [Gatt (Sd_ble_gattc_primary_services_discover conn SRV_DISC_START_HANDLE (us ! 0))]"
  obtain st1 where st1: "ble_db_discovery_start p conn st s = (Ret (NRF_SUCCESS, st1), s\<lparr>sd_trace := ?t\<rparr>)"
    "disc_at (heard dchunk db) conn us h (db_client st) 0 st1" "curr_srv st1 = (services (db_p st) ! 0)\<lparr>srv_uuid := us ! 0\<rparr>"
    "curr_char_ind (db_p st1) = 0"
    using start_run [OF assms(3,4,2,6,7)] by blast
  have "0 < length us" using assms(7) by simp
  then have "completes cx (peer_rsp db chunk dchunk) s (heard dchunk db) conn us h (db_client st) (ret st1) ?t"
    using service_phase [OF assms(1,2), of 0 us cx chunk dchunk conn h "db_client st"] st1(2-4) assms(5) unfolding goes_on_def by simp
  then obtain k evts st' t where r: "\<And>n. n \<ge> k \<Longrightarrow> bnd (ret st1) (db_rounds cx (peer_rsp db chunk dchunk) n) (s\<lparr>sd_trace := ?t\<rparr>) =
        bnd (send_evts cx evts (db_client st)) (\<lambda>c. ret (st'\<lparr>db_client := c\<rparr>)) (s\<lparr>sd_trace := t\<rparr>)"
     "list_all2 (\<lambda>u e. reports (heard dchunk db) conn u (fst e) \<and> snd e = h) us evts" "db_ready us h st'" "\<not> discovery_in_progress (db_p st')"
    unfolding completes_def by blast
  have eq: "bnd (ble_db_discovery_start p conn st) (\<lambda>(e, st). db_rounds cx (peer_rsp db chunk dchunk) n st) s =
      bnd (ret st1) (db_rounds cx (peer_rsp db chunk dchunk) n) (s\<lparr>sd_trace := ?t\<rparr>)" for n
    using st1(1) by simp
  show ?thesis by (rule that [OF r(1) [folded eq] r(2-4)])
qed

lemma ble_uuid_eq_iff: "BLE_UUID_EQ a b \<longleftrightarrow> a = b"
  by (cases a, cases b) (auto simp: BLE_UUID_EQ_def)

text \<open>A peer with the alert service, and the module with its registration, for examples.\<close>

definition demo_peer :: "peer_srv list" where
  "demo_peer = [\<lparr>ps_service = \<lparr>gs_uuid = BLE_UUID_BLE_ASSIGN 0x1802, gs_handle_range = \<lparr>start_handle = 7, end_handle = 9\<rparr>\<rparr>,
     ps_chars = [\<lparr>pc_char = \<lparr>gc_uuid = BLE_UUID_BLE_ASSIGN 0x2A06, gc_char_props = no_char_props\<lparr>cp_write_wo_resp := True\<rparr>,
         gc_char_ext_props = False, gc_handle_decl = 8, gc_handle_value = 9\<rparr>, pc_descs = []\<rparr>]\<rparr>]"

definition demo_disc :: "'c \<Rightarrow> 'c db_disc" where
  "demo_disc c = \<lparr>m_registered_handlers = BLE_UUID_BLE_ASSIGN 0x1802 # replicate 5 (BLE_UUID_BLE_ASSIGN 0),
     m_pending_user_evts = replicate 6 (\<lparr>dd_evt_type = BLE_DB_DISCOVERY_COMPLETE, dd_conn_handle = 0, dd_params = Err_code 0\<rparr>, 0),
     db_evt_handler = 1, m_pending_usr_evt_index = 0, m_num_of_handlers_reg = 1, db_initialized = True,
     db_p = \<lparr>services = replicate 6 \<lparr>srv_uuid = BLE_UUID_BLE_ASSIGN 0, char_count = 0, handle_range = \<lparr>start_handle = 0, end_handle = 0\<rparr>,
                charateristics = replicate 5 (fresh_db_char zero_gattc_char)\<rparr>,
              srv_count = 0, curr_char_ind = 0, curr_srv_ind = 0, discovery_in_progress = False, discoveries_count = 0, disc_conn_handle = 0\<rparr>,
     db_client = c\<rparr>"

definition demo_disc_again :: "'c \<Rightarrow> 'c db_disc" where
  "demo_disc_again c = put_srv \<lparr>srv_uuid = BLE_UUID_BLE_ASSIGN 0x1802, char_count = 1, handle_range = \<lparr>start_handle = 7, end_handle = 9\<rparr>,
     charateristics = fresh_db_char (pc_char (ps_chars (demo_peer ! 0) ! 0)) # replicate 4 (fresh_db_char zero_gattc_char)\<rparr> (demo_disc c)"

lemma demo_peer_ok: "peer_ok demo_peer"
  by (simp add: peer_ok_def demo_peer_def peer_srv_ok_def next_decl_def)

lemma demo_disc_ready:
  "db_ready [BLE_UUID_BLE_ASSIGN 0x1802] 1 (demo_disc c)" "\<not> discovery_in_progress (db_p (demo_disc c))"
  "char_count (services (db_p (demo_disc c)) ! 0) = 0" "db_client (demo_disc c) = c"
  by (simp_all add: db_ready_def demo_disc_def fresh_db_char_def)

lemma demo_world_disc: "disc_grants demo_world"
  by (simp add: disc_grants_def demo_world_def demo_env_def null_reply_def)

subsection \<open>Properties\<close>

text \<open>
  C18: a discovery that is started with an empty record for the first service ends, and the application is then
  given exactly one event per registered service, in the order of registration: the service is not there, or it
  is there with this handle range, these characteristics and the handles of their descriptors, as far as the
  first response to the one request for the descriptors of a characteristic had them (\<open>heard\<close>). The module is
  ready for the next discovery. The stack grants every request (\<open>disc_grants\<close>); the services of the peer do not
  overlap, each has at most five characteristics, with their handles in order, and a known kind of descriptor at
  most once for each of them (\<open>peer_ok\<close>). Both characteristics and descriptors may come in pieces of any size:
  for the rest of the characteristics the module asks again, for the rest of the descriptors it does not, so
  those of them that do not fit in one response are lost (\<open>late_descriptor_lost\<close>).
\<close>

theorem discovery_reports_peer:
  fixes cx :: "('w, 'c) db_ctx"
  assumes "peer_ok db" and "disc_grants s" and "db_ready us h st" and "\<not> discovery_in_progress (db_p st)"
    and "char_count (services (db_p st) ! 0) = 0" and "p \<noteq> 0" and "us \<noteq> []"
  shows "\<exists>k evts st' t.
     (\<forall>n \<ge> k. bnd (ble_db_discovery_start p conn st) (\<lambda>(e, st). db_rounds cx (peer_rsp db chunk dchunk) n st) s =
        bnd (send_evts cx evts (db_client st)) (\<lambda>c. ret (st'\<lparr>db_client := c\<rparr>)) (s\<lparr>sd_trace := t\<rparr>))
     \<and> list_all2 (\<lambda>u e. reports (heard dchunk db) conn u (fst e) \<and> snd e = h) us evts
     \<and> db_ready us h st' \<and> \<not> discovery_in_progress (db_p st')"
  by (rule discovery_run [OF assms, of conn cx chunk dchunk]) blast

theorem discovery_reports_peer_witness:
  "\<exists>k evts st' t.
     (\<forall>n \<ge> k. bnd (ble_db_discovery_start 1 3 (demo_disc ())) (\<lambda>(e, st). db_rounds
           \<lparr>dc_handler = \<lambda>f e c. ret c, dc_before = zero_gattc_char, dc_wild = ret\<rparr> (peer_rsp demo_peer (\<lambda>_. 0) (\<lambda>_. 0)) n st) demo_world =
        bnd (send_evts \<lparr>dc_handler = \<lambda>f e c. ret c, dc_before = zero_gattc_char, dc_wild = ret\<rparr> evts ()) (\<lambda>c. ret (st'\<lparr>db_client := c\<rparr>))
          (demo_world\<lparr>sd_trace := t\<rparr>))
     \<and> list_all2 (\<lambda>u e. reports (heard (\<lambda>_. 0) demo_peer) 3 u (fst e) \<and> snd e = 1) [BLE_UUID_BLE_ASSIGN 0x1802] evts
     \<and> db_ready [BLE_UUID_BLE_ASSIGN 0x1802] 1 st' \<and> \<not> discovery_in_progress (db_p st')"
  using discovery_reports_peer [OF demo_peer_ok demo_world_disc demo_disc_ready(1-3) one_neq_zero list.distinct(2), where conn = 3
      and cx = "\<lparr>dc_handler = \<lambda>f e c. ret c, dc_before = zero_gattc_char, dc_wild = ret\<rparr>" and chunk = "\<lambda>_. 0" and dchunk = "\<lambda>_. 0"]
  unfolding demo_disc_ready(4) .

text \<open>
  A known descriptor that does not come in the first response for its characteristic is not
  recorded: its handle is reported as invalid.
\<close>

lemma late_descriptor_lost:
  assumes "peer_srv_ok s" and "i < length (ps_chars s)" and "n < length (pc_descs (ps_chars s ! i))"
    and "known_desc (pc_descs (ps_chars s ! i) ! n)" and "Suc (dchunk (desc_range s i)) \<le> n"
  shows "desc_handle (uuid (gd_uuid (pc_descs (ps_chars s ! i) ! n))) (pc_descs (ps_chars (heard_srv dchunk s) ! i)) = BLE_GATT_HANDLE_INVALID"
proof -
  let ?ds = "pc_descs (ps_chars s ! i)" and ?m = "Suc (dchunk (desc_range s i))" and ?u = "\<lambda>d. uuid (gd_uuid d)"
  have "distinct (map ?u (filter known_desc (take ?m ?ds @ drop ?m ?ds)))"
    using srv_okD(6) [OF assms(1,2)] by simp
  then have apart: "?u ` set (filter known_desc (take ?m ?ds)) \<inter> ?u ` set (filter known_desc (drop ?m ?ds)) = {}"
    by (simp only: filter_append map_append distinct_append set_map)
  have "?ds ! n = drop ?m ?ds ! (n - ?m)" using assms(5) assms(3) by simp
  then have "?ds ! n \<in> set (drop ?m ?ds)" using assms(3,5) by (metis diff_less_mono length_drop nth_mem)
  then have late: "?u (?ds ! n) \<in> ?u ` set (filter known_desc (drop ?m ?ds))" using assms(4) by simp
  have "known_desc d" if "?u d = ?u (?ds ! n)" for d using assms(4) that by (simp add: known_desc_def)
  then have "filter (\<lambda>d. ?u d = ?u (?ds ! n)) (take ?m ?ds) = []"
    using apart late by (fastforce simp: filter_empty_conv)
  then show ?thesis using assms(2) by (simp add: desc_handle_def)
qed

text \<open>
  Registration keeps the list of services to look for free of duplicates, at most six of
  them, in the order of registration; a seventh is refused.
\<close>

lemma discovery_registration:
  assumes "db_ready us h st"
  shows "\<exists>st'. ble_db_discovery_evt_register (Some u) st =
       (if u \<in> set us \<or> length us < 6 then NRF_SUCCESS else NRF_ERROR_NO_MEM, st')
     \<and> db_ready (if u \<in> set us \<or> length us = 6 then us else us @ [u]) h st'"
proof -
  have r: "db_initialized st" "db_evt_handler st = h" "h \<noteq> 0" "unat (m_num_of_handlers_reg st) = length us" "length us \<le> 6"
    "length (m_registered_handlers st) = 6" "take (length us) (m_registered_handlers st) = us"
    using assms by (auto simp: db_ready_def)
  have nth: "m_registered_handlers st ! i = us ! i" if "i < length us" for i using r(7) that by (metis nth_take)
  have get: "registered_handler_get st u \<noteq> 0 \<longleftrightarrow> u \<in> set us"
    using r(2-4) nth by (auto simp: registered_handler_get_def in_set_conv_nth ble_uuid_eq_iff)
  have full: "m_num_of_handlers_reg st < DB_DISCOVERY_MAX_USERS \<longleftrightarrow> length us < 6"
    using r(4) by (simp add: word_less_nat_alt DB_DISCOVERY_MAX_USERS_def)
  have up: "unat (m_num_of_handlers_reg st + 1) = Suc (length us)" if "length us < 6"
    using that r(4) unat_add_lem [of "m_num_of_handlers_reg st" 1] by simp
  let ?st = "st\<lparr>m_registered_handlers := (m_registered_handlers st)[length us := u], m_num_of_handlers_reg := m_num_of_handlers_reg st + 1\<rparr>"
  have "db_ready (us @ [u]) h ?st" if "length us < 6"
    using assms up [OF that] that r(6,7) by (simp add: db_ready_def take_Suc_conv_app_nth)
  then show ?thesis
    using get full r(1,4,5) assms by (auto simp: ble_db_discovery_evt_register_def registered_handler_set_def)
qed

lemma discovery_registration_example:
  "\<exists>st'. ble_db_discovery_evt_register (Some (BLE_UUID_BLE_ASSIGN 0x1804)) (demo_disc ()) = (NRF_SUCCESS, st')
     \<and> db_ready [BLE_UUID_BLE_ASSIGN 0x1802, BLE_UUID_BLE_ASSIGN 0x1804] 1 st'"
  using discovery_registration [OF demo_disc_ready(1), of "BLE_UUID_BLE_ASSIGN 0x1804" "()"] by (simp add: BLE_UUID_BLE_ASSIGN_def)

text \<open>
  C33: the record is not emptied when a discovery starts, and the application uses the same one for
  every connection. When the first registered service of the peer has one characteristic, whose value is the last
  handle of the service (the case of the alert service), and the record holds it from an earlier discovery, then
  the discovery on the next connection to that peer, with its requests granted, stores the characteristic a second
  time, behind the old one, and then asks for descriptors in a range whose end lies before its start.
\<close>

theorem rediscovery_inverted_range:
  fixes cx :: "('w, 'c) db_ctx"
  assumes "peer_ok db" and "find_srv db (us ! 0) = Some ps" and "ps_chars ps = [x]" and "pc_value x = unat (ps_end ps)" and "pc_value x < 65535"
    and "disc_grants s" and "db_ready us h st" and "\<not> discovery_in_progress (db_p st)" and "p \<noteq> 0" and "us \<noteq> []"
    and "char_count (services (db_p st) ! 0) = 1" and "characteristic (charateristics (services (db_p st) ! 0) ! 0) = pc_char x"
  shows "\<exists>st' r. bnd (ble_db_discovery_start p conn st) (\<lambda>(e, st). db_rounds cx (peer_rsp db chunk dchunk) 2 st) s =
       (Ret st', s\<lparr>sd_trace := sd_trace s @
          [Gatt (Sd_ble_gattc_primary_services_discover conn SRV_DISC_START_HANDLE (us ! 0)),
           Gatt (Sd_ble_gattc_characteristics_discover conn (gs_handle_range (ps_service ps))),
           Gatt (Sd_ble_gattc_descriptors_discover conn r)]\<rparr>)
     \<and> end_handle r < start_handle r \<and> char_count (services (db_p st') ! 0) = 2"
proof -
  let ?c1 = "Gatt (Sd_ble_gattc_primary_services_discover conn SRV_DISC_START_HANDLE (us ! 0))"
  let ?c2 = "Gatt (Sd_ble_gattc_characteristics_discover conn (gs_handle_range (ps_service ps)))"
  have ps: "ps \<in> set db" "peer_srv_ok ps" using find_srv_SomeD [OF assms(2)] assms(1) by (auto simp: peer_ok_def)
  have dv: "pc_decl x < pc_value x" "0 < pc_decl x"
  proof -
    have "0 < unat (ps_start ps)" using ps(2) unfolding peer_srv_ok_def by blast
    then show "pc_decl x < pc_value x" "0 < pc_decl x" using srv_okD(1,2) [OF ps(2), of 0] assms(3) by simp_all
  qed
  obtain st1 where st1: "ble_db_discovery_start p conn st s = (Ret (NRF_SUCCESS, st1), s\<lparr>sd_trace := sd_trace s @ [?c1]\<rparr>)"
    "disc_at db conn us h (db_client st) 0 st1" "curr_srv st1 = (services (db_p st) ! 0)\<lparr>srv_uuid := us ! 0\<rparr>" "curr_char_ind (db_p st1) = 0"
    using start_run [OF assms(7,8,6,9,10)] by blast
  note d = disc_atD [OF st1(2)]
  define srv2 where "srv2 = (curr_srv st1)\<lparr>srv_uuid := gs_uuid (ps_service ps), handle_range := gs_handle_range (ps_service ps)\<rparr>"
  let ?st2 = "put_srv srv2 st1"
  have st2: "curr_srv ?st2 = srv2" "char_count srv2 = 1" "characteristic (charateristics srv2 ! 0) = pc_char x" "length (charateristics srv2) = 5"
    using d(4,5) st1(3) assms(11,12) by (simp_all add: srv2_def)
  have rd1: "ble_db_discovery_on_ble_evt cx 1 (Some (BLE_GATTC_EVT_PRIM_SRVC_DISC_RSP conn BLE_GATT_STATUS_SUCCESS [ps_service ps])) st1
      (s\<lparr>sd_trace := sd_trace s @ [?c1]\<rparr>) = (Ret ?st2, s\<lparr>sd_trace := sd_trace s @ [?c1, ?c2]\<rparr>)"
    using d(5-7) st1(4) assms(6)
    by (simp add: ble_db_discovery_on_ble_evt_def on_primary_srv_discovery_rsp_def Let_def characteristics_discover_def bnd_run
        disc_grants_def srv2_def)
  define srv3 where "srv3 = store_chars [pc_char x] srv2"
  have "srv3 = srv2\<lparr>char_count := 2, charateristics := (charateristics srv2)[1 := fresh_db_char (pc_char x)]\<rparr>"
    using st2(2) by (simp add: srv3_def store_chars_def Let_def BLE_GATT_DB_MAX_CHARS_def upt_rec)
  then have srv3: "char_count srv3 = 2" "characteristic (charateristics srv3 ! 0) = pc_char x" "characteristic (charateristics srv3 ! 1) = pc_char x"
    "handle_range srv3 = gs_handle_range (ps_service ps)"
    using st2(3,4) by (simp_all add: characteristic_peer srv2_def)
  let ?r = "\<lparr>start_handle = gc_handle_value (pc_char x) + 1, end_handle = gc_handle_decl (pc_char x) - 1\<rparr>"
  let ?st3 = "put_char_ind 0 (put_srv srv3 ?st2)"
  have c3: "curr_srv ?st3 = srv3" using d(5) by (simp add: curr_srv_def put_srv_def put_char_ind_def)
  have "uint (gc_handle_value (pc_char x)) + 1 \<noteq> uint (gc_handle_decl (pc_char x))" using dv(1) unfolding uint_nat by linarith
  then have step: "descriptors_step cx conn ?st3 (s\<lparr>sd_trace := sd_trace s @ [?c1, ?c2]\<rparr>) =
      (Ret ?st3, s\<lparr>sd_trace := sd_trace s @ [?c1, ?c2, Gatt (Sd_ble_gattc_descriptors_discover conn ?r)]\<rparr>)"
    using c3 srv3 assms(6)
    by (simp add: descriptors_step_def descriptors_discover_def Let_def bnd_run upt_rec is_desc_discovery_reqd_def disc_grants_def)
  have "peer_chars db (gs_handle_range (ps_service ps)) = [pc_char x]"
    using peer_chars_from [OF assms(1) ps(1), of 0] assms(3) by (cases "gs_handle_range (ps_service ps)") simp
  then have rsp2: "peer_rsp db chunk dchunk ?c2 = Some (BLE_GATTC_EVT_CHAR_DISC_RSP conn BLE_GATT_STATUS_SUCCESS [pc_char x])"
    by (simp add: peer_rsp_def)
  have "\<not> is_char_discovery_reqd (put_srv srv3 ?st2) (pc_char x)"
    using c3 srv3(4) assms(4) by (simp add: is_char_discovery_reqd_def word_less_nat_alt)
  then have rd2: "ble_db_discovery_on_ble_evt cx 1 (Some (BLE_GATTC_EVT_CHAR_DISC_RSP conn BLE_GATT_STATUS_SUCCESS [pc_char x])) ?st2
      = descriptors_step cx conn ?st3"
    using d(6,7) st2(1,2) srv3 srv3_def
    by (simp add: ble_db_discovery_on_ble_evt_def on_characteristic_discovery_rsp_def Let_def) (simp add: put_srv_def)
  have "bnd (ble_db_discovery_start p conn st) (\<lambda>(e, st). db_rounds cx (peer_rsp db chunk dchunk) 2 st) s =
      (Ret ?st3, s\<lparr>sd_trace := sd_trace s @ [?c1, ?c2, Gatt (Sd_ble_gattc_descriptors_discover conn ?r)]\<rparr>)"
    using st1(1) rd1 rd2 step rsp2 d(8) assms(2) by (simp add: numeral_2_eq_2 bnd_run peer_rsp_def) (simp add: put_srv_def)
  moreover have "end_handle ?r < start_handle ?r"
    using dv assms(5) unat_Suc_less [of "gc_handle_value (pc_char x)" "0xFFFF"] unat_minus_one [of "gc_handle_decl (pc_char x)"]
    by (auto simp: word_less_nat_alt unat_gt_0)
  moreover have "char_count (services (db_p ?st3) ! 0) = 2" using c3 srv3(1) d(1) by (simp add: curr_srv_def put_srv_def put_char_ind_def)
  ultimately show ?thesis by blast
qed

theorem rediscovery_inverted_range_witness:
  "\<exists>st' r. bnd (ble_db_discovery_start 1 3 (demo_disc_again ())) (\<lambda>(e, st). db_rounds \<lparr>dc_handler = \<lambda>f e c. ret c,
       dc_before = zero_gattc_char, dc_wild = ret\<rparr> (peer_rsp demo_peer (\<lambda>_. 0) (\<lambda>_. 0)) 2 st) demo_world =
       (Ret st', demo_world\<lparr>sd_trace := [Gatt (Sd_ble_gattc_primary_services_discover 3 SRV_DISC_START_HANDLE (BLE_UUID_BLE_ASSIGN 0x1802)),
           Gatt (Sd_ble_gattc_characteristics_discover 3 \<lparr>start_handle = 7, end_handle = 9\<rparr>),
           Gatt (Sd_ble_gattc_descriptors_discover 3 r)]\<rparr>)
     \<and> end_handle r < start_handle r \<and> char_count (services (db_p st') ! 0) = 2"
proof -
  have f: "find_srv demo_peer ([BLE_UUID_BLE_ASSIGN 0x1802] ! 0) = Some (demo_peer ! 0)" by (simp add: find_srv_def demo_peer_def)
  have r: "db_ready [BLE_UUID_BLE_ASSIGN 0x1802] 1 (demo_disc_again ())"
    unfolding demo_disc_again_def by (rule db_ready_put(4) [OF demo_disc_ready(1)]) simp
  show ?thesis
    using rediscovery_inverted_range [OF demo_peer_ok f _ _ _ demo_world_disc r, of _ 1 3
        "\<lparr>dc_handler = \<lambda>f e c. ret c, dc_before = zero_gattc_char, dc_wild = ret\<rparr>" "\<lambda>_. 0" "\<lambda>_. 0"]
    by (simp add: demo_peer_def demo_disc_again_def demo_disc_def put_srv_def characteristic_peer demo_world_def)
qed

end
