(* ===== verification/IasClient.thy ===== *)
theory IasClient
  imports AlertServices DbDiscovery
begin

text \<open>
  The Immediate Alert client, \<^verbatim>\<open>components/ble/ble_services/ble_ias_c/ble_ias_c.c\<close>: it learns the
  handle of the peer's alert level characteristic from service discovery and writes alerts to
  it. The client structure is usable (\<open>ble_ias_c_is_discovered\<close>) exactly between the
  assignment of a handle and the end of the connection.
\<close>

subsection \<open>The program\<close>

text \<open>What the client reads of a discovery event.\<close>

abbreviation dd_srv_uuid :: "ble_db_discovery_evt \<Rightarrow> ble_uuid" where
  "dd_srv_uuid e \<equiv> srv_uuid (discovered_db (dd_params e))"

abbreviation dd_char_count :: "ble_db_discovery_evt \<Rightarrow> u8" where
  "dd_char_count e \<equiv> char_count (discovered_db (dd_params e))"

abbreviation dd_charateristics :: "ble_db_discovery_evt \<Rightarrow> ble_gattc_char list" where
  "dd_charateristics e \<equiv> map characteristic (charateristics (discovered_db (dd_params e)))"

datatype ble_ias_c_evt_type =
    BLE_IAS_C_EVT_DISCOVERY_COMPLETE
  | BLE_IAS_C_EVT_DISCOVERY_FAILED
  | BLE_IAS_C_EVT_DISCONN_COMPLETE

record ble_ias_c_evt =
  ice_evt_type :: ble_ias_c_evt_type
  ice_conn_handle :: u16
  ice_alert_level :: ble_gattc_char

record ble_ias_c =
  ic_evt_handler :: fnptr
  ic_error_handler :: fnptr
  ic_conn_handle :: u16
  ic_service_uuid :: ble_uuid
  ic_alert_level_char :: ble_gattc_char

type_synonym 'w ias_c_handler = "ble_ias_c \<Rightarrow> ble_ias_c_evt \<Rightarrow> ('w world_scheme, ble_ias_c) prog"

definition ble_ias_c_is_discovered :: "ble_ias_c \<Rightarrow> bool" where
  "ble_ias_c_is_discovered p_ias_c \<longleftrightarrow> gc_handle_value (ic_alert_level_char p_ias_c) \<noteq> BLE_GATT_HANDLE_INVALID"

text \<open>The loop over the discovered characteristics.\<close>

definition find_alert_level :: "ble_gattc_char list \<Rightarrow> nat \<Rightarrow> ble_gattc_char \<Rightarrow> ble_gattc_char" where
  "find_alert_level p_chars n alert_level =
     foldl (\<lambda>alert_level i.
         if uuid (gc_uuid (p_chars ! i)) = BLE_UUID_ALERT_LEVEL_CHAR
         then (if cp_write_wo_resp (gc_char_props (p_chars ! i)) then p_chars ! i else alert_level)
         else alert_level) alert_level [0..<n]"

definition ble_ias_c_on_db_disc_evt ::
  "'w ias_c_handler \<Rightarrow> ble_ias_c \<Rightarrow> ble_db_discovery_evt \<Rightarrow> ('w world_scheme, ble_ias_c) prog" where
  "ble_ias_c_on_db_disc_evt evt_handler p_ias_c p_evt =
     (let evt = \<lparr>ice_evt_type = BLE_IAS_C_EVT_DISCOVERY_FAILED, ice_conn_handle = dd_conn_handle p_evt,
                 ice_alert_level = zero_gattc_char\<rparr>;
          evt = (if dd_evt_type p_evt = BLE_DB_DISCOVERY_COMPLETE
                    \<and> uuid (dd_srv_uuid p_evt) = BLE_UUID_IMMEDIATE_ALERT_SERVICE
                    \<and> uuid_type (dd_srv_uuid p_evt) = BLE_UUID_TYPE_BLE
                 then evt\<lparr>ice_alert_level := find_alert_level (dd_charateristics p_evt)
                            (unat (dd_char_count p_evt)) (ice_alert_level evt)\<rparr>
                 else evt);
          evt = (if gc_handle_value (ice_alert_level evt) \<noteq> BLE_GATT_HANDLE_INVALID
                 then evt\<lparr>ice_evt_type := BLE_IAS_C_EVT_DISCOVERY_COMPLETE\<rparr> else evt)
      in evt_handler p_ias_c evt)"

text \<open>
  \<^verbatim>\<open>ble_ias_c_init\<close>: the second check reads \<^verbatim>\<open>p_ias_c_init->evt_handler\<close> before the third one
  compares \<^verbatim>\<open>p_ias_c_init\<close> with \<^verbatim>\<open>NULL\<close>, so the structure is not optional here.
\<close>

definition ble_ias_c_init ::
  "ble_ias_c option \<Rightarrow> fnptr \<times> fnptr \<Rightarrow> ('w world_scheme, u32 \<times> ble_ias_c option) prog" where
  "ble_ias_c_init p_ias_c ini =
     (case p_ias_c of
        None \<Rightarrow> ret (NRF_ERROR_NULL, None)
      | Some c \<Rightarrow>
          if fst ini = NULL then ret (NRF_ERROR_NULL, Some c)
          else (let c = c\<lparr>ic_evt_handler := fst ini, ic_error_handler := snd ini,
                      ic_conn_handle := BLE_CONN_HANDLE_INVALID,
                      ic_alert_level_char := (ic_alert_level_char c)
                        \<lparr>gc_handle_value := BLE_GATT_HANDLE_INVALID,
                         gc_uuid := BLE_UUID_BLE_ASSIGN BLE_UUID_ALERT_LEVEL_CHAR\<rparr>,
                      ic_service_uuid := BLE_UUID_BLE_ASSIGN BLE_UUID_IMMEDIATE_ALERT_SERVICE\<rparr>
                in bnd (svc_rc (Lib (Ble_db_discovery_evt_register (ic_service_uuid c)))) (\<lambda>e.
                   ret (e, Some c))))"

text \<open>\<open>evt0\<close> is the event structure on the stack, of which only the type is assigned.\<close>

definition ias_c_on_disconnect ::
  "'w ias_c_handler \<Rightarrow> ble_ias_c_evt \<Rightarrow> ble_ias_c \<Rightarrow> ('w world_scheme, ble_ias_c) prog" where
  "ias_c_on_disconnect evt_handler evt0 p_ias_c =
     (let p_ias_c = p_ias_c\<lparr>ic_conn_handle := BLE_CONN_HANDLE_INVALID\<rparr>
      in if ble_ias_c_is_discovered p_ias_c
         then bnd (evt_handler p_ias_c (evt0\<lparr>ice_evt_type := BLE_IAS_C_EVT_DISCONN_COMPLETE\<rparr>)) (\<lambda>p_ias_c.
              ret (p_ias_c\<lparr>ic_alert_level_char := (ic_alert_level_char p_ias_c)
                     \<lparr>gc_handle_value := BLE_GATT_HANDLE_INVALID\<rparr>\<rparr>))
         else ret p_ias_c)"

text \<open>The local \<^verbatim>\<open>err_code\<close> stays NRF_SUCCESS, so the error handler is never called.\<close>

definition ble_ias_c_on_ble_evt ::
  "'w ias_c_handler \<Rightarrow> (u32 \<Rightarrow> ('w world_scheme, unit) prog) \<Rightarrow> ble_ias_c_evt \<Rightarrow> ble_ias_c \<Rightarrow> ble_evt
     \<Rightarrow> ('w world_scheme, ble_ias_c) prog" where
  "ble_ias_c_on_ble_evt evt_handler error_handler evt0 p_ias_c evt =
     (let err_code = NRF_SUCCESS
      in bnd (case evt of
                BLE_GAP_EVT_DISCONNECTED _ _ \<Rightarrow> ias_c_on_disconnect evt_handler evt0 p_ias_c
              | _ \<Rightarrow> ret p_ias_c) (\<lambda>p_ias_c.
         andthen (guarded (err_code \<noteq> NRF_SUCCESS \<and> ic_error_handler p_ias_c \<noteq> 0) (error_handler err_code))
           (ret p_ias_c)))"

definition write_characteristic_value ::
  "u16 \<Rightarrow> u16 \<Rightarrow> u16 \<Rightarrow> bytes \<Rightarrow> ('w world_scheme, u32) prog" where
  "write_characteristic_value conn_handle write_handle len val =
     svc_rc (Gatt (Sd_ble_gattc_write conn_handle write_handle BLE_GATT_OP_WRITE_CMD 0 len val))"

definition ble_ias_c_send_alert_level :: "ble_ias_c \<Rightarrow> u8 \<Rightarrow> ('w world_scheme, u32) prog" where
  "ble_ias_c_send_alert_level p_ias_c alert_level =
     (if \<not> ble_ias_c_is_discovered p_ias_c then ret NRF_ERROR_NOT_FOUND
      else write_characteristic_value (ic_conn_handle p_ias_c)
             (gc_handle_value (ic_alert_level_char p_ias_c)) 1 [alert_level])"

definition ble_ias_c_handles_assign :: "ble_ias_c option \<Rightarrow> u16 \<Rightarrow> u16 \<Rightarrow> u32 \<times> ble_ias_c option" where
  "ble_ias_c_handles_assign p_ias_c conn_handle alert_level_handle =
     (case p_ias_c of
        None \<Rightarrow> (NRF_ERROR_NULL, None)
      | Some c \<Rightarrow>
          (NRF_SUCCESS,
           Some (c\<lparr>ic_conn_handle := conn_handle,
                   ic_alert_level_char := (ic_alert_level_char c)\<lparr>gc_handle_value := alert_level_handle\<rparr>\<rparr>)))"

subsection \<open>Specification\<close>

text \<open>A characteristic that can take an alert, and the event discovery should produce.\<close>

definition is_alert_char :: "ble_gattc_char \<Rightarrow> bool" where
  "is_alert_char c \<longleftrightarrow> uuid (gc_uuid c) = BLE_UUID_ALERT_LEVEL_CHAR \<and> cp_write_wo_resp (gc_char_props c)"

definition discovered_alert :: "ble_db_discovery_evt \<Rightarrow> ble_gattc_char option" where
  "discovered_alert e =
     (if dd_evt_type e = BLE_DB_DISCOVERY_COMPLETE
         \<and> dd_srv_uuid e = BLE_UUID_BLE_ASSIGN BLE_UUID_IMMEDIATE_ALERT_SERVICE
      then (case rev (filter is_alert_char (take (unat (dd_char_count e)) (dd_charateristics e))) of
              c # _ \<Rightarrow> if gc_handle_value c \<noteq> BLE_GATT_HANDLE_INVALID then Some c else None
            | [] \<Rightarrow> None)
      else None)"

definition demo_alert_char :: ble_gattc_char where
  "demo_alert_char = \<lparr>gc_uuid = BLE_UUID_BLE_ASSIGN BLE_UUID_ALERT_LEVEL_CHAR,
     gc_char_props = no_char_props\<lparr>cp_write_wo_resp := True\<rparr>, gc_char_ext_props = False, gc_handle_decl = 8, gc_handle_value = 9\<rparr>"

definition demo_disc_evt :: ble_db_discovery_evt where
  "demo_disc_evt = \<lparr>dd_evt_type = BLE_DB_DISCOVERY_COMPLETE, dd_conn_handle = 3,
     dd_params = Discovered_db \<lparr>srv_uuid = BLE_UUID_BLE_ASSIGN BLE_UUID_IMMEDIATE_ALERT_SERVICE, char_count = 1,
       handle_range = \<lparr>start_handle = 7, end_handle = 9\<rparr>, charateristics = [fresh_db_char demo_alert_char]\<rparr>\<rparr>"

definition demo_ias_c :: ble_ias_c where
  "demo_ias_c = \<lparr>ic_evt_handler = 1, ic_error_handler = 0, ic_conn_handle = 3,
     ic_service_uuid = BLE_UUID_BLE_ASSIGN BLE_UUID_IMMEDIATE_ALERT_SERVICE, ic_alert_level_char = demo_alert_char\<rparr>"

definition demo_ias_c_evt :: ble_ias_c_evt where
  "demo_ias_c_evt = \<lparr>ice_evt_type = BLE_IAS_C_EVT_DISCOVERY_FAILED, ice_conn_handle = 0, ice_alert_level = zero_gattc_char\<rparr>"

subsection \<open>Facts\<close>

lemma find_alert_level_filter:
  assumes "n \<le> length cs"
  shows "find_alert_level cs n a = (case rev (filter is_alert_char (take n cs)) of c # _ \<Rightarrow> c | [] \<Rightarrow> a)"
  using assms
proof (induction n)
  case 0
  then show ?case by (simp add: find_alert_level_def)
next
  case (Suc n)
  have "find_alert_level cs (Suc n) a = (if is_alert_char (cs ! n) then cs ! n else find_alert_level cs n a)"
    by (simp add: find_alert_level_def is_alert_char_def)
  with Suc show ?case
    by (simp add: take_Suc_conv_app_nth)
qed

lemma uuid_assign_iff: "u = BLE_UUID_BLE_ASSIGN v \<longleftrightarrow> uuid u = v \<and> uuid_type u = BLE_UUID_TYPE_BLE"
  by (cases u) (auto simp: BLE_UUID_BLE_ASSIGN_def)

subsection \<open>Properties\<close>

text \<open>
  At the end of a discovery the application is told COMPLETE, with the characteristic to
  write to, exactly when the peer's Immediate Alert service offers an alert level
  characteristic that accepts writes without response; otherwise it is told FAILED.
\<close>

lemma ias_c_discovery:
  assumes "unat (dd_char_count e) \<le> length (dd_charateristics e)"
  shows "\<exists>evt. ble_ias_c_on_db_disc_evt h c e s = h c evt s \<and> ice_conn_handle evt = dd_conn_handle e
    \<and> (case discovered_alert e of
         Some ch \<Rightarrow> ice_evt_type evt = BLE_IAS_C_EVT_DISCOVERY_COMPLETE \<and> ice_alert_level evt = ch
       | None \<Rightarrow> ice_evt_type evt = BLE_IAS_C_EVT_DISCOVERY_FAILED)"
  using find_alert_level_filter [OF assms, of zero_gattc_char]
  by (auto simp: ble_ias_c_on_db_disc_evt_def discovered_alert_def uuid_assign_iff Let_def zero_gattc_char_def
      nrf_codes split: list.splits)

lemma ias_c_discovery_example:
  "fst (ble_ias_c_on_db_disc_evt (\<lambda>c e. ret (c\<lparr>ic_alert_level_char := ice_alert_level e\<rparr>)) demo_ias_c demo_disc_evt demo_world)
     = Ret demo_ias_c"
proof -
  have "discovered_alert demo_disc_evt = Some demo_alert_char"
    by (simp add: discovered_alert_def demo_disc_evt_def fresh_db_char_def is_alert_char_def demo_alert_char_def BLE_UUID_BLE_ASSIGN_def nrf_codes)
  moreover have "demo_ias_c\<lparr>ic_alert_level_char := demo_alert_char\<rparr> = demo_ias_c"
    by (simp add: demo_ias_c_def)
  ultimately show ?thesis
    using ias_c_discovery [of demo_disc_evt "\<lambda>c e. ret (c\<lparr>ic_alert_level_char := ice_alert_level e\<rparr>)" demo_ias_c demo_world]
    by (auto simp: demo_disc_evt_def)
qed

text \<open>
  After a disconnection the client has no alert handle: sending an alert is refused with
  NOT_FOUND and nothing is asked of the stack, whatever the application's handler did.
\<close>

lemma ias_c_disconnected:
  assumes "ble_ias_c_on_ble_evt h eh evt0 c (BLE_GAP_EVT_DISCONNECTED conn reason) s = (Ret c', s')"
  shows "\<not> ble_ias_c_is_discovered c'
    \<and> ble_ias_c_send_alert_level c' level t = (Ret NRF_ERROR_NOT_FOUND, t)"
  using assms
  by (auto simp: ble_ias_c_on_ble_evt_def ias_c_on_disconnect_def ble_ias_c_send_alert_level_def
      ble_ias_c_is_discovered_def Let_def bnd_run andthen_run guarded_run
      split: if_splits prod.splits outcome.splits)

theorem ias_c_disconnected_witness:
  "\<exists>c'. ble_ias_c_on_ble_evt (\<lambda>c e. ret c) (\<lambda>_. ret ()) demo_ias_c_evt demo_ias_c (BLE_GAP_EVT_DISCONNECTED 3 0x13)
       demo_world = (Ret c', demo_world)
     \<and> ble_ias_c_send_alert_level c' 2 demo_world = (Ret NRF_ERROR_NOT_FOUND, demo_world)"
proof -
  let ?c = "demo_ias_c\<lparr>ic_conn_handle := BLE_CONN_HANDLE_INVALID,
     ic_alert_level_char := demo_alert_char\<lparr>gc_handle_value := BLE_GATT_HANDLE_INVALID\<rparr>\<rparr>"
  have "ble_ias_c_on_ble_evt (\<lambda>c e. ret c) (\<lambda>_. ret ()) demo_ias_c_evt demo_ias_c (BLE_GAP_EVT_DISCONNECTED 3 0x13)
       demo_world = (Ret ?c, demo_world)"
    by (simp add: ble_ias_c_on_ble_evt_def ias_c_on_disconnect_def ble_ias_c_is_discovered_def demo_ias_c_def
        demo_alert_char_def nrf_codes Let_def bnd_run andthen_run guarded_run)
  with ias_c_disconnected [OF this] show ?thesis by blast
qed

end
