(* ===== verification/SysEncryption.thy ===== *)
theory SysEncryption
  imports SoftDevice
begin

text \<open>
  \<^verbatim>\<open>examples/ble_peripheral/ble_app_proximity/sys_encryption.c\<close>: AES in counter mode on top of the
  AES unit of the chip, HMAC-SHA256, and the answer to the setup challenge.

  Local variables that the code leaves uninitialised are parameters (\<open>opad0\<close>, \<open>d0\<close>,
  \<open>ctx0\<close>): their contents are whatever the stack held. The AES unit and the random number
  generator are calls to the SoftDevice; the theorems about ciphertexts assume that the
  former computes a block function (\<open>ecb_unit\<close>).
\<close>

unbundle bit_operations_syntax

subsection \<open>AES-CTR\<close>

record iv_ctr =
  iv :: bytes
  ctr :: u32

definition iv_ctr_bytes :: "iv_ctr \<Rightarrow> bytes" where
  "iv_ctr_bytes d = iv d @ le_bytes32 (ctr d)"

text \<open>
  One block: \<open>inp\<close> and \<open>out\<close> are the memory behind the pointers \<^verbatim>\<open>in + i\<close> and
  \<^verbatim>\<open>out + sizeof(d) + i\<close> of the caller, as a list and an offset.
\<close>

definition aes_ctr_crypt_block ::
  "bytes \<Rightarrow> iv_ctr \<Rightarrow> bytes \<Rightarrow> nat \<Rightarrow> bytes \<Rightarrow> nat \<Rightarrow> nat \<Rightarrow> ('w world_scheme, bytes) prog" where
  "aes_ctr_crypt_block key d inp ioff out ooff len =
     bnd (svc (Soc (Sd_ecb_block_encrypt (take 16 key) (take 16 (iv_ctr_bytes d))))) (\<lambda>r.
     andthen (APP_ERROR_CHECK (rc r))
       (ret (foldl (\<lambda>ob j. ob[ooff + j := inp ! (ioff + j) XOR out_bytes r ! j]) out [0..<len])))"

text \<open>
  The loop \<^verbatim>\<open>for (i = 0; i < length; i += 16)\<close> counts in 16 bits: the first argument bounds the
  number of iterations, and 4096 of them wrap \<^verbatim>\<open>i\<close> around.
\<close>

primrec aes_ctr_loop ::
  "nat \<Rightarrow> bytes \<Rightarrow> iv_ctr \<Rightarrow> bytes \<Rightarrow> bytes \<Rightarrow> u16 \<Rightarrow> u16 \<Rightarrow> ('w world_scheme, bytes) prog" where
  "aes_ctr_loop 0 key d inp out len i = hang"
| "aes_ctr_loop (Suc n) key d inp out len i =
     (if i < len
      then bnd (aes_ctr_crypt_block key d inp (unat i) out (16 + unat i)
                  (if unat len - unat i > 16 then 16 else unat len - unat i)) (\<lambda>out.
           aes_ctr_loop n key (d\<lparr>ctr := ctr d + 1\<rparr>) inp out len (i + 16))
      else ret out)"

definition aes_ctr_crypt_message ::
  "iv_ctr \<Rightarrow> bytes \<Rightarrow> bytes \<Rightarrow> bytes \<Rightarrow> u16 \<Rightarrow> ('w world_scheme, bytes) prog" where
  "aes_ctr_crypt_message d0 key inp out len =
     bnd (svc (Soc (Sd_rand_application_vector_get 12))) (\<lambda>r.
     let d = d0\<lparr>iv := out_bytes r\<rparr>;
         out = memcpy_at out 0 (iv_ctr_bytes d)
     in aes_ctr_loop 4096 key (d\<lparr>ctr := 0\<rparr>) inp out len 0)"

subsection \<open>HMAC-SHA256\<close>

definition hmac_sha256_init ::
  "sha256_context option \<Rightarrow> bytes \<Rightarrow> nat \<Rightarrow> sha256_context option" where
  "hmac_sha256_init context key keylen =
     (let ipad = memcpy_at (replicate 64 0) 0 (take keylen key);
          ipad = map (\<lambda>b. b XOR 0x36) ipad;
          context = snd (sha256_init context)
      in snd (sha256_update context (Some ipad) 64))"

definition hmac_sha256_final ::
  "bytes \<Rightarrow> sha256_context option \<Rightarrow> bytes \<Rightarrow> nat \<Rightarrow> bytes \<Rightarrow> sha256_context option \<times> bytes" where
  "hmac_sha256_final opad0 context key keylen digest =
     (let opad = memcpy_at opad0 0 (replicate 64 0);
          opad = memcpy_at opad 0 (take keylen key);
          opad = map (\<lambda>b. b XOR 0x5c) (take 64 opad) @ drop 64 opad;
          (_, context, inner) = sha256_final context (Some (drop 64 opad)) 0;
          opad = take 64 opad @ the inner;
          context = snd (sha256_init context);
          context = snd (sha256_update context (Some opad) 96);
          (_, context, digest') = sha256_final context (Some digest) 0
      in (context, the digest'))"

definition setup_prefix :: bytes where
  "setup_prefix = [0x52, 0x45, 0x47, 0x00]"

definition generate_setup_response ::
  "sha256_context \<Rightarrow> bytes \<Rightarrow> bytes \<Rightarrow> bytes \<Rightarrow> bytes \<Rightarrow> bytes \<Rightarrow> bytes" where
  "generate_setup_response ctx0 opad0 response p_key mac_addr challenge =
     (let context = hmac_sha256_init (Some ctx0) p_key 16;
          context = snd (sha256_update context (Some setup_prefix) 4);
          context = snd (sha256_update context (Some mac_addr) 6);
          context = snd (sha256_update context (Some challenge) 16)
      in snd (hmac_sha256_final opad0 context p_key 16 response))"

subsection \<open>Specifications\<close>

text \<open>RFC 2104 with SHA-256, for keys of at most one block.\<close>

definition hmac_key_block :: "bytes \<Rightarrow> bytes" where
  "hmac_key_block key = key @ replicate (64 - length key) 0"

definition hmac_sha256 :: "bytes \<Rightarrow> bytes \<Rightarrow> bytes" where
  "hmac_sha256 key msg =
     fips_sha256 (map (\<lambda>b. b XOR 0x5c) (hmac_key_block key)
       @ fips_sha256 (map (\<lambda>b. b XOR 0x36) (hmac_key_block key) @ msg))"

text \<open>
  Counter mode over a block function \<open>E\<close>: block \<open>k\<close> of the key stream is
  \<open>E key (iv, k)\<close>, and encryption and decryption xor the key stream onto the data.
\<close>

definition ctr_stream :: "(bytes \<Rightarrow> bytes \<Rightarrow> bytes) \<Rightarrow> bytes \<Rightarrow> bytes \<Rightarrow> nat \<Rightarrow> u8" where
  "ctr_stream E key nonce j = E key (nonce @ le_bytes32 (of_nat (j div 16))) ! (j mod 16)"

definition ctr_xor :: "(bytes \<Rightarrow> bytes \<Rightarrow> bytes) \<Rightarrow> bytes \<Rightarrow> bytes \<Rightarrow> bytes \<Rightarrow> bytes" where
  "ctr_xor E key nonce xs = map (\<lambda>j. xs ! j XOR ctr_stream E key nonce j) [0..<length xs]"

text \<open>
  The documented behaviour of the AES unit of the SoftDevice: \<^verbatim>\<open>sd_ecb_block_encrypt\<close> succeeds
  and stores a block that depends on the key and the clear text only.
\<close>

definition ecb_unit :: "(bytes \<Rightarrow> bytes \<Rightarrow> bytes) \<Rightarrow> 'w world_scheme \<Rightarrow> bool" where
  "ecb_unit E s \<longleftrightarrow> (\<forall>h k b. rc (sd_env s h (Soc (Sd_ecb_block_encrypt k b))) = NRF_SUCCESS
     \<and> out_bytes (sd_env s h (Soc (Sd_ecb_block_encrypt k b))) = E k b)"

text \<open>Cleared memory of a context, for examples.\<close>

definition zero_ctx :: sha256_context where
  "zero_ctx = \<lparr>ctx_data = replicate 64 0, ctx_datalen = 0, ctx_bitlen = 0, ctx_state = replicate 8 0\<rparr>"

text \<open>The calls of a message: one for the nonce, then one per block.\<close>

definition ctr_calls :: "bytes \<Rightarrow> bytes \<Rightarrow> nat \<Rightarrow> nat \<Rightarrow> call list" where
  "ctr_calls key nonce a b =
     map (\<lambda>k. Soc (Sd_ecb_block_encrypt (take 16 key) (nonce @ le_bytes32 (of_nat k)))) [a..<b]"

subsection \<open>HMAC\<close>

lemma hmac_pad:
  assumes "keylen \<le> length key" and "keylen \<le> 64"
  shows "memcpy_at (replicate 64 0) 0 (take keylen key) = hmac_key_block (take keylen key)"
  using assms by (simp add: memcpy_at_def hmac_key_block_def)

lemma length_hmac_key_block [simp]: "length key \<le> 64 \<Longrightarrow> length (hmac_key_block key) = 64"
  by (simp add: hmac_key_block_def)

lemma hmac_init_repr:
  assumes "sha_mem_opt ctx0" and "keylen \<le> length key" and "keylen \<le> 64"
  shows "sha_repr_opt (hmac_sha256_init ctx0 key keylen)
           (map (\<lambda>b. b XOR 0x36) (hmac_key_block (take keylen key)))"
  using sha.upd_repr [OF sha.init_repr [OF assms(1)],
      of "map (\<lambda>b. b XOR 0x36) (hmac_key_block (take keylen key))" 64] assms(2,3)
  by (simp add: hmac_sha256_init_def hmac_pad)

lemma hmac_opad:
  assumes "keylen \<le> length key" and "keylen \<le> 64" and "length opad0 = 96"
  shows "memcpy_at (memcpy_at opad0 0 (replicate 64 0)) 0 (take keylen key)
         = hmac_key_block (take keylen key) @ drop 64 opad0"
  using assms by (simp add: memcpy_at_def hmac_key_block_def)

lemma hmac_final_digest:
  assumes c: "sha_repr_opt c (map (\<lambda>b. b XOR 0x36) (hmac_key_block (take keylen key)) @ msg)"
    and k: "keylen \<le> length key" "keylen \<le> 64"
    and o96: "length opad0 = 96" and d: "length digest = 32"
  shows "snd (hmac_sha256_final opad0 c key keylen digest) = hmac_sha256 (take keylen key) msg"
proof -
  let ?kb = "hmac_key_block (take keylen key)"
  have "length (drop 64 opad0) = 32"
    using o96 by simp
  from sha.nested_digest [OF c this d, of "map (\<lambda>b. b XOR 0x5c) ?kb"] k o96
  show ?thesis
    by (simp add: hmac_sha256_final_def Let_def hmac_opad hmac_sha256_def case_prod_beta)
qed

lemma hmac_message:
  assumes "sha_mem_opt ctx0" and "keylen \<le> length key" and "keylen \<le> 64"
    and "length opad0 = 96" and "length digest = 32"
  shows "snd (hmac_sha256_final opad0 (sha256_updates (hmac_sha256_init ctx0 key keylen) segs) key keylen digest)
         = hmac_sha256 (take keylen key) (concat segs)"
  using hmac_final_digest [OF sha.upds_repr [OF hmac_init_repr [OF assms(1-3)]] assms(2-5)]
  by (simp add: sha256_updates_def)

subsection \<open>Counter mode\<close>

lemma foldl_write_run:
  assumes "a + n \<le> length xs"
  shows "foldl (\<lambda>ob j. ob[a + j := f j]) xs [0..<n] = take a xs @ map f [0..<n] @ drop (a + n) xs"
  using assms
proof (induction n)
  case 0
  then show ?case by simp
next
  case (Suc n)
  have "drop (a + n) xs = xs ! (a + n) # drop (Suc (a + n)) xs"
    using Suc.prems by (simp add: Cons_nth_drop_Suc)
  with Suc show ?case
    by (simp add: list_update_append min_def)
qed

lemma aes_ctr_crypt_block_run:
  assumes "ecb_unit E s" and "length (iv d) = 12" and "ooff + len \<le> length out"
  shows "aes_ctr_crypt_block key d inp ioff out ooff len s =
    (Ret (take ooff out @ map (\<lambda>j. inp ! (ioff + j) XOR E (take 16 key) (iv_ctr_bytes d) ! j) [0..<len]
          @ drop (ooff + len) out),
     s\<lparr>sd_trace := sd_trace s @ [Soc (Sd_ecb_block_encrypt (take 16 key) (iv_ctr_bytes d))]\<rparr>)"
  using assms
  by (simp add: aes_ctr_crypt_block_def bnd_run ecb_unit_def iv_ctr_bytes_def foldl_write_run)

lemma ecb_unit_trace [simp]: "ecb_unit E (s\<lparr>sd_trace := t\<rparr>) = ecb_unit E s"
  by (simp add: ecb_unit_def)

lemma map_upt_shift: "map f [a..<a + n] = map (\<lambda>j. f (a + j)) [0..<n]"
  by (rule nth_equalityI) simp_all

lemma ctr_stream_block:
  "j < 16 \<Longrightarrow> ctr_stream E key nonce (16 * k + j) = E key (nonce @ le_bytes32 (of_nat k)) ! j"
  by (simp add: ctr_stream_def)

lemma aes_ctr_loop_run:
  assumes "ecb_unit E s" and "length (iv d) = 12" and "ctr d = of_nat k" and "i = of_nat (16 * k)"
    and "unat len \<le> 65520" and "16 * k < unat len + 16" and "16 + unat len \<le> length out"
    and "unat len + 16 \<le> 16 * (k + n)"
  shows "aes_ctr_loop n key d inp out len i s =
    (Ret (take (16 + min (16 * k) (unat len)) out
          @ map (\<lambda>j. inp ! j XOR ctr_stream E (take 16 key) (iv d) j) [min (16 * k) (unat len)..<unat len]
          @ drop (16 + unat len) out),
     s\<lparr>sd_trace := sd_trace s @ ctr_calls key (iv d) k ((unat len + 15) div 16)\<rparr>)"
  using assms
proof (induction n arbitrary: d out i s k)
  case 0
  then show ?case by simp
next
  case (Suc n)
  have ui: "unat i = 16 * k"
    unfolding Suc.prems(4) using Suc.prems(5,6) by (subst unat_of_nat) (simp add: take_bit_nat_eq_self)
  have lt: "i < len \<longleftrightarrow> 16 * k < unat len"
    using ui by (simp add: word_less_nat_alt)
  show ?case
  proof (cases "16 * k < unat len")
    case False
    then have "(unat len + 15) div 16 = k"
      using Suc.prems(6) by linarith
    with False lt show ?thesis
      by (simp add: ctr_calls_def)
  next
    case True
    define m where "m = (if unat len - unat i > 16 then 16 else unat len - unat i)"
    have m: "m \<le> 16" "16 * k + m \<le> unat len" "min (16 * Suc k) (unat len) = 16 * k + m"
      using True by (auto simp: m_def ui)
    let ?f = "\<lambda>j. inp ! j XOR ctr_stream E (take 16 key) (iv d) j"
    let ?out = "take (16 + 16 * k) out @ map ?f [16 * k..<16 * k + m] @ drop (16 + 16 * k + m) out"
    let ?s = "s\<lparr>sd_trace := sd_trace s @ [Soc (Sd_ecb_block_encrypt (take 16 key) (iv d @ le_bytes32 (of_nat k)))]\<rparr>"
    have blk: "aes_ctr_crypt_block key d inp (unat i) out (16 + unat i) m s = (Ret ?out, ?s)"
    proof -
      have "map (\<lambda>j. inp ! (unat i + j) XOR E (take 16 key) (iv_ctr_bytes d) ! j) [0..<m]
          = map ?f [16 * k..<16 * k + m]"
        unfolding map_upt_shift ui iv_ctr_bytes_def Suc.prems(3)
        using m(1) by (intro map_cong) (auto simp: ctr_stream_block)
      then show ?thesis
        using aes_ctr_crypt_block_run [OF Suc.prems(1,2), of "16 + unat i" m out key inp "unat i"]
          Suc.prems(3,7) m(2) by (simp add: ui iv_ctr_bytes_def)
    qed
    have "aes_ctr_loop (Suc n) key d inp out len i s =
        aes_ctr_loop n key (d\<lparr>ctr := ctr d + 1\<rparr>) inp ?out len (i + 16) ?s"
      unfolding aes_ctr_loop.simps m_def [symmetric] using lt True blk by simp
    also have "\<dots> = (Ret (take (16 + min (16 * Suc k) (unat len)) ?out
          @ map ?f [min (16 * Suc k) (unat len)..<unat len] @ drop (16 + unat len) ?out),
        ?s\<lparr>sd_trace := sd_trace ?s @ ctr_calls key (iv d) (Suc k) ((unat len + 15) div 16)\<rparr>)"
      by (subst Suc.IH [where k = "Suc k"]) (use Suc.prems True m in \<open>simp_all add: min_def\<close>)
    also have "take (16 + min (16 * Suc k) (unat len)) ?out = take (16 + 16 * k) out @ map ?f [16 * k..<16 * k + m]"
      using m Suc.prems(7) by simp
    also have "drop (16 + unat len) ?out = drop (16 + unat len) out"
      using m Suc.prems(7) by (simp add: add.commute)
    finally show ?thesis
      using True m upt_add_eq_append [of "16 * k" "16 * k + m" "unat len - (16 * k + m)"]
      by (simp add: ctr_calls_def upt_conv_Cons)
  qed
qed

lemma length_ctr_xor [simp]: "length (ctr_xor E key nonce xs) = length xs"
  by (simp add: ctr_xor_def)

lemma ctr_xor_involution: "ctr_xor E key nonce (ctr_xor E key nonce xs) = xs"
  by (rule nth_equalityI) (simp_all add: ctr_xor_def xor.assoc)

text \<open>The whole message: nonce and old stack bytes, then the encrypted text.\<close>

lemma aes_ctr_crypt_message_run:
  assumes "ecb_unit E s" and "unat len \<le> 65520" and "16 + unat len \<le> length out"
    and "unat len \<le> length inp"
    and nonce: "out_bytes (sd_env s (sd_trace s) (Soc (Sd_rand_application_vector_get 12))) = nonce"
    and n12: "length nonce = 12"
  shows "aes_ctr_crypt_message d0 key inp out len s =
    (Ret (nonce @ le_bytes32 (ctr d0) @ ctr_xor E (take 16 key) nonce (take (unat len) inp)
          @ drop (16 + unat len) out),
     s\<lparr>sd_trace := sd_trace s @ Soc (Sd_rand_application_vector_get 12)
        # ctr_calls key nonce 0 ((unat len + 15) div 16)\<rparr>)"
proof -
  let ?d = "d0\<lparr>iv := nonce, ctr := 0\<rparr>"
  let ?s = "s\<lparr>sd_trace := sd_trace s @ [Soc (Sd_rand_application_vector_get 12)]\<rparr>"
  let ?out = "nonce @ le_bytes32 (ctr d0) @ drop 16 out"
  have out: "memcpy_at out 0 (iv_ctr_bytes (d0\<lparr>iv := nonce\<rparr>)) = ?out"
    using n12 by (simp add: memcpy_at_def iv_ctr_bytes_def)
  have xor: "map (\<lambda>j. inp ! j XOR ctr_stream E (take 16 key) nonce j) [0..<unat len]
      = ctr_xor E (take 16 key) nonce (take (unat len) inp)"
    unfolding ctr_xor_def using assms(4) by simp
  have "aes_ctr_loop 4096 key ?d inp ?out len 0 ?s =
      (Ret (take 16 ?out @ map (\<lambda>j. inp ! j XOR ctr_stream E (take 16 key) nonce j) [0..<unat len]
            @ drop (16 + unat len) ?out),
       ?s\<lparr>sd_trace := sd_trace ?s @ ctr_calls key nonce 0 ((unat len + 15) div 16)\<rparr>)"
    by (subst aes_ctr_loop_run [where k = 0 and E = E]) (use assms in \<open>simp_all add: min_def\<close>)
  then show ?thesis
    unfolding xor using n12 nonce out
    by (simp add: aes_ctr_crypt_message_def bnd_run Let_def add.commute)
qed

lemma aes_ctr_crypt_block_returns:
  "ecb_unit E s \<Longrightarrow> \<exists>ob s'. aes_ctr_crypt_block key d inp ioff out ooff len s = (Ret ob, s') \<and> ecb_unit E s'"
  by (simp add: aes_ctr_crypt_block_def bnd_run ecb_unit_def)

text \<open>
  With a length above 65520 the 16-bit index wraps to 0 before it reaches the length: no
  number of iterations is enough.
\<close>

lemma aes_ctr_loop_hangs:
  assumes "ecb_unit E s" and "65520 < unat len" and "16 dvd unat i"
  shows "fst (aes_ctr_loop n key d inp out len i s) = Hang"
  using assms
proof (induction n arbitrary: d out i s)
  case 0
  then show ?case by simp
next
  case (Suc n)
  have "unat i < 65536"
    using unsigned_less [of i, where ?'a = nat] by simp
  moreover obtain q where "unat i = 16 * q"
    using Suc.prems(3) by (elim dvdE)
  ultimately have i: "unat i \<le> 65520"
    by simp
  have lt: "i < len"
    using i Suc.prems(2) by (simp add: word_less_nat_alt)
  have "unat (i + 16) = (unat i + 16) mod 65536"
    by (simp add: unat_word_ariths)
  moreover have "16 dvd (unat i + 16) mod 65536"
    by (rule dvd_mod) (use Suc.prems(3) in simp_all)
  ultimately have dvd: "16 dvd unat (i + 16)"
    by (simp only:)
  define m where "m = (if unat len - unat i > 16 then 16 else unat len - unat i)"
  obtain ob s' where blk: "aes_ctr_crypt_block key d inp (unat i) out (16 + unat i) m s = (Ret ob, s')"
      and s': "ecb_unit E s'"
    using aes_ctr_crypt_block_returns [OF Suc.prems(1)] by blast
  show ?case
    unfolding aes_ctr_loop.simps m_def [symmetric]
    using lt Suc.IH [OF s' Suc.prems(2) dvd] by (simp add: bnd_run blk)
qed

subsection \<open>Properties\<close>

text \<open>
  C7: \<^verbatim>\<open>hmac_sha256_init\<close>, any sequence of updates and \<^verbatim>\<open>hmac_sha256_final\<close> compute
  HMAC-SHA256 (RFC 2104) of the concatenated message under the first \<^verbatim>\<open>keylen\<close> bytes of the key,
  for keys of at most one block and whatever the stack and the context held before.
\<close>

theorem hmac_sha256_correct:
  assumes "sha_mem ctx0" and "keylen \<le> length key" and "keylen \<le> 64"
    and "length opad0 = 96" and "length digest = 32"
  shows "snd (hmac_sha256_final opad0 (sha256_updates (hmac_sha256_init (Some ctx0) key keylen) segs)
           key keylen digest) = hmac_sha256 (take keylen key) (concat segs)"
  using hmac_message assms by (simp add: sha_mem_opt_def)

theorem hmac_sha256_correct_witness:
  "snd (hmac_sha256_final (replicate 96 1)
      (sha256_updates (hmac_sha256_init (Some zero_ctx) (replicate 20 0x0b) 20) [[0x48, 0x69], [], [0x20]])
      (replicate 20 0x0b) 20 (replicate 32 0)) = hmac_sha256 (replicate 20 0x0b) [0x48, 0x69, 0x20]"
  using hmac_sha256_correct [of zero_ctx 20 "replicate 20 0x0b" "replicate 96 1" "replicate 32 0"
      "[[0x48, 0x69], [], [0x20]]"]
  by (simp add: sha_mem_def zero_ctx_def)

text \<open>
  The answer to the setup challenge is HMAC-SHA256, under the 16-byte key, of the bytes
  "REG", 0, the 6-byte device address and the 16-byte challenge.
\<close>

lemma setup_response_hmac:
  assumes "sha_mem ctx0" and "length opad0 = 96" and "length response = 32"
    and "16 \<le> length p_key" and "6 \<le> length mac_addr" and "16 \<le> length challenge"
  shows "generate_setup_response ctx0 opad0 response p_key mac_addr challenge =
    hmac_sha256 (take 16 p_key) ([0x52, 0x45, 0x47, 0x00] @ take 6 mac_addr @ take 16 challenge)"
proof -
  have "sha_mem_opt (Some ctx0)"
    using assms(1) by (simp add: sha_mem_opt_def)
  from sha.upd_repr [OF sha.upd_repr [OF sha.upd_repr [OF hmac_init_repr [OF this, of 16 p_key]],
        of setup_prefix 4], of mac_addr 6] assms(4)
  show ?thesis
    unfolding generate_setup_response_def Let_def
    by (subst hmac_final_digest [where msg = "setup_prefix @ take 6 mac_addr @ take 16 challenge"])
      (use assms sha.upd_repr in \<open>fastforce simp: setup_prefix_def\<close>)+
qed

theorem setup_response_hmac_witness:
  "generate_setup_response zero_ctx (replicate 96 7) (replicate 32 0) (replicate 16 1)
     [0x11, 0x22, 0x33, 0x44, 0x55, 0x66] (replicate 16 0xaa)
   = hmac_sha256 (replicate 16 1)
       ([0x52, 0x45, 0x47, 0x00] @ [0x11, 0x22, 0x33, 0x44, 0x55, 0x66] @ replicate 16 0xaa)"
  using setup_response_hmac [of zero_ctx "replicate 96 7" "replicate 32 0" "replicate 16 1"
      "[0x11, 0x22, 0x33, 0x44, 0x55, 0x66]" "replicate 16 0xaa"]
  by (simp add: sha_mem_def zero_ctx_def)

text \<open>
  C11: for every length up to 65520, \<^verbatim>\<open>aes_ctr_crypt_message\<close> returns, and a receiver that takes
  the first 12 bytes of the result as nonce and counts blocks from 0 recovers the clear text;
  the bytes of the output buffer behind the ciphertext are not touched.
\<close>

theorem aes_ctr_message_decrypts:
  assumes "ecb_unit E s" and "unat len \<le> 65520" and "16 + unat len \<le> length out"
    and "unat len \<le> length inp"
    and "length (out_bytes (sd_env s (sd_trace s) (Soc (Sd_rand_application_vector_get 12)))) = 12"
  shows "\<exists>msg s'. aes_ctr_crypt_message d0 key inp out len s = (Ret msg, s')
     \<and> length msg = length out
     \<and> ctr_xor E (take 16 key) (take 12 msg) (take (unat len) (drop 16 msg)) = take (unat len) inp
     \<and> drop (16 + unat len) msg = drop (16 + unat len) out"
  using aes_ctr_crypt_message_run [OF assms(1-4) refl assms(5), of d0 key] assms(3-5)
  by (simp add: ctr_xor_involution add.commute)

theorem aes_ctr_message_decrypts_witness:
  "\<exists>msg s'. aes_ctr_crypt_message \<lparr>iv = replicate 12 9, ctr = 77\<rparr> (replicate 16 3) (replicate 20 5)
        (replicate 40 0) 20 demo_world = (Ret msg, s')
     \<and> ctr_xor (map2 (+)) (replicate 16 3) (take 12 msg) (take 20 (drop 16 msg)) = replicate 20 5"
  using aes_ctr_message_decrypts [of "map2 (+)" demo_world 20 "replicate 40 0" "replicate 20 5"
      "\<lparr>iv = replicate 12 9, ctr = 77\<rparr>" "replicate 16 3"]
  by (auto simp: demo_world_def demo_env_def null_reply_def ecb_unit_def)

text \<open>
  For a length above 65520 the loop of \<^verbatim>\<open>aes_ctr_crypt_message\<close> never ends, however many
  iterations it is given: the 16-bit index wraps around before it reaches the length.
\<close>

lemma aes_ctr_message_overflow_hangs:
  fixes s :: "'w world_scheme"
  assumes "ecb_unit E s" and "65520 < unat len"
  shows "fst (aes_ctr_crypt_message d0 key inp out len s) = Hang
    \<and> (\<forall>n. fst (aes_ctr_loop n key d inp out len 0 s) = Hang)"
proof -
  have "fst (aes_ctr_loop n key d inp ob len 0 s') = Hang" if "ecb_unit E s'" for n d ob and s' :: "'w world_scheme"
    by (rule aes_ctr_loop_hangs [OF that assms(2)]) simp
  with assms(1) show ?thesis
    by (simp add: aes_ctr_crypt_message_def bnd_run Let_def)
qed

lemma aes_ctr_message_overflow_hangs_example:
  "fst (aes_ctr_crypt_message \<lparr>iv = [], ctr = 0\<rparr> (replicate 16 3) [] [] 65535 demo_world) = Hang"
  using aes_ctr_message_overflow_hangs [of "map2 (+)" demo_world 65535]
  by (simp add: demo_world_def demo_env_def null_reply_def ecb_unit_def)

end
