(* ===== verification/CryptoFinder.thy ===== *)
theory CryptoFinder
  imports SysEncryption SrvCommon
begin

text \<open>
  The finder service, \<^verbatim>\<open>examples/ble_peripheral/ble_app_proximity/ble_cryptofinderservice.c\<close>: the GATT
  service through which the owner sets the end-to-end key and challenges the tag, and through
  which any phone nearby hands a lost tag its position and receives the encrypted report.

  \<open>ble_cryptoservice\<close> is the service structure, \<open>crypto_globals\<close> the three global variables.
  What the code takes from memory it does not own is a parameter: the uninitialised locals
  (\<open>stack_junk\<close>), the 16 bytes behind \<^verbatim>\<open>g_mfg_key\<close> that a 32-byte read of that array reaches
  (\<open>mfg_tail\<close>), the addresses of the two buffers handed to \<^verbatim>\<open>store_key\<close> and of the stack slot of its
  parameter, and the device address in the chip's factory registers.
\<close>

unbundle bit_operations_syntax

definition FILE_ID_KEYS :: u16 where [nrf_codes]: "FILE_ID_KEYS = 0x1577"
definition REC_MFGKEY :: u16 where [nrf_codes]: "REC_MFGKEY = 0x2222"
definition REC_E2EKEY :: u16 where [nrf_codes]: "REC_E2EKEY = 0xE2EE"
definition REC_TESTMSG :: u16 where [nrf_codes]: "REC_TESTMSG = 0x1234"
definition CRYPTOSERVICE_UUID_BASE :: bytes where
  "CRYPTOSERVICE_UUID_BASE = [0xff, 0xff, 0xff, 0xff, 0xff, 0x00, 0x34, 0x12,
                              0x34, 0x12, 0x00, 0x00, 0x00, 0x00, 0xc0, 0xab]"
definition CRYPTOSERVICE_UUID_SERVICE :: u16 where [nrf_codes]: "CRYPTOSERVICE_UUID_SERVICE = 0x1577"
definition CFS_UUID_E2EKEY_CHAR :: u16 where [nrf_codes]: "CFS_UUID_E2EKEY_CHAR = 0x1580"
definition CFS_UUID_SETUP_CHAR :: u16 where [nrf_codes]: "CFS_UUID_SETUP_CHAR = 0x1581"
definition CFS_UUID_GEOLOC_CHAR :: u16 where [nrf_codes]: "CFS_UUID_GEOLOC_CHAR = 0x1582"
definition CFS_UUID_IAMLOST_CHAR :: u16 where [nrf_codes]: "CFS_UUID_IAMLOST_CHAR = 0x1583"
definition CFS_UUID_MESSAGE_CHAR :: u16 where [nrf_codes]: "CFS_UUID_MESSAGE_CHAR = 0x1584"
definition RCP_READ :: u8 where [nrf_codes]: "RCP_READ = 1"
definition RCP_WRITE_WR :: u8 where [nrf_codes]: "RCP_WRITE_WR = 2"
definition RCP_WRITE :: u8 where [nrf_codes]: "RCP_WRITE = 4"
definition RCP_NOTIFY :: u8 where [nrf_codes]: "RCP_NOTIFY = 8"
definition RCP_PUB_WRITE :: u8 where [nrf_codes]: "RCP_PUB_WRITE = 16"
definition RCP_PUB_READ :: u8 where [nrf_codes]: "RCP_PUB_READ = 32"

subsection \<open>State\<close>

record ble_cryptoservice =
  cfs_service_handle :: u16
  e2ekey_char_handles :: ble_gatts_char_handles
  setup_char_handles :: ble_gatts_char_handles
  geoloc_char_handles :: ble_gatts_char_handles
  iamlost_char_handles :: ble_gatts_char_handles
  message_char_handles :: ble_gatts_char_handles
  cfs_uuid_type :: u8
  cfs_conn_handle :: u16

record crypto_globals =
  g_mfg_key :: bytes
  g_e2e_key :: bytes
  g_geoloc_ctr :: u32

record stack_junk =
  j_context :: sha256_context
  j_opad :: bytes
  j_iv_ctr :: iv_ctr
  j_response :: bytes
  j_err_code :: u32
  j_buf :: bytes
  j_data :: bytes
  j_store :: "bytes \<Rightarrow> bytes"

record crypto_memory =
  mfg_tail :: bytes
  addr_e2e_key :: u32
  addr_write_data :: u32
  addr_key_param :: u32
  deviceaddr :: bytes

subsection \<open>Flash records\<close>

text \<open>
  \<^verbatim>\<open>record_chunk.p_data = &key\<close> is the address of the parameter \<^verbatim>\<open>key\<close> itself: what is handed
  to the flash module is the address of a stack slot (\<open>addr_key_param\<close>). At the time of the call the
  slot holds the pointer \<^verbatim>\<open>key\<close>, in the memory order of the core, and above it is the rest of the
  stack: the frame of the caller, with its local array \<^verbatim>\<open>data\<close> (the parameter \<open>data\<close> here) laid out as
  the compiler chose, an arbitrary function \<open>j_store\<close> of the contents of that array.
\<close>

definition store_key ::
  "stack_junk \<Rightarrow> crypto_memory \<Rightarrow> bytes \<Rightarrow> u16 \<Rightarrow> u32 \<Rightarrow> u8 \<Rightarrow> ('w world_scheme, unit) prog" where
  "store_key junk mem data record_id key len =
     bnd (svc_rc (Store (Fds_record_write FILE_ID_KEYS record_id
            \<lparr>chunk_at = addr_key_param mem, chunk_wlen = unat len div 4,
             chunk_now = take (4 * (unat len div 4)) (le_bytes32 key @ j_store junk data)\<rparr>))) (\<lambda>_. ret ())"

text \<open>The search loop returns in its first iteration on every path.\<close>

definition load_key :: "u16 \<Rightarrow> bytes \<Rightarrow> u8 \<Rightarrow> ('w world_scheme, int \<times> bytes) prog" where
  "load_key record_id key len =
     bnd (svc_rc (Store (Fds_record_find FILE_ID_KEYS record_id))) (\<lambda>e.
     if e = NRF_SUCCESS
     then bnd (svc (Store Fds_record_open)) (\<lambda>r.
          if rc r \<noteq> NRF_SUCCESS then ret (2, key)
          else (let key = memcpy_at key 0 (take (unat len) (out_bytes r))
                in bnd (svc_rc (Store Fds_record_close)) (\<lambda>e.
                   if e \<noteq> NRF_SUCCESS then ret (3, key) else ret (0, key))))
     else ret (1, key))"

definition load_app_config :: "crypto_globals \<Rightarrow> ('w world_scheme, crypto_globals) prog" where
  "load_app_config g =
     bnd (load_key REC_MFGKEY (g_mfg_key g) 16) (\<lambda>(_, k1).
     bnd (load_key REC_E2EKEY (g_e2e_key g) 16) (\<lambda>(_, k2).
     ret (g\<lparr>g_mfg_key := k1, g_e2e_key := k2\<rparr>)))"

definition get_bluetooth_mac :: "crypto_memory \<Rightarrow> bytes" where
  "get_bluetooth_mac mem = map (\<lambda>i. deviceaddr mem ! i) [5, 4, 3, 2, 1, 0]"

subsection \<open>Notifications\<close>

definition ble_cryptoservice_send_setup_response ::
  "ble_cryptoservice \<Rightarrow> bytes \<Rightarrow> ('w world_scheme, u32) prog" where
  "ble_cryptoservice_send_setup_response p_cfs setup_response =
     svc_rc (Gatt (Sd_ble_gatts_hvx (cfs_conn_handle p_cfs) (value_handle (setup_char_handles p_cfs))
       BLE_GATT_HVX_NOTIFICATION 0 16 (take 16 setup_response)))"

definition ble_cryptoservice_send_iamlost ::
  "ble_cryptoservice \<Rightarrow> bytes \<Rightarrow> u16 \<Rightarrow> ('w world_scheme, u32) prog" where
  "ble_cryptoservice_send_iamlost p_cfs response response_length =
     svc_rc (Gatt (Sd_ble_gatts_hvx (cfs_conn_handle p_cfs) (value_handle (iamlost_char_handles p_cfs))
       BLE_GATT_HVX_NOTIFICATION 0 response_length (take (unat response_length) response)))"

subsection \<open>Requests\<close>

definition on_setup_challenge ::
  "stack_junk \<Rightarrow> crypto_memory \<Rightarrow> crypto_globals \<Rightarrow> ble_cryptoservice \<Rightarrow> bytes \<Rightarrow> ('w world_scheme, unit) prog" where
  "on_setup_challenge junk mem g p_cfs challenge =
     (let mac = get_bluetooth_mac mem;
          response = generate_setup_response (j_context junk) (j_opad junk) (take 32 (j_response junk))
                       (g_mfg_key g) mac challenge
      in bnd (ble_cryptoservice_send_setup_response p_cfs response) (\<lambda>err_code.
         APP_ERROR_CHECK err_code))"

definition geoloc_prefix :: bytes where
  "geoloc_prefix = [0x46, 0x49, 0x4e, 0x00]"

text \<open>
  The 90-byte report: counter (4), address (6), nonce and stack bytes (16), ciphertext (32),
  authentication code (32). \<^verbatim>\<open>err_code\<close> is checked although nothing assigns it.
\<close>

definition on_geoloc ::
  "stack_junk \<Rightarrow> crypto_memory \<Rightarrow> crypto_globals \<Rightarrow> ble_cryptoservice \<Rightarrow> bytes
     \<Rightarrow> ('w world_scheme, crypto_globals) prog" where
  "on_geoloc junk mem g p_cfs geoloc =
     (let response = memcpy_at (j_response junk) 0 (le_bytes32 (g_geoloc_ctr g));
          g = g\<lparr>g_geoloc_ctr := g_geoloc_ctr g + 1\<rparr>;
          response = memcpy_at response 4 (get_bluetooth_mac mem)
      in bnd (aes_ctr_crypt_message (j_iv_ctr junk) (g_e2e_key g) geoloc (drop 10 response) 32) (\<lambda>out.
         let response = take 10 response @ out;
             mfg = g_mfg_key g @ mfg_tail mem;
             context = hmac_sha256_init (Some (j_context junk)) mfg 32;
             context = snd (sha256_update context (Some geoloc_prefix) 4);
             context = snd (sha256_update context (Some response) 58);
             digest = snd (hmac_sha256_final (j_opad junk) context mfg 32 (drop 58 response));
             response = take 58 response @ digest
         in andthen (APP_ERROR_CHECK (j_err_code junk))
              (bnd (ble_cryptoservice_send_iamlost p_cfs response 90) (\<lambda>_. ret g))))"

definition cfs_on_connect :: "ble_cryptoservice \<Rightarrow> u16 \<Rightarrow> ble_cryptoservice" where
  "cfs_on_connect p_cfs conn_handle = p_cfs\<lparr>cfs_conn_handle := conn_handle\<rparr>"

definition cfs_on_disconnect :: "ble_cryptoservice \<Rightarrow> ble_cryptoservice" where
  "cfs_on_disconnect p_cfs = p_cfs\<lparr>cfs_conn_handle := BLE_CONN_HANDLE_INVALID\<rparr>"

text \<open>
  \<^verbatim>\<open>data[33]\<close> receives a copy of the written value and a terminating zero; the code reads it only for
  the log, but it is on the stack when a key is stored.
\<close>

definition write_copy :: "stack_junk \<Rightarrow> ble_gatts_evt_write \<Rightarrow> bytes" where
  "write_copy junk w = (memcpy_at (j_data junk) 0 (take (unat (w_len w)) (w_data w)))[unat (w_len w) := 0]"

definition cfs_on_write ::
  "stack_junk \<Rightarrow> crypto_memory \<Rightarrow> crypto_globals \<Rightarrow> ble_cryptoservice \<Rightarrow> ble_gatts_evt_write
     \<Rightarrow> ('w world_scheme, crypto_globals) prog" where
  "cfs_on_write junk mem g p_cfs w =
     bnd (if w_len w = 16
          then bnd (if w_handle w = value_handle (e2ekey_char_handles p_cfs)
                    then (let g = g\<lparr>g_e2e_key := take 16 (w_data w)\<rparr>
                          in andthen (store_key junk mem (write_copy junk w) REC_E2EKEY (addr_e2e_key mem) 16) (ret g))
                    else ret g) (\<lambda>g.
               andthen (guarded (w_handle w = value_handle (setup_char_handles p_cfs))
                          (on_setup_challenge junk mem g p_cfs (w_data w)))
                 (if w_handle w = value_handle (geoloc_char_handles p_cfs)
                  then on_geoloc junk mem g p_cfs (w_data w)
                  else ret g))
          else ret g) (\<lambda>g.
     andthen (guarded (w_len w = 32 \<and> w_handle w = value_handle (message_char_handles p_cfs))
                (store_key junk mem (write_copy junk w) REC_TESTMSG (addr_write_data mem) 32))
       (ret g))"

definition ble_cryptoservice_on_ble_evt ::
  "stack_junk \<Rightarrow> crypto_memory \<Rightarrow> crypto_globals \<Rightarrow> ble_cryptoservice \<Rightarrow> ble_evt
     \<Rightarrow> ('w world_scheme, crypto_globals \<times> ble_cryptoservice) prog" where
  "ble_cryptoservice_on_ble_evt junk mem g p_cfs evt =
     (case evt of
        BLE_GAP_EVT_CONNECTED conn_handle _ _ \<Rightarrow> ret (g, cfs_on_connect p_cfs conn_handle)
      | BLE_GAP_EVT_DISCONNECTED _ _ \<Rightarrow> ret (g, cfs_on_disconnect p_cfs)
      | BLE_GATTS_EVT_WRITE _ w \<Rightarrow> bnd (cfs_on_write junk mem g p_cfs w) (\<lambda>g. ret (g, p_cfs))
      | _ \<Rightarrow> ret (g, p_cfs))"

subsection \<open>Initialisation\<close>

definition register_characteristic ::
  "u16 \<Rightarrow> u8 \<Rightarrow> u16 \<Rightarrow> u8 \<Rightarrow> u8 \<Rightarrow> ('w world_scheme, reply) prog" where
  "register_characteristic service_handle uuidType u flags value_len =
     (let char_md = zero_char_md\<lparr>
            char_props := no_char_props\<lparr>cp_read := (flags AND RCP_READ) \<noteq> 0,
              cp_write_wo_resp := (flags AND RCP_WRITE_WR) \<noteq> 0,
              cp_write := (flags AND RCP_WRITE) \<noteq> 0, cp_notify := (flags AND RCP_NOTIFY) \<noteq> 0\<rparr>,
            p_char_user_desc := None, p_char_pf := None, p_user_desc_md := None,
            p_cccd_md := None, p_sccd_md := None\<rparr>;
          attr_md = zero_attr_md\<lparr>
            read_perm := (if (flags AND RCP_PUB_READ) \<noteq> 0 then SEC_MODE_OPEN else SEC_MODE_ENC_NO_MITM),
            write_perm := (if (flags AND RCP_PUB_WRITE) \<noteq> 0 then SEC_MODE_OPEN else SEC_MODE_ENC_NO_MITM),
            vloc := BLE_GATTS_VLOC_STACK, rd_auth := False, wr_auth := False, vlen := False\<rparr>;
          attr_char_value = \<lparr>attr_uuid = \<lparr>uuid = u, uuid_type = uuidType\<rparr>, attr_md = attr_md,
            init_len = 1, init_offs = 0, max_len = ucast value_len, p_value = None\<rparr>
      in svc (Gatt (Sd_ble_gatts_characteristic_add service_handle char_md attr_char_value)))"

definition ble_cryptoservice_init ::
  "stack_junk \<Rightarrow> crypto_globals \<Rightarrow> ble_cryptoservice
     \<Rightarrow> ('w world_scheme, u32 \<times> crypto_globals \<times> ble_cryptoservice) prog" where
  "ble_cryptoservice_init junk g p_cfs =
     bnd (load_app_config (g\<lparr>g_geoloc_ctr := 0, g_mfg_key := replicate 16 0x42,
            g_e2e_key := replicate 16 0x00\<rparr>)) (\<lambda>g.
     let c = p_cfs\<lparr>cfs_conn_handle := BLE_CONN_HANDLE_INVALID\<rparr>
     in bnd (svc (Gatt (Sd_ble_uuid_vs_add CRYPTOSERVICE_UUID_BASE))) (\<lambda>r.
     let c = c\<lparr>cfs_uuid_type := out_u8 r\<rparr>
     in verify (rc r) (g, c) (bnd (svc (Gatt (Sd_ble_gatts_service_add BLE_GATTS_SRVC_TYPE_PRIMARY
            \<lparr>uuid = CRYPTOSERVICE_UUID_SERVICE, uuid_type = cfs_uuid_type c\<rparr>))) (\<lambda>r.
     let c = c\<lparr>cfs_service_handle := out_u16 r\<rparr>
     in verify (rc r) (g, c) (bnd (register_characteristic (cfs_service_handle c) (cfs_uuid_type c)
            CFS_UUID_E2EKEY_CHAR RCP_WRITE 16) (\<lambda>r.
     let c = c\<lparr>e2ekey_char_handles := out_handles r\<rparr>
     in verify (rc r) (g, c) (bnd (register_characteristic (cfs_service_handle c) (cfs_uuid_type c)
            CFS_UUID_SETUP_CHAR (RCP_WRITE OR RCP_NOTIFY) 16) (\<lambda>r.
     let c = c\<lparr>setup_char_handles := out_handles r\<rparr>
     in verify (rc r) (g, c) (bnd (register_characteristic (cfs_service_handle c) (cfs_uuid_type c)
            CFS_UUID_GEOLOC_CHAR (RCP_WRITE OR RCP_PUB_WRITE) 8) (\<lambda>r.
     let c = c\<lparr>geoloc_char_handles := out_handles r\<rparr>
     in verify (rc r) (g, c) (bnd (register_characteristic (cfs_service_handle c) (cfs_uuid_type c)
            CFS_UUID_IAMLOST_CHAR (RCP_NOTIFY OR RCP_PUB_READ) 32) (\<lambda>r.
     let c = c\<lparr>iamlost_char_handles := out_handles r\<rparr>
     in verify (rc r) (g, c) (bnd (register_characteristic (cfs_service_handle c) (cfs_uuid_type c)
            CFS_UUID_MESSAGE_CHAR (RCP_READ OR RCP_WRITE OR RCP_PUB_READ) 32) (\<lambda>r.
     let c = c\<lparr>message_char_handles := out_handles r\<rparr>
     in verify (rc r) (g, c) (bnd (load_key REC_TESTMSG (j_buf junk) 32) (\<lambda>(_, buf).
     bnd (svc_rc (Gatt (Sd_ble_gatts_value_set BLE_CONN_HANDLE_INVALID
            (value_handle (message_char_handles c)) 32 0 buf))) (\<lambda>e.
     verify e (g, c) (ret (NRF_SUCCESS, g, c)))))))))))))))))))"

subsection \<open>Specification\<close>

text \<open>Memory of the sizes the C declarations give it.\<close>

definition junk_ok :: "stack_junk \<Rightarrow> bool" where
  "junk_ok junk \<longleftrightarrow> sha_mem (j_context junk) \<and> length (j_opad junk) = 96 \<and> length (j_response junk) = 90
     \<and> length (iv (j_iv_ctr junk)) = 12"

definition memory_ok :: "crypto_memory \<Rightarrow> bool" where
  "memory_ok mem \<longleftrightarrow> length (mfg_tail mem) = 16 \<and> length (deviceaddr mem) = 8"

definition globals_ok :: "crypto_globals \<Rightarrow> bool" where
  "globals_ok g \<longleftrightarrow> length (g_mfg_key g) = 16 \<and> length (g_e2e_key g) = 16"

text \<open>The first 58 bytes of a report, and the whole report with its authentication code.\<close>

definition report_body ::
  "(bytes \<Rightarrow> bytes \<Rightarrow> bytes) \<Rightarrow> u32 \<Rightarrow> bytes \<Rightarrow> bytes \<Rightarrow> bytes \<Rightarrow> bytes \<Rightarrow> bytes \<Rightarrow> bytes" where
  "report_body E count mac nonce junk4 e2e plain =
     le_bytes32 count @ mac @ nonce @ junk4 @ ctr_xor E e2e nonce plain"

definition report :: "bytes \<Rightarrow> bytes \<Rightarrow> bytes" where
  "report mfg body = body @ hmac_sha256 mfg (geoloc_prefix @ body)"

text \<open>The calls of the finder service that reach the peer.\<close>

definition is_notification :: "call \<Rightarrow> bool" where
  "is_notification c = (case c of Gatt (Sd_ble_gatts_hvx _ _ _ _ _ _) \<Rightarrow> True | _ \<Rightarrow> False)"

text \<open>What a start of the device finds: the flash module has a record of the key that holds these bytes.\<close>

definition key_stored :: "u16 \<Rightarrow> bytes \<Rightarrow> 'w world_scheme \<Rightarrow> bool" where
  "key_stored record_id d s \<longleftrightarrow> (\<forall>h. rc (sd_env s h (Store (Fds_record_find FILE_ID_KEYS record_id))) = NRF_SUCCESS
     \<and> rc (sd_env s (h @ [Store (Fds_record_find FILE_ID_KEYS record_id)]) (Store Fds_record_open)) = NRF_SUCCESS
     \<and> out_bytes (sd_env s (h @ [Store (Fds_record_find FILE_ID_KEYS record_id)]) (Store Fds_record_open)) = d)"

text \<open>What the attribute table allows without encryption.\<close>

definition open_write :: "call \<Rightarrow> bool" where
  "open_write c = (case c of
      Gatt (Sd_ble_gatts_characteristic_add _ md a) \<Rightarrow>
        (cp_write (char_props md) \<or> cp_write_wo_resp (char_props md)) \<and> write_perm (attr_md a) = SEC_MODE_OPEN
    | _ \<Rightarrow> False)"

definition char_uuid :: "call \<Rightarrow> u16" where
  "char_uuid c = (case c of Gatt (Sd_ble_gatts_characteristic_add _ md a) \<Rightarrow> uuid (attr_uuid a) | _ \<Rightarrow> 0)"

text \<open>Values for the examples.\<close>

definition demo_junk :: stack_junk where
  "demo_junk = \<lparr>j_context = zero_ctx, j_opad = replicate 96 0xcc, j_iv_ctr = \<lparr>iv = replicate 12 0xcc, ctr = 0xcccccccc\<rparr>,
     j_response = replicate 90 0xcc, j_err_code = 0, j_buf = replicate 32 0xcc, j_data = replicate 33 0xcc,
     j_store = (\<lambda>data. replicate 8 0xcc @ data)\<rparr>"

definition demo_mem :: crypto_memory where
  "demo_mem = \<lparr>mfg_tail = replicate 16 0, addr_e2e_key = 0x20002000, addr_write_data = 0x20003000, addr_key_param = 0x20007f00,
     deviceaddr = [1, 2, 3, 4, 5, 6, 7, 8]\<rparr>"

definition demo_globals :: crypto_globals where
  "demo_globals = \<lparr>g_mfg_key = replicate 16 0x42, g_e2e_key = replicate 16 0, g_geoloc_ctr = 7\<rparr>"

definition demo_handles :: "u16 \<Rightarrow> ble_gatts_char_handles" where
  "demo_handles h = \<lparr>value_handle = h, user_desc_handle = 0, cccd_handle = h + 1, sccd_handle = 0\<rparr>"

definition demo_cfs :: ble_cryptoservice where
  "demo_cfs = \<lparr>cfs_service_handle = 20, e2ekey_char_handles = demo_handles 22, setup_char_handles = demo_handles 24,
     geoloc_char_handles = demo_handles 27, iamlost_char_handles = demo_handles 29,
     message_char_handles = demo_handles 32, cfs_uuid_type = 2, cfs_conn_handle = 3\<rparr>"

definition demo_write :: "u16 \<Rightarrow> ble_gatts_evt_write" where
  "demo_write h = \<lparr>w_handle = h, w_len = 16, w_data = replicate 40 0x11\<rparr>"

lemmas demo_defs = demo_junk_def demo_mem_def demo_globals_def demo_handles_def demo_cfs_def demo_write_def
  zero_ctx_def demo_world_def demo_env_def null_reply_def

definition demo_restart :: "bytes \<Rightarrow> world" where
  "demo_restart d = \<lparr>sd_env = (\<lambda>h c. if c = Store Fds_record_open then null_reply\<lparr>out_bytes := d\<rparr> else null_reply), sd_trace = []\<rparr>"

subsection \<open>Facts\<close>

lemma load_key_traced: "\<exists>r k u. load_key record_id key len t = (Ret (r, k), t\<lparr>sd_trace := u\<rparr>)"
  by (cases "rc (sd_env t (sd_trace t) (Store (Fds_record_find FILE_ID_KEYS record_id))) = NRF_SUCCESS")
     (auto simp: load_key_def bnd_run Let_def split: if_splits)

lemma load_stored_key:
  assumes "key_stored REC_E2EKEY d t" and "length d = 16" and "length (g_e2e_key g) = 16"
  shows "\<exists>g' t'. load_app_config g t = (Ret g', t') \<and> g_e2e_key g' = d"
proof -
  let ?c = "Store (Fds_record_find FILE_ID_KEYS REC_E2EKEY)"
  obtain r k u where first: "load_key REC_MFGKEY (g_mfg_key g) 16 t = (Ret (r, k), t\<lparr>sd_trace := u\<rparr>)"
    using load_key_traced by blast
  have "rc (sd_env t u ?c) = NRF_SUCCESS" "rc (sd_env t (u @ [?c]) (Store Fds_record_open)) = NRF_SUCCESS"
    "out_bytes (sd_env t (u @ [?c]) (Store Fds_record_open)) = d"
    using assms(1) by (simp_all add: key_stored_def)
  then have "\<exists>r' t'. load_key REC_E2EKEY (g_e2e_key g) 16 (t\<lparr>sd_trace := u\<rparr>) = (Ret (r', d), t')"
    using assms(2,3) by (simp add: load_key_def bnd_run Let_def memcpy_at_def)
  then obtain r' t' where "load_key REC_E2EKEY (g_e2e_key g) 16 (t\<lparr>sd_trace := u\<rparr>) = (Ret (r', d), t')" by blast
  then show ?thesis by (simp add: load_app_config_def bnd_run first)
qed


lemma mac_reversed: "memory_ok mem \<Longrightarrow> get_bluetooth_mac mem = rev (take 6 (deviceaddr mem))"
  by (auto simp: memory_ok_def get_bluetooth_mac_def length_Suc_conv eval_nat_numeral)

lemma length_mac [simp]: "length (get_bluetooth_mac mem) = 6"
  by (simp add: get_bluetooth_mac_def)

lemma hmac_sha256_length [simp]: "length (hmac_sha256 key msg) = 32"
  by (simp add: hmac_sha256_def)

lemma setup_response_value:
  assumes "junk_ok junk" and "globals_ok g" and "16 \<le> length challenge"
  shows "generate_setup_response (j_context junk) (j_opad junk) (take 32 (j_response junk)) (g_mfg_key g)
      (get_bluetooth_mac mem) challenge
    = hmac_sha256 (g_mfg_key g) (setup_prefix @ get_bluetooth_mac mem @ take 16 challenge)"
proof -
  have "sha_mem_opt (Some (j_context junk))"
    using assms(1) by (simp add: sha_mem_opt_def junk_ok_def)
  from hmac_message [OF this, of 16 "g_mfg_key g" "j_opad junk" "take 32 (j_response junk)"
      "[setup_prefix, get_bluetooth_mac mem, take 16 challenge]"] assms
  show ?thesis
    by (simp add: generate_setup_response_def sha256_updates_def junk_ok_def globals_ok_def setup_prefix_def
        sha256_update_def split: option.splits)
qed

lemma report_hmac:
  assumes "junk_ok junk" and "length mfg = 32" and "length body = 58" and "length rest = 32"
  shows "snd (hmac_sha256_final (j_opad junk)
      (snd (sha256_update (snd (sha256_update (hmac_sha256_init (Some (j_context junk)) mfg 32)
         (Some geoloc_prefix) 4)) (Some (body @ rest)) 58)) mfg 32 rest)
    = hmac_sha256 mfg (geoloc_prefix @ body)"
proof -
  have "sha_mem_opt (Some (j_context junk))"
    using assms(1) by (simp add: sha_mem_opt_def junk_ok_def)
  from hmac_message [OF this, of 32 mfg "j_opad junk" rest "[geoloc_prefix, body]"] assms
  show ?thesis
    by (simp add: sha256_updates_def junk_ok_def geoloc_prefix_def sha256_update_def split: option.splits)
qed

text \<open>The report in one piece, when the stack lets the checks pass.\<close>

lemma on_geoloc_run:
  assumes ok: "junk_ok junk" "memory_ok mem" "globals_ok g" and E: "ecb_unit E s"
    and nonce: "out_bytes (sd_env s (sd_trace s) (Soc (Sd_rand_application_vector_get 12))) = nonce" "length nonce = 12"
    and geoloc: "32 \<le> length geoloc"
    and body: "body = report_body E (g_geoloc_ctr g) (get_bluetooth_mac mem) nonce
      (le_bytes32 (ctr (j_iv_ctr junk))) (g_e2e_key g) (take 32 geoloc)"
    and calls: "calls = Soc (Sd_rand_application_vector_get 12) # ctr_calls (g_e2e_key g) nonce 0 2"
    and hvx: "hvx = Gatt (Sd_ble_gatts_hvx (cfs_conn_handle c) (value_handle (iamlost_char_handles c))
      BLE_GATT_HVX_NOTIFICATION 0 90 (report (g_mfg_key g @ mfg_tail mem) body))"
  shows "on_geoloc junk mem g c geoloc s =
    (if j_err_code junk = NRF_SUCCESS
     then (Ret (g\<lparr>g_geoloc_ctr := g_geoloc_ctr g + 1\<rparr>), s\<lparr>sd_trace := sd_trace s @ calls @ [hvx]\<rparr>)
     else (Fault (j_err_code junk), s\<lparr>sd_trace := sd_trace s @ calls @ [Lib Bsp_board_leds_on]\<rparr>))"
proof -
  let ?r0 = "j_response junk" and ?mac = "get_bluetooth_mac mem" and ?k = "g_e2e_key g"
  let ?x = "nonce @ le_bytes32 (ctr (j_iv_ctr junk)) @ ctr_xor E ?k nonce (take 32 geoloc)"
  have l: "length ?r0 = 90" "length ?k = 16" "length (mfg_tail mem) = 16" "length (g_mfg_key g) = 16"
    using ok by (auto simp: junk_ok_def memory_ok_def globals_ok_def)
  have r: "memcpy_at (memcpy_at ?r0 0 (le_bytes32 (g_geoloc_ctr g))) 4 ?mac
      = le_bytes32 (g_geoloc_ctr g) @ ?mac @ drop 10 ?r0"
    using l by (simp add: memcpy_at_def)
  have aes: "aes_ctr_crypt_message (j_iv_ctr junk) ?k geoloc (drop 10 ?r0) 32 s =
      (Ret (?x @ drop 58 ?r0), s\<lparr>sd_trace := sd_trace s @ calls\<rparr>)"
    using aes_ctr_crypt_message_run [OF E, of 32 "drop 10 ?r0" geoloc nonce "j_iv_ctr junk" ?k] nonce geoloc l
    by (simp add: calls)
  have b: "le_bytes32 (g_geoloc_ctr g) @ ?mac @ ?x = body" "length body = 58"
    using nonce geoloc l by (simp_all add: body report_body_def)
  have hm: "snd (hmac_sha256_final (j_opad junk)
      (snd (sha256_update (snd (sha256_update (hmac_sha256_init (Some (j_context junk))
         (g_mfg_key g @ mfg_tail mem) 32) (Some geoloc_prefix) 4)) (Some (body @ drop 58 ?r0)) 58))
      (g_mfg_key g @ mfg_tail mem) 32 (drop 58 ?r0)) = hmac_sha256 (g_mfg_key g @ mfg_tail mem) (geoloc_prefix @ body)"
    by (rule report_hmac [OF ok(1)]) (use l b in simp_all)
  have whole: "take 10 (le_bytes32 (g_geoloc_ctr g) @ ?mac @ drop 10 ?r0) @ ?x @ drop 58 ?r0 = body @ drop 58 ?r0"
    using b(1) by simp
  let ?R = "le_bytes32 (g_geoloc_ctr g) @ ?mac @ drop 10 ?r0" and ?g = "g\<lparr>g_geoloc_ctr := g_geoloc_ctr g + 1\<rparr>"
  let ?F = "\<lambda>response. andthen (APP_ERROR_CHECK (j_err_code junk)) (bnd (ble_cryptoservice_send_iamlost c
      (take 58 response @ snd (hmac_sha256_final (j_opad junk)
        (snd (sha256_update (snd (sha256_update (hmac_sha256_init (Some (j_context junk))
          (g_mfg_key g @ mfg_tail mem) 32) (Some geoloc_prefix) 4)) (Some response) 58))
        (g_mfg_key g @ mfg_tail mem) 32 (drop 58 response))) 90) (\<lambda>_. ret ?g))"
  have unf: "on_geoloc junk mem g c geoloc =
      bnd (aes_ctr_crypt_message (j_iv_ctr junk) ?k geoloc (drop 10 ?R) 32) (\<lambda>out. ?F (take 10 ?R @ out))"
    unfolding on_geoloc_def Let_def r by simp
  have fin: "?F (body @ drop 58 ?r0) t =
      (if j_err_code junk = NRF_SUCCESS then (Ret ?g, t\<lparr>sd_trace := sd_trace t @ [hvx]\<rparr>)
       else (Fault (j_err_code junk), t\<lparr>sd_trace := sd_trace t @ [Lib Bsp_board_leds_on]\<rparr>))" for t
    using hm b(2) by (simp add: bnd_run andthen_run APP_ERROR_CHECK_run ble_cryptoservice_send_iamlost_def hvx report_def)
  have d: "drop 10 ?R = drop 10 ?r0"
    by simp
  show ?thesis
    unfolding unf d bnd_run aes prod.case outcome.case whole fin by simp
qed

subsection \<open>Start-up\<close>

lemma load_key_returns: "\<exists>x. fst (load_key i k l s) = Ret x"
  by (simp add: load_key_def bnd_run Let_def)

lemma emits_load_key [emits_intros]:
  "(\<And>f r. P (Store (Fds_record_find f r))) \<Longrightarrow> P (Store Fds_record_open) \<Longrightarrow> P (Store Fds_record_close)
     \<Longrightarrow> emits P (load_key i k l)"
  unfolding load_key_def Let_def by (intro emits_intros) auto

lemma strict_load_key: "(\<And>x. strict_seq (k x)) \<Longrightarrow> strict_seq (bnd (load_key i b l) k)"
  by (intro strict_seq_prefix load_key_returns emits_load_key) (simp_all add: is_gatt_def)

lemma strict_register:
  "(\<And>r. strict_seq (k r)) \<Longrightarrow> strict_seq (bnd (register_characteristic h t u f l) (\<lambda>r. verify (rc r) (x r) (k r)))"
  unfolding register_characteristic_def Let_def by (rule strict_seq_step)

lemma strict_svc_rc:
  "strict_seq k \<Longrightarrow> strict_seq (bnd (svc_rc c) (\<lambda>e. verify e x k))"
  using strict_seq_step [of "\<lambda>_. k" c "\<lambda>_. x"] by (simp add: svc_rc_def bnd_assoc)

lemma emits_verify [emits_intros]: "emits P k \<Longrightarrow> emits P (verify e c k)"
  by (simp add: verify_def emits_intros)

lemma load_app_config_assoc:
  "bnd (load_app_config g) k = bnd (load_key REC_MFGKEY (g_mfg_key g) 16) (\<lambda>(_, k1).
     bnd (load_key REC_E2EKEY (g_e2e_key g) 16) (\<lambda>(_, k2). k (g\<lparr>g_mfg_key := k1, g_e2e_key := k2\<rparr>)))"
  by (simp add: load_app_config_def bnd_assoc case_prod_unfold)

lemma cryptoservice_init_strict: "strict_seq (ble_cryptoservice_init junk g c)"
  unfolding ble_cryptoservice_init_def load_app_config_assoc Let_def case_prod_unfold
  by (intro strict_load_key strict_seq_step strict_register strict_svc_rc strict_seq_done)

lemma emits_register [emits_intros]:
  assumes "\<And>md a. uuid (attr_uuid a) = u \<Longrightarrow> write_perm (attr_md a) = (if (f AND RCP_PUB_WRITE) \<noteq> 0 then SEC_MODE_OPEN else SEC_MODE_ENC_NO_MITM)
      \<Longrightarrow> P (Gatt (Sd_ble_gatts_characteristic_add h md a))"
  shows "emits P (register_characteristic h t u f l)"
  unfolding register_characteristic_def Let_def by (intro emits_svc assms) simp_all

lemma cryptoservice_init_writes:
  "emits (\<lambda>c. open_write c \<longrightarrow> char_uuid c = CFS_UUID_GEOLOC_CHAR) (ble_cryptoservice_init junk g c)"
  unfolding ble_cryptoservice_init_def load_app_config_assoc Let_def case_prod_unfold
  by (intro emits_intros)
    (simp_all add: open_write_def char_uuid_def nrf_codes SEC_MODE_OPEN_def SEC_MODE_ENC_NO_MITM_def)

subsection \<open>Properties\<close>

text \<open>
  C4: a 16-byte write to the setup characteristic is answered by exactly one notification to
  the connected peer: the first 16 bytes of HMAC-SHA256, under the manufacturer key, of "REG", 0,
  the device address and the challenge. If the stack refuses the notification the device stops.
\<close>

theorem setup_challenge_answered:
  assumes "junk_ok junk" and "globals_ok g" and "memory_ok mem" and "w_len w = 16" and "16 \<le> length (w_data w)"
    and "w_handle w = value_handle (setup_char_handles c)"
    and "w_handle w \<noteq> value_handle (e2ekey_char_handles c)"
    and "w_handle w \<noteq> value_handle (geoloc_char_handles c)"
    and "call = Gatt (Sd_ble_gatts_hvx (cfs_conn_handle c) (value_handle (setup_char_handles c))
           BLE_GATT_HVX_NOTIFICATION 0 16
           (take 16 (hmac_sha256 (g_mfg_key g)
              ([0x52, 0x45, 0x47, 0x00] @ rev (take 6 (deviceaddr mem)) @ take 16 (w_data w)))))"
  shows "ble_cryptoservice_on_ble_evt junk mem g c (BLE_GATTS_EVT_WRITE conn w) s =
    (if rc (sd_env s (sd_trace s) call) = NRF_SUCCESS
     then (Ret (g, c), s\<lparr>sd_trace := sd_trace s @ [call]\<rparr>)
     else (Fault (rc (sd_env s (sd_trace s) call)),
           s\<lparr>sd_trace := sd_trace s @ [call, Lib Bsp_board_leds_on]\<rparr>))"
  using assms setup_response_value [OF assms(1,2,5), of mem] mac_reversed [OF assms(3)]
  by (simp add: ble_cryptoservice_on_ble_evt_def cfs_on_write_def on_setup_challenge_def Let_def bnd_run andthen_run
      guarded_run ble_cryptoservice_send_setup_response_def APP_ERROR_CHECK_run setup_prefix_def)

theorem setup_challenge_answered_witness:
  "fst (ble_cryptoservice_on_ble_evt demo_junk demo_mem demo_globals demo_cfs (BLE_GATTS_EVT_WRITE 3 (demo_write 24))
      demo_world) = Ret (demo_globals, demo_cfs)"
  by (subst setup_challenge_answered [OF _ _ _ _ _ _ _ _ refl])
    (simp_all add: demo_defs junk_ok_def globals_ok_def memory_ok_def sha_mem_def)



text \<open>
  C35: the check of \<^verbatim>\<open>err_code\<close> in \<^verbatim>\<open>on_geoloc\<close> reads a variable that nothing has assigned: unless
  the stack slot happens to hold zero, the device stops and no report leaves it.
\<close>

theorem geoloc_report_lost:
  assumes "junk_ok junk" and "memory_ok mem" and "globals_ok g" and "ecb_unit E s"
    and "length (out_bytes (sd_env s (sd_trace s) (Soc (Sd_rand_application_vector_get 12)))) = 12"
    and "32 \<le> length geoloc" and "j_err_code junk \<noteq> NRF_SUCCESS"
  shows "fst (on_geoloc junk mem g c geoloc s) = Fault (j_err_code junk)
    \<and> (\<exists>t. sd_trace (snd (on_geoloc junk mem g c geoloc s)) = sd_trace s @ t \<and> (\<forall>x \<in> set t. \<not> is_notification x))"
  using assms(7)
  by (subst (1 2) on_geoloc_run [OF assms(1-4) refl assms(5,6) refl refl refl])
    (auto simp: ctr_calls_def is_notification_def)

theorem geoloc_report_lost_witness:
  "fst (on_geoloc (demo_junk\<lparr>j_err_code := 0x20001234\<rparr>) demo_mem demo_globals demo_cfs (replicate 40 0x11) demo_world)
     = Fault 0x20001234"
  using geoloc_report_lost [of "demo_junk\<lparr>j_err_code := 0x20001234\<rparr>" demo_mem demo_globals "map2 (+)" demo_world
      "replicate 40 0x11" demo_cfs]
  by (auto simp: demo_defs junk_ok_def globals_ok_def memory_ok_def sha_mem_def ecb_unit_def nrf_codes NRF_SUCCESS_def)

text \<open>
  C34: writing the end-to-end key changes the key in use, but what is handed to the flash module is not
  the key: it is the address of the parameter of \<^verbatim>\<open>store_key\<close>, a stack slot that holds, at the time of
  the call, the address of the key variable. The flash is programmed later, from what the slot and the
  stack above it hold by then: if the slot still has its value, the record begins with that address,
  whatever follows it (which may depend on the key, for the stack also has the copy \<^verbatim>\<open>data\<close>); and a start
  of the device that finds such a record puts it into \<^verbatim>\<open>g_e2e_key\<close>, which then differs from the key
  written, unless the key begins with that address. So the key does not survive a restart. The write is
  for the handle of the key only, with 16 bytes.
\<close>

theorem e2e_key_not_persisted:
  fixes s :: "'w world_scheme" and t :: "'v world_scheme"
  assumes "w_len w = 16" and "w_handle w = value_handle (e2ekey_char_handles c)"
    and "w_handle w \<noteq> value_handle (setup_char_handles c)"
    and "w_handle w \<noteq> value_handle (geoloc_char_handles c)" and "take 4 (w_data w) \<noteq> le_bytes32 (addr_e2e_key mem)"
    and "length flashed = 16" and "key_stored REC_E2EKEY flashed t" and "length (g_e2e_key g0) = 16"
  shows "\<exists>chunk g' t'. ble_cryptoservice_on_ble_evt junk mem g c (BLE_GATTS_EVT_WRITE conn w) s =
      (Ret (g\<lparr>g_e2e_key := take 16 (w_data w)\<rparr>, c),
       s\<lparr>sd_trace := sd_trace s @ [Store (Fds_record_write 0x1577 0xE2EE chunk)]\<rparr>)
    \<and> chunk_at chunk = addr_key_param mem \<and> chunk_wlen chunk = 4 \<and> take 4 (chunk_now chunk) = le_bytes32 (addr_e2e_key mem)
    \<and> load_app_config g0 t = (Ret g', t') \<and> g_e2e_key g' = flashed
    \<and> (take 4 flashed = take 4 (chunk_now chunk) \<longrightarrow> g_e2e_key g' \<noteq> take 16 (w_data w))"
proof -
  let ?chunk = "\<lparr>chunk_at = addr_key_param mem, chunk_wlen = 4,
      chunk_now = take 16 (le_bytes32 (addr_e2e_key mem) @ j_store junk (write_copy junk w))\<rparr>"
  have stored: "ble_cryptoservice_on_ble_evt junk mem g c (BLE_GATTS_EVT_WRITE conn w) s =
      (Ret (g\<lparr>g_e2e_key := take 16 (w_data w)\<rparr>, c),
       s\<lparr>sd_trace := sd_trace s @ [Store (Fds_record_write 0x1577 0xE2EE ?chunk)]\<rparr>)"
    using assms(1-4)
    by (simp add: ble_cryptoservice_on_ble_evt_def cfs_on_write_def Let_def bnd_run andthen_run guarded_run
        store_key_def nrf_codes)
  have len: "length (le_bytes32 (addr_e2e_key mem)) = 4"
    by simp
  obtain g' t' where load: "load_app_config g0 t = (Ret g', t')" "g_e2e_key g' = flashed"
    using load_stored_key [OF assms(7,6,8)] by blast
  have "g_e2e_key g' \<noteq> take 16 (w_data w)" if "take 4 flashed = le_bytes32 (addr_e2e_key mem)"
  proof
    assume "g_e2e_key g' = take 16 (w_data w)"
    then have "take 4 (take 16 (w_data w)) = le_bytes32 (addr_e2e_key mem)" using that load(2) by simp
    then show False using assms(5) by simp
  qed
  with stored load len show ?thesis
    by (intro exI [of _ ?chunk] exI [of _ g'] exI [of _ t']) simp
qed

theorem e2e_key_not_persisted_witness:
  "\<exists>g' t'. sd_trace (snd (ble_cryptoservice_on_ble_evt demo_junk demo_mem demo_globals demo_cfs
      (BLE_GATTS_EVT_WRITE 3 (demo_write 22)) demo_world)) =
        [Store (Fds_record_write 0x1577 0xE2EE \<lparr>chunk_at = 0x20007f00, chunk_wlen = 4,
           chunk_now = le_bytes32 0x20002000 @ replicate 8 0xcc @ replicate 4 0x11\<rparr>)]
    \<and> load_app_config demo_globals (demo_restart (le_bytes32 0x20002000 @ replicate 12 0)) = (Ret g', t')
    \<and> g_e2e_key g' \<noteq> replicate 16 0x11"
proof -
  let ?flashed = "le_bytes32 0x20002000 @ replicate 12 0 :: bytes" and ?t = "demo_restart (le_bytes32 0x20002000 @ replicate 12 0)"
  have "sd_trace demo_world = []" by (simp add: demo_world_def)
  moreover have data: "write_copy demo_junk (demo_write 22) = replicate 16 0x11 @ 0 # replicate 16 0xcc"
  proof -
    have "take (unat (w_len (demo_write 22))) (w_data (demo_write 22)) = replicate 16 0x11" by (simp add: demo_write_def)
    moreover have "memcpy_at (j_data demo_junk) 0 (replicate 16 (0x11 :: 8 word)) = replicate 16 0x11 @ replicate 17 0xcc"
      by (simp add: memcpy_at_def demo_junk_def)
    moreover have "unat (w_len (demo_write 22)) = 16" by (simp add: demo_write_def)
    moreover have "(replicate 16 (0x11 :: 8 word) @ replicate 17 0xcc)[16 := 0] = replicate 16 0x11 @ 0 # replicate 16 0xcc"
      by (simp add: list_update_append numeral_eq_Suc)
    ultimately show ?thesis by (simp only: write_copy_def)
  qed
  moreover have "w_len (demo_write 22) = 16" "w_handle (demo_write 22) = value_handle (e2ekey_char_handles demo_cfs)"
    "w_handle (demo_write 22) \<noteq> value_handle (setup_char_handles demo_cfs)"
    "w_handle (demo_write 22) \<noteq> value_handle (geoloc_char_handles demo_cfs)"
    "length ?flashed = 16" "length (g_e2e_key demo_globals) = 16"
    by (simp_all add: demo_defs le_bytes32_def)
  moreover have "hd (le_bytes32 0x20002000) = 0" by (simp add: le_bytes32_def)
  then have first: "hd (le_bytes32 0x20002000) = 0" "hd (replicate 4 (0x11 :: 8 word)) \<noteq> 0" "hd (replicate 16 (0x11 :: 8 word)) \<noteq> 0"
    by simp_all
  moreover have "take 4 (w_data (demo_write 22)) \<noteq> le_bytes32 (addr_e2e_key demo_mem)"
  proof -
    have "take 4 (w_data (demo_write 22)) = replicate 4 0x11" "addr_e2e_key demo_mem = 0x20002000"
      by (simp_all add: demo_write_def demo_mem_def)
    then show ?thesis using first(1,2) by metis
  qed
  moreover have "key_stored REC_E2EKEY ?flashed ?t"
    by (simp add: key_stored_def demo_restart_def null_reply_def)
  ultimately obtain chunk g' t' where "ble_cryptoservice_on_ble_evt demo_junk demo_mem demo_globals demo_cfs (BLE_GATTS_EVT_WRITE 3 (demo_write 22)) demo_world =
      (Ret (demo_globals\<lparr>g_e2e_key := take 16 (w_data (demo_write 22))\<rparr>, demo_cfs),
       demo_world\<lparr>sd_trace := [Store (Fds_record_write 0x1577 0xE2EE chunk)]\<rparr>)"
    and load: "load_app_config demo_globals ?t = (Ret g', t')" "g_e2e_key g' = ?flashed"
    using e2e_key_not_persisted [of "demo_write 22" demo_cfs demo_mem ?flashed ?t demo_globals demo_junk demo_globals 3 demo_world]
    by (metis append_Nil)
  moreover have "sd_trace (snd (ble_cryptoservice_on_ble_evt demo_junk demo_mem demo_globals demo_cfs
      (BLE_GATTS_EVT_WRITE 3 (demo_write 22)) demo_world)) =
        [Store (Fds_record_write 0x1577 0xE2EE \<lparr>chunk_at = 0x20007f00, chunk_wlen = 4,
           chunk_now = le_bytes32 0x20002000 @ replicate 8 0xcc @ replicate 4 0x11\<rparr>)]"
    using data by (simp add: ble_cryptoservice_on_ble_evt_def cfs_on_write_def Let_def bnd_run andthen_run guarded_run store_key_def nrf_codes demo_defs)
  moreover have "hd ?flashed = 0" by (simp add: le_bytes32_def)
  then have "?flashed \<noteq> replicate 16 0x11" using first(3) by (metis)
  ultimately show ?thesis by auto
qed

text \<open>
  The initialisation of the service always returns, stops at the first call the stack
  refuses with the error of that call, and returns success only when the stack granted every
  registration.
\<close>

lemma cryptoservice_init_errors:
  "\<exists>e g' c' t. fst (ble_cryptoservice_init junk g c s) = Ret (e, g', c')
     \<and> sd_trace (snd (ble_cryptoservice_init junk g c s)) = sd_trace s @ t
     \<and> (e \<noteq> NRF_SUCCESS \<and> t \<noteq> [] \<and> e = rc (sd_env s (sd_trace s @ butlast t) (last t))
        \<or> e = NRF_SUCCESS \<and>
          (\<forall>i < length t. rc (sd_env s (sd_trace s @ take i t) (t ! i)) = NRF_SUCCESS \<or> \<not> is_gatt (t ! i)))"
  using strict_seqD [OF cryptoservice_init_strict, of junk g c s] by auto

lemma cryptoservice_init_errors_example:
  "\<exists>g' c'. fst (ble_cryptoservice_init demo_junk demo_globals demo_cfs demo_world) = Ret (NRF_SUCCESS, g', c')"
proof -
  have "rc (sd_env demo_world h x) = NRF_SUCCESS" for h x
    by (simp add: demo_world_def demo_env_def null_reply_def split: call.split soc_call.split)
  then show ?thesis
    using cryptoservice_init_errors [of demo_junk demo_globals demo_cfs demo_world] by auto
qed

text \<open>
  Whatever the stack answers, the only characteristic of the finder service that a peer
  may write without an encrypted link is the position characteristic.
\<close>

lemma only_geoloc_open_for_write:
  "\<exists>t. sd_trace (snd (ble_cryptoservice_init junk g c s)) = sd_trace s @ t
     \<and> char_uuid ` set (filter open_write t) \<subseteq> {CFS_UUID_GEOLOC_CHAR}"
  using emitsD [OF cryptoservice_init_writes, of junk g c s] by auto

end
