(* ===== verification/ProximityApp.thy ===== *)
theory ProximityApp
  imports Advertising ConnParams ConnState Battery IasClient CryptoFinder
begin

text \<open>
  The application, \<^verbatim>\<open>examples/ble_peripheral/ble_app_proximity/main.c\<close>: it initialises every module,
  hands each event of the stack to all of them in a fixed order, and reacts to alerts, button
  pushes, battery measurements and events of the peer manager. Logging is left out.

  The module structures \<^verbatim>\<open>m_ias\<close>, \<^verbatim>\<open>m_lls\<close> and so on are the record \<open>app\<close>; the two flags that callbacks
  of other modules change are part of the world, \<open>app_world\<close>. Uninitialised memory is \<open>app_mem\<close>, which
  also carries the events that the peer manager and service discovery deliver while they handle
  an event of the stack. The configuration is that of the nRF51 build (ADC, SoftDevice version 2).
\<close>

subsection \<open>State\<close>

record app_world = world +
  m_is_high_alert_signalled :: bool
  m_is_ias_present :: bool

type_synonym app_ext = "unit app_world_ext"

record app =
  m_bcs :: ble_conn_state
  m_conn_params :: conn_params
  m_ias :: ble_ias
  m_lls :: ble_lls
  m_bas :: ble_bas
  m_ias_c :: ble_ias_c
  m_tps :: ble_tps
  m_adv :: adv
  m_cryptoservice :: ble_cryptoservice
  m_crypto_globals :: crypto_globals

datatype pm_evt =
    PM_EVT_CONN_SEC_CONFIG_REQ u16
  | PM_EVT_STORAGE_FULL
  | PM_EVT_PEERS_DELETE_SUCCEEDED
  | PM_EVT_LOCAL_DB_CACHE_APPLY_FAILED
  | PM_EVT_PEER_DATA_UPDATE_FAILED u32
  | PM_EVT_PEER_DELETE_FAILED u32
  | PM_EVT_PEERS_DELETE_FAILED u32
  | PM_EVT_ERROR_UNEXPECTED u32
  | PM_EVT_OTHER

datatype nrf_drv_adc_evt = NRF_DRV_ADC_EVT_DONE "16 word" | NRF_DRV_ADC_EVT_SAMPLE "16 word"

record app_mem =
  am_junk :: stack_junk
  am_mem :: crypto_memory
  am_adv :: "call list \<Rightarrow> bytes \<times> bytes"
  am_evt0 :: ble_ias_c_evt
  am_enc0 :: bytes
  am_erase_bonds :: bool
  am_pm_evts :: "pm_evt list"
  am_disc_evts :: "ble_db_discovery_evt list"

type_synonym app_prog = "app \<Rightarrow> (app_world, app) prog"

definition BSP_INDICATE_IDLE :: nat where "BSP_INDICATE_IDLE = 0"
definition BSP_INDICATE_ADVERTISING :: nat where "BSP_INDICATE_ADVERTISING = 2"
definition BSP_INDICATE_ADVERTISING_SLOW :: nat where "BSP_INDICATE_ADVERTISING_SLOW = 4"
definition BSP_INDICATE_CONNECTED :: nat where "BSP_INDICATE_CONNECTED = 7"
definition BSP_INDICATE_ALERT_0 :: nat where "BSP_INDICATE_ALERT_0 = 13"
definition BSP_INDICATE_ALERT_3 :: nat where "BSP_INDICATE_ALERT_3 = 16"
definition BSP_INDICATE_ALERT_OFF :: nat where "BSP_INDICATE_ALERT_OFF = 17"
definition BSP_EVENT_CLEAR_ALERT :: nat where "BSP_EVENT_CLEAR_ALERT = 3"
definition BSP_EVENT_BOND :: nat where "BSP_EVENT_BOND = 8"
definition BATTERY_TIMER :: nat where "BATTERY_TIMER = 2"
definition FDS_ERR_NO_SPACE_IN_QUEUES :: u32 where "FDS_ERR_NO_SPACE_IN_QUEUES = 8"
definition FDS_ERR_BUSY :: u32 where "FDS_ERR_BUSY = 14"

text \<open>\<^verbatim>\<open>APP_TIMER_TICKS\<close> with prescaler 0 and \<^verbatim>\<open>MSEC_TO_UNITS\<close>.\<close>

definition APP_TIMER_TICKS :: "nat \<Rightarrow> nat" where
  "APP_TIMER_TICKS ms = (ms * 32768 + 500) div 1000"

definition MSEC_TO_UNITS :: "nat \<Rightarrow> nat \<Rightarrow> nat" where
  "MSEC_TO_UNITS t resolution = (t * 1000) div resolution"

definition BATTERY_LEVEL_MEAS_INTERVAL :: nat where "BATTERY_LEVEL_MEAS_INTERVAL = APP_TIMER_TICKS 120000"

subsection \<open>Indications and callbacks\<close>

definition bsp_indicate :: "nat \<Rightarrow> ('w world_scheme, unit) prog" where
  "bsp_indicate i = bnd (svc_rc (Lib (Bsp_indication_set i))) APP_ERROR_CHECK"

definition service_error_handler :: "u32 \<Rightarrow> ('w world_scheme, unit) prog" where
  "service_error_handler nrf_error = app_error_handler nrf_error"

definition conn_params_error_handler :: "u32 \<Rightarrow> ('w world_scheme, unit) prog" where
  "conn_params_error_handler nrf_error = app_error_handler nrf_error"

definition on_adv_evt :: "ble_adv_evt \<Rightarrow> adv \<Rightarrow> ('w world_scheme, adv) prog" where
  "on_adv_evt evt m =
     andthen (case evt of
                BLE_ADV_EVT_FAST \<Rightarrow> bsp_indicate BSP_INDICATE_ADVERTISING
              | BLE_ADV_EVT_SLOW \<Rightarrow> bsp_indicate BSP_INDICATE_ADVERTISING_SLOW
              | BLE_ADV_EVT_IDLE \<Rightarrow> bsp_indicate BSP_INDICATE_IDLE
              | _ \<Rightarrow> ret ())
       (ret m)"

text \<open>The advertising module is initialised without an error handler.\<close>

definition app_adv_env :: "app_mem \<Rightarrow> 'w adv_env" where
  "app_adv_env am = \<lparr>adv_evt_fn = on_adv_evt, adv_error_fn = (\<lambda>_. ret ()), junk = am_adv am\<rparr>"

definition app_cp_callbacks :: "'w cp_callbacks" where
  "app_cp_callbacks = \<lparr>on_cp_evt = (\<lambda>_. ret ()), on_cp_error = conn_params_error_handler\<rparr>"

definition alert_signal :: "u8 \<Rightarrow> ('w world_scheme, unit) prog" where
  "alert_signal alert_level =
     (if alert_level = BLE_CHAR_ALERT_LEVEL_NO_ALERT then bsp_indicate BSP_INDICATE_ALERT_OFF
      else if alert_level = BLE_CHAR_ALERT_LEVEL_MILD_ALERT then bsp_indicate BSP_INDICATE_ALERT_0
      else if alert_level = BLE_CHAR_ALERT_LEVEL_HIGH_ALERT then bsp_indicate BSP_INDICATE_ALERT_3
      else ret ())"

definition on_ias_evt :: "'w ias_handler" where
  "on_ias_evt p_ias evt = (case evt of BLE_IAS_EVT_ALERT_LEVEL_UPDATED alert_level \<Rightarrow> alert_signal alert_level)"

definition on_lls_evt :: "'w lls_handler" where
  "on_lls_evt p_lls evt = (case evt of BLE_LLS_EVT_LINK_LOSS_ALERT alert_level \<Rightarrow> alert_signal alert_level)"

definition on_ias_c_evt :: "ble_ias_c \<Rightarrow> ble_ias_c_evt \<Rightarrow> (app_world, ble_ias_c) prog" where
  "on_ias_c_evt p_ias_c evt =
     (case ice_evt_type evt of
        BLE_IAS_C_EVT_DISCOVERY_COMPLETE \<Rightarrow>
          (case ble_ias_c_handles_assign (Some p_ias_c) (ice_conn_handle evt) (gc_handle_value (ice_alert_level evt)) of
             (err_code, c) \<Rightarrow>
               andthen (APP_ERROR_CHECK err_code)
                 (andthen (modify (\<lambda>s. s\<lparr>m_is_ias_present := True\<rparr>)) (ret (the c))))
      | BLE_IAS_C_EVT_DISCOVERY_FAILED \<Rightarrow> ret p_ias_c
      | BLE_IAS_C_EVT_DISCONN_COMPLETE \<Rightarrow>
          andthen (modify (\<lambda>s. s\<lparr>m_is_ias_present := False\<rparr>)) (ret p_ias_c))"

definition on_bas_evt :: "'w bas_handler" where
  "on_bas_evt p_bas evt =
     (case evt of
        BLE_BAS_EVT_NOTIFICATION_ENABLED \<Rightarrow>
          bnd (svc_rc (Lib (App_timer_start BATTERY_TIMER BATTERY_LEVEL_MEAS_INTERVAL))) APP_ERROR_CHECK
      | BLE_BAS_EVT_NOTIFICATION_DISABLED \<Rightarrow> bnd (svc_rc (Lib (App_timer_stop BATTERY_TIMER))) APP_ERROR_CHECK)"

definition db_disc_handler :: "ble_db_discovery_evt \<Rightarrow> app_prog" where
  "db_disc_handler evt a =
     bnd (ble_ias_c_on_db_disc_evt on_ias_c_evt (m_ias_c a) evt) (\<lambda>c. ret (a\<lparr>m_ias_c := c\<rparr>))"

subsection \<open>Battery measurement\<close>

text \<open>
  \<^verbatim>\<open>ADC_RESULT_IN_MILLI_VOLTS\<close> on a signed 16 bit sample, in C integer arithmetic (division towards
  zero), plus the diode drop, stored in 16 bits.
\<close>

definition adc_milli_volts :: "16 word \<Rightarrow> u16" where
  "adc_milli_volts adc_result =
     (let x = sint adc_result * 1200; q = (if x < 0 then - ((- x) div 1024) else x div 1024)
      in of_int (q * 3 + 270))"

definition adc_event_handler :: "nrf_drv_adc_evt \<Rightarrow> app_prog" where
  "adc_event_handler evt a =
     (case evt of
        NRF_DRV_ADC_EVT_DONE adc_result \<Rightarrow>
          bnd (svc_rc (Soc (Nrf_drv_adc_buffer_convert 1))) (\<lambda>err_code.
          andthen (APP_ERROR_CHECK err_code)
            (bnd (ble_bas_battery_level_update (Some (m_bas a))
                    (battery_level_in_percent (adc_milli_volts adc_result))) (\<lambda>(err_code, bas).
             andthen (if err_code \<noteq> NRF_SUCCESS \<and> err_code \<noteq> NRF_ERROR_INVALID_STATE
                         \<and> err_code \<noteq> BLE_ERROR_NO_TX_PACKETS \<and> err_code \<noteq> BLE_ERROR_GATTS_SYS_ATTR_MISSING
                      then app_error_handler err_code else ret ())
               (ret (a\<lparr>m_bas := the bas\<rparr>)))))
      | NRF_DRV_ADC_EVT_SAMPLE _ \<Rightarrow> ret a)"

definition adc_configure :: "('w world_scheme, unit) prog" where
  "adc_configure =
     bnd (svc_rc (Soc Nrf_drv_adc_init)) (\<lambda>err_code.
     andthen (APP_ERROR_CHECK err_code)
     (bnd (svc (Soc Nrf_drv_adc_channel_enable)) (\<lambda>_.
      bnd (svc_rc (Soc (Nrf_drv_adc_buffer_convert 1))) APP_ERROR_CHECK)))"

definition battery_level_meas_timeout_handler :: "('w world_scheme, unit) prog" where
  "battery_level_meas_timeout_handler = bnd (svc (Soc Nrf_drv_adc_sample)) (\<lambda>_. ret ())"

subsection \<open>Advertising, bonding, buttons\<close>

definition advertising_start :: "app_mem \<Rightarrow> app_prog" where
  "advertising_start am a =
     bnd (ble_advertising_start (app_adv_env am) BLE_ADV_MODE_FAST (m_adv a)) (\<lambda>(err_code, m).
     andthen (if err_code = NRF_ERROR_INVALID_STATE then ret () else APP_ERROR_CHECK err_code)
       (ret (a\<lparr>m_adv := m\<rparr>)))"

text \<open>The \<^verbatim>\<open>SEC_PARAM_\<close> constants and the key distribution, in a structure that was zeroed first.\<close>

definition bond_params :: ble_gap_sec_params where
  "bond_params =
     \<lparr>sp_bond = True, sp_mitm = False, sp_lesc = False, sp_keypress = False, sp_io_caps = BLE_GAP_IO_CAPS_NONE, sp_oob = False,
      sp_min_key_size = 7, sp_max_key_size = 16,
      sp_kdist_own = \<lparr>kd_enc = True, kd_id = True, kd_sign = False, kd_link = False\<rparr>,
      sp_kdist_peer = \<lparr>kd_enc = True, kd_id = True, kd_sign = False, kd_link = False\<rparr>\<rparr>"

definition peer_manager_allow_bonding :: "bool \<Rightarrow> ('w world_scheme, unit) prog" where
  "peer_manager_allow_bonding allow =
     bnd (if allow then svc_rc (Store (Pm_sec_params_set (Some bond_params)))
          else svc_rc (Store (Pm_sec_params_set None))) APP_ERROR_CHECK"

definition pm_evt_handler :: "app_mem \<Rightarrow> pm_evt \<Rightarrow> app_prog" where
  "pm_evt_handler am evt a =
     (case evt of
        PM_EVT_CONN_SEC_CONFIG_REQ conn_handle \<Rightarrow>
          bnd (svc (Store (Pm_conn_sec_config_reply conn_handle False))) (\<lambda>_. ret a)
      | PM_EVT_STORAGE_FULL \<Rightarrow>
          bnd (svc_rc (Store Fds_gc)) (\<lambda>err_code.
          andthen (if err_code = FDS_ERR_BUSY \<or> err_code = FDS_ERR_NO_SPACE_IN_QUEUES then ret ()
                   else APP_ERROR_CHECK err_code) (ret a))
      | PM_EVT_PEERS_DELETE_SUCCEEDED \<Rightarrow> advertising_start am a
      | PM_EVT_LOCAL_DB_CACHE_APPLY_FAILED \<Rightarrow>
          bnd (svc (Store Pm_local_database_has_changed)) (\<lambda>_. ret a)
      | PM_EVT_PEER_DATA_UPDATE_FAILED e \<Rightarrow> andthen (APP_ERROR_CHECK e) (ret a)
      | PM_EVT_PEER_DELETE_FAILED e \<Rightarrow> andthen (APP_ERROR_CHECK e) (ret a)
      | PM_EVT_PEERS_DELETE_FAILED e \<Rightarrow> andthen (APP_ERROR_CHECK e) (ret a)
      | PM_EVT_ERROR_UNEXPECTED e \<Rightarrow> andthen (APP_ERROR_CHECK e) (ret a)
      | PM_EVT_OTHER \<Rightarrow> ret a)"

text \<open>\<^verbatim>\<open>BSP_EVENT_BOND\<close> with the alert service of a phone present: the alert at the phone is toggled.\<close>

definition toggle_peer_alert :: "app \<Rightarrow> (app_world, unit) prog" where
  "toggle_peer_alert a =
     bnd (gets m_is_high_alert_signalled) (\<lambda>high.
     bnd (if \<not> high then ble_ias_c_send_alert_level (m_ias_c a) BLE_CHAR_ALERT_LEVEL_HIGH_ALERT
          else ble_ias_c_send_alert_level (m_ias_c a) BLE_CHAR_ALERT_LEVEL_NO_ALERT) (\<lambda>err_code.
     if err_code = NRF_SUCCESS
     then modify (\<lambda>s. s\<lparr>m_is_high_alert_signalled := \<not> m_is_high_alert_signalled s\<rparr>)
     else if err_code \<noteq> BLE_ERROR_NO_TX_PACKETS \<and> err_code \<noteq> BLE_ERROR_GATTS_SYS_ATTR_MISSING
             \<and> err_code \<noteq> NRF_ERROR_NOT_FOUND
     then app_error_handler err_code else ret ()))"

definition bsp_event_handler :: "app_mem \<Rightarrow> nat \<Rightarrow> app_prog" where
  "bsp_event_handler am event a =
     (if event = BSP_EVENT_BOND
      then bnd (gets m_is_ias_present) (\<lambda>present.
           if present then andthen (toggle_peer_alert a) (ret a)
           else bnd (svc_rc (Store Pm_peers_delete)) (\<lambda>err_code.
                andthen (APP_ERROR_CHECK err_code)
                (andthen (peer_manager_allow_bonding True) (advertising_start am a))))
      else if event = BSP_EVENT_CLEAR_ALERT
      then andthen (bsp_indicate BSP_INDICATE_ALERT_OFF) (ret a)
      else ret a)"

subsection \<open>Events of the stack\<close>

definition app_on_ble_evt :: "ble_evt \<Rightarrow> ('w world_scheme, unit) prog" where
  "app_on_ble_evt evt =
     (case evt of
        BLE_GAP_EVT_DISCONNECTED _ _ \<Rightarrow> bsp_indicate BSP_INDICATE_IDLE
      | BLE_GAP_EVT_CONNECTED conn_handle _ _ \<Rightarrow>
          andthen (bsp_indicate BSP_INDICATE_CONNECTED)
            (bnd (svc_rc (Lib (Ble_db_discovery_start conn_handle))) APP_ERROR_CHECK)
      | BLE_GATTC_EVT_TIMEOUT conn_handle \<Rightarrow>
          bnd (svc_rc (Gap (Sd_ble_gap_disconnect conn_handle BLE_HCI_REMOTE_USER_TERMINATED_CONNECTION))) APP_ERROR_CHECK
      | BLE_GATTS_EVT_TIMEOUT conn_handle \<Rightarrow>
          bnd (svc_rc (Gap (Sd_ble_gap_disconnect conn_handle BLE_HCI_REMOTE_USER_TERMINATED_CONNECTION))) APP_ERROR_CHECK
      | BLE_EVT_USER_MEM_REQUEST conn_handle \<Rightarrow>
          bnd (svc_rc (Gatt (Sd_ble_user_mem_reply conn_handle 90))) APP_ERROR_CHECK
      | BLE_GATTS_EVT_RW_AUTHORIZE_REQUEST conn_handle req \<Rightarrow>
          (if ar_type req \<noteq> 0 \<and> (ar_write_op req = 4 \<or> ar_write_op req = 6 \<or> ar_write_op req = 5)
           then bnd (svc_rc (Gatt (Sd_ble_gatts_rw_authorize_reply conn_handle (if ar_type req = 2 then 2 else 1) 0)))
                  APP_ERROR_CHECK
           else ret ())
      | _ \<Rightarrow> ret ())"

primrec deliver :: "('e \<Rightarrow> app_prog) \<Rightarrow> 'e list \<Rightarrow> app_prog" where
  "deliver f [] a = ret a"
| "deliver f (x # xs) a = bnd (f x a) (deliver f xs)"

definition ble_evt_dispatch :: "app_mem \<Rightarrow> ble_evt \<Rightarrow> app_prog" where
  "ble_evt_dispatch am evt a =
     bnd (ble_conn_state_on_ble_evt evt (m_bcs a)) (\<lambda>bcs. let a = a\<lparr>m_bcs := bcs\<rparr> in
     bnd (svc (Store (Pm_on_ble_evt evt))) (\<lambda>_.
     bnd (deliver (pm_evt_handler am) (am_pm_evts am) a) (\<lambda>a.
     bnd (svc (Lib (Ble_db_discovery_on_ble_evt evt))) (\<lambda>_.
     bnd (deliver db_disc_handler (am_disc_evts am) a) (\<lambda>a.
     bnd (ble_conn_params_on_ble_evt app_cp_callbacks (m_conn_params a) evt) (\<lambda>cp. let a = a\<lparr>m_conn_params := cp\<rparr> in
     bnd (ble_ias_on_ble_evt on_ias_evt (m_ias a) evt) (\<lambda>ias. let a = a\<lparr>m_ias := ias\<rparr> in
     bnd (ble_lls_on_ble_evt on_lls_evt service_error_handler (m_lls a) evt) (\<lambda>lls. let a = a\<lparr>m_lls := lls\<rparr> in
     bnd (ble_bas_on_ble_evt on_bas_evt (Some (m_bas a)) (Some evt)) (\<lambda>bas. let a = a\<lparr>m_bas := the bas\<rparr> in
     bnd (ble_ias_c_on_ble_evt on_ias_c_evt service_error_handler (am_evt0 am) (m_ias_c a) evt) (\<lambda>c. let a = a\<lparr>m_ias_c := c\<rparr> in
     let a = a\<lparr>m_tps := ble_tps_on_ble_evt (m_tps a) evt\<rparr> in
     bnd (svc (Lib (Bsp_btn_ble_on_ble_evt evt))) (\<lambda>_.
     andthen (app_on_ble_evt evt)
     (bnd (ble_advertising_on_ble_evt (app_adv_env am) evt (m_adv a)) (\<lambda>m. let a = a\<lparr>m_adv := m\<rparr> in
     bnd (ble_cryptoservice_on_ble_evt (am_junk am) (am_mem am) (m_crypto_globals a) (m_cryptoservice a) evt) (\<lambda>(g, cfs).
     ret (a\<lparr>m_crypto_globals := g, m_cryptoservice := cfs\<rparr>)))))))))))))))"

definition sys_evt_dispatch :: "app_mem \<Rightarrow> u32 \<Rightarrow> app_prog" where
  "sys_evt_dispatch am sys_evt a =
     bnd (svc (Store (Fs_sys_event_handler sys_evt))) (\<lambda>_.
     bnd (deliver (pm_evt_handler am) (am_pm_evts am) a) (\<lambda>a.
     bnd (ble_advertising_on_sys_evt (app_adv_env am) sys_evt (m_adv a)) (\<lambda>m.
     ret (a\<lparr>m_adv := m\<rparr>))))"

subsection \<open>Initialisation\<close>

definition check_rc :: "('w world_scheme, u32) prog \<Rightarrow> ('w world_scheme, unit) prog" where
  "check_rc f = bnd f APP_ERROR_CHECK"

definition check_init :: "('w world_scheme, u32 \<times> 'c) prog \<Rightarrow> ('w world_scheme, 'c) prog" where
  "check_init f = bnd f (\<lambda>(err_code, c). andthen (APP_ERROR_CHECK err_code) (ret c))"

definition timers_init :: "('w world_scheme, unit) prog" where
  "timers_init =
     andthen (check_rc (svc_rc (Lib (App_timer_init 0 7))))
       (check_rc (svc_rc (Lib (App_timer_create BATTERY_TIMER APP_TIMER_MODE_REPEATED))))"

text \<open>The return codes of the two button assignments are not looked at.\<close>

definition buttons_leds_init :: "('w world_scheme, unit) prog" where
  "buttons_leds_init =
     andthen (check_rc (svc_rc (Lib (Bsp_init 3 (APP_TIMER_TICKS 100)))))
     (bnd (svc (Lib (Bsp_event_to_button_action_assign 0 1 BSP_EVENT_CLEAR_ALERT))) (\<lambda>_.
      bnd (svc (Lib (Bsp_event_to_button_action_assign 0 2 BSP_EVENT_BOND))) (\<lambda>_. ret ())))"

definition ble_stack_init :: "('w world_scheme, unit) prog" where
  "ble_stack_init =
     andthen (check_rc (svc_rc (Soc Softdevice_handler_init)))
    (andthen (check_rc (svc_rc (Soc (Softdevice_enable_get_default_config 0 1))))
    (andthen (check_rc (svc_rc (Soc Softdevice_enable)))
    (andthen (check_rc (svc_rc (Soc Softdevice_ble_evt_handler_set)))
             (check_rc (svc_rc (Soc Softdevice_sys_evt_handler_set))))))"

definition peer_manager_init :: "bool \<Rightarrow> ('w world_scheme, unit) prog" where
  "peer_manager_init erase_bonds =
     andthen (check_rc (svc_rc (Store Pm_init)))
    (andthen (guarded erase_bonds (check_rc (svc_rc (Store Pm_peers_delete))))
             (check_rc (svc_rc (Store Pm_register))))"

definition app_conn_params :: ble_gap_conn_params where
  "app_conn_params = \<lparr>min_conn_interval = of_nat (MSEC_TO_UNITS 45 1250), max_conn_interval = of_nat (MSEC_TO_UNITS 215 1250),
     slave_latency = 8, conn_sup_timeout = of_nat (MSEC_TO_UNITS 6000 10000)\<rparr>"

definition gap_params_init :: "('w world_scheme, unit) prog" where
  "gap_params_init =
     andthen (check_rc (svc_rc (Gap (Sd_ble_gap_device_name_set SEC_MODE_OPEN ''MW-TEST:Nordic_Prox''))))
    (andthen (check_rc (svc_rc (Gap (Sd_ble_gap_appearance_set 576))))
    (andthen (check_rc (svc_rc (Gap (Sd_ble_gap_ppcp_set app_conn_params))))
             (check_rc (svc_rc (Gap (Sd_ble_gap_tx_power_set (-8)))))))"

definition db_discovery_init :: "('w world_scheme, unit) prog" where
  "db_discovery_init = check_rc (svc_rc (Lib Ble_db_discovery_init))"

text \<open>Addresses of the application's callbacks: any that are not null.\<close>

definition APP_HANDLER :: fnptr where "APP_HANDLER = 0x1B001"

definition tps_init :: "app \<Rightarrow> ('w world_scheme, app) prog" where
  "tps_init a = bnd (check_init (ble_tps_init (m_tps a)
     \<lparr>initial_tx_power_level = -8, tps_read_perm = SEC_MODE_OPEN, tps_write_perm = SEC_MODE_NO_ACCESS\<rparr>))
     (\<lambda>x. ret (a\<lparr>m_tps := x\<rparr>))"

definition ias_init :: "app \<Rightarrow> ('w world_scheme, app) prog" where
  "ias_init a = bnd (check_init (ble_ias_init (m_ias a) APP_HANDLER)) (\<lambda>x. ret (a\<lparr>m_ias := x\<rparr>))"

definition lls_init :: "app \<Rightarrow> ('w world_scheme, app) prog" where
  "lls_init a = bnd (check_init (ble_lls_init (m_lls a)
     \<lparr>lls_init_evt_handler = APP_HANDLER, lls_init_error_handler = APP_HANDLER,
      initial_alert_level = BLE_CHAR_ALERT_LEVEL_NO_ALERT,
      lls_read_perm = SEC_MODE_ENC_NO_MITM, lls_write_perm = SEC_MODE_ENC_NO_MITM\<rparr>))
     (\<lambda>x. ret (a\<lparr>m_lls := x\<rparr>))"

definition bas_init :: "bytes \<Rightarrow> app \<Rightarrow> ('w world_scheme, app) prog" where
  "bas_init enc0 a = bnd (check_init (ble_bas_init enc0 (Some (m_bas a))
     (Some \<lparr>bas_init_evt_handler = APP_HANDLER, support_notification = True, p_report_ref = None,
      initial_batt_level = 100, bas_cccd_write_perm = SEC_MODE_OPEN, bas_read_perm = SEC_MODE_OPEN,
      bas_write_perm = SEC_MODE_NO_ACCESS, battery_level_report_read_perm = SEC_MODE_OPEN\<rparr>)))
     (\<lambda>x. ret (a\<lparr>m_bas := the x\<rparr>))"

definition ias_client_init :: app_prog where
  "ias_client_init a =
     andthen (modify (\<lambda>s. s\<lparr>m_is_high_alert_signalled := False\<rparr>))
       (bnd (check_init (ble_ias_c_init (Some (m_ias_c a)) (APP_HANDLER, APP_HANDLER))) (\<lambda>x.
        ret (a\<lparr>m_ias_c := the x\<rparr>)))"

definition cryptofinderservice_init :: "stack_junk \<Rightarrow> app \<Rightarrow> ('w world_scheme, app) prog" where
  "cryptofinderservice_init j a =
     bnd (check_init (ble_cryptoservice_init j (m_crypto_globals a) (m_cryptoservice a))) (\<lambda>(g, cfs).
     ret (a\<lparr>m_crypto_globals := g, m_cryptoservice := cfs\<rparr>))"

definition services_init :: "app_mem \<Rightarrow> app_prog" where
  "services_init am a =
     bnd (tps_init a) (\<lambda>a.
     bnd (ias_init a) (\<lambda>a.
     bnd (lls_init a) (\<lambda>a.
     bnd (bas_init (am_enc0 am) a) (\<lambda>a.
     bnd (ias_client_init a) (\<lambda>a.
     cryptofinderservice_init (am_junk am) a)))))"

definition app_advdata :: "u8 \<Rightarrow> ble_advdata" where
  "app_advdata uuid_ty = zero_advdata\<lparr>name_type := BLE_ADVDATA_NO_NAME, include_appearance := True,
     adv_flags := BLE_GAP_ADV_FLAGS_LE_ONLY_GENERAL_DISC_MODE OR BLE_GAP_ADV_FLAG_BR_EDR_NOT_SUPPORTED,
     uuids_more_available := [\<lparr>uuid = BLE_UUID_IMMEDIATE_ALERT_SERVICE, uuid_type = BLE_UUID_TYPE_BLE\<rparr>,
                              \<lparr>uuid = CRYPTOSERVICE_UUID_SERVICE, uuid_type = uuid_ty\<rparr>]\<rparr>"

text \<open>\<^verbatim>\<open>50 * 1.6\<close> and \<^verbatim>\<open>1285 * 1.6\<close> are 80 and 2056 units of 0.625 ms.\<close>

definition app_adv_options :: ble_adv_modes_config where
  "app_adv_options = \<lparr>ble_adv_whitelist_enabled = False, ble_adv_directed_enabled = False,
     ble_adv_directed_slow_enabled = False, ble_adv_fast_enabled = True, ble_adv_slow_enabled = True,
     ble_adv_directed_slow_interval = 0, ble_adv_directed_slow_timeout = 0, ble_adv_fast_interval = 80,
     ble_adv_fast_timeout = 15, ble_adv_slow_interval = 2056, ble_adv_slow_timeout = 0\<rparr>"

definition advertising_init :: "app_mem \<Rightarrow> app_prog" where
  "advertising_init am a =
     bnd (check_init (ble_advertising_init (app_adv_env am) []
            (Some (app_advdata (cfs_uuid_type (m_cryptoservice a)))) None (Some app_adv_options) APP_HANDLER NULL (m_adv a)))
       (\<lambda>m. ret (a\<lparr>m_adv := m\<rparr>))"

definition conn_params_init :: "app \<Rightarrow> ('w world_scheme, app) prog" where
  "conn_params_init a =
     bnd (check_init (ble_conn_params_init
            \<lparr>p_conn_params = None, first_conn_params_update_delay = of_nat (APP_TIMER_TICKS 5000),
             next_conn_params_update_delay = of_nat (APP_TIMER_TICKS 30000), max_conn_params_update_count = 3,
             start_on_notify_cccd_handle = BLE_GATT_HANDLE_INVALID, disconnect_on_fail = True,
             cp_evt_handler = NULL, cp_error_handler = APP_HANDLER\<rparr> (m_conn_params a)))
       (\<lambda>x. ret (a\<lparr>m_conn_params := x\<rparr>))"

text \<open>
  \<^verbatim>\<open>main\<close> up to its loop. \<^verbatim>\<open>erase_bonds\<close> is never assigned: its value is part of \<open>app_mem\<close>. Errors of the
  flash module are only logged.
\<close>

definition main_init :: "app_mem \<Rightarrow> app_prog" where
  "main_init am a =
     andthen (check_rc (svc_rc (Soc Nrf_log_init)))
    (bnd (svc (Store Fds_register)) (\<lambda>_.
     bnd (svc (Store Fds_init)) (\<lambda>_.
     andthen timers_init
    (andthen buttons_leds_init
    (andthen ble_stack_init
    (andthen adc_configure
    (andthen (peer_manager_init (am_erase_bonds am))
    (andthen gap_params_init
    (andthen db_discovery_init
    (bnd (services_init am a) (\<lambda>a.
     bnd (advertising_init am a) (\<lambda>a.
     bnd (conn_params_init a) (\<lambda>a.
     advertising_start am a)))))))))))))"

text \<open>One turn of the main loop.\<close>

definition main_loop :: "('w world_scheme, unit) prog" where
  "main_loop =
     bnd (svc (Soc Nrf_log_process)) (\<lambda>r.
     if out_u8 r = 0 then check_rc (svc_rc (Soc Sd_app_evt_wait)) else ret ())"

subsection \<open>Runs of the device\<close>

text \<open>What can happen to the device after \<^verbatim>\<open>main\<close> has initialised it.\<close>

datatype stimulus =
    Stim_ble ble_evt
  | Stim_sys u32
  | Stim_button nat
  | Stim_battery_timer
  | Stim_conn_params_timer
  | Stim_adc nrf_drv_adc_evt
  | Stim_pm pm_evt
  | Stim_loop

definition handle :: "app_mem \<Rightarrow> stimulus \<Rightarrow> app_prog" where
  "handle am st a =
     (case st of
        Stim_ble evt \<Rightarrow> ble_evt_dispatch am evt a
      | Stim_sys e \<Rightarrow> sys_evt_dispatch am e a
      | Stim_button b \<Rightarrow> bsp_event_handler am b a
      | Stim_battery_timer \<Rightarrow> andthen battery_level_meas_timeout_handler (ret a)
      | Stim_conn_params_timer \<Rightarrow>
          bnd (update_timeout_handler app_cp_callbacks (m_conn_params a)) (\<lambda>cp. ret (a\<lparr>m_conn_params := cp\<rparr>))
      | Stim_adc e \<Rightarrow> adc_event_handler e a
      | Stim_pm e \<Rightarrow> pm_evt_handler am e a
      | Stim_loop \<Rightarrow> andthen main_loop (ret a))"

inductive app_run :: "app \<Rightarrow> app_world \<Rightarrow> stimulus list \<Rightarrow> app \<Rightarrow> app_world \<Rightarrow> bool" for a0 s0 where
  app_start: "main_init am a0 s0 = (Ret a, s) \<Longrightarrow> app_run a0 s0 [] a s"
| app_event: "app_run a0 s0 sts a s \<Longrightarrow> handle am st a s = (Ret a', s') \<Longrightarrow> app_run a0 s0 (sts @ [st]) a' s'"

subsection \<open>What the modules ask of the outside\<close>

text \<open>A call that does not touch the security parameters of the peer manager.\<close>

definition ordinary :: "call \<Rightarrow> bool" where
  "ordinary c = (case c of Store (Pm_sec_params_set _) \<Rightarrow> False | _ \<Rightarrow> True)"

lemma ordinary_simps [simp]:
  "ordinary (Gatt g)" "ordinary (Gap p)" "ordinary (Soc x)" "ordinary (Lib l)"
  "ordinary (Store Fds_gc)" "ordinary (Store Pm_peers_delete)" "ordinary (Store Fds_register)" "ordinary (Store Fds_init)"
  "ordinary (Store Pm_init)" "ordinary (Store Pm_register)" "ordinary (Store (Pm_on_ble_evt e))"
  "ordinary (Store (Pm_conn_sec_config_reply h b))" "ordinary (Store Pm_local_database_has_changed)"
  "ordinary (Store Fs_queued_op_count_get)" "ordinary (Store (Fs_sys_event_handler w))"
  "ordinary (Store (Fds_record_write f k d))" "ordinary (Store (Fds_record_find f k))"
  "ordinary (Store Fds_record_open)" "ordinary (Store Fds_record_close)"
  by (simp_all add: ordinary_def)

abbreviation plain :: "('w world_scheme, 'a) prog \<Rightarrow> bool" where
  "plain \<equiv> emits ordinary"

lemma emits_gets [emits_intros]: "emits P (gets f)"
  by (rule emitsI [where t = "\<lambda>_. []"]) simp_all

lemma emits_Pair [emits_intros]: "emits P (Pair (Ret x))"
  by (rule emitsI [where t = "\<lambda>_. []"]) simp_all

text \<open>The weaker statement for programs that also change the two flags of the application.\<close>

definition traces :: "(call \<Rightarrow> bool) \<Rightarrow> ('w world_scheme, 'a) prog \<Rightarrow> bool" where
  "traces P f \<longleftrightarrow> (\<forall>s. \<exists>t. sd_trace (snd (f s)) = sd_trace s @ t \<and> (\<forall>c \<in> set t. P c))"

named_theorems traces_intros \<open>what programs that change flags ask of the outside\<close>

lemma tracesD: "traces P f \<Longrightarrow> \<exists>t. sd_trace (snd (f s)) = sd_trace s @ t \<and> (\<forall>c \<in> set t. P c)"
  by (simp add: traces_def)

lemma emits_traces: "emits P f \<Longrightarrow> traces P f"
  unfolding traces_def by (metis emitsD)

lemma traces_mono: "traces P f \<Longrightarrow> (\<And>c. P c \<Longrightarrow> Q c) \<Longrightarrow> traces Q f"
  unfolding traces_def by meson

lemma traces_modify [traces_intros]: "(\<And>s. sd_trace (f s) = sd_trace s) \<Longrightarrow> traces P (modify f)"
  by (simp add: traces_def)

lemma traces_bnd [traces_intros]:
  assumes f: "traces P f" and g: "\<And>x. traces P (g x)"
  shows "traces P (bnd f g)"
  unfolding traces_def
proof
  fix s
  obtain t where t: "sd_trace (snd (f s)) = sd_trace s @ t" "\<forall>c \<in> set t. P c"
    using tracesD [OF f] by blast
  show "\<exists>t. sd_trace (snd (bnd f g s)) = sd_trace s @ t \<and> (\<forall>c \<in> set t. P c)"
  proof (cases "f s")
    case (Pair r s')
    show ?thesis
    proof (cases r)
      case (Ret x)
      obtain u where "sd_trace (snd (g x s')) = sd_trace s' @ u" "\<forall>c \<in> set u. P c"
        using tracesD [OF g] by blast
      with t Pair Ret show ?thesis by (auto simp: bnd_run)
    qed (use t Pair in \<open>simp_all add: bnd_run\<close>)
  qed
qed

lemma traces_andthen [traces_intros]: "traces P f \<Longrightarrow> traces P g \<Longrightarrow> traces P (andthen f g)"
  by (simp add: andthen_def traces_bnd)

lemma emits_case_prod [emits_intros]: "(\<And>x y. emits P (f x y)) \<Longrightarrow> emits P (case z of (x, y) \<Rightarrow> f x y)"
  by (cases z) simp

lemma plain_check [emits_intros]: "plain f \<Longrightarrow> plain (check_rc f)" "plain g \<Longrightarrow> plain (check_init g)"
  unfolding check_rc_def check_init_def by (intro emits_intros; simp)+

lemma plain_bsp_indicate [emits_intros]: "plain (bsp_indicate i)"
  unfolding bsp_indicate_def by (intro emits_intros) simp_all

lemma plain_callbacks [emits_intros]:
  "plain (service_error_handler e)" "plain (conn_params_error_handler e)" "plain (on_adv_evt evt m)"
  "plain (alert_signal lev)" "plain (on_ias_evt i ie)" "plain (on_lls_evt l le)" "plain (on_bas_evt b be)"
  unfolding service_error_handler_def conn_params_error_handler_def on_adv_evt_def alert_signal_def on_ias_evt_def
    on_lls_evt_def on_bas_evt_def
  by (auto intro!: emits_intros simp: alert_signal_def split: ble_adv_evt.splits ble_ias_evt.splits ble_lls_evt.splits ble_bas_evt.splits)

lemma plainly_on_ias_c_evt [traces_intros]: "traces ordinary (on_ias_c_evt c e)"
  unfolding on_ias_c_evt_def
  by (auto intro!: traces_intros emits_traces [OF emits_ret] emits_traces [OF emits_APP_ERROR_CHECK]
      simp: ble_ias_c_handles_assign_def split: ble_ias_c_evt_type.splits)

lemma plain_adv_data_encode [emits_intros]: "plain (adv_data_encode p buf n)"
proof -
  have seq: "plain (ad_seq f g a)" if "\<And>a. plain (f a)" "\<And>a. plain (g a)" for f g :: "'w ad_prog" and a
    using that by (auto simp: ad_seq_def verify_def intro!: emits_intros)
  have loop: "plain (uuid_list_loop us t k n h a :: ('w world_scheme, u32 \<times> bool \<times> adbuf) prog)" for us t k n h a
    by (induction us arbitrary: h a) (auto simp: verify_def Let_def intro!: emits_intros)
  have "plain (adv_data_encode p buf n :: ('w world_scheme, u32 \<times> adbuf) prog)"
    unfolding adv_data_encode_def ad_when_def
    by (intro seq)
       (auto simp: ad_opt_def ble_device_addr_encode_def name_encode_def appearance_encode_def flags_encode_def
          tx_power_level_encode_def uuid_list_encode_def uuid_list_sized_encode_def conn_int_encode_def
          manuf_specific_data_encode_def service_data_encode_def verify_def Let_def
          intro!: emits_intros seq loop split: option.splits prod.splits)
  then show ?thesis .
qed

lemma plain_advdata_set [emits_intros]: "plain (advdata_set env p q)"
  unfolding advdata_set_def ble_advdata_set_def advdata_half_def verify_def
  by (auto intro!: emits_intros split: option.splits)

lemma plain_adv_start [emits_intros]: "plain (ble_advertising_start (app_adv_env am) md m)"
  unfolding ble_advertising_start_def flash_access_in_progress_def adv_ask_peer_def adv_ask_whitelist_def
    adv_setup_mode_def set_adv_mode_fast_def set_adv_mode_slow_def set_adv_whitelist_def adv_notify_def Let_def
    set_adv_mode_directed_def set_adv_mode_directed_slow_def
  by (auto intro!: emits_intros simp: app_adv_env_def split: ble_adv_mode.splits)

lemma plain_adv_evts [emits_intros]:
  "plain (ble_advertising_on_ble_evt (app_adv_env am) evt m)" "plain (ble_advertising_on_sys_evt (app_adv_env am) e m)"
proof -
  have "plain (adv_start_or_report (app_adv_env am) md m)" for md m
    unfolding adv_start_or_report_def by (intro emits_intros) (simp_all add: app_adv_env_def emits_intros)
  then show "plain (ble_advertising_on_ble_evt (app_adv_env am) evt m)" "plain (ble_advertising_on_sys_evt (app_adv_env am) e m)"
    unfolding ble_advertising_on_ble_evt_def ble_advertising_on_sys_evt_def adv_on_disconnected_def adv_on_timeout_def
    by (auto simp: Let_def intro!: emits_intros split: ble_evt.splits)
qed

lemma plain_advertising_start [emits_intros]: "plain (advertising_start am a)"
  unfolding advertising_start_def by (intro emits_intros) simp_all

lemma plain_pm_evt [emits_intros]: "plain (pm_evt_handler am e a)"
  unfolding pm_evt_handler_def by (auto intro!: emits_intros split: pm_evt.splits)

lemma plain_deliver [emits_intros]: "(\<And>x a. plain (f x a)) \<Longrightarrow> plain (deliver f xs a)"
  by (induction xs arbitrary: a) (auto intro!: emits_intros)

lemma plain_conn_state [emits_intros]: "plain (ble_conn_state_on_ble_evt evt m)"
  unfolding ble_conn_state_on_ble_evt_def by (auto simp: Let_def intro!: emits_intros split: ble_evt.splits prod.splits)

lemma plain_conn_params [emits_intros]:
  "plain (ble_conn_params_on_ble_evt app_cp_callbacks m evt)" "plain (update_timeout_handler app_cp_callbacks m)"
proof -
  have cb: "plain (cp_report app_cp_callbacks m e)" "plain (cp_notify app_cp_callbacks m ev)" for m e ev
    by (auto simp: cp_report_def cp_notify_def app_cp_callbacks_def intro!: emits_intros)
  then have neg: "plain (conn_params_negotiation app_cp_callbacks m)" for m
    unfolding conn_params_negotiation_def by (auto simp: Let_def intro!: emits_intros)
  show "plain (ble_conn_params_on_ble_evt app_cp_callbacks m evt)"
    unfolding ble_conn_params_on_ble_evt_def cp_on_connect_def cp_on_disconnect_def cp_on_write_def on_conn_params_update_def
    by (auto simp: Let_def intro!: emits_intros cb neg split: ble_evt.splits)
  show "plain (update_timeout_handler app_cp_callbacks m)"
    unfolding update_timeout_handler_def by (auto simp: Let_def intro!: emits_intros cb)
qed

lemma plain_services [emits_intros]:
  "plain (ble_ias_on_ble_evt on_ias_evt ias evt)" "plain (ble_lls_on_ble_evt on_lls_evt service_error_handler lls evt)"
  "plain (ble_bas_on_ble_evt on_bas_evt bas oevt)"
  unfolding ble_ias_on_ble_evt_def ias_on_write_def ble_lls_on_ble_evt_def lls_on_connect_def lls_on_disconnect_def
    lls_on_auth_status_def ble_lls_alert_level_get_def ble_bas_on_ble_evt_def bas_on_write_def
  by (auto simp: Let_def intro!: emits_intros split: ble_evt.splits option.splits prod.splits)

lemma plainly_ias_c [traces_intros]:
  "traces ordinary (ble_ias_c_on_ble_evt on_ias_c_evt service_error_handler evt0 c evt)"
  "traces ordinary (ble_ias_c_on_db_disc_evt on_ias_c_evt c de)"
  unfolding ble_ias_c_on_ble_evt_def ias_c_on_disconnect_def ble_ias_c_on_db_disc_evt_def Let_def
  by (auto intro!: traces_intros emits_traces [OF emits_ret] emits_traces [OF emits_guarded] emits_intros split: ble_evt.splits)

lemma plain_aes [emits_intros]: "plain (aes_ctr_crypt_message d k i out n)"
proof -
  have "plain (aes_ctr_loop f k d i out n x)" for f d out x
    by (induction f arbitrary: d out x) (auto simp: aes_ctr_crypt_block_def intro!: emits_intros)
  then show ?thesis unfolding aes_ctr_crypt_message_def by (auto simp: Let_def intro!: emits_intros)
qed

lemma plain_crypto [emits_intros]:
  "plain (ble_cryptoservice_on_ble_evt j mem g c evt)"
  unfolding ble_cryptoservice_on_ble_evt_def cfs_on_write_def store_key_def on_setup_challenge_def on_geoloc_def
    ble_cryptoservice_send_setup_response_def ble_cryptoservice_send_iamlost_def
  by (auto simp: Let_def intro!: emits_intros split: ble_evt.splits)

lemma plain_app_on_ble_evt [emits_intros]: "plain (app_on_ble_evt evt)"
  unfolding app_on_ble_evt_def by (auto intro!: emits_intros split: ble_evt.splits)

lemma plain_sys_dispatch [emits_intros]: "plain (sys_evt_dispatch am e a)"
  unfolding sys_evt_dispatch_def by (intro emits_intros) simp_all

lemma plainly_deliver [traces_intros]: "(\<And>x a. traces P (f x a)) \<Longrightarrow> traces P (deliver f xs a)"
  by (induction xs arbitrary: a) (auto intro!: traces_intros emits_traces [OF emits_ret])

lemma plainly_db_disc [traces_intros]: "traces ordinary (db_disc_handler e a)"
  unfolding db_disc_handler_def by (intro traces_intros emits_traces [OF emits_ret])

lemmas plain_traces =
  emits_traces [OF emits_ret] emits_traces [OF emits_svc] emits_traces [OF plain_conn_state]
  emits_traces [OF plain_conn_params(1)] emits_traces [OF plain_services(1)] emits_traces [OF plain_services(2)]
  emits_traces [OF plain_services(3)] emits_traces [OF plain_app_on_ble_evt] emits_traces [OF plain_adv_evts(1)]
  emits_traces [OF plain_crypto] emits_traces [OF plain_pm_evt]

lemma traces_case_prod [traces_intros]: "(\<And>x y. traces P (f x y)) \<Longrightarrow> traces P (case z of (x, y) \<Rightarrow> f x y)"
  by (cases z) simp

lemma plainly_dispatch [traces_intros]: "traces ordinary (ble_evt_dispatch am evt a)"
  unfolding ble_evt_dispatch_def Let_def by (intro traces_intros plain_traces) simp_all

lemma plain_adc [emits_intros]: "plain (adc_event_handler e a)"
  unfolding adc_event_handler_def ble_bas_battery_level_update_def
  by (auto simp: Let_def intro!: emits_intros split: nrf_drv_adc_evt.splits option.splits)

lemma plain_init [emits_intros]:
  "plain timers_init" "plain buttons_leds_init" "plain ble_stack_init" "plain adc_configure"
  "plain (peer_manager_init b)" "plain gap_params_init" "plain db_discovery_init"
  unfolding timers_init_def buttons_leds_init_def ble_stack_init_def adc_configure_def peer_manager_init_def
    gap_params_init_def db_discovery_init_def
  by (auto intro!: emits_intros)

lemma plain_characteristics [emits_intros]:
  "plain (ble_tps_init t ti)" "plain (ble_ias_init i h)" "plain (ble_lls_init l li)" "plain (ble_bas_init e0 b bi)"
  "plain (ble_ias_c_init c ci)"
  unfolding ble_tps_init_def tx_power_level_char_add_def ble_ias_init_def ias_alert_level_char_add_def ble_lls_init_def
    lls_alert_level_char_add_def ble_bas_init_def battery_level_char_add_def ble_ias_c_init_def ble_srv_report_ref_encode_def
  by (auto simp: Let_def intro!: emits_intros split: option.splits)

lemma plain_cryptoservice_init [emits_intros]: "plain (ble_cryptoservice_init j g c)"
  unfolding ble_cryptoservice_init_def load_app_config_def Let_def
  by (intro emits_intros) simp_all

lemma plainly_main_init: "traces ordinary (main_init am a)"
proof -
  have a: "plain (tps_init a)" "plain (ias_init a)" "plain (lls_init a)" "plain (bas_init e0 a)"
      "plain (cryptofinderservice_init j a)" for a e0 j
    unfolding tps_init_def ias_init_def lls_init_def bas_init_def cryptofinderservice_init_def
    by (auto intro!: emits_intros)
  have b: "traces ordinary (ias_client_init a)" for a
    unfolding ias_client_init_def
    by (intro traces_andthen traces_modify) (auto intro!: emits_traces emits_intros)
  have srv: "traces ordinary (services_init am a)" for a
    unfolding services_init_def by (intro traces_bnd b a [THEN emits_traces])
  have adv: "plain (advertising_init am a)" for a
    unfolding advertising_init_def ble_advertising_init_def by (auto simp: Let_def intro!: emits_intros)
  have cp: "plain (conn_params_init a)" for a
    unfolding conn_params_init_def ble_conn_params_init_def by (auto simp: Let_def intro!: emits_intros)
  show ?thesis
    unfolding main_init_def
    by (intro traces_andthen traces_bnd srv) (auto intro!: emits_traces emits_intros adv cp)
qed

text \<open>Every stimulus but the long push of the button.\<close>

lemma plainly_handle: "st \<noteq> Stim_button BSP_EVENT_BOND \<Longrightarrow> traces ordinary (handle am st a)"
  unfolding handle_def bsp_event_handler_def battery_level_meas_timeout_handler_def main_loop_def
  by (auto intro!: plainly_dispatch emits_traces emits_intros split: stimulus.splits)

lemma bond_traces:
  "traces (\<lambda>c. ordinary c \<or> c = Store (Pm_sec_params_set (Some bond_params))) (handle am (Stim_button BSP_EVENT_BOND) a)"
    (is "traces ?P _")
proof -
  have "traces ordinary (toggle_peer_alert a)"
    unfolding toggle_peer_alert_def ble_ias_c_send_alert_level_def write_characteristic_value_def
    by (auto intro!: traces_intros emits_traces [OF emits_ret] emits_traces [OF emits_svc_rc]
        emits_traces [OF emits_app_error_handler] emits_traces [OF emits_gets])
  then have t: "traces ?P (andthen (toggle_peer_alert a) (ret a))"
    by (intro traces_andthen emits_traces [OF emits_ret]) (erule traces_mono, simp)
  have s: "emits ?P (advertising_start am a)"
    by (rule emits_mono [OF plain_advertising_start]) simp
  have "emits ?P (bnd (svc_rc (Store Pm_peers_delete)) (\<lambda>err_code.
      andthen (APP_ERROR_CHECK err_code) (andthen (peer_manager_allow_bonding True) (advertising_start am a))))"
    unfolding peer_manager_allow_bonding_def by (intro emits_intros s) simp_all
  with t show ?thesis
    unfolding handle_def bsp_event_handler_def
    by (auto intro!: traces_bnd emits_traces [OF emits_gets] dest: emits_traces)
qed

subsection \<open>Triples\<close>

text \<open>
  \<open>triple P f Q\<close>: when \<open>f\<close> starts in a world with \<open>P\<close> and returns, its result and the world reached
  satisfy \<open>Q\<close>.
\<close>

definition triple :: "('s \<Rightarrow> bool) \<Rightarrow> ('s, 'a) prog \<Rightarrow> ('a \<Rightarrow> 's \<Rightarrow> bool) \<Rightarrow> bool" where
  "triple P f Q \<longleftrightarrow> (\<forall>s x s'. P s \<longrightarrow> f s = (Ret x, s') \<longrightarrow> Q x s')"

lemma tripleD: "triple P f Q \<Longrightarrow> P s \<Longrightarrow> f s = (Ret x, s') \<Longrightarrow> Q x s'"
  by (simp add: triple_def)

lemma triple_bnd: "triple P f Q \<Longrightarrow> (\<And>x. triple (Q x) (g x) R) \<Longrightarrow> triple P (bnd f g) R"
  by (auto simp: triple_def bnd_run split: prod.splits outcome.splits)

lemma triple_andthen: "triple P f (\<lambda>_. Q) \<Longrightarrow> triple Q g R \<Longrightarrow> triple P (andthen f g) R"
  by (simp add: andthen_def triple_bnd)

lemma triple_ret: "(\<And>s. P s \<Longrightarrow> Q x s) \<Longrightarrow> triple P (ret x) Q"
  by (simp add: triple_def)

text \<open>Properties of the flags survive every program that only makes calls.\<close>

definition flags_of :: "app_world \<Rightarrow> bool \<times> bool" where
  "flags_of s = (m_is_high_alert_signalled s, m_is_ias_present s)"

lemma flags_trace [simp]: "flags_of (s\<lparr>sd_trace := t\<rparr>) = flags_of s"
  by (simp add: flags_of_def)

lemma triple_emits: "emits C f \<Longrightarrow> triple (\<lambda>s. P (flags_of s)) f (\<lambda>_ s. P (flags_of s))"
proof -
  assume "emits C f"
  then have "flags_of (snd (f s)) = flags_of s" for s
    by (rule emits_state [where s = s]) simp
  then show ?thesis
    unfolding triple_def by (metis snd_conv)
qed

lemma triple_step:
  "emits C f \<Longrightarrow> (\<And>x. triple (\<lambda>s. R (flags_of s)) (g x) Q) \<Longrightarrow> triple (\<lambda>s. R (flags_of s)) (bnd f g) Q"
  by (rule triple_bnd [OF triple_emits])

lemma triple_step_andthen:
  "emits C f \<Longrightarrow> triple (\<lambda>s. R (flags_of s)) g Q \<Longrightarrow> triple (\<lambda>s. R (flags_of s)) (andthen f g) Q"
  by (simp add: andthen_def triple_step)

lemma any_svc: "emits (\<lambda>_. True) (svc c)"
  by (rule emits_svc) simp

subsection \<open>The phone's alert service\<close>

text \<open>
  The invariant: when the application believes that the phone has the alert service, the client
  holds a handle to write to.
\<close>

definition ias_known :: "app \<Rightarrow> app_world \<Rightarrow> bool" where
  "ias_known a s \<longleftrightarrow> (m_is_ias_present s \<longrightarrow> ble_ias_c_is_discovered (m_ias_c a))"

definition present_ok :: "ble_ias_c \<Rightarrow> bool \<times> bool \<Rightarrow> bool" where
  "present_ok c fl \<longleftrightarrow> (snd fl \<longrightarrow> ble_ias_c_is_discovered c)"

lemma ias_known_flags: "ias_known a s = present_ok (m_ias_c a) (flags_of s)"
  by (simp add: ias_known_def present_ok_def flags_of_def)

lemma ias_c_discovery_known:
  assumes "ble_ias_c_on_db_disc_evt on_ias_c_evt c e s = (Ret c', s')" and "present_ok c (flags_of s)"
  shows "present_ok c' (flags_of s')"
proof -
  have "\<exists>evt. ble_ias_c_on_db_disc_evt on_ias_c_evt c e s = on_ias_c_evt c evt s
      \<and> (ice_evt_type evt = BLE_IAS_C_EVT_DISCOVERY_COMPLETE \<longrightarrow>
            gc_handle_value (ice_alert_level evt) \<noteq> BLE_GATT_HANDLE_INVALID)
      \<and> ice_evt_type evt \<noteq> BLE_IAS_C_EVT_DISCONN_COMPLETE"
    unfolding ble_ias_c_on_db_disc_evt_def Let_def by (rule exI, rule conjI, rule refl) auto
  then obtain evt where run: "ble_ias_c_on_db_disc_evt on_ias_c_evt c e s = on_ias_c_evt c evt s"
    and compl: "ice_evt_type evt = BLE_IAS_C_EVT_DISCOVERY_COMPLETE \<Longrightarrow>
                  gc_handle_value (ice_alert_level evt) \<noteq> BLE_GATT_HANDLE_INVALID"
    and ty: "ice_evt_type evt \<noteq> BLE_IAS_C_EVT_DISCONN_COMPLETE"
    by blast
  show ?thesis
    using assms run compl ty
    by (cases "ice_evt_type evt")
       (auto simp: on_ias_c_evt_def ble_ias_c_handles_assign_def andthen_run bnd_run present_ok_def flags_of_def
         ble_ias_c_is_discovered_def)
qed

lemma ias_c_evt_known:
  assumes "ble_ias_c_on_ble_evt on_ias_c_evt eh evt0 c evt s = (Ret c', s')" and "present_ok c (flags_of s)"
  shows "present_ok c' (flags_of s')
     \<and> (\<forall>h r. evt = BLE_GAP_EVT_DISCONNECTED h r \<longrightarrow> \<not> m_is_ias_present s')"
  using assms
  by (auto simp: ble_ias_c_on_ble_evt_def ias_c_on_disconnect_def Let_def on_ias_c_evt_def andthen_run bnd_run guarded_run
      present_ok_def flags_of_def ble_ias_c_is_discovered_def split: ble_evt.splits if_splits)

text \<open>Callbacks of the peer manager leave the client and the flags alone.\<close>

lemma pm_evt_client: "triple (\<lambda>_. True) (pm_evt_handler am e a) (\<lambda>a' _. m_ias_c a' = m_ias_c a)"
proof -
  have any: "triple (\<lambda>_. True) f (\<lambda>_ _. True)" for f :: "(app_world, 'b) prog"
    by (simp add: triple_def)
  have start: "triple (\<lambda>_. True) (advertising_start am a) (\<lambda>a' _. m_ias_c a' = m_ias_c a)"
    unfolding advertising_start_def
    by (rule triple_bnd [OF any]) (auto intro!: triple_andthen [OF any] triple_ret split: prod.splits)
  show ?thesis
    by (cases e) (auto simp: pm_evt_handler_def intro!: triple_bnd [OF any] triple_andthen [OF any] triple_ret start)
qed

lemma pm_deliver_client: "triple (\<lambda>_. True) (deliver (pm_evt_handler am) es a) (\<lambda>a' _. m_ias_c a' = m_ias_c a)"
proof (induction es arbitrary: a)
  case (Cons e es)
  have "triple (\<lambda>_. m_ias_c b = m_ias_c a) (deliver (pm_evt_handler am) es b) (\<lambda>a' _. m_ias_c a' = m_ias_c a)" for b
    using Cons.IH [of b] by (simp add: triple_def)
  then show ?case
    unfolding deliver.simps by (rule triple_bnd [OF pm_evt_client])
qed (simp add: triple_def)

lemma triple_pm_deliver:
  "triple (\<lambda>s. present_ok (m_ias_c a) (flags_of s)) (deliver (pm_evt_handler am) es a)
     (\<lambda>a' s. present_ok (m_ias_c a') (flags_of s))"
proof (induction es arbitrary: a)
  case Nil
  then show ?case by (simp add: triple_def)
next
  case (Cons e es)
  have "triple (\<lambda>s. present_ok (m_ias_c a) (flags_of s)) (pm_evt_handler am e a) (\<lambda>a' s. present_ok (m_ias_c a') (flags_of s))"
    using triple_emits [OF plain_pm_evt, of "present_ok (m_ias_c a)" am e a] pm_evt_client [of am e a]
    unfolding triple_def by metis
  then show ?case
    using Cons.IH unfolding deliver.simps by (intro triple_bnd)
qed

lemma triple_disc_deliver:
  "triple (\<lambda>s. present_ok (m_ias_c a) (flags_of s)) (deliver db_disc_handler es a)
     (\<lambda>a' s. present_ok (m_ias_c a') (flags_of s))"
proof (induction es arbitrary: a)
  case Nil
  then show ?case by (simp add: triple_def)
next
  case (Cons e es)
  have "triple (\<lambda>s. present_ok (m_ias_c a) (flags_of s)) (db_disc_handler e a) (\<lambda>a' s. present_ok (m_ias_c a') (flags_of s))"
    unfolding db_disc_handler_def triple_def
    by (auto simp: bnd_run dest: ias_c_discovery_known split: prod.splits outcome.splits)
  then show ?case
    using Cons.IH unfolding deliver.simps by (intro triple_bnd)
qed

text \<open>After the client has seen the event: a disconnection has cleared the flag.\<close>

definition client_ok :: "ble_evt \<Rightarrow> ble_ias_c \<Rightarrow> bool \<times> bool \<Rightarrow> bool" where
  "client_ok evt c fl \<longleftrightarrow> present_ok c fl \<and> (\<forall>h r. evt = BLE_GAP_EVT_DISCONNECTED h r \<longrightarrow> \<not> snd fl)"

lemma triple_ias_c:
  "triple (\<lambda>s. present_ok c (flags_of s)) (ble_ias_c_on_ble_evt on_ias_c_evt service_error_handler e0 c evt)
     (\<lambda>c' s. client_ok evt c' (flags_of s))"
  unfolding triple_def client_ok_def
  by (intro allI impI conjI) (auto simp: flags_of_def dest: ias_c_evt_known)

lemma dispatch_tail:
  assumes "m_ias_c b = c"
  shows "triple (\<lambda>s. client_ok evt c (flags_of s))
    (bnd (svc (Lib (Bsp_btn_ble_on_ble_evt evt))) (\<lambda>_.
     andthen (app_on_ble_evt evt)
     (bnd (ble_advertising_on_ble_evt (app_adv_env am) evt (m_adv b)) (\<lambda>m.
      bnd (ble_cryptoservice_on_ble_evt (am_junk am) (am_mem am) (m_crypto_globals (b\<lparr>m_adv := m\<rparr>))
             (m_cryptoservice (b\<lparr>m_adv := m\<rparr>)) evt) (\<lambda>(g, cfs).
      ret (b\<lparr>m_adv := m\<rparr>\<lparr>m_crypto_globals := g, m_cryptoservice := cfs\<rparr>))))))
    (\<lambda>a' s. client_ok evt (m_ias_c a') (flags_of s))"
  using assms
  by (intro triple_step [OF any_svc] triple_step_andthen [OF plain_app_on_ble_evt] triple_step [OF plain_adv_evts(1)]
      triple_step [OF plain_crypto]) (auto simp: triple_def)

lemma dispatch_known:
  "triple (\<lambda>s. present_ok (m_ias_c a) (flags_of s)) (ble_evt_dispatch am evt a)
     (\<lambda>a' s. client_ok evt (m_ias_c a') (flags_of s))"
proof -
  have middle: "triple (\<lambda>s. present_ok (m_ias_c b) (flags_of s))
     (bnd (ble_conn_params_on_ble_evt app_cp_callbacks (m_conn_params b) evt) (\<lambda>cp. let a = b\<lparr>m_conn_params := cp\<rparr> in
      bnd (ble_ias_on_ble_evt on_ias_evt (m_ias a) evt) (\<lambda>ias. let a = a\<lparr>m_ias := ias\<rparr> in
      bnd (ble_lls_on_ble_evt on_lls_evt service_error_handler (m_lls a) evt) (\<lambda>lls. let a = a\<lparr>m_lls := lls\<rparr> in
      bnd (ble_bas_on_ble_evt on_bas_evt (Some (m_bas a)) (Some evt)) (\<lambda>bas. let a = a\<lparr>m_bas := the bas\<rparr> in
      bnd (ble_ias_c_on_ble_evt on_ias_c_evt service_error_handler (am_evt0 am) (m_ias_c a) evt) (f a))))))
     (\<lambda>a' s. client_ok evt (m_ias_c a') (flags_of s))"
    if f: "\<And>a c. triple (\<lambda>s. client_ok evt c (flags_of s)) (f a c) (\<lambda>a' s. client_ok evt (m_ias_c a') (flags_of s))"
    for b f
    unfolding Let_def
    by (intro triple_step [OF plain_conn_params(1)] triple_step [OF plain_services(1)] triple_step [OF plain_services(2)]
        triple_step [OF plain_services(3)]) (simp, rule triple_bnd [OF triple_ias_c f])
  have pm: "triple (\<lambda>s. present_ok c (flags_of s)) (deliver (pm_evt_handler am) es b)
      (\<lambda>a' s. present_ok (m_ias_c a') (flags_of s))" if "m_ias_c b = c" for b c es
    using triple_pm_deliver [of b am es] that by simp
  show ?thesis
    unfolding ble_evt_dispatch_def
  proof (rule triple_step [OF plain_conn_state], subst Let_def, rule triple_step [OF any_svc],
      rule triple_bnd [OF pm], simp, rule triple_step [OF any_svc], rule triple_bnd [OF triple_disc_deliver], rule middle)
    fix b c
    show "triple (\<lambda>s. client_ok evt c (flags_of s))
       (let a = b\<lparr>m_ias_c := c\<rparr>; a = a\<lparr>m_tps := ble_tps_on_ble_evt (m_tps a) evt\<rparr>
        in bnd (svc (Lib (Bsp_btn_ble_on_ble_evt evt))) (\<lambda>_.
           andthen (app_on_ble_evt evt)
           (bnd (ble_advertising_on_ble_evt (app_adv_env am) evt (m_adv a)) (\<lambda>m. let a = a\<lparr>m_adv := m\<rparr> in
            bnd (ble_cryptoservice_on_ble_evt (am_junk am) (am_mem am) (m_crypto_globals a) (m_cryptoservice a) evt) (\<lambda>(g, cfs).
            ret (a\<lparr>m_crypto_globals := g, m_cryptoservice := cfs\<rparr>))))))
       (\<lambda>a' s. client_ok evt (m_ias_c a') (flags_of s))"
      unfolding Let_def by (rule dispatch_tail) simp
  qed
qed

text \<open>Stimuli other than stack events leave the client and its flag alone.\<close>

lemma advertising_start_client: "triple (\<lambda>_. True) (advertising_start am a) (\<lambda>a' _. m_ias_c a' = m_ias_c a)"
  using pm_evt_client [of am PM_EVT_PEERS_DELETE_SUCCEEDED a] by (simp add: pm_evt_handler_def)

lemma triple_same_client:
  assumes "triple (\<lambda>s. present_ok (m_ias_c a) (flags_of s)) f (\<lambda>_ s. present_ok (m_ias_c a) (flags_of s))"
    and "triple (\<lambda>_. True) f (\<lambda>a' _. m_ias_c a' = m_ias_c a)"
  shows "triple (\<lambda>s. present_ok (m_ias_c a) (flags_of s)) f (\<lambda>a' s. present_ok (m_ias_c a') (flags_of s))"
  using assms unfolding triple_def by metis

lemma toggle_known:
  "triple (\<lambda>s. present_ok c (flags_of s)) (toggle_peer_alert a) (\<lambda>_ s. present_ok c (flags_of s))"
proof -
  have "triple (\<lambda>s. present_ok c (flags_of s)) (modify (\<lambda>s. s\<lparr>m_is_high_alert_signalled := \<not> m_is_high_alert_signalled s\<rparr>))
      (\<lambda>_ s. present_ok c (flags_of s))"
    by (simp add: triple_def present_ok_def flags_of_def)
  moreover have "plain (ble_ias_c_send_alert_level x l)" for x l
    unfolding ble_ias_c_send_alert_level_def write_characteristic_value_def by (auto intro!: emits_intros)
  ultimately show ?thesis
    unfolding toggle_peer_alert_def
    by (intro triple_step [OF emits_gets [where P = ordinary]] triple_step [where C = ordinary])
       (auto intro!: triple_emits [where C = ordinary] emits_intros)
qed

lemma handle_known:
  "triple (\<lambda>s. present_ok (m_ias_c a) (flags_of s)) (handle am st a) (\<lambda>a' s. present_ok (m_ias_c a') (flags_of s))"
proof -
  let ?P = "\<lambda>s. present_ok (m_ias_c a) (flags_of s)"
  have any: "triple (\<lambda>_. True) f (\<lambda>_ _. True)" for f :: "(app_world, 'b) prog"
    by (simp add: triple_def)
  note unchanged = triple_same_client [OF triple_emits]
  consider (ble) evt where "st = Stim_ble evt" | (bond) "st = Stim_button BSP_EVENT_BOND"
    | (other) "\<forall>evt. st \<noteq> Stim_ble evt" "st \<noteq> Stim_button BSP_EVENT_BOND"
    by blast
  then show ?thesis
  proof cases
    case (ble evt)
    then show ?thesis
      using dispatch_known [of a am evt] by (auto simp: handle_def triple_def client_ok_def)
  next
    case bond
    have toggle: "triple ?P (andthen (toggle_peer_alert a) (ret a)) (\<lambda>a' s. present_ok (m_ias_c a') (flags_of s))"
      by (rule triple_andthen [OF toggle_known]) (simp add: triple_def)
    let ?bond = "bnd (svc_rc (Store Pm_peers_delete)) (\<lambda>err_code.
        andthen (APP_ERROR_CHECK err_code) (andthen (peer_manager_allow_bonding True) (advertising_start am a)))"
    have "emits (\<lambda>_. True) ?bond"
      unfolding peer_manager_allow_bonding_def
      by (intro emits_intros emits_mono [OF plain_advertising_start]) simp_all
    moreover have "triple (\<lambda>_. True) ?bond (\<lambda>a' _. m_ias_c a' = m_ias_c a)"
      by (intro triple_bnd [OF any] triple_andthen [OF any] advertising_start_client)
    ultimately have "triple ?P ?bond (\<lambda>a' s. present_ok (m_ias_c a') (flags_of s))"
      by (rule unchanged)
    with toggle have "triple ?P (if b then andthen (toggle_peer_alert a) (ret a) else ?bond)
        (\<lambda>a' s. present_ok (m_ias_c a') (flags_of s))" for b
      by (cases b) (simp_all only: if_True if_False)
    then have "triple ?P (bnd (gets m_is_ias_present) (\<lambda>b. if b then andthen (toggle_peer_alert a) (ret a) else ?bond))
        (\<lambda>a' s. present_ok (m_ias_c a') (flags_of s))"
      by (rule triple_step [OF emits_gets [where P = ordinary]])
    with bond show ?thesis
      by (simp only: handle_def bsp_event_handler_def stimulus.case if_True refl)
  next
    case other
    have "emits ordinary (handle am st a)"
      using other unfolding handle_def bsp_event_handler_def battery_level_meas_timeout_handler_def main_loop_def
      by (auto intro!: emits_intros split: stimulus.splits)
    moreover have "triple (\<lambda>_. True) (handle am st a) (\<lambda>a' _. m_ias_c a' = m_ias_c a)"
    proof -
      have "triple (\<lambda>_. True) (adc_event_handler e a) (\<lambda>a' _. m_ias_c a' = m_ias_c a)" for e
        unfolding adc_event_handler_def
        by (cases e) (auto intro!: triple_bnd [OF any] triple_andthen [OF any] triple_ret)
      moreover have "triple (\<lambda>_. True) (sys_evt_dispatch am e a) (\<lambda>a' _. m_ias_c a' = m_ias_c a)" for e
        unfolding sys_evt_dispatch_def
        by (rule triple_bnd [OF any], rule triple_bnd [OF pm_deliver_client])
           (auto simp: triple_def bnd_run split: prod.splits outcome.splits)
      ultimately show ?thesis
        using other pm_evt_client [of am _ a]
        unfolding handle_def bsp_event_handler_def
        by (auto intro!: triple_bnd [OF any] triple_andthen [OF any] triple_ret split: stimulus.splits)
    qed
    ultimately show ?thesis by (rule unchanged)
  qed
qed

lemma main_init_absent:
  "triple (\<lambda>s. \<not> snd (flags_of s)) (main_init am a) (\<lambda>_ s. \<not> snd (flags_of s))"
proof -
  let ?N = "\<lambda>s. \<not> snd (flags_of s)"
  have a: "plain (tps_init a)" "plain (ias_init a)" "plain (lls_init a)" "plain (bas_init e0 a)"
      "plain (cryptofinderservice_init j a)" for a e0 j
    unfolding tps_init_def ias_init_def lls_init_def bas_init_def cryptofinderservice_init_def
    by (auto intro!: emits_intros)
  have m: "triple ?N (modify (\<lambda>s. s\<lparr>m_is_high_alert_signalled := False\<rparr>)) (\<lambda>_. ?N)"
    by (simp add: triple_def flags_of_def)
  have "plain (bnd (check_init (ble_ias_c_init c h)) (\<lambda>x. ret (f x)))" for c h and f :: "_ \<Rightarrow> app"
    by (auto intro!: emits_intros)
  then have b: "triple ?N (ias_client_init a) (\<lambda>_. ?N)" for a
    unfolding ias_client_init_def by (intro triple_andthen [OF m] triple_emits)
  have srv: "triple ?N (services_init am a) (\<lambda>_. ?N)" for a
    unfolding services_init_def
    by (intro triple_step [OF a(1)] triple_step [OF a(2)] triple_step [OF a(3)] triple_step [OF a(4)]
        triple_bnd [OF b] triple_emits [OF a(5)])
  have adv: "plain (advertising_init am a)" for a
    unfolding advertising_init_def ble_advertising_init_def by (auto simp: Let_def intro!: emits_intros)
  have cp: "plain (conn_params_init a)" for a
    unfolding conn_params_init_def ble_conn_params_init_def by (auto simp: Let_def intro!: emits_intros)
  have log: "plain (check_rc (svc_rc (Soc Nrf_log_init)))"
    by (intro emits_intros) simp
  show ?thesis
    unfolding main_init_def
    by (intro triple_step_andthen [OF log] triple_step [OF any_svc] triple_step_andthen [OF plain_init(1)]
        triple_step_andthen [OF plain_init(2)] triple_step_andthen [OF plain_init(3)] triple_step_andthen [OF plain_init(4)]
        triple_step_andthen [OF plain_init(5)] triple_step_andthen [OF plain_init(6)] triple_step_andthen [OF plain_init(7)]
        triple_bnd [OF srv] triple_step [OF adv] triple_step [OF cp] triple_emits [OF plain_advertising_start])
qed

lemma app_run_known:
  assumes "app_run a0 s0 sts a s" and "\<not> m_is_ias_present s0"
  shows "ias_known a s"
  using assms(1)
proof induction
  case (app_start am a s)
  then have "\<not> snd (flags_of s)"
    using tripleD [OF main_init_absent, of s0 am a0 a s] assms(2) by (simp add: flags_of_def)
  then show ?case by (simp add: ias_known_flags present_ok_def)
next
  case (app_event sts a s am st a' s')
  then show ?case
    using tripleD [OF handle_known, of a s am st a' s'] by (simp add: ias_known_flags)
qed

end
