(* ===== verification/DeviceRuns.thy ===== *)
theory DeviceRuns
  imports ProximityApp
begin

text \<open>
  What the device as a whole does: it starts, and in every run from power-on through any sequence
  of events it keeps the properties below. The first part shows that \<^verbatim>\<open>main\<close> reaches its loop when
  the stack grants its calls; the second has the properties of runs.
\<close>

subsection \<open>A device for examples\<close>

definition demo_app_mem :: app_mem where
  "demo_app_mem = \<lparr>am_junk = demo_junk, am_mem = demo_mem, am_adv = (\<lambda>_. (replicate 31 0, replicate 31 0)),
     am_evt0 = demo_ias_c_evt, am_enc0 = [], am_erase_bonds = False, am_pm_evts = [], am_disc_evts = []\<rparr>"

definition demo_app :: app where
  "demo_app = \<lparr>m_bcs = reset_bcs, m_conn_params = demo_cp 3,
     m_ias = \<lparr>ias_evt_handler = 1, ias_service_handle = 0, ias_alert_level_handles = demo_handles 11, ias_conn_handle = 0\<rparr>,
     m_lls = \<lparr>lls_evt_handler = 1, lls_error_handler = 1, lls_service_handle = 0, lls_alert_level_handles = demo_handles 14,
       lls_conn_handle = 0\<rparr>,
     m_bas = demo_bas, m_ias_c = demo_ias_c,
     m_tps = \<lparr>tps_service_handle = 0, tx_power_level_handles = demo_handles 17, tps_conn_handle = 0\<rparr>,
     m_adv = demo_adv, m_cryptoservice = demo_cfs, m_crypto_globals = demo_globals\<rparr>"

text \<open>UUIDs of the Bluetooth SIG have two bytes, those of a vendor sixteen.\<close>

definition phone_info :: stack_info where
  "phone_info = \<lparr>dev_name = [0x50, 0x46], dev_appearance = 576, dev_addr = replicate 6 0xC0, dev_addr_type = 1,
     uuid_enc = (\<lambda>u. if uuid_type u = BLE_UUID_TYPE_BLE then uint16_bytes (uuid u)
                      else replicate 12 0xAB @ uint16_bytes (uuid u) @ [0, 0])\<rparr>"

definition demo_device :: app_world where
  "demo_device = \<lparr>sd_env = (\<lambda>h c. case c of
       Gap Sd_ble_gap_address_get \<Rightarrow> null_reply\<lparr>out_bytes := dev_addr phone_info, out_u8 := dev_addr_type phone_info\<rparr>
     | Gap Sd_ble_gap_appearance_get \<Rightarrow> null_reply\<lparr>out_u16 := dev_appearance phone_info\<rparr>
     | Gap (Sd_ble_gap_device_name_get n) \<Rightarrow>
         null_reply\<lparr>out_bytes := take (unat n) (dev_name phone_info), out_u16 := of_nat (length (dev_name phone_info))\<rparr>
     | Gap (Sd_ble_uuid_encode u b) \<Rightarrow>
         null_reply\<lparr>out_bytes := (if b then uuid_enc phone_info u else []), out_u8 := of_nat (length (uuid_enc phone_info u))\<rparr>
     | Gatt (Sd_ble_uuid_vs_add _) \<Rightarrow> null_reply\<lparr>out_u8 := 2\<rparr>
     | _ \<Rightarrow> null_reply), sd_trace = [], m_is_high_alert_signalled = False, m_is_ias_present = False\<rparr>"


text \<open>
  What the device advertises: its appearance, the flags, the alert service among the 16 bit UUIDs
  and the finder service among the 128 bit UUIDs.
\<close>

definition finder_ads :: "stack_info \<Rightarrow> u8 \<Rightarrow> ad list" where
  "finder_ads I t = [AD 0x19 (uint16_bytes (dev_appearance I)), AD 0x01 [6],
     AD 0x02 (uuid_enc I \<lparr>uuid = BLE_UUID_IMMEDIATE_ALERT_SERVICE, uuid_type = BLE_UUID_TYPE_BLE\<rparr>),
     AD 0x06 (uuid_enc I \<lparr>uuid = CRYPTOSERVICE_UUID_SERVICE, uuid_type = t\<rparr>)]"

definition uuid_sizes :: "stack_info \<Rightarrow> bool" where
  "uuid_sizes I \<longleftrightarrow> (\<forall>u. length (uuid_enc I u) = (if uuid_type u = BLE_UUID_TYPE_BLE then 2 else 16))"

definition app_adv_params :: ble_gap_adv_params where
  "app_adv_params = default_adv_params\<lparr>adv_interval := 80, adv_timeout := 15\<rparr>"

text \<open>
  What is asked to advertise: the flash module's queue length and, when that is zero, the advertising
  and the LED. When it is not zero the start is remembered: \<open>awaits_flash\<close> says that every later end of
  a flash operation, with the calls granted and no event of the peer manager for it, asks the same
  again: it leaves the application as it is if the flash is still busy and enters fast advertising else.
\<close>

definition adv_begin :: "ble_gap_adv_params \<Rightarrow> 'w world_scheme \<Rightarrow> call list" where
  "adv_begin p s = Store Fs_queued_op_count_get
     # (if flash_idle s then [Gap (Sd_ble_gap_adv_start p), Lib (Bsp_indication_set BSP_INDICATE_ADVERTISING)] else [])"

definition adv_entered :: "bool \<Rightarrow> ble_adv_mode \<Rightarrow> adv \<Rightarrow> adv" where
  "adv_entered idle md m =
     (if idle then in_mode BLE_ADV_MODE_FAST m else m\<lparr>m_adv_mode_current := md, m_advertising_start_pending := True\<rparr>)"

definition grants :: "(call list \<Rightarrow> call \<Rightarrow> reply) \<Rightarrow> bool" where
  "grants e \<longleftrightarrow> (\<forall>h c. rc (e h c) = NRF_SUCCESS)"

definition awaits_flash :: "ble_gap_adv_params \<Rightarrow> app \<Rightarrow> bool" where
  "awaits_flash p a \<longleftrightarrow> (\<forall>am e (t :: app_world).
     (e = NRF_EVT_FLASH_OPERATION_SUCCESS \<or> e = NRF_EVT_FLASH_OPERATION_ERROR) \<and> am_pm_evts am = [] \<and> grants (sd_env t) \<longrightarrow>
     (let t' = t\<lparr>sd_trace := sd_trace t @ [Store (Fs_sys_event_handler e)]\<rparr>
      in \<exists>a'. handle am (Stim_sys e) a t = (Ret a', t'\<lparr>sd_trace := sd_trace t' @ adv_begin p t'\<rparr>)
           \<and> (if flash_idle t' then m_adv_mode_current (m_adv a') = BLE_ADV_MODE_FAST \<and> \<not> m_advertising_start_pending (m_adv a')
               else a' = a)))"

subsection \<open>Programs that succeed when the stack grants every call\<close>

text \<open>
  \<open>succeeds e f Q\<close>: run where the outside answers with \<open>e\<close>, the program returns, its value satisfies
  \<open>Q\<close>, and the outside is still \<open>e\<close>.
\<close>

definition succeeds ::
  "(call list \<Rightarrow> call \<Rightarrow> reply) \<Rightarrow> ('w world_scheme, 'a) prog \<Rightarrow> ('a \<Rightarrow> bool) \<Rightarrow> bool" where
  "succeeds e f Q \<longleftrightarrow> (\<forall>s. sd_env s = e \<longrightarrow> (\<exists>x s'. f s = (Ret x, s') \<and> sd_env s' = e \<and> Q x))"

lemma succeedsD:
  "succeeds (sd_env s) f Q \<Longrightarrow> \<exists>x s'. f s = (Ret x, s') \<and> sd_env s' = sd_env s \<and> Q x"
  by (simp add: succeeds_def)

lemma succeeds_ret: "Q x \<Longrightarrow> succeeds e (ret x) Q"
  by (simp add: succeeds_def)

lemma succeeds_bnd:
  assumes "succeeds e f R" and "\<And>x. R x \<Longrightarrow> succeeds e (g x) Q"
  shows "succeeds e (bnd f g) Q"
  using assms unfolding succeeds_def bnd_run by fastforce

lemma succeeds_andthen: "succeeds e f (\<lambda>_. True) \<Longrightarrow> succeeds e g Q \<Longrightarrow> succeeds e (andthen f g) Q"
  unfolding andthen_def by (rule succeeds_bnd)

lemma succeeds_svc: "grants e \<Longrightarrow> succeeds e (svc c) (\<lambda>r. rc r = NRF_SUCCESS \<and> (\<exists>h. r = e h c))"
  by (auto simp: succeeds_def grants_def)

lemma succeeds_svc_rc: "grants e \<Longrightarrow> succeeds e (svc_rc c) (\<lambda>r. r = NRF_SUCCESS)"
  by (simp add: succeeds_def grants_def)

lemma succeeds_modify: "(\<And>s. sd_env (f s) = sd_env s) \<Longrightarrow> succeeds e (modify f) (\<lambda>_. True)"
  by (simp add: succeeds_def)

lemma succeeds_weaken: "succeeds e f R \<Longrightarrow> (\<And>x. R x \<Longrightarrow> Q x) \<Longrightarrow> succeeds e f Q"
  unfolding succeeds_def by blast

lemma succeeds_check_rc: "grants e \<Longrightarrow> succeeds e (check_rc (svc_rc c)) (\<lambda>_. True)"
  unfolding check_rc_def
  by (rule succeeds_bnd [OF succeeds_svc_rc]) (simp_all add: succeeds_ret)

lemma succeeds_check_init:
  "succeeds e f (\<lambda>x. fst x = NRF_SUCCESS \<and> Q (snd x)) \<Longrightarrow> succeeds e (check_init f) Q"
  unfolding check_init_def
  by (erule succeeds_bnd) (auto intro!: succeeds_andthen succeeds_ret)

lemma succeeds_verify: "err = NRF_SUCCESS \<Longrightarrow> succeeds e k Q \<Longrightarrow> succeeds e (verify err c k) Q"
  by (simp add: verify_def)

lemma succeeds_if_err: "err = NRF_SUCCESS \<Longrightarrow> succeeds e k Q \<Longrightarrow> succeeds e (if err \<noteq> NRF_SUCCESS then f else k) Q"
  by simp

lemma succeeds_guarded: "(b \<Longrightarrow> succeeds e f (\<lambda>_. True)) \<Longrightarrow> succeeds e (guarded b f) (\<lambda>_. True)"
  by (simp add: guarded_def succeeds_ret)

lemma succeeds_skip: "grants e \<Longrightarrow> succeeds e g Q \<Longrightarrow> succeeds e (bnd (svc c) (\<lambda>_. g)) Q"
  by (rule succeeds_bnd [OF succeeds_svc])

lemmas succeeds_intros = succeeds_andthen succeeds_skip succeeds_check_rc succeeds_guarded succeeds_verify
  succeeds_if_err

subsection \<open>The start-up\<close>

lemma succeeds_board:
  assumes "grants e"
  shows "succeeds e timers_init (\<lambda>_. True)" "succeeds e buttons_leds_init (\<lambda>_. True)"
    "succeeds e ble_stack_init (\<lambda>_. True)" "succeeds e adc_configure (\<lambda>_. True)"
    "succeeds e (peer_manager_init b) (\<lambda>_. True)" "succeeds e gap_params_init (\<lambda>_. True)"
    "succeeds e db_discovery_init (\<lambda>_. True)"
proof -
  have adc: "adc_configure = (andthen (check_rc (svc_rc (Soc Nrf_drv_adc_init)))
      (bnd (svc (Soc Nrf_drv_adc_channel_enable)) (\<lambda>_. check_rc (svc_rc (Soc (Nrf_drv_adc_buffer_convert 1))))) :: ('w world_scheme, unit) prog)"
    by (simp add: adc_configure_def check_rc_def andthen_def bnd_assoc)
  show "succeeds e adc_configure (\<lambda>_. True)"
    unfolding adc using assms by (intro succeeds_intros)
qed (use assms in \<open>auto simp: timers_init_def buttons_leds_init_def ble_stack_init_def peer_manager_init_def
      gap_params_init_def db_discovery_init_def intro!: succeeds_intros succeeds_ret\<close>)

lemma succeeds_char_add:
  assumes "grants e" and "\<And>h. Q (f (e h c))"
  shows "succeeds e (bnd (svc c) (\<lambda>r. ret (rc r, f r))) (\<lambda>x. fst x = NRF_SUCCESS \<and> Q (snd x))"
  by (rule succeeds_bnd [OF succeeds_svc [OF assms(1)]]) (auto intro!: succeeds_ret assms(2))

lemma succeeds_load_key: "grants e \<Longrightarrow> succeeds e (load_key i k n) (\<lambda>_. True)"
  unfolding load_key_def Let_def
  by (rule succeeds_bnd [OF succeeds_svc_rc], assumption)
     (auto intro!: succeeds_bnd [OF succeeds_svc] succeeds_bnd [OF succeeds_svc_rc] succeeds_ret)

lemma succeeds_load_app_config: "grants e \<Longrightarrow> succeeds e (load_app_config g) (\<lambda>_. True)"
  unfolding load_app_config_def
  by (rule succeeds_bnd [OF succeeds_load_key], assumption)
     (auto intro!: succeeds_bnd [OF succeeds_load_key] succeeds_ret)

lemma succeeds_let: "(\<And>x. x = t \<Longrightarrow> succeeds e (f x) Q) \<Longrightarrow> succeeds e (let x = t in f x) Q"
  by simp

lemma succeeds_register:
  "grants e \<Longrightarrow> succeeds e (register_characteristic h t u fl n) (\<lambda>r. rc r = NRF_SUCCESS)"
  unfolding register_characteristic_def Let_def by (rule succeeds_weaken [OF succeeds_svc]) simp_all

lemma succeeds_cryptofinder:
  assumes "grants e" and "\<And>h b. out_u8 (e h (Gatt (Sd_ble_uuid_vs_add b))) \<noteq> BLE_UUID_TYPE_BLE"
  shows "succeeds e (cryptofinderservice_init j a) (\<lambda>a. cfs_uuid_type (m_cryptoservice a) \<noteq> BLE_UUID_TYPE_BLE)"
proof -
  have "succeeds e (ble_cryptoservice_init j g c)
     (\<lambda>x. fst x = NRF_SUCCESS \<and> cfs_uuid_type (snd (snd x)) \<noteq> BLE_UUID_TYPE_BLE)" for g c
    unfolding ble_cryptoservice_init_def
    apply (rule succeeds_bnd [OF succeeds_load_app_config [OF assms(1)]])
    apply (rule succeeds_let, rule succeeds_bnd [OF succeeds_svc [OF assms(1)]])
    apply (rule succeeds_let, rule succeeds_verify, simp, rule succeeds_bnd [OF succeeds_svc [OF assms(1)]])
    apply (rule succeeds_let, rule succeeds_verify, simp, rule succeeds_bnd [OF succeeds_register [OF assms(1)]])+
    apply (rule succeeds_let, rule succeeds_verify, simp, rule succeeds_bnd [OF succeeds_load_key [OF assms(1)]])
    apply (auto intro!: succeeds_bnd [OF succeeds_svc_rc [OF assms(1)]] succeeds_verify succeeds_ret simp: assms)
    done
  then show ?thesis
    unfolding cryptofinderservice_init_def
    by (intro succeeds_bnd [OF succeeds_check_init [where Q = "\<lambda>x. cfs_uuid_type (snd x) \<noteq> BLE_UUID_TYPE_BLE"]])
       (auto intro!: succeeds_ret)
qed

text \<open>A service's initialisation: the service, then one characteristic.\<close>

lemma succeeds_service:
  assumes "grants e" and "\<And>r. succeeds e (k r) (\<lambda>x. fst x = NRF_SUCCESS)"
  shows "succeeds e (bnd (svc c) (\<lambda>r. let p = f r in if rc r \<noteq> NRF_SUCCESS then ret (rc r, p) else k p)) (\<lambda>x. fst x = NRF_SUCCESS \<and> True)"
  unfolding Let_def
  by (rule succeeds_bnd [OF succeeds_svc [OF assms(1)]]) (auto intro: assms(2))

lemma succeeds_services:
  assumes "grants e" and "\<And>h b. out_u8 (e h (Gatt (Sd_ble_uuid_vs_add b))) \<noteq> BLE_UUID_TYPE_BLE"
  shows "succeeds e (services_init am a) (\<lambda>a. cfs_uuid_type (m_cryptoservice a) \<noteq> BLE_UUID_TYPE_BLE)"
proof -
  note run = succeeds_bnd [OF succeeds_svc [OF assms(1)]]
  have tps: "succeeds e (ble_tps_init c i) (\<lambda>x. fst x = NRF_SUCCESS \<and> True)" for c i
    unfolding ble_tps_init_def tx_power_level_char_add_def Let_def
    by (auto intro!: run succeeds_ret)
  have ias: "succeeds e (ble_ias_init c APP_HANDLER) (\<lambda>x. fst x = NRF_SUCCESS \<and> True)" for c
    unfolding ble_ias_init_def ias_alert_level_char_add_def Let_def
    by (auto intro!: run succeeds_ret simp: APP_HANDLER_def)
  have lls: "succeeds e (ble_lls_init c i) (\<lambda>x. fst x = NRF_SUCCESS \<and> True)"
    if "lls_init_evt_handler i \<noteq> NULL" for c i
    using that unfolding ble_lls_init_def lls_alert_level_char_add_def Let_def
    by (auto intro!: run succeeds_ret)
  have bas: "succeeds e (ble_bas_init b (Some c) (Some i)) (\<lambda>x. fst x = NRF_SUCCESS \<and> True)"
    if "p_report_ref i = None" for b c i
    using that unfolding ble_bas_init_def battery_level_char_add_def Let_def
    by (auto intro!: run succeeds_bnd [where R = "\<lambda>x. fst x = NRF_SUCCESS"] succeeds_ret)
  have iac: "succeeds e (ble_ias_c_init (Some c) (APP_HANDLER, APP_HANDLER)) (\<lambda>x. fst x = NRF_SUCCESS \<and> True)" for c
    unfolding ble_ias_c_init_def Let_def
    by (auto intro!: succeeds_bnd [OF succeeds_svc_rc [OF assms(1)]] succeeds_ret simp: APP_HANDLER_def)
  note chk = succeeds_bnd [OF succeeds_check_init]
  have "succeeds e (tps_init a) (\<lambda>_. True)" "succeeds e (ias_init a) (\<lambda>_. True)" for a
    unfolding tps_init_def ias_init_def by (rule chk [OF tps], rule succeeds_ret, simp, rule chk [OF ias], rule succeeds_ret, simp)
  moreover have "succeeds e (lls_init a) (\<lambda>_. True)" for a
    unfolding lls_init_def by (rule chk [OF lls], simp add: APP_HANDLER_def, rule succeeds_ret, simp)
  moreover have "succeeds e (bas_init m a) (\<lambda>_. True)" for m a
    unfolding bas_init_def by (rule chk [OF bas], simp, rule succeeds_ret, simp)
  moreover have "succeeds e (ias_client_init a) (\<lambda>_. True)" for a
    unfolding ias_client_init_def
    by (rule succeeds_andthen [OF succeeds_modify], simp, rule chk [OF iac], rule succeeds_ret, simp)
  ultimately show ?thesis
    unfolding services_init_def
    by (intro succeeds_bnd [where R = "\<lambda>_. True"] succeeds_cryptofinder [OF assms])
qed

lemma app_advdata_spec:
  assumes "uuid_sizes I" and "t \<noteq> BLE_UUID_TYPE_BLE"
  shows "advdata_spec I 31 (copy_advdata [] (app_advdata t)) [] = Inr (finder_ads I t)"
  using assms
  by (simp add: advdata_spec_def finder_ads_def copy_advdata_def app_advdata_def zero_advdata_def spec_seq_def spec_when_def spec_opt_def
      ad_add_def uuids_spec_def uuids_of_size_def uuid_sizes_def ad_stream_def
      BLE_GAP_ADV_FLAGS_LE_ONLY_GENERAL_DISC_MODE_def BLE_GAP_ADV_FLAG_BR_EDR_NOT_SUPPORTED_def)

lemma succeeds_then:
  "succeeds (sd_env s) f R \<Longrightarrow> (\<And>x s'. R x \<Longrightarrow> sd_env s' = sd_env s \<Longrightarrow> P (g x s')) \<Longrightarrow> P (bnd f g s)"
  by (drule succeedsD) (auto simp: bnd_run)

lemma succeeds_andthen_then:
  "succeeds (sd_env s) f (\<lambda>_. True) \<Longrightarrow> (\<And>s'. sd_env s' = sd_env s \<Longrightarrow> P (g s')) \<Longrightarrow> P (andthen f g s)"
  unfolding andthen_def by (rule succeeds_then)

lemma advertising_init_run:
  assumes "grants (sd_env s)" and "stack_ok I s" and "uuid_sizes I" and "\<And>h. length (fst (am_adv am h)) = 31"
    and "cfs_uuid_type (m_cryptoservice a) = t" and "t \<noteq> BLE_UUID_TYPE_BLE"
  shows "\<exists>h buf len m. advertising_init am a s =
       (Ret (a\<lparr>m_adv := m\<rparr>), s\<lparr>sd_trace := h @ [Gap (Sd_ble_gap_adv_data_set (Some buf) len None 0)]\<rparr>)
     \<and> take (unat len) buf = ad_stream (finder_ads I t) \<and> length (ad_stream (finder_ads I t)) = unat len
     \<and> m_initialized m \<and> m_adv_modes_config m = app_adv_options \<and> m_adv_evt_handler m = APP_HANDLER"
proof -
  let ?p = "copy_advdata [] (app_advdata t)" and ?j = "am_adv am (sd_trace s)"
  have ok: "advdata_ok I ?p"
    by (simp add: advdata_ok_def copy_advdata_def app_advdata_def zero_advdata_def)
  have flags: "(adv_flags ?p AND BLE_GAP_ADV_FLAG_BR_EDR_NOT_SUPPORTED) \<noteq> 0"
    by (simp add: copy_advdata_def app_advdata_def zero_advdata_def BLE_GAP_ADV_FLAG_BR_EDR_NOT_SUPPORTED_def
        BLE_GAP_ADV_FLAGS_LE_ONLY_GENERAL_DISC_MODE_def)
  let ?r = "ble_advdata_set (fst ?j) (snd ?j) (Some ?p) None s"
  obtain buf len h where run: "take (unat len) buf = ad_stream (finder_ads I t)" "length (ad_stream (finder_ads I t)) = unat len"
      "fst ?r = Ret NRF_SUCCESS" "sd_trace (snd ?r) = h @ [Gap (Sd_ble_gap_adv_data_set (Some buf) len None 0)]"
    using advdata_set_run [OF assms(2) ok, of "fst ?j" "snd ?j"] flags app_advdata_spec [OF assms(3,6)] assms(1,4)
    by (auto simp: grants_def)
  have "snd ?r = s\<lparr>sd_trace := sd_trace (snd ?r)\<rparr>"
    by (rule emits_state [OF plain_advdata_set [where env = "app_adv_env am" and p = "Some ?p" and q = None], where s = s])
       (auto simp: advdata_set_def bnd_run app_adv_env_def split: prod.splits)
  then have r: "?r = (Ret NRF_SUCCESS, s\<lparr>sd_trace := h @ [Gap (Sd_ble_gap_adv_data_set (Some buf) len None 0)]\<rparr>)"
    using run(3,4) by (metis prod.collapse)
  let ?m = "(m_adv a)\<lparr>m_initialized := True, m_adv_mode_current := BLE_ADV_MODE_IDLE, m_adv_modes_config := app_adv_options,
      m_adv_evt_handler := APP_HANDLER, m_adv_error_handler := NULL,
      m_current_slave_link_conn_handle := BLE_CONN_HANDLE_INVALID, m_peer_address := zero_addr, m_advdata := ?p\<rparr>"
  have "advertising_init am a s =
       (Ret (a\<lparr>m_adv := ?m\<rparr>), s\<lparr>sd_trace := h @ [Gap (Sd_ble_gap_adv_data_set (Some buf) len None 0)]\<rparr>)"
    using r assms(5)
    by (auto simp: advertising_init_def check_init_def ble_advertising_init_def advdata_set_def bnd_run andthen_run app_adv_env_def
        split: prod.splits)
  then show ?thesis
    using run(1,2) by (intro exI conjI) auto
qed

text \<open>The rest of the start-up, from the advertising data on.\<close>

lemma conn_params_init_run:
  "grants (sd_env s) \<Longrightarrow> \<exists>c. conn_params_init a s = (Ret (a\<lparr>m_conn_params := c\<rparr>),
     s\<lparr>sd_trace := sd_trace s @ [Gap Sd_ble_gap_ppcp_get, Lib (App_timer_create CONN_PARAMS_TIMER APP_TIMER_MODE_SINGLE_SHOT)]\<rparr>)"
  by (auto simp: conn_params_init_def check_init_def ble_conn_params_init_def bnd_run andthen_run verify_def grants_def)

lemma advertising_start_run:
  assumes "undirected (m_adv a)" and "ble_adv_fast_enabled (m_adv_modes_config (m_adv a))"
    and "m_adv_evt_handler (m_adv a) \<noteq> NULL" and "grants (sd_env s)"
  shows "advertising_start am a s = (Ret (a\<lparr>m_adv := adv_entered (flash_idle s) BLE_ADV_MODE_FAST (m_adv a)\<rparr>),
     s\<lparr>sd_trace := sd_trace s @ adv_begin (mode_params (m_adv a) BLE_ADV_MODE_FAST) s\<rparr>)"
proof -
  have "adv_grants s" using assms(4) by (simp add: adv_grants_def grants_def)
  from undirected_fast_start [OF assms(1,2) this, of BLE_ADV_MODE_FAST "app_adv_env am"]
  have "ble_advertising_start (app_adv_env am) BLE_ADV_MODE_FAST (m_adv a) s =
      (Ret (NRF_SUCCESS, adv_entered (flash_idle s) BLE_ADV_MODE_FAST (m_adv a)),
       s\<lparr>sd_trace := sd_trace s @ adv_begin (mode_params (m_adv a) BLE_ADV_MODE_FAST) s\<rparr>)"
    using assms(3,4)
    by (simp add: adv_begin_def adv_entered_def adv_notify_def in_mode_def app_adv_env_def on_adv_evt_def bsp_indicate_def
        bnd_run andthen_run grants_def)
  moreover have "NRF_SUCCESS \<noteq> NRF_ERROR_INVALID_STATE" by (simp add: nrf_codes)
  ultimately show ?thesis
    by (simp add: advertising_start_def bnd_run andthen_run)
qed

lemma flash_event_run:
  assumes "undirected (m_adv a)" and "ble_adv_fast_enabled (m_adv_modes_config (m_adv a))"
    and "m_adv_evt_handler (m_adv a) \<noteq> NULL" and "m_advertising_start_pending (m_adv a)"
    and "m_adv_mode_current (m_adv a) = BLE_ADV_MODE_DIRECTED \<or> m_adv_mode_current (m_adv a) = BLE_ADV_MODE_FAST"
  shows "awaits_flash (mode_params (m_adv a) BLE_ADV_MODE_FAST) a"
  unfolding awaits_flash_def Let_def
proof (intro allI impI, elim conjE)
  fix am :: app_mem and e :: u32 and t :: app_world
  assume e: "e = NRF_EVT_FLASH_OPERATION_SUCCESS \<or> e = NRF_EVT_FLASH_OPERATION_ERROR" and quiet: "am_pm_evts am = []" and g: "grants (sd_env t)"
  let ?t = "t\<lparr>sd_trace := sd_trace t @ [Store (Fs_sys_event_handler e)]\<rparr>" and ?m = "(m_adv a)\<lparr>m_advertising_start_pending := False\<rparr>"
  let ?md = "m_adv_mode_current (m_adv a)"
  have m: "undirected ?m" "ble_adv_fast_enabled (m_adv_modes_config ?m)" "adv_grants ?t"
    "mode_params ?m BLE_ADV_MODE_FAST = mode_params (m_adv a) BLE_ADV_MODE_FAST"
    using assms(1,2) g by (simp_all add: undirected_def adv_grants_def grants_def mode_params_def)
  have busy: "?m\<lparr>m_adv_mode_current := ?md, m_advertising_start_pending := True\<rparr> = m_adv a" "a\<lparr>m_adv := m_adv a\<rparr> = a"
    using assms(4) by simp_all
  have "adv_start_or_report (app_adv_env am) ?md ?m ?t =
      (Ret (if flash_idle ?t then in_mode BLE_ADV_MODE_FAST ?m else m_adv a),
       ?t\<lparr>sd_trace := sd_trace ?t @ adv_begin (mode_params (m_adv a) BLE_ADV_MODE_FAST) ?t\<rparr>)"
    unfolding adv_start_or_report_def bnd_run undirected_fast_start [OF m(1-3) assms(5)] m(4)
    using assms(3) g busy(1)
    by (simp add: adv_begin_def adv_notify_def in_mode_def app_adv_env_def on_adv_evt_def bsp_indicate_def
        bnd_run andthen_run guarded_run grants_def)
  then have "handle am (Stim_sys e) a t =
      (Ret (a\<lparr>m_adv := if flash_idle ?t then in_mode BLE_ADV_MODE_FAST ?m else m_adv a\<rparr>),
       ?t\<lparr>sd_trace := sd_trace ?t @ adv_begin (mode_params (m_adv a) BLE_ADV_MODE_FAST) ?t\<rparr>)"
    using e assms(4) by (auto simp: handle_def sys_evt_dispatch_def bnd_run quiet ble_advertising_on_sys_evt_def)
  then show "\<exists>a'. handle am (Stim_sys e) a t = (Ret a', ?t\<lparr>sd_trace := sd_trace ?t @ adv_begin (mode_params (m_adv a) BLE_ADV_MODE_FAST) ?t\<rparr>)
      \<and> (if flash_idle ?t then m_adv_mode_current (m_adv a') = BLE_ADV_MODE_FAST \<and> \<not> m_advertising_start_pending (m_adv a') else a' = a)"
    using busy(2) by (auto simp: in_mode_def)
qed

lemma main_init_tail:
  assumes "grants (sd_env s)" and "stack_ok I s" and "uuid_sizes I" and "\<And>h. length (fst (am_adv am h)) = 31"
    and "cfs_uuid_type (m_cryptoservice a) \<noteq> BLE_UUID_TYPE_BLE"
  shows "\<exists>a' s' t h buf len.
     bnd (advertising_init am a) (\<lambda>a. bnd (conn_params_init a) (\<lambda>a. advertising_start am a)) s = (Ret a', s')
     \<and> t \<noteq> BLE_UUID_TYPE_BLE \<and> take (unat len) buf = ad_stream (finder_ads I t) \<and> length (ad_stream (finder_ads I t)) = unat len
     \<and> sd_env s' = sd_env s
     \<and> undirected (m_adv a') \<and> ble_adv_fast_enabled (m_adv_modes_config (m_adv a'))
     \<and> m_adv_evt_handler (m_adv a') \<noteq> NULL
     \<and> (\<exists>g. h = g @ [Gap (Sd_ble_gap_adv_data_set (Some buf) len None 0), Gap Sd_ble_gap_ppcp_get,
          Lib (App_timer_create CONN_PARAMS_TIMER APP_TIMER_MODE_SINGLE_SHOT)])
     \<and> sd_trace s' = h @ adv_begin app_adv_params (s\<lparr>sd_trace := h\<rparr>)
     \<and> (if flash_idle (s\<lparr>sd_trace := h\<rparr>) then m_adv_mode_current (m_adv a') = BLE_ADV_MODE_FAST else awaits_flash app_adv_params a')"
proof -
  let ?t = "cfs_uuid_type (m_cryptoservice a)"
  obtain h buf len m where adv: "advertising_init am a s =
       (Ret (a\<lparr>m_adv := m\<rparr>), s\<lparr>sd_trace := h @ [Gap (Sd_ble_gap_adv_data_set (Some buf) len None 0)]\<rparr>)"
      "take (unat len) buf = ad_stream (finder_ads I ?t)" "length (ad_stream (finder_ads I ?t)) = unat len"
      and m: "m_initialized m" "m_adv_modes_config m = app_adv_options" "m_adv_evt_handler m = APP_HANDLER"
    using advertising_init_run [where am = am, OF assms(1-4) refl assms(5)] by auto
  let ?s1 = "s\<lparr>sd_trace := h @ [Gap (Sd_ble_gap_adv_data_set (Some buf) len None 0)]\<rparr>"
  obtain c where cp: "conn_params_init (a\<lparr>m_adv := m\<rparr>) ?s1 = (Ret (a\<lparr>m_adv := m, m_conn_params := c\<rparr>),
     ?s1\<lparr>sd_trace := sd_trace ?s1 @ [Gap Sd_ble_gap_ppcp_get, Lib (App_timer_create CONN_PARAMS_TIMER APP_TIMER_MODE_SINGLE_SHOT)]\<rparr>)"
    using conn_params_init_run [of ?s1 "a\<lparr>m_adv := m\<rparr>"] assms(1) by auto
  have m': "undirected m" "ble_adv_fast_enabled (m_adv_modes_config m)" "m_adv_evt_handler m \<noteq> NULL"
      "mode_params m BLE_ADV_MODE_FAST = app_adv_params"
    using m by (simp_all add: undirected_def app_adv_options_def APP_HANDLER_def mode_params_def app_adv_params_def)
  let ?h = "h @ [Gap (Sd_ble_gap_adv_data_set (Some buf) len None 0), Gap Sd_ble_gap_ppcp_get,
      Lib (App_timer_create CONN_PARAMS_TIMER APP_TIMER_MODE_SINGLE_SHOT)]"
  let ?s = "s\<lparr>sd_trace := ?h\<rparr>" and ?b = "a\<lparr>m_adv := m, m_conn_params := c\<rparr>"
  define b where "b = ?b\<lparr>m_adv := adv_entered (flash_idle ?s) BLE_ADV_MODE_FAST m\<rparr>"
  have run: "bnd (advertising_init am a) (\<lambda>a. bnd (conn_params_init a) (\<lambda>a. advertising_start am a)) s =
      (Ret b, ?s\<lparr>sd_trace := ?h @ adv_begin app_adv_params ?s\<rparr>)"
    using advertising_start_run [of ?b ?s am] assms(1) adv(1) cp m' by (simp add: bnd_run b_def)
  have b: "undirected (m_adv b)" "ble_adv_fast_enabled (m_adv_modes_config (m_adv b))" "m_adv_evt_handler (m_adv b) \<noteq> NULL"
      "mode_params (m_adv b) BLE_ADV_MODE_FAST = app_adv_params"
    using m' by (simp_all add: b_def adv_entered_def in_mode_def undirected_def mode_params_def)
  have "m_adv_mode_current (m_adv b) = BLE_ADV_MODE_FAST" if "flash_idle ?s"
    using that by (simp add: b_def adv_entered_def in_mode_def)
  moreover have "awaits_flash app_adv_params b" if "\<not> flash_idle ?s"
    using flash_event_run [OF b(1-3)] that by (simp add: b(4)) (simp add: b_def adv_entered_def)
  ultimately show ?thesis
    using run adv(2,3) assms(5) b
    by (intro exI [of _ b] exI [of _ "?s\<lparr>sd_trace := ?h @ adv_begin app_adv_params ?s\<rparr>"] exI [of _ ?t] exI [of _ ?h] exI [of _ buf]
        exI [of _ len]) simp
qed

text \<open>What the stack of a booting device is relied on for.\<close>

lemma main_init_run:
  assumes "grants (sd_env s)" and "stack_ok I s" and "uuid_sizes I"
    and "\<And>h b. out_u8 (sd_env s h (Gatt (Sd_ble_uuid_vs_add b))) \<noteq> BLE_UUID_TYPE_BLE"
    and "\<And>h. length (fst (am_adv am h)) = 31"
  shows "\<exists>a s' t h buf len. main_init am a0 s = (Ret a, s')
     \<and> t \<noteq> BLE_UUID_TYPE_BLE \<and> take (unat len) buf = ad_stream (finder_ads I t) \<and> length (ad_stream (finder_ads I t)) = unat len
     \<and> sd_env s' = sd_env s
     \<and> undirected (m_adv a) \<and> ble_adv_fast_enabled (m_adv_modes_config (m_adv a))
     \<and> m_adv_evt_handler (m_adv a) \<noteq> NULL
     \<and> (\<exists>g. h = g @ [Gap (Sd_ble_gap_adv_data_set (Some buf) len None 0), Gap Sd_ble_gap_ppcp_get,
          Lib (App_timer_create CONN_PARAMS_TIMER APP_TIMER_MODE_SINGLE_SHOT)])
     \<and> sd_trace s' = h @ adv_begin app_adv_params (s\<lparr>sd_trace := h\<rparr>)
     \<and> (if flash_idle (s\<lparr>sd_trace := h\<rparr>) then m_adv_mode_current (m_adv a) = BLE_ADV_MODE_FAST else awaits_flash app_adv_params a)"
  (is "\<exists>a s'. ?P a s' (main_init am a0 s)")
proof -
  let ?e = "sd_env s"
  let ?Q = "\<lambda>r. \<exists>a s'. ?P a s' r"
  have tail: "?Q (bnd (advertising_init am a) (\<lambda>a. bnd (conn_params_init a) (\<lambda>a. advertising_start am a)) s')"
    if "sd_env s' = ?e" "cfs_uuid_type (m_cryptoservice a) \<noteq> BLE_UUID_TYPE_BLE" for a s'
    using main_init_tail [where am = am and a = a and I = I and s = s'] that assms by (simp add: stack_ok_def flash_idle_def adv_begin_def)
  note one = succeeds_andthen_then [where P = ?Q]
  note board = succeeds_board [OF assms(1)]
  have any: "succeeds ?e (svc c :: (app_world, reply) prog) (\<lambda>_. True)" for c
    by (rule succeeds_weaken [OF succeeds_svc [OF assms(1)]]) simp
  note two = succeeds_then [where P = ?Q]
  show ?thesis
    unfolding main_init_def
    apply (rule one, rule succeeds_check_rc, rule assms(1))
    apply (rule two, simp only:, rule any)
    apply (rule two, simp only:, rule any)
    apply (rule one, simp only:, rule board)+
    apply (rule two, simp only:, rule succeeds_services [OF assms(1,4)])
    apply (rule tail)
     apply simp_all
    done
qed

subsection \<open>The end of a link\<close>

lemma succeeds_bsp_indicate: "grants e \<Longrightarrow> succeeds e (bsp_indicate i) (\<lambda>_. True)"
  unfolding bsp_indicate_def using succeeds_check_rc [of e] by (simp add: check_rc_def)

lemma succeeds_alert_signal: "grants e \<Longrightarrow> succeeds e (alert_signal l) (\<lambda>_. True)"
  by (simp add: alert_signal_def succeeds_bsp_indicate succeeds_ret)

lemma disconnect_run:
  assumes g: "grants (sd_env s)" and und: "undirected (m_adv a)"
    and fast: "ble_adv_fast_enabled (m_adv_modes_config (m_adv a))" and h: "m_adv_evt_handler (m_adv a) \<noteq> NULL"
    and link: "h = m_current_slave_link_conn_handle (m_adv a)" and quiet: "am_pm_evts am = []" "am_disc_evts am = []"
  shows "\<exists>a' s' t. handle am (Stim_ble (BLE_GAP_EVT_DISCONNECTED h r)) a s = (Ret a', s')
     \<and> sd_trace s' = t @ adv_begin (mode_params (m_adv a) BLE_ADV_MODE_FAST) (s\<lparr>sd_trace := t\<rparr>)
     \<and> (if flash_idle (s\<lparr>sd_trace := t\<rparr>) then m_adv_mode_current (m_adv a') = BLE_ADV_MODE_FAST
         else awaits_flash (mode_params (m_adv a) BLE_ADV_MODE_FAST) a')"
  (is "\<exists>a' s'. ?P a' s' (handle am ?st a s)")
proof -
  let ?Q = "\<lambda>r. \<exists>a' s'. ?P a' s' r" and ?evt = "BLE_GAP_EVT_DISCONNECTED h r"
  note two = succeeds_then [where P = ?Q]
  have any: "succeeds (sd_env s) (svc c :: (app_world, reply) prog) (\<lambda>_. True)" for c
    by (rule succeeds_weaken [OF succeeds_svc [OF g]]) simp
  have cp: "succeeds (sd_env s) (ble_conn_params_on_ble_evt app_cp_callbacks c ?evt :: (app_world, conn_params) prog) (\<lambda>_. True)" for c
    using g by (auto simp: ble_conn_params_on_ble_evt_def cp_on_disconnect_def cp_report_def guarded_def
        intro!: succeeds_bnd [OF succeeds_svc_rc] succeeds_andthen succeeds_ret)
  have lls: "succeeds (sd_env s) (ble_lls_on_ble_evt on_lls_evt service_error_handler l ?evt :: (app_world, ble_lls) prog) (\<lambda>_. True)" for l
    using g by (auto simp: ble_lls_on_ble_evt_def lls_on_disconnect_def ble_lls_alert_level_get_def bnd_assoc on_lls_evt_def
        intro!: succeeds_bnd [OF succeeds_svc] succeeds_andthen succeeds_ret succeeds_alert_signal)
  have iac: "succeeds (sd_env s) (ble_ias_c_on_ble_evt on_ias_c_evt service_error_handler ev c ?evt) (\<lambda>_. True)" for ev c
    using g by (auto simp: ble_ias_c_on_ble_evt_def ias_c_on_disconnect_def on_ias_c_evt_def Let_def succeeds_def bnd_run
        andthen_run guarded_run)
  let ?m = "(m_adv a)\<lparr>m_whitelist_temporarily_disabled := False\<rparr>" and ?p = "mode_params (m_adv a) BLE_ADV_MODE_FAST"
  have adv: "ble_advertising_on_ble_evt (app_adv_env am) ?evt (m_adv a) t =
      (Ret (adv_entered (flash_idle t) BLE_ADV_MODE_DIRECTED ?m), t\<lparr>sd_trace := sd_trace t @ adv_begin ?p t\<rparr>)"
    if e: "sd_env t = sd_env s" for t :: app_world
  proof -
    have m: "undirected ?m" "ble_adv_fast_enabled (m_adv_modes_config ?m)" "adv_grants t" "mode_params ?m BLE_ADV_MODE_FAST = ?p"
      using und fast e g by (simp_all add: undirected_def mode_params_def adv_grants_def grants_def)
    show ?thesis
      using undirected_fast_start [OF m(1-3), of BLE_ADV_MODE_DIRECTED "app_adv_env am"] h g e
      by (simp add: ble_advertising_on_ble_evt_def adv_on_disconnected_def link adv_start_or_report_def Let_def m(4) adv_begin_def
          adv_entered_def adv_notify_def in_mode_def app_adv_env_def on_adv_evt_def bsp_indicate_def bnd_run andthen_run guarded_run
          grants_def)
  qed
  have tail: "?Q (bnd (ble_advertising_on_ble_evt (app_adv_env am) ?evt (m_adv a)) (\<lambda>m. ret (k m)) t)"
    if e: "sd_env t = sd_env s" and k: "\<And>m. m_adv (k m) = m" for t k
  proof -
    let ?a = "k (adv_entered (flash_idle t) BLE_ADV_MODE_DIRECTED ?m)"
    have idle: "flash_idle t = flash_idle (s\<lparr>sd_trace := sd_trace t\<rparr>)" "adv_begin p t = adv_begin p (s\<lparr>sd_trace := sd_trace t\<rparr>)" for p
      using e by (simp_all add: flash_idle_def adv_begin_def)
    have "awaits_flash ?p ?a" if "\<not> flash_idle t"
    proof -
      have "mode_params (m_adv ?a) BLE_ADV_MODE_FAST = ?p" using k that by (simp add: adv_entered_def mode_params_def)
      moreover have "awaits_flash (mode_params (m_adv ?a) BLE_ADV_MODE_FAST) ?a"
        using und fast h k that by (intro flash_event_run) (simp_all add: adv_entered_def undirected_def)
      ultimately show ?thesis by simp
    qed
    moreover have "m_adv_mode_current (m_adv ?a) = BLE_ADV_MODE_FAST" if "flash_idle t"
      using k that by (simp add: adv_entered_def in_mode_def)
    ultimately show ?thesis
      unfolding bnd_run adv [OF e] using idle
      by (intro exI [of _ ?a] exI [of _ "t\<lparr>sd_trace := sd_trace t @ adv_begin ?p t\<rparr>"]) auto
  qed
  show ?thesis
    unfolding handle_def stimulus.case ble_evt_dispatch_def ble_conn_state_on_ble_evt_def ble_evt.case bnd_ret_left quiet
      deliver.simps ble_ias_on_ble_evt_def ble_bas_on_ble_evt_def ble_cryptoservice_on_ble_evt_def prod.case option.case
      option.sel ble_tps_on_ble_evt_def app_on_ble_evt_def Let_def
    apply (rule two, rule any, rule two, simp only:, rule any, rule two, simp only:, rule cp)
    apply (rule two, simp only:, rule lls, rule two, simp only:, rule iac, rule two, simp only:, rule any)
    apply (rule succeeds_andthen_then [where P = ?Q], simp only: succeeds_bsp_indicate [OF g])
    apply (simp split del: if_split)
    apply (rule tail [simplified])
     apply simp_all
    done
qed

lemma bond_push_run:
  assumes "\<not> m_is_ias_present s" and "undirected (m_adv a)" and "ble_adv_fast_enabled (m_adv_modes_config (m_adv a))"
    and "m_adv_evt_handler (m_adv a) \<noteq> NULL" and "grants (sd_env s)"
  defines "s' \<equiv> s\<lparr>sd_trace := sd_trace s @ [Store Pm_peers_delete, Store (Pm_sec_params_set (Some bond_params))]\<rparr>"
  shows "handle am (Stim_button BSP_EVENT_BOND) a s =
     (Ret (a\<lparr>m_adv := adv_entered (flash_idle s') BLE_ADV_MODE_FAST (m_adv a)\<rparr>),
      s'\<lparr>sd_trace := sd_trace s' @ adv_begin (mode_params (m_adv a) BLE_ADV_MODE_FAST) s'\<rparr>)"
  using advertising_start_run [of a s' am] assms
  by (simp add: handle_def bsp_event_handler_def bnd_run andthen_run peer_manager_allow_bonding_def grants_def)

lemma demo_device_facts:
  "grants (sd_env demo_device)" "stack_ok phone_info demo_device" "uuid_sizes phone_info" "flash_idle (demo_device\<lparr>sd_trace := h\<rparr>)"
  "out_u8 (sd_env demo_device h (Gatt (Sd_ble_uuid_vs_add b))) \<noteq> BLE_UUID_TYPE_BLE"
  "length (fst (am_adv demo_app_mem h)) = 31" "sd_trace demo_device = []" "\<not> m_is_ias_present demo_device"
  "am_pm_evts demo_app_mem = []" "am_disc_evts demo_app_mem = []"
  by (auto simp: grants_def demo_device_def null_reply_def stack_ok_def phone_info_def uuid_sizes_def flash_idle_def demo_app_mem_def
      BLE_UUID_TYPE_BLE_def uint16_bytes_def uint16_encode_def split: call.split gap_call.split gatt_call.split)


text \<open>The example device starts; it has no alert service yet and advertises.\<close>

lemma demo_boot:
  obtains a s where "app_run demo_app demo_device [] a s" and "\<not> m_is_ias_present s" and "undirected (m_adv a)"
    and "ble_adv_fast_enabled (m_adv_modes_config (m_adv a))" and "m_adv_evt_handler (m_adv a) \<noteq> NULL"
    and "grants (sd_env s)"
proof -
  obtain a s where run: "main_init demo_app_mem demo_app demo_device = (Ret a, s)" and e: "sd_env s = sd_env demo_device"
    and adv: "undirected (m_adv a)" "ble_adv_fast_enabled (m_adv_modes_config (m_adv a))" "m_adv_evt_handler (m_adv a) \<noteq> NULL"
    using main_init_run [where am = demo_app_mem and s = demo_device and I = phone_info and ?a0.0 = demo_app] demo_device_facts by auto
  have "\<not> m_is_ias_present s"
    using tripleD [OF main_init_absent _ run] demo_device_facts by (simp add: flags_of_def)
  moreover have "grants (sd_env s)" using demo_device_facts e by simp
  ultimately show ?thesis
    using that [OF app_start [OF run]] adv by blast
qed

subsection \<open>Properties\<close>



text \<open>
  C19: the end of the link never leaves the device silent. The module is configured as \<^verbatim>\<open>advertising_init\<close>
  does it: fast advertising, no directed modes and no whitelist (\<open>undirected\<close>), an event handler. On a disconnection
  of the link on which it was peripheral, with its calls granted and no event of the peer manager or
  of the discovery for it, the event is handled by all modules without a fault, and the last thing asked is to
  advertise: the flash module's queue length and, if it is zero, fast advertising with the configured interval
  and the LED. If the flash is busy the start is remembered, and each later end of a flash
  operation, with its calls granted and no peer manager event for it, repeats the question, until the
  queue is empty and fast advertising begins.
\<close>

theorem link_end_readvertises:
  assumes "grants (sd_env s)" and "undirected (m_adv a)"
    and "ble_adv_fast_enabled (m_adv_modes_config (m_adv a))" and "m_adv_evt_handler (m_adv a) \<noteq> NULL"
    and "h = m_current_slave_link_conn_handle (m_adv a)" and "am_pm_evts am = []" and "am_disc_evts am = []"
  shows "\<exists>a' s' t. handle am (Stim_ble (BLE_GAP_EVT_DISCONNECTED h r)) a s = (Ret a', s')
     \<and> sd_trace s' = t @ adv_begin (mode_params (m_adv a) BLE_ADV_MODE_FAST) (s\<lparr>sd_trace := t\<rparr>)
     \<and> (if flash_idle (s\<lparr>sd_trace := t\<rparr>) then m_adv_mode_current (m_adv a') = BLE_ADV_MODE_FAST
         else awaits_flash (mode_params (m_adv a) BLE_ADV_MODE_FAST) a')"
  using assms by (rule disconnect_run)

theorem link_end_readvertises_witness:
  "\<exists>a s t. handle demo_app_mem (Stim_ble (BLE_GAP_EVT_DISCONNECTED 5 8)) demo_app demo_device = (Ret a, s)
     \<and> sd_trace s = t @ [Store Fs_queued_op_count_get, Gap (Sd_ble_gap_adv_start app_adv_params),
          Lib (Bsp_indication_set BSP_INDICATE_ADVERTISING)]"
proof -
  have a: "m_adv demo_app = demo_adv" "m_adv_evt_handler demo_adv \<noteq> NULL" by (simp_all add: demo_app_def demo_adv_def)
  then show ?thesis
    using link_end_readvertises [where s = demo_device and a = demo_app and am = demo_app_mem and h = 5 and r = 8] demo_device_facts
    by (auto simp: a demo_adv_facts adv_begin_def app_adv_params_def)
qed

text \<open>
  C2: pairing is only ever enabled by a long push of the button: in every run of the device, from
  power-on through any sequence of stack events, flash events, timers, measurements and pushes, the
  security parameters are set only when \<^verbatim>\<open>BSP_EVENT_BOND\<close> has occurred, and only to the parameters of
  \<^verbatim>\<open>peer_manager_allow_bonding\<close>.
\<close>

theorem pairing_needs_button:
  assumes "app_run a0 s0 sts a s" and "sd_trace s0 = []" and "Store (Pm_sec_params_set p) \<in> set (sd_trace s)"
  shows "Stim_button BSP_EVENT_BOND \<in> set sts \<and> p = Some bond_params"
  using assms(1,3)
proof (induction)
  case (app_start am a s)
  then have "\<forall>c \<in> set (sd_trace s). ordinary c"
    using tracesD [OF plainly_main_init, of am a0 s0] assms(2) by auto
  with app_start show ?case by (auto simp: ordinary_def)
next
  case (app_event sts a s am st a' s')
  have new: "\<exists>t. sd_trace s' = sd_trace s @ t \<and> (\<forall>c \<in> set t. ordinary c
      \<or> st = Stim_button BSP_EVENT_BOND \<and> c = Store (Pm_sec_params_set (Some bond_params)))"
  proof (cases "st = Stim_button BSP_EVENT_BOND")
    case True
    then show ?thesis
      using tracesD [OF bond_traces, of am a s] app_event.hyps(2) by auto
  next
    case False
    then show ?thesis
      using tracesD [OF plainly_handle [OF False], of am a s] app_event.hyps(2) by auto
  qed
  then show ?case
    using app_event.IH app_event.prems by (fastforce simp: ordinary_def)
qed

theorem pairing_needs_button_witness:
  "\<exists>a s p. app_run demo_app demo_device [Stim_button BSP_EVENT_BOND] a s
     \<and> Store (Pm_sec_params_set p) \<in> set (sd_trace s) \<and> p = Some bond_params"
proof -
  obtain a s where b: "app_run demo_app demo_device [] a s" "\<not> m_is_ias_present s" "undirected (m_adv a)"
    "ble_adv_fast_enabled (m_adv_modes_config (m_adv a))" "m_adv_evt_handler (m_adv a) \<noteq> NULL" "grants (sd_env s)"
    by (rule demo_boot)
  obtain a' s' where "handle demo_app_mem (Stim_button BSP_EVENT_BOND) a s = (Ret a', s')"
    and mem: "Store (Pm_sec_params_set (Some bond_params)) \<in> set (sd_trace s')"
    using bond_push_run [OF b(2-6)] by auto
  then have "app_run demo_app demo_device ([] @ [Stim_button BSP_EVENT_BOND]) a' s'"
    using app_event [OF b(1)] by blast
  then show ?thesis
    using pairing_needs_button [OF _ demo_device_facts(7) mem, of demo_app "[Stim_button BSP_EVENT_BOND]" a'] mem by auto
qed

text \<open>
  C9: whenever the application believes that the connected phone has the alert service, the client
  holds a handle to write alerts to, and right after a disconnection it does not believe so: in every
  reachable state, whatever the order of events.
\<close>

theorem find_me_invariant:
  assumes "app_run a0 s0 sts a s" and "\<not> m_is_ias_present s0"
  shows "(m_is_ias_present s \<longrightarrow> ble_ias_c_is_discovered (m_ias_c a))
     \<and> (\<forall>rest h r. sts = rest @ [Stim_ble (BLE_GAP_EVT_DISCONNECTED h r)] \<longrightarrow> \<not> m_is_ias_present s)"
proof (intro conjI allI impI)
  show "ble_ias_c_is_discovered (m_ias_c a)" if "m_is_ias_present s"
    using app_run_known [OF assms] that by (simp add: ias_known_def)
next
  fix rest h r
  assume sts: "sts = rest @ [Stim_ble (BLE_GAP_EVT_DISCONNECTED h r)]"
  from assms(1) show "\<not> m_is_ias_present s"
  proof cases
    case (app_event sts' b t am st)
    from app_event(1) sts have st: "st = Stim_ble (BLE_GAP_EVT_DISCONNECTED h r)" by simp
    have run: "ble_evt_dispatch am (BLE_GAP_EVT_DISCONNECTED h r) b t = (Ret a, s)"
      using app_event(3) unfolding st by (simp add: handle_def)
    have "ias_known b t" using app_run_known app_event(2) assms(2) by blast
    then show ?thesis
      using tripleD [OF dispatch_known _ run] by (simp add: ias_known_flags client_ok_def flags_of_def)
  qed (use sts in simp)
qed

theorem find_me_invariant_witness:
  "\<exists>a s h. app_run demo_app demo_device [Stim_ble (BLE_GAP_EVT_DISCONNECTED h 8)] a s \<and> \<not> m_is_ias_present s"
proof -
  obtain a s where b: "app_run demo_app demo_device [] a s" "\<not> m_is_ias_present s" "undirected (m_adv a)"
    "ble_adv_fast_enabled (m_adv_modes_config (m_adv a))" "m_adv_evt_handler (m_adv a) \<noteq> NULL" "grants (sd_env s)"
    by (rule demo_boot)
  let ?h = "m_current_slave_link_conn_handle (m_adv a)"
  obtain a' s' where "handle demo_app_mem (Stim_ble (BLE_GAP_EVT_DISCONNECTED ?h 8)) a s = (Ret a', s')"
    using disconnect_run [OF b(6,3,4,5) refl demo_device_facts(9,10), of 8] by blast
  then have run: "app_run demo_app demo_device [Stim_ble (BLE_GAP_EVT_DISCONNECTED ?h 8)] a' s'"
    using app_event [OF b(1)] by fastforce
  then show ?thesis
    using find_me_invariant [OF run demo_device_facts(8)] by blast
qed

text \<open>
  A long push with the phone's alert service present writes one byte to the phone, the high alert
  level if no alert is on and the no-alert level otherwise; when the write is accepted the flag is
  flipped, and when the stack is busy nothing else happens.
\<close>

lemma button_toggles_alert:
  assumes "m_is_ias_present s" and "ble_ias_c_is_discovered (m_ias_c a)"
  defines "wr \<equiv> Gatt (Sd_ble_gattc_write (ic_conn_handle (m_ias_c a)) (gc_handle_value (ic_alert_level_char (m_ias_c a)))
       BLE_GATT_OP_WRITE_CMD 0 1 [if m_is_high_alert_signalled s then 0 else 2])"
  assumes "rc (sd_env s (sd_trace s) wr) = NRF_SUCCESS \<or> rc (sd_env s (sd_trace s) wr) = BLE_ERROR_NO_TX_PACKETS"
  shows "handle am (Stim_button BSP_EVENT_BOND) a s =
     (Ret a, s\<lparr>sd_trace := sd_trace s @ [wr],
        m_is_high_alert_signalled := (m_is_high_alert_signalled s \<noteq> (rc (sd_env s (sd_trace s) wr) = NRF_SUCCESS))\<rparr>)"
  using assms
  by (cases "m_is_high_alert_signalled s")
     (auto simp: handle_def bsp_event_handler_def toggle_peer_alert_def ble_ias_c_send_alert_level_def
      write_characteristic_value_def bnd_run andthen_run nrf_codes)

lemma button_toggles_alert_example:
  "sd_trace (snd (handle demo_app_mem (Stim_button BSP_EVENT_BOND) demo_app (demo_device\<lparr>m_is_ias_present := True\<rparr>))) =
     [Gatt (Sd_ble_gattc_write 3 9 BLE_GATT_OP_WRITE_CMD 0 1 [2])]
   \<and> m_is_high_alert_signalled
       (snd (handle demo_app_mem (Stim_button BSP_EVENT_BOND) demo_app (demo_device\<lparr>m_is_ias_present := True\<rparr>)))"
proof -
  have "rc (sd_env demo_device h c) = NRF_SUCCESS" for h c
    using demo_device_facts(1) by (simp add: grants_def)
  moreover have "ble_ias_c_is_discovered (m_ias_c demo_app)" "ic_conn_handle (m_ias_c demo_app) = 3"
      "gc_handle_value (ic_alert_level_char (m_ias_c demo_app)) = 9"
    by (simp_all add: ble_ias_c_is_discovered_def demo_app_def demo_ias_c_def demo_alert_char_def nrf_codes)
  moreover have "\<not> m_is_high_alert_signalled demo_device" by (simp add: demo_device_def)
  ultimately show ?thesis
    using button_toggles_alert [of "demo_device\<lparr>m_is_ias_present := True\<rparr>" demo_app demo_app_mem] demo_device_facts(7) by simp
qed

text \<open>
  A long push with no alert service present forgets all bonds, allows pairing and asks to advertise, in
  this order, when every call is granted.
\<close>

lemma button_allows_pairing:
  assumes "\<not> m_is_ias_present s" and "undirected (m_adv a)" and "ble_adv_fast_enabled (m_adv_modes_config (m_adv a))"
    and "m_adv_evt_handler (m_adv a) \<noteq> NULL" and "grants (sd_env s)"
  defines "s' \<equiv> s\<lparr>sd_trace := sd_trace s @ [Store Pm_peers_delete, Store (Pm_sec_params_set (Some bond_params))]\<rparr>"
  shows "handle am (Stim_button BSP_EVENT_BOND) a s =
     (Ret (a\<lparr>m_adv := adv_entered (flash_idle s') BLE_ADV_MODE_FAST (m_adv a)\<rparr>),
      s'\<lparr>sd_trace := sd_trace s' @ adv_begin (mode_params (m_adv a) BLE_ADV_MODE_FAST) s'\<rparr>)"
  unfolding s'_def using assms by (intro bond_push_run)

lemma button_allows_pairing_example:
  "\<exists>a s t. handle demo_app_mem (Stim_button BSP_EVENT_BOND) demo_app demo_device = (Ret a, s)
     \<and> sd_trace s = [Store Pm_peers_delete, Store (Pm_sec_params_set (Some bond_params)), Store Fs_queued_op_count_get,
          Gap (Sd_ble_gap_adv_start app_adv_params), Lib (Bsp_indication_set BSP_INDICATE_ADVERTISING)]"
proof -
  have a: "m_adv demo_app = demo_adv" by (simp add: demo_app_def)
  have "m_adv_evt_handler demo_adv \<noteq> NULL" by (simp add: demo_adv_def)
  then show ?thesis
    using button_allows_pairing [where s = demo_device and a = demo_app and am = demo_app_mem] demo_device_facts
    by (simp add: a demo_adv_facts adv_begin_def app_adv_params_def)
qed

end
