(* ===== verification/AppFifo.thy ===== *)
theory AppFifo
  imports SoftDevice
begin

text \<open>
  \<^verbatim>\<open>components/libraries/fifo/app_fifo.c\<close>: a byte ring buffer with free-running 32-bit
  positions. \<open>app_fifo\<close> is \<^verbatim>\<open>app_fifo_t\<close> with the buffer it points to. The interface a client
  relies on is the locale \<open>bounded_queue\<close>; the ring buffer is an instance of it, so in
  particular the wrap-around of the positions is invisible.
\<close>

unbundle bit_operations_syntax

subsection \<open>The program\<close>

record app_fifo =
  p_buf :: bytes
  buf_size_mask :: u16
  read_pos :: u32
  write_pos :: u32

definition fifo_length :: "app_fifo \<Rightarrow> u32" where
  "fifo_length f = write_pos f - read_pos f"

definition fifo_put :: "app_fifo \<Rightarrow> u8 \<Rightarrow> app_fifo" where
  "fifo_put f x =
     f\<lparr>p_buf := (p_buf f)[unat (write_pos f AND ucast (buf_size_mask f)) := x],
       write_pos := write_pos f + 1\<rparr>"

definition fifo_peek :: "app_fifo \<Rightarrow> u16 \<Rightarrow> u8" where
  "fifo_peek f index = p_buf f ! unat ((read_pos f + ucast index) AND ucast (buf_size_mask f))"

definition fifo_get :: "app_fifo \<Rightarrow> u8 \<times> app_fifo" where
  "fifo_get f = (fifo_peek f 0, f\<lparr>read_pos := read_pos f + 1\<rparr>)"

definition IS_POWER_OF_TWO :: "u16 \<Rightarrow> bool" where
  "IS_POWER_OF_TWO a \<longleftrightarrow> a \<noteq> 0 \<and> ((a - 1) AND a) = 0"

definition app_fifo_init :: "app_fifo \<Rightarrow> bytes option \<Rightarrow> u16 \<Rightarrow> u32 \<times> app_fifo" where
  "app_fifo_init f buf buf_size =
     (case buf of
        None \<Rightarrow> (NRF_ERROR_NULL, f)
      | Some b \<Rightarrow>
          if \<not> IS_POWER_OF_TWO buf_size then (NRF_ERROR_INVALID_LENGTH, f)
          else (NRF_SUCCESS, f\<lparr>p_buf := b, buf_size_mask := buf_size - 1, read_pos := 0, write_pos := 0\<rparr>))"

definition app_fifo_put :: "app_fifo \<Rightarrow> u8 \<Rightarrow> u32 \<times> app_fifo" where
  "app_fifo_put f x =
     (if fifo_length f \<le> ucast (buf_size_mask f) then (NRF_SUCCESS, fifo_put f x)
      else (NRF_ERROR_NO_MEM, f))"

text \<open>The out byte is \<open>None\<close> where the code leaves \<^verbatim>\<open>*p_byte\<close> alone.\<close>

definition app_fifo_get :: "app_fifo \<Rightarrow> u32 \<times> u8 option \<times> app_fifo" where
  "app_fifo_get f =
     (if fifo_length f \<noteq> 0
      then (let (x, f') = fifo_get f in (NRF_SUCCESS, Some x, f'))
      else (NRF_ERROR_NOT_FOUND, None, f))"

definition app_fifo_peek :: "app_fifo \<Rightarrow> u16 \<Rightarrow> u32 \<times> u8 option" where
  "app_fifo_peek f index =
     (if fifo_length f > ucast index then (NRF_SUCCESS, Some (fifo_peek f index))
      else (NRF_ERROR_NOT_FOUND, None))"

definition app_fifo_flush :: "app_fifo \<Rightarrow> u32 \<times> app_fifo" where
  "app_fifo_flush f = (NRF_SUCCESS, f\<lparr>read_pos := write_pos f\<rparr>)"

text \<open>The loops of the bulk operations: \<open>n\<close> iterations from \<open>index\<close> on.\<close>

primrec fifo_read_loop :: "nat \<Rightarrow> nat \<Rightarrow> app_fifo \<Rightarrow> bytes \<Rightarrow> app_fifo \<times> bytes" where
  "fifo_read_loop 0 index f arr = (f, arr)"
| "fifo_read_loop (Suc n) index f arr =
     (let (x, f') = fifo_get f in fifo_read_loop n (Suc index) f' (arr[index := x]))"

definition app_fifo_read ::
  "app_fifo option \<Rightarrow> bytes option \<Rightarrow> u32 option
     \<Rightarrow> u32 \<times> app_fifo option \<times> bytes option \<times> u32 option" where
  "app_fifo_read p_fifo p_byte_array p_size =
     (case (p_fifo, p_size) of
        (Some f, Some requested_len) \<Rightarrow>
          (let byte_count = fifo_length f;
               read_size = min requested_len byte_count
           in if byte_count = 0 then (NRF_ERROR_NOT_FOUND, Some f, p_byte_array, Some byte_count)
              else (case p_byte_array of
                      None \<Rightarrow> (NRF_SUCCESS, Some f, None, Some byte_count)
                    | Some arr \<Rightarrow>
                        (let (f', arr') = fifo_read_loop (unat read_size) 0 f arr
                         in (NRF_SUCCESS, Some f', Some arr', Some read_size))))
      | _ \<Rightarrow> (NRF_ERROR_NULL, p_fifo, p_byte_array, p_size))"

definition app_fifo_write ::
  "app_fifo option \<Rightarrow> bytes option \<Rightarrow> u32 option \<Rightarrow> u32 \<times> app_fifo option \<times> u32 option" where
  "app_fifo_write p_fifo p_byte_array p_size =
     (case (p_fifo, p_size) of
        (Some f, Some requested_len) \<Rightarrow>
          (let available_count = ucast (buf_size_mask f) - fifo_length f + 1;
               write_size = min requested_len available_count
           in if available_count = 0 then (NRF_ERROR_NO_MEM, Some f, Some available_count)
              else (case p_byte_array of
                      None \<Rightarrow> (NRF_SUCCESS, Some f, Some available_count)
                    | Some arr \<Rightarrow>
                        (NRF_SUCCESS,
                         Some (foldl (\<lambda>f index. fifo_put f (arr ! index)) f [0..<unat write_size]),
                         Some write_size)))
      | _ \<Rightarrow> (NRF_ERROR_NULL, p_fifo, p_size))"

subsection \<open>Abstraction\<close>

definition fifo_inv :: "nat \<Rightarrow> app_fifo \<Rightarrow> bool" where
  "fifo_inv k f \<longleftrightarrow> k < 16 \<and> buf_size_mask f = mask k \<and> 2 ^ k \<le> length (p_buf f)
     \<and> unat (fifo_length f) \<le> 2 ^ k"

definition fifo_contents :: "app_fifo \<Rightarrow> bytes" where
  "fifo_contents f =
     map (\<lambda>i. p_buf f ! unat ((read_pos f + of_nat i) AND ucast (buf_size_mask f)))
       [0..<unat (fifo_length f)]"

text \<open>What the bulk operations promise, for a buffer of \<open>2 ^ k\<close> bytes and \<open>len\<close> requested ones.\<close>

definition fifo_write_spec :: "nat \<Rightarrow> app_fifo \<Rightarrow> bytes \<Rightarrow> nat \<Rightarrow> u32 \<times> app_fifo option \<times> u32 option \<Rightarrow> bool" where
  "fifo_write_spec k f arr len res =
     (let free = 2 ^ k - length (fifo_contents f); n = min len free
      in case res of
           (e, Some f', Some m) \<Rightarrow>
             e = (if free = 0 then NRF_ERROR_NO_MEM else NRF_SUCCESS) \<and> m = of_nat n \<and> fifo_inv k f'
             \<and> fifo_contents f' = fifo_contents f @ take n arr
         | _ \<Rightarrow> False)"

definition fifo_read_spec ::
  "nat \<Rightarrow> app_fifo \<Rightarrow> bytes \<Rightarrow> nat \<Rightarrow> u32 \<times> app_fifo option \<times> bytes option \<times> u32 option \<Rightarrow> bool" where
  "fifo_read_spec k f arr len res =
     (let n = min len (length (fifo_contents f))
      in case res of
           (e, Some f', Some arr', Some m) \<Rightarrow>
             e = (if fifo_contents f = [] then NRF_ERROR_NOT_FOUND else NRF_SUCCESS) \<and> m = of_nat n
             \<and> fifo_inv k f' \<and> fifo_contents f' = drop n (fifo_contents f)
             \<and> arr' = take n (fifo_contents f) @ drop n arr
         | _ \<Rightarrow> False)"

subsection \<open>A bounded queue\<close>

text \<open>Taking up to \<open>n\<close> elements out of a queue.\<close>

primrec queue_drain :: "('q \<Rightarrow> u32 \<times> 'a option \<times> 'q) \<Rightarrow> nat \<Rightarrow> 'q \<Rightarrow> 'a list" where
  "queue_drain get 0 q = []"
| "queue_drain get (Suc n) q =
     (case get q of (_, Some x, q') \<Rightarrow> x # queue_drain get n q' | (_, None, q') \<Rightarrow> [])"

text \<open>
  The contract of a bounded byte queue: \<open>put\<close> appends unless the queue is full and then changes
  nothing, \<open>get\<close> takes the oldest byte or reports that there is none.
\<close>

locale bounded_queue =
  fixes put :: "'q \<Rightarrow> 'a \<Rightarrow> u32 \<times> 'q"
    and get :: "'q \<Rightarrow> u32 \<times> 'a option \<times> 'q"
    and contents :: "'q \<Rightarrow> 'a list"
    and inv :: "'q \<Rightarrow> bool"
    and cap :: nat
  assumes put_room: "inv q \<Longrightarrow> length (contents q) < cap \<Longrightarrow>
      \<exists>q'. put q x = (NRF_SUCCESS, q') \<and> inv q' \<and> contents q' = contents q @ [x]"
    and put_full: "inv q \<Longrightarrow> length (contents q) = cap \<Longrightarrow> put q x = (NRF_ERROR_NO_MEM, q)"
    and get_some: "inv q \<Longrightarrow> contents q = x # xs \<Longrightarrow>
      \<exists>q'. get q = (NRF_SUCCESS, Some x, q') \<and> inv q' \<and> contents q' = xs"
    and get_empty: "inv q \<Longrightarrow> contents q = [] \<Longrightarrow> get q = (NRF_ERROR_NOT_FOUND, None, q)"
    and bounded: "inv q \<Longrightarrow> length (contents q) \<le> cap"
begin

text \<open>Bytes that fit are all accepted and come out in the order they went in.\<close>

lemma put_all:
  assumes "inv q" and "length (contents q) + length xs \<le> cap"
  shows "inv (foldl (\<lambda>q x. snd (put q x)) q xs)
    \<and> contents (foldl (\<lambda>q x. snd (put q x)) q xs) = contents q @ xs"
  using assms
proof (induction xs arbitrary: q)
  case Nil
  then show ?case by simp
next
  case (Cons x xs)
  obtain q' where "put q x = (NRF_SUCCESS, q')" "inv q'" "contents q' = contents q @ [x]"
    using put_room [of q x] Cons.prems by auto
  with Cons.IH [of q'] Cons.prems(2) show ?case by simp
qed

lemma drain_contents: "inv q \<Longrightarrow> queue_drain get n q = take n (contents q)"
proof (induction n arbitrary: q)
  case 0
  then show ?case by simp
next
  case (Suc n)
  show ?case
  proof (cases "contents q")
    case Nil
    with Suc.prems show ?thesis by (simp add: get_empty)
  next
    case (Cons x xs)
    obtain q' where "get q = (NRF_SUCCESS, Some x, q')" "inv q'" "contents q' = xs"
      using get_some [OF Suc.prems Cons] by blast
    with Suc.IH [of q'] Cons show ?thesis by simp
  qed
qed

text \<open>A queue never refuses a byte it has room for, nor delivers one it does not hold.\<close>

lemma put_iff: "inv q \<Longrightarrow> fst (put q x) = NRF_SUCCESS \<longleftrightarrow> length (contents q) < cap"
  using put_room [of q x] put_full [of q x] bounded [of q]
  by (cases "length (contents q) < cap") (auto simp: nrf_codes NRF_SUCCESS_def)

end

subsection \<open>The ring buffer is a bounded queue\<close>

lemma ucast_mask16: "k < 16 \<Longrightarrow> ucast (mask k :: u16) = (mask k :: u32)"
  by (rule bit_word_eqI) (auto simp: bit_unsigned_iff bit_mask_iff)

lemma unat_mask32: "k \<le> 32 \<Longrightarrow> unat (mask k :: u32) = 2 ^ k - 1"
proof -
  assume k: "k \<le> 32"
  have "unat (take_bit k (- 1) :: u32) = take_bit k (mask 32)"
    unfolding unsigned_take_bit_eq unsigned_minus_1_eq_mask by simp
  moreover have "take_bit k (mask 32) = (mask k :: nat)"
    using k by (metis take_bit_of_mask min.absorb1)
  ultimately show ?thesis
    by (simp only: take_bit_minus_one_eq_mask mask_eq_exp_minus_1)
qed

lemma nat_le_pred_iff: "a \<le> 2 ^ k - Suc 0 \<longleftrightarrow> a < (2 ^ k :: nat)"
proof -
  have "(0 :: nat) < 2 ^ k"
    by simp
  then show ?thesis
    by linarith
qed

lemma fifo_index:
  assumes "k < 16"
  shows "unat ((p + of_nat i) AND ucast (mask k :: u16) :: u32) = (unat p + i) mod 2 ^ k"
proof -
  have "(2 :: nat) ^ k dvd 2 ^ 32"
    using assms by (intro le_imp_power_dvd) simp
  then have m: "a mod 4294967296 mod 2 ^ k = a mod (2 ^ k :: nat)" for a
    using mod_mod_cancel by auto
  have "unat (take_bit k (p + of_nat i)) = (unat p + i) mod 4294967296 mod 2 ^ k"
    unfolding unsigned_take_bit_eq take_bit_nat_def
    by (simp add: unat_word_ariths unat_of_nat take_bit_nat_def mod_simps)
  then show ?thesis
    using assms m by (simp add: ucast_mask16 take_bit_eq_mask)
qed

lemma fifo_contents_inv:
  assumes "fifo_inv k f"
  shows "fifo_contents f = map (\<lambda>i. p_buf f ! ((unat (read_pos f) + i) mod 2 ^ k)) [0..<unat (fifo_length f)]"
  using assms by (simp add: fifo_contents_def fifo_inv_def fifo_index)

lemma length_fifo_contents [simp]: "length (fifo_contents f) = unat (fifo_length f)"
  by (simp add: fifo_contents_def)

lemma mod_window_inj:
  fixes r i n m :: nat
  assumes "(r + i) mod m = (r + n) mod m" and "i \<le> n" and "n < i + m"
  shows "i = n"
proof -
  have "m dvd (r + n) - (r + i)"
    using assms(1,2) by (metis add_le_cancel_left mod_eq_dvd_iff_nat)
  with assms(2,3) show ?thesis
    by (simp add: nat_dvd_not_less) (metis add_diff_inverse_nat assms(3) dvd_imp_le le_antisym less_imp_le_nat
        nat_add_left_cancel_less not_less zero_less_diff)
qed

lemma unat_add1: "unat (x :: u32) < 4294967295 \<Longrightarrow> unat (x + 1) = unat x + 1"
  by (simp add: unat_word_ariths)

lemma fifo_put_step:
  assumes inv: "fifo_inv k f" and room: "unat (fifo_length f) < 2 ^ k"
  shows "fifo_inv k (fifo_put f x) \<and> fifo_contents (fifo_put f x) = fifo_contents f @ [x]"
proof -
  have k: "k < 16" and m: "buf_size_mask f = mask k" and len: "2 ^ k \<le> length (p_buf f)"
    using inv by (auto simp: fifo_inv_def)
  have k2: "(2 :: nat) ^ k \<le> 2 ^ 15"
    using k by (intro power_increasing) auto
  let ?r = "unat (read_pos f)" and ?n = "unat (fifo_length f)"
  have n1: "unat (fifo_length f + 1) = Suc ?n"
    using room k2 by (subst unat_add1) simp_all
  have l1: "fifo_length (fifo_put f x) = fifo_length f + 1"
    by (simp add: fifo_length_def fifo_put_def)
  have wp: "write_pos f = read_pos f + of_nat ?n"
    by (simp add: fifo_length_def)
  have idx: "unat (write_pos f AND ucast (buf_size_mask f)) = (?r + ?n) mod 2 ^ k"
    unfolding wp m by (rule fifo_index [OF k])
  have inv': "fifo_inv k (fifo_put f x)"
    using inv room l1 n1 by (simp add: fifo_inv_def) (simp add: fifo_put_def)
  moreover have "fifo_contents (fifo_put f x) = fifo_contents f @ [x]"
  proof -
    have "p_buf (fifo_put f x) = (p_buf f)[(?r + ?n) mod 2 ^ k := x]"
      by (simp add: fifo_put_def idx)
    moreover have "(?r + ?n) mod 2 ^ k < length (p_buf f)"
      using len by (rule less_le_trans [rotated]) simp
    moreover have "\<forall>i \<in> {0..<?n}. (?r + ?n) mod 2 ^ k \<noteq> (?r + i) mod 2 ^ k"
      using mod_window_inj [of ?r _ "2 ^ k" ?n] room by fastforce
    moreover have "read_pos (fifo_put f x) = read_pos f"
      by (simp add: fifo_put_def)
    ultimately show ?thesis
      by (simp add: fifo_contents_inv [OF inv'] fifo_contents_inv [OF inv] l1 n1)
  qed
  ultimately show ?thesis ..
qed

lemma fifo_get_step:
  assumes inv: "fifo_inv k f" and c: "fifo_contents f = x # xs"
  shows "\<exists>f'. fifo_get f = (x, f') \<and> fifo_inv k f' \<and> fifo_contents f' = xs"
proof -
  let ?f = "f\<lparr>read_pos := read_pos f + 1\<rparr>"
  have n: "unat (fifo_length f) = Suc (length xs)"
    using c by (metis length_Cons length_fifo_contents)
  then have "fifo_length f \<noteq> 0"
    by auto
  then have n': "unat (fifo_length ?f) = length xs"
    using n by (simp add: fifo_length_def unat_minus_one diff_diff_eq [symmetric])
  have "fifo_contents f = fifo_peek f 0 # fifo_contents ?f"
    unfolding fifo_contents_def n n' by (simp add: map_upt_Suc fifo_peek_def add.assoc del: upt_Suc)
  moreover have "fifo_inv k ?f"
    using inv n n' by (simp add: fifo_inv_def)
  ultimately show ?thesis
    using c by (simp add: fifo_get_def)
qed

interpretation fq: bounded_queue app_fifo_put app_fifo_get fifo_contents "fifo_inv k" "2 ^ k" for k
proof
  fix f x xs
  assume inv: "fifo_inv k f"
  have k: "k < 16" and m: "buf_size_mask f = mask k"
    using inv by (auto simp: fifo_inv_def)
  have k2: "(2 :: nat) ^ k \<le> 2 ^ 15"
    using k by (intro power_increasing) auto
  have le: "fifo_length f \<le> ucast (buf_size_mask f) \<longleftrightarrow> unat (fifo_length f) < 2 ^ k"
    using m k by (simp add: word_le_nat_alt ucast_mask16 unat_mask32 nat_le_pred_iff)
  show "length (fifo_contents f) < 2 ^ k \<Longrightarrow>
      \<exists>f'. app_fifo_put f x = (NRF_SUCCESS, f') \<and> fifo_inv k f' \<and> fifo_contents f' = fifo_contents f @ [x]"
    using fifo_put_step [OF inv] le by (simp add: app_fifo_put_def)
  show "length (fifo_contents f) = 2 ^ k \<Longrightarrow> app_fifo_put f x = (NRF_ERROR_NO_MEM, f)"
    using le by (simp add: app_fifo_put_def)
  show "fifo_contents f = x # xs \<Longrightarrow>
      \<exists>f'. app_fifo_get f = (NRF_SUCCESS, Some x, f') \<and> fifo_inv k f' \<and> fifo_contents f' = xs"
    using fifo_get_step [OF inv] by (fastforce simp: app_fifo_get_def fifo_contents_def)
  show "fifo_contents f = [] \<Longrightarrow> app_fifo_get f = (NRF_ERROR_NOT_FOUND, None, f)"
    by (simp add: app_fifo_get_def fifo_contents_def unat_eq_0)
  show "length (fifo_contents f) \<le> 2 ^ k"
    using inv by (simp add: fifo_inv_def)
qed

subsection \<open>Start-up, peek and the bulk operations\<close>

lemma and_pred_power:
  fixes n :: nat
  assumes "0 < n" and "((n - 1) AND n) = 0"
  shows "\<exists>k. n = 2 ^ k"
  using assms
proof (induction n rule: less_induct)
  case (less n)
  show ?case
  proof (cases "even n")
    case True
    then obtain q where n: "n = 2 * q" by (elim evenE)
    then have q: "0 < q" "n - 1 = 1 + 2 * (q - 1)"
      using less.prems(1) by auto
    have "((n - 1) AND n) = 2 * ((q - 1) AND q)"
      unfolding q(2) by (subst and_rec) (simp add: n)
    then obtain k where "q = 2 ^ k"
      using less.IH [of q] less.prems q(1) n by auto
    then show ?thesis
      by (intro exI [of _ "Suc k"]) (simp add: n)
  next
    case False
    then obtain q where n: "n = 2 * q + 1" by (elim oddE)
    have "((2 * q) AND (2 * q + 1)) = 2 * (q AND q)"
      by (subst and_rec) simp
    with less.prems n have "n = 2 ^ 0"
      by simp
    then show ?thesis by blast
  qed
qed

lemma is_power_of_two_iff: "IS_POWER_OF_TWO a \<longleftrightarrow> (\<exists>k < 16. a = 2 ^ k)"
proof
  assume a: "IS_POWER_OF_TWO a"
  then have "0 < unat a" and "unat (a - 1) = unat a - 1"
    by (auto simp: IS_POWER_OF_TWO_def unat_gt_0 unat_minus_one)
  moreover have "unat ((a - 1) AND a) = 0"
    using a by (simp add: IS_POWER_OF_TWO_def)
  ultimately obtain k where k: "unat a = 2 ^ k"
    using and_pred_power [of "unat a"] by (auto simp: unsigned_and_eq)
  have "(2 :: nat) ^ k < 2 ^ 16"
    using unsigned_less [of a, where ?'a = nat] k by simp
  then have "k < 16"
    by (simp only: power_strict_increasing_iff one_less_numeral_iff semiring_norm)
  moreover have "a = 2 ^ k"
  proof -
    have "word_of_nat (unat a) = a" by simp
    then show ?thesis unfolding k by simp
  qed
  ultimately show "\<exists>k < 16. a = 2 ^ k" by blast
next
  assume "\<exists>k < 16. a = 2 ^ k"
  then obtain k where k: "k < 16" and a: "a = 2 ^ k" by blast
  have "a \<noteq> 0"
    using k by (simp add: a)
  moreover have "((a - 1) AND a) = 0"
    unfolding a by (rule bit_word_eqI)
      (auto simp: bit_and_iff bit_exp_iff mask_eq_exp_minus_1 [symmetric] bit_mask_iff)
  ultimately show "IS_POWER_OF_TWO a"
    by (simp add: IS_POWER_OF_TWO_def)
qed

lemma app_fifo_init_inv:
  assumes "k < 16" and "2 ^ k \<le> length b"
  shows "\<exists>f'. app_fifo_init f (Some b) (2 ^ k) = (NRF_SUCCESS, f') \<and> fifo_inv k f' \<and> fifo_contents f' = []"
  using assms is_power_of_two_iff [of "2 ^ k"]
  by (auto simp: app_fifo_init_def fifo_inv_def fifo_contents_def fifo_length_def mask_eq_exp_minus_1)

lemma fifo_read_loop_run:
  assumes "fifo_inv k f" and "n \<le> length (fifo_contents f)" and "index + n \<le> length arr"
  shows "\<exists>f'. fifo_read_loop n index f arr =
      (f', take index arr @ take n (fifo_contents f) @ drop (index + n) arr)
    \<and> fifo_inv k f' \<and> fifo_contents f' = drop n (fifo_contents f)"
  using assms
proof (induction n arbitrary: index f arr)
  case 0
  then show ?case by simp
next
  case (Suc n)
  then obtain x xs where c: "fifo_contents f = x # xs"
    by (cases "fifo_contents f") auto
  obtain f1 where f1: "fifo_get f = (x, f1)" "fifo_inv k f1" "fifo_contents f1 = xs"
    using fifo_get_step [OF Suc.prems(1) c] by blast
  obtain f' where f': "fifo_read_loop n (Suc index) f1 (arr[index := x]) =
        (f', take (Suc index) (arr[index := x]) @ take n xs @ drop (Suc index + n) (arr[index := x]))"
      "fifo_inv k f'" "fifo_contents f' = drop n xs"
    using Suc.IH [OF f1(2), of "Suc index" "arr[index := x]"] Suc.prems(2,3) f1(3) c by auto
  have "take (Suc index) (arr[index := x]) = take index arr @ [x]"
    using Suc.prems(3) by (simp add: take_list_update_Suc)
  then show ?case
    using f1(1) f' c by simp
qed

lemma foldl_fifo_put_run:
  assumes "fifo_inv k f" and "length (fifo_contents f) + length xs \<le> 2 ^ k"
  shows "fifo_inv k (foldl fifo_put f xs) \<and> fifo_contents (foldl fifo_put f xs) = fifo_contents f @ xs"
  using assms
proof (induction xs arbitrary: f)
  case Nil
  then show ?case by simp
next
  case (Cons x xs)
  have "fifo_inv k (fifo_put f x) \<and> fifo_contents (fifo_put f x) = fifo_contents f @ [x]"
    using fifo_put_step [OF Cons.prems(1), of x] Cons.prems(2) by simp
  moreover from this have "length (fifo_contents (fifo_put f x)) + length xs \<le> 2 ^ k"
    using Cons.prems(2) by (metis add_Suc_right append.assoc length_append list.size(3,4) add.right_neutral add.assoc plus_1_eq_Suc)
  ultimately show ?case
    using Cons.IH [of "fifo_put f x"] by simp
qed

lemma foldl_nth_take:
  "n \<le> length xs \<Longrightarrow> foldl (\<lambda>f i. g f (xs ! i)) a [0..<n] = foldl g a (take n xs)"
  by (induction n) (simp_all add: take_Suc_conv_app_nth)

lemma unat_min: "unat (min a b) = min (unat a) (unat (b :: u32))"
  by (simp add: min_def word_le_nat_alt)

lemma fifo_available:
  assumes "fifo_inv k f"
  shows "unat (ucast (buf_size_mask f) - fifo_length f + 1) = 2 ^ k - unat (fifo_length f)"
proof -
  have k: "k < 16" and m: "buf_size_mask f = mask k" and l: "unat (fifo_length f) \<le> 2 ^ k"
    using assms by (auto simp: fifo_inv_def)
  have u: "unat (2 ^ k :: u32) = 2 ^ k"
  proof -
    have "(2 :: nat) ^ k \<le> 2 ^ 15"
      using k by (intro power_increasing) auto
    moreover have "(2 ^ k :: u32) = mask k + 1"
      by (simp add: mask_eq_exp_minus_1)
    ultimately show ?thesis
      using k by (simp only: unat_add1 unat_mask32 less_imp_le) (simp add: unat_add1 unat_mask32)
  qed
  have "ucast (buf_size_mask f) - fifo_length f + 1 = 2 ^ k - fifo_length f"
    unfolding m ucast_mask16 [OF k] by (simp add: mask_eq_exp_minus_1)
  moreover have "unat (2 ^ k - fifo_length f) = 2 ^ k - unat (fifo_length f)"
    using l u by (subst unat_sub) (simp_all add: word_le_nat_alt)
  ultimately show ?thesis by (simp only:)
qed

lemma app_fifo_write_run:
  assumes inv: "fifo_inv k f" and data: "unat len \<le> length arr"
  shows "fifo_write_spec k f arr (unat len) (app_fifo_write (Some f) (Some arr) (Some len))"
proof -
  define avail :: u32 where "avail = ucast (buf_size_mask f) - fifo_length f + 1"
  let ?n = "min (unat len) (2 ^ k - unat (fifo_length f))"
  have av: "unat avail = 2 ^ k - unat (fifo_length f)"
    unfolding avail_def by (rule fifo_available [OF inv])
  then have n: "unat (min len avail) = ?n"
    by (simp add: unat_min)
  have le: "unat (fifo_length f) \<le> 2 ^ k"
    using inv by (simp add: fifo_inv_def)
  have put: "fifo_inv k (foldl fifo_put f (take ?n arr))
      \<and> fifo_contents (foldl fifo_put f (take ?n arr)) = fifo_contents f @ take ?n arr"
    using le by (intro foldl_fifo_put_run [OF inv]) simp
  have z: "avail = 0 \<longleftrightarrow> 2 ^ k - unat (fifo_length f) = 0"
    using av by (metis unat_eq_0)
  have "app_fifo_write (Some f) (Some arr) (Some len) =
      (if avail = 0 then (NRF_ERROR_NO_MEM, Some f, Some avail)
       else (NRF_SUCCESS, Some (foldl fifo_put f (take ?n arr)), Some (min len avail)))"
    using foldl_nth_take [of ?n arr fifo_put f] data
    by (simp add: app_fifo_write_def Let_def avail_def [symmetric] n)
  moreover have "min len avail = of_nat ?n"
    unfolding n [symmetric] by simp
  ultimately show ?thesis
    using put z inv by (auto simp: fifo_write_spec_def Let_def)
qed

lemma app_fifo_read_run:
  assumes inv: "fifo_inv k f" and data: "unat len \<le> length arr"
  shows "fifo_read_spec k f arr (unat len) (app_fifo_read (Some f) (Some arr) (Some len))"
proof -
  let ?n = "min (unat len) (unat (fifo_length f))"
  have n: "unat (min len (fifo_length f)) = ?n"
    by (simp add: unat_min)
  obtain f' where f': "fifo_read_loop ?n 0 f arr = (f', take ?n (fifo_contents f) @ drop ?n arr)"
      "fifo_inv k f'" "fifo_contents f' = drop ?n (fifo_contents f)"
    using fifo_read_loop_run [OF inv, of ?n 0 arr] min.coboundedI1 [OF data] by auto
  have z: "fifo_length f = 0 \<longleftrightarrow> fifo_contents f = []"
    by (metis length_0_conv length_fifo_contents unat_eq_0)
  have "app_fifo_read (Some f) (Some arr) (Some len) =
      (if fifo_length f = 0 then (NRF_ERROR_NOT_FOUND, Some f, Some arr, Some 0)
       else (NRF_SUCCESS, Some f', Some (take ?n (fifo_contents f) @ drop ?n arr), Some (min len (fifo_length f))))"
    by (simp add: app_fifo_read_def Let_def n f')
  moreover have "min len (fifo_length f) = of_nat ?n"
    unfolding n [symmetric] by simp
  ultimately show ?thesis
    using f' z inv by (auto simp: fifo_read_spec_def Let_def)
qed

lemma unat_ucast_16_32: "unat (ucast (x :: u16) :: u32) = unat x"
  using unsigned_less [of x, where ?'a = nat] by (simp add: unsigned_ucast_eq take_bit_nat_eq_self)

lemma app_fifo_peek_run:
  "app_fifo_peek f i = (if unat i < length (fifo_contents f)
     then (NRF_SUCCESS, Some (fifo_contents f ! unat i)) else (NRF_ERROR_NOT_FOUND, None))"
  by (simp add: app_fifo_peek_def fifo_peek_def fifo_contents_def word_less_nat_alt unat_ucast_16_32)

lemma app_fifo_flush_run:
  "fifo_inv k f \<Longrightarrow> fifo_inv k (snd (app_fifo_flush f)) \<and> fifo_contents (snd (app_fifo_flush f)) = []"
  by (simp add: app_fifo_flush_def fifo_inv_def fifo_contents_def fifo_length_def)

subsection \<open>Properties\<close>

text \<open>
  In every state of the ring buffer, whatever its free-running positions are, bytes that
  fit are accepted one by one and come out behind the older ones, oldest first.
\<close>

lemma app_fifo_order:
  assumes "fifo_inv k f" and "length (fifo_contents f) + length xs \<le> 2 ^ k"
  shows "queue_drain app_fifo_get n (foldl (\<lambda>f x. snd (app_fifo_put f x)) f xs)
         = take n (fifo_contents f @ xs)"
  using fq.put_all [OF assms] fq.drain_contents by metis

lemma app_fifo_order_example:
  "queue_drain app_fifo_get 9 (foldl (\<lambda>f x. snd (app_fifo_put f x))
      \<lparr>p_buf = [1, 2, 3, 4], buf_size_mask = 3, read_pos = 0xFFFFFFFF, write_pos = 1\<rparr> [7, 8]) = [4, 1, 7, 8]"
  using app_fifo_order [of 2 "\<lparr>p_buf = [1, 2, 3, 4], buf_size_mask = 3, read_pos = 0xFFFFFFFF, write_pos = 1\<rparr>"
      "[7, 8]" 9]
  by (simp add: fifo_inv_def fifo_contents_def fifo_length_def mask_eq_exp_minus_1 upt_rec)

text \<open>
  \<^verbatim>\<open>app_fifo_write\<close> stores as many of the requested bytes as there is room for and
  \<^verbatim>\<open>app_fifo_read\<close> delivers as many as there are, in order; both report the count, and both refuse
  with an error and without effect exactly when the buffer is full or empty.
\<close>

lemma app_fifo_bulk:
  assumes "fifo_inv k f" and "unat len \<le> length arr"
  shows "fifo_write_spec k f arr (unat len) (app_fifo_write (Some f) (Some arr) (Some len))
    \<and> fifo_read_spec k f arr (unat len) (app_fifo_read (Some f) (Some arr) (Some len))"
  using app_fifo_write_run [OF assms] app_fifo_read_run [OF assms] ..

theorem app_fifo_bulk_witness:
  "fifo_write_spec 2 \<lparr>p_buf = [1, 2, 3, 4], buf_size_mask = 3, read_pos = 0xFFFFFFFF, write_pos = 1\<rparr> [7, 8, 9] 3
     (app_fifo_write (Some \<lparr>p_buf = [1, 2, 3, 4], buf_size_mask = 3, read_pos = 0xFFFFFFFF, write_pos = 1\<rparr>)
        (Some [7, 8, 9]) (Some 3))"
  using app_fifo_bulk [of 2 "\<lparr>p_buf = [1, 2, 3, 4], buf_size_mask = 3, read_pos = 0xFFFFFFFF, write_pos = 1\<rparr>"
      3 "[7, 8, 9]"]
  by (simp add: fifo_inv_def fifo_length_def mask_eq_exp_minus_1)

end
