(* ===== verification/Crc16.thy ===== *)
theory Crc16
  imports Prelude
begin

text \<open>
  \<^verbatim>\<open>components/libraries/crc16/crc16.c\<close>: the table-free byte-wise CRC, and the bit-serial
  CRC-16-CCITT register (polynomial 0x1021, most significant bit first) it computes.
\<close>

unbundle bit_operations_syntax

subsection \<open>The program\<close>

text \<open>
  One iteration of the loop. The C expressions are computed in 32-bit \<^verbatim>\<open>int\<close> and truncated by the
  assignment; on the 16-bit register the bits shifted out are the ones that are truncated.
\<close>

definition crc16_step :: "u16 \<Rightarrow> u8 \<Rightarrow> u16" where
  "crc16_step crc0 x =
     (let crc1 = ucast (ucast (drop_bit 8 crc0) :: u8) OR push_bit 8 crc0;
          crc2 = crc1 XOR ucast x;
          crc3 = crc2 XOR ucast (drop_bit 4 (ucast (crc2 AND 0xFF) :: u8));
          crc4 = crc3 XOR push_bit 4 (push_bit 8 crc3)
      in crc4 XOR push_bit 1 (push_bit 4 (crc4 AND 0xFF)))"

definition crc16_compute :: "bytes \<Rightarrow> nat \<Rightarrow> u16 option \<Rightarrow> u16" where
  "crc16_compute p_data len p_crc =
     foldl crc16_step (case p_crc of None \<Rightarrow> 0xFFFF | Some crc \<Rightarrow> crc) (take len p_data)"

subsection \<open>Specification\<close>

definition ccitt_shift :: "u16 \<Rightarrow> u16" where
  "ccitt_shift r = (if bit r 15 then push_bit 1 r XOR 0x1021 else push_bit 1 r)"

definition ccitt_byte :: "u16 \<Rightarrow> u8 \<Rightarrow> u16" where
  "ccitt_byte r x = (ccitt_shift ^^ 8) (r XOR push_bit 8 (ucast x))"

subsection \<open>Equivalence\<close>

text \<open>A 16-bit register as the list of its bits, least significant first.\<close>

definition bits16 :: "u16 \<Rightarrow> bool list" where
  "bits16 r = map (bit r) [0..<16]"

text \<open>One shift of the register on bits: bit 15 is fed back into bits 0, 5 and 12.\<close>

definition shift_bits :: "bool list \<Rightarrow> bool list" where
  "shift_bits b = [b ! 15, b ! 0, b ! 1, b ! 2, b ! 3, b ! 4 \<noteq> b ! 15, b ! 5, b ! 6,
     b ! 7, b ! 8, b ! 9, b ! 10, b ! 11 \<noteq> b ! 15, b ! 12, b ! 13, b ! 14]"

lemma bits16_inj: "bits16 r = bits16 r' \<Longrightarrow> r = r'"
  by (rule bit_word_eqI) (simp add: bits16_def)

lemma upt_8_16:
  "[0..<8] = [0, 1, 2, 3, 4, 5, 6, 7 :: nat]"
  "[0..<16] = [0, 1, 2, 3, 4, 5, 6, 7, 8, 9, 10, 11, 12, 13, 14, 15 :: nat]"
  by (simp_all add: upt_rec)

lemma bits16_unfold:
  "bits16 r = [bit r 0, bit r 1, bit r 2, bit r 3, bit r 4, bit r 5, bit r 6, bit r 7,
               bit r 8, bit r 9, bit r 10, bit r 11, bit r 12, bit r 13, bit r 14, bit r 15]"
  by (simp only: bits16_def upt_8_16 list.map)

lemma bit_shift1: "bit (r * 2 :: u16) n \<longleftrightarrow> 0 < n \<and> n < 16 \<and> bit r (n - 1)"
  by (subst mult.commute) (auto simp: bit_double_iff dest: bit_imp_le_length)

lemma bits16_ccitt_shift: "bits16 (ccitt_shift r) = shift_bits (bits16 r)"
  by (simp add: bits16_unfold shift_bits_def ccitt_shift_def bit_xor_iff bit_shift1)

lemma shift_bits_Cons:
  "shift_bits [b0, b1, b2, b3, b4, b5, b6, b7, b8, b9, b10, b11, b12, b13, b14, b15] =
     [b15, b0, b1, b2, b3, b4 \<noteq> b15, b5, b6, b7, b8, b9, b10, b11 \<noteq> b15, b12, b13, b14]"
  by (simp add: shift_bits_def)

lemma funpow8: "(f ^^ 8) x = f (f (f (f (f (f (f (f x)))))))"
  by (simp add: numeral_eq_Suc)

lemma replicate8: "replicate 8 x = [x, x, x, x, x, x, x, x]"
  by (simp add: numeral_eq_Suc)

lemma bits16_step:
  "bits16 (crc16_step r x) =
     (shift_bits ^^ 8) (map2 (\<noteq>) (bits16 r) (replicate 8 False @ map (bit x) [0..<8]))"
proof -
  have x: "\<not> bit x n" if "8 \<le> n" for n
    using that by (auto dest: bit_imp_le_length)
  show ?thesis
    unfolding bits16_unfold crc16_step_def Let_def
    by (simp add: bit_xor_iff bit_or_iff bit_and_iff bit_push_bit_iff bit_drop_bit_eq bit_unsigned_iff
        upt_8_16 replicate8 funpow8 shift_bits_Cons x del: upt.simps funpow.simps) argo
qed

lemma bits16_funpow: "bits16 ((ccitt_shift ^^ n) r) = (shift_bits ^^ n) (bits16 r)"
  by (induction n) (simp_all add: bits16_ccitt_shift)

lemma bits16_load:
  "bits16 (r XOR push_bit 8 (ucast x)) = map2 (\<noteq>) (bits16 r) (replicate 8 False @ map (bit (x :: u8)) [0..<8])"
  by (simp add: bits16_unfold replicate8 upt_8_16 bit_xor_iff bit_push_bit_iff bit_unsigned_iff
      del: upt.simps)

lemma crc16_step_ccitt: "crc16_step = ccitt_byte"
  by (intro ext bits16_inj) (simp only: bits16_step ccitt_byte_def bits16_funpow bits16_load)

subsection \<open>Properties\<close>

text \<open>
  \<^verbatim>\<open>crc16_compute\<close> is CRC-16-CCITT: from the initial value 0xFFFF, or the value handed in, it
  leaves the register that shifting in the bytes bit by bit with polynomial 0x1021 leaves.
\<close>

lemma crc16_is_ccitt:
  "crc16_compute p_data len p_crc =
     foldl ccitt_byte (case p_crc of None \<Rightarrow> 0xFFFF | Some crc \<Rightarrow> crc) (take len p_data)"
  by (simp add: crc16_compute_def crc16_step_ccitt)

text \<open>
  A checksum can be computed in pieces: feeding the result of one call into the next
  gives the checksum of the concatenation.
\<close>

lemma crc16_incremental:
  "crc16_compute (xs @ ys) (length xs + length ys) p_crc =
     crc16_compute ys (length ys) (Some (crc16_compute xs (length xs) p_crc))"
  by (simp add: crc16_compute_def)

end
