(* ===== verification/FStorage.thy ===== *)
theory FStorage
  imports SoftDevice
begin

text \<open>
  Flash access, \<^verbatim>\<open>components/libraries/fstorage\<close>: a ring of four requested operations, of which the
  one at the read position is executed in requests to the stack (\<^verbatim>\<open>sd_flash_write\<close> of at most 256
  words, \<^verbatim>\<open>sd_flash_page_erase\<close> of one page); a system event tells the end of each request. The clients
  register configurations in a linker section; their callbacks may call the module again, so a
  callback takes the module's state and returns it. Configuration of the nRF51 build.
\<close>

unbundle bit_operations_syntax

subsection \<open>Data\<close>

definition FS_SUCCESS :: u32 where [nrf_codes]: "FS_SUCCESS = 0"
definition FS_ERR_NOT_INITIALIZED :: u32 where [nrf_codes]: "FS_ERR_NOT_INITIALIZED = 1"
definition FS_ERR_INVALID_CFG :: u32 where [nrf_codes]: "FS_ERR_INVALID_CFG = 2"
definition FS_ERR_NULL_ARG :: u32 where [nrf_codes]: "FS_ERR_NULL_ARG = 3"
definition FS_ERR_INVALID_ARG :: u32 where [nrf_codes]: "FS_ERR_INVALID_ARG = 4"
definition FS_ERR_INVALID_ADDR :: u32 where [nrf_codes]: "FS_ERR_INVALID_ADDR = 5"
definition FS_ERR_UNALIGNED_ADDR :: u32 where [nrf_codes]: "FS_ERR_UNALIGNED_ADDR = 6"
definition FS_ERR_QUEUE_FULL :: u32 where [nrf_codes]: "FS_ERR_QUEUE_FULL = 7"
definition FS_ERR_OPERATION_TIMEOUT :: u32 where [nrf_codes]: "FS_ERR_OPERATION_TIMEOUT = 8"
definition FS_ERR_INTERNAL :: u32 where [nrf_codes]: "FS_ERR_INTERNAL = 9"

definition FS_FLAG_INITIALIZED :: u8 where "FS_FLAG_INITIALIZED = 1"
definition FS_FLAG_PROCESSING :: u8 where "FS_FLAG_PROCESSING = 2"
definition FS_FLAG_FLASH_REQ_PENDING :: u8 where "FS_FLAG_FLASH_REQ_PENDING = 4"

definition FS_QUEUE_SIZE :: u32 where "FS_QUEUE_SIZE = 4"
definition FS_OP_MAX_RETRIES :: u8 where "FS_OP_MAX_RETRIES = 3"
definition FS_MAX_WRITE_SIZE_WORDS :: u16 where "FS_MAX_WRITE_SIZE_WORDS = 256"
definition FS_PAGE_SIZE :: u32 where "FS_PAGE_SIZE = 1024"
definition FS_PAGE_SIZE_WORDS :: u32 where "FS_PAGE_SIZE_WORDS = 256"

text \<open>A configuration; \<^verbatim>\<open>NULL\<close> is the address 0.\<close>

record fs_config =
  cfg_start_addr :: u32
  cfg_end_addr :: u32
  cfg_callback :: fnptr
  cfg_num_pages :: u8
  cfg_priority :: u8

text \<open>The union of \<^verbatim>\<open>fs_op_t\<close> with its tag; a zeroed element is \<open>FS_OP_NONE\<close>.\<close>

datatype fs_op_code =
    FS_OP_NONE
  | FS_OP_STORE (st_src: u32) (st_dest: u32) (st_length_words: u16) (st_offset: u16)
  | FS_OP_ERASE (er_page: u16) (er_pages_erased: u16) (er_pages_to_erase: u16)

record fs_op =
  op_config :: u32
  op_context :: u32
  op_code :: fs_op_code

datatype fs_evt = FS_EVT_STORE u32 u32 u16 | FS_EVT_ERASE u32 u16 u16

text \<open>
  The module's variables and the section with the configurations, 16 bytes each, at the address
  the linker gave it.
\<close>

record fstorage =
  fs_flags :: u8
  fs_ops :: "fs_op list"
  fs_rp :: u32
  fs_count :: u32
  fs_retry_count :: u8
  fs_section :: "fs_config list"
  fs_section_start :: u32

definition fs_config_at :: "fstorage \<Rightarrow> u32 \<Rightarrow> fs_config" where
  "fs_config_at m p = fs_section m ! (unat (p - fs_section_start m) div 16)"

definition fs_flag :: "fstorage \<Rightarrow> u8 \<Rightarrow> bool" where
  "fs_flag m f \<longleftrightarrow> (fs_flags m AND f) \<noteq> 0"

definition fs_set :: "u8 \<Rightarrow> fstorage \<Rightarrow> fstorage" where
  "fs_set f m = m\<lparr>fs_flags := fs_flags m OR f\<rparr>"

definition fs_clear :: "u8 \<Rightarrow> fstorage \<Rightarrow> fstorage" where
  "fs_clear f m = m\<lparr>fs_flags := fs_flags m AND NOT f\<rparr>"

definition fs_cur :: "fstorage \<Rightarrow> fs_op" where
  "fs_cur m = fs_ops m ! unat (fs_rp m)"

definition fs_put_cur :: "fs_op_code \<Rightarrow> fstorage \<Rightarrow> fstorage" where
  "fs_put_cur c m = m\<lparr>fs_ops := (fs_ops m)[unat (fs_rp m) := (fs_cur m)\<lparr>op_code := c\<rparr>]\<rparr>"

text \<open>The code behind the callback pointers.\<close>

type_synonym 'w fs_cb = "fnptr \<Rightarrow> fs_evt \<Rightarrow> u32 \<Rightarrow> fstorage \<Rightarrow> ('w world_scheme, fstorage) prog"

subsection \<open>Queue processing\<close>

text \<open>A zeroed event has the identifier \<^verbatim>\<open>FS_EVT_STORE\<close>.\<close>

definition fs_evt_of :: "fs_op \<Rightarrow> fs_evt" where
  "fs_evt_of p_op =
     (case op_code p_op of
        FS_OP_STORE src dest len off \<Rightarrow> FS_EVT_STORE (op_context p_op) dest len
      | FS_OP_ERASE page erased to_erase \<Rightarrow> FS_EVT_ERASE (op_context p_op) (page - erased) page
      | FS_OP_NONE \<Rightarrow> FS_EVT_STORE (op_context p_op) 0 0)"

definition send_event :: "'w fs_cb \<Rightarrow> fs_op \<Rightarrow> u32 \<Rightarrow> fstorage \<Rightarrow> ('w world_scheme, fstorage) prog" where
  "send_event cb p_op result m =
     cb (cfg_callback (fs_config_at m (op_config p_op))) (fs_evt_of p_op) result m"

definition check_config :: "fstorage \<Rightarrow> u32 \<Rightarrow> bool" where
  "check_config m config \<longleftrightarrow> config \<noteq> 0 \<and> fs_section_start m \<le> config
     \<and> fs_section_start m + of_nat (16 * length (fs_section m)) > config"

definition chunk_len :: "u16 \<Rightarrow> u16 \<Rightarrow> u16" where
  "chunk_len len off =
     (if uint len - uint off < uint FS_MAX_WRITE_SIZE_WORDS
      then len - off else FS_MAX_WRITE_SIZE_WORDS)"

definition store_execute :: "u32 \<Rightarrow> u32 \<Rightarrow> u16 \<Rightarrow> u16 \<Rightarrow> ('w world_scheme, u32) prog" where
  "store_execute src dest len off =
     svc_rc (Soc (Sd_flash_write (dest + 4 * ucast off) (src + 4 * ucast off) (ucast (chunk_len len off))))"

definition erase_execute :: "u16 \<Rightarrow> ('w world_scheme, u32) prog" where
  "erase_execute page = svc_rc (Soc (Sd_flash_page_erase (ucast page)))"

definition queue_advance :: "fstorage \<Rightarrow> fstorage" where
  "queue_advance m =
     (let m = m\<lparr>fs_count := fs_count m - 1\<rparr>;
          m = (if fs_count m = 0 then fs_clear FS_FLAG_PROCESSING m else m);
          m = m\<lparr>fs_rp := fs_rp m + 1\<rparr>
      in if fs_rp m = FS_QUEUE_SIZE then m\<lparr>fs_rp := 0\<rparr> else m)"

definition op_execute :: "fs_op \<Rightarrow> ('w world_scheme, u32) prog" where
  "op_execute p_op =
     (case op_code p_op of
        FS_OP_STORE src dest len off \<Rightarrow> store_execute src dest len off
      | FS_OP_ERASE page _ _ \<Rightarrow> erase_execute page
      | FS_OP_NONE \<Rightarrow> ret FS_ERR_INTERNAL)"

definition queue_process :: "'w fs_cb \<Rightarrow> fstorage \<Rightarrow> ('w world_scheme, fstorage) prog" where
  "queue_process cb m =
     (if fs_count m > 0
      then bnd (op_execute (fs_cur m)) (\<lambda>e.
           if e = NRF_ERROR_BUSY then ret (fs_set FS_FLAG_FLASH_REQ_PENDING (fs_clear FS_FLAG_PROCESSING m))
           else if e \<noteq> NRF_SUCCESS then send_event cb (fs_cur m) FS_ERR_INTERNAL m
           else ret m)
      else ret m)"

definition queue_start :: "'w fs_cb \<Rightarrow> fstorage \<Rightarrow> ('w world_scheme, fstorage) prog" where
  "queue_start cb m =
     (if \<not> fs_flag m FS_FLAG_PROCESSING \<and> \<not> fs_flag m FS_FLAG_FLASH_REQ_PENDING
      then queue_process cb (fs_set FS_FLAG_PROCESSING m) else ret m)"

definition on_operation_success :: "'w fs_cb \<Rightarrow> fstorage \<Rightarrow> ('w world_scheme, fstorage) prog" where
  "on_operation_success cb m =
     (let m = m\<lparr>fs_retry_count := 0\<rparr>
      in case op_code (fs_cur m) of
           FS_OP_STORE src dest len off \<Rightarrow>
             (let off = off + chunk_len len off;
                  m = fs_put_cur (FS_OP_STORE src dest len off) m
              in if off = len then bnd (send_event cb (fs_cur m) FS_SUCCESS m) (\<lambda>m. ret (queue_advance m)) else ret m)
         | FS_OP_ERASE page erased to_erase \<Rightarrow>
             (let m = fs_put_cur (FS_OP_ERASE (page + 1) (erased + 1) to_erase) m
              in if erased + 1 = to_erase
                 then bnd (send_event cb (fs_cur m) FS_SUCCESS m) (\<lambda>m. ret (queue_advance m)) else ret m)
         | FS_OP_NONE \<Rightarrow> ret m)"

definition on_operation_failure :: "'w fs_cb \<Rightarrow> fstorage \<Rightarrow> ('w world_scheme, fstorage) prog" where
  "on_operation_failure cb m =
     (let m = m\<lparr>fs_retry_count := fs_retry_count m + 1\<rparr>
      in if fs_retry_count m > FS_OP_MAX_RETRIES
         then bnd (send_event cb (fs_cur m) FS_ERR_OPERATION_TIMEOUT (m\<lparr>fs_retry_count := 0\<rparr>)) (\<lambda>m. ret (queue_advance m))
         else ret m)"

text \<open>The index of the next free element, which is zeroed and counted.\<close>

definition queue_get_next_free :: "fstorage \<Rightarrow> (nat \<times> fstorage) option" where
  "queue_get_next_free m =
     (if fs_count m = FS_QUEUE_SIZE then None
      else (let idx = (if fs_rp m + fs_count m < FS_QUEUE_SIZE then fs_rp m + fs_count m
                       else fs_rp m + fs_count m - FS_QUEUE_SIZE)
            in Some (unat idx, m\<lparr>fs_count := fs_count m + 1,
                 fs_ops := (fs_ops m)[unat idx := \<lparr>op_config = 0, op_context = 0, op_code = FS_OP_NONE\<rparr>]\<rparr>)))"

subsection \<open>Interface\<close>

definition fs_enqueue ::
  "'w fs_cb \<Rightarrow> fs_op \<Rightarrow> fstorage \<Rightarrow> ('w world_scheme, u32 \<times> fstorage) prog" where
  "fs_enqueue cb p_op m =
     (case queue_get_next_free m of
        None \<Rightarrow> ret (FS_ERR_QUEUE_FULL, m)
      | Some (idx, m) \<Rightarrow>
          bnd (queue_start cb (m\<lparr>fs_ops := (fs_ops m)[idx := p_op]\<rparr>)) (\<lambda>m. ret (FS_SUCCESS, m)))"

definition fs_store ::
  "'w fs_cb \<Rightarrow> u32 \<Rightarrow> u32 \<Rightarrow> u32 \<Rightarrow> u16 \<Rightarrow> u32 \<Rightarrow> fstorage \<Rightarrow> ('w world_scheme, u32 \<times> fstorage) prog" where
  "fs_store cb p_config p_dest p_src length_words p_context m =
     (if \<not> fs_flag m FS_FLAG_INITIALIZED then ret (FS_ERR_NOT_INITIALIZED, m)
      else if \<not> check_config m p_config then ret (FS_ERR_INVALID_CFG, m)
      else if p_src = 0 \<or> p_dest = 0 then ret (FS_ERR_NULL_ARG, m)
      else if (p_src AND 3) \<noteq> 0 \<or> (p_dest AND 3) \<noteq> 0 then ret (FS_ERR_UNALIGNED_ADDR, m)
      else if cfg_start_addr (fs_config_at m p_config) > p_dest
           \<or> cfg_end_addr (fs_config_at m p_config) < p_dest + 4 * ucast length_words
      then ret (FS_ERR_INVALID_ADDR, m)
      else if length_words = 0 then ret (FS_ERR_INVALID_ARG, m)
      else fs_enqueue cb \<lparr>op_config = p_config, op_context = p_context,
             op_code = FS_OP_STORE p_src p_dest length_words 0\<rparr> m)"

definition fs_erase ::
  "'w fs_cb \<Rightarrow> u32 \<Rightarrow> u32 \<Rightarrow> u16 \<Rightarrow> u32 \<Rightarrow> fstorage \<Rightarrow> ('w world_scheme, u32 \<times> fstorage) prog" where
  "fs_erase cb p_config p_page_addr num_pages p_context m =
     (if \<not> fs_flag m FS_FLAG_INITIALIZED then ret (FS_ERR_NOT_INITIALIZED, m)
      else if \<not> check_config m p_config then ret (FS_ERR_INVALID_CFG, m)
      else if p_page_addr = 0 then ret (FS_ERR_NULL_ARG, m)
      else if (p_page_addr AND (FS_PAGE_SIZE - 1)) \<noteq> 0 then ret (FS_ERR_UNALIGNED_ADDR, m)
      else if p_page_addr < cfg_start_addr (fs_config_at m p_config)
           \<or> p_page_addr + 4 * (FS_PAGE_SIZE_WORDS * ucast num_pages) > cfg_end_addr (fs_config_at m p_config)
      then ret (FS_ERR_INVALID_ADDR, m)
      else if num_pages = 0 then ret (FS_ERR_INVALID_ARG, m)
      else fs_enqueue cb \<lparr>op_config = p_config, op_context = p_context,
             op_code = FS_OP_ERASE (ucast (p_page_addr div FS_PAGE_SIZE)) 0 num_pages\<rparr> m)"

definition fs_queued_op_count_get :: "u32 option \<Rightarrow> fstorage \<Rightarrow> u32 \<times> u32 option" where
  "fs_queued_op_count_get p_op_count m =
     (case p_op_count of None \<Rightarrow> (FS_ERR_NULL_ARG, None) | Some _ \<Rightarrow> (FS_SUCCESS, Some (fs_count m)))"

definition fs_queue_is_full :: "fstorage \<Rightarrow> bool" where
  "fs_queue_is_full m \<longleftrightarrow> fs_count m = FS_QUEUE_SIZE"

definition fs_queue_is_empty :: "fstorage \<Rightarrow> bool" where
  "fs_queue_is_empty m \<longleftrightarrow> fs_count m = 0"

definition fs_fake_init :: "fstorage \<Rightarrow> u32 \<times> fstorage" where
  "fs_fake_init m = (FS_SUCCESS, fs_set FS_FLAG_INITIALIZED m)"

definition fs_sys_event_handler :: "'w fs_cb \<Rightarrow> u32 \<Rightarrow> fstorage \<Rightarrow> ('w world_scheme, fstorage) prog" where
  "fs_sys_event_handler cb sys_evt m =
     bnd (if fs_flag m FS_FLAG_PROCESSING
          then if sys_evt = NRF_EVT_FLASH_OPERATION_SUCCESS then on_operation_success cb m
               else if sys_evt = NRF_EVT_FLASH_OPERATION_ERROR then on_operation_failure cb m
               else ret m
          else if fs_flag m FS_FLAG_FLASH_REQ_PENDING
          then (let m = fs_clear FS_FLAG_FLASH_REQ_PENDING m
                in ret (if fs_count m > 0 then fs_set FS_FLAG_PROCESSING m else m))
          else ret m)
       (queue_process cb)"

text \<open>
  Assigning flash to the configurations whose addresses are not set: the one with the highest
  priority gets the highest free pages. \<^verbatim>\<open>max_index\<close> is an 8 bit number. The end of the usable flash
  comes from two registers.
\<close>

definition fs_flash_page_end_addr :: "u32 \<Rightarrow> u32 \<Rightarrow> u32" where
  "fs_flash_page_end_addr bootloader_addr codesize =
     (if bootloader_addr \<noteq> 0xFFFFFFFF then bootloader_addr else codesize * FS_PAGE_SIZE)"

definition cfg_set :: "fs_config \<Rightarrow> bool" where
  "cfg_set c \<longleftrightarrow> cfg_start_addr c \<noteq> 0 \<and> cfg_end_addr c \<noteq> 0"

definition fs_pick :: "fs_config list \<Rightarrow> nat \<Rightarrow> u8 \<times> u8" where
  "fs_pick cs i =
     foldl (\<lambda>(max_priority, max_index) j.
        if cfg_set (cs ! j) then (max_priority, max_index)
        else if cfg_priority (cs ! j) > max_priority then (cfg_priority (cs ! j), of_nat j)
        else (max_priority, max_index)) (0, of_nat i) [0..<length cs]"

definition fs_assign :: "fs_config list \<times> u32 \<Rightarrow> nat \<Rightarrow> fs_config list \<times> u32" where
  "fs_assign = (\<lambda>(cs, p_current_end) i.
     let k = unat (snd (fs_pick cs i));
         start = p_current_end - 4 * (ucast (cfg_num_pages (cs ! k)) * FS_PAGE_SIZE_WORDS)
     in (cs[k := (cs ! k)\<lparr>cfg_end_addr := p_current_end, cfg_start_addr := start\<rparr>], start))"

definition fs_init :: "u32 \<Rightarrow> u32 \<Rightarrow> fstorage \<Rightarrow> u32 \<times> fstorage" where
  "fs_init bootloader_addr codesize m =
     (if fs_flag m FS_FLAG_INITIALIZED then (FS_SUCCESS, m)
      else (let cs = fs_section m;
                configs_to_init = length cs - length (filter cfg_set cs)
            in (FS_SUCCESS, fs_set FS_FLAG_INITIALIZED
                 (m\<lparr>fs_section := fst (foldl fs_assign (cs, fs_flash_page_end_addr bootloader_addr codesize) [0..<configs_to_init])\<rparr>))))"

subsection \<open>Specification\<close>

text \<open>The operations in the ring, the one being executed first, and what the flags mean.\<close>

definition fs_queue :: "fstorage \<Rightarrow> fs_op list" where
  "fs_queue m = map (\<lambda>i. fs_ops m ! ((unat (fs_rp m) + i) mod 4)) [0..<unat (fs_count m)]"

definition fs_inv :: "fstorage \<Rightarrow> bool" where
  "fs_inv m \<longleftrightarrow> length (fs_ops m) = 4 \<and> unat (fs_rp m) < 4 \<and> unat (fs_count m) \<le> 4
     \<and> \<not> (fs_flag m FS_FLAG_PROCESSING \<and> fs_flag m FS_FLAG_FLASH_REQ_PENDING)
     \<and> (fs_count m > 0 \<longleftrightarrow> fs_flag m FS_FLAG_PROCESSING \<or> fs_flag m FS_FLAG_FLASH_REQ_PENDING)"

text \<open>System events one after the other.\<close>

primrec fs_events :: "'w fs_cb \<Rightarrow> u32 list \<Rightarrow> fstorage \<Rightarrow> ('w world_scheme, fstorage) prog" where
  "fs_events cb [] m = ret m"
| "fs_events cb (e # es) m = bnd (fs_sys_event_handler cb e m) (fs_events cb es)"

text \<open>The words a write request copies, as pairs of destination and source address.\<close>

fun words_of :: "call \<Rightarrow> (u32 \<times> u32) list" where
  "words_of (Soc (Sd_flash_write dest src len)) =
     map (\<lambda>j. (dest + 4 * of_nat j, src + 4 * of_nat j)) [0..<unat len]"
| "words_of _ = []"

text \<open>The requests that write \<open>len\<close> words from the offset on, 256 words at a time.\<close>

function fs_writes :: "u32 \<Rightarrow> u32 \<Rightarrow> nat \<Rightarrow> nat \<Rightarrow> call list" where
  "fs_writes src dest len off =
     (if off < len
      then Soc (Sd_flash_write (dest + 4 * of_nat off) (src + 4 * of_nat off) (of_nat (min 256 (len - off))))
           # fs_writes src dest len (off + 256)
      else [])"
  by pat_completeness auto
termination
  by (relation "measure (\<lambda>(src, dest, len, off). len - off)") auto

declare fs_writes.simps [simp del]

text \<open>The request of an operation in its present state.\<close>

definition fs_request :: "fs_op \<Rightarrow> call" where
  "fs_request op =
     (case op_code op of
        FS_OP_STORE src dest len off \<Rightarrow>
          Soc (Sd_flash_write (dest + 4 * ucast off) (src + 4 * ucast off) (ucast (chunk_len len off)))
      | FS_OP_ERASE page _ _ \<Rightarrow> Soc (Sd_flash_page_erase (ucast page))
      | FS_OP_NONE \<Rightarrow> Soc (Sd_flash_page_erase 0))"

text \<open>What identifies an operation to its client.\<close>

definition op_id :: "fs_op \<Rightarrow> u32 \<times> u32" where
  "op_id op = (op_config op, op_context op)"

text \<open>What a client can ask for, and everything that can happen to the module.\<close>

datatype fs_ask =
    Ask_store u32 u32 u32 u16 u32
  | Ask_erase u32 u32 u16 u32

datatype fs_input = In_ask fs_ask | In_event u32

fun ask_op :: "fs_ask \<Rightarrow> fs_op" where
  "ask_op (Ask_store cfg dest src len ctx) =
     \<lparr>op_config = cfg, op_context = ctx, op_code = FS_OP_STORE src dest len 0\<rparr>"
| "ask_op (Ask_erase cfg page n ctx) =
     \<lparr>op_config = cfg, op_context = ctx, op_code = FS_OP_ERASE (ucast (page div FS_PAGE_SIZE)) 0 n\<rparr>"

fun fs_call :: "'w fs_cb \<Rightarrow> fs_ask \<Rightarrow> fstorage \<Rightarrow> ('w world_scheme, u32 \<times> fstorage) prog" where
  "fs_call cb (Ask_store cfg dest src len ctx) m = fs_store cb cfg dest src len ctx m"
| "fs_call cb (Ask_erase cfg page n ctx) m = fs_erase cb cfg page n ctx m"

text \<open>
  A client that keeps a book: the operations accepted from it, in the order of its calls, and what
  it was told. An operation is entered behind those accepted before its call; those that the client
  asked for in a callback during the call come after it.
\<close>

record flash_client = world +
  fl_taken :: "fs_op list"
  fl_told :: "(fs_evt \<times> u32) list"

type_synonym fl = "unit flash_client_ext"

definition fs_noted :: "fl fs_cb \<Rightarrow> fs_ask \<Rightarrow> fstorage \<Rightarrow> (fl world_scheme, fstorage) prog" where
  "fs_noted cb a m = (\<lambda>s. bnd (fs_call cb a m)
     (\<lambda>(e, m) s'. (Ret m, if e = FS_SUCCESS
        then s'\<lparr>fl_taken := take (length (fl_taken s)) (fl_taken s') @ ask_op a # drop (length (fl_taken s)) (fl_taken s')\<rparr>
        else s')) s)"

primrec fs_asks :: "fl fs_cb \<Rightarrow> fs_ask list \<Rightarrow> fstorage \<Rightarrow> (fl world_scheme, fstorage) prog" where
  "fs_asks cb [] m = ret m"
| "fs_asks cb (a # as) m = bnd (fs_noted cb a m) (fs_asks cb as)"

text \<open>
  Its callback enters the event and then asks for any number of operations, which may depend on the
  event, on the result and on everything that happened before. Those calls are made while an
  operation is being executed, and so never lead to another callback: \<open>inner\<close>, the callback they
  are given, is arbitrary.
\<close>

definition client_cb ::
  "(fnptr \<Rightarrow> fs_evt \<Rightarrow> u32 \<Rightarrow> fl world_scheme \<Rightarrow> fs_ask list) \<Rightarrow> fl fs_cb \<Rightarrow> fl fs_cb" where
  "client_cb reqs inner f e r m = (\<lambda>s. fs_asks inner (reqs f e r s) m (s\<lparr>fl_told := fl_told s @ [(e, r)]\<rparr>))"

fun fs_step :: "fl fs_cb \<Rightarrow> fs_input \<Rightarrow> fstorage \<Rightarrow> (fl world_scheme, fstorage) prog" where
  "fs_step cb (In_ask a) m = fs_noted cb a m"
| "fs_step cb (In_event e) m = fs_sys_event_handler cb e m"

primrec fs_run :: "fl fs_cb \<Rightarrow> fs_input list \<Rightarrow> fstorage \<Rightarrow> (fl world_scheme, fstorage) prog" where
  "fs_run cb [] m = ret m"
| "fs_run cb (i # is) m = bnd (fs_step cb i m) (fs_run cb is)"

text \<open>An operation as it was asked for, whatever of it is done; one that is done completely.\<close>

definition op_origin :: "fs_op \<Rightarrow> fs_op" where
  "op_origin op = op\<lparr>op_code := (case op_code op of
       FS_OP_STORE src dest len off \<Rightarrow> FS_OP_STORE src dest len 0
     | FS_OP_ERASE page erased to_erase \<Rightarrow> FS_OP_ERASE (page - erased) 0 to_erase
     | FS_OP_NONE \<Rightarrow> FS_OP_NONE)\<rparr>"






definition flash_grants :: "'w world_scheme \<Rightarrow> bool" where
  "flash_grants s \<longleftrightarrow> (\<forall>h d a n. rc (sd_env s h (Soc (Sd_flash_write d a n))) = NRF_SUCCESS)
     \<and> (\<forall>h p. rc (sd_env s h (Soc (Sd_flash_page_erase p))) = NRF_SUCCESS)"

text \<open>
  Flash handed out from the top in a given order: the pages of the configurations that came before
  are above, and the rest is untouched.
\<close>

definition pages_of :: "fs_config list \<Rightarrow> nat list \<Rightarrow> nat" where
  "pages_of cs order = sum_list (map (\<lambda>j. unat (cfg_num_pages (cs ! j))) order)"

definition stacked :: "fs_config list \<Rightarrow> u32 \<Rightarrow> nat list \<Rightarrow> fs_config list \<Rightarrow> bool" where
  "stacked cs page_end order cs' \<longleftrightarrow> length cs' = length cs \<and> distinct order
     \<and> (\<forall>j < length cs. j \<notin> set order \<longrightarrow> cs' ! j = cs ! j)
     \<and> (\<forall>k < length order. cs' ! (order ! k) = (cs ! (order ! k))
          \<lparr>cfg_end_addr := page_end - of_nat (1024 * pages_of cs (take k order)),
           cfg_start_addr := page_end - of_nat (1024 * pages_of cs (take (Suc k) order))\<rparr>)"

definition fs_unset :: "fs_config list \<Rightarrow> nat list" where
  "fs_unset cs = filter (\<lambda>j. \<not> cfg_set (cs ! j)) [0..<length cs]"

text \<open>A module with one client, and one before initialisation with two, for examples.\<close>

definition demo_fs :: fstorage where
  "demo_fs = \<lparr>fs_flags = 1, fs_ops = replicate 4 \<lparr>op_config = 0, op_context = 0, op_code = FS_OP_NONE\<rparr>, fs_rp = 3, fs_count = 0,
     fs_retry_count = 0,
     fs_section = [\<lparr>cfg_start_addr = 0x3F000, cfg_end_addr = 0x40000, cfg_callback = 1, cfg_num_pages = 4, cfg_priority = 255\<rparr>],
     fs_section_start = 0x20000100\<rparr>"

definition demo_fs_fresh :: fstorage where
  "demo_fs_fresh = demo_fs\<lparr>fs_flags := 0, fs_section :=
     [\<lparr>cfg_start_addr = 0, cfg_end_addr = 0, cfg_callback = 1, cfg_num_pages = 1, cfg_priority = 254\<rparr>,
      \<lparr>cfg_start_addr = 0, cfg_end_addr = 0, cfg_callback = 2, cfg_num_pages = 4, cfg_priority = 255\<rparr>]\<rparr>"

definition demo_fs_cb :: "'w fs_cb" where
  "demo_fs_cb f e r m = ret m"

text \<open>A world with an empty book, and a client that asks for one more store when one has ended.\<close>

definition demo_flash_world :: "(nat \<Rightarrow> u32) \<Rightarrow> fl world_scheme" where
  "demo_flash_world answers = \<lparr>sd_env = \<lambda>h c. null_reply\<lparr>rc := answers (length h)\<rparr>, sd_trace = [], fl_taken = [], fl_told = []\<rparr>"

definition demo_flash_reqs :: "fnptr \<Rightarrow> fs_evt \<Rightarrow> u32 \<Rightarrow> fl world_scheme \<Rightarrow> fs_ask list" where
  "demo_flash_reqs f e r s = (if length (fl_told s) = 0 then [Ask_store 0x20000100 0x3F800 0x20002000 4 9] else [])"

subsection \<open>Flags\<close>

lemma fs_flag_bit:
  "fs_flag m FS_FLAG_INITIALIZED \<longleftrightarrow> bit (fs_flags m) 0"
  "fs_flag m FS_FLAG_PROCESSING \<longleftrightarrow> bit (fs_flags m) 1"
  "fs_flag m FS_FLAG_FLASH_REQ_PENDING \<longleftrightarrow> bit (fs_flags m) 2"
  using bit_iff_and_push_bit_not_eq_0 [of "fs_flags m" 0] bit_iff_and_push_bit_not_eq_0 [of "fs_flags m" 1]
    bit_iff_and_push_bit_not_eq_0 [of "fs_flags m" 2]
  by (simp_all add: fs_flag_def FS_FLAG_INITIALIZED_def FS_FLAG_PROCESSING_def FS_FLAG_FLASH_REQ_PENDING_def push_bit_eq_mult)

lemma fs_flags_after:
  "bit (fs_flags (fs_set FS_FLAG_INITIALIZED m)) n \<longleftrightarrow> n = 0 \<or> bit (fs_flags m) n"
  "bit (fs_flags (fs_set FS_FLAG_PROCESSING m)) n \<longleftrightarrow> n = 1 \<or> bit (fs_flags m) n"
  "bit (fs_flags (fs_set FS_FLAG_FLASH_REQ_PENDING m)) n \<longleftrightarrow> n = 2 \<or> bit (fs_flags m) n"
  "bit (fs_flags (fs_clear FS_FLAG_PROCESSING m)) n \<longleftrightarrow> n \<noteq> 1 \<and> bit (fs_flags m) n"
  "bit (fs_flags (fs_clear FS_FLAG_FLASH_REQ_PENDING m)) n \<longleftrightarrow> n \<noteq> 2 \<and> bit (fs_flags m) n"
proof -
  have two: "FS_FLAG_INITIALIZED = 2 ^ 0" "FS_FLAG_PROCESSING = 2 ^ 1" "FS_FLAG_FLASH_REQ_PENDING = 2 ^ 2"
    by (simp_all add: FS_FLAG_INITIALIZED_def FS_FLAG_PROCESSING_def FS_FLAG_FLASH_REQ_PENDING_def)
  have b: "bit FS_FLAG_INITIALIZED n \<longleftrightarrow> n = 0" "bit FS_FLAG_PROCESSING n \<longleftrightarrow> n = 1" "bit FS_FLAG_FLASH_REQ_PENDING n \<longleftrightarrow> n = 2"
    unfolding two bit_exp_iff by auto
  have l: "bit (fs_flags m) n \<Longrightarrow> n < 8" using bit_imp_le_length [of "fs_flags m" n] by simp
  show "bit (fs_flags (fs_set FS_FLAG_INITIALIZED m)) n \<longleftrightarrow> n = 0 \<or> bit (fs_flags m) n"
    "bit (fs_flags (fs_set FS_FLAG_PROCESSING m)) n \<longleftrightarrow> n = 1 \<or> bit (fs_flags m) n"
    "bit (fs_flags (fs_set FS_FLAG_FLASH_REQ_PENDING m)) n \<longleftrightarrow> n = 2 \<or> bit (fs_flags m) n"
    "bit (fs_flags (fs_clear FS_FLAG_PROCESSING m)) n \<longleftrightarrow> n \<noteq> 1 \<and> bit (fs_flags m) n"
    "bit (fs_flags (fs_clear FS_FLAG_FLASH_REQ_PENDING m)) n \<longleftrightarrow> n \<noteq> 2 \<and> bit (fs_flags m) n"
    using l by (auto simp: fs_set_def fs_clear_def bit_or_iff bit_and_iff bit_not_iff b)
qed

lemma fs_flags_frame [simp]:
  "fs_ops (fs_set f m) = fs_ops m" "fs_rp (fs_set f m) = fs_rp m" "fs_count (fs_set f m) = fs_count m"
  "fs_section (fs_set f m) = fs_section m" "fs_section_start (fs_set f m) = fs_section_start m"
  "fs_retry_count (fs_set f m) = fs_retry_count m"
  "fs_ops (fs_clear f m) = fs_ops m" "fs_rp (fs_clear f m) = fs_rp m" "fs_count (fs_clear f m) = fs_count m"
  "fs_section (fs_clear f m) = fs_section m" "fs_section_start (fs_clear f m) = fs_section_start m"
  "fs_retry_count (fs_clear f m) = fs_retry_count m"
  by (simp_all add: fs_set_def fs_clear_def)

lemmas fs_flag_simps = fs_flag_bit fs_flags_after

subsection \<open>The ring\<close>

lemma fs_queue_frame [simp]:
  "fs_queue (fs_set f m) = fs_queue m" "fs_queue (fs_clear f m) = fs_queue m" "fs_queue (m\<lparr>fs_retry_count := r\<rparr>) = fs_queue m"
  "fs_cur (fs_set f m) = fs_cur m" "fs_cur (fs_clear f m) = fs_cur m" "fs_cur (m\<lparr>fs_retry_count := r\<rparr>) = fs_cur m"
  by (simp_all add: fs_queue_def fs_cur_def)

lemma length_fs_queue [simp]: "length (fs_queue m) = unat (fs_count m)"
  by (simp add: fs_queue_def)

lemma fs_queue_nth: "i < unat (fs_count m) \<Longrightarrow> fs_queue m ! i = fs_ops m ! ((unat (fs_rp m) + i) mod 4)"
  by (simp add: fs_queue_def)

lemma fs_queue_Nil_iff: "fs_queue m = [] \<longleftrightarrow> fs_count m = 0"
  by (metis length_0_conv length_fs_queue unat_eq_zero)

lemma fs_queue_ConsD:
  assumes "fs_inv m" and "fs_queue m = q # qs"
  shows "fs_cur m = q" "0 < fs_count m"
proof -
  have n: "0 < unat (fs_count m)" using assms(2) by (metis length_fs_queue length_greater_0_conv list.distinct(1))
  then show "0 < fs_count m" by (simp add: word_less_nat_alt)
  have "fs_queue m ! 0 = fs_ops m ! (unat (fs_rp m) mod 4)" using n by (simp add: fs_queue_def)
  with assms show "fs_cur m = q" by (simp add: fs_cur_def fs_inv_def)
qed

lemma ring_apart: "i < n \<Longrightarrow> n < 4 \<Longrightarrow> (a + i) mod 4 \<noteq> (a + n) mod (4 :: nat)"
  using mod_eq_dvd_iff_nat [of "a + i" "a + n" 4] nat_dvd_not_less [of "n - i" 4] by auto

lemma fs_queue_put_cur:
  assumes "fs_inv m" and "fs_queue m = q # qs"
  shows "fs_queue (fs_put_cur c m) = q\<lparr>op_code := c\<rparr> # qs" "fs_inv (fs_put_cur c m)"
    "fs_cur (fs_put_cur c m) = q\<lparr>op_code := c\<rparr>"
proof -
  note cur = fs_queue_ConsD [OF assms]
  have rp: "unat (fs_rp m) < 4" "length (fs_ops m) = 4" "unat (fs_count m) \<le> 4" using assms(1) by (simp_all add: fs_inv_def)
  show inv: "fs_inv (fs_put_cur c m)" using assms(1) by (simp add: fs_inv_def fs_put_cur_def fs_flag_bit)
  show "fs_cur (fs_put_cur c m) = q\<lparr>op_code := c\<rparr>"
    using rp by (simp add: fs_cur_def fs_put_cur_def cur(1) [unfolded fs_cur_def])
  have "fs_queue (fs_put_cur c m) ! i = (q\<lparr>op_code := c\<rparr> # qs) ! i" if "i < unat (fs_count m)" for i
  proof (cases i)
    case 0
    then show ?thesis using rp that by (simp add: fs_queue_def fs_put_cur_def cur)
  next
    case (Suc j)
    then have "(unat (fs_rp m) + i) mod 4 \<noteq> unat (fs_rp m)"
      using rp that ring_apart [of 0 i "unat (fs_rp m)"] by simp
    then have "fs_queue (fs_put_cur c m) ! i = fs_queue m ! i" using that by (simp add: fs_queue_def fs_put_cur_def)
    with Suc assms(2) show ?thesis by simp
  qed
  moreover have "unat (fs_count m) = length (q # qs)" using assms(2) length_fs_queue [of m] by simp
  moreover have "fs_count (fs_put_cur c m) = fs_count m" by (simp add: fs_put_cur_def)
  ultimately show "fs_queue (fs_put_cur c m) = q\<lparr>op_code := c\<rparr> # qs"
    by (intro nth_equalityI) simp_all
qed

lemma small_word: "unat (w :: u32) < 4 \<Longrightarrow> w = 0 \<or> w = 1 \<or> w = 2 \<or> w = 3"
proof -
  assume "unat w < 4"
  then have "unat w = 0 \<or> unat w = 1 \<or> unat w = 2 \<or> unat w = 3" by linarith
  then show ?thesis by (simp add: word_unat_eq_iff)
qed

lemma ring_step: "unat w < 4 \<Longrightarrow> unat (if w + 1 = FS_QUEUE_SIZE then 0 else w + 1) = (unat w + 1) mod 4"
  by (drule small_word) (auto simp: FS_QUEUE_SIZE_def)

lemma queue_advance_queue:
  assumes "fs_inv m" and "fs_queue m = q # qs" and "fs_flag m FS_FLAG_PROCESSING"
  shows "fs_queue (queue_advance m) = qs" "fs_inv (queue_advance m)"
    "fs_section (queue_advance m) = fs_section m" "fs_section_start (queue_advance m) = fs_section_start m"
    "fs_retry_count (queue_advance m) = fs_retry_count m"
    "fs_flag (queue_advance m) FS_FLAG_PROCESSING \<longleftrightarrow> qs \<noteq> []"
    "\<not> fs_flag (queue_advance m) FS_FLAG_FLASH_REQ_PENDING"
proof -
  have c: "0 < fs_count m" using fs_queue_ConsD [OF assms(1,2)] by simp
  have n: "unat (fs_count m) = Suc (length qs)" using assms(2) length_fs_queue [of m] by simp
  have n1: "unat (fs_count m - 1) = length qs" using c n by (subst unat_minus_one) auto
  have rp: "unat (fs_rp m) < 4" "length (fs_ops m) = 4" "unat (fs_count m) \<le> 4" using assms(1) by (simp_all add: fs_inv_def)
  have z: "fs_count m - 1 = 0 \<longleftrightarrow> qs = []" using n1 by (metis length_0_conv unat_eq_zero)
  then have z1: "fs_count m = 1 \<longleftrightarrow> qs = []" by simp
  have r: "unat (if fs_rp m + 1 = FS_QUEUE_SIZE then 0 else fs_rp m + 1) = (unat (fs_rp m) + 1) mod 4"
    by (rule ring_step [OF rp(1)])
  have cnt: "fs_count (queue_advance m) = fs_count m - 1" "fs_ops (queue_advance m) = fs_ops m"
      "fs_rp (queue_advance m) = (if fs_rp m + 1 = FS_QUEUE_SIZE then 0 else fs_rp m + 1)"
    by (simp_all add: queue_advance_def Let_def)
  have "fs_queue (queue_advance m) ! i = qs ! i" if "i < length qs" for i
  proof -
    have "qs ! i = fs_queue m ! Suc i" using assms(2) by simp
    also have "\<dots> = fs_ops m ! ((unat (fs_rp m) + Suc i) mod 4)" using that n by (simp add: fs_queue_nth)
    also have "(unat (fs_rp m) + Suc i) mod 4 = ((unat (fs_rp m) + 1) mod 4 + i) mod 4" by presburger
    finally show ?thesis using that n1 by (simp add: fs_queue_nth cnt r)
  qed
  then show "fs_queue (queue_advance m) = qs"
    using n1 by (intro nth_equalityI) (simp_all add: cnt)
  have fl: "fs_flag (queue_advance m) FS_FLAG_PROCESSING \<longleftrightarrow> qs \<noteq> []" "\<not> fs_flag (queue_advance m) FS_FLAG_FLASH_REQ_PENDING"
    using assms(1,3) by (auto simp: queue_advance_def Let_def fs_flag_simps z1 fs_inv_def)
  then show "fs_flag (queue_advance m) FS_FLAG_PROCESSING \<longleftrightarrow> qs \<noteq> []" "\<not> fs_flag (queue_advance m) FS_FLAG_FLASH_REQ_PENDING"
    by simp_all
  show "fs_inv (queue_advance m)"
    unfolding fs_inv_def cnt r using fl rp n n1 z by (auto simp: word_less_nat_alt)
qed (simp_all add: queue_advance_def Let_def)

text \<open>A free element: the operation stored there becomes the last of the queue.\<close>

lemma next_free_full: "fs_inv m \<Longrightarrow> length (fs_queue m) = 4 \<Longrightarrow> queue_get_next_free m = None"
  by (simp add: queue_get_next_free_def FS_QUEUE_SIZE_def word_unat_eq_iff)

lemma next_free_room:
  assumes "fs_inv m" and "length (fs_queue m) < 4"
  obtains idx m' where "queue_get_next_free m = Some (idx, m')"
    and "fs_queue (m'\<lparr>fs_ops := (fs_ops m')[idx := x]\<rparr>) = fs_queue m @ [x]"
    and "length (fs_ops m') = 4" and "fs_flags m' = fs_flags m" and "fs_rp m' = fs_rp m"
    and "fs_count m' = fs_count m + 1" and "unat (fs_count m') = Suc (length (fs_queue m))"
    and "fs_section m' = fs_section m" and "fs_section_start m' = fs_section_start m"
    and "fs_retry_count m' = fs_retry_count m"
proof -
  let ?idx = "if fs_rp m + fs_count m < FS_QUEUE_SIZE then fs_rp m + fs_count m else fs_rp m + fs_count m - FS_QUEUE_SIZE"
  let ?z = "\<lparr>op_config = 0, op_context = 0, op_code = FS_OP_NONE\<rparr>"
  let ?m = "m\<lparr>fs_count := fs_count m + 1, fs_ops := (fs_ops m)[unat ?idx := ?z]\<rparr>"
  have rp: "unat (fs_rp m) < 4" "length (fs_ops m) = 4" "unat (fs_count m) < 4"
    using assms by (simp_all add: fs_inv_def)
  have idx: "unat ?idx = (unat (fs_rp m) + unat (fs_count m)) mod 4"
    using small_word [OF rp(1)] small_word [OF rp(3)] by (auto simp: FS_QUEUE_SIZE_def)
  have c: "unat (fs_count m + 1) = Suc (unat (fs_count m))"
    using small_word [OF rp(3)] by auto
  have "fs_queue (?m\<lparr>fs_ops := (fs_ops ?m)[unat ?idx := x]\<rparr>) ! i = (fs_queue m @ [x]) ! i"
    if "i < Suc (unat (fs_count m))" for i
  proof (cases "i = unat (fs_count m)")
    case True
    then show ?thesis using rp by (simp add: fs_queue_nth c idx nth_append)
  next
    case False
    then have i: "i < unat (fs_count m)" using that by simp
    with ring_apart [OF this rp(3), of "unat (fs_rp m)"] show ?thesis by (simp add: fs_queue_nth c idx nth_append)
  qed
  then have "fs_queue (?m\<lparr>fs_ops := (fs_ops ?m)[unat ?idx := x]\<rparr>) = fs_queue m @ [x]"
    using c by (intro nth_equalityI) simp_all
  moreover have "queue_get_next_free m = Some (unat ?idx, ?m)"
    using rp by (simp add: queue_get_next_free_def FS_QUEUE_SIZE_def word_unat_eq_iff Let_def)
  ultimately show ?thesis
    using that [of "unat ?idx" ?m] rp c by simp
qed

subsection \<open>Writing\<close>

lemma chunk_len_unat:
  assumes "unat off \<le> unat len"
  shows "unat (chunk_len len off) = min 256 (unat len - unat off)"
proof -
  have "uint len - uint off = int (unat len - unat off)"
    using assms by (simp only: uint_nat of_nat_diff)
  moreover have "unat (len - off) = unat len - unat off"
    using assms by (simp add: unat_sub word_le_nat_alt)
  ultimately show ?thesis
    by (simp add: chunk_len_def FS_MAX_WRITE_SIZE_WORDS_def)
qed

lemma off_chunk_unat:
  assumes "unat off \<le> unat len"
  shows "unat (off + chunk_len len off) = unat off + min 256 (unat len - unat off)"
  using chunk_len_unat [OF assms] assms unsigned_less [of len, where ?'a = nat]
  by (subst unat_add_lem [THEN iffD1]) auto

lemma store_execute_call:
  assumes "unat off < unat len"
  shows "store_execute src dest len off = svc_rc (hd (fs_writes src dest (unat len) (unat off)))"
proof -
  have "ucast (chunk_len len off) = (of_nat (unat (chunk_len len off)) :: u32)" "ucast off = (of_nat (unat off) :: u32)"
    by simp_all
  then show ?thesis
    using chunk_len_unat [of off len] assms
    by (simp add: store_execute_def fs_writes.simps [of src dest "unat len" "unat off"])
qed

lemma process_store:
  assumes "0 < fs_count m" and "op_code (fs_cur m) = FS_OP_STORE src dest len off" and "unat off < unat len" and "flash_grants s"
  shows "queue_process cb m s =
     (Ret m, s\<lparr>sd_trace := sd_trace s @ [hd (fs_writes src dest (unat len) (unat off))]\<rparr>)"
  using assms
  by (simp add: queue_process_def op_execute_def store_execute_call fs_writes.simps [of src dest "unat len" "unat off"]
      bnd_run flash_grants_def nrf_codes)

text \<open>A finished request: the next one follows, or the operation is over.\<close>

lemma store_success:
  assumes inv: "fs_inv m" and q: "fs_queue m = op # qs" and p: "fs_flag m FS_FLAG_PROCESSING"
    and op: "op_code op = FS_OP_STORE src dest len off" and off: "unat off < unat len"
  defines "off' \<equiv> off + chunk_len len off"
  defines "m' \<equiv> fs_put_cur (FS_OP_STORE src dest len off') (m\<lparr>fs_retry_count := 0\<rparr>)"
  shows "unat off' < unat len \<Longrightarrow> flash_grants s \<Longrightarrow> fs_sys_event_handler cb NRF_EVT_FLASH_OPERATION_SUCCESS m s =
       (Ret m', s\<lparr>sd_trace := sd_trace s @ [hd (fs_writes src dest (unat len) (unat off'))]\<rparr>)"
    and "unat off' = unat len \<Longrightarrow> fs_sys_event_handler cb NRF_EVT_FLASH_OPERATION_SUCCESS m s =
       bnd (cb (cfg_callback (fs_config_at m (op_config op))) (FS_EVT_STORE (op_context op) dest len) FS_SUCCESS m')
         (\<lambda>m. queue_process cb (queue_advance m)) s"
    and "fs_inv m'" and "fs_queue m' = op\<lparr>op_code := FS_OP_STORE src dest len off'\<rparr> # qs"
    and "fs_flag m' FS_FLAG_PROCESSING" and "fs_section m' = fs_section m" and "fs_section_start m' = fs_section_start m"
proof -
  let ?m = "m\<lparr>fs_retry_count := 0\<rparr>"
  have inv0: "fs_inv ?m" using inv by (simp add: fs_inv_def fs_flag_bit)
  have q0: "fs_queue ?m = op # qs" using q by simp
  have cur: "fs_cur m = op" "0 < fs_count m" using fs_queue_ConsD [OF inv q] by simp_all
  note put = fs_queue_put_cur [OF inv0 q0, of "FS_OP_STORE src dest len off'"]
  show "fs_inv m'" "fs_queue m' = op\<lparr>op_code := FS_OP_STORE src dest len off'\<rparr> # qs" using put by (simp_all add: m'_def)
  show "fs_flag m' FS_FLAG_PROCESSING" "fs_section m' = fs_section m" "fs_section_start m' = fs_section_start m"
    using p by (simp_all add: m'_def fs_put_cur_def fs_flag_bit)
  have c: "0 < fs_count m'" using cur(2) by (simp add: m'_def fs_put_cur_def)
  have succ: "on_operation_success cb m = (if off' = len then bnd (send_event cb (fs_cur m') FS_SUCCESS m') (\<lambda>m. ret (queue_advance m)) else ret m')"
    using cur op by (simp add: on_operation_success_def Let_def m'_def off'_def)
  show "fs_sys_event_handler cb NRF_EVT_FLASH_OPERATION_SUCCESS m s =
       (Ret m', s\<lparr>sd_trace := sd_trace s @ [hd (fs_writes src dest (unat len) (unat off'))]\<rparr>)"
    if "unat off' < unat len" "flash_grants s"
  proof -
    have "off' \<noteq> len" using that(1) by auto
    then show ?thesis
      using process_store [OF c, of src dest len off' s cb] put(3) that p
      by (simp add: fs_sys_event_handler_def succ m'_def)
  qed
  show "fs_sys_event_handler cb NRF_EVT_FLASH_OPERATION_SUCCESS m s =
       bnd (cb (cfg_callback (fs_config_at m (op_config op))) (FS_EVT_STORE (op_context op) dest len) FS_SUCCESS m')
         (\<lambda>m. queue_process cb (queue_advance m)) s" if "unat off' = unat len"
  proof -
    have "off' = len" using that by (simp add: word_unat_eq_iff)
    moreover have "fs_config_at m' = fs_config_at m" by (simp add: fun_eq_iff fs_config_at_def m'_def fs_put_cur_def)
    ultimately show ?thesis
      using p put(3) by (simp add: fs_sys_event_handler_def succ send_event_def bnd_assoc fs_evt_of_def m'_def)
  qed
qed

lemma fs_events_Nil [simp]: "fs_events cb [] = ret"
  by (simp add: fun_eq_iff)

lemma store_events:
  assumes "fs_inv m" and "fs_queue m = op # qs" and "fs_flag m FS_FLAG_PROCESSING"
    and "op_code op = FS_OP_STORE src dest len off" and "unat off < unat len" and "flash_grants s"
  shows "\<exists>m1. fs_events cb (replicate ((unat len - unat off + 255) div 256) NRF_EVT_FLASH_OPERATION_SUCCESS) m s =
       bnd (cb (cfg_callback (fs_config_at m (op_config op))) (FS_EVT_STORE (op_context op) dest len) FS_SUCCESS m1)
         (\<lambda>m. queue_process cb (queue_advance m)) (s\<lparr>sd_trace := sd_trace s @ fs_writes src dest (unat len) (unat off + 256)\<rparr>)
     \<and> fs_inv m1 \<and> fs_flag m1 FS_FLAG_PROCESSING \<and> fs_section m1 = fs_section m \<and> fs_section_start m1 = fs_section_start m
     \<and> fs_queue m1 = op\<lparr>op_code := FS_OP_STORE src dest len len\<rparr> # qs"
  using assms
proof (induction "unat len - unat off" arbitrary: m op off s rule: less_induct)
  case less
  let ?off = "off + chunk_len len off"
  let ?m = "fs_put_cur (FS_OP_STORE src dest len ?off) (m\<lparr>fs_retry_count := 0\<rparr>)"
  note step = store_success(1) [OF less.prems(1-5) _ less.prems(6), where cb = cb]
    store_success(2) [OF less.prems(1-5), where cb = cb and s = s] store_success(3-7) [OF less.prems(1-5)]
  have off: "unat ?off = unat off + min 256 (unat len - unat off)"
    using off_chunk_unat [of off len] less.prems(5) by simp
  show ?case
  proof (cases "unat len - unat off \<le> 256")
    case True
    then have "unat ?off = unat len" using off less.prems(5) by simp
    moreover from this have "?off = len" by (simp add: word_unat_eq_iff)
    moreover have n: "(unat len - unat off + 255) div 256 = 1" using True less.prems(5) by auto
    moreover have "fs_writes src dest (unat len) (unat off + 256) = []" using True by (simp add: fs_writes.simps)
    ultimately show ?thesis unfolding n using step(2-7) by (intro exI [of _ ?m]) simp
  next
    case False
    then have lt: "unat ?off < unat len" and o: "unat ?off = unat off + 256" using off by auto
    let ?s = "s\<lparr>sd_trace := sd_trace s @ [hd (fs_writes src dest (unat len) (unat ?off))]\<rparr>"
    have n: "(unat len - unat off + 255) div 256 = Suc ((unat len - unat ?off + 255) div 256)"
      using False o by simp
    have w: "fs_writes src dest (unat len) (unat ?off) = hd (fs_writes src dest (unat len) (unat ?off)) # fs_writes src dest (unat len) (unat ?off + 256)"
      using lt by (simp add: fs_writes.simps [of src dest "unat len" "unat ?off"])
    have "flash_grants ?s" using less.prems(6) by (simp add: flash_grants_def)
    moreover have "unat len - unat ?off < unat len - unat off" using o lt by simp
    ultimately show ?thesis
      unfolding n using less.hyps [of ?off ?m "op\<lparr>op_code := FS_OP_STORE src dest len ?off\<rparr>" ?s] step lt less.prems(6) w
      by (simp add: o fs_config_at_def)
  qed
qed

lemma words_of_writes:
  "len < 2 ^ 16 \<Longrightarrow> concat (map words_of (fs_writes src dest len off)) = map (\<lambda>j. (dest + 4 * of_nat j, src + 4 * of_nat j)) [off..<len]"
proof (induction src dest len off rule: fs_writes.induct)
  case (1 src dest len off)
  show ?case
  proof (cases "off < len")
    case True
    let ?n = "min 256 (len - off)"
    have n: "unat (of_nat ?n :: u32) = ?n" by (simp add: unat_of_nat)
    have "[off..<len] = [off..<off + ?n] @ [off + ?n..<len]"
      using True upt_add_eq_append [of off "off + ?n" "len - (off + ?n)"] by simp
    moreover have "[off + ?n..<len] = [off + 256..<len]" by (cases "len - off \<le> 256") simp_all
    moreover have "map (\<lambda>j. (dest + 4 * of_nat off + 4 * of_nat j, src + 4 * of_nat off + 4 * of_nat j)) [0..<?n]
        = map (\<lambda>j. (dest + 4 * of_nat j, src + 4 * of_nat j)) [off..<off + ?n]"
      by (rule nth_equalityI) (simp_all add: algebra_simps)
    ultimately show ?thesis
      using True "1.IH" [OF True "1.prems"] n by (simp add: fs_writes.simps [of src dest len off])
  qed (simp add: fs_writes.simps)
qed

subsection \<open>Accepting operations\<close>

lemma enqueue_run:
  assumes inv: "fs_inv m" and room: "length (fs_queue m) < 4"
  obtains m' where "fs_inv m'" and "fs_queue m' = fs_queue m @ [op]" and "fs_section m' = fs_section m"
    and "fs_section_start m' = fs_section_start m" and "fs_retry_count m' = fs_retry_count m"
    and "fs_flag m' FS_FLAG_PROCESSING \<longleftrightarrow> fs_queue m = [] \<or> fs_flag m FS_FLAG_PROCESSING"
    and "fs_enqueue cb op m = bnd (if fs_queue m = [] then queue_process cb m' else ret m') (\<lambda>m. ret (FS_SUCCESS, m))"
proof -
  obtain idx m1 where nf: "queue_get_next_free m = Some (idx, m1)"
    "fs_queue (m1\<lparr>fs_ops := (fs_ops m1)[idx := op]\<rparr>) = fs_queue m @ [op]"
    "length (fs_ops m1) = 4" "fs_flags m1 = fs_flags m" "fs_rp m1 = fs_rp m" "fs_count m1 = fs_count m + 1"
    "unat (fs_count m1) = Suc (length (fs_queue m))" "fs_section m1 = fs_section m"
    "fs_section_start m1 = fs_section_start m" "fs_retry_count m1 = fs_retry_count m"
    using next_free_room [OF assms, of op] .
  let ?m = "m1\<lparr>fs_ops := (fs_ops m1)[idx := op]\<rparr>"
  let ?m' = "if fs_queue m = [] then fs_set FS_FLAG_PROCESSING ?m else ?m"
  have e: "fs_queue m = [] \<longleftrightarrow> \<not> fs_flag m FS_FLAG_PROCESSING \<and> \<not> fs_flag m FS_FLAG_FLASH_REQ_PENDING"
    using inv by (auto simp: fs_inv_def fs_queue_Nil_iff word_greater_zero_iff)
  have c: "0 < fs_count m1" using nf(7) by (simp add: word_less_nat_alt)
  have "fs_inv ?m'"
    using inv nf(3-7) room c e by (auto simp: fs_inv_def fs_flag_simps)
  moreover have "fs_queue ?m' = fs_queue m @ [op]" using nf(2) by simp
  moreover have "fs_flag ?m' FS_FLAG_PROCESSING \<longleftrightarrow> fs_queue m = [] \<or> fs_flag m FS_FLAG_PROCESSING"
    using nf(4) by (simp add: fs_flag_simps)
  moreover have "fs_enqueue cb op m = bnd (if fs_queue m = [] then queue_process cb ?m' else ret ?m') (\<lambda>m. ret (FS_SUCCESS, m))"
    using nf(1,4) e by (simp add: fs_enqueue_def queue_start_def fs_flag_bit)
  ultimately show ?thesis using that [of ?m'] nf(8-10) by simp
qed

lemma enqueue_full: "fs_inv m \<Longrightarrow> length (fs_queue m) = 4 \<Longrightarrow> fs_enqueue cb op m = ret (FS_ERR_QUEUE_FULL, m)"
  by (simp add: fs_enqueue_def next_free_full)

lemma store_accepted:
  "fs_flag m FS_FLAG_INITIALIZED \<Longrightarrow> check_config m cfg \<Longrightarrow> src \<noteq> 0 \<Longrightarrow> dest \<noteq> 0 \<Longrightarrow> (src AND 3) = 0 \<Longrightarrow> (dest AND 3) = 0
    \<Longrightarrow> cfg_start_addr (fs_config_at m cfg) \<le> dest \<Longrightarrow> dest + 4 * ucast len \<le> cfg_end_addr (fs_config_at m cfg) \<Longrightarrow> len \<noteq> 0
    \<Longrightarrow> fs_store cb cfg dest src len ctx m =
          fs_enqueue cb \<lparr>op_config = cfg, op_context = ctx, op_code = FS_OP_STORE src dest len 0\<rparr> m"
  by (simp add: fs_store_def linorder_not_less [symmetric])

text \<open>Whatever the arguments, a store or an erasure is refused and changes nothing, or is queued.\<close>

lemma refuse_if:
  "err \<noteq> FS_SUCCESS \<Longrightarrow> (\<not> b \<Longrightarrow> (\<exists>e. e \<noteq> FS_SUCCESS \<and> r = ret (e, m)) \<or> r = q) \<Longrightarrow>
     (\<exists>e. e \<noteq> FS_SUCCESS \<and> (if b then ret (err, m) else r) = ret (e, m)) \<or> (if b then ret (err, m) else r) = q"
  by auto

lemma fs_errors [simp]:
  "FS_ERR_NOT_INITIALIZED \<noteq> FS_SUCCESS" "FS_ERR_INVALID_CFG \<noteq> FS_SUCCESS" "FS_ERR_NULL_ARG \<noteq> FS_SUCCESS"
  "FS_ERR_INVALID_ARG \<noteq> FS_SUCCESS" "FS_ERR_INVALID_ADDR \<noteq> FS_SUCCESS" "FS_ERR_UNALIGNED_ADDR \<noteq> FS_SUCCESS"
  "FS_ERR_QUEUE_FULL \<noteq> FS_SUCCESS"
  by (simp_all add: nrf_codes)

lemma store_cases:
  "(\<exists>e. e \<noteq> FS_SUCCESS \<and> fs_store cb cfg dest src len ctx m = ret (e, m))
   \<or> fs_store cb cfg dest src len ctx m =
       fs_enqueue cb \<lparr>op_config = cfg, op_context = ctx, op_code = FS_OP_STORE src dest len 0\<rparr> m"
  unfolding fs_store_def by (rule refuse_if, simp)+ simp

lemma erase_cases:
  "(\<exists>e. e \<noteq> FS_SUCCESS \<and> fs_erase cb cfg page n ctx m = ret (e, m))
   \<or> fs_erase cb cfg page n ctx m =
       fs_enqueue cb \<lparr>op_config = cfg, op_context = ctx, op_code = FS_OP_ERASE (ucast (page div FS_PAGE_SIZE)) 0 n\<rparr> m"
  unfolding fs_erase_def by (rule refuse_if, simp)+ simp

subsection \<open>Failures\<close>

lemma execute_request: "op_code op \<noteq> FS_OP_NONE \<Longrightarrow> op_execute op = svc_rc (fs_request op)"
  by (cases "op_code op") (simp_all add: op_execute_def fs_request_def store_execute_def erase_execute_def)

lemma process_request:
  assumes "fs_inv m" and "fs_queue m = op # qs" and "op_code op \<noteq> FS_OP_NONE" and "flash_grants s"
  shows "queue_process cb m s = (Ret m, s\<lparr>sd_trace := sd_trace s @ [fs_request op]\<rparr>)"
proof -
  have "rc (sd_env s h (fs_request op)) = NRF_SUCCESS" for h
    using assms(3,4) by (auto simp: fs_request_def flash_grants_def split: fs_op_code.split)
  then show ?thesis
    using fs_queue_ConsD [OF assms(1,2)] assms(3) by (simp add: queue_process_def execute_request nrf_codes)
qed

lemma failure_retry:
  assumes "fs_inv m" and "fs_queue m = op # qs" and "fs_flag m FS_FLAG_PROCESSING" and "op_code op \<noteq> FS_OP_NONE"
    and "flash_grants s" and "\<not> FS_OP_MAX_RETRIES < fs_retry_count m + 1"
  shows "fs_sys_event_handler cb NRF_EVT_FLASH_OPERATION_ERROR m s =
     (Ret (m\<lparr>fs_retry_count := fs_retry_count m + 1\<rparr>), s\<lparr>sd_trace := sd_trace s @ [fs_request op]\<rparr>)"
proof -
  have "fs_inv (m\<lparr>fs_retry_count := r\<rparr>)" for r using assms(1) by (simp add: fs_inv_def fs_flag_bit)
  then have "queue_process cb (m\<lparr>fs_retry_count := fs_retry_count m + 1\<rparr>) s =
     (Ret (m\<lparr>fs_retry_count := fs_retry_count m + 1\<rparr>), s\<lparr>sd_trace := sd_trace s @ [fs_request op]\<rparr>)"
    using process_request [of "m\<lparr>fs_retry_count := fs_retry_count m + 1\<rparr>" op qs s cb] assms(2,4,5) by simp
  then show ?thesis
    using assms(3,6)
    by (simp add: fs_sys_event_handler_def on_operation_failure_def Let_def NRF_EVT_FLASH_OPERATION_ERROR_def
        NRF_EVT_FLASH_OPERATION_SUCCESS_def)
qed

subsection \<open>Calls while an operation is being executed\<close>

lemma call_cases:
  "(\<exists>e. e \<noteq> FS_SUCCESS \<and> fs_call cb a m = ret (e, m)) \<or> fs_call cb a m = fs_enqueue cb (ask_op a) m"
  by (cases a) (simp_all add: store_cases erase_cases)

lemma ask_op_origin [simp]: "op_origin (ask_op a) = ask_op a"
  by (cases a) (simp_all add: op_origin_def)

lemma enqueue_busy:
  assumes "fs_inv m" and "fs_flag m FS_FLAG_PROCESSING"
  shows "\<exists>e m'. fs_enqueue cb op m s = (Ret (e, m'), s) \<and> fs_inv m' \<and> fs_flag m' FS_FLAG_PROCESSING
    \<and> fs_queue m' = fs_queue m @ (if e = FS_SUCCESS then [op] else [])"
proof (cases "length (fs_queue m) < 4")
  case True
  have "fs_queue m \<noteq> []" using assms by (auto simp: fs_inv_def fs_queue_Nil_iff)
  obtain m' where "fs_inv m'" "fs_queue m' = fs_queue m @ [op]" "fs_flag m' FS_FLAG_PROCESSING \<longleftrightarrow> fs_queue m = [] \<or> fs_flag m FS_FLAG_PROCESSING"
    "fs_enqueue cb op m = bnd (if fs_queue m = [] then queue_process cb m' else ret m') (\<lambda>m. ret (FS_SUCCESS, m))"
    using enqueue_run [OF assms(1) True, of op cb] .
  with \<open>fs_queue m \<noteq> []\<close> assms(2) show ?thesis by simp
next
  case False
  then have "length (fs_queue m) = 4" using assms(1) by (simp add: fs_inv_def)
  then show ?thesis using enqueue_full [OF assms(1), of cb op] assms by auto
qed

text \<open>The queue and the book grow by the same operations, and nothing is asked of the stack.\<close>

definition grown :: "fstorage \<Rightarrow> fl world_scheme \<Rightarrow> fstorage \<Rightarrow> fl world_scheme \<Rightarrow> fs_op list \<Rightarrow> bool" where
  "grown m s m' s' q \<longleftrightarrow> fs_inv m' \<and> fs_queue m' = fs_queue m @ q \<and> fl_taken s' = fl_taken s @ q \<and> map op_origin q = q
     \<and> sd_trace s' = sd_trace s \<and> sd_env s' = sd_env s"

lemma noted_busy:
  assumes "fs_inv m" and "fs_flag m FS_FLAG_PROCESSING"
  shows "\<exists>m' s' q. fs_noted cb a m s = (Ret m', s') \<and> grown m s m' s' q \<and> fs_flag m' FS_FLAG_PROCESSING \<and> fl_told s' = fl_told s"
proof -
  obtain e m' where "fs_enqueue cb (ask_op a) m s = (Ret (e, m'), s)" "fs_inv m'" "fs_flag m' FS_FLAG_PROCESSING"
    "fs_queue m' = fs_queue m @ (if e = FS_SUCCESS then [ask_op a] else [])"
    using enqueue_busy [OF assms, of cb "ask_op a" s] by blast
  then show ?thesis
    using call_cases [of cb a m] assms by (auto simp: fs_noted_def bnd_run grown_def)
qed

lemma asks_busy:
  "fs_inv m \<Longrightarrow> fs_flag m FS_FLAG_PROCESSING \<Longrightarrow>
     \<exists>m' s' q. fs_asks cb as m s = (Ret m', s') \<and> grown m s m' s' q \<and> fs_flag m' FS_FLAG_PROCESSING \<and> fl_told s' = fl_told s"
proof (induction as arbitrary: m s)
  case (Cons a as)
  obtain m1 s1 q1 where 1: "fs_noted cb a m s = (Ret m1, s1)" "grown m s m1 s1 q1" "fs_flag m1 FS_FLAG_PROCESSING" "fl_told s1 = fl_told s"
    using noted_busy [OF Cons.prems] by blast
  then have "fs_inv m1" by (simp add: grown_def)
  then obtain m2 s2 q2 where 2: "fs_asks cb as m1 s1 = (Ret m2, s2)" "grown m1 s1 m2 s2 q2" "fs_flag m2 FS_FLAG_PROCESSING" "fl_told s2 = fl_told s1"
    using Cons.IH 1(3) by blast
  with 1 have "fs_asks cb (a # as) m s = (Ret m2, s2) \<and> grown m s m2 s2 (q1 @ q2) \<and> fs_flag m2 FS_FLAG_PROCESSING \<and> fl_told s2 = fl_told s"
    by (simp add: bnd_run grown_def)
  then show ?case by blast
qed (simp add: grown_def)

lemma client_run:
  assumes "fs_inv m" and "fs_flag m FS_FLAG_PROCESSING"
  shows "\<exists>m' s' q. send_event (client_cb reqs inner) op r m s = (Ret m', s') \<and> grown m s m' s' q
     \<and> fs_flag m' FS_FLAG_PROCESSING \<and> fl_told s' = fl_told s @ [(fs_evt_of op, r)]"
  using asks_busy [OF assms, of inner "reqs (cfg_callback (fs_config_at m (op_config op))) (fs_evt_of op) r s"
      "s\<lparr>fl_told := fl_told s @ [(fs_evt_of op, r)]\<rparr>"]
  by (auto simp: send_event_def client_cb_def grown_def)

subsection \<open>The book of the queue\<close>













text \<open>While the module believes that an operation is being executed, nothing is asked of the stack.\<close>

lemma asks_quiet:
  assumes "fs_inv m" and "fs_flag m FS_FLAG_PROCESSING"
  shows "\<exists>m' s' q. fs_run cb (map In_ask as) m s = (Ret m', s') \<and> grown m s m' s' q \<and> fs_flag m' FS_FLAG_PROCESSING
     \<and> fl_told s' = fl_told s"
proof -
  have "fs_run cb (map In_ask as) = fs_asks cb as"
  proof (induction as)
    case (Cons a as)
    then show ?case by (intro ext) (simp only: list.map fs_run.simps fs_asks.simps fs_step.simps)
  qed (intro ext, simp)
  then show ?thesis using asks_busy [OF assms] by simp
qed

subsection \<open>Assigning flash\<close>

text \<open>The inner loop: the first of the configurations not yet set that have the highest priority.\<close>

lemma fs_pick_max:
  assumes "j0 < length cs" and "\<not> cfg_set (cs ! j0)" and "\<And>j. j < length cs \<Longrightarrow> \<not> cfg_set (cs ! j) \<Longrightarrow> cfg_priority (cs ! j) > 0"
    and "length cs \<le> 256"
  obtains j where "unat (snd (fs_pick cs i)) = j" and "j < length cs" and "\<not> cfg_set (cs ! j)"
    and "\<And>j'. j' < length cs \<Longrightarrow> \<not> cfg_set (cs ! j') \<Longrightarrow> cfg_priority (cs ! j') \<le> cfg_priority (cs ! j)"
proof -
  let ?f = "\<lambda>(max_priority, max_index) j.
        if cfg_set (cs ! j) then (max_priority, max_index)
        else if cfg_priority (cs ! j) > max_priority then (cfg_priority (cs ! j), of_nat j :: u8)
        else (max_priority, max_index)"
  define best where "best n mp mi \<longleftrightarrow> (\<forall>j < n. cfg_set (cs ! j)) \<and> mp = 0
     \<or> (\<exists>j < n. \<not> cfg_set (cs ! j) \<and> mi = of_nat j \<and> cfg_priority (cs ! j) = mp
          \<and> (\<forall>j' < n. \<not> cfg_set (cs ! j') \<longrightarrow> cfg_priority (cs ! j') \<le> mp))" for n and mp mi :: u8
  have inv: "best n (fst (foldl ?f (0, of_nat i) [0..<n])) (snd (foldl ?f (0, of_nat i) [0..<n]))" if "n \<le> length cs" for n
    using that
  proof (induction n)
    case (Suc n)
    obtain mp mi where r: "foldl ?f (0, of_nat i) [0..<n] = (mp, mi)" by fastforce
    then have b: "best n mp mi" using Suc by simp
    consider "cfg_set (cs ! n)" | "\<not> cfg_set (cs ! n)" "cfg_priority (cs ! n) > mp" | "\<not> cfg_set (cs ! n)" "cfg_priority (cs ! n) \<le> mp"
      by fastforce
    then show ?case
    proof cases
      case 1
      then have "best (Suc n) mp mi" using b by (auto simp: best_def less_Suc_eq)
      with 1 r show ?thesis by simp
    next
      case 2
      then have "cfg_priority (cs ! j) \<le> cfg_priority (cs ! n)" if "j < Suc n" "\<not> cfg_set (cs ! j)" for j
        using b that unfolding best_def less_Suc_eq by (metis less_imp_le order_refl order_trans)
      then have "best (Suc n) (cfg_priority (cs ! n)) (of_nat n)" using 2(1) by (auto simp: best_def)
      with 2 r show ?thesis by simp
    next
      case 3
      have "0 < cfg_priority (cs ! n)" using assms(3) [of n] 3(1) Suc.prems by simp
      with 3(2) have "mp \<noteq> 0" by auto
      then have "best (Suc n) mp mi" using b 3(2) by (auto simp: best_def less_Suc_eq)
      with 3 r show ?thesis by (simp add: leD)
    qed
  qed (simp add: best_def)
  obtain mp mi where r: "fs_pick cs i = (mp, mi)" by fastforce
  then have "\<exists>j < length cs. \<not> cfg_set (cs ! j) \<and> mi = of_nat j
     \<and> (\<forall>j' < length cs. \<not> cfg_set (cs ! j') \<longrightarrow> cfg_priority (cs ! j') \<le> cfg_priority (cs ! j))"
    using inv [of "length cs"] assms(1,2) unfolding fs_pick_def [symmetric] best_def by fastforce
  then obtain j where "j < length cs" "\<not> cfg_set (cs ! j)" "mi = of_nat j"
     "\<forall>j' < length cs. \<not> cfg_set (cs ! j') \<longrightarrow> cfg_priority (cs ! j') \<le> cfg_priority (cs ! j)" by blast
  moreover from this(1,3) have "unat mi = j" using assms(4) by (simp add: unat_of_nat)
  ultimately show ?thesis using that r by auto
qed

lemma pages_of_append: "pages_of cs (xs @ [j]) = pages_of cs xs + unat (cfg_num_pages (cs ! j))"
  by (simp add: pages_of_def)

lemma unat_of_nat_below: "x \<le> unat (pe :: u32) \<Longrightarrow> unat (of_nat x :: u32) = x"
  using unsigned_less [of pe, where ?'a = nat] by (simp add: unat_of_nat)

lemma cfg_set_assigned: "e \<noteq> 0 \<Longrightarrow> a \<noteq> 0 \<Longrightarrow> cfg_set (c\<lparr>cfg_end_addr := e, cfg_start_addr := a\<rparr>)"
  by (simp add: cfg_set_def)

text \<open>One round of the outer loop extends the stack by the chosen configuration.\<close>

lemma fs_assign_step:
  assumes st: "stacked cs pe os cs'" and os: "set os \<subseteq> {j. j < length cs \<and> \<not> cfg_set (cs ! j)}"
    and left: "j0 < length cs" "\<not> cfg_set (cs ! j0)" "j0 \<notin> set os"
    and prio: "\<And>j. j < length cs \<Longrightarrow> \<not> cfg_set (cs ! j) \<Longrightarrow> cfg_priority (cs ! j) > 0" and len: "length cs \<le> 256"
    and room: "\<And>j. j < length cs \<Longrightarrow> \<not> cfg_set (cs ! j) \<Longrightarrow> j \<notin> set os \<Longrightarrow> 1024 * pages_of cs (os @ [j]) < unat pe"
    and set: "\<And>j. j \<in> set os \<Longrightarrow> cfg_set (cs' ! j)"
  obtains j cs2 where "fs_assign (cs', pe - of_nat (1024 * pages_of cs os)) i = (cs2, pe - of_nat (1024 * pages_of cs (os @ [j])))"
    and "stacked cs pe (os @ [j]) cs2" and "j < length cs" and "\<not> cfg_set (cs ! j)" and "j \<notin> set os"
    and "\<And>k. k \<in> set (os @ [j]) \<Longrightarrow> cfg_set (cs2 ! k)"
    and "\<And>k. k < length cs \<Longrightarrow> \<not> cfg_set (cs ! k) \<Longrightarrow> k \<notin> set os \<Longrightarrow> cfg_priority (cs ! k) \<le> cfg_priority (cs ! j)"
proof -
  have l: "length cs' = length cs" and keep: "\<And>j. j < length cs \<Longrightarrow> j \<notin> set os \<Longrightarrow> cs' ! j = cs ! j"
    using st by (auto simp: stacked_def)
  have unset: "\<not> cfg_set (cs' ! j) \<longleftrightarrow> \<not> cfg_set (cs ! j) \<and> j \<notin> set os" if "j < length cs" for j
    using keep [OF that] set by (cases "j \<in> set os") auto
  obtain j where j: "unat (snd (fs_pick cs' i)) = j" "j < length cs" "\<not> cfg_set (cs' ! j)"
    "\<And>j'. j' < length cs' \<Longrightarrow> \<not> cfg_set (cs' ! j') \<Longrightarrow> cfg_priority (cs' ! j') \<le> cfg_priority (cs' ! j)"
  proof (rule fs_pick_max [of j0 cs' i])
    show "cfg_priority (cs' ! j) > 0" if "j < length cs'" "\<not> cfg_set (cs' ! j)" for j
      using that prio [of j] keep [of j] unset [of j] l by simp
  qed (use left unset [of j0] l len in auto)
  have new: "j \<notin> set os" "\<not> cfg_set (cs ! j)" "cs' ! j = cs ! j" using unset [OF j(2)] j(3) keep [OF j(2)] by auto
  let ?top = "pe - of_nat (1024 * pages_of cs os)" and ?start = "pe - of_nat (1024 * pages_of cs (os @ [j]))"
  let ?cs2 = "cs'[j := (cs ! j)\<lparr>cfg_end_addr := ?top, cfg_start_addr := ?start\<rparr>]"
  have "ucast n = (of_nat (unat n) :: u32)" for n :: u8 by simp
  then have e: "?top - 4 * (ucast (cfg_num_pages (cs ! j)) * FS_PAGE_SIZE_WORDS) = ?start"
    by (simp add: pages_of_append FS_PAGE_SIZE_WORDS_def algebra_simps)
  have "fs_assign (cs', ?top) i = (?cs2, ?start)"
    by (simp only: fs_assign_def Let_def prod.case j(1) new(3) e)
  moreover have "stacked cs pe (os @ [j]) ?cs2"
    using st new j(2) l by (auto simp: stacked_def nth_append less_Suc_eq nth_list_update)
  moreover have "cfg_set (?cs2 ! k)" if "k \<in> set (os @ [j])" for k
  proof (cases "k = j")
    case True
    have sm: "1024 * pages_of cs (os @ [j]) < unat pe" using room [OF j(2) new(2,1)] .
    moreover have "1024 * pages_of cs os \<le> 1024 * pages_of cs (os @ [j])" by (simp add: pages_of_append)
    ultimately have "of_nat (1024 * pages_of cs (os @ [j])) \<noteq> pe" "of_nat (1024 * pages_of cs os) \<noteq> pe"
      using unat_of_nat_below [of "1024 * pages_of cs (os @ [j])" pe] unat_of_nat_below [of "1024 * pages_of cs os" pe]
      by (metis less_imp_le nless_le, metis le_less_trans less_imp_le nless_le)
    then have "?start \<noteq> 0" "?top \<noteq> 0" by (metis eq_iff_diff_eq_0)+
    then have "cfg_set ((cs ! j)\<lparr>cfg_end_addr := ?top, cfg_start_addr := ?start\<rparr>)"
      by (intro cfg_set_assigned)
    then show ?thesis using True j(2) l by (metis nth_list_update_eq)
  qed (use that set new in auto)
  moreover have "cfg_priority (cs ! k) \<le> cfg_priority (cs ! j)" if "k < length cs" "\<not> cfg_set (cs ! k)" "k \<notin> set os" for k
    using j(4) [of k] unset [of k] keep [of k] that l new(3) by simp
  ultimately show ?thesis using that j(2) new(1,2) by blast
qed

lemma pages_of_distinct: "distinct os \<Longrightarrow> pages_of cs os = (\<Sum>j \<in> set os. unat (cfg_num_pages (cs ! j)))"
  by (simp add: pages_of_def sum.distinct_set_conv_list)

lemma pages_of_bound:
  assumes "distinct os" and "set os \<subseteq> U" and "finite U"
  shows "pages_of cs os \<le> (\<Sum>j \<in> U. unat (cfg_num_pages (cs ! j)))"
  using assms by (simp add: pages_of_distinct sum_mono2)

lemma fs_assign_all:
  fixes cs :: "fs_config list" and pe :: u32
  defines "U \<equiv> {j. j < length cs \<and> \<not> cfg_set (cs ! j)}"
  assumes prio: "\<And>j. j \<in> U \<Longrightarrow> cfg_priority (cs ! j) > 0" and len: "length cs \<le> 256"
    and room: "1024 * (\<Sum>j \<in> U. unat (cfg_num_pages (cs ! j))) < unat pe" and n: "n \<le> card U"
  shows "\<exists>os cs'. foldl fs_assign (cs, pe) [0..<n] = (cs', pe - of_nat (1024 * pages_of cs os)) \<and> length os = n
     \<and> stacked cs pe os cs' \<and> set os \<subseteq> U \<and> (\<forall>j \<in> set os. cfg_set (cs' ! j))
     \<and> sorted_wrt (\<lambda>a b. cfg_priority (cs ! b) \<le> cfg_priority (cs ! a)) os
     \<and> (\<forall>a \<in> set os. \<forall>b \<in> U - set os. cfg_priority (cs ! b) \<le> cfg_priority (cs ! a))"
  using n
proof (induction n)
  case 0
  show ?case by (rule exI [of _ "[]"], rule exI [of _ cs]) (simp add: stacked_def pages_of_def)
next
  case (Suc n)
  have fin: "finite U" by (simp add: U_def)
  obtain os cs' where IH: "foldl fs_assign (cs, pe) [0..<n] = (cs', pe - of_nat (1024 * pages_of cs os))" "length os = n"
     "stacked cs pe os cs'" "set os \<subseteq> U" "\<forall>j \<in> set os. cfg_set (cs' ! j)"
     "sorted_wrt (\<lambda>a b. cfg_priority (cs ! b) \<le> cfg_priority (cs ! a)) os"
     "\<forall>a \<in> set os. \<forall>b \<in> U - set os. cfg_priority (cs ! b) \<le> cfg_priority (cs ! a)"
    using Suc by auto
  have d: "distinct os" using IH(3) by (simp add: stacked_def)
  have "card (set os) < card U" using IH(2) Suc.prems distinct_card [OF d] by simp
  then obtain j0 where j0: "j0 \<in> U" "j0 \<notin> set os" using IH(4) by (metis less_irrefl subsetI subset_antisym)
  have rm: "1024 * pages_of cs (os @ [j]) < unat pe" if "j < length cs" "\<not> cfg_set (cs ! j)" "j \<notin> set os" for j
    using pages_of_bound [of "os @ [j]" U cs] d that IH(4) fin room by (auto simp: U_def)
  obtain j cs2 where J: "fs_assign (cs', pe - of_nat (1024 * pages_of cs os)) n = (cs2, pe - of_nat (1024 * pages_of cs (os @ [j])))"
    "stacked cs pe (os @ [j]) cs2" "j < length cs" "\<not> cfg_set (cs ! j)" "j \<notin> set os"
    "\<And>k. k \<in> set (os @ [j]) \<Longrightarrow> cfg_set (cs2 ! k)"
    "\<And>k. k < length cs \<Longrightarrow> \<not> cfg_set (cs ! k) \<Longrightarrow> k \<notin> set os \<Longrightarrow> cfg_priority (cs ! k) \<le> cfg_priority (cs ! j)"
  proof (rule fs_assign_step [OF IH(3), of j0 n])
    show "set os \<subseteq> {j. j < length cs \<and> \<not> cfg_set (cs ! j)}" using IH(4) by (simp add: U_def)
  qed (use j0 IH(5) prio len rm in \<open>simp_all add: U_def\<close>)
  have "foldl fs_assign (cs, pe) [0..<Suc n] = (cs2, pe - of_nat (1024 * pages_of cs (os @ [j])))"
    using IH(1) J(1) by (simp only: upt_Suc_append [OF le0] foldl_append foldl.simps)
  moreover have "sorted_wrt (\<lambda>a b. cfg_priority (cs ! b) \<le> cfg_priority (cs ! a)) (os @ [j])"
    using IH(6,7) J(3-5) by (simp add: sorted_wrt_append U_def)
  moreover have "\<forall>a \<in> set (os @ [j]). \<forall>b \<in> U - set (os @ [j]). cfg_priority (cs ! b) \<le> cfg_priority (cs ! a)"
    using IH(7) J(7) by (auto simp: U_def)
  ultimately show ?case
    using J(2-6) IH(2,4) by (intro exI [of _ "os @ [j]"] exI [of _ cs2]) (simp add: U_def)
qed

lemma stacked_below:
  assumes "stacked cs pe os cs'" and "1024 * pages_of cs os \<le> unat pe" and "k < l" and "l < length os"
  shows "unat (cfg_end_addr (cs' ! (os ! l))) \<le> unat (cfg_start_addr (cs' ! (os ! k)))"
proof -
  have mono: "pages_of cs (take i os) \<le> pages_of cs (take j os)" if "i \<le> j" for i j
  proof -
    have "take j os = take i os @ take (j - i) (drop i os)" using that by (metis le_add_diff_inverse take_add)
    then show ?thesis by (simp add: pages_of_def)
  qed
  have sub: "unat (pe - of_nat (1024 * pages_of cs (take i os))) = unat pe - 1024 * pages_of cs (take i os)" for i
  proof -
    have "1024 * pages_of cs (take i os) \<le> unat pe"
      using mono [of i "max i (length os)"] assms(2) by simp
    note c = this unat_of_nat_below [OF this]
    then have "of_nat (1024 * pages_of cs (take i os)) \<le> pe" by (simp only: word_le_nat_alt)
    then show ?thesis using c(2) by (simp only: unat_sub)
  qed
  show ?thesis
    using assms(1,3,4) mono [of "Suc k" l] sub [of l] sub [of "Suc k"]
    by (simp add: stacked_def del: of_nat_mult)
qed

lemma demo_fs_facts:
  "fs_inv demo_fs" "fs_queue demo_fs = []" "fs_flag demo_fs FS_FLAG_INITIALIZED" "check_config demo_fs 0x20000100"
  "cfg_start_addr (fs_config_at demo_fs 0x20000100) = 0x3F000" "cfg_end_addr (fs_config_at demo_fs 0x20000100) = 0x40000"
  by (simp_all add: demo_fs_def fs_inv_def fs_queue_def fs_flag_bit check_config_def fs_config_at_def)

lemma demo_world_flash: "flash_grants demo_world"
  by (simp add: flash_grants_def demo_world_def demo_env_def null_reply_def)

subsection \<open>Properties\<close>

text \<open>
  C16: a store accepted by an idle module, with the stack granting every request and reporting
  its success, ends after one event per 256 words: the requests made copy every word of the
  source to its place in flash exactly once and in order, and then the client's callback is
  called with success and the queue moves on.
\<close>

theorem flash_store_completes:
  assumes "fs_inv m" and "fs_queue m = []" and "fs_flag m FS_FLAG_INITIALIZED" and "check_config m cfg"
    and "src \<noteq> 0" and "dest \<noteq> 0" and "(src AND 3) = 0" and "(dest AND 3) = 0" and "len \<noteq> 0"
    and "cfg_start_addr (fs_config_at m cfg) \<le> dest" and "dest + 4 * ucast len \<le> cfg_end_addr (fs_config_at m cfg)"
    and "flash_grants s"
  shows "\<exists>m1 reqs. bnd (fs_store cb cfg dest src len ctx m)
         (\<lambda>(e, m). fs_events cb (replicate ((unat len + 255) div 256) NRF_EVT_FLASH_OPERATION_SUCCESS) m) s =
       bnd (cb (cfg_callback (fs_config_at m cfg)) (FS_EVT_STORE ctx dest len) FS_SUCCESS m1)
         (\<lambda>m. queue_process cb (queue_advance m)) (s\<lparr>sd_trace := sd_trace s @ reqs\<rparr>)
     \<and> concat (map words_of reqs) = map (\<lambda>j. (dest + 4 * of_nat j, src + 4 * of_nat j)) [0..<unat len]
     \<and> fs_inv m1 \<and> map op_id (fs_queue m1) = [(cfg, ctx)]"
proof -
  let ?op = "\<lparr>op_config = cfg, op_context = ctx, op_code = FS_OP_STORE src dest len 0\<rparr>"
  obtain m' where m': "fs_inv m'" "fs_queue m' = [?op]" "fs_section m' = fs_section m" "fs_section_start m' = fs_section_start m"
    "fs_flag m' FS_FLAG_PROCESSING" "fs_enqueue cb ?op m = bnd (queue_process cb m') (\<lambda>m. ret (FS_SUCCESS, m))"
    using enqueue_run [OF assms(1), of ?op cb] assms(2) by auto
  have len: "0 < unat len" using assms(9) by (simp add: unat_gt_0)
  have w: "fs_writes src dest (unat len) 0 = hd (fs_writes src dest (unat len) 0) # fs_writes src dest (unat len) 256"
    using len by (simp add: fs_writes.simps [of src dest "unat len" 0])
  let ?s = "s\<lparr>sd_trace := sd_trace s @ [hd (fs_writes src dest (unat len) 0)]\<rparr>"
  have "queue_process cb m' s = (Ret m', ?s)"
    using process_store [of m' src dest len 0 s cb] fs_queue_ConsD [OF m'(1,2)] len assms(12) by simp
  then have st: "fs_store cb cfg dest src len ctx m s = (Ret (FS_SUCCESS, m'), ?s)"
    using store_accepted [OF assms(3-8) assms(10,11,9), of cb ctx] m'(6) by simp
  have "flash_grants ?s" using assms(12) by (simp add: flash_grants_def)
  then obtain m1 where "fs_events cb (replicate ((unat len + 255) div 256) NRF_EVT_FLASH_OPERATION_SUCCESS) m' ?s =
       bnd (cb (cfg_callback (fs_config_at m' cfg)) (FS_EVT_STORE ctx dest len) FS_SUCCESS m1)
         (\<lambda>m. queue_process cb (queue_advance m)) (?s\<lparr>sd_trace := sd_trace ?s @ fs_writes src dest (unat len) 256\<rparr>)"
      "fs_inv m1" "fs_queue m1 = [\<lparr>op_config = cfg, op_context = ctx, op_code = FS_OP_STORE src dest len len\<rparr>]"
    using store_events [OF m'(1,2,5), of src dest len 0 ?s cb] len by auto
  then show ?thesis
    using w st m'(3,4) words_of_writes [of "unat len" src dest 0] unsigned_less [of len, where ?'a = nat]
    by (intro exI [of _ m1] exI [of _ "fs_writes src dest (unat len) 0"]) (simp add: fs_config_at_def op_id_def)
qed

theorem flash_store_completes_witness:
  "\<exists>reqs m'. bnd (fs_store demo_fs_cb 0x20000100 0x3F000 0x20001000 600 7 demo_fs)
        (\<lambda>(e, m). fs_events demo_fs_cb (replicate 3 NRF_EVT_FLASH_OPERATION_SUCCESS) m) demo_world =
      (Ret m', demo_world\<lparr>sd_trace := reqs\<rparr>) \<and> length (concat (map words_of reqs)) = 600"
proof -
  have "\<exists>m1 reqs. bnd (fs_store demo_fs_cb 0x20000100 0x3F000 0x20001000 600 7 demo_fs)
         (\<lambda>(e, m). fs_events demo_fs_cb (replicate ((unat (600 :: u16) + 255) div 256) NRF_EVT_FLASH_OPERATION_SUCCESS) m) demo_world =
       bnd (demo_fs_cb (cfg_callback (fs_config_at demo_fs 0x20000100)) (FS_EVT_STORE 7 0x3F000 600) FS_SUCCESS m1)
         (\<lambda>m. queue_process demo_fs_cb (queue_advance m)) (demo_world\<lparr>sd_trace := sd_trace demo_world @ reqs\<rparr>)
     \<and> concat (map words_of reqs) = map (\<lambda>j. (0x3F000 + 4 * of_nat j, 0x20001000 + 4 * of_nat j)) [0..<unat (600 :: u16)]
     \<and> fs_inv m1 \<and> map op_id (fs_queue m1) = [(0x20000100, 7)]"
    by (rule flash_store_completes)
       (simp_all add: demo_fs_facts demo_world_flash)
  moreover have "fs_count (queue_advance m1) = 0" if "map op_id (fs_queue m1) = [(0x20000100, 7)]" for m1
  proof -
    have "unat (fs_count m1) = 1" using that length_fs_queue [of m1] by (metis length_map list.size(3,4) One_nat_def plus_1_eq_Suc add_0)
    then have "fs_count m1 = 1" by (simp add: word_unat_eq_iff)
    then show ?thesis by (simp add: queue_advance_def Let_def)
  qed
  moreover have "(unat (600 :: u16) + 255) div 256 = 3" "unat (600 :: u16) = 600" by simp_all
  ultimately show ?thesis
    by (fastforce simp: demo_fs_cb_def queue_process_def demo_world_def)
qed



text \<open>
  A request that keeps failing is repeated three times; the fourth failure in a row is
  reported to the client as a time-out and the operation is given up, so that the next one
  gets its turn.
\<close>

lemma flash_retries_bounded:
  assumes "fs_inv m" and "fs_queue m = op # qs" and "fs_flag m FS_FLAG_PROCESSING" and "op_code op \<noteq> FS_OP_NONE"
    and "flash_grants s" and "fs_retry_count m = 0"
  shows "fs_events cb (replicate 4 NRF_EVT_FLASH_OPERATION_ERROR) m s =
     bnd (cb (cfg_callback (fs_config_at m (op_config op))) (fs_evt_of op) FS_ERR_OPERATION_TIMEOUT m)
       (\<lambda>m. queue_process cb (queue_advance m)) (s\<lparr>sd_trace := sd_trace s @ replicate 3 (fs_request op)\<rparr>)"
proof -
  let ?m = "\<lambda>r. m\<lparr>fs_retry_count := r\<rparr>" and ?s = "\<lambda>n. s\<lparr>sd_trace := sd_trace s @ replicate n (fs_request op)\<rparr>"
  have i: "fs_inv (?m r)" "fs_queue (?m r) = op # qs" "fs_flag (?m r) FS_FLAG_PROCESSING" "flash_grants (?s n)" for r n
    using assms by (simp_all add: fs_inv_def fs_flag_bit flash_grants_def)
  have step: "fs_sys_event_handler cb NRF_EVT_FLASH_OPERATION_ERROR (?m r) (?s n) = (Ret (?m (r + 1)), ?s (Suc n))"
    if "\<not> FS_OP_MAX_RETRIES < r + 1" for r n
    using failure_retry [OF i(1-3) assms(4) i(4), of r cb n] that by (simp add: replicate_append_same [symmetric])
  have last: "fs_sys_event_handler cb NRF_EVT_FLASH_OPERATION_ERROR (?m 3) t =
      bnd (cb (cfg_callback (fs_config_at m (op_config op))) (fs_evt_of op) FS_ERR_OPERATION_TIMEOUT (?m 0))
        (\<lambda>m. queue_process cb (queue_advance m)) t" for t
    using fs_queue_ConsD [OF assms(1,2)] i(3) [of 3]
    by (simp add: fs_sys_event_handler_def on_operation_failure_def Let_def send_event_def bnd_assoc fs_config_at_def
        FS_OP_MAX_RETRIES_def NRF_EVT_FLASH_OPERATION_ERROR_def NRF_EVT_FLASH_OPERATION_SUCCESS_def)
  have r: "\<not> FS_OP_MAX_RETRIES < 0 + 1" "\<not> FS_OP_MAX_RETRIES < 1 + 1" "\<not> FS_OP_MAX_RETRIES < 2 + 1"
    by (simp_all add: FS_OP_MAX_RETRIES_def)
  have "?m 0 = m" "?s 0 = s" using assms(6) by simp_all
  moreover have "replicate 4 NRF_EVT_FLASH_OPERATION_ERROR = [NRF_EVT_FLASH_OPERATION_ERROR, NRF_EVT_FLASH_OPERATION_ERROR,
      NRF_EVT_FLASH_OPERATION_ERROR, NRF_EVT_FLASH_OPERATION_ERROR]" by (simp add: numeral_eq_Suc)
  ultimately show ?thesis
    using step [OF r(1), of 0] step [OF r(2), of 1] step [OF r(3), of 2] last [of "?s 3"] by (simp add: eval_nat_numeral)
qed

lemma flash_retries_bounded_example:
  "\<exists>m s m' s'. fs_store demo_fs_cb 0x20000100 0x3F000 0x20001000 600 7 demo_fs demo_world = (Ret (FS_SUCCESS, m), s)
     \<and> fs_events demo_fs_cb (replicate 4 NRF_EVT_FLASH_OPERATION_ERROR) m s = (Ret m', s')
     \<and> length (sd_trace s') = 4"
proof -
  let ?cb = "demo_fs_cb :: unit fs_cb"
  let ?op = "\<lparr>op_config = 0x20000100, op_context = 7, op_code = FS_OP_STORE 0x20001000 0x3F000 600 0\<rparr>"
  obtain m where m: "fs_inv m" "fs_queue m = [?op]" "fs_flag m FS_FLAG_PROCESSING" "fs_retry_count m = 0"
    "fs_enqueue ?cb ?op demo_fs = bnd (queue_process ?cb m) (\<lambda>m. ret (FS_SUCCESS, m))"
    using enqueue_run [OF demo_fs_facts(1), of ?op ?cb] demo_fs_facts(2) by (auto simp: demo_fs_def)
  let ?s = "demo_world\<lparr>sd_trace := [fs_request ?op]\<rparr>"
  have "fs_store ?cb 0x20000100 0x3F000 0x20001000 600 7 demo_fs demo_world = (Ret (FS_SUCCESS, m), ?s)"
    using store_accepted [of demo_fs "0x20000100" "0x20001000" "0x3F000" 600 ?cb 7] demo_fs_facts m(5)
      process_request [OF m(1,2) _ demo_world_flash, of ?cb] by (simp add: demo_world_def)
  moreover have "flash_grants ?s" using demo_world_flash by (simp add: flash_grants_def)
  then have "fs_events ?cb (replicate 4 NRF_EVT_FLASH_OPERATION_ERROR) m ?s =
      queue_process ?cb (queue_advance m) (?s\<lparr>sd_trace := sd_trace ?s @ replicate 3 (fs_request ?op)\<rparr>)"
    using flash_retries_bounded [OF m(1-3) _ _ m(4), of ?s ?cb] by (simp add: demo_fs_cb_def bnd_run)
  moreover have "fs_count (queue_advance m) = 0"
    using queue_advance_queue(1) [OF m(1-3)] by (simp add: fs_queue_Nil_iff)
  ultimately show ?thesis by (simp add: queue_process_def)
qed

text \<open>
  C32: a request that the stack refuses with an error other than busy stops the module until the next
  system event. The client is told of the error, as its only event; but the operation stays in front
  of the queue and the module goes on believing that it is being executed. Whatever the client asks
  for then, during the callback and after it, is queued or refused without any request to the stack,
  and the number of queued operations, for which advertising waits, is not zero. Nothing about this
  refusal makes the stack send an event; the next one for whatever other reason repeats the refused
  request, and the client is told of the same error again.
\<close>

theorem flash_error_stalls:
  fixes ctx :: u32
  assumes "fs_inv m" and "fs_queue m = []" and "fs_flag m FS_FLAG_INITIALIZED" and "check_config m cfg"
    and "src \<noteq> 0" and "dest \<noteq> 0" and "(src AND 3) = 0" and "(dest AND 3) = 0" and "len \<noteq> 0"
    and "cfg_start_addr (fs_config_at m cfg) \<le> dest" and "dest + 4 * ucast len \<le> cfg_end_addr (fs_config_at m cfg)"
    and "\<forall>h c. rc (sd_env s h c) = err" and "err \<noteq> NRF_SUCCESS" and "err \<noteq> NRF_ERROR_BUSY"
    and "sys_evt \<noteq> NRF_EVT_FLASH_OPERATION_SUCCESS" and "sys_evt \<noteq> NRF_EVT_FLASH_OPERATION_ERROR"
  defines "request \<equiv> Soc (Sd_flash_write dest src (ucast (chunk_len len 0)))"
    and "refusal \<equiv> (FS_EVT_STORE ctx dest len, FS_ERR_INTERNAL)"
  shows "\<exists>m1 s1 m2 s2 m3 s3. fs_store (client_cb reqs inner) cfg dest src len ctx m s = (Ret (FS_SUCCESS, m1), s1)
     \<and> fl_told s1 = fl_told s @ [refusal] \<and> sd_trace s1 = sd_trace s @ [request]
     \<and> fs_run (client_cb reqs inner) (map In_ask as) m1 s1 = (Ret m2, s2)
     \<and> fl_told s2 = fl_told s1 \<and> sd_trace s2 = sd_trace s1
     \<and> snd (fs_queued_op_count_get (Some 0) m2) \<noteq> Some 0 \<and> op_id (hd (fs_queue m2)) = (cfg, ctx)
     \<and> fs_sys_event_handler (client_cb reqs inner) sys_evt m2 s2 = (Ret m3, s3)
     \<and> fl_told s3 = fl_told s2 @ [refusal] \<and> sd_trace s3 = sd_trace s2 @ [request]"
proof -
  let ?cb = "client_cb reqs inner"
  let ?op = "\<lparr>op_config = cfg, op_context = ctx, op_code = FS_OP_STORE src dest len 0\<rparr>"
  have req: "fs_request ?op = request" "(fs_evt_of ?op, FS_ERR_INTERNAL) = refusal"
    by (simp_all add: fs_request_def fs_evt_of_def request_def refusal_def)
  have process: "\<exists>n t q'. queue_process ?cb m' t' = (Ret n, t) \<and> fs_inv n \<and> fs_flag n FS_FLAG_PROCESSING \<and> fs_queue n = ?op # q'
      \<and> fl_told t = fl_told t' @ [refusal] \<and> sd_trace t = sd_trace t' @ [request] \<and> sd_env t = sd_env t'"
    if "fs_inv m'" "fs_queue m' = ?op # q" "fs_flag m' FS_FLAG_PROCESSING" "sd_env t' = sd_env s" for m' q t'
  proof -
    note th = that
    let ?t = "t'\<lparr>sd_trace := sd_trace t' @ [request]\<rparr>"
    obtain n t q2 where "send_event ?cb ?op FS_ERR_INTERNAL m' ?t = (Ret n, t)" "grown m' ?t n t q2"
      "fs_flag n FS_FLAG_PROCESSING" "fl_told t = fl_told ?t @ [refusal]"
      using client_run [OF th(1,3), of reqs inner ?op FS_ERR_INTERNAL ?t] req(2) by auto
    then show ?thesis
      using fs_queue_ConsD [OF th(1,2)] th(2,4) assms(12-14) req(1)
      by (intro exI [of _ n] exI [of _ t] exI [of _ "q @ q2"]) (simp add: queue_process_def execute_request grown_def)
  qed
  obtain m' where m': "fs_inv m'" "fs_queue m' = [?op]" "fs_flag m' FS_FLAG_PROCESSING"
    "fs_enqueue ?cb ?op m = bnd (queue_process ?cb m') (\<lambda>m. ret (FS_SUCCESS, m))"
    using enqueue_run [OF assms(1), of ?op ?cb] assms(2) by auto
  obtain m1 s1 q1 where 1: "queue_process ?cb m' s = (Ret m1, s1)" "fs_inv m1" "fs_flag m1 FS_FLAG_PROCESSING" "fs_queue m1 = ?op # q1"
    "fl_told s1 = fl_told s @ [refusal]" "sd_trace s1 = sd_trace s @ [request]" "sd_env s1 = sd_env s"
    using process [OF m'(1,2,3)] by blast
  have st: "fs_store ?cb cfg dest src len ctx m s = (Ret (FS_SUCCESS, m1), s1)"
    using store_accepted [OF assms(3-8) assms(10,11,9), of ?cb ctx] m'(4) 1(1) by simp
  obtain m2 s2 q2 where 2: "fs_run ?cb (map In_ask as) m1 s1 = (Ret m2, s2)" "grown m1 s1 m2 s2 q2" "fs_flag m2 FS_FLAG_PROCESSING"
    "fl_told s2 = fl_told s1"
    using asks_quiet [OF 1(2,3)] by blast
  have q2: "fs_inv m2" "fs_queue m2 = ?op # (q1 @ q2)" "sd_env s2 = sd_env s" "sd_trace s2 = sd_trace s1"
    using 2(2) 1(4,7) by (simp_all add: grown_def)
  obtain m3 s3 where "queue_process ?cb m2 s2 = (Ret m3, s3)" "fl_told s3 = fl_told s2 @ [refusal]" "sd_trace s3 = sd_trace s2 @ [request]"
    using process [OF q2(1,2) 2(3) q2(3)] by blast
  moreover have "snd (fs_queued_op_count_get (Some 0) m2) \<noteq> Some 0"
    using fs_queue_ConsD [OF q2(1,2)] by (simp add: fs_queued_op_count_get_def)
  ultimately show ?thesis
    using st 1 2 q2 assms(15,16) by (auto simp: fs_sys_event_handler_def op_id_def)
qed

theorem flash_error_stalls_witness:
  "\<exists>m1 s1 m2 s2. fs_store (client_cb demo_flash_reqs (\<lambda>_ _ _. ret)) 0x20000100 0x3F000 0x20001000 600 7 demo_fs (demo_flash_world (\<lambda>_. 16))
       = (Ret (FS_SUCCESS, m1), s1) \<and> length (sd_trace s1) = 1
     \<and> fs_run (client_cb demo_flash_reqs (\<lambda>_ _ _. ret)) (map In_ask [Ask_store 0x20000100 0x3F000 0x20001000 600 8]) m1 s1 = (Ret m2, s2)
     \<and> snd (fs_queued_op_count_get (Some 0) m2) \<noteq> Some 0 \<and> length (sd_trace s2) = 1"
proof -
  let ?w = "demo_flash_world (\<lambda>_. 16)"
  have w: "\<forall>h c. rc (sd_env ?w h c) = 16" "sd_trace ?w = []" by (simp_all add: demo_flash_world_def)
  have *: "\<exists>m1 s1 m2 s2 m3 s3. fs_store (client_cb demo_flash_reqs (\<lambda>_ _ _. ret)) 0x20000100 0x3F000 0x20001000 600 7 demo_fs ?w = (Ret (FS_SUCCESS, m1), s1)
     \<and> fl_told s1 = fl_told ?w @ [(FS_EVT_STORE 7 0x3F000 600, FS_ERR_INTERNAL)]
     \<and> sd_trace s1 = sd_trace ?w @ [Soc (Sd_flash_write 0x3F000 0x20001000 (ucast (chunk_len 600 0)))]
     \<and> fs_run (client_cb demo_flash_reqs (\<lambda>_ _ _. ret)) (map In_ask [Ask_store 0x20000100 0x3F000 0x20001000 600 8]) m1 s1 = (Ret m2, s2)
     \<and> fl_told s2 = fl_told s1 \<and> sd_trace s2 = sd_trace s1
     \<and> snd (fs_queued_op_count_get (Some 0) m2) \<noteq> Some 0 \<and> op_id (hd (fs_queue m2)) = (0x20000100, 7)
     \<and> fs_sys_event_handler (client_cb demo_flash_reqs (\<lambda>_ _ _. ret)) 0 m2 s2 = (Ret m3, s3)
     \<and> fl_told s3 = fl_told s2 @ [(FS_EVT_STORE 7 0x3F000 600, FS_ERR_INTERNAL)]
     \<and> sd_trace s3 = sd_trace s2 @ [Soc (Sd_flash_write 0x3F000 0x20001000 (ucast (chunk_len 600 0)))]"
    by (rule flash_error_stalls [where err = 16])
       (simp_all add: demo_fs_facts w nrf_codes NRF_EVT_FLASH_OPERATION_SUCCESS_def NRF_EVT_FLASH_OPERATION_ERROR_def)
  show ?thesis
    by (rule exE [OF *], elim exE conjE, intro exI conjI, assumption, simp add: w, assumption, assumption, simp add: w)
qed

text \<open>
  Initialisation gives every registered configuration without addresses its own flash: in
  the order of descending priority each gets as many pages as it asks for, directly below those
  given before, starting at the end of the usable flash, so that no two of them overlap, and the
  configurations that had addresses keep them. This needs a positive priority in each of them, at
  most 256 of them, and enough flash.
\<close>

lemma fs_init_partitions:
  assumes "\<not> fs_flag m FS_FLAG_INITIALIZED" and "length (fs_section m) \<le> 256"
    and "\<forall>j \<in> set (fs_unset (fs_section m)). cfg_priority (fs_section m ! j) > 0"
    and "1024 * pages_of (fs_section m) (fs_unset (fs_section m)) < unat (fs_flash_page_end_addr uicr codesize)"
  shows "\<exists>order m'. fs_init uicr codesize m = (FS_SUCCESS, m') \<and> fs_flag m' FS_FLAG_INITIALIZED
     \<and> set order = set (fs_unset (fs_section m)) \<and> fs_unset (fs_section m') = []
     \<and> sorted_wrt (\<lambda>a b. cfg_priority (fs_section m ! b) \<le> cfg_priority (fs_section m ! a)) order
     \<and> stacked (fs_section m) (fs_flash_page_end_addr uicr codesize) order (fs_section m')
     \<and> sorted_wrt (\<lambda>a b. unat (cfg_end_addr (fs_section m' ! b)) \<le> unat (cfg_start_addr (fs_section m' ! a))) order"
proof -
  let ?cs = "fs_section m" and ?page_end = "fs_flash_page_end_addr uicr codesize"
  let ?U = "{j. j < length ?cs \<and> \<not> cfg_set (?cs ! j)}"
  have U: "set (fs_unset ?cs) = ?U" by (auto simp: fs_unset_def)
  have room: "1024 * (\<Sum>j \<in> ?U. unat (cfg_num_pages (?cs ! j))) < unat ?page_end"
    using assms(4) pages_of_distinct [of "fs_unset ?cs" ?cs] unfolding U by (simp add: fs_unset_def)
  have n: "length ?cs - length (filter cfg_set ?cs) = card ?U"
    using sum_length_filter_compl [of cfg_set ?cs] by (simp add: length_filter_conv_card)
  obtain order cs' where r: "foldl fs_assign (?cs, ?page_end) [0..<card ?U] = (cs', ?page_end - of_nat (1024 * pages_of ?cs order))"
     "length order = card ?U" "stacked ?cs ?page_end order cs'" "set order \<subseteq> ?U" "\<forall>j \<in> set order. cfg_set (cs' ! j)"
     "sorted_wrt (\<lambda>a b. cfg_priority (?cs ! b) \<le> cfg_priority (?cs ! a)) order"
    using fs_assign_all [of ?cs ?page_end "card ?U"] assms(2,3) room unfolding U by blast
  have d: "distinct order" using r(3) by (simp add: stacked_def)
  have all: "set order = ?U" using r(2,4) distinct_card [OF d] by (intro card_subset_eq) auto
  have keep: "length cs' = length ?cs" "\<forall>j < length ?cs. j \<notin> set order \<longrightarrow> cs' ! j = ?cs ! j"
    using r(3) by (auto simp: stacked_def)
  have "cfg_set (cs' ! j)" if "j < length ?cs" for j using that keep r(5) all by (cases "j \<in> set order") auto
  then have "fs_unset cs' = []" using keep(1) by (auto simp: fs_unset_def filter_empty_conv)
  moreover have "1024 * pages_of ?cs order \<le> unat ?page_end" using room pages_of_distinct [OF d, of ?cs] all by simp
  then have "sorted_wrt (\<lambda>a b. unat (cfg_end_addr (cs' ! b)) \<le> unat (cfg_start_addr (cs' ! a))) order"
    using stacked_below [OF r(3)] by (simp add: sorted_wrt_iff_nth_less)
  moreover have "fs_init uicr codesize m = (FS_SUCCESS, fs_set FS_FLAG_INITIALIZED (m\<lparr>fs_section := cs'\<rparr>))"
    using assms(1) r(1) by (simp add: fs_init_def Let_def n)
  moreover have "fs_flag (fs_set FS_FLAG_INITIALIZED (m\<lparr>fs_section := cs'\<rparr>)) FS_FLAG_INITIALIZED"
    by (simp add: fs_flag_bit fs_flags_after)
  moreover have "fs_section (fs_set FS_FLAG_INITIALIZED (m\<lparr>fs_section := cs'\<rparr>)) = cs'" by (simp add: fs_set_def)
  ultimately show ?thesis using r(3,6) all U by auto
qed

lemma fs_init_partitions_example:
  "\<exists>order m'. fs_init 0xFFFFFFFF 256 demo_fs_fresh = (FS_SUCCESS, m') \<and> fs_flag m' FS_FLAG_INITIALIZED \<and> set order = {0, 1}
     \<and> sorted_wrt (\<lambda>a b. cfg_priority (fs_section demo_fs_fresh ! b) \<le> cfg_priority (fs_section demo_fs_fresh ! a)) order
     \<and> stacked (fs_section demo_fs_fresh) 0x40000 order (fs_section m')"
proof -
  have u: "fs_unset (fs_section demo_fs_fresh) = [0, 1]"
    by (simp add: fs_unset_def demo_fs_fresh_def cfg_set_def upt_rec)
  show ?thesis
    using fs_init_partitions [of demo_fs_fresh "0xFFFFFFFF" 256, unfolded u]
    by (simp add: fs_flash_page_end_addr_def FS_PAGE_SIZE_def demo_fs_fresh_def fs_flag_bit pages_of_def) blast
qed

end
