(* ===== verification/FdsPages.thy ===== *)
theory FdsPages
  imports FStorage
begin

text \<open>
  Flash data storage, \<^verbatim>\<open>components/libraries/fds\<close>, the pages: their tags, the records on them and
  the functions that read them. Flash is memory mapped, so reading is a function of its contents. A
  pointer into flash is its byte address; flash lies in the lower half of the address space, so adding
  to a pointer does not wrap. \<^verbatim>\<open>NULL\<close> is the address 0. Configuration of the nRF51 build: three virtual
  pages of 256 words, no checksums.
\<close>

unbundle bit_operations_syntax

subsection \<open>Data\<close>

type_synonym flash = "nat \<Rightarrow> u32"

definition FDS_VIRTUAL_PAGES :: nat where "FDS_VIRTUAL_PAGES = 3"
definition FDS_MAX_PAGES :: nat where "FDS_MAX_PAGES = FDS_VIRTUAL_PAGES - 1"
definition FDS_PAGE_SIZE :: nat where "FDS_PAGE_SIZE = 256"
definition FDS_PHY_PAGES_IN_VPAGE :: u16 where "FDS_PHY_PAGES_IN_VPAGE = 1"
definition FDS_PAGE_TAG_SIZE :: nat where "FDS_PAGE_TAG_SIZE = 2"
definition FDS_PAGE_TAG_MAGIC :: u32 where "FDS_PAGE_TAG_MAGIC = 0xDEADC0DE"
definition FDS_PAGE_TAG_SWAP :: u32 where "FDS_PAGE_TAG_SWAP = 0xF11E01FF"
definition FDS_PAGE_TAG_DATA :: u32 where "FDS_PAGE_TAG_DATA = 0xF11E01FE"
definition FDS_ERASED_WORD :: u32 where "FDS_ERASED_WORD = 0xFFFFFFFF"
definition FDS_OFFSET_TL :: nat where "FDS_OFFSET_TL = 0"
definition FDS_OFFSET_IC :: nat where "FDS_OFFSET_IC = 1"
definition FDS_OFFSET_ID :: nat where "FDS_OFFSET_ID = 2"
definition FDS_OFFSET_DATA :: u16 where "FDS_OFFSET_DATA = 3"
definition FDS_HEADER_SIZE :: nat where "FDS_HEADER_SIZE = 3"
definition FDS_FILE_ID_INVALID :: u16 where "FDS_FILE_ID_INVALID = 0xFFFF"
definition FDS_RECORD_KEY_DIRTY :: u16 where "FDS_RECORD_KEY_DIRTY = 0"

datatype fds_page_type = FDS_PAGE_DATA | FDS_PAGE_SWAP | FDS_PAGE_ERASED | FDS_PAGE_UNDEFINED

text \<open>A header is three words; the first field of a pair is the lower half of its word.\<close>

record fds_tl =
  record_key :: u16
  length_words :: u16

record fds_ic =
  file_id :: u16
  crc16 :: u16

record fds_header =
  h_tl :: fds_tl
  h_ic :: fds_ic
  record_id :: u32

definition tl_of :: "u32 \<Rightarrow> fds_tl" where
  "tl_of w = \<lparr>record_key = ucast w, length_words = ucast (drop_bit 16 w)\<rparr>"

definition tl_word :: "fds_tl \<Rightarrow> u32" where
  "tl_word t = ucast (record_key t) OR push_bit 16 (ucast (length_words t))"

definition ic_of :: "u32 \<Rightarrow> fds_ic" where
  "ic_of w = \<lparr>file_id = ucast w, crc16 = ucast (drop_bit 16 w)\<rparr>"

definition ic_word :: "fds_ic \<Rightarrow> u32" where
  "ic_word i = ucast (file_id i) OR push_bit 16 (ucast (crc16 i))"

definition header_at :: "flash \<Rightarrow> nat \<Rightarrow> fds_header" where
  "header_at fl p = \<lparr>h_tl = tl_of (fl p), h_ic = ic_of (fl (p + 4)), record_id = fl (p + 8)\<rparr>"

record fds_page =
  pg_type :: fds_page_type
  pg_addr :: nat
  write_offset :: u16
  words_reserved :: u16
  records_open :: u16
  can_gc :: bool

text \<open>A descriptor and the token of a search, both kept by the user between calls.\<close>

record fds_record_desc =
  d_record_id :: u32
  d_record :: nat
  d_gc_run_count :: u16
  record_is_open :: bool

record fds_find_token =
  t_addr :: nat
  t_page :: u16

definition zero_desc :: fds_record_desc where
  "zero_desc = \<lparr>d_record_id = 0, d_record = 0, d_gc_run_count = 0, record_is_open = False\<rparr>"

definition zero_token :: fds_find_token where
  "zero_token = \<lparr>t_addr = 0, t_page = 0\<rparr>"

definition zero_page :: fds_page where
  "zero_page = \<lparr>pg_type = FDS_PAGE_DATA, pg_addr = 0, write_offset = 0, words_reserved = 0, records_open = 0, can_gc = False\<rparr>"

subsection \<open>Reading pages\<close>

definition header_is_valid :: "fds_header \<Rightarrow> bool" where
  "header_is_valid p_header \<longleftrightarrow>
     file_id (h_ic p_header) \<noteq> FDS_FILE_ID_INVALID \<and> record_key (h_tl p_header) \<noteq> FDS_RECORD_KEY_DIRTY"

definition address_is_valid :: "nat \<Rightarrow> nat \<Rightarrow> nat \<Rightarrow> bool" where
  "address_is_valid p_start_addr p_end_addr p_addr \<longleftrightarrow>
     p_addr \<noteq> 0 \<and> p_addr \<ge> p_start_addr \<and> p_addr \<le> p_end_addr \<and> p_addr mod 4 = 0"

definition page_identify :: "flash \<Rightarrow> nat \<Rightarrow> fds_page_type" where
  "page_identify fl p_page_addr =
     (if fl p_page_addr \<noteq> FDS_PAGE_TAG_MAGIC then FDS_PAGE_UNDEFINED
      else if fl (p_page_addr + 4) = FDS_PAGE_TAG_SWAP then FDS_PAGE_SWAP
      else if fl (p_page_addr + 4) = FDS_PAGE_TAG_DATA then FDS_PAGE_DATA
      else FDS_PAGE_UNDEFINED)"

definition page_is_erased :: "flash \<Rightarrow> nat \<Rightarrow> bool" where
  "page_is_erased fl p_page_addr \<longleftrightarrow> list_all (\<lambda>i. fl (p_page_addr + 4 * i) = FDS_ERASED_WORD) [0..<FDS_PAGE_SIZE]"

text \<open>The record after the one at \<open>p\<close>.\<close>

definition next_rec :: "flash \<Rightarrow> nat \<Rightarrow> nat" where
  "next_rec fl p = p + 4 * (FDS_HEADER_SIZE + unat (length_words (h_tl (header_at fl p))))"

lemma next_rec_gt [simp]: "p < next_rec fl p"
  by (simp add: next_rec_def FDS_HEADER_SIZE_def)

lemma next_rec_decreases [termination_simp]: "p < e \<Longrightarrow> e - next_rec fl p < e - p"
  using next_rec_gt [of p fl] by linarith

text \<open>
  The loop of \<^verbatim>\<open>page_scan\<close> over the records: the words written (a 16 bit number), whether an invalid
  header was found, and the largest record identifier, \<^verbatim>\<open>m_latest_rec_id\<close>.
\<close>

function (sequential) page_scan_loop :: "flash \<Rightarrow> nat \<Rightarrow> nat \<Rightarrow> u16 \<times> bool \<times> u32 \<Rightarrow> u16 \<times> bool \<times> u32" where
  "page_scan_loop fl p_end_addr p_addr (words_written, dirty_record_found, latest) =
     (if p_addr < p_end_addr \<and> fl p_addr \<noteq> FDS_ERASED_WORD
      then page_scan_loop fl p_end_addr (next_rec fl p_addr)
             (let h = header_at fl p_addr in
              (words_written + (of_nat FDS_HEADER_SIZE + length_words (h_tl h)),
               dirty_record_found \<or> \<not> header_is_valid h,
               if header_is_valid h \<and> record_id h > latest then record_id h else latest))
      else (words_written, dirty_record_found, latest))"
  by pat_completeness auto
termination
  by (relation "measure (\<lambda>(fl, e, p, _). e - p)") (auto simp: next_rec_decreases)

declare page_scan_loop.simps [simp del]

definition page_scan :: "flash \<Rightarrow> nat \<Rightarrow> u32 \<Rightarrow> u16 \<times> bool \<times> u32" where
  "page_scan fl p_addr latest =
     page_scan_loop fl (p_addr + 4 * FDS_PAGE_SIZE) (p_addr + 4 * FDS_PAGE_TAG_SIZE) (of_nat FDS_PAGE_TAG_SIZE, False, latest)"

text \<open>
  The loop of \<^verbatim>\<open>record_find_next\<close>, and the function: the next valid record, if there is one, from
  the start of the page when \<open>p_record\<close> is \<^verbatim>\<open>NULL\<close>.
\<close>

function valid_from :: "flash \<Rightarrow> nat \<Rightarrow> nat \<Rightarrow> nat option" where
  "valid_from fl p_end p_next_rec =
     (if p_next_rec < p_end \<and> fl p_next_rec \<noteq> FDS_ERASED_WORD
      then if header_is_valid (header_at fl p_next_rec) then Some p_next_rec
           else valid_from fl p_end (next_rec fl p_next_rec)
      else None)"
  by pat_completeness auto
termination
  by (relation "measure (\<lambda>(fl, e, p). e - p)") (auto simp: next_rec_decreases)

declare valid_from.simps [simp del]

definition record_find_next :: "flash \<Rightarrow> fds_page \<Rightarrow> nat \<Rightarrow> nat option" where
  "record_find_next fl pg p_record =
     valid_from fl (pg_addr pg + 4 * FDS_PAGE_SIZE)
       (if p_record \<noteq> 0 then next_rec fl p_record else pg_addr pg + 4 * FDS_PAGE_TAG_SIZE)"

lemma valid_from_ge: "valid_from fl e p = Some q \<Longrightarrow> p \<le> q \<and> q < e"
proof (induction fl e p rule: valid_from.induct)
  case (1 fl e p)
  show ?case
  proof (cases "p < e \<and> fl p \<noteq> FDS_ERASED_WORD \<and> \<not> header_is_valid (header_at fl p)")
    case True
    then have "next_rec fl p \<le> q \<and> q < e"
      using 1 valid_from.simps [of fl e p] by auto
    then show ?thesis
      using next_rec_gt [of p fl] by linarith
  next
    case False
    then show ?thesis
      using 1(2) valid_from.simps [of fl e p] by (auto split: if_splits)
  qed
qed

lemma record_find_next_bound:
  assumes "record_find_next fl pg p = Some q"
  shows "p < q" and "q < pg_addr pg + 4 * FDS_PAGE_SIZE" and "q \<noteq> 0"
proof -
  have b: "(if p \<noteq> 0 then next_rec fl p else pg_addr pg + 4 * FDS_PAGE_TAG_SIZE) \<le> q \<and> q < pg_addr pg + 4 * FDS_PAGE_SIZE"
    using valid_from_ge assms unfolding record_find_next_def by blast
  then show pq: "p < q" and "q < pg_addr pg + 4 * FDS_PAGE_SIZE"
    by (auto simp: FDS_PAGE_TAG_SIZE_def split: if_splits intro: less_le_trans [OF next_rec_gt])
  show "q \<noteq> 0"
    using pq by simp
qed

text \<open>
  The inner loop of \<^verbatim>\<open>record_find\<close> on one page: the next valid record that matches, and the position
  that the token is left at.
\<close>

definition rec_matches :: "u16 option \<Rightarrow> u16 option \<Rightarrow> fds_header \<Rightarrow> bool" where
  "rec_matches p_file_id p_record_key h \<longleftrightarrow>
     (case p_file_id of None \<Rightarrow> True | Some f \<Rightarrow> file_id (h_ic h) = f)
     \<and> (case p_record_key of None \<Rightarrow> True | Some k \<Rightarrow> record_key (h_tl h) = k)"

function find_on_page :: "flash \<Rightarrow> u16 option \<Rightarrow> u16 option \<Rightarrow> fds_page \<Rightarrow> nat \<Rightarrow> nat option" where
  "find_on_page fl p_file_id p_record_key pg p =
     (case record_find_next fl pg p of
        None \<Rightarrow> None
      | Some q \<Rightarrow> if rec_matches p_file_id p_record_key (header_at fl q) then Some q
                  else find_on_page fl p_file_id p_record_key pg q)"
  by pat_completeness auto
termination
proof (relation "measure (\<lambda>(fl, f, k, pg, p). pg_addr pg + 4 * FDS_PAGE_SIZE - p)", goal_cases)
  case (2 fl f k pg p q)
  then show ?case
    using record_find_next_bound [of fl pg p q] by auto
qed simp

declare find_on_page.simps [simp del]

text \<open>
  The outer loop over the pages from the token's page on: whether a record was found, and the page
  and the address in the token.
\<close>

function find_from :: "flash \<Rightarrow> u16 option \<Rightarrow> u16 option \<Rightarrow> fds_page list \<Rightarrow> nat \<Rightarrow> nat \<Rightarrow> bool \<times> nat \<times> nat" where
  "find_from fl p_file_id p_record_key pgs i p =
     (if i < FDS_MAX_PAGES
      then if pg_type (pgs ! i) \<noteq> FDS_PAGE_DATA then find_from fl p_file_id p_record_key pgs (Suc i) p
           else (case find_on_page fl p_file_id p_record_key (pgs ! i) p of
                   Some q \<Rightarrow> (True, i, q)
                 | None \<Rightarrow> find_from fl p_file_id p_record_key pgs (Suc i) 0)
      else (False, i, p))"
  by pat_completeness auto
termination
  by (relation "measure (\<lambda>(fl, f, k, pgs, i, p). FDS_MAX_PAGES - i)") auto

declare find_from.simps [simp del]

text \<open>\<^verbatim>\<open>dirty_records_stat\<close>: the invalid records of a page and their words, added to 16 bit counters.\<close>

function (sequential) dirty_stat_loop :: "flash \<Rightarrow> nat \<Rightarrow> nat \<Rightarrow> u16 \<times> u16 \<Rightarrow> u16 \<times> u16" where
  "dirty_stat_loop fl p_end p_rec (dirty_records, word_count) =
     (if p_rec < p_end \<and> fl p_rec \<noteq> FDS_ERASED_WORD
      then dirty_stat_loop fl p_end (next_rec fl p_rec)
             (if \<not> header_is_valid (header_at fl p_rec)
              then (dirty_records + 1, word_count + (of_nat FDS_HEADER_SIZE + length_words (h_tl (header_at fl p_rec))))
              else (dirty_records, word_count))
      else (dirty_records, word_count))"
  by pat_completeness auto
termination
  by (relation "measure (\<lambda>(fl, e, p, _). e - p)") (auto simp: next_rec_decreases)

declare dirty_stat_loop.simps [simp del]

definition dirty_records_stat :: "flash \<Rightarrow> fds_page \<Rightarrow> u16 \<times> u16 \<Rightarrow> u16 \<times> u16" where
  "dirty_records_stat fl pg =
     dirty_stat_loop fl (pg_addr pg + 4 * FDS_PAGE_SIZE) (pg_addr pg + 4 * FDS_PAGE_TAG_SIZE)"

text \<open>The loop of \<^verbatim>\<open>fds_stat\<close> that counts the valid records of a page.\<close>

function count_valid :: "flash \<Rightarrow> fds_page \<Rightarrow> nat \<Rightarrow> u16 \<Rightarrow> u16" where
  "count_valid fl pg p n =
     (case record_find_next fl pg p of None \<Rightarrow> n | Some q \<Rightarrow> count_valid fl pg q (n + 1))"
  by pat_completeness auto
termination
proof (relation "measure (\<lambda>(fl, pg, p, n). pg_addr pg + 4 * FDS_PAGE_SIZE - p)", goal_cases)
  case (2 fl pg p n q)
  then show ?case
    using record_find_next_bound [of fl pg p q] by auto
qed simp

declare count_valid.simps [simp del]

text \<open>The inner loop of \<^verbatim>\<open>record_find_by_desc\<close>: the valid record of a page with the given identifier.\<close>

function find_id :: "flash \<Rightarrow> fds_page \<Rightarrow> u32 \<Rightarrow> nat \<Rightarrow> nat option" where
  "find_id fl pg i p =
     (case record_find_next fl pg p of
        None \<Rightarrow> None
      | Some q \<Rightarrow> if record_id (header_at fl q) = i then Some q else find_id fl pg i q)"
  by pat_completeness auto
termination
proof (relation "measure (\<lambda>(fl, pg, i, p). pg_addr pg + 4 * FDS_PAGE_SIZE - p)", goal_cases)
  case (2 fl pg i p q)
  then show ?case
    using record_find_next_bound [of fl pg p q] by auto
qed simp

declare find_id.simps [simp del]

primrec find_id_pages :: "flash \<Rightarrow> fds_page list \<Rightarrow> u32 \<Rightarrow> nat list \<Rightarrow> (nat \<times> nat) option" where
  "find_id_pages fl pgs i [] = None"
| "find_id_pages fl pgs i (k # ks) =
     (case find_id fl (pgs ! k) i 0 of Some q \<Rightarrow> Some (k, q) | None \<Rightarrow> find_id_pages fl pgs i ks)"

primrec page_from_record :: "fds_page list \<Rightarrow> nat \<Rightarrow> nat list \<Rightarrow> nat option" where
  "page_from_record pgs p_rec [] = None"
| "page_from_record pgs p_rec (i # is) =
     (if p_rec > pg_addr (pgs ! i) \<and> p_rec < pg_addr (pgs ! i) + 4 * FDS_PAGE_SIZE then Some i
      else page_from_record pgs p_rec is)"

end
