(* ===== verification/Fds.thy ===== *)
theory Fds
  imports FdsPages AppUtil
begin

text \<open>
  Flash data storage, \<^verbatim>\<open>components/libraries/fds/fds.c\<close>, the operations: a ring of queued operations
  and one of the chunks that they write, the operations' steps, garbage collection and the interface.
  Every step makes one request to the flash access module, whose event runs the next step. The state
  extends the state of the calls to the outside. An access outside \<^verbatim>\<open>m_pages\<close> or the chunk ring, which
  has no meaning in C, is recorded in \<open>out_of_bounds\<close> and reads a zeroed element.
\<close>

unbundle bit_operations_syntax

subsection \<open>Data\<close>

definition FDS_SUCCESS :: u32 where [nrf_codes]: "FDS_SUCCESS = 0"
definition FDS_ERR_OPERATION_TIMEOUT :: u32 where [nrf_codes]: "FDS_ERR_OPERATION_TIMEOUT = 1"
definition FDS_ERR_NOT_INITIALIZED :: u32 where [nrf_codes]: "FDS_ERR_NOT_INITIALIZED = 2"
definition FDS_ERR_UNALIGNED_ADDR :: u32 where [nrf_codes]: "FDS_ERR_UNALIGNED_ADDR = 3"
definition FDS_ERR_INVALID_ARG :: u32 where [nrf_codes]: "FDS_ERR_INVALID_ARG = 4"
definition FDS_ERR_NULL_ARG :: u32 where [nrf_codes]: "FDS_ERR_NULL_ARG = 5"
definition FDS_ERR_NO_OPEN_RECORDS :: u32 where [nrf_codes]: "FDS_ERR_NO_OPEN_RECORDS = 6"
definition FDS_ERR_NO_SPACE_IN_FLASH :: u32 where [nrf_codes]: "FDS_ERR_NO_SPACE_IN_FLASH = 7"
definition FDS_ERR_NO_SPACE_IN_QUEUES :: u32 where [nrf_codes]: "FDS_ERR_NO_SPACE_IN_QUEUES = 8"
definition FDS_ERR_RECORD_TOO_LARGE :: u32 where [nrf_codes]: "FDS_ERR_RECORD_TOO_LARGE = 9"
definition FDS_ERR_NOT_FOUND :: u32 where [nrf_codes]: "FDS_ERR_NOT_FOUND = 10"
definition FDS_ERR_NO_PAGES :: u32 where [nrf_codes]: "FDS_ERR_NO_PAGES = 11"
definition FDS_ERR_USER_LIMIT_REACHED :: u32 where [nrf_codes]: "FDS_ERR_USER_LIMIT_REACHED = 12"
definition FDS_ERR_BUSY :: u32 where [nrf_codes]: "FDS_ERR_BUSY = 14"
definition FDS_ERR_INTERNAL :: u32 where [nrf_codes]: "FDS_ERR_INTERNAL = 15"
definition FDS_OP_EXECUTING :: u32 where [nrf_codes]: "FDS_OP_EXECUTING = 0"
definition FDS_OP_COMPLETED :: u32 where [nrf_codes]: "FDS_OP_COMPLETED = 0x1D1D"

definition FDS_FLAG_INITIALIZING :: u8 where "FDS_FLAG_INITIALIZING = 1"
definition FDS_FLAG_INITIALIZED :: u8 where "FDS_FLAG_INITIALIZED = 2"
definition FDS_FLAG_PROCESSING :: u8 where "FDS_FLAG_PROCESSING = 4"

definition FDS_OP_QUEUE_SIZE :: u32 where "FDS_OP_QUEUE_SIZE = 4"
definition FDS_CHUNK_QUEUE_SIZE :: u32 where "FDS_CHUNK_QUEUE_SIZE = 8"
definition FDS_MAX_USERS :: nat where "FDS_MAX_USERS = 8"

definition PAGE_ERASED :: u32 where "PAGE_ERASED = 1"
definition PAGE_DATA :: u32 where "PAGE_DATA = 2"
definition PAGE_SWAP_CLEAN :: u32 where "PAGE_SWAP_CLEAN = 4"
definition PAGE_SWAP_DIRTY :: u32 where "PAGE_SWAP_DIRTY = 8"

text \<open>
  The operations: the union with its tag. An operation code or a step that is no enumerator is
  possible where the code leaves it uninitialised. \<open>FDS_OP_UPDATE\<close> has the record to delete.
\<close>

datatype fds_init_step =
    FDS_OP_INIT_TAG_SWAP | FDS_OP_INIT_TAG_DATA | FDS_OP_INIT_ERASE_SWAP | FDS_OP_INIT_PROMOTE_SWAP
  | FDS_OP_INIT_other

datatype fds_write_step =
    FDS_OP_WRITE_HEADER_BEGIN | FDS_OP_WRITE_HEADER_FINALIZE | FDS_OP_WRITE_RECORD_ID | FDS_OP_WRITE_CHUNKS
  | FDS_OP_WRITE_FIND_RECORD | FDS_OP_WRITE_FLAG_DIRTY | FDS_OP_WRITE_DONE

datatype fds_delete_step = FDS_OP_DEL_RECORD_FLAG_DIRTY | FDS_OP_DEL_FILE_FLAG_DIRTY | FDS_OP_DEL_DONE

record fds_write_op =
  wr_header :: fds_header
  wr_step :: fds_write_step
  wr_page :: u16
  wr_chunk_offset :: u16
  wr_chunk_count :: u8

record fds_del_op =
  del_step :: fds_delete_step
  del_file_id :: u16
  del_record_key :: u16
  del_record_to_delete :: u32

datatype fds_op =
    FDS_OP_NONE
  | FDS_OP_INIT fds_init_step
  | FDS_OP_WRITE fds_write_op
  | FDS_OP_UPDATE fds_write_op u32
  | FDS_OP_DEL_RECORD fds_del_op
  | FDS_OP_DEL_FILE fds_del_op
  | FDS_OP_GC

datatype fds_evt_id =
    FDS_EVT_INIT
  | FDS_EVT_WRITE u32 u16 u16
  | FDS_EVT_UPDATE u32 u16 u16 bool
  | FDS_EVT_DEL_RECORD u32 u16 u16
  | FDS_EVT_DEL_FILE u16 u16
  | FDS_EVT_GC
  | FDS_EVT_unset

record fds_evt =
  evt_id :: fds_evt_id
  evt_result :: u32

record fds_record_chunk =
  chunk_data :: u32
  chunk_length :: u16

record fds_record =
  rec_file_id :: u16
  rec_key :: u16
  rec_chunks :: "fds_record_chunk list"

record fds_reserve_token =
  tok_page :: u16
  tok_length_words :: u16

record fds_swap_page =
  swap_addr :: nat
  swap_offset :: u16

datatype fds_gc_state =
    GC_BEGIN | GC_NEXT_PAGE | GC_FIND_NEXT_RECORD | GC_COPY_RECORD | GC_ERASE_PAGE | GC_DISCARD_SWAP
  | GC_PROMOTE_SWAP | GC_TAG_NEW_SWAP

record fds_gc_data =
  gc_state :: fds_gc_state
  gc_cur_page :: u16
  gc_record_src :: nat
  gc_run_count :: u16
  do_gc_page :: "bool list"
  gc_resume :: bool

record fds_stats =
  st_open_records :: u16
  st_valid_records :: u16
  st_dirty_records :: u16
  st_words_reserved :: u16
  st_words_used :: u16
  st_largest_contig :: u16
  st_freeable_words :: u16

text \<open>
  The variables of the module, the static variables of \<^verbatim>\<open>write_execute\<close> (\<open>upd_desc\<close>, \<open>upd_page\<close>) and of
  \<^verbatim>\<open>file_find_and_delete\<close> (\<open>del_tok\<close>), the bounds that flash access has assigned, and the contents of flash.
\<close>

record fds = world +
  m_flags :: u8
  m_users :: u8
  m_cb_table :: "fnptr list"
  m_latest_rec_id :: u32
  op_queue :: "fds_op list"
  op_rp :: u32
  op_count :: u32
  chunk_queue :: "fds_record_chunk list"
  chunk_rp :: u32
  chunk_count :: u32
  m_pages :: "fds_page list"
  m_swap_page :: fds_swap_page
  m_gc :: fds_gc_data
  upd_desc :: fds_record_desc
  upd_page :: u16
  del_tok :: fds_find_token
  p_start_addr :: nat
  p_end_addr :: nat
  flash_words :: flash
  out_of_bounds :: bool

type_synonym 'w fds_cb = "fnptr \<Rightarrow> fds_evt \<Rightarrow> ('w fds_scheme, unit) prog"

subsection \<open>Flags, pages and requests\<close>

definition flag_set :: "u8 \<Rightarrow> 'w fds_scheme \<Rightarrow> 'w fds_scheme" where
  "flag_set flag s = s\<lparr>m_flags := m_flags s OR flag\<rparr>"

definition flag_clear :: "u8 \<Rightarrow> 'w fds_scheme \<Rightarrow> 'w fds_scheme" where
  "flag_clear flag s = s\<lparr>m_flags := m_flags s AND NOT flag\<rparr>"

definition flag_is_set :: "u8 \<Rightarrow> 'w fds_scheme \<Rightarrow> bool" where
  "flag_is_set flag s \<longleftrightarrow> (m_flags s AND flag) \<noteq> 0"

definition get_page :: "nat \<Rightarrow> 'w fds_scheme \<Rightarrow> fds_page" where
  "get_page i s = (if i < length (m_pages s) then m_pages s ! i else zero_page)"

definition put_page :: "nat \<Rightarrow> (fds_page \<Rightarrow> fds_page) \<Rightarrow> 'w fds_scheme \<Rightarrow> 'w fds_scheme" where
  "put_page i f s =
     (if i < length (m_pages s) then s\<lparr>m_pages := (m_pages s)[i := f (m_pages s ! i)]\<rparr>
      else s\<lparr>out_of_bounds := True\<rparr>)"

definition put_swap :: "(fds_swap_page \<Rightarrow> fds_swap_page) \<Rightarrow> 'w fds_scheme \<Rightarrow> 'w fds_scheme" where
  "put_swap f s = s\<lparr>m_swap_page := f (m_swap_page s)\<rparr>"

definition put_gc :: "(fds_gc_data \<Rightarrow> fds_gc_data) \<Rightarrow> 'w fds_scheme \<Rightarrow> 'w fds_scheme" where
  "put_gc f s = s\<lparr>m_gc := f (m_gc s)\<rparr>"

definition fs_store_req :: "nat \<Rightarrow> fs_src \<Rightarrow> u16 \<Rightarrow> ('w fds_scheme, u32) prog" where
  "fs_store_req dest src n = svc_rc (Store (Fs_store dest src n))"

definition fs_erase_req :: "nat \<Rightarrow> u16 \<Rightarrow> ('w fds_scheme, u32) prog" where
  "fs_erase_req p n = svc_rc (Store (Fs_erase p n))"

definition busy_unless :: "u32 \<Rightarrow> u32" where
  "busy_unless r = (if r = FS_SUCCESS then FDS_SUCCESS else FDS_ERR_BUSY)"

primrec event_send_to :: "'w fds_cb \<Rightarrow> fds_evt \<Rightarrow> nat list \<Rightarrow> ('w fds_scheme, unit) prog" where
  "event_send_to cb p_evt [] = ret ()"
| "event_send_to cb p_evt (user # users) =
     bnd (gets (\<lambda>s. m_cb_table s ! user)) (\<lambda>p.
     bnd (if p \<noteq> NULL then cb p p_evt else ret ()) (\<lambda>_. event_send_to cb p_evt users))"

definition event_send :: "'w fds_cb \<Rightarrow> fds_evt \<Rightarrow> ('w fds_scheme, unit) prog" where
  "event_send cb p_evt = event_send_to cb p_evt [0..<FDS_MAX_USERS]"

definition event_prepare :: "fds_op \<Rightarrow> fds_evt_id" where
  "event_prepare p_op = (case p_op of
       FDS_OP_INIT _ \<Rightarrow> FDS_EVT_INIT
     | FDS_OP_WRITE w \<Rightarrow> FDS_EVT_WRITE (record_id (wr_header w)) (file_id (h_ic (wr_header w))) (record_key (h_tl (wr_header w)))
     | FDS_OP_UPDATE w _ \<Rightarrow> FDS_EVT_UPDATE (record_id (wr_header w)) (file_id (h_ic (wr_header w)))
         (record_key (h_tl (wr_header w))) (wr_step w = FDS_OP_WRITE_DONE)
     | FDS_OP_DEL_RECORD d \<Rightarrow> FDS_EVT_DEL_RECORD (del_record_to_delete d) (del_file_id d) (del_record_key d)
     | FDS_OP_DEL_FILE d \<Rightarrow> FDS_EVT_DEL_FILE (del_file_id d) FDS_RECORD_KEY_DIRTY
     | FDS_OP_GC \<Rightarrow> FDS_EVT_GC
     | FDS_OP_NONE \<Rightarrow> FDS_EVT_unset)"

definition chunk_is_aligned :: "fds_record_chunk list \<Rightarrow> bool" where
  "chunk_is_aligned cs \<longleftrightarrow> list_all (\<lambda>c. is_word_aligned (chunk_data c)) cs"

text \<open>16 bit sums, as in the code.\<close>

definition page_has_space :: "fds_page \<Rightarrow> u16 \<Rightarrow> bool" where
  "page_has_space pg len \<longleftrightarrow> unat (len + write_offset pg + words_reserved pg) < FDS_PAGE_SIZE"

definition page_offsets_update :: "u16 \<Rightarrow> fds_page \<Rightarrow> fds_page" where
  "page_offsets_update len pg =
     pg\<lparr>write_offset := write_offset pg + (of_nat FDS_HEADER_SIZE + len),
        words_reserved := words_reserved pg - (of_nat FDS_HEADER_SIZE + len)\<rparr>"

definition page_tag_write_swap :: "('w fds_scheme, u32) prog" where
  "page_tag_write_swap =
     bnd (gets (\<lambda>s. swap_addr (m_swap_page s))) (\<lambda>p.
     fs_store_req p (From_words [FDS_PAGE_TAG_MAGIC, FDS_PAGE_TAG_SWAP]) (of_nat FDS_PAGE_TAG_SIZE))"

definition page_tag_write_data :: "nat \<Rightarrow> ('w fds_scheme, u32) prog" where
  "page_tag_write_data p_page_addr =
     fs_store_req p_page_addr (From_words [FDS_PAGE_TAG_MAGIC, FDS_PAGE_TAG_DATA]) (of_nat FDS_PAGE_TAG_SIZE)"

text \<open>The error, or the page where space was reserved.\<close>

definition write_space_reserve :: "u16 \<Rightarrow> ('w fds_scheme, u32 + u16) prog" where
  "write_space_reserve len =
     (let total_len_words = len + of_nat FDS_HEADER_SIZE
      in if unat total_len_words \<ge> FDS_PAGE_SIZE - FDS_PAGE_TAG_SIZE then ret (Inl FDS_ERR_RECORD_TOO_LARGE)
         else bnd (gets (\<lambda>s. find (\<lambda>i. pg_type (get_page i s) = FDS_PAGE_DATA \<and> page_has_space (get_page i s) total_len_words)
                               [0..<FDS_MAX_PAGES])) (\<lambda>r.
              case r of
                None \<Rightarrow> ret (Inl FDS_ERR_NO_SPACE_IN_FLASH)
              | Some i \<Rightarrow> bnd (modify (put_page i (\<lambda>pg. pg\<lparr>words_reserved := words_reserved pg + total_len_words\<rparr>)))
                           (\<lambda>_. ret (Inr (of_nat i)))))"

definition write_space_free :: "u16 \<Rightarrow> u16 \<Rightarrow> 'w fds_scheme \<Rightarrow> 'w fds_scheme" where
  "write_space_free len page =
     put_page (unat page) (\<lambda>pg. pg\<lparr>words_reserved := words_reserved pg - (len + of_nat FDS_HEADER_SIZE)\<rparr>)"

definition record_id_new :: "('w fds_scheme, u32) prog" where
  "record_id_new = bnd (modify (\<lambda>s. s\<lparr>m_latest_rec_id := m_latest_rec_id s + 1\<rparr>)) (\<lambda>_. gets m_latest_rec_id)"

subsection \<open>Finding records\<close>

text \<open>The descriptor, updated when the record had to be searched for, and its page.\<close>

definition record_find_by_desc :: "fds_record_desc \<Rightarrow> 'w fds_scheme \<Rightarrow> (fds_record_desc \<times> nat) option" where
  "record_find_by_desc d s =
     (if address_is_valid (p_start_addr s) (p_end_addr s) (d_record d)
         \<and> d_gc_run_count d = gc_run_count (m_gc s)
         \<and> d_record_id d = record_id (header_at (flash_words s) (d_record d))
      then map_option (Pair d) (page_from_record (m_pages s) (d_record d) [0..<FDS_MAX_PAGES])
      else map_option (\<lambda>(i, q). (d\<lparr>d_record := q, d_gc_run_count := gc_run_count (m_gc s)\<rparr>, i))
             (find_id_pages (flash_words s) (m_pages s) (d_record_id d) [0..<FDS_MAX_PAGES]))"

definition record_find ::
  "u16 option \<Rightarrow> u16 option \<Rightarrow> fds_record_desc option \<Rightarrow> fds_find_token option \<Rightarrow> 'w fds_scheme
   \<Rightarrow> u32 \<times> fds_record_desc option \<times> fds_find_token option" where
  "record_find p_file_id p_record_key p_desc p_token s =
     (if \<not> flag_is_set FDS_FLAG_INITIALIZED s then (FDS_ERR_NOT_INITIALIZED, p_desc, p_token)
      else case (p_desc, p_token) of
        (Some d, Some t) \<Rightarrow>
          (case find_from (flash_words s) p_file_id p_record_key (m_pages s) (unat (t_page t)) (t_addr t) of
             (found, i, q) \<Rightarrow>
               (if found then FDS_SUCCESS else FDS_ERR_NOT_FOUND,
                Some (if found then d\<lparr>d_record_id := record_id (header_at (flash_words s) q), d_record := q,
                                      d_gc_run_count := gc_run_count (m_gc s)\<rparr> else d),
                Some \<lparr>t_addr = q, t_page = of_nat i\<rparr>))
      | _ \<Rightarrow> (FDS_ERR_NULL_ARG, p_desc, p_token))"

subsection \<open>Queues\<close>

definition cur_op :: "'w fds_scheme \<Rightarrow> fds_op" where
  "cur_op s = op_queue s ! unat (op_rp s)"

definition put_op :: "fds_op \<Rightarrow> 'w fds_scheme \<Rightarrow> 'w fds_scheme" where
  "put_op p_op s = s\<lparr>op_queue := (op_queue s)[unat (op_rp s) := p_op]\<rparr>"

text \<open>Whether the queue is not empty, and the state.\<close>

definition fds_queue_advance :: "'w fds_scheme \<Rightarrow> 'w fds_scheme" where
  "fds_queue_advance s =
     (let s = put_op FDS_OP_NONE s
      in if op_count s \<noteq> 0
         then s\<lparr>op_rp := (op_rp s + 1) mod FDS_OP_QUEUE_SIZE, op_count := op_count s - 1\<rparr> else s)"

definition chunk_queue_next :: "nat \<Rightarrow> nat" where
  "chunk_queue_next i = (if i \<noteq> unat FDS_CHUNK_QUEUE_SIZE - 1 then i + 1 else 0)"

text \<open>The chunk, or nothing when the queue is empty and the pointer stays \<^verbatim>\<open>NULL\<close>.\<close>

definition chunk_queue_get_and_advance :: "('w fds_scheme, fds_record_chunk option) prog" where
  "chunk_queue_get_and_advance =
     (\<lambda>s. if chunk_count s \<noteq> 0
          then let i = unat (chunk_rp s);
                   s' = s\<lparr>chunk_rp := (chunk_rp s + 1) mod FDS_CHUNK_QUEUE_SIZE, chunk_count := chunk_count s - 1\<rparr>
               in if i < length (chunk_queue s) then (Ret (Some (chunk_queue s ! i)), s')
                  else (Ret (Some \<lparr>chunk_data = 0, chunk_length = 0\<rparr>), s'\<lparr>out_of_bounds := True\<rparr>)
          else (Ret None, s))"

definition chunk_queue_skip :: "fds_op \<Rightarrow> 'w fds_scheme \<Rightarrow> 'w fds_scheme" where
  "chunk_queue_skip p_op s =
     (case p_op of
        FDS_OP_WRITE w \<Rightarrow> s\<lparr>chunk_rp := chunk_rp s + ucast (wr_chunk_count w), chunk_count := chunk_count s - ucast (wr_chunk_count w)\<rparr>
      | FDS_OP_UPDATE w _ \<Rightarrow> s\<lparr>chunk_rp := chunk_rp s + ucast (wr_chunk_count w), chunk_count := chunk_count s - ucast (wr_chunk_count w)\<rparr>
      | _ \<Rightarrow> s)"

definition put_chunks :: "fds_record_chunk list \<Rightarrow> nat \<Rightarrow> fds_record_chunk list \<Rightarrow> fds_record_chunk list" where
  "put_chunks p_chunk idx q = fst (foldl (\<lambda>(q, dst) c. (q[dst := c], chunk_queue_next dst)) (q, idx) p_chunk)"

definition op_enqueue :: "fds_op \<Rightarrow> fds_record_chunk list \<Rightarrow> ('w fds_scheme, bool) prog" where
  "op_enqueue p_op p_chunk =
     (\<lambda>s. let num_chunks = of_nat (length p_chunk)
          in if op_count s \<le> FDS_OP_QUEUE_SIZE - 1 \<and> chunk_count s \<le> FDS_CHUNK_QUEUE_SIZE - num_chunks
             then let idx = unat ((op_count s + op_rp s) mod FDS_OP_QUEUE_SIZE);
                      s = s\<lparr>op_queue := (op_queue s)[idx := p_op], op_count := op_count s + 1\<rparr>
                  in (Ret True,
                      if num_chunks \<noteq> 0
                      then s\<lparr>chunk_queue := put_chunks p_chunk (unat ((chunk_count s + chunk_rp s) mod FDS_CHUNK_QUEUE_SIZE)) (chunk_queue s),
                             chunk_count := chunk_count s + num_chunks\<rparr>
                      else s)
             else (Ret False, s))"


subsection \<open>Initialisation\<close>

text \<open>
  One page of \<^verbatim>\<open>pages_init\<close>, with its local variables: the result so far, the index of the next free
  element of \<^verbatim>\<open>m_pages\<close>, and whether an erased page is used as the swap page.
\<close>

definition erased_page :: "nat \<Rightarrow> fds_page \<Rightarrow> fds_page" where
  "erased_page p pg = pg\<lparr>pg_type := FDS_PAGE_ERASED, pg_addr := p, write_offset := of_nat FDS_PAGE_TAG_SIZE\<rparr>"

definition pages_init_page :: "(u32 \<times> nat \<times> bool) \<times> 'w fds_scheme \<Rightarrow> nat \<Rightarrow> (u32 \<times> nat \<times> bool) \<times> 'w fds_scheme" where
  "pages_init_page = (\<lambda>((r, page, swap_set_but_not_found), s) i.
     let p_page_addr = p_start_addr s + 4 * (i * FDS_PAGE_SIZE); fl = flash_words s
     in case page_identify fl p_page_addr of
          FDS_PAGE_UNDEFINED \<Rightarrow>
            if page_is_erased fl p_page_addr
            then if swap_addr (m_swap_page s) \<noteq> 0
                 then ((r OR PAGE_ERASED, page + 1, swap_set_but_not_found),
                       put_gc (\<lambda>g. g\<lparr>gc_cur_page := of_nat page\<rparr>) (put_page page (erased_page p_page_addr) s))
                 else ((r OR PAGE_ERASED, page, True),
                       put_swap (\<lambda>_. \<lparr>swap_addr = p_page_addr, swap_offset = of_nat FDS_PAGE_TAG_SIZE\<rparr>) s)
            else ((r, page + 1, swap_set_but_not_found), put_page page (\<lambda>pg. pg\<lparr>pg_type := FDS_PAGE_UNDEFINED\<rparr>) s)
        | FDS_PAGE_DATA \<Rightarrow>
            (case page_scan fl p_page_addr (m_latest_rec_id s) of (words, dirty, latest) \<Rightarrow>
             ((r OR PAGE_DATA, page + 1, swap_set_but_not_found),
              put_page page (\<lambda>pg. pg\<lparr>pg_type := FDS_PAGE_DATA, pg_addr := p_page_addr, write_offset := words, can_gc := dirty\<rparr>)
                (s\<lparr>m_latest_rec_id := latest\<rparr>)))
        | FDS_PAGE_SWAP \<Rightarrow>
            (case page_scan fl p_page_addr (m_latest_rec_id s) of (words, dirty, latest) \<Rightarrow>
             ((r OR (if words = of_nat FDS_PAGE_TAG_SIZE then PAGE_SWAP_CLEAN else PAGE_SWAP_DIRTY),
               if swap_set_but_not_found then page + 1 else page, swap_set_but_not_found),
              put_swap (\<lambda>_. \<lparr>swap_addr = p_page_addr, swap_offset = words\<rparr>)
                ((if swap_set_but_not_found then put_page page (erased_page (swap_addr (m_swap_page s))) s else s)
                   \<lparr>m_latest_rec_id := latest\<rparr>)))
        | FDS_PAGE_ERASED \<Rightarrow> ((r, page, swap_set_but_not_found), s))"

definition pages_init :: "('w fds_scheme, u32) prog" where
  "pages_init s = (case foldl pages_init_page ((0, 0, False), s) [0..<FDS_VIRTUAL_PAGES] of ((r, _), s') \<Rightarrow> (Ret r, s'))"

definition init_tag_data :: "('w fds_scheme, u32 option) prog" where
  "init_tag_data =
     bnd (gets (\<lambda>s. find (\<lambda>i. pg_type (get_page i s) = FDS_PAGE_ERASED) [0..<FDS_MAX_PAGES])) (\<lambda>r.
     case r of
       None \<Rightarrow> ret None
     | Some i \<Rightarrow> bnd (gets (\<lambda>s. pg_addr (get_page i s))) (\<lambda>p.
                  bnd (page_tag_write_data p) (\<lambda>e.
                  bnd (modify (put_page i (\<lambda>pg. pg\<lparr>pg_type := FDS_PAGE_DATA\<rparr>))) (\<lambda>_. ret (Some e)))))"

definition init_promote_swap :: "'w fds_scheme \<Rightarrow> 'w fds_scheme" where
  "init_promote_swap s =
     (let gc = unat (gc_cur_page (m_gc s)); old_swap = m_swap_page s
      in put_page gc (\<lambda>pg. pg\<lparr>pg_addr := swap_addr old_swap, write_offset := swap_offset old_swap, pg_type := FDS_PAGE_DATA\<rparr>)
           (put_swap (\<lambda>_. \<lparr>swap_addr = pg_addr (get_page gc s), swap_offset = of_nat FDS_PAGE_TAG_SIZE\<rparr>) s))"

text \<open>What follows a request of an initialisation step.\<close>

definition init_done :: "u32 \<Rightarrow> fds_init_step \<Rightarrow> ('w fds_scheme, u32 \<times> fds_init_step) prog" where
  "init_done e step =
     (if e \<noteq> FDS_SUCCESS
      then bnd (modify (flag_clear FDS_FLAG_INITIALIZING)) (\<lambda>_. ret (FDS_ERR_BUSY, step))
      else ret (FDS_OP_EXECUTING, step))"

definition init_execute :: "u32 \<Rightarrow> fds_init_step \<Rightarrow> ('w fds_scheme, u32 \<times> fds_init_step) prog" where
  "init_execute prev_ret step =
     (if prev_ret \<noteq> FS_SUCCESS
      then bnd (modify (flag_clear FDS_FLAG_INITIALIZING)) (\<lambda>_. ret (FDS_ERR_OPERATION_TIMEOUT, step))
      else case step of
        FDS_OP_INIT_TAG_SWAP \<Rightarrow> bnd page_tag_write_swap (\<lambda>e. init_done e FDS_OP_INIT_TAG_DATA)
      | FDS_OP_INIT_TAG_DATA \<Rightarrow>
          bnd init_tag_data (\<lambda>r. case r of
            None \<Rightarrow> bnd (modify (\<lambda>s. flag_clear FDS_FLAG_INITIALIZING (flag_set FDS_FLAG_INITIALIZED s)))
                      (\<lambda>_. ret (FDS_OP_COMPLETED, step))
          | Some e \<Rightarrow> init_done e step)
      | FDS_OP_INIT_ERASE_SWAP \<Rightarrow>
          bnd (gets (\<lambda>s. swap_addr (m_swap_page s))) (\<lambda>p.
          bnd (fs_erase_req p FDS_PHY_PAGES_IN_VPAGE) (\<lambda>e.
          bnd (modify (put_swap (\<lambda>w. w\<lparr>swap_offset := of_nat FDS_PAGE_TAG_SIZE\<rparr>))) (\<lambda>_.
          init_done e FDS_OP_INIT_TAG_SWAP)))
      | FDS_OP_INIT_PROMOTE_SWAP \<Rightarrow>
          bnd (gets (\<lambda>s. swap_addr (m_swap_page s))) (\<lambda>p.
          bnd (page_tag_write_data p) (\<lambda>e.
          bnd (modify init_promote_swap) (\<lambda>_.
          init_done e FDS_OP_INIT_TAG_SWAP)))
      | FDS_OP_INIT_other \<Rightarrow> init_done FDS_ERR_INTERNAL step)"

subsection \<open>Writing and deleting\<close>

definition record_header_write_begin :: "fds_write_op \<Rightarrow> nat \<Rightarrow> ('w fds_scheme, u32 \<times> fds_write_op) prog" where
  "record_header_write_begin w p_addr =
     bnd (fs_store_req (p_addr + 4 * FDS_OFFSET_TL) (From_words [tl_word (h_tl (wr_header w))]) 1) (\<lambda>r.
     ret (busy_unless r, w\<lparr>wr_step := FDS_OP_WRITE_RECORD_ID\<rparr>))"

definition record_header_write_id :: "fds_write_op \<Rightarrow> nat \<Rightarrow> ('w fds_scheme, u32 \<times> fds_write_op) prog" where
  "record_header_write_id w p_addr =
     bnd (fs_store_req (p_addr + 4 * FDS_OFFSET_ID) (From_words [record_id (wr_header w)]) 1) (\<lambda>r.
     ret (busy_unless r, w\<lparr>wr_step := if wr_chunk_count w \<noteq> 0 then FDS_OP_WRITE_CHUNKS else FDS_OP_WRITE_HEADER_FINALIZE\<rparr>))"

definition record_header_write_finalize :: "bool \<Rightarrow> fds_write_op \<Rightarrow> nat \<Rightarrow> ('w fds_scheme, u32 \<times> fds_write_op) prog" where
  "record_header_write_finalize update w p_addr =
     bnd (fs_store_req (p_addr + 4 * FDS_OFFSET_IC) (From_words [ic_word (h_ic (wr_header w))]) 1) (\<lambda>r.
     ret (busy_unless r, w\<lparr>wr_step := if update then FDS_OP_WRITE_FLAG_DIRTY else FDS_OP_WRITE_DONE\<rparr>))"

definition m_fds_tl_dirty :: fds_tl where
  "m_fds_tl_dirty = \<lparr>record_key = FDS_RECORD_KEY_DIRTY, length_words = 0xFFFF\<rparr>"

definition record_header_flag_dirty :: "nat \<Rightarrow> nat \<Rightarrow> ('w fds_scheme, u32) prog" where
  "record_header_flag_dirty p_record page_to_gc =
     bnd (fs_store_req p_record (From_words [tl_word m_fds_tl_dirty]) 1) (\<lambda>r.
     if r \<noteq> FS_SUCCESS then ret FDS_ERR_BUSY
     else bnd (modify (put_page page_to_gc (\<lambda>pg. pg\<lparr>can_gc := True\<rparr>))) (\<lambda>_. ret FDS_SUCCESS))"

text \<open>The operation gets the file and the key of the record, which go into the event.\<close>

definition record_find_and_delete :: "fds_del_op \<Rightarrow> ('w fds_scheme, u32 \<times> fds_del_op) prog" where
  "record_find_and_delete p_op =
     bnd (gets (\<lambda>s. (record_find_by_desc (zero_desc\<lparr>d_record_id := del_record_to_delete p_op\<rparr>) s, flash_words s))) (\<lambda>(r, fl).
     case r of
       Some (d, page) \<Rightarrow>
         bnd (record_header_flag_dirty (d_record d) page) (\<lambda>e.
         ret (e, p_op\<lparr>del_file_id := file_id (h_ic (header_at fl (d_record d))),
                      del_record_key := record_key (h_tl (header_at fl (d_record d)))\<rparr>))
     | None \<Rightarrow> ret (FDS_ERR_NOT_FOUND, p_op))"

definition file_find_and_delete :: "u16 \<Rightarrow> ('w fds_scheme, u32) prog" where
  "file_find_and_delete f =
     bnd (gets (\<lambda>s. record_find (Some f) None (Some zero_desc) (Some (del_tok s)) s)) (\<lambda>(e, d, t).
     bnd (modify (\<lambda>s. s\<lparr>del_tok := the t\<rparr>)) (\<lambda>_.
     if e = FDS_SUCCESS then record_header_flag_dirty (d_record (the d)) (unat (t_page (the t)))
     else bnd (modify (\<lambda>s. s\<lparr>del_tok := zero_token\<rparr>)) (\<lambda>_. ret e)))"

definition record_write_chunk :: "fds_write_op \<Rightarrow> nat \<Rightarrow> ('w fds_scheme, u32 \<times> fds_write_op) prog" where
  "record_write_chunk w p_addr =
     bnd chunk_queue_get_and_advance (\<lambda>c.
     bnd (case c of
            Some c \<Rightarrow> ret c
          | None \<Rightarrow> bnd (modify (\<lambda>s. s\<lparr>out_of_bounds := True\<rparr>)) (\<lambda>_. ret \<lparr>chunk_data = 0, chunk_length = 0\<rparr>)) (\<lambda>c.
     bnd (fs_store_req (p_addr + 4 * unat (wr_chunk_offset w)) (From_ram (chunk_data c)) (chunk_length c)) (\<lambda>r.
     let w = w\<lparr>wr_chunk_offset := wr_chunk_offset w + chunk_length c, wr_chunk_count := wr_chunk_count w - 1\<rparr>
     in ret (busy_unless r, if wr_chunk_count w = 0 then w\<lparr>wr_step := FDS_OP_WRITE_HEADER_FINALIZE\<rparr> else w))))"

text \<open>One step of a write or, with the record to delete, an update.\<close>

definition write_step :: "u32 option \<Rightarrow> fds_write_op \<Rightarrow> nat \<Rightarrow> ('w fds_scheme, u32 \<times> fds_write_op) prog" where
  "write_step upd w p_write_addr =
     (case wr_step w of
        FDS_OP_WRITE_FIND_RECORD \<Rightarrow> record_header_write_begin w p_write_addr
      | FDS_OP_WRITE_HEADER_BEGIN \<Rightarrow> record_header_write_begin w p_write_addr
      | FDS_OP_WRITE_RECORD_ID \<Rightarrow> record_header_write_id w p_write_addr
      | FDS_OP_WRITE_CHUNKS \<Rightarrow> record_write_chunk w p_write_addr
      | FDS_OP_WRITE_HEADER_FINALIZE \<Rightarrow> record_header_write_finalize (upd \<noteq> None) w p_write_addr
      | FDS_OP_WRITE_FLAG_DIRTY \<Rightarrow>
          bnd (gets (\<lambda>s. (d_record (upd_desc s), unat (upd_page s)))) (\<lambda>(p, page).
          bnd (record_header_flag_dirty p page) (\<lambda>e. ret (e, w\<lparr>wr_step := FDS_OP_WRITE_DONE\<rparr>)))
      | FDS_OP_WRITE_DONE \<Rightarrow> ret (FDS_OP_COMPLETED, w))"

text \<open>
  The first step of an update: finding the record to be replaced. When the search fails, the static
  \<^verbatim>\<open>page\<close> has run to the end of its loop.
\<close>

definition update_find :: "u32 \<Rightarrow> ('w fds_scheme, bool) prog" where
  "update_find record_to_delete =
     bnd (gets (\<lambda>s. (upd_desc s)\<lparr>d_record := 0, d_record_id := record_to_delete\<rparr>)) (\<lambda>d.
     bnd (gets (record_find_by_desc d)) (\<lambda>r.
     case r of
       Some (d, page) \<Rightarrow> bnd (modify (\<lambda>s. s\<lparr>upd_desc := d, upd_page := of_nat page\<rparr>)) (\<lambda>_. ret True)
     | None \<Rightarrow> bnd (modify (\<lambda>s. s\<lparr>upd_desc := d, upd_page := of_nat FDS_MAX_PAGES\<rparr>)) (\<lambda>_. ret False)))"

definition write_execute :: "u32 \<Rightarrow> u32 option \<Rightarrow> fds_write_op \<Rightarrow> ('w fds_scheme, u32 \<times> fds_write_op) prog" where
  "write_execute prev_ret upd w =
     (let page = unat (wr_page w); len = length_words (h_tl (wr_header w))
      in if prev_ret \<noteq> FS_SUCCESS
         then bnd (modify (put_page page (page_offsets_update len))) (\<lambda>_. ret (FDS_ERR_OPERATION_TIMEOUT, w))
         else
           bnd (modify (put_page page id)) (\<lambda>_.
           bnd (gets (\<lambda>s. pg_addr (get_page page s) + 4 * unat (write_offset (get_page page s)))) (\<lambda>p_write_addr.
           bnd (case upd of
                  Some i \<Rightarrow> if wr_step w = FDS_OP_WRITE_FIND_RECORD then update_find i else ret True
                | None \<Rightarrow> ret True) (\<lambda>found.
           if \<not> found then ret (FDS_ERR_NOT_FOUND, w)
           else
             bnd (write_step upd w p_write_addr) (\<lambda>(e, w).
             if e \<noteq> FDS_OP_EXECUTING
             then bnd (modify (put_page page (page_offsets_update len))) (\<lambda>_. ret (e, w))
             else ret (e, w))))))"

definition delete_execute :: "u32 \<Rightarrow> fds_del_op \<Rightarrow> ('w fds_scheme, u32 \<times> fds_del_op) prog" where
  "delete_execute prev_ret p_op =
     (if prev_ret \<noteq> FS_SUCCESS then ret (FDS_ERR_OPERATION_TIMEOUT, p_op)
      else case del_step p_op of
        FDS_OP_DEL_RECORD_FLAG_DIRTY \<Rightarrow>
          bnd (record_find_and_delete p_op) (\<lambda>(e, p_op). ret (e, p_op\<lparr>del_step := FDS_OP_DEL_DONE\<rparr>))
      | FDS_OP_DEL_FILE_FLAG_DIRTY \<Rightarrow>
          bnd (file_find_and_delete (del_file_id p_op)) (\<lambda>e.
          ret (if e = FDS_ERR_NOT_FOUND then FDS_OP_COMPLETED else e, p_op))
      | FDS_OP_DEL_DONE \<Rightarrow> ret (FDS_OP_COMPLETED, p_op))"

subsection \<open>Garbage collection\<close>

definition gc_init :: "'w fds_scheme \<Rightarrow> 'w fds_scheme" where
  "gc_init s = put_gc (\<lambda>g. g\<lparr>gc_run_count := gc_run_count g + 1, gc_cur_page := 0, gc_resume := False,
     do_gc_page := map (\<lambda>i. pg_type (get_page i s) = FDS_PAGE_DATA) [0..<FDS_MAX_PAGES]\<rparr>) s"

text \<open>The page to collect next, and the pages that remain to be looked at.\<close>

primrec gc_page_next_loop :: "fds_page list \<Rightarrow> nat list \<Rightarrow> bool list \<Rightarrow> nat option \<times> bool list" where
  "gc_page_next_loop pgs [] todo = (None, todo)"
| "gc_page_next_loop pgs (i # is) todo =
     (if todo ! i
      then if records_open (pgs ! i) = 0 \<and> can_gc (pgs ! i) then (Some i, todo[i := False])
           else gc_page_next_loop pgs is (todo[i := False])
      else gc_page_next_loop pgs is todo)"

definition gc_page_next :: "('w fds_scheme, bool) prog" where
  "gc_page_next s =
     (case gc_page_next_loop (m_pages s) [0..<FDS_MAX_PAGES] (do_gc_page (m_gc s)) of
        (Some i, todo) \<Rightarrow> (Ret True, put_gc (\<lambda>g. g\<lparr>do_gc_page := todo, gc_cur_page := of_nat i\<rparr>) s)
      | (None, todo) \<Rightarrow> (Ret False, put_gc (\<lambda>g. g\<lparr>do_gc_page := todo\<rparr>) s))"

definition gc_swap_erase :: "('w fds_scheme, u32) prog" where
  "gc_swap_erase =
     bnd (modify (\<lambda>s. put_swap (\<lambda>w. w\<lparr>swap_offset := of_nat FDS_PAGE_TAG_SIZE\<rparr>) (put_gc (\<lambda>g. g\<lparr>gc_state := GC_DISCARD_SWAP\<rparr>) s))) (\<lambda>_.
     bnd (gets (\<lambda>s. swap_addr (m_swap_page s))) (\<lambda>p. fs_erase_req p FDS_PHY_PAGES_IN_VPAGE))"

definition gc_cur :: "'w fds_scheme \<Rightarrow> fds_page" where
  "gc_cur s = get_page (unat (gc_cur_page (m_gc s))) s"

definition gc_page_erase :: "('w fds_scheme, u32) prog" where
  "gc_page_erase =
     bnd (gets gc_cur) (\<lambda>pg.
     if records_open pg = 0
     then bnd (fs_erase_req (pg_addr pg) FDS_PHY_PAGES_IN_VPAGE) (\<lambda>e.
          bnd (modify (put_gc (\<lambda>g. g\<lparr>gc_state := GC_ERASE_PAGE\<rparr>))) (\<lambda>_. ret e))
     else gc_swap_erase)"

definition gc_record_len :: "'w fds_scheme \<Rightarrow> u16" where
  "gc_record_len s = of_nat FDS_HEADER_SIZE + length_words (h_tl (header_at (flash_words s) (gc_record_src (m_gc s))))"

definition gc_record_copy :: "('w fds_scheme, u32) prog" where
  "gc_record_copy =
     bnd (modify (put_gc (\<lambda>g. g\<lparr>gc_state := GC_COPY_RECORD\<rparr>))) (\<lambda>_.
     bnd (gets (\<lambda>s. (swap_addr (m_swap_page s) + 4 * unat (swap_offset (m_swap_page s)), gc_record_src (m_gc s), gc_record_len s)))
       (\<lambda>(p_dest, p_src, record_len). fs_store_req p_dest (From_flash p_src) record_len))"

definition gc_record_find_next :: "('w fds_scheme, u32) prog" where
  "gc_record_find_next =
     bnd (gets (\<lambda>s. record_find_next (flash_words s) (gc_cur s) (gc_record_src (m_gc s)))) (\<lambda>r.
     case r of
       Some q \<Rightarrow> bnd (modify (put_gc (\<lambda>g. g\<lparr>gc_record_src := q\<rparr>))) (\<lambda>_. gc_record_copy)
     | None \<Rightarrow> gc_page_erase)"

definition gc_swap_promote :: "('w fds_scheme, u32) prog" where
  "gc_swap_promote =
     bnd (modify (put_gc (\<lambda>g. g\<lparr>gc_state := GC_PROMOTE_SWAP\<rparr>))) (\<lambda>_.
     bnd (gets gc_cur) (\<lambda>pg. page_tag_write_data (pg_addr pg)))"

definition gc_tag_new_swap :: "('w fds_scheme, u32) prog" where
  "gc_tag_new_swap =
     bnd (modify (put_gc (\<lambda>g. g\<lparr>gc_state := GC_TAG_NEW_SWAP, gc_record_src := 0\<rparr>))) (\<lambda>_. page_tag_write_swap)"

definition gc_next_page :: "('w fds_scheme, u32) prog" where
  "gc_next_page =
     bnd gc_page_next (\<lambda>more_pages.
     if \<not> more_pages
     then bnd (modify (put_gc (\<lambda>g. g\<lparr>gc_state := GC_BEGIN, gc_cur_page := 0, gc_record_src := 0\<rparr>))) (\<lambda>_. ret FDS_OP_COMPLETED)
     else gc_record_find_next)"

definition gc_update_swap_offset :: "'w fds_scheme \<Rightarrow> 'w fds_scheme" where
  "gc_update_swap_offset s = put_swap (\<lambda>w. w\<lparr>swap_offset := swap_offset w + gc_record_len s\<rparr>) s"

definition gc_swap_pages :: "'w fds_scheme \<Rightarrow> 'w fds_scheme" where
  "gc_swap_pages s =
     put_page (unat (gc_cur_page (m_gc s)))
       (\<lambda>pg. pg\<lparr>pg_addr := swap_addr (m_swap_page s), write_offset := swap_offset (m_swap_page s)\<rparr>)
       (put_swap (\<lambda>_. \<lparr>swap_addr = pg_addr (gc_cur s), swap_offset = of_nat FDS_PAGE_TAG_SIZE\<rparr>) s)"

definition set_gc_state :: "fds_gc_state \<Rightarrow> 'w fds_scheme \<Rightarrow> 'w fds_scheme" where
  "set_gc_state st = put_gc (\<lambda>g. g\<lparr>gc_state := st\<rparr>)"

definition gc_state_advance :: "'w fds_scheme \<Rightarrow> 'w fds_scheme" where
  "gc_state_advance s =
     (case gc_state (m_gc s) of
        GC_BEGIN \<Rightarrow> set_gc_state GC_NEXT_PAGE (gc_init s)
      | GC_COPY_RECORD \<Rightarrow> set_gc_state GC_FIND_NEXT_RECORD (gc_update_swap_offset s)
      | GC_ERASE_PAGE \<Rightarrow> set_gc_state GC_PROMOTE_SWAP (gc_swap_pages s)
      | GC_DISCARD_SWAP \<Rightarrow> set_gc_state GC_TAG_NEW_SWAP s
      | GC_PROMOTE_SWAP \<Rightarrow> set_gc_state GC_TAG_NEW_SWAP s
      | GC_TAG_NEW_SWAP \<Rightarrow> set_gc_state GC_NEXT_PAGE s
      | _ \<Rightarrow> s)"

definition gc_execute :: "u32 \<Rightarrow> ('w fds_scheme, u32) prog" where
  "gc_execute prev_ret =
     (if prev_ret \<noteq> FS_SUCCESS then ret FDS_ERR_OPERATION_TIMEOUT
      else
        bnd (modify (\<lambda>s. if gc_resume (m_gc s) then put_gc (\<lambda>g. g\<lparr>gc_resume := False\<rparr>) s else gc_state_advance s)) (\<lambda>_.
        bnd (gets (\<lambda>s. gc_state (m_gc s))) (\<lambda>st.
        case st of
          GC_NEXT_PAGE \<Rightarrow> gc_next_page
        | GC_FIND_NEXT_RECORD \<Rightarrow> gc_record_find_next
        | GC_COPY_RECORD \<Rightarrow> gc_record_copy
        | GC_ERASE_PAGE \<Rightarrow> gc_page_erase
        | GC_PROMOTE_SWAP \<Rightarrow> gc_swap_promote
        | GC_TAG_NEW_SWAP \<Rightarrow> gc_tag_new_swap
        | _ \<Rightarrow> ret FDS_ERR_INTERNAL)))"

subsection \<open>Processing the queue\<close>

definition fds_op_execute :: "u32 \<Rightarrow> fds_op \<Rightarrow> ('w fds_scheme, u32 \<times> fds_op) prog" where
  "fds_op_execute result p_op =
     (case p_op of
        FDS_OP_INIT step \<Rightarrow> bnd (init_execute result step) (\<lambda>(e, step). ret (e, FDS_OP_INIT step))
      | FDS_OP_WRITE w \<Rightarrow> bnd (write_execute result None w) (\<lambda>(e, w). ret (e, FDS_OP_WRITE w))
      | FDS_OP_UPDATE w i \<Rightarrow> bnd (write_execute result (Some i) w) (\<lambda>(e, w). ret (e, FDS_OP_UPDATE w i))
      | FDS_OP_DEL_RECORD d \<Rightarrow> bnd (delete_execute result d) (\<lambda>(e, d). ret (e, FDS_OP_DEL_RECORD d))
      | FDS_OP_DEL_FILE d \<Rightarrow> bnd (delete_execute result d) (\<lambda>(e, d). ret (e, FDS_OP_DEL_FILE d))
      | FDS_OP_GC \<Rightarrow> bnd (gc_execute result) (\<lambda>e. ret (e, FDS_OP_GC))
      | FDS_OP_NONE \<Rightarrow> ret (FDS_ERR_INTERNAL, FDS_OP_NONE))"

text \<open>
  The recursion ends when an operation waits for flash or the queue is empty; a callback may queue
  more operations, so \<open>n\<close> bounds the number of operations that end in one run.
\<close>

primrec fds_queue_process :: "'w fds_cb \<Rightarrow> nat \<Rightarrow> u32 \<Rightarrow> ('w fds_scheme, unit) prog" where
  "fds_queue_process cb 0 result = hang"
| "fds_queue_process cb (Suc n) result =
     bnd (gets cur_op) (\<lambda>p_op.
     bnd (fds_op_execute result p_op) (\<lambda>(e, p_op).
     bnd (modify (put_op p_op)) (\<lambda>_.
     if e = FDS_OP_EXECUTING then ret ()
     else
       bnd (modify (\<lambda>s. if e = FDS_OP_COMPLETED then s else chunk_queue_skip p_op s)) (\<lambda>_.
       bnd (event_send cb \<lparr>evt_id = event_prepare p_op, evt_result = if e = FDS_OP_COMPLETED then FDS_SUCCESS else e\<rparr>) (\<lambda>_.
       bnd (modify fds_queue_advance) (\<lambda>_.
       bnd (gets (\<lambda>s. op_count s \<noteq> 0)) (\<lambda>busy.
       if busy then fds_queue_process cb n FS_SUCCESS
       else modify (flag_clear FDS_FLAG_PROCESSING))))))))"

definition fds_queue_start :: "'w fds_cb \<Rightarrow> nat \<Rightarrow> ('w fds_scheme, unit) prog" where
  "fds_queue_start cb n =
     bnd (gets (flag_is_set FDS_FLAG_PROCESSING)) (\<lambda>processing.
     if \<not> processing then bnd (modify (flag_set FDS_FLAG_PROCESSING)) (\<lambda>_. fds_queue_process cb n FS_SUCCESS)
     else ret ())"

definition fs_event_handler :: "'w fds_cb \<Rightarrow> nat \<Rightarrow> u32 \<Rightarrow> ('w fds_scheme, unit) prog" where
  "fs_event_handler cb n result = fds_queue_process cb n result"

subsection \<open>Interface\<close>

definition record_length :: "fds_record_chunk list \<Rightarrow> u16" where
  "record_length cs = foldl (\<lambda>l c. l + chunk_length c) 0 cs"

text \<open>What \<^verbatim>\<open>write_enqueue\<close> does once space is reserved.\<close>

definition write_op_enqueue ::
  "'w fds_cb \<Rightarrow> nat \<Rightarrow> fds_record_desc option \<Rightarrow> fds_record \<Rightarrow> u16 \<Rightarrow> u16 \<Rightarrow> bool
   \<Rightarrow> ('w fds_scheme, u32 \<times> fds_record_desc option) prog" where
  "write_op_enqueue cb n p_desc p_record page len update =
     bnd record_id_new (\<lambda>i.
     let w = \<lparr>wr_header = \<lparr>h_tl = \<lparr>record_key = rec_key p_record, length_words = len\<rparr>,
                           h_ic = \<lparr>file_id = rec_file_id p_record, crc16 = 0\<rparr>, record_id = i\<rparr>,
              wr_step = if update then FDS_OP_WRITE_FIND_RECORD else FDS_OP_WRITE_HEADER_BEGIN, wr_page = page,
              wr_chunk_offset = FDS_OFFSET_DATA, wr_chunk_count = of_nat (length (rec_chunks p_record))\<rparr>
     in bnd (op_enqueue (if update then FDS_OP_UPDATE w (d_record_id (the p_desc)) else FDS_OP_WRITE w) (rec_chunks p_record)) (\<lambda>ok.
        if \<not> ok then bnd (modify (write_space_free len page)) (\<lambda>_. ret (FDS_ERR_NO_SPACE_IN_QUEUES, p_desc))
        else bnd (gets (\<lambda>s. gc_run_count (m_gc s))) (\<lambda>run.
             bnd (fds_queue_start cb n) (\<lambda>_.
             ret (FDS_SUCCESS, map_option (\<lambda>d. \<lparr>d_record_id = i, d_record = 0, d_gc_run_count = run, record_is_open = False\<rparr>) p_desc)))))"

definition write_enqueue ::
  "'w fds_cb \<Rightarrow> nat \<Rightarrow> fds_record_desc option \<Rightarrow> fds_record option \<Rightarrow> fds_reserve_token option \<Rightarrow> bool
   \<Rightarrow> ('w fds_scheme, u32 \<times> fds_record_desc option) prog" where
  "write_enqueue cb n p_desc p_record p_tok update =
     bnd (gets (flag_is_set FDS_FLAG_INITIALIZED)) (\<lambda>ini.
     if \<not> ini then ret (FDS_ERR_NOT_INITIALIZED, p_desc)
     else case p_record of
       None \<Rightarrow> ret (FDS_ERR_NULL_ARG, p_desc)
     | Some r \<Rightarrow>
         if rec_file_id r = FDS_FILE_ID_INVALID \<or> rec_key r = FDS_RECORD_KEY_DIRTY then ret (FDS_ERR_INVALID_ARG, p_desc)
         else if \<not> chunk_is_aligned (rec_chunks r) then ret (FDS_ERR_UNALIGNED_ADDR, p_desc)
         else case p_tok of
           None \<Rightarrow> bnd (write_space_reserve (record_length (rec_chunks r))) (\<lambda>res.
             case res of
               Inl e \<Rightarrow> ret (e, p_desc)
             | Inr page \<Rightarrow> write_op_enqueue cb n p_desc r page (record_length (rec_chunks r)) update)
         | Some t \<Rightarrow> write_op_enqueue cb n p_desc r (tok_page t) (tok_length_words t) update)"

definition fds_register :: "fnptr \<Rightarrow> ('w fds_scheme, u32) prog" where
  "fds_register p =
     (\<lambda>s. if unat (m_users s) = FDS_MAX_USERS then (Ret FDS_ERR_USER_LIMIT_REACHED, s)
          else (Ret FDS_SUCCESS, s\<lparr>m_cb_table := (m_cb_table s)[unat (m_users s) := p], m_users := m_users s + 1\<rparr>))"

text \<open>
  \<^verbatim>\<open>fs_init\<close> assigns the flash area, here an argument; \<open>junk\<close> is the uninitialised step of the operation.
\<close>

definition init_opt_step :: "u32 \<Rightarrow> fds_init_step \<Rightarrow> fds_init_step" where
  "init_opt_step opts junk =
     (if opts = PAGE_ERASED \<or> opts = PAGE_ERASED OR PAGE_DATA then FDS_OP_INIT_TAG_SWAP
      else if opts = PAGE_ERASED OR PAGE_SWAP_DIRTY \<or> opts = PAGE_ERASED OR PAGE_DATA OR PAGE_SWAP_DIRTY then FDS_OP_INIT_PROMOTE_SWAP
      else if opts = PAGE_DATA OR PAGE_SWAP_DIRTY then FDS_OP_INIT_ERASE_SWAP
      else if opts = PAGE_ERASED OR PAGE_SWAP_CLEAN \<or> opts = PAGE_ERASED OR PAGE_DATA OR PAGE_SWAP_CLEAN then FDS_OP_INIT_TAG_DATA
      else junk)"

definition fds_init :: "'w fds_cb \<Rightarrow> nat \<Rightarrow> nat \<times> nat \<Rightarrow> fds_init_step \<Rightarrow> ('w fds_scheme, u32) prog" where
  "fds_init cb n area junk =
     bnd (gets (\<lambda>s. s)) (\<lambda>s.
     if flag_is_set FDS_FLAG_INITIALIZED s
     then bnd (event_send cb \<lparr>evt_id = FDS_EVT_INIT, evt_result = FDS_SUCCESS\<rparr>) (\<lambda>_. ret FDS_SUCCESS)
     else if flag_is_set FDS_FLAG_INITIALIZING s then ret FDS_SUCCESS
     else
       bnd (modify (flag_set FDS_FLAG_INITIALIZING)) (\<lambda>_.
       bnd (svc_rc (Store Fs_init)) (\<lambda>_.
       bnd (modify (\<lambda>s. s\<lparr>p_start_addr := fst area, p_end_addr := snd area\<rparr>)) (\<lambda>_.
       bnd pages_init (\<lambda>opts.
       if opts = 0 \<or> opts = PAGE_DATA then ret FDS_ERR_NO_PAGES
       else if opts = PAGE_DATA OR PAGE_SWAP_CLEAN
       then bnd (modify (\<lambda>s. flag_clear FDS_FLAG_INITIALIZING (flag_set FDS_FLAG_INITIALIZED s))) (\<lambda>_.
            bnd (event_send cb \<lparr>evt_id = FDS_EVT_INIT, evt_result = FDS_SUCCESS\<rparr>) (\<lambda>_. ret FDS_SUCCESS))
       else bnd (op_enqueue (FDS_OP_INIT (init_opt_step opts junk)) []) (\<lambda>_.
            bnd (fds_queue_start cb n) (\<lambda>_. ret FDS_SUCCESS)))))))"

text \<open>The header and the data of an open record, as addresses in flash.\<close>

definition fds_record_open :: "fds_record_desc option \<Rightarrow> bool \<Rightarrow> ('w fds_scheme, u32 \<times> fds_record_desc option \<times> (nat \<times> nat) option) prog" where
  "fds_record_open p_desc rec_given =
     (case p_desc of
        None \<Rightarrow> ret (FDS_ERR_NULL_ARG, p_desc, None)
      | Some d \<Rightarrow>
          if \<not> rec_given then ret (FDS_ERR_NULL_ARG, p_desc, None)
          else bnd (gets (record_find_by_desc d)) (\<lambda>r.
               case r of
                 Some (d, page) \<Rightarrow>
                   bnd (modify (put_page page (\<lambda>pg. pg\<lparr>records_open := records_open pg + 1\<rparr>))) (\<lambda>_.
                   ret (FDS_SUCCESS, Some (d\<lparr>record_is_open := True\<rparr>), Some (d_record d, d_record d + 4 * FDS_HEADER_SIZE)))
               | None \<Rightarrow> ret (FDS_ERR_NOT_FOUND, p_desc, None)))"

definition fds_record_close :: "fds_record_desc option \<Rightarrow> ('w fds_scheme, u32 \<times> fds_record_desc option) prog" where
  "fds_record_close p_desc =
     (case p_desc of
        None \<Rightarrow> ret (FDS_ERR_NULL_ARG, p_desc)
      | Some d \<Rightarrow>
          bnd (gets (\<lambda>s. (record_find_by_desc d s, s))) (\<lambda>(r, s).
          case r of
            Some (d, page) \<Rightarrow>
              if records_open (get_page page s) > 0 \<and> record_is_open d
              then bnd (modify (put_page page (\<lambda>pg. pg\<lparr>records_open := records_open pg - 1\<rparr>))) (\<lambda>_.
                   ret (FDS_SUCCESS, Some (d\<lparr>record_is_open := False\<rparr>)))
              else ret (FDS_ERR_NO_OPEN_RECORDS, Some d)
          | None \<Rightarrow> ret (FDS_ERR_NOT_FOUND, p_desc)))"

definition fds_reserve :: "fds_reserve_token option \<Rightarrow> u16 \<Rightarrow> ('w fds_scheme, u32 \<times> fds_reserve_token option) prog" where
  "fds_reserve p_tok len =
     bnd (gets (flag_is_set FDS_FLAG_INITIALIZED)) (\<lambda>ini.
     if \<not> ini then ret (FDS_ERR_NOT_INITIALIZED, p_tok)
     else if p_tok = None then ret (FDS_ERR_NULL_ARG, p_tok)
     else bnd (write_space_reserve len) (\<lambda>res.
          case res of
            Inl e \<Rightarrow> ret (e, p_tok)
          | Inr page \<Rightarrow> ret (FDS_SUCCESS, Some \<lparr>tok_page = page, tok_length_words = len\<rparr>)))"

text \<open>The difference is computed in \<^verbatim>\<open>int\<close>.\<close>

definition fds_reserve_cancel :: "fds_reserve_token option \<Rightarrow> ('w fds_scheme, u32 \<times> fds_reserve_token option) prog" where
  "fds_reserve_cancel p_tok =
     bnd (gets (flag_is_set FDS_FLAG_INITIALIZED)) (\<lambda>ini.
     if \<not> ini then ret (FDS_ERR_NOT_INITIALIZED, p_tok)
     else case p_tok of
       None \<Rightarrow> ret (FDS_ERR_NULL_ARG, p_tok)
     | Some t \<Rightarrow>
         if unat (tok_page t) > FDS_MAX_PAGES then ret (FDS_ERR_INVALID_ARG, p_tok)
         else bnd (modify (put_page (unat (tok_page t)) id)) (\<lambda>_.
              bnd (gets (get_page (unat (tok_page t)))) (\<lambda>pg.
              if uint (words_reserved pg) - (int FDS_HEADER_SIZE + uint (tok_length_words t)) \<ge> 0
              then bnd (modify (write_space_free (tok_length_words t) (tok_page t))) (\<lambda>_.
                   ret (FDS_SUCCESS, Some \<lparr>tok_page = 0, tok_length_words = 0\<rparr>))
              else ret (FDS_ERR_INVALID_ARG, p_tok))))"

definition fds_record_write ::
  "'w fds_cb \<Rightarrow> nat \<Rightarrow> fds_record_desc option \<Rightarrow> fds_record option \<Rightarrow> ('w fds_scheme, u32 \<times> fds_record_desc option) prog" where
  "fds_record_write cb n p_desc p_record = write_enqueue cb n p_desc p_record None False"

definition fds_record_write_reserved ::
  "'w fds_cb \<Rightarrow> nat \<Rightarrow> fds_record_desc option \<Rightarrow> fds_record option \<Rightarrow> fds_reserve_token option
   \<Rightarrow> ('w fds_scheme, u32 \<times> fds_record_desc option) prog" where
  "fds_record_write_reserved cb n p_desc p_record p_tok =
     (if p_tok = None then ret (FDS_ERR_NULL_ARG, p_desc) else write_enqueue cb n p_desc p_record p_tok False)"

definition fds_record_update ::
  "'w fds_cb \<Rightarrow> nat \<Rightarrow> fds_record_desc option \<Rightarrow> fds_record option \<Rightarrow> ('w fds_scheme, u32 \<times> fds_record_desc option) prog" where
  "fds_record_update cb n p_desc p_record =
     (if p_desc = None then ret (FDS_ERR_NULL_ARG, p_desc) else write_enqueue cb n p_desc p_record None True)"

definition enqueue_or_full :: "'w fds_cb \<Rightarrow> nat \<Rightarrow> fds_op \<Rightarrow> ('w fds_scheme \<Rightarrow> 'w fds_scheme) \<Rightarrow> ('w fds_scheme, u32) prog" where
  "enqueue_or_full cb n p_op before_start =
     bnd (op_enqueue p_op []) (\<lambda>ok.
     if ok then bnd (modify before_start) (\<lambda>_. bnd (fds_queue_start cb n) (\<lambda>_. ret FDS_SUCCESS))
     else ret FDS_ERR_NO_SPACE_IN_QUEUES)"

text \<open>The fields of a delete operation that the code does not set are given by \<open>junk\<close>.\<close>

definition fds_record_delete :: "'w fds_cb \<Rightarrow> nat \<Rightarrow> fds_del_op \<Rightarrow> fds_record_desc option \<Rightarrow> ('w fds_scheme, u32) prog" where
  "fds_record_delete cb n junk p_desc =
     bnd (gets (flag_is_set FDS_FLAG_INITIALIZED)) (\<lambda>ini.
     if \<not> ini then ret FDS_ERR_NOT_INITIALIZED
     else case p_desc of
       None \<Rightarrow> ret FDS_ERR_NULL_ARG
     | Some d \<Rightarrow> enqueue_or_full cb n (FDS_OP_DEL_RECORD (junk\<lparr>del_step := FDS_OP_DEL_RECORD_FLAG_DIRTY, del_record_to_delete := d_record_id d\<rparr>)) id)"

definition fds_file_delete :: "'w fds_cb \<Rightarrow> nat \<Rightarrow> fds_del_op \<Rightarrow> u16 \<Rightarrow> ('w fds_scheme, u32) prog" where
  "fds_file_delete cb n junk f =
     bnd (gets (flag_is_set FDS_FLAG_INITIALIZED)) (\<lambda>ini.
     if \<not> ini then ret FDS_ERR_NOT_INITIALIZED
     else if f = FDS_FILE_ID_INVALID then ret FDS_ERR_INVALID_ARG
     else enqueue_or_full cb n (FDS_OP_DEL_FILE (junk\<lparr>del_step := FDS_OP_DEL_FILE_FLAG_DIRTY, del_file_id := f\<rparr>)) id)"

definition fds_gc :: "'w fds_cb \<Rightarrow> nat \<Rightarrow> ('w fds_scheme, u32) prog" where
  "fds_gc cb n =
     bnd (gets (flag_is_set FDS_FLAG_INITIALIZED)) (\<lambda>ini.
     if \<not> ini then ret FDS_ERR_NOT_INITIALIZED
     else enqueue_or_full cb n FDS_OP_GC
            (\<lambda>s. if gc_state (m_gc s) \<noteq> GC_BEGIN then put_gc (\<lambda>g. g\<lparr>gc_resume := True\<rparr>) s else s))"

definition fds_record_iterate :: "fds_record_desc option \<Rightarrow> fds_find_token option \<Rightarrow> 'w fds_scheme
  \<Rightarrow> u32 \<times> fds_record_desc option \<times> fds_find_token option" where
  "fds_record_iterate p_desc p_token = record_find None None p_desc p_token"

definition fds_record_find :: "u16 \<Rightarrow> u16 \<Rightarrow> fds_record_desc option \<Rightarrow> fds_find_token option \<Rightarrow> 'w fds_scheme
  \<Rightarrow> u32 \<times> fds_record_desc option \<times> fds_find_token option" where
  "fds_record_find f k p_desc p_token = record_find (Some f) (Some k) p_desc p_token"

definition fds_record_find_by_key :: "u16 \<Rightarrow> fds_record_desc option \<Rightarrow> fds_find_token option \<Rightarrow> 'w fds_scheme
  \<Rightarrow> u32 \<times> fds_record_desc option \<times> fds_find_token option" where
  "fds_record_find_by_key k p_desc p_token = record_find None (Some k) p_desc p_token"

definition fds_record_find_in_file :: "u16 \<Rightarrow> fds_record_desc option \<Rightarrow> fds_find_token option \<Rightarrow> 'w fds_scheme
  \<Rightarrow> u32 \<times> fds_record_desc option \<times> fds_find_token option" where
  "fds_record_find_in_file f p_desc p_token = record_find (Some f) None p_desc p_token"

definition fds_descriptor_from_rec_id :: "fds_record_desc option \<Rightarrow> u32 \<Rightarrow> u32 \<times> fds_record_desc option" where
  "fds_descriptor_from_rec_id p_desc i =
     (case p_desc of None \<Rightarrow> (FDS_ERR_NULL_ARG, None) | Some _ \<Rightarrow> (FDS_SUCCESS, Some (zero_desc\<lparr>d_record_id := i\<rparr>)))"

definition fds_record_id_from_desc :: "fds_record_desc option \<Rightarrow> u32 option \<Rightarrow> u32 \<times> u32 option" where
  "fds_record_id_from_desc p_desc p_record_id =
     (case (p_desc, p_record_id) of (Some d, Some _) \<Rightarrow> (FDS_SUCCESS, Some (d_record_id d)) | _ \<Rightarrow> (FDS_ERR_NULL_ARG, p_record_id))"

definition stat_page :: "'w fds_scheme \<Rightarrow> fds_stats \<Rightarrow> nat \<Rightarrow> fds_stats" where
  "stat_page s st i =
     (let pg = get_page i s; words_used = write_offset pg + words_reserved pg; contig = of_nat FDS_PAGE_SIZE - words_used;
          (dirty, freeable) = dirty_records_stat (flash_words s) pg (st_dirty_records st, st_freeable_words st)
      in st\<lparr>st_open_records := st_open_records st + records_open pg,
            st_valid_records := count_valid (flash_words s) pg 0 (st_valid_records st),
            st_dirty_records := dirty,
            st_words_reserved := st_words_reserved st + words_reserved pg,
            st_words_used := st_words_used st + words_used,
            st_largest_contig := if contig > st_largest_contig st then contig else st_largest_contig st,
            st_freeable_words := freeable\<rparr>)"

definition fds_stat :: "fds_stats option \<Rightarrow> 'w fds_scheme \<Rightarrow> u32 \<times> fds_stats option" where
  "fds_stat p_stat s =
     (if \<not> flag_is_set FDS_FLAG_INITIALIZED s then (FDS_ERR_NOT_INITIALIZED, p_stat)
      else if p_stat = None then (FDS_ERR_NULL_ARG, p_stat)
      else (FDS_SUCCESS, Some (foldl (stat_page s)
              \<lparr>st_open_records = 0, st_valid_records = 0, st_dirty_records = 0, st_words_reserved = 0,
               st_words_used = 0, st_largest_contig = 0, st_freeable_words = 0\<rparr> [0..<FDS_MAX_PAGES])))"

end
