(* ===== verification/FdsStore.thy ===== *)
theory FdsStore
  imports Fds
begin

text \<open>
  What the flash data storage keeps: the records of a page as a list, what finding, writing and
  deleting do to them.
\<close>

unbundle bit_operations_syntax

subsection \<open>The records of a page\<close>

function page_recs :: "flash \<Rightarrow> nat \<Rightarrow> nat \<Rightarrow> nat list" where
  "page_recs fl e p = (if p < e \<and> fl p \<noteq> FDS_ERASED_WORD then p # page_recs fl e (next_rec fl p) else [])"
  by pat_completeness auto
termination
  by (relation "measure (\<lambda>(fl, e, p). e - p)") (auto simp: next_rec_decreases)

declare page_recs.simps [simp del]

definition rec_valid :: "flash \<Rightarrow> nat \<Rightarrow> bool" where
  "rec_valid fl q \<longleftrightarrow> header_is_valid (header_at fl q)"

abbreviation valid_recs :: "flash \<Rightarrow> nat \<Rightarrow> nat \<Rightarrow> nat list" where
  "valid_recs fl e p \<equiv> filter (rec_valid fl) (page_recs fl e p)"

definition page_end :: "fds_page \<Rightarrow> nat" where
  "page_end pg = pg_addr pg + 4 * FDS_PAGE_SIZE"

definition page_first :: "fds_page \<Rightarrow> nat" where
  "page_first pg = pg_addr pg + 4 * FDS_PAGE_TAG_SIZE"

text \<open>The valid records of a page and, in page order, those that a search is about.\<close>

definition recs_of :: "flash \<Rightarrow> fds_page \<Rightarrow> nat list" where
  "recs_of fl pg = valid_recs fl (page_end pg) (page_first pg)"

definition matching :: "flash \<Rightarrow> u16 option \<Rightarrow> u16 option \<Rightarrow> fds_page \<Rightarrow> nat list" where
  "matching fl f k pg = filter (\<lambda>q. rec_matches f k (header_at fl q)) (recs_of fl pg)"

definition data_page :: "fds_page \<Rightarrow> bool" where
  "data_page pg \<longleftrightarrow> pg_type pg = FDS_PAGE_DATA"

definition stored :: "u16 option \<Rightarrow> u16 option \<Rightarrow> 'w fds_scheme \<Rightarrow> nat list" where
  "stored f k s = concat (map (matching (flash_words s) f k) (filter data_page (m_pages s)))"

lemma page_recs_ge: "q \<in> set (page_recs fl e p) \<Longrightarrow> p \<le> q \<and> q < e"
proof (induction fl e p rule: page_recs.induct)
  case (1 fl e p)
  then have c: "p < e \<and> fl p \<noteq> FDS_ERASED_WORD"
    by (subst (asm) (2) page_recs.simps) (auto split: if_splits)
  with 1 have "q = p \<or> next_rec fl p \<le> q \<and> q < e"
    by (subst (asm) (2) page_recs.simps) auto
  then show ?case
    using c next_rec_gt [of p fl] by linarith
qed

lemma page_recs_next:
  "page_recs fl e p = xs @ q # ys \<Longrightarrow> ys = page_recs fl e (next_rec fl q)"
proof (induction fl e p arbitrary: xs rule: page_recs.induct)
  case (1 fl e p)
  then have c: "p < e \<and> fl p \<noteq> FDS_ERASED_WORD"
    by (subst (asm) (2) page_recs.simps) (auto split: if_splits)
  then have eq: "p # page_recs fl e (next_rec fl p) = xs @ q # ys"
    using 1(2) page_recs.simps [of fl e p] by simp
  show ?case
    using eq 1(1) [OF c, of "tl xs"] by (cases xs) auto
qed

lemma valid_recs_tail:
  assumes "valid_recs fl e p = q # qs"
  shows "qs = valid_recs fl e (next_rec fl q)"
proof -
  obtain us vs where pr: "page_recs fl e p = us @ q # vs" and v: "filter (rec_valid fl) vs = qs"
    using assms by (auto simp: filter_eq_Cons_iff)
  then show ?thesis
    using page_recs_next [OF pr] by simp
qed

lemma valid_from_recs: "valid_from fl e p = (case valid_recs fl e p of [] \<Rightarrow> None | q # _ \<Rightarrow> Some q)"
proof (induction fl e p rule: valid_from.induct)
  case (1 fl e p)
  then show ?case
    using rec_valid_def [of fl p] by (subst valid_from.simps, subst page_recs.simps) auto
qed

definition recs_after :: "flash \<Rightarrow> fds_page \<Rightarrow> nat \<Rightarrow> nat list" where
  "recs_after fl pg p = valid_recs fl (page_end pg) (if p \<noteq> 0 then next_rec fl p else page_first pg)"

lemma recs_after_0 [simp]: "recs_after fl pg 0 = recs_of fl pg"
  by (simp add: recs_after_def recs_of_def)

lemma record_find_next_recs:
  "record_find_next fl pg p = (case recs_after fl pg p of [] \<Rightarrow> None | q # _ \<Rightarrow> Some q)"
  by (simp add: record_find_next_def valid_from_recs recs_after_def page_end_def page_first_def)

lemma recs_step:
  "recs_after fl pg p = (case record_find_next fl pg p of None \<Rightarrow> [] | Some q \<Rightarrow> q # recs_after fl pg q)"
proof (cases "recs_after fl pg p")
  case (Cons q qs)
  then have f: "record_find_next fl pg p = Some q"
    by (simp add: record_find_next_recs)
  then have "qs = recs_after fl pg q"
    using valid_recs_tail Cons record_find_next_bound(3) [OF f] unfolding recs_after_def by auto
  then show ?thesis
    using f Cons by simp
qed (simp add: record_find_next_recs)

lemma find_on_page_recs:
  "find_on_page fl f k pg p = find (\<lambda>q. rec_matches f k (header_at fl q)) (recs_after fl pg p)"
  by (induction fl f k pg p rule: find_on_page.induct)
    (subst find_on_page.simps, subst recs_step, auto split: option.splits)

lemma count_valid_recs: "count_valid fl pg p n = n + of_nat (length (recs_after fl pg p))"
  by (induction fl pg p n rule: count_valid.induct)
    (subst count_valid.simps, subst recs_step, auto split: option.splits)

lemma find_id_recs: "find_id fl pg i p = find (\<lambda>q. record_id (header_at fl q) = i) (recs_after fl pg p)"
  by (induction fl pg i p rule: find_id.induct)
    (subst find_id.simps, subst recs_step, auto split: option.splits)

lemma recs_after_append: "recs_after fl pg p = us @ q # vs \<Longrightarrow> vs = recs_after fl pg q"
proof (induction us arbitrary: p)
  case Nil
  then show ?case
    by (subst (asm) recs_step) (auto split: option.splits)
next
  case (Cons u us)
  then have "recs_after fl pg u = us @ q # vs"
    by (subst (asm) (2) recs_step) (auto split: option.splits)
  then show ?case
    by (rule Cons.IH)
qed

lemma matches_tail:
  assumes "filter P (recs_after fl pg p) = q # qs"
  shows "qs = filter P (recs_after fl pg q)"
  using assms recs_after_append [of fl pg p _ q] by (auto simp: filter_eq_Cons_iff)

lemma find_filter: "find P xs = (case filter P xs of [] \<Rightarrow> None | x # _ \<Rightarrow> Some x)"
  by (induction xs) auto

subsection \<open>Searches\<close>

text \<open>What a search finds from a token on: the rest of the token's page, then the later pages.\<close>

definition rest_of :: "flash \<Rightarrow> u16 option \<Rightarrow> u16 option \<Rightarrow> fds_page list \<Rightarrow> nat \<Rightarrow> nat \<Rightarrow> nat list" where
  "rest_of fl f k pgs i p =
     (if i < length pgs \<and> data_page (pgs ! i) then filter (\<lambda>q. rec_matches f k (header_at fl q)) (recs_after fl (pgs ! i) p) else [])
     @ concat (map (matching fl f k) (filter data_page (drop (Suc i) pgs)))"

lemma rest_of_next:
  assumes "i < length pgs"
  shows "concat (map (matching fl f k) (filter data_page (drop (Suc i) pgs))) = rest_of fl f k pgs (Suc i) 0"
proof (cases "Suc i < length pgs")
  case True
  then have "drop (Suc i) pgs = pgs ! Suc i # drop (Suc (Suc i)) pgs"
    by (simp add: Cons_nth_drop_Suc)
  then show ?thesis
    using True by (simp add: rest_of_def matching_def)
qed (simp add: rest_of_def)

lemma rest_of_0: "pgs \<noteq> [] \<Longrightarrow> rest_of fl f k pgs 0 0 = concat (map (matching fl f k) (filter data_page pgs))"
  by (cases pgs) (simp_all add: rest_of_def matching_def)

lemma find_from_rest:
  assumes "length pgs = FDS_MAX_PAGES" and "p = 0 \<or> i < FDS_MAX_PAGES \<and> data_page (pgs ! i)"
  shows "case rest_of fl f k pgs i p of
           [] \<Rightarrow> \<not> fst (find_from fl f k pgs i p)
         | q # qs \<Rightarrow> \<exists>j. find_from fl f k pgs i p = (True, j, q) \<and> j < FDS_MAX_PAGES \<and> data_page (pgs ! j) \<and> rest_of fl f k pgs j q = qs"
  using assms
proof (induction fl f k pgs i p rule: find_from.induct)
  case (1 fl f k pgs i p)
  let ?P = "\<lambda>q. rec_matches f k (header_at fl q)"
  show ?case
  proof (cases "i < FDS_MAX_PAGES")
    case False
    then show ?thesis
      using 1(3,4) by (subst find_from.simps) (simp add: rest_of_def)
  next
    case i: True
    have skip: ?thesis
      if r: "rest_of fl f k pgs i p = rest_of fl f k pgs (Suc i) 0"
        and ff: "find_from fl f k pgs i p = find_from fl f k pgs (Suc i) 0"
        and ih: "case rest_of fl f k pgs (Suc i) 0 of [] \<Rightarrow> \<not> fst (find_from fl f k pgs (Suc i) 0)
          | q # qs \<Rightarrow> \<exists>j. find_from fl f k pgs (Suc i) 0 = (True, j, q) \<and> j < FDS_MAX_PAGES \<and> data_page (pgs ! j) \<and> rest_of fl f k pgs j q = qs"
      using ih unfolding r ff .
    show ?thesis
    proof (cases "data_page (pgs ! i)")
      case False
      then have p: "p = 0"
        using 1(4) by simp
      show ?thesis
      proof (rule skip)
        show "rest_of fl f k pgs i p = rest_of fl f k pgs (Suc i) 0"
          using False i 1(3) rest_of_next [of i pgs fl f k] by (simp add: rest_of_def [of _ _ _ _ i])
        show "find_from fl f k pgs i p = find_from fl f k pgs (Suc i) 0"
          using False i p by (subst find_from.simps) (simp add: data_page_def)
      qed (use 1 False i p in \<open>auto simp: data_page_def\<close>)
    next
      case d: True
      show ?thesis
      proof (cases "filter ?P (recs_after fl (pgs ! i) p)")
        case Nil
        then have fp: "find_on_page fl f k (pgs ! i) p = None"
          by (simp add: find_on_page_recs find_filter)
        show ?thesis
        proof (rule skip)
          show "rest_of fl f k pgs i p = rest_of fl f k pgs (Suc i) 0"
            using Nil i 1(3) rest_of_next [of i pgs fl f k] by (simp add: rest_of_def [of _ _ _ _ i])
          show "find_from fl f k pgs i p = find_from fl f k pgs (Suc i) 0"
            using d i fp by (subst find_from.simps) (simp add: data_page_def)
        qed (use 1 d i fp in \<open>auto simp: data_page_def\<close>)
      next
        case (Cons q qs)
        then have fp: "find_on_page fl f k (pgs ! i) p = Some q"
          by (simp add: find_on_page_recs find_filter)
        have "find_from fl f k pgs i p = (True, i, q)"
          using d i fp by (subst find_from.simps) (simp add: data_page_def)
        then show ?thesis
          using Cons d i 1(3) matches_tail [OF Cons] by (simp add: rest_of_def)
      qed
    qed
  qed
qed

text \<open>A search with a token: the records that successive calls report until one reports that there is no more.\<close>

inductive finds :: "u16 option \<Rightarrow> u16 option \<Rightarrow> 'w fds_scheme \<Rightarrow> fds_find_token \<Rightarrow> fds_record_desc list \<Rightarrow> bool"
  for f k s where
  finds_end: "record_find f k (Some d) (Some t) s = (FDS_ERR_NOT_FOUND, d', t') \<Longrightarrow> finds f k s t []"
| finds_next: "record_find f k (Some d) (Some t) s = (FDS_SUCCESS, Some d', Some t') \<Longrightarrow> finds f k s t' ds
    \<Longrightarrow> finds f k s t (d' # ds)"

definition desc_at :: "'w fds_scheme \<Rightarrow> nat \<Rightarrow> fds_record_desc \<Rightarrow> bool" where
  "desc_at s q d \<longleftrightarrow> d_record d = q \<and> d_record_id d = record_id (header_at (flash_words s) q) \<and> d_gc_run_count d = gc_run_count (m_gc s)"

definition token_ok :: "'w fds_scheme \<Rightarrow> fds_find_token \<Rightarrow> bool" where
  "token_ok s t \<longleftrightarrow> t_addr t = 0 \<or> unat (t_page t) < FDS_MAX_PAGES \<and> data_page (m_pages s ! unat (t_page t))"

lemma record_find_rest:
  assumes ini: "flag_is_set FDS_FLAG_INITIALIZED s" and n: "length (m_pages s) = FDS_MAX_PAGES" and t: "token_ok s t"
  shows "case rest_of (flash_words s) f k (m_pages s) (unat (t_page t)) (t_addr t) of
      [] \<Rightarrow> fst (record_find f k (Some d) (Some t) s) = FDS_ERR_NOT_FOUND
    | q # qs \<Rightarrow> \<exists>d' t'. record_find f k (Some d) (Some t) s = (FDS_SUCCESS, Some d', Some t') \<and> desc_at s q d'
        \<and> token_ok s t' \<and> rest_of (flash_words s) f k (m_pages s) (unat (t_page t')) (t_addr t') = qs"
proof -
  let ?ff = "find_from (flash_words s) f k (m_pages s) (unat (t_page t)) (t_addr t)"
  note spec = find_from_rest [OF n, of "t_addr t" "unat (t_page t)" "flash_words s" f k]
  show ?thesis
  proof (cases "rest_of (flash_words s) f k (m_pages s) (unat (t_page t)) (t_addr t)")
    case Nil
    then have "\<not> fst ?ff"
      using spec t by (simp add: token_ok_def)
    then show ?thesis
      using Nil ini by (auto simp: record_find_def split: prod.splits)
  next
    case (Cons q qs)
    then obtain j where j: "?ff = (True, j, q)" "j < FDS_MAX_PAGES" "data_page (m_pages s ! j)"
        "rest_of (flash_words s) f k (m_pages s) j q = qs"
      using spec t by (auto simp: token_ok_def)
    then have u: "unat (of_nat j :: u16) = j"
      by (simp add: unat_of_nat FDS_MAX_PAGES_def FDS_VIRTUAL_PAGES_def)
    show ?thesis
      using Cons j u ini by (simp add: record_find_def desc_at_def token_ok_def)
  qed
qed

lemma finds_rest:
  assumes ini: "flag_is_set FDS_FLAG_INITIALIZED s" and n: "length (m_pages s) = FDS_MAX_PAGES" and t: "token_ok s t"
    and "rest_of (flash_words s) f k (m_pages s) (unat (t_page t)) (t_addr t) = qs"
  shows "\<exists>ds. finds f k s t ds"
    and "finds f k s t ds \<Longrightarrow> list_all2 (desc_at s) qs ds"
proof -
  show "\<exists>ds. finds f k s t ds"
    using t assms(4)
  proof (induction qs arbitrary: t)
    case Nil
    then have "fst (record_find f k (Some zero_desc) (Some t) s) = FDS_ERR_NOT_FOUND"
      using record_find_rest [OF ini n Nil(1), of f k zero_desc] by simp
    then show ?case
      by (metis finds_end prod.collapse)
  next
    case (Cons q qs)
    then show ?case
      using record_find_rest [OF ini n Cons(2), of f k zero_desc] by (auto intro: finds_next)
  qed
  show "list_all2 (desc_at s) qs ds" if "finds f k s t ds"
    using that t assms(4)
  proof (induction arbitrary: qs)
    case (finds_end d t d' t')
    then show ?case
      using record_find_rest [OF ini n finds_end(2), of f k d]
      by (cases qs) (auto simp: FDS_SUCCESS_def FDS_ERR_NOT_FOUND_def)
  next
    case (finds_next d t d' t' ds)
    then show ?case
      using record_find_rest [OF ini n finds_next(4), of f k d]
      by (cases qs) (auto simp: FDS_SUCCESS_def FDS_ERR_NOT_FOUND_def)
  qed
qed

subsection \<open>Writing into flash\<close>

text \<open>
  Flash access executes one request: a store programs word by word and can only clear bits, an erase
  sets all bits of the pages. \<open>ram\<close> is what the pointers of the user point to.
\<close>

definition src_word :: "(u32 \<Rightarrow> u32) \<Rightarrow> flash \<Rightarrow> fs_src \<Rightarrow> nat \<Rightarrow> u32" where
  "src_word ram fl src i =
     (case src of From_words ws \<Rightarrow> ws ! i | From_ram a \<Rightarrow> ram (a + 4 * of_nat i) | From_flash p \<Rightarrow> fl (p + 4 * i))"

definition program :: "flash \<Rightarrow> nat \<times> u32 \<Rightarrow> flash" where
  "program fl = (\<lambda>(p, w). fl(p := fl p AND w))"

fun stores_of :: "(u32 \<Rightarrow> u32) \<Rightarrow> flash \<Rightarrow> call \<Rightarrow> (nat \<times> u32) list" where
  "stores_of ram fl (Store (Fs_store dest src n)) = map (\<lambda>i. (dest + 4 * i, src_word ram fl src i)) [0..<unat n]"
| "stores_of ram fl _ = []"

fun perform :: "(u32 \<Rightarrow> u32) \<Rightarrow> call \<Rightarrow> flash \<Rightarrow> flash" where
  "perform ram (Store (Fs_erase p n)) fl =
     (\<lambda>a. if p \<le> a \<and> a < p + 4 * (FDS_PAGE_SIZE * unat n) then FDS_ERASED_WORD else fl a)"
| "perform ram c fl = foldl program fl (stores_of ram fl c)"

fun is_fs :: "call \<Rightarrow> bool" where
  "is_fs (Store (Fs_store _ _ _)) = True"
| "is_fs (Store (Fs_erase _ _)) = True"
| "is_fs _ = False"

text \<open>
  The request under way is the last one made; when it is done the module is told. The module rests
  when it is not processing.
\<close>

definition fds_turn :: "(u32 \<Rightarrow> u32) \<Rightarrow> 'w fds_cb \<Rightarrow> nat \<Rightarrow> ('w fds_scheme, unit) prog" where
  "fds_turn ram cb n =
     bnd (modify (\<lambda>s. s\<lparr>flash_words := perform ram (last (filter is_fs (sd_trace s))) (flash_words s)\<rparr>)) (\<lambda>_.
     fs_event_handler cb n FS_SUCCESS)"

inductive settles :: "(u32 \<Rightarrow> u32) \<Rightarrow> 'w fds_cb \<Rightarrow> nat \<Rightarrow> 'w fds_scheme \<Rightarrow> 'w fds_scheme \<Rightarrow> bool"
  for ram cb n where
  settles_rest: "\<not> flag_is_set FDS_FLAG_PROCESSING s \<Longrightarrow> settles ram cb n s s"
| settles_turn: "flag_is_set FDS_FLAG_PROCESSING s \<Longrightarrow> fds_turn ram cb n s = (Ret (), s1) \<Longrightarrow> settles ram cb n s1 s'
    \<Longrightarrow> settles ram cb n s s'"

text \<open>
  A user whose callback only changes a state of its own and calls nothing of the module, and what an
  event does to that state.
\<close>

definition user_cb :: "(fnptr \<Rightarrow> fds_evt \<Rightarrow> 'w \<Rightarrow> 'w) \<Rightarrow> 'w fds_cb" where
  "user_cb u p e = modify (fds.more_update (u p e))"

definition notify :: "(fnptr \<Rightarrow> fds_evt \<Rightarrow> 'w \<Rightarrow> 'w) \<Rightarrow> fnptr list \<Rightarrow> fds_evt \<Rightarrow> 'w \<Rightarrow> 'w" where
  "notify u ps e = fold (\<lambda>p. u p e) (filter (\<lambda>p. p \<noteq> NULL) ps)"

lemma event_send_to_user:
  "list_all (\<lambda>i. i < length (m_cb_table s)) is \<Longrightarrow>
   event_send_to (user_cb u) e is s = (Ret (), fds.more_update (notify u (map ((!) (m_cb_table s)) is) e) s)"
proof (induction "is" arbitrary: s)
  case Nil
  then show ?case
    by (cases s) (simp add: notify_def)
next
  case (Cons i "is")
  let ?p = "m_cb_table s ! i"
  let ?s = "if ?p \<noteq> NULL then fds.more_update (u ?p e) s else s"
  have "event_send_to (user_cb u) e (i # is) s = event_send_to (user_cb u) e is ?s"
    by (simp add: bnd_run user_cb_def)
  also have "\<dots> = (Ret (), fds.more_update (notify u (map ((!) (m_cb_table ?s)) is) e) ?s)"
    using Cons by (intro Cons.IH) simp
  finally show ?case
    by (cases s) (simp add: notify_def)
qed

lemma event_send_user:
  "length (m_cb_table s) = FDS_MAX_USERS \<Longrightarrow>
   event_send (user_cb u) e s = (Ret (), fds.more_update (notify u (m_cb_table s) e) s)"
  using event_send_to_user [of s "[0..<FDS_MAX_USERS]" u e] map_nth [of "m_cb_table s"]
  by (simp add: event_send_def list_all_iff)

end
