(* ===== verification/FdsWrite.thy ===== *)
theory FdsWrite
  imports FdsStore
begin

text \<open>
  Writing a record: the requests that a write makes, the flash that they lead to, and every state of
  flash in between.
\<close>

unbundle bit_operations_syntax

subsection \<open>Programming words\<close>

lemma and_erased [simp]: "FDS_ERASED_WORD AND w = w"
proof -
  have a: "FDS_ERASED_WORD = - 1"
    by (simp add: FDS_ERASED_WORD_def)
  have b: "(- 1 :: u32) AND w = w"
    by simp
  show ?thesis
    unfolding a by (rule b)
qed

lemma program_apply: "program fl (p, w) = fl(p := fl p AND w)"
  by (simp add: program_def)

lemma program_other: "p \<notin> fst ` set ws \<Longrightarrow> foldl program fl ws p = fl p"
  by (induction ws arbitrary: fl) (auto simp: program_def split: prod.splits)

lemma program_at:
  "distinct (map fst ws) \<Longrightarrow> (p, w) \<in> set ws \<Longrightarrow> foldl program fl ws p = fl p AND w"
proof (induction ws arbitrary: fl)
  case (Cons x ws)
  show ?case
  proof (cases "x = (p, w)")
    case True
    then have "p \<notin> fst ` set ws"
      using Cons.prems(1) by simp
    then show ?thesis
      using True program_other [of p ws "program fl x"] by (simp add: program_apply)
  next
    case False
    then have "(p, w) \<in> set ws"
      using Cons.prems(2) by simp
    moreover from this have "p \<in> fst ` set ws"
      by force
    then have "fst x \<noteq> p"
      using Cons.prems(1) by auto
    ultimately show ?thesis
      using Cons by (cases x) (simp add: program_apply)
  qed
qed simp

subsection \<open>Pages in flash\<close>

text \<open>The records reach exactly from \<open>p\<close> to \<open>a\<close>.\<close>

function chain :: "flash \<Rightarrow> nat \<Rightarrow> nat \<Rightarrow> bool" where
  "chain fl a p \<longleftrightarrow> (if p < a \<and> fl p \<noteq> FDS_ERASED_WORD then chain fl a (next_rec fl p) else p = a)"
  by pat_completeness auto
termination
  by (relation "measure (\<lambda>(fl, e, p). e - p)") (auto simp: next_rec_decreases)

declare chain.simps [simp del]

lemma chain_le: "chain fl a p \<Longrightarrow> p \<le> a"
  by (subst (asm) chain.simps) (auto split: if_splits)

lemma chain_next:
  assumes "chain fl a p" and "p \<noteq> a"
  shows "p < a" and "fl p \<noteq> FDS_ERASED_WORD" and "chain fl a (next_rec fl p)"
  using assms chain.simps [of fl a p] by (auto split: if_splits)

lemma header_cong:
  "\<forall>x. p \<le> x \<and> x < p + 12 \<longrightarrow> fl' x = fl x \<Longrightarrow> header_at fl' p = header_at fl p"
  by (simp add: header_at_def)

lemma next_rec_ge: "p + 12 \<le> next_rec fl p"
  by (simp add: next_rec_def FDS_HEADER_SIZE_def)

lemma chain_cong:
  assumes "chain fl a p" and "\<forall>x. p \<le> x \<and> x < a \<longrightarrow> fl' x = fl x"
  shows "chain fl' a p" and "page_recs fl' a p = page_recs fl a p" and "valid_recs fl' a p = valid_recs fl a p"
    and "q \<in> set (page_recs fl a p) \<Longrightarrow> header_at fl' q = header_at fl q"
proof -
  have "chain fl' a p \<and> page_recs fl' a p = page_recs fl a p
      \<and> (\<forall>q \<in> set (page_recs fl a p). header_at fl' q = header_at fl q)"
    using assms
  proof (induction fl a p rule: chain.induct)
    case (1 fl a p)
    show ?case
    proof (cases "p = a")
      case True
      then show ?thesis
        using chain.simps [of fl' a a] page_recs.simps [of fl' a a] page_recs.simps [of fl a a] by simp
    next
      case False
      note p = chain_next(1,2) [OF 1(2) False] and c = chain_next(3) [OF 1(2) False]
      have "next_rec fl p \<le> a"
        using c chain_le by blast
      then have h: "header_at fl' p = header_at fl p"
        using 1(3) next_rec_ge [of p fl] by (intro header_cong) auto
      then have n: "next_rec fl' p = next_rec fl p"
        by (simp add: next_rec_def)
      have w: "fl' p = fl p"
        using 1(3) p by simp
      have ih: "chain fl' a (next_rec fl p) \<and> page_recs fl' a (next_rec fl p) = page_recs fl a (next_rec fl p)
          \<and> (\<forall>q \<in> set (page_recs fl a (next_rec fl p)). header_at fl' q = header_at fl q)"
        using 1(1) p c 1(3) next_rec_gt [of p fl] by (meson le_trans less_imp_le)
      have "page_recs fl' a p = p # page_recs fl' a (next_rec fl p)" and "page_recs fl a p = p # page_recs fl a (next_rec fl p)"
        using p w n page_recs.simps [of fl' a p] page_recs.simps [of fl a p] by simp_all
      moreover have "chain fl' a p"
        using p w n ih chain.simps [of fl' a p] by simp
      ultimately show ?thesis
        using ih h by simp
    qed
  qed
  then show "chain fl' a p" and "page_recs fl' a p = page_recs fl a p" and "valid_recs fl' a p = valid_recs fl a p"
    and "q \<in> set (page_recs fl a p) \<Longrightarrow> header_at fl' q = header_at fl q"
    by (auto simp: rec_valid_def intro!: filter_cong)
qed

lemma chain_split:
  assumes "chain fl a p" and "a \<le> e"
  shows "page_recs fl e p = page_recs fl a p @ page_recs fl e a"
  using assms
proof (induction fl a p rule: chain.induct)
  case (1 fl a p)
  show ?case
  proof (cases "p = a")
    case True
    then show ?thesis
      by (subst (2) page_recs.simps) simp
  next
    case False
    then have "p < a" "fl p \<noteq> FDS_ERASED_WORD" "chain fl a (next_rec fl p)"
      using chain_next [OF 1(2)] by auto
    then show ?thesis
      using 1(1,3) page_recs.simps [of fl e p] page_recs.simps [of fl a p] by simp
  qed
qed

lemma chain_snoc:
  assumes "chain fl a p" and "fl a \<noteq> FDS_ERASED_WORD"
  shows "chain fl (next_rec fl a) p"
  using assms
proof (induction fl a p rule: chain.induct)
  case (1 fl a p)
  show ?case
  proof (cases "p = a")
    case True
    then show ?thesis
      using 1(3) by (subst chain.simps, subst chain.simps) simp
  next
    case False
    then have "p < a" "fl p \<noteq> FDS_ERASED_WORD" "chain fl a (next_rec fl p)"
      using chain_next [OF 1(2)] by auto
    then show ?thesis
      using 1(1,3) next_rec_gt [of a fl] chain.simps [of fl "next_rec fl a" p] by (meson less_trans)
  qed
qed

text \<open>
  A page that data can be written to: its records reach up to the write offset, the rest is erased.
\<close>

definition page_at :: "fds_page \<Rightarrow> nat" where
  "page_at pg = pg_addr pg + 4 * unat (write_offset pg)"

definition page_ok :: "flash \<Rightarrow> fds_page \<Rightarrow> bool" where
  "page_ok fl pg \<longleftrightarrow> chain fl (page_at pg) (page_first pg) \<and> unat (write_offset pg) \<le> FDS_PAGE_SIZE
     \<and> (\<forall>i. unat (write_offset pg) \<le> i \<and> i < FDS_PAGE_SIZE \<longrightarrow> fl (pg_addr pg + 4 * i) = FDS_ERASED_WORD)"

lemma page_at_le_end: "page_ok fl pg \<Longrightarrow> page_at pg \<le> page_end pg"
  by (simp add: page_ok_def page_at_def page_end_def)

lemma page_ok_erased:
  assumes "page_ok fl pg" and "page_at pg + 4 * j < page_end pg"
  shows "fl (page_at pg + 4 * j) = FDS_ERASED_WORD"
proof -
  have "page_at pg + 4 * j = pg_addr pg + 4 * (unat (write_offset pg) + j)"
    by (simp add: page_at_def)
  then show ?thesis
    using assms unfolding page_ok_def page_end_def page_at_def by (metis add_less_cancel_left le_add1 mult_less_cancel1)
qed

lemma page_ok_recs:
  assumes "page_ok fl pg"
  shows "recs_of fl pg = valid_recs fl (page_at pg) (page_first pg)"
proof -
  have "page_recs fl (page_end pg) (page_at pg) = []"
    using page_ok_erased [OF assms, of 0] by (subst page_recs.simps) auto
  then show ?thesis
    using chain_split [of fl "page_at pg" "page_first pg" "page_end pg"] assms page_at_le_end [OF assms]
    by (simp add: recs_of_def page_ok_def)
qed

text \<open>Flash that differs only from the write position of a page on, and there starts one record.\<close>

lemma recs_of_appended:
  assumes ok: "page_ok fl pg" and same: "\<forall>x. page_first pg \<le> x \<and> x < page_at pg \<longrightarrow> fl' x = fl x"
  shows "recs_of fl' pg = recs_of fl pg @ valid_recs fl' (page_end pg) (page_at pg)"
proof -
  have c: "chain fl (page_at pg) (page_first pg)"
    using ok by (simp add: page_ok_def)
  have "recs_of fl' pg = valid_recs fl' (page_at pg) (page_first pg) @ valid_recs fl' (page_end pg) (page_at pg)"
    using chain_split [OF chain_cong(1) [OF c same] page_at_le_end [OF ok]] by (simp add: recs_of_def)
  then show ?thesis
    using chain_cong(3) [OF c same] page_ok_recs [OF ok] by simp
qed

lemma recs_of_same:
  assumes ok: "page_ok fl pg" and same: "\<forall>x. pg_addr pg \<le> x \<and> x < page_end pg \<longrightarrow> fl' x = fl x"
  shows "recs_of fl' pg = recs_of fl pg" and "page_ok fl' pg" and "q \<in> set (recs_of fl pg) \<Longrightarrow> header_at fl' q = header_at fl q"
proof -
  have c: "chain fl (page_at pg) (page_first pg)"
    using ok by (simp add: page_ok_def)
  have s: "\<forall>x. page_first pg \<le> x \<and> x < page_at pg \<longrightarrow> fl' x = fl x"
    using same page_at_le_end [OF ok] by (simp add: page_first_def)
  have e: "\<forall>i. unat (write_offset pg) \<le> i \<and> i < FDS_PAGE_SIZE \<longrightarrow> fl' (pg_addr pg + 4 * i) = FDS_ERASED_WORD"
    using ok same by (simp add: page_ok_def page_end_def)
  show ok': "page_ok fl' pg"
    using ok chain_cong(1) [OF c s] e by (simp add: page_ok_def)
  show "recs_of fl' pg = recs_of fl pg"
    using page_ok_recs [OF ok] page_ok_recs [OF ok'] chain_cong(3) [OF c s] by simp
  show "header_at fl' q = header_at fl q" if "q \<in> set (recs_of fl pg)"
    using that chain_cong(4) [OF c s] page_ok_recs [OF ok] by simp
qed

subsection \<open>The words of a record\<close>

lemma tl_of_word [simp]: "tl_of (tl_word t) = t"
proof -
  have "ucast (tl_word t) = record_key t" and "ucast (drop_bit 16 (tl_word t)) = length_words t"
    by (rule bit_word_eqI; auto simp: tl_word_def bit_simps dest: bit_imp_le_length)+
  then show ?thesis
    by (simp add: tl_of_def)
qed

lemma ic_of_word [simp]: "ic_of (ic_word t) = t"
proof -
  have "ucast (ic_word t) = file_id t" and "ucast (drop_bit 16 (ic_word t)) = crc16 t"
    by (rule bit_word_eqI; auto simp: ic_word_def bit_simps dest: bit_imp_le_length)+
  then show ?thesis
    by (simp add: ic_of_def)
qed

lemma erased_header:
  "file_id (ic_of FDS_ERASED_WORD) = FDS_FILE_ID_INVALID" "length_words (tl_of FDS_ERASED_WORD) = 0xFFFF"
  by (simp_all add: ic_of_def tl_of_def FDS_ERASED_WORD_def FDS_FILE_ID_INVALID_def)

lemma tl_word_written: "length_words t \<noteq> 0xFFFF \<Longrightarrow> tl_word t \<noteq> FDS_ERASED_WORD"
  using erased_header(2) tl_of_word [of t] by metis

text \<open>In the order in which they are programmed: the file identifier last.\<close>

definition record_words :: "nat \<Rightarrow> fds_header \<Rightarrow> u32 list \<Rightarrow> (nat \<times> u32) list" where
  "record_words a h data =
     (a, tl_word (h_tl h)) # (a + 8, record_id h) # map (\<lambda>i. (a + 12 + 4 * i, data ! i)) [0..<length data]
     @ [(a + 4, ic_word (h_ic h))]"

lemma length_record_words [simp]: "length (record_words a h data) = length data + 3"
  by (simp add: record_words_def)

lemma record_words_addr:
  "distinct (map fst (record_words a h data))"
  "x \<in> fst ` set (record_words a h data) \<Longrightarrow> a \<le> x \<and> x < a + 4 * (3 + length data)"
proof -
  show "distinct (map fst (record_words a h data))"
    by (auto simp: record_words_def distinct_map inj_on_def)
  show "x \<in> fst ` set (record_words a h data) \<Longrightarrow> a \<le> x \<and> x < a + 4 * (3 + length data)"
    by (auto simp: record_words_def)
qed

lemma take_record_words:
  assumes "0 < k" and "k \<le> length data + 2"
  shows "(a, tl_word (h_tl h)) \<in> set (take k (record_words a h data))"
    and "a + 4 \<notin> fst ` set (take k (record_words a h data))"
proof -
  show "(a, tl_word (h_tl h)) \<in> set (take k (record_words a h data))"
    using assms(1) by (cases k) (simp_all add: record_words_def)
  let ?front = "(a, tl_word (h_tl h)) # (a + 8, record_id h) # map (\<lambda>i. (a + 12 + 4 * i, data ! i)) [0..<length data]"
  have "take k (record_words a h data) = take k ?front"
    using assms(2) take_append [of k ?front "[(a + 4, ic_word (h_ic h))]"] by (simp add: record_words_def)
  moreover have "a + 4 \<notin> fst ` set ?front"
    by auto
  ultimately show "a + 4 \<notin> fst ` set (take k (record_words a h data))"
    using image_mono [OF set_take_subset [of k ?front], of fst] by (simp only:) blast
qed

text \<open>A new record that fits on the page with a word to spare.\<close>

definition fits :: "fds_page \<Rightarrow> fds_header \<Rightarrow> u32 list \<Rightarrow> bool" where
  "fits pg h data \<longleftrightarrow> unat (write_offset pg) + 3 + length data < FDS_PAGE_SIZE
     \<and> unat (length_words (h_tl h)) = length data \<and> header_is_valid h"

lemma fits_end: "fits pg h data \<Longrightarrow> page_at pg + 4 * (3 + length data) < page_end pg"
  by (simp add: fits_def page_at_def page_end_def)

lemma fits_erased:
  assumes "page_ok fl pg" and "fits pg h data" and "j \<le> 3 + length data"
  shows "fl (page_at pg + 4 * j) = FDS_ERASED_WORD"
proof (rule page_ok_erased [OF assms(1)])
  have "4 * j \<le> 4 * (3 + length data)"
    using assms(3) by simp
  then show "page_at pg + 4 * j < page_end pg"
    using fits_end [OF assms(2)] by linarith
qed

lemma cut_recs:
  assumes ok: "page_ok fl pg" and fit: "fits pg h data"
    and fl': "fl' = foldl program fl (take k (record_words (page_at pg) h data))"
  shows "\<forall>x. x < page_at pg \<or> page_at pg + 4 * (3 + length data) \<le> x \<longrightarrow> fl' x = fl x"
    and "recs_of fl' pg = recs_of fl pg @ (if k \<le> length data + 2 then [] else [page_at pg])"
proof -
  let ?a = "page_at pg" and ?ws = "record_words (page_at pg) h data"
  have sub: "fst ` set (take k ?ws) \<subseteq> fst ` set ?ws"
    using set_take_subset by (rule image_mono)
  have out: "fl' x = fl x" if "x \<notin> fst ` set (take k ?ws)" for x
    unfolding fl' by (rule program_other [OF that])
  show frame: "\<forall>x. x < ?a \<or> ?a + 4 * (3 + length data) \<le> x \<longrightarrow> fl' x = fl x"
  proof (intro allI impI)
    fix x
    assume "x < ?a \<or> ?a + 4 * (3 + length data) \<le> x"
    then have "x \<notin> fst ` set ?ws"
      using record_words_addr(2) [of x ?a h data] by (meson leD)
    then show "fl' x = fl x"
      using sub by (intro out) blast
  qed
  have dist: "distinct (map fst (take k ?ws))"
    using record_words_addr(1) [of ?a h data] by (metis distinct_take take_map)
  have app: "recs_of fl' pg = recs_of fl pg @ valid_recs fl' (page_end pg) ?a"
    using frame by (intro recs_of_appended [OF ok]) simp
  note er = fits_erased [OF ok fit]
  show "recs_of fl' pg = recs_of fl pg @ (if k \<le> length data + 2 then [] else [?a])"
  proof (cases "k = 0")
    case True
    then show ?thesis
      using fl' by simp
  next
    case False
    have "(?a, tl_word (h_tl h)) \<in> set (take k ?ws)"
      using False by (cases k) (simp_all add: record_words_def)
    then have tl: "fl' ?a = tl_word (h_tl h)"
      using program_at [OF dist, of ?a _ fl] er [of 0] fl' by simp
    have len: "length_words (h_tl h) \<noteq> 0xFFFF"
      using fit by (auto simp: fits_def FDS_PAGE_SIZE_def)
    have nx: "next_rec fl' ?a = ?a + 4 * (3 + length data)"
      using fit by (simp add: next_rec_def header_at_def tl FDS_HEADER_SIZE_def fits_def)
    have "fl' (?a + 4 * (3 + length data)) = FDS_ERASED_WORD"
      using frame er [of "3 + length data"] by simp
    then have "page_recs fl' (page_end pg) ?a = [?a]"
      using tl tl_word_written [OF len] nx fits_end [OF fit]
      by (subst page_recs.simps, subst page_recs.simps) simp
    moreover have "rec_valid fl' ?a \<longleftrightarrow> \<not> k \<le> length data + 2"
    proof (cases "k \<le> length data + 2")
      case True
      then have "fl' (?a + 4) = FDS_ERASED_WORD"
        using out take_record_words(2) [of k data ?a h] False er [of 1] by simp
      then show ?thesis
        using True by (simp add: rec_valid_def header_is_valid_def header_at_def erased_header)
    next
      case k: False
      then have all: "take k ?ws = ?ws"
        by simp
      have "(?a + 4, ic_word (h_ic h)) \<in> set ?ws"
        by (simp add: record_words_def)
      then have "fl' (?a + 4) = ic_word (h_ic h)"
        using program_at [OF record_words_addr(1), of "?a + 4" _ ?a h data fl] er [of 1] fl' all by simp
      then show ?thesis
        using k tl fit by (simp add: rec_valid_def header_is_valid_def header_at_def fits_def)
    qed
    ultimately show ?thesis
      using app by simp
  qed
qed

lemma written_record:
  assumes ok: "page_ok fl pg" and fit: "fits pg h data" and fl': "fl' = foldl program fl (record_words (page_at pg) h data)"
  shows "header_at fl' (page_at pg) = h"
    and "\<forall>i < length data. fl' (page_at pg + 12 + 4 * i) = data ! i"
    and "page_ok fl' (page_offsets_update (length_words (h_tl h)) pg)"
proof -
  let ?a = "page_at pg" and ?ws = "record_words (page_at pg) h data"
  note er = fits_erased [OF ok fit]
  have at: "fl' (?a + 4 * j) = w" if "(?a + 4 * j, w) \<in> set ?ws" "j \<le> 3 + length data" for j w
    using program_at [OF record_words_addr(1) that(1), of fl] er [OF that(2)] fl' by simp
  have tl: "fl' ?a = tl_word (h_tl h)" and ic: "fl' (?a + 4) = ic_word (h_ic h)" and id: "fl' (?a + 8) = record_id h"
    using at [of 0] at [of 1] at [of 2] by (simp_all add: record_words_def)
  show hd: "header_at fl' ?a = h"
    by (simp add: header_at_def tl ic id)
  show "\<forall>i < length data. fl' (?a + 12 + 4 * i) = data ! i"
  proof (intro allI impI)
    fix i
    assume i: "i < length data"
    then have "(?a + 4 * (3 + i), data ! i) \<in> set ?ws"
      by (simp add: record_words_def)
    then show "fl' (?a + 12 + 4 * i) = data ! i"
      using at [of "3 + i"] i by (simp add: add.assoc)
  qed
  let ?pg = "page_offsets_update (length_words (h_tl h)) pg"
  have L: "unat (length_words (h_tl h)) = length data" and room: "unat (write_offset pg) + 3 + length data < 256"
    using fit by (simp_all add: fits_def FDS_PAGE_SIZE_def)
  have off: "unat (write_offset ?pg) = unat (write_offset pg) + 3 + length data"
    using L room by (simp add: page_offsets_update_def FDS_HEADER_SIZE_def unat_word_ariths)
  have ends: "page_at ?pg = next_rec fl' ?a"
    unfolding next_rec_def hd using off L by (simp add: page_at_def FDS_HEADER_SIZE_def page_offsets_update_def)
  have frame: "\<forall>x. x < ?a \<or> ?a + 4 * (3 + length data) \<le> x \<longrightarrow> fl' x = fl x"
    using cut_recs(1) [OF ok fit, of fl' "length ?ws"] fl' by simp
  have c: "chain fl ?a (page_first pg)"
    using ok by (simp add: page_ok_def)
  have "chain fl' ?a (page_first pg)"
    using frame by (intro chain_cong(1) [OF c]) simp
  moreover have "length_words (h_tl h) \<noteq> 0xFFFF"
    using L room by auto
  ultimately have "chain fl' (next_rec fl' ?a) (page_first pg)"
    using tl tl_word_written by (intro chain_snoc) simp_all
  then have "chain fl' (page_at ?pg) (page_first ?pg)"
    unfolding ends by (simp add: page_first_def page_offsets_update_def)
  moreover have "fl' (pg_addr pg + 4 * i) = FDS_ERASED_WORD"
    if "unat (write_offset pg) + 3 + length data \<le> i" "i < FDS_PAGE_SIZE" for i
  proof -
    have "fl' (pg_addr pg + 4 * i) = fl (pg_addr pg + 4 * i)"
      using frame that(1) by (simp add: page_at_def)
    then show ?thesis
      using ok that by (simp add: page_ok_def)
  qed
  ultimately show "page_ok fl' ?pg"
    using off room by (simp add: page_ok_def FDS_PAGE_SIZE_def) (simp add: page_offsets_update_def)
qed

end
