(* ===== verification/FdsRuns.thy ===== *)
theory FdsRuns
  imports FdsWrite
begin

text \<open>
  Whole operations of the flash data storage, from the call to the event: the requests they make, and
  what flash and the module's state are afterwards.
\<close>

unbundle bit_operations_syntax

subsection \<open>Flags\<close>

lemma fds_flag_bits:
  "flag_is_set FDS_FLAG_PROCESSING s \<longleftrightarrow> bit (m_flags s) 2"
  "flag_is_set FDS_FLAG_INITIALIZED s \<longleftrightarrow> bit (m_flags s) 1"
  "flag_is_set FDS_FLAG_INITIALIZING s \<longleftrightarrow> bit (m_flags s) 0"
proof -
  have b: "(x AND 2 ^ n \<noteq> 0) \<longleftrightarrow> bit x n" for x :: u8 and n
    by (simp add: bit_iff_and_push_bit_not_eq_0 push_bit_eq_mult)
  show "flag_is_set FDS_FLAG_PROCESSING s \<longleftrightarrow> bit (m_flags s) 2"
    and "flag_is_set FDS_FLAG_INITIALIZED s \<longleftrightarrow> bit (m_flags s) 1"
    and "flag_is_set FDS_FLAG_INITIALIZING s \<longleftrightarrow> bit (m_flags s) 0"
    using b [of "m_flags s" 2] b [of "m_flags s" 1] b [of "m_flags s" 0]
    by (simp_all add: flag_is_set_def FDS_FLAG_PROCESSING_def FDS_FLAG_INITIALIZED_def FDS_FLAG_INITIALIZING_def)
qed

lemma flags_bit:
  "bit FDS_FLAG_PROCESSING n \<longleftrightarrow> n = 2" "bit FDS_FLAG_INITIALIZED n \<longleftrightarrow> n = 1" "bit FDS_FLAG_INITIALIZING n \<longleftrightarrow> n = 0"
proof -
  have f: "FDS_FLAG_PROCESSING = 2 ^ 2" "FDS_FLAG_INITIALIZED = 2 ^ 1" "FDS_FLAG_INITIALIZING = 2 ^ 0"
    by (simp_all add: FDS_FLAG_PROCESSING_def FDS_FLAG_INITIALIZED_def FDS_FLAG_INITIALIZING_def)
  have p: "bit (2 ^ k :: u8) n \<longleftrightarrow> n = k" if "k < 8" for k
    using that by (auto simp: bit_exp_iff possible_bit_def)
  show "bit FDS_FLAG_PROCESSING n \<longleftrightarrow> n = 2" "bit FDS_FLAG_INITIALIZED n \<longleftrightarrow> n = 1" "bit FDS_FLAG_INITIALIZING n \<longleftrightarrow> n = 0"
    unfolding f by (rule p; simp)+
qed

lemma flags_after [simp]:
  "flag_is_set FDS_FLAG_PROCESSING (flag_set FDS_FLAG_PROCESSING s)"
  "\<not> flag_is_set FDS_FLAG_PROCESSING (flag_clear FDS_FLAG_PROCESSING s)"
  "flag_is_set FDS_FLAG_INITIALIZED (flag_set FDS_FLAG_PROCESSING s) = flag_is_set FDS_FLAG_INITIALIZED s"
  "flag_is_set FDS_FLAG_INITIALIZED (flag_clear FDS_FLAG_PROCESSING s) = flag_is_set FDS_FLAG_INITIALIZED s"
  "flag_is_set FDS_FLAG_INITIALIZED (flag_set FDS_FLAG_INITIALIZED s)"
  "flag_is_set FDS_FLAG_INITIALIZED (flag_clear FDS_FLAG_INITIALIZING s) = flag_is_set FDS_FLAG_INITIALIZED s"
  "flag_is_set FDS_FLAG_PROCESSING (flag_clear FDS_FLAG_INITIALIZING s) = flag_is_set FDS_FLAG_PROCESSING s"
  "flag_is_set FDS_FLAG_PROCESSING (flag_set FDS_FLAG_INITIALIZED s) = flag_is_set FDS_FLAG_PROCESSING s"
  by (simp_all add: fds_flag_bits flag_set_def flag_clear_def flags_bit bit_or_iff bit_and_iff bit_not_iff)

lemma flag_clear_set:
  "\<not> flag_is_set FDS_FLAG_PROCESSING s \<Longrightarrow> (m_flags s OR FDS_FLAG_PROCESSING) AND NOT FDS_FLAG_PROCESSING = m_flags s"
  by (rule bit_word_eqI) (auto simp: fds_flag_bits flags_bit bit_or_iff bit_and_iff bit_not_iff)

subsection \<open>Requests\<close>

text \<open>
  The requests that flash access takes, for a client whose flash lies from \<open>lo\<close> to \<open>hi\<close>: some words,
  from an aligned address that is not \<^verbatim>\<open>NULL\<close> (the objects of the module are), to aligned addresses of
  that flash; or some whole pages of it.
\<close>

fun src_valid :: "fs_src \<Rightarrow> bool" where
  "src_valid (From_words _) = True"
| "src_valid (From_ram p) = (p \<noteq> 0 \<and> p AND 3 = 0)"
| "src_valid (From_flash a) = (a \<noteq> 0 \<and> a mod 4 = 0)"

fun fs_valid :: "nat \<Rightarrow> nat \<Rightarrow> call \<Rightarrow> bool" where
  "fs_valid lo hi (Store (Fs_store d src n)) = (n \<noteq> 0 \<and> src_valid src \<and> d \<noteq> 0 \<and> d mod 4 = 0 \<and> lo \<le> d \<and> d + 4 * unat n \<le> hi)"
| "fs_valid lo hi (Store (Fs_erase p n)) = (n \<noteq> 0 \<and> p \<noteq> 0 \<and> p mod 1024 = 0 \<and> lo \<le> p \<and> p + 1024 * unat n \<le> hi)"
| "fs_valid lo hi _ = False"

text \<open>
  Flash access as the module finds it: initialised, with this flash as the module's, and with room in
  its queue, of which the module, its only client, needs one element at a time. Then it takes every valid
  request, which \<open>fs_valid_taken\<close> shows of \<^verbatim>\<open>fs_store\<close>.
\<close>

definition fs_accepts_in :: "nat \<Rightarrow> nat \<Rightarrow> 'w fds_scheme \<Rightarrow> bool" where
  "fs_accepts_in lo hi s \<longleftrightarrow> (\<forall>h c. fs_valid lo hi c \<longrightarrow> rc (sd_env s h c) = FS_SUCCESS)"

definition fs_accepts :: "'w fds_scheme \<Rightarrow> bool" where
  "fs_accepts s \<longleftrightarrow> fs_accepts_in (p_start_addr s) (p_end_addr s) s"

lemma fs_valid_taken:
  assumes "fs_inv m" and "length (fs_queue m) < 4" and "fs_flag m FS_FLAG_INITIALIZED" and "check_config m cfg"
    and "fs_valid (unat (cfg_start_addr (fs_config_at m cfg))) (unat (cfg_end_addr (fs_config_at m cfg))) (Store (Fs_store d src n))"
    and "src_valid (From_ram p)" and "fs_store cb cfg (of_nat d) p n ctx m s = (Ret (e, m'), s')"
  shows "e = FS_SUCCESS"
proof -
  let ?c = "fs_config_at m cfg"
  have d: "n \<noteq> 0" "d \<noteq> 0" "d mod 4 = 0" "unat (cfg_start_addr ?c) \<le> d" "d + 4 * unat n \<le> unat (cfg_end_addr ?c)"
    using assms(5) by simp_all
  have lt: "d + 4 * unat n < 2 ^ 32"
    using d(5) unsigned_less [of "cfg_end_addr ?c", where ?'a = nat] by simp
  have e: "(of_nat d + 4 * ucast n :: u32) = of_nat (d + 4 * unat n)"
    by simp
  have u: "unat (of_nat d :: u32) = d" "unat (of_nat d + 4 * ucast n :: u32) = d + 4 * unat n"
    unfolding e using lt of_nat_inverse [of "d + 4 * unat n" "of_nat (d + 4 * unat n) :: u32"] by (simp add: unat_of_nat, simp del: of_nat_add)
  have "(of_nat d :: u32) AND mask 2 = of_nat d mod 2 ^ 2"
    by (simp only: take_bit_eq_mask [symmetric] take_bit_eq_mod)
  moreover have "unat (of_nat d mod 2 ^ 2 :: u32) = 0"
    using d(3) u(1) by (simp add: unat_mod)
  ultimately have al: "(of_nat d :: u32) AND 3 = 0"
    by (simp add: mask_eq_exp_minus_1 unat_eq_0)
  have nz: "(of_nat d :: u32) \<noteq> 0"
    using u(1) d(2) by (metis unat_0)
  obtain m1 where "fs_enqueue cb \<lparr>op_config = cfg, op_context = ctx, op_code = FS_OP_STORE p (of_nat d) n 0\<rparr> m
      = bnd (if fs_queue m = [] then queue_process cb m1 else ret m1) (\<lambda>m. ret (FS_SUCCESS, m))"
    using enqueue_run [OF assms(1,2)] by metis
  moreover have "fs_store cb cfg (of_nat d) p n ctx m
      = fs_enqueue cb \<lparr>op_config = cfg, op_context = ctx, op_code = FS_OP_STORE p (of_nat d) n 0\<rparr> m"
    using assms(3,4,6) d u al nz by (intro store_accepted) (simp_all add: word_le_nat_alt)
  ultimately show ?thesis
    using assms(7) by (auto simp: bnd_def split: prod.splits outcome.splits)
qed

lemma fs_store_accepted:
  "fs_accepts s \<Longrightarrow> fs_valid (p_start_addr s) (p_end_addr s) (Store (Fs_store d src n)) \<Longrightarrow>
    fs_store_req d src n s = (Ret FS_SUCCESS, s\<lparr>sd_trace := sd_trace s @ [Store (Fs_store d src n)]\<rparr>)"
  by (simp add: fs_store_req_def fs_accepts_def fs_accepts_in_def del: fs_valid.simps)

lemma put_page_id [simp]: "i < length (m_pages s) \<Longrightarrow> put_page i id s = s"
  by (simp add: put_page_def)

definition wop :: "u32 option \<Rightarrow> fds_write_op \<Rightarrow> fds_op" where
  "wop upd w = (case upd of None \<Rightarrow> FDS_OP_WRITE w | Some i \<Rightarrow> FDS_OP_UPDATE w i)"

lemma wop_execute:
  "fds_op_execute r (wop upd w) = bnd (write_execute r upd w) (\<lambda>(e, w). ret (e, wop upd w))"
  by (cases upd) (simp_all add: wop_def fds_op_execute_def)

text \<open>The address at which the operation writes.\<close>

definition write_addr :: "fds_write_op \<Rightarrow> 'w fds_scheme \<Rightarrow> nat" where
  "write_addr w s = page_at (get_page (unat (wr_page w)) s)"

text \<open>An address at which a header has its place in the module's flash.\<close>

definition header_fits :: "'w fds_scheme \<Rightarrow> nat \<Rightarrow> bool" where
  "header_fits s a \<longleftrightarrow> a \<noteq> 0 \<and> a mod 4 = 0 \<and> p_start_addr s \<le> a \<and> a + 12 \<le> p_end_addr s"

text \<open>The request of a step that writes a part of the header, and the step after it.\<close>

fun header_req :: "u32 option \<Rightarrow> fds_write_op \<Rightarrow> nat \<Rightarrow> (call \<times> fds_write_step) option" where
  "header_req upd w a =
     (case wr_step w of
        FDS_OP_WRITE_HEADER_BEGIN \<Rightarrow> Some (Store (Fs_store a (From_words [tl_word (h_tl (wr_header w))]) 1), FDS_OP_WRITE_RECORD_ID)
      | FDS_OP_WRITE_RECORD_ID \<Rightarrow> Some (Store (Fs_store (a + 8) (From_words [record_id (wr_header w)]) 1),
          if wr_chunk_count w \<noteq> 0 then FDS_OP_WRITE_CHUNKS else FDS_OP_WRITE_HEADER_FINALIZE)
      | FDS_OP_WRITE_HEADER_FINALIZE \<Rightarrow> Some (Store (Fs_store (a + 4) (From_words [ic_word (h_ic (wr_header w))]) 1),
          if upd \<noteq> None then FDS_OP_WRITE_FLAG_DIRTY else FDS_OP_WRITE_DONE)
      | _ \<Rightarrow> None)"

lemmas offsets = FDS_OFFSET_TL_def FDS_OFFSET_IC_def FDS_OFFSET_ID_def FDS_OFFSET_DATA_def

lemma write_execute_step:
  fixes s :: "'a fds_scheme"
  assumes "unat (wr_page w) < length (m_pages s)" and "wr_step w \<noteq> FDS_OP_WRITE_FIND_RECORD"
  shows "write_execute FS_SUCCESS upd w s =
     bnd (write_step upd w (write_addr w s)) (\<lambda>(e, w').
       if e \<noteq> FDS_OP_EXECUTING
       then bnd (modify (put_page (unat (wr_page w)) (page_offsets_update (length_words (h_tl (wr_header w)))))) (\<lambda>_. ret (e, w'))
       else ret (e, w')) s"
proof -
  have found: "(case upd of Some i \<Rightarrow> if wr_step w = FDS_OP_WRITE_FIND_RECORD then update_find i else ret True | None \<Rightarrow> ret True)
      = (ret True :: ('a fds_scheme, bool) prog)"
    using assms(2) by (cases upd) simp_all
  show ?thesis
    unfolding write_execute_def Let_def found bnd_ret_left
    using assms(1) by (simp add: bnd_run write_addr_def page_at_def)
qed

lemma header_step:
  assumes "fs_accepts s" and "unat (wr_page w) < length (m_pages s)" and "header_req upd w (write_addr w s) = Some (c, st)"
    and "header_fits s (write_addr w s)"
  shows "write_execute FS_SUCCESS upd w s = (Ret (FDS_OP_EXECUTING, w\<lparr>wr_step := st\<rparr>), s\<lparr>sd_trace := sd_trace s @ [c]\<rparr>)"
proof -
  have "wr_step w \<noteq> FDS_OP_WRITE_FIND_RECORD"
    using assms(3) by auto
  moreover have "(write_addr w s + 8) mod 4 = 0" "(write_addr w s + 4) mod 4 = 0"
    using assms(4) unfolding header_fits_def by presburger+
  ultimately show ?thesis
    using assms
    by (auto simp: header_fits_def write_execute_step write_step_def record_header_write_begin_def record_header_write_id_def
        record_header_write_finalize_def fs_store_accepted bnd_run busy_unless_def offsets FDS_SUCCESS_def FDS_OP_EXECUTING_def
        split: fds_write_step.splits)
qed

text \<open>The same for a chunk.\<close>

lemma chunk_step:
  assumes "fs_accepts s" and "unat (wr_page w) < length (m_pages s)" and st: "wr_step w = FDS_OP_WRITE_CHUNKS"
    and q: "chunk_count s \<noteq> 0" "unat (chunk_rp s) < length (chunk_queue s)" and c: "c = chunk_queue s ! unat (chunk_rp s)"
    and v: "fs_valid (p_start_addr s) (p_end_addr s)
      (Store (Fs_store (write_addr w s + 4 * unat (wr_chunk_offset w)) (From_ram (chunk_data c)) (chunk_length c)))"
    and w': "w' = w\<lparr>wr_chunk_offset := wr_chunk_offset w + chunk_length c, wr_chunk_count := wr_chunk_count w - 1,
                   wr_step := if wr_chunk_count w = 1 then FDS_OP_WRITE_HEADER_FINALIZE else FDS_OP_WRITE_CHUNKS\<rparr>"
  shows "write_execute FS_SUCCESS upd w s = (Ret (FDS_OP_EXECUTING, w'),
     s\<lparr>chunk_rp := (chunk_rp s + 1) mod FDS_CHUNK_QUEUE_SIZE, chunk_count := chunk_count s - 1,
       sd_trace := sd_trace s @ [Store (Fs_store (write_addr w s + 4 * unat (wr_chunk_offset w)) (From_ram (chunk_data c)) (chunk_length c))]\<rparr>)"
proof -
  let ?s = "s\<lparr>chunk_rp := (chunk_rp s + 1) mod FDS_CHUNK_QUEUE_SIZE, chunk_count := chunk_count s - 1\<rparr>"
  have acc: "fs_accepts ?s"
    using assms(1) by (simp add: fs_accepts_def fs_accepts_in_def)
  have v': "fs_valid (p_start_addr ?s) (p_end_addr ?s)
      (Store (Fs_store (write_addr w s + 4 * unat (wr_chunk_offset w)) (From_ram (chunk_data c)) (chunk_length c)))"
    using v by simp
  have "(if wr_chunk_count w - 1 = 0 then FDS_OP_WRITE_HEADER_FINALIZE else FDS_OP_WRITE_CHUNKS)
      = (if wr_chunk_count w = 1 then FDS_OP_WRITE_HEADER_FINALIZE else FDS_OP_WRITE_CHUNKS)"
    by (metis cancel_comm_monoid_add_class.diff_cancel eq_iff_diff_eq_0)
  then show ?thesis
    using assms(2) q c fs_store_accepted [OF acc v']
    by (auto simp: write_execute_step write_step_def record_write_chunk_def chunk_queue_get_and_advance_def Let_def
        bnd_run busy_unless_def FDS_SUCCESS_def FDS_OP_EXECUTING_def w' st)
qed

subsection \<open>Turns\<close>

definition perform_all :: "(u32 \<Rightarrow> u32) \<Rightarrow> call list \<Rightarrow> flash \<Rightarrow> flash" where
  "perform_all ram rs fl = fold (perform ram) rs fl"

text \<open>
  The state in which the current operation has come to \<open>op\<close>, after the requests \<open>rs\<close> of which the last
  is under way.
\<close>

definition working :: "(u32 \<Rightarrow> u32) \<Rightarrow> 'w fds_scheme \<Rightarrow> fds_op \<Rightarrow> call list \<Rightarrow> u32 \<Rightarrow> u32 \<Rightarrow> 'w fds_scheme" where
  "working ram s op rs rp cnt = s\<lparr>op_queue := (op_queue s)[unat (op_rp s) := op], sd_trace := sd_trace s @ rs,
     flash_words := perform_all ram (butlast rs) (flash_words s), chunk_rp := rp, chunk_count := cnt\<rparr>"

text \<open>The same when the last request is done as well.\<close>

definition performed :: "(u32 \<Rightarrow> u32) \<Rightarrow> 'w fds_scheme \<Rightarrow> fds_op \<Rightarrow> call list \<Rightarrow> u32 \<Rightarrow> u32 \<Rightarrow> 'w fds_scheme" where
  "performed ram s op rs rp cnt = (working ram s op rs rp cnt)\<lparr>flash_words := perform_all ram rs (flash_words s)\<rparr>"

lemma working_sel [simp]:
  "m_pages (working ram s op rs rp cnt) = m_pages s" "m_flags (working ram s op rs rp cnt) = m_flags s"
  "sd_env (working ram s op rs rp cnt) = sd_env s" "sd_trace (working ram s op rs rp cnt) = sd_trace s @ rs"
  "chunk_queue (working ram s op rs rp cnt) = chunk_queue s" "chunk_rp (working ram s op rs rp cnt) = rp"
  "chunk_count (working ram s op rs rp cnt) = cnt"
  "flag_is_set f (working ram s op rs rp cnt) = flag_is_set f s"
  by (simp_all add: working_def flag_is_set_def)

lemma performed_sel [simp]:
  "m_pages (performed ram s op rs rp cnt) = m_pages s" "fs_accepts (performed ram s op rs rp cnt) = fs_accepts s"
  "chunk_queue (performed ram s op rs rp cnt) = chunk_queue s" "chunk_rp (performed ram s op rs rp cnt) = rp"
  "chunk_count (performed ram s op rs rp cnt) = cnt" "write_addr w (performed ram s op rs rp cnt) = write_addr w s"
  "get_page i (performed ram s op rs rp cnt) = get_page i s"
  "flash_words (performed ram s op rs rp cnt) = perform_all ram rs (flash_words s)"
  "length (op_queue (performed ram s op rs rp cnt)) = length (op_queue s)" "op_rp (performed ram s op rs rp cnt) = op_rp s"
  "op_count (performed ram s op rs rp cnt) = op_count s" "m_cb_table (performed ram s op rs rp cnt) = m_cb_table s"
  "flag_is_set f (performed ram s op rs rp cnt) = flag_is_set f s" "fds.more (performed ram s op rs rp cnt) = fds.more s"
  "sd_trace (performed ram s op rs rp cnt) = sd_trace s @ rs" "header_fits (performed ram s op rs rp cnt) = header_fits s"
  "p_start_addr (performed ram s op rs rp cnt) = p_start_addr s" "p_end_addr (performed ram s op rs rp cnt) = p_end_addr s"
  by (simp_all add: performed_def working_def fs_accepts_def fs_accepts_in_def write_addr_def get_page_def flag_is_set_def header_fits_def fun_eq_iff)

lemma put_page_sel [simp]:
  "op_queue (put_page i f s) = op_queue s" "op_rp (put_page i f s) = op_rp s" "op_count (put_page i f s) = op_count s"
  "chunk_queue (put_page i f s) = chunk_queue s" "chunk_rp (put_page i f s) = chunk_rp s" "chunk_count (put_page i f s) = chunk_count s"
  "m_cb_table (put_page i f s) = m_cb_table s" "flag_is_set b (put_page i f s) = flag_is_set b s"
  "flash_words (put_page i f s) = flash_words s" "fds.more (put_page i f s) = fds.more s" "sd_trace (put_page i f s) = sd_trace s"
  "p_start_addr (put_page i f s) = p_start_addr s" "p_end_addr (put_page i f s) = p_end_addr s"
  "length (m_pages (put_page i f s)) = length (m_pages s)" "fs_accepts (put_page i f s) = fs_accepts s"
  by (simp_all add: put_page_def flag_is_set_def fs_accepts_def fs_accepts_in_def)

lemma put_page_pages: "i < length (m_pages s) \<Longrightarrow> m_pages (put_page i f s) = (m_pages s)[i := f (m_pages s ! i)]"
  by (simp add: put_page_def)

lemma cur_op_performed:
  "unat (op_rp s) < length (op_queue s) \<Longrightarrow> cur_op (performed ram s op rs rp cnt) = op"
  by (simp add: performed_def working_def cur_op_def)

lemma turn_working:
  assumes "rs \<noteq> []" and "is_fs (last rs)"
  shows "fds_turn ram cb n (working ram s op rs rp cnt) = fds_queue_process cb n FS_SUCCESS (performed ram s op rs rp cnt)"
proof -
  have "last (filter is_fs (sd_trace s @ rs)) = last rs"
    using assms by (induction rs rule: rev_induct) auto
  moreover have "perform ram (last rs) (perform_all ram (butlast rs) fl) = perform_all ram rs fl" for fl
    using assms(1) by (induction rs rule: rev_induct) (auto simp: perform_all_def)
  ultimately have "(working ram s op rs rp cnt)\<lparr>flash_words := perform ram (last (filter is_fs (sd_trace (working ram s op rs rp cnt))))
        (flash_words (working ram s op rs rp cnt))\<rparr> = performed ram s op rs rp cnt"
    by (simp add: performed_def) (simp add: working_def)
  then show ?thesis
    by (simp add: fds_turn_def bnd_run fs_event_handler_def)
qed

lemma process_executing:
  assumes "cur_op s = wop upd w" and "write_execute r upd w s = (Ret (FDS_OP_EXECUTING, w'), s')"
  shows "fds_queue_process cb (Suc n) r s = (Ret (), put_op (wop upd w') s')"
  using assms by (simp add: bnd_run wop_execute)

text \<open>An operation's place: it is the one being executed, its page exists, and the header fits there.\<close>

definition in_place :: "'w fds_scheme \<Rightarrow> fds_write_op \<Rightarrow> bool" where
  "in_place s w \<longleftrightarrow> unat (op_rp s) < length (op_queue s) \<and> fs_accepts s \<and> unat (wr_page w) < length (m_pages s)
     \<and> flag_is_set FDS_FLAG_PROCESSING s \<and> header_fits s (write_addr w s)"

lemma settles_header:
  assumes p: "in_place s w" and rs: "rs \<noteq> []" "is_fs (last rs)" and req: "header_req upd w (write_addr w s) = Some (c, st)"
    and "settles ram cb (Suc n) (working ram s (wop upd (w\<lparr>wr_step := st\<rparr>)) (rs @ [c]) rp cnt) s'"
  shows "settles ram cb (Suc n) (working ram s (wop upd w) rs rp cnt) s'"
proof (rule settles_turn [OF _ _ assms(5)])
  let ?s = "performed ram s (wop upd w) rs rp cnt"
  have "write_execute FS_SUCCESS upd w ?s = (Ret (FDS_OP_EXECUTING, w\<lparr>wr_step := st\<rparr>), ?s\<lparr>sd_trace := sd_trace ?s @ [c]\<rparr>)"
    using p req by (intro header_step) (auto simp: in_place_def)
  then have "fds_queue_process cb (Suc n) FS_SUCCESS ?s = (Ret (), put_op (wop upd (w\<lparr>wr_step := st\<rparr>)) (?s\<lparr>sd_trace := sd_trace ?s @ [c]\<rparr>))"
    using p by (intro process_executing) (simp_all add: cur_op_performed in_place_def)
  also have "\<dots> = (Ret (), working ram s (wop upd (w\<lparr>wr_step := st\<rparr>)) (rs @ [c]) rp cnt)"
    by (simp add: performed_def working_def put_op_def)
  finally show "fds_turn ram cb (Suc n) (working ram s (wop upd w) rs rp cnt)
      = (Ret (), working ram s (wop upd (w\<lparr>wr_step := st\<rparr>)) (rs @ [c]) rp cnt)"
    unfolding turn_working [OF rs] .
qed (use p in \<open>simp add: in_place_def\<close>)

lemma settles_chunk:
  assumes p: "in_place s w" and rs: "rs \<noteq> []" "is_fs (last rs)" and st: "wr_step w = FDS_OP_WRITE_CHUNKS"
    and q: "cnt \<noteq> 0" "unat rp < length (chunk_queue s)" and c: "c = chunk_queue s ! unat rp"
    and v: "fs_valid (p_start_addr s) (p_end_addr s)
      (Store (Fs_store (write_addr w s + 4 * unat (wr_chunk_offset w)) (From_ram (chunk_data c)) (chunk_length c)))"
    and w': "w' = w\<lparr>wr_chunk_offset := wr_chunk_offset w + chunk_length c, wr_chunk_count := wr_chunk_count w - 1,
                   wr_step := if wr_chunk_count w = 1 then FDS_OP_WRITE_HEADER_FINALIZE else FDS_OP_WRITE_CHUNKS\<rparr>"
    and "settles ram cb (Suc n) (working ram s (wop upd w')
          (rs @ [Store (Fs_store (write_addr w s + 4 * unat (wr_chunk_offset w)) (From_ram (chunk_data c)) (chunk_length c))])
          ((rp + 1) mod FDS_CHUNK_QUEUE_SIZE) (cnt - 1)) s'"
  shows "settles ram cb (Suc n) (working ram s (wop upd w) rs rp cnt) s'"
proof (rule settles_turn [OF _ _ assms(10)])
  let ?s = "performed ram s (wop upd w) rs rp cnt"
  let ?c = "Store (Fs_store (write_addr w s + 4 * unat (wr_chunk_offset w)) (From_ram (chunk_data c)) (chunk_length c))"
  have "write_execute FS_SUCCESS upd w ?s = (Ret (FDS_OP_EXECUTING, w'),
     ?s\<lparr>chunk_rp := (chunk_rp ?s + 1) mod FDS_CHUNK_QUEUE_SIZE, chunk_count := chunk_count ?s - 1, sd_trace := sd_trace ?s @ [?c]\<rparr>)"
    using p st q c w' v chunk_step [of ?s w c w' upd] by (simp add: in_place_def del: fs_valid.simps)
  then have "fds_queue_process cb (Suc n) FS_SUCCESS ?s = (Ret (), put_op (wop upd w')
     (?s\<lparr>chunk_rp := (rp + 1) mod FDS_CHUNK_QUEUE_SIZE, chunk_count := cnt - 1, sd_trace := sd_trace ?s @ [?c]\<rparr>))"
    using p by (intro process_executing) (simp_all add: cur_op_performed in_place_def)
  also have "\<dots> = (Ret (), working ram s (wop upd w') (rs @ [?c]) ((rp + 1) mod FDS_CHUNK_QUEUE_SIZE) (cnt - 1))"
    by (simp add: performed_def working_def put_op_def)
  finally show "fds_turn ram cb (Suc n) (working ram s (wop upd w) rs rp cnt)
      = (Ret (), working ram s (wop upd w') (rs @ [?c]) ((rp + 1) mod FDS_CHUNK_QUEUE_SIZE) (cnt - 1))"
    unfolding turn_working [OF rs] .
qed (use p in \<open>simp add: in_place_def\<close>)

subsection \<open>Chunks\<close>

primrec chunk_reqs :: "nat \<Rightarrow> u16 \<Rightarrow> fds_record_chunk list \<Rightarrow> call list" where
  "chunk_reqs a off [] = []"
| "chunk_reqs a off (c # cs) =
     Store (Fs_store (a + 4 * unat off) (From_ram (chunk_data c)) (chunk_length c)) # chunk_reqs a (off + chunk_length c) cs"

lemma chunk_reqs_fs: "cs \<noteq> [] \<Longrightarrow> chunk_reqs a off cs \<noteq> [] \<and> is_fs (last (chunk_reqs a off cs))"
proof (induction cs arbitrary: off)
  case (Cons c cs)
  then show ?case
    by (cases "cs = []") simp_all
qed simp

definition chunks_at :: "fds_record_chunk list \<Rightarrow> u32 \<Rightarrow> fds_record_chunk list \<Rightarrow> bool" where
  "chunks_at q rp cs \<longleftrightarrow> length q = 8 \<and> unat rp < 8 \<and> (\<forall>i < length cs. q ! ((unat rp + i) mod 8) = cs ! i)"

lemma ring_succ: "unat rp < 8 \<Longrightarrow> unat ((rp + 1) mod FDS_CHUNK_QUEUE_SIZE) = (unat rp + 1) mod 8" for rp :: u32
  by (simp add: FDS_CHUNK_QUEUE_SIZE_def unat_mod unat_word_ariths)

lemma chunks_at_Cons:
  assumes "chunks_at q rp (c # cs)"
  shows "q ! unat rp = c" and "chunks_at q ((rp + 1) mod FDS_CHUNK_QUEUE_SIZE) cs"
proof -
  have rp: "unat rp < 8" and at: "\<forall>i < Suc (length cs). q ! ((unat rp + i) mod 8) = (c # cs) ! i"
    using assms by (simp_all add: chunks_at_def)
  show "q ! unat rp = c"
    using at [rule_format, of 0] rp by simp
  have "q ! (((unat rp + 1) mod 8 + i) mod 8) = cs ! i" if "i < length cs" for i
    using at [rule_format, of "Suc i"] that by (simp add: mod_simps)
  then show "chunks_at q ((rp + 1) mod FDS_CHUNK_QUEUE_SIZE) cs"
    using assms ring_succ [OF rp] by (simp add: chunks_at_def)
qed

definition rp_end :: "u32 \<Rightarrow> fds_record_chunk list \<Rightarrow> u32" where
  "rp_end rp cs = foldl (\<lambda>r _. (r + 1) mod FDS_CHUNK_QUEUE_SIZE) rp cs"

definition chunks_done :: "fds_write_step \<Rightarrow> fds_record_chunk list \<Rightarrow> fds_write_op \<Rightarrow> fds_write_op" where
  "chunks_done st cs w = w\<lparr>wr_chunk_offset := foldl (\<lambda>l c. l + chunk_length c) (wr_chunk_offset w) cs, wr_chunk_count := 0, wr_step := st\<rparr>"

lemma rp_end_ring: "unat rp < 8 \<Longrightarrow> unat (rp_end rp cs) < 8"
  unfolding rp_end_def by (induction cs arbitrary: rp) (simp_all add: ring_succ)

lemma settles_chunks:
  assumes "in_place s w" and "rs \<noteq> []" "is_fs (last rs)" and "wr_step w = FDS_OP_WRITE_CHUNKS"
    and "cs \<noteq> []" "length cs \<le> 8" and "wr_chunk_count w = of_nat (length cs)" "cnt = of_nat (length cs)"
    and "chunks_at (chunk_queue s) rp cs"
    and "list_all (fs_valid (p_start_addr s) (p_end_addr s)) (chunk_reqs (write_addr w s) (wr_chunk_offset w) cs)"
    and "settles ram cb (Suc n) (working ram s (wop upd (chunks_done FDS_OP_WRITE_HEADER_FINALIZE cs w))
      (rs @ chunk_reqs (write_addr w s) (wr_chunk_offset w) cs) (rp_end rp cs) 0) s'"
  shows "settles ram cb (Suc n) (working ram s (wop upd w) rs rp cnt) s'"
  using assms
proof (induction cs arbitrary: w rs rp cnt)
  case (Cons c cs)
  let ?w = "w\<lparr>wr_chunk_offset := wr_chunk_offset w + chunk_length c, wr_chunk_count := wr_chunk_count w - 1,
              wr_step := if wr_chunk_count w = 1 then FDS_OP_WRITE_HEADER_FINALIZE else FDS_OP_WRITE_CHUNKS\<rparr>"
  let ?r = "Store (Fs_store (write_addr w s + 4 * unat (wr_chunk_offset w)) (From_ram (chunk_data c)) (chunk_length c))"
  let ?rp = "(rp + 1) mod FDS_CHUNK_QUEUE_SIZE"
  have cnt: "cnt \<noteq> 0" and rp: "unat rp < length (chunk_queue s)" and c: "c = chunk_queue s ! unat rp"
    using Cons.prems(6,8,9) chunks_at_Cons(1) [OF Cons.prems(9)]
    by (auto simp: chunks_at_def unat_eq_0 [symmetric] unat_word_ariths unat_of_nat simp del: unat_eq_0 of_nat_Suc)
  have place: "in_place s ?w" and addr: "write_addr ?w s = write_addr w s"
    using Cons.prems(1) by (simp_all add: in_place_def write_addr_def)
  have fin: "chunks_done FDS_OP_WRITE_HEADER_FINALIZE cs ?w = chunks_done FDS_OP_WRITE_HEADER_FINALIZE (c # cs) w"
    and rpe: "rp_end ?rp cs = rp_end rp (c # cs)"
    by (simp_all add: chunks_done_def rp_end_def)
  have "settles ram cb (Suc n) (working ram s (wop upd ?w) (rs @ [?r]) ?rp (cnt - 1)) s'"
  proof (cases "cs = []")
    case True
    then show ?thesis
      using Cons.prems(7,8,11) by (simp add: chunks_done_def rp_end_def)
  next
    case False
    have one: "wr_chunk_count w \<noteq> 1"
      using Cons.prems(6,7) False
      by (cases cs) (auto simp: word_unat_eq_iff unat_word_ariths unat_of_nat simp del: of_nat_Suc)
    show ?thesis
    proof (rule Cons.IH [OF place])
      show "chunks_at (chunk_queue s) ?rp cs"
        by (rule chunks_at_Cons(2) [OF Cons.prems(9)])
      show "settles ram cb (Suc n) (working ram s (wop upd (chunks_done FDS_OP_WRITE_HEADER_FINALIZE cs ?w))
          ((rs @ [?r]) @ chunk_reqs (write_addr ?w s) (wr_chunk_offset ?w) cs) (rp_end ?rp cs) 0) s'"
        unfolding fin rpe addr using Cons.prems(11) by simp
      show "list_all (fs_valid (p_start_addr s) (p_end_addr s)) (chunk_reqs (write_addr ?w s) (wr_chunk_offset ?w) cs)"
        unfolding addr using Cons.prems(10) by simp
    qed (use Cons.prems(6,7,8) one False in simp_all)
  qed
  then show ?case
    using Cons.prems(10) by (intro settles_chunk [OF Cons.prems(1,2,3,4) cnt rp c _ refl]) simp_all
qed simp

lemma put_chunks_ring:
  assumes "length q = 8" and "idx < 8" and "length cs \<le> 8"
  shows "length (put_chunks cs idx q) = 8" and "\<forall>i < length cs. put_chunks cs idx q ! ((idx + i) mod 8) = cs ! i"
proof -
  have "case foldl (\<lambda>(q, dst) c. (q[dst := c], chunk_queue_next dst)) (q, idx) (take m cs) of
      (q', dst) \<Rightarrow> length q' = 8 \<and> dst = (idx + m) mod 8 \<and> (\<forall>i < m. q' ! ((idx + i) mod 8) = cs ! i)"
    if "m \<le> length cs" for m
    using that
  proof (induction m)
    case 0
    then show ?case
      using assms by simp
  next
    case (Suc m)
    obtain q' dst where f: "foldl (\<lambda>(q, dst) c. (q[dst := c], chunk_queue_next dst)) (q, idx) (take m cs) = (q', dst)"
      by fastforce
    with Suc have ih: "length q' = 8" "dst = (idx + m) mod 8" "\<forall>i < m. q' ! ((idx + i) mod 8) = cs ! i"
      by simp_all
    have "chunk_queue_next dst = (idx + Suc m) mod 8"
      using ih(2) by (simp add: chunk_queue_next_def FDS_CHUNK_QUEUE_SIZE_def mod_Suc)
    moreover have "q'[dst := cs ! m] ! ((idx + i) mod 8) = cs ! i" if "i < Suc m" for i
    proof (cases "i = m")
      case False
      then have "i < m" and "m - i < 8"
        using that Suc.prems assms(3) by auto
      then have "(idx + i) mod 8 \<noteq> (idx + m) mod 8"
        using mod_eq_dvd_iff_nat [of "idx + i" "idx + m" 8] by (auto dest!: dvd_imp_le)
      then show ?thesis
        using ih \<open>i < m\<close> by simp
    qed (use ih in simp)
    ultimately show ?case
      using f ih Suc.prems by (simp add: take_Suc_conv_app_nth)
  qed
  from this [of "length cs"] show "length (put_chunks cs idx q) = 8" and "\<forall>i < length cs. put_chunks cs idx q ! ((idx + i) mod 8) = cs ! i"
    by (auto simp: put_chunks_def split: prod.splits)
qed

subsection \<open>The end of an operation\<close>

text \<open>The only operation in the queue has ended: its event is sent, the queue becomes empty.\<close>

definition conclude :: "(fnptr \<Rightarrow> fds_evt \<Rightarrow> 'w \<Rightarrow> 'w) \<Rightarrow> fds_op \<Rightarrow> 'w fds_scheme \<Rightarrow> 'w fds_scheme" where
  "conclude u p_op s = s\<lparr>op_queue := (op_queue s)[unat (op_rp s) := FDS_OP_NONE], op_rp := (op_rp s + 1) mod FDS_OP_QUEUE_SIZE,
     op_count := 0, m_flags := m_flags s AND NOT FDS_FLAG_PROCESSING,
     fds.more := notify u (m_cb_table s) \<lparr>evt_id = event_prepare p_op, evt_result = FDS_SUCCESS\<rparr> (fds.more s)\<rparr>"

lemma process_completed:
  assumes "fds_op_execute r (cur_op s) s = (Ret (FDS_OP_COMPLETED, p_op), s')"
    and "op_count s' = 1" and "length (m_cb_table s') = FDS_MAX_USERS"
  shows "fds_queue_process (user_cb u) (Suc n) r s = (Ret (), conclude u p_op s')"
proof -
  have "event_send (user_cb u) e (put_op p_op s') = (Ret (), fds.more_update (notify u (m_cb_table s') e) (put_op p_op s'))" for e
    using event_send_user [of "put_op p_op s'" u e] assms(3) by (simp add: put_op_def)
  then show ?thesis
    using assms(1,2)
    by (simp add: bnd_run FDS_OP_COMPLETED_def FDS_OP_EXECUTING_def fds_queue_advance_def put_op_def Let_def conclude_def flag_clear_def)
qed

lemma conclude_sel [simp]:
  "flash_words (conclude u p_op s) = flash_words s" "m_pages (conclude u p_op s) = m_pages s"
  "sd_trace (conclude u p_op s) = sd_trace s" "sd_env (conclude u p_op s) = sd_env s"
  "op_count (conclude u p_op s) = 0" "chunk_count (conclude u p_op s) = chunk_count s" "chunk_rp (conclude u p_op s) = chunk_rp s"
  "chunk_queue (conclude u p_op s) = chunk_queue s" "m_cb_table (conclude u p_op s) = m_cb_table s" "m_gc (conclude u p_op s) = m_gc s"
  "m_swap_page (conclude u p_op s) = m_swap_page s" "m_latest_rec_id (conclude u p_op s) = m_latest_rec_id s"
  "out_of_bounds (conclude u p_op s) = out_of_bounds s" "length (op_queue (conclude u p_op s)) = length (op_queue s)"
  "fds.more (conclude u p_op s) = notify u (m_cb_table s) \<lparr>evt_id = event_prepare p_op, evt_result = FDS_SUCCESS\<rparr> (fds.more s)"
  "p_start_addr (conclude u p_op s) = p_start_addr s" "p_end_addr (conclude u p_op s) = p_end_addr s"
  by (simp_all add: conclude_def)

lemma conclude_flags [simp]:
  "\<not> flag_is_set FDS_FLAG_PROCESSING (conclude u p_op s)"
  "flag_is_set FDS_FLAG_INITIALIZED (conclude u p_op s) = flag_is_set FDS_FLAG_INITIALIZED s"
  by (simp_all add: fds_flag_bits conclude_def flags_bit bit_or_iff bit_and_iff bit_not_iff)

text \<open>The module rests between operations.\<close>

definition fds_ready :: "'w fds_scheme \<Rightarrow> bool" where
  "fds_ready s \<longleftrightarrow> flag_is_set FDS_FLAG_INITIALIZED s \<and> \<not> flag_is_set FDS_FLAG_PROCESSING s \<and> op_count s = 0
     \<and> length (op_queue s) = 4 \<and> unat (op_rp s) < 4 \<and> chunk_count s = 0 \<and> length (chunk_queue s) = 8 \<and> unat (chunk_rp s) < 8
     \<and> length (m_pages s) = FDS_MAX_PAGES \<and> length (m_cb_table s) = FDS_MAX_USERS"

lemma conclude_ready:
  assumes "flag_is_set FDS_FLAG_INITIALIZED s" and "length (op_queue s) = 4" and "unat (op_rp s) < 4" and "chunk_count s = 0"
    and "length (chunk_queue s) = 8" and "unat (chunk_rp s) < 8" and "length (m_pages s) = FDS_MAX_PAGES"
    and "length (m_cb_table s) = FDS_MAX_USERS"
  shows "fds_ready (conclude u p_op s)"
proof -
  have "unat ((op_rp s + 1) mod FDS_OP_QUEUE_SIZE) < 4"
    by (simp add: FDS_OP_QUEUE_SIZE_def unat_mod)
  then show ?thesis
    using assms by (simp add: fds_ready_def) (simp add: conclude_def)
qed

lemma settles_write_done:
  assumes p: "in_place s w" and rs: "rs \<noteq> []" "is_fs (last rs)" and st: "wr_step w = FDS_OP_WRITE_DONE"
    and one: "op_count s = 1" and users: "length (m_cb_table s) = FDS_MAX_USERS"
  shows "settles ram (user_cb u) (Suc n) (working ram s (wop upd w) rs rp cnt)
     (conclude u (wop upd w) (put_page (unat (wr_page w)) (page_offsets_update (length_words (h_tl (wr_header w)))) (performed ram s (wop upd w) rs rp cnt)))"
    (is "settles _ _ _ ?t (conclude u _ ?s')")
proof (rule settles_turn)
  let ?s = "performed ram s (wop upd w) rs rp cnt"
  have "write_execute FS_SUCCESS upd w ?s = (Ret (FDS_OP_COMPLETED, w), ?s')"
    using p st by (subst write_execute_step) (simp_all add: in_place_def write_step_def bnd_run FDS_OP_COMPLETED_def FDS_OP_EXECUTING_def)
  then have "fds_op_execute FS_SUCCESS (cur_op ?s) ?s = (Ret (FDS_OP_COMPLETED, wop upd w), ?s')"
    using p by (simp add: cur_op_performed in_place_def wop_execute bnd_run)
  then have "fds_queue_process (user_cb u) (Suc n) FS_SUCCESS ?s = (Ret (), conclude u (wop upd w) ?s')"
    using one users by (intro process_completed) (simp_all add: put_page_def performed_def working_def)
  then show "fds_turn ram (user_cb u) (Suc n) ?t = (Ret (), conclude u (wop upd w) ?s')"
    unfolding turn_working [OF rs] .
qed (use p in \<open>simp_all add: in_place_def settles_rest\<close>)

subsection \<open>Writing a record\<close>

definition new_header :: "fds_record \<Rightarrow> 'w fds_scheme \<Rightarrow> fds_header" where
  "new_header r s = \<lparr>h_tl = \<lparr>record_key = rec_key r, length_words = record_length (rec_chunks r)\<rparr>,
     h_ic = \<lparr>file_id = rec_file_id r, crc16 = 0\<rparr>, record_id = m_latest_rec_id s + 1\<rparr>"

definition write_reqs :: "nat \<Rightarrow> fds_header \<Rightarrow> fds_record_chunk list \<Rightarrow> call list" where
  "write_reqs a h cs =
     [Store (Fs_store a (From_words [tl_word (h_tl h)]) 1), Store (Fs_store (a + 8) (From_words [record_id h]) 1)]
     @ chunk_reqs a FDS_OFFSET_DATA cs @ [Store (Fs_store (a + 4) (From_words [ic_word (h_ic h)]) 1)]"

text \<open>A write under way, from the step after its first request.\<close>

lemma settles_write:
  assumes p: "in_place s w" and st: "wr_step w = FDS_OP_WRITE_RECORD_ID" and cs: "length cs \<le> 8"
    and num: "wr_chunk_count w = of_nat (length cs)" "cnt = of_nat (length cs)" and off: "wr_chunk_offset w = FDS_OFFSET_DATA"
    and ring: "chunks_at (chunk_queue s) rp cs"
    and valid: "list_all (fs_valid (p_start_addr s) (p_end_addr s)) (chunk_reqs (write_addr w s) FDS_OFFSET_DATA cs)"
    and fin: "settles ram cb (Suc n) (working ram s (wop upd (chunks_done (if upd = None then FDS_OP_WRITE_DONE else FDS_OP_WRITE_FLAG_DIRTY) cs w))
        (write_reqs (write_addr w s) (wr_header w) cs) (rp_end rp cs) 0) s'"
  shows "settles ram cb (Suc n)
      (working ram s (wop upd w) [Store (Fs_store (write_addr w s) (From_words [tl_word (h_tl (wr_header w))]) 1)] rp cnt) s'"
proof -
  let ?a = "write_addr w s"
  let ?tl = "Store (Fs_store ?a (From_words [tl_word (h_tl (wr_header w))]) 1)"
  let ?id = "Store (Fs_store (?a + 8) (From_words [record_id (wr_header w)]) 1)"
  let ?st = "if wr_chunk_count w \<noteq> 0 then FDS_OP_WRITE_CHUNKS else FDS_OP_WRITE_HEADER_FINALIZE"
  let ?fw = "chunks_done FDS_OP_WRITE_HEADER_FINALIZE cs w"
  have place: "in_place s ?fw" "in_place s (w\<lparr>wr_step := ?st\<rparr>)"
    using p by (simp_all add: in_place_def chunks_done_def write_addr_def)
  have final: "settles ram cb (Suc n) (working ram s (wop upd ?fw) ([?tl, ?id] @ chunk_reqs ?a FDS_OFFSET_DATA cs) (rp_end rp cs) 0) s'"
  proof (rule settles_header [OF place(1)])
    show "is_fs (last ([?tl, ?id] @ chunk_reqs ?a FDS_OFFSET_DATA cs))"
      using chunk_reqs_fs [of cs ?a FDS_OFFSET_DATA] by (cases "cs = []") simp_all
    show "header_req upd ?fw (write_addr ?fw s) =
        Some (Store (Fs_store (?a + 4) (From_words [ic_word (h_ic (wr_header w))]) 1), if upd \<noteq> None then FDS_OP_WRITE_FLAG_DIRTY else FDS_OP_WRITE_DONE)"
      by (simp add: chunks_done_def write_addr_def)
    show "settles ram cb (Suc n) (working ram s (wop upd (?fw\<lparr>wr_step := if upd \<noteq> None then FDS_OP_WRITE_FLAG_DIRTY else FDS_OP_WRITE_DONE\<rparr>))
        (([?tl, ?id] @ chunk_reqs ?a FDS_OFFSET_DATA cs) @ [Store (Fs_store (?a + 4) (From_words [ic_word (h_ic (wr_header w))]) 1)]) (rp_end rp cs) 0) s'"
      using fin by (cases upd) (simp_all add: write_reqs_def chunks_done_def)
  qed simp
  have nxt: "settles ram cb (Suc n) (working ram s (wop upd (w\<lparr>wr_step := ?st\<rparr>)) ([?tl] @ [?id]) rp cnt) s'"
  proof (cases "cs = []")
    case True
    then have "?fw = w\<lparr>wr_step := ?st\<rparr>"
      using num by (cases w) (simp add: chunks_done_def)
    then show ?thesis
      using True final num(2) by (simp add: rp_end_def)
  next
    case False
    then have nz: "wr_chunk_count w \<noteq> 0"
      using num(1) cs by (auto simp: word_unat_eq_iff unat_of_nat)
    show ?thesis
    proof (rule settles_chunks [OF place(2)])
      show "chunks_at (chunk_queue s) rp cs" by (rule ring)
      show "list_all (fs_valid (p_start_addr s) (p_end_addr s))
          (chunk_reqs (write_addr (w\<lparr>wr_step := ?st\<rparr>) s) (wr_chunk_offset (w\<lparr>wr_step := ?st\<rparr>)) cs)"
        using valid off by (simp add: write_addr_def)
      have "chunks_done FDS_OP_WRITE_HEADER_FINALIZE cs (w\<lparr>wr_step := ?st\<rparr>) = ?fw"
        by (simp add: chunks_done_def)
      moreover have "write_addr (w\<lparr>wr_step := ?st\<rparr>) s = ?a"
        by (simp add: write_addr_def)
      ultimately show "settles ram cb (Suc n) (working ram s (wop upd (chunks_done FDS_OP_WRITE_HEADER_FINALIZE cs (w\<lparr>wr_step := ?st\<rparr>)))
          (([?tl] @ [?id]) @ chunk_reqs (write_addr (w\<lparr>wr_step := ?st\<rparr>) s) (wr_chunk_offset (w\<lparr>wr_step := ?st\<rparr>)) cs) (rp_end rp cs) 0) s'"
        using final off by simp
    qed (use nz cs num False in simp_all)
  qed
  show ?thesis
    by (rule settles_header [OF p _ _ _ nxt]) (simp_all add: st)
qed

subsection \<open>The requests of a write, as words\<close>

definition chunk_words :: "(u32 \<Rightarrow> u32) \<Rightarrow> fds_record_chunk \<Rightarrow> u32 list" where
  "chunk_words ram c = map (\<lambda>j. ram (chunk_data c + 4 * of_nat j)) [0..<unat (chunk_length c)]"

definition data_words :: "(u32 \<Rightarrow> u32) \<Rightarrow> fds_record_chunk list \<Rightarrow> u32 list" where
  "data_words ram cs = concat (map (chunk_words ram) cs)"

lemma length_data_words: "length (data_words ram cs) = sum_list (map (\<lambda>c. unat (chunk_length c)) cs)"
  by (induction cs) (simp_all add: data_words_def chunk_words_def)

lemma sum_lengths:
  "unat l + sum_list (map (\<lambda>c. unat (chunk_length c)) cs) < 2 ^ 16 \<Longrightarrow>
   unat (foldl (\<lambda>l c. l + chunk_length c) l cs) = unat l + sum_list (map (\<lambda>c. unat (chunk_length c)) cs)"
proof (induction cs arbitrary: l)
  case (Cons c cs)
  have "unat (l + chunk_length c) = unat l + unat (chunk_length c)"
    using Cons.prems by (simp add: unat_word_ariths)
  then show ?case
    using Cons.IH [of "l + chunk_length c"] Cons.prems by simp
qed simp

lemma record_length_data: "length (data_words ram cs) < 2 ^ 16 \<Longrightarrow> unat (record_length cs) = length (data_words ram cs)"
  using sum_lengths [of 0 cs] by (simp add: record_length_def length_data_words)

lemma map_words_append:
  "map (\<lambda>i. (p + 4 * i, (xs @ ys) ! i)) [0..<length xs + length ys]
   = map (\<lambda>i. (p + 4 * i, xs ! i)) [0..<length xs] @ map (\<lambda>i. (p + 4 * length xs + 4 * i, ys ! i)) [0..<length ys]"
  for p :: nat
  by (rule nth_equalityI) (auto simp: nth_append add.assoc)

lemma chunk_stores:
  assumes "unat off + length (data_words ram cs) < 2 ^ 16"
  shows "concat (map (stores_of ram fl) (chunk_reqs a off cs))
    = map (\<lambda>i. (a + 4 * unat off + 4 * i, data_words ram cs ! i)) [0..<length (data_words ram cs)]"
  using assms
proof (induction cs arbitrary: off)
  case Nil
  then show ?case
    by (simp add: data_words_def)
next
  case (Cons c cs)
  have d: "data_words ram (c # cs) = chunk_words ram c @ data_words ram cs" and l: "length (chunk_words ram c) = unat (chunk_length c)"
    by (simp_all add: data_words_def chunk_words_def)
  have off: "unat (off + chunk_length c) = unat off + unat (chunk_length c)"
    using Cons.prems by (simp add: d l unat_word_ariths)
  have "stores_of ram fl (Store (Fs_store (a + 4 * unat off) (From_ram (chunk_data c)) (chunk_length c)))
      = map (\<lambda>i. (a + 4 * unat off + 4 * i, chunk_words ram c ! i)) [0..<length (chunk_words ram c)]"
    by (auto simp: src_word_def chunk_words_def)
  moreover have "concat (map (stores_of ram fl) (chunk_reqs a (off + chunk_length c) cs))
      = map (\<lambda>i. (a + 4 * unat (off + chunk_length c) + 4 * i, data_words ram cs ! i)) [0..<length (data_words ram cs)]"
    using Cons.prems off by (intro Cons.IH) (simp add: d l)
  ultimately show ?case
    using map_words_append [of "a + 4 * unat off" "chunk_words ram c" "data_words ram cs"]
    by (simp add: d l off distrib_left add.assoc)
qed

lemma write_stores:
  assumes "length (data_words ram cs) < 256"
  shows "concat (map (stores_of ram fl) (write_reqs a h cs)) = record_words a h (data_words ram cs)"
proof -
  have "unat FDS_OFFSET_DATA = 3"
    by (simp add: FDS_OFFSET_DATA_def)
  then show ?thesis
    using chunk_stores [of FDS_OFFSET_DATA ram cs fl a] assms by (simp add: write_reqs_def src_word_def record_words_def)
qed

text \<open>Requests that do not read flash store the same words whatever flash holds.\<close>

fun from_ram :: "call \<Rightarrow> bool" where
  "from_ram (Store (Fs_store d (From_flash p) n)) = False"
| "from_ram (Store (Fs_store d src n)) = True"
| "from_ram _ = False"

lemma perform_ram: "from_ram c \<Longrightarrow> perform ram c fl = foldl program fl (stores_of ram fl' c)"
  by (cases c rule: from_ram.cases) (simp_all add: src_word_def)

lemma perform_all_ram:
  "list_all from_ram rs \<Longrightarrow> perform_all ram rs fl = foldl program fl (concat (map (stores_of ram fl') rs))"
  by (induction rs arbitrary: fl) (simp_all add: perform_all_def perform_ram [where fl' = fl'])

lemma write_reqs_ram: "list_all from_ram (write_reqs a h cs)"
proof -
  have "list_all from_ram (chunk_reqs a off cs)" for off
    by (induction cs arbitrary: off) simp_all
  then show ?thesis
    by (simp add: write_reqs_def)
qed

lemma write_program:
  "length (data_words ram cs) < 256 \<Longrightarrow>
   perform_all ram (write_reqs a h cs) fl = foldl program fl (record_words a h (data_words ram cs))"
  using perform_all_ram [OF write_reqs_ram, of ram a h cs fl fl] write_stores [of ram cs fl a h] by simp

subsection \<open>The start of a write\<close>

text \<open>The state in which a new write is the only queued operation and is being processed.\<close>

definition write_queued :: "'w fds_scheme \<Rightarrow> nat \<Rightarrow> fds_record \<Rightarrow> fds_op \<Rightarrow> 'w fds_scheme" where
  "write_queued s i r op = s\<lparr>m_pages := (m_pages s)[i := (m_pages s ! i)\<lparr>words_reserved :=
       words_reserved (m_pages s ! i) + (record_length (rec_chunks r) + of_nat FDS_HEADER_SIZE)\<rparr>],
     m_latest_rec_id := m_latest_rec_id s + 1, op_queue := (op_queue s)[unat (op_rp s) := op], op_count := 1,
     chunk_queue := put_chunks (rec_chunks r) (unat (chunk_rp s)) (chunk_queue s), chunk_count := of_nat (length (rec_chunks r)),
     m_flags := m_flags s OR FDS_FLAG_PROCESSING\<rparr>"

definition new_write :: "'w fds_scheme \<Rightarrow> nat \<Rightarrow> fds_record \<Rightarrow> fds_write_step \<Rightarrow> fds_write_op" where
  "new_write s i r st = \<lparr>wr_header = new_header r s, wr_step = st, wr_page = of_nat i, wr_chunk_offset = FDS_OFFSET_DATA,
     wr_chunk_count = of_nat (length (rec_chunks r))\<rparr>"

text \<open>The page on which space is reserved.\<close>

definition has_room :: "'w fds_scheme \<Rightarrow> fds_record \<Rightarrow> nat \<Rightarrow> bool" where
  "has_room s r i \<longleftrightarrow> pg_type (get_page i s) = FDS_PAGE_DATA \<and> page_has_space (get_page i s) (record_length (rec_chunks r) + of_nat FDS_HEADER_SIZE)"

text \<open>
  A record that can be written: an admissible file and key, at most eight chunks, none of them empty and
  each of them at an aligned address that is not \<^verbatim>\<open>NULL\<close>, and no more words than a page has room for.
\<close>

definition record_ok :: "fds_record \<Rightarrow> bool" where
  "record_ok r \<longleftrightarrow> rec_file_id r \<noteq> FDS_FILE_ID_INVALID \<and> rec_key r \<noteq> FDS_RECORD_KEY_DIRTY \<and> chunk_is_aligned (rec_chunks r)
     \<and> (\<forall>c \<in> set (rec_chunks r). chunk_data c \<noteq> 0 \<and> chunk_length c \<noteq> 0)
     \<and> length (rec_chunks r) \<le> 8 \<and> sum_list (map (\<lambda>c. unat (chunk_length c)) (rec_chunks r)) < 251"

lemma record_ok_length:
  assumes "record_ok r"
  shows "unat (record_length (rec_chunks r)) = sum_list (map (\<lambda>c. unat (chunk_length c)) (rec_chunks r))"
  using assms sum_lengths [of 0 "rec_chunks r"] by (simp add: record_ok_def record_length_def)

lemma reserve_page:
  assumes "record_ok r" and "find (has_room s r) [0..<FDS_MAX_PAGES] = Some i" and "length (m_pages s) = FDS_MAX_PAGES"
  shows "write_space_reserve (record_length (rec_chunks r)) s = (Ret (Inr (of_nat i)),
     s\<lparr>m_pages := (m_pages s)[i := (m_pages s ! i)\<lparr>words_reserved :=
       words_reserved (m_pages s ! i) + (record_length (rec_chunks r) + of_nat FDS_HEADER_SIZE)\<rparr>]\<rparr>)"
proof -
  have "i < FDS_MAX_PAGES"
    using assms(2) by (auto simp: find_Some_iff)
  moreover have "unat (record_length (rec_chunks r) + of_nat FDS_HEADER_SIZE) < FDS_PAGE_SIZE - FDS_PAGE_TAG_SIZE"
    using record_ok_length [OF assms(1)] assms(1)
    by (simp add: record_ok_def unat_word_ariths FDS_HEADER_SIZE_def FDS_PAGE_SIZE_def FDS_PAGE_TAG_SIZE_def)
  ultimately show ?thesis
    using assms(2,3) unfolding write_space_reserve_def Let_def has_room_def [abs_def]
    by (simp add: bnd_run put_page_def not_le [symmetric])
qed

lemma write_queued_sel [simp]:
  "op_rp (write_queued s i r op) = op_rp s" "op_count (write_queued s i r op) = 1" "sd_env (write_queued s i r op) = sd_env s"
  "sd_trace (write_queued s i r op) = sd_trace s" "m_cb_table (write_queued s i r op) = m_cb_table s"
  "flash_words (write_queued s i r op) = flash_words s" "chunk_rp (write_queued s i r op) = chunk_rp s"
  "chunk_count (write_queued s i r op) = of_nat (length (rec_chunks r))" "fds.more (write_queued s i r op) = fds.more s"
  "chunk_queue (write_queued s i r op) = put_chunks (rec_chunks r) (unat (chunk_rp s)) (chunk_queue s)"
  "length (m_pages (write_queued s i r op)) = length (m_pages s)" "length (op_queue (write_queued s i r op)) = length (op_queue s)"
  "flag_is_set FDS_FLAG_PROCESSING (write_queued s i r op)" "fs_accepts (write_queued s i r op) = fs_accepts s"
  "flag_is_set FDS_FLAG_INITIALIZED (write_queued s i r op) = flag_is_set FDS_FLAG_INITIALIZED s"
  "p_start_addr (write_queued s i r op) = p_start_addr s" "p_end_addr (write_queued s i r op) = p_end_addr s"
  "header_fits (write_queued s i r op) = header_fits s"
  by (simp_all add: write_queued_def fs_accepts_def fs_accepts_in_def header_fits_def fun_eq_iff fds_flag_bits flags_bit bit_or_iff)

lemma write_queued_op: "unat (op_rp s) < length (op_queue s) \<Longrightarrow> cur_op (write_queued s i r op) = op"
  by (simp add: write_queued_def cur_op_def)

lemma page_index: "i < FDS_MAX_PAGES \<Longrightarrow> unat (of_nat i :: u16) = i"
  by (simp add: unat_of_nat FDS_MAX_PAGES_def FDS_VIRTUAL_PAGES_def)

lemma write_addr_queued:
  assumes "i < FDS_MAX_PAGES" and "length (m_pages s) = FDS_MAX_PAGES"
  shows "write_addr (new_write t i r st) (write_queued s i r op) = page_at (m_pages s ! i)"
  using assms by (simp add: write_addr_def new_write_def page_index get_page_def page_at_def) (simp add: write_queued_def)

lemma enqueue_ready:
  assumes "op_count s = 0" and "unat (op_rp s) < 4" and "chunk_count s = 0" and "unat (chunk_rp s) < 8" and "length cs \<le> 8"
  shows "op_enqueue op cs s = (Ret True, s\<lparr>op_queue := (op_queue s)[unat (op_rp s) := op], op_count := 1,
     chunk_queue := put_chunks cs (unat (chunk_rp s)) (chunk_queue s), chunk_count := of_nat (length cs)\<rparr>)"
proof -
  have idx: "unat (op_rp s mod FDS_OP_QUEUE_SIZE) = unat (op_rp s)" "unat (chunk_rp s mod FDS_CHUNK_QUEUE_SIZE) = unat (chunk_rp s)"
    using assms by (simp_all add: unat_mod FDS_OP_QUEUE_SIZE_def FDS_CHUNK_QUEUE_SIZE_def)
  have nil: "cs = []" if "of_nat (length cs) = (0 :: u32)"
    using that assms(5) by (auto simp: word_unat_eq_iff unat_of_nat)
  show ?thesis
    using assms(1,3) idx nil by (auto simp: op_enqueue_def Let_def FDS_OP_QUEUE_SIZE_def put_chunks_def)
qed

lemma write_started:
  assumes ready: "fds_ready s" and acc: "fs_accepts s" and r: "record_ok r" and i: "find (has_room s r) [0..<FDS_MAX_PAGES] = Some i"
    and fit: "header_fits s (page_at (m_pages s ! i))"
  shows "fds_record_write cb (Suc n) p_desc (Some r) s =
    (Ret (FDS_SUCCESS, map_option (\<lambda>_. \<lparr>d_record_id = m_latest_rec_id s + 1, d_record = 0,
        d_gc_run_count = gc_run_count (m_gc s), record_is_open = False\<rparr>) p_desc),
     working ram (write_queued s i r (wop None (new_write s i r FDS_OP_WRITE_HEADER_BEGIN))) (wop None (new_write s i r FDS_OP_WRITE_RECORD_ID))
       [Store (Fs_store (page_at (m_pages s ! i)) (From_words [tl_word (h_tl (new_header r s))]) 1)] (chunk_rp s) (of_nat (length (rec_chunks r))))"
    (is "_ = (Ret (_, ?d), ?t)")
proof -
  let ?b = "wop None (new_write s i r FDS_OP_WRITE_HEADER_BEGIN)" and ?w = "new_write s i r FDS_OP_WRITE_HEADER_BEGIN"
  let ?q = "write_queued s i r ?b"
  have len: "length (m_pages s) = FDS_MAX_PAGES" and ini: "flag_is_set FDS_FLAG_INITIALIZED s" and idle: "\<not> flag_is_set FDS_FLAG_PROCESSING s"
    using ready by (simp_all add: fds_ready_def)
  have im: "i < FDS_MAX_PAGES"
    using i by (auto simp: find_Some_iff)
  have place: "unat (wr_page ?w) < length (m_pages ?q)"
    using im len by (simp add: new_write_def page_index)
  have "write_execute FS_SUCCESS None ?w ?q = (Ret (FDS_OP_EXECUTING, ?w\<lparr>wr_step := FDS_OP_WRITE_RECORD_ID\<rparr>),
      ?q\<lparr>sd_trace := sd_trace ?q @ [Store (Fs_store (page_at (m_pages s ! i)) (From_words [tl_word (h_tl (new_header r s))]) 1)]\<rparr>)"
    using acc im len place fit by (intro header_step) (simp_all add: write_addr_queued, simp add: new_write_def)
  then have "fds_queue_process cb (Suc n) FS_SUCCESS ?q = (Ret (), ?t)"
    using ready process_executing [of ?q None ?w FS_SUCCESS "?w\<lparr>wr_step := FDS_OP_WRITE_RECORD_ID\<rparr>"]
    by (simp add: write_queued_op fds_ready_def working_def put_op_def perform_all_def new_write_def del: fds_queue_process.simps)
  moreover have "op_enqueue ?b (rec_chunks r) (s\<lparr>m_pages := m_pages ?q, m_latest_rec_id := m_latest_rec_id s + 1\<rparr>)
      = (Ret True, ?q\<lparr>m_flags := m_flags s\<rparr>)"
    using ready r by (subst enqueue_ready) (simp_all add: fds_ready_def record_ok_def write_queued_def)
  moreover have "flag_set FDS_FLAG_PROCESSING (?q\<lparr>m_flags := m_flags s\<rparr>) = ?q" and "\<not> flag_is_set FDS_FLAG_PROCESSING (?q\<lparr>m_flags := m_flags s\<rparr>)"
    and "gc_run_count (m_gc ?q) = gc_run_count (m_gc s)"
    using idle by (simp_all add: flag_set_def write_queued_def flag_is_set_def)
  ultimately have "write_op_enqueue cb (Suc n) p_desc r (of_nat i) (record_length (rec_chunks r)) False (s\<lparr>m_pages := m_pages ?q\<rparr>)
      = (Ret (FDS_SUCCESS, ?d), ?t)"
    unfolding write_op_enqueue_def record_id_new_def
    by (simp add: bnd_run Let_def fds_queue_start_def new_header_def new_write_def wop_def del: fds_queue_process.simps)
  moreover have "write_space_reserve (record_length (rec_chunks r)) s = (Ret (Inr (of_nat i)), s\<lparr>m_pages := m_pages ?q\<rparr>)"
    using reserve_page [OF r i len] by (simp add: write_queued_def)
  ultimately show ?thesis
    using ini r by (simp add: fds_record_write_def write_enqueue_def record_ok_def bnd_run)
qed

subsection \<open>The pages before and after\<close>

definition pages_apart :: "fds_page \<Rightarrow> fds_page \<Rightarrow> bool" where
  "pages_apart pg pg' \<longleftrightarrow> page_end pg \<le> pg_addr pg' \<or> page_end pg' \<le> pg_addr pg"

text \<open>The data pages lie in the module's flash, and their counts of words are those of a page.\<close>

definition page_in :: "nat \<Rightarrow> nat \<Rightarrow> fds_page \<Rightarrow> bool" where
  "page_in lo hi pg \<longleftrightarrow> pg_addr pg \<noteq> 0 \<and> pg_addr pg mod 1024 = 0 \<and> lo \<le> pg_addr pg \<and> page_end pg \<le> hi
     \<and> unat (words_reserved pg) \<le> FDS_PAGE_SIZE \<and> unat (write_offset pg) \<le> FDS_PAGE_SIZE"

definition area_ok :: "'w fds_scheme \<Rightarrow> bool" where
  "area_ok s \<longleftrightarrow> (\<forall>i < length (m_pages s). data_page (m_pages s ! i) \<longrightarrow> page_in (p_start_addr s) (p_end_addr s) (m_pages s ! i))"

lemma room_words:
  assumes area: "area_ok s" and r: "record_ok r" and i: "has_room s r i" "i < length (m_pages s)"
  shows "unat (write_offset (m_pages s ! i)) + 3 + length (data_words ram (rec_chunks r)) < FDS_PAGE_SIZE"
proof -
  let ?pg = "m_pages s ! i"
  have d: "data_page ?pg"
    using i by (simp add: has_room_def get_page_def data_page_def)
  then have res: "unat (words_reserved ?pg) \<le> 256" and off: "unat (write_offset ?pg) \<le> 256"
    using area i by (auto simp: area_ok_def page_in_def FDS_PAGE_SIZE_def)
  have len: "unat (record_length (rec_chunks r)) = length (data_words ram (rec_chunks r))" "length (data_words ram (rec_chunks r)) < 251"
    using record_ok_length [OF r] r by (simp_all add: length_data_words record_ok_def)
  have "unat (record_length (rec_chunks r) + 3 + write_offset ?pg + words_reserved ?pg)
      = length (data_words ram (rec_chunks r)) + 3 + unat (write_offset ?pg) + unat (words_reserved ?pg)"
    using res off len by (simp add: unat_word_ariths)
  then show ?thesis
    using i by (simp add: has_room_def get_page_def page_has_space_def FDS_PAGE_SIZE_def FDS_HEADER_SIZE_def)
qed

lemma chunk_reqs_valid:
  assumes "a \<noteq> 0" and "a mod 4 = 0" and "lo \<le> a" and "chunk_is_aligned cs" and "\<forall>c \<in> set cs. chunk_data c \<noteq> 0 \<and> chunk_length c \<noteq> 0"
    and "a + 4 * (unat off + sum_list (map (\<lambda>c. unat (chunk_length c)) cs)) \<le> hi"
    and "unat off + sum_list (map (\<lambda>c. unat (chunk_length c)) cs) < 2 ^ 16"
  shows "list_all (fs_valid lo hi) (chunk_reqs a off cs)"
  using assms(4-7)
proof (induction cs arbitrary: off)
  case (Cons c cs)
  have off: "unat (off + chunk_length c) = unat off + unat (chunk_length c)"
    using Cons.prems(4) by (simp add: unat_word_ariths)
  have "chunk_data c AND 3 = 0"
    using Cons.prems(1) by (simp add: chunk_is_aligned_def is_word_aligned_def)
  moreover have "list_all (fs_valid lo hi) (chunk_reqs a (off + chunk_length c) cs)"
    using Cons.prems off by (intro Cons.IH) (simp_all add: chunk_is_aligned_def)
  moreover have "(a + 4 * unat off) mod 4 = 0"
    using assms(2) by presburger
  ultimately show ?case
    using Cons.prems assms(1-3) by simp
qed simp

text \<open>The requests of the write of a record on a page with room for it are valid.\<close>

lemma room_requests:
  assumes area: "area_ok s" and r: "record_ok r" and i: "has_room s r i" "i < length (m_pages s)"
  shows "header_fits s (page_at (m_pages s ! i))"
    and "list_all (fs_valid (p_start_addr s) (p_end_addr s)) (chunk_reqs (page_at (m_pages s ! i)) FDS_OFFSET_DATA (rec_chunks r))"
proof -
  let ?pg = "m_pages s ! i" and ?n = "sum_list (map (\<lambda>c. unat (chunk_length c)) (rec_chunks r))"
  have "data_page ?pg"
    using i by (simp add: has_room_def get_page_def data_page_def)
  then have pg: "pg_addr ?pg \<noteq> 0" "pg_addr ?pg mod 1024 = 0" "p_start_addr s \<le> pg_addr ?pg" "page_end ?pg \<le> p_end_addr s"
    using area i by (simp_all add: area_ok_def page_in_def)
  have n: "unat (write_offset ?pg) + 3 + ?n < 256"
    using room_words [OF area r i] by (simp add: length_data_words FDS_PAGE_SIZE_def)
  then have hi: "page_at ?pg + 4 * (3 + ?n) \<le> p_end_addr s"
    using pg(4) by (simp add: page_at_def page_end_def FDS_PAGE_SIZE_def)
  have a: "page_at ?pg \<noteq> 0" "page_at ?pg mod 4 = 0" "p_start_addr s \<le> page_at ?pg"
  proof -
    show "page_at ?pg mod 4 = 0"
      using pg(2) mod_mod_cancel [of 4 1024 "pg_addr ?pg"] by (simp add: page_at_def mod_add_left_eq [symmetric, of "pg_addr ?pg"])
  qed (use pg in \<open>simp_all add: page_at_def\<close>)
  show "header_fits s (page_at ?pg)"
    using a hi by (simp add: header_fits_def)
  show "list_all (fs_valid (p_start_addr s) (p_end_addr s)) (chunk_reqs (page_at ?pg) FDS_OFFSET_DATA (rec_chunks r))"
    using a hi n r by (intro chunk_reqs_valid) (simp_all add: record_ok_def FDS_OFFSET_DATA_def)
qed

text \<open>The data pages are distinct pages of the module's flash in good order.\<close>

definition layout_ok :: "'w fds_scheme \<Rightarrow> bool" where
  "layout_ok s \<longleftrightarrow> area_ok s \<and> (\<forall>i < length (m_pages s). data_page (m_pages s ! i) \<longrightarrow>
     page_ok (flash_words s) (m_pages s ! i)
     \<and> (\<forall>j < length (m_pages s). j \<noteq> i \<longrightarrow> data_page (m_pages s ! j) \<longrightarrow> pages_apart (m_pages s ! i) (m_pages s ! j)))"

lemma layout_area: "layout_ok s \<Longrightarrow> area_ok s"
  by (simp add: layout_ok_def)

lemma room_fits:
  assumes lay: "layout_ok s" and r: "record_ok r" and i: "has_room s r i" "i < length (m_pages s)"
  shows "data_page (m_pages s ! i)" and "page_ok (flash_words s) (m_pages s ! i)"
    and "fits (m_pages s ! i) (new_header r s) (data_words ram (rec_chunks r))"
proof -
  let ?pg = "m_pages s ! i"
  show d: "data_page ?pg"
    using i by (simp add: has_room_def get_page_def data_page_def)
  then show ok: "page_ok (flash_words s) ?pg"
    using lay i by (simp add: layout_ok_def)
  have len: "unat (record_length (rec_chunks r)) = length (data_words ram (rec_chunks r))"
    using record_ok_length [OF r] by (simp add: length_data_words)
  have "unat (write_offset ?pg) + 3 + length (data_words ram (rec_chunks r)) < 256"
    using room_words [OF _ r i] lay by (simp add: layout_ok_def FDS_PAGE_SIZE_def)
  then show "fits ?pg (new_header r s) (data_words ram (rec_chunks r))"
    using len r by (simp add: fits_def FDS_PAGE_SIZE_def new_header_def header_is_valid_def record_ok_def)
qed

lemma recs_inside:
  assumes ok: "page_ok fl pg" and q: "q \<in> set (recs_of fl pg)"
  shows "page_first pg \<le> q" and "next_rec fl q \<le> page_at pg"
proof -
  have "chain fl a p \<Longrightarrow> q \<in> set (page_recs fl a p) \<Longrightarrow> next_rec fl q \<le> a" for a p
  proof (induction fl a p rule: chain.induct)
    case (1 fl a p)
    then have "p \<noteq> a"
      by (auto simp: page_recs.simps [of fl a a])
    then show ?case
      using 1 chain_next [OF 1(2)] chain_le page_recs.simps [of fl a p] by auto
  qed
  then show "page_first pg \<le> q" and "next_rec fl q \<le> page_at pg"
    using ok q page_ok_recs [OF ok] page_recs_ge [of q fl] by (auto simp: page_ok_def)
qed

text \<open>Every other data page keeps its words.\<close>

lemma other_page:
  assumes lay: "layout_ok s" and i: "i < length (m_pages s)" "data_page (m_pages s ! i)"
    and j: "j < length (m_pages s)" "data_page (m_pages s ! j)" "j \<noteq> i"
    and frame: "\<forall>x. x < pg_addr (m_pages s ! i) \<or> page_end (m_pages s ! i) \<le> x \<longrightarrow> fl' x = flash_words s x"
  shows "page_ok fl' (m_pages s ! j)" and "recs_of fl' (m_pages s ! j) = recs_of (flash_words s) (m_pages s ! j)"
proof -
  have "pages_apart (m_pages s ! i) (m_pages s ! j)"
    using lay i j by (simp add: layout_ok_def)
  then have "\<forall>x. pg_addr (m_pages s ! j) \<le> x \<and> x < page_end (m_pages s ! j) \<longrightarrow> fl' x = flash_words s x"
    using frame by (auto simp: pages_apart_def)
  moreover have "page_ok (flash_words s) (m_pages s ! j)"
    using lay j by (simp add: layout_ok_def)
  ultimately show "page_ok fl' (m_pages s ! j)" and "recs_of fl' (m_pages s ! j) = recs_of (flash_words s) (m_pages s ! j)"
    using recs_of_same by blast+
qed

text \<open>A page whose write position moves on over a new record.\<close>

lemma layout_written:
  assumes lay: "layout_ok s" and i: "i < length (m_pages s)" "data_page (m_pages s ! i)"
    and frame: "\<forall>x. x < pg_addr (m_pages s ! i) \<or> page_end (m_pages s ! i) \<le> x \<longrightarrow> flash_words s' x = flash_words s x"
    and pg: "m_pages s' = (m_pages s)[i := pg]" "pg_type pg = FDS_PAGE_DATA" "pg_addr pg = pg_addr (m_pages s ! i)"
      "words_reserved pg = words_reserved (m_pages s ! i)" "page_ok (flash_words s') pg"
    and area: "p_start_addr s' = p_start_addr s" "p_end_addr s' = p_end_addr s"
  shows "layout_ok s'"
proof -
  have apart: "pages_apart pg x = pages_apart (m_pages s ! i) x" "pages_apart x pg = pages_apart x (m_pages s ! i)" for x
    using pg(3) by (simp_all add: pages_apart_def page_end_def)
  have old: "page_ok (flash_words s') (m_pages s ! j)" if "j < length (m_pages s)" "data_page (m_pages s ! j)" "j \<noteq> i" for j
    using other_page(1) [OF lay i that frame] .
  have ins: "page_in (p_start_addr s) (p_end_addr s) pg"
  proof -
    have "page_in (p_start_addr s) (p_end_addr s) (m_pages s ! i)"
      using lay i by (simp add: layout_ok_def area_ok_def)
    then show ?thesis
      using pg(3-5) by (simp add: page_in_def page_end_def page_ok_def)
  qed
  have "page_in (p_start_addr s') (p_end_addr s') (m_pages s' ! j)" "page_ok (flash_words s') (m_pages s' ! j)"
    "\<forall>k < length (m_pages s'). k \<noteq> j \<longrightarrow> data_page (m_pages s' ! k) \<longrightarrow> pages_apart (m_pages s' ! j) (m_pages s' ! k)"
    if j: "j < length (m_pages s')" "data_page (m_pages s' ! j)" for j
  proof -
    have dj: "data_page (m_pages s ! j)"
      using i j pg by (cases "j = i") simp_all
    then have L: "page_in (p_start_addr s) (p_end_addr s) (m_pages s ! j)"
      "\<forall>k < length (m_pages s). k \<noteq> j \<longrightarrow> data_page (m_pages s ! k) \<longrightarrow> pages_apart (m_pages s ! j) (m_pages s ! k)"
      using lay j pg(1) by (auto simp: layout_ok_def area_ok_def)
    show "\<forall>k < length (m_pages s'). k \<noteq> j \<longrightarrow> data_page (m_pages s' ! k) \<longrightarrow> pages_apart (m_pages s' ! j) (m_pages s' ! k)"
    proof (intro allI impI)
      fix k
      assume "k < length (m_pages s')" "k \<noteq> j" "data_page (m_pages s' ! k)"
      then show "pages_apart (m_pages s' ! j) (m_pages s' ! k)"
        using L(2) i pg(1) apart by (cases "k = i"; cases "j = i") auto
    qed
    show "page_in (p_start_addr s') (p_end_addr s') (m_pages s' ! j)"
      using L(1) ins area pg(1) j(1) by (cases "j = i") simp_all
    show "page_ok (flash_words s') (m_pages s' ! j)"
      using old [of j] dj j pg i by (cases "j = i") simp_all
  qed
  then show ?thesis
    by (simp add: layout_ok_def area_ok_def)
qed

text \<open>A completed write: the new record, the requests and the event.\<close>

definition wrote :: "(u32 \<Rightarrow> u32) \<Rightarrow> (fnptr \<Rightarrow> fds_evt \<Rightarrow> 'w \<Rightarrow> 'w) \<Rightarrow> fds_record \<Rightarrow> nat \<Rightarrow> 'w fds_scheme \<Rightarrow> 'w fds_scheme \<Rightarrow> bool" where
  "wrote ram u r i s s' \<longleftrightarrow>
     (let pg = m_pages s ! i; h = new_header r s; a = page_at pg in
      flash_words s' = foldl program (flash_words s) (record_words a h (data_words ram (rec_chunks r)))
      \<and> m_pages s' = (m_pages s)[i := pg\<lparr>write_offset := write_offset (page_offsets_update (length_words (h_tl h)) pg)\<rparr>]
      \<and> sd_trace s' = sd_trace s @ write_reqs a h (rec_chunks r)
      \<and> p_start_addr s' = p_start_addr s \<and> p_end_addr s' = p_end_addr s
      \<and> fds.more s' = notify u (m_cb_table s)
          \<lparr>evt_id = FDS_EVT_WRITE (record_id h) (rec_file_id r) (rec_key r), evt_result = FDS_SUCCESS\<rparr> (fds.more s))"

lemma found_room:
  assumes "find (has_room s r) [0..<FDS_MAX_PAGES] = Some i" and "fds_ready s"
  shows "has_room s r i" and "i < length (m_pages s)"
  using assms by (auto simp: find_Some_iff fds_ready_def)

lemma write_settles:
  assumes ready: "fds_ready s" and acc: "fs_accepts s" and area: "area_ok s" and r: "record_ok r" and i: "find (has_room s r) [0..<FDS_MAX_PAGES] = Some i"
  obtains d s1 s2 where "fds_record_write (user_cb u) (Suc n) p_desc (Some r) s = (Ret (FDS_SUCCESS, d), s1)"
    and "settles ram (user_cb u) (Suc n) s1 s2" and "fds_ready s2" and "wrote ram u r i s s2"
proof -
  let ?w = "new_write s i r FDS_OP_WRITE_RECORD_ID" and ?h = "new_header r s" and ?a = "page_at (m_pages s ! i)"
  let ?q = "write_queued s i r (wop None (new_write s i r FDS_OP_WRITE_HEADER_BEGIN))" and ?cs = "rec_chunks r"
  let ?fw = "chunks_done FDS_OP_WRITE_DONE ?cs ?w"
  let ?p = "performed ram ?q (wop None ?fw) (write_reqs ?a ?h ?cs) (rp_end (chunk_rp s) ?cs) 0"
  let ?s2 = "conclude u (wop None ?fw) (put_page (unat (wr_page ?fw)) (page_offsets_update (length_words (h_tl (wr_header ?fw)))) ?p)"
  have len: "length (m_pages s) = FDS_MAX_PAGES" and users: "length (m_cb_table s) = FDS_MAX_USERS"
    and rp: "unat (chunk_rp s) < 8" and opq: "length (op_queue s) = 4" "unat (op_rp s) < 4" and cq: "length (chunk_queue s) = 8"
    using ready by (simp_all add: fds_ready_def)
  have im: "i < FDS_MAX_PAGES" and cs: "length ?cs \<le> 8"
    using i r by (auto simp: find_Some_iff record_ok_def)
  have addr: "write_addr ?w ?q = ?a" and hdr: "wr_header ?w = ?h"
    using im len by (simp_all add: write_addr_queued) (simp add: new_write_def)
  moreover have "write_addr ?fw ?q = write_addr ?w ?q"
    by (simp add: write_addr_def chunks_done_def)
  moreover note valid = room_requests [OF area r found_room [OF i ready]]
  ultimately have place: "in_place ?q ?w" "in_place ?q ?fw"
    using acc im len opq by (simp_all add: in_place_def) (simp_all add: new_write_def chunks_done_def page_index)
  have done_: "settles ram (user_cb u) (Suc n) (working ram ?q (wop None ?fw) (write_reqs ?a ?h ?cs) (rp_end (chunk_rp s) ?cs) 0) ?s2"
    using place(2) users by (intro settles_write_done) (simp_all add: write_reqs_def chunks_done_def)
  have "settles ram (user_cb u) (Suc n)
      (working ram ?q (wop None ?w) [Store (Fs_store (write_addr ?w ?q) (From_words [tl_word (h_tl (wr_header ?w))]) 1)] (chunk_rp s) (of_nat (length ?cs))) ?s2"
  proof (rule settles_write [OF place(1) _ cs])
    show "chunks_at (chunk_queue ?q) (chunk_rp s) ?cs"
      using put_chunks_ring [OF cq rp cs] rp by (simp add: chunks_at_def)
    show "settles ram (user_cb u) (Suc n) (working ram ?q (wop None (chunks_done (if (None :: u32 option) = None then FDS_OP_WRITE_DONE else FDS_OP_WRITE_FLAG_DIRTY) ?cs ?w))
        (write_reqs (write_addr ?w ?q) (wr_header ?w) ?cs) (rp_end (chunk_rp s) ?cs) 0) ?s2"
      unfolding addr hdr using done_ by simp
    show "list_all (fs_valid (p_start_addr ?q) (p_end_addr ?q)) (chunk_reqs (write_addr ?w ?q) FDS_OFFSET_DATA ?cs)"
      unfolding addr using valid(2) by simp
  qed (simp_all add: new_write_def)
  then have "settles ram (user_cb u) (Suc n) (working ram ?q (wop None ?w) [Store (Fs_store ?a (From_words [tl_word (h_tl ?h)]) 1)] (chunk_rp s) (of_nat (length ?cs))) ?s2"
    unfolding addr hdr .
  moreover have "fds_ready ?s2"
    using ready put_chunks_ring(1) [OF cq rp cs] rp_end_ring [OF rp] by (intro conclude_ready) (simp_all add: fds_ready_def)
  moreover have "wrote ram u r i s ?s2"
  proof -
    have ip: "unat (wr_page ?fw) = i" and h: "wr_header ?fw = ?h"
      using im by (simp_all add: new_write_def chunks_done_def page_index)
    have "m_pages ?s2 = (m_pages s)[i := (m_pages s ! i)\<lparr>write_offset := write_offset (page_offsets_update (length_words (h_tl ?h)) (m_pages s ! i))\<rparr>]"
      using im len unfolding ip h
      by (simp add: put_page_pages) (simp add: write_queued_def page_offsets_update_def new_header_def add.commute)
    moreover have "flash_words ?s2 = foldl program (flash_words s) (record_words ?a ?h (data_words ram ?cs))"
      using r by (simp add: write_program length_data_words record_ok_def)
    moreover have "event_prepare (wop None ?fw) = FDS_EVT_WRITE (record_id ?h) (rec_file_id r) (rec_key r)"
      by (simp add: wop_def event_prepare_def h) (simp add: new_header_def)
    ultimately show ?thesis
      by (simp add: wrote_def Let_def)
  qed
  ultimately show thesis
    using that write_started [OF ready acc r i valid(1)] by blast
qed

lemma wrote_facts:
  assumes lay: "layout_ok s" and r: "record_ok r" and i: "has_room s r i" "i < length (m_pages s)" and w: "wrote ram u r i s s'"
  defines "a \<equiv> page_at (m_pages s ! i)" and "data \<equiv> data_words ram (rec_chunks r)"
  shows "recs_of (flash_words s') (m_pages s' ! i) = recs_of (flash_words s) (m_pages s ! i) @ [a]"
    and "j < length (m_pages s) \<Longrightarrow> data_page (m_pages s ! j) \<Longrightarrow> j \<noteq> i \<Longrightarrow>
      recs_of (flash_words s') (m_pages s' ! j) = recs_of (flash_words s) (m_pages s ! j)"
    and "header_at (flash_words s') a = new_header r s" and "\<forall>j < length data. flash_words s' (a + 12 + 4 * j) = data ! j"
    and "\<forall>x. x < a \<or> a + 4 * (3 + length data) \<le> x \<longrightarrow> flash_words s' x = flash_words s x" and "layout_ok s'"
proof -
  let ?pg = "m_pages s ! i" and ?h = "new_header r s" and ?fl = "flash_words s'"
  let ?pg' = "?pg\<lparr>write_offset := write_offset (page_offsets_update (length_words (h_tl ?h)) ?pg)\<rparr>"
  note d = room_fits(1) [OF lay r i] and ok = room_fits(2) [OF lay r i] and fit = room_fits(3) [OF lay r i, of ram, folded data_def]
  have fl: "?fl = foldl program (flash_words s) (record_words (page_at ?pg) ?h data)" and pgs: "m_pages s' = (m_pages s)[i := ?pg']"
    using w by (simp_all add: wrote_def Let_def data_def)
  note cut = cut_recs [OF ok fit, of ?fl "length data + 3"] and rec = written_record [OF ok fit fl]
  show frame: "\<forall>x. x < a \<or> a + 4 * (3 + length data) \<le> x \<longrightarrow> ?fl x = flash_words s x"
    using cut(1) fl by (simp add: a_def)
  have out: "\<forall>x. x < pg_addr ?pg \<or> page_end ?pg \<le> x \<longrightarrow> ?fl x = flash_words s x"
    using frame fits_end [OF fit] by (auto simp: a_def page_at_def)
  have "recs_of ?fl ?pg' = recs_of ?fl ?pg"
    by (simp add: recs_of_def page_end_def page_first_def)
  then show "recs_of ?fl (m_pages s' ! i) = recs_of (flash_words s) ?pg @ [a]"
    using cut(2) fl pgs i by (simp add: a_def)
  show "recs_of ?fl (m_pages s' ! j) = recs_of (flash_words s) (m_pages s ! j)"
    if "j < length (m_pages s)" "data_page (m_pages s ! j)" "j \<noteq> i"
    using other_page(2) [OF lay i(2) d that out] that pgs by simp
  show "header_at ?fl a = ?h" and "\<forall>j < length data. ?fl (a + 12 + 4 * j) = data ! j"
    using rec(1,2) by (simp_all add: a_def)
  have "page_ok ?fl ?pg'"
    using rec(3) by (simp add: page_ok_def page_at_def page_first_def page_offsets_update_def)
  then show "layout_ok s'"
    using d w by (intro layout_written [OF lay i(2) d out pgs]) (simp_all add: data_page_def wrote_def Let_def)
qed

subsection \<open>An example\<close>

text \<open>Three pages from \<open>0x1E000\<close> on: swap, and two empty data pages; one user, who keeps the events.\<close>

definition demo_flash :: flash where
  "demo_flash = (\<lambda>a. if a = 0x1E000 \<or> a = 0x1E400 \<or> a = 0x1E800 then FDS_PAGE_TAG_MAGIC
     else if a = 0x1E004 then FDS_PAGE_TAG_SWAP else if a = 0x1E404 \<or> a = 0x1E804 then FDS_PAGE_TAG_DATA else FDS_ERASED_WORD)"

definition demo_page :: "nat \<Rightarrow> fds_page" where
  "demo_page p = \<lparr>pg_type = FDS_PAGE_DATA, pg_addr = p, write_offset = 2, words_reserved = 0, records_open = 0, can_gc = False\<rparr>"

definition demo_fds :: "fds_evt list fds_scheme" where
  "demo_fds = \<lparr>sd_env = (\<lambda>h c. null_reply), sd_trace = [], m_flags = FDS_FLAG_INITIALIZED, m_users = 1,
     m_cb_table = [0x1001, 0, 0, 0, 0, 0, 0, 0], m_latest_rec_id = 0, op_queue = replicate 4 FDS_OP_NONE, op_rp = 0, op_count = 0,
     chunk_queue = replicate 8 \<lparr>chunk_data = 0, chunk_length = 0\<rparr>, chunk_rp = 0, chunk_count = 0,
     m_pages = [demo_page 0x1E400, demo_page 0x1E800], m_swap_page = \<lparr>swap_addr = 0x1E000, swap_offset = 2\<rparr>,
     m_gc = \<lparr>gc_state = GC_BEGIN, gc_cur_page = 0, gc_record_src = 0, gc_run_count = 0, do_gc_page = [False, False], gc_resume = False\<rparr>,
     upd_desc = zero_desc, upd_page = 0, del_tok = zero_token, p_start_addr = 0x1E000, p_end_addr = 0x1EC00,
     flash_words = demo_flash, out_of_bounds = False, \<dots> = []\<rparr>"

definition demo_user :: "fnptr \<Rightarrow> fds_evt \<Rightarrow> fds_evt list \<Rightarrow> fds_evt list" where
  "demo_user p e es = es @ [e]"

text \<open>A record like the finder's key: four words of RAM, file \<open>0x1577\<close>, key \<open>0xE2EE\<close>.\<close>

definition demo_record :: fds_record where
  "demo_record = \<lparr>rec_file_id = 0x1577, rec_key = 0xE2EE, rec_chunks = [\<lparr>chunk_data = 0x20002000, chunk_length = 4\<rparr>]\<rparr>"

definition demo_stored :: "fds_evt list fds_scheme" where
  "demo_stored = demo_fds\<lparr>flash_words := demo_flash(0x1E408 := 0x0001E2EE, 0x1E40C := 0x00001577, 0x1E410 := 7, 0x1E414 := 42),
     m_pages := [(demo_page 0x1E400)\<lparr>write_offset := 6\<rparr>, demo_page 0x1E800]\<rparr>"

definition demo_ram :: "u32 \<Rightarrow> u32" where
  "demo_ram p = p"

lemma demo_ready: "fds_ready demo_fds"
  by (simp add: fds_ready_def demo_fds_def flag_is_set_def FDS_FLAG_INITIALIZED_def FDS_FLAG_PROCESSING_def
      FDS_MAX_PAGES_def FDS_VIRTUAL_PAGES_def FDS_MAX_USERS_def)

lemma demo_accepts: "fs_accepts demo_fds"
  by (simp add: fs_accepts_def fs_accepts_in_def demo_fds_def null_reply_def FS_SUCCESS_def NRF_SUCCESS_def)

lemma demo_erased: "2 \<le> i \<Longrightarrow> i < 256 \<Longrightarrow> p = 0x1E400 \<or> p = 0x1E800 \<Longrightarrow> demo_flash (p + 4 * i) = FDS_ERASED_WORD"
  by (auto simp: demo_flash_def)

lemma demo_page_ok: "p = 0x1E400 \<or> p = 0x1E800 \<Longrightarrow> page_ok demo_flash (demo_page p)"
  using demo_erased [of _ p]
  by (auto simp: page_ok_def demo_page_def page_at_def page_first_def FDS_PAGE_TAG_SIZE_def FDS_PAGE_SIZE_def chain.simps [of _ _ "_ :: nat"])

lemma demo_layout: "layout_ok demo_fds"
  using demo_page_ok
  by (auto simp: layout_ok_def area_ok_def page_in_def demo_fds_def less_Suc_eq pages_apart_def page_end_def demo_page_def FDS_PAGE_SIZE_def)

lemma demo_stored_header:
  "header_at (flash_words demo_stored) 0x1E408 = \<lparr>h_tl = \<lparr>record_key = 0xE2EE, length_words = 1\<rparr>, h_ic = \<lparr>file_id = 0x1577, crc16 = 0\<rparr>, record_id = 7\<rparr>"
  by (simp add: header_at_def demo_stored_def tl_of_def ic_of_def drop_bit_eq_div)

lemma demo_stored_words:
  "flash_words demo_stored 0x1E408 \<noteq> FDS_ERASED_WORD" "next_rec (flash_words demo_stored) 0x1E408 = 0x1E418"
  "2 \<le> i \<Longrightarrow> i < 256 \<Longrightarrow> flash_words demo_stored (0x1E800 + 4 * i) = FDS_ERASED_WORD"
  "6 \<le> i \<Longrightarrow> i < 256 \<Longrightarrow> flash_words demo_stored (0x1E400 + 4 * i) = FDS_ERASED_WORD"
  using demo_erased [of i "0x1E800"] demo_erased [of i "0x1E400"]
  by (auto simp: next_rec_def demo_stored_header FDS_HEADER_SIZE_def) (simp_all add: demo_stored_def FDS_ERASED_WORD_def)

lemma demo_stored_pages: "m_pages demo_stored = [(demo_page 0x1E400)\<lparr>write_offset := 6\<rparr>, demo_page 0x1E800]"
  by (simp add: demo_stored_def)

lemma demo_page_data: "data_page (demo_page p)" "data_page ((demo_page p)\<lparr>write_offset := w\<rparr>)"
  by (simp_all add: data_page_def demo_page_def)

lemma demo_stored_recs:
  "recs_of (flash_words demo_stored) ((demo_page 0x1E400)\<lparr>write_offset := 6\<rparr>) = [0x1E408]"
  "recs_of (flash_words demo_stored) (demo_page 0x1E800) = []"
proof -
  have "flash_words demo_stored 0x1E418 = FDS_ERASED_WORD" "flash_words demo_stored 0x1E808 = FDS_ERASED_WORD"
    using demo_stored_words(3) [of 2] demo_stored_words(4) [of 6] by simp_all
  then have "page_recs (flash_words demo_stored) 0x1E800 0x1E408 = [0x1E408]" and "page_recs (flash_words demo_stored) 0x1EC00 0x1E808 = []"
    using demo_stored_words(1,2) page_recs.simps [of "flash_words demo_stored" "0x1E800" "0x1E408"]
      page_recs.simps [of "flash_words demo_stored" "0x1E800" "0x1E418"] page_recs.simps [of "flash_words demo_stored" "0x1EC00" "0x1E808"] by simp_all
  then show "recs_of (flash_words demo_stored) ((demo_page 0x1E400)\<lparr>write_offset := 6\<rparr>) = [0x1E408]"
    and "recs_of (flash_words demo_stored) (demo_page 0x1E800) = []"
    by (simp_all add: recs_of_def page_end_def page_first_def FDS_PAGE_SIZE_def FDS_PAGE_TAG_SIZE_def demo_page_def rec_valid_def header_is_valid_def
        demo_stored_header FDS_FILE_ID_INVALID_def FDS_RECORD_KEY_DIRTY_def)
qed

lemma demo_record_ok: "record_ok demo_record"
  by (simp add: record_ok_def demo_record_def FDS_FILE_ID_INVALID_def FDS_RECORD_KEY_DIRTY_def chunk_is_aligned_def is_word_aligned_def)

lemma demo_room: "find (has_room demo_fds demo_record) [0..<FDS_MAX_PAGES] = Some 0"
  by (simp add: FDS_MAX_PAGES_def FDS_VIRTUAL_PAGES_def upt_rec has_room_def get_page_def demo_fds_def demo_page_def
      page_has_space_def record_length_def demo_record_def FDS_HEADER_SIZE_def FDS_PAGE_SIZE_def)

subsection \<open>Properties\<close>

text \<open>
  C13: Writing a record works. The module is at rest (initialised, no operation queued, no chunk held), its
  data pages lie in the flash that flash access has for it, are apart and in good order, with their write
  positions and reserved words those of a page (\<open>layout_ok\<close>); the record has an admissible file and key,
  at most eight chunks, none of them empty, each at an aligned address that is not \<^verbatim>\<open>NULL\<close>, and at most 250
  words (\<open>record_ok\<close>); the page \<open>i\<close> is the first with room for it; flash access takes every valid request
  (\<open>fs_accepts\<close>: initialised, and room for one operation in its queue); and the users' callbacks change
  their own state only. Then \<^verbatim>\<open>fds_record_write\<close> succeeds, and once flash access has carried out the
  requests that follow one another from there, the module is at rest again with its pages in order; the
  page has one more valid record, with the key, the file, the next identifier and exactly the words of the
  chunks, no other word of flash has changed, the other pages have the records they had, and every user got
  the event with \<^verbatim>\<open>FDS_SUCCESS\<close>.
\<close>

theorem fds_write_appends:
  assumes "fds_ready s" and "fs_accepts s" and "layout_ok s" and "record_ok r"
    and "find (has_room s r) [0..<FDS_MAX_PAGES] = Some i"
  shows "\<exists>d s1 s2. fds_record_write (user_cb u) (Suc n) p_desc (Some r) s = (Ret (FDS_SUCCESS, d), s1)
    \<and> settles ram (user_cb u) (Suc n) s1 s2 \<and> fds_ready s2 \<and> layout_ok s2
    \<and> (let a = page_at (m_pages s ! i); data = data_words ram (rec_chunks r); fl = flash_words s; fl' = flash_words s2 in
       recs_of fl' (m_pages s2 ! i) = recs_of fl (m_pages s ! i) @ [a]
       \<and> header_at fl' a = \<lparr>h_tl = \<lparr>record_key = rec_key r, length_words = of_nat (length data)\<rparr>,
           h_ic = \<lparr>file_id = rec_file_id r, crc16 = 0\<rparr>, record_id = m_latest_rec_id s + 1\<rparr>
       \<and> map (\<lambda>j. fl' (a + 12 + 4 * j)) [0..<length data] = data
       \<and> (\<forall>x. x < a \<or> a + 4 * (3 + length data) \<le> x \<longrightarrow> fl' x = fl x)
       \<and> (\<forall>j < length (m_pages s). data_page (m_pages s ! j) \<longrightarrow> j \<noteq> i \<longrightarrow> recs_of fl' (m_pages s2 ! j) = recs_of fl (m_pages s ! j)))
    \<and> fds.more s2 = notify u (m_cb_table s) \<lparr>evt_id = FDS_EVT_WRITE (m_latest_rec_id s + 1) (rec_file_id r) (rec_key r),
        evt_result = FDS_SUCCESS\<rparr> (fds.more s)"
proof -
  obtain d s1 s2 where run: "fds_record_write (user_cb u) (Suc n) p_desc (Some r) s = (Ret (FDS_SUCCESS, d), s1)"
      "settles ram (user_cb u) (Suc n) s1 s2" "fds_ready s2" and w: "wrote ram u r i s s2"
    using write_settles [OF assms(1,2) layout_area [OF assms(3)] assms(4,5)] by blast
  note facts = wrote_facts [OF assms(3,4) found_room [OF assms(5,1)] w]
  have "record_length (rec_chunks r) = of_nat (unat (record_length (rec_chunks r)))"
    by simp
  also have "\<dots> = of_nat (length (data_words ram (rec_chunks r)))"
    by (simp only: record_ok_length [OF assms(4)] length_data_words)
  finally have "length_words (h_tl (new_header r s)) = of_nat (length (data_words ram (rec_chunks r)))"
    by (simp add: new_header_def)
  then have h: "new_header r s = \<lparr>h_tl = \<lparr>record_key = rec_key r, length_words = of_nat (length (data_words ram (rec_chunks r)))\<rparr>,
      h_ic = \<lparr>file_id = rec_file_id r, crc16 = 0\<rparr>, record_id = m_latest_rec_id s + 1\<rparr>"
    by (simp add: new_header_def)
  have data: "map (\<lambda>j. flash_words s2 (page_at (m_pages s ! i) + 12 + 4 * j)) [0..<length (data_words ram (rec_chunks r))] = data_words ram (rec_chunks r)"
    using facts(4) by (intro nth_equalityI) simp_all
  have evt: "fds.more s2 = notify u (m_cb_table s) \<lparr>evt_id = FDS_EVT_WRITE (m_latest_rec_id s + 1) (rec_file_id r) (rec_key r),
        evt_result = FDS_SUCCESS\<rparr> (fds.more s)"
    using w by (simp add: wrote_def Let_def new_header_def)
  show ?thesis
    unfolding Let_def
    by (intro exI conjI) (use run evt data facts h in auto)
qed

theorem fds_write_appends_witness:
  "\<exists>d s1 s2. fds_record_write (user_cb demo_user) 1 None (Some demo_record) demo_fds = (Ret (FDS_SUCCESS, d), s1)
    \<and> settles demo_ram (user_cb demo_user) 1 s1 s2
    \<and> recs_of (flash_words s2) (m_pages s2 ! 0) = [0x1E408]
    \<and> map (\<lambda>j. flash_words s2 (0x1E408 + 12 + 4 * j)) [0..<4] = [0x20002000, 0x20002004, 0x20002008, 0x2000200C]
    \<and> fds.more s2 = [\<lparr>evt_id = FDS_EVT_WRITE 1 0x1577 0xE2EE, evt_result = FDS_SUCCESS\<rparr>]"
proof -
  have a: "page_at (m_pages demo_fds ! 0) = 0x1E408"
    by (simp add: demo_fds_def demo_page_def page_at_def)
  have d: "data_words demo_ram (rec_chunks demo_record) = [0x20002000, 0x20002004, 0x20002008, 0x2000200C]"
    by (simp add: data_words_def chunk_words_def demo_record_def demo_ram_def upt_rec)
  have none: "recs_of (flash_words demo_fds) (m_pages demo_fds ! 0) = []"
    using demo_erased [of 2 "0x1E400"]
    by (simp add: recs_of_def demo_fds_def demo_page_def page_first_def FDS_PAGE_TAG_SIZE_def page_recs.simps)
  have user: "notify demo_user (m_cb_table demo_fds) e (fds.more demo_fds) = [e]" for e
    by (simp add: notify_def demo_user_def demo_fds_def)
  have "m_latest_rec_id demo_fds = 0" "rec_file_id demo_record = 0x1577" "rec_key demo_record = 0xE2EE"
    by (simp_all add: demo_fds_def demo_record_def)
  then obtain d' s1 s2 where "fds_record_write (user_cb demo_user) 1 None (Some demo_record) demo_fds = (Ret (FDS_SUCCESS, d'), s1)"
      "settles demo_ram (user_cb demo_user) 1 s1 s2" "recs_of (flash_words s2) (m_pages s2 ! 0) = [0x1E408]"
      "map (\<lambda>j. flash_words s2 (0x1E408 + 12 + 4 * j)) [0..<4] = [0x20002000, 0x20002004, 0x20002008, 0x2000200C]"
      "fds.more s2 = [\<lparr>evt_id = FDS_EVT_WRITE 1 0x1577 0xE2EE, evt_result = FDS_SUCCESS\<rparr>]"
    using fds_write_appends [OF demo_ready demo_accepts demo_layout demo_record_ok demo_room, of demo_user 0 None demo_ram]
    unfolding a d none user Let_def by (auto simp: upt_rec)
  then show ?thesis
    by (intro exI conjI)
qed

text \<open>
  C12: Writing a record is safe against loss of power. The module is at rest, its data pages lie in its flash,
  are apart and in good order (\<open>layout_ok\<close>), the record has an admissible file and key and at most eight
  chunks that are aligned, not empty and not at \<^verbatim>\<open>NULL\<close> (\<open>record_ok\<close>), a page has room for it, flash access
  takes every valid request (\<open>fs_accepts\<close>) and the users' callbacks change their own state only. Then the
  words that the write programs, in the order of its requests, end with the one that makes the record valid,
  so after any part of them every page has exactly the valid records it had before the write, with all their
  words; after all of them it is the state of the completed write.
\<close>

theorem fds_write_power_loss:
  assumes "fds_ready s" and "fs_accepts s" and "layout_ok s" and "record_ok r"
    and "find (has_room s r) [0..<FDS_MAX_PAGES] = Some i"
  shows "\<exists>d s1 s2. fds_record_write (user_cb u) (Suc n) p_desc (Some r) s = (Ret (FDS_SUCCESS, d), s1)
    \<and> settles ram (user_cb u) (Suc n) s1 s2
    \<and> (let fl = flash_words s; ws = concat (map (stores_of ram fl) (drop (length (sd_trace s)) (sd_trace s2))) in
       flash_words s2 = foldl program fl ws
       \<and> (\<forall>k < length ws. \<forall>j < length (m_pages s). data_page (m_pages s ! j) \<longrightarrow>
           recs_of (foldl program fl (take k ws)) (m_pages s ! j) = recs_of fl (m_pages s ! j)
           \<and> (\<forall>q \<in> set (recs_of fl (m_pages s ! j)). \<forall>x. q \<le> x \<and> x < next_rec fl q \<longrightarrow> foldl program fl (take k ws) x = fl x)))"
proof -
  let ?a = "page_at (m_pages s ! i)" and ?data = "data_words ram (rec_chunks r)" and ?fl = "flash_words s"
  let ?ws = "record_words ?a (new_header r s) ?data"
  obtain d s1 s2 where run: "fds_record_write (user_cb u) (Suc n) p_desc (Some r) s = (Ret (FDS_SUCCESS, d), s1)"
      "settles ram (user_cb u) (Suc n) s1 s2" "fds_ready s2" and w: "wrote ram u r i s s2"
    using write_settles [OF assms(1,2) layout_area [OF assms(3)] assms(4,5)] by blast
  note room = found_room [OF assms(5,1)]
  note d = room_fits(1) [OF assms(3,4) room] and ok = room_fits(2) [OF assms(3,4) room] and fit = room_fits(3) [OF assms(3,4) room, of ram]
  have ws: "concat (map (stores_of ram ?fl) (drop (length (sd_trace s)) (sd_trace s2))) = ?ws"
    using w assms(4) by (simp add: wrote_def Let_def write_stores length_data_words record_ok_def)
  have "recs_of (foldl program ?fl (take k ?ws)) (m_pages s ! j) = recs_of ?fl (m_pages s ! j)
      \<and> (\<forall>q \<in> set (recs_of ?fl (m_pages s ! j)). \<forall>x. q \<le> x \<and> x < next_rec ?fl q \<longrightarrow> foldl program ?fl (take k ?ws) x = ?fl x)"
    if k: "k < length ?ws" and j: "j < length (m_pages s)" "data_page (m_pages s ! j)" for k j
  proof -
    let ?fl' = "foldl program ?fl (take k ?ws)"
    note cut = cut_recs [OF ok fit refl, of k]
    have out: "\<forall>x. x < pg_addr (m_pages s ! i) \<or> page_end (m_pages s ! i) \<le> x \<longrightarrow> ?fl' x = ?fl x"
      using cut(1) fits_end [OF fit] by (auto simp: page_at_def)
    have okj: "page_ok ?fl (m_pages s ! j)"
      using assms(3) j by (simp add: layout_ok_def)
    have "recs_of ?fl' (m_pages s ! j) = recs_of ?fl (m_pages s ! j)"
      using cut(2) k other_page(2) [OF assms(3) room(2) d j _ out] by (cases "j = i") auto
    moreover have "?fl' x = ?fl x" if q: "q \<in> set (recs_of ?fl (m_pages s ! j))" "q \<le> x" "x < next_rec ?fl q" for q x
    proof (cases "j = i")
      case True
      then have "x < ?a"
        using recs_inside(2) [OF okj q(1)] q(3) by simp
      then show ?thesis
        using cut(1) by blast
    next
      case False
      then have "pages_apart (m_pages s ! i) (m_pages s ! j)"
        using assms(3) room(2) d j by (simp add: layout_ok_def)
      moreover have "pg_addr (m_pages s ! j) \<le> x" and "x < page_end (m_pages s ! j)"
        using recs_inside [OF okj q(1)] q(2,3) page_at_le_end [OF okj] by (simp_all add: page_first_def)
      ultimately show ?thesis
        using out by (auto simp: pages_apart_def)
    qed
    ultimately show ?thesis
      by blast
  qed
  then show ?thesis
    using run w ws by (intro exI [of _ d] exI [of _ s1] exI [of _ s2]) (auto simp: wrote_def Let_def)
qed

theorem fds_write_power_loss_witness:
  "\<exists>d s1 s2. fds_record_write (user_cb demo_user) 1 None (Some demo_record) demo_fds = (Ret (FDS_SUCCESS, d), s1)
    \<and> settles demo_ram (user_cb demo_user) 1 s1 s2
    \<and> (let ws = concat (map (stores_of demo_ram (flash_words demo_fds)) (sd_trace s2)) in
       flash_words s2 = foldl program (flash_words demo_fds) ws
       \<and> (\<forall>k < length ws. recs_of (foldl program (flash_words demo_fds) (take k ws)) (demo_page 0x1E400) = recs_of demo_flash (demo_page 0x1E400)))"
proof -
  have "sd_trace demo_fds = []" "m_pages demo_fds ! 0 = demo_page 0x1E400" "0 < length (m_pages demo_fds)" "data_page (demo_page 0x1E400)"
      "flash_words demo_fds = demo_flash"
    by (simp_all add: demo_fds_def data_page_def demo_page_def)
  moreover obtain d s1 s2 where "fds_record_write (user_cb demo_user) 1 None (Some demo_record) demo_fds = (Ret (FDS_SUCCESS, d), s1)"
      "settles demo_ram (user_cb demo_user) 1 s1 s2"
      "let fl = flash_words demo_fds; ws = concat (map (stores_of demo_ram fl) (drop (length (sd_trace demo_fds)) (sd_trace s2))) in
       flash_words s2 = foldl program fl ws
       \<and> (\<forall>k < length ws. \<forall>j < length (m_pages demo_fds). data_page (m_pages demo_fds ! j) \<longrightarrow>
           recs_of (foldl program fl (take k ws)) (m_pages demo_fds ! j) = recs_of fl (m_pages demo_fds ! j)
           \<and> (\<forall>q \<in> set (recs_of fl (m_pages demo_fds ! j)). \<forall>x. q \<le> x \<and> x < next_rec fl q \<longrightarrow> foldl program fl (take k ws) x = fl x))"
    using fds_write_power_loss [OF demo_ready demo_accepts demo_layout demo_record_ok demo_room, of demo_user 0 None demo_ram]
    unfolding One_nat_def by blast
  ultimately show ?thesis
    by (intro exI [of _ d] exI [of _ s1] exI [of _ s2]) (fastforce simp: Let_def)
qed

text \<open>
  C14: Searching is complete: on an initialised module, from a zeroed token and with nothing written
  meanwhile, calling the search again and again ends, and until then it reports, in page order, exactly the
  valid records on the data pages whose file and key are those asked for (either may be left open), each
  once, with its identifier and its address.
\<close>

theorem fds_search_complete:
  assumes "flag_is_set FDS_FLAG_INITIALIZED s" and "length (m_pages s) = FDS_MAX_PAGES"
  shows "(\<exists>ds. finds f k s zero_token ds) \<and> (\<forall>ds. finds f k s zero_token ds \<longrightarrow> list_all2 (desc_at s) (stored f k s) ds)"
proof -
  have t: "token_ok s zero_token"
    by (simp add: token_ok_def zero_token_def)
  have "m_pages s \<noteq> []"
    using assms(2) by (auto simp: FDS_MAX_PAGES_def FDS_VIRTUAL_PAGES_def)
  then have "rest_of (flash_words s) f k (m_pages s) (unat (t_page zero_token)) (t_addr zero_token) = stored f k s"
    by (simp add: zero_token_def rest_of_0 stored_def)
  then show ?thesis
    using finds_rest [OF assms t] by blast
qed

theorem fds_search_complete_witness:
  "stored (Some 0x1577) (Some 0xE2EE) demo_stored = [0x1E408]
   \<and> (\<exists>ds. finds (Some 0x1577) (Some 0xE2EE) demo_stored zero_token ds \<and> list_all2 (desc_at demo_stored) [0x1E408] ds)"
proof -
  have ini: "flag_is_set FDS_FLAG_INITIALIZED demo_stored" and n: "length (m_pages demo_stored) = FDS_MAX_PAGES"
    by (simp_all add: demo_stored_def demo_fds_def flag_is_set_def FDS_FLAG_INITIALIZED_def FDS_MAX_PAGES_def FDS_VIRTUAL_PAGES_def)
  note h = demo_stored_header and r = demo_stored_recs
  have st: "stored (Some 0x1577) (Some 0xE2EE) demo_stored = [0x1E408]"
    by (simp add: stored_def demo_stored_pages demo_page_data matching_def r h rec_matches_def)
  then show ?thesis
    using fds_search_complete [OF ini n, of "Some 0x1577" "Some 0xE2EE"] by auto
qed

end
