(* ===== verification/FdsDelete.thy ===== *)
theory FdsDelete
  imports FdsRuns
begin

text \<open>
  Deleting a record of the flash data storage, and the initialisation: the defects of the promotion of
  the swap page, of an update without a record and of a failed write.
\<close>

unbundle bit_operations_syntax

subsection \<open>Making a record dirty\<close>

lemma dirty_tl: "tl_of (w AND tl_word m_fds_tl_dirty) = \<lparr>record_key = FDS_RECORD_KEY_DIRTY, length_words = length_words (tl_of w)\<rparr>"
proof -
  have "tl_word m_fds_tl_dirty = push_bit 16 (mask 16)"
    by (simp add: tl_word_def m_fds_tl_dirty_def FDS_RECORD_KEY_DIRTY_def mask_eq_exp_minus_1)
  then have m: "bit (tl_word m_fds_tl_dirty) n \<longleftrightarrow> 16 \<le> n \<and> n < 32" for n
    by (simp only: bit_push_bit_iff bit_mask_iff) (auto simp: possible_bit_def)
  have "(ucast (w AND tl_word m_fds_tl_dirty) :: u16) = 0"
    by (rule bit_word_eqI) (auto simp: bit_simps m)
  moreover have "(ucast (drop_bit 16 (w AND tl_word m_fds_tl_dirty)) :: u16) = ucast (drop_bit 16 w)"
    by (rule bit_word_eqI) (auto simp: bit_simps m)
  ultimately show ?thesis
    by (simp add: tl_of_def FDS_RECORD_KEY_DIRTY_def)
qed

definition dirtied :: "flash \<Rightarrow> nat \<Rightarrow> flash" where
  "dirtied fl q = fl(q := fl q AND tl_word m_fds_tl_dirty)"

lemma dirtied_header:
  "header_at (dirtied fl q) q = (header_at fl q)\<lparr>h_tl := \<lparr>record_key = FDS_RECORD_KEY_DIRTY, length_words = length_words (h_tl (header_at fl q))\<rparr>\<rparr>"
  by (simp add: dirtied_def header_at_def dirty_tl)

lemma dirtied_written: "dirtied fl q q \<noteq> FDS_ERASED_WORD"
proof
  assume "dirtied fl q q = FDS_ERASED_WORD"
  then have "record_key (tl_of FDS_ERASED_WORD) = FDS_RECORD_KEY_DIRTY"
    using dirtied_header [of fl q] by (simp add: header_at_def)
  then show False
    by (simp add: tl_of_def FDS_ERASED_WORD_def FDS_RECORD_KEY_DIRTY_def)
qed

lemma dirtied_chain:
  assumes "chain fl a p" and "q \<in> set (page_recs fl a p) \<or> q < p"
  shows "chain (dirtied fl q) a p \<and> page_recs (dirtied fl q) a p = page_recs fl a p
    \<and> (\<forall>x \<in> set (page_recs fl a p). x \<noteq> q \<longrightarrow> header_at (dirtied fl q) x = header_at fl x)"
  using assms
proof (induction fl a p rule: chain.induct)
  case (1 fl a p)
  let ?d = "dirtied fl q"
  show ?case
  proof (cases "p = a")
    case True
    then show ?thesis
      using chain.simps [of ?d a a] page_recs.simps [of ?d a a] page_recs.simps [of fl a a] by simp
  next
    case False
    note c = chain_next [OF 1(2) False]
    have rs: "page_recs fl a p = p # page_recs fl a (next_rec fl p)"
      using c page_recs.simps [of fl a p] by simp
    have n: "next_rec ?d p = next_rec fl p" and w: "?d p \<noteq> FDS_ERASED_WORD" and h: "p \<noteq> q \<longrightarrow> header_at ?d p = header_at fl p"
      and q: "q \<in> set (page_recs fl a (next_rec fl p)) \<or> q < next_rec fl p"
    proof -
      show q: "q \<in> set (page_recs fl a (next_rec fl p)) \<or> q < next_rec fl p"
        using 1(3) rs by (auto intro: less_trans [OF _ next_rec_gt])
      have apart: "p \<noteq> q \<Longrightarrow> q < p \<or> p + 12 \<le> q"
        using 1(3) rs page_recs_ge [of q fl a "next_rec fl p"] next_rec_ge [of p fl] by auto
      then show h: "p \<noteq> q \<longrightarrow> header_at ?d p = header_at fl p"
        by (auto intro!: header_cong simp: dirtied_def)
      show "next_rec ?d p = next_rec fl p"
        using h dirtied_header [of fl q] by (cases "p = q") (simp_all add: next_rec_def)
      show "?d p \<noteq> FDS_ERASED_WORD"
        using dirtied_written [of fl q] c(2) by (cases "p = q") (simp_all add: dirtied_def)
    qed
    have ih: "chain ?d a (next_rec fl p) \<and> page_recs ?d a (next_rec fl p) = page_recs fl a (next_rec fl p)
        \<and> (\<forall>x \<in> set (page_recs fl a (next_rec fl p)). x \<noteq> q \<longrightarrow> header_at ?d x = header_at fl x)"
      using 1(1) c q by blast
    then have "chain ?d a p" and "page_recs ?d a p = page_recs fl a p"
      using c(1) w n rs chain.simps [of ?d a p] page_recs.simps [of ?d a p] by simp_all
    then show ?thesis
      using ih h rs by simp
  qed
qed

text \<open>On the page of the record.\<close>

lemma dirtied_page:
  assumes ok: "page_ok fl pg" and q: "q \<in> set (recs_of fl pg)"
  shows "page_ok (dirtied fl q) pg" and "recs_of (dirtied fl q) pg = filter (\<lambda>x. x \<noteq> q) (recs_of fl pg)"
    and "x \<in> set (recs_of fl pg) \<Longrightarrow> x \<noteq> q \<Longrightarrow> header_at (dirtied fl q) x = header_at fl x"
proof -
  let ?d = "dirtied fl q"
  have c: "chain fl (page_at pg) (page_first pg)"
    using ok by (simp add: page_ok_def)
  have qp: "q \<in> set (page_recs fl (page_at pg) (page_first pg))"
    using q page_ok_recs [OF ok] by simp
  note d = dirtied_chain [OF c disjI1 [OF qp]]
  have "q < page_at pg"
    using page_recs_ge [OF qp] by simp
  then have "?d (pg_addr pg + 4 * i) = fl (pg_addr pg + 4 * i)" if "unat (write_offset pg) \<le> i" for i
    using that by (simp add: dirtied_def page_at_def)
  then show ok': "page_ok ?d pg"
    using d ok by (simp add: page_ok_def)
  have "\<not> rec_valid ?d q"
    by (simp add: rec_valid_def dirtied_header header_is_valid_def)
  then have "filter (rec_valid ?d) (page_recs fl (page_at pg) (page_first pg))
      = filter (\<lambda>x. x \<noteq> q) (valid_recs fl (page_at pg) (page_first pg))"
    using d by (auto simp: rec_valid_def intro!: filter_cong)
  then show "recs_of ?d pg = filter (\<lambda>x. x \<noteq> q) (recs_of fl pg)"
    using d page_ok_recs [OF ok] page_ok_recs [OF ok'] by simp
  show "header_at ?d x = header_at fl x" if "x \<in> set (recs_of fl pg)" "x \<noteq> q"
    using d that page_ok_recs [OF ok] by simp
qed

subsection \<open>Deleting a record\<close>

text \<open>The first record with an identifier, page by page.\<close>

definition located :: "'w fds_scheme \<Rightarrow> u32 \<Rightarrow> nat \<Rightarrow> nat \<Rightarrow> bool" where
  "located s i k q \<longleftrightarrow> find_id_pages (flash_words s) (m_pages s) i [0..<FDS_MAX_PAGES] = Some (k, q)"

lemma find_id_pages_Some:
  "find_id_pages fl pgs i ks = Some (k, q) \<Longrightarrow> k \<in> set ks \<and> q \<in> set (recs_of fl (pgs ! k)) \<and> record_id (header_at fl q) = i"
  by (induction ks) (auto simp: find_id_recs find_Some_iff split: option.splits)

text \<open>The state in which a delete is the only queued operation and is being processed.\<close>

definition op_queued :: "'w fds_scheme \<Rightarrow> fds_op \<Rightarrow> 'w fds_scheme" where
  "op_queued s op = s\<lparr>op_queue := (op_queue s)[unat (op_rp s) := op], op_count := 1, m_flags := m_flags s OR FDS_FLAG_PROCESSING\<rparr>"

lemma op_queued_sel [simp]:
  "op_rp (op_queued s op) = op_rp s" "op_count (op_queued s op) = 1" "sd_env (op_queued s op) = sd_env s"
  "sd_trace (op_queued s op) = sd_trace s" "m_cb_table (op_queued s op) = m_cb_table s" "m_pages (op_queued s op) = m_pages s"
  "flash_words (op_queued s op) = flash_words s" "chunk_rp (op_queued s op) = chunk_rp s" "chunk_count (op_queued s op) = chunk_count s"
  "chunk_queue (op_queued s op) = chunk_queue s" "fds.more (op_queued s op) = fds.more s" "m_gc (op_queued s op) = m_gc s"
  "length (op_queue (op_queued s op)) = length (op_queue s)" "m_swap_page (op_queued s op) = m_swap_page s"
  "flag_is_set FDS_FLAG_PROCESSING (op_queued s op)" "fs_accepts (op_queued s op) = fs_accepts s"
  "flag_is_set FDS_FLAG_INITIALIZED (op_queued s op) = flag_is_set FDS_FLAG_INITIALIZED s"
  "p_start_addr (op_queued s op) = p_start_addr s" "p_end_addr (op_queued s op) = p_end_addr s"
  by (simp_all add: op_queued_def fs_accepts_def fs_accepts_in_def fds_flag_bits flags_bit bit_or_iff)

lemma cur_op_queued: "unat (op_rp s) < length (op_queue s) \<Longrightarrow> cur_op (op_queued s op) = op"
  by (simp add: op_queued_def cur_op_def)

lemma enqueue_runs:
  assumes ready: "fds_ready s"
  shows "enqueue_or_full cb n op id s = bnd (fds_queue_process cb n FS_SUCCESS) (\<lambda>_. ret FDS_SUCCESS) (op_queued s op)"
proof -
  have e: "op_enqueue op [] s = (Ret True, (op_queued s op)\<lparr>m_flags := m_flags s\<rparr>)"
    using ready by (subst enqueue_ready) (simp_all add: fds_ready_def op_queued_def put_chunks_def)
  have "flag_set FDS_FLAG_PROCESSING ((op_queued s op)\<lparr>m_flags := m_flags s\<rparr>) = op_queued s op"
    and "\<not> flag_is_set FDS_FLAG_PROCESSING ((op_queued s op)\<lparr>m_flags := m_flags s\<rparr>)"
    using ready by (simp_all add: flag_set_def op_queued_def flag_is_set_def fds_ready_def)
  then show ?thesis
    using e by (simp add: enqueue_or_full_def bnd_run fds_queue_start_def)
qed

lemma process_op:
  assumes "fds_op_execute r (cur_op s) s = (Ret (FDS_OP_EXECUTING, op), s')"
  shows "fds_queue_process cb (Suc n) r s = (Ret (), put_op op s')"
  using assms by (simp add: bnd_run)

lemma flag_dirty_accepted:
  "fs_accepts s \<Longrightarrow> fs_valid (p_start_addr s) (p_end_addr s) (Store (Fs_store q (From_words [tl_word m_fds_tl_dirty]) 1)) \<Longrightarrow>
   record_header_flag_dirty q k s = (Ret FDS_SUCCESS,
     put_page k (\<lambda>pg. pg\<lparr>can_gc := True\<rparr>) (s\<lparr>sd_trace := sd_trace s @ [Store (Fs_store q (From_words [tl_word m_fds_tl_dirty]) 1)]\<rparr>))"
  by (simp add: record_header_flag_dirty_def fs_store_accepted bnd_run del: fs_valid.simps)

lemma perform_dirty: "perform ram (Store (Fs_store q (From_words [tl_word m_fds_tl_dirty]) 1)) fl = dirtied fl q"
  by (simp add: dirtied_def src_word_def program_def)

lemma delete_settles:
  assumes ready: "fds_ready s" and acc: "fs_accepts s" and found: "located s (d_record_id d) k q" and k: "k < FDS_MAX_PAGES"
    and v: "fs_valid (p_start_addr s) (p_end_addr s) (Store (Fs_store q (From_words [tl_word m_fds_tl_dirty]) 1))"
  obtains s1 s2 where "fds_record_delete (user_cb u) (Suc n) junk (Some d) s = (Ret FDS_SUCCESS, s1)"
    and "settles ram (user_cb u) (Suc n) s1 s2" and "fds_ready s2" and "flash_words s2 = dirtied (flash_words s) q"
    and "m_pages s2 = (m_pages s)[k := (m_pages s ! k)\<lparr>can_gc := True\<rparr>]"
    and "p_start_addr s2 = p_start_addr s" and "p_end_addr s2 = p_end_addr s"
    and "fds.more s2 = notify u (m_cb_table s) \<lparr>evt_id = FDS_EVT_DEL_RECORD (d_record_id d) (file_id (h_ic (header_at (flash_words s) q)))
        (record_key (h_tl (header_at (flash_words s) q))), evt_result = FDS_SUCCESS\<rparr> (fds.more s)"
proof -
  let ?d0 = "junk\<lparr>del_step := FDS_OP_DEL_RECORD_FLAG_DIRTY, del_record_to_delete := d_record_id d\<rparr>"
  let ?h = "header_at (flash_words s) q"
  let ?d1 = "?d0\<lparr>del_file_id := file_id (h_ic ?h), del_record_key := record_key (h_tl ?h), del_step := FDS_OP_DEL_DONE\<rparr>"
  let ?q = "op_queued s (FDS_OP_DEL_RECORD ?d0)" and ?c = "Store (Fs_store q (From_words [tl_word m_fds_tl_dirty]) 1)"
  let ?b = "put_page k (\<lambda>pg. pg\<lparr>can_gc := True\<rparr>) ?q"
  let ?s1 = "working ram ?b (FDS_OP_DEL_RECORD ?d1) [?c] (chunk_rp s) 0"
  let ?p = "performed ram ?b (FDS_OP_DEL_RECORD ?d1) [?c] (chunk_rp s) 0"
  let ?s2 = "conclude u (FDS_OP_DEL_RECORD ?d1) ?p"
  have len: "length (m_pages s) = FDS_MAX_PAGES" and opq: "length (op_queue s) = 4" "unat (op_rp s) < 4" and ini: "flag_is_set FDS_FLAG_INITIALIZED s"
    and cc: "chunk_count s = 0"
    using ready by (simp_all add: fds_ready_def)
  have "record_find_by_desc (zero_desc\<lparr>d_record_id := d_record_id d\<rparr>) ?q
      = Some (zero_desc\<lparr>d_record_id := d_record_id d, d_record := q, d_gc_run_count := gc_run_count (m_gc s)\<rparr>, k)"
    using found by (simp add: record_find_by_desc_def address_is_valid_def zero_desc_def located_def)
  then have "fds_op_execute FS_SUCCESS (FDS_OP_DEL_RECORD ?d0) ?q
      = (Ret (FDS_OP_EXECUTING, FDS_OP_DEL_RECORD ?d1), put_page k (\<lambda>pg. pg\<lparr>can_gc := True\<rparr>) (?q\<lparr>sd_trace := sd_trace s @ [?c]\<rparr>))"
    using acc v by (simp add: fds_op_execute_def delete_execute_def record_find_and_delete_def bnd_run flag_dirty_accepted
        FDS_OP_EXECUTING_def FDS_SUCCESS_def del: fs_valid.simps)
  then have "fds_queue_process (user_cb u) (Suc n) FS_SUCCESS ?q
      = (Ret (), put_op (FDS_OP_DEL_RECORD ?d1) (put_page k (\<lambda>pg. pg\<lparr>can_gc := True\<rparr>) (?q\<lparr>sd_trace := sd_trace s @ [?c]\<rparr>)))"
    using opq by (intro process_op) (simp add: cur_op_queued)
  also have "\<dots> = (Ret (), ?s1)"
    using k len cc by (simp add: put_op_def put_page_def working_def perform_all_def)
  finally have start: "fds_record_delete (user_cb u) (Suc n) junk (Some d) s = (Ret FDS_SUCCESS, ?s1)"
    using ini by (simp add: fds_record_delete_def bnd_run enqueue_runs [OF ready] del: fds_queue_process.simps)
  have "fds_op_execute FS_SUCCESS (cur_op ?p) ?p = (Ret (FDS_OP_COMPLETED, FDS_OP_DEL_RECORD ?d1), ?p)"
    using opq by (simp add: cur_op_performed fds_op_execute_def delete_execute_def bnd_run)
  then have "fds_queue_process (user_cb u) (Suc n) FS_SUCCESS ?p = (Ret (), ?s2)"
    using ready by (intro process_completed) (simp_all add: fds_ready_def)
  then have "fds_turn ram (user_cb u) (Suc n) ?s1 = (Ret (), ?s2)"
    using turn_working [of "[?c]" ram "user_cb u" "Suc n"] by (simp del: fds_queue_process.simps)
  then have run: "settles ram (user_cb u) (Suc n) ?s1 ?s2"
    by (intro settles_turn [OF _ _ settles_rest]) simp_all
  have "fds_ready ?s2"
    using ready by (intro conclude_ready) (simp_all add: fds_ready_def)
  moreover have "flash_words ?s2 = dirtied (flash_words s) q"
    by (simp add: perform_all_def perform_dirty del: perform.simps)
  moreover have "m_pages ?s2 = (m_pages s)[k := (m_pages s ! k)\<lparr>can_gc := True\<rparr>]"
    using k len by (simp add: put_page_pages)
  moreover have "fds.more ?s2 = notify u (m_cb_table s) \<lparr>evt_id = FDS_EVT_DEL_RECORD (d_record_id d) (file_id (h_ic ?h)) (record_key (h_tl ?h)),
      evt_result = FDS_SUCCESS\<rparr> (fds.more s)"
    by (simp add: event_prepare_def)
  moreover have "p_start_addr ?s2 = p_start_addr s" "p_end_addr ?s2 = p_end_addr s"
    by simp_all
  ultimately show thesis
    using that start run by blast
qed

text \<open>A valid record of a page of the module's flash is at an address at which a request may write.\<close>

lemma page_recs_aligned: "q \<in> set (page_recs fl a p) \<Longrightarrow> p mod 4 = 0 \<Longrightarrow> q mod 4 = 0"
proof (induction fl a p rule: page_recs.induct)
  case (1 fl a p)
  have "next_rec fl p mod 4 = 0"
    using "1.prems"(2) by (simp add: next_rec_def mod_add_left_eq [symmetric, of p])
  with 1 show ?case
    by (auto simp: page_recs.simps [of fl a p] split: if_splits)
qed

lemma dirty_valid:
  assumes "layout_ok s" and "k < length (m_pages s)" and "data_page (m_pages s ! k)" and "q \<in> set (recs_of (flash_words s) (m_pages s ! k))"
  shows "fs_valid (p_start_addr s) (p_end_addr s) (Store (Fs_store q (From_words ws) 1))"
proof -
  let ?pg = "m_pages s ! k"
  have pg: "pg_addr ?pg \<noteq> 0" "pg_addr ?pg mod 1024 = 0" "p_start_addr s \<le> pg_addr ?pg" "page_end ?pg \<le> p_end_addr s"
    and ok: "page_ok (flash_words s) ?pg"
    using assms(1-3) by (simp_all add: layout_ok_def area_ok_def page_in_def)
  have "page_first ?pg \<le> q" "q + 12 \<le> page_end ?pg"
    using recs_inside [OF ok assms(4)] page_at_le_end [OF ok] by (auto simp: next_rec_def FDS_HEADER_SIZE_def)
  moreover have "page_first ?pg mod 4 = 0"
    using pg(2) mod_mod_cancel [of 4 1024 "pg_addr ?pg"] by (simp add: page_first_def mod_add_left_eq [symmetric, of "pg_addr ?pg"])
  then have "q mod 4 = 0"
    using page_recs_aligned assms(4) unfolding recs_of_def by auto
  ultimately show ?thesis
    using pg by (simp add: page_first_def)
qed

subsection \<open>Initialisation after an interrupted garbage collection\<close>

text \<open>The module before its first initialisation: its variables are zeroed.\<close>

definition pages_fresh :: "'w fds_scheme \<Rightarrow> bool" where
  "pages_fresh s \<longleftrightarrow> m_pages s = replicate FDS_MAX_PAGES zero_page \<and> m_swap_page s = \<lparr>swap_addr = 0, swap_offset = 0\<rparr> \<and> gc_cur_page (m_gc s) = 0"

definition fds_fresh :: "'w fds_scheme \<Rightarrow> bool" where
  "fds_fresh s \<longleftrightarrow> m_flags s = 0 \<and> length (op_queue s) = 4 \<and> op_rp s = 0 \<and> op_count s = 0 \<and> chunk_rp s = 0 \<and> chunk_count s = 0
     \<and> length (chunk_queue s) = 8 \<and> pages_fresh s \<and> length (m_cb_table s) = FDS_MAX_USERS"

lemma erased_identify:
  assumes "page_is_erased fl p"
  shows "page_identify fl p = FDS_PAGE_UNDEFINED"
proof -
  have "fl (p + 4 * 0) = FDS_ERASED_WORD"
    using assms unfolding page_is_erased_def list_all_iff by (rule bspec) (simp add: FDS_PAGE_SIZE_def)
  then show ?thesis
    by (simp add: page_identify_def FDS_ERASED_WORD_def FDS_PAGE_TAG_MAGIC_def)
qed

lemma three_pages: "[0..<FDS_VIRTUAL_PAGES] = [0, 1, 2]"
  by (simp add: FDS_VIRTUAL_PAGES_def upt_rec)

text \<open>The first page was erased, the second has data, the third is a swap page with records.\<close>

definition interrupted_gc :: "flash \<Rightarrow> nat \<Rightarrow> bool" where
  "interrupted_gc fl p \<longleftrightarrow> p \<noteq> 0 \<and> page_is_erased fl p \<and> page_identify fl (p + 1024) = FDS_PAGE_DATA
     \<and> page_identify fl (p + 2048) = FDS_PAGE_SWAP \<and> (\<forall>l. fst (page_scan fl (p + 2048) l) \<noteq> 2)"

lemma pages_init_interrupted:
  assumes fresh: "pages_fresh s" and gc: "interrupted_gc (flash_words s) (p_start_addr s)"
  obtains w1 d1 w2 l where "pages_init s = (Ret (PAGE_ERASED OR PAGE_DATA OR PAGE_SWAP_DIRTY),
     s\<lparr>m_latest_rec_id := l, m_pages := [zero_page\<lparr>pg_addr := p_start_addr s + 1024, write_offset := w1, can_gc := d1\<rparr>, erased_page (p_start_addr s) zero_page],
       m_swap_page := \<lparr>swap_addr = p_start_addr s + 2048, swap_offset = w2\<rparr>\<rparr>)"
proof -
  let ?fl = "flash_words s" and ?p = "p_start_addr s"
  obtain w1 d1 l1 where s1: "page_scan ?fl (?p + 1024) (m_latest_rec_id s) = (w1, d1, l1)"
    by (metis prod_cases3)
  obtain w2 d2 l2 where s2: "page_scan ?fl (?p + 2048) l1 = (w2, d2, l2)"
    by (metis prod_cases3)
  have w2: "w2 \<noteq> 2"
    using gc s2 by (auto simp: interrupted_gc_def dest!: spec [of _ l1])
  have id: "page_identify ?fl ?p = FDS_PAGE_UNDEFINED"
    using gc erased_identify by (simp add: interrupted_gc_def)
  have sw: "swap_addr (m_swap_page s) = 0" and pgs: "m_pages s = [zero_page, zero_page]"
    using fresh by (simp_all add: pages_fresh_def FDS_MAX_PAGES_def FDS_VIRTUAL_PAGES_def numeral_2_eq_2)
  have a: "pages_init_page ((0, 0, False), s) 0
      = ((PAGE_ERASED, 0, True), s\<lparr>m_swap_page := \<lparr>swap_addr = ?p, swap_offset = of_nat FDS_PAGE_TAG_SIZE\<rparr>\<rparr>)" (is "_ = (_, ?s1)")
    using id gc sw by (simp add: pages_init_page_def Let_def interrupted_gc_def put_swap_def)
  let ?pg1 = "zero_page\<lparr>pg_addr := ?p + 1024, write_offset := w1, can_gc := d1\<rparr>"
  have b: "pages_init_page ((PAGE_ERASED, 0, True), ?s1) 1
      = ((PAGE_ERASED OR PAGE_DATA, 1, True), ?s1\<lparr>m_latest_rec_id := l1, m_pages := [?pg1, zero_page]\<rparr>)" (is "_ = (_, ?s2)")
    using gc s1 pgs by (simp add: pages_init_page_def Let_def interrupted_gc_def put_page_def FDS_PAGE_SIZE_def zero_page_def)
  have c: "pages_init_page ((PAGE_ERASED OR PAGE_DATA, 1, True), ?s2) 2
      = ((PAGE_ERASED OR PAGE_DATA OR PAGE_SWAP_DIRTY, 2, True),
         ?s2\<lparr>m_latest_rec_id := l2, m_pages := [?pg1, erased_page ?p zero_page], m_swap_page := \<lparr>swap_addr = ?p + 2048, swap_offset = w2\<rparr>\<rparr>)"
    using gc s2 w2 by (simp add: pages_init_page_def Let_def interrupted_gc_def put_page_def put_swap_def FDS_PAGE_SIZE_def FDS_PAGE_TAG_SIZE_def or.assoc)
  have "pages_init s = (Ret (PAGE_ERASED OR PAGE_DATA OR PAGE_SWAP_DIRTY),
     s\<lparr>m_latest_rec_id := l2, m_pages := [?pg1, erased_page ?p zero_page], m_swap_page := \<lparr>swap_addr = ?p + 2048, swap_offset = w2\<rparr>\<rparr>)"
    unfolding pages_init_def three_pages using a b c by simp
  then show thesis
    by (rule that)
qed

lemma settles_op:
  assumes rs: "rs \<noteq> []" "is_fs (last rs)" and q: "unat (op_rp b) < length (op_queue b)" "flag_is_set FDS_FLAG_PROCESSING b"
    and e: "fds_op_execute FS_SUCCESS op (performed ram b op rs rp cnt)
      = (Ret (FDS_OP_EXECUTING, op'), (performed ram b' op rs rp cnt)\<lparr>sd_trace := sd_trace b' @ rs @ [c]\<rparr>)"
    and s': "settles ram cb (Suc n) (working ram b' op' (rs @ [c]) rp cnt) s'"
  shows "settles ram cb (Suc n) (working ram b op rs rp cnt) s'"
proof (rule settles_turn [OF _ _ s'])
  have "fds_queue_process cb (Suc n) FS_SUCCESS (performed ram b op rs rp cnt)
      = (Ret (), put_op op' ((performed ram b' op rs rp cnt)\<lparr>sd_trace := sd_trace b' @ rs @ [c]\<rparr>))"
    using e q by (intro process_op) (simp add: cur_op_performed)
  also have "\<dots> = (Ret (), working ram b' op' (rs @ [c]) rp cnt)"
    by (simp add: performed_def working_def put_op_def)
  finally show "fds_turn ram cb (Suc n) (working ram b op rs rp cnt) = (Ret (), working ram b' op' (rs @ [c]) rp cnt)"
    unfolding turn_working [OF rs] .
qed (use q in simp)

definition tag_req :: "nat \<Rightarrow> u32 \<Rightarrow> call" where
  "tag_req p t = Store (Fs_store p (From_words [FDS_PAGE_TAG_MAGIC, t]) 2)"

text \<open>Three whole pages of flash.\<close>

definition flash_area :: "nat \<Rightarrow> nat \<Rightarrow> bool" where
  "flash_area p e \<longleftrightarrow> p \<noteq> 0 \<and> p mod 1024 = 0 \<and> e = p + 3 * 1024"

lemma flash_area_tag:
  assumes "flash_area p e" and "k < 3"
  shows "fs_valid p e (tag_req (p + 1024 * k) t)"
proof -
  have "p mod 4 = 0"
    using assms(1) mod_mod_cancel [of 4 1024 p] by (simp add: flash_area_def)
  then have "(p + 1024 * k) mod 4 = 0"
    by (simp add: mod_add_left_eq [symmetric, of p] mod_mult_left_eq [symmetric, of 1024])
  then show ?thesis
    using assms by (simp add: flash_area_def tag_req_def)
qed

lemma tag_data_accepted:
  "fs_accepts s \<Longrightarrow> fs_valid (p_start_addr s) (p_end_addr s) (tag_req p FDS_PAGE_TAG_DATA) \<Longrightarrow> page_tag_write_data p s = (Ret FS_SUCCESS, s\<lparr>sd_trace := sd_trace s @ [tag_req p FDS_PAGE_TAG_DATA]\<rparr>)"
  by (simp add: page_tag_write_data_def fs_store_accepted tag_req_def FDS_PAGE_TAG_SIZE_def)

lemma tag_swap_accepted:
  "fs_accepts s \<Longrightarrow> fs_valid (p_start_addr s) (p_end_addr s) (tag_req (swap_addr (m_swap_page s)) FDS_PAGE_TAG_SWAP) \<Longrightarrow> page_tag_write_swap s
    = (Ret FS_SUCCESS, s\<lparr>sd_trace := sd_trace s @ [tag_req (swap_addr (m_swap_page s)) FDS_PAGE_TAG_SWAP]\<rparr>)"
  by (simp add: page_tag_write_swap_def fs_store_accepted tag_req_def FDS_PAGE_TAG_SIZE_def bnd_run)

lemma tag_req_fs [simp]: "is_fs (tag_req p t)"
  by (simp add: tag_req_def)

lemma perform_tag:
  "perform ram (tag_req p t) fl = fl(p := fl p AND FDS_PAGE_TAG_MAGIC, p + 4 := fl (p + 4) AND t)"
  by (simp add: tag_req_def src_word_def program_def upt_rec fun_eq_iff)

text \<open>From the tagging of the swap page on, with the second page still to be tagged.\<close>

lemma settles_tagging:
  assumes acc: "fs_accepts b" and q: "length (op_queue b) = 4" "unat (op_rp b) < 4" "op_count b = 1" "flag_is_set FDS_FLAG_PROCESSING b"
      "length (m_cb_table b) = FDS_MAX_USERS"
    and pgs: "m_pages b = [pg0, pg1]" "pg_type pg0 = FDS_PAGE_DATA" "pg_type pg1 = FDS_PAGE_ERASED"
    and v: "fs_valid (p_start_addr b) (p_end_addr b) (tag_req (swap_addr (m_swap_page b)) FDS_PAGE_TAG_SWAP)"
      "fs_valid (p_start_addr b) (p_end_addr b) (tag_req (pg_addr pg1) FDS_PAGE_TAG_DATA)" and rs: "rs \<noteq> []" "is_fs (last rs)"
  defines "b' \<equiv> put_page 1 (\<lambda>pg. pg\<lparr>pg_type := FDS_PAGE_DATA\<rparr>) b"
    and "rs' \<equiv> rs @ [tag_req (swap_addr (m_swap_page b)) FDS_PAGE_TAG_SWAP] @ [tag_req (pg_addr pg1) FDS_PAGE_TAG_DATA]"
  shows "settles ram (user_cb u) (Suc n) (working ram b (FDS_OP_INIT FDS_OP_INIT_TAG_SWAP) rs rp cnt)
     (conclude u (FDS_OP_INIT FDS_OP_INIT_TAG_DATA) (flag_clear FDS_FLAG_INITIALIZING (flag_set FDS_FLAG_INITIALIZED
        (performed ram b' (FDS_OP_INIT FDS_OP_INIT_TAG_DATA) rs' rp cnt))))" (is "settles _ _ _ _ ?fin")
proof -
  let ?sw = "FDS_OP_INIT FDS_OP_INIT_TAG_SWAP" and ?da = "FDS_OP_INIT FDS_OP_INIT_TAG_DATA"
  let ?t1 = "tag_req (swap_addr (m_swap_page b)) FDS_PAGE_TAG_SWAP" and ?t2 = "tag_req (pg_addr pg1) FDS_PAGE_TAG_DATA"
  have two: "[0..<FDS_MAX_PAGES] = [0, 1]"
    by (simp add: FDS_MAX_PAGES_def FDS_VIRTUAL_PAGES_def upt_rec)
  have gp: "get_page 0 b = pg0" "get_page 1 b = pg1" "get_page (Suc 0) b = pg1"
    using pgs by (simp_all add: get_page_def)
  have pgs': "m_pages b' = [pg0, pg1\<lparr>pg_type := FDS_PAGE_DATA\<rparr>]"
    using pgs by (simp add: b'_def put_page_def)
  have acc': "fs_accepts b'"
    using acc by (simp add: b'_def)
  have swp: "swap_addr (m_swap_page (performed ram b op rs rp cnt)) = swap_addr (m_swap_page b)" for op rs
    by (simp add: performed_def working_def)
  have e1: "fds_op_execute FS_SUCCESS ?sw (performed ram b ?sw rs rp cnt)
      = (Ret (FDS_OP_EXECUTING, ?da), (performed ram b ?sw rs rp cnt)\<lparr>sd_trace := sd_trace b @ rs @ [?t1]\<rparr>)"
    using acc v by (simp add: fds_op_execute_def init_execute_def bnd_run tag_swap_accepted swp init_done_def FDS_SUCCESS_def FS_SUCCESS_def)
  have pp: "put_page 1 f ((performed ram b op rs rp cnt)\<lparr>sd_trace := t\<rparr>) = (performed ram (put_page 1 f b) op rs rp cnt)\<lparr>sd_trace := t\<rparr>" for f op rs t
    using pgs by (simp add: put_page_def performed_def working_def)
  have e2: "fds_op_execute FS_SUCCESS ?da (performed ram b ?da (rs @ [?t1]) rp cnt)
      = (Ret (FDS_OP_EXECUTING, ?da), (performed ram b' ?da (rs @ [?t1]) rp cnt)\<lparr>sd_trace := sd_trace b' @ (rs @ [?t1]) @ [?t2]\<rparr>)"
    using acc v pgs gp pp [where f = "\<lambda>pg. pg\<lparr>pg_type := FDS_PAGE_DATA\<rparr>"]
    by (simp add: fds_op_execute_def init_execute_def bnd_run tag_data_accepted init_done_def FDS_SUCCESS_def FS_SUCCESS_def
        init_tag_data_def two b'_def [symmetric]) (simp add: b'_def)
  let ?p = "performed ram b' ?da rs' rp cnt"
  have gp': "get_page 0 b' = pg0" "pg_type (get_page (Suc 0) b') = FDS_PAGE_DATA"
    using pgs' by (simp_all add: get_page_def)
  have "fds_op_execute FS_SUCCESS ?da ?p
      = (Ret (FDS_OP_COMPLETED, ?da), flag_clear FDS_FLAG_INITIALIZING (flag_set FDS_FLAG_INITIALIZED ?p))"
    using pgs gp' by (simp add: fds_op_execute_def init_execute_def bnd_run init_tag_data_def two)
  then have "fds_op_execute FS_SUCCESS (cur_op ?p) ?p
      = (Ret (FDS_OP_COMPLETED, ?da), flag_clear FDS_FLAG_INITIALIZING (flag_set FDS_FLAG_INITIALIZED ?p))"
    using q by (simp add: cur_op_performed b'_def)
  then have last: "fds_queue_process (user_cb u) (Suc n) FS_SUCCESS ?p = (Ret (), ?fin)"
    using q by (intro process_completed) (simp_all add: b'_def flag_clear_def flag_set_def)
  have q': "unat (op_rp b) < length (op_queue b)"
    using q by simp
  show ?thesis
  proof (rule settles_op [OF rs q' q(4) e1])
    show "settles ram (user_cb u) (Suc n) (working ram b ?da (rs @ [?t1]) rp cnt) ?fin"
    proof (rule settles_op [OF _ _ q' q(4) e2])
      have "fds_turn ram (user_cb u) (Suc n) (working ram b' ?da rs' rp cnt) = (Ret (), ?fin)"
        using last turn_working [of rs' ram "user_cb u" "Suc n" b' ?da rp cnt] by (simp add: rs'_def del: fds_queue_process.simps)
      then have "settles ram (user_cb u) (Suc n) (working ram b' ?da rs' rp cnt) ?fin"
        using q by (intro settles_turn [OF _ _ settles_rest]) (simp_all add: b'_def)
      then show "settles ram (user_cb u) (Suc n) (working ram b' ?da ((rs @ [?t1]) @ [?t2]) rp cnt) ?fin"
        by (simp add: rs'_def)
    qed simp_all
  qed
qed

lemma tag_words:
  "FDS_PAGE_TAG_MAGIC AND FDS_PAGE_TAG_MAGIC = FDS_PAGE_TAG_MAGIC" "FDS_PAGE_TAG_SWAP AND FDS_PAGE_TAG_DATA = FDS_PAGE_TAG_DATA"
  "FDS_PAGE_TAG_DATA AND FDS_PAGE_TAG_SWAP = FDS_PAGE_TAG_DATA" "FDS_PAGE_TAG_DATA \<noteq> FDS_PAGE_TAG_SWAP"
  by (simp_all add: FDS_PAGE_TAG_MAGIC_def FDS_PAGE_TAG_SWAP_def FDS_PAGE_TAG_DATA_def)

lemma identify_words:
  "page_identify fl p = FDS_PAGE_DATA \<longleftrightarrow> fl p = FDS_PAGE_TAG_MAGIC \<and> fl (p + 4) = FDS_PAGE_TAG_DATA"
  "page_identify fl p = FDS_PAGE_SWAP \<longleftrightarrow> fl p = FDS_PAGE_TAG_MAGIC \<and> fl (p + 4) = FDS_PAGE_TAG_SWAP"
  by (auto simp: page_identify_def tag_words)

lemma init_interrupted:
  assumes fresh: "fds_fresh s" and acc: "fs_accepts_in p e s" and gc: "interrupted_gc (flash_words s) p" and area: "flash_area p e"
  obtains b w1 d1 w2 where "fds_init (user_cb u) (Suc n) (p, e) junk s
      = (Ret FDS_SUCCESS, working ram b (FDS_OP_INIT FDS_OP_INIT_TAG_SWAP) [tag_req (p + 2048) FDS_PAGE_TAG_DATA] 0 0)"
    and "m_pages b = [\<lparr>pg_type = FDS_PAGE_DATA, pg_addr = p + 2048, write_offset = w2, words_reserved = 0, records_open = 0, can_gc = d1\<rparr>, erased_page p zero_page]"
    and "swap_addr (m_swap_page b) = p + 1024" and "flash_words b = flash_words s" and "fs_accepts b" and "length (op_queue b) = 4"
    and "p_start_addr b = p" and "p_end_addr b = e"
    and "unat (op_rp b) < 4" and "op_count b = 1" and "flag_is_set FDS_FLAG_PROCESSING b" and "length (m_cb_table b) = FDS_MAX_USERS"
proof -
  let ?s0 = "(flag_set FDS_FLAG_INITIALIZING s)\<lparr>sd_trace := sd_trace s @ [Store Fs_init], p_start_addr := p, p_end_addr := e\<rparr>"
  have fresh0: "pages_fresh ?s0" and gc0: "interrupted_gc (flash_words ?s0) (p_start_addr ?s0)"
    using fresh gc by (simp_all add: fds_fresh_def pages_fresh_def flag_set_def)
  obtain w1 d1 w2 l where ini: "pages_init ?s0 = (Ret (PAGE_ERASED OR PAGE_DATA OR PAGE_SWAP_DIRTY),
     ?s0\<lparr>m_latest_rec_id := l, m_pages := [zero_page\<lparr>pg_addr := p_start_addr ?s0 + 1024, write_offset := w1, can_gc := d1\<rparr>, erased_page (p_start_addr ?s0) zero_page],
       m_swap_page := \<lparr>swap_addr = p_start_addr ?s0 + 2048, swap_offset = w2\<rparr>\<rparr>)"
    by (rule pages_init_interrupted [OF fresh0 gc0])
  let ?st = "FDS_OP_INIT FDS_OP_INIT_PROMOTE_SWAP" and ?sw = "FDS_OP_INIT FDS_OP_INIT_TAG_SWAP"
  let ?i = "?s0\<lparr>m_latest_rec_id := l, m_pages := [zero_page\<lparr>pg_addr := p + 1024, write_offset := w1, can_gc := d1\<rparr>, erased_page p zero_page],
       m_swap_page := \<lparr>swap_addr = p + 2048, swap_offset = w2\<rparr>\<rparr>"
  let ?q = "flag_set FDS_FLAG_PROCESSING (?i\<lparr>op_queue := (op_queue s)[0 := ?st], op_count := 1\<rparr>)"
  let ?c = "tag_req (p + 2048) FDS_PAGE_TAG_DATA"
  have z: "op_rp s = 0" "op_count s = 0" "chunk_rp s = 0" "chunk_count s = 0" "m_flags s = 0" "length (op_queue s) = 4" "gc_cur_page (m_gc s) = 0"
    "length (m_cb_table s) = FDS_MAX_USERS"
    using fresh by (simp_all add: fds_fresh_def pages_fresh_def)
  have opts: "init_opt_step (PAGE_ERASED OR PAGE_DATA OR PAGE_SWAP_DIRTY) junk = FDS_OP_INIT_PROMOTE_SWAP"
    by (simp add: init_opt_step_def PAGE_ERASED_def PAGE_DATA_def PAGE_SWAP_DIRTY_def PAGE_SWAP_CLEAN_def)
  have enq: "op_enqueue ?st [] ?i = (Ret True, ?i\<lparr>op_queue := (op_queue s)[0 := ?st], op_count := 1\<rparr>)"
    using z by (subst enqueue_ready) (simp_all add: flag_set_def put_chunks_def)
  have "fs_accepts (?q)"
    using acc by (simp add: fs_accepts_def fs_accepts_in_def flag_set_def)
  moreover have "fs_valid (p_start_addr ?q) (p_end_addr ?q) ?c"
    using flash_area_tag [OF area, of 2 FDS_PAGE_TAG_DATA] by (simp add: flag_set_def)
  ultimately have "page_tag_write_data (p + 2048) ?q = (Ret FS_SUCCESS, ?q\<lparr>sd_trace := sd_trace ?q @ [?c]\<rparr>)"
    by (rule tag_data_accepted)
  then have ex: "fds_op_execute FS_SUCCESS ?st ?q = (Ret (FDS_OP_EXECUTING, ?sw), init_promote_swap (?q\<lparr>sd_trace := sd_trace ?q @ [?c]\<rparr>))"
    by (simp add: fds_op_execute_def init_execute_def bnd_run init_done_def FDS_SUCCESS_def FS_SUCCESS_def flag_set_def)
  have co: "cur_op ?q = ?st"
    using z by (simp add: cur_op_def flag_set_def)
  let ?b = "init_promote_swap ?q"
  have "fds_queue_process (user_cb u) (Suc n) FS_SUCCESS ?q = (Ret (), put_op ?sw (init_promote_swap (?q\<lparr>sd_trace := sd_trace ?q @ [?c]\<rparr>)))"
    using ex co by (intro process_op) simp
  also have "\<dots> = (Ret (), working ram ?b ?sw [?c] 0 0)"
    using z by (simp add: init_promote_swap_def put_op_def put_page_def put_swap_def Let_def working_def perform_all_def get_page_def flag_set_def)
  finally have proc: "fds_queue_process (user_cb u) (Suc n) FS_SUCCESS ?q = (Ret (), working ram ?b ?sw [?c] 0 0)" .
  have idle: "\<not> flag_is_set FDS_FLAG_INITIALIZED s" "\<not> flag_is_set FDS_FLAG_INITIALIZING s"
    using z by (simp_all add: fds_flag_bits)
  have notp: "\<not> flag_is_set FDS_FLAG_PROCESSING (?i\<lparr>op_queue := (op_queue s)[0 := ?st], op_count := 1\<rparr>)"
    using z by (simp add: fds_flag_bits flag_set_def bit_or_iff flags_bit)
  have o: "PAGE_ERASED OR PAGE_DATA OR PAGE_SWAP_DIRTY \<noteq> 0" "PAGE_ERASED OR PAGE_DATA OR PAGE_SWAP_DIRTY \<noteq> PAGE_DATA"
      "PAGE_ERASED OR PAGE_DATA OR PAGE_SWAP_DIRTY \<noteq> PAGE_DATA OR PAGE_SWAP_CLEAN"
    by (simp_all add: PAGE_ERASED_def PAGE_DATA_def PAGE_SWAP_DIRTY_def PAGE_SWAP_CLEAN_def)
  have start: "fds_queue_start (user_cb u) (Suc n) (?i\<lparr>op_queue := (op_queue s)[0 := ?st], op_count := 1\<rparr>) = (Ret (), working ram ?b ?sw [?c] 0 0)"
    using notp proc by (simp add: fds_queue_start_def bnd_run del: fds_queue_process.simps)
  have "fds_init (user_cb u) (Suc n) (p, e) junk s = (Ret FDS_SUCCESS, working ram ?b ?sw [?c] 0 0)"
    using idle ini enq start opts o by (simp add: fds_init_def bnd_run flag_set_def)
  then show thesis
    using z acc notp
    by (intro that [of ?b])
      (simp_all add: init_promote_swap_def put_page_def put_swap_def Let_def get_page_def fs_accepts_def fs_accepts_in_def flag_set_def flag_is_set_def
        erased_page_def zero_page_def FDS_FLAG_PROCESSING_def FDS_FLAG_INITIALIZING_def FDS_PAGE_TAG_SIZE_def)
qed

lemma stored_on_page:
  assumes "x \<in> set (stored f k s)"
  obtains pg where "pg \<in> set (m_pages s)" and "page_first pg \<le> x" and "x < page_end pg"
  using assms page_recs_ge by (force simp: stored_def matching_def recs_of_def)

text \<open>A start with three data pages.\<close>

lemma pages_init_data:
  assumes "page_identify (flash_words s) (p_start_addr s + 1024 * j) = FDS_PAGE_DATA"
  obtains f l where "pages_init_page ((r, i, b), s) j = ((r OR PAGE_DATA, i + 1, b), put_page i f (s\<lparr>m_latest_rec_id := l\<rparr>))"
proof -
  obtain w d l where "page_scan (flash_words s) (p_start_addr s + 1024 * j) (m_latest_rec_id s) = (w, d, l)"
    by (metis prod_cases3)
  then have "pages_init_page ((r, i, b), s) j = ((r OR PAGE_DATA, i + 1, b),
      put_page i (\<lambda>pg. pg\<lparr>pg_type := FDS_PAGE_DATA, pg_addr := p_start_addr s + 1024 * j, write_offset := w, can_gc := d\<rparr>) (s\<lparr>m_latest_rec_id := l\<rparr>))"
    using assms by (simp add: pages_init_page_def Let_def FDS_PAGE_SIZE_def mult.commute [of j])
  then show thesis
    by (rule that)
qed

lemma init_three_data:
  assumes fresh: "fds_fresh t" and d: "\<forall>j < 3. page_identify (flash_words t) (p + 1024 * j) = FDS_PAGE_DATA"
  obtains t' where "fds_init cb m (p, e) junk t = (Ret FDS_ERR_NO_PAGES, t')" and "out_of_bounds t'"
proof -
  let ?s = "(flag_set FDS_FLAG_INITIALIZING t)\<lparr>sd_trace := sd_trace t @ [Store Fs_init], p_start_addr := p, p_end_addr := e\<rparr>"
  have keep: "flash_words (put_page i f (x\<lparr>m_latest_rec_id := l\<rparr>)) = flash_words x" "p_start_addr (put_page i f (x\<lparr>m_latest_rec_id := l\<rparr>)) = p_start_addr x"
    "length (m_pages (put_page i f (x\<lparr>m_latest_rec_id := l\<rparr>))) = length (m_pages x)" for i f l and x :: "'a fds_scheme"
    by (simp_all add: put_page_def)
  have fl: "flash_words ?s = flash_words t" "p_start_addr ?s = p" "length (m_pages ?s) = 2"
    using fresh by (simp_all add: flag_set_def fds_fresh_def pages_fresh_def FDS_MAX_PAGES_def FDS_VIRTUAL_PAGES_def)
  have d0: "page_identify (flash_words ?s) (p_start_addr ?s + 1024 * 0) = FDS_PAGE_DATA"
    using d [rule_format, of 0] fl by simp
  obtain f0 l0 where s0: "pages_init_page ((0, 0, False), ?s) 0 = ((0 OR PAGE_DATA, 0 + 1, False), put_page 0 f0 (?s\<lparr>m_latest_rec_id := l0\<rparr>))" (is "_ = (_, ?u)")
    by (rule pages_init_data [OF d0])
  have d1: "page_identify (flash_words ?u) (p_start_addr ?u + 1024 * 1) = FDS_PAGE_DATA"
    using d [rule_format, of 1] fl unfolding keep by simp
  obtain f1 l1 where s1: "pages_init_page ((0 OR PAGE_DATA, 0 + 1, False), ?u) 1
      = (((0 OR PAGE_DATA) OR PAGE_DATA, 0 + 1 + 1, False), put_page (0 + 1) f1 (?u\<lparr>m_latest_rec_id := l1\<rparr>))" (is "_ = (_, ?v)")
    by (rule pages_init_data [OF d1])
  have d2: "page_identify (flash_words ?v) (p_start_addr ?v + 1024 * 2) = FDS_PAGE_DATA"
    using d [rule_format, of 2] fl unfolding keep by simp
  obtain f2 l2 where s2: "pages_init_page (((0 OR PAGE_DATA) OR PAGE_DATA, 0 + 1 + 1, False), ?v) 2
      = ((((0 OR PAGE_DATA) OR PAGE_DATA) OR PAGE_DATA, 0 + 1 + 1 + 1, False), put_page (0 + 1 + 1) f2 (?v\<lparr>m_latest_rec_id := l2\<rparr>))" (is "_ = (_, ?w)")
    by (rule pages_init_data [OF d2])
  have "length (m_pages ?v) = 2"
    using fl(3) unfolding keep .
  then have oob: "out_of_bounds ?w"
    by (simp add: put_page_def)
  have "foldl pages_init_page ((0, 0, False), ?s) [0, 1, 2] = ((((0 OR PAGE_DATA) OR PAGE_DATA) OR PAGE_DATA, 0 + 1 + 1 + 1, False), ?w)"
    by (simp only: foldl.simps s0 s1 s2)
  then have "pages_init ?s = (Ret (((0 OR PAGE_DATA) OR PAGE_DATA) OR PAGE_DATA), ?w)"
    unfolding pages_init_def three_pages by (simp only: prod.case)
  then have "pages_init ?s = (Ret PAGE_DATA, ?w)"
    by (simp only: or.idem or.left_neutral)
  moreover have "\<not> flag_is_set FDS_FLAG_INITIALIZED t" "\<not> flag_is_set FDS_FLAG_INITIALIZING t"
    using fresh by (simp_all add: fds_flag_bits fds_fresh_def)
  ultimately have "fds_init cb m (p, e) junk t = (Ret FDS_ERR_NO_PAGES, ?w)"
    by (simp add: fds_init_def bnd_run flag_set_def)
  then show thesis
    using oob by (rule that)
qed

definition demo_lost_flash :: flash where
  "demo_lost_flash = (\<lambda>a. if a = 0x1E400 \<or> a = 0x1E800 then FDS_PAGE_TAG_MAGIC else if a = 0x1E404 then FDS_PAGE_TAG_DATA
     else if a = 0x1E804 then FDS_PAGE_TAG_SWAP else if a = 0x1E408 \<or> a = 0x1E808 then 0x0001E2EE
     else if a = 0x1E40C \<or> a = 0x1E80C then 0x00001577 else if a = 0x1E410 then 7 else if a = 0x1E810 then 6
     else if a = 0x1E414 \<or> a = 0x1E814 then 42 else FDS_ERASED_WORD)"

definition demo_boot :: "fds_evt list fds_scheme" where
  "demo_boot = demo_fds\<lparr>m_flags := 0, m_pages := replicate FDS_MAX_PAGES zero_page, m_swap_page := \<lparr>swap_addr = 0, swap_offset = 0\<rparr>,
     flash_words := demo_lost_flash\<rparr>"

subsection \<open>A write that fails\<close>

text \<open>
  Flash access gives up the first request of a write: the operation ends with an error, the write position
  moves on all the same.
\<close>

definition gave_up :: "(fnptr \<Rightarrow> fds_evt \<Rightarrow> 'w \<Rightarrow> 'w) \<Rightarrow> fds_record \<Rightarrow> nat \<Rightarrow> 'w fds_scheme \<Rightarrow> 'w fds_scheme \<Rightarrow> bool" where
  "gave_up u r i s s' \<longleftrightarrow> flash_words s' = flash_words s \<and> sd_env s' = sd_env s
     \<and> p_start_addr s' = p_start_addr s \<and> p_end_addr s' = p_end_addr s
     \<and> m_pages s' = (m_pages s)[i := (m_pages s ! i)\<lparr>write_offset := write_offset (page_offsets_update (record_length (rec_chunks r)) (m_pages s ! i))\<rparr>]
     \<and> fds.more s' = notify u (m_cb_table s) \<lparr>evt_id = FDS_EVT_WRITE (m_latest_rec_id s + 1) (rec_file_id r) (rec_key r),
         evt_result = FDS_ERR_OPERATION_TIMEOUT\<rparr> (fds.more s)"

lemma process_failed:
  assumes "fds_op_execute r (cur_op s) s = (Ret (e, p_op), s')" and "e \<noteq> FDS_OP_EXECUTING" "e \<noteq> FDS_OP_COMPLETED"
    and "op_count s' = 1" and "length (m_cb_table s') = FDS_MAX_USERS"
  shows "fds_queue_process (user_cb u) (Suc n) r s = (Ret (),
     (conclude u p_op (chunk_queue_skip p_op s'))\<lparr>fds.more := notify u (m_cb_table s') \<lparr>evt_id = event_prepare p_op, evt_result = e\<rparr> (fds.more s')\<rparr>)"
proof -
  let ?t = "chunk_queue_skip p_op (put_op p_op s')"
  have f: "m_cb_table ?t = m_cb_table s'" "op_count ?t = op_count s'" "fds.more ?t = fds.more s'"
    by (simp_all add: chunk_queue_skip_def put_op_def split: fds_op.splits)
  have "event_send (user_cb u) x ?t = (Ret (), fds.more_update (notify u (m_cb_table s') x) ?t)" for x
    using event_send_user [of ?t u x] assms(5) f by simp
  moreover have "chunk_queue_skip p_op (put_op p_op s') = put_op p_op (chunk_queue_skip p_op s')"
    by (simp add: chunk_queue_skip_def put_op_def split: fds_op.splits)
  ultimately show ?thesis
    using assms(1-4) f
    by (simp add: bnd_run) (simp add: fds_queue_advance_def put_op_def Let_def conclude_def flag_clear_def chunk_queue_skip_def split: fds_op.splits)
qed

lemma write_gives_up:
  assumes ready: "fds_ready s" and acc: "fs_accepts s" and lay: "layout_ok s" and r: "record_ok r"
    and i: "find (has_room s r) [0..<FDS_MAX_PAGES] = Some i" and rp: "unat (chunk_rp s) + length (rec_chunks r) < 8" and res: "result \<noteq> FS_SUCCESS"
  obtains d s1 s2 where "fds_record_write (user_cb u) (Suc n) p_desc (Some r) s = (Ret (FDS_SUCCESS, d), s1)"
    and "fs_event_handler (user_cb u) (Suc n) result s1 = (Ret (), s2)" and "fds_ready s2" and "gave_up u r i s s2"
proof -
  let ?w = "new_write s i r FDS_OP_WRITE_RECORD_ID" and ?cs = "rec_chunks r"
  let ?q = "write_queued s i r (wop None (new_write s i r FDS_OP_WRITE_HEADER_BEGIN))"
  let ?c = "Store (Fs_store (page_at (m_pages s ! i)) (From_words [tl_word (h_tl (new_header r s))]) 1)"
  let ?t = "working (\<lambda>_. 0) ?q (wop None ?w) [?c] (chunk_rp s) (of_nat (length ?cs))"
  have len: "length (m_pages s) = FDS_MAX_PAGES" and opq: "length (op_queue s) = 4" "unat (op_rp s) < 4"
    and users: "length (m_cb_table s) = FDS_MAX_USERS" and cq: "length (chunk_queue s) = 8" and idle: "\<not> flag_is_set FDS_FLAG_PROCESSING s"
    and ini: "flag_is_set FDS_FLAG_INITIALIZED s"
    using ready by (simp_all add: fds_ready_def)
  have im: "i < FDS_MAX_PAGES"
    using i by (auto simp: find_Some_iff)
  have cs: "length ?cs < 8"
    using rp by simp
  have start: "fds_record_write (user_cb u) (Suc n) p_desc (Some r) s
      = (Ret (FDS_SUCCESS, map_option (\<lambda>_. \<lparr>d_record_id = m_latest_rec_id s + 1, d_record = 0,
          d_gc_run_count = gc_run_count (m_gc s), record_is_open = False\<rparr>) p_desc), ?t)"
    by (rule write_started [OF ready acc r i room_requests(1) [OF layout_area [OF lay] r found_room [OF i ready]]])
  have page: "unat (wr_page ?w) = i" and hdr: "wr_header ?w = new_header r s"
    using im by (simp_all add: new_write_def page_index)
  let ?u = "put_page i (page_offsets_update (record_length ?cs)) ?t"
  have co: "cur_op ?t = wop None ?w"
    using opq by (simp add: working_def cur_op_def)
  have "fds_op_execute result (cur_op ?t) ?t = (Ret (FDS_ERR_OPERATION_TIMEOUT, wop None ?w), ?u)"
    unfolding co wop_execute using res by (simp add: write_execute_def bnd_run Let_def page hdr) (simp add: new_header_def)
  then have "fds_queue_process (user_cb u) (Suc n) result ?t = (Ret (), (conclude u (wop None ?w) (chunk_queue_skip (wop None ?w) ?u))
      \<lparr>fds.more := notify u (m_cb_table ?u) \<lparr>evt_id = event_prepare (wop None ?w), evt_result = FDS_ERR_OPERATION_TIMEOUT\<rparr> (fds.more ?u)\<rparr>)" (is "_ = (_, ?fin)")
    using users by (intro process_failed) (simp_all add: FDS_ERR_OPERATION_TIMEOUT_def FDS_OP_EXECUTING_def FDS_OP_COMPLETED_def working_def)
  moreover have "fds_ready (?fin)"
  proof -
    let ?z = "put_page i (page_offsets_update (record_length ?cs)) ?t"
    let ?k = "chunk_queue_skip (wop None ?w) ?z"
    have u: "ucast (word_of_nat (length ?cs) :: u8) = (word_of_nat (length ?cs) :: u32)"
      using cs by (simp add: unsigned_of_nat take_bit_nat_eq_self)
    have "unat (chunk_rp s + word_of_nat (length ?cs)) < 8"
      using rp by (simp add: unat_word_ariths unat_of_nat)
    moreover have "flag_is_set FDS_FLAG_INITIALIZED ?k"
    proof -
      have "flag_is_set FDS_FLAG_INITIALIZED ?k = flag_is_set FDS_FLAG_INITIALIZED ?q"
        by (simp add: flag_is_set_def chunk_queue_skip_def wop_def put_page_def working_def)
      then show ?thesis
        using ini by simp
    qed
    ultimately have "fds_ready (conclude u (wop None ?w) ?k)"
      using len users cq opq put_chunks_ring(1) [OF cq _ less_imp_le [OF cs]] rp
      by (intro conclude_ready) (simp_all add: chunk_queue_skip_def wop_def new_write_def working_def u)
    then show ?thesis
      by (simp add: fds_ready_def flag_is_set_def)
  qed
  moreover have "gave_up u r i s (?fin)"
  proof -
    have "m_pages ?u = (m_pages s)[i := (m_pages s ! i)\<lparr>write_offset := write_offset (page_offsets_update (record_length ?cs) (m_pages s ! i))\<rparr>]"
      using im len by (simp add: put_page_pages working_def) (simp add: write_queued_def page_offsets_update_def add.commute)
    moreover have "event_prepare (wop None ?w) = FDS_EVT_WRITE (m_latest_rec_id s + 1) (rec_file_id r) (rec_key r)"
      by (simp add: wop_def event_prepare_def hdr) (simp add: new_header_def)
    moreover have "m_pages (chunk_queue_skip (wop None ?w) ?u) = m_pages ?u" "flash_words (chunk_queue_skip (wop None ?w) ?u) = flash_words s"
        "sd_env (chunk_queue_skip (wop None ?w) ?u) = sd_env s" "p_start_addr (chunk_queue_skip (wop None ?w) ?u) = p_start_addr s"
        "p_end_addr (chunk_queue_skip (wop None ?w) ?u) = p_end_addr s" "m_cb_table ?u = m_cb_table s" "fds.more ?u = fds.more s"
      by (simp_all add: chunk_queue_skip_def wop_def working_def perform_all_def put_page_def)
    ultimately show ?thesis
      by (simp add: gave_up_def)
  qed
  moreover have "fs_event_handler (user_cb u) (Suc n) result ?t = fds_queue_process (user_cb u) (Suc n) result ?t"
    by (simp add: fs_event_handler_def)
  ultimately show thesis
    using that start by simp
qed

lemma gave_up_area:
  assumes ready: "fds_ready s" and lay: "layout_ok s" and r: "record_ok r" and i: "find (has_room s r) [0..<FDS_MAX_PAGES] = Some i"
    and up: "gave_up u r i s s2"
  shows "area_ok s2"
proof -
  let ?pg = "m_pages s ! i" and ?pg' = "(m_pages s ! i)\<lparr>write_offset := write_offset (page_offsets_update (record_length (rec_chunks r)) (m_pages s ! i))\<rparr>"
  note room = found_room [OF i ready]
  have n: "unat (write_offset ?pg) + 3 + unat (record_length (rec_chunks r)) < 256"
    using room_words [OF layout_area [OF lay] r room] record_ok_length [OF r] by (simp add: length_data_words FDS_PAGE_SIZE_def)
  then have "unat (write_offset (page_offsets_update (record_length (rec_chunks r)) ?pg)) < 256"
    by (simp add: page_offsets_update_def FDS_HEADER_SIZE_def unat_word_ariths)
  moreover have old: "page_in (p_start_addr s) (p_end_addr s) (m_pages s ! j)" if "j < length (m_pages s)" "data_page (m_pages s ! j)" for j
    using lay that by (simp add: layout_ok_def area_ok_def)
  ultimately have "page_in (p_start_addr s) (p_end_addr s) ?pg'"
    using old [of i] room_fits(1) [OF lay r room] room(2) by (simp add: page_in_def page_end_def FDS_PAGE_SIZE_def)
  then show ?thesis
    using old up room(2) by (auto simp: area_ok_def gave_up_def nth_list_update data_page_def)
qed

text \<open>The words of the record that was never written stay erased, and the records after it cannot be reached.\<close>

lemma gave_up_hides:
  assumes ready: "fds_ready s" and lay: "layout_ok s" and r: "record_ok r" and i: "find (has_room s r) [0..<FDS_MAX_PAGES] = Some i"
    and up: "gave_up u r i s s2" and w: "wrote ram u r' i s2 s4"
  shows "recs_of (flash_words s4) (m_pages s4 ! i) = recs_of (flash_words s) (m_pages s ! i)"
proof -
  let ?pg = "m_pages s ! i" and ?n = "length (data_words ram (rec_chunks r))"
  note room = found_room [OF i ready]
  note ok = room_fits(2) [OF lay r room] and fit = room_fits(3) [OF lay r room, of ram]
  have len: "i < length (m_pages s2)" "i < length (m_pages s)"
    using up room(2) by (simp_all add: gave_up_def)
  have n: "unat (record_length (rec_chunks r)) = ?n"
    by (simp only: record_ok_length [OF r] length_data_words)
  have "unat (write_offset ?pg) + 3 + ?n < 256"
    using fit by (simp add: fits_def FDS_PAGE_SIZE_def)
  then have "unat (write_offset ?pg + (of_nat FDS_HEADER_SIZE + record_length (rec_chunks r))) = unat (write_offset ?pg) + 3 + ?n"
    using n by (simp add: FDS_HEADER_SIZE_def unat_word_ariths)
  then have at: "page_at ?pg < page_at (m_pages s2 ! i)"
    using up len by (simp add: gave_up_def page_offsets_update_def page_at_def)
  have fl: "flash_words s4 = foldl program (flash_words s) (record_words (page_at (m_pages s2 ! i)) (new_header r' s2) (data_words ram (rec_chunks r')))"
    using w up by (simp add: wrote_def gave_up_def Let_def)
  have same: "flash_words s4 x = flash_words s x" if "x \<le> page_at ?pg" for x
    unfolding fl
  proof (rule program_other)
    show "x \<notin> fst ` set (record_words (page_at (m_pages s2 ! i)) (new_header r' s2) (data_words ram (rec_chunks r')))"
      using record_words_addr(2) [of x "page_at (m_pages s2 ! i)"] that at by force
  qed
  have "recs_of (flash_words s4) ?pg = recs_of (flash_words s) ?pg @ valid_recs (flash_words s4) (page_end ?pg) (page_at ?pg)"
    using same by (intro recs_of_appended [OF ok]) simp
  moreover have "valid_recs (flash_words s4) (page_end ?pg) (page_at ?pg) = []"
    using same [of "page_at ?pg"] fits_erased [OF ok fit, of 0] by (simp add: page_recs.simps)
  moreover have "recs_of fl (m_pages s4 ! i) = recs_of fl ?pg" for fl
    using w up len by (simp add: wrote_def gave_up_def Let_def recs_of_def page_end_def page_first_def)
  ultimately show ?thesis
    by simp
qed

subsection \<open>Properties\<close>

text \<open>
  C15: Deleting works. The module is at rest, all its pages are data pages of its flash, apart and in good
  order (\<open>layout_ok\<close>), flash access takes every valid request (\<open>fs_accepts\<close>), the users' callbacks change
  their own state only, and the first record with the identifier of the descriptor is \<open>q\<close> on page \<open>k\<close>. Then
  \<^verbatim>\<open>fds_record_delete\<close> succeeds, and once flash access has carried out its one request the module is at rest
  again with its pages in order; the page of the record has exactly its other valid records left, in the same
  order, the other pages have all of theirs, one word of flash has changed, and every user got the event with
  the file and the key of the record.
\<close>

theorem fds_delete_removes:
  assumes "fds_ready s" and "fs_accepts s" and "layout_ok s" and "\<forall>j < length (m_pages s). data_page (m_pages s ! j)"
    and "located s (d_record_id d) k q"
  shows "\<exists>s1 s2. fds_record_delete (user_cb u) (Suc n) junk (Some d) s = (Ret FDS_SUCCESS, s1)
    \<and> settles ram (user_cb u) (Suc n) s1 s2 \<and> fds_ready s2 \<and> layout_ok s2
    \<and> (let fl = flash_words s; fl' = flash_words s2; h = header_at fl q in
       q \<in> set (recs_of fl (m_pages s ! k)) \<and> record_id h = d_record_id d
       \<and> recs_of fl' (m_pages s2 ! k) = filter (\<lambda>x. x \<noteq> q) (recs_of fl (m_pages s ! k))
       \<and> (\<forall>j < length (m_pages s). j \<noteq> k \<longrightarrow> recs_of fl' (m_pages s2 ! j) = recs_of fl (m_pages s ! j))
       \<and> (\<forall>x. x \<noteq> q \<longrightarrow> fl' x = fl x)
       \<and> fds.more s2 = notify u (m_cb_table s) \<lparr>evt_id = FDS_EVT_DEL_RECORD (d_record_id d) (file_id (h_ic h)) (record_key (h_tl h)),
           evt_result = FDS_SUCCESS\<rparr> (fds.more s))"
proof -
  have f: "k \<in> set [0..<FDS_MAX_PAGES]" "q \<in> set (recs_of (flash_words s) (m_pages s ! k))" "record_id (header_at (flash_words s) q) = d_record_id d"
    using find_id_pages_Some [OF assms(5) [unfolded located_def]] by auto
  have k: "k < FDS_MAX_PAGES" "k < length (m_pages s)"
    using f(1) assms(1) by (simp_all add: fds_ready_def)
  obtain s1 s2 where run: "fds_record_delete (user_cb u) (Suc n) junk (Some d) s = (Ret FDS_SUCCESS, s1)"
      "settles ram (user_cb u) (Suc n) s1 s2" "fds_ready s2" and fl: "flash_words s2 = dirtied (flash_words s) q"
    and pgs: "m_pages s2 = (m_pages s)[k := (m_pages s ! k)\<lparr>can_gc := True\<rparr>]"
    and evt: "fds.more s2 = notify u (m_cb_table s) \<lparr>evt_id = FDS_EVT_DEL_RECORD (d_record_id d) (file_id (h_ic (header_at (flash_words s) q)))
        (record_key (h_tl (header_at (flash_words s) q))), evt_result = FDS_SUCCESS\<rparr> (fds.more s)"
    and pe: "p_start_addr s2 = p_start_addr s" "p_end_addr s2 = p_end_addr s"
    using delete_settles [OF assms(1,2,5) k(1) dirty_valid [OF assms(3) k(2) _ f(2)]] assms(4) k(2) by blast
  have d: "data_page (m_pages s ! k)" and ok: "page_ok (flash_words s) (m_pages s ! k)"
    using assms(3,4) k by (simp_all add: layout_ok_def)
  have inside: "page_first (m_pages s ! k) \<le> q" "q < page_end (m_pages s ! k)"
    using recs_inside [OF ok f(2)] page_at_le_end [OF ok] next_rec_gt [of q "flash_words s"] by linarith+
  then have out: "\<forall>x. x < pg_addr (m_pages s ! k) \<or> page_end (m_pages s ! k) \<le> x \<longrightarrow> flash_words s2 x = flash_words s x"
    by (auto simp: fl dirtied_def page_first_def)
  have same: "page_ok fl' ((m_pages s ! k)\<lparr>can_gc := True\<rparr>) = page_ok fl' (m_pages s ! k)"
      "recs_of fl' ((m_pages s ! k)\<lparr>can_gc := True\<rparr>) = recs_of fl' (m_pages s ! k)" for fl'
    by (simp_all add: page_ok_def page_at_def page_first_def recs_of_def page_end_def)
  have "layout_ok s2"
    using d dirtied_page(1) [OF ok f(2)] fl same pe by (intro layout_written [OF assms(3) k(2) d out pgs]) (simp_all add: data_page_def)
  moreover have "recs_of (flash_words s2) (m_pages s2 ! j) = recs_of (flash_words s) (m_pages s ! j)" if "j < length (m_pages s)" "j \<noteq> k" for j
    using other_page(2) [OF assms(3) k(2) d that(1) _ that(2) out] assms(4) that pgs by simp
  moreover have "recs_of (flash_words s2) (m_pages s2 ! k) = filter (\<lambda>x. x \<noteq> q) (recs_of (flash_words s) (m_pages s ! k))"
    using dirtied_page(2) [OF ok f(2)] fl pgs k same by simp
  moreover have "\<forall>x. x \<noteq> q \<longrightarrow> flash_words s2 x = flash_words s x"
    by (simp add: fl dirtied_def)
  ultimately show ?thesis
    using run f(2,3) evt unfolding Let_def by blast
qed

text \<open>
  C30: An interrupted garbage collection can lose a whole page of live records. The module has the three pages
  from \<open>p\<close> on (\<open>flash_area\<close>) and flash access takes every valid request there. When power failed after the first
  page had been erased and while its records were in the swap page, the initialisation that follows promotes
  the swap page in the place of the wrong element of \<^verbatim>\<open>m_pages\<close>: the data page in the middle, although nothing
  in it is changed, is now taken for the swap page, and no search reports any of its records. At the next
  start flash has three data pages, so the initialisation fails with \<^verbatim>\<open>FDS_ERR_NO_PAGES\<close>, after a write
  behind the end of \<^verbatim>\<open>m_pages\<close>.
\<close>

theorem fds_init_loses_page:
  fixes s :: "'w fds_scheme"
  assumes "fds_fresh s" and "fs_accepts_in p e s" and "interrupted_gc (flash_words s) p" and "flash_area p e"
  shows "\<exists>s1 s2. fds_init (user_cb u) (Suc n) (p, e) junk s = (Ret FDS_SUCCESS, s1) \<and> settles ram (user_cb u) (Suc n) s1 s2
    \<and> flag_is_set FDS_FLAG_INITIALIZED s2
    \<and> swap_addr (m_swap_page s2) = p + 1024
    \<and> (\<forall>x. p + 1024 \<le> x \<and> x < p + 2048 \<longrightarrow> flash_words s2 x = flash_words s x)
    \<and> (\<forall>f k. \<forall>x \<in> set (stored f k s2). \<not> (p + 1024 \<le> x \<and> x < p + 2048))
    \<and> (\<forall>(t :: 'w fds_scheme) cb m e' junk'. fds_fresh t \<and> flash_words t = flash_words s2 \<longrightarrow>
        (\<exists>t'. fds_init cb m (p, e') junk' t = (Ret FDS_ERR_NO_PAGES, t') \<and> out_of_bounds t'))"
proof -
  obtain b w1 d1 w2 where start: "fds_init (user_cb u) (Suc n) (p, e) junk s
      = (Ret FDS_SUCCESS, working ram b (FDS_OP_INIT FDS_OP_INIT_TAG_SWAP) [tag_req (p + 2048) FDS_PAGE_TAG_DATA] 0 0)"
    and pgs: "m_pages b = [\<lparr>pg_type = FDS_PAGE_DATA, pg_addr = p + 2048, write_offset = w2, words_reserved = 0, records_open = 0, can_gc = d1\<rparr>, erased_page p zero_page]"
    and sw: "swap_addr (m_swap_page b) = p + 1024" and fl: "flash_words b = flash_words s" and acc: "fs_accepts b"
    and area: "p_start_addr b = p" "p_end_addr b = e"
    and q: "length (op_queue b) = 4" "unat (op_rp b) < 4" "op_count b = 1" "flag_is_set FDS_FLAG_PROCESSING b" "length (m_cb_table b) = FDS_MAX_USERS"
    by (rule init_interrupted [OF assms])
  let ?b = "put_page 1 (\<lambda>pg. pg\<lparr>pg_type := FDS_PAGE_DATA\<rparr>) b" and ?da = "FDS_OP_INIT FDS_OP_INIT_TAG_DATA"
  let ?rs = "[tag_req (p + 2048) FDS_PAGE_TAG_DATA, tag_req (p + 1024) FDS_PAGE_TAG_SWAP, tag_req p FDS_PAGE_TAG_DATA]"
  let ?fin = "conclude u ?da (flag_clear FDS_FLAG_INITIALIZING (flag_set FDS_FLAG_INITIALIZED (performed ram ?b ?da ?rs 0 0)))"
  have tag: "fs_valid (p_start_addr b) (p_end_addr b) (tag_req (swap_addr (m_swap_page b)) FDS_PAGE_TAG_SWAP)"
      "fs_valid (p_start_addr b) (p_end_addr b) (tag_req (pg_addr (erased_page p zero_page)) FDS_PAGE_TAG_DATA)"
    using flash_area_tag [OF assms(4), of 1] flash_area_tag [OF assms(4), of 0] by (simp_all add: area sw erased_page_def)
  have run: "settles ram (user_cb u) (Suc n) (working ram b (FDS_OP_INIT FDS_OP_INIT_TAG_SWAP) [tag_req (p + 2048) FDS_PAGE_TAG_DATA] 0 0) ?fin"
    using settles_tagging [OF acc q pgs _ _ tag, of "[tag_req (p + 2048) FDS_PAGE_TAG_DATA]" ram u n 0 0] sw by (simp add: erased_page_def)
  have words: "page_is_erased (flash_words s) p" "flash_words s (p + 1024) = FDS_PAGE_TAG_MAGIC" "flash_words s (p + 1028) = FDS_PAGE_TAG_DATA"
      "flash_words s (p + 2048) = FDS_PAGE_TAG_MAGIC" "flash_words s (p + 2052) = FDS_PAGE_TAG_SWAP"
    using assms(3) by (simp_all add: interrupted_gc_def identify_words add.assoc)
  have er: "flash_words s p = FDS_ERASED_WORD" "flash_words s (p + 4) = FDS_ERASED_WORD"
    using words(1) unfolding page_is_erased_def list_all_iff by (auto simp: FDS_PAGE_SIZE_def dest: bspec [of _ _ 0] bspec [of _ _ 1])
  have flash: "flash_words ?fin = (flash_words s)(p + 2052 := FDS_PAGE_TAG_DATA, p := FDS_PAGE_TAG_MAGIC, p + 4 := FDS_PAGE_TAG_DATA)"
    using words words [unfolded add.commute [of p]] er by (auto simp: fl flag_set_def flag_clear_def perform_all_def perform_tag tag_words fun_eq_iff)
  have swap: "swap_addr (m_swap_page ?fin) = p + 1024"
    using sw by (simp add: flag_set_def flag_clear_def performed_def working_def put_page_def)
  have pages: "map pg_addr (m_pages ?fin) = [p + 2048, p]"
    using pgs by (simp add: flag_set_def flag_clear_def put_page_def erased_page_def)
  have lost: "\<not> (p + 1024 \<le> x \<and> x < p + 2048)" if xs: "x \<in> set (stored f k ?fin)" for f k x
  proof -
    obtain pg where pg: "pg \<in> set (m_pages ?fin)" "page_first pg \<le> x" "x < page_end pg"
      by (rule stored_on_page [OF xs])
    then have "pg_addr pg \<in> set (map pg_addr (m_pages ?fin))"
      by simp
    then have "pg_addr pg = p + 2048 \<or> pg_addr pg = p"
      unfolding pages by auto
    then show ?thesis
      using pg(2,3) by (auto simp: page_first_def page_end_def FDS_PAGE_SIZE_def)
  qed
  have again: "\<exists>t'. fds_init cb m (p, e') junk' t = (Ret FDS_ERR_NO_PAGES, t') \<and> out_of_bounds t'"
    if t: "fds_fresh t" "flash_words t = flash_words ?fin" for t :: "'w fds_scheme" and cb m e' junk'
  proof -
    have "page_identify (flash_words t) (p + 1024 * j) = FDS_PAGE_DATA" if j: "j < 3" for j
    proof -
      consider "j = 0" | "j = 1" | "j = 2"
        using j by linarith
      then show ?thesis
        unfolding t(2) flash identify_words using words by cases (simp_all add: add.assoc)
    qed
    then show ?thesis
      using init_three_data [OF t(1), of p cb m e' junk'] by blast
  qed
  have "flag_is_set FDS_FLAG_INITIALIZED ?fin"
    by simp
  moreover have "\<forall>x. p + 1024 \<le> x \<and> x < p + 2048 \<longrightarrow> flash_words ?fin x = flash_words s x"
    unfolding flash by simp
  ultimately show ?thesis
    using start run swap lost again by blast
qed

text \<open>
  C31: A write that flash access gives up costs the page more than the record. The module is at rest with its
  pages in good order (\<open>layout_ok\<close>), the record can be written (\<open>record_ok\<close>) and its chunks do not go round the
  end of the ring of chunks, flash access takes every valid request (\<open>fs_accepts\<close>), and the users' callbacks
  change their own state only. With the first request of the write ended by an error (a time-out), no word of
  flash has changed and the user is told \<^verbatim>\<open>FDS_ERR_OPERATION_TIMEOUT\<close>, but the write position has moved on over
  the words that were to be written. A record that goes to that page next is announced to the user as written,
  with \<^verbatim>\<open>FDS_SUCCESS\<close>, and cannot be found: the valid records of the page are what they were before, since the
  search of a page stops at the first erased word.
\<close>

theorem fds_failed_write_hides:
  assumes "fds_ready s" and "fs_accepts s" and "layout_ok s" and "record_ok r" and "find (has_room s r) [0..<FDS_MAX_PAGES] = Some i"
    and "unat (chunk_rp s) + length (rec_chunks r) < 8" and "result \<noteq> FS_SUCCESS"
  shows "\<exists>d s1 s2. fds_record_write (user_cb u) (Suc n) p_desc (Some r) s = (Ret (FDS_SUCCESS, d), s1)
    \<and> fs_event_handler (user_cb u) (Suc n) result s1 = (Ret (), s2) \<and> flash_words s2 = flash_words s
    \<and> fds.more s2 = notify u (m_cb_table s) \<lparr>evt_id = FDS_EVT_WRITE (m_latest_rec_id s + 1) (rec_file_id r) (rec_key r),
        evt_result = FDS_ERR_OPERATION_TIMEOUT\<rparr> (fds.more s)
    \<and> m_pages s2 = (m_pages s)[i := (m_pages s ! i)\<lparr>write_offset := write_offset (m_pages s ! i) + 3 + record_length (rec_chunks r)\<rparr>]
    \<and> (\<forall>r'. record_ok r' \<and> find (has_room s2 r') [0..<FDS_MAX_PAGES] = Some i \<longrightarrow>
         (\<exists>d' s3 s4. fds_record_write (user_cb u) (Suc n) p_desc (Some r') s2 = (Ret (FDS_SUCCESS, d'), s3)
           \<and> settles ram (user_cb u) (Suc n) s3 s4 \<and> fds_ready s4
           \<and> fds.more s4 = notify u (m_cb_table s2) \<lparr>evt_id = FDS_EVT_WRITE (m_latest_rec_id s2 + 1) (rec_file_id r') (rec_key r'),
               evt_result = FDS_SUCCESS\<rparr> (fds.more s2)
           \<and> recs_of (flash_words s4) (m_pages s4 ! i) = recs_of (flash_words s) (m_pages s ! i)))"
proof -
  obtain d s1 s2 where run: "fds_record_write (user_cb u) (Suc n) p_desc (Some r) s = (Ret (FDS_SUCCESS, d), s1)"
      "fs_event_handler (user_cb u) (Suc n) result s1 = (Ret (), s2)" and ready: "fds_ready s2" and up: "gave_up u r i s s2"
    using write_gives_up [OF assms(1-7)] by blast
  have acc: "fs_accepts s2"
    using assms(2) up by (simp add: fs_accepts_def fs_accepts_in_def gave_up_def)
  note area = gave_up_area [OF assms(1,3-5) up]
  have "\<exists>d' s3 s4. fds_record_write (user_cb u) (Suc n) p_desc (Some r') s2 = (Ret (FDS_SUCCESS, d'), s3)
      \<and> settles ram (user_cb u) (Suc n) s3 s4 \<and> fds_ready s4
      \<and> fds.more s4 = notify u (m_cb_table s2) \<lparr>evt_id = FDS_EVT_WRITE (m_latest_rec_id s2 + 1) (rec_file_id r') (rec_key r'),
          evt_result = FDS_SUCCESS\<rparr> (fds.more s2)
      \<and> recs_of (flash_words s4) (m_pages s4 ! i) = recs_of (flash_words s) (m_pages s ! i)"
    if r': "record_ok r'" and room: "find (has_room s2 r') [0..<FDS_MAX_PAGES] = Some i" for r'
  proof -
    obtain d' s3 s4 where later: "fds_record_write (user_cb u) (Suc n) p_desc (Some r') s2 = (Ret (FDS_SUCCESS, d'), s3)"
        "settles ram (user_cb u) (Suc n) s3 s4" "fds_ready s4" and w: "wrote ram u r' i s2 s4"
      using write_settles [OF ready acc area r' room] by blast
    have "fds.more s4 = notify u (m_cb_table s2) \<lparr>evt_id = FDS_EVT_WRITE (m_latest_rec_id s2 + 1) (rec_file_id r') (rec_key r'),
        evt_result = FDS_SUCCESS\<rparr> (fds.more s2)"
      using w by (simp add: wrote_def Let_def new_header_def)
    then show ?thesis
      using later gave_up_hides [OF assms(1,3,4,5) up w] by blast
  qed
  moreover have "m_pages s2 = (m_pages s)[i := (m_pages s ! i)\<lparr>write_offset := write_offset (m_pages s ! i) + 3 + record_length (rec_chunks r)\<rparr>]"
    using up by (simp add: gave_up_def page_offsets_update_def FDS_HEADER_SIZE_def add.assoc)
  ultimately show ?thesis
    using run up unfolding gave_up_def by blast
qed

subsection \<open>Examples\<close>

lemma demo_stored_ready: "fds_ready demo_stored" "fs_accepts demo_stored"
  using demo_ready demo_accepts
  by (simp_all add: fds_ready_def demo_stored_def fs_accepts_def fs_accepts_in_def flag_is_set_def FDS_MAX_PAGES_def FDS_VIRTUAL_PAGES_def)

lemma demo_stored_layout: "layout_ok demo_stored"
proof -
  have "page_ok (flash_words demo_stored) (demo_page 0x1E800)"
    using demo_stored_words(3)
    by (auto simp: page_ok_def demo_page_def page_at_def page_first_def FDS_PAGE_TAG_SIZE_def FDS_PAGE_SIZE_def chain.simps)
  moreover have "page_ok (flash_words demo_stored) ((demo_page 0x1E400)\<lparr>write_offset := 6\<rparr>)"
  proof -
    have "chain (flash_words demo_stored) 0x1E418 0x1E408"
      using demo_stored_words(1,2) chain.simps [of "flash_words demo_stored" "0x1E418" "0x1E408"]
        chain.simps [of "flash_words demo_stored" "0x1E418" "0x1E418"] by simp
    then show ?thesis
      using demo_stored_words(4)
      by (auto simp: page_ok_def demo_page_def page_at_def page_first_def FDS_PAGE_TAG_SIZE_def FDS_PAGE_SIZE_def)
  qed
  ultimately show ?thesis
    by (auto simp: layout_ok_def area_ok_def page_in_def demo_stored_pages less_Suc_eq pages_apart_def page_end_def FDS_PAGE_SIZE_def)
      (simp_all add: demo_page_def demo_stored_def demo_fds_def)
qed

lemma demo_located: "located demo_stored 7 0 0x1E408"
  using demo_stored_recs demo_stored_header
  by (simp add: located_def FDS_MAX_PAGES_def FDS_VIRTUAL_PAGES_def upt_rec demo_stored_pages find_id_recs)

theorem fds_delete_removes_witness:
  "\<exists>s1 s2. fds_record_delete (user_cb demo_user) 1 \<lparr>del_step = FDS_OP_DEL_DONE, del_file_id = 0, del_record_key = 0, del_record_to_delete = 0\<rparr>
      (Some (zero_desc\<lparr>d_record_id := 7\<rparr>)) demo_stored = (Ret FDS_SUCCESS, s1)
    \<and> settles demo_ram (user_cb demo_user) 1 s1 s2 \<and> recs_of (flash_words s2) (m_pages s2 ! 0) = []
    \<and> fds.more s2 = [\<lparr>evt_id = FDS_EVT_DEL_RECORD 7 0x1577 0xE2EE, evt_result = FDS_SUCCESS\<rparr>]"
proof -
  let ?d = "zero_desc\<lparr>d_record_id := 7\<rparr>"
  have all: "\<forall>j < length (m_pages demo_stored). data_page (m_pages demo_stored ! j)"
    by (auto simp: demo_stored_pages less_Suc_eq demo_page_data)
  have found: "located demo_stored (d_record_id ?d) 0 0x1E408"
    using demo_located by simp
  have user: "notify demo_user (m_cb_table demo_stored) e (fds.more demo_stored) = [e]" for e
    by (simp add: notify_def demo_user_def demo_stored_def demo_fds_def)
  have recs: "recs_of (flash_words demo_stored) (m_pages demo_stored ! 0) = [0x1E408]"
    using demo_stored_recs by (simp add: demo_stored_pages)
  show ?thesis
    using fds_delete_removes [OF demo_stored_ready demo_stored_layout all found, of demo_user 0
        "\<lparr>del_step = FDS_OP_DEL_DONE, del_file_id = 0, del_record_key = 0, del_record_to_delete = 0\<rparr>" demo_ram]
    unfolding user recs demo_stored_header Let_def by auto
qed

lemma demo_lost_interrupted: "interrupted_gc demo_lost_flash 0x1E000"
proof -
  let ?fl = demo_lost_flash
  have "?fl (0x1E000 + 4 * i) = FDS_ERASED_WORD" if "i < 256" for i
    using that by (auto simp: demo_lost_flash_def)
  then have er: "page_is_erased ?fl 0x1E000"
    by (simp add: page_is_erased_def list_all_iff FDS_PAGE_SIZE_def)
  have h: "length_words (h_tl (header_at ?fl 0x1E808)) = 1"
    by (simp add: header_at_def tl_of_def demo_lost_flash_def drop_bit_eq_div)
  then have nx: "next_rec ?fl 0x1E808 = 0x1E818"
    unfolding next_rec_def by (simp add: FDS_HEADER_SIZE_def)
  have w: "?fl 0x1E808 \<noteq> FDS_ERASED_WORD" "?fl 0x1E818 = FDS_ERASED_WORD"
    by (simp_all add: demo_lost_flash_def FDS_ERASED_WORD_def)
  have "fst (page_scan ?fl 0x1E800 l) = 6" for l
    using h nx w
    by (simp add: page_scan_def FDS_PAGE_SIZE_def FDS_PAGE_TAG_SIZE_def FDS_HEADER_SIZE_def Let_def
        page_scan_loop.simps [of ?fl "0x1EC00" "0x1E808"] page_scan_loop.simps [of ?fl "0x1EC00" "0x1E818"])
  then show ?thesis
    using er by (simp add: interrupted_gc_def identify_words) (simp add: demo_lost_flash_def)
qed

theorem fds_init_loses_page_witness:
  "\<exists>s1 s2. fds_init (user_cb demo_user) 1 (0x1E000, 0x1EC00) FDS_OP_INIT_other demo_boot = (Ret FDS_SUCCESS, s1)
    \<and> settles demo_ram (user_cb demo_user) 1 s1 s2 \<and> swap_addr (m_swap_page s2) = 0x1E400
    \<and> flash_words s2 0x1E408 = 0x0001E2EE \<and> 0x1E408 \<notin> set (stored None None s2)"
proof -
  have f: "fds_fresh demo_boot" and acc: "fs_accepts_in 0x1E000 0x1EC00 demo_boot"
    using demo_accepts
    by (simp_all add: fds_fresh_def pages_fresh_def demo_boot_def fs_accepts_def fs_accepts_in_def) (simp_all add: demo_fds_def FDS_MAX_USERS_def)
  have area: "flash_area 0x1E000 0x1EC00"
    by (simp add: flash_area_def)
  have fl: "flash_words demo_boot = demo_lost_flash"
    by (simp add: demo_boot_def)
  obtain s1 s2 where run: "fds_init (user_cb demo_user) (Suc 0) (0x1E000, 0x1EC00) FDS_OP_INIT_other demo_boot = (Ret FDS_SUCCESS, s1)"
      "settles demo_ram (user_cb demo_user) (Suc 0) s1 s2" "swap_addr (m_swap_page s2) = 0x1E000 + 1024"
    and same: "\<forall>x. 0x1E000 + 1024 \<le> x \<and> x < 0x1E000 + 2048 \<longrightarrow> flash_words s2 x = flash_words demo_boot x"
    and lost: "\<forall>f k. \<forall>x \<in> set (stored f k s2). \<not> (0x1E000 + 1024 \<le> x \<and> x < 0x1E000 + 2048)"
    using fds_init_loses_page [OF f acc demo_lost_interrupted [folded fl] area, of demo_user 0 FDS_OP_INIT_other demo_ram] by blast
  have "flash_words s2 0x1E408 = 0x0001E2EE"
    using same [rule_format, of "0x1E408"] by (simp add: fl demo_lost_flash_def)
  moreover have "0x1E408 \<notin> set (stored None None s2)"
    using lost [rule_format, of "0x1E408" None None] by (auto simp del: One_nat_def)
  ultimately show ?thesis
    using run unfolding One_nat_def by (intro exI [of _ s1] exI [of _ s2]) simp
qed

theorem fds_failed_write_hides_witness:
  "\<exists>d s1 s2 d' s3 s4. fds_record_write (user_cb demo_user) 1 None (Some demo_record) demo_fds = (Ret (FDS_SUCCESS, d), s1)
    \<and> fs_event_handler (user_cb demo_user) 1 FS_ERR_OPERATION_TIMEOUT s1 = (Ret (), s2)
    \<and> fds.more s2 = [\<lparr>evt_id = FDS_EVT_WRITE 1 0x1577 0xE2EE, evt_result = FDS_ERR_OPERATION_TIMEOUT\<rparr>]
    \<and> fds_record_write (user_cb demo_user) 1 None (Some demo_record) s2 = (Ret (FDS_SUCCESS, d'), s3)
    \<and> settles demo_ram (user_cb demo_user) 1 s3 s4 \<and> recs_of (flash_words s4) (m_pages s4 ! 0) = []"
proof -
  have rp: "unat (chunk_rp demo_fds) + length (rec_chunks demo_record) < 8"
    by (simp add: demo_fds_def demo_record_def)
  have res: "FS_ERR_OPERATION_TIMEOUT \<noteq> FS_SUCCESS"
    by (simp add: FS_ERR_OPERATION_TIMEOUT_def FS_SUCCESS_def)
  have none: "recs_of (flash_words demo_fds) (m_pages demo_fds ! 0) = []"
    using demo_erased [of 2 "0x1E400"]
    by (simp add: recs_of_def demo_fds_def demo_page_def page_first_def FDS_PAGE_TAG_SIZE_def page_recs.simps)
  have user: "notify demo_user (m_cb_table demo_fds) e (fds.more demo_fds) = [e]" for e
    by (simp add: notify_def demo_user_def demo_fds_def)
  have ids: "m_latest_rec_id demo_fds = 0" "rec_file_id demo_record = 0x1577" "rec_key demo_record = 0xE2EE"
    by (simp_all add: demo_fds_def demo_record_def)
  note hides = fds_failed_write_hides [OF demo_ready demo_accepts demo_layout demo_record_ok demo_room rp res, of demo_user 0 None demo_ram]
  obtain d s1 s2 where run: "fds_record_write (user_cb demo_user) 1 None (Some demo_record) demo_fds = (Ret (FDS_SUCCESS, d), s1)"
      "fs_event_handler (user_cb demo_user) 1 FS_ERR_OPERATION_TIMEOUT s1 = (Ret (), s2)"
      "fds.more s2 = [\<lparr>evt_id = FDS_EVT_WRITE 1 0x1577 0xE2EE, evt_result = FDS_ERR_OPERATION_TIMEOUT\<rparr>]"
    and pgs: "m_pages s2 = (m_pages demo_fds)[0 := (m_pages demo_fds ! 0)\<lparr>write_offset := write_offset (m_pages demo_fds ! 0) + 3 + record_length (rec_chunks demo_record)\<rparr>]"
    and later: "\<forall>r'. record_ok r' \<and> find (has_room s2 r') [0..<FDS_MAX_PAGES] = Some 0 \<longrightarrow>
      (\<exists>d' s3 s4. fds_record_write (user_cb demo_user) 1 None (Some r') s2 = (Ret (FDS_SUCCESS, d'), s3)
        \<and> settles demo_ram (user_cb demo_user) 1 s3 s4 \<and> recs_of (flash_words s4) (m_pages s4 ! 0) = [])"
    using hides unfolding none user ids One_nat_def add_0 by blast
  have "find (has_room s2 demo_record) [0..<FDS_MAX_PAGES] = Some 0"
    by (simp add: FDS_MAX_PAGES_def FDS_VIRTUAL_PAGES_def upt_rec has_room_def get_page_def pgs demo_fds_def demo_page_def
        page_has_space_def record_length_def demo_record_def FDS_HEADER_SIZE_def FDS_PAGE_SIZE_def)
  then show ?thesis
    using run later demo_record_ok by blast
qed

end
