(* ===== verification/AppTimer.thy ===== *)
theory AppTimer
  imports SoftDevice AppUtil
begin

text \<open>
  The application timer, \<^verbatim>\<open>components/libraries/timer/app_timer.c\<close>, without its profiler: any number of
  timers on the one compare register of the 24 bit counter RTC1. The running timers are a linked list in
  which each node keeps the ticks from its predecessor's expiry to its own. Starting and stopping queue an
  operation and raise the software interrupt SWI0, whose handler is the only code that changes the list;
  the handler of RTC1 calls the time-out handlers and notes how many ticks have expired.

  Memory is explicit: a timer is an address, \<open>nodes\<close> maps addresses to nodes, \<open>user_ops\<close> is the buffer
  given to \<^verbatim>\<open>app_timer_init\<close>. Accesses to the registers are recorded in \<open>rtc_log\<close>, and a read of the counter
  gives whatever \<open>rtc_env\<close> makes of the accesses before it. A pending interrupt is an entry of the log.
  Both handlers and the critical regions exclude one another, so each of them is one step. The loops along
  the list take fuel, since a list that runs in a circle makes them run forever: \<open>Hang\<close>.
\<close>

unbundle bit_operations_syntax

subsection \<open>Data\<close>

definition MAX_RTC_COUNTER_VAL :: u32 where "MAX_RTC_COUNTER_VAL = 0x00FFFFFF"
definition RTC_COMPARE_OFFSET_MIN :: u32 where "RTC_COMPARE_OFFSET_MIN = 3"
definition MAX_RTC_TASKS_DELAY :: u32 where "MAX_RTC_TASKS_DELAY = 47"
definition CONTEXT_QUEUE_SIZE_MAX :: u8 where "CONTEXT_QUEUE_SIZE_MAX = 2"
definition APP_TIMER_MIN_TIMEOUT_TICKS :: u32 where "APP_TIMER_MIN_TIMEOUT_TICKS = 5"

datatype app_timer_mode = Timer_single_shot | Timer_repeated

record timer_node =
  ticks_to_expire :: u32
  ticks_at_start :: u32
  ticks_first_interval :: u32
  ticks_periodic_interval :: u32
  is_running :: bool
  timer_mode :: app_timer_mode
  p_timeout_handler :: fnptr
  node_context :: u32
  next_node :: u32

datatype timer_user_op_type = TIMER_USER_OP_TYPE_NONE | TIMER_USER_OP_TYPE_START | TIMER_USER_OP_TYPE_STOP | TIMER_USER_OP_TYPE_STOP_ALL

record timer_user_op =
  op_type :: timer_user_op_type
  op_node :: u32
  start_ticks :: u32
  start_first :: u32
  start_periodic :: u32
  start_context :: u32

text \<open>Accesses to the counter and to the interrupt controller.\<close>

datatype rtc_access = Prescaler_set u32 | Compare_event_enable | Compare_event_disable | Tasks_start | Tasks_stop | Tasks_clear
  | Counter_read | Compare0_set u32 | Events_clear | Delay_us u32 | Rtc1_unpend | Rtc1_priority | Rtc1_enable | Rtc1_disable | Rtc1_pend
  | Swi_unpend | Swi_priority | Swi_enable | Swi_pend

record timers = world +
  q_first :: u8
  q_last :: u8
  q_size :: u8
  p_user_op_queue :: u32
  user_ops :: "u8 \<Rightarrow> timer_user_op"
  mp_timer_id_head :: u32
  m_ticks_latest :: u32
  m_ticks_elapsed :: "u8 \<Rightarrow> u32"
  m_ticks_elapsed_q_read_ind :: u8
  m_ticks_elapsed_q_write_ind :: u8
  m_evt_schedule_func :: fnptr
  m_rtc1_running :: bool
  m_rtc1_reset :: bool
  nodes :: "u32 \<Rightarrow> timer_node"
  rtc_env :: "rtc_access list \<Rightarrow> u32"
  rtc_log :: "rtc_access list"

text \<open>A time-out handler with its context, and the function that hands both to a scheduler.\<close>

type_synonym 'w timeout_cb = "fnptr \<Rightarrow> u32 \<Rightarrow> ('w timers_scheme, unit) prog"
type_synonym 'w schedule_cb = "fnptr \<Rightarrow> fnptr \<Rightarrow> u32 \<Rightarrow> ('w timers_scheme, u32) prog"

subsection \<open>The counter\<close>

definition access :: "rtc_access list \<Rightarrow> 'w timers_scheme \<Rightarrow> 'w timers_scheme" where
  "access as s = s\<lparr>rtc_log := rtc_log s @ as\<rparr>"

definition rtc1_init :: "u32 \<Rightarrow> ('w timers_scheme, unit) prog" where
  "rtc1_init prescaler = modify (access [Prescaler_set prescaler, Rtc1_priority])"

definition rtc1_start :: "('w timers_scheme, unit) prog" where
  "rtc1_start = modify (\<lambda>s. (access [Compare_event_enable, Rtc1_unpend, Rtc1_enable, Tasks_start, Delay_us MAX_RTC_TASKS_DELAY] s)\<lparr>m_rtc1_running := True\<rparr>)"

definition rtc1_stop :: "('w timers_scheme, unit) prog" where
  "rtc1_stop = modify (\<lambda>s. (access [Rtc1_disable, Compare_event_disable, Tasks_stop, Delay_us MAX_RTC_TASKS_DELAY, Tasks_clear,
     Delay_us MAX_RTC_TASKS_DELAY] s)\<lparr>m_ticks_latest := 0, m_rtc1_running := False\<rparr>)"

definition rtc1_counter_get :: "('w timers_scheme, u32) prog" where
  "rtc1_counter_get = (\<lambda>s. (Ret (rtc_env s (rtc_log s)), access [Counter_read] s))"

definition ticks_diff_get :: "u32 \<Rightarrow> u32 \<Rightarrow> u32" where
  "ticks_diff_get ticks_now ticks_old = (ticks_now - ticks_old) AND MAX_RTC_COUNTER_VAL"

definition rtc1_compare0_set :: "u32 \<Rightarrow> ('w timers_scheme, unit) prog" where
  "rtc1_compare0_set v = modify (access [Compare0_set v])"

definition timer_timeouts_check_sched :: "('w timers_scheme, unit) prog" where
  "timer_timeouts_check_sched = modify (access [Rtc1_pend])"

definition timer_list_handler_sched :: "('w timers_scheme, unit) prog" where
  "timer_list_handler_sched = modify (access [Swi_pend])"

subsection \<open>The list of timers\<close>

definition put_node :: "u32 \<Rightarrow> (timer_node \<Rightarrow> timer_node) \<Rightarrow> 'w timers_scheme \<Rightarrow> 'w timers_scheme" where
  "put_node p f s = s\<lparr>nodes := (nodes s)(p := f (nodes s p))\<rparr>"

text \<open>The loop of \<^verbatim>\<open>timer_list_insert\<close>: the predecessor, the successor and the ticks between the first and the new timer.\<close>

primrec insert_seek :: "nat \<Rightarrow> (u32 \<Rightarrow> timer_node) \<Rightarrow> u32 \<Rightarrow> u32 \<Rightarrow> u32 \<Rightarrow> (u32 \<times> u32 \<times> u32) option" where
  "insert_seek 0 nd t p_previous p_current = None"
| "insert_seek (Suc n) nd t p_previous p_current =
     (if p_current \<noteq> NULL \<and> t > ticks_to_expire (nd p_current)
      then insert_seek n nd (t - ticks_to_expire (nd p_current)) p_current (next_node (nd p_current))
      else Some (p_previous, p_current, t))"

definition timer_list_insert :: "nat \<Rightarrow> u32 \<Rightarrow> ('w timers_scheme, unit) prog" where
  "timer_list_insert n p_timer =
     bnd (gets mp_timer_id_head) (\<lambda>head.
     if head = NULL then modify (\<lambda>s. s\<lparr>mp_timer_id_head := p_timer\<rparr>)
     else bnd (gets nodes) (\<lambda>nd.
       if ticks_to_expire (nd p_timer) \<le> ticks_to_expire (nd head)
       then modify (\<lambda>s. (put_node p_timer (\<lambda>x. x\<lparr>next_node := head\<rparr>)
              (put_node head (\<lambda>x. x\<lparr>ticks_to_expire := ticks_to_expire x - ticks_to_expire (nd p_timer)\<rparr>) s))\<lparr>mp_timer_id_head := p_timer\<rparr>)
       else (case insert_seek n nd (ticks_to_expire (nd p_timer)) head head of
               None \<Rightarrow> hang
             | Some (p_previous, p_current, t) \<Rightarrow>
                 andthen (if p_current \<noteq> NULL
                          then modify (put_node p_current (\<lambda>x. x\<lparr>ticks_to_expire := ticks_to_expire x - t\<rparr>)) else ret ())
                   (modify (\<lambda>s. put_node p_previous (\<lambda>x. x\<lparr>next_node := p_timer\<rparr>)
                      (put_node p_timer (\<lambda>x. x\<lparr>ticks_to_expire := t, next_node := p_current\<rparr>) s))))))"

primrec remove_seek :: "nat \<Rightarrow> (u32 \<Rightarrow> timer_node) \<Rightarrow> u32 \<Rightarrow> u32 \<Rightarrow> u32 \<Rightarrow> (u32 \<times> u32) option" where
  "remove_seek 0 nd p_timer p_previous p_current = None"
| "remove_seek (Suc n) nd p_timer p_previous p_current =
     (if p_current = NULL \<or> p_current = p_timer then Some (p_previous, p_current)
      else remove_seek n nd p_timer p_current (next_node (nd p_current)))"

definition timer_list_remove :: "nat \<Rightarrow> u32 \<Rightarrow> ('w timers_scheme, unit) prog" where
  "timer_list_remove n p_timer =
     bnd (gets mp_timer_id_head) (\<lambda>head. bnd (gets nodes) (\<lambda>nd.
     case remove_seek n nd p_timer head head of
       None \<Rightarrow> hang
     | Some (p_previous, p_current) \<Rightarrow>
         if p_current = NULL then ret ()
         else andthen (if p_previous = p_current
                       then modify (\<lambda>s. let s' = s\<lparr>mp_timer_id_head := next_node (nd head)\<rparr>
                              in if next_node (nd head) = NULL then (access [Tasks_clear] s')\<lparr>m_ticks_latest := 0, m_rtc1_reset := True\<rparr> else s')
                       else ret ())
                (modify (\<lambda>s. let timeout = ticks_to_expire (nodes s p_current);
                                 s' = put_node p_previous (\<lambda>x. x\<lparr>next_node := next_node (nodes s p_current)\<rparr>) s;
                                 p_next = next_node (nodes s' p_previous)
                             in if p_next \<noteq> NULL then put_node p_next (\<lambda>x. x\<lparr>ticks_to_expire := ticks_to_expire x + timeout\<rparr>) s' else s'))))"

subsection \<open>Time-outs\<close>

definition timeout_handler_exec :: "'w timeout_cb \<Rightarrow> 'w schedule_cb \<Rightarrow> u32 \<Rightarrow> ('w timers_scheme, unit) prog" where
  "timeout_handler_exec cb sched p_timer =
     bnd (gets (\<lambda>s. (m_evt_schedule_func s, p_timeout_handler (nodes s p_timer), node_context (nodes s p_timer)))) (\<lambda>(func, handler, ctx).
     if func \<noteq> NULL then bnd (sched func handler ctx) APP_ERROR_CHECK
     else cb handler ctx)"

text \<open>The loop over the timers that have expired; its value is the number of ticks that they took.\<close>

primrec timeouts_loop :: "'w timeout_cb \<Rightarrow> 'w schedule_cb \<Rightarrow> nat \<Rightarrow> u32 \<Rightarrow> u32 \<Rightarrow> u32 \<Rightarrow> ('w timers_scheme, u32) prog" where
  "timeouts_loop cb sched 0 p_timer ticks_elapsed ticks_expired = hang"
| "timeouts_loop cb sched (Suc n) p_timer ticks_elapsed ticks_expired =
     bnd (gets (\<lambda>s. nodes s p_timer)) (\<lambda>x.
     if p_timer = NULL \<or> ticks_elapsed < ticks_to_expire x then ret ticks_expired
     else andthen (if is_running x
                   then andthen (modify (put_node p_timer (\<lambda>x. x\<lparr>is_running := False\<rparr>))) (timeout_handler_exec cb sched p_timer)
                   else ret ())
            (timeouts_loop cb sched n (next_node x) (ticks_elapsed - ticks_to_expire x) (ticks_expired + ticks_to_expire x)))"

definition ticks_expired_queue :: "u32 \<Rightarrow> 'w timers_scheme \<Rightarrow> 'w timers_scheme" where
  "ticks_expired_queue ticks_expired s =
     (let w = (if m_ticks_elapsed_q_read_ind s = m_ticks_elapsed_q_write_ind s
               then (if m_ticks_elapsed_q_write_ind s + 1 = CONTEXT_QUEUE_SIZE_MAX then 0 else m_ticks_elapsed_q_write_ind s + 1)
               else m_ticks_elapsed_q_write_ind s)
      in s\<lparr>m_ticks_elapsed_q_write_ind := w, m_ticks_elapsed := (m_ticks_elapsed s)(w := ticks_expired)\<rparr>)"

definition timer_timeouts_check :: "'w timeout_cb \<Rightarrow> 'w schedule_cb \<Rightarrow> nat \<Rightarrow> ('w timers_scheme, unit) prog" where
  "timer_timeouts_check cb sched n =
     bnd (gets mp_timer_id_head) (\<lambda>head.
     if head = NULL then ret ()
     else bnd rtc1_counter_get (\<lambda>now.
       bnd (gets m_ticks_latest) (\<lambda>latest.
       bnd (timeouts_loop cb sched n head (ticks_diff_get now latest) 0) (\<lambda>ticks_expired.
       andthen (modify (ticks_expired_queue ticks_expired)) timer_list_handler_sched))))"

definition elapsed_ticks_acquire :: "('w timers_scheme, bool \<times> u32) prog" where
  "elapsed_ticks_acquire = (\<lambda>s.
     if m_ticks_elapsed_q_read_ind s \<noteq> m_ticks_elapsed_q_write_ind s
     then let r = (if m_ticks_elapsed_q_read_ind s + 1 = CONTEXT_QUEUE_SIZE_MAX then 0 else m_ticks_elapsed_q_read_ind s + 1)
          in (Ret (True, m_ticks_elapsed s r),
              s\<lparr>m_ticks_elapsed_q_read_ind := r, m_ticks_latest := (m_ticks_latest s + m_ticks_elapsed s r) AND MAX_RTC_COUNTER_VAL\<rparr>)
     else (Ret (False, 0), s))"

subsection \<open>The software interrupt\<close>

definition next_op :: "u8 \<Rightarrow> 'w timers_scheme \<Rightarrow> u8" where
  "next_op i s = (if i + 1 = q_size s then 0 else i + 1)"

primrec stop_all_loop :: "nat \<Rightarrow> ('w timers_scheme, unit) prog" where
  "stop_all_loop 0 = hang"
| "stop_all_loop (Suc n) =
     bnd (gets mp_timer_id_head) (\<lambda>p_head.
     if p_head = NULL then ret ()
     else andthen (modify (\<lambda>s. (put_node p_head (\<lambda>x. x\<lparr>is_running := False\<rparr>) s)\<lparr>mp_timer_id_head := next_node (nodes s p_head)\<rparr>))
            (stop_all_loop n))"

primrec deletions_loop :: "nat \<Rightarrow> nat \<Rightarrow> u8 \<Rightarrow> ('w timers_scheme, unit) prog" where
  "deletions_loop m 0 user_ops_first = hang"
| "deletions_loop m (Suc n) user_ops_first =
     bnd (gets (\<lambda>s. (q_last s, user_ops s user_ops_first, next_op user_ops_first s))) (\<lambda>(last, p_user_op, following).
     if user_ops_first = last then ret ()
     else andthen (case op_type p_user_op of
                     TIMER_USER_OP_TYPE_STOP \<Rightarrow> timer_list_remove m (op_node p_user_op)
                   | TIMER_USER_OP_TYPE_STOP_ALL \<Rightarrow> stop_all_loop m
                   | _ \<Rightarrow> ret ())
            (deletions_loop m n following))"

definition list_deletions_handler :: "nat \<Rightarrow> ('w timers_scheme, bool) prog" where
  "list_deletions_handler n =
     bnd (gets (\<lambda>s. (q_first s, mp_timer_id_head s))) (\<lambda>(user_ops_first, p_timer_old_head).
     andthen (deletions_loop n n user_ops_first)
       (gets (\<lambda>s. mp_timer_id_head s \<noteq> p_timer_old_head)))"

text \<open>The value is the head of the list of the timers to be restarted.\<close>

primrec expired_loop :: "nat \<Rightarrow> u32 \<Rightarrow> u32 \<Rightarrow> u32 \<Rightarrow> u32 \<Rightarrow> ('w timers_scheme, u32) prog" where
  "expired_loop 0 ticks_elapsed ticks_previous ticks_expired restart = hang"
| "expired_loop (Suc n) ticks_elapsed ticks_previous ticks_expired restart =
     bnd (gets (\<lambda>s. (mp_timer_id_head s, nodes s (mp_timer_id_head s)))) (\<lambda>(p_timer, x).
     if p_timer = NULL then ret restart
     else if ticks_elapsed < ticks_to_expire x
     then andthen (modify (put_node p_timer (\<lambda>x. x\<lparr>ticks_to_expire := ticks_to_expire x - ticks_elapsed\<rparr>))) (ret restart)
     else let ticks_elapsed = ticks_elapsed - ticks_to_expire x;
              ticks_expired = ticks_expired + ticks_to_expire x
          in andthen (modify (\<lambda>s. (put_node p_timer (\<lambda>x. x\<lparr>ticks_to_expire := 0\<rparr>) s)\<lparr>mp_timer_id_head := next_node x\<rparr>))
            (if ticks_periodic_interval x \<noteq> 0
             then andthen (modify (put_node p_timer (\<lambda>x. x\<lparr>ticks_at_start := (ticks_previous + ticks_expired) AND MAX_RTC_COUNTER_VAL,
                      ticks_first_interval := ticks_periodic_interval x, next_node := restart\<rparr>)))
                    (expired_loop n ticks_elapsed ticks_previous ticks_expired p_timer)
             else expired_loop n ticks_elapsed ticks_previous ticks_expired restart))"

definition expired_timers_handler :: "nat \<Rightarrow> u32 \<Rightarrow> u32 \<Rightarrow> u32 \<Rightarrow> ('w timers_scheme, u32) prog" where
  "expired_timers_handler n ticks_elapsed ticks_previous restart = expired_loop n ticks_elapsed ticks_previous 0 restart"

text \<open>The ticks until a timer expires, counted from the latest known counter value.\<close>

definition ticks_until :: "u32 \<Rightarrow> u32 \<Rightarrow> u32 \<Rightarrow> u32" where
  "ticks_until latest at_start first_interval =
     (if (at_start - latest) AND MAX_RTC_COUNTER_VAL < MAX_RTC_COUNTER_VAL div 2
      then ticks_diff_get at_start latest + first_interval
      else let delta_current_start = ticks_diff_get latest at_start
           in if first_interval > delta_current_start then first_interval - delta_current_start else 0)"

text \<open>From the comment \<^verbatim>\<open>Prepare the node to be inserted\<close> on.\<close>

definition timer_insert_prepared :: "nat \<Rightarrow> u32 \<Rightarrow> ('w timers_scheme, unit) prog" where
  "timer_insert_prepared n p_timer =
     andthen (modify (\<lambda>s. put_node p_timer (\<lambda>x. x\<lparr>ticks_to_expire := ticks_until (m_ticks_latest s) (ticks_at_start x) (ticks_first_interval x),
                ticks_at_start := 0, ticks_first_interval := 0, is_running := True, next_node := NULL\<rparr>) s))
       (timer_list_insert n p_timer)"

primrec insertions_loop :: "nat \<Rightarrow> nat \<Rightarrow> u32 \<Rightarrow> ('w timers_scheme, unit) prog" where
  "insertions_loop m 0 restart = hang"
| "insertions_loop m (Suc n) restart =
     bnd (gets (\<lambda>s. (q_first s, q_last s, user_ops s (q_first s), next_op (q_first s) s))) (\<lambda>(first, last, p_user_op, following).
     if restart = NULL \<and> first = last then ret ()
     else if restart \<noteq> NULL
     then bnd (gets (\<lambda>s. next_node (nodes s restart))) (\<lambda>rest.
       andthen (timer_insert_prepared m restart) (insertions_loop m n rest))
     else andthen (modify (\<lambda>s. s\<lparr>q_first := following\<rparr>))
       (bnd (gets (\<lambda>s. is_running (nodes s (op_node p_user_op)))) (\<lambda>running.
        if op_type p_user_op \<noteq> TIMER_USER_OP_TYPE_START \<or> running then insertions_loop m n restart
        else andthen (modify (\<lambda>s. put_node (op_node p_user_op) (\<lambda>x. x\<lparr>ticks_at_start := (if m_rtc1_reset s then 0 else start_ticks p_user_op),
                  ticks_first_interval := start_first p_user_op, ticks_periodic_interval := start_periodic p_user_op,
                  node_context := start_context p_user_op\<rparr>) s))
            (andthen (timer_insert_prepared m (op_node p_user_op)) (insertions_loop m n restart)))))"

definition list_insertions_handler :: "nat \<Rightarrow> u32 \<Rightarrow> ('w timers_scheme, bool) prog" where
  "list_insertions_handler n restart =
     bnd (gets mp_timer_id_head) (\<lambda>p_timer_id_old_head.
     andthen (insertions_loop n n restart)
       (gets (\<lambda>s. mp_timer_id_head s \<noteq> p_timer_id_old_head)))"

definition compare_reg_update :: "('w timers_scheme, unit) prog" where
  "compare_reg_update =
     bnd (gets mp_timer_id_head) (\<lambda>head.
     if head \<noteq> NULL
     then bnd (gets (\<lambda>s. ticks_to_expire (nodes s head))) (\<lambda>ticks_to_expire.
          bnd rtc1_counter_get (\<lambda>pre_counter_val.
          bnd (gets m_ticks_latest) (\<lambda>latest.
          let ticks_elapsed = ticks_diff_get pre_counter_val latest + RTC_COMPARE_OFFSET_MIN;
              cc = (latest + (if ticks_elapsed < ticks_to_expire then ticks_to_expire else ticks_elapsed)) AND MAX_RTC_COUNTER_VAL
          in bnd (gets m_rtc1_running) (\<lambda>running.
             andthen (if \<not> running then rtc1_start else ret ())
            (andthen (rtc1_compare0_set cc)
            (bnd rtc1_counter_get (\<lambda>post_counter_val.
             if ticks_diff_get post_counter_val pre_counter_val + RTC_COMPARE_OFFSET_MIN > ticks_diff_get cc pre_counter_val
             then andthen (bnd rtc1_counter_get rtc1_compare0_set)
                 (andthen (modify (access [Delay_us MAX_RTC_TASKS_DELAY])) timer_timeouts_check_sched)
             else ret ())))))))
     else rtc1_stop)"

definition timer_list_handler :: "nat \<Rightarrow> ('w timers_scheme, unit) prog" where
  "timer_list_handler n =
     bnd (gets m_ticks_latest) (\<lambda>ticks_previous.
     bnd elapsed_ticks_acquire (\<lambda>(ticks_have_elapsed, ticks_elapsed).
     bnd (list_deletions_handler n) (\<lambda>deleted.
     bnd (if ticks_have_elapsed then expired_timers_handler n ticks_elapsed ticks_previous NULL else ret NULL) (\<lambda>restart.
     bnd (list_insertions_handler n restart) (\<lambda>inserted.
     andthen (if deleted \<or> ticks_have_elapsed \<or> inserted then compare_reg_update else ret ())
       (modify (\<lambda>s. s\<lparr>m_rtc1_reset := False\<rparr>)))))))"

definition RTC1_IRQHandler :: "'w timeout_cb \<Rightarrow> 'w schedule_cb \<Rightarrow> nat \<Rightarrow> ('w timers_scheme, unit) prog" where
  "RTC1_IRQHandler cb sched n = andthen (modify (access [Events_clear])) (timer_timeouts_check cb sched n)"

definition SWI_IRQHandler :: "nat \<Rightarrow> ('w timers_scheme, unit) prog" where
  "SWI_IRQHandler n = timer_list_handler n"

subsection \<open>Interface\<close>

definition user_op_enque :: "u8 \<Rightarrow> 'w timers_scheme \<Rightarrow> 'w timers_scheme" where
  "user_op_enque last_index s = s\<lparr>q_last := last_index\<rparr>"

text \<open>The next value of \<^verbatim>\<open>last\<close> and the index of the entry, \<open>None\<close> when the queue is full.\<close>

definition user_op_alloc :: "'w timers_scheme \<Rightarrow> (u8 \<times> u8) option" where
  "user_op_alloc s = (let last = next_op (q_last s) s in if last = q_first s then None else Some (last, q_last s))"

definition put_op_at :: "u8 \<Rightarrow> (timer_user_op \<Rightarrow> timer_user_op) \<Rightarrow> 'w timers_scheme \<Rightarrow> 'w timers_scheme" where
  "put_op_at i f s = s\<lparr>user_ops := (user_ops s)(i := f (user_ops s i))\<rparr>"

definition timer_start_op_schedule :: "u32 \<Rightarrow> u32 \<Rightarrow> u32 \<Rightarrow> u32 \<Rightarrow> ('w timers_scheme, u32) prog" where
  "timer_start_op_schedule p_node timeout_initial timeout_periodic ctx =
     bnd (gets user_op_alloc) (\<lambda>a. case a of
       None \<Rightarrow> ret NRF_ERROR_NO_MEM
     | Some (last_index, i) \<Rightarrow>
         bnd rtc1_counter_get (\<lambda>now.
         andthen (modify (put_op_at i (\<lambda>_. \<lparr>op_type = TIMER_USER_OP_TYPE_START, op_node = p_node, start_ticks = now,
             start_first = timeout_initial, start_periodic = timeout_periodic, start_context = ctx\<rparr>)))
        (andthen (modify (user_op_enque last_index))
        (andthen timer_list_handler_sched (ret NRF_SUCCESS)))))"

definition timer_stop_op_schedule :: "u32 \<Rightarrow> timer_user_op_type \<Rightarrow> ('w timers_scheme, u32) prog" where
  "timer_stop_op_schedule p_node ty =
     bnd (gets user_op_alloc) (\<lambda>a. case a of
       None \<Rightarrow> ret NRF_ERROR_NO_MEM
     | Some (last_index, i) \<Rightarrow>
         andthen (modify (put_op_at i (\<lambda>op. op\<lparr>op_type := ty, op_node := p_node\<rparr>)))
        (andthen (modify (user_op_enque last_index))
        (andthen timer_list_handler_sched (ret NRF_SUCCESS))))"

definition module_initialized :: "'w timers_scheme \<Rightarrow> bool" where
  "module_initialized s \<longleftrightarrow> p_user_op_queue s \<noteq> NULL"

definition app_timer_init :: "u32 \<Rightarrow> u8 \<Rightarrow> u32 \<Rightarrow> fnptr \<Rightarrow> ('w timers_scheme, u32) prog" where
  "app_timer_init prescaler op_queue_size p_buffer evt_schedule_func =
     (if \<not> is_word_aligned p_buffer then ret NRF_ERROR_INVALID_PARAM
      else if p_buffer = NULL then ret NRF_ERROR_INVALID_PARAM
      else andthen rtc1_stop
        (andthen (modify (\<lambda>s. (access [Swi_unpend, Swi_priority, Swi_enable] s)\<lparr>m_evt_schedule_func := evt_schedule_func,
            q_first := 0, q_last := 0, q_size := op_queue_size, p_user_op_queue := p_buffer, mp_timer_id_head := NULL,
            m_ticks_elapsed_q_read_ind := 0, m_ticks_elapsed_q_write_ind := 0\<rparr>))
        (andthen (rtc1_init prescaler)
        (bnd rtc1_counter_get (\<lambda>now.
         andthen (modify (\<lambda>s. s\<lparr>m_ticks_latest := now\<rparr>)) (ret NRF_SUCCESS))))))"

text \<open>The pointer to the identifier is \<open>None\<close> when it is \<^verbatim>\<open>NULL\<close>.\<close>

definition app_timer_create :: "u32 option \<Rightarrow> app_timer_mode \<Rightarrow> fnptr \<Rightarrow> ('w timers_scheme, u32) prog" where
  "app_timer_create p_timer_id mode timeout_handler =
     bnd (gets module_initialized) (\<lambda>initialized.
     if \<not> initialized then ret NRF_ERROR_INVALID_STATE
     else if timeout_handler = NULL then ret NRF_ERROR_INVALID_PARAM
     else case p_timer_id of
       None \<Rightarrow> ret NRF_ERROR_INVALID_PARAM
     | Some p_node \<Rightarrow>
         bnd (gets (\<lambda>s. is_running (nodes s p_node))) (\<lambda>running.
         if running then ret NRF_ERROR_INVALID_STATE
         else andthen (modify (put_node p_node (\<lambda>x. x\<lparr>is_running := False, timer_mode := mode, p_timeout_handler := timeout_handler\<rparr>)))
                (ret NRF_SUCCESS)))"

definition app_timer_start :: "u32 \<Rightarrow> u32 \<Rightarrow> u32 \<Rightarrow> ('w timers_scheme, u32) prog" where
  "app_timer_start timer_id timeout_ticks ctx =
     bnd (gets (\<lambda>s. (module_initialized s, nodes s timer_id))) (\<lambda>(initialized, x).
     if \<not> initialized then ret NRF_ERROR_INVALID_STATE
     else if timer_id = 0 then ret NRF_ERROR_INVALID_STATE
     else if timeout_ticks < APP_TIMER_MIN_TIMEOUT_TICKS then ret NRF_ERROR_INVALID_PARAM
     else if p_timeout_handler x = NULL then ret NRF_ERROR_INVALID_STATE
     else timer_start_op_schedule timer_id timeout_ticks (if timer_mode x = Timer_repeated then timeout_ticks else 0) ctx)"

definition app_timer_stop :: "u32 \<Rightarrow> ('w timers_scheme, u32) prog" where
  "app_timer_stop timer_id =
     bnd (gets (\<lambda>s. (module_initialized s, p_timeout_handler (nodes s timer_id)))) (\<lambda>(initialized, handler).
     if \<not> initialized then ret NRF_ERROR_INVALID_STATE
     else if timer_id = NULL \<or> handler = NULL then ret NRF_ERROR_INVALID_STATE
     else andthen (modify (put_node timer_id (\<lambda>x. x\<lparr>is_running := False\<rparr>)))
            (timer_stop_op_schedule timer_id TIMER_USER_OP_TYPE_STOP))"

definition app_timer_stop_all :: "('w timers_scheme, u32) prog" where
  "app_timer_stop_all =
     bnd (gets module_initialized) (\<lambda>initialized.
     if \<not> initialized then ret NRF_ERROR_INVALID_STATE
     else timer_stop_op_schedule NULL TIMER_USER_OP_TYPE_STOP_ALL)"

definition app_timer_cnt_get :: "('w timers_scheme, u32) prog" where
  "app_timer_cnt_get = rtc1_counter_get"

definition app_timer_cnt_diff_compute :: "u32 \<Rightarrow> u32 \<Rightarrow> u32 \<times> u32" where
  "app_timer_cnt_diff_compute ticks_to ticks_from = (NRF_SUCCESS, ticks_diff_get ticks_to ticks_from)"

end
