(* ===== verification/TimerList.thy ===== *)
theory TimerList
  imports AppTimer
begin

text \<open>
  The linked list of the application timer as a sorted list of timers with the ticks until they expire, and
  what inserting, removing and expiring do to it.
\<close>

unbundle bit_operations_syntax

subsection \<open>Linked lists\<close>

primrec path :: "(u32 \<Rightarrow> timer_node) \<Rightarrow> u32 \<Rightarrow> u32 list \<Rightarrow> u32 \<Rightarrow> bool" where
  "path nd p [] q \<longleftrightarrow> p = q"
| "path nd p (a # as) q \<longleftrightarrow> p = a \<and> a \<noteq> NULL \<and> path nd (next_node (nd a)) as q"

abbreviation linked :: "(u32 \<Rightarrow> timer_node) \<Rightarrow> u32 \<Rightarrow> u32 list \<Rightarrow> bool" where
  "linked nd p ps \<equiv> path nd p ps NULL"

definition first :: "u32 list \<Rightarrow> u32" where
  "first ps = (case ps of [] \<Rightarrow> NULL | p # _ \<Rightarrow> p)"

lemma first_simps [simp]: "first [] = NULL" "first (p # ps) = p"
  by (simp_all add: first_def)

lemma path_append: "path nd p (as @ bs) q \<longleftrightarrow> (\<exists>r. path nd p as r \<and> path nd r bs q)"
  by (induction as arbitrary: p) auto

lemma linked_first: "linked nd p ps \<Longrightarrow> p = first ps"
  by (cases ps) auto

lemma linked_append: "linked nd p (as @ bs) \<longleftrightarrow> path nd p as (first bs) \<and> linked nd (first bs) bs"
  using linked_first by (auto simp: path_append)

lemma path_cong: "\<forall>a \<in> set as. next_node (nd' a) = next_node (nd a) \<Longrightarrow> path nd' p as q = path nd p as q"
  by (induction as arbitrary: p) auto

lemma path_not_null: "path nd p as q \<Longrightarrow> NULL \<notin> set as"
  by (induction as arbitrary: p) auto

lemma linked_unique: "linked nd p ps \<Longrightarrow> linked nd p qs \<Longrightarrow> ps = qs"
  by (induction ps arbitrary: p qs) (case_tac qs; auto)+

lemma linked_distinct: "linked nd p ps \<Longrightarrow> distinct ps"
proof (induction ps arbitrary: p)
  case (Cons a ps)
  then have l: "linked nd (next_node (nd a)) ps"
    by simp
  have "a \<notin> set ps"
  proof
    assume "a \<in> set ps"
    then obtain xs ys where ps: "ps = xs @ a # ys"
      by (meson split_list)
    have "linked nd a (a # ys)" "linked nd a (a # ps)"
      using l Cons.prems by (auto simp: ps linked_append)
    then show False
      using linked_unique ps by fastforce
  qed
  then show ?case
    using Cons.IH l by simp
qed simp

lemma last_not_before: "distinct as \<Longrightarrow> as \<noteq> [] \<Longrightarrow> last as \<notin> set (butlast as)"
  using distinct_append [of "butlast as" "[last as]"] by simp

text \<open>The successor of the last node is replaced.\<close>

lemma path_relink:
  assumes "path nd p as r" and "as \<noteq> []" and "distinct as"
    and "\<forall>a \<in> set (butlast as). next_node (nd' a) = next_node (nd a)" and "next_node (nd' (last as)) = q"
  shows "path nd' p as q"
proof -
  have split: "as = butlast as @ [last as]"
    using assms(2) by simp
  then have "path nd p (butlast as) (last as)" "last as \<noteq> NULL"
    using assms(1) path_append [of nd p "butlast as" "[last as]" r] by auto
  then have "path nd' p (butlast as) (last as)"
    using assms(4) path_cong by blast
  then have "path nd' p (butlast as @ [last as]) q"
    using assms(5) \<open>last as \<noteq> NULL\<close> by (simp add: path_append)
  then show ?thesis
    using split by simp
qed

subsection \<open>Expiry\<close>

definition gap :: "(u32 \<Rightarrow> timer_node) \<Rightarrow> u32 \<Rightarrow> nat" where
  "gap nd p = unat (ticks_to_expire (nd p))"

definition gaps :: "(u32 \<Rightarrow> timer_node) \<Rightarrow> u32 list \<Rightarrow> nat" where
  "gaps nd ps = sum_list (map (gap nd) ps)"

lemma gaps_simps [simp]: "gaps nd [] = 0" "gaps nd (p # ps) = gap nd p + gaps nd ps" "gaps nd (ps @ qs) = gaps nd ps + gaps nd qs"
  by (simp_all add: gaps_def)

text \<open>The timers with the ticks from the latest known counter value to their expiry.\<close>

primrec dues :: "(u32 \<Rightarrow> timer_node) \<Rightarrow> nat \<Rightarrow> u32 list \<Rightarrow> (u32 \<times> nat) list" where
  "dues nd a [] = []"
| "dues nd a (p # ps) = (p, a + gap nd p) # dues nd (a + gap nd p) ps"

lemma dues_append: "dues nd a (ps @ qs) = dues nd a ps @ dues nd (a + gaps nd ps) qs"
  by (induction ps arbitrary: a) (simp_all add: add.assoc)

lemma fst_dues [simp]: "map fst (dues nd a ps) = ps"
  by (induction ps arbitrary: a) simp_all

lemma length_dues [simp]: "length (dues nd a ps) = length ps"
  by (induction ps arbitrary: a) simp_all

lemma dues_range: "(p, t) \<in> set (dues nd a ps) \<Longrightarrow> p \<in> set ps \<and> a + gap nd p \<le> t \<and> t \<le> a + gaps nd ps"
  by (induction ps arbitrary: a) fastforce+

lemma dues_cong: "\<forall>p \<in> set ps. gap nd' p = gap nd p \<Longrightarrow> dues nd' a ps = dues nd a ps"
  by (induction ps arbitrary: a) auto

lemma gaps_cong: "\<forall>p \<in> set ps. gap nd' p = gap nd p \<Longrightarrow> gaps nd' ps = gaps nd ps"
  by (induction ps) auto

lemma dues_shift: "dues nd (a + d) ps = map (\<lambda>(p, t). (p, t + d)) (dues nd a ps)"
proof (induction ps arbitrary: a)
  case (Cons p ps)
  have "a + d + gap nd p = a + gap nd p + d"
    by simp
  then show ?case
    using Cons.IH [of "a + gap nd p"] by (simp only: dues.simps) simp
qed simp

lemma sorted_dues: "sorted (map snd (dues nd a ps))"
proof (induction ps arbitrary: a)
  case (Cons p ps)
  then show ?case
    using dues_range [of _ _ nd "a + gap nd p" ps] by fastforce
qed simp

definition agenda_insert :: "u32 \<Rightarrow> nat \<Rightarrow> (u32 \<times> nat) list \<Rightarrow> (u32 \<times> nat) list" where
  "agenda_insert p t xs = takeWhile (\<lambda>(q, u). u < t) xs @ (p, t) # dropWhile (\<lambda>(q, u). u < t) xs"

lemma agenda_insert_split:
  assumes "\<forall>(q, u) \<in> set xs. u < t" and "ys \<noteq> [] \<Longrightarrow> t \<le> snd (hd ys)"
  shows "agenda_insert p t (xs @ ys) = xs @ (p, t) # ys"
  using assms by (induction xs) (cases ys; auto simp: agenda_insert_def)+

text \<open>Only the links and the ticks change.\<close>

definition same_data :: "(u32 \<Rightarrow> timer_node) \<Rightarrow> (u32 \<Rightarrow> timer_node) \<Rightarrow> bool" where
  "same_data nd nd' \<longleftrightarrow> (\<forall>p. nd' p = (nd p)\<lparr>ticks_to_expire := ticks_to_expire (nd' p), next_node := next_node (nd' p)\<rparr>)"

subsection \<open>Inserting\<close>

lemma insert_seek_linked:
  assumes "linked nd p_current ps" and "length ps < n"
  obtains as bs where "ps = as @ bs" and "insert_seek n nd t p_previous p_current = Some (last (p_previous # as), first bs, t - of_nat (gaps nd as))"
    and "as \<noteq> [] \<Longrightarrow> gaps nd as < unat t" and "bs \<noteq> [] \<Longrightarrow> unat t \<le> gaps nd as + gap nd (hd bs)"
  using assms
proof (induction n arbitrary: t p_previous p_current ps thesis)
  case (Suc n)
  show ?case
  proof (cases "p_current \<noteq> NULL \<and> ticks_to_expire (nd p_current) < t")
    case False
    then have "ps \<noteq> [] \<Longrightarrow> unat t \<le> gap nd (hd ps)"
      using Suc.prems(2) by (cases ps) (auto simp: gap_def word_le_nat_alt not_less)
    then show ?thesis
      using False linked_first [OF Suc.prems(2)] by (intro Suc.prems(1) [of "[]" ps]) auto
  next
    case True
    then obtain qs where ps: "ps = p_current # qs" and l: "linked nd (next_node (nd p_current)) qs"
      using Suc.prems(2) by (cases ps) auto
    let ?t = "t - ticks_to_expire (nd p_current)"
    have t: "unat ?t = unat t - gap nd p_current" "gap nd p_current < unat t"
      using True by (auto simp: gap_def unat_sub word_less_nat_alt word_le_nat_alt)
    have g: "of_nat (gap nd p_current) = ticks_to_expire (nd p_current)"
      by (simp add: gap_def)
    obtain as bs where r: "qs = as @ bs" "insert_seek n nd ?t p_current (next_node (nd p_current)) = Some (last (p_current # as), first bs, ?t - of_nat (gaps nd as))"
      "as \<noteq> [] \<Longrightarrow> gaps nd as < unat ?t" "bs \<noteq> [] \<Longrightarrow> unat ?t \<le> gaps nd as + gap nd (hd bs)"
      using Suc.IH [OF _ l, of ?t p_current] Suc.prems(3) ps by auto
    show ?thesis
    proof (rule Suc.prems(1) [of "p_current # as" bs])
      show "insert_seek (Suc n) nd t p_previous p_current = Some (last (p_previous # p_current # as), first bs, t - of_nat (gaps nd (p_current # as)))"
        using r(2) True g by (simp add: algebra_simps)
      show "gaps nd (p_current # as) < unat t"
        using r(3) t by (cases "as = []") auto
      show "bs \<noteq> [] \<Longrightarrow> unat t \<le> gaps nd (p_current # as) + gap nd (hd bs)"
        using r(4) t by auto
    qed (simp add: ps r(1))
  qed
qed simp

text \<open>The list with a node put between two parts of it.\<close>

lemma linked_between:
  assumes l: "linked nd h (as @ bs)" and p: "p \<notin> set (as @ bs)" "p \<noteq> NULL" and as: "as \<noteq> []"
    and nx: "\<forall>q \<in> set (butlast as) \<union> set bs. next_node (nd' q) = next_node (nd q)"
    and ends: "next_node (nd' (last as)) = p" "next_node (nd' p) = first bs"
  shows "linked nd' h (as @ p # bs)"
proof -
  have parts: "path nd h as (first bs)" "linked nd (first bs) bs"
    using l by (simp_all add: linked_append)
  have "distinct as"
    using linked_distinct [OF l] by simp
  then have "path nd' h as p"
    using nx ends(1) by (intro path_relink [OF parts(1) as]) auto
  moreover have "linked nd' (first bs) bs"
    using parts(2) nx path_cong [of bs nd' nd] by simp
  ultimately show ?thesis
    using p(2) ends(2) by (simp add: linked_append)
qed

lemma dues_between:
  assumes as: "\<forall>q \<in> set as. gap nd' q = gap nd q" and t: "gap nd' p = t - gaps nd as" "gaps nd as \<le> t"
    and bs: "bs \<noteq> [] \<Longrightarrow> gap nd' (hd bs) = gap nd (hd bs) - gap nd' p \<and> t \<le> gaps nd as + gap nd (hd bs)"
    and tl: "\<forall>q \<in> set (tl bs). gap nd' q = gap nd q" and lt: "as \<noteq> [] \<Longrightarrow> gaps nd as < t"
  shows "dues nd' 0 (as @ p # bs) = agenda_insert p t (dues nd 0 (as @ bs))"
proof -
  have "dues nd' 0 (as @ p # bs) = dues nd 0 as @ (p, t) # dues nd' t bs"
    using dues_cong [OF as, of 0] gaps_cong [OF as] t by (simp add: dues_append)
  moreover have "dues nd' t bs = dues nd (gaps nd as) bs"
    using bs t dues_cong [OF tl] by (cases bs) (auto simp: add.commute)
  moreover have "agenda_insert p t (dues nd 0 as @ dues nd (gaps nd as) bs) = dues nd 0 as @ (p, t) # dues nd (gaps nd as) bs"
  proof (rule agenda_insert_split)
    show "\<forall>(q, u) \<in> set (dues nd 0 as). u < t"
      using dues_range [of _ _ nd 0 as] lt by (cases as) fastforce+
    show "t \<le> snd (hd (dues nd (gaps nd as) bs))" if "dues nd (gaps nd as) bs \<noteq> []"
      using bs that by (cases bs) auto
  qed
  ultimately show ?thesis
    by (simp add: dues_append)
qed

lemma list_insert_linked:
  fixes s :: "'w timers_scheme"
  assumes l: "linked (nodes s) (mp_timer_id_head s) ps" and p: "p \<notin> set ps" "p \<noteq> NULL" "next_node (nodes s p) = NULL" and n: "length ps < n"
  obtains nd' ps' where "timer_list_insert n p s = (Ret (), s\<lparr>nodes := nd', mp_timer_id_head := first ps'\<rparr>)" and "linked nd' (first ps') ps'"
    and "dues nd' 0 ps' = agenda_insert p (gap (nodes s) p) (dues (nodes s) 0 ps)" and "same_data (nodes s) nd'"
    and "\<forall>q. q \<notin> insert p (set ps) \<longrightarrow> nd' q = nodes s q"
proof -
  let ?nd = "nodes s" and ?t = "ticks_to_expire (nodes s p)"
  consider "ps = []" | h qs where "ps = h # qs" "?t \<le> ticks_to_expire (?nd h)" | h qs where "ps = h # qs" "\<not> ?t \<le> ticks_to_expire (?nd h)"
    by (cases ps) auto
  then show thesis
  proof cases
    case 1
    then show ?thesis
      using l p by (intro that [of "[p]" ?nd]) (simp_all add: timer_list_insert_def bnd_run agenda_insert_def same_data_def)
  next
    case 2
    let ?nd' = "?nd(h := (?nd h)\<lparr>ticks_to_expire := ticks_to_expire (?nd h) - ?t\<rparr>, p := (?nd p)\<lparr>next_node := h\<rparr>)"
    have h: "mp_timer_id_head s = h" "h \<noteq> NULL" "linked ?nd (next_node (?nd h)) qs" "p \<noteq> h" "p \<notin> set qs" "h \<notin> set qs"
      using l p 2(1) linked_distinct [OF l] by auto
    show ?thesis
    proof (rule that [of "p # ps" ?nd'])
      show "timer_list_insert n p s = (Ret (), s\<lparr>nodes := ?nd', mp_timer_id_head := first (p # ps)\<rparr>)"
        using h 2(2) by (simp add: timer_list_insert_def bnd_run put_node_def fun_upd_twist)
      show "linked ?nd' (first (p # ps)) (p # ps)"
        using h p(2) 2(1) path_cong [of qs ?nd' ?nd] by auto
      have "dues ?nd' 0 ([] @ p # ps) = agenda_insert p (gap ?nd p) (dues ?nd 0 ([] @ ps))"
        using h 2 by (intro dues_between) (auto simp: gap_def unat_sub word_le_nat_alt)
      then show "dues ?nd' 0 (p # ps) = agenda_insert p (gap ?nd p) (dues ?nd 0 ps)"
        by simp
      show "same_data ?nd ?nd'"
        by (simp add: same_data_def)
      show "\<forall>q. q \<notin> insert p (set ps) \<longrightarrow> ?nd' q = ?nd q"
        using 2(1) by simp
    qed
  next
    case 3
    then have h: "mp_timer_id_head s = h" "h \<noteq> NULL"
      using l by auto
    have l': "linked ?nd h ps"
      using l h by simp
    obtain as bs where ps: "ps = as @ bs" and seek: "insert_seek n ?nd ?t h h = Some (last (h # as), first bs, ?t - of_nat (gaps ?nd as))"
      and lt: "as \<noteq> [] \<Longrightarrow> gaps ?nd as < unat ?t" and ge: "bs \<noteq> [] \<Longrightarrow> unat ?t \<le> gaps ?nd as + gap ?nd (hd bs)"
      using insert_seek_linked [OF l' n, of ?t h] by blast
    have as: "as \<noteq> []"
      using 3 ps ge by (auto simp: gap_def word_le_nat_alt)
    let ?u = "?t - of_nat (gaps ?nd as)"
    have u: "unat ?u = unat ?t - gaps ?nd as"
    proof -
      have "gaps ?nd as < 2 ^ 32"
        using lt [OF as] unsigned_less [of ?t, where 'a = nat] by simp
      then have "unat (of_nat (gaps ?nd as) :: u32) = gaps ?nd as"
        by (simp add: unat_of_nat)
      then show ?thesis
        using lt [OF as] by (simp add: unat_sub word_le_nat_alt)
    qed
    let ?nd1 = "if bs \<noteq> [] then ?nd(first bs := (?nd (first bs))\<lparr>ticks_to_expire := ticks_to_expire (?nd (first bs)) - ?u\<rparr>) else ?nd"
    let ?nd2 = "?nd1(p := (?nd1 p)\<lparr>ticks_to_expire := ?u, next_node := first bs\<rparr>)"
    let ?nd' = "?nd2(last as := (?nd2 (last as))\<lparr>next_node := p\<rparr>)"
    have dist: "distinct (as @ bs)" "p \<notin> set as" "p \<notin> set bs"
      using linked_distinct [OF l] p(1) ps by auto
    have bl: "last as \<notin> set (butlast as)" "last as \<in> set as"
      using dist(1) as by (auto dest: last_not_before)
    have null: "first bs = NULL \<longleftrightarrow> bs = []"
      using path_not_null [OF l] ps by (cases bs) auto
    show ?thesis
    proof (rule that [of "as @ p # bs" ?nd'])
      have hd: "first (as @ p # bs) = h"
        using 3(1) ps as by (cases as) auto
      then show "timer_list_insert n p s = (Ret (), s\<lparr>nodes := ?nd', mp_timer_id_head := first (as @ p # bs)\<rparr>)"
        using h 3(2) seek as null by (simp add: timer_list_insert_def bnd_run andthen_run put_node_def)
      show "linked ?nd' (first (as @ p # bs)) (as @ p # bs)"
        unfolding hd
      proof (rule linked_between [OF _ _ p(2) as])
        show "\<forall>q \<in> set (butlast as) \<union> set bs. next_node (?nd' q) = next_node (?nd q)"
          using bl dist in_set_butlastD [of _ as] by (auto split: if_splits)
      qed (use l' ps p(1) bl dist in auto)
      have "dues ?nd' 0 (as @ p # bs) = agenda_insert p (unat ?t) (dues ?nd 0 (as @ bs))"
      proof (rule dues_between)
        show "\<forall>q \<in> set as. gap ?nd' q = gap ?nd q"
          using dist by (cases bs) (auto simp: gap_def)
        show "gap ?nd' p = unat ?t - gaps ?nd as"
          using bl dist u by (auto simp: gap_def)
        show "gap ?nd' (hd bs) = gap ?nd (hd bs) - gap ?nd' p \<and> unat ?t \<le> gaps ?nd as + gap ?nd (hd bs)" if "bs \<noteq> []"
          using that ge [OF that] dist bl u by (cases bs) (auto simp: gap_def unat_sub word_le_nat_alt)
        show "\<forall>q \<in> set (tl bs). gap ?nd' q = gap ?nd q"
          using dist bl by (cases bs) (auto simp: gap_def)
      qed (use lt as in auto)
      then show "dues ?nd' 0 (as @ p # bs) = agenda_insert p (gap ?nd p) (dues ?nd 0 ps)"
        by (simp add: gap_def ps)
      show "same_data ?nd ?nd'"
        by (simp add: same_data_def)
      show "\<forall>q. q \<notin> insert p (set ps) \<longrightarrow> ?nd' q = ?nd q"
        using bl ps by (cases bs) auto
    qed
  qed
qed

subsection \<open>Removing\<close>

lemma remove_seek_linked:
  assumes "linked nd p_current (as @ bs)" and "p \<notin> set as" and "length (as @ bs) < n" and "bs = [] \<or> hd bs = p"
  shows "\<exists>q. remove_seek n nd p p_previous p_current = Some (q, first bs) \<and> (bs \<noteq> [] \<longrightarrow> q = last (p_previous # as))"
  using assms
proof (induction as arbitrary: p_previous p_current n)
  case Nil
  then show ?case
    by (cases n; cases bs) auto
next
  case (Cons a as)
  then obtain m where n: "n = Suc m" and a: "p_current = a" "a \<noteq> NULL" "a \<noteq> p"
    by (cases n) auto
  have "\<exists>q. remove_seek m nd p a (next_node (nd a)) = Some (q, first bs) \<and> (bs \<noteq> [] \<longrightarrow> q = last (a # as))"
    using Cons.prems n a by (intro Cons.IH) auto
  then show ?case
    using n a by auto
qed

definition list_emptied :: "'w timers_scheme \<Rightarrow> 'w timers_scheme" where
  "list_emptied s = (access [Tasks_clear] s)\<lparr>m_ticks_latest := 0, m_rtc1_reset := True\<rparr>"

lemma list_remove_absent:
  assumes "linked (nodes s) (mp_timer_id_head s) ps" and "p \<notin> set ps" and "length ps < n"
  shows "timer_list_remove n p s = (Ret (), s)"
  using remove_seek_linked [of "nodes s" "mp_timer_id_head s" ps "[]" p n "mp_timer_id_head s"] assms
  by (auto simp: timer_list_remove_def bnd_run)

lemma linked_without:
  assumes l: "linked nd h (as @ p # bs)" and nx: "\<forall>q \<in> set (butlast as) \<union> set bs. next_node (nd' q) = next_node (nd q)"
    and ends: "as \<noteq> [] \<Longrightarrow> next_node (nd' (last as)) = first bs"
  shows "linked nd' (first (as @ bs)) (as @ bs)"
proof -
  have parts: "path nd h as p" "p \<noteq> NULL" "linked nd (next_node (nd p)) bs" "distinct as"
    using l linked_distinct [OF l] by (auto simp: path_append)
  have b: "linked nd' (first bs) bs"
    using parts(3) linked_first [OF parts(3)] nx path_cong [of bs nd' nd] by simp
  show ?thesis
  proof (cases "as = []")
    case False
    have "path nd' h as (first bs)"
      using nx ends False parts(4) by (intro path_relink [OF parts(1) False]) auto
    moreover have "first (as @ bs) = h"
      using parts(1) False by (cases as) auto
    ultimately show ?thesis
      using b by (auto simp: path_append)
  qed (use b in simp)
qed

lemma list_remove_linked:
  fixes s :: "'w timers_scheme"
  assumes l: "linked (nodes s) (mp_timer_id_head s) ps" and p: "p \<in> set ps" and n: "length ps < n" and b: "gaps (nodes s) ps < 2 ^ 32"
  obtains nd' ps' where "timer_list_remove n p s = (Ret (), (if ps' = [] then list_emptied s else s)\<lparr>nodes := nd', mp_timer_id_head := first ps'\<rparr>)"
    and "linked nd' (first ps') ps'" and "ps' = filter (\<lambda>q. q \<noteq> p) ps" and "dues nd' 0 ps' = filter (\<lambda>(q, u). q \<noteq> p) (dues (nodes s) 0 ps)"
    and "same_data (nodes s) nd'" and "\<forall>q. q \<notin> set ps' \<longrightarrow> nd' q = nodes s q"
proof -
  let ?nd = "nodes s" and ?h = "mp_timer_id_head s"
  obtain as bs where ps: "ps = as @ p # bs"
    using p by (meson split_list)
  have dist: "distinct as" "distinct bs" "p \<notin> set as" "p \<notin> set bs" "set as \<inter> set bs = {}"
    using linked_distinct [OF l] ps by auto
  have parts: "path ?nd ?h as p" "p \<noteq> NULL" "next_node (?nd p) = first bs"
    using l linked_first [of ?nd "next_node (?nd p)" bs] by (auto simp: ps path_append)
  have null: "first bs = NULL \<longleftrightarrow> bs = []"
    using path_not_null [OF l] ps by (cases bs) auto
  have seek: "remove_seek n ?nd p ?h ?h = Some (last (?h # as), p)"
    using remove_seek_linked [of ?nd ?h as "p # bs" p n ?h] l n ps dist by auto
  have head: "as = [] \<Longrightarrow> ?h = p" "as \<noteq> [] \<Longrightarrow> last as \<noteq> p" "as \<noteq> [] \<Longrightarrow> ?h = hd as"
    using parts(1) dist by (cases as; auto)+
  have bl: "as \<noteq> [] \<Longrightarrow> last as \<notin> set (butlast as)"
    using dist(1) by (rule last_not_before)
  have lb: "as \<noteq> [] \<Longrightarrow> last as \<notin> set bs" "bs \<noteq> [] \<Longrightarrow> first bs \<in> set bs"
    using dist(5) last_in_set [of as] by (blast, cases bs) auto
  let ?nd1 = "if as \<noteq> [] then ?nd(last as := (?nd (last as))\<lparr>next_node := first bs\<rparr>) else ?nd"
  let ?nd' = "if bs \<noteq> [] then ?nd1(first bs := (?nd1 (first bs))\<lparr>ticks_to_expire := ticks_to_expire (?nd1 (first bs)) + ticks_to_expire (?nd p)\<rparr>) else ?nd1"
  show thesis
  proof (rule that [of "as @ bs" ?nd'])
    show "timer_list_remove n p s = (Ret (), (if as @ bs = [] then list_emptied s else s)\<lparr>nodes := ?nd', mp_timer_id_head := first (as @ bs)\<rparr>)"
    proof (cases "as = []")
      case True
      then show ?thesis
        using seek parts null head by (simp add: timer_list_remove_def bnd_run andthen_run put_node_def list_emptied_def access_def Let_def)
    next
      case False
      have "first (as @ bs) = ?h"
        using head(3) False by (cases as) auto
      then show ?thesis
        using False seek parts null head by (simp add: timer_list_remove_def bnd_run andthen_run put_node_def Let_def)
    qed
    show "linked ?nd' (first (as @ bs)) (as @ bs)"
      using l unfolding ps
    proof (rule linked_without)
      show "\<forall>q \<in> set (butlast as) \<union> set bs. next_node (?nd' q) = next_node (?nd q)"
        using bl lb dist in_set_butlastD [of _ as] by (auto split: if_splits)
      show "next_node (?nd' (last as)) = first bs" if "as \<noteq> []"
        using that lb by auto
    qed
    show fs: "as @ bs = filter (\<lambda>q. q \<noteq> p) ps"
    proof -
      have "filter (\<lambda>q. q \<noteq> p) qs = qs" if "p \<notin> set qs" for qs
        using that by (auto simp: filter_id_conv)
      then show ?thesis
        using dist by (simp add: ps)
    qed
    show "dues ?nd' 0 (as @ bs) = filter (\<lambda>(q, u). q \<noteq> p) (dues ?nd 0 ps)"
    proof -
      have gn: "gap ?nd' q = (if bs \<noteq> [] \<and> q = first bs then unat (ticks_to_expire (?nd q) + ticks_to_expire (?nd p)) else gap ?nd q)" for q
        by (simp add: gap_def)
      have ga: "\<forall>q \<in> set as. gap ?nd' q = gap ?nd q" and gt: "\<forall>q \<in> set (tl bs). gap ?nd' q = gap ?nd q"
        unfolding gn using dist by (cases bs; auto)+
      have gh: "gap ?nd' (hd bs) = gap ?nd p + gap ?nd (hd bs)" if "bs \<noteq> []"
        unfolding gn using that b ps by (cases bs) (auto simp: gap_def unat_word_ariths)
      have "dues ?nd' (gaps ?nd as) bs = dues ?nd (gaps ?nd as + gap ?nd p) bs"
        using gh dues_cong [OF gt] by (cases bs) (auto simp: add.assoc)
      then have "dues ?nd' 0 (as @ bs) = dues ?nd 0 as @ dues ?nd (gaps ?nd as + gap ?nd p) bs"
        using dues_cong [OF ga, of 0] gaps_cong [OF ga] by (simp add: dues_append)
      moreover have "filter (\<lambda>(q, u). q \<noteq> p) (dues ?nd a qs) = dues ?nd a qs" if "p \<notin> set qs" for a qs
        using that dues_range [of _ _ ?nd a qs] by (force simp: filter_id_conv)
      ultimately show ?thesis
        using dist by (simp add: ps dues_append)
    qed
    show "same_data ?nd ?nd'"
      by (simp add: same_data_def)
    show "\<forall>q. q \<notin> set (as @ bs) \<longrightarrow> ?nd' q = ?nd q"
      by (cases bs) auto
  qed
qed

end
