(* ===== verification/TimerSwi.thy ===== *)
theory TimerSwi
  imports TimerList
begin

text \<open>
  The software interrupt of the application timer: what deleting, expiring and inserting do to the agenda,
  the list of the running timers with the ticks until they expire.
\<close>

unbundle bit_operations_syntax

subsection \<open>The queue of operations\<close>

primrec queued :: "'w timers_scheme \<Rightarrow> u8 \<Rightarrow> timer_user_op list \<Rightarrow> bool" where
  "queued s i [] \<longleftrightarrow> i = q_last s"
| "queued s i (x # xs) \<longleftrightarrow> i \<noteq> q_last s \<and> user_ops s i = x \<and> queued s (next_op i s) xs"

definition queue_ok :: "'w timers_scheme \<Rightarrow> bool" where
  "queue_ok s \<longleftrightarrow> q_first s < q_size s \<and> q_last s < q_size s"

lemma next_op_cong: "q_size s' = q_size s \<Longrightarrow> next_op i s' = next_op i s"
  by (simp add: next_op_def)

lemma next_op_queue [simp]: "next_op i (s\<lparr>user_ops := f, q_last := l\<rparr>) = next_op i s"
  by (rule next_op_cong) simp

lemma next_op_unat: "i < q_size s \<Longrightarrow> unat (next_op i s) = (if unat i + 1 = unat (q_size s) then 0 else unat i + 1)"
  using unsigned_less [of "q_size s", where 'a = nat]
  by (auto simp: next_op_def word_less_nat_alt unat_word_ariths word_unat_eq_iff)

lemma next_op_less: "i < q_size s \<Longrightarrow> next_op i s < q_size s"
  using next_op_unat [of i s] by (auto simp: word_less_nat_alt)

lemma next_op_inj: "i < q_size s \<Longrightarrow> j < q_size s \<Longrightarrow> next_op i s = next_op j s \<longleftrightarrow> i = j"
  using next_op_unat [of i s] next_op_unat [of j s] by (auto simp: word_unat_eq_iff split: if_splits)

lemma queued_cong:
  "q_last s' = q_last s \<Longrightarrow> q_size s' = q_size s \<Longrightarrow> user_ops s' = user_ops s \<Longrightarrow> queued s' i xs = queued s i xs"
  by (induction xs arbitrary: i) (simp_all add: next_op_def)

lemma queued_snoc:
  assumes "queued s i xs" and "i < q_size s" and "q_last s < q_size s" and "next_op (q_last s) s \<noteq> i"
  shows "queued (s\<lparr>user_ops := (user_ops s)(q_last s := x), q_last := next_op (q_last s) s\<rparr>) i (xs @ [x])"
    (is "queued ?s i _")
  using assms
proof (induction xs arbitrary: i)
  case (Cons y ys)
  have "next_op (q_last s) s \<noteq> next_op i s"
    using Cons.prems next_op_inj [of "q_last s" s i] by auto
  then have "queued ?s (next_op i s) (ys @ [x])"
    using Cons.prems by (intro Cons.IH) (auto intro: next_op_less)
  then show ?case
    using Cons.prems by (simp del: fun_upd_apply) simp
qed auto

subsection \<open>The agenda\<close>

definition holds :: "'w timers_scheme \<Rightarrow> (u32 \<times> nat) list \<Rightarrow> bool" where
  "holds s ag \<longleftrightarrow> linked (nodes s) (mp_timer_id_head s) (map fst ag) \<and> dues (nodes s) 0 (map fst ag) = ag \<and> (\<forall>(p, t) \<in> set ag. t < 2 ^ 32)"

definition running :: "'w timers_scheme \<Rightarrow> u32 set" where
  "running s = {p. is_running (nodes s p)}"

text \<open>The state outside the list.\<close>

definition list_step :: "'w timers_scheme \<Rightarrow> 'w timers_scheme \<Rightarrow> bool" where
  "list_step s s' \<longleftrightarrow> q_last s' = q_last s \<and> q_size s' = q_size s \<and> user_ops s' = user_ops s \<and> p_user_op_queue s' = p_user_op_queue s
     \<and> m_ticks_elapsed s' = m_ticks_elapsed s \<and> m_ticks_elapsed_q_read_ind s' = m_ticks_elapsed_q_read_ind s
     \<and> m_ticks_elapsed_q_write_ind s' = m_ticks_elapsed_q_write_ind s \<and> m_evt_schedule_func s' = m_evt_schedule_func s
     \<and> rtc_env s' = rtc_env s \<and> timers.more s' = timers.more s \<and> sd_env s' = sd_env s \<and> sd_trace s' = sd_trace s"

lemma list_step_refl [simp]: "list_step s s"
  by (simp add: list_step_def)

lemma list_step_trans: "list_step s s' \<Longrightarrow> list_step s' s'' \<Longrightarrow> list_step s s''"
  by (simp add: list_step_def)

lemma dues_Nil [simp]: "dues nd a ps = [] \<longleftrightarrow> ps = []"
  by (cases ps) simp_all

lemma gaps_last: "ps \<noteq> [] \<Longrightarrow> last (dues nd a ps) = (last ps, a + gaps nd ps)"
  by (induction ps arbitrary: a) (auto simp: add.assoc)

lemma holds_facts:
  assumes "holds s ag"
  shows "linked (nodes s) (mp_timer_id_head s) (map fst ag)" "dues (nodes s) 0 (map fst ag) = ag" "gaps (nodes s) (map fst ag) < 2 ^ 32"
    "distinct (map fst ag)" "NULL \<notin> fst ` set ag" "mp_timer_id_head s = first (map fst ag)"
proof -
  show l: "linked (nodes s) (mp_timer_id_head s) (map fst ag)" and d: "dues (nodes s) 0 (map fst ag) = ag"
    using assms by (simp_all add: holds_def)
  show "distinct (map fst ag)" "NULL \<notin> fst ` set ag" "mp_timer_id_head s = first (map fst ag)"
    using linked_distinct [OF l] path_not_null [OF l] linked_first [OF l] by simp_all
  show "gaps (nodes s) (map fst ag) < 2 ^ 32"
  proof (cases "ag = []")
    case False
    then have "last ag = (last (map fst ag), gaps (nodes s) (map fst ag))"
      using gaps_last [of "map fst ag" "nodes s" 0] d by simp
    then show ?thesis
      using assms False last_in_set [of ag] by (auto simp: holds_def)
  qed simp
qed

lemma set_agenda_insert: "set (agenda_insert p t ag) = insert (p, t) (set ag)"
proof -
  have "set (takeWhile P ag) \<union> set (dropWhile P ag) = set ag" for P
    by (metis set_append takeWhile_dropWhile_id)
  then show ?thesis
    by (simp add: agenda_insert_def)
qed

lemma length_agenda_insert: "length (agenda_insert p t ag) = Suc (length ag)"
proof -
  have "length (takeWhile P ag) + length (dropWhile P ag) = length ag" for P
    by (metis length_append takeWhile_dropWhile_id)
  then show ?thesis
    by (simp add: agenda_insert_def)
qed

lemma holds_insert:
  assumes h: "holds s ag" and p: "p \<notin> fst ` set ag" "p \<noteq> NULL" "next_node (nodes s p) = NULL" and n: "length ag < n"
  obtains s' where "timer_list_insert n p s = (Ret (), s')" and "holds s' (agenda_insert p (gap (nodes s) p) ag)"
    and "s' = s\<lparr>nodes := nodes s', mp_timer_id_head := mp_timer_id_head s'\<rparr>" and "same_data (nodes s) (nodes s')"
    and "\<forall>q. q \<notin> insert p (fst ` set ag) \<longrightarrow> nodes s' q = nodes s q"
proof -
  let ?ag = "agenda_insert p (gap (nodes s) p) ag"
  note f = holds_facts [OF h]
  have p': "p \<notin> set (map fst ag)" and n': "length (map fst ag) < n"
    using p(1) n by simp_all
  obtain nd' ps' where run: "timer_list_insert n p s = (Ret (), s\<lparr>nodes := nd', mp_timer_id_head := first ps'\<rparr>)" and l: "linked nd' (first ps') ps'"
      and d: "dues nd' 0 ps' = ?ag" and same: "same_data (nodes s) nd'" "\<forall>q. q \<notin> insert p (set (map fst ag)) \<longrightarrow> nd' q = nodes s q"
    by (rule list_insert_linked [OF f(1) p' p(2,3) n', unfolded f(2)])
  have ps: "ps' = map fst ?ag"
    using d fst_dues by metis
  have "holds (s\<lparr>nodes := nd', mp_timer_id_head := first ps'\<rparr>) ?ag"
    using h l d unsigned_less [of "ticks_to_expire (nodes s p)", where 'a = nat]
    unfolding ps by (simp add: holds_def set_agenda_insert gap_def)
  then show thesis
    using run same by (intro that) auto
qed

definition same_user :: "(u32 \<Rightarrow> timer_node) \<Rightarrow> (u32 \<Rightarrow> timer_node) \<Rightarrow> bool" where
  "same_user nd nd' \<longleftrightarrow> (\<forall>p. ticks_at_start (nd' p) = ticks_at_start (nd p) \<and> ticks_first_interval (nd' p) = ticks_first_interval (nd p)
     \<and> ticks_periodic_interval (nd' p) = ticks_periodic_interval (nd p) \<and> timer_mode (nd' p) = timer_mode (nd p)
     \<and> p_timeout_handler (nd' p) = p_timeout_handler (nd p) \<and> node_context (nd' p) = node_context (nd p))"

lemma same_data_user:
  assumes "same_data (nodes s) (nodes s')"
  shows "same_user (nodes s) (nodes s')" and "running s' = running s"
proof -
  have e: "nodes s' p = (nodes s p)\<lparr>ticks_to_expire := ticks_to_expire (nodes s' p), next_node := next_node (nodes s' p)\<rparr>" for p
    using assms by (simp add: same_data_def)
  have "ticks_at_start (nodes s' p) = ticks_at_start (nodes s p) \<and> ticks_first_interval (nodes s' p) = ticks_first_interval (nodes s p)
     \<and> ticks_periodic_interval (nodes s' p) = ticks_periodic_interval (nodes s p) \<and> timer_mode (nodes s' p) = timer_mode (nodes s p)
     \<and> p_timeout_handler (nodes s' p) = p_timeout_handler (nodes s p) \<and> node_context (nodes s' p) = node_context (nodes s p)
     \<and> is_running (nodes s' p) = is_running (nodes s p)" for p
    by (subst (1 2 3 4 5 6 7) e) simp
  then show "same_user (nodes s) (nodes s')" and "running s' = running s"
    by (simp_all add: same_user_def running_def)
qed

lemma holds_remove:
  assumes h: "holds s ag" and n: "length ag < n"
  obtains s' where "timer_list_remove n p s = (Ret (), s')" and "holds s' (filter (\<lambda>(q, u). q \<noteq> p) ag)" and "list_step s s'"
    and "same_data (nodes s) (nodes s')" and "q_first s' = q_first s" and "m_rtc1_running s' = m_rtc1_running s"
    and "if ag \<noteq> [] \<and> filter (\<lambda>(q, u). q \<noteq> p) ag = [] then m_ticks_latest s' = 0 \<and> m_rtc1_reset s'
      else m_ticks_latest s' = m_ticks_latest s \<and> m_rtc1_reset s' = m_rtc1_reset s"
proof (cases "p \<in> fst ` set ag")
  case False
  have "filter (\<lambda>(q, u). q \<noteq> p) ag = ag"
    using False by (force simp: filter_id_conv)
  then show ?thesis
    using h list_remove_absent [OF holds_facts(1) [OF h], of p n] False n by (intro that [of s]) (simp_all add: same_data_def)
next
  case True
  note f = holds_facts [OF h]
  have p: "p \<in> set (map fst ag)" and n': "length (map fst ag) < n"
    using True n by simp_all
  obtain nd' ps' where run: "timer_list_remove n p s = (Ret (), (if ps' = [] then list_emptied s else s)\<lparr>nodes := nd', mp_timer_id_head := first ps'\<rparr>)"
      and l: "linked nd' (first ps') ps'" and ps: "ps' = filter (\<lambda>q. q \<noteq> p) (map fst ag)" and d: "dues nd' 0 ps' = filter (\<lambda>(q, u). q \<noteq> p) ag"
      and same: "same_data (nodes s) nd'"
    by (rule list_remove_linked [OF f(1) p n' f(3), unfolded f(2)])
  have ps': "ps' = map fst (filter (\<lambda>(q, u). q \<noteq> p) ag)"
    using d fst_dues by metis
  let ?s' = "(if ps' = [] then list_emptied s else s)\<lparr>nodes := nd', mp_timer_id_head := first ps'\<rparr>"
  have "holds ?s' (filter (\<lambda>(q, u). q \<noteq> p) ag)"
    using h l d ps' by (auto simp: holds_def)
  moreover have "ps' = [] \<longleftrightarrow> ag \<noteq> [] \<and> filter (\<lambda>(q, u). q \<noteq> p) ag = []"
    using True by (auto simp: ps')
  ultimately show ?thesis
    using run same by (intro that [of ?s']) (simp_all add: list_step_def list_emptied_def access_def)
qed

subsection \<open>Deleting\<close>

fun delete_op :: "timer_user_op \<Rightarrow> (u32 \<times> nat) list \<times> u32 set \<Rightarrow> (u32 \<times> nat) list \<times> u32 set" where
  "delete_op op (ag, R) = (case op_type op of
       TIMER_USER_OP_TYPE_STOP \<Rightarrow> (filter (\<lambda>(q, u). q \<noteq> op_node op) ag, R)
     | TIMER_USER_OP_TYPE_STOP_ALL \<Rightarrow> ([], R - fst ` set ag)
     | _ \<Rightarrow> (ag, R))"

definition delete_ops :: "timer_user_op list \<Rightarrow> (u32 \<times> nat) list \<times> u32 set \<Rightarrow> (u32 \<times> nat) list \<times> u32 set" where
  "delete_ops ops x = fold delete_op ops x"

text \<open>Whether one of the operations takes the last timer away.\<close>

primrec emptied_by :: "timer_user_op list \<Rightarrow> (u32 \<times> nat) list \<Rightarrow> bool" where
  "emptied_by [] ag = False"
| "emptied_by (op # ops) ag \<longleftrightarrow>
     op_type op = TIMER_USER_OP_TYPE_STOP \<and> ag \<noteq> [] \<and> filter (\<lambda>(q, u). q \<noteq> op_node op) ag = [] \<or> emptied_by ops (fst (delete_op op (ag, {})))"

lemma delete_op_agenda: "fst (delete_op op (ag, R)) = fst (delete_op op (ag, {}))"
  by (simp split: timer_user_op_type.splits)

text \<open>A deletion that empties the list stops counting: the counter starts again from 0.\<close>

definition deleted_to :: "'w timers_scheme \<Rightarrow> (u32 \<times> nat) list \<times> u32 set \<Rightarrow> bool \<Rightarrow> 'w timers_scheme \<Rightarrow> bool" where
  "deleted_to s x z s' \<longleftrightarrow> holds s' (fst x) \<and> running s' = snd x \<and> list_step s s' \<and> same_user (nodes s) (nodes s')
     \<and> q_first s' = q_first s \<and> m_rtc1_running s' = m_rtc1_running s
     \<and> (if z then m_ticks_latest s' = 0 \<and> m_rtc1_reset s' else m_ticks_latest s' = m_ticks_latest s \<and> m_rtc1_reset s' = m_rtc1_reset s)"

lemma same_user_trans: "same_user nd nd' \<Longrightarrow> same_user nd' nd'' \<Longrightarrow> same_user nd nd''"
  by (simp add: same_user_def)

lemma deleted_to_trans: "deleted_to s x z s' \<Longrightarrow> deleted_to s' y z' s'' \<Longrightarrow> deleted_to s y (z \<or> z') s''"
  by (auto simp: deleted_to_def split: if_splits intro: list_step_trans same_user_trans)

lemma deleted_to_refl: "holds s ag \<Longrightarrow> deleted_to s (ag, running s) False s"
  by (simp add: deleted_to_def same_user_def)

lemma stop_all_linked:
  assumes "linked (nodes s) (mp_timer_id_head s) ps" and "length ps < n"
  shows "stop_all_loop n s = (Ret (), s\<lparr>nodes := (\<lambda>q. if q \<in> set ps then (nodes s q)\<lparr>is_running := False\<rparr> else nodes s q), mp_timer_id_head := NULL\<rparr>)"
  using assms
proof (induction ps arbitrary: s n)
  case Nil
  then show ?case
    by (cases n) (simp_all add: bnd_run)
next
  case (Cons p ps)
  then obtain m where n: "n = Suc m" and p: "mp_timer_id_head s = p" "p \<noteq> NULL" "p \<notin> set ps" and l: "linked (nodes s) (next_node (nodes s p)) ps"
    using linked_distinct [OF Cons.prems(1)] by (cases n) auto
  let ?s = "(put_node p (\<lambda>x. x\<lparr>is_running := False\<rparr>) s)\<lparr>mp_timer_id_head := next_node (nodes s p)\<rparr>"
  have "linked (nodes ?s) (mp_timer_id_head ?s) ps"
    using l path_cong [of ps "nodes ?s" "nodes s"] by (simp add: put_node_def)
  then have "stop_all_loop m ?s = (Ret (), ?s\<lparr>nodes := (\<lambda>q. if q \<in> set ps then (nodes ?s q)\<lparr>is_running := False\<rparr> else nodes ?s q), mp_timer_id_head := NULL\<rparr>)"
    using Cons.prems(2) n by (intro Cons.IH) simp_all
  then show ?case
    using n p by (simp add: bnd_run andthen_run put_node_def) (rule arg_cong [of _ _ "\<lambda>f. s\<lparr>nodes := f, mp_timer_id_head := NULL\<rparr>"], auto simp: put_node_def)
qed

lemma op_deleted:
  assumes h: "holds s ag" and n: "length ag < n"
  shows "\<exists>s'. (case op_type op of TIMER_USER_OP_TYPE_STOP \<Rightarrow> timer_list_remove n (op_node op)
      | TIMER_USER_OP_TYPE_STOP_ALL \<Rightarrow> stop_all_loop n | _ \<Rightarrow> ret ()) s = (Ret (), s')
    \<and> deleted_to s (delete_op op (ag, running s)) (emptied_by [op] ag) s'"
proof (cases "op_type op")
  case TIMER_USER_OP_TYPE_STOP
  obtain s' where "timer_list_remove n (op_node op) s = (Ret (), s')" "holds s' (filter (\<lambda>(q, u). q \<noteq> op_node op) ag)" "list_step s s'"
      "same_data (nodes s) (nodes s')" "q_first s' = q_first s" "m_rtc1_running s' = m_rtc1_running s"
      "if ag \<noteq> [] \<and> filter (\<lambda>(q, u). q \<noteq> op_node op) ag = [] then m_ticks_latest s' = 0 \<and> m_rtc1_reset s'
        else m_ticks_latest s' = m_ticks_latest s \<and> m_rtc1_reset s' = m_rtc1_reset s"
    by (rule holds_remove [OF h n])
  then show ?thesis
    using TIMER_USER_OP_TYPE_STOP same_data_user [of s s'] by (auto simp: deleted_to_def)
next
  case TIMER_USER_OP_TYPE_STOP_ALL
  then show ?thesis
    using stop_all_linked [OF holds_facts(1) [OF h], of n] n
    by (auto simp: deleted_to_def holds_def running_def list_step_def same_user_def)
qed (use h in \<open>auto intro: deleted_to_refl\<close>)

lemma queued_step: "queued s i xs \<Longrightarrow> list_step s s' \<Longrightarrow> queued s' i xs"
  using queued_cong [of s' s i xs] by (simp add: list_step_def)

lemma delete_op_length: "length (fst (delete_op op (ag, R))) \<le> length ag"
  by (simp split: timer_user_op_type.splits)

lemma deletions:
  assumes "queued s i ops" and "length ops < k" and "holds s ag" and "length ag < n"
  shows "\<exists>s'. deletions_loop n k i s = (Ret (), s') \<and> deleted_to s (delete_ops ops (ag, running s)) (emptied_by ops ag) s'"
  using assms
proof (induction ops arbitrary: s i k ag)
  case Nil
  then show ?case
    by (cases k) (auto simp: bnd_run delete_ops_def intro: deleted_to_refl)
next
  case (Cons op ops)
  then obtain j where k: "k = Suc j" and i: "i \<noteq> q_last s" "user_ops s i = op" and q: "queued s (next_op i s) ops"
    by (cases k) auto
  obtain s1 where run: "(case op_type op of TIMER_USER_OP_TYPE_STOP \<Rightarrow> timer_list_remove n (op_node op)
      | TIMER_USER_OP_TYPE_STOP_ALL \<Rightarrow> stop_all_loop n | _ \<Rightarrow> ret ()) s = (Ret (), s1)" and d: "deleted_to s (delete_op op (ag, running s)) (emptied_by [op] ag) s1"
    using op_deleted [OF Cons.prems(3,4)] by blast
  let ?x = "delete_op op (ag, running s)"
  have x: "(fst ?x, running s1) = ?x" "holds s1 (fst ?x)" "length (fst ?x) < n"
    using d Cons.prems(4) delete_op_length [of op ag "running s"] by (auto simp: deleted_to_def simp del: delete_op.simps)
  have "queued s1 (next_op i s) ops"
    using queued_step [OF q] d by (simp add: deleted_to_def)
  then obtain s' where s': "deletions_loop n j (next_op i s) s1 = (Ret (), s')" "deleted_to s1 (delete_ops ops ?x) (emptied_by ops (fst ?x)) s'"
    using Cons.IH [of s1 "next_op i s" j "fst ?x"] Cons.prems(2) k x by (auto simp del: delete_op.simps)
  have "emptied_by (op # ops) ag \<longleftrightarrow> emptied_by [op] ag \<or> emptied_by ops (fst ?x)"
    using delete_op_agenda [of op ag "running s"] by (simp del: delete_op.simps)
  then have "deleted_to s (delete_ops ops ?x) (emptied_by (op # ops) ag) s'"
    using deleted_to_trans [OF d s'(2)] by simp
  moreover have "delete_ops (op # ops) (ag, running s) = delete_ops ops ?x"
    by (simp add: delete_ops_def)
  ultimately show ?case
    using run s'(1) k i by (auto simp: bnd_run andthen_run simp del: delete_op.simps)
qed

subsection \<open>Expiring\<close>

definition expired_node :: "u32 \<Rightarrow> u32 \<Rightarrow> timer_node \<Rightarrow> timer_node" where
  "expired_node ticks_previous t x =
     (if ticks_periodic_interval x \<noteq> 0
      then x\<lparr>ticks_to_expire := 0, ticks_at_start := (ticks_previous + t) AND MAX_RTC_COUNTER_VAL, ticks_first_interval := ticks_periodic_interval x\<rparr>
      else x\<lparr>ticks_to_expire := 0\<rparr>)"

abbreviation periodic :: "(u32 \<Rightarrow> timer_node) \<Rightarrow> u32 \<Rightarrow> bool" where
  "periodic nd p \<equiv> ticks_periodic_interval (nd p) \<noteq> 0"

definition due_by :: "nat \<Rightarrow> (u32 \<times> nat) list \<Rightarrow> (u32 \<times> nat) list" where
  "due_by e ag = takeWhile (\<lambda>(q, u). u \<le> e) ag"

definition due_later :: "nat \<Rightarrow> (u32 \<times> nat) list \<Rightarrow> (u32 \<times> nat) list" where
  "due_later e ag = dropWhile (\<lambda>(q, u). u \<le> e) ag"

lemma due_split: "due_by e ag @ due_later e ag = ag"
  by (simp add: due_by_def due_later_def)

lemma due_shift:
  assumes "g \<le> e"
  shows "due_by e (map (\<lambda>(q, u). (q, u + g)) xs) = map (\<lambda>(q, u). (q, u + g)) (due_by (e - g) xs)"
    and "due_later e (map (\<lambda>(q, u). (q, u + g)) xs) = map (\<lambda>(q, u). (q, u + g)) (due_later (e - g) xs)"
proof -
  have "(\<lambda>(q, u). u \<le> e) \<circ> (\<lambda>(q, u). (q, u + g)) = (\<lambda>(q :: u32, u). u \<le> e - g)"
    using assms by (auto simp: fun_eq_iff)
  then show "due_by e (map (\<lambda>(q, u). (q, u + g)) xs) = map (\<lambda>(q, u). (q, u + g)) (due_by (e - g) xs)"
    and "due_later e (map (\<lambda>(q, u). (q, u + g)) xs) = map (\<lambda>(q, u). (q, u + g)) (due_later (e - g) xs)"
    by (simp_all add: due_by_def due_later_def takeWhile_map dropWhile_map)
qed

lemma dues_Cons_shift: "dues nd 0 (p # ps) = (p, gap nd p) # map (\<lambda>(q, u). (q, u + gap nd p)) (dues nd 0 ps)"
  using dues_shift [of nd 0 "gap nd p" ps] by simp

text \<open>The outcome: \<open>as\<close> have expired, \<open>bs\<close> are left, \<open>rs\<close> were to be restarted before.\<close>

definition expired_to :: "u32 \<Rightarrow> nat \<Rightarrow> u32 \<Rightarrow> (u32 \<times> nat) list \<Rightarrow> (u32 \<times> nat) list \<Rightarrow> u32 list \<Rightarrow> (u32 \<Rightarrow> timer_node) \<Rightarrow> (u32 \<Rightarrow> timer_node) \<Rightarrow> u32 \<Rightarrow> bool" where
  "expired_to ticks_previous e c as bs rs nd nd' r \<longleftrightarrow>
     linked nd' (first (map fst bs)) (map fst bs) \<and> dues nd' 0 (map fst bs) = map (\<lambda>(q, u). (q, u - e)) bs
     \<and> linked nd' r (rev (filter (periodic nd) (map fst as)) @ rs)
     \<and> (\<forall>(q, u) \<in> set as. nd' q = (expired_node ticks_previous (c + of_nat u) (nd q))\<lparr>next_node := next_node (nd' q)\<rparr>)
     \<and> (\<forall>q \<in> fst ` set bs. nd' q = (nd q)\<lparr>ticks_to_expire := ticks_to_expire (nd' q)\<rparr>)
     \<and> (\<forall>q. q \<notin> fst ` set (as @ bs) \<longrightarrow> nd' q = nd q)"

lemma expired_stop:
  assumes l: "linked nd p (p # qs)" and e: "e < ticks_to_expire (nd p)" and r: "linked nd r rs" and d: "p \<notin> set rs"
  shows "expired_to ticks_previous (unat e) c [] (dues nd 0 (p # qs)) rs nd (nd(p := (nd p)\<lparr>ticks_to_expire := ticks_to_expire (nd p) - e\<rparr>)) r"
    (is "expired_to _ _ _ _ _ _ _ ?nd' _")
proof -
  have p: "p \<notin> set qs" "linked nd (next_node (nd p)) qs"
    using linked_distinct [OF l] l by simp_all
  have g: "gap ?nd' p = gap nd p - unat e" "unat e < gap nd p"
    using e by (auto simp: gap_def unat_sub word_less_nat_alt word_le_nat_alt)
  have "dues ?nd' (gap ?nd' p) qs = dues nd (gap ?nd' p) qs"
    using p by (intro dues_cong) (auto simp: gap_def)
  moreover have "dues nd (gap nd p) qs = map (\<lambda>(q, u). (q, u + unat e)) (dues nd (gap ?nd' p) qs)"
    using dues_shift [of nd "gap ?nd' p" "unat e" qs] g by simp
  ultimately have "dues ?nd' 0 (p # qs) = map (\<lambda>(q, u). (q, u - unat e)) (dues nd 0 (p # qs))"
    using g by (simp add: case_prod_unfold comp_def)
  moreover have "linked ?nd' p (p # qs)"
    using l p path_cong [of qs ?nd' nd] by auto
  moreover have "linked ?nd' r rs"
    using r d path_cong [of rs ?nd' nd] by auto
  ultimately show ?thesis
    by (simp add: expired_to_def del: dues.simps) simp
qed

lemma expired_node_sel [simp]:
  "ticks_periodic_interval (expired_node tp t x) = ticks_periodic_interval x" "is_running (expired_node tp t x) = is_running x"
  "next_node (expired_node tp t x) = next_node x" "ticks_to_expire (expired_node tp t x) = 0"
  by (simp_all add: expired_node_def)

lemma due_names: "fst ` set (due_by e ag) \<subseteq> fst ` set ag" "fst ` set (due_later e ag) \<subseteq> fst ` set ag"
  by (auto simp: due_by_def due_later_def dest: set_takeWhileD set_dropWhileD)

lemma expired_more:
  assumes l: "linked nd p (p # qs)" and g: "gap nd p \<le> e"
    and nd1: "nd1 = nd(p := (expired_node tp (c + ticks_to_expire (nd p)) (nd p))\<lparr>next_node := nx\<rparr>)"
    and ex: "expired_to tp (e - gap nd p) (c + ticks_to_expire (nd p)) (due_by (e - gap nd p) (dues nd 0 qs)) (due_later (e - gap nd p) (dues nd 0 qs))
      (if periodic nd p then p # rs else rs) nd1 nd' r"
  shows "expired_to tp e c (due_by e (dues nd 0 (p # qs))) (due_later e (dues nd 0 (p # qs))) rs nd nd' r"
proof -
  let ?as = "due_by (e - gap nd p) (dues nd 0 qs)" and ?bs = "due_later (e - gap nd p) (dues nd 0 qs)"
  have names: "fst ` set ?as \<subseteq> set qs" "fst ` set ?bs \<subseteq> set qs"
    using due_names [of "e - gap nd p" "dues nd 0 qs"] fst_dues [of nd 0 qs] by (simp_all flip: set_map)
  have p: "p \<notin> fst ` set ?as" "p \<notin> fst ` set ?bs"
    using linked_distinct [OF l] names by auto
  have split: "due_by e (dues nd 0 (p # qs)) = (p, gap nd p) # map (\<lambda>(q, u). (q, u + gap nd p)) ?as"
      "due_later e (dues nd 0 (p # qs)) = map (\<lambda>(q, u). (q, u + gap nd p)) ?bs"
    unfolding dues_Cons_shift using due_shift [OF g, of "dues nd 0 qs"] g by (simp_all add: due_by_def due_later_def)
  have fsts: "map fst (map (\<lambda>(q, u). (q, u + gap nd p)) xs) = map fst xs" for xs :: "(u32 \<times> nat) list"
    by (simp add: case_prod_unfold comp_def)
  have rest: "nd' q = nd1 q" if "q \<notin> fst ` set ?as" "q \<notin> fst ` set ?bs" for q
    using ex that unfolding expired_to_def by (simp add: image_Un)
  have exb: "nd' q = (nd1 q)\<lparr>ticks_to_expire := ticks_to_expire (nd' q)\<rparr>" if "q \<in> fst ` set ?bs" for q
    using ex that unfolding expired_to_def by blast
  have per: "periodic nd1 q = periodic nd q" for q
    by (simp add: nd1)
  have "dues nd' 0 (map fst ?bs) = map (\<lambda>(q, u). (q, u - e)) (map (\<lambda>(q, u). (q, u + gap nd p)) ?bs)"
    using ex g by (simp add: expired_to_def comp_def case_prod_unfold)
  moreover have "linked nd' r (rev (filter (periodic nd) (p # map fst ?as)) @ rs)"
    using ex by (simp add: expired_to_def per split: if_splits)
  moreover have "\<forall>(q, u) \<in> set (map (\<lambda>(q, u). (q, u + gap nd p)) ?as). nd' q = (expired_node tp (c + of_nat u) (nd q))\<lparr>next_node := next_node (nd' q)\<rparr>"
  proof -
    have "nd' q = (expired_node tp (c + of_nat (u + gap nd p)) (nd q))\<lparr>next_node := next_node (nd' q)\<rparr>" if "(q, u) \<in> set ?as" for q u
    proof -
      have "q \<noteq> p"
        using that p by force
      then show ?thesis
        using ex that by (auto simp: expired_to_def nd1 gap_def ac_simps)
    qed
    then show ?thesis
      by auto
  qed
  moreover have "nd' p = (expired_node tp (c + of_nat (gap nd p)) (nd p))\<lparr>next_node := next_node (nd' p)\<rparr>"
  proof -
    have "nd' p = nd1 p"
      using rest p by blast
    then show ?thesis
      by (simp add: nd1 gap_def)
  qed
  moreover have "\<forall>q \<in> fst ` set ?bs. nd' q = (nd q)\<lparr>ticks_to_expire := ticks_to_expire (nd' q)\<rparr>"
    using exb p nd1 by (metis fun_upd_other)
  moreover have "nd' q = nd q" if "q \<noteq> p" "q \<notin> fst ` set ?as" "q \<notin> fst ` set ?bs" for q
    using rest [OF that(2,3)] that(1) by (simp add: nd1)
  moreover have "linked nd' (first (map fst ?bs)) (map fst ?bs)"
    using ex by (simp add: expired_to_def)
  moreover have names': "fst ` set (map (\<lambda>(q, u). (q, u + gap nd p)) xs) = fst ` set xs" for xs :: "(u32 \<times> nat) list"
    by (simp add: image_image case_prod_unfold)
  ultimately show ?thesis
    unfolding split expired_to_def list.map(2) fsts set_append image_Un list.set(2) image_insert names'
    by (intro conjI) auto
qed

lemma head_nodes: "s\<lparr>mp_timer_id_head := h, nodes := f\<rparr> = s\<lparr>nodes := f, mp_timer_id_head := h\<rparr>"
  by simp

lemma expired_linked:
  assumes "linked (nodes s) (mp_timer_id_head s) ps" and "linked (nodes s) r rs" and "set ps \<inter> set rs = {}" and "length ps < n"
  shows "\<exists>nd' r'. expired_loop n e tp c r s = (Ret r', s\<lparr>nodes := nd', mp_timer_id_head := first (map fst (due_later (unat e) (dues (nodes s) 0 ps)))\<rparr>)
    \<and> expired_to tp (unat e) c (due_by (unat e) (dues (nodes s) 0 ps)) (due_later (unat e) (dues (nodes s) 0 ps)) rs (nodes s) nd' r'"
  using assms
proof (induction ps arbitrary: s n e c r rs)
  case Nil
  then obtain m where n: "n = Suc m"
    by (cases n) auto
  have "expired_to tp (unat e) c [] [] rs (nodes s) (nodes s) r"
    using Nil.prems by (simp add: expired_to_def)
  moreover have "s\<lparr>nodes := nodes s, mp_timer_id_head := NULL\<rparr> = s"
    using Nil.prems(1) by simp
  ultimately show ?case
    using Nil.prems(1) n by (intro exI [of _ "nodes s"] exI [of _ r]) (simp add: bnd_run due_by_def due_later_def)
next
  case (Cons p ps)
  then obtain m where n: "n = Suc m"
    by (cases n) auto
  let ?nd = "nodes s" and ?t = "ticks_to_expire (nodes s p)"
  have h: "mp_timer_id_head s = p" "p \<noteq> NULL" and l: "linked ?nd p (p # ps)" and lp: "linked ?nd (next_node (?nd p)) ps"
    and p: "p \<notin> set ps" "p \<notin> set rs"
    using Cons.prems linked_distinct [OF Cons.prems(1)] by auto
  show ?case
  proof (cases "e < ?t")
    case True
    let ?nd' = "?nd(p := (?nd p)\<lparr>ticks_to_expire := ?t - e\<rparr>)"
    have none: "due_by (unat e) (dues ?nd 0 (p # ps)) = []" "due_later (unat e) (dues ?nd 0 (p # ps)) = dues ?nd 0 (p # ps)"
      using True by (simp_all add: due_by_def due_later_def gap_def word_less_nat_alt)
    have "expired_loop n e tp c r s = (Ret r, s\<lparr>nodes := ?nd', mp_timer_id_head := first (map fst (dues ?nd 0 (p # ps)))\<rparr>)"
      using True h n by (simp add: bnd_run andthen_run put_node_def)
    then show ?thesis
      using expired_stop [OF l True Cons.prems(2) p(2), of tp c] unfolding none by blast
  next
    case False
    let ?r = "if periodic ?nd p then p else r" and ?rs = "if periodic ?nd p then p # rs else rs"
    let ?nx = "if periodic ?nd p then r else next_node (?nd p)"
    let ?nd1 = "?nd(p := (expired_node tp (c + ?t) (?nd p))\<lparr>next_node := ?nx\<rparr>)"
    let ?s1 = "s\<lparr>nodes := ?nd1, mp_timer_id_head := next_node (?nd p)\<rparr>"
    have g: "gap ?nd p \<le> unat e"
      using False by (simp add: gap_def word_less_nat_alt)
    then have e: "unat (e - ?t) = unat e - gap ?nd p"
      by (simp add: gap_def unat_sub word_le_nat_alt)
    have sel: "nodes ?s1 = ?nd1" "mp_timer_id_head ?s1 = next_node (?nd p)"
      by simp_all
    have l1: "linked ?nd1 (next_node (?nd p)) ps"
      using lp p(1) path_cong [of ps ?nd1 ?nd] by auto
    have l2: "linked ?nd1 ?r ?rs"
      using Cons.prems(2) p(2) h(2) path_cong [of rs ?nd1 ?nd] by auto
    have d1: "dues ?nd1 0 ps = dues ?nd 0 ps"
      using p(1) by (intro dues_cong) (auto simp: gap_def)
    have m: "set ps \<inter> set ?rs = {}" "length ps < m"
      using Cons.prems(3,4) n p by auto
    obtain nd' r' where run: "expired_loop m (e - ?t) tp (c + ?t) ?r ?s1 = (Ret r', ?s1\<lparr>nodes := nd',
          mp_timer_id_head := first (map fst (due_later (unat e - gap ?nd p) (dues ?nd 0 ps)))\<rparr>)"
        and ex: "expired_to tp (unat e - gap ?nd p) (c + ?t) (due_by (unat e - gap ?nd p) (dues ?nd 0 ps)) (due_later (unat e - gap ?nd p) (dues ?nd 0 ps))
          ?rs ?nd1 nd' r'"
      using Cons.IH [of ?s1 ?r ?rs m "e - ?t" "c + ?t", unfolded sel e d1, OF l1 l2 m] by blast
    have "expired_loop n e tp c r s = expired_loop m (e - ?t) tp (c + ?t) ?r ?s1"
      using False h n by (simp add: bnd_run andthen_run put_node_def expired_node_def Let_def head_nodes)
    moreover have "map fst (due_later (unat e) (dues ?nd 0 (p # ps))) = map fst (due_later (unat e - gap ?nd p) (dues ?nd 0 ps))"
    proof -
      have "due_later (unat e) (dues ?nd 0 (p # ps)) = map (\<lambda>(q, u). (q, u + gap ?nd p)) (due_later (unat e - gap ?nd p) (dues ?nd 0 ps))"
        unfolding dues_Cons_shift using due_shift(2) [OF g, of "dues ?nd 0 ps"] g by (simp add: due_later_def)
      then show ?thesis
        by (simp add: case_prod_unfold comp_def)
    qed
    ultimately show ?thesis
      using run expired_more [OF l g refl ex] by (intro exI [of _ nd'] exI [of _ r']) simp
  qed
qed

subsection \<open>Inserting\<close>

text \<open>The intervals of the periodic timers.\<close>

definition periods :: "'w timers_scheme \<Rightarrow> u32 \<Rightarrow> u32" where
  "periods s p = ticks_periodic_interval (nodes s p)"

text \<open>An insertion: \<open>p\<close> comes in with \<open>t\<close> ticks to go. The other timers keep what the user has set.\<close>

definition inserted_to :: "'w timers_scheme \<Rightarrow> (u32 \<times> nat) list \<Rightarrow> u32 \<Rightarrow> nat \<Rightarrow> 'w timers_scheme \<Rightarrow> bool" where
  "inserted_to s ag p t s' \<longleftrightarrow> holds s' (agenda_insert p t ag) \<and> running s' = insert p (running s) \<and> periods s' = periods s
     \<and> s' = s\<lparr>nodes := nodes s', mp_timer_id_head := mp_timer_id_head s'\<rparr>
     \<and> (\<forall>q. q \<notin> insert p (fst ` set ag) \<longrightarrow> nodes s' q = nodes s q)
     \<and> (\<forall>q. timer_mode (nodes s' q) = timer_mode (nodes s q) \<and> p_timeout_handler (nodes s' q) = p_timeout_handler (nodes s q)
          \<and> node_context (nodes s' q) = node_context (nodes s q))"

lemma prepared_inserted:
  assumes h: "holds s ag" and p: "p \<notin> fst ` set ag" "p \<noteq> NULL" and n: "length ag < n"
  shows "\<exists>s'. timer_insert_prepared n p s = (Ret (), s')
    \<and> inserted_to s ag p (unat (ticks_until (m_ticks_latest s) (ticks_at_start (nodes s p)) (ticks_first_interval (nodes s p)))) s'"
proof -
  let ?t = "ticks_until (m_ticks_latest s) (ticks_at_start (nodes s p)) (ticks_first_interval (nodes s p))"
  let ?x = "(nodes s p)\<lparr>ticks_to_expire := ?t, ticks_at_start := 0, ticks_first_interval := 0, is_running := True, next_node := NULL\<rparr>"
  let ?s = "s\<lparr>nodes := (nodes s)(p := ?x)\<rparr>"
  have "holds ?s ag"
  proof -
    have "\<forall>q \<in> set (map fst ag). next_node (nodes ?s q) = next_node (nodes s q)" "\<forall>q \<in> set (map fst ag). gap (nodes ?s) q = gap (nodes s) q"
      using p(1) by (auto simp: gap_def)
    then show ?thesis
      using h path_cong [of "map fst ag" "nodes ?s" "nodes s"] dues_cong [of "map fst ag" "nodes ?s" "nodes s" 0] by (simp add: holds_def)
  qed
  moreover have "next_node (nodes ?s p) = NULL" and g: "gap (nodes ?s) p = unat ?t"
    by (simp_all add: gap_def)
  ultimately obtain s' where run: "timer_list_insert n p ?s = (Ret (), s')" and h': "holds s' (agenda_insert p (gap (nodes ?s) p) ag)"
    and only: "s' = ?s\<lparr>nodes := nodes s', mp_timer_id_head := mp_timer_id_head s'\<rparr>" and same: "same_data (nodes ?s) (nodes s')"
    and frame: "\<forall>q. q \<notin> insert p (fst ` set ag) \<longrightarrow> nodes s' q = nodes ?s q"
    using holds_insert [of ?s ag p n] p n by blast
  have user: "same_user (nodes ?s) (nodes s')" "running s' = running ?s"
    by (rule same_data_user [OF same])+
  have "timer_insert_prepared n p s = (Ret (), s')"
    using run by (simp add: timer_insert_prepared_def andthen_run put_node_def)
  moreover have "inserted_to s ag p (unat ?t) s'"
    unfolding inserted_to_def
  proof (intro conjI)
    show "holds s' (agenda_insert p (unat ?t) ag)"
      using h' unfolding g .
    show "running s' = insert p (running s)"
      unfolding user(2) by (auto simp: running_def)
    show "periods s' = periods s"
      using user(1) by (auto simp: same_user_def periods_def fun_eq_iff)
    show "s' = s\<lparr>nodes := nodes s', mp_timer_id_head := mp_timer_id_head s'\<rparr>"
      by (subst only) simp
    show "\<forall>q. q \<notin> insert p (fst ` set ag) \<longrightarrow> nodes s' q = nodes s q"
      using frame by simp
    show "\<forall>q. timer_mode (nodes s' q) = timer_mode (nodes s q) \<and> p_timeout_handler (nodes s' q) = p_timeout_handler (nodes s q)
          \<and> node_context (nodes s' q) = node_context (nodes s q)"
      using user(1) by (simp add: same_user_def)
  qed
  ultimately show ?thesis
    by blast
qed

text \<open>The timers that are restarted.\<close>

definition restart_dues :: "'w timers_scheme \<Rightarrow> u32 list \<Rightarrow> (u32 \<times> nat) list" where
  "restart_dues s rs = map (\<lambda>p. (p, unat (ticks_until (m_ticks_latest s) (ticks_at_start (nodes s p)) (ticks_first_interval (nodes s p))))) rs"

definition agenda_insert_all :: "(u32 \<times> nat) list \<Rightarrow> (u32 \<times> nat) list \<Rightarrow> (u32 \<times> nat) list" where
  "agenda_insert_all xs ag = fold (\<lambda>(p, t). agenda_insert p t) xs ag"

definition same_kind :: "'w timers_scheme \<Rightarrow> 'w timers_scheme \<Rightarrow> bool" where
  "same_kind s s' \<longleftrightarrow> (\<forall>q. timer_mode (nodes s' q) = timer_mode (nodes s q) \<and> p_timeout_handler (nodes s' q) = p_timeout_handler (nodes s q))"

lemma restarts_inserted:
  assumes "linked (nodes s) r rs" and "holds s ag" and "set rs \<inter> fst ` set ag = {}" and "length ag + length rs \<le> n"
  shows "\<exists>s'. insertions_loop n (length rs + k) r s = insertions_loop n k NULL s' \<and> holds s' (agenda_insert_all (restart_dues s rs) ag)
    \<and> running s' = running s \<union> set rs \<and> periods s' = periods s \<and> s' = s\<lparr>nodes := nodes s', mp_timer_id_head := mp_timer_id_head s'\<rparr> \<and> same_kind s s'"
  using assms
proof (induction rs arbitrary: s r ag)
  case Nil
  then show ?case
    by (intro exI [of _ s]) (simp add: restart_dues_def agenda_insert_all_def same_kind_def)
next
  case (Cons p rs)
  let ?t = "unat (ticks_until (m_ticks_latest s) (ticks_at_start (nodes s p)) (ticks_first_interval (nodes s p)))"
  have p: "r = p" "p \<noteq> NULL" "p \<notin> fst ` set ag" "p \<notin> set rs" and l: "linked (nodes s) (next_node (nodes s p)) rs"
    using Cons.prems linked_distinct [OF Cons.prems(1)] by auto
  have n: "length ag < n"
    using Cons.prems(4) by simp
  obtain s1 where run: "timer_insert_prepared n p s = (Ret (), s1)" and ins: "inserted_to s ag p ?t s1"
    using prepared_inserted [OF Cons.prems(2) p(3,2) n] by blast
  have same: "nodes s1 q = nodes s q" if "q \<in> set rs" for q
    using ins that Cons.prems(3) p(4) by (auto simp: inserted_to_def)
  have "linked (nodes s1) (next_node (nodes s p)) rs"
    using l same path_cong [of rs "nodes s1" "nodes s"] by simp
  moreover have "set rs \<inter> fst ` set (agenda_insert p ?t ag) = {}"
    using Cons.prems(3) p(4) by (auto simp: set_agenda_insert)
  moreover have "length (agenda_insert p ?t ag) + length rs \<le> n"
    using Cons.prems(4) by (simp add: length_agenda_insert)
  ultimately obtain s' where loop: "insertions_loop n (length rs + k) (next_node (nodes s p)) s1 = insertions_loop n k NULL s'"
      and h': "holds s' (agenda_insert_all (restart_dues s1 rs) (agenda_insert p ?t ag))" "running s' = running s1 \<union> set rs" "periods s' = periods s1"
        "s' = s1\<lparr>nodes := nodes s', mp_timer_id_head := mp_timer_id_head s'\<rparr>" "same_kind s1 s'"
    using Cons.IH [of s1 "next_node (nodes s p)" "agenda_insert p ?t ag"] ins by (auto simp: inserted_to_def)
  have only: "s1 = s\<lparr>nodes := nodes s1, mp_timer_id_head := mp_timer_id_head s1\<rparr>"
    using ins by (simp add: inserted_to_def)
  then have "m_ticks_latest s1 = m_ticks_latest s"
    by (metis timers.select_convs(7) timers.surjective timers.update_convs(6,14))
  then have "restart_dues s1 rs = restart_dues s rs"
    using same by (simp add: restart_dues_def)
  moreover have "insertions_loop n (length (p # rs) + k) r s = insertions_loop n (length rs + k) (next_node (nodes s p)) s1"
    using run p by (simp add: bnd_run andthen_run)
  moreover have "s' = s\<lparr>nodes := nodes s', mp_timer_id_head := mp_timer_id_head s'\<rparr>"
    using h'(4) by (subst (asm) only) simp
  moreover have "agenda_insert_all (restart_dues s (p # rs)) ag = agenda_insert_all (restart_dues s rs) (agenda_insert p ?t ag)"
    by (simp add: restart_dues_def agenda_insert_all_def)
  ultimately show ?case
    using loop h' ins by (intro exI [of _ s']) (auto simp: inserted_to_def same_kind_def)
qed

text \<open>A start that finds its timer running is ignored. \<open>l\<close> is the latest known counter value, \<open>z\<close> says that the counter was cleared.\<close>

record plan =
  pl_agenda :: "(u32 \<times> nat) list"
  pl_running :: "u32 set"
  pl_period :: "u32 \<Rightarrow> u32"

definition plans :: "'w timers_scheme \<Rightarrow> plan \<Rightarrow> bool" where
  "plans s P \<longleftrightarrow> holds s (pl_agenda P) \<and> running s = pl_running P \<and> periods s = pl_period P"

definition start_op :: "u32 \<Rightarrow> bool \<Rightarrow> timer_user_op \<Rightarrow> plan \<Rightarrow> plan" where
  "start_op l z op P =
     (if op_type op = TIMER_USER_OP_TYPE_START \<and> op_node op \<notin> pl_running P
      then \<lparr>pl_agenda = agenda_insert (op_node op) (unat (ticks_until l (if z then 0 else start_ticks op) (start_first op))) (pl_agenda P),
            pl_running = insert (op_node op) (pl_running P), pl_period = (pl_period P)(op_node op := start_periodic op)\<rparr>
      else P)"

text \<open>All timers of the agenda are running: no running timer is ever inserted.\<close>

definition all_running :: "plan \<Rightarrow> bool" where
  "all_running P \<longleftrightarrow> fst ` set (pl_agenda P) \<subseteq> pl_running P"

lemma start_op_running: "all_running P \<Longrightarrow> all_running (start_op l z op P)"
  by (auto simp: start_op_def all_running_def set_agenda_insert)

lemma start_op_length: "length (pl_agenda (start_op l z op P)) \<le> Suc (length (pl_agenda P))"
  by (simp add: start_op_def length_agenda_insert)

definition swi_frame :: "'w timers_scheme \<Rightarrow> 'w timers_scheme \<Rightarrow> bool" where
  "swi_frame s s' \<longleftrightarrow> list_step s s' \<and> same_kind s s' \<and> m_ticks_latest s' = m_ticks_latest s \<and> m_rtc1_reset s' = m_rtc1_reset s
     \<and> m_rtc1_running s' = m_rtc1_running s \<and> rtc_log s' = rtc_log s"

lemma swi_frame_trans: "swi_frame s s' \<Longrightarrow> swi_frame s' s'' \<Longrightarrow> swi_frame s s''"
  by (simp add: swi_frame_def same_kind_def list_step_def)

text \<open>One operation of the queue, taken by the loop of the insertions.\<close>

lemma op_inserted:
  assumes q: "q_first s \<noteq> q_last s" and p: "plans s P" "all_running P" "length (pl_agenda P) < n"
    and ok: "op_type (user_ops s (q_first s)) = TIMER_USER_OP_TYPE_START \<longrightarrow> op_node (user_ops s (q_first s)) \<noteq> NULL"
  shows "\<exists>s'. insertions_loop n (Suc k) NULL s = insertions_loop n k NULL s' \<and> plans s' (start_op (m_ticks_latest s) (m_rtc1_reset s) (user_ops s (q_first s)) P)
    \<and> swi_frame s s' \<and> q_first s' = next_op (q_first s) s"
proof -
  let ?op = "user_ops s (q_first s)" and ?s0 = "s\<lparr>q_first := next_op (q_first s) s\<rparr>"
  have h: "holds s (pl_agenda P)" "running s = pl_running P" "periods s = pl_period P"
    using p(1) by (simp_all add: plans_def)
  show ?thesis
  proof (cases "op_type ?op = TIMER_USER_OP_TYPE_START \<and> op_node ?op \<notin> pl_running P")
    case False
    then have "insertions_loop n (Suc k) NULL s = insertions_loop n k NULL ?s0"
      using q h(2) by (auto simp: bnd_run andthen_run running_def)
    moreover have "plans ?s0 P"
      using h by (simp add: plans_def holds_def running_def periods_def [abs_def])
    moreover have "start_op (m_ticks_latest s) (m_rtc1_reset s) ?op P = P"
      using False unfolding start_op_def by (rule if_not_P)
    ultimately show ?thesis
      by (intro exI [of _ ?s0]) (simp add: swi_frame_def list_step_def same_kind_def)
  next
    case True
    let ?p = "op_node ?op"
    let ?x = "(nodes s ?p)\<lparr>ticks_at_start := (if m_rtc1_reset s then 0 else start_ticks ?op), ticks_first_interval := start_first ?op,
        ticks_periodic_interval := start_periodic ?op, node_context := start_context ?op\<rparr>"
    let ?s1 = "?s0\<lparr>nodes := (nodes s)(?p := ?x)\<rparr>"
    have notin: "?p \<notin> fst ` set (pl_agenda P)" "?p \<noteq> NULL"
      using True p(2) ok by (auto simp: all_running_def)
    have "holds ?s1 (pl_agenda P)"
    proof -
      have "\<forall>q \<in> set (map fst (pl_agenda P)). next_node (nodes ?s1 q) = next_node (nodes s q)" "\<forall>q \<in> set (map fst (pl_agenda P)). gap (nodes ?s1) q = gap (nodes s) q"
        using notin(1) by (auto simp: gap_def)
      then show ?thesis
        using h(1) path_cong [of _ "nodes ?s1" "nodes s"] dues_cong [of _ "nodes ?s1" "nodes s" 0] by (simp add: holds_def)
    qed
    then obtain s' where run: "timer_insert_prepared n ?p ?s1 = (Ret (), s')"
        and ins: "inserted_to ?s1 (pl_agenda P) ?p (unat (ticks_until (m_ticks_latest ?s1) (ticks_at_start (nodes ?s1 ?p)) (ticks_first_interval (nodes ?s1 ?p)))) s'"
      using prepared_inserted notin p(3) by blast
    have "insertions_loop n (Suc k) NULL s = insertions_loop n k NULL s'"
      using q True h(2) run by (auto simp: bnd_run andthen_run running_def put_node_def)
    moreover have "running ?s1 = pl_running P" "periods ?s1 = (pl_period P)(?p := start_periodic ?op)"
      using h(2,3) by (auto simp: running_def periods_def fun_eq_iff)
    then have "plans s' (start_op (m_ticks_latest s) (m_rtc1_reset s) ?op P)"
      using ins True by (simp add: inserted_to_def plans_def start_op_def)
    moreover have "swi_frame s s'" "q_first s' = next_op (q_first s) s"
    proof -
      have only: "s' = ?s1\<lparr>nodes := nodes s', mp_timer_id_head := mp_timer_id_head s'\<rparr>"
        using ins by (simp add: inserted_to_def)
      show "q_first s' = next_op (q_first s) s"
        by (subst only) simp
      have "list_step s s'" "m_ticks_latest s' = m_ticks_latest s" "m_rtc1_reset s' = m_rtc1_reset s" "m_rtc1_running s' = m_rtc1_running s" "rtc_log s' = rtc_log s"
        by (subst only, simp add: list_step_def)+
      moreover have "same_kind s s'"
        using ins by (simp add: inserted_to_def same_kind_def)
      ultimately show "swi_frame s s'"
        by (simp add: swi_frame_def)
    qed
    ultimately show ?thesis
      by blast
  qed
qed

definition start_ops :: "u32 \<Rightarrow> bool \<Rightarrow> timer_user_op list \<Rightarrow> plan \<Rightarrow> plan" where
  "start_ops l z ops P = fold (start_op l z) ops P"

definition ops_ok :: "timer_user_op list \<Rightarrow> bool" where
  "ops_ok ops \<longleftrightarrow> (\<forall>op \<in> set ops. op_type op = TIMER_USER_OP_TYPE_START \<longrightarrow> op_node op \<noteq> NULL)"

lemma ops_inserted:
  assumes "queued s (q_first s) ops" and "length ops < k" and "plans s P" and "all_running P" and "length (pl_agenda P) + length ops \<le> n" and "ops_ok ops"
  shows "\<exists>s'. insertions_loop n k NULL s = (Ret (), s') \<and> plans s' (start_ops (m_ticks_latest s) (m_rtc1_reset s) ops P)
    \<and> swi_frame s s' \<and> q_first s' = q_last s"
  using assms
proof (induction ops arbitrary: s k P)
  case Nil
  then show ?case
    by (cases k) (auto simp: bnd_run start_ops_def swi_frame_def same_kind_def)
next
  case (Cons op ops)
  then obtain j where k: "k = Suc j" and f: "q_first s \<noteq> q_last s" "user_ops s (q_first s) = op" and q: "queued s (next_op (q_first s) s) ops"
    by (cases k) auto
  let ?P = "start_op (m_ticks_latest s) (m_rtc1_reset s) op P"
  obtain s1 where run: "insertions_loop n k NULL s = insertions_loop n j NULL s1" and P: "plans s1 ?P" and fr: "swi_frame s s1"
      and f1: "q_first s1 = next_op (q_first s) s"
    using op_inserted [OF f(1) Cons.prems(3,4), of n j] Cons.prems(5,6) f k by (auto simp: ops_ok_def)
  have same: "m_ticks_latest s1 = m_ticks_latest s" "m_rtc1_reset s1 = m_rtc1_reset s" "q_last s1 = q_last s" and ls: "list_step s s1"
    using fr by (simp_all add: swi_frame_def list_step_def)
  have "queued s1 (q_first s1) ops"
    unfolding f1 using queued_step [OF q ls] .
  then obtain s' where s': "insertions_loop n j NULL s1 = (Ret (), s')" "plans s' (start_ops (m_ticks_latest s) (m_rtc1_reset s) ops ?P)"
      "swi_frame s1 s'" "q_first s' = q_last s"
    using Cons.IH [of s1 j ?P] P Cons.prems(2,5,6) k start_op_running [OF Cons.prems(4)] start_op_length [of "m_ticks_latest s" "m_rtc1_reset s" op P]
    unfolding same by (auto simp: ops_ok_def)
  then show ?case
    using run swi_frame_trans [OF fr s'(3)] by (intro exI [of _ s']) (simp add: start_ops_def)
qed

end
