(* ===== verification/TimerHandler.thy ===== *)
theory TimerHandler
  imports TimerSwi
begin

text \<open>
  The whole software interrupt of the application timer as a function on the plan of the running timers,
  and the compare register it sets.
\<close>

unbundle bit_operations_syntax

subsection \<open>The 24 bit counter\<close>

lemma max_counter_mask: "x AND MAX_RTC_COUNTER_VAL = take_bit 24 x"
  by (simp add: MAX_RTC_COUNTER_VAL_def take_bit_eq_mask mask_eq_exp_minus_1)

lemma uint_counter: "uint (x AND MAX_RTC_COUNTER_VAL) = uint x mod 2 ^ 24"
  unfolding max_counter_mask unsigned_take_bit_eq by (rule take_bit_eq_mod)

lemma unat_counter: "unat (x AND MAX_RTC_COUNTER_VAL) = unat x mod 2 ^ 24"
  unfolding max_counter_mask unsigned_take_bit_eq by (rule take_bit_eq_mod)

lemma uint_ticks_diff: "uint (ticks_diff_get a b) = (uint a - uint b) mod 2 ^ 24"
proof -
  have "uint (ticks_diff_get a b) = ((uint a - uint b) mod 2 ^ 32) mod 2 ^ 24"
    unfolding ticks_diff_get_def uint_counter by (simp add: uint_word_ariths)
  then show ?thesis
    by (simp add: mod_mod_cancel)
qed

lemma ticks_diff_masked: "ticks_diff_get (a AND MAX_RTC_COUNTER_VAL) (b AND MAX_RTC_COUNTER_VAL) = ticks_diff_get a b"
  by (rule word_uint_eqI) (simp add: uint_ticks_diff uint_counter mod_diff_eq)

lemma ticks_diff_bound: "unat (ticks_diff_get a b) < 2 ^ 24"
  unfolding ticks_diff_get_def unat_counter by simp

lemma ticks_diff_flip:
  assumes "ticks_diff_get a b \<noteq> 0"
  shows "unat (ticks_diff_get b a) = 2 ^ 24 - unat (ticks_diff_get a b)"
proof -
  have "uint (ticks_diff_get b a) = (- uint (ticks_diff_get a b)) mod 2 ^ 24"
    by (simp add: uint_ticks_diff mod_minus_eq)
  moreover have "uint (ticks_diff_get a b) < 2 ^ 24"
    unfolding uint_ticks_diff by simp
  moreover have "uint (ticks_diff_get a b) \<noteq> 0"
    using assms by (metis uint_0_iff)
  then have "0 < uint (ticks_diff_get a b)"
    using uint_ge_0 [of "ticks_diff_get a b"] by linarith
  moreover have "(- x) mod m = m - x" if "0 < x" "x < m" for x m :: int
    using that by (simp add: zmod_zminus1_eq_if)
  moreover have "nat (m - x) = nat m - nat x" if "0 < x" "x < m" for x m :: int
    using that by simp
  ultimately have "nat (uint (ticks_diff_get b a)) = nat (2 ^ 24) - nat (uint (ticks_diff_get a b))"
    by presburger
  then show ?thesis
    unfolding unat_eq_nat_uint by (simp only: nat_power_eq zero_le_numeral nat_numeral)
qed

text \<open>A periodic timer that expired \<open>e - u\<close> ticks ago has that much less to go.\<close>

lemma ticks_until_restart:
  assumes "u \<le> e" and "e - u \<le> 2 ^ 23"
  shows "unat (ticks_until ((l + of_nat e) AND MAX_RTC_COUNTER_VAL) ((l + of_nat u) AND MAX_RTC_COUNTER_VAL) per) = unat per - (e - u)"
proof -
  let ?d = "ticks_diff_get (l + of_nat e) (l + of_nat u)"
  have "(of_nat e :: u32) - of_nat u = of_nat (e - u)"
    using assms(1) by (simp add: of_nat_diff)
  then have d: "unat ?d = e - u"
    using assms(2) unat_counter [of "of_nat (e - u)"] by (simp add: ticks_diff_get_def unat_of_nat)
  have turned: "((l + of_nat u) AND MAX_RTC_COUNTER_VAL) - ((l + of_nat e) AND MAX_RTC_COUNTER_VAL) AND MAX_RTC_COUNTER_VAL
      = ticks_diff_get (l + of_nat u) (l + of_nat e)"
    using ticks_diff_masked unfolding ticks_diff_get_def by blast
  have half: "MAX_RTC_COUNTER_VAL div 2 = 0x7FFFFF"
    by (simp add: MAX_RTC_COUNTER_VAL_def)
  show ?thesis
  proof (cases "e = u")
    case True
    then show ?thesis
      by (simp add: ticks_until_def half ticks_diff_get_def)
  next
    case False
    then have "?d \<noteq> 0"
      using d assms(1) by auto
    then have "unat (ticks_diff_get (l + of_nat u) (l + of_nat e)) = 2 ^ 24 - (e - u)"
      using ticks_diff_flip [of "l + of_nat e" "l + of_nat u"] d by simp
    then have "\<not> ticks_diff_get (l + of_nat u) (l + of_nat e) < MAX_RTC_COUNTER_VAL div 2"
      unfolding half word_less_nat_alt using assms(2) by simp
    then show ?thesis
      unfolding ticks_until_def turned ticks_diff_masked using d
      by (auto simp: Let_def unat_sub word_le_nat_alt word_less_nat_alt)
  qed
qed

subsection \<open>The compare register\<close>

definition compared_to :: "'w timers_scheme \<Rightarrow> 'w timers_scheme \<Rightarrow> bool" where
  "compared_to s s' \<longleftrightarrow> s' = s\<lparr>rtc_log := rtc_log s', m_rtc1_running := m_rtc1_running s', m_ticks_latest := m_ticks_latest s'\<rparr>
     \<and> m_rtc1_running s' = (mp_timer_id_head s \<noteq> NULL) \<and> m_ticks_latest s' = (if mp_timer_id_head s = NULL then 0 else m_ticks_latest s)"

lemma compare_returns: "\<exists>s'. compare_reg_update s = (Ret (), s') \<and> compared_to s s'"
proof (cases "mp_timer_id_head s = NULL")
  case True
  then show ?thesis
    by (simp add: compare_reg_update_def bnd_run rtc1_stop_def compared_to_def access_def)
next
  case False
  then show ?thesis
    by (auto simp: compare_reg_update_def bnd_run andthen_run rtc1_counter_get_def rtc1_start_def rtc1_compare0_set_def
        timer_timeouts_check_sched_def compared_to_def access_def Let_def)
qed

subsection \<open>The interrupt\<close>

text \<open>The ticks that have expired and that the list does not show yet.\<close>

definition elapsed :: "'w timers_scheme \<Rightarrow> u32 option" where
  "elapsed s = (if m_ticks_elapsed_q_read_ind s \<noteq> m_ticks_elapsed_q_write_ind s then Some (m_ticks_elapsed s (m_ticks_elapsed_q_write_ind s)) else None)"

definition elapsed_ok :: "'w timers_scheme \<Rightarrow> bool" where
  "elapsed_ok s \<longleftrightarrow> m_ticks_elapsed_q_read_ind s < CONTEXT_QUEUE_SIZE_MAX \<and> m_ticks_elapsed_q_write_ind s < CONTEXT_QUEUE_SIZE_MAX"

definition advanced :: "u32 \<Rightarrow> u32 option \<Rightarrow> u32" where
  "advanced l el = (case el of None \<Rightarrow> l | Some e \<Rightarrow> (l + e) AND MAX_RTC_COUNTER_VAL)"

lemma below_two: "(i :: u8) < CONTEXT_QUEUE_SIZE_MAX \<longleftrightarrow> i = 0 \<or> i = 1"
proof -
  have "i < 2 \<longleftrightarrow> unat i < 2"
    by (simp add: word_less_nat_alt)
  also have "\<dots> \<longleftrightarrow> unat i = unat (0 :: u8) \<or> unat i = unat (1 :: u8)"
    by auto
  finally show ?thesis
    by (simp only: word_unat_eq_iff CONTEXT_QUEUE_SIZE_MAX_def)
qed

lemma acquired:
  assumes "elapsed_ok s"
  shows "elapsed_ticks_acquire s = (Ret (elapsed s \<noteq> None, case elapsed s of None \<Rightarrow> 0 | Some e \<Rightarrow> e),
      s\<lparr>m_ticks_elapsed_q_read_ind := m_ticks_elapsed_q_write_ind s, m_ticks_latest := advanced (m_ticks_latest s) (elapsed s)\<rparr>)"
proof (cases "m_ticks_elapsed_q_read_ind s = m_ticks_elapsed_q_write_ind s")
  case True
  then show ?thesis
    by (simp add: elapsed_ticks_acquire_def elapsed_def advanced_def)
next
  case False
  then have "m_ticks_elapsed_q_read_ind s = 0 \<and> m_ticks_elapsed_q_write_ind s = 1 \<or> m_ticks_elapsed_q_read_ind s = 1 \<and> m_ticks_elapsed_q_write_ind s = 0"
    using assms by (auto simp: elapsed_ok_def below_two)
  then show ?thesis
    by (auto simp: elapsed_ticks_acquire_def elapsed_def advanced_def CONTEXT_QUEUE_SIZE_MAX_def)
qed

text \<open>
  What the interrupt makes of the plan: the stopped timers go, those that are due leave the agenda, the periodic
  ones among them come in again, counted from the moment at which they were due, and the new ones come in.
\<close>

definition restarts :: "u32 option \<Rightarrow> (u32 \<Rightarrow> u32) \<Rightarrow> (u32 \<times> nat) list \<Rightarrow> (u32 \<times> nat) list" where
  "restarts el per ag = (case el of None \<Rightarrow> []
     | Some e \<Rightarrow> rev (map (\<lambda>(q, u). (q, unat (per q) - (unat e - u))) (filter (\<lambda>(q, u). per q \<noteq> 0) (due_by (unat e) ag))))"

definition remaining :: "u32 option \<Rightarrow> (u32 \<times> nat) list \<Rightarrow> (u32 \<times> nat) list" where
  "remaining el ag = (case el of None \<Rightarrow> ag | Some e \<Rightarrow> map (\<lambda>(q, u). (q, u - unat e)) (due_later (unat e) ag))"

definition swi_plan :: "u32 \<Rightarrow> u32 option \<Rightarrow> timer_user_op list \<Rightarrow> plan \<Rightarrow> plan" where
  "swi_plan l el ops P =
     (let (ag, R) = delete_ops ops (pl_agenda P, pl_running P);
          rs = restarts el (pl_period P) ag;
          z = emptied_by ops (pl_agenda P)
      in start_ops (if z then 0 else advanced l el) z ops
           \<lparr>pl_agenda = agenda_insert_all rs (remaining el ag), pl_running = R \<union> fst ` set rs, pl_period = pl_period P\<rparr>)"

text \<open>A timer of the agenda that is not running is on its way out: it has been stopped or it has expired.\<close>

definition going :: "u32 option \<Rightarrow> timer_user_op list \<Rightarrow> (u32 \<times> nat) \<Rightarrow> bool" where
  "going el ops x \<longleftrightarrow> (\<exists>op \<in> set ops. op_type op = TIMER_USER_OP_TYPE_STOP_ALL \<or> op_type op = TIMER_USER_OP_TYPE_STOP \<and> op_node op = fst x)
     \<or> (\<exists>e. el = Some e \<and> snd x \<le> unat e)"

definition idle_going :: "u32 option \<Rightarrow> timer_user_op list \<Rightarrow> plan \<Rightarrow> bool" where
  "idle_going el ops P \<longleftrightarrow> (\<forall>x \<in> set (pl_agenda P). fst x \<in> pl_running P \<or> going el ops x)"

definition spared :: "timer_user_op list \<Rightarrow> (u32 \<times> nat) \<Rightarrow> bool" where
  "spared ops x \<longleftrightarrow> (\<forall>op \<in> set ops. op_type op \<noteq> TIMER_USER_OP_TYPE_STOP_ALL \<and> (op_type op = TIMER_USER_OP_TYPE_STOP \<longrightarrow> op_node op \<noteq> fst x))"

lemma delete_op_filter: "fst (delete_op op (ag, R)) = filter (spared [op]) ag"
  by (cases "op_type op") (auto simp: spared_def case_prod_unfold intro!: filter_cong)

lemma delete_ops_Cons: "delete_ops (op # ops) x = delete_ops ops (delete_op op x)"
  by (simp add: delete_ops_def)

lemma delete_ops_filter: "fst (delete_ops ops (ag, R)) = filter (spared ops) ag"
proof (induction ops arbitrary: ag R)
  case (Cons op ops)
  obtain ag1 R1 where d: "delete_op op (ag, R) = (ag1, R1)"
    by fastforce
  have "ag1 = filter (spared [op]) ag"
    using delete_op_filter [of op ag R] d by simp
  then show ?case
    using d Cons.IH [of ag1 R1] by (auto simp: delete_ops_Cons spared_def simp del: delete_op.simps intro!: filter_cong)
qed (simp add: delete_ops_def spared_def)

lemma delete_ops_running: "\<forall>op \<in> set ops. op_type op \<noteq> TIMER_USER_OP_TYPE_STOP_ALL \<Longrightarrow> snd (delete_ops ops (ag, R)) = R"
proof (induction ops arbitrary: ag)
  case (Cons op ops)
  then have "snd (delete_op op (ag, R)) = R"
    by (simp split: timer_user_op_type.splits)
  then obtain ag1 where "delete_op op (ag, R) = (ag1, R)"
    by (metis prod.collapse)
  then show ?case
    using Cons by (simp add: delete_ops_Cons)
qed (simp add: delete_ops_def)

lemma delete_ops_length: "length (fst (delete_ops ops (ag, R))) \<le> length ag"
  by (simp add: delete_ops_filter)

text \<open>Expiring, on the agenda. The restart list has what is needed to count from the moment of expiry.\<close>

definition lag_ok :: "u32 option \<Rightarrow> (u32 \<times> nat) list \<Rightarrow> bool" where
  "lag_ok el ag \<longleftrightarrow> (\<forall>e. el = Some e \<longrightarrow> (\<forall>(q, u) \<in> set ag. u \<le> unat e \<longrightarrow> unat e - u \<le> 2 ^ 23))"

definition restart_list :: "u32 \<Rightarrow> (u32 \<Rightarrow> u32) \<Rightarrow> (u32 \<times> nat) list \<Rightarrow> u32 list" where
  "restart_list e per ag = rev (filter (\<lambda>q. per q \<noteq> 0) (map fst (due_by (unat e) ag)))"

lemma fst_restarts: "map fst (restarts (Some e) per ag) = restart_list e per ag"
proof -
  have "map fst (map (\<lambda>(q, u). (q, unat (per q) - (unat e - u))) (filter (\<lambda>(q, u). per q \<noteq> 0) xs)) = filter (\<lambda>q. per q \<noteq> 0) (map fst xs)"
    for xs :: "(u32 \<times> nat) list"
    by (induction xs) auto
  then show ?thesis
    unfolding restarts_def restart_list_def option.case rev_map [symmetric] by simp
qed

lemma due_by_le: "(q, u) \<in> set (due_by e ag) \<Longrightarrow> u \<le> e"
  by (auto simp: due_by_def dest: set_takeWhileD)

lemma agenda_expired:
  assumes h: "holds s ag" and n: "length ag < n"
  obtains s' r where "expired_timers_handler n e tp NULL s = (Ret r, s')" and "holds s' (remaining (Some e) ag)"
    and "linked (nodes s') r (restart_list e (periods s) ag)" and "s' = s\<lparr>nodes := nodes s', mp_timer_id_head := mp_timer_id_head s'\<rparr>"
    and "running s' = running s" and "periods s' = periods s" and "same_kind s s'"
    and "\<forall>(q, u) \<in> set (due_by (unat e) ag). periods s q \<noteq> 0 \<longrightarrow> ticks_at_start (nodes s' q) = (tp + of_nat u) AND MAX_RTC_COUNTER_VAL
      \<and> ticks_first_interval (nodes s' q) = periods s q"
proof -
  note f = holds_facts [OF h]
  obtain nd r where run: "expired_loop n e tp 0 NULL s = (Ret r, s\<lparr>nodes := nd, mp_timer_id_head := first (map fst (due_later (unat e) ag))\<rparr>)"
      (is "_ = (_, ?s')") and ex: "expired_to tp (unat e) 0 (due_by (unat e) ag) (due_later (unat e) ag) [] (nodes s) nd r"
    using expired_linked [OF f(1), of NULL "[]" n e tp 0] n unfolding f(2) by auto
  have at: "nd q = (expired_node tp (of_nat u) (nodes s q))\<lparr>next_node := next_node (nd q)\<rparr>" if "(q, u) \<in> set (due_by (unat e) ag)" for q u
    using ex that by (auto simp: expired_to_def)
  have left: "nd q = (nodes s q)\<lparr>ticks_to_expire := ticks_to_expire (nd q)\<rparr>" if "q \<in> fst ` set (due_later (unat e) ag)" for q
    using ex that unfolding expired_to_def by blast
  have rest: "nd q = nodes s q" if "q \<notin> fst ` set ag" for q
    using ex that by (simp add: expired_to_def due_split)
  have keep: "is_running (nd q) = is_running (nodes s q) \<and> ticks_periodic_interval (nd q) = ticks_periodic_interval (nodes s q)
      \<and> timer_mode (nd q) = timer_mode (nodes s q) \<and> p_timeout_handler (nd q) = p_timeout_handler (nodes s q)" for q
  proof -
    have "fst ` set ag = fst ` set (due_by (unat e) ag) \<union> fst ` set (due_later (unat e) ag)"
      by (simp add: due_split flip: image_Un set_append)
    then consider "q \<in> fst ` set (due_by (unat e) ag)" | "q \<in> fst ` set (due_later (unat e) ag)" | "q \<notin> fst ` set ag"
      by blast
    then show ?thesis
    proof cases
      case 1
      then obtain u where u: "(q, u) \<in> set (due_by (unat e) ag)"
        by force
      show ?thesis
        by (subst (1 2 3 4) at [OF u]) (simp add: expired_node_def)
    next
      case 2
      show ?thesis
        by (subst (1 2 3 4) left [OF 2]) simp
    qed (simp add: rest)
  qed
  have fsts: "map fst (map (\<lambda>(q, u). (q, u - unat e)) bs) = map fst bs" for bs :: "(u32 \<times> nat) list"
    by (simp add: case_prod_unfold comp_def)
  have "holds ?s' (remaining (Some e) ag)"
    using ex h unfolding holds_def remaining_def option.case fsts
    by (auto simp: expired_to_def due_later_def dest!: set_dropWhileD)
  moreover have "linked nd r (restart_list e (periods s) ag)"
    using ex by (simp add: expired_to_def restart_list_def periods_def)
  moreover have "\<forall>(q, u) \<in> set (due_by (unat e) ag). periods s q \<noteq> 0 \<longrightarrow> ticks_at_start (nd q) = (tp + of_nat u) AND MAX_RTC_COUNTER_VAL
      \<and> ticks_first_interval (nd q) = periods s q"
  proof (clarify)
    fix q u
    assume qu: "(q, u) \<in> set (due_by (unat e) ag)" and per: "periods s q \<noteq> 0"
    show "ticks_at_start (nd q) = (tp + of_nat u) AND MAX_RTC_COUNTER_VAL \<and> ticks_first_interval (nd q) = periods s q"
      by (subst (1 2) at [OF qu]) (use per in \<open>simp add: expired_node_def periods_def\<close>)
  qed
  ultimately show thesis
    using run keep by (intro that [of r ?s']) (simp_all add: expired_timers_handler_def running_def periods_def fun_eq_iff same_kind_def)
qed

lemma restart_dues_eq:
  assumes l: "m_ticks_latest s' = (tp + e) AND MAX_RTC_COUNTER_VAL" and lag: "lag_ok (Some e) ag" and d: "distinct (map fst ag)"
    and at: "\<forall>(q, u) \<in> set (due_by (unat e) ag). per q \<noteq> 0 \<longrightarrow> ticks_at_start (nodes s' q) = (tp + of_nat u) AND MAX_RTC_COUNTER_VAL
      \<and> ticks_first_interval (nodes s' q) = per q"
  shows "restart_dues s' (restart_list e per ag) = restarts (Some e) per ag"
proof -
  let ?due = "\<lambda>p. unat (ticks_until (m_ticks_latest s') (ticks_at_start (nodes s' p)) (ticks_first_interval (nodes s' p)))"
  have "?due q = unat (per q) - (unat e - u)" if qu: "(q, u) \<in> set (due_by (unat e) ag)" "per q \<noteq> 0" for q u
  proof -
    have "ticks_at_start (nodes s' q) = (tp + of_nat u) AND MAX_RTC_COUNTER_VAL" "ticks_first_interval (nodes s' q) = per q" "unat e - u \<le> 2 ^ 23"
    proof -
      have "(q, u) \<in> set ag" "u \<le> unat e"
        using qu(1) by (auto simp: due_by_def dest: set_takeWhileD)
      then show "unat e - u \<le> 2 ^ 23"
        using lag by (auto simp: lag_ok_def)
    qed (use at qu in auto)
    then show ?thesis
      using ticks_until_restart [OF due_by_le [OF qu(1)], of tp "per q"] l by simp
  qed
  then have "map (\<lambda>p. (p, ?due p)) (filter (\<lambda>q. per q \<noteq> 0) (map fst xs)) = map (\<lambda>(q, u). (q, unat (per q) - (unat e - u))) (filter (\<lambda>(q, u). per q \<noteq> 0) xs)"
    if "set xs \<subseteq> set (due_by (unat e) ag)" for xs
    using that by (induction xs) auto
  then show ?thesis
    by (simp add: restart_dues_def restart_list_def restarts_def rev_map [symmetric])
qed

lemma emptied_empty: "emptied_by ops ag \<Longrightarrow> fst (delete_ops ops (ag, R)) = []"
proof (induction ops arbitrary: ag R)
  case (Cons op ops)
  obtain ag1 R1 where d: "delete_op op (ag, R) = (ag1, R1)"
    by fastforce
  then have "ag1 = fst (delete_op op (ag, {}))"
    using delete_op_agenda [of op ag R] by simp
  moreover have "op_type op = TIMER_USER_OP_TYPE_STOP \<Longrightarrow> ag1 = filter (\<lambda>(q, u). q \<noteq> op_node op) ag"
    using d by simp
  ultimately have "ag1 = [] \<or> emptied_by ops ag1"
    using Cons.prems by auto
  then show ?case
    using Cons.IH [of ag1 R1] delete_ops_filter [of ops "[]" R1] d by (auto simp: delete_ops_Cons simp del: delete_op.simps)
qed simp

lemma holds_sorted: "holds s ag \<Longrightarrow> sorted (map snd ag)"
  using sorted_dues [of "nodes s" 0 "map fst ag"] by (simp add: holds_def)

lemma due_later_gt: "sorted (map snd ag) \<Longrightarrow> (q, u) \<in> set (due_later e ag) \<Longrightarrow> e < u"
  by (induction ag) (fastforce simp: due_later_def split: if_splits)+

lemma remaining_names: "fst ` set (remaining el ag) \<subseteq> fst ` set ag"
  by (force simp: remaining_def due_later_def dest: set_dropWhileD split: option.splits)

definition swi_mid :: "u32 option \<Rightarrow> timer_user_op list \<Rightarrow> plan \<Rightarrow> plan" where
  "swi_mid el ops P =
     (let (ag, R) = delete_ops ops (pl_agenda P, pl_running P); rs = restarts el (pl_period P) ag
      in \<lparr>pl_agenda = agenda_insert_all rs (remaining el ag), pl_running = R \<union> fst ` set rs, pl_period = pl_period P\<rparr>)"

lemma swi_plan_mid:
  "swi_plan l el ops P = start_ops (if emptied_by ops (pl_agenda P) then 0 else advanced l el) (emptied_by ops (pl_agenda P)) ops (swi_mid el ops P)"
  by (simp add: swi_plan_def swi_mid_def Let_def case_prod_unfold)

lemma set_agenda_insert_all: "set (agenda_insert_all xs ag) = set xs \<union> set ag"
  by (induction xs arbitrary: ag) (auto simp: agenda_insert_all_def set_agenda_insert)

lemma length_agenda_insert_all: "length (agenda_insert_all xs ag) = length xs + length ag"
  by (induction xs arbitrary: ag) (auto simp: agenda_insert_all_def length_agenda_insert)

lemma swi_mid_length: "length (pl_agenda (swi_mid el ops P)) \<le> length (pl_agenda P)"
proof -
  obtain ag R where d: "delete_ops ops (pl_agenda P, pl_running P) = (ag, R)"
    by fastforce
  have "length (restarts el per ag) + length (remaining el ag) \<le> length ag" for per
  proof (cases el)
    case (Some e)
    have "length (due_by (unat e) ag) + length (due_later (unat e) ag) = length ag"
      using due_split [of "unat e" ag] by (metis length_append)
    moreover have "length (filter (\<lambda>(q, u). per q \<noteq> 0) (due_by (unat e) ag)) \<le> length (due_by (unat e) ag)"
      by (rule length_filter_le)
    ultimately have "length (filter (\<lambda>(q, u). per q \<noteq> 0) (due_by (unat e) ag)) + length (due_later (unat e) ag) \<le> length ag"
      by linarith
    then show ?thesis
      using Some by (simp add: restarts_def remaining_def)
  qed (simp add: restarts_def remaining_def)
  then show ?thesis
    using delete_ops_length [of ops "pl_agenda P" "pl_running P"] d
    by (simp add: swi_mid_def Let_def length_agenda_insert_all) (meson le_trans)
qed

lemma swi_mid_running:
  assumes "idle_going el ops P" and "sorted (map snd (pl_agenda P))"
  shows "all_running (swi_mid el ops P)"
proof -
  obtain ag R where d: "delete_ops ops (pl_agenda P, pl_running P) = (ag, R)"
    by fastforce
  have ag: "ag = filter (spared ops) (pl_agenda P)"
    using delete_ops_filter [of ops "pl_agenda P" "pl_running P"] d by simp
  have "fst x \<in> R" if x: "x \<in> set (remaining el ag)" for x
  proof -
    obtain u where u: "(fst x, u) \<in> set ag" and late: "\<forall>e. el = Some e \<longrightarrow> (fst x, u) \<in> set (due_later (unat e) ag)"
    proof (cases el)
      case None
      then show ?thesis
        using that [of "snd x"] x by (simp add: remaining_def)
    next
      case (Some e)
      then obtain u where "(fst x, u) \<in> set (due_later (unat e) ag)"
        using x by (force simp: remaining_def)
      then show ?thesis
        using that [of u] Some by (auto simp: due_later_def dest: set_dropWhileD)
    qed
    have sp: "(fst x, u) \<in> set (pl_agenda P)" "spared ops (fst x, u)"
      using u by (simp_all add: ag)
    have "R = pl_running P"
      using delete_ops_running [of ops "pl_agenda P" "pl_running P"] d sp(2) by (simp add: spared_def)
    moreover have "sorted (map snd ag)"
      unfolding ag using assms(2) by (rule sorted_filter)
    then have "\<not> going el ops (fst x, u)"
      using sp(2) late due_later_gt [of ag "fst x" u] by (fastforce simp: going_def spared_def)
    ultimately show ?thesis
      using assms(1) sp(1) by (auto simp: idle_going_def)
  qed
  then show ?thesis
    using d by (auto simp: all_running_def swi_mid_def Let_def set_agenda_insert_all)
qed

definition swi_done :: "'w timers_scheme \<Rightarrow> 'w timers_scheme \<Rightarrow> bool" where
  "swi_done s s' \<longleftrightarrow> q_first s' = q_last s \<and> q_last s' = q_last s \<and> q_size s' = q_size s \<and> p_user_op_queue s' = p_user_op_queue s
     \<and> elapsed s' = None \<and> elapsed_ok s' \<and> \<not> m_rtc1_reset s' \<and> m_evt_schedule_func s' = m_evt_schedule_func s
     \<and> rtc_env s' = rtc_env s \<and> timers.more s' = timers.more s \<and> sd_env s' = sd_env s \<and> sd_trace s' = sd_trace s \<and> same_kind s s'"

lemma same_kind_trans: "same_kind s s' \<Longrightarrow> same_kind s' s'' \<Longrightarrow> same_kind s s''"
  by (simp add: same_kind_def)

lemma same_user_kind: "same_user (nodes s) (nodes s') \<Longrightarrow> same_kind s s' \<and> periods s' = periods s"
  by (auto simp: same_user_def same_kind_def periods_def fun_eq_iff)

text \<open>The state after the deletions, and after the timers that are due have left the list.\<close>

lemma swi_deleted:
  assumes P: "plans s P" and q: "queued s (q_first s) ops" and n: "length ops < n" "length (pl_agenda P) < n"
  obtains s' where "list_deletions_handler n s = (Ret (mp_timer_id_head s' \<noteq> mp_timer_id_head s), s')"
    and "deleted_to s (delete_ops ops (pl_agenda P, pl_running P)) (emptied_by ops (pl_agenda P)) s'"
proof -
  have h: "holds s (pl_agenda P)" "running s = pl_running P"
    using P by (simp_all add: plans_def)
  obtain s' where "deletions_loop n n (q_first s) s = (Ret (), s')" "deleted_to s (delete_ops ops (pl_agenda P, running s)) (emptied_by ops (pl_agenda P)) s'"
    using deletions [OF q n(1) h(1) n(2)] by blast
  then show thesis
    using h(2) by (intro that [of s']) (simp_all add: list_deletions_handler_def bnd_run andthen_run)
qed

lemma swi_expired:
  assumes h: "holds s ag" and n: "length ag < n" and l: "ag = [] \<or> m_ticks_latest s = advanced tp el" and lag: "lag_ok el ag"
  obtains s' r where "(if el \<noteq> None then expired_timers_handler n (case el of None \<Rightarrow> 0 | Some e \<Rightarrow> e) tp NULL else ret NULL) s = (Ret r, s')"
    and "holds s' (remaining el ag)" and "linked (nodes s') r (map fst (restarts el (periods s) ag))"
    and "restart_dues s' (map fst (restarts el (periods s) ag)) = restarts el (periods s) ag"
    and "s' = s\<lparr>nodes := nodes s', mp_timer_id_head := mp_timer_id_head s'\<rparr>" and "running s' = running s" and "periods s' = periods s" and "same_kind s s'"
proof (cases el)
  case None
  then show ?thesis
    using h by (intro that [of NULL s]) (simp_all add: remaining_def restarts_def restart_dues_def same_kind_def)
next
  case (Some e)
  obtain s' r where run: "expired_timers_handler n e tp NULL s = (Ret r, s')" "holds s' (remaining (Some e) ag)"
      "linked (nodes s') r (restart_list e (periods s) ag)" and only: "s' = s\<lparr>nodes := nodes s', mp_timer_id_head := mp_timer_id_head s'\<rparr>"
      and same: "running s' = running s" "periods s' = periods s" "same_kind s s'"
      and at: "\<forall>(q, u) \<in> set (due_by (unat e) ag). periods s q \<noteq> 0 \<longrightarrow> ticks_at_start (nodes s' q) = (tp + of_nat u) AND MAX_RTC_COUNTER_VAL
        \<and> ticks_first_interval (nodes s' q) = periods s q"
    by (rule agenda_expired [OF h n])
  have "restart_dues s' (restart_list e (periods s) ag) = restarts (Some e) (periods s) ag"
  proof (cases "ag = []")
    case True
    then show ?thesis
      by (simp add: restart_list_def restarts_def restart_dues_def due_by_def)
  next
    case False
    have "m_ticks_latest s' = m_ticks_latest s"
      by (subst only) simp
    then have "m_ticks_latest s' = (tp + e) AND MAX_RTC_COUNTER_VAL"
      using l False Some by (simp add: advanced_def)
    then show ?thesis
      using restart_dues_eq [OF _ _ _ at] lag Some holds_facts(4) [OF h] by blast
  qed
  then show ?thesis
    using run only same Some by (intro that [of r s']) (simp_all add: fst_restarts)
qed

lemma swi_inserted:
  assumes h: "holds s ag" and rs: "linked (nodes s) r (map fst xs)" "restart_dues s (map fst xs) = xs" and d: "fst ` set xs \<inter> fst ` set ag = {}"
    and q: "queued s (q_first s) ops" "ops_ok ops" and n: "length xs + length ag + length ops < n"
    and run: "all_running \<lparr>pl_agenda = agenda_insert_all xs ag, pl_running = running s \<union> fst ` set xs, pl_period = periods s\<rparr>" (is "all_running ?P")
  obtains s' where "list_insertions_handler n r s = (Ret (mp_timer_id_head s' \<noteq> mp_timer_id_head s), s')"
    and "plans s' (start_ops (m_ticks_latest s) (m_rtc1_reset s) ops ?P)" and "swi_frame s s'" and "q_first s' = q_last s"
proof -
  obtain s1 where loop: "insertions_loop n (length (map fst xs) + (n - length xs)) r s = insertions_loop n (n - length xs) NULL s1"
      and s1: "holds s1 (agenda_insert_all xs ag)" "running s1 = running s \<union> fst ` set xs" "periods s1 = periods s"
      and only: "s1 = s\<lparr>nodes := nodes s1, mp_timer_id_head := mp_timer_id_head s1\<rparr>" and kind: "same_kind s s1"
    using restarts_inserted [OF rs(1) h, of n "n - length xs"] d n unfolding rs(2) by auto
  have sel: "q_first s1 = q_first s" "m_ticks_latest s1 = m_ticks_latest s" "m_rtc1_reset s1 = m_rtc1_reset s" "q_last s1 = q_last s"
    "m_rtc1_running s1 = m_rtc1_running s" "rtc_log s1 = rtc_log s" and ls: "list_step s s1"
    by (subst only, simp add: list_step_def)+
  have fr: "swi_frame s s1"
    using sel ls kind by (simp add: swi_frame_def)
  have q1: "queued s1 (q_first s1) ops"
    unfolding sel using queued_step [OF q(1) ls] .
  have P1: "plans s1 ?P"
    using s1 by (simp add: plans_def)
  have n1: "length ops < n - length xs" "length (pl_agenda ?P) + length ops \<le> n"
    using n by (simp_all add: length_agenda_insert_all)
  obtain s' where s': "insertions_loop n (n - length xs) NULL s1 = (Ret (), s')" "plans s' (start_ops (m_ticks_latest s) (m_rtc1_reset s) ops ?P)"
      "swi_frame s1 s'" "q_first s' = q_last s"
    using ops_inserted [OF q1 n1(1) P1 run n1(2) q(2)] unfolding sel by blast
  have "insertions_loop n n r s = (Ret (), s')"
    using loop s'(1) n by simp
  then show thesis
    using s' swi_frame_trans [OF fr] by (intro that [of s']) (simp_all add: list_insertions_handler_def bnd_run andthen_run)
qed

lemma restarts_disjoint:
  assumes "distinct (map fst ag)"
  shows "fst ` set (restarts el per ag) \<inter> fst ` set (remaining el ag) = {}"
proof (cases el)
  case (Some e)
  have "distinct (map fst (due_by (unat e) ag) @ map fst (due_later (unat e) ag))"
    using assms by (simp add: due_split flip: map_append)
  then have "fst ` set (due_by (unat e) ag) \<inter> fst ` set (due_later (unat e) ag) = {}"
    by simp
  moreover have "fst ` set (restarts (Some e) per ag) \<subseteq> fst ` set (due_by (unat e) ag)" "fst ` set (remaining (Some e) ag) = fst ` set (due_later (unat e) ag)"
    by (force simp: restarts_def, force simp: remaining_def)
  ultimately show ?thesis
    using Some by blast
qed (simp add: restarts_def)

lemma plans_cong: "nodes s' = nodes s \<Longrightarrow> mp_timer_id_head s' = mp_timer_id_head s \<Longrightarrow> plans s' P = plans s P"
  by (simp add: plans_def holds_def running_def periods_def [abs_def])

lemma swi_done_step:
  assumes ls: "list_step (s\<lparr>m_ticks_elapsed_q_read_ind := m_ticks_elapsed_q_write_ind s, m_ticks_latest := l\<rparr>) s4" and f: "q_first s4 = q_last s"
    and kind: "same_kind s s4" and s5: "s5 = s4\<lparr>rtc_log := rtc_log s5, m_rtc1_running := m_rtc1_running s5, m_ticks_latest := m_ticks_latest s5\<rparr>"
    and el: "elapsed_ok s"
  shows "swi_done s ((if c then s5 else s4)\<lparr>m_rtc1_reset := False\<rparr>)"
proof -
  have "list_step s4 s5" "q_first s5 = q_first s4" "nodes s5 = nodes s4"
    by (subst s5, simp add: list_step_def)+
  then show ?thesis
    using ls f kind el by (simp add: swi_done_def list_step_def same_kind_def elapsed_def elapsed_ok_def)
qed

lemma list_handled:
  assumes P: "plans s P" and q: "queued s (q_first s) ops" "ops_ok ops" and el: "elapsed_ok s" "\<not> m_rtc1_reset s"
    and n: "length (pl_agenda P) + length ops < n" and idle: "idle_going (elapsed s) ops P" and lag: "lag_ok (elapsed s) (pl_agenda P)"
  shows "\<exists>s'. timer_list_handler n s = (Ret (), s') \<and> plans s' (swi_plan (m_ticks_latest s) (elapsed s) ops P)
    \<and> all_running (swi_plan (m_ticks_latest s) (elapsed s) ops P) \<and> swi_done s s'
    \<and> (pl_agenda (swi_plan (m_ticks_latest s) (elapsed s) ops P) \<noteq> [] \<longrightarrow>
         m_ticks_latest s' = (if emptied_by ops (pl_agenda P) then 0 else advanced (m_ticks_latest s) (elapsed s)))"
proof -
  let ?el = "elapsed s" and ?z = "emptied_by ops (pl_agenda P)"
  let ?s1 = "s\<lparr>m_ticks_elapsed_q_read_ind := m_ticks_elapsed_q_write_ind s, m_ticks_latest := advanced (m_ticks_latest s) ?el\<rparr>"
  obtain ag R where d: "delete_ops ops (pl_agenda P, pl_running P) = (ag, R)"
    by fastforce
  have "plans ?s1 P"
    using P by (simp add: plans_def holds_def running_def periods_def [abs_def])
  moreover have "queued ?s1 (q_first ?s1) ops"
    using q(1) queued_cong [of ?s1 s "q_first s" ops] by simp
  moreover have "length ops < n" "length (pl_agenda P) < n"
    using n by simp_all
  ultimately obtain s2 where s2: "list_deletions_handler n ?s1 = (Ret (mp_timer_id_head s2 \<noteq> mp_timer_id_head ?s1), s2)"
      and del: "deleted_to ?s1 (ag, R) ?z s2"
    using swi_deleted d by metis
  have h2: "holds s2 ag" "running s2 = R" "list_step ?s1 s2" "q_first s2 = q_first s" and u2: "same_user (nodes ?s1) (nodes s2)"
    and l2: "m_ticks_latest s2 = (if ?z then 0 else advanced (m_ticks_latest s) ?el)" "m_rtc1_reset s2 = ?z"
    using del el(2) by (auto simp: deleted_to_def split: if_splits)
  have per2: "periods s2 = pl_period P" "same_kind ?s1 s2"
    using same_user_kind [OF u2] P by (auto simp: plans_def periods_def [abs_def])
  have len: "length ag \<le> length (pl_agenda P)" and sub: "set ag \<subseteq> set (pl_agenda P)"
    using delete_ops_filter [of ops "pl_agenda P" "pl_running P"] d by auto
  have lag2: "lag_ok ?el ag"
    using lag subsetD [OF sub] unfolding lag_ok_def by fastforce
  have empty: "ag = [] \<or> m_ticks_latest s2 = advanced (m_ticks_latest s) ?el"
    using emptied_empty [of ops "pl_agenda P" "pl_running P"] d l2 by auto
  have "length ag < n"
    using len n by simp
  then obtain s3 r where s3: "(if ?el \<noteq> None then expired_timers_handler n (case ?el of None \<Rightarrow> 0 | Some e \<Rightarrow> e) (m_ticks_latest s) NULL else ret NULL) s2 = (Ret r, s3)"
      and h3: "holds s3 (remaining ?el ag)" "linked (nodes s3) r (map fst (restarts ?el (pl_period P) ag))"
        "restart_dues s3 (map fst (restarts ?el (pl_period P) ag)) = restarts ?el (pl_period P) ag"
      and only3: "s3 = s2\<lparr>nodes := nodes s3, mp_timer_id_head := mp_timer_id_head s3\<rparr>" and same3: "running s3 = R" "periods s3 = pl_period P" "same_kind s2 s3"
    using swi_expired [OF h2(1) _ empty lag2, unfolded per2(1) h2(2)] by metis
  have sel3: "q_first s3 = q_first s" "m_ticks_latest s3 = m_ticks_latest s2" "m_rtc1_reset s3 = ?z" and ls3: "list_step ?s1 s3"
    using h2(3,4) l2 by (subst only3, simp add: list_step_def)+
  have mid: "\<lparr>pl_agenda = agenda_insert_all (restarts ?el (pl_period P) ag) (remaining ?el ag), pl_running = running s3 \<union> fst ` set (restarts ?el (pl_period P) ag),
      pl_period = periods s3\<rparr> = swi_mid ?el ops P"
    using d same3 by (simp add: swi_mid_def Let_def)
  have q3: "queued s3 (q_first s3) ops"
    using queued_step [OF _ ls3, of "q_first s" ops] q(1) queued_cong [of ?s1 s "q_first s" ops] sel3 by simp
  have "length (agenda_insert_all (restarts ?el (pl_period P) ag) (remaining ?el ag)) \<le> length (pl_agenda P)"
    using swi_mid_length [of ?el ops P] mid by (metis plan.select_convs(1))
  then have n3: "length (restarts ?el (pl_period P) ag) + length (remaining ?el ag) + length ops < n"
    using n by (simp add: length_agenda_insert_all)
  have run3: "all_running (swi_mid ?el ops P)"
    using swi_mid_running [OF idle] holds_sorted P by (auto simp: plans_def)
  have dis: "fst ` set (restarts ?el (pl_period P) ag) \<inter> fst ` set (remaining ?el ag) = {}"
    using restarts_disjoint holds_facts(4) [OF h2(1)] by blast
  obtain s4 where s4: "list_insertions_handler n r s3 = (Ret (mp_timer_id_head s4 \<noteq> mp_timer_id_head s3), s4)"
      and P4: "plans s4 (start_ops (m_ticks_latest s3) (m_rtc1_reset s3) ops (swi_mid ?el ops P))" and fr: "swi_frame s3 s4" "q_first s4 = q_last s3"
    using swi_inserted [OF h3 dis q3 q(2) n3, unfolded mid, OF run3] by blast
  have plan: "start_ops (m_ticks_latest s3) (m_rtc1_reset s3) ops (swi_mid ?el ops P) = swi_plan (m_ticks_latest s) ?el ops P"
    unfolding swi_plan_mid sel3 l2 ..
  have run4: "all_running (swi_plan (m_ticks_latest s) ?el ops P)"
  proof -
    have "all_running (fold (start_op l z) ops Q)" if "all_running Q" for l z Q
      using that by (induction ops arbitrary: Q) (simp_all add: start_op_running)
    then show ?thesis
      using run3 by (simp add: swi_plan_mid start_ops_def)
  qed
  obtain s5 where s5: "compare_reg_update s4 = (Ret (), s5)" "compared_to s4 s5"
    using compare_returns by blast
  let ?c = "mp_timer_id_head s2 \<noteq> mp_timer_id_head ?s1 \<or> ?el \<noteq> None \<or> mp_timer_id_head s4 \<noteq> mp_timer_id_head s3"
  let ?s' = "(if ?c then s5 else s4)\<lparr>m_rtc1_reset := False\<rparr>"
  have "timer_list_handler n s = (Ret (), ?s')"
    using acquired [OF el(1)] s2 s3 s4 s5(1) by (simp add: timer_list_handler_def bnd_run andthen_run)
  moreover have "plans ?s' (swi_plan (m_ticks_latest s) ?el ops P)"
  proof -
    have "nodes s5 = nodes s4" "mp_timer_id_head s5 = mp_timer_id_head s4"
      by (subst s5(2) [unfolded compared_to_def, THEN conjunct1], simp)+
    then have "nodes ?s' = nodes s4" "mp_timer_id_head ?s' = mp_timer_id_head s4"
      by simp_all
    then show ?thesis
      using P4 plans_cong unfolding plan by blast
  qed
  moreover have "swi_done s ?s'"
  proof -
    have "list_step ?s1 s4" "q_first s4 = q_last s"
      using fr ls3 by (auto simp: swi_frame_def list_step_def)
    moreover have "same_kind s s4"
      using per2(2) same3(3) fr(1) by (simp add: swi_frame_def same_kind_def)
    moreover have "s5 = s4\<lparr>rtc_log := rtc_log s5, m_rtc1_running := m_rtc1_running s5, m_ticks_latest := m_ticks_latest s5\<rparr>"
      using s5(2) unfolding compared_to_def by (rule conjunct1)
    ultimately show ?thesis
      using swi_done_step el(1) by blast
  qed
  moreover have "m_ticks_latest ?s' = (if ?z then 0 else advanced (m_ticks_latest s) ?el)" if ne: "pl_agenda (swi_plan (m_ticks_latest s) ?el ops P) \<noteq> []"
  proof -
    have h4: "holds s4 (pl_agenda (swi_plan (m_ticks_latest s) ?el ops P))"
      using P4 unfolding plan by (simp add: plans_def)
    then have "mp_timer_id_head s4 \<noteq> NULL"
      using holds_facts(5,6) [OF h4] ne by (cases "pl_agenda (swi_plan (m_ticks_latest s) ?el ops P)") auto
    then show ?thesis
      using s5(2) fr(1) sel3(2) l2(1) by (simp add: compared_to_def swi_frame_def)
  qed
  ultimately show ?thesis
    using run4 by blast
qed

end
