(* ===== verification/TimerRuns.thy ===== *)
theory TimerRuns
  imports TimerHandler
begin

text \<open>
  Runs of the application timer: calls of its interface, from anywhere or from time-out handlers, and its two
  interrupts in any order. The invariant, and the properties of the module.
\<close>

unbundle bit_operations_syntax

subsection \<open>Calls of the interface\<close>

text \<open>
  A call with a timer of \<open>T\<close>. A stop that finds the queue full is left out: it marks the timer as stopped without
  telling the list. The last rule is what the caller does with its own state.
\<close>

inductive api_step :: "u32 set \<Rightarrow> 'w timers_scheme \<Rightarrow> 'w timers_scheme \<Rightarrow> bool" for T where
  api_start: "p \<in> T \<Longrightarrow> app_timer_start p t c s = (Ret e, s') \<Longrightarrow> api_step T s s'"
| api_stop: "app_timer_stop p s = (Ret e, s') \<Longrightarrow> e \<noteq> NRF_ERROR_NO_MEM \<Longrightarrow> api_step T s s'"
| api_stop_all: "app_timer_stop_all s = (Ret e, s') \<Longrightarrow> api_step T s s'"
| api_create: "app_timer_create p mode h s = (Ret e, s') \<Longrightarrow> api_step T s s'"
| api_cnt_get: "app_timer_cnt_get s = (Ret e, s') \<Longrightarrow> api_step T s s'"
| api_own: "api_step T s (s\<lparr>sd_trace := tr, timers.more := w\<rparr>)"

definition timer_inv :: "u32 set \<Rightarrow> u32 set \<Rightarrow> (u32 \<times> nat) list \<Rightarrow> 'w timers_scheme \<Rightarrow> bool" where
  "timer_inv T A ag s \<longleftrightarrow> (\<exists>ops. holds s ag \<and> queued s (q_first s) ops \<and> queue_ok s \<and> ops_ok ops \<and> elapsed_ok s \<and> \<not> m_rtc1_reset s
     \<and> m_evt_schedule_func s = NULL \<and> fst ` set ag \<subseteq> T \<and> (\<forall>op \<in> set ops. op_type op = TIMER_USER_OP_TYPE_START \<longrightarrow> op_node op \<in> T)
     \<and> (\<forall>x \<in> set ag. fst x \<in> running s \<or> fst x \<in> A \<or> going (elapsed s) ops x))"

text \<open>What calls leave alone.\<close>

definition api_frame :: "'w timers_scheme \<Rightarrow> 'w timers_scheme \<Rightarrow> bool" where
  "api_frame s s' \<longleftrightarrow> (\<forall>q. next_node (nodes s' q) = next_node (nodes s q) \<and> ticks_to_expire (nodes s' q) = ticks_to_expire (nodes s q)
       \<and> ticks_periodic_interval (nodes s' q) = ticks_periodic_interval (nodes s q))
     \<and> mp_timer_id_head s' = mp_timer_id_head s \<and> q_first s' = q_first s \<and> q_size s' = q_size s
     \<and> m_ticks_latest s' = m_ticks_latest s \<and> m_ticks_elapsed s' = m_ticks_elapsed s
     \<and> m_ticks_elapsed_q_read_ind s' = m_ticks_elapsed_q_read_ind s \<and> m_ticks_elapsed_q_write_ind s' = m_ticks_elapsed_q_write_ind s
     \<and> m_rtc1_reset s' = m_rtc1_reset s \<and> m_evt_schedule_func s' = m_evt_schedule_func s"

lemma api_frame_trans: "api_frame s s' \<Longrightarrow> api_frame s' s'' \<Longrightarrow> api_frame s s''"
  by (simp add: api_frame_def)

lemma api_frame_holds: "api_frame s s' \<Longrightarrow> holds s ag \<Longrightarrow> holds s' ag"
  using path_cong [of "map fst ag" "nodes s'" "nodes s"] dues_cong [of "map fst ag" "nodes s'" "nodes s" 0]
  by (simp add: api_frame_def holds_def gap_def)

lemma api_frame_elapsed: "api_frame s s' \<Longrightarrow> elapsed s' = elapsed s \<and> elapsed_ok s' = elapsed_ok s"
  by (simp add: api_frame_def elapsed_def elapsed_ok_def)

text \<open>A call that does not touch the queue.\<close>

lemma inv_quiet:
  assumes inv: "timer_inv T A ag s" and fr: "api_frame s s'" and q: "q_last s' = q_last s" "user_ops s' = user_ops s"
    and r: "\<forall>x \<in> set ag. fst x \<in> running s \<longrightarrow> fst x \<in> running s' \<or> fst x \<in> A"
  shows "timer_inv T A ag s'"
proof -
  obtain ops where i: "holds s ag" "queued s (q_first s) ops" "queue_ok s" "ops_ok ops" "elapsed_ok s" "\<not> m_rtc1_reset s" "m_evt_schedule_func s = NULL"
      "fst ` set ag \<subseteq> T" "\<forall>op \<in> set ops. op_type op = TIMER_USER_OP_TYPE_START \<longrightarrow> op_node op \<in> T"
      "\<forall>x \<in> set ag. fst x \<in> running s \<or> fst x \<in> A \<or> going (elapsed s) ops x"
    using inv by (auto simp: timer_inv_def)
  have "queued s' (q_first s') ops"
    using i(2) queued_cong [of s' s] fr q by (simp add: api_frame_def)
  then show ?thesis
    using i q r fr api_frame_holds [OF fr] api_frame_elapsed [OF fr]
    unfolding timer_inv_def by (intro exI [of _ ops]) (auto simp: api_frame_def queue_ok_def)
qed

text \<open>A call that puts an operation into the queue.\<close>

definition enqueued :: "'w timers_scheme \<Rightarrow> timer_user_op \<Rightarrow> 'w timers_scheme \<Rightarrow> bool" where
  "enqueued s op s' \<longleftrightarrow> next_op (q_last s) s \<noteq> q_first s \<and> user_ops s' = (user_ops s)(q_last s := op) \<and> q_last s' = next_op (q_last s) s \<and> api_frame s s'"

lemma enqueued_queued:
  assumes en: "enqueued s op s'" and q: "queued s (q_first s) ops" "queue_ok s"
  shows "queued s' (q_first s') (ops @ [op]) \<and> queue_ok s'"
proof -
  have new: "next_op (q_last s) s \<noteq> q_first s" "user_ops s' = (user_ops s)(q_last s := op)" "q_last s' = next_op (q_last s) s"
    and same: "q_first s' = q_first s" "q_size s' = q_size s"
    using en by (simp_all add: enqueued_def api_frame_def)
  have lt: "q_first s < q_size s" "q_last s < q_size s"
    using q(2) by (simp_all add: queue_ok_def)
  let ?s = "s\<lparr>user_ops := (user_ops s)(q_last s := op), q_last := next_op (q_last s) s\<rparr>"
  have "queued s' (q_first s') (ops @ [op]) = queued ?s (q_first s') (ops @ [op])"
    by (rule queued_cong) (use new same in simp_all)
  then have "queued s' (q_first s') (ops @ [op])"
    using queued_snoc [OF q(1) lt new(1), of op] by (simp only: same)
  moreover have "queue_ok s'"
    using lt next_op_less [OF lt(2)] same new by (simp add: queue_ok_def)
  ultimately show ?thesis
    by blast
qed

lemma inv_enqueued:
  assumes inv: "timer_inv T A ag s" and en: "enqueued s op s'" and ok: "op_type op = TIMER_USER_OP_TYPE_START \<Longrightarrow> op_node op \<in> T \<and> op_node op \<noteq> NULL"
    and r: "\<forall>x \<in> set ag. fst x \<in> running s \<longrightarrow> fst x \<in> running s' \<or> op_type op = TIMER_USER_OP_TYPE_STOP \<and> op_node op = fst x"
  shows "timer_inv T A ag s'"
proof -
  obtain ops where i: "holds s ag" "queued s (q_first s) ops" "queue_ok s" "ops_ok ops" "elapsed_ok s" "\<not> m_rtc1_reset s" "m_evt_schedule_func s = NULL"
      "fst ` set ag \<subseteq> T" "\<forall>op \<in> set ops. op_type op = TIMER_USER_OP_TYPE_START \<longrightarrow> op_node op \<in> T"
      "\<forall>x \<in> set ag. fst x \<in> running s \<or> fst x \<in> A \<or> going (elapsed s) ops x"
    using inv by (auto simp: timer_inv_def)
  have fr: "api_frame s s'"
    using en by (simp add: enqueued_def)
  have "queued s' (q_first s') (ops @ [op])" "queue_ok s'"
    using enqueued_queued [OF en i(2,3)] by blast+
  moreover have "going el (ops @ [op]) x" if "going el ops x" for el x
    using that by (auto simp: going_def)
  moreover have "going el (ops @ [op]) x" if "op_type op = TIMER_USER_OP_TYPE_STOP" "op_node op = fst x" for el x
    using that by (auto simp: going_def)
  ultimately show ?thesis
    using i r ok fr api_frame_holds [OF fr] api_frame_elapsed [OF fr]
    unfolding timer_inv_def by (intro exI [of _ "ops @ [op]"]) (fastforce simp: api_frame_def ops_ok_def)
qed

lemma start_cases:
  assumes "app_timer_start p t c s = (Ret e, s')"
  obtains "s' = s" and "e \<noteq> NRF_SUCCESS"
  | op where "enqueued s op s'" and "op_type op = TIMER_USER_OP_TYPE_START" and "op_node op = p" and "p \<noteq> NULL" and "running s' = running s"
      and "e = NRF_SUCCESS" and "start_ticks op = rtc_env s (rtc_log s)" and "start_first op = t"
      and "start_periodic op = (if timer_mode (nodes s p) = Timer_repeated then t else 0)"
proof (cases "s' = s \<and> e \<noteq> NRF_SUCCESS")
  case False
  let ?op = "\<lparr>op_type = TIMER_USER_OP_TYPE_START, op_node = p, start_ticks = rtc_env s (rtc_log s), start_first = t,
      start_periodic = (if timer_mode (nodes s p) = Timer_repeated then t else 0), start_context = c\<rparr>"
  have "next_op (q_last s) s \<noteq> q_first s" "p \<noteq> NULL" "e = NRF_SUCCESS"
      "s' = access [Counter_read, Swi_pend] (s\<lparr>user_ops := (user_ops s)(q_last s := ?op), q_last := next_op (q_last s) s\<rparr>)"
    using assms False
    by (auto simp: app_timer_start_def bnd_run andthen_run timer_start_op_schedule_def user_op_alloc_def rtc1_counter_get_def access_def put_op_at_def
        user_op_enque_def timer_list_handler_sched_def Let_def NRF_ERROR_INVALID_STATE_def NRF_ERROR_INVALID_PARAM_def NRF_ERROR_NO_MEM_def NRF_SUCCESS_def
        split: if_splits)
  then show ?thesis
    by (intro that(2) [of ?op]) (simp_all add: enqueued_def access_def api_frame_def running_def)
qed (rule that(1), auto)

lemma stop_schedule_cases:
  assumes "timer_stop_op_schedule p ty s = (Ret e, s')"
  obtains "s' = s" and "e = NRF_ERROR_NO_MEM"
  | op where "enqueued s op s'" and "op_type op = ty" and "op_node op = p" and "running s' = running s" and "e = NRF_SUCCESS"
proof (cases "s' = s \<and> e = NRF_ERROR_NO_MEM")
  case False
  let ?op = "(user_ops s (q_last s))\<lparr>op_type := ty, op_node := p\<rparr>"
  have "next_op (q_last s) s \<noteq> q_first s" "e = NRF_SUCCESS" "s' = access [Swi_pend] (s\<lparr>user_ops := (user_ops s)(q_last s := ?op), q_last := next_op (q_last s) s\<rparr>)"
    using assms False
    by (auto simp: timer_stop_op_schedule_def bnd_run andthen_run user_op_alloc_def access_def put_op_at_def user_op_enque_def
        timer_list_handler_sched_def Let_def split: if_splits)
  then show ?thesis
    by (intro that(2) [of ?op]) (simp_all add: enqueued_def access_def api_frame_def running_def)
qed (rule that(1), auto)

lemma stop_cases:
  assumes "app_timer_stop p s = (Ret e, s')" and "e \<noteq> NRF_ERROR_NO_MEM"
  obtains "s' = s" and "e \<noteq> NRF_SUCCESS"
  | op where "enqueued s op s'" and "op_type op = TIMER_USER_OP_TYPE_STOP" and "op_node op = p" and "running s' = running s - {p}" and "e = NRF_SUCCESS"
proof (cases "module_initialized s \<and> p \<noteq> NULL \<and> p_timeout_handler (nodes s p) \<noteq> NULL")
  case True
  let ?s = "put_node p (\<lambda>x. x\<lparr>is_running := False\<rparr>) s"
  have "timer_stop_op_schedule p TIMER_USER_OP_TYPE_STOP ?s = (Ret e, s')"
    using assms(1) True by (simp add: app_timer_stop_def bnd_run andthen_run)
  then show ?thesis
  proof (cases rule: stop_schedule_cases)
    case (2 op)
    have "api_frame s ?s" "next_op (q_last ?s) ?s = next_op (q_last s) s" "running ?s = running s - {p}"
      by (auto simp: api_frame_def put_node_def next_op_def running_def)
    then have "enqueued s op s'"
      using 2(1) by (auto simp: enqueued_def put_node_def intro: api_frame_trans)
    then show ?thesis
      using 2 \<open>running ?s = running s - {p}\<close> by (intro that(2) [of op]) simp_all
  qed (use assms(2) in simp)
next
  case False
  then show ?thesis
    using assms(1) by (intro that(1)) (auto simp: app_timer_stop_def bnd_run NRF_ERROR_INVALID_STATE_def NRF_SUCCESS_def split: if_splits)
qed

lemma create_cases:
  assumes "app_timer_create p mode h s = (Ret e, s')"
  shows "api_frame s s' \<and> q_last s' = q_last s \<and> user_ops s' = user_ops s \<and> running s' = running s"
  using assms
  by (auto simp: app_timer_create_def bnd_run andthen_run api_frame_def put_node_def running_def split: if_splits option.splits)

lemma api_step_inv:
  assumes "api_step T s s'" and inv: "timer_inv T A ag s"
  shows "timer_inv T A ag s'"
  using assms(1)
proof cases
  case (api_start p t c e)
  from api_start(2) show ?thesis
  proof (cases rule: start_cases)
    case (2 op)
    then show ?thesis
      using api_start(1) by (intro inv_enqueued [OF inv 2(1)]) auto
  qed (use inv in simp)
next
  case (api_stop p e)
  then show ?thesis
  proof (cases rule: stop_cases)
    case (2 op)
    then show ?thesis
      by (intro inv_enqueued [OF inv 2(1)]) auto
  qed (use inv in simp)
next
  case (api_stop_all e)
  show ?thesis
  proof (cases "module_initialized s")
    case True
    then have "timer_stop_op_schedule NULL TIMER_USER_OP_TYPE_STOP_ALL s = (Ret e, s')"
      using api_stop_all by (simp add: app_timer_stop_all_def bnd_run)
    then show ?thesis
    proof (cases rule: stop_schedule_cases)
      case (2 op)
      then show ?thesis
        by (intro inv_enqueued [OF inv 2(1)]) auto
    qed (use inv in simp)
  qed (use inv api_stop_all in \<open>simp add: app_timer_stop_all_def bnd_run\<close>)
next
  case (api_create p mode h e)
  then show ?thesis
    using create_cases [of p mode h s e s'] by (intro inv_quiet [OF inv]) simp_all
next
  case (api_cnt_get e)
  then have "s' = access [Counter_read] s"
    by (simp add: app_timer_cnt_get_def rtc1_counter_get_def)
  then show ?thesis
    by (intro inv_quiet [OF inv]) (simp_all add: api_frame_def access_def running_def)
next
  case (api_own tr w)
  then show ?thesis
    by (intro inv_quiet [OF inv]) (simp_all add: api_frame_def running_def)
qed

subsection \<open>The interrupt of the counter\<close>

lemma enqueued_frame: "enqueued s op s' \<Longrightarrow> api_frame s s'"
  by (simp add: enqueued_def)

lemma api_frame_refl [simp]: "api_frame s s"
  by (simp add: api_frame_def)

lemma api_step_frame:
  assumes "api_step T s s'"
  shows "api_frame s s'"
  using assms
proof cases
  case (api_start p t c e)
  from api_start(2) show ?thesis
    by (cases rule: start_cases) (auto dest: enqueued_frame)
next
  case (api_stop p e)
  then show ?thesis
    by (cases rule: stop_cases) (auto dest: enqueued_frame)
next
  case (api_stop_all e)
  show ?thesis
  proof (cases "module_initialized s")
    case True
    then have "timer_stop_op_schedule NULL TIMER_USER_OP_TYPE_STOP_ALL s = (Ret e, s')"
      using api_stop_all by (simp add: app_timer_stop_all_def bnd_run)
    then show ?thesis
      by (cases rule: stop_schedule_cases) (auto dest: enqueued_frame)
  qed (use api_stop_all in \<open>simp add: app_timer_stop_all_def bnd_run\<close>)
next
  case (api_create p mode h e)
  then show ?thesis
    using create_cases by blast
next
  case (api_cnt_get e)
  then have "s' = access [Counter_read] s"
    by (simp add: app_timer_cnt_get_def rtc1_counter_get_def)
  then show ?thesis
    by (simp add: api_frame_def access_def)
qed (simp add: api_frame_def)

text \<open>What happens while the handlers of the timers \<open>A\<close> are called: they are marked as not running, and handlers make calls.\<close>

definition fire_step :: "u32 set \<Rightarrow> u32 set \<Rightarrow> 'w timers_scheme \<Rightarrow> 'w timers_scheme \<Rightarrow> bool" where
  "fire_step T A s s' \<longleftrightarrow> api_step T s s' \<or> (\<exists>q \<in> A. s' = put_node q (\<lambda>x. x\<lparr>is_running := False\<rparr>) s)"

abbreviation fires :: "u32 set \<Rightarrow> u32 set \<Rightarrow> 'w timers_scheme \<Rightarrow> 'w timers_scheme \<Rightarrow> bool" where
  "fires T A \<equiv> rtranclp (fire_step T A)"

definition well_behaved :: "u32 set \<Rightarrow> 'w timeout_cb \<Rightarrow> bool" where
  "well_behaved T cb \<longleftrightarrow> (\<forall>h c s. \<exists>s'. cb h c s = (Ret (), s') \<and> rtranclp (api_step T) s s')"

lemma fires_mono: "fires T A s s' \<Longrightarrow> A \<subseteq> B \<Longrightarrow> fires T B s s'"
  by (erule rtranclp_mono [THEN predicate2D, rotated]) (unfold fire_step_def, blast)

lemma calls_fire: "rtranclp (api_step T) s s' \<Longrightarrow> fires T A s s'"
  by (erule rtranclp_mono [THEN predicate2D, rotated]) (auto simp: fire_step_def)

lemma fires_frame: "fires T A s s' \<Longrightarrow> api_frame s s'"
proof (induction rule: rtranclp_induct)
  case (step s' s'')
  have "api_frame s' s''"
    using step.hyps(2) by (auto simp: fire_step_def intro: api_step_frame) (simp add: api_frame_def put_node_def)
  then show ?case
    using api_frame_trans step.IH by blast
qed simp

lemma fires_inv: "fires T A s s' \<Longrightarrow> timer_inv T A ag s \<Longrightarrow> timer_inv T A ag s'"
proof (induction rule: rtranclp_induct)
  case (step s' s'')
  then have inv: "timer_inv T A ag s'"
    by simp
  from step.hyps(2) consider "api_step T s' s''" | q where "q \<in> A" "s'' = put_node q (\<lambda>x. x\<lparr>is_running := False\<rparr>) s'"
    by (auto simp: fire_step_def)
  then show ?case
  proof cases
    case 2
    then show ?thesis
      by (intro inv_quiet [OF inv]) (auto simp: api_frame_def put_node_def running_def)
  qed (rule api_step_inv [OF _ inv])
qed

lemma due_by_Cons: "due_by e ((q, u) # xs) = (if u \<le> e then (q, u) # due_by e xs else [])"
  by (simp add: due_by_def)

lemma timeouts_run:
  assumes wb: "well_behaved T cb" and "m_evt_schedule_func s = NULL" and "linked (nodes s) p ps" and "length ps < n"
  shows "\<exists>s'. timeouts_loop cb sched n p e c s = (Ret (c + of_nat (gaps (nodes s) (map fst (due_by (unat e) (dues (nodes s) 0 ps))))), s')
    \<and> fires T (fst ` set (due_by (unat e) (dues (nodes s) 0 ps))) s s'"
  using assms(2-4)
proof (induction ps arbitrary: s p n e c)
  case Nil
  then show ?case
    by (cases n) (auto simp: bnd_run due_by_def)
next
  case (Cons q ps)
  then obtain m where n: "n = Suc m" and p: "p = q" "q \<noteq> NULL" and l: "linked (nodes s) (next_node (nodes s q)) ps"
    by (cases n) auto
  let ?t = "ticks_to_expire (nodes s q)" and ?ds = "due_by (unat e) (dues (nodes s) 0 (q # ps))"
  show ?case
  proof (cases "e < ?t")
    case True
    then have "?ds = []"
      by (simp add: due_by_def gap_def word_less_nat_alt)
    then show ?thesis
      using True n p by (simp add: bnd_run)
  next
    case False
    let ?xs = "due_by (unat e - gap (nodes s) q) (dues (nodes s) 0 ps)"
    have g: "gap (nodes s) q \<le> unat e"
      using False by (simp add: gap_def word_less_nat_alt)
    then have e: "unat (e - ?t) = unat e - gap (nodes s) q"
      by (simp add: gap_def unat_sub word_le_nat_alt)
    have ds: "?ds = (q, gap (nodes s) q) # map (\<lambda>(r, u). (r, u + gap (nodes s) q)) ?xs"
      unfolding dues_Cons_shift due_by_Cons using due_shift(1) [OF g, of "dues (nodes s) 0 ps"] g by simp
    have names: "map fst ?ds = q # map fst ?xs" "fst ` set ?ds = insert q (fst ` set ?xs)"
      unfolding ds by (simp_all add: case_prod_unfold comp_def image_image)
    obtain s1 where s1: "(if is_running (nodes s q) then andthen (modify (put_node q (\<lambda>x. x\<lparr>is_running := False\<rparr>))) (timeout_handler_exec cb sched q) else ret ()) s = (Ret (), s1)"
        and f1: "fires T {q} s s1"
    proof (cases "is_running (nodes s q)")
      case True
      let ?s = "put_node q (\<lambda>x. x\<lparr>is_running := False\<rparr>) s"
      obtain s1 where "cb (p_timeout_handler (nodes ?s q)) (node_context (nodes ?s q)) ?s = (Ret (), s1)" "rtranclp (api_step T) ?s s1"
        using wb unfolding well_behaved_def by blast
      moreover have "fires T {q} s ?s"
        by (rule r_into_rtranclp) (auto simp: fire_step_def)
      moreover have "m_evt_schedule_func ?s = NULL"
        using Cons.prems(1) by (simp add: put_node_def)
      ultimately show ?thesis
        using True calls_fire [of T ?s s1 "{q}"] by (intro that [of s1]) (auto simp: andthen_run timeout_handler_exec_def bnd_run)
    qed (auto intro: that [of s])
    note fr = fires_frame [OF f1]
    have "\<forall>r. gap (nodes s1) r = gap (nodes s) r"
      using fr by (simp add: api_frame_def gap_def)
    then have same: "dues (nodes s1) 0 ps = dues (nodes s) 0 ps" "gaps (nodes s1) rs = gaps (nodes s) rs" for rs
      by (simp_all add: dues_cong gaps_cong)
    have "linked (nodes s1) (next_node (nodes s q)) ps"
      using l path_cong [of ps "nodes s1" "nodes s"] fr by (simp add: api_frame_def)
    moreover have "m_evt_schedule_func s1 = NULL" "length ps < m"
      using fr Cons.prems(1,3) n by (simp_all add: api_frame_def)
    ultimately obtain s' where s': "timeouts_loop cb sched m (next_node (nodes s q)) (e - ?t) (c + ?t) s1 = (Ret (c + ?t + of_nat (gaps (nodes s) (map fst ?xs))), s')"
        "fires T (fst ` set ?xs) s1 s'"
      using Cons.IH [of s1 "next_node (nodes s q)" m "e - ?t" "c + ?t"] unfolding same e by blast
    have "timeouts_loop cb sched n p e c s = timeouts_loop cb sched m (next_node (nodes s q)) (e - ?t) (c + ?t) s1"
      using s1 False n p by (simp add: bnd_run andthen_run)
    moreover have "fires T (fst ` set ?ds) s s'"
      unfolding names(2) using fires_mono [OF f1] fires_mono [OF s'(2)] by (meson insert_subset empty_subsetI insertI1 rtranclp_trans subset_insertI)
    ultimately show ?thesis
      using s'(1) unfolding names(1) by (simp add: gap_def add.assoc)
  qed
qed

text \<open>The ticks since the latest known counter value, as the interrupt reads them.\<close>

definition ticks_now :: "'w timers_scheme \<Rightarrow> nat" where
  "ticks_now s = unat (ticks_diff_get (rtc_env s (rtc_log s @ [Events_clear])) (m_ticks_latest s))"

text \<open>The counter has not gone back behind what has been noted, and has not come round.\<close>

definition counter_forward :: "'w timers_scheme \<Rightarrow> bool" where
  "counter_forward s \<longleftrightarrow> (\<forall>e. elapsed s = Some e \<longrightarrow> unat e \<le> ticks_now s)"

lemma due_by_dues: "due_by e (dues nd a ps) = dues nd a (map fst (due_by e (dues nd a ps)))"
  by (induction ps arbitrary: a) (simp_all add: due_by_def)

lemma due_by_gaps:
  assumes "xs = due_by e (dues nd 0 ps)"
  shows "gaps nd (map fst xs) \<le> e" and "(q, u) \<in> set xs \<Longrightarrow> u \<le> gaps nd (map fst xs)"
proof -
  have xs: "xs = dues nd 0 (map fst xs)"
    using assms due_by_dues [of e nd 0 ps] by simp
  show "gaps nd (map fst xs) \<le> e"
  proof (cases "xs = []")
    case False
    then have "last xs = (last (map fst xs), gaps nd (map fst xs))"
      using gaps_last [of "map fst xs" nd 0] xs by simp
    then have "(last (map fst xs), gaps nd (map fst xs)) \<in> set xs"
      using last_in_set [OF False] by simp
    then show ?thesis
      unfolding assms by (rule due_by_le)
  qed simp
  show "u \<le> gaps nd (map fst xs)" if "(q, u) \<in> set xs"
    using that dues_range [of q u nd 0 "map fst xs"] xs by simp
qed

lemma due_by_mem: "sorted (map snd ag) \<Longrightarrow> x \<in> set ag \<Longrightarrow> snd x \<le> e \<Longrightarrow> x \<in> set (due_by e ag)"
  using due_split [of e ag] due_later_gt [of ag "fst x" "snd x" e] by (metis Un_iff not_le prod.collapse set_append)

lemma ticks_queued:
  assumes "elapsed_ok s"
  shows "elapsed (ticks_expired_queue e s) = Some e" and "elapsed_ok (ticks_expired_queue e s)"
proof -
  have "(m_ticks_elapsed_q_read_ind s = 0 \<or> m_ticks_elapsed_q_read_ind s = 1) \<and> (m_ticks_elapsed_q_write_ind s = 0 \<or> m_ticks_elapsed_q_write_ind s = 1)"
    using assms by (auto simp: elapsed_ok_def below_two)
  then have "elapsed (ticks_expired_queue e s) = Some e \<and> elapsed_ok (ticks_expired_queue e s)"
    by (auto simp: ticks_expired_queue_def Let_def elapsed_def elapsed_ok_def CONTEXT_QUEUE_SIZE_MAX_def)
  then show "elapsed (ticks_expired_queue e s) = Some e" and "elapsed_ok (ticks_expired_queue e s)"
    by simp_all
qed

lemma inv_noted:
  assumes inv: "timer_inv T A ag s" and A: "A = fst ` set (due_by E ag)" and e: "\<forall>(q, u) \<in> set (due_by E ag). u \<le> unat e"
    and fw: "\<forall>e. elapsed s = Some e \<longrightarrow> unat e \<le> E"
  shows "timer_inv T {} ag (access [Swi_pend] (ticks_expired_queue e s))" (is "timer_inv _ _ _ ?s")
proof -
  obtain ops where i: "holds s ag" "queued s (q_first s) ops" "queue_ok s" "ops_ok ops" "elapsed_ok s" "\<not> m_rtc1_reset s" "m_evt_schedule_func s = NULL"
      "fst ` set ag \<subseteq> T" "\<forall>op \<in> set ops. op_type op = TIMER_USER_OP_TYPE_START \<longrightarrow> op_node op \<in> T"
      "\<forall>x \<in> set ag. fst x \<in> running s \<or> fst x \<in> A \<or> going (elapsed s) ops x"
    using inv by (auto simp: timer_inv_def)
  have same: "nodes ?s = nodes s" "mp_timer_id_head ?s = mp_timer_id_head s" "q_first ?s = q_first s" "q_last ?s = q_last s" "q_size ?s = q_size s"
      "user_ops ?s = user_ops s" "m_rtc1_reset ?s = m_rtc1_reset s" "m_evt_schedule_func ?s = m_evt_schedule_func s" "running ?s = running s"
    by (simp_all add: access_def ticks_expired_queue_def Let_def running_def)
  have el: "elapsed ?s = Some e" "elapsed_ok ?s"
  proof -
    have "elapsed ?s = elapsed (ticks_expired_queue e s)" "elapsed_ok ?s = elapsed_ok (ticks_expired_queue e s)"
      by (simp_all add: access_def elapsed_def elapsed_ok_def)
    then show "elapsed ?s = Some e" "elapsed_ok ?s"
      using ticks_queued [OF i(5), of e] by simp_all
  qed
  have srt: "sorted (map snd ag)" and dst: "distinct (map fst ag)"
    using holds_sorted [OF i(1)] holds_facts(4) [OF i(1)] by simp_all
  have noted: "going (Some e) ops x" if "x \<in> set (due_by E ag)" for x
    using e that by (auto simp: going_def)
  have "going (Some e) ops x" if x: "x \<in> set ag" and n: "fst x \<notin> running s" for x
  proof -
    consider "fst x \<in> A" | "going (elapsed s) ops x"
      using i(10) x n by blast
    then show ?thesis
    proof cases
      case 1
      then obtain u where "(fst x, u) \<in> set (due_by E ag)"
        using A by force
      moreover from this have "(fst x, u) \<in> set ag"
        by (auto simp: due_by_def dest: set_takeWhileD)
      then have "(fst x, u) = x"
        using dst x by (metis eq_key_imp_eq_value prod.collapse)
      ultimately show ?thesis
        using noted by simp
    next
      case 2
      then show ?thesis
        using fw due_by_mem [OF srt x, of E] noted by (fastforce simp: going_def)
    qed
  qed
  then have "\<forall>x \<in> set ag. fst x \<in> running ?s \<or> fst x \<in> {} \<or> going (elapsed ?s) ops x"
    unfolding same el by blast
  moreover have "holds ?s ag" "queued ?s (q_first ?s) ops" "queue_ok ?s"
    using i(1-3) same queued_cong [of ?s s "q_first s" ops] by (simp_all add: holds_def queue_ok_def)
  ultimately show ?thesis
    unfolding timer_inv_def using i(4,6-9) el(2) same by (intro exI [of _ ops]) simp
qed

lemma rtc_returns:
  fixes s :: "'a timers_scheme"
  assumes wb: "well_behaved T cb" and inv: "timer_inv T {} ag s" and n: "length ag < n"
  shows "\<exists>s'. RTC1_IRQHandler cb sched n s = (Ret (), s') \<and> (counter_forward s \<longrightarrow> timer_inv T {} ag s')"
proof -
  have h: "holds s ag" and func: "m_evt_schedule_func s = NULL"
    using inv by (auto simp: timer_inv_def)
  note f = holds_facts [OF h]
  let ?s0 = "access [Events_clear] s" and ?s1 = "access [Counter_read] (access [Events_clear] s)"
  have quiet: "timer_inv T A ag (access as r)" if "timer_inv T A ag r" for A as and r :: "'a timers_scheme"
    by (rule inv_quiet [OF that]) (auto simp: api_frame_def access_def running_def)
  show ?thesis
  proof (cases "mp_timer_id_head s = NULL")
    case True
    then have "RTC1_IRQHandler cb sched n s = (Ret (), ?s0)"
      by (simp add: RTC1_IRQHandler_def timer_timeouts_check_def andthen_run bnd_run access_def)
    then show ?thesis
      using quiet [OF inv] by blast
  next
    case False
    let ?d = "ticks_diff_get (rtc_env s (rtc_log s @ [Events_clear])) (m_ticks_latest s)"
    let ?xs = "due_by (unat ?d) ag"
    have "linked (nodes ?s1) (mp_timer_id_head s) (map fst ag)" "m_evt_schedule_func ?s1 = NULL" "dues (nodes ?s1) 0 (map fst ag) = ag"
      using f func by (simp_all add: access_def)
    then obtain s2 where loop: "timeouts_loop cb sched n (mp_timer_id_head s) ?d 0 ?s1 = (Ret (of_nat (gaps (nodes ?s1) (map fst ?xs))), s2)"
        and fi: "fires T (fst ` set ?xs) ?s1 s2"
      using timeouts_run [OF wb, of ?s1 "mp_timer_id_head s" "map fst ag" n sched ?d 0] n by auto
    let ?g = "gaps (nodes ?s1) (map fst ?xs)"
    have g: "?g \<le> unat ?d" "\<forall>(q, u) \<in> set ?xs. u \<le> ?g"
      using due_by_gaps [of ?xs "unat ?d" "nodes ?s1" "map fst ag"] f(2) by (auto simp: access_def)
    then have "unat (of_nat ?g :: u32) = ?g"
      using unsigned_less [of ?d, where 'a = nat] by (simp add: unat_of_nat)
    then have e: "\<forall>(q, u) \<in> set ?xs. u \<le> unat (of_nat ?g :: u32)"
      using g(2) by simp
    have "timer_inv T (fst ` set ?xs) ag s"
      using inv unfolding timer_inv_def by blast
    then have inv2: "timer_inv T (fst ` set ?xs) ag s2"
      using fires_inv [OF fi] quiet by blast
    have el: "elapsed s2 = elapsed s"
      using api_frame_elapsed [OF fires_frame [OF fi]] by (simp add: access_def elapsed_def)
    let ?s3 = "access [Swi_pend] (ticks_expired_queue (of_nat ?g) s2)"
    have "RTC1_IRQHandler cb sched n s = (Ret (), ?s3)"
      using False loop by (simp add: RTC1_IRQHandler_def timer_timeouts_check_def andthen_run bnd_run rtc1_counter_get_def timer_list_handler_sched_def access_def)
    moreover have "timer_inv T {} ag ?s3" if "counter_forward s"
      using that el by (intro inv_noted [OF inv2 refl e]) (auto simp: counter_forward_def ticks_now_def)
    ultimately show ?thesis
      by blast
  qed
qed

subsection \<open>The software interrupt\<close>

lemma queued_length:
  assumes "queued s i ops" and "i < q_size s" and "q_last s < q_size s"
  shows "length ops < unat (q_size s)"
proof -
  have "length ops = (if unat i \<le> unat (q_last s) then unat (q_last s) - unat i else unat (q_size s) + unat (q_last s) - unat i)"
    using assms
  proof (induction ops arbitrary: i)
    case (Cons op ops)
    then have q: "queued s (next_op i s) ops" "i \<noteq> q_last s" "next_op i s < q_size s"
      using next_op_less by auto
    then have "unat i \<noteq> unat (q_last s)"
      by (simp add: word_unat_eq_iff)
    then show ?case
      using Cons.IH [OF q(1,3) Cons.prems(3)] Cons.prems(2,3) next_op_unat [OF Cons.prems(2)] by (auto simp: word_less_nat_alt)
  qed simp
  moreover have "unat i < unat (q_size s)" "unat (q_last s) < unat (q_size s)"
    using assms(2,3) by (simp_all add: word_less_nat_alt)
  ultimately show ?thesis
    by (simp split: if_splits)
qed

lemma start_ops_names:
  assumes "fst ` set (pl_agenda P) \<subseteq> T" and "\<forall>op \<in> set ops. op_type op = TIMER_USER_OP_TYPE_START \<longrightarrow> op_node op \<in> T"
  shows "fst ` set (pl_agenda (start_ops l z ops P)) \<subseteq> T"
  using assms by (induction ops arbitrary: P) (auto simp: start_ops_def start_op_def set_agenda_insert)

lemma swi_mid_names: "fst ` set (pl_agenda (swi_mid el ops P)) \<subseteq> fst ` set (pl_agenda P)"
proof -
  obtain ag R where d: "delete_ops ops (pl_agenda P, pl_running P) = (ag, R)"
    by fastforce
  have "fst ` set (restarts el (pl_period P) ag) \<subseteq> fst ` set ag"
    by (force simp: restarts_def due_by_def dest: set_takeWhileD split: option.splits)
  moreover have "fst ` set ag \<subseteq> fst ` set (pl_agenda P)"
    using delete_ops_filter [of ops "pl_agenda P" "pl_running P"] d by auto
  ultimately have "fst ` (set (restarts el (pl_period P) ag) \<union> set (remaining el ag)) \<subseteq> fst ` set (pl_agenda P)"
    using remaining_names [of el ag] unfolding image_Un by (meson Un_least order_trans)
  moreover have "set (pl_agenda (swi_mid el ops P)) = set (restarts el (pl_period P) ag) \<union> set (remaining el ag)"
    by (simp only: swi_mid_def d Let_def prod.case plan.select_convs set_agenda_insert_all)
  ultimately show ?thesis
    by (simp only:)
qed

definition timely :: "'w timers_scheme \<Rightarrow> bool" where
  "timely s \<longleftrightarrow> (\<forall>ag. holds s ag \<longrightarrow> lag_ok (elapsed s) ag)"

text \<open>The fuel that is always enough: one more than the timers and the operations that a queue of bytes can index.\<close>

lemma inv_fuel:
  assumes inv: "timer_inv T A ag s" and T: "finite T" "card T + 256 \<le> n" and q: "queued s (q_first s) ops"
  shows "length ag + length ops < n"
proof -
  have h: "holds s ag" "fst ` set ag \<subseteq> T" "queue_ok s"
    using inv by (auto simp: timer_inv_def)
  have "length ag = card (fst ` set ag)"
    using distinct_card [OF holds_facts(4) [OF h(1)]] by simp
  then have "length ag \<le> card T"
    using card_mono [OF T(1) h(2)] by simp
  moreover have "length ops < 256"
    using queued_length [OF q] h(3) unsigned_less [of "q_size s", where 'a = nat] by (simp add: queue_ok_def)
  ultimately show ?thesis
    using T(2) by simp
qed

lemma swi_returns:
  fixes s :: "'w timers_scheme"
  assumes inv: "timer_inv T {} ag s" and T: "finite T" "card T + 256 \<le> n" and tm: "timely s"
  shows "\<exists>s' ag'. SWI_IRQHandler n s = (Ret (), s') \<and> timer_inv T {} ag' s'"
proof -
  obtain ops where i: "holds s ag" "queued s (q_first s) ops" "queue_ok s" "ops_ok ops" "elapsed_ok s" "\<not> m_rtc1_reset s" "m_evt_schedule_func s = NULL"
      "fst ` set ag \<subseteq> T" "\<forall>op \<in> set ops. op_type op = TIMER_USER_OP_TYPE_START \<longrightarrow> op_node op \<in> T"
      "\<forall>x \<in> set ag. fst x \<in> running s \<or> going (elapsed s) ops x"
    using inv by (auto simp: timer_inv_def)
  let ?P = "\<lparr>pl_agenda = ag, pl_running = running s, pl_period = periods s\<rparr>"
  let ?Q = "swi_plan (m_ticks_latest s) (elapsed s) ops ?P"
  have "plans s ?P" "idle_going (elapsed s) ops ?P" "lag_ok (elapsed s) (pl_agenda ?P)"
    using i(1,10) tm by (simp_all add: plans_def idle_going_def timely_def)
  then obtain s' where run: "timer_list_handler n s = (Ret (), s')" and p: "plans s' ?Q" "all_running ?Q" and d: "swi_done s s'"
    using list_handled [of s ?P ops n] i(2,4,5,6) inv_fuel [OF inv T i(2)] by auto
  have names: "fst ` set (pl_agenda ?Q) \<subseteq> T"
    unfolding swi_plan_mid using swi_mid_names [of "elapsed s" ops ?P] i(8,9) by (intro start_ops_names) auto
  have "queued s' (q_first s') []" "queue_ok s'"
    using d i(3) by (simp_all add: swi_done_def queue_ok_def)
  moreover have "\<forall>x \<in> set (pl_agenda ?Q). fst x \<in> running s'"
    using p by (auto simp: plans_def all_running_def)
  moreover have "holds s' (pl_agenda ?Q)"
    using p(1) by (simp add: plans_def)
  ultimately have "timer_inv T {} (pl_agenda ?Q) s'"
    unfolding timer_inv_def using d i(7) names by (intro exI [of _ "[]"]) (auto simp: swi_done_def ops_ok_def)
  then show ?thesis
    using run by (auto simp: SWI_IRQHandler_def)
qed

subsection \<open>Runs\<close>

text \<open>From the initialisation on: calls and interrupts, in any order.\<close>

inductive timer_run :: "u32 set \<Rightarrow> 'w timeout_cb \<Rightarrow> 'w schedule_cb \<Rightarrow> nat \<Rightarrow> 'w timers_scheme \<Rightarrow> bool" for T cb sched n where
  run_init: "app_timer_init prescaler qsize buf NULL s = (Ret NRF_SUCCESS, s') \<Longrightarrow> qsize \<noteq> 0 \<Longrightarrow> \<not> m_rtc1_reset s \<Longrightarrow> timer_run T cb sched n s'"
| run_call: "timer_run T cb sched n s \<Longrightarrow> api_step T s s' \<Longrightarrow> timer_run T cb sched n s'"
| run_rtc: "timer_run T cb sched n s \<Longrightarrow> counter_forward s \<Longrightarrow> RTC1_IRQHandler cb sched n s = (Ret (), s') \<Longrightarrow> timer_run T cb sched n s'"
| run_swi: "timer_run T cb sched n s \<Longrightarrow> timely s \<Longrightarrow> SWI_IRQHandler n s = (Ret (), s') \<Longrightarrow> timer_run T cb sched n s'"

lemma init_inv:
  assumes "app_timer_init prescaler qsize buf NULL s = (Ret NRF_SUCCESS, s')" and "qsize \<noteq> 0" and "\<not> m_rtc1_reset s"
  shows "timer_inv T {} [] s'"
proof -
  have "mp_timer_id_head s' = NULL" "q_first s' = 0" "q_last s' = 0" "q_size s' = qsize" "m_ticks_elapsed_q_read_ind s' = 0"
      "m_ticks_elapsed_q_write_ind s' = 0" "m_evt_schedule_func s' = NULL" "m_rtc1_reset s' = m_rtc1_reset s"
    using assms(1)
    by (auto simp: app_timer_init_def rtc1_stop_def rtc1_init_def rtc1_counter_get_def bnd_run andthen_run access_def NRF_SUCCESS_def NRF_ERROR_INVALID_PARAM_def
        split: if_splits)
  then show ?thesis
    using assms(2,3) unfolding timer_inv_def
    by (intro exI [of _ "[]"]) (simp add: holds_def queue_ok_def ops_ok_def elapsed_ok_def CONTEXT_QUEUE_SIZE_MAX_def word_neq_0_conv)
qed

lemma run_inv:
  assumes "timer_run T cb sched n s" and T: "finite T" "card T + 256 \<le> n" and wb: "well_behaved T cb"
  shows "\<exists>ag. timer_inv T {} ag s"
  using assms(1)
proof induction
  case (run_init prescaler qsize buf s s')
  then show ?case
    using init_inv by blast
next
  case (run_call s s')
  then show ?case
    using api_step_inv by blast
next
  case (run_rtc s s')
  then obtain ag where inv: "timer_inv T {} ag s"
    by blast
  moreover obtain ops where "queued s (q_first s) ops"
    using inv by (auto simp: timer_inv_def)
  ultimately have "length ag < n"
    using inv_fuel [OF inv T] by fastforce
  then show ?case
    using rtc_returns [OF wb inv, of n sched] run_rtc.hyps(2,3) by auto
next
  case (run_swi s s')
  then show ?case
    using swi_returns [OF _ T] by fastforce
qed

end
