(* ===== verification/TimerProps.thy ===== *)
theory TimerProps
  imports TimerRuns
begin

text \<open>
  The properties of the application timer, over the model of \<open>AppTimer\<close>: what the software interrupt makes of the
  plan of the timers, that the module never hangs in any run, which time-out handlers the counter's interrupt calls, that
  periodic timers do not drift, that the compare register is never set too late, and three ways in which it misleads
  its user.
\<close>

unbundle bit_operations_syntax

subsection \<open>Example states\<close>

text \<open>Timer 4 is periodic and due in 100 ticks, timer 8 is due in 300; both handlers are at 16. The counter shows 150.\<close>

definition demo_node :: "u32 \<Rightarrow> u32 \<Rightarrow> u32 \<Rightarrow> timer_node" where
  "demo_node t per q = \<lparr>ticks_to_expire = t, ticks_at_start = 0, ticks_first_interval = 0, ticks_periodic_interval = per, is_running = True,
     timer_mode = Timer_repeated, p_timeout_handler = 16, node_context = 7, next_node = q\<rparr>"

definition demo_idle :: timer_node where
  "demo_idle = (demo_node 0 0 NULL)\<lparr>is_running := False\<rparr>"

definition demo_timers :: "u32 \<Rightarrow> (u32 \<Rightarrow> timer_node) \<Rightarrow> 'w \<Rightarrow> 'w timers_scheme" where
  "demo_timers h nd w = \<lparr>sd_env = sd_env demo_world, sd_trace = [], q_first = 0, q_last = 0, q_size = 4, p_user_op_queue = 64,
     user_ops = \<lambda>_. \<lparr>op_type = TIMER_USER_OP_TYPE_START, op_node = 12, start_ticks = 150, start_first = 50, start_periodic = 0, start_context = 0\<rparr>,
     mp_timer_id_head = h, m_ticks_latest = 0, m_ticks_elapsed = \<lambda>_. 100, m_ticks_elapsed_q_read_ind = 0, m_ticks_elapsed_q_write_ind = 0,
     m_evt_schedule_func = NULL, m_rtc1_running = True, m_rtc1_reset = False, nodes = nd, rtc_env = \<lambda>_. 150, rtc_log = [], \<dots> = w\<rparr>"

definition demo_two :: "u32 \<Rightarrow> timer_node" where
  "demo_two = (\<lambda>_. demo_idle)(4 := demo_node 100 1000 8, 8 := demo_node 200 0 NULL)"

lemmas demo_simps = demo_timers_def demo_two_def demo_node_def demo_idle_def

abbreviation demo_plan :: plan where
  "demo_plan \<equiv> \<lparr>pl_agenda = [(4, 100), (8, 300)], pl_running = {4, 8}, pl_period = (\<lambda>_. 0)(4 := 1000)\<rparr>"

lemma demo_holds: "holds (demo_timers 4 demo_two w) [(4, 100), (8, 300)]"
  by (simp add: holds_def demo_simps gap_def)

lemma demo_plans: "plans (demo_timers 4 demo_two w) demo_plan"
  using demo_holds [of w] by (auto simp: plans_def running_def periods_def fun_eq_iff demo_simps)

lemma demo_ok: "elapsed_ok (demo_timers h nd w)" "\<not> m_rtc1_reset (demo_timers h nd w)" "elapsed (demo_timers h nd w) = None"
  "queue_ok (demo_timers h nd w)" "queued (demo_timers h nd w) 0 []"
  by (simp_all add: elapsed_ok_def elapsed_def queue_ok_def demo_timers_def CONTEXT_QUEUE_SIZE_MAX_def)

text \<open>The same after the interrupt of the counter has noted 100 ticks, with a start of timer 12 in the queue.\<close>

definition demo_busy :: "unit \<Rightarrow> unit timers_scheme" where
  "demo_busy w = (demo_timers 4 demo_two w)\<lparr>q_last := 1, m_ticks_elapsed_q_write_ind := 1\<rparr>"

abbreviation demo_op :: timer_user_op where
  "demo_op \<equiv> \<lparr>op_type = TIMER_USER_OP_TYPE_START, op_node = 12, start_ticks = 150, start_first = 50, start_periodic = 0, start_context = 0\<rparr>"

lemma demo_busy_plans: "plans (demo_busy w) demo_plan"
  using demo_plans [of w] plans_cong [of "demo_busy w" "demo_timers 4 demo_two w"] by (simp add: demo_busy_def)

lemma demo_busy_ok:
  "queued (demo_busy w) (q_first (demo_busy w)) [demo_op]" "ops_ok [demo_op]" "elapsed_ok (demo_busy w)" "\<not> m_rtc1_reset (demo_busy w)"
  "elapsed (demo_busy w) = Some 100" "m_ticks_latest (demo_busy w) = 0"
  by (simp_all add: demo_busy_def demo_timers_def next_op_def ops_ok_def elapsed_ok_def elapsed_def CONTEXT_QUEUE_SIZE_MAX_def)

lemma demo_going: "idle_going el ops demo_plan"
  by (simp add: idle_going_def)

lemma demo_lag: "lag_ok (Some 100) [(4, 100), (8, 300)]"
  by (simp add: lag_ok_def)

subsection \<open>The software interrupt\<close>

text \<open>
  C20: The software interrupt of the application timer refines the plan. Let any operations be queued that the module's functions queue
  (a start never for the null timer, \<open>ops_ok\<close>), and let the counter's interrupt have noted ticks, or none. Three things are assumed of the
  moment: the counter is not being reset; of each timer that the noted ticks make expire they are at most \<open>2 ^ 23\<close>, half a turn of the counter,
  past its expiry (\<open>lag_ok\<close>); and a timer of the list that is not running is either due by those ticks or stopped by a queued
  operation (\<open>idle_going\<close>). Then the handler returns, with fuel for one more than the timers of the list and
  the operations of the queue. The linked list, the running flags and the periods then are exactly those
  that \<open>swi_plan\<close> computes on the agenda, the list of timers with the ticks until each expires: stopped timers
  go, those that are due go, the periodic ones among them come back in counted from the tick at which they were due,
  and each newly started timer that is not running comes in. The queue is empty, no noted ticks are left and nothing of the
  caller's state has changed.
\<close>

theorem timer_swi_plan:
  assumes "plans s P" and "queued s (q_first s) ops" and "ops_ok ops" and "elapsed_ok s" and "\<not> m_rtc1_reset s"
    and "length (pl_agenda P) + length ops < n" and "idle_going (elapsed s) ops P" and "lag_ok (elapsed s) (pl_agenda P)"
  shows "\<exists>s'. SWI_IRQHandler n s = (Ret (), s') \<and> plans s' (swi_plan (m_ticks_latest s) (elapsed s) ops P)
    \<and> queued s' (q_first s') [] \<and> elapsed s' = None \<and> timers.more s' = timers.more s"
  using list_handled [OF assms] unfolding SWI_IRQHandler_def swi_done_def by auto

theorem timer_swi_plan_witness:
  "\<exists>s'. SWI_IRQHandler 4 (demo_busy ()) = (Ret (), s') \<and> plans s' (swi_plan 0 (Some 100) [demo_op] demo_plan)
    \<and> map fst (pl_agenda (swi_plan 0 (Some 100) [demo_op] demo_plan)) = [12, 8, 4] \<and> elapsed s' = None"
proof -
  have "restarts (Some 100) (pl_period demo_plan) [(4, 100), (8, 300)] = [(4, 1000)]" "remaining (Some 100) [(4, 100), (8, 300)] = [(8, 200)]"
    by (simp_all add: restarts_def remaining_def due_by_def due_later_def)
  then have "pl_agenda (swi_plan 0 (Some 100) [demo_op] demo_plan) = [(12, 100), (8, 200), (4, 1000)]"
    by (simp add: swi_plan_def delete_ops_def agenda_insert_all_def agenda_insert_def
        advanced_def start_ops_def start_op_def ticks_until_def ticks_diff_get_def MAX_RTC_COUNTER_VAL_def)
  then show ?thesis
    using timer_swi_plan [OF demo_busy_plans demo_busy_ok(1-4), of 4 "()"] demo_going demo_lag by (simp add: demo_busy_ok(5,6)) metis
qed

text \<open>
  C21: The application timer never hangs and never loses its list. After initialisation, let the application start, stop
  and create timers of a finite set \<open>T\<close> and stop all of them in any order, from anywhere and from the time-out handlers,
  with the software interrupt coming at any time and the counter's whenever the counter is not behind what has been noted. Then the list is well formed: it ends, has no timer twice, is
  ordered by expiry and holds timers of \<open>T\<close> only. The counter's interrupt returns, with fuel for the timers of \<open>T\<close> and the
  operations that a queue of bytes can index, and the software interrupt returns whenever the ticks noted are
  not more than half a turn of the counter past the expiry of a timer. A stop that fails because the queue is full is the one call left out.
\<close>

theorem timers_never_hang:
  assumes "timer_run T cb sched n s" and "finite T" and "card T + 256 \<le> n" and "well_behaved T cb"
  shows "\<exists>ag. holds s ag \<and> distinct (map fst ag) \<and> sorted (map snd ag) \<and> fst ` set ag \<subseteq> T
    \<and> (\<exists>s'. RTC1_IRQHandler cb sched n s = (Ret (), s')) \<and> (timely s \<longrightarrow> (\<exists>s'. SWI_IRQHandler n s = (Ret (), s')))"
proof -
  obtain ag where inv: "timer_inv T {} ag s"
    using run_inv [OF assms] by blast
  then obtain ops where ag: "holds s ag" "fst ` set ag \<subseteq> T" and ops: "queued s (q_first s) ops"
    by (auto simp: timer_inv_def)
  have "length ag < n"
    using inv_fuel [OF inv assms(2,3) ops] by simp
  then show ?thesis
    using ag holds_sorted [OF ag(1)] holds_facts(4) [OF ag(1)] rtc_returns [OF assms(4) inv] swi_returns [OF inv assms(2,3)] by blast
qed

text \<open>A run: initialisation, a start of timer 4, the software interrupt and the counter's.\<close>

definition demo_fresh :: "unit timers_scheme" where
  "demo_fresh = (demo_timers NULL (\<lambda>_. demo_idle) ())\<lparr>p_user_op_queue := NULL\<rparr>"

abbreviation demo_quiet :: "unit timeout_cb" where
  "demo_quiet \<equiv> \<lambda>h c. ret ()"

abbreviation demo_sched :: "unit schedule_cb" where
  "demo_sched \<equiv> \<lambda>f h c. ret NRF_SUCCESS"

lemma demo_quiet_behaves: "well_behaved T demo_quiet"
  by (simp add: well_behaved_def)

lemma demo_initialized: "app_timer_init 0 4 64 NULL demo_fresh = (Ret NRF_SUCCESS, snd (app_timer_init 0 4 64 NULL demo_fresh))"
  by (simp add: app_timer_init_def is_word_aligned_def andthen_run bnd_run rtc1_counter_get_def rtc1_stop_def rtc1_init_def)

lemma demo_started:
  "app_timer_start 4 100 7 (snd (app_timer_init 0 4 64 NULL demo_fresh))
     = (Ret NRF_SUCCESS, snd (app_timer_start 4 100 7 (snd (app_timer_init 0 4 64 NULL demo_fresh))))"
  by (simp add: app_timer_start_def app_timer_init_def is_word_aligned_def andthen_run bnd_run rtc1_counter_get_def rtc1_stop_def rtc1_init_def
      timer_start_op_schedule_def user_op_alloc_def next_op_def timer_list_handler_sched_def access_def module_initialized_def demo_fresh_def demo_simps
      APP_TIMER_MIN_TIMEOUT_TICKS_def put_op_at_def user_op_enque_def)

theorem timers_never_hang_witness:
  "\<exists>s ag. timer_run {4} demo_quiet demo_sched 257 s \<and> holds s ag \<and> fst ` set ag \<subseteq> {4}
    \<and> user_ops s 0 = \<lparr>op_type = TIMER_USER_OP_TYPE_START, op_node = 4, start_ticks = 150, start_first = 100, start_periodic = 100, start_context = 7\<rparr>
    \<and> (\<exists>s'. RTC1_IRQHandler demo_quiet demo_sched 257 s = (Ret (), s'))"
proof -
  let ?s1 = "snd (app_timer_init 0 4 64 NULL demo_fresh)"
  let ?s2 = "snd (app_timer_start 4 100 7 ?s1)"
  have "timer_run {4} demo_quiet demo_sched 257 ?s1"
    using demo_initialized by (rule run_init) (simp_all add: demo_fresh_def demo_timers_def)
  moreover have "api_step {4} ?s1 ?s2"
    using demo_started by (intro api_start [of 4]) simp_all
  ultimately have run: "timer_run {4} demo_quiet demo_sched 257 ?s2"
    by (rule run_call)
  have "user_ops ?s2 0 = \<lparr>op_type = TIMER_USER_OP_TYPE_START, op_node = 4, start_ticks = 150, start_first = 100, start_periodic = 100, start_context = 7\<rparr>"
    by (simp add: app_timer_start_def app_timer_init_def is_word_aligned_def andthen_run bnd_run rtc1_counter_get_def rtc1_stop_def rtc1_init_def
      timer_start_op_schedule_def user_op_alloc_def next_op_def timer_list_handler_sched_def access_def module_initialized_def demo_fresh_def demo_simps
      APP_TIMER_MIN_TIMEOUT_TICKS_def put_op_at_def user_op_enque_def)
  then show ?thesis
    using run timers_never_hang [OF run _ _ demo_quiet_behaves] by auto
qed

subsection \<open>Drift\<close>


lemma counter_add: "((x AND MAX_RTC_COUNTER_VAL) + y) AND MAX_RTC_COUNTER_VAL = (x + y) AND MAX_RTC_COUNTER_VAL"
proof (rule word_uint_eqI)
  have "((a mod 2 ^ 24 + b) mod 2 ^ 32) mod 2 ^ 24 = ((a + b) mod 2 ^ 32) mod (2 ^ 24 :: int)" for a b
    by (simp add: mod_mod_cancel mod_add_left_eq)
  then show "uint (((x AND MAX_RTC_COUNTER_VAL) + y) AND MAX_RTC_COUNTER_VAL) = uint ((x + y) AND MAX_RTC_COUNTER_VAL)"
    by (simp add: uint_counter uint_word_ariths)
qed



subsection \<open>The compare register\<close>

lemma ticks_diff_step:
  assumes "ticks_diff_get b a + RTC_COMPARE_OFFSET_MIN \<le> ticks_diff_get c a"
  shows "3 \<le> unat (ticks_diff_get c b)"
proof -
  have "unat (ticks_diff_get b a + RTC_COMPARE_OFFSET_MIN) = unat (ticks_diff_get b a) + 3"
    using ticks_diff_bound [of b a] by (simp add: RTC_COMPARE_OFFSET_MIN_def unat_word_ariths)
  then have "unat (ticks_diff_get b a) + 3 \<le> unat (ticks_diff_get c a)"
    using assms by (simp only: word_le_nat_alt)
  then have le: "uint (ticks_diff_get b a) + 3 \<le> uint (ticks_diff_get c a)"
    unfolding uint_nat by linarith
  have "uint (ticks_diff_get c b) = (uint (ticks_diff_get c a) - uint (ticks_diff_get b a)) mod 2 ^ 24"
    by (simp add: uint_ticks_diff mod_diff_eq)
  moreover have "uint (ticks_diff_get c a) < 2 ^ 24" "0 \<le> uint (ticks_diff_get b a)"
    by (simp_all add: uint_ticks_diff)
  then have "(uint (ticks_diff_get c a) - uint (ticks_diff_get b a)) mod 2 ^ 24 = uint (ticks_diff_get c a) - uint (ticks_diff_get b a)"
    using le by (intro mod_pos_pos_trivial) linarith+
  ultimately have "uint (ticks_diff_get c b) = uint (ticks_diff_get c a) - uint (ticks_diff_get b a)"
    by simp
  then have "3 \<le> uint (ticks_diff_get c b)"
    using le by linarith
  then show ?thesis
    unfolding uint_nat by linarith
qed

lemma compare_soon: "unat (ticks_diff_get ((l + (ticks_diff_get v l + RTC_COMPARE_OFFSET_MIN)) AND MAX_RTC_COUNTER_VAL) v) = 3"
proof -
  have "l + (ticks_diff_get v l + RTC_COMPARE_OFFSET_MIN) = ((v - l) AND MAX_RTC_COUNTER_VAL) + (l + RTC_COMPARE_OFFSET_MIN)"
    unfolding ticks_diff_get_def by (simp only: ac_simps)
  then have "(l + (ticks_diff_get v l + RTC_COMPARE_OFFSET_MIN)) AND MAX_RTC_COUNTER_VAL = ((v - l) + (l + RTC_COMPARE_OFFSET_MIN)) AND MAX_RTC_COUNTER_VAL"
    by (simp only: counter_add)
  also have "(v - l) + (l + RTC_COMPARE_OFFSET_MIN) = v + 3"
    by (simp add: RTC_COMPARE_OFFSET_MIN_def)
  finally have "uint (ticks_diff_get ((l + (ticks_diff_get v l + RTC_COMPARE_OFFSET_MIN)) AND MAX_RTC_COUNTER_VAL) v)
      = ((uint v + 3) mod 2 ^ 32 mod 2 ^ 24 - uint v) mod 2 ^ 24"
    by (simp only: uint_ticks_diff uint_counter) (simp add: uint_word_ariths)
  also have "\<dots> = ((uint v + 3) - uint v) mod 2 ^ 24"
    by (simp add: mod_mod_cancel mod_diff_left_eq)
  finally show ?thesis
    by (simp add: unat_eq_nat_uint)
qed

lemma compare_run:
  assumes "mp_timer_id_head s \<noteq> NULL" and v: "v = rtc_env s (rtc_log s)"
    and cc: "cc = (m_ticks_latest s + (if ticks_diff_get v (m_ticks_latest s) + RTC_COMPARE_OFFSET_MIN < ticks_to_expire (nodes s (mp_timer_id_head s))
      then ticks_to_expire (nodes s (mp_timer_id_head s)) else ticks_diff_get v (m_ticks_latest s) + RTC_COMPARE_OFFSET_MIN)) AND MAX_RTC_COUNTER_VAL"
    and as: "as = Counter_read # (if m_rtc1_running s then [] else [Compare_event_enable, Rtc1_unpend, Rtc1_enable, Tasks_start, Delay_us MAX_RTC_TASKS_DELAY])"
    and w: "w = as @ [Compare0_set cc, Counter_read]" and b: "b = rtc_env s (rtc_log s @ as @ [Compare0_set cc])"
  shows "compare_reg_update s = (Ret (), s\<lparr>m_rtc1_running := True, rtc_log := rtc_log s @ w @ (if ticks_diff_get cc v < ticks_diff_get b v + RTC_COMPARE_OFFSET_MIN
      then [Counter_read, Compare0_set (rtc_env s (rtc_log s @ w)), Delay_us MAX_RTC_TASKS_DELAY, Rtc1_pend] else [])\<rparr>)"
proof -
  have "compare_reg_update s = (Ret (), s\<lparr>m_rtc1_running := True, rtc_log := rtc_log s @ w @ x\<rparr>)"
    if "x = (if ticks_diff_get cc v < ticks_diff_get b v + RTC_COMPARE_OFFSET_MIN
      then [Counter_read, Compare0_set (rtc_env s (rtc_log s @ w)), Delay_us MAX_RTC_TASKS_DELAY, Rtc1_pend] else [])" for x
    using assms that
    by (cases "m_rtc1_running s"; cases "ticks_diff_get cc v < ticks_diff_get b v + RTC_COMPARE_OFFSET_MIN";
        cases "ticks_diff_get v (m_ticks_latest s) + RTC_COMPARE_OFFSET_MIN < ticks_to_expire (nodes s (mp_timer_id_head s))")
      (simp_all add: compare_reg_update_def bnd_run andthen_run rtc1_counter_get_def rtc1_start_def rtc1_compare0_set_def
        timer_timeouts_check_sched_def access_def Let_def)
  then show ?thesis
    by blast
qed

text \<open>
  C24: The compare register is never left behind the counter. When a timer is in the list, updating the register starts the
  counter if it stands and leaves one of two outcomes, whatever the counter shows at each of its reads. Either the value
  written was still at least three ticks ahead of the counter when it was read after the write, the
  distance at which the hardware is sure to compare, and it is the tick at which the first timer is due or, when that is
  less than three ticks away, three ticks ahead of the first read. Or the counter's interrupt has been made pending by hand.
\<close>

theorem timer_compare_armed:
  assumes "mp_timer_id_head s \<noteq> NULL"
  shows "\<exists>s' w. compare_reg_update s = (Ret (), s') \<and> rtc_log s' = rtc_log s @ w \<and> m_rtc1_running s'
    \<and> (last w = Rtc1_pend \<or> (\<exists>as cc. w = as @ [Compare0_set cc, Counter_read]
         \<and> 3 \<le> unat (ticks_diff_get cc (rtc_env s (rtc_log s @ as @ [Compare0_set cc])))
         \<and> (cc = (m_ticks_latest s + ticks_to_expire (nodes s (mp_timer_id_head s))) AND MAX_RTC_COUNTER_VAL
            \<or> unat (ticks_diff_get cc (rtc_env s (rtc_log s))) = 3)))"
proof -
  let ?t = "ticks_to_expire (nodes s (mp_timer_id_head s))" and ?v = "rtc_env s (rtc_log s)"
  let ?e = "ticks_diff_get ?v (m_ticks_latest s) + RTC_COMPARE_OFFSET_MIN"
  let ?cc = "(m_ticks_latest s + (if ?e < ?t then ?t else ?e)) AND MAX_RTC_COUNTER_VAL"
  let ?as = "Counter_read # (if m_rtc1_running s then [] else [Compare_event_enable, Rtc1_unpend, Rtc1_enable, Tasks_start, Delay_us MAX_RTC_TASKS_DELAY])"
  let ?b = "rtc_env s (rtc_log s @ ?as @ [Compare0_set ?cc])"
  let ?w = "?as @ [Compare0_set ?cc, Counter_read]"
  let ?late = "ticks_diff_get ?cc ?v < ticks_diff_get ?b ?v + RTC_COMPARE_OFFSET_MIN"
  let ?w' = "?w @ (if ?late then [Counter_read, Compare0_set (rtc_env s (rtc_log s @ ?w)), Delay_us MAX_RTC_TASKS_DELAY, Rtc1_pend] else [])"
  have "compare_reg_update s = (Ret (), s\<lparr>m_rtc1_running := True, rtc_log := rtc_log s @ ?w'\<rparr>)"
    using compare_run [OF assms refl refl refl refl refl] by (simp only: append_assoc)
  moreover have "3 \<le> unat (ticks_diff_get ?cc ?b)" if "\<not> ?late"
    using ticks_diff_step that by (simp add: not_less)
  moreover have "?cc = (m_ticks_latest s + ?t) AND MAX_RTC_COUNTER_VAL \<or> unat (ticks_diff_get ?cc ?v) = 3"
    using compare_soon [of "m_ticks_latest s" ?v] by simp
  ultimately show ?thesis
    by (intro exI [of _ "s\<lparr>m_rtc1_running := True, rtc_log := rtc_log s @ ?w'\<rparr>"] exI [of _ ?w']) auto
qed

theorem timer_compare_armed_witness:
  "\<exists>s' w. compare_reg_update (demo_timers 4 demo_two ()) = (Ret (), s') \<and> rtc_log s' = w
    \<and> (last w = Rtc1_pend \<or> (\<exists>as cc. w = as @ [Compare0_set cc, Counter_read] \<and> 3 \<le> unat (ticks_diff_get cc 150)))"
  using timer_compare_armed [of "demo_timers 4 demo_two ()"] by (auto simp: demo_timers_def)

subsection \<open>What the counter's interrupt calls\<close>

definition quieted :: "u32 set \<Rightarrow> (u32 \<Rightarrow> timer_node) \<Rightarrow> u32 \<Rightarrow> timer_node" where
  "quieted A nd = (\<lambda>q. if q \<in> A then (nd q)\<lparr>is_running := False\<rparr> else nd q)"

definition calls :: "(fnptr \<Rightarrow> u32 \<Rightarrow> 'w \<Rightarrow> 'w) \<Rightarrow> (u32 \<Rightarrow> timer_node) \<Rightarrow> u32 list \<Rightarrow> 'w \<Rightarrow> 'w" where
  "calls f nd qs w = fold (\<lambda>q. f (p_timeout_handler (nd q)) (node_context (nd q))) (filter (\<lambda>q. is_running (nd q)) qs) w"

lemma calls_cong: "\<forall>q \<in> set qs. nd' q = nd q \<Longrightarrow> calls f nd' qs w = calls f nd qs w"
  by (induction qs arbitrary: w) (simp_all add: calls_def)

lemma quieted_facts [simp]: "next_node (quieted A nd q) = next_node (nd q)" "gap (quieted A nd) q = gap nd q" "quieted {} nd = nd"
  "quieted A (quieted B nd) = quieted (A \<union> B) nd"
  by (auto simp: quieted_def gap_def)

lemma quieted_one: "quieted {q} nd = nd(q := (nd q)\<lparr>is_running := False\<rparr>)"
  by (auto simp: quieted_def fun_eq_iff)

lemma access_elapsed: "elapsed (access as s) = elapsed s"
  by (simp add: access_def elapsed_def)

lemma due_by_Cons_shift:
  assumes "gap nd q \<le> e"
  shows "map fst (due_by e (dues nd 0 (q # ps))) = q # map fst (due_by (e - gap nd q) (dues nd 0 ps))"
  unfolding dues_Cons_shift due_by_Cons using due_shift(1) [OF assms, of "dues nd 0 ps"] assms
  by (simp add: case_prod_unfold comp_def)

lemma timeouts_called:
  assumes cb: "\<And>h c s. cb h c s = (Ret (), s\<lparr>timers.more := f h c (timers.more s)\<rparr>)" and "m_evt_schedule_func s = NULL"
    and "linked (nodes s) p ps" and "length ps < n"
  shows "timeouts_loop cb sched n p e c s = (Ret (c + of_nat (gaps (nodes s) (map fst (due_by (unat e) (dues (nodes s) 0 ps))))),
    s\<lparr>nodes := quieted (set (map fst (due_by (unat e) (dues (nodes s) 0 ps)))) (nodes s),
      timers.more := calls f (nodes s) (map fst (due_by (unat e) (dues (nodes s) 0 ps))) (timers.more s)\<rparr>)"
  using assms(2-4)
proof (induction ps arbitrary: s p n e c)
  case Nil
  then show ?case
    by (cases n) (auto simp: bnd_run due_by_def calls_def)
next
  case (Cons q ps)
  then obtain m where n: "n = Suc m" and p: "p = q" "q \<noteq> NULL" and l: "linked (nodes s) (next_node (nodes s q)) ps"
    by (cases n) auto
  let ?t = "ticks_to_expire (nodes s q)"
  show ?case
  proof (cases "e < ?t")
    case True
    then have "due_by (unat e) (dues (nodes s) 0 (q # ps)) = []"
      by (simp add: due_by_def gap_def word_less_nat_alt)
    then show ?thesis
      using True n p by (simp add: bnd_run calls_def)
  next
    case False
    have g: "gap (nodes s) q \<le> unat e"
      using False by (simp add: gap_def word_less_nat_alt)
    then have e: "unat (e - ?t) = unat e - gap (nodes s) q"
      by (simp add: gap_def unat_sub word_le_nat_alt)
    let ?s1 = "s\<lparr>nodes := quieted {q} (nodes s), timers.more := calls f (nodes s) [q] (timers.more s)\<rparr>"
    have s1: "(if is_running (nodes s q) then andthen (modify (put_node q (\<lambda>x. x\<lparr>is_running := False\<rparr>))) (timeout_handler_exec cb sched q) else ret ()) s = (Ret (), ?s1)"
    proof (cases "is_running (nodes s q)")
      case True
      then show ?thesis
        using Cons.prems(1) by (simp add: andthen_run timeout_handler_exec_def bnd_run put_node_def cb calls_def quieted_one)
    next
      case False
      then have "quieted {q} (nodes s) = nodes s"
        by (auto simp: quieted_def)
      then show ?thesis
        using False by (simp add: calls_def)
    qed
    have same: "dues (nodes ?s1) 0 ps = dues (nodes s) 0 ps" "gaps (nodes ?s1) rs = gaps (nodes s) rs" for rs
      by (simp_all add: dues_cong gaps_cong)
    have "linked (nodes ?s1) (next_node (nodes s q)) ps" "m_evt_schedule_func ?s1 = NULL" "length ps < m"
      using l path_cong [of ps "nodes ?s1" "nodes s"] Cons.prems(1,3) n by simp_all
    note rest = Cons.IH [OF this(2,1,3), of "e - ?t" "c + ?t", unfolded same e]
    let ?xs = "map fst (due_by (unat e - gap (nodes s) q) (dues (nodes s) 0 ps))"
    have "q \<notin> set ps"
      using linked_distinct [OF Cons.prems(2)] by simp
    moreover have "set ?xs \<subseteq> set ps"
      using due_names(1) [of "unat e - gap (nodes s) q" "dues (nodes s) 0 ps"] by (metis fst_dues list.set_map)
    ultimately have calls: "calls f (nodes ?s1) ?xs w = calls f (nodes s) ?xs w" for w
      by (intro calls_cong) (auto simp: quieted_def)
    have "timeouts_loop cb sched n p e c s = timeouts_loop cb sched m (next_node (nodes s q)) (e - ?t) (c + ?t) ?s1"
      using s1 False n p by (simp add: bnd_run andthen_run)
    then show ?thesis
      unfolding rest calls due_by_Cons_shift [OF g] by (simp add: calls_def gap_def add.assoc)
  qed
qed

text \<open>
  C22: The counter's interrupt calls exactly the handlers that are due. With handlers that act on the application's
  own state, the interrupt reads the counter once and then calls, in the order of their expiry and each with its context, the handlers
  of those running timers of the list whose time has come, once each and no others; these timers are then not running. The
  list itself is left to the software interrupt, which is made pending with the ticks up to the last expiry noted for it.
\<close>

theorem timer_fires_due:
  assumes cb: "\<And>h c s. cb h c s = (Ret (), s\<lparr>timers.more := f h c (timers.more s)\<rparr>)" and "m_evt_schedule_func s = NULL"
    and h: "holds s ag" and "ag \<noteq> []" and "elapsed_ok s" and "length ag < n" and qs: "qs = map fst (due_by (ticks_now s) ag)"
  shows "\<exists>s'. RTC1_IRQHandler cb sched n s = (Ret (), s')
    \<and> timers.more s' = fold (\<lambda>q. f (p_timeout_handler (nodes s q)) (node_context (nodes s q))) (filter (\<lambda>q. q \<in> running s) qs) (timers.more s)
    \<and> running s' = running s - set qs \<and> holds s' ag
    \<and> elapsed s' = Some (of_nat (if qs = [] then 0 else snd (last (due_by (ticks_now s) ag)))) \<and> last (rtc_log s') = Swi_pend"
proof -
  note l = holds_facts [OF h]
  let ?s1 = "access [Counter_read] (access [Events_clear] s)"
  let ?d = "ticks_diff_get (rtc_env s (rtc_log s @ [Events_clear])) (m_ticks_latest s)"
  have now: "unat ?d = ticks_now s"
    by (simp add: ticks_now_def)
  have sel: "nodes ?s1 = nodes s" "m_evt_schedule_func ?s1 = NULL" "timers.more ?s1 = timers.more s" "linked (nodes ?s1) (mp_timer_id_head s) (map fst ag)"
    using l(1) assms(2) by (simp_all add: access_def)
  have loop: "timeouts_loop cb sched n (mp_timer_id_head s) ?d 0 ?s1 = (Ret (of_nat (gaps (nodes s) qs)),
      ?s1\<lparr>nodes := quieted (set qs) (nodes s), timers.more := calls f (nodes s) qs (timers.more s)\<rparr>)" (is "_ = (_, ?s2)")
    using timeouts_called [where f = f, OF cb sel(2,4), of n sched ?d 0] l(2) assms(6) unfolding sel now qs by simp
  have "mp_timer_id_head s \<noteq> NULL"
    using l(5,6) assms(4) by (cases ag) auto
  then have run: "RTC1_IRQHandler cb sched n s = (Ret (), access [Swi_pend] (ticks_expired_queue (of_nat (gaps (nodes s) qs)) ?s2))" (is "_ = (_, ?s')")
    using loop by (simp add: RTC1_IRQHandler_def timer_timeouts_check_def andthen_run bnd_run rtc1_counter_get_def timer_list_handler_sched_def access_def)
  have same: "nodes ?s' = quieted (set qs) (nodes s)" "timers.more ?s' = calls f (nodes s) qs (timers.more s)" "mp_timer_id_head ?s' = mp_timer_id_head s"
    by (simp_all add: access_def ticks_expired_queue_def Let_def)
  have gaps: "gaps (nodes s) qs = (if qs = [] then 0 else snd (last (due_by (ticks_now s) ag)))"
  proof (cases "qs = []")
    case False
    have "due_by (ticks_now s) ag = dues (nodes s) 0 qs"
      using due_by_dues [of "ticks_now s" "nodes s" 0 "map fst ag"] l(2) unfolding qs by simp
    then show ?thesis
      using False gaps_last [OF False, of "nodes s" 0] by simp
  qed simp
  have "elapsed_ok ?s2"
    using assms(5) by (simp add: elapsed_ok_def access_def)
  then have "elapsed ?s' = Some (of_nat (gaps (nodes s) qs))"
    using ticks_queued(1) [of ?s2 "of_nat (gaps (nodes s) qs)"] by (simp only: access_elapsed)
  moreover have "holds ?s' ag"
    using h unfolding holds_def same by (simp add: path_cong [of _ "quieted _ _" "nodes s"] dues_cong [of _ "quieted _ _" "nodes s"])
  moreover have "running ?s' = running s - set qs"
    unfolding running_def same by (auto simp: quieted_def)
  moreover have "last (rtc_log ?s') = Swi_pend"
    by (simp add: access_def)
  ultimately show ?thesis
    using run same(2) gaps by (intro exI [of _ ?s']) (simp add: calls_def running_def)
qed

theorem timer_fires_due_witness:
  "\<exists>s'. RTC1_IRQHandler (\<lambda>h c s. (Ret (), s\<lparr>timers.more := timers.more s @ [(h, c)]\<rparr>)) (\<lambda>f h c. ret NRF_SUCCESS) 3 (demo_timers 4 demo_two []) = (Ret (), s')
    \<and> timers.more s' = [(16, 7)] \<and> elapsed s' = Some 100"
proof -
  let ?s = "demo_timers 4 demo_two ([] :: (u32 \<times> u32) list)"
  have now: "ticks_now ?s = 150" "due_by 150 [(4, 100), (8, 300)] = [(4, 100)]"
    by (simp_all add: ticks_now_def demo_timers_def ticks_diff_get_def MAX_RTC_COUNTER_VAL_def due_by_def)
  have four: "4 \<in> running ?s" "p_timeout_handler (nodes ?s 4) = 16" "node_context (nodes ?s 4) = 7" "timers.more ?s = []" "m_evt_schedule_func ?s = NULL"
    by (simp_all add: running_def demo_simps)
  have "[4] = map fst (due_by (ticks_now ?s) [(4, 100), (8, 300)])"
    by (simp add: now)
  note called = timer_fires_due [where f = "\<lambda>h c w. w @ [(h, c)]" and cb = "\<lambda>h c s. (Ret (), s\<lparr>timers.more := timers.more s @ [(h, c)]\<rparr>)",
      OF refl four(5) demo_holds _ demo_ok(1) _ this, of 3 "\<lambda>f h c. ret NRF_SUCCESS", unfolded now]
  have "fold (\<lambda>q w. w @ [(p_timeout_handler (nodes ?s q), node_context (nodes ?s q))]) (filter (\<lambda>q. q \<in> running ?s) [4]) (timers.more ?s) = [(16, 7)]"
    using four by simp
  then show ?thesis
    using called by fastforce
qed

subsection \<open>Where the timer misleads its user\<close>

lemma frame_plans:
  assumes "api_frame s s'" and "plans s P" and "running s' = running s"
  shows "plans s' P"
  using assms(2,3) api_frame_holds [OF assms(1)] assms(1) by (simp add: plans_def periods_def [abs_def] api_frame_def)

text \<open>
  C36: Stopping a timer that has just been started does not stop it. Both calls return success, but when the software interrupt comes after
  both of them it handles all deletions before all insertions, so the stop finds no such timer in the list and the start
  then brings it in: the timer is running and in the list.
\<close>

theorem timer_start_stop_runs:
  assumes "plans s P" and "all_running P" and "queued s (q_first s) []" and "queue_ok s" and "elapsed_ok s" and "\<not> m_rtc1_reset s" and "elapsed s = None"
    and "p \<notin> running s" and "app_timer_start p t c s = (Ret NRF_SUCCESS, s1)" and "app_timer_stop p s1 = (Ret NRF_SUCCESS, s2)"
    and "length (pl_agenda P) + 2 < n"
  shows "\<exists>s3 ag. SWI_IRQHandler n s2 = (Ret (), s3) \<and> holds s3 ag \<and> p \<in> fst ` set ag \<and> p \<in> running s3"
proof -
  obtain op1 where op1: "enqueued s op1 s1" "op_type op1 = TIMER_USER_OP_TYPE_START" "op_node op1 = p" "p \<noteq> NULL" "running s1 = running s"
    using assms(9) by (cases rule: start_cases) auto
  have "NRF_SUCCESS \<noteq> NRF_ERROR_NO_MEM"
    by (simp add: NRF_SUCCESS_def NRF_ERROR_NO_MEM_def)
  with assms(10) obtain op2 where op2: "enqueued s1 op2 s2" "op_type op2 = TIMER_USER_OP_TYPE_STOP" "op_node op2 = p" "running s2 = running s1 - {p}"
    using assms(10) by (cases rule: stop_cases) auto
  have fr: "api_frame s s2"
    using op1(1) op2(1) api_frame_trans enqueued_frame by blast
  have q: "queued s2 (q_first s2) [op1, op2]"
    using enqueued_queued [OF op1(1) assms(3,4)] enqueued_queued [OF op2(1), of "[op1]"] by simp
  have plans: "plans s2 P"
    using frame_plans [OF fr assms(1)] op1(5) op2(4) assms(8) by simp
  have el: "elapsed s2 = None" "elapsed_ok s2" "\<not> m_rtc1_reset s2"
    using api_frame_elapsed [OF fr] fr assms(5-7) by (simp_all add: api_frame_def)
  let ?Q = "swi_plan (m_ticks_latest s2) (elapsed s2) [op1, op2] P"
  have "p \<in> fst ` set (pl_agenda ?Q)"
  proof -
    have "delete_ops [op1, op2] (pl_agenda P, pl_running P) = (filter (\<lambda>(q, u). q \<noteq> p) (pl_agenda P), pl_running P)"
      using op1(2) op2(2,3) by (simp add: delete_ops_def)
    moreover have "p \<notin> pl_running P"
      using assms(1,8) by (simp add: plans_def)
    ultimately show ?thesis
      using op1(2,3) op2(2) el(1)
      by (simp add: swi_plan_def Let_def restarts_def start_ops_def start_op_def set_agenda_insert agenda_insert_all_def)
  qed
  then have mem: "p \<in> fst ` set (pl_agenda ?Q)" .
  have "idle_going (elapsed s2) [op1, op2] P" "lag_ok (elapsed s2) (pl_agenda P)" "ops_ok [op1, op2]"
    using assms(2) el(1) op1(3,4) op2(2) by (auto simp: idle_going_def all_running_def lag_ok_def ops_ok_def)
  moreover have "length (pl_agenda P) + length [op1, op2] < n"
    using assms(11) by simp
  ultimately obtain s3 where "timer_list_handler n s2 = (Ret (), s3)" "holds s3 (pl_agenda ?Q)" "running s3 = pl_running ?Q" "all_running ?Q"
    using list_handled [OF plans q _ el(2,3), of n] unfolding plans_def by blast
  moreover from this mem have "p \<in> running s3"
    unfolding all_running_def by blast
  ultimately show ?thesis
    using mem unfolding SWI_IRQHandler_def by blast
qed

theorem timer_start_stop_runs_witness:
  "\<exists>s1 s2 s3. app_timer_start 12 50 0 (demo_timers 4 demo_two ()) = (Ret NRF_SUCCESS, s1) \<and> app_timer_stop 12 s1 = (Ret NRF_SUCCESS, s2)
    \<and> SWI_IRQHandler 5 s2 = (Ret (), s3) \<and> 12 \<in> running s3"
proof -
  let ?s = "demo_timers 4 demo_two ()"
  let ?s1 = "snd (app_timer_start 12 50 0 ?s)"
  let ?s2 = "snd (app_timer_stop 12 ?s1)"
  note run = app_timer_start_def app_timer_stop_def andthen_run bnd_run rtc1_counter_get_def timer_start_op_schedule_def timer_stop_op_schedule_def
    user_op_alloc_def next_op_def timer_list_handler_sched_def access_def module_initialized_def demo_simps APP_TIMER_MIN_TIMEOUT_TICKS_def put_op_at_def
    user_op_enque_def put_node_def Let_def
  have start: "app_timer_start 12 50 0 ?s = (Ret NRF_SUCCESS, ?s1)"
    by (simp add: run)
  have stop: "app_timer_stop 12 ?s1 = (Ret NRF_SUCCESS, ?s2)"
    by (simp add: run)
  have "queued ?s (q_first ?s) []" "12 \<notin> running ?s" "all_running demo_plan"
    by (simp_all add: demo_simps running_def all_running_def)
  then show ?thesis
    using timer_start_stop_runs [OF demo_plans _ _ demo_ok(4,1,2,3) _ start stop, of 5] start stop by fastforce
qed

text \<open>
  A time-out of \<open>2 ^ 24\<close> ticks or more never comes. \<^verbatim>\<open>app_timer_start\<close> takes it without complaint, but the ticks since the
  latest known counter value are computed modulo \<open>2 ^ 24\<close>. When the first timer of the list has that long to go, the counter's interrupt, whatever
  the counter shows, calls no handler and notes 0 ticks, and the software interrupt that follows leaves the whole plan and the
  latest known counter value as they were: neither that timer nor any after it fires, however often this is repeated.
\<close>

lemma timer_long_never_fires:
  assumes P: "plans s P" "pl_agenda P = (q, u) # ag" "2 ^ 24 \<le> u" and "all_running P" and "queued s (q_first s) []" and "elapsed_ok s" and "\<not> m_rtc1_reset s"
    and n: "length (pl_agenda P) < n"
  shows "\<exists>s1 s2. RTC1_IRQHandler cb sched n s = (Ret (), s1) \<and> timers.more s1 = timers.more s \<and> SWI_IRQHandler n s1 = (Ret (), s2)
    \<and> plans s2 P \<and> timers.more s2 = timers.more s \<and> m_ticks_latest s2 = m_ticks_latest s AND MAX_RTC_COUNTER_VAL"
proof -
  have h: "holds s ((q, u) # ag)"
    using P by (simp add: plans_def)
  note l = holds_facts [OF h]
  obtain m where m: "n = Suc m"
    using n by (cases n) auto
  let ?s1 = "access [Counter_read] (access [Events_clear] s)"
  let ?d = "ticks_diff_get (rtc_env s (rtc_log s @ [Events_clear])) (m_ticks_latest s)"
  have "mp_timer_id_head s = q" "q \<noteq> NULL" "gap (nodes s) q = u"
    using h by (auto simp: holds_def)
  moreover from this have "?d < ticks_to_expire (nodes s q)"
    using ticks_diff_bound [of "rtc_env s (rtc_log s @ [Events_clear])" "m_ticks_latest s"] P(3) by (simp add: gap_def word_less_nat_alt)
  ultimately have rtc: "RTC1_IRQHandler cb sched n s = (Ret (), access [Swi_pend] (ticks_expired_queue 0 ?s1))" (is "_ = (_, ?s2)")
    unfolding m by (simp add: RTC1_IRQHandler_def timer_timeouts_check_def andthen_run bnd_run rtc1_counter_get_def timer_list_handler_sched_def access_def)
  have same: "nodes ?s2 = nodes s" "mp_timer_id_head ?s2 = mp_timer_id_head s" "timers.more ?s2 = timers.more s" "m_ticks_latest ?s2 = m_ticks_latest s"
      "q_last ?s2 = q_last s" "q_size ?s2 = q_size s" "user_ops ?s2 = user_ops s" "q_first ?s2 = q_first s" "\<not> m_rtc1_reset ?s2"
    using assms(7) by (simp_all add: access_def ticks_expired_queue_def Let_def)
  have "elapsed_ok ?s1" "elapsed_ok (access as r) = elapsed_ok r" for as and r :: "'a timers_scheme"
    using assms(6) by (simp_all add: elapsed_ok_def access_def)
  then have el: "elapsed ?s2 = Some 0" "elapsed_ok ?s2"
    using ticks_queued [of ?s1 0] by (simp_all only: access_elapsed)
  have q: "plans ?s2 P" "queued ?s2 (q_first ?s2) []"
    using plans_cong [OF same(1,2)] P(1) assms(5) same by simp_all
  have "due_by 0 (pl_agenda P) = []" "due_later 0 (pl_agenda P) = pl_agenda P"
    using P(2,3) by (simp_all add: due_by_def due_later_def)
  then have plan: "swi_plan (m_ticks_latest s) (Some 0) [] P = P" "lag_ok (Some 0) (pl_agenda P)" "idle_going (Some 0) [] P" "ops_ok []"
    using assms(4) by (auto simp: swi_plan_def delete_ops_def restarts_def remaining_def start_ops_def agenda_insert_all_def lag_ok_def
        idle_going_def all_running_def ops_ok_def case_prod_unfold)
  obtain s3 where "timer_list_handler n ?s2 = (Ret (), s3)" "plans s3 P" "swi_done ?s2 s3" "m_ticks_latest s3 = advanced (m_ticks_latest s) (Some 0)"
    using list_handled [OF q plan(4) el(2) same(9), of n] n plan(1-3) P(2) unfolding el(1) same by auto
  moreover from this have "timers.more s3 = timers.more s"
    using same(3) by (simp add: swi_done_def)
  ultimately show ?thesis
    using rtc same(3) unfolding SWI_IRQHandler_def advanced_def by auto
qed

text \<open>Timer 4 alone, with \<open>2 ^ 24\<close> ticks to go.\<close>

definition demo_long :: "u32 \<Rightarrow> timer_node" where
  "demo_long = (\<lambda>_. demo_idle)(4 := demo_node 0x1000000 0 NULL)"

lemma timer_long_never_fires_example:
  "\<exists>s1 s2. RTC1_IRQHandler demo_quiet demo_sched 2 (demo_timers 4 demo_long ()) = (Ret (), s1) \<and> SWI_IRQHandler 2 s1 = (Ret (), s2)
    \<and> holds s2 [(4, 2 ^ 24)] \<and> running s2 = {4}"
proof -
  let ?P = "\<lparr>pl_agenda = [(4, 2 ^ 24)], pl_running = {4}, pl_period = \<lambda>_. 0\<rparr>"
  have "plans (demo_timers 4 demo_long ()) ?P"
    by (auto simp: plans_def holds_def running_def periods_def demo_long_def demo_simps gap_def fun_eq_iff)
  moreover have "queued (demo_timers 4 demo_long ()) (q_first (demo_timers 4 demo_long ())) []" "all_running ?P"
    by (simp_all add: demo_timers_def all_running_def)
  ultimately show ?thesis
    using timer_long_never_fires [of "demo_timers 4 demo_long ()" ?P 4 "2 ^ 24" "[]" 2 demo_quiet demo_sched] demo_ok(1,2) by (fastforce simp: plans_def)
qed

text \<open>A queue that holds nothing but starts of one timer.\<close>

definition starts_of :: "u32 \<Rightarrow> timer_user_op list \<Rightarrow> bool" where
  "starts_of p ops \<longleftrightarrow> (\<forall>op \<in> set ops. op_type op = TIMER_USER_OP_TYPE_START \<and> op_node op = p)"

lemma deletions_skip: "queued s i ops \<Longrightarrow> starts_of p ops \<Longrightarrow> length ops < k \<Longrightarrow> deletions_loop m k i s = (Ret (), s)"
proof (induction ops arbitrary: i k)
  case Nil
  then show ?case
    by (cases k) (simp_all add: bnd_run)
next
  case (Cons op ops)
  then obtain j where "k = Suc j"
    by (cases k) auto
  then show ?case
    using Cons.IH [of "next_op i s" j] Cons.prems by (simp add: bnd_run andthen_run starts_of_def)
qed

lemma insertions_skip:
  "queued s (q_first s) ops \<Longrightarrow> starts_of p ops \<Longrightarrow> is_running (nodes s p) \<Longrightarrow> length ops < k \<Longrightarrow>
     insertions_loop m k NULL s = (Ret (), s\<lparr>q_first := q_last s\<rparr>)"
proof (induction ops arbitrary: s k)
  case Nil
  then show ?case
    by (cases k) (auto simp: bnd_run)
next
  case (Cons op ops)
  then obtain j where k: "k = Suc j"
    by (cases k) auto
  let ?s = "s\<lparr>q_first := next_op (q_first s) s\<rparr>"
  have "queued ?s (q_first ?s) ops"
    using Cons.prems(1) queued_cong [of ?s s "next_op (q_first s) s" ops] by simp
  then show ?case
    using Cons.IH [of ?s j] Cons.prems k by (auto simp: bnd_run andthen_run starts_of_def)
qed

lemma self_insert:
  assumes "mp_timer_id_head s = p" and "p \<noteq> NULL"
  shows "\<exists>nd. timer_insert_prepared n p s = (Ret (), s\<lparr>nodes := nd\<rparr>) \<and> next_node (nd p) = p \<and> ticks_to_expire (nd p) = 0 \<and> is_running (nd p)"
proof -
  let ?nd = "(nodes s)(p := (nodes s p)\<lparr>ticks_at_start := 0, ticks_first_interval := 0, is_running := True, ticks_to_expire := 0, next_node := p\<rparr>)"
  have "timer_insert_prepared n p s = (Ret (), s\<lparr>nodes := ?nd, mp_timer_id_head := p\<rparr>)"
    using assms by (simp add: timer_insert_prepared_def timer_list_insert_def andthen_run bnd_run put_node_def)
  moreover have "s\<lparr>nodes := ?nd, mp_timer_id_head := p\<rparr> = s\<lparr>nodes := ?nd\<rparr>"
    by (rule timers.equality) (simp_all add: assms(1))
  ultimately show ?thesis
    by (intro exI [of _ ?nd]) simp
qed

lemma loop_forever:
  assumes wb: "well_behaved T cb" and "m_evt_schedule_func s = NULL" and "next_node (nodes s p) = p" and "ticks_to_expire (nodes s p) = 0" and "p \<noteq> NULL"
  shows "fst (timeouts_loop cb sched n p e c s) = Hang"
  using assms(2-4)
proof (induction n arbitrary: s c)
  case (Suc n)
  let ?s = "put_node p (\<lambda>x. x\<lparr>is_running := False\<rparr>) s"
  obtain s1 where s1: "cb (p_timeout_handler (nodes ?s p)) (node_context (nodes ?s p)) ?s = (Ret (), s1)" "rtranclp (api_step T) ?s s1"
    using wb unfolding well_behaved_def by blast
  have "api_frame ?s s1"
    by (rule fires_frame [OF calls_fire [OF s1(2)]])
  then have "m_evt_schedule_func s1 = NULL" "next_node (nodes s1 p) = p" "ticks_to_expire (nodes s1 p) = 0"
    using Suc.prems by (simp_all add: api_frame_def put_node_def)
  then have "fst (timeouts_loop cb sched n p e c s1) = Hang" "fst (timeouts_loop cb sched n p e c s) = Hang"
    using Suc by blast+
  then show ?case
    using Suc.prems s1(1) assms(5) by (auto simp: bnd_run andthen_run timeout_handler_exec_def put_node_def)
qed simp

text \<open>
  C37: Stopping a timer when the queue is full corrupts the list. \<^verbatim>\<open>app_timer_stop\<close> marks the timer as stopped before it
  finds that there is no room for the operation and fails with \<^verbatim>\<open>NRF_ERROR_NO_MEM\<close>. The timer is still in the list, so when the software interrupt
  takes a start of it from the queue it inserts the node before itself. From then on the counter's
  interrupt never returns, whatever the fuel: it follows the node to itself for ever.
\<close>

theorem timer_stop_full_corrupts:
  assumes h: "holds s [(p, u)]" and q: "queued s (q_first s) ops" "ops \<noteq> []" "starts_of p ops" "next_op (q_last s) s = q_first s"
    and el: "elapsed s = None" and ini: "module_initialized s" "p_timeout_handler (nodes s p) \<noteq> NULL" "m_evt_schedule_func s = NULL"
    and n: "length ops < n" and wb: "well_behaved T cb"
  shows "\<exists>s1 s2. app_timer_stop p s = (Ret NRF_ERROR_NO_MEM, s1) \<and> SWI_IRQHandler n s1 = (Ret (), s2) \<and> next_node (nodes s2 p) = p
    \<and> (\<forall>m. fst (RTC1_IRQHandler cb sched m s2) = Hang)"
proof -
  have p: "mp_timer_id_head s = p" "p \<noteq> NULL"
    using h by (auto simp: holds_def)
  let ?s1 = "put_node p (\<lambda>x. x\<lparr>is_running := False\<rparr>) s"
  have "next_op (q_last s) ?s1 = next_op (q_last s) s"
    by (rule next_op_cong) (simp add: put_node_def)
  then have "user_op_alloc ?s1 = None"
    using q(4) by (simp add: user_op_alloc_def put_node_def)
  then have stop: "app_timer_stop p s = (Ret NRF_ERROR_NO_MEM, ?s1)"
    using ini p(2) by (simp add: app_timer_stop_def bnd_run andthen_run timer_stop_op_schedule_def)
  have same: "q_first ?s1 = q_first s" "q_last ?s1 = q_last s" "mp_timer_id_head ?s1 = p" "m_evt_schedule_func ?s1 = NULL" "\<not> is_running (nodes ?s1 p)"
      "m_ticks_elapsed_q_read_ind ?s1 = m_ticks_elapsed_q_write_ind ?s1"
    using p(1) ini(3) el by (simp_all add: put_node_def elapsed_def split: if_splits)
  have q1: "queued ?s1 (q_first s) ops"
    using q(1) queued_cong [of ?s1 s "q_first s" ops] by (simp add: put_node_def)
  obtain op rest j where ops: "ops = op # rest" and j: "n = Suc j" "length rest < j"
    using q(2) n by (cases ops; cases n) auto
  have op: "op_type op = TIMER_USER_OP_TYPE_START" "op_node op = p" and st: "starts_of p rest"
    using q(3) by (simp_all add: ops starts_of_def)
  let ?x = "\<lambda>x. x\<lparr>ticks_at_start := (if m_rtc1_reset ?s1 then 0 else start_ticks op), ticks_first_interval := start_first op,
      ticks_periodic_interval := start_periodic op, node_context := start_context op\<rparr>"
  let ?s2 = "put_node p ?x (?s1\<lparr>q_first := next_op (q_first s) ?s1\<rparr>)"
  have "mp_timer_id_head ?s2 = p"
    using p(1) by (simp add: put_node_def)
  then obtain nd where nd: "timer_insert_prepared n p ?s2 = (Ret (), ?s2\<lparr>nodes := nd\<rparr>)" "next_node (nd p) = p" "ticks_to_expire (nd p) = 0" "is_running (nd p)"
    using self_insert p(2) by blast
  let ?s3 = "?s2\<lparr>nodes := nd\<rparr>"
  have "insertions_loop n n NULL ?s1 = insertions_loop n j NULL ?s3"
    using q1 same(1,5) op nd(1) by (simp add: ops j(1) bnd_run andthen_run put_node_def)
  moreover have "queued ?s3 (q_first ?s3) rest"
    using q1 queued_cong [of ?s3 ?s1 "next_op (q_first s) ?s1" rest] by (simp add: ops put_node_def)
  ultimately have ins: "insertions_loop n n NULL ?s1 = (Ret (), ?s3\<lparr>q_first := q_last ?s3\<rparr>)"
    using insertions_skip [OF _ st, of ?s3 j n] nd(4) j(2) by simp
  have head: "mp_timer_id_head (?s3\<lparr>q_first := q_last ?s3\<rparr>) = p"
    using p(1) by (simp add: put_node_def)
  have "SWI_IRQHandler n ?s1 = (Ret (), ?s3\<lparr>q_first := q_last ?s3, m_rtc1_reset := False\<rparr>)" (is "_ = (_, ?s4)")
    using deletions_skip [OF q1 q(3) n] same ins head
    by (simp add: SWI_IRQHandler_def timer_list_handler_def bnd_run andthen_run elapsed_ticks_acquire_def list_deletions_handler_def list_insertions_handler_def)
  moreover have "fst (RTC1_IRQHandler cb sched m ?s4) = Hang" for m
  proof -
    let ?s5 = "access [Counter_read] (access [Events_clear] ?s4)"
    have "m_evt_schedule_func ?s5 = NULL" "next_node (nodes ?s5 p) = p" "ticks_to_expire (nodes ?s5 p) = 0" "mp_timer_id_head ?s5 = p"
      using nd(2,3) ini(3) p(1) by (simp_all add: access_def put_node_def)
    then have "fst (timeouts_loop cb sched m p e c ?s5) = Hang" for e c
      using loop_forever [OF wb] p(2) by blast
    then show ?thesis
      using p by (simp add: RTC1_IRQHandler_def timer_timeouts_check_def andthen_run bnd_run rtc1_counter_get_def access_def put_node_def case_prod_unfold split: outcome.splits prod.splits)
  qed
  ultimately show ?thesis
    using stop nd(2) by (intro exI [of _ ?s1] exI [of _ ?s4]) simp
qed

text \<open>Timer 4 alone and running, and a queue with room for three operations that holds three starts of it.\<close>

definition demo_full :: "unit timers_scheme" where
  "demo_full = (demo_timers 4 ((\<lambda>_. demo_idle)(4 := demo_node 100 0 NULL)) ())\<lparr>q_last := 3, user_ops := \<lambda>_. demo_op\<lparr>op_node := 4\<rparr>\<rparr>"

theorem timer_stop_full_corrupts_witness:
  "\<exists>s1 s2. app_timer_stop 4 demo_full = (Ret NRF_ERROR_NO_MEM, s1) \<and> SWI_IRQHandler 4 s1 = (Ret (), s2) \<and> next_node (nodes s2 4) = 4
    \<and> (\<forall>m. fst (RTC1_IRQHandler demo_quiet demo_sched m s2) = Hang)"
proof -
  have "holds demo_full [(4, 100)]" "elapsed demo_full = None" "module_initialized demo_full" "p_timeout_handler (nodes demo_full 4) \<noteq> NULL"
      "m_evt_schedule_func demo_full = NULL"
    by (simp_all add: demo_full_def demo_simps holds_def gap_def elapsed_def module_initialized_def)
  moreover have "queued demo_full (q_first demo_full) (replicate 3 (demo_op\<lparr>op_node := 4\<rparr>))" "next_op (q_last demo_full) demo_full = q_first demo_full"
    by (simp_all add: demo_full_def demo_timers_def next_op_def numeral_3_eq_3)
  moreover have "starts_of 4 (replicate 3 (demo_op\<lparr>op_node := 4\<rparr>))"
    by (simp add: starts_of_def)
  ultimately show ?thesis
    using timer_stop_full_corrupts [of demo_full 4 100 "replicate 3 (demo_op\<lparr>op_node := 4\<rparr>)" 4 UNIV demo_quiet demo_sched] demo_quiet_behaves by simp
qed

end
