(* ===== verification/Board.thy ===== *)
theory Board
  imports AppTimer
begin

text \<open>
  The board support: buttons (\<^verbatim>\<open>components/libraries/button/app_button.c\<close>), the pins of the PCA10028 board
  (\<^verbatim>\<open>components/boards\<close>), indications and button events (\<^verbatim>\<open>components/libraries/bsp/bsp.c\<close>), and what connections
  do to the buttons (\<^verbatim>\<open>bsp_btn_ble.c\<close>). It runs on the application timer of \<open>AppTimer\<close>, whose state it extends: its
  calls of \<^verbatim>\<open>app_timer_start\<close> and \<^verbatim>\<open>app_timer_stop\<close> are those of that model, and its time-out handlers are what that model calls.

  The GPIO and GPIOTE drivers are accesses that are recorded in \<open>gpio_log\<close> and answered by an arbitrary function of the accesses
  before (\<open>gpio_env\<close>); the output register is state. The addresses that the linker chooses are the parameter \<open>L\<close>. \<^verbatim>\<open>ASSERT\<close> is empty in
  this build.
\<close>

unbundle bit_operations_syntax

subsection \<open>Data\<close>

datatype gpio_access = Gpiote_is_init | Gpiote_init | Gpiote_in_init u8 u32 | Gpiote_in_event_enable u8 | Gpiote_in_event_disable u8
  | Gpiote_in_is_set u8 | Gpio_cfg_output u8 | Gpio_pin_read u8 | Gpio_cfg_sense_set u32 u32

record app_button_cfg =
  pin_no :: u8
  active_state :: bool
  pull_cfg :: u32
  button_handler :: fnptr

datatype bsp_indication = BSP_INDICATE_IDLE | BSP_INDICATE_SCANNING | BSP_INDICATE_ADVERTISING | BSP_INDICATE_ADVERTISING_WHITELIST
  | BSP_INDICATE_ADVERTISING_SLOW | BSP_INDICATE_ADVERTISING_DIRECTED | BSP_INDICATE_BONDING | BSP_INDICATE_CONNECTED | BSP_INDICATE_SENT_OK
  | BSP_INDICATE_SEND_ERROR | BSP_INDICATE_RCV_OK | BSP_INDICATE_RCV_ERROR | BSP_INDICATE_FATAL_ERROR | BSP_INDICATE_ALERT_0 | BSP_INDICATE_ALERT_1
  | BSP_INDICATE_ALERT_2 | BSP_INDICATE_ALERT_3 | BSP_INDICATE_ALERT_OFF | BSP_INDICATE_USER_STATE_OFF | BSP_INDICATE_USER_STATE_0
  | BSP_INDICATE_USER_STATE_1 | BSP_INDICATE_USER_STATE_2 | BSP_INDICATE_USER_STATE_3 | BSP_INDICATE_USER_STATE_ON

datatype bsp_event = BSP_EVENT_NOTHING | BSP_EVENT_DEFAULT | BSP_EVENT_CLEAR_BONDING_DATA | BSP_EVENT_CLEAR_ALERT | BSP_EVENT_DISCONNECT
  | BSP_EVENT_ADVERTISING_START | BSP_EVENT_ADVERTISING_STOP | BSP_EVENT_WHITELIST_OFF | BSP_EVENT_BOND | BSP_EVENT_RESET | BSP_EVENT_SLEEP
  | BSP_EVENT_WAKEUP | BSP_EVENT_SYSOFF | BSP_EVENT_DFU | BSP_EVENT_KEY_0 | BSP_EVENT_KEY_1 | BSP_EVENT_KEY_2 | BSP_EVENT_KEY_3

record bsp_button_event_cfg =
  push_event :: bsp_event
  long_push_event :: bsp_event
  release_event :: bsp_event

definition BUTTONS_NUMBER :: u32 where "BUTTONS_NUMBER = 4"
definition LEDS_NUMBER :: u32 where "LEDS_NUMBER = 4"
definition m_board_led_list :: "u8 list" where "m_board_led_list = [21, 22, 23, 24]"
definition m_board_btn_list :: "u8 list" where "m_board_btn_list = [17, 18, 19, 20]"
definition BUTTON_PULL :: u32 where "BUTTON_PULL = 3"
definition APP_BUTTON_PUSH :: u8 where "APP_BUTTON_PUSH = 1"
definition APP_BUTTON_RELEASE :: u8 where "APP_BUTTON_RELEASE = 0"
definition BSP_BUTTON_ACTION_LONG_PUSH :: u8 where "BSP_BUTTON_ACTION_LONG_PUSH = 2"
definition BSP_INIT_LED :: u32 where "BSP_INIT_LED = 1"
definition BSP_INIT_BUTTONS :: u32 where "BSP_INIT_BUTTONS = 2"
definition BSP_LONG_PUSH_TIMEOUT_MS :: u32 where "BSP_LONG_PUSH_TIMEOUT_MS = 1000"
definition NRF_GPIO_PIN_SENSE_LOW :: u32 where "NRF_GPIO_PIN_SENSE_LOW = 3"
definition NRF_GPIO_PIN_NOSENSE :: u32 where "NRF_GPIO_PIN_NOSENSE = 0"

text \<open>The addresses of the timers, of the time-out handlers, of the button handler and of a static variable.\<close>

record layout =
  m_detection_delay_timer_id :: u32
  m_button_timer_id :: u32
  m_leds_timer_id :: u32
  m_alert_timer_id :: u32
  at_detection_delay_timeout_handler :: fnptr
  at_button_timer_handler :: fnptr
  at_leds_timer_handler :: fnptr
  at_alert_timer_handler :: fnptr
  at_bsp_button_event_handler :: fnptr
  at_current_long_push_pin_no :: u32

record board = timers +
  mp_buttons :: "app_button_cfg list"
  m_button_count :: u8
  m_detection_delay :: u32
  m_pin_state :: u32
  m_pin_transition :: u32
  out_pins :: "u8 \<Rightarrow> bool"
  m_stable_state :: bsp_indication
  m_leds_clear :: bool
  m_app_ticks_per_100ms :: u32
  m_indication_type :: u32
  m_registered_callback :: fnptr
  m_events_list :: "bsp_button_event_cfg list"
  current_long_push_pin_no :: u8
  release_event_at_push :: "bsp_event list"
  m_error_handler :: fnptr
  m_num_connections :: u32
  gpio_env :: "gpio_access list \<Rightarrow> gpio_access \<Rightarrow> u32"
  gpio_log :: "gpio_access list"

text \<open>The handlers of the application: a button's, the one for events, and the one for errors.\<close>

type_synonym 'w button_cb = "fnptr \<Rightarrow> u8 \<Rightarrow> u8 \<Rightarrow> ('w board_scheme, unit) prog"
type_synonym 'w event_cb = "fnptr \<Rightarrow> bsp_event \<Rightarrow> ('w board_scheme, unit) prog"
type_synonym 'w error_cb = "fnptr \<Rightarrow> u32 \<Rightarrow> ('w board_scheme, unit) prog"

definition gpio :: "gpio_access \<Rightarrow> ('w board_scheme, u32) prog" where
  "gpio a = (\<lambda>s. (Ret (gpio_env s (gpio_log s) a), s\<lparr>gpio_log := gpio_log s @ [a]\<rparr>))"

text \<open>\<open>unless_error f g\<close>: \<open>f\<close>, an early return of its code unless that is success, then \<open>g\<close>.\<close>

definition unless_error :: "('s, u32) prog \<Rightarrow> ('s, u32) prog \<Rightarrow> ('s, u32) prog" where
  "unless_error f g = bnd f (\<lambda>err_code. if err_code = NRF_SUCCESS then g else ret err_code)"

subsection \<open>Buttons\<close>

text \<open>The body of the loop over the buttons, for one whose pin has changed, and the loop. Its counter has 8 bits, so that 256 rounds are enough.\<close>

definition button_detected :: "'w button_cb \<Rightarrow> app_button_cfg \<Rightarrow> ('w board_scheme, unit) prog" where
  "button_detected btn_cb p_btn =
     (let btn_mask = push_bit (unat (pin_no p_btn)) 1
      in bnd (gets m_pin_transition) (\<lambda>tr.
         if btn_mask AND tr \<noteq> 0
         then andthen (modify (\<lambda>s. s\<lparr>m_pin_transition := m_pin_transition s AND NOT btn_mask\<rparr>))
             (bnd (gpio (Gpiote_in_is_set (pin_no p_btn))) (\<lambda>v.
              bnd (gets m_pin_state) (\<lambda>state.
              let pin_is_set = (v \<noteq> 0)
              in if state AND btn_mask = (if pin_is_set then btn_mask else 0)
                 then if button_handler p_btn \<noteq> NULL
                      then btn_cb (button_handler p_btn) (pin_no p_btn) (if pin_is_set = active_state p_btn then APP_BUTTON_PUSH else APP_BUTTON_RELEASE)
                      else ret ()
                 else ret ())))
         else ret ()))"

primrec detection_loop :: "'w button_cb \<Rightarrow> nat \<Rightarrow> nat \<Rightarrow> ('w board_scheme, unit) prog" where
  "detection_loop btn_cb 0 i = ret ()"
| "detection_loop btn_cb (Suc k) i =
     bnd (gets (\<lambda>s. (m_button_count s, mp_buttons s))) (\<lambda>(count, buttons).
     if i < unat count then andthen (button_detected btn_cb (buttons ! i)) (detection_loop btn_cb k (i + 1)) else ret ())"

definition detection_delay_timeout_handler :: "'w button_cb \<Rightarrow> ('w board_scheme, unit) prog" where
  "detection_delay_timeout_handler btn_cb = detection_loop btn_cb 256 0"

definition gpiote_event_handler :: "layout \<Rightarrow> u8 \<Rightarrow> ('w board_scheme, unit) prog" where
  "gpiote_event_handler L pin =
     (let pin_mask = push_bit (unat pin) 1
      in bnd (app_timer_stop (m_detection_delay_timer_id L)) (\<lambda>err_code.
         if err_code \<noteq> NRF_SUCCESS then ret ()
         else bnd (gets m_pin_transition) (\<lambda>tr.
           if tr AND pin_mask = 0
           then bnd (gpio (Gpiote_in_is_set pin)) (\<lambda>v.
                andthen (modify (\<lambda>s. s\<lparr>m_pin_state := (if v \<noteq> 0 then m_pin_state s OR pin_mask else m_pin_state s AND NOT pin_mask)\<rparr>))
               (andthen (modify (\<lambda>s. s\<lparr>m_pin_transition := m_pin_transition s OR pin_mask\<rparr>))
               (bnd (gets m_detection_delay) (\<lambda>delay.
                bnd (app_timer_start (m_detection_delay_timer_id L) delay NULL) (\<lambda>_. ret ())))))
           else modify (\<lambda>s. s\<lparr>m_pin_transition := m_pin_transition s AND NOT pin_mask\<rparr>))))"

text \<open>From the last button to the first; an error ends the loop.\<close>

primrec button_inits :: "app_button_cfg list \<Rightarrow> ('w board_scheme, u32) prog" where
  "button_inits [] = ret NRF_SUCCESS"
| "button_inits (p_btn # ps) = unless_error (gpio (Gpiote_in_init (pin_no p_btn) (pull_cfg p_btn))) (button_inits ps)"

definition app_button_init :: "layout \<Rightarrow> app_button_cfg list \<Rightarrow> u8 \<Rightarrow> u32 \<Rightarrow> ('w board_scheme, u32) prog" where
  "app_button_init L p_buttons button_count detection_delay =
     (if detection_delay < APP_TIMER_MIN_TIMEOUT_TICKS then ret NRF_ERROR_INVALID_PARAM
      else unless_error (bnd (gpio Gpiote_is_init) (\<lambda>is_init. if is_init = 0 then gpio Gpiote_init else ret NRF_SUCCESS))
        (andthen (modify (\<lambda>s. s\<lparr>mp_buttons := p_buttons, m_button_count := button_count, m_detection_delay := detection_delay,
            m_pin_state := 0, m_pin_transition := 0\<rparr>))
        (unless_error (button_inits (rev (take (unat button_count) p_buttons)))
          (app_timer_create (Some (m_detection_delay_timer_id L)) Timer_single_shot (at_detection_delay_timeout_handler L)))))"

definition app_button_enable :: "('w board_scheme, u32) prog" where
  "app_button_enable =
     bnd (gets (\<lambda>s. take (unat (m_button_count s)) (mp_buttons s))) (\<lambda>buttons.
     fold (\<lambda>p_btn f. bnd f (\<lambda>_. bnd (gpio (Gpiote_in_event_enable (pin_no p_btn))) (\<lambda>_. ret NRF_SUCCESS))) buttons (ret NRF_SUCCESS))"

definition app_button_disable :: "layout \<Rightarrow> ('w board_scheme, u32) prog" where
  "app_button_disable L =
     bnd (gets (\<lambda>s. take (unat (m_button_count s)) (mp_buttons s))) (\<lambda>buttons.
     bnd (fold (\<lambda>p_btn f. bnd f (\<lambda>_. bnd (gpio (Gpiote_in_event_disable (pin_no p_btn))) (\<lambda>_. ret ()))) buttons (ret ())) (\<lambda>_.
     app_timer_stop (m_detection_delay_timer_id L)))"

definition app_button_is_pushed :: "u8 \<Rightarrow> ('w board_scheme, bool) prog" where
  "app_button_is_pushed button_id =
     bnd (gets (\<lambda>s. mp_buttons s ! unat button_id)) (\<lambda>p_btn.
     bnd (gpio (Gpiote_in_is_set (pin_no p_btn))) (\<lambda>v. ret ((v \<noteq> 0) = active_state p_btn)))"

subsection \<open>The pins of the board\<close>

text \<open>LEDs and buttons are active when the pin is low.\<close>

definition bsp_board_led_state_get :: "nat \<Rightarrow> ('w board_scheme, bool) prog" where
  "bsp_board_led_state_get led_idx = gets (\<lambda>s. \<not> out_pins s (m_board_led_list ! led_idx))"

definition bsp_board_led_on :: "nat \<Rightarrow> ('w board_scheme, unit) prog" where
  "bsp_board_led_on led_idx = modify (\<lambda>s. s\<lparr>out_pins := (out_pins s)(m_board_led_list ! led_idx := False)\<rparr>)"

definition bsp_board_led_off :: "nat \<Rightarrow> ('w board_scheme, unit) prog" where
  "bsp_board_led_off led_idx = modify (\<lambda>s. s\<lparr>out_pins := (out_pins s)(m_board_led_list ! led_idx := True)\<rparr>)"

definition bsp_board_leds_off :: "('w board_scheme, unit) prog" where
  "bsp_board_leds_off = andthen (bsp_board_led_off 0) (andthen (bsp_board_led_off 1) (andthen (bsp_board_led_off 2) (bsp_board_led_off 3)))"

definition bsp_board_leds_on :: "('w board_scheme, unit) prog" where
  "bsp_board_leds_on = andthen (bsp_board_led_on 0) (andthen (bsp_board_led_on 1) (andthen (bsp_board_led_on 2) (bsp_board_led_on 3)))"

definition bsp_board_led_invert :: "nat \<Rightarrow> ('w board_scheme, unit) prog" where
  "bsp_board_led_invert led_idx = modify (\<lambda>s. s\<lparr>out_pins := (out_pins s)(m_board_led_list ! led_idx := \<not> out_pins s (m_board_led_list ! led_idx))\<rparr>)"

definition bsp_board_leds_init :: "('w board_scheme, unit) prog" where
  "bsp_board_leds_init =
     andthen (fold (\<lambda>pin f. bnd f (\<lambda>_. bnd (gpio (Gpio_cfg_output pin)) (\<lambda>_. ret ()))) m_board_led_list (ret ())) bsp_board_leds_off"

definition bsp_board_button_state_get :: "nat \<Rightarrow> ('w board_scheme, bool) prog" where
  "bsp_board_button_state_get button_idx = bnd (gpio (Gpio_pin_read (m_board_btn_list ! button_idx))) (\<lambda>v. ret (v = 0))"

definition bsp_board_pin_to_button_idx :: "u32 \<Rightarrow> u32" where
  "bsp_board_pin_to_button_idx pin_number =
     (case find (\<lambda>i. ucast (m_board_btn_list ! i) = pin_number) [0..<unat BUTTONS_NUMBER] of Some i \<Rightarrow> of_nat i | None \<Rightarrow> 0xFFFFFFFF)"

definition bsp_board_button_idx_to_pin :: "u32 \<Rightarrow> u32" where
  "bsp_board_button_idx_to_pin button_idx = ucast (m_board_btn_list ! unat button_idx)"

subsection \<open>Button events\<close>

definition app_buttons :: "layout \<Rightarrow> app_button_cfg list" where
  "app_buttons L = map (\<lambda>pin. \<lparr>pin_no = pin, active_state = False, pull_cfg = BUTTON_PULL, button_handler = at_bsp_button_event_handler L\<rparr>) m_board_btn_list"

definition bsp_button_is_pressed :: "nat \<Rightarrow> ('w board_scheme, bool) prog" where
  "bsp_button_is_pressed button = bsp_board_button_state_get button"

definition BSP_MS_TO_TICK :: "u32 \<Rightarrow> 'w board_scheme \<Rightarrow> u32" where
  "BSP_MS_TO_TICK ms s = m_app_ticks_per_100ms s * (ms div 100)"

text \<open>The \<^verbatim>\<open>switch\<close> of \<^verbatim>\<open>bsp_button_event_handler\<close>: the event of the action.\<close>

definition button_event :: "layout \<Rightarrow> u8 \<Rightarrow> nat \<Rightarrow> u8 \<Rightarrow> ('w board_scheme, bsp_event) prog" where
  "button_event L pin button button_action =
     bnd (gets (\<lambda>s. m_events_list s ! button)) (\<lambda>cfg.
     if button_action = APP_BUTTON_PUSH
     then andthen (if long_push_event cfg \<noteq> BSP_EVENT_NOTHING
                   then bnd (gets (BSP_MS_TO_TICK BSP_LONG_PUSH_TIMEOUT_MS)) (\<lambda>ticks.
                        bnd (app_timer_start (m_button_timer_id L) ticks (at_current_long_push_pin_no L)) (\<lambda>err_code.
                        if err_code = NRF_SUCCESS then modify (\<lambda>s. s\<lparr>current_long_push_pin_no := pin\<rparr>) else ret ()))
                   else ret ())
         (andthen (modify (\<lambda>s. s\<lparr>release_event_at_push := (release_event_at_push s)[button := release_event (m_events_list s ! button)]\<rparr>))
           (ret (push_event cfg)))
     else if button_action = APP_BUTTON_RELEASE
     then bnd (app_timer_stop (m_button_timer_id L)) (\<lambda>_.
          gets (\<lambda>s. if release_event_at_push s ! button = release_event (m_events_list s ! button) then release_event (m_events_list s ! button) else BSP_EVENT_NOTHING))
     else if button_action = BSP_BUTTON_ACTION_LONG_PUSH then ret (long_push_event cfg)
     else ret BSP_EVENT_NOTHING)"

definition bsp_button_event_handler :: "layout \<Rightarrow> 'w event_cb \<Rightarrow> u8 \<Rightarrow> u8 \<Rightarrow> ('w board_scheme, unit) prog" where
  "bsp_button_event_handler L event_cb pin button_action =
     (let button = bsp_board_pin_to_button_idx (ucast pin)
      in bnd (if button < BUTTONS_NUMBER then button_event L pin (unat button) button_action else ret BSP_EVENT_NOTHING) (\<lambda>event.
         bnd (gets m_registered_callback) (\<lambda>callback.
         if event \<noteq> BSP_EVENT_NOTHING \<and> callback \<noteq> NULL then event_cb callback event else ret ())))"

text \<open>The context is the address of \<open>current_long_push_pin_no\<close>.\<close>

definition button_timer_handler :: "layout \<Rightarrow> 'w event_cb \<Rightarrow> ('w board_scheme, unit) prog" where
  "button_timer_handler L event_cb = bnd (gets current_long_push_pin_no) (\<lambda>pin. bsp_button_event_handler L event_cb pin BSP_BUTTON_ACTION_LONG_PUSH)"

text \<open>The handler that the buttons of the board are configured with.\<close>

definition button_callback :: "layout \<Rightarrow> 'w event_cb \<Rightarrow> 'w button_cb" where
  "button_callback L event_cb = (\<lambda>h pin action. if h = at_bsp_button_event_handler L then bsp_button_event_handler L event_cb pin action else ret ())"

end
