(* ===== verification/Bsp.thy ===== *)
theory Bsp
  imports Board
begin

text \<open>
  The rest of the board support: indications on the LEDs, initialisation, the events of the buttons, and
  \<^verbatim>\<open>bsp_btn_ble.c\<close>, which gives the buttons other events while a link is up. \<open>board_timeouts\<close> are the time-out handlers
  that the application timer calls.
\<close>

unbundle bit_operations_syntax

subsection \<open>Indications\<close>

text \<open>The value of an indication, counted down from \<^verbatim>\<open>BSP_INDICATE_ALERT_OFF\<close>; only used for the alerts.\<close>

definition alert_delay :: "bsp_indication \<Rightarrow> u32" where
  "alert_delay indicate = (case indicate of BSP_INDICATE_ALERT_0 \<Rightarrow> 4 | BSP_INDICATE_ALERT_1 \<Rightarrow> 3 | BSP_INDICATE_ALERT_2 \<Rightarrow> 2 | BSP_INDICATE_ALERT_3 \<Rightarrow> 1 | _ \<Rightarrow> 0)"

text \<open>A blinking LED: switched, and the timer started for the interval of its new state.\<close>

definition led_blink :: "layout \<Rightarrow> bsp_indication \<Rightarrow> u32 \<Rightarrow> u32 \<Rightarrow> ('w board_scheme, u32) prog" where
  "led_blink L indicate on_interval off_interval =
     bnd (bsp_board_led_state_get 0) (\<lambda>on.
     bnd (if on then andthen (bsp_board_led_off 0) (ret off_interval) else andthen (bsp_board_led_on 0) (ret on_interval)) (\<lambda>next_delay.
     andthen (modify (\<lambda>s. s\<lparr>m_stable_state := indicate\<rparr>))
    (bnd (gets (BSP_MS_TO_TICK next_delay)) (\<lambda>ticks. app_timer_start (m_leds_timer_id L) ticks NULL))))"

text \<open>LED 1 inverted for a while.\<close>

definition led_flash :: "layout \<Rightarrow> u32 \<Rightarrow> ('w board_scheme, u32) prog" where
  "led_flash L interval =
     andthen (modify (\<lambda>s. s\<lparr>m_leds_clear := True\<rparr>)) (andthen (bsp_board_led_invert 1)
       (bnd (gets (BSP_MS_TO_TICK interval)) (\<lambda>ticks. app_timer_start (m_leds_timer_id L) ticks NULL)))"

definition stable :: "bsp_indication \<Rightarrow> ('w board_scheme, unit) prog \<Rightarrow> ('w board_scheme, u32) prog" where
  "stable indicate f = andthen f (andthen (modify (\<lambda>s. s\<lparr>m_stable_state := indicate\<rparr>)) (ret NRF_SUCCESS))"

definition led_alert :: "layout \<Rightarrow> bsp_indication \<Rightarrow> ('w board_scheme, u32) prog" where
  "led_alert L indicate =
     bnd (app_timer_stop (m_alert_timer_id L)) (\<lambda>err_code.
     let next_delay = alert_delay indicate
     in if next_delay \<noteq> 0 \<and> err_code = NRF_SUCCESS
        then bnd (if next_delay > 1
                  then bnd (gets (BSP_MS_TO_TICK (next_delay * 200))) (\<lambda>ticks. app_timer_start (m_alert_timer_id L) ticks NULL) else ret err_code) (\<lambda>err_code.
             andthen (bsp_board_led_on 2) (ret err_code))
        else andthen (bsp_board_led_off 2) (ret err_code))"

definition bsp_led_indication :: "layout \<Rightarrow> bsp_indication \<Rightarrow> ('w board_scheme, u32) prog" where
  "bsp_led_indication L indicate =
     bnd (gets m_leds_clear) (\<lambda>clear.
     andthen (if clear then andthen (modify (\<lambda>s. s\<lparr>m_leds_clear := False\<rparr>)) bsp_board_leds_off else ret ())
       (case indicate of
          BSP_INDICATE_IDLE \<Rightarrow> stable indicate bsp_board_leds_off
        | BSP_INDICATE_SCANNING \<Rightarrow> led_blink L indicate 400 4000
        | BSP_INDICATE_ADVERTISING \<Rightarrow> led_blink L indicate 200 1800
        | BSP_INDICATE_ADVERTISING_WHITELIST \<Rightarrow> led_blink L indicate 200 800
        | BSP_INDICATE_ADVERTISING_SLOW \<Rightarrow> led_blink L indicate 400 4000
        | BSP_INDICATE_ADVERTISING_DIRECTED \<Rightarrow> led_blink L indicate 200 200
        | BSP_INDICATE_BONDING \<Rightarrow>
            andthen (bsp_board_led_invert 0) (andthen (modify (\<lambda>s. s\<lparr>m_stable_state := indicate\<rparr>))
              (bnd (gets (BSP_MS_TO_TICK 100)) (\<lambda>ticks. app_timer_start (m_leds_timer_id L) ticks NULL)))
        | BSP_INDICATE_CONNECTED \<Rightarrow> stable indicate (bsp_board_led_on 0)
        | BSP_INDICATE_SENT_OK \<Rightarrow> led_flash L 100
        | BSP_INDICATE_SEND_ERROR \<Rightarrow> led_flash L 500
        | BSP_INDICATE_RCV_OK \<Rightarrow> led_flash L 100
        | BSP_INDICATE_RCV_ERROR \<Rightarrow> led_flash L 500
        | BSP_INDICATE_FATAL_ERROR \<Rightarrow> stable indicate bsp_board_leds_on
        | BSP_INDICATE_ALERT_0 \<Rightarrow> led_alert L indicate
        | BSP_INDICATE_ALERT_1 \<Rightarrow> led_alert L indicate
        | BSP_INDICATE_ALERT_2 \<Rightarrow> led_alert L indicate
        | BSP_INDICATE_ALERT_3 \<Rightarrow> led_alert L indicate
        | BSP_INDICATE_ALERT_OFF \<Rightarrow> led_alert L indicate
        | BSP_INDICATE_USER_STATE_OFF \<Rightarrow> stable indicate bsp_board_leds_off
        | BSP_INDICATE_USER_STATE_0 \<Rightarrow> stable indicate (andthen bsp_board_leds_off (bsp_board_led_on 0))
        | BSP_INDICATE_USER_STATE_1 \<Rightarrow> stable indicate (andthen bsp_board_leds_off (bsp_board_led_on 1))
        | BSP_INDICATE_USER_STATE_2 \<Rightarrow> stable indicate (andthen bsp_board_leds_off (andthen (bsp_board_led_on 0) (bsp_board_led_on 1)))
        | BSP_INDICATE_USER_STATE_3 \<Rightarrow> stable indicate bsp_board_leds_on
        | BSP_INDICATE_USER_STATE_ON \<Rightarrow> stable indicate bsp_board_leds_on))"

definition leds_timer_handler :: "layout \<Rightarrow> ('w board_scheme, unit) prog" where
  "leds_timer_handler L =
     bnd (gets (\<lambda>s. (m_indication_type s, m_stable_state s))) (\<lambda>(type, state).
     if type AND BSP_INIT_LED \<noteq> 0 then bnd (bsp_led_indication L state) (\<lambda>_. ret ()) else ret ())"

definition alert_timer_handler :: "('w board_scheme, unit) prog" where
  "alert_timer_handler = bsp_board_led_invert 2"

definition bsp_indication_set :: "layout \<Rightarrow> bsp_indication \<Rightarrow> ('w board_scheme, u32) prog" where
  "bsp_indication_set L indicate =
     bnd (gets m_indication_type) (\<lambda>type. if type AND BSP_INIT_LED \<noteq> 0 then bsp_led_indication L indicate else ret NRF_SUCCESS)"

subsection \<open>Initialisation and the events of the buttons\<close>

definition bsp_event_to_button_action_assign :: "u32 \<Rightarrow> u8 \<Rightarrow> bsp_event \<Rightarrow> ('w board_scheme, u32) prog" where
  "bsp_event_to_button_action_assign button action event =
     (if button < BUTTONS_NUMBER
      then let event = (if event = BSP_EVENT_DEFAULT
                        then if action = APP_BUTTON_PUSH then [BSP_EVENT_KEY_0, BSP_EVENT_KEY_1, BSP_EVENT_KEY_2, BSP_EVENT_KEY_3] ! unat button
                             else BSP_EVENT_NOTHING
                        else event);
               assign = (\<lambda>f. andthen (modify (\<lambda>s. s\<lparr>m_events_list := (m_events_list s)[unat button := f (m_events_list s ! unat button)]\<rparr>)) (ret NRF_SUCCESS))
           in if action = APP_BUTTON_PUSH then assign (\<lambda>c. c\<lparr>push_event := event\<rparr>)
              else if action = BSP_BUTTON_ACTION_LONG_PUSH then assign (\<lambda>c. c\<lparr>long_push_event := event\<rparr>)
              else if action = APP_BUTTON_RELEASE then assign (\<lambda>c. c\<lparr>release_event := event\<rparr>)
              else ret NRF_ERROR_INVALID_PARAM
      else ret NRF_ERROR_INVALID_PARAM)"

definition bsp_init :: "layout \<Rightarrow> u32 \<Rightarrow> u32 \<Rightarrow> fnptr \<Rightarrow> ('w board_scheme, u32) prog" where
  "bsp_init L type ticks_per_100ms callback =
     andthen (modify (\<lambda>s. s\<lparr>m_app_ticks_per_100ms := ticks_per_100ms, m_indication_type := type, m_registered_callback := callback\<rparr>))
    (bnd (if type AND BSP_INIT_BUTTONS \<noteq> 0
          then unless_error (bsp_event_to_button_action_assign 0 APP_BUTTON_PUSH BSP_EVENT_DEFAULT)
              (unless_error (bsp_event_to_button_action_assign 1 APP_BUTTON_PUSH BSP_EVENT_DEFAULT)
              (unless_error (bsp_event_to_button_action_assign 2 APP_BUTTON_PUSH BSP_EVENT_DEFAULT)
              (unless_error (bsp_event_to_button_action_assign 3 APP_BUTTON_PUSH BSP_EVENT_DEFAULT)
              (unless_error (app_button_init L (app_buttons L) (ucast BUTTONS_NUMBER) (ticks_per_100ms div 2))
              (unless_error app_button_enable
                (app_timer_create (Some (m_button_timer_id L)) Timer_single_shot (at_button_timer_handler L)))))))
          else ret NRF_SUCCESS) (\<lambda>err_code.
     andthen (if type AND BSP_INIT_LED \<noteq> 0 then bsp_board_leds_init else ret ())
       (unless_error (ret err_code)
       (unless_error (app_timer_create (Some (m_leds_timer_id L)) Timer_single_shot (at_leds_timer_handler L))
         (app_timer_create (Some (m_alert_timer_id L)) Timer_repeated (at_alert_timer_handler L))))))"

definition bsp_buttons_enable :: "('w board_scheme, u32) prog" where
  "bsp_buttons_enable = app_button_enable"

definition bsp_buttons_disable :: "layout \<Rightarrow> ('w board_scheme, u32) prog" where
  "bsp_buttons_disable L = app_button_disable L"

definition bsp_wakeup_button_enable :: "u32 \<Rightarrow> ('w board_scheme, u32) prog" where
  "bsp_wakeup_button_enable button_idx = bnd (gpio (Gpio_cfg_sense_set (bsp_board_button_idx_to_pin button_idx) NRF_GPIO_PIN_SENSE_LOW)) (\<lambda>_. ret NRF_SUCCESS)"

definition bsp_wakeup_button_disable :: "u32 \<Rightarrow> ('w board_scheme, u32) prog" where
  "bsp_wakeup_button_disable button_idx = bnd (gpio (Gpio_cfg_sense_set (bsp_board_button_idx_to_pin button_idx) NRF_GPIO_PIN_NOSENSE)) (\<lambda>_. ret NRF_SUCCESS)"

text \<open>What the application timer calls: the handler at an address.\<close>

definition board_timeouts :: "layout \<Rightarrow> 'w event_cb \<Rightarrow> fnptr \<Rightarrow> u32 \<Rightarrow> ('w board_scheme, unit) prog" where
  "board_timeouts L event_cb h ctx =
     (if h = at_detection_delay_timeout_handler L then detection_delay_timeout_handler (button_callback L event_cb)
      else if h = at_button_timer_handler L then button_timer_handler L event_cb
      else if h = at_leds_timer_handler L then leds_timer_handler L
      else if h = at_alert_timer_handler L then alert_timer_handler
      else ret ())"

subsection \<open>Buttons and links\<close>

definition NRF_ERROR_NOT_SUPPORTED :: u32 where "NRF_ERROR_NOT_SUPPORTED = 6"

text \<open>\<open>unless_other_error e f g\<close>: an early return of the code of \<open>f\<close> unless it is success or \<open>e\<close>, then \<open>g\<close>.\<close>

definition unless_other_error :: "u32 \<Rightarrow> ('s, u32) prog \<Rightarrow> ('s, u32) prog \<Rightarrow> ('s, u32) prog" where
  "unless_other_error e f g = bnd f (\<lambda>err_code. if err_code \<noteq> NRF_SUCCESS \<and> err_code \<noteq> e then ret err_code else g)"

definition connection_buttons_configure :: "('w board_scheme, u32) prog" where
  "connection_buttons_configure =
     unless_other_error NRF_ERROR_INVALID_PARAM (bsp_event_to_button_action_assign 0 APP_BUTTON_RELEASE BSP_EVENT_DEFAULT)
    (unless_other_error NRF_ERROR_INVALID_PARAM (bsp_event_to_button_action_assign 1 BSP_BUTTON_ACTION_LONG_PUSH BSP_EVENT_WHITELIST_OFF)
    (unless_other_error NRF_ERROR_INVALID_PARAM (bsp_event_to_button_action_assign 0 BSP_BUTTON_ACTION_LONG_PUSH BSP_EVENT_DISCONNECT) (ret NRF_SUCCESS)))"

definition advertising_buttons_configure :: "('w board_scheme, u32) prog" where
  "advertising_buttons_configure =
     unless_other_error NRF_ERROR_INVALID_PARAM (bsp_event_to_button_action_assign 0 BSP_BUTTON_ACTION_LONG_PUSH BSP_EVENT_DEFAULT)
    (unless_other_error NRF_ERROR_INVALID_PARAM (bsp_event_to_button_action_assign 1 BSP_BUTTON_ACTION_LONG_PUSH BSP_EVENT_WHITELIST_OFF)
    (unless_other_error NRF_ERROR_INVALID_PARAM (bsp_event_to_button_action_assign 0 APP_BUTTON_RELEASE BSP_EVENT_SLEEP) (ret NRF_SUCCESS)))"

definition startup_event_extract :: "('w board_scheme, bsp_event) prog" where
  "startup_event_extract =
     bnd (bsp_button_is_pressed 1) (\<lambda>bond_delete.
     if bond_delete then ret BSP_EVENT_CLEAR_BONDING_DATA
     else bnd (bsp_button_is_pressed 0) (\<lambda>wakeup. if wakeup then ret BSP_EVENT_WAKEUP else ret BSP_EVENT_NOTHING))"

definition bsp_btn_ble_sleep_mode_prepare :: "('w board_scheme, u32) prog" where
  "bsp_btn_ble_sleep_mode_prepare =
     unless_other_error NRF_ERROR_NOT_SUPPORTED (bsp_wakeup_button_enable 0) (unless_other_error NRF_ERROR_NOT_SUPPORTED (bsp_wakeup_button_enable 1) (ret NRF_SUCCESS))"

definition call_handler_on_error :: "'w error_cb \<Rightarrow> u32 \<Rightarrow> ('w board_scheme, unit) prog" where
  "call_handler_on_error error_cb err_code =
     bnd (gets m_error_handler) (\<lambda>handler. if err_code \<noteq> NRF_SUCCESS \<and> handler \<noteq> NULL then error_cb handler err_code else ret ())"

definition bsp_btn_ble_on_ble_evt :: "'w error_cb \<Rightarrow> ble_evt \<Rightarrow> ('w board_scheme, unit) prog" where
  "bsp_btn_ble_on_ble_evt error_cb p_ble_evt =
     (case p_ble_evt of
        BLE_GAP_EVT_CONNECTED _ _ _ \<Rightarrow>
          bnd (gets m_num_connections) (\<lambda>n.
          andthen (if n = 0 then bnd connection_buttons_configure (call_handler_on_error error_cb) else ret ())
            (modify (\<lambda>s. s\<lparr>m_num_connections := m_num_connections s + 1\<rparr>)))
      | BLE_GAP_EVT_DISCONNECTED _ _ \<Rightarrow>
          andthen (modify (\<lambda>s. s\<lparr>m_num_connections := m_num_connections s - 1\<rparr>))
         (bnd (gets m_num_connections) (\<lambda>n.
          if n = 0 then bnd advertising_buttons_configure (call_handler_on_error error_cb) else ret ()))
      | _ \<Rightarrow> ret ())"

definition bsp_btn_ble_init :: "fnptr \<Rightarrow> bool \<Rightarrow> ('w board_scheme, u32 \<times> bsp_event option) prog" where
  "bsp_btn_ble_init error_handler wants_event =
     andthen (modify (\<lambda>s. s\<lparr>m_error_handler := error_handler\<rparr>))
    (bnd (if wants_event then bnd startup_event_extract (\<lambda>e. ret (Some e)) else ret None) (\<lambda>startup.
     bnd (gets m_num_connections) (\<lambda>n.
     bnd (if n = 0 then advertising_buttons_configure else ret NRF_SUCCESS) (\<lambda>err_code. ret (err_code, startup)))))"

text \<open>\<^verbatim>\<open>buttons_leds_init\<close> of \<^verbatim>\<open>main.c\<close>, with its check of the first code.\<close>

definition buttons_leds_setup :: "layout \<Rightarrow> fnptr \<Rightarrow> ('w board_scheme, unit) prog" where
  "buttons_leds_setup L handler =
     bnd (bsp_init L (BSP_INIT_LED OR BSP_INIT_BUTTONS) 3277 handler) (\<lambda>err_code.
     andthen (APP_ERROR_CHECK err_code)
    (bnd (bsp_event_to_button_action_assign 0 APP_BUTTON_PUSH BSP_EVENT_CLEAR_ALERT) (\<lambda>_.
     bnd (bsp_event_to_button_action_assign 0 BSP_BUTTON_ACTION_LONG_PUSH BSP_EVENT_BOND) (\<lambda>_. ret ()))))"

end
