(* ===== verification/BoardRuns.thy ===== *)
theory BoardRuns
  imports Bsp TimerRuns
begin

text \<open>
  Runs of the board support: the interrupts of the pins, of the counter and of the application timer, events of the radio stack
  and indications, in any order. The application's event handler is replaced by one that writes down what it is told. The first lemmas
  are frames: what the timer's functions leave alone.
\<close>

unbundle bit_operations_syntax

subsection \<open>Frames\<close>

text \<open>No function of the application timer touches what its user keeps, except through the user's handlers.\<close>

named_theorems timer_frames \<open>what the application timer leaves alone\<close>

lemma more_modify: "(\<And>s. timers.more (f s) = timers.more s) \<Longrightarrow> keeps (\<lambda>s. Q (timers.more s)) (modify f)"
  by (rule keeps_modify) simp

lemma access_more [simp]: "timers.more (access as s) = timers.more s"
  by (simp add: access_def)

lemma put_node_more [simp]: "timers.more (put_node p f s) = timers.more s"
  by (simp add: put_node_def)

lemma option_keeps [keeps_intros]: "keeps P f \<Longrightarrow> (\<And>x. keeps P (g x)) \<Longrightarrow> keeps P (case v of None \<Rightarrow> f | Some x \<Rightarrow> g x)"
  by (cases v) simp_all

lemma prod_keeps [keeps_intros]: "(\<And>x y. keeps P (f x y)) \<Longrightarrow> keeps P (case p of (x, y) \<Rightarrow> f x y)"
  by (cases p) simp

lemma let_keeps [keeps_intros]: "(\<And>x. keeps P (f x)) \<Longrightarrow> keeps P (let x = v in f x)"
  by simp

lemma start_more [timer_frames]: "keeps (\<lambda>s. Q (timers.more s)) (app_timer_start p t c)"
  unfolding app_timer_start_def timer_start_op_schedule_def rtc1_counter_get_def timer_list_handler_sched_def
  by (rule keepsI) (auto simp: bnd_run andthen_run put_op_at_def user_op_enque_def Let_def split: option.splits)

lemma stop_more [timer_frames]: "keeps (\<lambda>s. Q (timers.more s)) (app_timer_stop p)"
  unfolding app_timer_stop_def timer_stop_op_schedule_def timer_list_handler_sched_def
  by (rule keepsI) (auto simp: bnd_run andthen_run put_op_at_def user_op_enque_def Let_def split: option.splits)

lemma create_more [timer_frames]: "keeps (\<lambda>s. Q (timers.more s)) (app_timer_create p mode h)"
  unfolding app_timer_create_def
  by (rule keepsI) (auto simp: bnd_run andthen_run split: option.splits)

lemma loop_more: "keeps (\<lambda>s. Q (timers.more s)) (timer_list_insert n p)" "keeps (\<lambda>s. Q (timers.more s)) (timer_list_remove n p)"
    "keeps (\<lambda>s. Q (timers.more s)) (stop_all_loop n)"
proof -
  show "keeps (\<lambda>s. Q (timers.more s)) (timer_list_insert n p)" "keeps (\<lambda>s. Q (timers.more s)) (timer_list_remove n p)"
    unfolding timer_list_insert_def timer_list_remove_def by (intro keeps_intros more_modify; simp add: Let_def)+
  show "keeps (\<lambda>s. Q (timers.more s)) (stop_all_loop n)"
  proof (induction n)
    case (Suc n)
    show ?case
      unfolding stop_all_loop.simps by (intro keeps_intros more_modify Suc; simp)
  qed (simp only: stop_all_loop.simps keeps_hang)
qed

lemma deletions_more: "keeps (\<lambda>s. Q (timers.more s)) (deletions_loop m n i)"
proof (induction n arbitrary: i)
  case (Suc n)
  have "keeps (\<lambda>s. Q (timers.more s)) (case op_type op of TIMER_USER_OP_TYPE_STOP \<Rightarrow> timer_list_remove m (op_node op)
      | TIMER_USER_OP_TYPE_STOP_ALL \<Rightarrow> stop_all_loop m | _ \<Rightarrow> ret ())" for op
    by (cases "op_type op") (simp_all add: loop_more keeps_ret)
  then show ?case
    unfolding deletions_loop.simps by (intro keeps_intros Suc)
qed (simp only: deletions_loop.simps keeps_hang)

lemma expired_own: "keeps (\<lambda>s. Q (timers.more s)) (expired_loop n e tp te r)"
proof (induction n arbitrary: e te r)
  case (Suc n)
  show ?case
    unfolding expired_loop.simps by (intro keeps_intros more_modify Suc; simp)
qed (simp only: expired_loop.simps keeps_hang)

lemma prepared_more: "keeps (\<lambda>s. Q (timers.more s)) (timer_insert_prepared n p)"
  unfolding timer_insert_prepared_def by (intro keeps_intros more_modify loop_more) simp

lemma insertions_more: "keeps (\<lambda>s. Q (timers.more s)) (insertions_loop m n r)"
proof (induction n arbitrary: r)
  case (Suc n)
  show ?case
    unfolding insertions_loop.simps by (intro keeps_intros more_modify Suc prepared_more; simp)
qed (simp only: insertions_loop.simps keeps_hang)

lemma counter_more: "keeps (\<lambda>s. Q (timers.more s)) rtc1_counter_get"
  by (rule keepsI) (simp add: rtc1_counter_get_def)

lemma compare_more: "keeps (\<lambda>s. Q (timers.more s)) compare_reg_update"
  unfolding compare_reg_update_def rtc1_start_def rtc1_stop_def rtc1_compare0_set_def timer_timeouts_check_sched_def
  by (intro keeps_intros more_modify counter_more; simp)

lemma swi_more [timer_frames]: "keeps (\<lambda>s. Q (timers.more s)) (SWI_IRQHandler n)"
proof -
  have "keeps (\<lambda>s. Q (timers.more s)) elapsed_ticks_acquire"
    by (rule keepsI) (simp add: elapsed_ticks_acquire_def Let_def)
  then show ?thesis
    unfolding SWI_IRQHandler_def timer_list_handler_def list_deletions_handler_def expired_timers_handler_def list_insertions_handler_def
    by (intro keeps_intros more_modify deletions_more expired_own insertions_more compare_more; simp)
qed

text \<open>The interrupt of the counter does to them what the time-out handlers do.\<close>

lemma rtc_more:
  assumes cb: "\<And>h c. keeps (\<lambda>s. Q (timers.more s)) (cb h c)" and sched: "\<And>f h c. keeps (\<lambda>s. Q (timers.more s)) (sched f h c)"
  shows "keeps (\<lambda>s. Q (timers.more s)) (RTC1_IRQHandler cb sched n)"
proof -
  have check: "keeps (\<lambda>s. Q (timers.more s)) (APP_ERROR_CHECK e)" for e
    by (rule keepsI) (simp add: APP_ERROR_CHECK_run)
  have loop: "keeps (\<lambda>s. Q (timers.more s)) (timeouts_loop cb sched n p e x)" for n p e x
  proof (induction n arbitrary: p e x)
    case (Suc n)
    show ?case
      unfolding timeouts_loop.simps timeout_handler_exec_def by (intro keeps_intros more_modify cb sched check Suc; simp)
  qed (simp only: timeouts_loop.simps keeps_hang)
  show ?thesis
    unfolding RTC1_IRQHandler_def timer_timeouts_check_def timer_list_handler_sched_def
    by (intro keeps_intros more_modify loop counter_more; simp add: ticks_expired_queue_def Let_def)
qed

subsection \<open>What the application is told\<close>

record ear = board +
  heard :: "bsp_event list"
  reported :: "(u8 \<times> u8) list"

definition hear :: "fnptr \<Rightarrow> bsp_event \<Rightarrow> (ear, unit) prog" where
  "hear h event = modify (\<lambda>s. s\<lparr>heard := heard s @ [event]\<rparr>)"

definition no_error_cb :: "fnptr \<Rightarrow> u32 \<Rightarrow> (ear, unit) prog" where
  "no_error_cb h e = ret ()"

definition no_schedule :: "fnptr \<Rightarrow> fnptr \<Rightarrow> u32 \<Rightarrow> (ear, u32) prog" where
  "no_schedule f h c = ret NRF_SUCCESS"

inductive board_step :: "layout \<Rightarrow> ear \<Rightarrow> ear \<Rightarrow> bool" for L where
  edge: "gpiote_event_handler L pin s = (x, s') \<Longrightarrow> board_step L s s'"
| counter: "RTC1_IRQHandler (board_timeouts L hear) no_schedule n s = (x, s') \<Longrightarrow> board_step L s s'"
| software: "SWI_IRQHandler n s = (x, s') \<Longrightarrow> board_step L s s'"
| stack: "bsp_btn_ble_on_ble_evt no_error_cb p_ble_evt s = (x, s') \<Longrightarrow> board_step L s s'"
| indication: "bsp_indication_set L indicate s = (e, s') \<Longrightarrow> board_step L s s'"

text \<open>
  \<open>silent N h hs\<close>: only a long push of a button of \<open>N\<close> means \<^verbatim>\<open>BSP_EVENT_BOND\<close>, and if there is none the application has been told of
  it \<open>hs\<close>, that is, not again.
\<close>

definition silent :: "nat set \<Rightarrow> fnptr \<Rightarrow> bsp_event list \<Rightarrow> ear \<Rightarrow> bool" where
  "silent N h hs s \<longleftrightarrow> length (m_events_list s) = 4 \<and> m_registered_callback s = h
     \<and> (\<forall>i < 4. push_event (m_events_list s ! i) \<noteq> BSP_EVENT_BOND \<and> release_event (m_events_list s ! i) \<noteq> BSP_EVENT_BOND
          \<and> (i \<notin> N \<longrightarrow> long_push_event (m_events_list s ! i) \<noteq> BSP_EVENT_BOND))
     \<and> (N = {} \<longrightarrow> filter (\<lambda>e. e = BSP_EVENT_BOND) (heard s) = hs)"

lemma silent_cong: "m_events_list s' = m_events_list s \<Longrightarrow> heard s' = heard s \<Longrightarrow> m_registered_callback s' = m_registered_callback s \<Longrightarrow> silent N h hs s' = silent N h hs s"
  by (simp add: silent_def)

lemma silent_modify: "(\<And>s. m_events_list (f s) = m_events_list s \<and> heard (f s) = heard s \<and> m_registered_callback (f s) = m_registered_callback s) \<Longrightarrow> keeps (silent N h hs) (modify f)"
  using silent_cong by (intro keeps_modify) blast

lemma silent_own: obtains Q where "silent N h hs = (\<lambda>s. Q (timers.more s))"
proof
  show "silent N h hs = (\<lambda>s. (\<lambda>r. silent N h hs (undefined\<lparr>timers.more := r\<rparr>)) (timers.more s))"
  proof
    fix s :: ear
    have "m_events_list (t\<lparr>timers.more := timers.more s\<rparr>) = m_events_list s \<and> heard (t\<lparr>timers.more := timers.more s\<rparr>) = heard s
        \<and> m_registered_callback (t\<lparr>timers.more := timers.more s\<rparr>) = m_registered_callback s" for t
      by (cases s; cases t) simp
    then show "silent N h hs s = (\<lambda>r. silent N h hs (undefined\<lparr>timers.more := r\<rparr>)) (timers.more s)"
      using silent_cong by blast
  qed
qed

lemma silent_timers [keeps_intros]:
  "keeps (silent N h hs) (app_timer_start p t c)" "keeps (silent N h hs) (app_timer_stop p)" "keeps (silent N h hs) (app_timer_create p' mode a)"
  "keeps (silent N h hs) (SWI_IRQHandler n)"
proof -
  obtain Q where Q: "silent N h hs = (\<lambda>s. Q (timers.more s))"
    by (rule silent_own)
  show "keeps (silent N h hs) (app_timer_start p t c)" "keeps (silent N h hs) (app_timer_stop p)" "keeps (silent N h hs) (app_timer_create p' mode a)"
      "keeps (silent N h hs) (SWI_IRQHandler n)"
    unfolding Q by (rule timer_frames)+
qed

lemma silent_rtc:
  assumes "\<And>a c. keeps (silent N h hs) (cb a c)"
  shows "keeps (silent N h hs) (RTC1_IRQHandler cb no_schedule n)"
proof -
  obtain Q where Q: "silent N h hs = (\<lambda>s. Q (timers.more s))"
    by (rule silent_own)
  show ?thesis
    unfolding Q no_schedule_def by (intro rtc_more keeps_ret) (rule assms [unfolded Q])
qed

lemma silent_gpio [keeps_intros]: "keeps (silent N h hs) (gpio a)"
  by (rule keepsI) (simp add: gpio_def silent_def)

lemma silent_unless [keeps_intros]: "keeps P f \<Longrightarrow> keeps P g \<Longrightarrow> keeps P (unless_error f g)" "keeps P f \<Longrightarrow> keeps P g \<Longrightarrow> keeps P (unless_other_error e f g)"
  unfolding unless_error_def unless_other_error_def by (intro keeps_intros; assumption)+

text \<open>Assigning another event keeps it; assigning one to the long push of the first button ends it.\<close>

lemma silent_put:
  assumes "silent N h hs s" and "push_event c \<noteq> BSP_EVENT_BOND" and "release_event c \<noteq> BSP_EVENT_BOND" and "k \<notin> N \<Longrightarrow> long_push_event c \<noteq> BSP_EVENT_BOND"
  shows "silent N h hs (s\<lparr>m_events_list := (m_events_list s)[k := c]\<rparr>)"
proof -
  have s: "length (m_events_list s) = 4" "m_registered_callback s = h" "N = {} \<longrightarrow> filter (\<lambda>e. e = BSP_EVENT_BOND) (heard s) = hs"
    and old: "i < 4 \<Longrightarrow> push_event (m_events_list s ! i) \<noteq> BSP_EVENT_BOND \<and> release_event (m_events_list s ! i) \<noteq> BSP_EVENT_BOND
      \<and> (i \<notin> N \<longrightarrow> long_push_event (m_events_list s ! i) \<noteq> BSP_EVENT_BOND)" for i
    using assms(1) unfolding silent_def by blast+
  have "push_event ((m_events_list s)[k := c] ! i) \<noteq> BSP_EVENT_BOND \<and> release_event ((m_events_list s)[k := c] ! i) \<noteq> BSP_EVENT_BOND
      \<and> (i \<notin> N \<longrightarrow> long_push_event ((m_events_list s)[k := c] ! i) \<noteq> BSP_EVENT_BOND)" if "i < 4" for i
    using old [OF that] assms(2-4) s(1) that by (cases "i = k") simp_all
  then show ?thesis
    using s by (simp add: silent_def)
qed

lemma button_cases: "button < BUTTONS_NUMBER \<Longrightarrow> unat button \<in> {0, 1, 2, 3}"
  by (auto simp: BUTTONS_NUMBER_def word_less_nat_alt)

lemma silent_assign:
  assumes "event \<noteq> BSP_EVENT_BOND"
  shows "keeps (silent N h hs) (bsp_event_to_button_action_assign button action event)"
proof (rule keepsI)
  fix s
  assume s: "silent N h hs s"
  show "silent N h hs (snd (bsp_event_to_button_action_assign button action event s))"
  proof (cases "button < BUTTONS_NUMBER")
    case True
    obtain e where e: "e = (if event = BSP_EVENT_DEFAULT then if action = APP_BUTTON_PUSH then [BSP_EVENT_KEY_0, BSP_EVENT_KEY_1, BSP_EVENT_KEY_2, BSP_EVENT_KEY_3] ! unat button
      else BSP_EVENT_NOTHING else event)" "e \<noteq> BSP_EVENT_BOND"
      using assms button_cases [OF True] by auto
    have old: "push_event (m_events_list s ! unat button) \<noteq> BSP_EVENT_BOND" "release_event (m_events_list s ! unat button) \<noteq> BSP_EVENT_BOND"
        "unat button \<notin> N \<Longrightarrow> long_push_event (m_events_list s ! unat button) \<noteq> BSP_EVENT_BOND"
      using s button_cases [OF True] by (auto simp: silent_def)
    show ?thesis
      using s True old e(2) unfolding bsp_event_to_button_action_assign_def Let_def e(1) [symmetric] by (simp add: andthen_run silent_put)
  qed (use s in \<open>simp add: bsp_event_to_button_action_assign_def\<close>)
qed

lemma silent_connection: "keeps (silent N h hs) connection_buttons_configure" "keeps (silent N h hs) advertising_buttons_configure"
  unfolding connection_buttons_configure_def advertising_buttons_configure_def by (intro keeps_intros silent_assign; simp)+

lemma silent_fold [keeps_intros]: "(\<And>x. keeps P (f x)) \<Longrightarrow> keeps P (fold (\<lambda>x g. bnd g (\<lambda>_. bnd (f x) (\<lambda>_. ret v))) xs (ret v))"
proof (induction xs rule: rev_induct)
  case (snoc x xs)
  then show ?case
    unfolding fold_append comp_apply fold_simps by (intro keeps_intros snoc)
qed (simp only: fold_simps keeps_ret)

lemma silent_leds: "keeps (silent N h hs) (bsp_board_led_on i)" "keeps (silent N h hs) (bsp_board_led_off i)" "keeps (silent N h hs) (bsp_board_led_invert i)"
    "keeps (silent N h hs) bsp_board_leds_on" "keeps (silent N h hs) bsp_board_leds_off" "keeps (silent N h hs) (bsp_board_led_state_get i)"
  unfolding bsp_board_leds_on_def bsp_board_leds_off_def bsp_board_led_on_def bsp_board_led_off_def bsp_board_led_invert_def bsp_board_led_state_get_def
  by (intro keeps_intros silent_modify; simp)+

lemma silent_indication: "keeps (silent N h hs) (bsp_led_indication L indicate)"
proof -
  note parts = led_blink_def led_flash_def stable_def led_alert_def Let_def
  have "keeps (silent N h hs) (led_blink L i a b)" "keeps (silent N h hs) (led_flash L a)" "keeps (silent N h hs) (led_alert L i)"
      "keeps (silent N h hs) f \<Longrightarrow> keeps (silent N h hs) (stable i f)" for i a b and f :: "(ear, unit) prog"
    unfolding parts by (intro keeps_intros silent_leds silent_modify; simp)+
  note parts = this
  show ?thesis
    unfolding bsp_led_indication_def
    by (cases indicate; simp only: bsp_indication.case) (intro keeps_intros silent_leds silent_modify parts; simp)+
qed

text \<open>The events of the buttons, as long as none of them means \<^verbatim>\<open>BSP_EVENT_BOND\<close>.\<close>

lemma silent_hear: "(N = {} \<Longrightarrow> e \<noteq> BSP_EVENT_BOND) \<Longrightarrow> keeps (silent N h hs) (hear a e)"
  unfolding hear_def by (rule keepsI) (auto simp: silent_def)

text \<open>\<open>yields P f R\<close>: \<open>f\<close> keeps \<open>P\<close>, and what it returns has \<open>R\<close>.\<close>

definition yields :: "('s \<Rightarrow> bool) \<Rightarrow> ('s, 'a) prog \<Rightarrow> ('a \<Rightarrow> bool) \<Rightarrow> bool" where
  "yields P f R \<longleftrightarrow> (\<forall>s. P s \<longrightarrow> P (snd (f s)) \<and> (\<forall>x. fst (f s) = Ret x \<longrightarrow> R x))"

lemma yields_bnd: "keeps P f \<Longrightarrow> (\<And>x. yields P (g x) R) \<Longrightarrow> yields P (bnd f g) R"
  by (auto simp: yields_def keeps_def bnd_def split: prod.splits outcome.splits)

lemma yields_andthen: "keeps P f \<Longrightarrow> yields P g R \<Longrightarrow> yields P (andthen f g) R"
  by (simp add: andthen_def yields_bnd)

lemma yields_read: "(\<And>s. P s \<Longrightarrow> yields P (g (h s)) R) \<Longrightarrow> yields P (bnd (gets h) g) R"
  by (auto simp: yields_def bnd_run)

lemma yields_gets: "(\<And>s. P s \<Longrightarrow> R (h s)) \<Longrightarrow> yields P (gets h) R"
  by (simp add: yields_def)

lemma yields_ret: "R x \<Longrightarrow> yields P (ret x) R"
  by (simp add: yields_def)

lemma yields_if: "(b \<Longrightarrow> yields P f R) \<Longrightarrow> (\<not> b \<Longrightarrow> yields P g R) \<Longrightarrow> yields P (if b then f else g) R"
  by simp

lemma yields_then: "yields P f R \<Longrightarrow> (\<And>x. R x \<Longrightarrow> keeps P (g x)) \<Longrightarrow> keeps P (bnd f g)"
  by (auto simp: yields_def keeps_def bnd_def split: prod.splits outcome.splits)

lemma silent_button_event:
  assumes "i < 4"
  shows "yields (silent N h hs) (button_event L pin i action) (\<lambda>e. N = {} \<longrightarrow> e \<noteq> BSP_EVENT_BOND)"
proof -
  have "\<forall>s. silent N h hs s \<longrightarrow> N = {} \<longrightarrow> push_event (m_events_list s ! i) \<noteq> BSP_EVENT_BOND \<and> release_event (m_events_list s ! i) \<noteq> BSP_EVENT_BOND
      \<and> long_push_event (m_events_list s ! i) \<noteq> BSP_EVENT_BOND"
    using assms by (simp add: silent_def)
  note cfg = this
  show ?thesis
    unfolding button_event_def
    by (intro yields_read yields_andthen yields_if yields_bnd yields_gets yields_ret keeps_intros silent_modify; (use cfg in auto)?)
qed

lemma silent_event: "keeps (silent N h hs) (bsp_button_event_handler L hear pin button_action)"
proof -
  let ?b = "bsp_board_pin_to_button_idx (ucast pin)"
  have "yields (silent N h hs) (if ?b < BUTTONS_NUMBER then button_event L pin (unat ?b) button_action else ret BSP_EVENT_NOTHING)
      (\<lambda>e. N = {} \<longrightarrow> e \<noteq> BSP_EVENT_BOND)"
    by (intro yields_if yields_ret silent_button_event) (auto dest: button_cases)
  then show ?thesis
    unfolding bsp_button_event_handler_def Let_def by (rule yields_then) (intro keeps_intros silent_hear; simp)
qed

lemma silent_buttons: "keeps (silent N h hs) (detection_delay_timeout_handler (button_callback L hear))"
proof -
  have cb: "keeps (silent N h hs) (button_callback L hear a pin action)" for a pin action
    unfolding button_callback_def by (intro keeps_intros silent_event)
  have one: "keeps (silent N h hs) (button_detected (button_callback L hear) p_btn)" for p_btn
    unfolding button_detected_def Let_def by (intro keeps_intros silent_modify cb; simp)
  have "keeps (silent N h hs) (detection_loop (button_callback L hear) k i)" for k i
  proof (induction k arbitrary: i)
    case (Suc k)
    show ?case
      unfolding detection_loop.simps by (intro keeps_intros one Suc)
  qed (simp only: detection_loop.simps keeps_ret)
  then show ?thesis
    unfolding detection_delay_timeout_handler_def .
qed

lemma silent_timeouts: "keeps (silent N h hs) (board_timeouts L hear a c)"
  unfolding board_timeouts_def button_timer_handler_def leds_timer_handler_def alert_timer_handler_def
  by (intro keeps_intros silent_buttons silent_event silent_leds silent_indication)

lemma silent_stack: "keeps (silent N h hs) (bsp_btn_ble_on_ble_evt no_error_cb p_ble_evt)"
  unfolding bsp_btn_ble_on_ble_evt_def call_handler_on_error_def no_error_cb_def
  by (cases p_ble_evt; simp only: ble_evt.case) (intro keeps_intros silent_modify silent_connection; simp)+

lemma silent_snd: "keeps (silent N h hs) f \<Longrightarrow> silent N h hs s \<Longrightarrow> f s = (x, s') \<Longrightarrow> silent N h hs s'"
  using keepsD [of "silent N h hs" f s] by simp

lemma silent_step:
  assumes "board_step L s s'" and "silent N h hs s"
  shows "silent N h hs s'"
  using assms(1)
proof cases
  case (edge pin x)
  have "keeps (silent N h hs) (gpiote_event_handler L pin)"
    unfolding gpiote_event_handler_def Let_def by (intro keeps_intros silent_modify; simp)
  then show ?thesis
    using silent_snd [OF _ assms(2)] edge by blast
next
  case (counter n x)
  then show ?thesis
    using silent_snd [OF silent_rtc assms(2)] silent_timeouts by blast
next
  case (software n x)
  then show ?thesis
    using silent_snd [OF silent_timers(4) assms(2)] by blast
next
  case (stack p_ble_evt x)
  then show ?thesis
    using silent_snd [OF silent_stack assms(2)] by blast
next
  case (indication indicate e)
  have "keeps (silent N h hs) (bsp_indication_set L indicate)"
    unfolding bsp_indication_set_def by (intro keeps_intros silent_indication)
  then show ?thesis
    using silent_snd [OF _ assms(2)] indication by blast
qed

lemma silent_run: "rtranclp (board_step L) s s' \<Longrightarrow> silent N h hs s \<Longrightarrow> silent N h hs s'"
  by (induction rule: rtranclp_induct) (blast intro: silent_step)+

end
