(* ===== verification/BoardProps.thy ===== *)
theory BoardProps
  imports BoardRuns
begin

text \<open>
  The long push that is to start pairing: what it does after the initialisation, and after the first connection.
\<close>

unbundle bit_operations_syntax

subsection \<open>The long push of the first button\<close>

text \<open>The state after \<^verbatim>\<open>buttons_leds_init\<close>: only the long push of the first button means \<^verbatim>\<open>BSP_EVENT_BOND\<close>.\<close>

lemma keeps_after: "P s \<Longrightarrow> (\<And>s. P s \<Longrightarrow> Q (f s)) \<Longrightarrow> keeps Q g \<Longrightarrow> Q (snd (andthen (modify f) g s))"
  using keepsD [of Q g "f s"] by (simp add: andthen_run)

lemma init_silent:
  assumes "silent {} h0 hs s"
  shows "silent {} h hs (snd (bsp_init L type ticks h s))"
proof -
  have assign: "keeps (silent {} h hs) (bsp_event_to_button_action_assign b a BSP_EVENT_DEFAULT)" for b a
    by (rule silent_assign) simp
  have inits: "keeps (silent {} h hs) (button_inits bs)" for bs
  proof (induction bs)
    case (Cons b bs)
    show ?case
      unfolding button_inits.simps by (intro keeps_intros Cons)
  qed (simp only: button_inits.simps keeps_ret)
  show ?thesis
    unfolding bsp_init_def app_button_init_def app_button_enable_def bsp_board_leds_init_def
  proof (rule keeps_after [where P = "silent {} h0 hs", OF assms])
    show "silent {} h0 hs s \<Longrightarrow> silent {} h hs (s\<lparr>m_app_ticks_per_100ms := ticks, m_indication_type := type, m_registered_callback := h\<rparr>)" for s
      by (simp add: silent_def)
  qed (intro keeps_intros silent_modify assign inits silent_leds; simp)
qed

lemma assign_run [simp]:
  "bsp_event_to_button_action_assign 0 APP_BUTTON_PUSH BSP_EVENT_CLEAR_ALERT s
     = (Ret NRF_SUCCESS, s\<lparr>m_events_list := (m_events_list s)[0 := (m_events_list s ! 0)\<lparr>push_event := BSP_EVENT_CLEAR_ALERT\<rparr>]\<rparr>)"
  "event \<noteq> BSP_EVENT_DEFAULT \<Longrightarrow> bsp_event_to_button_action_assign 0 BSP_BUTTON_ACTION_LONG_PUSH event s
     = (Ret NRF_SUCCESS, s\<lparr>m_events_list := (m_events_list s)[0 := (m_events_list s ! 0)\<lparr>long_push_event := event\<rparr>]\<rparr>)"
  by (simp_all add: bsp_event_to_button_action_assign_def BUTTONS_NUMBER_def andthen_run APP_BUTTON_PUSH_def BSP_BUTTON_ACTION_LONG_PUSH_def)

lemma setup_events:
  assumes "buttons_leds_setup L h s0 = (Ret (), s1)" and "silent {} h0 hs s0"
  shows "silent {0} h hs s1 \<and> long_push_event (m_events_list s1 ! 0) = BSP_EVENT_BOND"
proof -
  let ?s = "snd (bsp_init L (BSP_INIT_LED OR BSP_INIT_BUTTONS) 3277 h s0)"
  have s: "silent {} h hs ?s"
    using assms(2) by (rule init_silent)
  have "s1 = ?s\<lparr>m_events_list := (m_events_list ?s)[0 := (m_events_list ?s ! 0)\<lparr>push_event := BSP_EVENT_CLEAR_ALERT, long_push_event := BSP_EVENT_BOND\<rparr>]\<rparr>"
    using assms(1) s unfolding buttons_leds_setup_def
    by (auto simp: bnd_run andthen_run APP_ERROR_CHECK_run silent_def split: prod.splits outcome.splits if_splits)
  then show ?thesis
    using s by (simp add: silent_def nth_list_update)
qed

text \<open>When the first link is up the long push of the first button gets another event.\<close>

lemma silent_ends:
  assumes "silent {0} h hs s" and "c \<noteq> BSP_EVENT_BOND"
  shows "silent {} h (filter (\<lambda>e. e = BSP_EVENT_BOND) (heard s)) (s\<lparr>m_events_list := (m_events_list s)[0 := (m_events_list s ! 0)\<lparr>long_push_event := c\<rparr>]\<rparr>)"
  using assms unfolding silent_def by (simp add: nth_list_update)

lemma connected_silent:
  assumes "bsp_btn_ble_on_ble_evt no_error_cb (BLE_GAP_EVT_CONNECTED a b c) s = (x, s')" and "silent {0} h hs s" and "m_num_connections s = 0"
  shows "silent {} h (filter (\<lambda>e. e = BSP_EVENT_BOND) (heard s')) s'"
proof -
  let ?f = "unless_other_error NRF_ERROR_INVALID_PARAM (bsp_event_to_button_action_assign 1 BSP_BUTTON_ACTION_LONG_PUSH BSP_EVENT_WHITELIST_OFF)"
  obtain s1 where s1: "bsp_event_to_button_action_assign 0 APP_BUTTON_RELEASE BSP_EVENT_DEFAULT s = (Ret NRF_SUCCESS, s1)"
    by (simp add: bsp_event_to_button_action_assign_def BUTTONS_NUMBER_def andthen_run APP_BUTTON_PUSH_def APP_BUTTON_RELEASE_def BSP_BUTTON_ACTION_LONG_PUSH_def)
  obtain s2 where s2: "bsp_event_to_button_action_assign 1 BSP_BUTTON_ACTION_LONG_PUSH BSP_EVENT_WHITELIST_OFF s1 = (Ret NRF_SUCCESS, s2)"
    by (simp add: bsp_event_to_button_action_assign_def BUTTONS_NUMBER_def andthen_run APP_BUTTON_PUSH_def APP_BUTTON_RELEASE_def BSP_BUTTON_ACTION_LONG_PUSH_def)
  let ?s3 = "s2\<lparr>m_events_list := (m_events_list s2)[0 := (m_events_list s2 ! 0)\<lparr>long_push_event := BSP_EVENT_DISCONNECT\<rparr>]\<rparr>"
  have "silent {0} h hs s2"
    using silent_snd [OF silent_assign assms(2) s1] silent_snd [OF silent_assign _ s2] by simp
  then have "silent {} h (filter (\<lambda>e. e = BSP_EVENT_BOND) (heard s2)) ?s3"
    by (intro silent_ends) simp_all
  moreover have "s' = ?s3\<lparr>m_num_connections := m_num_connections s2 + 1\<rparr>"
    using assms(1,3) s1 s2
    by (simp add: bsp_btn_ble_on_ble_evt_def bnd_run andthen_run connection_buttons_configure_def unless_other_error_def call_handler_on_error_def)
  ultimately show ?thesis
    by (simp add: silent_def)
qed

text \<open>
  C3: After the first connection the button no longer starts pairing, until the next reset. \<^verbatim>\<open>buttons_leds_init\<close> gives the long push of the first
  button the event \<^verbatim>\<open>BSP_EVENT_BOND\<close>, and then such a push is reported as that. But \<^verbatim>\<open>main.c\<close> passes every event of the stack to
  \<^verbatim>\<open>bsp_btn_ble_on_ble_evt\<close>, although it does not call \<^verbatim>\<open>bsp_btn_ble_init\<close>, and with the first connection \<^verbatim>\<open>connection_buttons_configure\<close>
  overwrites it. From then on, whatever interrupts, stack events and indications come and whatever buttons are pushed, the application is never told of
  \<^verbatim>\<open>BSP_EVENT_BOND\<close> again: neither can it be made to bond again after the link was lost, nor can the alert of the peer be switched while it is connected.
\<close>

theorem bond_button_lost:
  assumes fresh: "m_events_list s0 = replicate 4 \<lparr>push_event = BSP_EVENT_NOTHING, long_push_event = BSP_EVENT_NOTHING, release_event = BSP_EVENT_NOTHING\<rparr>"
    and setup_ok: "buttons_leds_setup L h s0 = (Ret (), s1)" "h \<noteq> NULL"
    and early: "rtranclp (board_step L) s1 s2" "m_num_connections s2 = 0"
    and link: "bsp_btn_ble_on_ble_evt no_error_cb (BLE_GAP_EVT_CONNECTED a b c) s2 = (x, s3)"
    and later: "rtranclp (board_step L) s3 s4"
  shows "bsp_button_event_handler L hear 17 BSP_BUTTON_ACTION_LONG_PUSH s1 = (Ret (), s1\<lparr>heard := heard s1 @ [BSP_EVENT_BOND]\<rparr>)
    \<and> filter (\<lambda>e. e = BSP_EVENT_BOND) (heard s4) = filter (\<lambda>e. e = BSP_EVENT_BOND) (heard s3)"
proof -
  have "silent {} (m_registered_callback s0) (filter (\<lambda>e. e = BSP_EVENT_BOND) (heard s0)) s0"
    using fresh by (simp add: silent_def)
  note events = setup_events [OF setup_ok(1) this]
  have "bsp_board_pin_to_button_idx 17 = 0"
    by (simp add: bsp_board_pin_to_button_idx_def m_board_btn_list_def BUTTONS_NUMBER_def upt_rec)
  then have "bsp_button_event_handler L hear 17 BSP_BUTTON_ACTION_LONG_PUSH s1 = (Ret (), s1\<lparr>heard := heard s1 @ [BSP_EVENT_BOND]\<rparr>)"
    using events setup_ok(2)
    by (simp add: bsp_button_event_handler_def button_event_def bnd_run hear_def silent_def BUTTONS_NUMBER_def APP_BUTTON_PUSH_def APP_BUTTON_RELEASE_def
        BSP_BUTTON_ACTION_LONG_PUSH_def)
  moreover have "silent {} h (filter (\<lambda>e. e = BSP_EVENT_BOND) (heard s3)) s4"
    using silent_run [OF later] connected_silent [OF link _ early(2)] silent_run [OF early(1)] events by blast
  ultimately show ?thesis
    by (simp add: silent_def)
qed

definition demo_layout :: layout where
  "demo_layout = \<lparr>m_detection_delay_timer_id = 0x100, m_button_timer_id = 0x120, m_leds_timer_id = 0x140, m_alert_timer_id = 0x160,
     at_detection_delay_timeout_handler = 0x201, at_button_timer_handler = 0x211, at_leds_timer_handler = 0x221, at_alert_timer_handler = 0x231,
     at_bsp_button_event_handler = 0x241, at_current_long_push_pin_no = 0x180\<rparr>"

text \<open>A device after \<^verbatim>\<open>app_timer_init\<close>, all of whose pins are low.\<close>

definition demo_board :: ear where
  "demo_board =
     \<lparr>sd_env = sd_env demo_world, sd_trace = [], q_first = 0, q_last = 0, q_size = 5, p_user_op_queue = 64,
      user_ops = (\<lambda>_. \<lparr>op_type = TIMER_USER_OP_TYPE_NONE, op_node = 0, start_ticks = 0, start_first = 0, start_periodic = 0, start_context = 0\<rparr>),
      mp_timer_id_head = 0, m_ticks_latest = 0, m_ticks_elapsed = (\<lambda>_. 0), m_ticks_elapsed_q_read_ind = 0, m_ticks_elapsed_q_write_ind = 0,
      m_evt_schedule_func = 0, m_rtc1_running = False, m_rtc1_reset = False,
      nodes = (\<lambda>_. \<lparr>ticks_to_expire = 0, ticks_at_start = 0, ticks_first_interval = 0, ticks_periodic_interval = 0, is_running = False,
        timer_mode = Timer_single_shot, p_timeout_handler = 0, node_context = 0, next_node = 0\<rparr>),
      rtc_env = (\<lambda>_. 0), rtc_log = [], mp_buttons = [], m_button_count = 0, m_detection_delay = 0, m_pin_state = 0, m_pin_transition = 0,
      out_pins = (\<lambda>_. False), m_stable_state = BSP_INDICATE_IDLE, m_leds_clear = False, m_app_ticks_per_100ms = 0, m_indication_type = 0,
      m_registered_callback = 0,
      m_events_list = replicate 4 \<lparr>push_event = BSP_EVENT_NOTHING, long_push_event = BSP_EVENT_NOTHING, release_event = BSP_EVENT_NOTHING\<rparr>,
      current_long_push_pin_no = 0, release_event_at_push = replicate 4 BSP_EVENT_NOTHING, m_error_handler = 0, m_num_connections = 0,
      gpio_env = (\<lambda>_ _. 0), gpio_log = [], heard = [], reported = []\<rparr>"

lemma demo_setup: "fst (buttons_leds_setup demo_layout 0x301 demo_board) = Ret () \<and> m_num_connections (snd (buttons_leds_setup demo_layout 0x301 demo_board)) = 0"
  by (simp add: buttons_leds_setup_def bsp_init_def bnd_run andthen_run bsp_event_to_button_action_assign_def APP_BUTTON_PUSH_def BUTTONS_NUMBER_def
      unless_error_def app_button_init_def app_buttons_def m_board_btn_list_def gpio_def app_timer_create_def put_node_def
      app_button_enable_def bsp_board_leds_init_def m_board_led_list_def bsp_board_leds_off_def bsp_board_led_off_def demo_board_def demo_layout_def
      BSP_INIT_LED_def BSP_INIT_BUTTONS_def BSP_BUTTON_ACTION_LONG_PUSH_def APP_TIMER_MIN_TIMEOUT_TICKS_def module_initialized_def Let_def NRF_SUCCESS_def APP_ERROR_CHECK_def)

theorem bond_button_lost_witness:
  "\<exists>s1 s3 s4. buttons_leds_setup demo_layout 0x301 demo_board = (Ret (), s1)
    \<and> bsp_btn_ble_on_ble_evt no_error_cb (BLE_GAP_EVT_CONNECTED 0 BLE_GAP_ROLE_PERIPH \<lparr>min_conn_interval = 400, max_conn_interval = 400, slave_latency = 0, conn_sup_timeout = 400\<rparr>) s1 = (Ret (), s3)
    \<and> bsp_btn_ble_on_ble_evt no_error_cb (BLE_GAP_EVT_DISCONNECTED 0 0x13) s3 = (Ret (), s4)
    \<and> filter (\<lambda>e. e = BSP_EVENT_BOND) (heard s4) = filter (\<lambda>e. e = BSP_EVENT_BOND) (heard s3)"
proof -
  let ?s1 = "snd (buttons_leds_setup demo_layout 0x301 demo_board)"
  have s1: "buttons_leds_setup demo_layout 0x301 demo_board = (Ret (), ?s1)" "m_num_connections ?s1 = 0"
    using demo_setup by (simp_all add: prod_eq_iff)
  have run: "\<exists>s'. bsp_btn_ble_on_ble_evt no_error_cb e s = (Ret (), s')" for e s
    by (cases e) (simp_all add: bsp_btn_ble_on_ble_evt_def bnd_run andthen_run connection_buttons_configure_def advertising_buttons_configure_def
        unless_other_error_def call_handler_on_error_def bsp_event_to_button_action_assign_def BUTTONS_NUMBER_def APP_BUTTON_PUSH_def APP_BUTTON_RELEASE_def
        BSP_BUTTON_ACTION_LONG_PUSH_def no_error_cb_def)
  obtain s3 where s3: "bsp_btn_ble_on_ble_evt no_error_cb (BLE_GAP_EVT_CONNECTED 0 BLE_GAP_ROLE_PERIPH \<lparr>min_conn_interval = 400, max_conn_interval = 400, slave_latency = 0, conn_sup_timeout = 400\<rparr>) ?s1 = (Ret (), s3)"
    using run by blast
  obtain s4 where s4: "bsp_btn_ble_on_ble_evt no_error_cb (BLE_GAP_EVT_DISCONNECTED 0 0x13) s3 = (Ret (), s4)"
    using run by blast
  have "rtranclp (board_step demo_layout) s3 s4"
    using board_step.stack [OF s4] by blast
  then show ?thesis
    using bond_button_lost [OF _ s1(1) _ rtranclp.rtrancl_refl s1(2) s3] s1 s3 s4 by (auto simp: demo_board_def)
qed

end
