(* ===== verification/ButtonProps.thy ===== *)
theory ButtonProps
  imports BoardProps TimerProps
begin

text \<open>
  The debouncing of the buttons, \<^verbatim>\<open>app_button.c\<close>: what an edge and the time-out make of the pins that have changed, that together they report
  each push once, and that they do not when two buttons change at the same time. The buttons' handler is replaced by one that notes what it is
  called with.
\<close>

unbundle bit_operations_syntax

definition note_button :: "fnptr \<Rightarrow> u8 \<Rightarrow> u8 \<Rightarrow> (ear, unit) prog" where
  "note_button h pin action = modify (\<lambda>s. s\<lparr>reported := reported s @ [(pin, action)]\<rparr>)"

text \<open>One bit of a word.\<close>

lemma pending_bit: "n < LENGTH('a) \<Longrightarrow> (2 :: 'a::len word) ^ n AND x \<noteq> 0 \<longleftrightarrow> bit x n"
  unfolding bit_eq_iff [of "2 ^ n AND x" 0] by (auto simp: bit_and_iff bit_exp_iff possible_bit_def)

lemma level_bit: "n < LENGTH('a) \<Longrightarrow> x AND (2 :: 'a::len word) ^ n = (if v then 2 ^ n else 0) \<longleftrightarrow> bit x n = v"
  unfolding bit_eq_iff [of "x AND 2 ^ n"] by (cases v) (auto simp: bit_and_iff bit_exp_iff possible_bit_def)

lemma cleared_bit: "bit (x AND NOT ((2 :: 'a::len word) ^ n)) i \<longleftrightarrow> bit x i \<and> i \<noteq> n"
  by (auto simp: bit_and_iff bit_not_iff bit_exp_iff possible_bit_def dest: bit_imp_le_length)

lemma set_one_bit: "n < LENGTH('a) \<Longrightarrow> bit (x OR (2 :: 'a::len word) ^ n) i \<longleftrightarrow> bit x i \<or> i = n"
  by (auto simp: bit_or_iff bit_exp_iff possible_bit_def)

text \<open>The pins of the buttons that have changed, and how they are reported.\<close>

definition pending :: "u8 \<Rightarrow> ear \<Rightarrow> bool" where
  "pending pin s \<longleftrightarrow> bit (m_pin_transition s) (unat pin)"

definition held :: "u8 \<Rightarrow> ear \<Rightarrow> bool" where
  "held pin s \<longleftrightarrow> bit (m_pin_state s) (unat pin)"

definition levels :: "(u8 \<Rightarrow> bool) \<Rightarrow> ear \<Rightarrow> bool" where
  "levels level s \<longleftrightarrow> (\<forall>log pin. (gpio_env s log (Gpiote_in_is_set pin) \<noteq> 0) = level pin)"

definition button_report :: "(u8 \<Rightarrow> bool) \<Rightarrow> app_button_cfg \<Rightarrow> u8 \<times> u8" where
  "button_report level b = (pin_no b, if level (pin_no b) = active_state b then APP_BUTTON_PUSH else APP_BUTTON_RELEASE)"

lemma detected_run:
  assumes "pin_no b < 32" and "button_handler b \<noteq> NULL" and "levels level s"
  shows "\<exists>s'. button_detected note_button b s = (Ret (), s') \<and> mp_buttons s' = mp_buttons s \<and> m_button_count s' = m_button_count s \<and> levels level s'
    \<and> m_pin_state s' = m_pin_state s \<and> (\<forall>pin. pending pin s' \<longleftrightarrow> pending pin s \<and> pin \<noteq> pin_no b)
    \<and> reported s' = reported s @ (if pending (pin_no b) s \<and> held (pin_no b) s = level (pin_no b) then [button_report level b] else [])"
proof -
  let ?n = "unat (pin_no b)"
  let ?l = "level (pin_no b)"
  have n: "?n < LENGTH(32)"
    using assms(1) by (simp add: word_less_nat_alt)
  have other: "unat pin = ?n \<longleftrightarrow> pin = pin_no b" for pin
    by (simp add: word_unat_eq_iff)
  show ?thesis
  proof (cases "pending (pin_no b) s")
    case False
    then have "button_detected note_button b s = (Ret (), s)"
      using pending_bit [OF n, of "m_pin_transition s"] by (simp add: button_detected_def bnd_run pending_def Let_def)
    then show ?thesis
      using False assms(3) by auto
  next
    case True
    let ?s = "s\<lparr>m_pin_transition := m_pin_transition s AND NOT (2 ^ ?n), gpio_log := gpio_log s @ [Gpiote_in_is_set (pin_no b)]\<rparr>"
    have "gpio_env s (gpio_log s) (Gpiote_in_is_set (pin_no b)) \<noteq> 0 \<longleftrightarrow> ?l"
      using assms(3) by (simp add: levels_def)
    then have "button_detected note_button b s
        = (Ret (), if held (pin_no b) s = ?l then ?s\<lparr>reported := reported s @ [button_report level b]\<rparr> else ?s)"
      using True assms(2) pending_bit [OF n, of "m_pin_transition s"] level_bit [OF n, of "m_pin_state s" ?l]
      by (simp add: button_detected_def bnd_run andthen_run gpio_def Let_def pending_def held_def note_button_def button_report_def)
    then show ?thesis
      using True assms(3) by (auto simp: pending_def cleared_bit other levels_def)
  qed
qed

definition buttons_ok :: "ear \<Rightarrow> bool" where
  "buttons_ok s \<longleftrightarrow> unat (m_button_count s) = length (mp_buttons s) \<and> distinct (map pin_no (mp_buttons s))
     \<and> (\<forall>b \<in> set (mp_buttons s). pin_no b < 32 \<and> button_handler b \<noteq> NULL)"

lemma detection_run:
  assumes "buttons_ok s" and "levels level s" and "length (mp_buttons s) < k + i"
  shows "\<exists>s'. detection_loop note_button k i s = (Ret (), s')
    \<and> reported s' = reported s @ map (button_report level) (filter (\<lambda>b. pending (pin_no b) s \<and> held (pin_no b) s = level (pin_no b)) (drop i (mp_buttons s)))
    \<and> (\<forall>pin. pending pin s' \<longleftrightarrow> pending pin s \<and> pin \<notin> pin_no ` set (drop i (mp_buttons s)))"
  using assms
proof (induction k arbitrary: i s)
  case 0
  then show ?case
    by simp
next
  case (Suc k)
  show ?case
  proof (cases "i < length (mp_buttons s)")
    case False
    then show ?thesis
      using Suc.prems(1) by (simp add: bnd_run buttons_ok_def)
  next
    case True
    let ?b = "mp_buttons s ! i"
    have "?b \<in> set (mp_buttons s)"
      using True by simp
    then obtain s1 where s1: "button_detected note_button ?b s = (Ret (), s1)" "mp_buttons s1 = mp_buttons s" "m_button_count s1 = m_button_count s"
        "levels level s1" "m_pin_state s1 = m_pin_state s" "\<And>pin. pending pin s1 \<longleftrightarrow> pending pin s \<and> pin \<noteq> pin_no ?b"
        "reported s1 = reported s @ (if pending (pin_no ?b) s \<and> held (pin_no ?b) s = level (pin_no ?b) then [button_report level ?b] else [])"
      using detected_run [OF _ _ Suc.prems(2), of ?b] Suc.prems(1) unfolding buttons_ok_def by blast
    have "buttons_ok s1" "length (mp_buttons s1) < k + (i + 1)"
      using Suc.prems s1(2,3) by (simp_all add: buttons_ok_def)
    from Suc.IH [OF this(1) s1(4) this(2)]
    obtain s2 where s2: "detection_loop note_button k (i + 1) s1 = (Ret (), s2)"
        "reported s2 = reported s1 @ map (button_report level) (filter (\<lambda>b. pending (pin_no b) s1 \<and> held (pin_no b) s1 = level (pin_no b)) (drop (i + 1) (mp_buttons s)))"
        "\<And>pin. pending pin s2 \<longleftrightarrow> pending pin s1 \<and> pin \<notin> pin_no ` set (drop (i + 1) (mp_buttons s))"
      unfolding s1(2) by blast
    have d: "drop i (mp_buttons s) = ?b # drop (i + 1) (mp_buttons s)"
      using True by (simp add: Cons_nth_drop_Suc)
    have "distinct (map pin_no (drop i (mp_buttons s)))"
      using Suc.prems(1) by (metis buttons_ok_def distinct_drop drop_map)
    then have other: "pin_no b \<noteq> pin_no ?b" if "b \<in> set (drop (i + 1) (mp_buttons s))" for b
      using that unfolding d by (simp, metis image_eqI)
    have "filter (\<lambda>b. pending (pin_no b) s1 \<and> held (pin_no b) s1 = level (pin_no b)) (drop (i + 1) (mp_buttons s))
        = filter (\<lambda>b. pending (pin_no b) s \<and> held (pin_no b) s = level (pin_no b)) (drop (i + 1) (mp_buttons s))"
      using other s1(5,6) by (intro filter_cong refl) (simp add: held_def)
    moreover have "detection_loop note_button (Suc k) i s = (Ret (), s2)"
      using True Suc.prems(1) s1(1) s2(1) by (simp add: bnd_run andthen_run buttons_ok_def)
    moreover have "\<forall>pin. pending pin s2 \<longleftrightarrow> pending pin s \<and> pin \<notin> pin_no ` set (drop i (mp_buttons s))"
      unfolding d using s2(3) s1(6) by auto
    ultimately show ?thesis
      using s2(2) s1(7) unfolding d by simp
  qed
qed

text \<open>What an edge does when the timer's queue is not full.\<close>

lemma own_fields:
  fixes s t :: ear
  assumes "timers.more t = timers.more s"
  shows "m_pin_transition t = m_pin_transition s" "m_pin_state t = m_pin_state s" "m_detection_delay t = m_detection_delay s" "mp_buttons t = mp_buttons s"
    "m_button_count t = m_button_count s" "gpio_env t = gpio_env s" "reported t = reported s"
  using assms by (cases s; cases t; simp)+

definition same_own :: "ear \<Rightarrow> ear \<Rightarrow> bool" where
  "same_own s s' \<longleftrightarrow> mp_buttons s' = mp_buttons s \<and> m_button_count s' = m_button_count s \<and> reported s' = reported s \<and> gpio_env s' = gpio_env s"

lemma edge_bits:
  assumes stop: "fst (app_timer_stop (m_detection_delay_timer_id L) s) = Ret NRF_SUCCESS" and edge: "gpiote_event_handler L pin s = (Ret (), s')"
    and lv: "levels level s"
  shows "same_own s s' \<and> (if m_pin_transition s AND 2 ^ unat pin = 0
     then m_pin_transition s' = m_pin_transition s OR 2 ^ unat pin
       \<and> m_pin_state s' = (if level pin then m_pin_state s OR 2 ^ unat pin else m_pin_state s AND NOT (2 ^ unat pin))
     else m_pin_transition s' = m_pin_transition s AND NOT (2 ^ unat pin) \<and> m_pin_state s' = m_pin_state s)"
proof -
  obtain t1 where t1: "app_timer_stop (m_detection_delay_timer_id L) s = (Ret NRF_SUCCESS, t1)"
    using stop by (cases "app_timer_stop (m_detection_delay_timer_id L) s") simp
  have more: "timers.more t1 = timers.more s"
    using keepsD [OF stop_more [of "\<lambda>r. r = timers.more s" "m_detection_delay_timer_id L"], of s] t1 by simp
  note own = own_fields [OF more]
  show ?thesis
  proof (cases "m_pin_transition s AND 2 ^ unat pin = 0")
    case False
    then have "s' = t1\<lparr>m_pin_transition := m_pin_transition t1 AND NOT (2 ^ unat pin)\<rparr>"
      using edge t1 own by (simp add: gpiote_event_handler_def bnd_run Let_def)
    then show ?thesis
      using False own by (simp add: same_own_def)
  next
    case True
    let ?t2 = "t1\<lparr>gpio_log := gpio_log t1 @ [Gpiote_in_is_set pin], m_pin_state := (if level pin then m_pin_state t1 OR 2 ^ unat pin else m_pin_state t1 AND NOT (2 ^ unat pin)),
      m_pin_transition := m_pin_transition t1 OR 2 ^ unat pin\<rparr>"
    have "gpio_env t1 (gpio_log t1) (Gpiote_in_is_set pin) \<noteq> 0 \<longleftrightarrow> level pin"
      using lv own by (simp add: levels_def)
    then have "snd (app_timer_start (m_detection_delay_timer_id L) (m_detection_delay t1) NULL ?t2) = s'"
      using True edge t1 own by (auto simp: gpiote_event_handler_def bnd_run andthen_run Let_def gpio_def split: prod.splits outcome.splits)
    then have "timers.more s' = timers.more ?t2"
      using keepsD [OF start_more [of "\<lambda>r. r = timers.more ?t2" "m_detection_delay_timer_id L" "m_detection_delay t1" NULL], of ?t2] by simp
    from own_fields [OF this] show ?thesis
      using True own by (simp add: same_own_def)
  qed
qed

lemma edge_run:
  assumes "fst (app_timer_stop (m_detection_delay_timer_id L) s) = Ret NRF_SUCCESS" and "gpiote_event_handler L pin s = (Ret (), s')"
    and "pin < 32" and "levels level s"
  shows "same_own s s'" "pending q s' \<longleftrightarrow> (if q = pin then \<not> pending q s else pending q s)"
    "held q s' \<longleftrightarrow> (if q = pin \<and> \<not> pending q s then level q else held q s)"
proof -
  have n: "unat pin < LENGTH(32)"
    using assms(3) by (simp add: word_less_nat_alt)
  have other: "unat q = unat pin \<longleftrightarrow> q = pin" for q
    by (simp add: word_unat_eq_iff)
  have p: "m_pin_transition s AND 2 ^ unat pin = 0 \<longleftrightarrow> \<not> pending pin s"
    using pending_bit [OF n, of "m_pin_transition s"] unfolding pending_def and.commute [of "2 ^ unat pin"] by blast
  note bits = edge_bits [OF assms(1,2,4)]
  show "same_own s s'"
    using bits by blast
  show "pending q s' \<longleftrightarrow> (if q = pin then \<not> pending q s else pending q s)"
    using bits unfolding p by (auto simp: pending_def set_one_bit [OF n] cleared_bit other split: if_splits)
  show "held q s' \<longleftrightarrow> (if q = pin \<and> \<not> pending q s then level q else held q s)"
    using bits unfolding p by (auto simp: held_def set_one_bit [OF n] cleared_bit other split: if_splits)
qed

lemma timeout_run:
  assumes "buttons_ok s" and "levels level s"
  shows "\<exists>s'. detection_delay_timeout_handler note_button s = (Ret (), s')
    \<and> reported s' = reported s @ map (button_report level) (filter (\<lambda>b. pending (pin_no b) s \<and> held (pin_no b) s = level (pin_no b)) (mp_buttons s))
    \<and> (\<forall>pin. pending pin s' \<longleftrightarrow> pending pin s \<and> pin \<notin> pin_no ` set (mp_buttons s))"
proof -
  have "unat (m_button_count s) < 2 ^ LENGTH(8)"
    by (rule unsigned_less)
  then have "length (mp_buttons s) < 256 + 0"
    using assms(1) by (simp only: buttons_ok_def) simp
  from detection_run [OF assms this] show ?thesis
    by (simp add: detection_delay_timeout_handler_def del: detection_loop.simps)
qed

lemma filter_pin: "distinct (map pin_no bs) \<Longrightarrow> b \<in> set bs \<Longrightarrow> filter (\<lambda>c. pin_no c = pin_no b \<and> P c) bs = (if P b then [b] else [])"
proof (induction bs)
  case (Cons c bs)
  show ?case
  proof (cases "c = b")
    case True
    then have "\<forall>d \<in> set bs. pin_no d \<noteq> pin_no b"
      using Cons.prems(1) by (auto simp: image_iff)
    then show ?thesis
      using True by (auto simp: filter_empty_conv)
  next
    case False
    then have "pin_no c \<noteq> pin_no b"
      using Cons.prems by (auto simp: image_iff)
    then show ?thesis
      using False Cons by simp
  qed
qed simp

subsection \<open>A bounce of one button hides another\<close>

text \<open>The timer between two interrupts.\<close>

definition settled :: "plan \<Rightarrow> 'w timers_scheme \<Rightarrow> bool" where
  "settled P s \<longleftrightarrow> plans s P \<and> all_running P \<and> queued s (q_first s) [] \<and> queue_ok s \<and> elapsed_ok s \<and> \<not> m_rtc1_reset s \<and> elapsed s = None"

lemma stopped_swi:
  assumes S: "settled P s" and en: "enqueued s op s1" and op: "op_type op = TIMER_USER_OP_TYPE_STOP" "op_node op = t" and r: "running s1 = running s - {t}"
    and n: "length (pl_agenda P) + 1 < n"
  shows "\<exists>s2 Q. SWI_IRQHandler n s1 = (Ret (), s2) \<and> settled Q s2 \<and> pl_agenda Q = filter (\<lambda>x. fst x \<noteq> t) (pl_agenda P) \<and> timers.more s2 = timers.more s1"
proof -
  let ?P = "P\<lparr>pl_running := pl_running P - {t}\<rparr>"
  have fr: "api_frame s s1"
    using en by (rule enqueued_frame)
  have q: "queued s1 (q_first s1) [op]" "queue_ok s1"
    using enqueued_queued [OF en, of "[]"] S by (simp_all add: settled_def)
  have plans: "plans s1 ?P"
    using S r api_frame_holds [OF fr] fr by (simp add: settled_def plans_def periods_def [abs_def] api_frame_def)
  have el: "elapsed s1 = None" "elapsed_ok s1" "\<not> m_rtc1_reset s1"
    using api_frame_elapsed [OF fr] fr S by (simp_all add: settled_def api_frame_def)
  let ?Q = "swi_plan (m_ticks_latest s1) (elapsed s1) [op] ?P"
  have "idle_going (elapsed s1) [op] ?P" "lag_ok (elapsed s1) (pl_agenda ?P)" "ops_ok [op]"
    using S el(1) op by (auto simp: idle_going_def all_running_def lag_ok_def ops_ok_def settled_def going_def)
  moreover have "length (pl_agenda ?P) + length [op] < n"
    using n by simp
  ultimately obtain s2 where s2: "timer_list_handler n s1 = (Ret (), s2)" "plans s2 ?Q" "all_running ?Q" "swi_done s1 s2"
    using list_handled [OF plans q(1) _ el(2,3), of n] by blast
  have "pl_agenda ?Q = filter (\<lambda>x. fst x \<noteq> t) (pl_agenda P)"
    using op el(1) by (simp add: swi_plan_def Let_def restarts_def remaining_def start_ops_def start_op_def agenda_insert_all_def delete_ops_def
        case_prod_unfold)
  moreover have "queued s2 (q_first s2) []" "queue_ok s2" "elapsed s2 = None" "elapsed_ok s2" "\<not> m_rtc1_reset s2" "timers.more s2 = timers.more s1"
    using s2(4) q(2) by (simp_all add: swi_done_def queue_ok_def)
  ultimately show ?thesis
    using s2 by (intro exI [of _ s2] exI [of _ ?Q]) (simp add: settled_def SWI_IRQHandler_def)
qed

text \<open>An edge of a button that is pending only stops the timer.\<close>

lemma bounce_swi:
  assumes S: "settled P s" and n: "length (pl_agenda P) + 1 < n" and lv: "levels level s" and pin: "pin < 32" and p: "pending pin s"
    and stop: "fst (app_timer_stop (m_detection_delay_timer_id L) s) = Ret NRF_SUCCESS" and edge: "gpiote_event_handler L pin s = (Ret (), s1)"
  shows "\<exists>s2 Q. SWI_IRQHandler n s1 = (Ret (), s2) \<and> settled Q s2 \<and> pl_agenda Q = filter (\<lambda>x. fst x \<noteq> m_detection_delay_timer_id L) (pl_agenda P)
    \<and> levels level s2 \<and> (\<forall>q. pending q s2 \<longleftrightarrow> pending q s \<and> q \<noteq> pin) \<and> reported s2 = reported s"
proof -
  obtain t1 where t1: "app_timer_stop (m_detection_delay_timer_id L) s = (Ret NRF_SUCCESS, t1)"
    using stop by (cases "app_timer_stop (m_detection_delay_timer_id L) s") simp
  have more: "timers.more t1 = timers.more s"
    using keepsD [OF stop_more [of "\<lambda>r. r = timers.more s" "m_detection_delay_timer_id L"], of s] t1 by simp
  have "m_pin_transition s AND 2 ^ unat pin \<noteq> 0"
    using pending_bit [of "unat pin" "m_pin_transition s"] p pin by (simp add: pending_def and.commute word_less_nat_alt)
  then have s1: "s1 = t1\<lparr>m_pin_transition := m_pin_transition t1 AND NOT (2 ^ unat pin)\<rparr>"
    using edge t1 own_fields(1) [OF more] by (simp add: gpiote_event_handler_def bnd_run Let_def)
  have "NRF_SUCCESS \<noteq> NRF_ERROR_NO_MEM"
    by (simp add: NRF_SUCCESS_def NRF_ERROR_NO_MEM_def)
  with t1 obtain op where op: "enqueued s op t1" "op_type op = TIMER_USER_OP_TYPE_STOP" "op_node op = m_detection_delay_timer_id L"
      "running t1 = running s - {m_detection_delay_timer_id L}"
    by (cases rule: stop_cases) auto
  have "enqueued s op s1" "running s1 = running s - {m_detection_delay_timer_id L}"
    using op(1,4) unfolding s1 by (simp_all add: enqueued_def api_frame_def running_def)
  then obtain s2 Q where s2: "SWI_IRQHandler n s1 = (Ret (), s2)" "settled Q s2"
      "pl_agenda Q = filter (\<lambda>x. fst x \<noteq> m_detection_delay_timer_id L) (pl_agenda P)" "timers.more s2 = timers.more s1"
    using stopped_swi [OF S _ op(2,3) _ n] by blast
  note own = own_fields [OF s2(4)] edge_run [OF stop edge pin lv]
  have "levels level s2" "reported s2 = reported s" "pending q s2 \<longleftrightarrow> pending q s \<and> q \<noteq> pin" for q
    using own lv p by (auto simp: levels_def same_own_def pending_def)
  then show ?thesis
    using s2 by blast
qed

text \<open>A handler of a time-out that acts on the state of the buttons only.\<close>

definition own :: "(ear, unit) prog \<Rightarrow> bool" where
  "own p \<longleftrightarrow> (\<forall>s s'. timers.more s = timers.more s' \<longrightarrow>
     (\<exists>r. p s = (Ret (), s\<lparr>timers.more := r\<rparr>) \<and> p s' = (Ret (), s'\<lparr>timers.more := r\<rparr>)))"

lemma ownD: "own p \<Longrightarrow> timers.more s = timers.more s' \<Longrightarrow>
    \<exists>r. p s = (Ret (), s\<lparr>timers.more := r\<rparr>) \<and> p s' = (Ret (), s'\<lparr>timers.more := r\<rparr>)"
  by (simp add: own_def)

lemma own_ret: "own (ret ())"
  unfolding own_def
proof (intro allI impI exI conjI)
  fix s s' :: ear
  assume more: "timers.more s = timers.more s'"
  show "ret () s = (Ret (), s\<lparr>timers.more := timers.more s\<rparr>)" by (cases s) simp
  show "ret () s' = (Ret (), s'\<lparr>timers.more := timers.more s\<rparr>)" unfolding more by (cases s') simp
qed

lemma own_andthen:
  assumes "own p" and "own q"
  shows "own (andthen p q)"
  unfolding own_def
proof (intro allI impI)
  fix s s' :: ear
  assume "timers.more s = timers.more s'"
  then obtain r where r: "p s = (Ret (), s\<lparr>timers.more := r\<rparr>)" "p s' = (Ret (), s'\<lparr>timers.more := r\<rparr>)"
    using ownD [OF assms(1)] by blast
  show "\<exists>r. andthen p q s = (Ret (), s\<lparr>timers.more := r\<rparr>) \<and> andthen p q s' = (Ret (), s'\<lparr>timers.more := r\<rparr>)"
    using ownD [OF assms(2), of "s\<lparr>timers.more := r\<rparr>" "s'\<lparr>timers.more := r\<rparr>"] by (simp add: andthen_run r)
qed

lemma own_gets:
  assumes "\<And>s s'. timers.more s = timers.more s' \<Longrightarrow> f s = f s'" and "\<And>x. own (k x)"
  shows "own (bnd (gets f) k)"
  unfolding own_def
proof (intro allI impI)
  fix s s' :: ear
  assume "timers.more s = timers.more s'"
  then show "\<exists>r. bnd (gets f) k s = (Ret (), s\<lparr>timers.more := r\<rparr>) \<and> bnd (gets f) k s' = (Ret (), s'\<lparr>timers.more := r\<rparr>)"
    using ownD [OF assms(2), of s s' "f s'"] assms(1) [of s s'] by (simp add: bnd_run)
qed

lemma own_gpio:
  assumes "\<And>x. own (k x)"
  shows "own (bnd (gpio a) k)"
  unfolding own_def
proof (intro allI impI)
  fix s s' :: ear
  assume more: "timers.more s = timers.more s'"
  have "gpio_env s (gpio_log s) a = gpio_env s' (gpio_log s') a"
    using more by (cases s; cases s') simp
  moreover obtain r where r: "s\<lparr>gpio_log := gpio_log s @ [a]\<rparr> = s\<lparr>timers.more := r\<rparr>" "s'\<lparr>gpio_log := gpio_log s' @ [a]\<rparr> = s'\<lparr>timers.more := r\<rparr>"
    using more by (cases s; cases s') simp
  ultimately show "\<exists>r. bnd (gpio a) k s = (Ret (), s\<lparr>timers.more := r\<rparr>) \<and> bnd (gpio a) k s' = (Ret (), s'\<lparr>timers.more := r\<rparr>)"
    using ownD [OF assms, of "s\<lparr>timers.more := r\<rparr>" "s'\<lparr>timers.more := r\<rparr>"] by (simp add: bnd_run gpio_def)
qed

lemma own_modify:
  assumes "\<And>s s'. timers.more s = timers.more s' \<Longrightarrow> \<exists>r. f s = s\<lparr>timers.more := r\<rparr> \<and> f s' = s'\<lparr>timers.more := r\<rparr>"
  shows "own (modify f)"
  using assms by (simp add: own_def)

lemma own_detected: "own (button_detected note_button b)"
proof -
  have "own (modify (\<lambda>s. s\<lparr>m_pin_transition := m_pin_transition s AND m\<rparr>))" for m
    by (rule own_modify, case_tac s, case_tac s') simp
  moreover have "own (note_button h p a)" for h p a
    unfolding note_button_def by (rule own_modify, case_tac s, case_tac s') simp
  ultimately show ?thesis
    unfolding button_detected_def Let_def
    by (auto intro!: own_gets own_andthen own_gpio own_ret own_fields(1,2))
qed

lemma own_detection: "own (detection_delay_timeout_handler note_button)"
proof -
  have "own (detection_loop note_button k i)" for k i
  proof (induction k arbitrary: i)
    case (Suc k)
    have "own (case x of (count, buttons) \<Rightarrow> if i < unat count
        then andthen (button_detected note_button (buttons ! i)) (detection_loop note_button k (i + 1)) else ret ())" for x :: "u8 \<times> app_button_cfg list"
      using own_andthen [OF own_detected Suc] own_ret by (cases x) simp
    moreover have "(m_button_count s, mp_buttons s) = (m_button_count s', mp_buttons s')" if "timers.more s = timers.more s'" for s s' :: ear
      using own_fields(4,5) [OF that] by simp
    ultimately show ?case unfolding detection_loop.simps by (intro own_gets)
  qed (simp add: own_ret)
  then show ?thesis by (simp add: detection_delay_timeout_handler_def)
qed

lemma detection_own:
  obtains f where "\<And>s. detection_delay_timeout_handler note_button s = (Ret (), s\<lparr>timers.more := f (timers.more s)\<rparr>)"
proof -
  let ?f = "\<lambda>r. timers.more (snd (detection_delay_timeout_handler note_button (demo_board\<lparr>timers.more := r\<rparr>)))"
  have "detection_delay_timeout_handler note_button s = (Ret (), s\<lparr>timers.more := ?f (timers.more s)\<rparr>)" for s
    using ownD [OF own_detection, of s "demo_board\<lparr>timers.more := timers.more s\<rparr>"] by auto
  then show ?thesis by (rule that)
qed

text \<open>
  The timer of the buttons, as \<^verbatim>\<open>app_button_init\<close> creates it: a single shot timer with the buttons' handler, which a module
  without a scheduler calls itself. Its queue holds two operations, the delay is not below the smallest that a timer takes.
\<close>

definition button_timer :: "layout \<Rightarrow> ear \<Rightarrow> bool" where
  "button_timer L s \<longleftrightarrow> module_initialized s \<and> m_evt_schedule_func s = NULL \<and> 2 < q_size s \<and> m_detection_delay_timer_id L \<noteq> NULL
     \<and> at_detection_delay_timeout_handler L \<noteq> NULL \<and> APP_TIMER_MIN_TIMEOUT_TICKS \<le> m_detection_delay s
     \<and> p_timeout_handler (nodes s (m_detection_delay_timer_id L)) = at_detection_delay_timeout_handler L
     \<and> timer_mode (nodes s (m_detection_delay_timer_id L)) = Timer_single_shot"

lemma two_free:
  assumes "i < q_size s" and "2 < q_size s"
  shows "next_op i s \<noteq> i" "next_op (next_op i s) s \<noteq> i"
proof -
  have "unat (2 :: u8) = 2" by simp
  then have q: "2 < unat (q_size s)" using assms(2) by (metis word_less_nat_alt)
  note one = next_op_unat [OF assms(1)] and two = next_op_unat [OF next_op_less [OF assms(1)]]
  show "next_op i s \<noteq> i" using one q by (auto split: if_splits)
  show "next_op (next_op i s) s \<noteq> i" using one two q by (auto split: if_splits)
qed

lemma first_edge:
  assumes S: "settled P s" and T: "button_timer L s" and pin: "pin < 32" and p: "\<not> pending pin s" and lv: "levels level s"
  obtains s1 op1 op2 where "gpiote_event_handler L pin s = (Ret (), s1)" and "queued s1 (q_first s1) [op1, op2]" and "queue_ok s1" and "api_frame s s1"
    and "op_type op1 = TIMER_USER_OP_TYPE_STOP" and "op_node op1 = m_detection_delay_timer_id L"
    and "op_type op2 = TIMER_USER_OP_TYPE_START" and "op_node op2 = m_detection_delay_timer_id L"
    and "start_ticks op2 = rtc_env s (rtc_log s @ [Swi_pend])" and "start_first op2 = m_detection_delay s" and "start_periodic op2 = 0"
    and "running s1 = running s - {m_detection_delay_timer_id L}" and "same_kind s s1" and "m_detection_delay s1 = m_detection_delay s"
    and "p_user_op_queue s1 = p_user_op_queue s"
proof -
  let ?t = "m_detection_delay_timer_id L"
  have q: "q_last s = q_first s" "q_first s < q_size s" "queued s (q_first s) []" "queue_ok s"
    using S by (simp_all add: settled_def queue_ok_def)
  note room = T [unfolded button_timer_def]
  have same_next: "next_op i (s\<lparr>nodes := nd\<rparr>) = next_op i s" for i nd
    by (simp add: next_op_def)
  define t1 where "t1 = snd (app_timer_stop ?t s)"
  have stop: "app_timer_stop ?t s = (Ret NRF_SUCCESS, t1)"
    and t1: "nodes t1 = (nodes s)(?t := (nodes s ?t)\<lparr>is_running := False\<rparr>)" "p_user_op_queue t1 = p_user_op_queue s" "rtc_log t1 = rtc_log s @ [Swi_pend]"
      "rtc_env t1 = rtc_env s" "q_last t1 = next_op (q_first s) s" "q_size t1 = q_size s" "q_first t1 = q_first s" "timers.more t1 = timers.more s"
    using room two_free(1) [OF q(2)] q(1)
    by (simp_all add: t1_def app_timer_stop_def bnd_run andthen_run timer_stop_op_schedule_def user_op_alloc_def Let_def put_op_at_def user_op_enque_def
        timer_list_handler_sched_def access_def put_node_def same_next)
  have "NRF_SUCCESS \<noteq> NRF_ERROR_NO_MEM"
    by (simp add: NRF_SUCCESS_def NRF_ERROR_NO_MEM_def)
  with stop obtain op1 where op1: "enqueued s op1 t1" "op_type op1 = TIMER_USER_OP_TYPE_STOP" "op_node op1 = ?t" "running t1 = running s - {?t}"
    by (cases rule: stop_cases) auto
  note own = own_fields [OF t1(8)]
  let ?t2 = "t1\<lparr>gpio_log := gpio_log t1 @ [Gpiote_in_is_set pin],
      m_pin_state := (if level pin then m_pin_state s OR 2 ^ unat pin else m_pin_state s AND NOT (2 ^ unat pin)),
      m_pin_transition := m_pin_transition s OR 2 ^ unat pin\<rparr>"
  define s1 where "s1 = snd (app_timer_start ?t (m_detection_delay s) NULL ?t2)"
  have next2: "next_op (q_last ?t2) ?t2 \<noteq> q_first ?t2"
    using two_free(2) [OF q(2)] room t1(5-7) next_op_cong [of ?t2 s] by simp
  have delay: "\<not> m_detection_delay s < APP_TIMER_MIN_TIMEOUT_TICKS"
    using room by (simp add: not_less)
  have start: "app_timer_start ?t (m_detection_delay s) NULL ?t2 = (Ret NRF_SUCCESS, s1)"
    and s1: "nodes s1 = nodes t1" "p_user_op_queue s1 = p_user_op_queue s" "timers.more s1 = timers.more ?t2"
    using room next2 t1(1,2) delay
    by (simp_all add: s1_def app_timer_start_def bnd_run andthen_run timer_start_op_schedule_def user_op_alloc_def Let_def put_op_at_def user_op_enque_def
        timer_list_handler_sched_def access_def rtc1_counter_get_def module_initialized_def)
  obtain op2 where op2: "enqueued ?t2 op2 s1" "op_type op2 = TIMER_USER_OP_TYPE_START" "op_node op2 = ?t" "running s1 = running ?t2"
      "start_ticks op2 = rtc_env ?t2 (rtc_log ?t2)" "start_first op2 = m_detection_delay s"
      "start_periodic op2 = (if timer_mode (nodes ?t2 ?t) = Timer_repeated then m_detection_delay s else 0)"
    using start by (cases rule: start_cases) auto
  have en2: "enqueued t1 op2 s1"
    using op2(1) by (simp add: enqueued_def api_frame_def next_op_def)
  have qs: "queued s1 (q_first s1) [op1, op2]" "queue_ok s1"
    using enqueued_queued [OF op1(1) q(3,4)] enqueued_queued [OF en2, of "[op1]"] by simp_all
  have "(gpio_env t1 (gpio_log t1) (Gpiote_in_is_set pin) \<noteq> 0) = level pin"
    using lv own by (simp add: levels_def)
  moreover have "m_pin_transition s AND 2 ^ unat pin = 0"
    using pending_bit [of "unat pin" "m_pin_transition s"] p pin by (simp add: pending_def and.commute word_less_nat_alt)
  ultimately have run: "gpiote_event_handler L pin s = (Ret (), s1)"
    using stop start own by (cases "level pin") (simp_all add: gpiote_event_handler_def bnd_run andthen_run Let_def gpio_def)
  have "api_frame s s1" "same_kind s s1" "running s1 = running s - {?t}"
    using api_frame_trans [OF enqueued_frame [OF op1(1)] enqueued_frame [OF en2]] op1(4) op2(4) s1(1) t1(1) by (simp_all add: same_kind_def running_def)
  moreover have "start_ticks op2 = rtc_env s (rtc_log s @ [Swi_pend])" "start_periodic op2 = 0"
    using op2(5,7) t1 room by simp_all
  moreover have "m_detection_delay s1 = m_detection_delay s"
    using own_fields(3) [OF s1(3)] own by simp
  ultimately show ?thesis
    using that [OF run qs] op1(2,3) op2(2,3,6) s1(2) by auto
qed

text \<open>Then the software interrupt brings the timer in, to expire the delay after the counter that the edge has read.\<close>

lemma started_swi:
  assumes S: "settled P s" "length (pl_agenda P) + 2 < n" and T: "button_timer L s" "m_detection_delay_timer_id L \<notin> fst ` set (pl_agenda P)"
    and pin: "pin < 32" "\<not> pending pin s" and lv: "levels level s"
  obtains s1 s2 Q where "gpiote_event_handler L pin s = (Ret (), s1)" and "SWI_IRQHandler n s1 = (Ret (), s2)" and "settled Q s2" and "button_timer L s2"
    and "m_detection_delay_timer_id L \<in> running s2" and "timers.more s2 = timers.more s1"
    and "m_ticks_latest s2 = m_ticks_latest s" and "pl_agenda Q = agenda_insert (m_detection_delay_timer_id L)
       (unat (ticks_until (m_ticks_latest s) (rtc_env s (rtc_log s @ [Swi_pend])) (m_detection_delay s))) (pl_agenda P)"
proof -
  let ?t = "m_detection_delay_timer_id L" and ?P = "P\<lparr>pl_running := pl_running P - {m_detection_delay_timer_id L}\<rparr>"
  obtain s1 op1 op2 where edge: "gpiote_event_handler L pin s = (Ret (), s1)" and q: "queued s1 (q_first s1) [op1, op2]" "queue_ok s1" and fr: "api_frame s s1"
    and op1: "op_type op1 = TIMER_USER_OP_TYPE_STOP" "op_node op1 = ?t"
    and op2: "op_type op2 = TIMER_USER_OP_TYPE_START" "op_node op2 = ?t" "start_ticks op2 = rtc_env s (rtc_log s @ [Swi_pend])"
      "start_first op2 = m_detection_delay s" "start_periodic op2 = 0"
    and s1: "running s1 = running s - {?t}" "same_kind s s1" "m_detection_delay s1 = m_detection_delay s" "p_user_op_queue s1 = p_user_op_queue s"
    by (rule first_edge [OF S(1) T(1) pin lv])
  have plans: "plans s1 ?P"
    using S(1) s1(1) api_frame_holds [OF fr] fr by (simp add: settled_def plans_def periods_def [abs_def] api_frame_def)
  have el: "elapsed s1 = None" "elapsed_ok s1" "\<not> m_rtc1_reset s1"
    using api_frame_elapsed [OF fr] fr S(1) by (simp_all add: settled_def api_frame_def)
  let ?Q = "swi_plan (m_ticks_latest s1) (elapsed s1) [op1, op2] ?P"
  have others: "filter (\<lambda>(q, u). q \<noteq> ?t) (pl_agenda P) = pl_agenda P"
    using T(2) by (intro filter_True) force
  have "m_ticks_latest s1 = m_ticks_latest s" using fr by (simp add: api_frame_def)
  then have Q: "pl_agenda ?Q = agenda_insert ?t (unat (ticks_until (m_ticks_latest s) (rtc_env s (rtc_log s @ [Swi_pend])) (m_detection_delay s))) (pl_agenda P)"
      "?t \<in> pl_running ?Q"
    using op1 op2 el(1) others
    by (simp_all add: swi_plan_def Let_def delete_ops_def restarts_def remaining_def start_ops_def start_op_def agenda_insert_all_def advanced_def)
  have "idle_going (elapsed s1) [op1, op2] ?P" "lag_ok (elapsed s1) (pl_agenda ?P)" "ops_ok [op1, op2]"
    using S(1) el(1) op1 op2 T(1) by (auto simp: idle_going_def all_running_def lag_ok_def ops_ok_def settled_def going_def button_timer_def)
  moreover have "length (pl_agenda ?P) + length [op1, op2] < n"
    using S(2) by simp
  ultimately obtain s2 where s2: "timer_list_handler n s1 = (Ret (), s2)" "plans s2 ?Q" "all_running ?Q" "swi_done s1 s2"
      "pl_agenda ?Q \<noteq> [] \<longrightarrow> m_ticks_latest s2 = (if emptied_by [op1, op2] (pl_agenda ?P) then 0 else advanced (m_ticks_latest s1) (elapsed s1))"
    using list_handled [OF plans q(1) _ el(2,3), of n] by blast
  then have "m_ticks_latest s2 = m_ticks_latest s"
    using Q(1) others op1 op2 el(1) fr by (simp add: agenda_insert_def advanced_def api_frame_def)
  have "q_size s1 = q_size s" "m_evt_schedule_func s1 = m_evt_schedule_func s" using fr by (simp_all add: api_frame_def)
  then have "button_timer L s2"
    using T(1) s1 s2(4) own_fields(3) [of s2 s1] by (simp add: button_timer_def swi_done_def same_kind_def module_initialized_def)
  moreover have "settled ?Q s2" "timers.more s2 = timers.more s1" "?t \<in> running s2"
    using s2(2-4) q(2) Q(2) by (auto simp: settled_def swi_done_def queue_ok_def plans_def)
  ultimately show ?thesis
    using that [OF edge] s2(1) Q(1) \<open>m_ticks_latest s2 = m_ticks_latest s\<close> by (simp add: SWI_IRQHandler_def)
qed

text \<open>What the application timer calls for the buttons, and how time passes between interrupts: the pins and the counter change.\<close>

definition detection_timeout :: "layout \<Rightarrow> fnptr \<Rightarrow> u32 \<Rightarrow> (ear, unit) prog" where
  "detection_timeout L h c = (if h = at_detection_delay_timeout_handler L then detection_delay_timeout_handler note_button else ret ())"

definition later :: "ear \<Rightarrow> ear \<Rightarrow> bool" where
  "later s u \<longleftrightarrow> u = s\<lparr>rtc_env := rtc_env u, rtc_log := rtc_log u, gpio_env := gpio_env u, gpio_log := gpio_log u\<rparr>"

lemma later_facts:
  assumes "later s u"
  shows "settled P u = settled P s" "button_timer L u = button_timer L s" "pending pin u = pending pin s" "held pin u = held pin s"
    "buttons_ok u = buttons_ok s" "reported u = reported s" "mp_buttons u = mp_buttons s" "running u = running s"
proof -
  obtain a b c d where u: "u = s\<lparr>rtc_env := a, rtc_log := b, gpio_env := c, gpio_log := d\<rparr>"
    using assms unfolding later_def by blast
  have "queued u i xs = queued s i xs" for i xs
    unfolding u by (induction xs arbitrary: i) (simp_all add: next_op_def)
  then show "settled P u = settled P s"
    unfolding u by (simp add: settled_def plans_def holds_def gap_def [abs_def] running_def periods_def [abs_def] queue_ok_def elapsed_ok_def elapsed_def)
  show "button_timer L u = button_timer L s" "pending pin u = pending pin s" "held pin u = held pin s"
    "buttons_ok u = buttons_ok s" "reported u = reported s" "mp_buttons u = mp_buttons s" "running u = running s"
    unfolding u by (simp_all add: button_timer_def module_initialized_def pending_def held_def buttons_ok_def running_def)
qed

lemma detection_called:
  assumes S: "settled Q u" "length (pl_agenda Q) < n" and T: "button_timer L u" "m_detection_delay_timer_id L \<in> running u"
    and due: "map fst (due_by (ticks_now u) (pl_agenda Q)) = [m_detection_delay_timer_id L]" and ok: "buttons_ok u" and lv: "levels level u"
  shows "\<exists>v. RTC1_IRQHandler (detection_timeout L) sched n u = (Ret (), v) \<and> (\<forall>pin. pending pin v \<longleftrightarrow> pending pin u \<and> pin \<notin> pin_no ` set (mp_buttons u))
    \<and> reported v = reported u @ map (button_report level) (filter (\<lambda>b. pending (pin_no b) u \<and> held (pin_no b) u = level (pin_no b)) (mp_buttons u))"
proof -
  let ?t = "m_detection_delay_timer_id L" and ?ag = "pl_agenda Q"
  obtain f where f: "\<And>s. detection_delay_timeout_handler note_button s = (Ret (), s\<lparr>timers.more := f (timers.more s)\<rparr>)"
    using detection_own by blast
  define g where "g h c r = (if h = at_detection_delay_timeout_handler L then f r else r)" for h and c :: u32 and r
  have cb: "detection_timeout L h c s = (Ret (), s\<lparr>timers.more := g h c (timers.more s)\<rparr>)" for h c s
    by (cases s) (simp add: detection_timeout_def g_def f)
  have h: "holds u ?ag" using S(1) by (simp add: settled_def plans_def)
  note l = holds_facts [OF h]
  let ?s1 = "access [Counter_read] (access [Events_clear] u)"
  let ?d = "ticks_diff_get (rtc_env u (rtc_log u @ [Events_clear])) (m_ticks_latest u)"
  have now: "unat ?d = ticks_now u"
    by (simp add: ticks_now_def)
  have sel: "nodes ?s1 = nodes u" "m_evt_schedule_func ?s1 = NULL" "timers.more ?s1 = timers.more u" "linked (nodes ?s1) (mp_timer_id_head u) (map fst ?ag)"
    using l(1) T(1) by (simp_all add: access_def button_timer_def)
  obtain s2 where loop: "timeouts_loop (detection_timeout L) sched n (mp_timer_id_head u) ?d 0 ?s1 = (Ret (of_nat (gaps (nodes u) [?t])), s2)"
    and more: "timers.more s2 = calls g (nodes u) [?t] (timers.more u)"
    using timeouts_called [where f = g, OF cb sel(2,4), of n sched ?d 0] l(2) S(2) due unfolding sel now by simp
  have "?ag \<noteq> []" using due by (auto simp: due_by_def)
  then have "mp_timer_id_head u \<noteq> NULL"
    using l(5,6) by (cases ?ag) auto
  then have run: "RTC1_IRQHandler (detection_timeout L) sched n u = (Ret (), access [Swi_pend] (ticks_expired_queue (of_nat (gaps (nodes u) [?t])) s2))"
    (is "_ = (_, ?v)")
    using loop by (simp add: RTC1_IRQHandler_def timer_timeouts_check_def andthen_run bnd_run rtc1_counter_get_def timer_list_handler_sched_def access_def)
  have "timers.more ?v = f (timers.more u)"
    using more T by (simp add: access_def ticks_expired_queue_def Let_def calls_def running_def g_def button_timer_def)
  then have own: "timers.more ?v = timers.more (snd (detection_delay_timeout_handler note_button u))"
    by (simp add: f)
  obtain w where "detection_delay_timeout_handler note_button u = (Ret (), w)" "\<forall>pin. pending pin w \<longleftrightarrow> pending pin u \<and> pin \<notin> pin_no ` set (mp_buttons u)"
    "reported w = reported u @ map (button_report level) (filter (\<lambda>b. pending (pin_no b) u \<and> held (pin_no b) u = level (pin_no b)) (mp_buttons u))"
    using timeout_run [OF ok lv] by auto
  then show ?thesis
    using run own_fields(1,7) [OF own] by (intro exI [of _ ?v]) (simp add: pending_def)
qed

text \<open>The second edge takes the timer out again.\<close>

lemma stop_granted:
  assumes S: "settled Q u" and T: "button_timer L u"
  shows "fst (app_timer_stop (m_detection_delay_timer_id L) u) = Ret NRF_SUCCESS"
proof -
  have q: "q_last u = q_first u" "q_first u < q_size u"
    using S by (simp_all add: settled_def queue_ok_def)
  show ?thesis
    using T two_free(1) [OF q(2)] q(1)
    by (simp add: button_timer_def app_timer_stop_def bnd_run andthen_run timer_stop_op_schedule_def user_op_alloc_def Let_def put_op_at_def
        user_op_enque_def timer_list_handler_sched_def access_def put_node_def next_op_def split: if_splits)
qed

lemma second_edge:
  assumes S: "settled Q u" "length (pl_agenda Q) + 1 < n" and T: "button_timer L u" and lv: "levels level u" and pin: "pin < 32" "pending pin u"
  shows "\<exists>v w R. gpiote_event_handler L pin u = (Ret (), v) \<and> SWI_IRQHandler n v = (Ret (), w) \<and> settled R w
    \<and> pl_agenda R = filter (\<lambda>x. fst x \<noteq> m_detection_delay_timer_id L) (pl_agenda Q) \<and> (\<forall>q. pending q w \<longleftrightarrow> pending q u \<and> q \<noteq> pin) \<and> reported w = reported u"
proof -
  have stop: "fst (app_timer_stop (m_detection_delay_timer_id L) u) = Ret NRF_SUCCESS"
    by (rule stop_granted [OF S(1) T])
  then obtain t1 where t1: "app_timer_stop (m_detection_delay_timer_id L) u = (Ret NRF_SUCCESS, t1)"
    by (cases "app_timer_stop (m_detection_delay_timer_id L) u") simp
  have more: "timers.more t1 = timers.more u"
    using keepsD [OF stop_more [of "\<lambda>r. r = timers.more u" "m_detection_delay_timer_id L"], of u] t1 by simp
  have "m_pin_transition u AND 2 ^ unat pin \<noteq> 0"
    using pending_bit [of "unat pin" "m_pin_transition u"] pin by (simp add: pending_def and.commute word_less_nat_alt)
  then have "\<exists>v. gpiote_event_handler L pin u = (Ret (), v)"
    using t1 own_fields(1) [OF more] by (simp add: gpiote_event_handler_def bnd_run Let_def)
  then obtain v where "gpiote_event_handler L pin u = (Ret (), v)" ..
  then show ?thesis
    using bounce_swi [OF S lv pin stop] by blast
qed

lemma agenda_put:
  assumes "p \<notin> fst ` set ag"
  shows "filter (\<lambda>x. fst x \<noteq> p) (agenda_insert p t ag) = ag"
proof -
  have "filter (\<lambda>x. fst x \<noteq> p) (agenda_insert p t ag)
      = filter (\<lambda>x. fst x \<noteq> p) (takeWhile (\<lambda>(q, u). u < t) ag @ dropWhile (\<lambda>(q, u). u < t) ag)"
    by (simp add: agenda_insert_def del: takeWhile_dropWhile_id)
  also have "\<dots> = ag"
    using assms unfolding takeWhile_dropWhile_id by (intro filter_True) force
  finally show ?thesis .
qed

text \<open>
  C25: The buttons are debounced. The module is at rest: nothing is pending, the timer handles no operation, no ticks are noted (\<open>settled\<close>) and the
  buttons' timer, created by \<^verbatim>\<open>app_button_init\<close>, is not in its list; the configured buttons have different pins below 32 and a
  handler (\<open>buttons_ok\<close>). Then the first edge of a button notes the level of its pin and queues the stop and the start of the timer, and the software interrupt
  that handles them brings the timer in, due \<^verbatim>\<open>m_detection_delay\<close> ticks after the counter that the edge has read. When later, with any levels of the
  pins, this timer is the one that is due, the counter's interrupt calls the time-out handler, which calls the button's handler exactly
  once if the pin has the noted level again, with the action that the level means, and not at all otherwise, and nothing is pending any more. If
  instead a second edge comes, it does not restart the timer, as two comments in the source say: it stops it, the software interrupt takes it out of the list, and
  nothing is pending and nothing was reported. If the second edge comes even before the software interrupt, a time-out that still comes reports nothing.
\<close>

theorem buttons_debounced:
  assumes S: "settled P s" "length (pl_agenda P) + 2 < n" and T: "button_timer L s" "m_detection_delay_timer_id L \<notin> fst ` set (pl_agenda P)"
    and ok: "buttons_ok s" "b \<in> set (mp_buttons s)" "\<forall>pin. \<not> pending pin s" and lv: "levels level s"
  shows "\<exists>s1 s2 Q. gpiote_event_handler L (pin_no b) s = (Ret (), s1) \<and> SWI_IRQHandler n s1 = (Ret (), s2) \<and> settled Q s2
    \<and> m_ticks_latest s2 = m_ticks_latest s \<and> pl_agenda Q = agenda_insert (m_detection_delay_timer_id L)
         (unat (ticks_until (m_ticks_latest s) (rtc_env s (rtc_log s @ [Swi_pend])) (m_detection_delay s))) (pl_agenda P)
    \<and> (\<forall>u level'. later s2 u \<and> levels level' u \<and> map fst (due_by (ticks_now u) (pl_agenda Q)) = [m_detection_delay_timer_id L] \<longrightarrow>
         (\<exists>v. RTC1_IRQHandler (detection_timeout L) no_schedule n u = (Ret (), v) \<and> (\<forall>pin. \<not> pending pin v)
            \<and> reported v = reported s @ (if level' (pin_no b) = level (pin_no b) then [button_report level' b] else [])))
    \<and> (\<forall>u level'. later s2 u \<and> levels level' u \<longrightarrow>
         (\<exists>v w R. gpiote_event_handler L (pin_no b) u = (Ret (), v) \<and> SWI_IRQHandler n v = (Ret (), w) \<and> settled R w
            \<and> pl_agenda R = pl_agenda P \<and> (\<forall>pin. \<not> pending pin w) \<and> reported w = reported s))
    \<and> (\<forall>u level' v. later s1 u \<and> levels level' u \<and> fst (app_timer_stop (m_detection_delay_timer_id L) u) = Ret NRF_SUCCESS
           \<and> gpiote_event_handler L (pin_no b) u = (Ret (), v) \<longrightarrow>
         (\<exists>w. detection_delay_timeout_handler note_button v = (Ret (), w) \<and> (\<forall>pin. \<not> pending pin w) \<and> reported w = reported s))"
proof -
  let ?t = "m_detection_delay_timer_id L"
  let ?due = "unat (ticks_until (m_ticks_latest s) (rtc_env s (rtc_log s @ [Swi_pend])) (m_detection_delay s))"
  have pin: "pin_no b < 32" and none: "\<not> pending (pin_no b) s"
    using ok by (simp_all add: buttons_ok_def)
  obtain s1 s2 Q where edge: "gpiote_event_handler L (pin_no b) s = (Ret (), s1)" and swi: "SWI_IRQHandler n s1 = (Ret (), s2)" and Q: "settled Q s2"
    and T2: "button_timer L s2" "?t \<in> running s2" and more: "timers.more s2 = timers.more s1" and latest: "m_ticks_latest s2 = m_ticks_latest s" and ag: "pl_agenda Q = agenda_insert ?t ?due (pl_agenda P)"
    by (rule started_swi [OF S T pin none lv])
  have stop: "fst (app_timer_stop ?t s) = Ret NRF_SUCCESS"
    using stop_granted [OF S(1) T(1)] .
  note edge1 = edge_run [OF stop edge pin lv] and own = own_fields [OF more]
  have after1: "buttons_ok s1" "mp_buttons s1 = mp_buttons s" "reported s1 = reported s" "pending q s1 \<longleftrightarrow> q = pin_no b" "held (pin_no b) s1 = level (pin_no b)" for q
    using edge1 ok by (simp_all add: buttons_ok_def same_own_def)
  have after2: "buttons_ok s2" "mp_buttons s2 = mp_buttons s" "reported s2 = reported s" "pending q s2 \<longleftrightarrow> q = pin_no b" "held (pin_no b) s2 = level (pin_no b)" for q
    using after1 own by (simp_all add: buttons_ok_def pending_def held_def)
  have len: "length (pl_agenda Q) = length (pl_agenda P) + 1" and without: "filter (\<lambda>x. fst x \<noteq> ?t) (pl_agenda Q) = pl_agenda P"
    unfolding ag using agenda_put [OF T(2)] by (simp_all add: length_agenda_insert)
  have "distinct (map pin_no (mp_buttons s))"
    using ok(1) by (simp add: buttons_ok_def)
  note one = filter_pin [OF this ok(2)]
  have expiry: "\<exists>v. RTC1_IRQHandler (detection_timeout L) no_schedule n u = (Ret (), v) \<and> (\<forall>pin. \<not> pending pin v)
      \<and> reported v = reported s @ (if level' (pin_no b) = level (pin_no b) then [button_report level' b] else [])"
    if u: "later s2 u" and lv': "levels level' u" and due: "map fst (due_by (ticks_now u) (pl_agenda Q)) = [?t]" for u level'
  proof -
    note l = later_facts [OF u]
    have "filter (\<lambda>c. pending (pin_no c) u \<and> held (pin_no c) u = level' (pin_no c)) (mp_buttons s)
        = (if level' (pin_no b) = level (pin_no b) then [b] else [])"
      using one [of "\<lambda>c. held (pin_no c) u = level' (pin_no c)"] after2(4,5) unfolding l by auto
    then show ?thesis
      using detection_called [of Q u n L level' no_schedule] Q T2 len S(2) due lv' after2 ok(2) unfolding l by auto
  qed
  have bounce: "\<exists>v w R. gpiote_event_handler L (pin_no b) u = (Ret (), v) \<and> SWI_IRQHandler n v = (Ret (), w) \<and> settled R w
      \<and> pl_agenda R = pl_agenda P \<and> (\<forall>pin. \<not> pending pin w) \<and> reported w = reported s"
    if u: "later s2 u" and lv': "levels level' u" for u level'
  proof -
    note l = later_facts [OF u]
    show ?thesis
      using second_edge [of Q u n L level' "pin_no b"] Q T2(1) len S(2) lv' pin after2 without unfolding l by auto
  qed
  have early: "\<exists>w. detection_delay_timeout_handler note_button v = (Ret (), w) \<and> (\<forall>pin. \<not> pending pin w) \<and> reported w = reported s"
    if u: "later s1 u" and lv': "levels level' u" and second: "fst (app_timer_stop ?t u) = Ret NRF_SUCCESS" "gpiote_event_handler L (pin_no b) u = (Ret (), v)"
    for u v level'
  proof -
    note l = later_facts [OF u] and edge2 = edge_run [OF second pin lv']
    have "buttons_ok v" "levels level' v" "reported v = reported s" "\<not> pending q v" for q
      using after1 edge2(1,2) lv' l by (simp_all add: buttons_ok_def same_own_def levels_def)
    then show ?thesis
      using timeout_run [of v level'] by fastforce
  qed
  show ?thesis
  proof (rule exI [of _ s1], rule exI [of _ s2], rule exI [of _ Q], intro conjI edge swi Q latest ag)
  qed ((intro allI impI, elim conjE, rule expiry; assumption), (intro allI impI, elim conjE, rule bounce; assumption),
      (intro allI impI, elim conjE, rule early; assumption))
qed

text \<open>
  C38: A bounce of one button hides another one. All buttons share one timer, and the edge that ends a bounce stops it, even if another button
  is pending. Let the buttons \<open>a\<close> and \<open>b\<close> be pending, and let the pin of \<open>b\<close> change back, between interrupts of the timer that were
  handled. Then the timer is no longer in the list although \<open>a\<close> is still pending, and unless yet another edge starts it there is no time-out. The next edge
  of \<open>a\<close> is taken for a bounce, and stops the timer again: the push of \<open>a\<close> and its release are over without a report.
\<close>

theorem button_edge_lost:
  assumes S: "settled P s" "length (pl_agenda P) + 1 < n" and pins: "a < 32" "b < 32" "a \<noteq> b" "pending a s" "pending b s" and lv: "levels level s"
    and bounce: "fst (app_timer_stop (m_detection_delay_timer_id L) s) = Ret NRF_SUCCESS" "gpiote_event_handler L b s = (Ret (), s1)"
      "SWI_IRQHandler n s1 = (Ret (), s2)"
    and release: "fst (app_timer_stop (m_detection_delay_timer_id L) s2) = Ret NRF_SUCCESS" "gpiote_event_handler L a s2 = (Ret (), s3)"
      "SWI_IRQHandler n s3 = (Ret (), s4)"
  shows "\<exists>ag ag'. holds s2 ag \<and> m_detection_delay_timer_id L \<notin> fst ` set ag \<and> pending a s2
    \<and> holds s4 ag' \<and> m_detection_delay_timer_id L \<notin> fst ` set ag' \<and> \<not> pending a s4 \<and> \<not> pending b s4 \<and> reported s4 = reported s"
proof -
  obtain Q where Q: "settled Q s2" "pl_agenda Q = filter (\<lambda>x. fst x \<noteq> m_detection_delay_timer_id L) (pl_agenda P)" "levels level s2"
      "\<And>q. pending q s2 \<longleftrightarrow> pending q s \<and> q \<noteq> b" "reported s2 = reported s"
    using bounce_swi [OF S lv pins(2,5) bounce(1,2)] bounce(3) by auto
  have len: "length (pl_agenda Q) + 1 < n"
    using S(2) length_filter_le [of "\<lambda>x. fst x \<noteq> m_detection_delay_timer_id L" "pl_agenda P"] unfolding Q(2) by linarith
  have pend: "pending a s2"
    using Q(4) pins by simp
  obtain R where R: "settled R s4" "pl_agenda R = filter (\<lambda>x. fst x \<noteq> m_detection_delay_timer_id L) (pl_agenda Q)"
      "\<And>q. pending q s4 \<longleftrightarrow> pending q s2 \<and> q \<noteq> a" "reported s4 = reported s2"
    using bounce_swi [OF Q(1) len Q(3) pins(1) pend release(1,2)] release(3) by auto
  have "holds s2 (pl_agenda Q)" "holds s4 (pl_agenda R)" "m_detection_delay_timer_id L \<notin> fst ` set (pl_agenda Q)"
      "m_detection_delay_timer_id L \<notin> fst ` set (pl_agenda R)"
    using Q(1) R(1) Q(2) R(2) by (auto simp: settled_def plans_def)
  then show ?thesis
    using Q(4,5) R(3,4) pins by (intro exI [of _ "pl_agenda Q"] exI [of _ "pl_agenda R"]) simp
qed

definition demo_ready :: ear where
  "demo_ready = demo_board\<lparr>nodes := (\<lambda>p. (nodes demo_board p)\<lparr>p_timeout_handler := 0x201\<rparr>), mp_buttons := app_buttons demo_layout, m_button_count := 4,
     m_detection_delay := 1638\<rparr>"

lemmas demo_board_simps = demo_ready_def demo_board_def demo_layout_def app_buttons_def m_board_btn_list_def

lemma demo_ready_ok: "buttons_ok demo_ready" "\<not> pending pin demo_ready" "levels (\<lambda>_. False) demo_ready"
  by (simp_all add: buttons_ok_def pending_def levels_def demo_board_simps)

lemma demo_ready_settled: "settled \<lparr>pl_agenda = [], pl_running = {}, pl_period = \<lambda>_. 0\<rparr> demo_ready" "button_timer demo_layout demo_ready"
  by (auto simp: settled_def plans_def holds_def gap_def running_def periods_def fun_eq_iff all_running_def queue_ok_def elapsed_ok_def elapsed_def
      CONTEXT_QUEUE_SIZE_MAX_def button_timer_def module_initialized_def APP_TIMER_MIN_TIMEOUT_TICKS_def demo_board_simps)

text \<open>The edge reads the counter at 0; the counter's interrupt comes at 1640, when the delay of 1638 ticks is over.\<close>

theorem buttons_debounced_witness:
  "\<exists>s1 s2 v. gpiote_event_handler demo_layout 17 demo_ready = (Ret (), s1) \<and> SWI_IRQHandler 3 s1 = (Ret (), s2)
    \<and> RTC1_IRQHandler (detection_timeout demo_layout) no_schedule 3 (s2\<lparr>rtc_env := \<lambda>_. 1640, gpio_env := \<lambda>_ _. 0\<rparr>) = (Ret (), v)
    \<and> reported v = [(17, APP_BUTTON_PUSH)]"
proof -
  let ?b = "\<lparr>pin_no = 17, active_state = False, pull_cfg = BUTTON_PULL, button_handler = 0x241\<rparr>"
  let ?P = "\<lparr>pl_agenda = [], pl_running = {}, pl_period = \<lambda>_. 0\<rparr> :: plan"
  have b: "?b \<in> set (mp_buttons demo_ready)" and none: "\<forall>pin. \<not> pending pin demo_ready" and rep: "reported demo_ready = []"
    and start: "m_ticks_latest demo_ready = 0" "rtc_env demo_ready l = 0" "m_detection_delay demo_ready = 1638" "m_detection_delay_timer_id demo_layout = 0x100" for l
    by (simp_all add: demo_board_simps pending_def)
  have "length (pl_agenda ?P) + 2 < 3" "m_detection_delay_timer_id demo_layout \<notin> fst ` set (pl_agenda ?P)" by simp_all
  from buttons_debounced [OF demo_ready_settled(1) this(1) demo_ready_settled(2) this(2) demo_ready_ok(1) b none demo_ready_ok(3)]
  obtain s1 s2 Q where run: "gpiote_event_handler demo_layout 17 demo_ready = (Ret (), s1)" "SWI_IRQHandler 3 s1 = (Ret (), s2)"
    and latest: "m_ticks_latest s2 = 0"
    and expiry: "\<forall>u level'. later s2 u \<and> levels level' u
         \<and> map fst (due_by (ticks_now u) (agenda_insert 0x100 (unat (ticks_until 0 0 1638)) [])) = [0x100] \<longrightarrow>
         (\<exists>v. RTC1_IRQHandler (detection_timeout demo_layout) no_schedule 3 u = (Ret (), v) \<and> (\<forall>pin. \<not> pending pin v)
            \<and> reported v = reported demo_ready @ (if \<not> level' 17 then [button_report level' ?b] else []))"
    unfolding start by auto
  let ?u = "s2\<lparr>rtc_env := \<lambda>_. 1640, gpio_env := \<lambda>_ _. 0\<rparr>"
  have "ticks_until 0 0 1638 = 1638" "ticks_now ?u = 1640"
    by (simp_all add: ticks_until_def ticks_now_def ticks_diff_get_def MAX_RTC_COUNTER_VAL_def latest)
  then have "map fst (due_by (ticks_now ?u) (agenda_insert 0x100 (unat (ticks_until 0 0 1638)) [])) = [0x100 :: u32]"
    by (simp add: agenda_insert_def due_by_def)
  moreover have "later s2 ?u" "levels (\<lambda>_. False) ?u" by (simp_all add: later_def levels_def)
  ultimately obtain v where "RTC1_IRQHandler (detection_timeout demo_layout) no_schedule 3 ?u = (Ret (), v)" "reported v = [button_report (\<lambda>_. False) ?b]"
    using expiry [rule_format, of ?u "\<lambda>_. False"] unfolding rep by auto
  then show ?thesis
    using run by (auto simp: button_report_def)
qed

text \<open>The same device while the first two buttons are pending: the timer is due in 100 ticks.\<close>

definition demo_pressed :: ear where
  "demo_pressed = demo_ready\<lparr>mp_timer_id_head := 0x100, nodes := (nodes demo_ready)(0x100 := (nodes demo_ready 0x100)\<lparr>ticks_to_expire := 100, is_running := True\<rparr>),
     m_pin_transition := 0x60000\<rparr>"

lemma demo_pressed_settled: "settled \<lparr>pl_agenda = [(0x100, 100)], pl_running = {0x100}, pl_period = \<lambda>_. 0\<rparr> demo_pressed"
  by (auto simp: settled_def plans_def holds_def gap_def running_def periods_def fun_eq_iff all_running_def queue_ok_def elapsed_ok_def elapsed_def
      CONTEXT_QUEUE_SIZE_MAX_def demo_pressed_def demo_board_simps split: if_splits)

lemma demo_pressed_pending: "pending 17 demo_pressed" "pending 18 demo_pressed" "levels (\<lambda>_. False) demo_pressed"
  by (simp_all add: pending_def levels_def demo_pressed_def demo_board_simps)

lemma demo_pressed_stop: "fst (app_timer_stop (m_detection_delay_timer_id demo_layout) demo_pressed) = Ret NRF_SUCCESS"
  by (simp add: app_timer_stop_def timer_stop_op_schedule_def user_op_alloc_def next_op_def Let_def bnd_run andthen_run module_initialized_def
      put_node_def put_op_at_def user_op_enque_def timer_list_handler_sched_def demo_board_simps demo_pressed_def)

lemma demo_pressed_edge: "\<exists>s1. gpiote_event_handler demo_layout 18 demo_pressed = (Ret (), s1)"
  by (simp add: gpiote_event_handler_def gpio_def app_timer_stop_def demo_pressed_def
      timer_stop_op_schedule_def user_op_alloc_def next_op_def Let_def bnd_run andthen_run module_initialized_def access_def
      put_node_def put_op_at_def user_op_enque_def timer_list_handler_sched_def demo_board_simps)

lemma demo_pressed_swi:
  "fst (app_timer_stop (m_detection_delay_timer_id demo_layout) (snd (SWI_IRQHandler 3 (snd (gpiote_event_handler demo_layout 18 demo_pressed))))) = Ret NRF_SUCCESS
    \<and> fst (gpiote_event_handler demo_layout 17 (snd (SWI_IRQHandler 3 (snd (gpiote_event_handler demo_layout 18 demo_pressed))))) = Ret ()"
  unfolding numeral_3_eq_3
  by (simp add: gpiote_event_handler_def gpio_def app_timer_stop_def timer_stop_op_schedule_def user_op_alloc_def next_op_def Let_def bnd_run andthen_run
      module_initialized_def access_def put_node_def put_op_at_def user_op_enque_def timer_list_handler_sched_def demo_pressed_def demo_board_simps
      SWI_IRQHandler_def timer_list_handler_def elapsed_ticks_acquire_def list_deletions_handler_def timer_list_remove_def
      list_insertions_handler_def compare_reg_update_def rtc1_stop_def)

theorem button_edge_lost_witness:
  "\<exists>s1 s2 s3 s4. gpiote_event_handler demo_layout 18 demo_pressed = (Ret (), s1) \<and> SWI_IRQHandler 3 s1 = (Ret (), s2)
    \<and> gpiote_event_handler demo_layout 17 s2 = (Ret (), s3) \<and> SWI_IRQHandler 3 s3 = (Ret (), s4) \<and> pending 17 s2 \<and> \<not> pending 17 s4 \<and> reported s4 = []"
proof -
  let ?P = "\<lparr>pl_agenda = [(0x100, 100)], pl_running = {0x100 :: u32}, pl_period = \<lambda>_. 0 :: u32\<rparr>"
  have n: "length (pl_agenda ?P) + 1 < 3"
    by simp
  have pins: "(17 :: u8) < 32" "(18 :: u8) < 32" "(17 :: u8) \<noteq> 18"
    by simp_all
  obtain s1 where s1: "gpiote_event_handler demo_layout 18 demo_pressed = (Ret (), s1)"
    using demo_pressed_edge by blast
  obtain s2 Q where s2: "SWI_IRQHandler 3 s1 = (Ret (), s2)" "settled Q s2" "pl_agenda Q = filter (\<lambda>x. fst x \<noteq> m_detection_delay_timer_id demo_layout) (pl_agenda ?P)"
      "levels (\<lambda>_. False) s2" "\<forall>q. pending q s2 \<longleftrightarrow> pending q demo_pressed \<and> q \<noteq> 18"
    using bounce_swi [OF demo_pressed_settled n demo_pressed_pending(3) pins(2) demo_pressed_pending(2) demo_pressed_stop s1] by blast
  have stop: "fst (app_timer_stop (m_detection_delay_timer_id demo_layout) s2) = Ret NRF_SUCCESS" and "fst (gpiote_event_handler demo_layout 17 s2) = Ret ()"
    using demo_pressed_swi s1 s2(1) by simp_all
  then obtain s3 where s3: "gpiote_event_handler demo_layout 17 s2 = (Ret (), s3)"
    by (cases "gpiote_event_handler demo_layout 17 s2") simp
  have n2: "length (pl_agenda Q) + 1 < 3" and p2: "pending 17 s2"
    using s2(3,5) demo_pressed_pending(1) by (simp_all add: demo_layout_def)
  obtain s4 where s4: "SWI_IRQHandler 3 s3 = (Ret (), s4)"
    using bounce_swi [OF s2(2) n2 s2(4) pins(1) p2 stop s3] by blast
  have "reported demo_pressed = []"
    by (simp add: demo_pressed_def demo_board_simps)
  then show ?thesis
    using button_edge_lost [OF demo_pressed_settled n pins demo_pressed_pending demo_pressed_stop s1 s2(1) stop s3 s4] s1 s2(1) s3 s4 by auto
qed

end
