(* ===== verification/PmMutex.thy ===== *)
theory PmMutex
  imports SoftDevice
begin

text \<open>
  Two foundations of the peer manager, \<^verbatim>\<open>components/ble/peer_manager\<close>: groups of mutexes kept as bits of an array
  (\<^verbatim>\<open>pm_mutex.c\<close>) and buffers whose blocks each have a mutex (\<^verbatim>\<open>pm_buffer.c\<close>). A group is the memory from its address on, so
  that an access beyond the array reaches what lies behind it, as it does in C; the address \<^verbatim>\<open>NULL\<close> is \<open>None\<close>.
\<close>

unbundle bit_operations_syntax

subsection \<open>Mutexes\<close>

type_synonym mutex_group = "nat \<Rightarrow> u8"

definition MUTEX_STORAGE_SIZE :: "u32 \<Rightarrow> u32" where
  "MUTEX_STORAGE_SIZE number_of_mutexes = drop_bit 3 (7 + number_of_mutexes)"

text \<open>Nothing runs between the check before the critical region and the one in it, so that they are one here.\<close>

definition lock_by_mask :: "u8 \<Rightarrow> u8 \<Rightarrow> bool \<times> u8" where
  "lock_by_mask mutex mutex_mask = (if mutex AND mutex_mask = 0 then (True, mutex OR mutex_mask) else (False, mutex))"

definition pm_mutex_init :: "mutex_group option \<Rightarrow> u16 \<Rightarrow> mutex_group option" where
  "pm_mutex_init p_mutex mutex_size =
     (case p_mutex of
        None \<Rightarrow> None
      | Some m \<Rightarrow> Some (\<lambda>i. if i < unat (MUTEX_STORAGE_SIZE (ucast mutex_size)) then 0 else m i))"

definition pm_mutex_lock :: "mutex_group option \<Rightarrow> u16 \<Rightarrow> bool \<times> mutex_group option" where
  "pm_mutex_lock p_mutex mutex_id =
     (case p_mutex of
        None \<Rightarrow> (False, None)
      | Some m \<Rightarrow>
          let i = unat (drop_bit 3 mutex_id);
              (success, b) = lock_by_mask (m i) (push_bit (unat (mutex_id AND 0x07)) 1)
          in (success, Some (m(i := b))))"

definition pm_mutex_unlock :: "mutex_group option \<Rightarrow> u16 \<Rightarrow> mutex_group option" where
  "pm_mutex_unlock p_mutex mutex_id =
     (let mutex_base = (ucast (drop_bit 3 mutex_id) :: u8);
          mutex_mask = (push_bit (unat (mutex_id AND 0x07)) 1 :: u8)
      in case p_mutex of
           None \<Rightarrow> None
         | Some m \<Rightarrow>
             if m (unat mutex_base) AND mutex_mask \<noteq> 0
             then Some (m(unat mutex_base := m (unat mutex_base) AND NOT mutex_mask)) else Some m)"

lemma loop_step_less:
  fixes i n :: "'a::len word"
  assumes "i < n"
  shows "unat (i + 1) = Suc (unat i)" and "unat n - unat (i + 1) < unat n - unat i"
proof -
  have "unat i < unat n" "unat n < 2 ^ LENGTH('a)"
    using assms by (simp_all add: word_less_nat_alt)
  then have "unat i + 1 < 2 ^ LENGTH('a)"
    by linarith
  then show "unat (i + 1) = Suc (unat i)"
    by (simp add: unat_word_ariths)
  then show "unat n - unat (i + 1) < unat n - unat i"
    using assms by (simp add: word_less_nat_alt)
qed

function lock_first_loop :: "mutex_group option \<Rightarrow> u16 \<Rightarrow> u16 \<Rightarrow> u16 \<times> mutex_group option" where
  "lock_first_loop p_mutex mutex_size i =
     (if i < mutex_size
      then (case pm_mutex_lock p_mutex i of
              (True, p_mutex) \<Rightarrow> (i, p_mutex)
            | (False, p_mutex) \<Rightarrow> lock_first_loop p_mutex mutex_size (i + 1))
      else (mutex_size, p_mutex))"
  by pat_completeness auto

termination
  by (relation "measure (\<lambda>(_, n, i). unat n - unat i)") (simp_all add: loop_step_less(2))

declare lock_first_loop.simps [simp del]

definition pm_mutex_lock_first_available :: "mutex_group option \<Rightarrow> u16 \<Rightarrow> u16 \<times> mutex_group option" where
  "pm_mutex_lock_first_available p_mutex mutex_size =
     (if p_mutex \<noteq> None then lock_first_loop p_mutex mutex_size 0 else (mutex_size, p_mutex))"

definition pm_mutex_lock_status_get :: "mutex_group option \<Rightarrow> u16 \<Rightarrow> bool" where
  "pm_mutex_lock_status_get p_mutex mutex_id =
     (case p_mutex of
        None \<Rightarrow> True
      | Some m \<Rightarrow> m (unat (drop_bit 3 mutex_id)) AND push_bit (unat (mutex_id AND 0x07)) 1 \<noteq> 0)"

subsection \<open>The set of the locked mutexes\<close>

definition locked :: "mutex_group \<Rightarrow> nat set" where
  "locked m = {i. bit (m (i div 8)) (i mod 8)}"

lemma and_exp_bit: "(w :: 'a::len word) AND push_bit k 1 \<noteq> 0 \<longleftrightarrow> bit w k"
proof
  assume "w AND push_bit k 1 \<noteq> 0"
  then obtain j where "bit (w AND push_bit k 1) j"
    by (metis bit_0_eq bit_eqI bot_apply bot_bool_def)
  then show "bit w k"
    by (auto simp: bit_and_iff bit_exp_iff)
next
  assume "bit w k"
  then have "bit (w AND push_bit k 1) k"
    by (auto simp: bit_and_iff bit_exp_iff possible_bit_word dest: bit_imp_le_length)
  then show "w AND push_bit k 1 \<noteq> 0"
    by auto
qed

lemma and_exp_free: "(w :: 'a::len word) AND push_bit k 1 = 0 \<longleftrightarrow> \<not> bit w k" "(w :: 'a::len word) AND 2 ^ k = 0 \<longleftrightarrow> \<not> bit w k"
  using and_exp_bit [of w k] by (auto simp: push_bit_eq_mult)

lemma index_split: "unat (drop_bit 3 i) = unat i div 8" "unat (i AND 0x07) = unat i mod 8" for i :: u16
proof -
  show "unat (drop_bit 3 i) = unat i div 8"
    by (simp add: drop_bit_eq_div unat_div)
  have "i AND 0x07 = take_bit 3 i"
    by (simp add: take_bit_eq_mask mask_eq_exp_minus_1)
  then show "unat (i AND 0x07) = unat i mod 8"
    by (simp only: unsigned_take_bit_eq) (simp add: take_bit_eq_mod)
qed

lemma locked_upd:
  assumes "b = (if v then m (i div 8) OR push_bit (i mod 8) 1 else m (i div 8) AND NOT (push_bit (i mod 8) 1))"
  shows "locked (m(i div 8 := b)) = (if v then insert i (locked m) else locked m - {i})"
proof -
  have "j = i" if "j div 8 = i div 8" "j mod 8 = i mod 8" for j
    using that by (metis div_mod_decomp)
  then show ?thesis
    unfolding assms
    by (auto simp: locked_def bit_or_iff bit_and_iff bit_not_iff bit_exp_iff possible_bit_word dest: bit_imp_le_length)
qed

lemma lock_facts:
  "fst (pm_mutex_lock (Some m) i) \<longleftrightarrow> unat i \<notin> locked m"
  "\<exists>m'. snd (pm_mutex_lock (Some m) i) = Some m' \<and> locked m' = insert (unat i) (locked m)"
proof -
  let ?b = "m (unat i div 8)" and ?k = "unat i mod 8"
  have run: "pm_mutex_lock (Some m) i = (if unat i \<notin> locked m then (True, Some (m(unat i div 8 := ?b OR push_bit ?k 1))) else (False, Some m))"
    by (simp add: pm_mutex_lock_def lock_by_mask_def index_split Let_def and_exp_free locked_def)
  show "fst (pm_mutex_lock (Some m) i) \<longleftrightarrow> unat i \<notin> locked m"
    by (simp add: run)
  show "\<exists>m'. snd (pm_mutex_lock (Some m) i) = Some m' \<and> locked m' = insert (unat i) (locked m)"
    using locked_upd [of _ True m "unat i"] by (auto simp: run insert_absorb)
qed

lemma unlock_facts:
  assumes "unat i < 2048"
  shows "\<exists>m'. pm_mutex_unlock (Some m) i = Some m' \<and> locked m' = locked m - {unat i}"
proof -
  let ?b = "m (unat i div 8)" and ?k = "unat i mod 8"
  have "unat (ucast (drop_bit 3 i) :: u8) = unat i div 8"
    using assms by (simp add: unsigned_ucast_eq index_split take_bit_nat_eq_self)
  then have run: "pm_mutex_unlock (Some m) i = (if unat i \<in> locked m then Some (m(unat i div 8 := ?b AND NOT (push_bit ?k 1))) else Some m)"
    by (simp add: pm_mutex_unlock_def index_split Let_def locked_def and_exp_free)
  show ?thesis
    using locked_upd [of _ False m "unat i"] by (auto simp: run)
qed

lemma status_locked: "pm_mutex_lock_status_get (Some m) i \<longleftrightarrow> unat i \<in> locked m"
  by (simp add: pm_mutex_lock_status_get_def index_split locked_def and_exp_free)

lemma init_locked: "\<exists>m'. pm_mutex_init (Some m) n = Some m' \<and> locked m' \<inter> {..<unat n} = {}"
proof -
  have "unat (MUTEX_STORAGE_SIZE (ucast n)) = (7 + unat n) div 8"
  proof -
    have "unat (7 + ucast n :: u32) = 7 + unat n"
      using unsigned_less [of n, where 'a = nat] by (simp add: unat_word_ariths unsigned_ucast_eq take_bit_nat_eq_self)
    then show ?thesis
      by (simp add: MUTEX_STORAGE_SIZE_def drop_bit_eq_div unat_div)
  qed
  then show ?thesis
    by (auto simp: pm_mutex_init_def locked_def)
qed

subsection \<open>What users of a group rely on\<close>

locale lock_table =
  fixes lock :: "'g \<Rightarrow> u16 \<Rightarrow> bool \<times> 'g"
    and unlock :: "'g \<Rightarrow> u16 \<Rightarrow> 'g"
    and status :: "'g \<Rightarrow> u16 \<Rightarrow> bool"
    and held :: "'g \<Rightarrow> nat set"
    and limit :: nat
  assumes lock_result: "fst (lock g i) \<longleftrightarrow> unat i \<notin> held g"
    and lock_held: "held (snd (lock g i)) = insert (unat i) (held g)"
    and unlock_held: "unat i < limit \<Longrightarrow> held (unlock g i) = held g - {unat i}"
    and status_held: "status g i \<longleftrightarrow> unat i \<in> held g"
begin

lemma lock_excludes: "fst (lock (snd (lock g i)) j) \<longleftrightarrow> j \<noteq> i \<and> fst (lock g j)"
  by (auto simp: lock_result lock_held word_unat_eq_iff)

lemma unlock_frees: "unat i < limit \<Longrightarrow> fst (lock (unlock g i) j) \<longleftrightarrow> j = i \<or> fst (lock g j)"
  by (auto simp: lock_result unlock_held word_unat_eq_iff)

lemma unlock_all:
  "\<forall>i \<in> set is. unat i < limit \<Longrightarrow> held (fold (\<lambda>i g. unlock g i) is g) = held g - unat ` set is"
  by (induction "is" arbitrary: g) (auto simp: unlock_held)

end

text \<open>An array with an address is such a table. \<open>2048\<close> is where the index of the byte no longer fits the 8 bits that unlocking has for it.\<close>

definition group_lock :: "mutex_group \<Rightarrow> u16 \<Rightarrow> bool \<times> mutex_group" where
  "group_lock m i = (fst (pm_mutex_lock (Some m) i), the (snd (pm_mutex_lock (Some m) i)))"

definition group_unlock :: "mutex_group \<Rightarrow> u16 \<Rightarrow> mutex_group" where
  "group_unlock m i = the (pm_mutex_unlock (Some m) i)"

lemma group_simps: "pm_mutex_lock (Some m) i = (fst (group_lock m i), Some (snd (group_lock m i)))" "pm_mutex_unlock (Some m) i = Some (group_unlock m i)"
proof -
  obtain m' where "snd (pm_mutex_lock (Some m) i) = Some m'"
    using lock_facts(2) [of m i] by blast
  then show "pm_mutex_lock (Some m) i = (fst (group_lock m i), Some (snd (group_lock m i)))"
    by (simp add: group_lock_def prod_eq_iff)
  have "pm_mutex_unlock (Some m) i \<noteq> None"
    by (simp add: pm_mutex_unlock_def Let_def)
  then show "pm_mutex_unlock (Some m) i = Some (group_unlock m i)"
    by (simp add: group_unlock_def)
qed

interpretation mutex: lock_table group_lock group_unlock "\<lambda>m. pm_mutex_lock_status_get (Some m)" locked 2048
proof unfold_locales
  fix m :: mutex_group and i :: u16
  show "fst (group_lock m i) \<longleftrightarrow> unat i \<notin> locked m"
    by (simp only: group_lock_def fst_conv lock_facts(1))
  obtain m' where "snd (pm_mutex_lock (Some m) i) = Some m'" "locked m' = insert (unat i) (locked m)"
    using lock_facts(2) [of m i] by blast
  then show "locked (snd (group_lock m i)) = insert (unat i) (locked m)"
    by (simp only: group_lock_def snd_conv option.sel)
  show "locked (group_unlock m i) = locked m - {unat i}" if lim: "unat i < 2048"
  proof -
    obtain m' where "pm_mutex_unlock (Some m) i = Some m'" "locked m' = locked m - {unat i}"
      using unlock_facts [OF lim, of m] by blast
    then show ?thesis
      by (simp only: group_unlock_def option.sel)
  qed
  show "pm_mutex_lock_status_get (Some m) i \<longleftrightarrow> unat i \<in> locked m"
    by (rule status_locked)
qed

end
