(* ===== verification/PmBuffer.thy ===== *)
theory PmBuffer
  imports PmMutex
begin

text \<open>
  \<^verbatim>\<open>components/ble/peer_manager/pm_buffer.c\<close>: a buffer of blocks of equal size, each with a mutex. A run of
  blocks is acquired first fit; what a failed attempt leaves behind.
\<close>

unbundle bit_operations_syntax

subsection \<open>The program\<close>

definition PM_BUFFER_INVALID_ID :: u8 where "PM_BUFFER_INVALID_ID = 0xFF"

record pm_buffer =
  p_memory :: u32
  p_mutex :: "mutex_group option"
  n_blocks :: u32
  block_size :: u32

definition BUFFER_IS_VALID :: "pm_buffer option \<Rightarrow> bool" where
  "BUFFER_IS_VALID p_buffer = (case p_buffer of None \<Rightarrow> False | Some b \<Rightarrow> p_memory b \<noteq> NULL \<and> p_mutex b \<noteq> None)"

definition pm_buffer_init :: "pm_buffer option \<Rightarrow> u32 \<Rightarrow> u32 \<Rightarrow> mutex_group option \<Rightarrow> u32 \<Rightarrow> u32 \<Rightarrow> u32 \<Rightarrow> u32 \<times> pm_buffer option" where
  "pm_buffer_init p_buffer p_buffer_memory buffer_memory_size p_mutex_memory mutex_memory_size blocks size_of_block =
     (if p_buffer \<noteq> None \<and> p_buffer_memory \<noteq> NULL \<and> p_mutex_memory \<noteq> None \<and> buffer_memory_size \<ge> blocks * size_of_block
        \<and> mutex_memory_size \<ge> MUTEX_STORAGE_SIZE blocks \<and> blocks \<noteq> 0 \<and> size_of_block \<noteq> 0
      then (NRF_SUCCESS, Some \<lparr>p_memory = p_buffer_memory, p_mutex = pm_mutex_init p_mutex_memory (ucast blocks), n_blocks = blocks, block_size = size_of_block\<rparr>)
      else (NRF_ERROR_INVALID_PARAM, p_buffer))"

definition pm_buffer_release :: "pm_buffer option \<Rightarrow> u8 \<Rightarrow> pm_buffer option" where
  "pm_buffer_release p_buffer block_id =
     (case p_buffer of
        None \<Rightarrow> None
      | Some b \<Rightarrow>
          if BUFFER_IS_VALID p_buffer \<and> block_id \<noteq> PM_BUFFER_INVALID_ID \<and> pm_mutex_lock_status_get (p_mutex b) (ucast block_id)
          then Some (b\<lparr>p_mutex := pm_mutex_unlock (p_mutex b) (ucast block_id)\<rparr>) else Some b)"

text \<open>The address of a block, \<open>NULL\<close> when it has not been acquired.\<close>

definition pm_buffer_ptr_get :: "pm_buffer option \<Rightarrow> u8 \<Rightarrow> u32" where
  "pm_buffer_ptr_get p_buffer block_id =
     (case p_buffer of
        None \<Rightarrow> NULL
      | Some b \<Rightarrow>
          if \<not> BUFFER_IS_VALID p_buffer then NULL
          else if block_id \<noteq> PM_BUFFER_INVALID_ID \<and> pm_mutex_lock_status_get (p_mutex b) (ucast block_id) then p_memory b + ucast block_id * block_size b
          else NULL)"

text \<open>The inner loop gives the blocks from \<open>j\<close> to \<open>i\<close> back.\<close>

function release_loop :: "pm_buffer \<Rightarrow> u8 \<Rightarrow> u8 \<Rightarrow> pm_buffer" where
  "release_loop b i j = (if j < i then release_loop (the (pm_buffer_release (Some b) j)) i (j + 1) else b)"
  by pat_completeness auto

termination
  by (relation "measure (\<lambda>(_, i, j). unat i - unat j)") (simp_all add: loop_step_less(2))

declare release_loop.simps [simp del]

text \<open>The outer loop. Its counter has 8 bits and its bound 32, so that it may run for ever: fuel, and \<open>None\<close> when it is used up.\<close>

primrec acquire_loop :: "nat \<Rightarrow> pm_buffer \<Rightarrow> u32 \<Rightarrow> u8 \<Rightarrow> u8 \<Rightarrow> (u8 \<times> pm_buffer) option" where
  "acquire_loop 0 b n i first_locked_mutex = None"
| "acquire_loop (Suc k) b n i first_locked_mutex =
     (if ucast i < n_blocks b
      then (case pm_mutex_lock (p_mutex b) (ucast i) of
              (True, m) \<Rightarrow>
                let first_locked_mutex = (if first_locked_mutex = PM_BUFFER_INVALID_ID then i else first_locked_mutex)
                in if ucast i - ucast first_locked_mutex + 1 = n then Some (first_locked_mutex, b\<lparr>p_mutex := m\<rparr>)
                   else acquire_loop k (b\<lparr>p_mutex := m\<rparr>) n (i + 1) first_locked_mutex
            | (False, m) \<Rightarrow>
                if first_locked_mutex \<noteq> PM_BUFFER_INVALID_ID
                then acquire_loop k (release_loop (b\<lparr>p_mutex := m\<rparr>) i first_locked_mutex) n (i + 1) PM_BUFFER_INVALID_ID
                else acquire_loop k (b\<lparr>p_mutex := m\<rparr>) n (i + 1) first_locked_mutex)
      else Some (PM_BUFFER_INVALID_ID, b))"

definition pm_buffer_block_acquire :: "nat \<Rightarrow> pm_buffer option \<Rightarrow> u32 \<Rightarrow> (u8 \<times> pm_buffer option) option" where
  "pm_buffer_block_acquire k p_buffer n =
     (case p_buffer of
        None \<Rightarrow> Some (PM_BUFFER_INVALID_ID, None)
      | Some b \<Rightarrow>
          if \<not> BUFFER_IS_VALID p_buffer then Some (PM_BUFFER_INVALID_ID, p_buffer)
          else map_option (\<lambda>(block_id, b). (block_id, Some b)) (acquire_loop k b n 0 PM_BUFFER_INVALID_ID))"

subsection \<open>Which blocks are taken\<close>

text \<open>A buffer whose blocks \<open>H\<close> are taken. Up to 255 blocks have an identifier of their own.\<close>

definition buffer_holds :: "pm_buffer \<Rightarrow> nat set \<Rightarrow> bool" where
  "buffer_holds b H \<longleftrightarrow> p_memory b \<noteq> NULL \<and> (\<exists>m. p_mutex b = Some m \<and> locked m = H) \<and> unat (n_blocks b) \<le> 255"

definition same_buffer :: "pm_buffer \<Rightarrow> pm_buffer \<Rightarrow> bool" where
  "same_buffer b b' \<longleftrightarrow> p_memory b' = p_memory b \<and> n_blocks b' = n_blocks b \<and> block_size b' = block_size b"

lemma same_buffer_trans: "same_buffer b b' \<Longrightarrow> same_buffer b' b'' \<Longrightarrow> same_buffer b b''"
  by (simp add: same_buffer_def)

lemma invalid_id: "unat PM_BUFFER_INVALID_ID = 255"
  by (simp add: PM_BUFFER_INVALID_ID_def)

lemma ucast_id: "unat (ucast (block_id :: u8) :: u16) = unat block_id" "unat (ucast block_id :: u32) = unat block_id"
proof -
  have "unat block_id < 2 ^ 8"
    using unsigned_less [of block_id, where 'a = nat] by simp
  then show "unat (ucast block_id :: u16) = unat block_id" "unat (ucast block_id :: u32) = unat block_id"
    by (simp_all add: unsigned_ucast_eq take_bit_nat_eq_self)
qed

lemma released:
  assumes "buffer_holds b H" and "unat j < 255"
  shows "\<exists>b'. pm_buffer_release (Some b) j = Some b' \<and> buffer_holds b' (H - {unat j}) \<and> same_buffer b b'"
proof -
  obtain m where m: "p_mutex b = Some m" "locked m = H"
    using assms(1) by (auto simp: buffer_holds_def)
  have "j \<noteq> PM_BUFFER_INVALID_ID"
    using assms(2) invalid_id by auto
  moreover have "locked (group_unlock m (ucast j)) = H - {unat j}"
    using mutex.unlock_held [of "ucast j" m] assms(2) m(2) by (simp add: ucast_id)
  ultimately show ?thesis
    using assms(1) m
    by (auto simp: pm_buffer_release_def BUFFER_IS_VALID_def buffer_holds_def same_buffer_def group_simps status_locked ucast_id)
qed

lemma release_run:
  assumes "buffer_holds b H" and "unat i \<le> 255"
  shows "buffer_holds (release_loop b i j) (H - {unat j..<unat i}) \<and> same_buffer b (release_loop b i j)"
  using assms
proof (induction b i j arbitrary: H rule: release_loop.induct)
  case (1 b i j)
  show ?case
  proof (cases "j < i")
    case True
    then have "unat j < 255"
      using "1.prems"(2) by (simp add: word_less_nat_alt)
    then obtain b' where b': "pm_buffer_release (Some b) j = Some b'" "buffer_holds b' (H - {unat j})" "same_buffer b b'"
      using released "1.prems"(1) by blast
    have "H - {unat j} - {unat (j + 1)..<unat i} = H - {unat j..<unat i}"
      using loop_step_less(1) [OF True] True by (auto simp: word_less_nat_alt)
    then have "buffer_holds (release_loop b' i (j + 1)) (H - {unat j..<unat i}) \<and> same_buffer b' (release_loop b' i (j + 1))"
      using "1.IH" [OF True, of "H - {unat j}"] b'(1,2) "1.prems"(2) by simp
    moreover have "release_loop b i j = release_loop b' i (j + 1)"
      using True b'(1) by (subst release_loop.simps) simp
    ultimately show ?thesis
      using b'(3) same_buffer_trans by metis
  next
    case False
    then have "release_loop b i j = b" "{unat j..<unat i} = {}"
      by (subst release_loop.simps, simp_all add: word_less_nat_alt)
    then show ?thesis
      using "1.prems" by (simp add: same_buffer_def)
  qed
qed

subsection \<open>Acquiring\<close>

text \<open>The result of an attempt to acquire \<open>n\<close> of \<open>N\<close> blocks when those of \<open>H\<close> are taken.\<close>

definition acquired :: "nat set \<Rightarrow> nat \<Rightarrow> nat \<Rightarrow> u8 \<Rightarrow> pm_buffer \<Rightarrow> bool" where
  "acquired H N n r b' \<longleftrightarrow>
     (if r \<noteq> PM_BUFFER_INVALID_ID
      then unat r + n \<le> N \<and> {unat r..<unat r + n} \<inter> H = {} \<and> (\<forall>c < unat r. {c..<c + n} \<inter> H \<noteq> {}) \<and> buffer_holds b' (H \<union> {unat r..<unat r + n})
      else (\<forall>c. c + n \<le> N \<longrightarrow> {c..<c + n} \<inter> H \<noteq> {}) \<and> buffer_holds b' (H \<union> {c. c < N \<and> {c..<N} \<inter> H = {}}))"

text \<open>The state of the outer loop at \<open>i\<close>: the free run that ends there begins at \<open>a\<close> and has been locked.\<close>

definition acquiring :: "nat set \<Rightarrow> nat \<Rightarrow> nat \<Rightarrow> pm_buffer \<Rightarrow> u8 \<Rightarrow> u8 \<Rightarrow> bool" where
  "acquiring H n a b i first \<longleftrightarrow> buffer_holds b (H \<union> {a..<unat i}) \<and> {a..<unat i} \<inter> H = {} \<and> unat i \<le> unat (n_blocks b)
     \<and> unat (if first = PM_BUFFER_INVALID_ID then i else first) = a \<and> a \<le> unat i \<and> unat i - a < n \<and> (a = 0 \<or> a - 1 \<in> H)
     \<and> (\<forall>c < a. {c..<c + n} \<inter> H \<noteq> {})"

lemma acquire_stop:
  assumes "acquiring H n a b i first" and "unat i = unat (n_blocks b)"
  shows "acquired H (unat (n_blocks b)) n PM_BUFFER_INVALID_ID b"
proof -
  have inv: "buffer_holds b (H \<union> {a..<unat (n_blocks b)})" "{a..<unat (n_blocks b)} \<inter> H = {}" "a \<le> unat (n_blocks b)" "unat (n_blocks b) - a < n"
      "a = 0 \<or> a - 1 \<in> H" "\<forall>c < a. {c..<c + n} \<inter> H \<noteq> {}"
    using assms(1) [unfolded acquiring_def assms(2)] by blast+
  have "{c. c < unat (n_blocks b) \<and> {c..<unat (n_blocks b)} \<inter> H = {}} = {a..<unat (n_blocks b)}"
  proof -
    have "a \<le> c" if c: "c < unat (n_blocks b)" "{c..<unat (n_blocks b)} \<inter> H = {}" for c
    proof (rule ccontr)
      assume "\<not> a \<le> c"
      then have "a - 1 \<in> {c..<unat (n_blocks b)} \<inter> H"
        using inv(3,5) by auto
      then show False
        using c(2) by blast
    qed
    moreover have "{c..<unat (n_blocks b)} \<inter> H = {}" if "a \<le> c" for c
    proof -
      have "{c..<unat (n_blocks b)} \<subseteq> {a..<unat (n_blocks b)}"
        using that by auto
      then show ?thesis
        using inv(2) by blast
    qed
    ultimately show ?thesis
      by (intro set_eqI iffI) (unfold mem_Collect_eq atLeastLessThan_iff, blast+)
  qed
  moreover have "{c..<c + n} \<inter> H \<noteq> {}" if "c + n \<le> unat (n_blocks b)" for c
  proof (cases "c < a")
    case False
    then show ?thesis
      using inv(4) that by linarith
  qed (use inv(6) in blast)
  ultimately show ?thesis
    using inv(1) by (simp add: acquired_def)
qed

lemma run_length:
  fixes i f :: u8 and n :: u32
  assumes "unat f \<le> unat i"
  shows "ucast i - ucast f + 1 = n \<longleftrightarrow> unat i - unat f + 1 = unat n"
proof -
  have "unat (ucast i - ucast f + 1 :: u32) = unat i - unat f + 1"
    using assms unsigned_less [of i, where 'a = nat] by (simp add: unat_word_ariths unat_sub ucast_id word_le_nat_alt)
  then show ?thesis
    by (simp add: word_unat_eq_iff)
qed

lemma acquire_runs:
  assumes "acquiring H (unat n) a b i first" and "unat (n_blocks b) - unat i < k"
  shows "\<exists>r b'. acquire_loop k b n i first = Some (r, b') \<and> same_buffer b b' \<and> acquired H (unat (n_blocks b)) (unat n) r b'"
  using assms
proof (induction k arbitrary: a b i first)
  case (Suc k)
  note inv = Suc.prems(1) [unfolded acquiring_def]
  obtain m where m: "p_mutex b = Some m" "locked m = H \<union> {a..<unat i}" and N: "unat (n_blocks b) \<le> 255" "p_memory b \<noteq> NULL"
    using inv by (auto simp: buffer_holds_def)
  show ?case
  proof (cases "unat i = unat (n_blocks b)")
    case True
    then have "acquire_loop (Suc k) b n i first = Some (PM_BUFFER_INVALID_ID, b)"
      by (simp add: word_less_nat_alt ucast_id)
    then show ?thesis
      using acquire_stop [OF Suc.prems(1) True] by (simp add: same_buffer_def)
  next
    case False
    then have lt: "ucast i < n_blocks b" "unat i < 255"
      using inv N by (simp_all add: word_less_nat_alt ucast_id)
    then have "unat (i + 1) = Suc (unat i)" "i \<noteq> PM_BUFFER_INVALID_ID"
      using loop_step_less(1) [of i PM_BUFFER_INVALID_ID] invalid_id by (auto simp: word_less_nat_alt)
    note i = this
    let ?m = "snd (group_lock m (ucast i))"
    let ?b = "b\<lparr>p_mutex := Some ?m\<rparr>"
    have same: "same_buffer b ?b" "n_blocks ?b = n_blocks b"
      by (simp_all add: same_buffer_def)
    have held: "locked ?m = insert (unat i) (H \<union> {a..<unat i})" "fst (group_lock m (ucast i)) \<longleftrightarrow> unat i \<notin> H"
      using mutex.lock_held [of m "ucast i"] mutex.lock_result [of m "ucast i"] m(2) by (simp_all add: ucast_id)
    have fuel: "unat (n_blocks b) - unat (i + 1) < k"
      using Suc.prems(2) i(1) False inv by linarith
    show ?thesis
    proof (cases "unat i \<in> H")
      case free: False
      let ?first = "if first = PM_BUFFER_INVALID_ID then i else first"
      have a: "unat ?first = a"
        using inv by simp
      have bh: "buffer_holds ?b (H \<union> {a..<Suc (unat i)})"
        using held(1) N inv by (auto simp: buffer_holds_def atLeastLessThanSuc)
      have free': "{a..<Suc (unat i)} \<inter> H = {}"
      proof -
        have le: "a \<le> unat i" and d: "{a..<unat i} \<inter> H = {}"
          using inv by blast+
        from le have "{a..<Suc (unat i)} = insert (unat i) {a..<unat i}"
          by (simp add: atLeastLessThanSuc)
        then show ?thesis
          using d free by simp
      qed
      have first: "?first \<noteq> PM_BUFFER_INVALID_ID"
        using i(2) by simp
      have len: "ucast i - ucast ?first + 1 = n \<longleftrightarrow> unat i - a + 1 = unat n"
        using run_length [of ?first i n] inv unfolding a by blast
      show ?thesis
      proof (cases "unat i - a + 1 = unat n")
        case True
        have run: "acquire_loop (Suc k) b n i first = Some (?first, ?b)"
          using lt(1) held(2) free len True by (simp add: m(1) group_simps Let_def)
        have "a + unat n = Suc (unat i)" "a + unat n \<le> unat (n_blocks b)"
          using True inv False by linarith+
        then have "acquired H (unat (n_blocks b)) (unat n) ?first ?b"
          using first bh free' inv unfolding acquired_def a by simp
        then show ?thesis
          using run same(1) by blast
      next
        case more: False
        have run: "acquire_loop (Suc k) b n i first = acquire_loop k ?b n (i + 1) ?first"
          using lt(1) held(2) free len more by (simp add: m(1) group_simps Let_def)
        have "acquiring H (unat n) a ?b (i + 1) ?first"
          unfolding acquiring_def i(1) using bh free' inv False more first a by (auto simp: same(2))
        from Suc.IH [OF this] show ?thesis
          unfolding run same(2) using fuel same_buffer_trans [OF same(1)] by blast
      qed
    next
      case taken: True
      let ?b' = "if first \<noteq> PM_BUFFER_INVALID_ID then release_loop ?b i first else ?b"
      have bh: "buffer_holds ?b (H \<union> {a..<unat i})"
        using held(1) taken N by (auto simp: buffer_holds_def insert_absorb)
      have run: "acquire_loop (Suc k) b n i first = acquire_loop k ?b' n (i + 1) PM_BUFFER_INVALID_ID"
        using lt(1) held(2) taken by (simp add: m(1) group_simps)
      have bh': "buffer_holds ?b' H \<and> same_buffer b ?b'"
      proof (cases "first = PM_BUFFER_INVALID_ID")
        case True
        then show ?thesis
          using bh inv same(1) by simp
      next
        case False
        then have "unat first = a" "H \<union> {a..<unat i} - {a..<unat i} = H"
          using inv by auto
        then show ?thesis
          using release_run [OF bh, of i first] lt(2) False same_buffer_trans [OF same(1)] by simp
      qed
      then have nb: "n_blocks ?b' = n_blocks b"
        by (simp add: same_buffer_def)
      have "{c..<c + unat n} \<inter> H \<noteq> {}" if c: "c < Suc (unat i)" for c
      proof (cases "c < a")
        case False
        then have "unat i \<in> {c..<c + unat n} \<inter> H"
          using c inv taken by auto
        then show ?thesis
          by blast
      qed (use inv in blast)
      then have none: "\<forall>c < Suc (unat i). {c..<c + unat n} \<inter> H \<noteq> {}"
        by blast
      have "Suc (unat i) \<le> unat (n_blocks b)" "0 < unat n"
        using inv False by linarith+
      with none bh' have "acquiring H (unat n) (Suc (unat i)) ?b' (i + 1) PM_BUFFER_INVALID_ID"
        unfolding acquiring_def nb by (simp only: i(1)) (simp add: i(1) taken)
      from Suc.IH [OF this] show ?thesis
        unfolding run nb using fuel bh' same_buffer_trans by blast
    qed
  qed
qed simp

lemma acquire_total:
  assumes "buffer_holds b H" and "n \<noteq> 0" and "256 \<le> k"
  obtains r b' where "pm_buffer_block_acquire k (Some b) n = Some (r, Some b')" and "same_buffer b b'" and "acquired H (unat (n_blocks b)) (unat n) r b'"
proof -
  have "acquiring H (unat n) 0 b 0 PM_BUFFER_INVALID_ID"
    using assms(1,2) by (simp add: acquiring_def unat_gt_0)
  moreover have "unat (n_blocks b) - unat (0 :: u8) < k"
    using assms(1,3) by (simp add: buffer_holds_def)
  ultimately obtain r b' where "acquire_loop k b n 0 PM_BUFFER_INVALID_ID = Some (r, b')" "same_buffer b b'" "acquired H (unat (n_blocks b)) (unat n) r b'"
    using acquire_runs by blast
  moreover have "BUFFER_IS_VALID (Some b)"
    using assms(1) by (auto simp: buffer_holds_def BUFFER_IS_VALID_def)
  ultimately show thesis
    by (intro that [of r b']) (simp_all add: pm_buffer_block_acquire_def)
qed

subsection \<open>Properties\<close>

text \<open>Four blocks of 16 bytes, of which block 1 is taken, and the same with none taken.\<close>

definition demo_buffer :: "u8 \<Rightarrow> pm_buffer" where
  "demo_buffer bits = \<lparr>p_memory = 0x20001000, p_mutex = Some (\<lambda>i. if i = 0 then bits else 0), n_blocks = 4, block_size = 16\<rparr>"

lemma demo_buffer_holds: "buffer_holds (demo_buffer 2) {1}" "buffer_holds (demo_buffer 0) {}"
proof -
  have "locked (\<lambda>i. if i = 0 then (2 :: u8) else 0) = {1}"
  proof -
    have "bit (2 :: u8) j \<longleftrightarrow> j = 1" for j
      by (auto simp: bit_2_iff)
    then have "bit (if i div 8 = 0 then 2 else 0 :: u8) (i mod 8) \<longleftrightarrow> i div 8 = 0 \<and> i mod 8 = 1" for i
      by simp
    moreover have "i div 8 = 0 \<and> i mod 8 = 1 \<longleftrightarrow> i = 1" for i :: nat
      by presburger
    ultimately show ?thesis
      unfolding locked_def by blast
  qed
  moreover have "locked (\<lambda>i. if i = 0 then (0 :: u8) else 0) = {}"
    by (simp add: locked_def)
  ultimately show "buffer_holds (demo_buffer 2) {1}" "buffer_holds (demo_buffer 0) {}"
    by (simp_all add: buffer_holds_def demo_buffer_def)
qed

text \<open>
  C28: Blocks are acquired first fit and exactly. For a buffer of at most 255 blocks of which any set is taken, a request for
  a positive number of blocks ends and, when there is a run of that many free blocks, gives the first one: the blocks of the run were free,
  they and the ones taken before are taken now, nothing else has changed, and the buffer keeps its memory. When there is no such run it
  gives the invalid identifier.
\<close>

theorem buffer_first_fit:
  assumes "buffer_holds b H" and "n \<noteq> 0" and "256 \<le> k"
  shows "\<exists>r b'. pm_buffer_block_acquire k (Some b) n = Some (r, Some b') \<and> p_memory b' = p_memory b \<and> n_blocks b' = n_blocks b
    \<and> (if \<exists>c. c + unat n \<le> unat (n_blocks b) \<and> {c..<c + unat n} \<inter> H = {}
       then unat r + unat n \<le> unat (n_blocks b) \<and> {unat r..<unat r + unat n} \<inter> H = {} \<and> (\<forall>c < unat r. {c..<c + unat n} \<inter> H \<noteq> {})
          \<and> buffer_holds b' (H \<union> {unat r..<unat r + unat n})
       else r = PM_BUFFER_INVALID_ID)"
proof -
  obtain r b' where run: "pm_buffer_block_acquire k (Some b) n = Some (r, Some b')" and same: "same_buffer b b'"
    and acq: "acquired H (unat (n_blocks b)) (unat n) r b'"
    using acquire_total [OF assms] by blast
  show ?thesis
  proof (cases "r = PM_BUFFER_INVALID_ID")
    case True
    then have "\<not> (\<exists>c. c + unat n \<le> unat (n_blocks b) \<and> {c..<c + unat n} \<inter> H = {})"
      using acq unfolding acquired_def by auto
    then show ?thesis
      using run same True unfolding same_buffer_def by (intro exI conjI) (assumption | simp only: if_False)+
  next
    case False
    then have got: "unat r + unat n \<le> unat (n_blocks b)" "{unat r..<unat r + unat n} \<inter> H = {}" "\<forall>c < unat r. {c..<c + unat n} \<inter> H \<noteq> {}"
        "buffer_holds b' (H \<union> {unat r..<unat r + unat n})"
      using acq unfolding acquired_def by simp_all
    then have "\<exists>c. c + unat n \<le> unat (n_blocks b) \<and> {c..<c + unat n} \<inter> H = {}"
      by blast
    then show ?thesis
      using run same got unfolding same_buffer_def by (intro exI [of _ r] exI [of _ b']) (simp only: if_True simp_thms)
  qed
qed

theorem buffer_first_fit_witness:
  "\<exists>b'. pm_buffer_block_acquire 256 (Some (demo_buffer 2)) 2 = Some (2, Some b') \<and> buffer_holds b' {1, 2, 3}"
proof -
  have n: "unat (n_blocks (demo_buffer 2)) = 4"
    by (simp add: demo_buffer_def)
  have ex: "\<exists>c. c + 2 \<le> 4 \<and> {c..<c + 2} \<inter> {1 :: nat} = {}"
    by (intro exI [of _ 2]) simp
  obtain r b' where run: "pm_buffer_block_acquire 256 (Some (demo_buffer 2)) 2 = Some (r, Some b')"
    and r: "unat r + 2 \<le> 4" "{unat r..<unat r + 2} \<inter> {1} = {}" and b': "buffer_holds b' ({1} \<union> {unat r..<unat r + 2})"
    using buffer_first_fit [OF demo_buffer_holds(1), of 2 256] ex unfolding n by auto
  have "unat r = 0 \<or> unat r = 1 \<or> unat r = 2"
    using r(1) by linarith
  then have "unat r = 2"
    using r(2) by auto
  moreover from this have "r = 2"
    by (simp add: word_unat_eq_iff)
  moreover have "{1} \<union> {2..<2 + 2} = {1, 2, 3 :: nat}"
    by auto
  ultimately show ?thesis
    using run b' by auto
qed

text \<open>
  C39: A request that is too large for the buffer uses it up. When all blocks are free but fewer than asked for, the request
  fails, but the blocks it had locked on the way, which are all of them, are not given back:
  the next request, for a single block, fails too, although no block was ever handed out.
\<close>

theorem buffer_request_leaks:
  assumes "buffer_holds b H" and "H \<inter> {..<unat (n_blocks b)} = {}" and "n_blocks b < n" and "256 \<le> k"
  shows "\<exists>b' b''. pm_buffer_block_acquire k (Some b) n = Some (PM_BUFFER_INVALID_ID, Some b') \<and> buffer_holds b' (H \<union> {..<unat (n_blocks b)})
    \<and> pm_buffer_block_acquire k (Some b') 1 = Some (PM_BUFFER_INVALID_ID, Some b'')"
proof -
  have n: "n \<noteq> 0" "unat (n_blocks b) < unat n"
    using assms(3) by (auto simp: word_less_nat_alt)
  obtain r b' where run: "pm_buffer_block_acquire k (Some b) n = Some (r, Some b')" and same: "same_buffer b b'"
    and acq: "acquired H (unat (n_blocks b)) (unat n) r b'"
    using acquire_total [OF assms(1) n(1) assms(4)] by blast
  have r: "r = PM_BUFFER_INVALID_ID"
    using acq n(2) unfolding acquired_def by (auto split: if_splits)
  have "{c. c < unat (n_blocks b) \<and> {c..<unat (n_blocks b)} \<inter> H = {}} = {..<unat (n_blocks b)}"
    using assms(2) by fastforce
  then have b': "buffer_holds b' (H \<union> {..<unat (n_blocks b)})"
    using acq r unfolding acquired_def by simp
  obtain q b'' where "pm_buffer_block_acquire k (Some b') 1 = Some (q, Some b'')"
    and q: "acquired (H \<union> {..<unat (n_blocks b)}) (unat (n_blocks b')) 1 q b''"
    using acquire_total [OF b' one_neq_zero assms(4)] unfolding unsigned_1 by blast
  moreover have "q = PM_BUFFER_INVALID_ID"
    using q same unfolding acquired_def same_buffer_def by (auto split: if_splits)
  ultimately show ?thesis
    using run r b' by blast
qed

theorem buffer_request_leaks_witness:
  "\<exists>b' b''. pm_buffer_block_acquire 256 (Some (demo_buffer 0)) 5 = Some (PM_BUFFER_INVALID_ID, Some b') \<and> buffer_holds b' {..<4}
    \<and> pm_buffer_block_acquire 256 (Some b') 1 = Some (PM_BUFFER_INVALID_ID, Some b'')"
  using buffer_request_leaks [OF demo_buffer_holds(2), of 5 256] by (simp add: demo_buffer_def)

end
