(* ===== verification/PeerIds.thy ===== *)
theory PeerIds
  imports PmMutex
begin

text \<open>
  \<^verbatim>\<open>components/ble/peer_manager/peer_id.c\<close>: the identifiers of bonded peers, as two groups of mutexes, one for the
  identifiers in use and one for those that are being deleted. The module refines a pair of sets.
\<close>

unbundle bit_operations_syntax

subsection \<open>The program\<close>

definition PM_PEER_ID_INVALID :: u16 where "PM_PEER_ID_INVALID = 0xFFFF"
definition PM_PEER_ID_N_AVAILABLE_IDS :: u16 where "PM_PEER_ID_N_AVAILABLE_IDS = 256"

record pi =
  used_peer_ids :: mutex_group
  deleted_peer_ids :: mutex_group

definition internal_state_reset :: "pi \<Rightarrow> pi" where
  "internal_state_reset p_pi = \<lparr>used_peer_ids = (\<lambda>i. if i < 32 then 0 else used_peer_ids p_pi i), deleted_peer_ids = (\<lambda>i. if i < 32 then 0 else deleted_peer_ids p_pi i)\<rparr>"

definition peer_id_init :: "pi \<Rightarrow> pi" where
  "peer_id_init m_pi =
     (let p = internal_state_reset m_pi
      in \<lparr>used_peer_ids = the (pm_mutex_init (Some (used_peer_ids p)) PM_PEER_ID_N_AVAILABLE_IDS),
          deleted_peer_ids = the (pm_mutex_init (Some (deleted_peer_ids p)) PM_PEER_ID_N_AVAILABLE_IDS)\<rparr>)"

definition claim :: "u16 \<Rightarrow> mutex_group \<Rightarrow> u16 \<times> mutex_group" where
  "claim peer_id g =
     (if peer_id = PM_PEER_ID_INVALID
      then (case pm_mutex_lock_first_available (Some g) PM_PEER_ID_N_AVAILABLE_IDS of
              (i, g') \<Rightarrow> (if i = PM_PEER_ID_N_AVAILABLE_IDS then PM_PEER_ID_INVALID else i, the g'))
      else if peer_id < PM_PEER_ID_N_AVAILABLE_IDS
      then (case pm_mutex_lock (Some g) peer_id of (lock_success, g') \<Rightarrow> (if lock_success then peer_id else PM_PEER_ID_INVALID, the g'))
      else (PM_PEER_ID_INVALID, g))"

definition release :: "u16 \<Rightarrow> mutex_group \<Rightarrow> mutex_group" where
  "release peer_id g = (if peer_id < PM_PEER_ID_N_AVAILABLE_IDS then the (pm_mutex_unlock (Some g) peer_id) else g)"

definition peer_id_allocate :: "u16 \<Rightarrow> pi \<Rightarrow> u16 \<times> pi" where
  "peer_id_allocate peer_id s = (case claim peer_id (used_peer_ids s) of (i, g) \<Rightarrow> (i, s\<lparr>used_peer_ids := g\<rparr>))"

definition peer_id_delete :: "u16 \<Rightarrow> pi \<Rightarrow> bool \<times> pi" where
  "peer_id_delete peer_id s =
     (if peer_id = PM_PEER_ID_INVALID then (False, s)
      else case claim peer_id (deleted_peer_ids s) of (i, g) \<Rightarrow> (i = peer_id, s\<lparr>deleted_peer_ids := g\<rparr>))"

definition peer_id_free :: "u16 \<Rightarrow> pi \<Rightarrow> pi" where
  "peer_id_free peer_id s = s\<lparr>used_peer_ids := release peer_id (used_peer_ids s), deleted_peer_ids := release peer_id (deleted_peer_ids s)\<rparr>"

definition peer_id_is_allocated :: "u16 \<Rightarrow> pi \<Rightarrow> bool" where
  "peer_id_is_allocated peer_id s = (if peer_id < PM_PEER_ID_N_AVAILABLE_IDS then pm_mutex_lock_status_get (Some (used_peer_ids s)) peer_id else False)"

definition peer_id_is_deleted :: "u16 \<Rightarrow> pi \<Rightarrow> bool" where
  "peer_id_is_deleted peer_id s = (if peer_id < PM_PEER_ID_N_AVAILABLE_IDS then pm_mutex_lock_status_get (Some (deleted_peer_ids s)) peer_id else False)"

function next_id_loop :: "u16 \<Rightarrow> mutex_group \<Rightarrow> u16" where
  "next_id_loop i g =
     (if i < PM_PEER_ID_N_AVAILABLE_IDS
      then if pm_mutex_lock_status_get (Some g) i then i else next_id_loop (i + 1) g
      else PM_PEER_ID_INVALID)"
  by pat_completeness auto

termination
  by (relation "measure (\<lambda>(i, _). unat PM_PEER_ID_N_AVAILABLE_IDS - unat i)") (simp_all add: loop_step_less(2))

declare next_id_loop.simps [simp del]

definition next_id_get :: "u16 \<Rightarrow> mutex_group \<Rightarrow> u16" where
  "next_id_get prev_peer_id g = next_id_loop (if prev_peer_id = PM_PEER_ID_INVALID then 0 else prev_peer_id + 1) g"

subsection \<open>Enumeration\<close>

lemma n_ids: "unat PM_PEER_ID_N_AVAILABLE_IDS = 256"
  by (simp add: PM_PEER_ID_N_AVAILABLE_IDS_def)

lemma below_ids: "i < PM_PEER_ID_N_AVAILABLE_IDS \<longleftrightarrow> unat i < 256"
  by (simp add: word_less_nat_alt n_ids)

lemma not_invalid: "unat i < 256 \<Longrightarrow> i \<noteq> PM_PEER_ID_INVALID"
  by (auto simp: PM_PEER_ID_INVALID_def)

text \<open>The identifiers of a set from \<open>k\<close> on; the least of them, or none.\<close>

definition least_from :: "nat \<Rightarrow> nat set \<Rightarrow> u16 \<Rightarrow> bool" where
  "least_from k S r \<longleftrightarrow> (if {i \<in> S. k \<le> i \<and> i < 256} = {} then r = PM_PEER_ID_INVALID
     else unat r < 256 \<and> unat r \<in> S \<and> k \<le> unat r \<and> (\<forall>i \<in> S. k \<le> i \<longrightarrow> unat r \<le> i))"

lemma least_from_shift:
  assumes "\<forall>i \<in> S. k \<le> i \<longleftrightarrow> l \<le> i" and "least_from l S r"
  shows "least_from k S r"
proof -
  have "{i \<in> S. k \<le> i \<and> i < 256} = {i \<in> S. l \<le> i \<and> i < 256}"
    using assms(1) by blast
  then show ?thesis
    using assms by (auto simp only: least_from_def split: if_splits)
qed

lemma least_from_skip: "k \<notin> S \<Longrightarrow> least_from (Suc k) S r \<Longrightarrow> least_from k S r"
  by (erule least_from_shift [rotated]) (auto simp: Suc_le_eq le_less)

lemma next_loop_least: "least_from (unat i) (locked g) (next_id_loop i g)"
proof (induction i g rule: next_id_loop.induct)
  case (1 i g)
  consider "\<not> unat i < 256" | "unat i < 256" "unat i \<in> locked g" | "unat i < 256" "unat i \<notin> locked g"
    by blast
  then show ?case
  proof cases
    case 1
    then have "{j \<in> locked g. unat i \<le> j \<and> j < 256} = {}"
      by auto
    then show ?thesis
      using 1 by (subst next_id_loop.simps) (simp add: least_from_def below_ids)
  next
    case 2
    then show ?thesis
      by (subst next_id_loop.simps) (auto simp: least_from_def below_ids status_locked)
  next
    case 3
    then have "least_from (unat (i + 1)) (locked g) (next_id_loop (i + 1) g)"
      using "1.IH" by (simp add: below_ids status_locked)
    moreover have "unat (i + 1) = Suc (unat i)"
      using loop_step_less(1) 3(1) below_ids by blast
    moreover have "next_id_loop i g = next_id_loop (i + 1) g"
      using 3 by (subst next_id_loop.simps) (simp add: below_ids status_locked)
    ultimately show ?thesis
      using least_from_skip [OF 3(2), of "next_id_loop (i + 1) g"] by simp
  qed
qed

text \<open>Where the search goes on after \<open>p\<close>.\<close>

definition after :: "u16 \<Rightarrow> nat" where
  "after p = (if p = PM_PEER_ID_INVALID then 0 else Suc (unat p))"

lemma next_least: "least_from (after p) (locked g) (next_id_get p g)"
proof (cases "p = PM_PEER_ID_INVALID")
  case True
  then show ?thesis
    using next_loop_least [of 0 g] by (simp add: next_id_get_def after_def)
next
  case False
  then have "unat p \<noteq> 65535" "unat p < 65536"
    using unsigned_less [of p, where 'a = nat] by (simp_all add: PM_PEER_ID_INVALID_def word_unat_eq_iff)
  then have "p < PM_PEER_ID_INVALID"
    by (simp add: word_less_nat_alt PM_PEER_ID_INVALID_def)
  then have "unat (p + 1) = Suc (unat p)"
    by (rule loop_step_less(1))
  then show ?thesis
    using next_loop_least [of "p + 1" g] False by (simp add: next_id_get_def after_def)
qed

lemma next_progress:
  assumes "p \<noteq> PM_PEER_ID_INVALID" and "next_id_get p g \<noteq> PM_PEER_ID_INVALID"
  shows "unat p < unat (next_id_get p g)"
  using next_least [of p g] assms by (auto simp: least_from_def after_def split: if_splits)

function next_used_loop :: "u16 \<Rightarrow> pi \<Rightarrow> u16" where
  "next_used_loop peer_id s =
     (if peer_id \<noteq> PM_PEER_ID_INVALID
      then if \<not> peer_id_is_deleted peer_id s then peer_id else next_used_loop (next_id_get peer_id (used_peer_ids s)) s
      else peer_id)"
  by pat_completeness auto

termination
proof (relation "measure (\<lambda>(i, _). if i = PM_PEER_ID_INVALID then 0 else 65536 - unat i)")
  fix i :: u16 and s :: pi
  assume i: "i \<noteq> PM_PEER_ID_INVALID" "\<not> \<not> peer_id_is_deleted i s"
  have "unat (next_id_get i (used_peer_ids s)) < 65536" "unat i < 65536"
    using unsigned_less [of "next_id_get i (used_peer_ids s)", where 'a = nat] unsigned_less [of i, where 'a = nat] by simp_all
  then show "((next_id_get i (used_peer_ids s), s), (i, s)) \<in> measure (\<lambda>(i, _). if i = PM_PEER_ID_INVALID then 0 else 65536 - unat i)"
    using next_progress [OF i(1), of "used_peer_ids s"] i(1) by auto
qed simp

declare next_used_loop.simps [simp del]

definition peer_id_get_next_used :: "u16 \<Rightarrow> pi \<Rightarrow> u16" where
  "peer_id_get_next_used peer_id s = next_used_loop (next_id_get peer_id (used_peer_ids s)) s"

definition peer_id_get_next_deleted :: "u16 \<Rightarrow> pi \<Rightarrow> u16" where
  "peer_id_get_next_deleted prev_peer_id s = next_id_get prev_peer_id (deleted_peer_ids s)"

definition peer_id_n_ids :: "pi \<Rightarrow> u32" where
  "peer_id_n_ids s = foldl (\<lambda>n i. n + (if pm_mutex_lock_status_get (Some (used_peer_ids s)) (of_nat i) then 1 else 0)) 0 [0..<unat PM_PEER_ID_N_AVAILABLE_IDS]"

lemma deleted_locked: "unat i < 256 \<Longrightarrow> peer_id_is_deleted i s \<longleftrightarrow> unat i \<in> locked (deleted_peer_ids s)"
  by (simp add: peer_id_is_deleted_def below_ids status_locked)

lemma next_used_least:
  "least_from k (locked (used_peer_ids s)) p \<Longrightarrow> least_from k (locked (used_peer_ids s) - locked (deleted_peer_ids s)) (next_used_loop p s)"
proof (induction p s arbitrary: k rule: next_used_loop.induct)
  case (1 p s)
  let ?U = "locked (used_peer_ids s)" and ?D = "locked (deleted_peer_ids s)"
  show ?case
  proof (cases "p = PM_PEER_ID_INVALID")
    case True
    then have "{i \<in> ?U. k \<le> i \<and> i < 256} = {}"
      using "1.prems" not_invalid by (auto simp: least_from_def split: if_splits)
    then have "{i \<in> ?U - ?D. k \<le> i \<and> i < 256} = {}"
      by blast
    then show ?thesis
      using True by (subst next_used_loop.simps) (simp add: least_from_def)
  next
    case False
    then have p: "unat p < 256" "unat p \<in> ?U" "k \<le> unat p" "\<forall>i \<in> ?U. k \<le> i \<longrightarrow> unat p \<le> i"
      using "1.prems" by (auto simp: least_from_def split: if_splits)
    show ?thesis
    proof (cases "unat p \<in> ?D")
      case del: True
      let ?n = "next_id_get p (used_peer_ids s)"
      have "least_from (Suc (unat p)) ?U ?n"
        using next_least [of p "used_peer_ids s"] False by (simp add: after_def)
      then have "least_from (Suc (unat p)) (?U - ?D) (next_used_loop ?n s)"
        using "1.IH" False p(1) del by (simp add: deleted_locked)
      moreover have "\<forall>i \<in> ?U - ?D. k \<le> i \<longleftrightarrow> Suc (unat p) \<le> i"
        using p(3,4) del by (metis DiffE Suc_leD Suc_le_eq le_neq_implies_less le_trans)
      ultimately have "least_from k (?U - ?D) (next_used_loop ?n s)"
        by (rule least_from_shift [rotated])
      then show ?thesis
        using False p(1) del by (subst next_used_loop.simps) (simp add: deleted_locked)
    next
      case False
      then show ?thesis
        using \<open>p \<noteq> PM_PEER_ID_INVALID\<close> p by (subst next_used_loop.simps) (auto simp: deleted_locked least_from_def)
    qed
  qed
qed

subsection \<open>The specification: two sets\<close>

definition first_from :: "nat \<Rightarrow> nat set \<Rightarrow> u16" where
  "first_from k S = (if {i \<in> S. k \<le> i \<and> i < 256} = {} then PM_PEER_ID_INVALID else of_nat (Min {i \<in> S. k \<le> i \<and> i < 256}))"

lemma least_first: "least_from k S r \<Longrightarrow> r = first_from k S"
proof (cases "{i \<in> S. k \<le> i \<and> i < 256} = {}")
  case False
  assume "least_from k S r"
  then have r: "unat r < 256" "unat r \<in> S" "k \<le> unat r" "\<forall>i \<in> S. k \<le> i \<longrightarrow> unat r \<le> i"
    using False by (simp_all add: least_from_def)
  then have m: "Min {i \<in> S. k \<le> i \<and> i < 256} = unat r"
    by (intro Min_eqI) auto
  show ?thesis
    unfolding first_from_def if_not_P [OF False] m by simp
qed (simp add: least_from_def first_from_def)

lemma first_from_cong: "S \<inter> {..<256} = T \<inter> {..<256} \<Longrightarrow> first_from k S = first_from k T"
proof -
  assume "S \<inter> {..<256} = T \<inter> {..<256}"
  then have "{i \<in> S. k \<le> i \<and> i < 256} = {i \<in> T. k \<le> i \<and> i < 256}"
    by blast
  then show ?thesis
    by (simp only: first_from_def)
qed

datatype id_call = Allocate u16 | Delete u16 | Free u16 | Is_allocated u16 | Is_deleted u16 | Next_used u16 | Next_deleted u16 | Count_ids

datatype id_reply = Id u16 | Flag bool | Number u32 | Done

primrec id_exec :: "id_call \<Rightarrow> pi \<Rightarrow> id_reply \<times> pi" where
  "id_exec (Allocate p) s = (case peer_id_allocate p s of (r, s') \<Rightarrow> (Id r, s'))"
| "id_exec (Delete p) s = (case peer_id_delete p s of (r, s') \<Rightarrow> (Flag r, s'))"
| "id_exec (Free p) s = (Done, peer_id_free p s)"
| "id_exec (Is_allocated p) s = (Flag (peer_id_is_allocated p s), s)"
| "id_exec (Is_deleted p) s = (Flag (peer_id_is_deleted p s), s)"
| "id_exec (Next_used p) s = (Id (peer_id_get_next_used p s), s)"
| "id_exec (Next_deleted p) s = (Id (peer_id_get_next_deleted p s), s)"
| "id_exec Count_ids s = (Number (peer_id_n_ids s), s)"

text \<open>On the sets \<open>U\<close> of the identifiers in use and \<open>D\<close> of those being deleted.\<close>

primrec id_spec :: "id_call \<Rightarrow> nat set \<times> nat set \<Rightarrow> id_reply \<times> nat set \<times> nat set" where
  "id_spec (Allocate p) UD = (case UD of (U, D) \<Rightarrow>
     let r = (if p = PM_PEER_ID_INVALID then first_from 0 (- U) else if unat p < 256 \<and> unat p \<notin> U then p else PM_PEER_ID_INVALID)
     in (Id r, if r = PM_PEER_ID_INVALID then U else insert (unat r) U, D))"
| "id_spec (Delete p) UD = (case UD of (U, D) \<Rightarrow> (Flag (unat p < 256 \<and> unat p \<notin> D), U, if unat p < 256 then insert (unat p) D else D))"
| "id_spec (Free p) UD = (case UD of (U, D) \<Rightarrow> (Done, U - {unat p}, D - {unat p}))"
| "id_spec (Is_allocated p) UD = (case UD of (U, D) \<Rightarrow> (Flag (unat p \<in> U), U, D))"
| "id_spec (Is_deleted p) UD = (case UD of (U, D) \<Rightarrow> (Flag (unat p \<in> D), U, D))"
| "id_spec (Next_used p) UD = (case UD of (U, D) \<Rightarrow> (Id (first_from (after p) (U - D)), U, D))"
| "id_spec (Next_deleted p) UD = (case UD of (U, D) \<Rightarrow> (Id (first_from (after p) D), U, D))"
| "id_spec Count_ids UD = (case UD of (U, D) \<Rightarrow> (Number (of_nat (card U)), U, D))"

definition id_sets :: "pi \<Rightarrow> nat set \<times> nat set" where
  "id_sets s = (locked (used_peer_ids s) \<inter> {..<256}, locked (deleted_peer_ids s) \<inter> {..<256})"

lemma lock_first_cases:
  "\<exists>r g'. lock_first_loop (Some g) PM_PEER_ID_N_AVAILABLE_IDS i = (r, Some g')
    \<and> (if {j. j \<notin> locked g \<and> unat i \<le> j \<and> j < 256} = {} then r = PM_PEER_ID_N_AVAILABLE_IDS \<and> locked g' = locked g
       else least_from (unat i) (- locked g) r \<and> locked g' = insert (unat r) (locked g))"
proof (induction "256 - unat i" arbitrary: i g rule: less_induct)
  case less
  let ?F = "{j. j \<notin> locked g \<and> unat i \<le> j \<and> j < 256}"
  consider "\<not> unat i < 256" | "unat i < 256" "unat i \<notin> locked g" | "unat i < 256" "unat i \<in> locked g"
    by blast
  then show ?case
  proof cases
    case 1
    then have "?F = {}"
      by auto
    then show ?thesis
      using 1 by (subst lock_first_loop.simps) (simp add: below_ids)
  next
    case 2
    have "lock_first_loop (Some g) PM_PEER_ID_N_AVAILABLE_IDS i = (i, Some (snd (group_lock g i)))"
      using 2 mutex.lock_result [of g i] by (subst lock_first_loop.simps) (simp add: below_ids group_simps)
    moreover have "least_from (unat i) (- locked g) i" "?F \<noteq> {}"
      using 2 by (auto simp: least_from_def)
    ultimately show ?thesis
      using mutex.lock_held [of g i] by (intro exI [of _ i] exI [of _ "snd (group_lock g i)"]) (simp only: if_False simp_thms)
  next
    case 3
    let ?g = "snd (group_lock g i)"
    have same: "locked ?g = locked g"
      using 3 mutex.lock_held [of g i] by (simp add: insert_absorb)
    have run: "lock_first_loop (Some g) PM_PEER_ID_N_AVAILABLE_IDS i = lock_first_loop (Some ?g) PM_PEER_ID_N_AVAILABLE_IDS (i + 1)"
      using 3 mutex.lock_result [of g i] by (subst lock_first_loop.simps) (simp add: below_ids group_simps)
    have i: "unat (i + 1) = Suc (unat i)"
      using loop_step_less(1) 3(1) below_ids by blast
    then have "256 - unat (i + 1) < 256 - unat i"
      using 3(1) by simp
    from less [OF this, of ?g] obtain r g' where "lock_first_loop (Some ?g) PM_PEER_ID_N_AVAILABLE_IDS (i + 1) = (r, Some g')"
      and r: "if {j. j \<notin> locked g \<and> Suc (unat i) \<le> j \<and> j < 256} = {} then r = PM_PEER_ID_N_AVAILABLE_IDS \<and> locked g' = locked g
       else least_from (Suc (unat i)) (- locked g) r \<and> locked g' = insert (unat r) (locked g)"
      unfolding same i by blast
    have F: "{j. j \<notin> locked g \<and> Suc (unat i) \<le> j \<and> j < 256} = ?F"
      using 3(2) by (auto simp: Suc_le_eq le_less)
    have least: "least_from (Suc (unat i)) (- locked g) r \<Longrightarrow> least_from (unat i) (- locked g) r"
      using least_from_skip [of "unat i" "- locked g" r] 3(2) by blast
    have "if ?F = {} then r = PM_PEER_ID_N_AVAILABLE_IDS \<and> locked g' = locked g
       else least_from (unat i) (- locked g) r \<and> locked g' = insert (unat r) (locked g)"
      using r least unfolding F by (cases "?F = {}") (simp_all only: if_True if_False simp_thms)
    then show ?thesis
      unfolding run \<open>lock_first_loop (Some ?g) PM_PEER_ID_N_AVAILABLE_IDS (i + 1) = (r, Some g')\<close> by blast
  qed
qed

text \<open>Claiming an identifier of one of the two groups, on its set.\<close>

lemma claimed:
  assumes "U = locked g \<inter> {..<256}"
  obtains g' where "claim p g = (if p = PM_PEER_ID_INVALID then first_from 0 (- U) else if unat p < 256 \<and> unat p \<notin> U then p else PM_PEER_ID_INVALID, g')"
    and "locked g' \<inter> {..<256} = (if p = PM_PEER_ID_INVALID then (if first_from 0 (- U) = PM_PEER_ID_INVALID then U else insert (unat (first_from 0 (- U))) U)
      else if unat p < 256 then insert (unat p) U else U)"
proof (cases "p = PM_PEER_ID_INVALID")
  case True
  obtain r g' where run: "lock_first_loop (Some g) PM_PEER_ID_N_AVAILABLE_IDS 0 = (r, Some g')"
    and r: "if {j. j \<notin> locked g \<and> 0 \<le> j \<and> j < 256} = {} then r = PM_PEER_ID_N_AVAILABLE_IDS \<and> locked g' = locked g
      else least_from 0 (- locked g) r \<and> locked g' = insert (unat r) (locked g)"
    using lock_first_cases [of g 0] unfolding unsigned_0 by blast
  have first: "first_from 0 (- U) = first_from 0 (- locked g)"
    unfolding assms by (rule first_from_cong) blast
  show ?thesis
  proof (cases "{j. j \<notin> locked g \<and> 0 \<le> j \<and> j < 256} = {}")
    case none: True
    then have "{i \<in> - locked g. 0 \<le> i \<and> i < 256} = {}"
      by auto
    then have "first_from 0 (- U) = PM_PEER_ID_INVALID"
      unfolding first by (simp only: first_from_def if_True simp_thms)
    then show ?thesis
      using that [of g'] True run r none assms by (simp add: claim_def pm_mutex_lock_first_available_def)
  next
    case False
    then have least: "least_from 0 (- locked g) r" "locked g' = insert (unat r) (locked g)"
      using r by simp_all
    moreover have "unat r < 256"
      using least(1) False by (auto simp: least_from_def split: if_splits)
    moreover from this have "r \<noteq> PM_PEER_ID_N_AVAILABLE_IDS" "r \<noteq> PM_PEER_ID_INVALID"
      using n_ids not_invalid by auto
    ultimately show ?thesis
      using that [of g'] True run assms least_first [OF least(1)] first by (simp add: claim_def pm_mutex_lock_first_available_def)
  qed
next
  case False
  show ?thesis
  proof (cases "unat p < 256")
    case True
    have "claim p g = (if unat p \<notin> U then p else PM_PEER_ID_INVALID, snd (group_lock g p))"
      using mutex.lock_result [of g p] True False by (simp add: claim_def below_ids group_simps assms)
    moreover have "locked (snd (group_lock g p)) \<inter> {..<256} = insert (unat p) U"
      using True by (simp add: assms mutex.lock_held)
    ultimately show ?thesis
      by (intro that [of "snd (group_lock g p)"]) (simp_all add: True False)
  next
    case large: False
    then show ?thesis
      by (intro that [of g]) (simp_all add: False assms claim_def below_ids)
  qed
qed

lemma released_id: "locked (release p g) \<inter> {..<256} = locked g \<inter> {..<256} - {unat p}"
  using mutex.unlock_held [of p g] by (auto simp: release_def below_ids group_simps)

lemma counted: "peer_id_n_ids s = of_nat (card (locked (used_peer_ids s) \<inter> {..<256}))"
proof -
  have "foldl (\<lambda>n i. n + (if pm_mutex_lock_status_get (Some g) (of_nat i) then 1 else 0)) 0 [0..<k] = (of_nat (card (locked g \<inter> {..<k})) :: u32)"
    if "k \<le> 256" for g k
    using that
  proof (induction k)
    case (Suc k)
    have "{..<Suc k} = insert k {..<k}" "unat (of_nat k :: u16) = k"
      using Suc.prems by (auto simp: unat_of_nat)
    then show ?case
      using Suc by (simp add: status_locked Int_insert_right)
  qed simp
  then show ?thesis
    by (simp add: peer_id_n_ids_def n_ids)
qed

lemma next_first: "next_id_get p g = first_from (after p) (locked g \<inter> {..<256})"
  using least_first [OF next_least] first_from_cong [of "locked g" "locked g \<inter> {..<256}"] by auto

lemma next_used_first:
  "peer_id_get_next_used p s = first_from (after p) (locked (used_peer_ids s) \<inter> {..<256} - locked (deleted_peer_ids s) \<inter> {..<256})"
proof -
  have "peer_id_get_next_used p s = first_from (after p) (locked (used_peer_ids s) - locked (deleted_peer_ids s))"
    unfolding peer_id_get_next_used_def by (rule least_first [OF next_used_least [OF next_least]])
  also have "\<dots> = first_from (after p) (locked (used_peer_ids s) \<inter> {..<256} - locked (deleted_peer_ids s) \<inter> {..<256})"
    by (rule first_from_cong) blast
  finally show ?thesis .
qed

lemma id_step: "id_spec c (id_sets s) = (fst (id_exec c s), id_sets (snd (id_exec c s)))"
proof (cases c)
  case (Allocate p)
  obtain g' where c: "claim p (used_peer_ids s) = (if p = PM_PEER_ID_INVALID then first_from 0 (- (fst (id_sets s)))
        else if unat p < 256 \<and> unat p \<notin> fst (id_sets s) then p else PM_PEER_ID_INVALID, g')"
    and g': "locked g' \<inter> {..<256} = (if p = PM_PEER_ID_INVALID then (if first_from 0 (- (fst (id_sets s))) = PM_PEER_ID_INVALID then fst (id_sets s)
        else insert (unat (first_from 0 (- (fst (id_sets s))))) (fst (id_sets s))) else if unat p < 256 then insert (unat p) (fst (id_sets s)) else fst (id_sets s))"
    using claimed [of "fst (id_sets s)" "used_peer_ids s" p] by (simp only: id_sets_def fst_conv) blast
  then show ?thesis
    unfolding Allocate by (auto simp: peer_id_allocate_def id_sets_def Let_def insert_absorb)
next
  case (Delete p)
  have inv: "\<not> unat PM_PEER_ID_INVALID < 256"
    by (simp add: PM_PEER_ID_INVALID_def)
  show ?thesis
  proof (cases "p = PM_PEER_ID_INVALID")
    case True
    then show ?thesis
      unfolding Delete using inv by (simp add: peer_id_delete_def id_sets_def)
  next
    case False
    obtain g' where "claim p (deleted_peer_ids s) = (if unat p < 256 \<and> unat p \<notin> snd (id_sets s) then p else PM_PEER_ID_INVALID, g')"
      and "locked g' \<inter> {..<256} = (if unat p < 256 then insert (unat p) (snd (id_sets s)) else snd (id_sets s))"
      using claimed [of "snd (id_sets s)" "deleted_peer_ids s" p] False by (simp only: id_sets_def snd_conv if_False) blast
    then show ?thesis
      unfolding Delete using False by (auto simp: peer_id_delete_def id_sets_def)
  qed
next
  case (Free p)
  then show ?thesis
    by (simp add: peer_id_free_def id_sets_def released_id)
next
  case (Is_allocated p)
  then show ?thesis
    by (auto simp: peer_id_is_allocated_def id_sets_def below_ids status_locked)
next
  case (Is_deleted p)
  then show ?thesis
    by (auto simp: peer_id_is_deleted_def id_sets_def below_ids status_locked)
next
  case (Next_used p)
  then show ?thesis
    by (simp add: id_sets_def next_used_first)
next
  case (Next_deleted p)
  then show ?thesis
    by (simp add: id_sets_def peer_id_get_next_deleted_def next_first)
next
  case Count_ids
  then show ?thesis
    by (simp add: id_sets_def counted)
qed

primrec id_run :: "('s \<Rightarrow> id_reply \<times> 's) list \<Rightarrow> 's \<Rightarrow> id_reply list \<times> 's" where
  "id_run [] s = ([], s)"
| "id_run (f # fs) s = (case f s of (r, s') \<Rightarrow> case id_run fs s' of (rs, s'') \<Rightarrow> (r # rs, s''))"

lemma run_simulated:
  "id_run (map id_spec cs) (id_sets s) = (fst (id_run (map id_exec cs) s), id_sets (snd (id_run (map id_exec cs) s)))"
  by (induction cs arbitrary: s) (simp_all add: id_step case_prod_unfold)

lemma init_sets: "id_sets (peer_id_init s) = ({}, {})"
proof -
  have "locked (the (pm_mutex_init (Some g) PM_PEER_ID_N_AVAILABLE_IDS)) \<inter> {..<256} = {}" for g
    using init_locked [of g PM_PEER_ID_N_AVAILABLE_IDS] unfolding n_ids by force
  then show ?thesis
    by (simp add: peer_id_init_def Let_def id_sets_def)
qed

subsection \<open>Properties\<close>

text \<open>
  C26: The identifiers of the peers are two sets. From initialisation on, whatever the arrays held before, any sequence of
  allocations, deletions, releases, tests, searches and counts answers exactly as the specification on a set of identifiers
  in use and a set of identifiers being deleted does: an allocation gives the least unused identifier or the one asked for
  if it is unused, nothing is given twice before it is released, a deletion succeeds once, and the searches
  return the next identifier in ascending order, those that are being deleted left out.
\<close>

theorem peer_ids_refine:
  "fst (id_run (map id_exec calls) (peer_id_init s)) = fst (id_run (map id_spec calls) ({}, {}))
    \<and> id_sets (snd (id_run (map id_exec calls) (peer_id_init s))) = snd (id_run (map id_spec calls) ({}, {}))"
  using run_simulated [of calls "peer_id_init s"] by (simp add: init_sets)

text \<open>The loop that the interface documents: from no peer to the next until there is none.\<close>

primrec visits :: "pi \<Rightarrow> u16 \<Rightarrow> u16 list \<Rightarrow> bool" where
  "visits s p [] \<longleftrightarrow> peer_id_get_next_used p s = PM_PEER_ID_INVALID"
| "visits s p (q # qs) \<longleftrightarrow> q \<noteq> PM_PEER_ID_INVALID \<and> peer_id_get_next_used p s = q \<and> visits s q qs"

lemma visits_from:
  assumes "S = locked (used_peer_ids s) \<inter> {..<256} - locked (deleted_peer_ids s) \<inter> {..<256}"
    and "sorted_list_of_set {i \<in> S. after p \<le> i} = xs"
  shows "visits s p (map of_nat xs)"
  using assms(2)
proof (induction xs arbitrary: p)
  case Nil
  moreover have "finite {i \<in> S. after p \<le> i}"
    unfolding assms(1) by simp
  ultimately have "{i \<in> S. after p \<le> i} = {}"
    by (metis sorted_list_of_set_eq_Nil_iff)
  then have "{i \<in> S. after p \<le> i \<and> i < 256} = {}"
    by blast
  then show ?case
    by (simp only: visits.simps list.map next_used_first assms(1) [symmetric] first_from_def if_True simp_thms)
next
  case (Cons x xs)
  let ?S = "{i \<in> S. after p \<le> i}"
  have fin: "finite ?S"
    unfolding assms(1) by simp
  have ne: "?S \<noteq> {}"
    using Cons.prems fin by (metis list.discI sorted_list_of_set_eq_Nil_iff)
  have x: "x = Min ?S" "xs = sorted_list_of_set (?S - {Min ?S})"
    using Cons.prems unfolding sorted_list_of_set_nonempty [OF fin ne] list.inject by blast+
  have mem: "x \<in> S" "after p \<le> x" "x < 256"
    using Min_in [OF fin ne] x(1) unfolding assms(1) by auto
  have u: "unat (of_nat x :: u16) = x" "(of_nat x :: u16) \<noteq> PM_PEER_ID_INVALID"
    using mem(3) by (simp_all add: unat_of_nat not_invalid)
  have least: "x \<le> i" if "i \<in> ?S" for i
    using Min_le [OF fin that] x(1) by simp
  have "i \<in> ?S - {x} \<longleftrightarrow> i \<in> {i \<in> S. Suc x \<le> i}" for i
  proof
    assume "i \<in> ?S - {x}"
    moreover from this have "x \<le> i" "i \<noteq> x"
      using least by blast+
    ultimately show "i \<in> {i \<in> S. Suc x \<le> i}"
      by simp
  next
    assume "i \<in> {i \<in> S. Suc x \<le> i}"
    then show "i \<in> ?S - {x}"
      using mem(2) by simp
  qed
  then have "?S - {x} = {i \<in> S. Suc x \<le> i}"
    by blast
  moreover have "after (of_nat x) = Suc x"
    using u by (simp add: after_def)
  ultimately have "?S - {Min ?S} = {i \<in> S. after (of_nat x) \<le> i}"
    unfolding x(1) [symmetric] by simp
  then have "visits s (of_nat x) (map of_nat xs)"
    using Cons.IH x(2) by simp
  moreover have "{i \<in> S. after p \<le> i \<and> i < 256} = ?S"
    unfolding assms(1) by auto
  then have "peer_id_get_next_used p s = of_nat x"
    unfolding next_used_first assms(1) [symmetric] first_from_def using ne x(1) by (simp only: if_False)
  ultimately show ?case
    using u(2) by simp
qed

text \<open>
  C27: Going through the peers ends and meets each of them once. The loop that the interface of the peer manager documents, which asks
  for the next identifier from the invalid one on until it gets the invalid one again, visits exactly the
  identifiers that are in use and not being deleted, in ascending order.
\<close>

theorem peer_ids_enumerated:
  "visits s PM_PEER_ID_INVALID (map of_nat (sorted_list_of_set (fst (id_sets s) - snd (id_sets s))))"
proof -
  have "{i \<in> fst (id_sets s) - snd (id_sets s). after PM_PEER_ID_INVALID \<le> i} = fst (id_sets s) - snd (id_sets s)"
    by (auto simp: after_def)
  then show ?thesis
    using visits_from [of "fst (id_sets s) - snd (id_sets s)" s PM_PEER_ID_INVALID, OF _ refl] unfolding id_sets_def by simp
qed

end
