(* ===== verification/Spec2Isabelle.thy ===== *)
theory Spec2Isabelle
  imports DeviceRuns AppFifo Crc16 FdsDelete TimerProps ButtonProps PmBuffer PeerIds
begin

text \<open>
  Verification of the PrivateFind firmware, a Bluetooth Low Energy finder tag. The program is the
  application \<^verbatim>\<open>src/Firmware/nRFSDK/examples/ble_peripheral/ble_app_proximity\<close> together with the modules of
  the SDK (\<^verbatim>\<open>src/Firmware/nRFSDK/components\<close>) it is linked with, in the configuration of its build file:
  nRF51 with the S130 stack, \<^verbatim>\<open>NRF_SD_BLE_API_VERSION\<close> 2, the ADC, debug on.

  \<^bold>\<open>How the program works.\<close> \<^verbatim>\<open>main\<close> initialises the modules, registers five GATT services and starts
  advertising. From then on everything happens in handlers: the radio stack delivers events that
  \<^verbatim>\<open>ble_evt_dispatch\<close> hands to every module in turn; buttons, timers and the ADC call back. The finder
  service answers the setup challenge of its owner's phone with an HMAC, stores a key for end-to-end
  encryption, and answers a position written by any phone with an encrypted and authenticated report.
  The alert services make the tag or the phone ring.

  \<^bold>\<open>How it is modelled.\<close> A C function is a HOL function to \<open>('s, 'a) prog\<close>, a state transformer whose
  outcome is a value, a fault (\<^verbatim>\<open>APP_ERROR_CHECK\<close> reaching the fault handler) or a hang (a loop that does
  not end). Structures are records, enumerations are datatypes, integers are machine words of their
  width, a pointer that may be \<^verbatim>\<open>NULL\<close> is an option, a callback is a parameter, and memory the code
  reads without having written it is a parameter as well, so that a theorem about it holds for every
  content. The radio stack is a binary, and the modules of the last paragraph are not modelled: a call
  to them is a request (\<open>call\<close> in \<open>SoftDevice\<close>) that is appended to a trace and answered by an arbitrary
  function of the trace so far (\<open>sd_env\<close>). Theorems say which requests are made, in which order, and what
  is returned, under named assumptions on the answers.

  \<^bold>\<open>The theories.\<close>
  \<^item> \<open>Prelude\<close>: programs, their laws and the byte lemmas all components share.
  \<^item> \<open>SoftDevice\<close>: structures, codes and events of the stack (\<^verbatim>\<open>softdevice/s130/headers\<close>), requests and the
    world; \<^verbatim>\<open>app_error.h\<close>; the calculus of what a program asks of the outside (\<open>emits\<close>, \<open>strict_seq\<close>).
  \<^item> \<open>Sha256\<close> (\<^verbatim>\<open>libraries/sha256\<close>): the streaming implementation is equal to FIPS 180-4 for any splitting of
    the input, constants included; the interface is the locale \<open>hash_stream\<close>.
  \<^item> \<open>SysEncryption\<close> (\<^verbatim>\<open>sys_encryption.c\<close>): HMAC over any \<open>hash_stream\<close>, interpreted by SHA-256; AES in counter mode
    decrypts, and its loop does not end for lengths above 65520.
  \<^item> \<open>CryptoFinder\<close> (\<^verbatim>\<open>ble_cryptofinderservice.c\<close>): the setup response, the report, the registration and its
    permissions, and the defects of the key store (flash is given the address of a stack slot) and of the report.
  \<^item> \<open>AppUtil\<close> (\<^verbatim>\<open>app_util.h\<close>), \<open>Crc16\<close>, \<open>AppFifo\<close> (a bounded queue, locale \<open>bounded_queue\<close>), \<open>MappedFlags\<close> (locale
    \<open>keyed_flags\<close>): library modules, equal to their references.
  \<^item> \<open>ConnState\<close> (\<^verbatim>\<open>ble_conn_state.c\<close>): the flag arrays refine a map from handles to connections.
  \<^item> \<open>SrvCommon\<close>, \<open>AlertServices\<close>, \<open>Battery\<close>, \<open>IasClient\<close>: \<^verbatim>\<open>ble_srv_common.c\<close>, the services and the client; the locale
    \<open>service_module\<close> is what the application relies on when it initialises a service.
  \<^item> \<open>DbDiscovery\<close> (\<^verbatim>\<open>ble_db_discovery.c\<close>): service discovery against a model of the peer, whose
    responses come in pieces of any size, also those with descriptors; it ends and reports once what the peer has, without the descriptors
    that come in a later piece, and it does not when the record of an earlier discovery is reused.
  \<^item> \<open>ConnParams\<close> (\<^verbatim>\<open>ble_conn_params.c\<close>): runs of stack events and expiries of a single shot timer that only
    the module's own calls start; the negotiation ends after the configured number of attempts.
  \<^item> \<open>AdvData\<close> (\<^verbatim>\<open>ble_advdata.c\<close>): the encoder writes exactly the AD structures of a reference, which parse
    back; its two memory errors.
  \<^item> \<open>Advertising\<close> (\<^verbatim>\<open>ble_advertising.c\<close>): choice of the mode, restarts, time-outs, deferral during flash
    operations.
  \<^item> \<open>FStorage\<close> (\<^verbatim>\<open>libraries/fstorage\<close>): the queue of flash operations is a bounded FIFO: whatever clients ask, also from
    within their callbacks, a book of what was taken and told shows each operation served once, in order, with the
    requests of its own contents. A store is written completely and in order, failures are retried three times,
    initialisation gives disjoint pages; a refused request stops the queue until the stack has some system event.
  \<^item> \<open>FdsPages\<close>, \<open>Fds\<close> (\<^verbatim>\<open>libraries/fds\<close>): the records in flash, pages and operations; flash contents are part of the
    state, a user's callback may call the module again. \<open>FdsStore\<close>, \<open>FdsWrite\<close>, \<open>FdsRuns\<close>: a search reports exactly
    the valid records, a write appends exactly one, and power lost at any word of it leaves the old ones. That flash access takes
    the requests is assumed only for those that its own checks pass (\<open>fs_valid\<close>, proved against \<open>FStorage\<close>).
    \<open>FdsDelete\<close>: deleting removes exactly one record; a write that fails hides later ones, and a start after an
    interrupted garbage collection can lose a page.
  \<^item> \<open>AppTimer\<close> (\<^verbatim>\<open>app_timer.c\<close>): the application timer. Timers are addresses in a memory of nodes, the registers of the
    counter are a log of accesses and a counter that may show anything, and each interrupt handler is one step, since both have the same
    priority and the calls work in critical regions. \<open>TimerList\<close>, \<open>TimerSwi\<close>, \<open>TimerHandler\<close>: the linked list stands for an agenda
    of timers with the ticks until each expires, and deleting, expiring, restarting and inserting for functions on it. \<open>TimerRuns\<close>: runs
    of calls and interrupts in any order and their invariant. \<open>TimerProps\<close>: the software interrupt refines the plan, nothing
    hangs, exactly the due handlers are called, periodic timers do not drift, the compare register is never behind the counter;
    and three defects of starting and stopping.
  \<^item> \<open>Board\<close>, \<open>Bsp\<close> (\<^verbatim>\<open>app_button.c\<close>, \<^verbatim>\<open>boards.c\<close>, \<^verbatim>\<open>bsp.c\<close>, \<^verbatim>\<open>bsp_btn_ble.c\<close>): buttons, LEDs and indications. The state extends that of
    the application timer, whose functions are called. Pins are a log of accesses and an arbitrary environment; the addresses that the linker
    chooses are the parameter \<open>layout\<close>. \<open>BoardRuns\<close>: runs of interrupts, stack events and indications in any order. \<open>BoardProps\<close>: after the first
    connection the button no longer starts pairing. \<open>ButtonProps\<close>: the buttons are debounced, through
    both interrupts of the timer, and two of them at once are not.
  \<^item> \<open>PmMutex\<close>, \<open>PmBuffer\<close>, \<open>PeerIds\<close> (\<^verbatim>\<open>peer_manager/pm_mutex.c\<close>, \<^verbatim>\<open>pm_buffer.c\<close>, \<^verbatim>\<open>peer_id.c\<close>): the lowest layer of the peer
    manager. A byte array is a set of locked numbers (locale \<open>lock_table\<close>); blocks are acquired first fit, and a request that
    fails can keep them; the identifiers of the peers are two sets, and going through them ends.
  \<^item> \<open>ProximityApp\<close> (\<^verbatim>\<open>main.c\<close>) and \<open>DeviceRuns\<close>: the composition. \<open>app_run\<close> are the runs of the device from
    power-on; the properties are that it starts, that it advertises then and after every link, at once or when the flash
    queue has become empty, that pairing needs a button push, and that the alert client is usable whenever it is used.

  \<^bold>\<open>Bounds.\<close> There is fuel in five places: that of the counter mode loop, 4096 rounds: the index is a 16 bit number
  advanced by 16, so 4096 rounds without leaving the loop mean that an index has come back and the
  loop never ends, which is the outcome \<open>Hang\<close>; and that of \<open>fds_queue_process\<close>, the number of operations that
  end in one run, which callbacks can make arbitrarily large: one is enough for the theorems, where one
  operation is queued. The loops along the list of the application timer have fuel because a list that has been
  linked to itself makes them run for ever; one more than the timers and the operations of the queue is enough whenever the list is well
  formed, so the number of timers plus 256 always is. The loop over the buttons has an 8 bit counter and 256 rounds. The loop over the blocks
  of a buffer has fuel because its 8 bit counter never reaches a bound above 255; 256 rounds are enough below. Every other loop is structural or a fold.

  \<^bold>\<open>Not modelled.\<close> The peer manager above its identifiers and buffers and the event pump of the stack are requests, and what they deliver is
  an input. In the model of the application, whose state they do not share, so are the calls of the application timer and of the
  board support, the pushes of the buttons and the time-outs. The
  drivers and the logging are hardware and output. The phone application and the backend are other
  programs in other languages.
\<close>

end
